(* ===== verification/Prelude.thy ===== *)
theory Prelude
  imports "HOL-Library.Word"
begin

text \<open>
  Shared vocabulary of the development: the machine integers of the program and the few facts
  about them that every component uses. The program's \<open>size_t\<close>, \<open>uint64_t\<close>,
  \<open>uintptr_t\<close> and \<open>CUdeviceptr\<close> are all 64-bit unsigned integers with wrap-around, which is
  exactly \<open>64 word\<close>.
\<close>

type_synonym u64 = "64 word"
type_synonym u32 = "32 word"
type_synonym fd = int

named_theorems inv_intros \<open>introduction rules for the invariants of the components\<close>
named_theorems frame \<open>which parts of a state an operation leaves alone\<close>

text \<open>Moving between \<open>64 word\<close> and \<open>nat\<close>.\<close>

lemma unat_lt_2p64 [simp]: "unat (x :: u64) < 18446744073709551616"
proof -
  have "unat x < 2 ^ LENGTH(64)" by (rule unsigned_less)
  then show ?thesis by simp
qed

lemma u64_add_no_wrap:
  fixes a b :: u64
  assumes "unat a + unat b < 2 ^ 64"
  shows "unat (a + b) = unat a + unat b"
  using assms unat_add_lem [of a b] by simp

lemma u64_add_le_iff:
  fixes a b c :: u64
  assumes "unat a + unat b < 2 ^ 64"
  shows "a + b \<le> c \<longleftrightarrow> unat a + unat b \<le> unat c"
  using u64_add_no_wrap [OF assms] by (simp add: word_le_nat_alt)

lemma u64_sub_no_wrap:
  fixes a b :: u64
  assumes "b \<le> a"
  shows "unat (a - b) = unat a - unat b"
  using assms by (simp add: unat_sub)

lemma u64_neg:
  fixes a :: u64
  assumes "0 < a"
  shows "unat (- a) = 2 ^ 64 - unat a"
proof -
  have "0 < unat a" using assms by (simp add: word_less_nat_alt)
  moreover have "- a = of_nat (2 ^ 64 - unat a)"
  proof -
    have "(of_nat (2 ^ 64 - unat a) :: u64) = of_nat (2 ^ 64) - of_nat (unat a)"
      using less_imp_le [OF unat_lt_2p64 [of a]] by (subst of_nat_diff) simp_all
    then show ?thesis by simp
  qed
  ultimately show ?thesis by (simp add: unsigned_of_nat take_bit_eq_mod)
qed

end
