(* ===== verification/Ord_Map.thy ===== *)
theory Ord_Map
  imports Prelude
begin

text \<open>
  \<open>std::map\<close>: the program keeps every table (tenants, chunks, regions, reservations) in an
  ordered map, iterates over it in key order and searches it with \<open>upper_bound\<close>. It is an
  association list with strictly increasing keys. \<open>ordered_map\<close> is the interface the
  components rely on; its client lemmas (sums over the values of a map) are proved once here.
\<close>

definition om_ok :: "('k::linorder \<times> 'v) list \<Rightarrow> bool" where
  "om_ok m \<longleftrightarrow> sorted_wrt (<) (map fst m)"

text \<open>\<open>m[k] = v\<close>: overwrite or insert at its place in the order.\<close>

fun om_put :: "'k::linorder \<Rightarrow> 'v \<Rightarrow> ('k \<times> 'v) list \<Rightarrow> ('k \<times> 'v) list" where
  "om_put k v [] = [(k, v)]"
| "om_put k v (e # m) =
     (if k < fst e then (k, v) # e # m
      else if fst e < k then e # om_put k v m
      else (k, v) # m)"

text \<open>\<open>m.erase(k)\<close>.\<close>

fun om_del :: "'k::linorder \<Rightarrow> ('k \<times> 'v) list \<Rightarrow> ('k \<times> 'v) list" where
  "om_del k [] = []"
| "om_del k (e # m) = (if fst e = k then m else e # om_del k m)"

text \<open>
  \<open>it = m.upper_bound(k); if (it == m.begin()) none; else --it\<close>: the entry with the greatest
  key that is at most \<open>k\<close>.
\<close>

fun om_floor :: "('k::linorder \<times> 'v) list \<Rightarrow> 'k \<Rightarrow> ('k \<times> 'v) option" where
  "om_floor [] k = None"
| "om_floor (e # m) k =
     (if k < fst e then None
      else case om_floor m k of None \<Rightarrow> Some e | Some e' \<Rightarrow> Some e')"

text \<open>Sum of a quantity over the values of a map.\<close>

definition om_sum :: "('v \<Rightarrow> 'a::comm_monoid_add) \<Rightarrow> ('k \<times> 'v) list \<Rightarrow> 'a" where
  "om_sum f m = (\<Sum>e\<leftarrow>m. f (snd e))"

lemma om_sum_simps [simp]:
  "om_sum f [] = 0"
  "om_sum f (e # m) = f (snd e) + om_sum f m"
  by (simp_all add: om_sum_def)

lemma om_ok_Nil [simp]: "om_ok []"
  by (simp add: om_ok_def)

lemma om_ok_Cons: "om_ok (e # m) \<longleftrightarrow> (\<forall>k \<in> fst ` set m. fst e < k) \<and> om_ok m"
  by (auto simp: om_ok_def)

lemma om_ok_distinct: "om_ok m \<Longrightarrow> distinct (map fst m)"
  by (simp add: om_ok_def strict_sorted_iff)

lemma keys_put: "fst ` set (om_put k v m) = insert k (fst ` set m)"
  by (induction m) auto

lemma keys_del: "fst ` set (om_del k m) \<subseteq> fst ` set m"
  by (induction m) auto

lemma get_put: "map_of (om_put k v m) = (map_of m)(k \<mapsto> v)"
proof (induction m)
  case (Cons e m)
  then show ?case by (cases e) (auto simp: fun_eq_iff)
qed simp

lemma get_del:
  assumes "om_ok m"
  shows "map_of (om_del k m) = (map_of m)(k := None)"
  using assms
proof (induction m)
  case (Cons e m)
  have "map_of m (fst e) = None"
    using Cons.prems by (auto simp: om_ok_Cons map_of_eq_None_iff)
  then show ?case using Cons by (cases e) (auto simp: om_ok_Cons fun_eq_iff)
qed simp

lemma ok_put: "om_ok m \<Longrightarrow> om_ok (om_put k v m)"
  by (induction m) (auto simp: om_ok_Cons keys_put)

lemma ok_del: "om_ok m \<Longrightarrow> om_ok (om_del k m)"
  by (induction m) (use keys_del in \<open>fastforce simp: om_ok_Cons\<close>)+

text \<open>
  The interface of an ordered map, as its clients see it: a lookup function, the two updates, the
  list of entries a \<open>for\<close> loop visits, and the representation invariant.
\<close>

locale ordered_map =
  fixes get :: "'m \<Rightarrow> 'k \<Rightarrow> 'v option"
    and put :: "'k \<Rightarrow> 'v \<Rightarrow> 'm \<Rightarrow> 'm"
    and del :: "'k \<Rightarrow> 'm \<Rightarrow> 'm"
    and entries :: "'m \<Rightarrow> ('k \<times> 'v) list"
    and ok :: "'m \<Rightarrow> bool"
  assumes get_put_law: "get (put k v m) = (get m)(k \<mapsto> v)"
    and get_del_law: "ok m \<Longrightarrow> get (del k m) = (get m)(k := None)"
    and ok_put_law: "ok m \<Longrightarrow> ok (put k v m)"
    and ok_del_law: "ok m \<Longrightarrow> ok (del k m)"
    and get_entries: "get m = map_of (entries m)"
    and distinct_entries: "ok m \<Longrightarrow> distinct (map fst (entries m))"
begin

text \<open>A loop over the entries adds up the values at the keys, each once.\<close>

lemma sum_entries:
  fixes f :: "'v \<Rightarrow> 'a::comm_monoid_add"
  assumes "ok m"
  shows "(\<Sum>e\<leftarrow>entries m. f (snd e)) = (\<Sum>k\<in>dom (get m). f (the (get m k)))"
proof -
  have d: "distinct (map fst (entries m))" using distinct_entries [OF assms] .
  have "(\<Sum>e\<leftarrow>entries m. f (snd e)) = (\<Sum>e\<in>set (entries m). f (snd e))"
    using d by (simp add: distinct_map sum_list_distinct_conv_sum_set)
  also have "\<dots> = (\<Sum>k\<in>fst ` set (entries m). f (the (get m k)))"
  proof (rule sum.reindex_cong [symmetric, where l = fst])
    show "inj_on fst (set (entries m))" using d by (simp add: distinct_map)
    show "fst ` set (entries m) = fst ` set (entries m)" ..
    show "f (the (get m (fst e))) = f (snd e)" if "e \<in> set (entries m)" for e
    proof -
      have "map_of (entries m) (fst e) = Some (snd e)" using d that by simp
      then show ?thesis by (simp add: get_entries)
    qed
  qed
  finally show ?thesis by (simp add: get_entries dom_map_of_conv_image_fst)
qed

lemma finite_dom: "finite (dom (get m))"
  by (simp add: get_entries finite_dom_map_of)

lemma sum_except:
  fixes f :: "'v \<Rightarrow> 'a::ab_group_add"
  shows "(\<Sum>i\<in>dom (get m) - {k}. f (the (get m i))) =
    (\<Sum>i\<in>dom (get m). f (the (get m i))) - (case get m k of None \<Rightarrow> 0 | Some w \<Rightarrow> f w)"
proof (cases "get m k")
  case None
  then have "dom (get m) - {k} = dom (get m)" by auto
  then show ?thesis using None by simp
next
  case (Some w)
  then have "k \<in> dom (get m)" by auto
  then show ?thesis using Some by (simp add: sum_diff1 finite_dom)
qed

text \<open>How a sum over the map changes when an entry is written or erased.\<close>

lemma sum_put:
  fixes f :: "'v \<Rightarrow> 'a::ab_group_add"
  assumes "ok m"
  shows "(\<Sum>e\<leftarrow>entries (put k v m). f (snd e)) =
    (\<Sum>e\<leftarrow>entries m. f (snd e)) - (case get m k of None \<Rightarrow> 0 | Some w \<Rightarrow> f w) + f v"
proof -
  let ?g = "\<lambda>i. f (the (get m i))"
  have "(\<Sum>i\<in>dom (get (put k v m)). f (the (get (put k v m) i)))
      = f v + (\<Sum>i\<in>dom (get m) - {k}. f (the (get (put k v m) i)))"
    by (simp add: get_put_law sum.insert_remove finite_dom)
  also have "(\<Sum>i\<in>dom (get m) - {k}. f (the (get (put k v m) i))) = (\<Sum>i\<in>dom (get m) - {k}. ?g i)"
    by (rule sum.cong) (auto simp: get_put_law)
  also have "\<dots> = (\<Sum>i\<in>dom (get m). ?g i) - (case get m k of None \<Rightarrow> 0 | Some w \<Rightarrow> f w)"
    by (rule sum_except)
  finally show ?thesis
    using assms by (simp add: sum_entries ok_put_law algebra_simps)
qed

lemma sum_del:
  fixes f :: "'v \<Rightarrow> 'a::ab_group_add"
  assumes "ok m"
  shows "(\<Sum>e\<leftarrow>entries (del k m). f (snd e)) =
    (\<Sum>e\<leftarrow>entries m. f (snd e)) - (case get m k of None \<Rightarrow> 0 | Some w \<Rightarrow> f w)"
proof -
  let ?g = "\<lambda>i. f (the (get m i))"
  have "(\<Sum>i\<in>dom (get (del k m)). f (the (get (del k m) i))) = (\<Sum>i\<in>dom (get m) - {k}. ?g i)"
    using assms by (intro sum.cong) (auto simp: get_del_law)
  also have "\<dots> = (\<Sum>i\<in>dom (get m). ?g i) - (case get m k of None \<Rightarrow> 0 | Some w \<Rightarrow> f w)"
    by (rule sum_except)
  finally show ?thesis using assms by (simp add: sum_entries ok_del_law)
qed

end

interpretation om: ordered_map map_of om_put om_del "\<lambda>m. m" om_ok
  by unfold_locales (simp_all add: get_put get_del ok_put ok_del om_ok_distinct)

lemma om_sum_put:
  fixes f :: "'v \<Rightarrow> 'a::ab_group_add"
  assumes "om_ok m"
  shows "om_sum f (om_put k v m) =
    om_sum f m - (case map_of m k of None \<Rightarrow> 0 | Some w \<Rightarrow> f w) + f v"
  unfolding om_sum_def by (rule om.sum_put [OF assms])

lemma om_sum_del:
  fixes f :: "'v \<Rightarrow> 'a::ab_group_add"
  assumes "om_ok m"
  shows "om_sum f (om_del k m) =
    om_sum f m - (case map_of m k of None \<Rightarrow> 0 | Some w \<Rightarrow> f w)"
  unfolding om_sum_def by (rule om.sum_del [OF assms])

text \<open>What \<open>upper_bound\<close> followed by \<open>--it\<close> finds.\<close>

lemma floor_None_iff: "om_ok m \<Longrightarrow> om_floor m k = None \<longleftrightarrow> (\<forall>i \<in> fst ` set m. k < i)"
proof (induction m)
  case (Cons e m)
  then show ?case by (cases "om_floor m k") (auto simp: om_ok_Cons split: if_splits)
qed simp

lemma floor_Some:
  assumes "om_ok m" and "om_floor m k = Some (b, v)"
  shows "map_of m b = Some v" and "b \<le> k" and "\<And>i. i \<in> dom (map_of m) \<Longrightarrow> i \<le> k \<Longrightarrow> i \<le> b"
proof -
  have "(b, v) \<in> set m \<and> b \<le> k \<and> (\<forall>i \<in> fst ` set m. i \<le> k \<longrightarrow> i \<le> b)"
    using assms
  proof (induction m)
    case (Cons e m)
    show ?case
    proof (cases "om_floor m k")
      case None
      then have "\<forall>i \<in> fst ` set m. k < i"
        using Cons.prems floor_None_iff by (auto simp: om_ok_Cons)
      then show ?thesis using None Cons.prems by (auto split: if_splits)
    next
      case (Some e')
      then have "e' = (b, v)" using Cons.prems by (auto split: if_splits)
      then have "(b, v) \<in> set m \<and> b \<le> k \<and> (\<forall>i \<in> fst ` set m. i \<le> k \<longrightarrow> i \<le> b)"
        using Some Cons by (auto simp: om_ok_Cons)
      then show ?thesis using Cons.prems by (force simp: om_ok_Cons)
    qed
  qed simp
  then show "map_of m b = Some v" "b \<le> k"
    "\<And>i. i \<in> dom (map_of m) \<Longrightarrow> i \<le> k \<Longrightarrow> i \<le> b"
    using om_ok_distinct [OF assms(1)] by (auto simp: dom_map_of_conv_image_fst)
qed

text \<open>Writing and erasing the same key.\<close>

lemma om_put_same:
  assumes "om_ok m" and "map_of m k = Some v"
  shows "om_put k v m = m"
  using assms
proof (induction m)
  case (Cons e m)
  show ?case
  proof (cases "fst e = k")
    case True
    then show ?thesis using Cons.prems by (cases e) simp
  next
    case False
    then have "map_of m k = Some v" using Cons.prems(2) by (cases e) (simp split: if_splits)
    moreover from this have "fst e < k"
      using Cons.prems(1) map_of_SomeD by (fastforce simp: om_ok_Cons)
    ultimately show ?thesis using Cons by (auto simp: om_ok_Cons)
  qed
qed simp

lemma om_put_put: "om_ok m \<Longrightarrow> om_put k w (om_put k v m) = om_put k w m"
  by (induction m) (auto simp: om_ok_Cons)

lemma om_del_absent: "map_of m k = None \<Longrightarrow> om_del k m = m"
  by (induction m) (auto split: if_splits)

lemma om_del_put: "om_ok m \<Longrightarrow> om_del k (om_put k v m) = om_del k m"
proof (induction m)
  case (Cons e m)
  have "om_del k m = m" if "k < fst e"
  proof (rule om_del_absent)
    show "map_of m k = None" using Cons.prems that by (fastforce simp: om_ok_Cons map_of_eq_None_iff)
  qed
  then show ?case using Cons by (auto simp: om_ok_Cons)
qed simp

lemma om_put_snoc: "om_ok (m @ [(k, v)]) \<Longrightarrow> om_put k v m = m @ [(k, v)]"
  by (induction m) (auto simp: om_ok_Cons)

lemma om_ok_append: "om_ok (m @ m') \<Longrightarrow> om_ok m \<and> om_ok m'"
  by (simp add: om_ok_def sorted_wrt_append)

lemmas om_simps = get_put get_del ok_put ok_del

end
