(* ===== verification/Wire.thy ===== *)
theory Wire
  imports Ord_Map
begin

text \<open>
  The types shared by allocator, backends and broker (\<open>libvmem/src/backend.h\<close>) and the wire
  protocol (\<open>libvmem/src/protocol.h\<close>): the message and reply structs and their byte layout on
  the \<open>SOCK_SEQPACKET\<close> socket (x86-64: little endian, natural alignment).
\<close>

section \<open>Shared types\<close>

datatype Loc = Device | Host

datatype Status = Ok | NoMemory | Unsupported | Disconnected | Fatal

datatype Link = Connected | Local | Broken

definition loc_name :: "Loc \<Rightarrow> string" where
  "loc_name l = (if l = Device then ''device'' else ''host'')"

fun status_name :: "Status \<Rightarrow> string" where
  "status_name Ok = ''ok''"
| "status_name NoMemory = ''no memory''"
| "status_name Unsupported = ''unsupported''"
| "status_name Disconnected = ''disconnected''"
| "status_name Fatal = ''fatal''"

definition link_name :: "Link \<Rightarrow> string" where
  "link_name l = (if l = Connected then ''connected'' else if l = Local then ''local'' else ''broken'')"

record Chunk =
  c_ptr :: u64
  c_size :: u64
  c_loc :: Loc

text \<open>\<open>Chunk c = {}\<close>: the default member initialisers.\<close>

definition null_chunk :: Chunk where
  "null_chunk = \<lparr>c_ptr = 0, c_size = 0, c_loc = Device\<rparr>"

lemma Loc_cases_not [simp]: "(l \<noteq> Device) = (l = Host)" "(l \<noteq> Host) = (l = Device)"
  by (cases l; simp)+

section \<open>Messages\<close>

definition NAME_LEN :: nat where "NAME_LEN = 32"

text \<open>
  \<open>enum class Type : uint32_t\<close>. A message on the wire can carry any 32-bit type; the broker has a
  \<open>default\<close> branch for the ones that are no enumerator.
\<close>

datatype MsgType = Hello | Alloc | AllocFail | Free | Move | MoveDone | Resync | OtherType u32

record Msg =
  m_type :: MsgType
  m_loc :: Loc
  m_ptr :: u64
  m_size :: u64
  m_name :: string

record Reply =
  r_status :: Status
  r_loc :: Loc

definition msg :: "MsgType \<Rightarrow> Loc \<Rightarrow> u64 \<Rightarrow> u64 \<Rightarrow> Msg" where
  \<comment> \<open>aggregate initialisation \<open>{type, loc, ptr, size}\<close>; the name is zero-filled\<close>
  "msg t l p n = \<lparr>m_type = t, m_loc = l, m_ptr = p, m_size = n,
     m_name = replicate NAME_LEN (CHR 0x00)\<rparr>"

lemma msg_sel [simp]:
  "m_type (msg t l p n) = t" "m_loc (msg t l p n) = l" "m_ptr (msg t l p n) = p"
  "m_size (msg t l p n) = n" "m_name (msg t l p n) = replicate NAME_LEN (CHR 0x00)"
  by (simp_all add: msg_def)

definition msg_wf :: "Msg \<Rightarrow> bool" where
  "msg_wf m \<longleftrightarrow> length (m_name m) = NAME_LEN \<and>
     (\<forall>w. m_type m = OtherType w \<longrightarrow> 6 < unat w)"

section \<open>Byte layout\<close>

type_synonym byte = "8 word"

fun le_bytes :: "nat \<Rightarrow> nat \<Rightarrow> byte list" where
  "le_bytes 0 v = []"
| "le_bytes (Suc n) v = of_nat (v mod 256) # le_bytes n (v div 256)"

fun le_val :: "byte list \<Rightarrow> nat" where
  "le_val [] = 0"
| "le_val (b # bs) = unat b + 256 * le_val bs"

fun type_code :: "MsgType \<Rightarrow> nat" where
  "type_code Hello = 0"
| "type_code Alloc = 1"
| "type_code AllocFail = 2"
| "type_code Free = 3"
| "type_code Move = 4"
| "type_code MoveDone = 5"
| "type_code Resync = 6"
| "type_code (OtherType w) = unat w"

definition type_of_code :: "nat \<Rightarrow> MsgType" where
  "type_of_code n =
     (if n = 0 then Hello else if n = 1 then Alloc else if n = 2 then AllocFail
      else if n = 3 then Free else if n = 4 then Move else if n = 5 then MoveDone
      else if n = 6 then Resync else OtherType (of_nat n))"

fun loc_code :: "Loc \<Rightarrow> nat" where
  "loc_code Device = 0"
| "loc_code Host = 1"

definition loc_of_code :: "nat \<Rightarrow> Loc option" where
  "loc_of_code n = (if n = 0 then Some Device else if n = 1 then Some Host else None)"

fun status_code :: "Status \<Rightarrow> nat" where
  "status_code Ok = 0"
| "status_code NoMemory = 1"
| "status_code Unsupported = 2"
| "status_code Disconnected = 3"
| "status_code Fatal = 4"

definition status_of_code :: "nat \<Rightarrow> Status option" where
  "status_of_code n =
     (if n = 0 then Some Ok else if n = 1 then Some NoMemory else if n = 2 then Some Unsupported
      else if n = 3 then Some Disconnected else if n = 4 then Some Fatal else None)"

text \<open>\<open>struct Msg\<close>: type at 0, loc at 4, ptr at 8, size at 16, name at 24, 56 bytes in all.\<close>

definition MSG_SIZE :: nat where "MSG_SIZE = 56"

definition encode_msg :: "Msg \<Rightarrow> byte list" where
  "encode_msg m = le_bytes 4 (type_code (m_type m)) @ le_bytes 4 (loc_code (m_loc m)) @
     le_bytes 8 (unat (m_ptr m)) @ le_bytes 8 (unat (m_size m)) @
     map (\<lambda>c. of_nat (of_char c)) (m_name m)"

text \<open>
  Reading the struct back from exactly \<open>MSG_SIZE\<close> bytes. \<open>None\<close> stands for a location field that
  is neither enumerator: the program never writes one, and it is outside this model.
\<close>

definition decode_msg :: "byte list \<Rightarrow> Msg option" where
  "decode_msg bs =
     (case loc_of_code (le_val (take 4 (drop 4 bs))) of
        None \<Rightarrow> None
      | Some l \<Rightarrow> Some \<lparr>m_type = type_of_code (le_val (take 4 bs)), m_loc = l,
           m_ptr = of_nat (le_val (take 8 (drop 8 bs))),
           m_size = of_nat (le_val (take 8 (drop 16 bs))),
           m_name = map (\<lambda>b. char_of (unat b)) (take 32 (drop 24 bs))\<rparr>)"

text \<open>\<open>struct Reply\<close>: status at 0, loc at 4, 8 bytes.\<close>

definition REPLY_SIZE :: nat where "REPLY_SIZE = 8"

definition encode_reply :: "Reply \<Rightarrow> byte list" where
  "encode_reply r = le_bytes 4 (status_code (r_status r)) @ le_bytes 4 (loc_code (r_loc r))"

definition decode_reply :: "byte list \<Rightarrow> Reply option" where
  "decode_reply bs =
     (case status_of_code (le_val (take 4 bs)) of
        None \<Rightarrow> None
      | Some s \<Rightarrow> (case loc_of_code (le_val (take 4 (drop 4 bs))) of
            None \<Rightarrow> None
          | Some l \<Rightarrow> Some \<lparr>r_status = s, r_loc = l\<rparr>))"

subsection \<open>Round trips\<close>

lemma length_le_bytes [simp]: "length (le_bytes n v) = n"
  by (induction n v rule: le_bytes.induct) simp_all

lemma le_val_le_bytes: "v < 256 ^ n \<Longrightarrow> le_val (le_bytes n v) = v"
proof (induction n v rule: le_bytes.induct)
  case (2 n v)
  have "v div 256 < 256 ^ n" using "2.prems" by (simp add: less_mult_imp_div_less)
  then have "le_val (le_bytes n (v div 256)) = v div 256" by (rule "2.IH")
  then show ?case by (simp add: unsigned_of_nat take_bit_eq_mod)
qed simp

lemma type_code_roundtrip:
  "(\<forall>w. t = OtherType w \<longrightarrow> 6 < unat w) \<Longrightarrow> type_of_code (type_code t) = t"
  by (cases t) (auto simp: type_of_code_def)

lemma type_code_bound: "type_code t < 2 ^ 32"
proof (cases t)
  case (OtherType w)
  have "unat w < 2 ^ LENGTH(32)" by (rule unsigned_less)
  then show ?thesis using OtherType by simp
qed simp_all

lemma loc_code_roundtrip [simp]: "loc_of_code (loc_code l) = Some l"
  by (cases l) (simp_all add: loc_of_code_def)

lemma status_code_roundtrip [simp]: "status_of_code (status_code s) = Some s"
  by (cases s) (simp_all add: status_of_code_def)

lemma field_roundtrips:
  "le_val (le_bytes 4 (loc_code l)) = loc_code l"
  "le_val (le_bytes 4 (status_code s)) = status_code s"
  "le_val (le_bytes 4 (type_code t)) = type_code t"
  "le_val (le_bytes 8 (unat (x :: u64))) = unat x"
proof -
  have "loc_code l < 256 ^ 4" by (cases l) simp_all
  then show "le_val (le_bytes 4 (loc_code l)) = loc_code l" by (rule le_val_le_bytes)
  have "status_code s < 256 ^ 4" by (cases s) simp_all
  then show "le_val (le_bytes 4 (status_code s)) = status_code s" by (rule le_val_le_bytes)
  have "type_code t < 256 ^ 4" using type_code_bound [of t] by simp
  then show "le_val (le_bytes 4 (type_code t)) = type_code t" by (rule le_val_le_bytes)
  have "unat x < 256 ^ 8" using unat_lt_2p64 [of x] by simp
  then show "le_val (le_bytes 8 (unat x)) = unat x" by (rule le_val_le_bytes)
qed

lemma char_byte_roundtrip [simp]: "char_of (unat (of_nat (of_char c) :: byte)) = (c :: char)"
  by (simp add: unsigned_of_nat take_bit_eq_mod)

lemma length_encode_msg: "msg_wf m \<Longrightarrow> length (encode_msg m) = MSG_SIZE"
  by (simp add: encode_msg_def msg_wf_def NAME_LEN_def MSG_SIZE_def)

lemma msg_decode:
  assumes "msg_wf m"
  shows "decode_msg (encode_msg m) = Some m"
proof -
  have n: "take 32 (m_name m) = m_name m" using assms by (simp add: msg_wf_def NAME_LEN_def)
  have "map (\<lambda>b. char_of (unat b)) (map (\<lambda>c. of_nat (of_char c) :: byte) (m_name m)) = m_name m"
    by (simp add: comp_def)
  then show ?thesis
    using assms n
    by (simp add: decode_msg_def encode_msg_def field_roundtrips type_code_roundtrip
        msg_wf_def NAME_LEN_def take_map comp_def)
qed

text \<open>
  Wire format: every message the program builds occupies exactly 56 bytes (the static assertion
  of protocol.h) and the receiver that reads those bytes into its struct gets the message back, field
  by field, whatever its pointer, size and name.
\<close>

theorem msg_roundtrip:
  assumes "msg_wf m"
  shows "length (encode_msg m) = MSG_SIZE \<and> decode_msg (encode_msg m) = Some m"
  using length_encode_msg [OF assms] msg_decode [OF assms] by simp

theorem msg_roundtrip_witness:
  "decode_msg (encode_msg (msg Alloc Device 0x7f0000200000 0x400000)) =
     Some (msg Alloc Device 0x7f0000200000 0x400000)"
proof -
  have "msg_wf (msg Alloc Device 0x7f0000200000 0x400000)"
    by (simp add: msg_wf_def msg_def)
  from msg_roundtrip [OF this] show ?thesis by simp
qed

lemma reply_roundtrip:
  "length (encode_reply r) = REPLY_SIZE \<and> decode_reply (encode_reply r) = Some r"
  by (simp add: encode_reply_def decode_reply_def REPLY_SIZE_def field_roundtrips)

end
