(* ===== verification/Driver.thy ===== *)
theory Driver
  imports Wire
begin

text \<open>
  What lies outside the library: the CUDA driver and the operating system. They are a parameter, the
  record \<open>Env\<close> of answer functions, each of which sees the whole history of calls; nothing about
  them is built in. \<open>replay\<close> reads a history as the driver documentation does: which ranges are
  reserved, which handles are live, what is mapped where and with which data. The properties of the
  backends speak about it.
\<close>

section \<open>Calls and answers\<close>

datatype CUresult = CUDA_SUCCESS | CUDA_ERROR_OUT_OF_MEMORY | CUDA_ERROR nat

datatype LocType = LocDevice | LocHostNuma

text \<open>\<open>CUmemAllocationProp\<close>: the fields the code sets (the type is always PINNED).\<close>

record Prop =
  p_type :: LocType
  p_id :: int

datatype Attr = VmmSupported | HostVmmSupported | HostNumaId

text \<open>What a \<open>recv\<close> of a \<open>Reply\<close> gives once it is not interrupted by a signal.\<close>

datatype RecvRes =
    RecvError int    \<comment> \<open>\<open>n < 0\<close>, with \<open>errno\<close> (a timeout is EAGAIN)\<close>
  | RecvReply Reply  \<comment> \<open>\<open>n = sizeof rep\<close>\<close>
  | RecvShort        \<comment> \<open>any other length, 0 when the peer closed\<close>

text \<open>One call that changes the outside, with its arguments and its answer.\<close>

datatype call =
    EReserve u64 CUresult u64             \<comment> \<open>cuMemAddressReserve: size, result, address\<close>
  | EAddrFree u64 u64 CUresult            \<comment> \<open>cuMemAddressFree: address, size\<close>
  | ECreate u64 Prop CUresult u64         \<comment> \<open>cuMemCreate: size, placement, result, handle\<close>
  | ERelease u64 CUresult                 \<comment> \<open>cuMemRelease: handle\<close>
  | EMap u64 u64 u64 CUresult             \<comment> \<open>cuMemMap: address, size, handle\<close>
  | EUnmap u64 u64 CUresult               \<comment> \<open>cuMemUnmap: address, size\<close>
  | ESetAccess u64 u64 int CUresult       \<comment> \<open>cuMemSetAccess: address, size, device\<close>
  | ECopy u64 u64 u64 CUresult            \<comment> \<open>cuMemcpyDtoD: destination, source, size\<close>
  | ECtxSync CUresult                     \<comment> \<open>cuCtxSynchronize\<close>
  | ESocket int int                       \<comment> \<open>socket: descriptor, errno\<close>
  | EConnect int int                      \<comment> \<open>setsockopt and connect: descriptor, errno (0: done)\<close>
  | EClose int                            \<comment> \<open>close\<close>
  | ESend int Msg int                     \<comment> \<open>send: descriptor, message, errno (0: all sent)\<close>
  | EInterrupted                          \<comment> \<open>recv returned EINTR\<close>
  | ERecv int RecvRes                     \<comment> \<open>recv\<close>
  | EWrite u64 nat                        \<comment> \<open>the application writes the range at an address\<close>

type_synonym history = "call list"

text \<open>
  The answers. \<open>env_interrupts\<close> is how often signals interrupt a receive before it returns something
  else.
\<close>

record Env =
  env_set_device :: "int \<Rightarrow> bool"
  env_context :: bool
  env_attr :: "Attr \<Rightarrow> int \<Rightarrow> int option"
  env_granularity :: "Prop \<Rightarrow> CUresult \<times> u64"
  env_error_name :: "CUresult \<Rightarrow> string"
  env_strerror :: "int \<Rightarrow> string"
  env_progname :: string
  env_reserve :: "history \<Rightarrow> u64 \<Rightarrow> u64 \<Rightarrow> CUresult \<times> u64"
  env_addr_free :: "history \<Rightarrow> u64 \<Rightarrow> u64 \<Rightarrow> CUresult"
  env_create :: "history \<Rightarrow> u64 \<Rightarrow> Prop \<Rightarrow> CUresult \<times> u64"
  env_release :: "history \<Rightarrow> u64 \<Rightarrow> CUresult"
  env_map :: "history \<Rightarrow> u64 \<Rightarrow> u64 \<Rightarrow> u64 \<Rightarrow> CUresult"
  env_unmap :: "history \<Rightarrow> u64 \<Rightarrow> u64 \<Rightarrow> CUresult"
  env_set_access :: "history \<Rightarrow> u64 \<Rightarrow> u64 \<Rightarrow> int \<Rightarrow> CUresult"
  env_copy :: "history \<Rightarrow> u64 \<Rightarrow> u64 \<Rightarrow> u64 \<Rightarrow> CUresult"
  env_ctx_sync :: "history \<Rightarrow> CUresult"
  env_socket :: "history \<Rightarrow> int \<times> int"
  env_connect :: "history \<Rightarrow> int \<Rightarrow> int"
  env_send :: "history \<Rightarrow> int \<Rightarrow> Msg \<Rightarrow> int"
  env_interrupts :: "history \<Rightarrow> nat"
  env_recv :: "history \<Rightarrow> int \<Rightarrow> RecvRes"

section \<open>Reading a history\<close>

text \<open>
  The driver's state for one process: reserved ranges with their size, live handles with size,
  placement and the data their memory holds (an abstract token, \<open>None\<close>: undefined), and mappings
  (address to size, handle, and the device that may access it).
\<close>

record Drv =
  d_reserved :: "u64 \<Rightarrow> u64 option"
  d_handles :: "u64 \<Rightarrow> (u64 \<times> Prop \<times> nat option) option"
  d_mapped :: "u64 \<Rightarrow> (u64 \<times> u64 \<times> int option) option"

definition no_drv :: Drv where
  "no_drv = \<lparr>d_reserved = (\<lambda>_. None), d_handles = (\<lambda>_. None), d_mapped = (\<lambda>_. None)\<rparr>"

text \<open>
  The documented effect of a call that succeeded; a call that failed, or whose arguments do not fit
  (a range that is not reserved, mapped, or of that size), changes nothing. A new handle's data is
  undefined. Releasing a mapped handle is a deferred free in the driver; here the handle is no longer
  live from the call on.
\<close>

definition free_range :: "u64 \<Rightarrow> u64 \<Rightarrow> Drv \<Rightarrow> Drv" where
  "free_range va n d =
     (if d_reserved d va = Some n \<and> d_mapped d va = None
      then d\<lparr>d_reserved := (d_reserved d)(va := None)\<rparr> else d)"

definition map_range :: "u64 \<Rightarrow> u64 \<Rightarrow> u64 \<Rightarrow> Drv \<Rightarrow> Drv" where
  "map_range va n h d =
     (if d_reserved d va = Some n \<and> d_mapped d va = None \<and> map_option fst (d_handles d h) = Some n
      then d\<lparr>d_mapped := (d_mapped d)(va \<mapsto> (n, h, None))\<rparr> else d)"

definition unmap_range :: "u64 \<Rightarrow> u64 \<Rightarrow> Drv \<Rightarrow> Drv" where
  "unmap_range va n d =
     (if map_option fst (d_mapped d va) = Some n
      then d\<lparr>d_mapped := (d_mapped d)(va := None)\<rparr> else d)"

definition allow_range :: "u64 \<Rightarrow> u64 \<Rightarrow> int \<Rightarrow> Drv \<Rightarrow> Drv" where
  "allow_range va n dev d =
     (case d_mapped d va of
        Some (n', h, _) \<Rightarrow> if n' = n then d\<lparr>d_mapped := (d_mapped d)(va \<mapsto> (n, h, Some dev))\<rparr> else d
      | None \<Rightarrow> d)"

text \<open>What is read at an address, and writing to it.\<close>

definition handle_at :: "u64 \<Rightarrow> u64 \<Rightarrow> Drv \<Rightarrow> u64 option" where
  "handle_at va n d =
     (case d_mapped d va of Some (n', h, Some _) \<Rightarrow> if n' = n then Some h else None | _ \<Rightarrow> None)"

definition data_of :: "u64 \<Rightarrow> Drv \<Rightarrow> nat option" where
  "data_of h d = (case d_handles d h of Some (_, _, x) \<Rightarrow> x | None \<Rightarrow> None)"

definition set_data :: "u64 \<Rightarrow> nat option \<Rightarrow> Drv \<Rightarrow> Drv" where
  "set_data h x d =
     (case d_handles d h of
        Some (n, p, _) \<Rightarrow> d\<lparr>d_handles := (d_handles d)(h \<mapsto> (n, p, x))\<rparr>
      | None \<Rightarrow> d)"

definition copy_range :: "u64 \<Rightarrow> u64 \<Rightarrow> u64 \<Rightarrow> Drv \<Rightarrow> Drv" where
  "copy_range dst src n d =
     (case (handle_at dst n d, handle_at src n d) of
        (Some hto, Some hfrom) \<Rightarrow> set_data hto (data_of hfrom d) d
      | _ \<Rightarrow> d)"

definition write_range :: "u64 \<Rightarrow> nat \<Rightarrow> Drv \<Rightarrow> Drv" where
  "write_range va x d =
     (case d_mapped d va of Some (_, h, Some _) \<Rightarrow> set_data h (Some x) d | _ \<Rightarrow> d)"

fun apply_call :: "call \<Rightarrow> Drv \<Rightarrow> Drv" where
  "apply_call (EReserve n r va) d =
     (if r = CUDA_SUCCESS then d\<lparr>d_reserved := (d_reserved d)(va \<mapsto> n)\<rparr> else d)"
| "apply_call (EAddrFree va n r) d = (if r = CUDA_SUCCESS then free_range va n d else d)"
| "apply_call (ECreate n p r h) d =
     (if r = CUDA_SUCCESS then d\<lparr>d_handles := (d_handles d)(h \<mapsto> (n, p, None))\<rparr> else d)"
| "apply_call (ERelease h r) d = (if r = CUDA_SUCCESS then d\<lparr>d_handles := (d_handles d)(h := None)\<rparr> else d)"
| "apply_call (EMap va n h r) d = (if r = CUDA_SUCCESS then map_range va n h d else d)"
| "apply_call (EUnmap va n r) d = (if r = CUDA_SUCCESS then unmap_range va n d else d)"
| "apply_call (ESetAccess va n dev r) d = (if r = CUDA_SUCCESS then allow_range va n dev d else d)"
| "apply_call (ECopy dst src n r) d = (if r = CUDA_SUCCESS then copy_range dst src n d else d)"
| "apply_call (EWrite va x) d = write_range va x d"
| "apply_call _ d = d"

definition drv :: "history \<Rightarrow> Drv" where
  "drv hs = fold apply_call hs no_drv"

lemma drv_append [simp]: "drv (hs @ es) = fold apply_call es (drv hs)"
  by (simp add: drv_def)

section \<open>What the documentation promises\<close>

text \<open>The range of \<open>n\<close> bytes at \<open>va\<close> does not wrap and overlaps no reserved range.\<close>

definition apart :: "u64 \<Rightarrow> u64 \<Rightarrow> u64 \<Rightarrow> u64 \<Rightarrow> bool" where
  "apart a m b n \<longleftrightarrow> unat a + unat m \<le> unat b \<or> unat b + unat n \<le> unat a"

definition free_span :: "u64 \<Rightarrow> u64 \<Rightarrow> Drv \<Rightarrow> bool" where
  "free_span va n d \<longleftrightarrow> unat va + unat n < 2 ^ 64 \<and>
     (\<forall>a m. d_reserved d a = Some m \<longrightarrow> apart a m va n)"

text \<open>
  A new range or handle is not one in use or overlapping one, and no range starts at 0. Giving back what is held works:
  releasing a live handle, freeing a reserved range with nothing mapped, and unmapping a mapped range
  outside \<open>busy\<close> succeed. Mapping over a mapped range fails. Every other call may fail at any time and with any error, and so may the
  unmapping of a range in \<open>busy\<close>; nothing is assumed of the socket or of what the broker replies.
\<close>

definition well_behaved :: "u64 set \<Rightarrow> Env \<Rightarrow> bool" where
  "well_behaved busy env \<longleftrightarrow>
     (\<forall>hs n g va. env_reserve env hs n g = (CUDA_SUCCESS, va) \<longrightarrow>
        va \<noteq> 0 \<and> d_reserved (drv hs) va = None \<and> d_mapped (drv hs) va = None \<and>
        free_span va n (drv hs)) \<and>
     (\<forall>hs n p h. env_create env hs n p = (CUDA_SUCCESS, h) \<longrightarrow> d_handles (drv hs) h = None) \<and>
     (\<forall>hs h. d_handles (drv hs) h \<noteq> None \<longrightarrow> env_release env hs h = CUDA_SUCCESS) \<and>
     (\<forall>hs va n. d_reserved (drv hs) va = Some n \<and> d_mapped (drv hs) va = None \<longrightarrow>
        env_addr_free env hs va n = CUDA_SUCCESS) \<and>
     (\<forall>hs va n. va \<notin> busy \<and> map_option fst (d_mapped (drv hs) va) = Some n \<longrightarrow>
        env_unmap env hs va n = CUDA_SUCCESS) \<and>
     (\<forall>hs va n h. d_mapped (drv hs) va \<noteq> None \<longrightarrow> env_map env hs va n h \<noteq> CUDA_SUCCESS)"

lemma well_behavedD:
  assumes "well_behaved busy env"
  shows "env_reserve env hs n g = (CUDA_SUCCESS, va) \<Longrightarrow>
      va \<noteq> 0 \<and> d_reserved (drv hs) va = None \<and> d_mapped (drv hs) va = None \<and> free_span va n (drv hs)"
    and "env_create env hs n p = (CUDA_SUCCESS, h) \<Longrightarrow> d_handles (drv hs) h = None"
    and "d_handles (drv hs) h \<noteq> None \<Longrightarrow> env_release env hs h = CUDA_SUCCESS"
    and "d_reserved (drv hs) va = Some n \<Longrightarrow> d_mapped (drv hs) va = None \<Longrightarrow>
      env_addr_free env hs va n = CUDA_SUCCESS"
    and "va \<notin> busy \<Longrightarrow> map_option fst (d_mapped (drv hs) va) = Some n \<Longrightarrow>
      env_unmap env hs va n = CUDA_SUCCESS"
    and "d_mapped (drv hs) va \<noteq> None \<Longrightarrow> env_map env hs va n h \<noteq> CUDA_SUCCESS"
  using assms unfolding well_behaved_def by metis+

text \<open>Calls on the socket do not concern the driver.\<close>

fun link_call :: "call \<Rightarrow> bool" where
  "link_call (ESocket _ _) = True"
| "link_call (EConnect _ _) = True"
| "link_call (EClose _) = True"
| "link_call (ESend _ _ _) = True"
| "link_call EInterrupted = True"
| "link_call (ERecv _ _) = True"
| "link_call _ = False"

lemma apply_link [simp]: "link_call e \<Longrightarrow> apply_call e d = d"
  by (cases e) simp_all

end
