(* ===== verification/Vmem_Backend.thy ===== *)
theory Vmem_Backend
  imports Driver
begin

text \<open>
  The \<open>vmem\<close> backend (\<open>libvmem/src/backends/vmem.h\<close>): VMM chunks, each one address range with one
  handle mapped over it, and the link to the broker. Every operation takes the environment and the
  object's state and returns its result with the new state; the calls it makes are appended to the
  history \<open>v_calls\<close>.
\<close>

section \<open>State\<close>

record Rec =
  r_h :: u64
  r_size :: u64
  r_locn :: Loc

record Vmem =
  v_dev :: int
  v_numa :: int
  v_gran :: u64
  v_auto :: bool
  v_used :: "Loc \<Rightarrow> u64"
  v_chunks :: "(u64 \<times> Rec) list"
  v_name :: string
  v_path :: string
  v_fd :: int
  v_link :: Link
  v_err :: string
  v_calls :: history

text \<open>The default member initialisers; no call made yet.\<close>

definition new_vmem :: Vmem where
  "new_vmem = \<lparr>v_dev = 0, v_numa = 0, v_gran = 0, v_auto = False, v_used = (\<lambda>_. 0), v_chunks = [],
     v_name = [], v_path = [], v_fd = -1, v_link = Local, v_err = [], v_calls = []\<rparr>"

record BackendConfig =
  bc_device :: int
  bc_daemon :: "string option"
  bc_name :: "string option"
  bc_auto :: bool

text \<open>\<open>std::map::at\<close> throws \<open>std::out_of_range\<close> on a missing key: \<open>OutOfRange\<close>.\<close>

datatype 'a result = Ret 'a | OutOfRange

definition made :: "call \<Rightarrow> Vmem \<Rightarrow> Vmem" where
  "made e v = v\<lparr>v_calls := v_calls v @ [e]\<rparr>"

definition set_err :: "string \<Rightarrow> Vmem \<Rightarrow> Vmem" where
  "set_err s v = v\<lparr>v_err := s\<rparr>"

section \<open>Driver calls\<close>

text \<open>\<open>cu\<close>: out of memory is not sticky, anything else is fatal.\<close>

definition cu :: "Env \<Rightarrow> CUresult \<Rightarrow> string \<Rightarrow> Vmem \<Rightarrow> Status \<times> Vmem" where
  "cu env r what v =
     (if r = CUDA_SUCCESS then (Ok, v)
      else (if r = CUDA_ERROR_OUT_OF_MEMORY then NoMemory else Fatal,
            set_err (what @ '': '' @ env_error_name env r) v))"

definition prop_at :: "Vmem \<Rightarrow> Loc \<Rightarrow> Prop" where
  "prop_at v l =
     \<lparr>p_type = (if l = Device then LocDevice else LocHostNuma),
      p_id = (if l = Device then v_dev v else v_numa v)\<rparr>"

definition reserve :: "Env \<Rightarrow> u64 \<Rightarrow> Vmem \<Rightarrow> Status \<times> u64 \<times> Vmem" where
  \<comment> \<open>\<open>cu(cuMemAddressReserve(&va, size, gran_, 0, 0))\<close> on a zero-initialised \<open>va\<close>\<close>
  "reserve env n v =
     (let (r, va) = env_reserve env (v_calls v) n (v_gran v);
          (s, v) = cu env r ''cuMemAddressReserve'' (made (EReserve n r va) v)
      in (s, if r = CUDA_SUCCESS then va else 0, v))"

definition addr_free :: "Env \<Rightarrow> u64 \<Rightarrow> u64 \<Rightarrow> Vmem \<Rightarrow> CUresult \<times> Vmem" where
  "addr_free env va n v =
     (let r = env_addr_free env (v_calls v) va n in (r, made (EAddrFree va n r) v))"

definition release :: "Env \<Rightarrow> u64 \<Rightarrow> Vmem \<Rightarrow> CUresult \<times> Vmem" where
  "release env h v = (let r = env_release env (v_calls v) h in (r, made (ERelease h r) v))"

definition unmap :: "Env \<Rightarrow> u64 \<Rightarrow> u64 \<Rightarrow> Vmem \<Rightarrow> CUresult \<times> Vmem" where
  "unmap env va n v = (let r = env_unmap env (v_calls v) va n in (r, made (EUnmap va n r) v))"

definition create_at :: "Env \<Rightarrow> u64 \<Rightarrow> Loc \<Rightarrow> Vmem \<Rightarrow> Status \<times> u64 \<times> Vmem" where
  \<comment> \<open>\<open>_create\<close>\<close>
  "create_at env n l v =
     (let p = prop_at v l;
          (r, h) = env_create env (v_calls v) n p;
          (s, v) = cu env r (if l = Device then ''cuMemCreate device'' else ''cuMemCreate host'')
                     (made (ECreate n p r h) v)
      in (s, h, v))"

definition map_chunk :: "Env \<Rightarrow> u64 \<Rightarrow> u64 \<Rightarrow> u64 \<Rightarrow> Vmem \<Rightarrow> Status \<times> Vmem" where
  \<comment> \<open>\<open>map\<close>\<close>
  "map_chunk env va n h v =
     (let r = env_map env (v_calls v) va n h;
          (s, v) = cu env r ''cuMemMap'' (made (EMap va n h r) v)
      in if s \<noteq> Ok then (s, v)
         else
           (let r = env_set_access env (v_calls v) va n (v_dev v);
                (s, v) = cu env r ''cuMemSetAccess'' (made (ESetAccess va n (v_dev v) r) v)
            in if s \<noteq> Ok then (s, snd (unmap env va n v)) else (s, v)))"

section \<open>The link to the broker\<close>

definition RECV_TIMEOUT_S :: nat where "RECV_TIMEOUT_S = 3"
definition ENOENT :: int where "ENOENT = 2"
definition ENAMETOOLONG :: int where "ENAMETOOLONG = 36"
definition ETIMEDOUT :: int where "ETIMEDOUT = 110"
definition ECONNREFUSED :: int where "ECONNREFUSED = 111"

text \<open>\<open>sizeof a.sun_path\<close>.\<close>

definition SUN_PATH :: nat where "SUN_PATH = 108"

definition disconnect_broker :: "Link \<Rightarrow> Vmem \<Rightarrow> Vmem" where
  "disconnect_broker next_link v =
     (let v = (if 0 \<le> v_fd v then made (EClose (v_fd v)) v else v)
      in v\<lparr>v_fd := -1, v_link := next_link\<rparr>)"

definition send_msg :: "Env \<Rightarrow> Msg \<Rightarrow> Vmem \<Rightarrow> bool \<times> Vmem" where
  "send_msg env m v =
     (if v_link v \<noteq> Connected then (False, v)
      else
        (let e = env_send env (v_calls v) (v_fd v) m;
             v = made (ESend (v_fd v) m e) v
         in if e = 0 then (True, v)
            else (False, disconnect_broker Broken (set_err (''vmemd send: '' @ env_strerror env e) v))))"

text \<open>
  The \<open>do ... while (n < 0 && errno == EINTR)\<close> loop: \<open>k\<close> interrupted calls, then one that is not.
\<close>

fun recv_loop :: "Env \<Rightarrow> nat \<Rightarrow> Vmem \<Rightarrow> RecvRes \<times> Vmem" where
  "recv_loop env 0 v = (let r = env_recv env (v_calls v) (v_fd v) in (r, made (ERecv (v_fd v) r) v))"
| "recv_loop env (Suc k) v = recv_loop env k (made EInterrupted v)"

definition send_and_recv :: "Env \<Rightarrow> Msg \<Rightarrow> Vmem \<Rightarrow> Reply option \<times> Vmem" where
  "send_and_recv env m v =
     (let (sent, v) = send_msg env m v
      in if \<not> sent then (None, v)
         else
           (case recv_loop env (env_interrupts env (v_calls v)) v of
              (RecvReply rep, v) \<Rightarrow> (Some rep, v)
            | (RecvError e, v) \<Rightarrow>
                (None, disconnect_broker Broken (set_err (''vmemd recv: '' @ env_strerror env e) v))
            | (RecvShort, v) \<Rightarrow>
                (None, disconnect_broker Broken (set_err ''vmemd closed the connection'' v))))"

text \<open>\<open>strncpy(m.name, name_.c_str(), NAME_LEN - 1)\<close> into the zero-filled field.\<close>

definition hello_msg :: "string \<Rightarrow> Msg" where
  "hello_msg name =
     (let s = take (NAME_LEN - 1) (takeWhile (\<lambda>c. c \<noteq> CHR 0x00) name)
      in (msg Hello Device 0 0)\<lparr>m_name := s @ replicate (NAME_LEN - length s) (CHR 0x00)\<rparr>)"

text \<open>\<open>connect_broker\<close>: 0, or the errno of the failed step.\<close>

definition connect_broker :: "Env \<Rightarrow> Vmem \<Rightarrow> int \<times> Vmem" where
  "connect_broker env v =
     (if SUN_PATH \<le> length (v_path v) then (ENAMETOOLONG, v)
      else
        (let (fd, e) = env_socket env (v_calls v);
             v = made (ESocket fd e) v
         in if fd < 0 then (e, v)
            else
              (let e = env_connect env (v_calls v) fd;
                   v = made (EConnect fd e) v
               in if e \<noteq> 0 then (e, made (EClose fd) v)
                  else
                    (let v = v\<lparr>v_fd := fd, v_link := Connected\<rparr>;
                         (rep, v) = send_and_recv env (hello_msg (v_name v)) v
                     in (if rep \<noteq> None then 0 else ETIMEDOUT, v)))))"

definition resync_one :: "Env \<Rightarrow> u64 \<times> Rec \<Rightarrow> Vmem \<Rightarrow> Vmem" where
  "resync_one env c v = snd (send_msg env (msg Resync (r_locn (snd c)) (fst c) (r_size (snd c))) v)"

definition reconnect :: "Env \<Rightarrow> Vmem \<Rightarrow> Status \<times> Vmem" where
  "reconnect env v =
     (if v_path v = [] then (Unsupported, set_err ''no vmemd socket configured'' v)
      else
        (let (e, v) = connect_broker env (disconnect_broker Broken v)
         in if e \<noteq> 0
            then (Disconnected, set_err (''vmemd '' @ v_path v @ '': '' @ env_strerror env e) v)
            else
              (let v = fold (resync_one env) (v_chunks v) v
               in (if v_link v = Connected then Ok else Disconnected, v))))"

definition maybe_reconnect :: "Env \<Rightarrow> Vmem \<Rightarrow> Vmem" where
  "maybe_reconnect env v =
     (if v_auto v \<and> v_path v \<noteq> [] \<and> v_link v \<noteq> Connected then snd (reconnect env v) else v)"

text \<open>\<open>decide_place\<close>: status, \<open>loc\<close>, \<open>counted\<close>.\<close>

definition decide_place :: "Env \<Rightarrow> u64 \<Rightarrow> u64 \<Rightarrow> Loc \<Rightarrow> bool \<Rightarrow> Vmem \<Rightarrow> Status \<times> Loc \<times> bool \<times> Vmem" where
  "decide_place env va n l counted v =
     (if v_link v \<noteq> Connected then (Ok, l, counted, v)
      else
        (case send_and_recv env (msg Alloc Device va n) v of
           (None, v) \<Rightarrow> (Ok, l, counted, v)
         | (Some rep, v) \<Rightarrow>
             if r_status rep \<noteq> Ok then (NoMemory, l, counted, set_err ''vmemd refused the allocation'' v)
             else (Ok, r_loc rep, True, v)))"

section \<open>Moving a chunk's memory\<close>

definition copy_into :: "Env \<Rightarrow> u64 \<Rightarrow> u64 \<Rightarrow> u64 \<Rightarrow> Vmem \<Rightarrow> Status \<times> Vmem" where
  "copy_into env nh va n v =
     (let (s, tmp, v) = reserve env n v;
          (s, v) = (if s = Ok then map_chunk env tmp n nh v else (s, v));
          (s, v) =
            (if s = Ok
             then
               (let r = env_copy env (v_calls v) tmp va n;
                    (s, v) = cu env r ''cuMemcpyDtoD'' (made (ECopy tmp va n r) v);
                    (s, v) =
                      (if s = Ok
                       then (let r = env_ctx_sync env (v_calls v)
                             in cu env r ''copy sync'' (made (ECtxSync r) v))
                       else (s, v))
                in (s, snd (unmap env tmp n v)))
             else (s, v));
          v = (if tmp \<noteq> 0 then snd (addr_free env tmp n v) else v)
      in (s, v))"

definition replace_backing :: "Env \<Rightarrow> u64 \<Rightarrow> u64 \<Rightarrow> u64 \<Rightarrow> u64 \<Rightarrow> Vmem \<Rightarrow> Status \<times> Vmem" where
  "replace_backing env va n old nh v =
     (let (r, v) = unmap env va n v;
          (s, v) = cu env r ''cuMemUnmap'' v
      in if s \<noteq> Ok then (s, v)
         else
           (let (s, v) = map_chunk env va n nh v
            in if s = Ok then (s, v)
               else
                 (let (s', v) = map_chunk env va n old v
                  in (if s' = Ok then s else Fatal, v))))"

definition swap :: "Env \<Rightarrow> Chunk \<Rightarrow> Loc \<Rightarrow> Vmem \<Rightarrow> (Status \<times> Chunk) result \<times> Vmem" where
  "swap env c to v =
     (case map_of (v_chunks v) (c_ptr c) of
        None \<Rightarrow> (OutOfRange, v)
      | Some rc \<Rightarrow>
          (let va = c_ptr c; n = c_size c; old = r_h rc;
               (s, nh, v) = create_at env n to v
           in if s \<noteq> Ok then (Ret (s, c), v)
              else
                (let (s, v) = copy_into env nh va n v;
                     (s, v) = (if s = Ok then replace_backing env va n old nh v else (s, v))
                 in if s \<noteq> Ok then (Ret (s, c), snd (release env nh v))
                    else
                      (let v = snd (release env old v);
                           u = (v_used v)(c_loc c := v_used v (c_loc c) - n);
                           u = u(to := u to + n)
                       in (Ret (Ok, c\<lparr>c_loc := to\<rparr>),
                           v\<lparr>v_chunks := om_put va \<lparr>r_h = nh, r_size = n, r_locn = to\<rparr> (v_chunks v),
                             v_used := u\<rparr>)))))"

section \<open>The backend interface\<close>

text \<open>\<open>open\<close>: the context and the granularity first, then the broker.\<close>

definition open_device :: "Env \<Rightarrow> int \<Rightarrow> Vmem \<Rightarrow> Status \<times> Vmem" where
  "open_device env dev v =
     (let v = v\<lparr>v_dev := dev\<rparr>
      in if \<not> env_set_device env (v_dev v) \<or> \<not> env_context env
         then (Fatal, set_err ''context init failed'' v)
         else
           (let attr = (\<lambda>a d. case env_attr env a (v_dev v) of None \<Rightarrow> d | Some x \<Rightarrow> x);
                vmm = attr VmmSupported 0; host_vmm = attr HostVmmSupported 0; numa = attr HostNumaId (-1)
            in if vmm = 0 \<or> host_vmm = 0
               then (Unsupported, set_err ''device does not support VMM on device and host'' v)
               else
                 (let v = v\<lparr>v_numa := (if numa < 0 then 0 else numa)\<rparr>;
                      (r, gd) = env_granularity env (prop_at v Device);
                      (s, v) = cu env r ''granularity'' v
                  in if s \<noteq> Ok then (s, v)
                     else
                       (let (r, gh) = env_granularity env (prop_at v Host);
                            (s, v) = cu env r ''granularity'' v
                        in if s \<noteq> Ok then (s, v)
                           else (Ok, v\<lparr>v_gran := (if gd > gh then gd else gh)\<rparr>)))))"

definition open_link :: "Env \<Rightarrow> BackendConfig \<Rightarrow> Vmem \<Rightarrow> Status \<times> Vmem" where
  "open_link env c v =
     (case bc_daemon c of
        None \<Rightarrow> (Ok, v)
      | Some path \<Rightarrow>
          (let v = v\<lparr>v_path := path,
                 v_name := (case bc_name c of None \<Rightarrow> env_progname env | Some s \<Rightarrow> s), v_auto := bc_auto c\<rparr>;
               (e, v) = connect_broker env v
           in if e = 0 \<or> e = ENOENT \<or> e = ECONNREFUSED then (Ok, v)
              else (Disconnected, set_err (''vmemd '' @ v_path v @ '': '' @ env_strerror env e) v)))"

definition vmem_open :: "Env \<Rightarrow> BackendConfig \<Rightarrow> Vmem \<Rightarrow> Status \<times> Vmem" where
  "vmem_open env c v =
     (let (s, v) = open_device env (bc_device c) v
      in if s \<noteq> Ok then (s, v) else open_link env c v)"

definition vmem_close :: "Vmem \<Rightarrow> Vmem" where
  "vmem_close v = disconnect_broker Local v"

text \<open>
  \<open>create\<close> in three parts: getting a handle at the place the broker chose or, if the device has no
  room, on the host (and telling the broker so); mapping it; and undoing everything on failure.
\<close>

definition acquire :: "Env \<Rightarrow> u64 \<Rightarrow> u64 \<Rightarrow> Loc \<Rightarrow> bool \<Rightarrow> Vmem \<Rightarrow> Status \<times> Loc \<times> u64 \<times> Vmem" where
  "acquire env va n l counted v =
     (let (s, h, v) = create_at env n l v
      in if s = NoMemory \<and> l = Device
         then
           (let (s, h, v) = create_at env n Host v;
                v = (if s = Ok \<and> counted then snd (send_msg env (msg AllocFail Host va 0) v) else v)
            in (s, Host, h, v))
         else (s, l, h, v))"

definition attach :: "Env \<Rightarrow> u64 \<Rightarrow> u64 \<Rightarrow> u64 \<Rightarrow> Vmem \<Rightarrow> Status \<times> Vmem" where
  "attach env va n h v =
     (let (s, v) = map_chunk env va n h v
      in (s, if s \<noteq> Ok then snd (release env h v) else v))"

definition abandon :: "Env \<Rightarrow> u64 \<Rightarrow> u64 \<Rightarrow> Loc \<Rightarrow> bool \<Rightarrow> Vmem \<Rightarrow> Vmem" where
  "abandon env va n l counted v =
     snd (addr_free env va n (if counted then snd (send_msg env (msg Free l va 0) v) else v))"

definition vmem_create :: "Env \<Rightarrow> u64 \<Rightarrow> Chunk \<Rightarrow> Vmem \<Rightarrow> Status \<times> Chunk \<times> Vmem" where
  \<comment> \<open>the chunk is the out-parameter\<close>
  "vmem_create env n out v =
     (let (s, va, v) = reserve env n v
      in if s \<noteq> Ok then (s, out, v)
         else
           (let (s, l, counted, v) = decide_place env va n Device False (maybe_reconnect env v)
            in if s \<noteq> Ok then (s, out, snd (addr_free env va n v))
               else
                 (let (s, l, h, v) = acquire env va n l counted v;
                      (s, v) = (if s = Ok then attach env va n h v else (s, v))
                  in if s \<noteq> Ok then (s, out, abandon env va n l counted v)
                     else (Ok, \<lparr>c_ptr = va, c_size = n, c_loc = l\<rparr>,
                           v\<lparr>v_chunks := om_put va \<lparr>r_h = h, r_size = n, r_locn = l\<rparr> (v_chunks v),
                             v_used := (v_used v)(l := v_used v l + n)\<rparr>))))"

definition vmem_destroy :: "Env \<Rightarrow> Chunk \<Rightarrow> Vmem \<Rightarrow> (Status \<times> Chunk) result \<times> Vmem" where
  "vmem_destroy env c v =
     (let va = c_ptr c;
          (r, v) = unmap env va (c_size c) v;
          (s, v) = cu env r ''cuMemUnmap'' v
      in if s \<noteq> Ok then (Ret (Fatal, c), v)
         else
           (case map_of (v_chunks v) va of
              None \<Rightarrow> (OutOfRange, v)
            | Some rc \<Rightarrow>
                (let (r, v) = release env (r_h rc) v;
                     (s, v) = cu env r ''cuMemRelease'' v
                 in if s \<noteq> Ok then (Ret (Fatal, c), v)
                    else
                      (let (r, v) = addr_free env va (c_size c) v;
                           (s, v) = cu env r ''cuMemAddressFree'' v
                       in if s \<noteq> Ok then (Ret (Fatal, c), v)
                          else
                            (let v = v\<lparr>v_chunks := om_del va (v_chunks v),
                                       v_used := (v_used v)(c_loc c := v_used v (c_loc c) - c_size c)\<rparr>;
                                 v = snd (send_msg env (msg Free (c_loc c) va 0) v)
                             in (Ret (Ok, null_chunk), v))))))"

definition vmem_move :: "Env \<Rightarrow> Chunk \<Rightarrow> Loc \<Rightarrow> Vmem \<Rightarrow> (Status \<times> Chunk) result \<times> Vmem" where
  "vmem_move env c to v =
     (if c_loc c = to then (Ret (Ok, c), v)
      else
        (let va = c_ptr c;
             v = maybe_reconnect env v;
             (rep, v) =
               (if v_link v = Connected then send_and_recv env (msg Move to va 0) v else (None, v))
         in case rep of
              Some rp \<Rightarrow>
                if r_status rp \<noteq> Ok
                then (Ret (NoMemory, c), set_err (''vmemd refused the move to '' @ loc_name to) v)
                else
                  (case swap env c to v of
                     (OutOfRange, v) \<Rightarrow> (OutOfRange, v)
                   | (Ret (s, c), v) \<Rightarrow> (Ret (s, c), snd (send_msg env (msg MoveDone (c_loc c) va 0) v)))
            | None \<Rightarrow> swap env c to v))"

definition vmem_used :: "Vmem \<Rightarrow> u64" where
  "vmem_used v = v_used v Device + v_used v Host"

definition vmem_used_at :: "Vmem \<Rightarrow> Loc \<Rightarrow> u64" where
  "vmem_used_at v l = v_used v l"

end
