(* ===== verification/Vmem_Steps.thy ===== *)
theory Vmem_Steps
  imports Vmem_Backend
begin

text \<open>
  What each step of the vmem backend does to the object's fields and to the driver's state, as read
  from the history. The properties in \<open>Vmem_Props\<close> and \<open>Vmem_Link\<close> are put together from these.
\<close>

section \<open>Frames\<close>

abbreviation "D v \<equiv> drv (v_calls v)"

text \<open>The fields that neither a driver call nor a message changes.\<close>

definition core :: "Vmem \<Rightarrow> Vmem" where
  "core v = v\<lparr>v_fd := 0, v_link := Local, v_err := [], v_calls := []\<rparr>"

lemma coreD:
  assumes "core v' = core v"
  shows "v_dev v' = v_dev v" "v_numa v' = v_numa v" "v_gran v' = v_gran v" "v_auto v' = v_auto v"
    "v_used v' = v_used v" "v_chunks v' = v_chunks v" "v_name v' = v_name v" "v_path v' = v_path v"
    "prop_at v' = prop_at v"
proof -
  have f: "v_dev (core w) = v_dev w" "v_numa (core w) = v_numa w" "v_gran (core w) = v_gran w"
    "v_auto (core w) = v_auto w" "v_used (core w) = v_used w" "v_chunks (core w) = v_chunks w"
    "v_name (core w) = v_name w" "v_path (core w) = v_path w" for w
    by (simp_all add: core_def)
  show *: "v_dev v' = v_dev v" "v_numa v' = v_numa v" "v_gran v' = v_gran v" "v_auto v' = v_auto v"
    "v_used v' = v_used v" "v_chunks v' = v_chunks v" "v_name v' = v_name v" "v_path v' = v_path v"
    using f [of v] f [of v'] assms by simp_all
  show "prop_at v' = prop_at v" by (simp add: fun_eq_iff prop_at_def *)
qed

text \<open>\<open>quiet\<close>: only the history and the error text changed.\<close>

definition quiet :: "Vmem \<Rightarrow> Vmem \<Rightarrow> bool" where
  "quiet v v' \<longleftrightarrow> core v' = core v \<and> v_fd v' = v_fd v \<and> v_link v' = v_link v"

lemma quiet_refl [simp]: "quiet v v"
  by (simp add: quiet_def)

lemma quiet_trans [trans]: "quiet v w \<Longrightarrow> quiet w x \<Longrightarrow> quiet v x"
  by (simp add: quiet_def)

lemma quiet_dev: "quiet v v' \<Longrightarrow> v_dev v' = v_dev v"
  unfolding quiet_def by (elim conjE) (rule coreD(1))

lemma core_simps [simp]:
  "core (made e v) = core v" "core (set_err s v) = core v" "core (disconnect_broker l v) = core v"
  "core (v\<lparr>v_fd := f, v_link := l\<rparr>) = core v"
  by (simp_all add: core_def made_def set_err_def disconnect_broker_def Let_def)

lemma made_simps [simp]:
  "v_calls (made e v) = v_calls v @ [e]" "v_fd (made e v) = v_fd v" "v_link (made e v) = v_link v"
  "v_calls (set_err s v) = v_calls v" "v_fd (set_err s v) = v_fd v" "v_link (set_err s v) = v_link v"
  by (simp_all add: made_def set_err_def)

lemma quiet_simps [simp]:
  "quiet v (made e w) = quiet v w" "quiet v (set_err s w) = quiet v w"
  "quiet (made e v) w = quiet v w" "quiet (set_err s v) w = quiet v w"
  by (simp_all add: quiet_def)

lemma cu_spec:
  "cu env r what v = (s, v') \<Longrightarrow>
     (s = Ok \<longleftrightarrow> r = CUDA_SUCCESS) \<and> s \<in> {Ok, NoMemory, Fatal} \<and> quiet v v' \<and> v_calls v' = v_calls v"
  by (auto simp: cu_def quiet_def split: if_splits)

section \<open>Driver calls\<close>

lemma cu_calls [simp]: "v_calls (snd (cu env r w v)) = v_calls v"
  by (simp add: cu_def)

lemma cu_quiet [simp]: "quiet v (snd (cu env r w u)) = quiet v u"
  by (simp add: cu_def)

lemma cu_status [simp]: "fst (cu env r w v) = Ok \<longleftrightarrow> r = CUDA_SUCCESS"
  by (simp add: cu_def)

lemma cu_kinds: "fst (cu env r w v) \<in> {Ok, NoMemory, Fatal}"
  by (simp add: cu_def)

lemma unmap_step [simp]:
  "quiet u (snd (unmap env va n v)) = quiet u v"
  "D (snd (unmap env va n v)) = (if fst (unmap env va n v) = CUDA_SUCCESS then unmap_range va n (D v) else D v)"
  by (simp_all add: unmap_def Let_def)

lemma release_step [simp]:
  "quiet u (snd (release env h v)) = quiet u v"
  "D (snd (release env h v)) =
     (if fst (release env h v) = CUDA_SUCCESS then (D v)\<lparr>d_handles := (d_handles (D v))(h := None)\<rparr> else D v)"
  by (simp_all add: release_def Let_def)

lemma addr_free_step [simp]:
  "quiet u (snd (addr_free env va n v)) = quiet u v"
  "D (snd (addr_free env va n v)) =
     (if fst (addr_free env va n v) = CUDA_SUCCESS then free_range va n (D v) else D v)"
  by (simp_all add: addr_free_def Let_def)

text \<open>Steps that acquire something: on success it was not there before, on failure nothing changed.\<close>

lemma reserve_step:
  assumes "well_behaved busy env" and "reserve env n v = (s, va, v')"
  shows "quiet v v'" and "s \<in> {Ok, NoMemory, Fatal}"
    and "s = Ok \<Longrightarrow> va \<noteq> 0 \<and> d_reserved (D v) va = None \<and> d_mapped (D v) va = None \<and>
      free_span va n (D v) \<and> D v' = (D v)\<lparr>d_reserved := (d_reserved (D v))(va \<mapsto> n)\<rparr>"
    and "s \<noteq> Ok \<Longrightarrow> va = 0 \<and> D v' = D v"
  using assms(2) well_behavedD(1) [OF assms(1), of "v_calls v" n "v_gran v"]
  by (auto simp: reserve_def Let_def split: prod.splits if_splits dest!: cu_spec)

lemma create_at_step:
  assumes "well_behaved busy env" and "create_at env n l v = (s, h, v')"
  shows "quiet v v'" and "s \<in> {Ok, NoMemory, Fatal}"
    and "s = Ok \<Longrightarrow> d_handles (D v) h = None \<and>
      D v' = (D v)\<lparr>d_handles := (d_handles (D v))(h \<mapsto> (n, prop_at v l, None))\<rparr>"
    and "s \<noteq> Ok \<Longrightarrow> D v' = D v"
  using assms(2) well_behavedD(2) [OF assms(1), of "v_calls v" n "prop_at v l"]
  by (auto simp: create_at_def Let_def split: prod.splits if_splits dest!: cu_spec)

text \<open>Mapping a live handle over a reserved, unmapped range of its size.\<close>

definition remapped :: "u64 \<Rightarrow> (u64 \<times> u64 \<times> int option) option \<Rightarrow> Drv \<Rightarrow> Drv" where
  "remapped va m d = d\<lparr>d_mapped := (d_mapped d)(va := m)\<rparr>"

lemma remapped_simps [simp]:
  "d_reserved (remapped va m d) = d_reserved d" "d_handles (remapped va m d) = d_handles d"
  "d_mapped (remapped va m d) = (d_mapped d)(va := m)"
  "remapped va m (remapped va m' d) = remapped va m d"
  "d_mapped d va = m \<Longrightarrow> remapped va m d = d"
  by (auto simp: remapped_def)

lemma map_chunk_step:
  assumes wb: "well_behaved busy env"
    and d: "d_reserved (D v) va = Some n" "d_mapped (D v) va = None" "map_option fst (d_handles (D v) h) = Some n"
    and e: "map_chunk env va n h v = (s, v')"
  shows "quiet v v'" and "s \<in> {Ok, NoMemory, Fatal}"
    and "s = Ok \<Longrightarrow> D v' = remapped va (Some (n, h, Some (v_dev v))) (D v)"
    and "s \<noteq> Ok \<Longrightarrow> va \<notin> busy \<Longrightarrow> D v' = D v"
    and "\<exists>m. D v' = remapped va m (D v)"
proof -
  let ?r = "env_map env (v_calls v) va n h"
  let ?v1 = "made (EMap va n h ?r) v"
  let ?v2 = "snd (cu env ?r ''cuMemMap'' ?v1)"
  let ?a = "env_set_access env (v_calls ?v2) va n (v_dev v)"
  let ?v3 = "snd (cu env ?a ''cuMemSetAccess'' (made (ESetAccess va n (v_dev v) ?a) ?v2))"
  have dev: "v_dev ?v2 = v_dev v"
    using coreD(1) [of v ?v2] by (simp add: cu_def)
  have q: "quiet v ?v2" "quiet v ?v3" by simp_all
  have d1: "?r = CUDA_SUCCESS \<Longrightarrow> D ?v2 = remapped va (Some (n, h, None)) (D v)"
    "?r \<noteq> CUDA_SUCCESS \<Longrightarrow> D ?v2 = D v"
    using d by (simp_all add: map_range_def remapped_def)
  have d2: "D ?v3 = remapped va (Some (n, h, if ?a = CUDA_SUCCESS then Some (v_dev v) else None)) (D v)"
    if "?r = CUDA_SUCCESS"
    using d1 that by (simp add: allow_range_def remapped_def)
  have e': "(s, v') =
      (if ?r \<noteq> CUDA_SUCCESS then cu env ?r ''cuMemMap'' ?v1
       else if ?a \<noteq> CUDA_SUCCESS
         then (fst (cu env ?a ''cuMemSetAccess'' (made (ESetAccess va n (v_dev v) ?a) ?v2)), snd (unmap env va n ?v3))
         else (Ok, ?v3))"
    using e dev by (auto simp: map_chunk_def Let_def cu_def split: if_splits)
  have un: "D (snd (unmap env va n ?v3)) = D v" if "?r = CUDA_SUCCESS" "?a \<noteq> CUDA_SUCCESS" "va \<notin> busy"
  proof -
    have "map_option fst (d_mapped (D ?v3) va) = Some n" using d2 that by simp
    then have "fst (unmap env va n ?v3) = CUDA_SUCCESS"
      using well_behavedD(5) [OF wb that(3)] by (simp add: unmap_def Let_def)
    then show ?thesis using d2 that d(2) by (simp add: unmap_range_def remapped_def fun_upd_idem)
  qed
  have some: "\<exists>m. D (snd (unmap env va n ?v3)) = remapped va m (D v)" if "?r = CUDA_SUCCESS"
    using d2 [OF that] by (auto simp: unmap_range_def remapped_def)
  have "quiet v v' \<and> s \<in> {Ok, NoMemory, Fatal} \<and>
    (s = Ok \<longrightarrow> D v' = remapped va (Some (n, h, Some (v_dev v))) (D v)) \<and>
    (s \<noteq> Ok \<longrightarrow> va \<notin> busy \<longrightarrow> D v' = D v) \<and> (\<exists>m. D v' = remapped va m (D v))"
  proof (cases "?r = CUDA_SUCCESS")
    case False
    then have sv: "s = fst (cu env ?r ''cuMemMap'' ?v1)" "v' = ?v2" using e' by (simp_all add: prod_eq_iff)
    have "D v' = D v" "quiet v v'" using d1(2) [OF False] q(1) by (simp_all only: sv(2))
    moreover have "s \<noteq> Ok" "s \<in> {Ok, NoMemory, Fatal}" using False cu_kinds by (simp_all only: sv(1) cu_status) blast
    ultimately show ?thesis using d(2) by (auto intro: exI [of _ None])
  next
    case True
    show ?thesis
    proof (cases "?a = CUDA_SUCCESS")
      case True2: True
      have sv: "s = Ok" "v' = ?v3" using e' True True2 by simp_all
      have "D v' = remapped va (Some (n, h, Some (v_dev v))) (D v)"
        unfolding sv(2) using d2 [OF True] by (simp only: True2 refl if_True)
      moreover have "quiet v v'" using q(2) by (simp only: sv(2))
      ultimately show ?thesis using sv(1) by blast
    next
      case False
      have sv: "s = fst (cu env ?a ''cuMemSetAccess'' (made (ESetAccess va n (v_dev v) ?a) ?v2))"
        "v' = snd (unmap env va n ?v3)" using e' True False by simp_all
      have "s \<noteq> Ok" "s \<in> {Ok, NoMemory, Fatal}" using False cu_kinds by (simp_all only: sv(1) cu_status) blast
      moreover have "quiet v v'" using q(2) by (simp only: sv(2) unmap_step)
      moreover have "D v' = D v" if "va \<notin> busy"
        unfolding sv(2) by (rule un [OF True False that])
      moreover have "\<exists>m. D v' = remapped va m (D v)"
        unfolding sv(2) by (rule some [OF True])
      ultimately show ?thesis by blast
    qed
  qed
  then show "quiet v v'" "s \<in> {Ok, NoMemory, Fatal}"
    "s = Ok \<Longrightarrow> D v' = remapped va (Some (n, h, Some (v_dev v))) (D v)"
    "s \<noteq> Ok \<Longrightarrow> va \<notin> busy \<Longrightarrow> D v' = D v"
    "\<exists>m. D v' = remapped va m (D v)"
    by blast+
qed

text \<open>Steps that give something back.\<close>

lemma addr_free_works:
  assumes "well_behaved busy env" and "d_reserved (D v) va = Some n" and "d_mapped (D v) va = None"
  shows "D (snd (addr_free env va n v)) = (D v)\<lparr>d_reserved := (d_reserved (D v))(va := None)\<rparr>"
  using assms(2,3) well_behavedD(4) [OF assms]
  by (simp add: addr_free_def free_range_def Let_def)

lemma release_works:
  assumes "well_behaved busy env" and "d_handles (D v) h = Some x"
  shows "D (snd (release env h v)) = (D v)\<lparr>d_handles := (d_handles (D v))(h := None)\<rparr>"
  using assms(2) well_behavedD(3) [OF assms(1), of "v_calls v" h]
  by (simp add: release_def Let_def)

lemma unmap_works:
  assumes "well_behaved busy env" and "va \<notin> busy" and "d_mapped (D v) va = Some (n, h, a)"
  shows "D (snd (unmap env va n v)) = remapped va None (D v)"
  using assms(3) well_behavedD(5) [OF assms(1,2), of "v_calls v" n]
  by (simp add: unmap_def unmap_range_def remapped_def Let_def)

lemma set_data_simps [simp]:
  "d_reserved (set_data h x d) = d_reserved d" "d_mapped (set_data h x d) = d_mapped d"
  "set_data h x (d\<lparr>d_reserved := r\<rparr>) = (set_data h x d)\<lparr>d_reserved := r\<rparr>"
  "set_data h x (d\<lparr>d_mapped := m\<rparr>) = (set_data h x d)\<lparr>d_mapped := m\<rparr>"
  "data_of h (d\<lparr>d_reserved := r\<rparr>) = data_of h d" "data_of h (d\<lparr>d_mapped := m\<rparr>) = data_of h d"
  by (simp_all add: set_data_def data_of_def split: option.split)

lemma set_data_handles:
  "d_handles (set_data h x d) h' =
     (if h' = h then map_option (\<lambda>(n, p, _). (n, p, x)) (d_handles d h) else d_handles d h')"
  by (auto simp: set_data_def split: option.split)

lemma set_data_None [simp]: "d_handles d h = Some (n, p, x) \<Longrightarrow> set_data h x d = d"
  by (simp add: set_data_def fun_upd_idem)

section \<open>Copying and swapping\<close>

text \<open>
  The copy leaves no trace but the data of the new handle: the scratch range is gone on every path.
\<close>

lemma copy_into_step:
  assumes wb: "well_behaved busy env" and busy: "busy \<subseteq> dom (d_reserved (D v))"
    and nh: "d_handles (D v) nh = Some (n, p, x)"
    and va: "d_mapped (D v) va = Some (n, old, Some dev)"
    and e: "copy_into env nh va n v = (s, v')"
  shows "quiet v v'" and "s \<in> {Ok, NoMemory, Fatal}"
    and "s = Ok \<Longrightarrow> D v' = set_data nh (data_of old (D v)) (D v)"
    and "\<exists>y. D v' = set_data nh y (D v)"
proof -
  let ?C = "quiet v v' \<and> s \<in> {Ok, NoMemory, Fatal} \<and>
    (s = Ok \<longrightarrow> D v' = set_data nh (data_of old (D v)) (D v)) \<and> (\<exists>y. D v' = set_data nh y (D v))"
  obtain s1 tmp v1 where r: "reserve env n v = (s1, tmp, v1)" by (metis prod_cases3)
  note r_step = reserve_step [OF wb r]
  have ?C
  proof (cases "s1 = Ok")
    case False
    then have "s = s1" "v' = v1" using e r r_step(4) by (simp_all add: copy_into_def)
    then show ?thesis using r_step False nh by (auto intro: exI [of _ x])
  next
    case True
    note fresh = r_step(3) [OF True]
    have tmp: "tmp \<noteq> va" "tmp \<notin> busy" using fresh va busy by auto
    have d1: "d_reserved (D v1) tmp = Some n" "d_mapped (D v1) tmp = None"
      "map_option fst (d_handles (D v1) nh) = Some n"
      using fresh nh by simp_all
    obtain s2 v2 where m: "map_chunk env tmp n nh v1 = (s2, v2)" by fastforce
    note m_step = map_chunk_step [OF wb d1 m]
    have undo: "D v\<lparr>d_reserved := (d_reserved (D v))(tmp := None)\<rparr> = D v"
      using fresh by (simp add: fun_upd_idem)
    show ?thesis
    proof (cases "s2 = Ok")
      case False
      have sv: "s = s2" "v' = snd (addr_free env tmp n v2)"
        using e r m True False fresh by (simp_all add: copy_into_def)
      have "D v2 = D v1" using m_step(4) False tmp by blast
      then have "D v' = D v" using addr_free_works [OF wb, of v2 tmp n] fresh sv undo by simp
      moreover have "quiet v v'" using quiet_trans [OF r_step(1) m_step(1)] sv by simp
      ultimately show ?thesis using sv m_step(2) False nh by (auto intro: exI [of _ x])
    next
      case True2: True
      define r3 where "r3 = env_copy env (v_calls v2) tmp va n"
      define v3 where "v3 = snd (cu env r3 ''cuMemcpyDtoD'' (made (ECopy tmp va n r3) v2))"
      define r4 where "r4 = env_ctx_sync env (v_calls v3)"
      define v4 where "v4 = (if r3 = CUDA_SUCCESS then snd (cu env r4 ''copy sync'' (made (ECtxSync r4) v3)) else v3)"
      have sv: "s = (if r3 = CUDA_SUCCESS then fst (cu env r4 ''copy sync'' (made (ECtxSync r4) v3))
            else fst (cu env r3 ''cuMemcpyDtoD'' (made (ECopy tmp va n r3) v2)))"
          "v' = snd (addr_free env tmp n (snd (unmap env tmp n v4)))"
        using e r m True True2 fresh
        by (auto simp: copy_into_def Let_def case_prod_beta r3_def v3_def r4_def v4_def split: if_splits)
      have dv2: "d_mapped (D v2) tmp = Some (n, nh, Some (v_dev v1))"
        "D v2 = (D v)\<lparr>d_reserved := (d_reserved (D v))(tmp \<mapsto> n), d_mapped := (d_mapped (D v))(tmp \<mapsto> (n, nh, Some (v_dev v1)))\<rparr>"
        using m_step(3) [OF True2] fresh by (simp_all add: remapped_def)
      have copied: "copy_range tmp va n (D v2) = set_data nh (data_of old (D v)) (D v2)"
        using va tmp dv2 by (simp add: copy_range_def handle_at_def)
      have "D v4 = D v3" by (simp add: v4_def)
      then have d4: "D v4 = (if r3 = CUDA_SUCCESS then set_data nh (data_of old (D v)) (D v2) else D v2)"
        using copied by (simp add: v3_def)
      obtain y where y: "D v4 = set_data nh y (D v2)" and y_ok: "r3 = CUDA_SUCCESS \<longrightarrow> y = data_of old (D v)"
      proof (cases "r3 = CUDA_SUCCESS")
        case True
        then show ?thesis using that d4 by simp
      next
        case False
        have "set_data nh x (D v2) = D v2" using nh dv2 by simp
        then show ?thesis using that [of x] d4 False by simp
      qed
      have "d_mapped (D v4) tmp = Some (n, nh, Some (v_dev v1))" "d_reserved (D v4) tmp = Some n"
        using y dv2 by simp_all
      then have "D v' = (remapped tmp None (D v4))\<lparr>d_reserved := (d_reserved (D v4))(tmp := None)\<rparr>"
        using unmap_works [OF wb tmp(2)] addr_free_works [OF wb, of "snd (unmap env tmp n v4)" tmp n]
        unfolding sv(2) by simp
      also have "\<dots> = set_data nh y (D v)"
        using y dv2 fresh undo by (simp add: remapped_def fun_upd_idem)
      finally have "D v' = set_data nh y (D v)" .
      moreover have "quiet v v'"
        using quiet_trans [OF r_step(1) m_step(1)] by (simp add: sv(2) v4_def v3_def)
      moreover have "s \<in> {Ok, NoMemory, Fatal}" by (auto simp: sv(1) cu_def)
      moreover have "s = Ok \<longrightarrow> y = data_of old (D v)" using y_ok by (simp add: sv(1))
      ultimately show ?thesis by blast
    qed
  qed
  then show "quiet v v'" "s \<in> {Ok, NoMemory, Fatal}"
    "s = Ok \<Longrightarrow> D v' = set_data nh (data_of old (D v)) (D v)" "\<exists>y. D v' = set_data nh y (D v)"
    by blast+
qed

lemma map_chunk_occupied:
  assumes "well_behaved busy env" and "d_mapped (D v) va \<noteq> None" and "map_chunk env va n h v = (s, v')"
  shows "quiet v v'" and "s \<noteq> Ok" and "D v' = D v"
  using assms(3) well_behavedD(6) [OF assms(1), of "v_calls v" va n h] assms(2)
  by (auto simp: map_chunk_def Let_def cu_def split: if_splits)

text \<open>
  The swap under the address: on \<open>NoMemory\<close> the old handle is mapped as before; only \<open>Fatal\<close> can leave
  the range without it.
\<close>

lemma replace_backing_step:
  assumes wb: "well_behaved busy env"
    and va: "d_reserved (D v) va = Some n" "d_mapped (D v) va = Some (n, old, Some (v_dev v))"
    and h: "map_option fst (d_handles (D v) old) = Some n" "map_option fst (d_handles (D v) nh) = Some n"
    and e: "replace_backing env va n old nh v = (s, v')"
  shows "quiet v v'" and "s \<in> {Ok, NoMemory, Fatal}"
    and "s = Ok \<Longrightarrow> D v' = remapped va (Some (n, nh, Some (v_dev v))) (D v)"
    and "s = NoMemory \<Longrightarrow> D v' = D v"
    and "\<exists>m. D v' = remapped va m (D v)"
proof -
  let ?C = "quiet v v' \<and> s \<in> {Ok, NoMemory, Fatal} \<and>
    (s = Ok \<longrightarrow> D v' = remapped va (Some (n, nh, Some (v_dev v))) (D v)) \<and>
    (s = NoMemory \<longrightarrow> D v' = D v) \<and> (\<exists>m. D v' = remapped va m (D v))"
  obtain r v0 where u: "unmap env va n v = (r, v0)" by fastforce
  define v1 where "v1 = snd (cu env r ''cuMemUnmap'' v0)"
  have q1: "quiet v v1" using unmap_step(1) [of v env va n v] u by (simp add: v1_def)
  then have dev: "v_dev v1 = v_dev v" by (rule quiet_dev)
  have d1: "D v1 = (if r = CUDA_SUCCESS then remapped va None (D v) else D v)"
    using unmap_step(2) [of env va n v] u va(2) by (simp add: v1_def unmap_range_def remapped_def)
  have old: "remapped va (Some (n, old, Some (v_dev v))) (D v) = D v" using va(2) by simp
  have ?C
  proof (cases "r = CUDA_SUCCESS")
    case False
    then have sv: "s = fst (cu env r ''cuMemUnmap'' v0)" "v' = v1"
      using e u by (simp_all add: replace_backing_def Let_def case_prod_beta v1_def)
    have "s \<noteq> Ok" "s \<in> {Ok, NoMemory, Fatal}" using False cu_kinds by (simp_all only: sv(1) cu_status) blast
    moreover have "D v' = D v" "quiet v v'" using d1 False q1 by (simp_all add: sv(2))
    ultimately show ?thesis using old by metis
  next
    case True
    have m0: "d_reserved (D v1) va = Some n" "d_mapped (D v1) va = None"
      "map_option fst (d_handles (D v1) nh) = Some n" "map_option fst (d_handles (D v1) old) = Some n"
      using d1 True va h by simp_all
    obtain s2 v2 where m: "map_chunk env va n nh v1 = (s2, v2)" by fastforce
    note m_step = map_chunk_step [OF wb m0(1-3) m]
    obtain m2 where m2: "D v2 = remapped va m2 (D v)" using m_step(5) d1 True by auto
    have q2: "quiet v v2" using quiet_trans [OF q1 m_step(1)] .
    show ?thesis
    proof (cases "s2 = Ok")
      case True2: True
      then have "s = Ok" "v' = v2"
        using e u m True by (simp_all add: replace_backing_def Let_def case_prod_beta v1_def)
      then show ?thesis using m_step(3) [OF True2] q2 d1 True dev by auto
    next
      case False
      obtain s3 v3 where o: "map_chunk env va n old v2 = (s3, v3)" by fastforce
      have sv: "s = (if s3 = Ok then s2 else Fatal)" "v' = v3"
        using e u m o True False by (auto simp: replace_backing_def Let_def case_prod_beta v1_def)
      have dev2: "v_dev v2 = v_dev v" using q2 by (rule quiet_dev)
      show ?thesis
      proof (cases m2)
        case None
        have "d_reserved (D v2) va = Some n" "d_mapped (D v2) va = None"
          "map_option fst (d_handles (D v2) old) = Some n" using m2 None va h by simp_all
        note o_step = map_chunk_step [OF wb this o]
        have "quiet v v3" using quiet_trans [OF q2 o_step(1)] .
        moreover have "s3 = Ok \<longrightarrow> D v3 = D v" using o_step(3) m2 dev2 old by simp
        moreover have "\<exists>m. D v3 = remapped va m (D v)" using o_step(5) m2 by auto
        ultimately show ?thesis using sv m_step(2) False by auto
      next
        case (Some x)
        then have "d_mapped (D v2) va \<noteq> None" using m2 by simp
        note o_step = map_chunk_occupied [OF wb this o]
        have "quiet v v3" using quiet_trans [OF q2 o_step(1)] .
        then show ?thesis using sv o_step m2 by auto
      qed
    qed
  qed
  then show "quiet v v'" "s \<in> {Ok, NoMemory, Fatal}"
    "s = Ok \<Longrightarrow> D v' = remapped va (Some (n, nh, Some (v_dev v))) (D v)"
    "s = NoMemory \<Longrightarrow> D v' = D v" "\<exists>m. D v' = remapped va m (D v)"
    by blast+
qed

section \<open>The link\<close>

text \<open>Messages change neither the chunks nor the driver.\<close>

definition outside_link :: "Vmem \<Rightarrow> Vmem \<times> Drv" where
  "outside_link v = (core v, D v)"

lemma outside_link_simps [simp]:
  "link_call e \<Longrightarrow> outside_link (made e v) = outside_link v"
  "outside_link (set_err s v) = outside_link v"
  "outside_link (v\<lparr>v_fd := f, v_link := l\<rparr>) = outside_link v"
  by (simp_all add: outside_link_def)

lemma outside_disconnect [simp]: "outside_link (disconnect_broker l v) = outside_link v"
  by (simp add: disconnect_broker_def Let_def)

lemma outside_send [simp]: "outside_link (snd (send_msg env m v)) = outside_link v"
  by (simp add: send_msg_def Let_def)

lemma outside_recv_loop [simp]: "outside_link (snd (recv_loop env k v)) = outside_link v"
  by (induction env k v rule: recv_loop.induct) (simp_all add: Let_def)

lemma outside_send_and_recv [simp]: "outside_link (snd (send_and_recv env m v)) = outside_link v"
proof -
  have r: "outside_link w = outside_link u" if "recv_loop env k u = (r, w)" for k u r w
    using outside_recv_loop [of env k u] that by simp
  show ?thesis
    using outside_send [of env m v]
    by (auto simp: send_and_recv_def case_prod_beta split: RecvRes.split prod.split dest!: r)
qed

lemma outside_connect [simp]: "outside_link (snd (connect_broker env v)) = outside_link v"
  by (simp add: connect_broker_def Let_def case_prod_beta)

lemma outside_resync [simp]: "outside_link (fold (resync_one env) cs v) = outside_link v"
  by (induction cs arbitrary: v) (simp_all add: resync_one_def)

lemma outside_reconnect [simp]: "outside_link (snd (reconnect env v)) = outside_link v"
  by (simp add: reconnect_def Let_def case_prod_beta)

lemma outside_maybe_reconnect [simp]: "outside_link (maybe_reconnect env v) = outside_link v"
  by (simp add: maybe_reconnect_def)

lemma outside_decide [simp]: "outside_link (snd (snd (snd (decide_place env va n l c v)))) = outside_link v"
proof -
  have r: "outside_link w = outside_link v" if "send_and_recv env m v = (r, w)" for m r w
    using outside_send_and_recv [of env m v] that by simp
  show ?thesis by (auto simp: decide_place_def split: prod.split option.split dest: r)
qed

lemma outsideD:
  assumes "outside_link v' = outside_link v"
  shows "core v' = core v" and "D v' = D v"
  using assms by (simp_all add: outside_link_def)

end
