(* ===== verification/Vmem_Props.thy ===== *)
theory Vmem_Props
  imports Vmem_Steps
begin

text \<open>
  The invariants B1, B2 and B3 of \<open>daemon/README.md\<close>: what the vmem backend's table says is what the
  driver holds for it, nothing more and nothing less, and a call that fails changes nothing.
\<close>

section \<open>The invariant\<close>

definition rec_bytes :: "(u64 \<times> Rec) list \<Rightarrow> Loc \<Rightarrow> u64" where
  "rec_bytes m l = om_sum (\<lambda>rc. if r_locn rc = l then r_size rc else 0) m"

text \<open>
  \<open>backed v va rc\<close>: at \<open>va\<close> there is one reserved range of the chunk's size, mapped over its whole
  size to the chunk's handle and accessible from the device, and the handle's memory is where the
  chunk's location says.
\<close>

definition backed :: "Vmem \<Rightarrow> u64 \<Rightarrow> Rec \<Rightarrow> bool" where
  "backed v va rc \<longleftrightarrow>
     d_reserved (D v) va = Some (r_size rc) \<and>
     d_mapped (D v) va = Some (r_size rc, r_h rc, Some (v_dev v)) \<and>
     (\<exists>x. d_handles (D v) (r_h rc) = Some (r_size rc, prop_at v (r_locn rc), x))"

abbreviation "vmap v \<equiv> map_of (v_chunks v)"

definition vmem_ok :: "Vmem \<Rightarrow> bool" where
  "vmem_ok v \<longleftrightarrow>
     om_ok (v_chunks v) \<and>
     (\<forall>va rc. vmap v va = Some rc \<longrightarrow> va \<noteq> 0 \<and> backed v va rc) \<and>
     (\<forall>va. d_reserved (D v) va \<noteq> None \<longrightarrow> vmap v va \<noteq> None) \<and>
     (\<forall>va. d_mapped (D v) va \<noteq> None \<longrightarrow> vmap v va \<noteq> None) \<and>
     (\<forall>h. d_handles (D v) h \<noteq> None \<longrightarrow> (\<exists>va rc. vmap v va = Some rc \<and> r_h rc = h)) \<and>
     (\<forall>va va' rc rc'. vmap v va = Some rc \<longrightarrow> vmap v va' = Some rc' \<longrightarrow> r_h rc = r_h rc' \<longrightarrow> va = va') \<and>
     (\<forall>l. v_used v l = rec_bytes (v_chunks v) l)"

text \<open>The caller's chunk \<open>c\<close> is live and is the entry \<open>rc\<close> of the table.\<close>

definition held :: "Vmem \<Rightarrow> Chunk \<Rightarrow> Rec \<Rightarrow> bool" where
  "held v c rc \<longleftrightarrow> vmap v (c_ptr c) = Some rc \<and> r_size rc = c_size c \<and> r_locn rc = c_loc c"

lemma vmem_okD:
  assumes "vmem_ok v"
  shows "om_ok (v_chunks v)"
    and "vmap v va = Some rc \<Longrightarrow> va \<noteq> 0"
    and "vmap v va = Some rc \<Longrightarrow> d_reserved (D v) va = Some (r_size rc)"
    and "vmap v va = Some rc \<Longrightarrow> d_mapped (D v) va = Some (r_size rc, r_h rc, Some (v_dev v))"
    and "vmap v va = Some rc \<Longrightarrow> \<exists>x. d_handles (D v) (r_h rc) = Some (r_size rc, prop_at v (r_locn rc), x)"
    and "d_reserved (D v) va = Some n \<Longrightarrow> \<exists>rc. vmap v va = Some rc"
    and "d_mapped (D v) va = Some m \<Longrightarrow> \<exists>rc. vmap v va = Some rc"
    and "d_handles (D v) h = Some y \<Longrightarrow> \<exists>va rc. vmap v va = Some rc \<and> r_h rc = h"
    and "vmap v va = Some rc \<Longrightarrow> vmap v va' = Some rc' \<Longrightarrow> r_h rc = r_h rc' \<Longrightarrow> va = va'"
    and "v_used v l = rec_bytes (v_chunks v) l"
  using assms unfolding vmem_ok_def backed_def by blast+

lemma vmem_ok_cong: "core v' = core v \<Longrightarrow> D v' = D v \<Longrightarrow> vmem_ok v' = vmem_ok v"
  using coreD [of v' v] by (simp add: vmem_ok_def backed_def)

lemma prop_at_table [simp]: "prop_at (v\<lparr>v_chunks := m, v_used := u\<rparr>) = prop_at v"
  by (simp add: prop_at_def fun_eq_iff)

lemma quiet_core: "quiet v v' \<Longrightarrow> core v' = core v"
  by (simp add: quiet_def)

lemma rec_bytes_put_new:
  "om_ok m \<Longrightarrow> map_of m va = None \<Longrightarrow>
     rec_bytes (om_put va rc m) l = rec_bytes m l + (if r_locn rc = l then r_size rc else 0)"
  by (simp add: rec_bytes_def om_sum_put)

text \<open>A new chunk in the table, with everything it needs in the driver.\<close>

lemma vmem_ok_add:
  assumes ok: "vmem_ok v" and va: "va \<noteq> 0" "d_reserved (D v) va = None" and h: "d_handles (D v) h = None"
    and f: "v_dev v' = v_dev v" "prop_at v' = prop_at v"
    and c: "v_chunks v' = om_put va \<lparr>r_h = h, r_size = n, r_locn = l\<rparr> (v_chunks v)"
    and u: "v_used v' = (v_used v)(l := v_used v l + n)"
    and d: "D v' = \<lparr>d_reserved = (d_reserved (D v))(va \<mapsto> n), d_handles = (d_handles (D v))(h \<mapsto> (n, prop_at v l, x)),
      d_mapped = (d_mapped (D v))(va \<mapsto> (n, h, Some (v_dev v)))\<rparr>"
  shows "vmem_ok v'"
proof -
  note k = vmem_okD [OF ok]
  have new: "vmap v va = None" using k(3) [of va] va(2) by (cases "vmap v va") auto
  have neq: "r_h rc \<noteq> h" if "vmap v va' = Some rc" for va' rc
    using k(5) [OF that] h by auto
  have m: "vmap v' = (vmap v)(va \<mapsto> \<lparr>r_h = h, r_size = n, r_locn = l\<rparr>)" by (simp add: c om_simps)
  have b: "backed v' va' rc" if "vmap v' va' = Some rc" for va' rc
    using that k(3-5) neq va by (auto simp: backed_def m d f split: if_splits)
  have z: "va' \<noteq> 0" if "vmap v' va' = Some rc" for va' rc
    using that k(2) va by (auto simp: m split: if_splits)
  have r: "vmap v' va' \<noteq> None" if "d_reserved (D v') va' \<noteq> None \<or> d_mapped (D v') va' \<noteq> None" for va'
    using that k(6,7) by (auto simp: d m split: if_splits)
  have hh: "\<exists>va' rc. vmap v' va' = Some rc \<and> r_h rc = h'" if hp: "d_handles (D v') h' \<noteq> None" for h'
  proof (cases "h' = h")
    case True
    then show ?thesis by (intro exI [of _ va]) (simp add: m)
  next
    case False
    then obtain y where "d_handles (D v) h' = Some y" using hp by (auto simp: d)
    from k(8) [OF this] obtain va' rc where "vmap v va' = Some rc" "r_h rc = h'" by blast
    then show ?thesis using new by (intro exI [of _ va']) (auto simp: m)
  qed
  have i: "va1 = va2" if "vmap v' va1 = Some r1" "vmap v' va2 = Some r2" "r_h r1 = r_h r2" for va1 va2 r1 r2
    using that k(9) neq [of va1 r1] neq [of va2 r2] by (auto simp: m split: if_splits)
  have o: "om_ok (v_chunks v')" using k(1) by (simp add: c ok_put)
  have "v_used v' l' = rec_bytes (v_chunks v') l'" for l'
    using k(10) by (simp add: u c rec_bytes_put_new [OF k(1) new])
  then show ?thesis using b z r hh i o unfolding vmem_ok_def by blast
qed

section \<open>create\<close>

lemma acquire_step:
  assumes wb: "well_behaved busy env" and e: "acquire env va n l counted v = (s, l', h, v')"
  shows "core v' = core v"
    and "s = Ok \<Longrightarrow> d_handles (D v) h = None \<and> D v' = (D v)\<lparr>d_handles := (d_handles (D v))(h \<mapsto> (n, prop_at v l', None))\<rparr>"
    and "s \<noteq> Ok \<Longrightarrow> D v' = D v"
proof -
  obtain s1 h1 v1 where c1: "create_at env n l v = (s1, h1, v1)" by (metis prod_cases3)
  obtain s2 h2 v2 where c2: "create_at env n Host v1 = (s2, h2, v2)" by (metis prod_cases3)
  note st1 = create_at_step [OF wb c1] and st2 = create_at_step [OF wb c2]
  have p: "prop_at v1 = prop_at v" using coreD(9) [OF quiet_core [OF st1(1)]] .
  define v3 where "v3 = (if s2 = Ok \<and> counted then snd (send_msg env (msg AllocFail Host va 0) v2) else v2)"
  have "outside_link v3 = outside_link v2" by (simp add: v3_def)
  note v3 = outsideD [OF this]
  have core: "core v1 = core v" "core v3 = core v"
    using v3 quiet_core [OF st1(1)] quiet_core [OF st2(1)] by simp_all
  have sv: "(s, l', h, v') = (if s1 = NoMemory \<and> l = Device then (s2, Host, h2, v3) else (s1, l, h1, v1))"
    using e c1 c2 by (auto simp: acquire_def Let_def v3_def)
  show "core v' = core v"
    and "s = Ok \<Longrightarrow> d_handles (D v) h = None \<and> D v' = (D v)\<lparr>d_handles := (d_handles (D v))(h \<mapsto> (n, prop_at v l', None))\<rparr>"
    and "s \<noteq> Ok \<Longrightarrow> D v' = D v"
    using sv core st1(3,4) st2(3,4) v3(2) p by (auto split: if_splits)
qed

lemma attach_step:
  assumes wb: "well_behaved busy env" and va: "d_reserved (D v) va = Some n" "d_mapped (D v) va = None" "va \<notin> busy"
    and h: "d_handles (D v) h = Some (n, p, x)" and e: "attach env va n h v = (s, v')"
  shows "core v' = core v"
    and "s = Ok \<Longrightarrow> D v' = remapped va (Some (n, h, Some (v_dev v))) (D v)"
    and "s \<noteq> Ok \<Longrightarrow> D v' = (D v)\<lparr>d_handles := (d_handles (D v))(h := None)\<rparr>"
proof -
  obtain s1 v1 where m: "map_chunk env va n h v = (s1, v1)" by fastforce
  have "map_option fst (d_handles (D v) h) = Some n" using h by simp
  note st = map_chunk_step [OF wb va(1,2) this m]
  have sv: "s = s1" "v' = (if s1 \<noteq> Ok then snd (release env h v1) else v1)"
    using e m by (auto simp: attach_def)
  have "quiet v v'" using st(1) by (simp add: sv)
  then show "core v' = core v" by (rule quiet_core)
  show "s = Ok \<Longrightarrow> D v' = remapped va (Some (n, h, Some (v_dev v))) (D v)" using st(3) by (simp add: sv)
  show "D v' = (D v)\<lparr>d_handles := (d_handles (D v))(h := None)\<rparr>" if "s \<noteq> Ok"
  proof -
    have d: "D v1 = D v" using st(4) that va(3) by (simp add: sv)
    then have "D (snd (release env h v1)) = (D v)\<lparr>d_handles := (d_handles (D v))(h := None)\<rparr>"
      using release_works [OF wb, of v1 h] h by simp
    then show ?thesis using that by (simp add: sv)
  qed
qed

lemma abandon_step:
  assumes "well_behaved busy env" and "d_reserved (D v) va = Some n" and "d_mapped (D v) va = None"
  shows "core (abandon env va n l counted v) = core v"
    and "D (abandon env va n l counted v) = (D v)\<lparr>d_reserved := (d_reserved (D v))(va := None)\<rparr>"
proof -
  define w where "w = (if counted then snd (send_msg env (msg Free l va 0) v) else v)"
  have "outside_link w = outside_link v" by (simp add: w_def)
  note w = outsideD [OF this]
  have "quiet w (snd (addr_free env va n w))" by simp
  then show "core (abandon env va n l counted v) = core v"
    using w(1) quiet_core unfolding abandon_def w_def [symmetric] by metis
  show "D (abandon env va n l counted v) = (D v)\<lparr>d_reserved := (d_reserved (D v))(va := None)\<rparr>"
    using addr_free_works [OF assms(1), of w va n] assms(2,3) w(2)
    unfolding abandon_def w_def [symmetric] by simp
qed

text \<open>What a successful \<open>create\<close> adds, in the object and in the driver.\<close>

definition chunk_added :: "u64 \<Rightarrow> Chunk \<Rightarrow> u64 \<Rightarrow> Vmem \<Rightarrow> Vmem \<Rightarrow> bool" where
  "chunk_added n c h v v' \<longleftrightarrow>
     v_chunks v' = om_put (c_ptr c) \<lparr>r_h = h, r_size = n, r_locn = c_loc c\<rparr> (v_chunks v) \<and>
     c_size c = n \<and> c_ptr c \<noteq> 0 \<and> d_reserved (D v) (c_ptr c) = None \<and> d_handles (D v) h = None \<and>
     free_span (c_ptr c) n (D v) \<and>
     v_dev v' = v_dev v \<and> prop_at v' = prop_at v \<and>
     v_used v' = (v_used v)(c_loc c := v_used v (c_loc c) + n) \<and>
     D v' = \<lparr>d_reserved = (d_reserved (D v))(c_ptr c \<mapsto> n),
       d_handles = (d_handles (D v))(h \<mapsto> (n, prop_at v (c_loc c), None)),
       d_mapped = (d_mapped (D v))(c_ptr c \<mapsto> (n, h, Some (v_dev v)))\<rparr>"

text \<open>The whole of \<open>create\<close>: either a new chunk, or no change outside the link.\<close>

lemma create_step:
  assumes wb: "well_behaved (dom (vmap v)) env" and ok: "vmem_ok v"
    and e: "vmem_create env n out v = (s, c, v')"
  shows "s = Ok \<Longrightarrow> \<exists>h. chunk_added n c h v v'"
    and "s \<noteq> Ok \<Longrightarrow> c = out \<and> core v' = core v \<and> D v' = D v"
proof -
  obtain s1 va v1 where r: "reserve env n v = (s1, va, v1)" by (metis prod_cases3)
  note r_step = reserve_step [OF wb r]
  note core1 = quiet_core [OF r_step(1)]
  let ?C = "(s = Ok \<longrightarrow> (\<exists>h. chunk_added n c h v v')) \<and>
    (s \<noteq> Ok \<longrightarrow> c = out \<and> core v' = core v \<and> D v' = D v)"
  have ?C
  proof (cases "s1 = Ok")
    case False
    then show ?thesis using e r r_step(4) core1 by (simp add: vmem_create_def)
  next
    case True
    note fresh = r_step(3) [OF True]
    have free: "va \<notin> dom (vmap v)"
      using fresh vmem_okD(3) [OF ok] by auto
    have undo: "\<lparr>d_reserved = (d_reserved (D v))(va := None), d_handles = d_handles (D v), d_mapped = d_mapped (D v)\<rparr> = D v"
      "(D v)\<lparr>d_reserved := (d_reserved (D v))(va := None)\<rparr> = D v"
      using fresh by (simp_all add: fun_upd_idem)
    obtain s3 l counted v3 where p: "decide_place env va n Device False (maybe_reconnect env v1) = (s3, l, counted, v3)"
      by (metis prod_cases4)
    have "outside_link v3 = outside_link v1"
      using outside_decide [of env va n Device False "maybe_reconnect env v1"] by (simp add: p)
    note v3 = outsideD [OF this]
    have d3: "d_reserved (D v3) va = Some n" "d_mapped (D v3) va = None" using v3 fresh by simp_all
    have core3: "core v3 = core v" using v3(1) core1 by simp
    show ?thesis
    proof (cases "s3 = Ok")
      case False
      have sv: "s = s3" "c = out" "v' = snd (addr_free env va n v3)"
        using e r p True False by (simp_all add: vmem_create_def)
      have "D v' = D v" using addr_free_works [OF wb d3] fresh v3(2) undo by (simp add: sv)
      moreover have "quiet v3 v'" by (simp add: sv)
      ultimately show ?thesis using False sv core3 quiet_core by metis
    next
      case True3: True
      obtain s4 l4 h v4 where a: "acquire env va n l counted v3 = (s4, l4, h, v4)" by (metis prod_cases4)
      note a_step = acquire_step [OF wb a]
      have core4: "core v4 = core v" using a_step(1) core3 by simp
      have pr: "prop_at v3 = prop_at v" using coreD(9) [OF core3] .
      show ?thesis
      proof (cases "s4 = Ok")
        case False
        have sv: "s = s4" "c = out" "v' = abandon env va n l4 counted v4"
          using e r p a True True3 False by (simp_all add: vmem_create_def)
        have d4: "D v4 = D v3" using a_step(3) False by blast
        have "D v' = D v"
          using abandon_step(2) [OF wb, of v4 va n l4 counted] d3 d4 v3(2) fresh undo by (simp add: sv)
        moreover have "core v' = core v"
          using abandon_step(1) [OF wb, of v4 va n l4 counted] d3 d4 core4 by (simp add: sv)
        ultimately show ?thesis using False sv by blast
      next
        case True4: True
        have a4: "d_handles (D v) h = None"
          "D v4 = (D v3)\<lparr>d_handles := (d_handles (D v3))(h \<mapsto> (n, prop_at v l4, None))\<rparr>"
          using a_step(2) [OF True4] v3(2) fresh pr by simp_all
        have d4: "d_reserved (D v4) va = Some n" "d_mapped (D v4) va = None"
          "d_handles (D v4) h = Some (n, prop_at v l4, None)" using a4 d3 by simp_all
        obtain s5 v5 where t: "attach env va n h v4 = (s5, v5)" by fastforce
        note t_step = attach_step [OF wb d4(1,2) free d4(3) t]
        have core5: "core v5 = core v" using t_step(1) core4 by simp
        show ?thesis
        proof (cases "s5 = Ok")
          case False
          have sv: "s = s5" "c = out" "v' = abandon env va n l4 counted v5"
            using e r p a t True True3 True4 False by (simp_all add: vmem_create_def)
          have d5: "D v5 = (D v3)\<lparr>d_handles := d_handles (D v)\<rparr>"
            using t_step(3) False a4 v3(2) fresh by (simp add: fun_upd_idem)
          have "D v' = D v"
            using abandon_step(2) [OF wb, of v5 va n l4 counted] d3 d5 v3(2) fresh undo by (simp add: sv)
          moreover have "core v' = core v"
            using abandon_step(1) [OF wb, of v5 va n l4 counted] d3 d5 core5 by (simp add: sv)
          ultimately show ?thesis using False sv by blast
        next
          case True5: True
          have sv: "s = Ok" "c = \<lparr>c_ptr = va, c_size = n, c_loc = l4\<rparr>"
            "v' = v5\<lparr>v_chunks := om_put va \<lparr>r_h = h, r_size = n, r_locn = l4\<rparr> (v_chunks v5),
               v_used := (v_used v5)(l4 := v_used v5 l4 + n)\<rparr>"
            using e r p a t True True3 True4 True5 by (simp_all add: vmem_create_def)
          have "v_dev v4 = v_dev v" using coreD(1) [OF core4] .
          then have d5: "D v' = \<lparr>d_reserved = (d_reserved (D v))(va \<mapsto> n),
              d_handles = (d_handles (D v))(h \<mapsto> (n, prop_at v l4, None)),
              d_mapped = (d_mapped (D v))(va \<mapsto> (n, h, Some (v_dev v)))\<rparr>"
            using t_step(2) [OF True5] a4 v3(2) fresh by (simp add: sv(3) remapped_def)
          have p5: "prop_at v' = prop_at v5" by (simp add: sv(3))
          show ?thesis
            using sv d5 fresh a4(1) coreD [OF core5] p5 by (auto simp: chunk_added_def)
        qed
      qed
    qed
  qed
  then show "s = Ok \<Longrightarrow> \<exists>h. chunk_added n c h v v'"
    and "s \<noteq> Ok \<Longrightarrow> c = out \<and> core v' = core v \<and> D v' = D v"
    by blast+
qed

lemma created_ok:
  assumes "vmem_ok v" and "chunk_added n c h v v'"
  shows "vmem_ok v'"
  by (rule vmem_ok_add [OF assms(1), of "c_ptr c" h v' n "c_loc c" None])
    (use assms(2) in \<open>simp_all add: chunk_added_def\<close>)

text \<open>
  C2. create (B1, B2, B3). On a backend whose table and driver state agree, \<open>create\<close> keeps them in
  agreement: every live chunk is one reserved range, mapped read/write over its whole size to its own
  handle whose memory is at the recorded location; nothing else is reserved, mapped or alive; and
  \<open>used\<close> is the sum per location. On Ok there is one more chunk, of the requested size and at a new
  address, and the memory of the others is untouched. On any other status, whichever driver call
  failed or whatever the broker said, nothing is left behind: table, counters and driver state are as
  before.
\<close>

theorem create_is_clean:
  assumes "well_behaved (dom (vmap v)) env" and "vmem_ok v" and "vmem_create env n out v = (s, c, v')"
  shows "vmem_ok v' \<and>
    (s = Ok \<longrightarrow> c_size c = n \<and> vmap v (c_ptr c) = None \<and>
      (\<exists>h. v_chunks v' = om_put (c_ptr c) \<lparr>r_h = h, r_size = n, r_locn = c_loc c\<rparr> (v_chunks v)) \<and>
      (\<forall>h y. d_handles (D v) h = Some y \<longrightarrow> d_handles (D v') h = Some y)) \<and>
    (s \<noteq> Ok \<longrightarrow> c = out \<and> v_chunks v' = v_chunks v \<and> v_used v' = v_used v \<and> D v' = D v)"
proof (cases "s = Ok")
  case True
  then obtain h where a: "chunk_added n c h v v'" using create_step(1) [OF assms] by blast
  have new: "vmap v (c_ptr c) = None"
    using a vmem_okD(3) [OF assms(2), of "c_ptr c"] by (cases "vmap v (c_ptr c)") (auto simp: chunk_added_def)
  have "vmem_ok v'" by (rule created_ok [OF assms(2) a])
  with a new True show ?thesis by (auto simp: chunk_added_def)
next
  case False
  from create_step(2) [OF assms this] have c: "c = out" "core v' = core v" "D v' = D v" by simp_all
  with False show ?thesis using vmem_ok_cong [OF c(2,3)] assms(2) coreD(5,6) [OF c(2)] by simp
qed

section \<open>move\<close>

text \<open>What a successful move changes: the handle behind the address, its place and the counters.\<close>

definition chunk_moved :: "Chunk \<Rightarrow> Rec \<Rightarrow> Loc \<Rightarrow> u64 \<Rightarrow> Vmem \<Rightarrow> Vmem \<Rightarrow> bool" where
  "chunk_moved c rc to nh v v' \<longleftrightarrow>
     v_chunks v' = om_put (c_ptr c) \<lparr>r_h = nh, r_size = c_size c, r_locn = to\<rparr> (v_chunks v) \<and>
     v_used v' = (v_used v)(c_loc c := v_used v (c_loc c) - c_size c, to := v_used v to + c_size c) \<and>
     v_dev v' = v_dev v \<and> prop_at v' = prop_at v \<and> d_handles (D v) nh = None \<and>
     D v' = \<lparr>d_reserved = d_reserved (D v),
       d_handles = (d_handles (D v))(nh \<mapsto> (c_size c, prop_at v to, data_of (r_h rc) (D v)), r_h rc := None),
       d_mapped = (d_mapped (D v))(c_ptr c \<mapsto> (c_size c, nh, Some (v_dev v)))\<rparr>"

lemma set_data_new:
  "set_data h y (d\<lparr>d_handles := (d_handles d)(h \<mapsto> (n, p, x))\<rparr>) = d\<lparr>d_handles := (d_handles d)(h \<mapsto> (n, p, y))\<rparr>"
  by (simp add: set_data_def)

lemma swap_step:
  assumes wb: "well_behaved (dom (vmap v)) env" and ok: "vmem_ok v"
    and c: "vmap v (c_ptr c) = Some rc" "r_size rc = c_size c" "c_loc c \<noteq> to"
    and e: "swap env c to v = (res, v')"
  obtains s where "s \<in> {Ok, NoMemory, Fatal}"
    and "res = Ret (s, if s = Ok then c\<lparr>c_loc := to\<rparr> else c)"
    and "s = Ok \<Longrightarrow> \<exists>nh. chunk_moved c rc to nh v v'"
    and "s \<noteq> Ok \<Longrightarrow> core v' = core v"
    and "s = NoMemory \<Longrightarrow> D v' = D v"
    and "s \<noteq> Ok \<Longrightarrow> \<exists>m. D v' = remapped (c_ptr c) m (D v)"
    and "s \<noteq> Ok \<Longrightarrow> v_link v' = v_link v" and "v_fd v' = v_fd v" and "v_link v' = v_link v"
proof -
  define va n old where "va = c_ptr c" and "n = c_size c" and "old = r_h rc"
  note k = vmem_okD [OF ok]
  have old: "d_reserved (D v) va = Some n" "d_mapped (D v) va = Some (n, old, Some (v_dev v))"
    "\<exists>x. d_handles (D v) old = Some (n, prop_at v (r_locn rc), x)"
    using k(3) [OF c(1)] k(4) [OF c(1)] k(5) [OF c(1)] c(2) by (simp_all add: va_def n_def old_def)
  have same: "\<exists>m. D v = remapped (c_ptr c) m (D v)"
    using old(2) by (intro exI [of _ "Some (n, old, Some (v_dev v))"]) (simp add: va_def)
  obtain s1 nh v1 where a: "create_at env n to v = (s1, nh, v1)" by (metis prod_cases3)
  note a_step = create_at_step [OF wb a]
  show thesis
  proof (cases "s1 = Ok")
    case False
    have "res = Ret (s1, c)" "v' = v1"
      using e a c False by (simp_all add: swap_def va_def n_def)
    then show ?thesis
      using that [of s1] a_step False quiet_core [OF a_step(1)] same by (auto simp: quiet_def va_def)
  next
    case True
    note new = a_step(3) [OF True]
    have dev: "v_dev v1 = v_dev v" using a_step(1) by (rule quiet_dev)
    have neq: "old \<noteq> nh" using old(3) new by auto
    have h1: "d_handles (D v1) nh = Some (n, prop_at v to, None)" "d_mapped (D v1) va = Some (n, old, Some (v_dev v))"
      "dom (vmap v) \<subseteq> dom (d_reserved (D v1))" "data_of old (D v1) = data_of old (D v)"
      using new old k(3) neq by (auto simp: data_of_def)
    obtain s2 v2 where cp: "copy_into env nh va n v1 = (s2, v2)" by fastforce
    note cp_step = copy_into_step [OF wb h1(3,1,2) cp]
    obtain y where y: "D v2 = (D v)\<lparr>d_handles := (d_handles (D v))(nh \<mapsto> (n, prop_at v to, y))\<rparr>"
      and y_ok: "s2 = Ok \<Longrightarrow> y = data_of old (D v)"
    proof (cases "s2 = Ok")
      case True
      then show ?thesis using that cp_step(3) h1(4) new by (simp add: set_data_new)
    next
      case False
      then show ?thesis using that cp_step(4) new by (auto simp: set_data_new)
    qed
    have q2: "quiet v v2" using quiet_trans [OF a_step(1) cp_step(1)] .
    have dev2: "v_dev v2 = v_dev v" using q2 by (rule quiet_dev)
    obtain s3 v3 where r3: "(if s2 = Ok then replace_backing env va n old nh v2 else (s2, v2)) = (s3, v3)" by fastforce
    have b: "d_reserved (D v2) va = Some n" "d_mapped (D v2) va = Some (n, old, Some (v_dev v2))"
      "map_option fst (d_handles (D v2) old) = Some n" "map_option fst (d_handles (D v2) nh) = Some n"
      using y old neq dev2 by auto
    have st3: "quiet v v3" "s3 \<in> {Ok, NoMemory, Fatal}"
      "s3 = Ok \<Longrightarrow> s2 = Ok \<and> D v3 = remapped va (Some (n, nh, Some (v_dev v))) (D v2)"
      "s3 = NoMemory \<Longrightarrow> D v3 = D v2" "\<exists>m. D v3 = remapped va m (D v2)"
    proof -
      have "quiet v v3 \<and> s3 \<in> {Ok, NoMemory, Fatal} \<and>
        (s3 = Ok \<longrightarrow> s2 = Ok \<and> D v3 = remapped va (Some (n, nh, Some (v_dev v))) (D v2)) \<and>
        (s3 = NoMemory \<longrightarrow> D v3 = D v2) \<and> (\<exists>m. D v3 = remapped va m (D v2))"
      proof (cases "s2 = Ok")
        case True
        then have "replace_backing env va n old nh v2 = (s3, v3)" using r3 by simp
        note rs = replace_backing_step [OF wb b this]
        show ?thesis using rs True dev2 quiet_trans [OF q2 rs(1)] by simp
      next
        case False
        then have "s3 = s2" "v3 = v2" using r3 by simp_all
        moreover have "remapped va (Some (n, old, Some (v_dev v2))) (D v2) = D v2" using b by simp
        ultimately show ?thesis using False cp_step(2) q2 by metis
      qed
      then show "quiet v v3" "s3 \<in> {Ok, NoMemory, Fatal}"
        "s3 = Ok \<Longrightarrow> s2 = Ok \<and> D v3 = remapped va (Some (n, nh, Some (v_dev v))) (D v2)"
        "s3 = NoMemory \<Longrightarrow> D v3 = D v2" "\<exists>m. D v3 = remapped va m (D v2)" by blast+
    qed
    have nh3: "d_handles (D v3) nh = Some (n, prop_at v to, y)" and old3: "d_handles (D v3) old = d_handles (D v) old"
      using st3(5) y neq by auto
    show ?thesis
    proof (cases "s3 = Ok")
      case False
      have sv: "res = Ret (s3, c)" "v' = snd (release env nh v3)"
        using e a c True cp r3 [unfolded va_def n_def old_def] False
        by (simp_all add: swap_def va_def n_def old_def Let_def)
      have d': "D v' = (D v3)\<lparr>d_handles := (d_handles (D v3))(nh := None)\<rparr>"
        using release_works [OF wb nh3] by (simp add: sv)
      have back2: "(D v2)\<lparr>d_handles := (d_handles (D v2))(nh := None)\<rparr> = D v"
        using y new by (simp add: fun_upd_idem)
      have "s3 = NoMemory \<Longrightarrow> D v' = D v" using d' st3(4) back2 by simp
      moreover have "\<exists>m. D v' = remapped va m (D v)"
      proof -
        obtain m where "D v3 = remapped va m (D v2)" using st3(5) by blast
        then have "D v' = remapped va m ((D v2)\<lparr>d_handles := (d_handles (D v2))(nh := None)\<rparr>)"
          using d' by (simp add: remapped_def)
        then show ?thesis using back2 by auto
      qed
      moreover have "quiet v v'" using st3(1) by (simp add: sv)
      ultimately show ?thesis
        using that [of s3] sv st3(2) False quiet_core [of v v'] by (auto simp: quiet_def va_def)
    next
      case True3: True
      have s2: "s2 = Ok" and d3: "D v3 = remapped va (Some (n, nh, Some (v_dev v))) (D v2)"
        using st3(3) [OF True3] by simp_all
      define v4 where "v4 = snd (release env old v3)"
      have sv: "res = Ret (Ok, c\<lparr>c_loc := to\<rparr>)"
        "v' = v4\<lparr>v_chunks := om_put va \<lparr>r_h = nh, r_size = n, r_locn = to\<rparr> (v_chunks v4),
           v_used := (v_used v4)(c_loc c := v_used v4 (c_loc c) - n, to := v_used v4 to + n)\<rparr>"
        using e a c True cp r3 [unfolded va_def n_def old_def] True3
        by (simp_all add: swap_def va_def n_def old_def v4_def Let_def)
      have q4: "quiet v v4" using st3(1) by (simp add: v4_def)
      have "D v4 = (D v3)\<lparr>d_handles := (d_handles (D v3))(old := None)\<rparr>"
        using release_works [OF wb, of v3 old] old(3) old3 by (auto simp: v4_def)
      then have d4: "D v' = \<lparr>d_reserved = d_reserved (D v),
         d_handles = (d_handles (D v))(nh \<mapsto> (n, prop_at v to, data_of old (D v)), old := None),
         d_mapped = (d_mapped (D v))(va \<mapsto> (n, nh, Some (v_dev v)))\<rparr>"
        using d3 y y_ok [OF s2] by (simp add: sv(2) remapped_def)
      have p4: "prop_at v' = prop_at v4" by (simp add: sv(2))
      have "chunk_moved c rc to nh v v'"
        using sv d4 new p4 coreD [OF quiet_core [OF q4]]
        by (simp add: chunk_moved_def va_def n_def old_def)
      then show ?thesis using that [of Ok] sv q4 by (auto simp: quiet_def)
    qed
  qed
qed

lemma rec_bytes_put_move:
  "om_ok m \<Longrightarrow> map_of m va = Some rc \<Longrightarrow> r_locn rc \<noteq> r_locn rc' \<Longrightarrow> r_size rc' = r_size rc \<Longrightarrow>
     rec_bytes (om_put va rc' m) l =
       (if r_locn rc' = l then rec_bytes m l + r_size rc
        else if r_locn rc = l then rec_bytes m l - r_size rc else rec_bytes m l)"
  by (auto simp: rec_bytes_def om_sum_put)

lemma vmem_ok_moved:
  assumes ok: "vmem_ok v" and m: "chunk_moved c rc to nh v v'"
    and c: "vmap v (c_ptr c) = Some rc" "r_size rc = c_size c" "r_locn rc = c_loc c" "c_loc c \<noteq> to"
  shows "vmem_ok v'"
proof -
  note k = vmem_okD [OF ok]
  let ?rc = "\<lparr>r_h = nh, r_size = c_size c, r_locn = to\<rparr>"
  have m': "vmap v' = (vmap v)(c_ptr c \<mapsto> ?rc)" using m by (simp add: chunk_moved_def om_simps)
  have f: "v_dev v' = v_dev v" "prop_at v' = prop_at v" "d_handles (D v) nh = None"
    and d: "D v' = \<lparr>d_reserved = d_reserved (D v),
       d_handles = (d_handles (D v))(nh \<mapsto> (c_size c, prop_at v to, data_of (r_h rc) (D v)), r_h rc := None),
       d_mapped = (d_mapped (D v))(c_ptr c \<mapsto> (c_size c, nh, Some (v_dev v)))\<rparr>"
    and ch: "v_chunks v' = om_put (c_ptr c) ?rc (v_chunks v)"
    and u: "v_used v' = (v_used v)(c_loc c := v_used v (c_loc c) - c_size c, to := v_used v to + c_size c)"
    using m by (simp_all add: chunk_moved_def)
  have neq: "r_h r \<noteq> nh" if "vmap v va = Some r" for va r
    using k(5) [OF that] f(3) by auto
  have own: "r_h r \<noteq> r_h rc" if "vmap v va = Some r" "va \<noteq> c_ptr c" for va r
    using k(9) [OF that(1) c(1)] that(2) by auto
  have size: "d_reserved (D v) (c_ptr c) = Some (c_size c)" using k(3) [OF c(1)] c(2) by simp
  have b: "va \<noteq> 0 \<and> backed v' va r" if r: "vmap v' va = Some r" for va r
  proof (cases "va = c_ptr c")
    case True
    then show ?thesis using r neq [OF c(1)] k(2) [OF c(1)] size by (auto simp: m' backed_def d f)
  next
    case False
    then have v: "vmap v va = Some r" using r by (simp add: m')
    show ?thesis
      using k(2) [OF v] k(3) [OF v] k(4) [OF v] k(5) [OF v] neq [OF v] own [OF v False] False
      by (simp add: backed_def d f)
  qed
  have r: "vmap v' va \<noteq> None" if "d_reserved (D v') va \<noteq> None \<or> d_mapped (D v') va \<noteq> None" for va
    using that k(6,7) by (auto simp: d m' split: if_splits)
  have hh: "\<exists>va r. vmap v' va = Some r \<and> r_h r = h" if hp: "d_handles (D v') h \<noteq> None" for h
  proof (cases "h = nh")
    case True
    then show ?thesis by (intro exI [of _ "c_ptr c"]) (simp add: m')
  next
    case False
    then obtain y where "d_handles (D v) h = Some y" "h \<noteq> r_h rc" using hp by (auto simp: d split: if_splits)
    with k(8) obtain va r where "vmap v va = Some r" "r_h r = h" by blast
    then show ?thesis using c(1) \<open>h \<noteq> r_h rc\<close> by (intro exI [of _ va] exI [of _ r]) (auto simp: m')
  qed
  have i: "va1 = va2" if "vmap v' va1 = Some r1" "vmap v' va2 = Some r2" "r_h r1 = r_h r2" for va1 va2 r1 r2
    using that k(9) [of va1 r1 va2 r2] neq [of va1 r1] neq [of va2 r2] by (auto simp: m' split: if_splits)
  have o: "om_ok (v_chunks v')" using k(1) by (simp add: ch ok_put)
  have "v_used v' l = rec_bytes (v_chunks v') l" for l
    using rec_bytes_put_move [OF k(1) c(1), of ?rc l] c k(10) by (cases l; auto simp: ch u)
  then show ?thesis using b r hh i o unfolding vmem_ok_def by blast
qed

lemma chunk_moved_cong:
  assumes "core w = core v" "D w = D v" "core w' = core v'" "D w' = D v'"
  shows "chunk_moved c rc to nh w w' = chunk_moved c rc to nh v v'"
  using coreD [OF assms(1)] coreD [OF assms(3)] assms(2,4) by (simp add: chunk_moved_def)

text \<open>\<open>move\<close> around \<open>swap\<close>: permission before, report after; neither touches the chunks.\<close>

lemma move_step:
  assumes wb: "well_behaved (dom (vmap v)) env" and ok: "vmem_ok v"
    and c: "vmap v (c_ptr c) = Some rc" "r_size rc = c_size c"
    and e: "vmem_move env c to v = (res, v')" and neq: "c_loc c \<noteq> to"
  obtains s where "s \<in> {Ok, NoMemory, Fatal}"
    and "res = Ret (s, if s = Ok then c\<lparr>c_loc := to\<rparr> else c)"
    and "s = Ok \<Longrightarrow> \<exists>nh. chunk_moved c rc to nh v v'"
    and "s \<noteq> Ok \<Longrightarrow> core v' = core v"
    and "s = NoMemory \<Longrightarrow> D v' = D v"
    and "s \<noteq> Ok \<Longrightarrow> \<exists>m. D v' = remapped (c_ptr c) m (D v)"
proof -
  define v1 where "v1 = maybe_reconnect env v"
  obtain rep v2 where a: "(if v_link v1 = Connected then send_and_recv env (msg Move to (c_ptr c) 0) v1 else (None, v1)) = (rep, v2)"
    by fastforce
  have "outside_link v2 = outside_link v1"
    using a by (metis outside_send_and_recv snd_conv)
  moreover have "outside_link v1 = outside_link v" by (simp add: v1_def)
  ultimately have "outside_link v2 = outside_link v" by simp
  note v2 = outsideD [OF this]
  have ok2: "vmem_ok v2" using vmem_ok_cong [OF v2] ok by simp
  have vm: "vmap v2 = vmap v" using coreD(6) [OF v2(1)] by simp
  have wb2: "well_behaved (dom (vmap v2)) env" and c2: "vmap v2 (c_ptr c) = Some rc" using wb c vm by simp_all
  obtain sw v3 where sw: "swap env c to v2 = (sw, v3)" by fastforce
  show thesis
  proof (cases "\<exists>rp. rep = Some rp \<and> r_status rp \<noteq> Ok")
    case True
    then have sv: "res = Ret (NoMemory, c)" "v' = set_err (''vmemd refused the move to '' @ loc_name to) v2"
      using e neq a [unfolded v1_def] by (auto simp: vmem_move_def Let_def)
    have d: "D v' = D v" "core v' = core v" using v2 by (simp_all add: sv(2))
    have "\<exists>m. D v' = remapped (c_ptr c) m (D v)"
      using vmem_okD(4) [OF ok c(1)] d
      by (intro exI [of _ "Some (r_size rc, r_h rc, Some (v_dev v))"]) simp
    then show thesis using that [of NoMemory] sv d by simp
  next
    case False
    show thesis
    proof (rule swap_step [OF wb2 ok2 c2 c(2) neq sw])
      fix s
      assume s: "s \<in> {Ok, NoMemory, Fatal}" "sw = Ret (s, if s = Ok then c\<lparr>c_loc := to\<rparr> else c)"
        and st: "s = Ok \<Longrightarrow> \<exists>nh. chunk_moved c rc to nh v2 v3" "s \<noteq> Ok \<Longrightarrow> core v3 = core v2"
          "s = NoMemory \<Longrightarrow> D v3 = D v2" "s \<noteq> Ok \<Longrightarrow> \<exists>m. D v3 = remapped (c_ptr c) m (D v2)"
      have sv: "res = sw" and "outside_link v' = outside_link v3"
        using e neq a [unfolded v1_def] sw s(2) False
        by (auto simp: vmem_move_def Let_def split: option.splits if_splits)
      note v3 = outsideD [OF this(2)]
      show thesis
      proof (rule that [OF s(1)])
        show "res = Ret (s, if s = Ok then c\<lparr>c_loc := to\<rparr> else c)" using s sv by simp
        show "\<exists>nh. chunk_moved c rc to nh v v'" if "s = Ok"
          using st(1) [OF that] chunk_moved_cong [OF v2 v3 [symmetric]] by simp
        show "core v' = core v" if "s \<noteq> Ok" using st(2) [OF that] v2 v3 by simp
        show "D v' = D v" if "s = NoMemory" using st(3) [OF that] v2 v3 by simp
        show "\<exists>m. D v' = remapped (c_ptr c) m (D v)" if "s \<noteq> Ok" using st(4) [OF that] v2 v3 by simp
      qed
    qed
  qed
qed

lemma data_of_moved:
  assumes ok: "vmem_ok v" and m: "chunk_moved c rc to nh v v'" and c: "vmap v (c_ptr c) = Some rc"
    and va: "vmap v va = Some r" "va \<noteq> c_ptr c"
  shows "vmap v' va = Some r \<and> data_of (r_h r) (D v') = data_of (r_h r) (D v)"
proof -
  have "r_h r \<noteq> r_h rc" using vmem_okD(9) [OF ok va(1) c] va(2) by blast
  moreover have "r_h r \<noteq> nh" using vmem_okD(5) [OF ok va(1)] m by (auto simp: chunk_moved_def)
  ultimately show ?thesis using m va by (auto simp: chunk_moved_def om_simps data_of_def)
qed

text \<open>
  C3. move (B1, B2, B3, data). For a live chunk of a consistent backend, \<open>move\<close> to the other location
  ends in one of three ways. Ok: the chunk has the same address and size and the same data, its memory
  is at the target, the backend is consistent again, and the data of every other chunk is untouched.
  NoMemory (no room, or the broker refused): the chunk, the table, the counters and the driver state
  are as before, no scratch range or handle is left. Fatal: table and counters are as before, and at
  most the mapping of this one chunk's address differs. It never throws.
\<close>

theorem move_is_clean:
  assumes "well_behaved (dom (vmap v)) env" and "vmem_ok v" and "vmap v (c_ptr c) = Some rc"
    and "r_size rc = c_size c" and "r_locn rc = c_loc c" and "c_loc c \<noteq> to"
    and "vmem_move env c to v = (res, v')"
  shows "\<exists>s. res = Ret (s, if s = Ok then c\<lparr>c_loc := to\<rparr> else c) \<and> s \<in> {Ok, NoMemory, Fatal} \<and>
    (s = Ok \<longrightarrow> vmem_ok v' \<and>
      (\<exists>rc'. vmap v' (c_ptr c) = Some rc' \<and> r_locn rc' = to \<and> r_size rc' = r_size rc \<and>
        data_of (r_h rc') (D v') = data_of (r_h rc) (D v)) \<and>
      (\<forall>va r. va \<noteq> c_ptr c \<longrightarrow> vmap v va = Some r \<longrightarrow>
        vmap v' va = Some r \<and> data_of (r_h r) (D v') = data_of (r_h r) (D v))) \<and>
    (s \<noteq> Ok \<longrightarrow> v_chunks v' = v_chunks v \<and> v_used v' = v_used v \<and> (\<exists>m. D v' = remapped (c_ptr c) m (D v))) \<and>
    (s = NoMemory \<longrightarrow> vmem_ok v' \<and> D v' = D v)"
proof (rule move_step [OF assms(1-4,7,6)])
  fix s
  assume s: "s \<in> {Ok, NoMemory, Fatal}" "res = Ret (s, if s = Ok then c\<lparr>c_loc := to\<rparr> else c)"
    and st: "s = Ok \<Longrightarrow> \<exists>nh. chunk_moved c rc to nh v v'" "s \<noteq> Ok \<Longrightarrow> core v' = core v"
      "s = NoMemory \<Longrightarrow> D v' = D v" "s \<noteq> Ok \<Longrightarrow> \<exists>m. D v' = remapped (c_ptr c) m (D v)"
  show ?thesis
  proof (cases "s = Ok")
    case True
    then obtain nh where m: "chunk_moved c rc to nh v v'" using st(1) by blast
    have neq: "r_h rc \<noteq> nh" using vmem_okD(5) [OF assms(2,3)] m by (auto simp: chunk_moved_def)
    have new: "vmap v' (c_ptr c) = Some \<lparr>r_h = nh, r_size = c_size c, r_locn = to\<rparr>"
      "data_of nh (D v') = data_of (r_h rc) (D v)"
      using m neq by (simp_all add: chunk_moved_def om_simps data_of_def)
    have "vmem_ok v'" by (rule vmem_ok_moved [OF assms(2) m assms(3-6)])
    then show ?thesis using True s new assms(4) data_of_moved [OF assms(2) m assms(3)] by auto
  next
    case False
    note same = st(2) [OF False]
    have "s = NoMemory \<Longrightarrow> vmem_ok v'" using vmem_ok_cong [OF same] st(3) assms(2) by simp
    then show ?thesis using False s st(3,4) coreD(5,6) [OF same] by auto
  qed
qed

section \<open>destroy\<close>

lemma vmem_ok_removed:
  assumes ok: "vmem_ok v" and c: "vmap v va = Some rc"
    and f: "v_dev v' = v_dev v" "prop_at v' = prop_at v"
    and ch: "v_chunks v' = om_del va (v_chunks v)"
    and u: "v_used v' = (v_used v)(r_locn rc := v_used v (r_locn rc) - r_size rc)"
    and d: "D v' = \<lparr>d_reserved = (d_reserved (D v))(va := None), d_handles = (d_handles (D v))(r_h rc := None),
      d_mapped = (d_mapped (D v))(va := None)\<rparr>"
  shows "vmem_ok v'"
proof -
  note k = vmem_okD [OF ok]
  have m: "vmap v' = (vmap v)(va := None)" using k(1) by (simp add: ch om_simps)
  have own: "r_h r \<noteq> r_h rc" if "vmap v a = Some r" "a \<noteq> va" for a r
    using k(9) [OF that(1) c] that(2) by auto
  have b: "a \<noteq> 0 \<and> backed v' a r" if r: "vmap v' a = Some r" for a r
  proof -
    have v: "vmap v a = Some r" "a \<noteq> va" using r by (auto simp: m split: if_splits)
    show ?thesis using k(2) [OF v(1)] k(3) [OF v(1)] k(4) [OF v(1)] k(5) [OF v(1)] own [OF v] v
      by (simp add: backed_def d f)
  qed
  have r: "vmap v' a \<noteq> None" if "d_reserved (D v') a \<noteq> None \<or> d_mapped (D v') a \<noteq> None" for a
    using that k(6,7) by (auto simp: d m split: if_splits)
  have hh: "\<exists>a r. vmap v' a = Some r \<and> r_h r = h" if hp: "d_handles (D v') h \<noteq> None" for h
  proof -
    obtain y where "d_handles (D v) h = Some y" "h \<noteq> r_h rc" using hp by (auto simp: d split: if_splits)
    with k(8) obtain a r where "vmap v a = Some r" "r_h r = h" by blast
    then show ?thesis using c \<open>h \<noteq> r_h rc\<close> by (intro exI [of _ a] exI [of _ r]) (auto simp: m)
  qed
  have i: "a1 = a2" if "vmap v' a1 = Some r1" "vmap v' a2 = Some r2" "r_h r1 = r_h r2" for a1 a2 r1 r2
    using that k(9) [of a1 r1 a2 r2] by (auto simp: m split: if_splits)
  have o: "om_ok (v_chunks v')" using k(1) by (simp add: ch ok_del)
  have "v_used v' l = rec_bytes (v_chunks v') l" for l
    using k(1,10) c by (auto simp: ch u rec_bytes_def om_sum_del)
  then show ?thesis using b r hh i o unfolding vmem_ok_def by blast
qed

lemma destroy_step:
  assumes "well_behaved (dom (vmap v)) env" and "vmem_ok v" and "vmap v (c_ptr c) = Some rc"
    and "r_size rc = c_size c" and "r_locn rc = c_loc c" and "vmem_destroy env c v = (res, v')"
  shows "res = Ret (Ok, null_chunk) \<and> vmem_ok v' \<and> v_chunks v' = om_del (c_ptr c) (v_chunks v) \<and>
      v_used v' = (v_used v)(c_loc c := v_used v (c_loc c) - c_size c) \<and>
      D v' = \<lparr>d_reserved = (d_reserved (D v))(c_ptr c := None), d_handles = (d_handles (D v))(r_h rc := None),
        d_mapped = (d_mapped (D v))(c_ptr c := None)\<rparr> \<or>
    res = Ret (Fatal, c) \<and> vmem_ok v' \<and> v_chunks v' = v_chunks v \<and> v_used v' = v_used v \<and> D v' = D v"
proof -
  define va n where "va = c_ptr c" and "n = c_size c"
  note k = vmem_okD [OF assms(2)]
  have c: "vmap v va = Some rc" using assms(3) by (simp add: va_def)
  have old: "d_reserved (D v) va = Some n" "d_mapped (D v) va = Some (n, r_h rc, Some (v_dev v))"
    "\<exists>x. d_handles (D v) (r_h rc) = Some (n, prop_at v (r_locn rc), x)"
    using k(3) [OF c] k(4) [OF c] k(5) [OF c] assms(4) by (simp_all add: n_def)
  obtain r1 w1 where u1: "unmap env va n v = (r1, w1)" by fastforce
  define v1 where "v1 = snd (cu env r1 ''cuMemUnmap'' w1)"
  have q1: "quiet v v1" using unmap_step(1) [of v env va n v] u1 by (simp add: v1_def)
  have d1: "D v1 = (if r1 = CUDA_SUCCESS then remapped va None (D v) else D v)"
    using unmap_step(2) [of env va n v] u1 old(2) by (simp add: v1_def unmap_range_def remapped_def)
  show ?thesis
  proof (cases "r1 = CUDA_SUCCESS")
    case False
    have sv: "res = Ret (Fatal, c)" "v' = v1"
      using assms(6) u1 False by (simp_all add: vmem_destroy_def Let_def case_prod_beta va_def n_def v1_def)
    have core: "core v' = core v" using quiet_core [OF q1] by (simp add: sv(2))
    have d: "D v' = D v" using d1 False by (simp add: sv(2))
    then show ?thesis
      using vmem_ok_cong [OF core] assms(2) coreD(5,6) [OF core] sv(1) by simp
  next
    case True
    have ch1: "vmap v1 va = Some rc" using coreD(6) [OF quiet_core [OF q1]] c by simp
    obtain r2 w2 where u2: "release env (r_h rc) v1 = (r2, w2)" by fastforce
    have r2: "r2 = CUDA_SUCCESS"
      using well_behavedD(3) [OF assms(1), of "v_calls v1" "r_h rc"] u2 old(3) d1 True
      by (auto simp: release_def Let_def)
    define v2 where "v2 = snd (cu env r2 ''cuMemRelease'' w2)"
    have d2: "D v2 = \<lparr>d_reserved = d_reserved (D v), d_handles = (d_handles (D v))(r_h rc := None),
        d_mapped = (d_mapped (D v))(va := None)\<rparr>"
      using release_step(2) [of env "r_h rc" v1] u2 r2 d1 True by (simp add: v2_def remapped_def)
    have q2: "quiet v v2"
      using quiet_trans [OF q1] release_step(1) [of v1 env "r_h rc" v1] u2 by (simp add: v2_def)
    obtain r3 w3 where u3: "addr_free env va n v2 = (r3, w3)" by fastforce
    have r3: "r3 = CUDA_SUCCESS"
      using well_behavedD(4) [OF assms(1), of "v_calls v2" va n] u3 old(1) d2
      by (simp add: addr_free_def Let_def)
    define v3 where "v3 = snd (cu env r3 ''cuMemAddressFree'' w3)"
    have d3: "D v3 = \<lparr>d_reserved = (d_reserved (D v))(va := None), d_handles = (d_handles (D v))(r_h rc := None),
        d_mapped = (d_mapped (D v))(va := None)\<rparr>"
      using addr_free_step(2) [of env va n v2] u3 r3 d2 old(1) by (simp add: v3_def free_range_def)
    have q3: "quiet v v3"
      using quiet_trans [OF q2] addr_free_step(1) [of v2 env va n v2] u3 by (simp add: v3_def)
    define v4 where "v4 = v3\<lparr>v_chunks := om_del va (v_chunks v3),
      v_used := (v_used v3)(c_loc c := v_used v3 (c_loc c) - n)\<rparr>"
    have sv: "res = Ret (Ok, null_chunk)" "v' = snd (send_msg env (msg Free (c_loc c) va 0) v4)"
      using assms(6) u1 u2 u3 r2 r3 True ch1
      by (simp_all add: vmem_destroy_def Let_def case_prod_beta va_def n_def v1_def v2_def v3_def v4_def)
    have "outside_link v' = outside_link v4" by (simp add: sv(2))
    note v' = outsideD [OF this]
    have f3: "v_used v3 = v_used v" "v_chunks v3 = v_chunks v" "v_dev v3 = v_dev v" "prop_at v3 = prop_at v"
      using coreD [OF quiet_core [OF q3]] by simp_all
    have f4: "v_dev v4 = v_dev v" "prop_at v4 = prop_at v" "v_chunks v4 = om_del va (v_chunks v)"
      "v_used v4 = (v_used v)(c_loc c := v_used v (c_loc c) - n)" "D v4 = D v3"
      using f3 by (simp_all add: v4_def)
    have "vmem_ok v4"
      by (rule vmem_ok_removed [OF assms(2) c]) (use f4 d3 assms(4,5) in \<open>simp_all add: n_def\<close>)
    then have "vmem_ok v'" using vmem_ok_cong [OF v'] by simp
    then show ?thesis
      using sv(1) v' coreD(5,6) [OF v'(1)] f4 d3 by (simp add: va_def n_def)
  qed
qed

text \<open>
  C4. destroy (B1, B2, B3). For a live chunk of a consistent backend, \<open>destroy\<close> either returns Ok, and
  then range, mapping and handle are gone, the chunk is out of the table, \<open>used\<close> has dropped by its
  size, the backend is consistent and the caller's chunk is cleared; or it returns Fatal because the
  driver would not unmap, and then nothing has changed at all. It never throws.
\<close>

theorem destroy_is_clean:
  assumes "well_behaved (dom (vmap v)) env" and "vmem_ok v" and "vmap v (c_ptr c) = Some rc"
    and "r_size rc = c_size c" and "r_locn rc = c_loc c" and "vmem_destroy env c v = (res, v')"
  shows "res = Ret (Ok, null_chunk) \<and> vmem_ok v' \<and> v_chunks v' = om_del (c_ptr c) (v_chunks v) \<and>
      v_used v' = (v_used v)(c_loc c := v_used v (c_loc c) - c_size c) \<and>
      D v' = \<lparr>d_reserved = (d_reserved (D v))(c_ptr c := None), d_handles = (d_handles (D v))(r_h rc := None),
        d_mapped = (d_mapped (D v))(c_ptr c := None)\<rparr> \<or>
    res = Ret (Fatal, c) \<and> vmem_ok v' \<and> v_chunks v' = v_chunks v \<and> v_used v' = v_used v \<and> D v' = D v"
  using assms by (rule destroy_step)

section \<open>A concrete driver\<close>

text \<open>
  A driver that keeps the promises: addresses and handles are numbered by the length of the history;
  with \<open>full\<close> there is no device memory. The broker of this environment answers Ok and device.
\<close>

fun past_ranges :: "history \<Rightarrow> (u64 \<times> u64) list" where
  "past_ranges [] = []"
| "past_ranges (EReserve n r va # hs) = (va, n) # past_ranges hs"
| "past_ranges (_ # hs) = past_ranges hs"

lemma past_ranges_append [simp]: "past_ranges (hs @ hs') = past_ranges hs @ past_ranges hs'"
  by (induction hs rule: past_ranges.induct) simp_all

lemma reserved_call:
  "d_reserved (apply_call e d) a = Some m \<Longrightarrow> d_reserved d a = Some m \<or> (a, m) \<in> set (past_ranges [e])"
  by (cases e)
    (auto simp: free_range_def map_range_def unmap_range_def allow_range_def copy_range_def write_range_def
      split: if_splits option.splits)

lemma past_ranges_reserved: "d_reserved (drv hs) a = Some m \<Longrightarrow> (a, m) \<in> set (past_ranges hs)"
proof (induction hs rule: rev_induct)
  case Nil
  then show ?case by (simp add: drv_def no_drv_def)
next
  case (snoc e hs)
  then show ?case using reserved_call [of e "drv hs" a m] by auto
qed

text \<open>\<open>apart\<close> and the absence of wrap-around, computed on words.\<close>

definition clear_of :: "u64 \<times> u64 \<Rightarrow> u64 \<Rightarrow> u64 \<Rightarrow> bool" where
  "clear_of r a n \<longleftrightarrow> fst r \<le> fst r + snd r \<and> (fst r + snd r \<le> a \<or> a + n \<le> fst r)"

lemma no_wrap_unat: "(a :: u64) \<le> a + n \<longleftrightarrow> unat a + unat n < 2 ^ 64"
  by (simp add: no_olen_add_nat)

lemma clear_of_apart: "a \<le> a + n \<Longrightarrow> clear_of r a n \<Longrightarrow> apart (fst r) (snd r) a n"
proof -
  assume a: "a \<le> a + n" and r: "clear_of r a n"
  have "unat (a + n) = unat a + unat n" "unat (fst r + snd r) = unat (fst r) + unat (snd r)"
    using a r by (simp_all add: clear_of_def no_wrap_unat u64_add_no_wrap)
  with r show ?thesis by (auto simp: clear_of_def apart_def word_le_nat_alt)
qed

definition demo_env :: "bool \<Rightarrow> Env" where
  "demo_env full = \<lparr>env_set_device = (\<lambda>_. True), env_context = True, env_attr = (\<lambda>_ _. Some 1),
     env_granularity = (\<lambda>_. (CUDA_SUCCESS, 0x200000)), env_error_name = (\<lambda>_. []), env_strerror = (\<lambda>_. []),
     env_progname = ''app'',
     env_reserve = (\<lambda>hs n g.
       let a = 0x7f0000000000 + 0x200000 * of_nat (length hs)
       in if a \<noteq> 0 \<and> d_reserved (drv hs) a = None \<and> d_mapped (drv hs) a = None \<and>
            a \<le> a + n \<and> (\<forall>r \<in> set (past_ranges hs). clear_of r a n)
          then (CUDA_SUCCESS, a)
          else (CUDA_ERROR_OUT_OF_MEMORY, 0)),
     env_addr_free = (\<lambda>_ _ _. CUDA_SUCCESS),
     env_create = (\<lambda>hs n p.
       let h = of_nat (length hs)
       in if (full \<and> p_type p = LocDevice) \<or> d_handles (drv hs) h \<noteq> None then (CUDA_ERROR_OUT_OF_MEMORY, 0)
          else (CUDA_SUCCESS, h)),
     env_release = (\<lambda>_ _. CUDA_SUCCESS),
     env_map = (\<lambda>hs va _ _. if d_mapped (drv hs) va = None then CUDA_SUCCESS else CUDA_ERROR 1),
     env_unmap = (\<lambda>_ _ _. CUDA_SUCCESS), env_set_access = (\<lambda>_ _ _ _. CUDA_SUCCESS),
     env_copy = (\<lambda>_ _ _ _. CUDA_SUCCESS), env_ctx_sync = (\<lambda>_. CUDA_SUCCESS),
     env_socket = (\<lambda>_. (7, 0)), env_connect = (\<lambda>_ _. 0), env_send = (\<lambda>_ _ _. 0),
     env_interrupts = (\<lambda>_. 0), env_recv = (\<lambda>_ _. RecvReply \<lparr>r_status = Ok, r_loc = Device\<rparr>)\<rparr>"

lemma demo_env_ok: "well_behaved busy (demo_env full)"
proof -
  have "free_span a n (drv hs)"
    if "a \<le> a + n" "\<forall>r \<in> set (past_ranges hs). clear_of r a n" for a n hs
    using that past_ranges_reserved [of hs] clear_of_apart [OF that(1)]
    by (fastforce simp: free_span_def no_wrap_unat)
  then show ?thesis
    by (auto simp: well_behaved_def demo_env_def Let_def simp flip: not_None_eq split: if_splits)
qed

lemma new_ok: "vmem_ok new_vmem"
  by (simp add: vmem_ok_def new_vmem_def drv_def no_drv_def rec_bytes_def)

text \<open>The application writing a chunk keeps the invariant.\<close>

lemma write_ok:
  assumes ok: "vmem_ok v" and c: "vmap v va = Some rc"
  shows "vmem_ok (made (EWrite va x) v)"
proof -
  note k = vmem_okD [OF ok]
  have d: "D (made (EWrite va x) v) = set_data (r_h rc) (Some x) (D v)"
    using k(4) [OF c] by (simp add: write_range_def)
  have f: "v_chunks (made (EWrite va x) v) = v_chunks v" "v_used (made (EWrite va x) v) = v_used v"
    "v_dev (made (EWrite va x) v) = v_dev v" "prop_at (made (EWrite va x) v) = prop_at v"
    using coreD [of "made (EWrite va x) v" v] by simp_all
  show ?thesis
    using ok unfolding vmem_ok_def backed_def f d
    by (auto simp: set_data_handles split: if_splits) (metis option.distinct(1))+
qed

definition demo_vmem :: Vmem where
  "demo_vmem = made (EWrite 0x7f0000000000 42)
     (snd (snd (vmem_create (demo_env True) 0x200000 null_chunk new_vmem)))"

lemmas vmem_eval = clear_of_def vmem_create_def reserve_def create_at_def map_chunk_def attach_def acquire_def abandon_def
  maybe_reconnect_def decide_place_def cu_def made_def set_err_def demo_env_def Let_def prop_at_def
  drv_def no_drv_def map_range_def allow_range_def free_range_def unmap_range_def new_vmem_def

lemma demo_rec: "vmap demo_vmem 0x7f0000000000 = Some \<lparr>r_h = 2, r_size = 0x200000, r_locn = Host\<rparr>"
  by (simp add: demo_vmem_def vmem_eval)

lemma demo_vmem_ok: "vmem_ok demo_vmem"
proof -
  obtain s c v' where e: "vmem_create (demo_env True) 0x200000 null_chunk new_vmem = (s, c, v')"
    by (metis prod_cases3)
  have "s = Ok" "vmap v' 0x7f0000000000 = Some \<lparr>r_h = 2, r_size = 0x200000, r_locn = Host\<rparr>"
    using e by (auto simp: vmem_eval)
  then have "vmem_ok v'" using create_step(1) [OF demo_env_ok new_ok e] created_ok [OF new_ok] by blast
  with write_ok [OF this, of "0x7f0000000000"] show ?thesis
    using e by (simp add: demo_vmem_def \<open>vmap v' _ = _\<close>)
qed

theorem create_is_clean_witness:
  "\<exists>c v'. vmem_create (demo_env True) 0x200000 null_chunk new_vmem = (Ok, c, v') \<and>
     c_loc c = Host \<and> c_size c = 0x200000 \<and> vmem_ok v'"
proof -
  obtain s c v' where e: "vmem_create (demo_env True) 0x200000 null_chunk new_vmem = (s, c, v')"
    by (metis prod_cases3)
  have "s = Ok" "c_loc c = Host" using e by (auto simp: vmem_eval)
  with create_is_clean [OF demo_env_ok new_ok e] e show ?thesis by blast
qed

text \<open>The chunk written above, prefetched to a device that now has room.\<close>

theorem move_is_clean_witness:
  "\<exists>c v' rc. vmem_move (demo_env False) \<lparr>c_ptr = 0x7f0000000000, c_size = 0x200000, c_loc = Host\<rparr> Device demo_vmem
      = (Ret (Ok, c), v') \<and>
    vmap v' 0x7f0000000000 = Some rc \<and> r_locn rc = Device \<and> data_of (r_h rc) (D v') = Some 42"
proof -
  let ?c = "\<lparr>c_ptr = 0x7f0000000000, c_size = 0x200000, c_loc = Host\<rparr>"
  obtain res v' where e: "vmem_move (demo_env False) ?c Device demo_vmem = (res, v')" by fastforce
  have "fst (vmem_move (demo_env False) ?c Device demo_vmem) = Ret (Ok, ?c\<lparr>c_loc := Device\<rparr>)"
    by code_simp
  then have r: "\<exists>c. res = Ret (Ok, c)" using e by simp
  have x: "data_of 2 (D demo_vmem) = Some 42"
    by (simp add: demo_vmem_def vmem_eval write_range_def set_data_def data_of_def)
  have "vmap demo_vmem (c_ptr ?c) = Some \<lparr>r_h = 2, r_size = 0x200000, r_locn = Host\<rparr>"
    using demo_rec by simp
  from move_is_clean [OF demo_env_ok demo_vmem_ok this _ _ _ e] r e x show ?thesis by auto
qed

theorem destroy_is_clean_witness:
  "\<exists>v'. vmem_destroy (demo_env False) \<lparr>c_ptr = 0x7f0000000000, c_size = 0x200000, c_loc = Host\<rparr> demo_vmem
      = (Ret (Ok, null_chunk), v') \<and> v_chunks v' = [] \<and> v_used v' Host = 0"
proof -
  let ?c = "\<lparr>c_ptr = 0x7f0000000000, c_size = 0x200000, c_loc = Host\<rparr>"
  obtain res v' where e: "vmem_destroy (demo_env False) ?c demo_vmem = (res, v')" by fastforce
  have "fst (vmem_destroy (demo_env False) ?c demo_vmem) = Ret (Ok, null_chunk)"
    by code_simp
  then have r: "res = Ret (Ok, null_chunk)" using e by simp
  have d: "v_chunks demo_vmem = [(0x7f0000000000, \<lparr>r_h = 2, r_size = 0x200000, r_locn = Host\<rparr>)]"
    "v_used demo_vmem Host = 0x200000"
    by (simp_all add: demo_vmem_def vmem_eval)
  have "vmap demo_vmem (c_ptr ?c) = Some \<lparr>r_h = 2, r_size = 0x200000, r_locn = Host\<rparr>"
    using demo_rec by simp
  from destroy_is_clean [OF demo_env_ok demo_vmem_ok this _ _ e] r e d show ?thesis by auto
qed

end
