(* ===== verification/Broker.thy ===== *)
theory Broker
  imports Wire
begin

text \<open>
  The broker \<open>vmemd\<close> (\<open>libvmem/daemon/vmemd.cpp\<close>): its state, the seven message handlers with
  their accounting, the routing of a message, connects and disconnects, and the event loop. The
  functions take the part of the state the C++ function can touch and return it updated. What the
  operating system decides (did \<open>send\<close> succeed, what did \<open>recv\<close> and \<open>accept\<close> return, the time)
  is an argument.
\<close>

section \<open>State\<close>

definition UNLIMITED :: u64 where "UNLIMITED = 0xFFFFFFFFFFFFFFFF"

record ChunkRec =
  cr_size :: u64
  cr_loc :: Loc

record Tenant =
  t_pid :: int
  t_name :: string
  t_hello :: bool
  t_connected :: int
  t_chunks :: "(u64 \<times> ChunkRec) list"
  t_moving :: "(u64 \<times> Loc) option"
  t_device :: u64
  t_host :: u64
  t_vram_limit :: u64
  t_dram_limit :: u64
  t_priority :: int

record Global =
  g_vram_limit :: u64
  g_dram_limit :: u64
  g_ctx_overhead :: u64
  g_device :: u64
  g_host :: u64

text \<open>A fresh \<open>Tenant\<close> (\<open>tenants[fd]\<close> on a new key) and the static \<open>Global\<close> before the config.\<close>

definition new_tenant :: Tenant where
  "new_tenant = \<lparr>t_pid = 0, t_name = [], t_hello = False, t_connected = 0, t_chunks = [],
     t_moving = None, t_device = 0, t_host = 0, t_vram_limit = UNLIMITED,
     t_dram_limit = UNLIMITED, t_priority = 0\<rparr>"

definition new_global :: Global where
  "new_global = \<lparr>g_vram_limit = UNLIMITED, g_dram_limit = UNLIMITED, g_ctx_overhead = 0,
     g_device = 0, g_host = 0\<rparr>"

text \<open>
  One constructor per \<open>log\<close> or \<open>dlog\<close> call, with the values it prints (byte counts already shifted
  to MiB). The time stamp in front of a line is left out.
\<close>

datatype LogLine =
    LAcceptFailed | LPeercredFailed
  | LConnect int fd
  | LDisconnect int string int
  | LTotals u64 u64
  | LReplyFailed fd
  | LOverLimit Loc int u64 u64 u64
  | LAllocHeld int u64 | LAllocRefused int u64 | LAlloc int u64 Loc
  | LAllocFailUnknown int u64 | LAllocFailOnHost int u64 | LAllocFail int u64
  | LMoveUnknown int u64 | LMoveBusy int u64 u64 | LMoveRefused int u64 Loc | LMove int u64 Loc Loc
  | LMoveDoneUnknown int u64 | LMoveDoneUngranted int u64 Loc | LMoveDoneFailed int u64 Loc
  | LResyncHeld int u64 | LResync int u64 Loc
  | LFreeUnknown int u64 | LFreeMoving int u64 | LFree int u64 Loc
  | LHello int string
  | LUnhandled int u32
  | LState int u64 u64 u64 u64
  | LBadSize int nat

definition mib :: "u64 \<Rightarrow> u64" where "mib n = drop_bit 20 n"

text \<open>
  What a handler can reach: the tenant it was given by reference, the globals, the log, the replies
  sent so far and the \<open>--debug\<close> flag.
\<close>

record Handler =
  h_tenant :: Tenant
  h_global :: Global
  h_log :: "LogLine list"
  h_sent :: "(fd \<times> Reply) list"
  h_debug :: bool

definition say :: "LogLine \<Rightarrow> Handler \<Rightarrow> Handler" where
  "say l h = h\<lparr>h_log := h_log h @ [l]\<rparr>"

definition dlog :: "LogLine \<Rightarrow> Handler \<Rightarrow> Handler" where
  "dlog l h = (if h_debug h then say l h else h)"

text \<open>\<open>send\<close> with \<open>MSG_NOSIGNAL\<close>; \<open>sent_ok\<close> is whether it took the whole reply.\<close>

definition reply :: "fd \<Rightarrow> bool \<Rightarrow> Status \<Rightarrow> Loc \<Rightarrow> Handler \<Rightarrow> Handler" where
  "reply fd sent_ok s l h =
     (if sent_ok then h\<lparr>h_sent := h_sent h @ [(fd, \<lparr>r_status = s, r_loc = l\<rparr>)]\<rparr>
      else say (LReplyFailed fd) h)"

section \<open>Accounting\<close>

definition used_bytes :: "Tenant \<Rightarrow> Loc \<Rightarrow> u64" where
  "used_bytes t l = (if l = Device then t_device t else t_host t)"

definition all_used_bytes :: "Global \<Rightarrow> Loc \<Rightarrow> u64" where
  "all_used_bytes g l = (if l = Device then g_device g else g_host g)"

definition tenant_limit :: "Tenant \<Rightarrow> Loc \<Rightarrow> u64" where
  "tenant_limit t l = (if l = Device then t_vram_limit t else t_dram_limit t)"

definition global_limit :: "Global \<Rightarrow> Loc \<Rightarrow> u64" where
  "global_limit g l = (if l = Device then g_vram_limit g else g_dram_limit g)"

definition fits_limit :: "Handler \<Rightarrow> Loc \<Rightarrow> u64 \<Rightarrow> bool" where
  "fits_limit h l sz \<longleftrightarrow>
     used_bytes (h_tenant h) l + sz \<le> tenant_limit (h_tenant h) l \<and>
     all_used_bytes (h_global h) l + sz \<le> global_limit (h_global h) l"

definition update_count :: "Loc \<Rightarrow> u64 \<Rightarrow> bool \<Rightarrow> Handler \<Rightarrow> Handler" where
  "update_count l sz add h =
     (let f = (\<lambda>x. if add then x + sz else x - sz); t = h_tenant h; g = h_global h
      in if l = Device
         then h\<lparr>h_tenant := t\<lparr>t_device := f (t_device t)\<rparr>, h_global := g\<lparr>g_device := f (g_device g)\<rparr>\<rparr>
         else h\<lparr>h_tenant := t\<lparr>t_host := f (t_host t)\<rparr>, h_global := g\<lparr>g_host := f (g_host g)\<rparr>\<rparr>)"

definition check_over_limit :: "Loc \<Rightarrow> Handler \<Rightarrow> Handler" where
  "check_over_limit l h =
     (let t = h_tenant h; g = h_global h
      in if used_bytes t l > tenant_limit t l \<or> all_used_bytes g l > global_limit g l
         then say (LOverLimit l (t_pid t) (mib (used_bytes t l)) (mib (all_used_bytes g l))
                    (mib (global_limit g l))) h
         else h)"

definition put_chunk :: "u64 \<Rightarrow> ChunkRec \<Rightarrow> Handler \<Rightarrow> Handler" where
  "put_chunk ptr c h =
     h\<lparr>h_tenant := (h_tenant h)\<lparr>t_chunks := om_put ptr c (t_chunks (h_tenant h))\<rparr>\<rparr>"

definition set_moving :: "(u64 \<times> Loc) option \<Rightarrow> Handler \<Rightarrow> Handler" where
  "set_moving m h = h\<lparr>h_tenant := (h_tenant h)\<lparr>t_moving := m\<rparr>\<rparr>"

section \<open>Handlers\<close>

text \<open>\<open>handle_alloc\<close>: \<open>s\<close> and \<open>l\<close> are the out-parameters, with the values the caller put there.\<close>

definition handle_alloc ::
  "u64 \<Rightarrow> u64 \<Rightarrow> Status \<Rightarrow> Loc \<Rightarrow> Handler \<Rightarrow> Status \<times> Loc \<times> Handler" where
  "handle_alloc sz ptr s l h =
     (let pid = t_pid (h_tenant h) in
      if map_of (t_chunks (h_tenant h)) ptr \<noteq> None
      then (Unsupported, l, say (LAllocHeld pid ptr) h)
      else
        (case (if fits_limit h Device sz then Some Device
               else if fits_limit h Host sz then Some Host else None) of
           None \<Rightarrow> (NoMemory, l, say (LAllocRefused pid (mib sz)) h)
         | Some l' \<Rightarrow>
             (Ok, l', say (LAlloc pid (mib sz) l')
                (update_count l' sz True (put_chunk ptr \<lparr>cr_size = sz, cr_loc = l'\<rparr> h)))))"

definition handle_alloc_fail :: "u64 \<Rightarrow> Handler \<Rightarrow> Handler" where
  "handle_alloc_fail ptr h =
     (let pid = t_pid (h_tenant h) in
      case map_of (t_chunks (h_tenant h)) ptr of
        None \<Rightarrow> say (LAllocFailUnknown pid ptr) h
      | Some c \<Rightarrow>
          if cr_loc c \<noteq> Device then say (LAllocFailOnHost pid ptr) h
          else check_over_limit Host
                 (say (LAllocFail pid (mib (cr_size c)))
                    (put_chunk ptr (c\<lparr>cr_loc := Host\<rparr>)
                       (update_count Host (cr_size c) True
                          (update_count Device (cr_size c) False h)))))"

definition handle_move :: "u64 \<Rightarrow> Loc \<Rightarrow> Handler \<Rightarrow> Status \<times> Handler" where
  "handle_move ptr to h =
     (let pid = t_pid (h_tenant h) in
      case map_of (t_chunks (h_tenant h)) ptr of
        None \<Rightarrow> (NoMemory, say (LMoveUnknown pid ptr) h)
      | Some c \<Rightarrow>
          if cr_loc c = to then (Ok, h)
          else (case t_moving (h_tenant h) of
              Some (q, _) \<Rightarrow> (NoMemory, say (LMoveBusy pid ptr q) h)
            | None \<Rightarrow>
                if \<not> fits_limit h to (cr_size c)
                then (NoMemory, say (LMoveRefused pid (mib (cr_size c)) to) h)
                else (Ok, say (LMove pid (mib (cr_size c)) (cr_loc c) to)
                            (set_moving (Some (ptr, to)) (update_count to (cr_size c) True h)))))"

text \<open>
  \<open>handle_move_done\<close>: release the reservation of the granted move, if this is the moving chunk, then
  record where the chunk is now.
\<close>

definition release_move :: "u64 \<Rightarrow> Loc \<Rightarrow> ChunkRec \<Rightarrow> Handler \<Rightarrow> Handler" where
  "release_move ptr at c h =
     (let pid = t_pid (h_tenant h) in
      case t_moving (h_tenant h) of
        Some (q, to) \<Rightarrow>
          if q = ptr
          then set_moving None
                 ((if at \<noteq> to then say (LMoveDoneFailed pid ptr at) else id)
                    (update_count to (cr_size c) False h))
          else say (LMoveDoneUngranted pid ptr at) h
      | None \<Rightarrow> say (LMoveDoneUngranted pid ptr at) h)"

definition record_location :: "u64 \<Rightarrow> Loc \<Rightarrow> ChunkRec \<Rightarrow> Handler \<Rightarrow> Handler" where
  "record_location ptr at c h =
     (if at \<noteq> cr_loc c
      then check_over_limit at
             (put_chunk ptr (c\<lparr>cr_loc := at\<rparr>)
                (update_count at (cr_size c) True (update_count (cr_loc c) (cr_size c) False h)))
      else h)"

definition handle_move_done :: "u64 \<Rightarrow> Loc \<Rightarrow> Handler \<Rightarrow> Handler" where
  "handle_move_done ptr at h =
     (case map_of (t_chunks (h_tenant h)) ptr of
        None \<Rightarrow> say (LMoveDoneUnknown (t_pid (h_tenant h)) ptr) h
      | Some c \<Rightarrow> record_location ptr at c (release_move ptr at c h))"

definition handle_resync :: "u64 \<Rightarrow> u64 \<Rightarrow> Loc \<Rightarrow> Handler \<Rightarrow> Handler" where
  "handle_resync ptr sz at h =
     (let pid = t_pid (h_tenant h);
          h1 = (case map_of (t_chunks (h_tenant h)) ptr of
                  None \<Rightarrow> h
                | Some c \<Rightarrow> update_count (cr_loc c) (cr_size c) False (say (LResyncHeld pid ptr) h))
      in check_over_limit at
           (say (LResync pid (mib sz) at)
              (update_count at sz True (put_chunk ptr \<lparr>cr_size = sz, cr_loc = at\<rparr> h1))))"

definition erase_chunk :: "u64 \<Rightarrow> Handler \<Rightarrow> Handler" where
  "erase_chunk ptr h =
     h\<lparr>h_tenant := (h_tenant h)\<lparr>t_chunks := om_del ptr (t_chunks (h_tenant h))\<rparr>\<rparr>"

definition drop_move :: "u64 \<Rightarrow> ChunkRec \<Rightarrow> Handler \<Rightarrow> Handler" where
  "drop_move ptr c h =
     (case t_moving (h_tenant h) of
        Some (q, to) \<Rightarrow>
          if q = ptr
          then set_moving None (update_count to (cr_size c) False
                 (say (LFreeMoving (t_pid (h_tenant h)) ptr) h))
          else h
      | None \<Rightarrow> h)"

definition handle_free :: "u64 \<Rightarrow> Handler \<Rightarrow> Handler" where
  "handle_free ptr h =
     (let pid = t_pid (h_tenant h) in
      case map_of (t_chunks (h_tenant h)) ptr of
        None \<Rightarrow> say (LFreeUnknown pid ptr) h
      | Some c \<Rightarrow>
          erase_chunk ptr
            (say (LFree pid (mib (cr_size c)) (cr_loc c))
               (update_count (cr_loc c) (cr_size c) False (drop_move ptr c h))))"

definition handle_hello :: "string \<Rightarrow> Handler \<Rightarrow> Handler" where
  "handle_hello name h =
     (let t = h_tenant h;
          nm = takeWhile (\<lambda>c. c \<noteq> CHR 0x00) (take NAME_LEN name)
      in if t_hello t then h
         else say (LHello (t_pid t) nm)
                (update_count Device (g_ctx_overhead (h_global h)) True
                   (h\<lparr>h_tenant := t\<lparr>t_hello := True, t_name := nm\<rparr>\<rparr>)))"

definition debug_state :: "Handler \<Rightarrow> Handler" where
  "debug_state h =
     (let t = h_tenant h; g = h_global h in
      dlog (LState (t_pid t) (mib (t_device t)) (mib (t_host t)) (mib (g_device g)) (mib (g_host g))) h)"

text \<open>The \<open>switch\<close> of \<open>handle\<close>, then the debug line.\<close>

definition dispatch :: "fd \<Rightarrow> bool \<Rightarrow> Msg \<Rightarrow> Handler \<Rightarrow> Handler" where
  "dispatch fd sent_ok m h =
     (case m_type m of
        Hello \<Rightarrow> reply fd sent_ok Ok Device (handle_hello (m_name m) h)
      | Alloc \<Rightarrow> (case handle_alloc (m_size m) (m_ptr m) NoMemory Host h of
                    (s, l, h') \<Rightarrow> reply fd sent_ok s l h')
      | AllocFail \<Rightarrow> handle_alloc_fail (m_ptr m) h
      | Move \<Rightarrow> (case handle_move (m_ptr m) (m_loc m) h of (s, h') \<Rightarrow> reply fd sent_ok s Device h')
      | MoveDone \<Rightarrow> handle_move_done (m_ptr m) (m_loc m) h
      | Resync \<Rightarrow> handle_resync (m_ptr m) (m_size m) (m_loc m) h
      | Free \<Rightarrow> handle_free (m_ptr m) h
      | OtherType w \<Rightarrow> say (LUnhandled (t_pid (h_tenant h)) w) h)"

definition handle :: "fd \<Rightarrow> bool \<Rightarrow> Msg \<Rightarrow> Handler \<Rightarrow> Handler" where
  "handle fd sent_ok m h = debug_state (dispatch fd sent_ok m h)"

section \<open>Connections and the event loop\<close>

record Broker =
  b_tenants :: "(fd \<times> Tenant) list"
  b_global :: Global
  b_log :: "LogLine list"
  b_sent :: "(fd \<times> Reply) list"
  b_debug :: bool

definition blog :: "LogLine \<Rightarrow> Broker \<Rightarrow> Broker" where
  "blog l b = b\<lparr>b_log := b_log b @ [l]\<rparr>"

text \<open>Results of the system calls the loop depends on.\<close>

datatype accept_result =
    AcceptError
  | PeercredError fd
  | Accepted fd int bool \<comment> \<open>descriptor, peer pid, did \<open>epoll_ctl\<close> succeed\<close>

datatype recv_result =
    RecvInterrupted             \<comment> \<open>\<open>n < 0\<close> and \<open>errno == EINTR\<close>\<close>
  | RecvFailed                  \<comment> \<open>\<open>n < 0\<close>, any other error\<close>
  | RecvPacket "byte list"      \<comment> \<open>the packet queued on the socket; empty: the peer closed\<close>

text \<open>\<open>None\<close>: the broker process ends (\<open>die\<close> after a failed \<open>epoll_ctl\<close>).\<close>

definition on_connect :: "accept_result \<Rightarrow> int \<Rightarrow> Broker \<Rightarrow> Broker option" where
  "on_connect r now b =
     (case r of
        AcceptError \<Rightarrow> Some (blog LAcceptFailed b)
      | PeercredError fd \<Rightarrow> Some (blog LPeercredFailed b)
      | Accepted fd pid watched \<Rightarrow>
          if \<not> watched then None
          else
            (let t = (case map_of (b_tenants b) fd of None \<Rightarrow> new_tenant | Some t \<Rightarrow> t);
                 t' = t\<lparr>t_pid := pid, t_connected := now\<rparr>
             in Some (blog (LConnect pid fd) (b\<lparr>b_tenants := om_put fd t' (b_tenants b)\<rparr>))))"

text \<open>\<open>None\<close>: \<open>tenants.at(fd)\<close> throws and nothing catches it.\<close>

definition on_disconnect :: "fd \<Rightarrow> int \<Rightarrow> Broker \<Rightarrow> Broker option" where
  "on_disconnect fd now b =
     (case map_of (b_tenants b) fd of
        None \<Rightarrow> None
      | Some t \<Rightarrow>
          (let g = (b_global b)\<lparr>g_device := g_device (b_global b) - t_device t,
                                g_host := g_host (b_global b) - t_host t\<rparr>;
               b1 = (blog (LDisconnect (t_pid t) (t_name t) (now - t_connected t)) b)\<lparr>b_global := g\<rparr>;
               b2 = (if b_debug b then blog (LTotals (mib (g_device g)) (mib (g_host g))) b1 else b1)
           in Some (b2\<lparr>b_tenants := om_del fd (b_tenants b)\<rparr>)))"

definition open_handler :: "Tenant \<Rightarrow> Broker \<Rightarrow> Handler" where
  "open_handler t b = \<lparr>h_tenant = t, h_global = b_global b, h_log = b_log b, h_sent = b_sent b,
     h_debug = b_debug b\<rparr>"

definition close_handler :: "fd \<Rightarrow> Handler \<Rightarrow> Broker \<Rightarrow> Broker" where
  "close_handler fd h b = b\<lparr>b_tenants := om_put fd (h_tenant h) (b_tenants b),
     b_global := h_global h, b_log := h_log h, b_sent := h_sent h\<rparr>"

text \<open>\<open>handle(fd, tenants.at(fd), m)\<close>.\<close>

definition on_message :: "fd \<Rightarrow> bool \<Rightarrow> Msg \<Rightarrow> Broker \<Rightarrow> Broker option" where
  "on_message fd sent_ok m b =
     (case map_of (b_tenants b) fd of
        None \<Rightarrow> None
      | Some t \<Rightarrow> Some (close_handler fd (handle fd sent_ok m (open_handler t b)) b))"

text \<open>
  \<open>recv\<close> into the 56-byte struct: of a longer packet it delivers the first 56 bytes and drops the
  rest, so \<open>n\<close> is the smaller of the two lengths.
\<close>

definition on_readable :: "fd \<Rightarrow> recv_result \<Rightarrow> bool \<Rightarrow> int \<Rightarrow> Broker \<Rightarrow> Broker option" where
  "on_readable fd r sent_ok now b =
     (case r of
        RecvInterrupted \<Rightarrow> Some b
      | RecvFailed \<Rightarrow> on_disconnect fd now b
      | RecvPacket bytes \<Rightarrow>
          (let n = min (length bytes) MSG_SIZE in
           if n = 0 then on_disconnect fd now b
           else if n \<noteq> MSG_SIZE
           then (case map_of (b_tenants b) fd of
                   None \<Rightarrow> None
                 | Some t \<Rightarrow> on_disconnect fd now (blog (LBadSize (t_pid t) n) b))
           else (case decode_msg (take MSG_SIZE bytes) of
                   None \<Rightarrow> None
                 | Some m \<Rightarrow> on_message fd sent_ok m b)))"

datatype event =
    Listening accept_result int
  | Readable fd recv_result bool int

fun broker_step :: "event \<Rightarrow> Broker \<Rightarrow> Broker option" where
  "broker_step (Listening r now) b = on_connect r now b"
| "broker_step (Readable fd r sent_ok now) b = on_readable fd r sent_ok now b"

fun broker_run :: "event list \<Rightarrow> Broker \<Rightarrow> Broker option" where
  "broker_run [] b = Some b"
| "broker_run (e # es) b = (case broker_step e b of None \<Rightarrow> None | Some b' \<Rightarrow> broker_run es b')"

definition start_broker :: "Global \<Rightarrow> bool \<Rightarrow> Broker" where
  "start_broker g dbg = \<lparr>b_tenants = [], b_global = g, b_log = [], b_sent = [], b_debug = dbg\<rparr>"

end
