(* ===== verification/Broker_Inv.thy ===== *)
theory Broker_Inv
  imports Broker
begin

text \<open>
  The accounting of the broker: invariants K1 and K2 of \<open>daemon/README.md\<close>. All sums are 64-bit
  with wrap-around, as the code computes them, so the invariants need no bound on any size.
\<close>

section \<open>What the counts should be\<close>

text \<open>Bytes of a tenant's chunks at \<open>l\<close>, and bytes reserved there by a granted move.\<close>

definition chunk_bytes :: "(u64 \<times> ChunkRec) list \<Rightarrow> Loc \<Rightarrow> u64" where
  "chunk_bytes m l = om_sum (\<lambda>c. if cr_loc c = l then cr_size c else 0) m"

definition reserved :: "(u64 \<times> Loc) option \<Rightarrow> (u64 \<times> ChunkRec) list \<Rightarrow> Loc \<Rightarrow> u64" where
  "reserved mv m l =
     (case mv of
        None \<Rightarrow> 0
      | Some (p, to) \<Rightarrow>
          if to = l then (case map_of m p of None \<Rightarrow> 0 | Some c \<Rightarrow> cr_size c) else 0)"

definition overhead :: "u64 \<Rightarrow> bool \<Rightarrow> Loc \<Rightarrow> u64" where
  "overhead ov hello l = (if hello \<and> l = Device then ov else 0)"

text \<open>K1, with the well-formedness it needs: a move is in flight only for a tracked chunk.\<close>

definition tenant_ok :: "u64 \<Rightarrow> Tenant \<Rightarrow> bool" where
  "tenant_ok ov t \<longleftrightarrow>
     om_ok (t_chunks t) \<and>
     (\<forall>l. used_bytes t l =
        overhead ov (t_hello t) l + chunk_bytes (t_chunks t) l + reserved (t_moving t) (t_chunks t) l) \<and>
     (\<forall>p to. t_moving t = Some (p, to) \<longrightarrow> map_of (t_chunks t) p \<noteq> None)"

text \<open>K2: the global counts are the sums over the tenants.\<close>

definition broker_ok :: "Broker \<Rightarrow> bool" where
  "broker_ok b \<longleftrightarrow>
     om_ok (b_tenants b) \<and>
     (\<forall>fd t. map_of (b_tenants b) fd = Some t \<longrightarrow> tenant_ok (g_ctx_overhead (b_global b)) t) \<and>
     (\<forall>l. all_used_bytes (b_global b) l = om_sum (\<lambda>t. used_bytes t l) (b_tenants b))"

lemma chunk_bytes_put:
  "om_ok m \<Longrightarrow> chunk_bytes (om_put p c m) l =
     chunk_bytes m l - (case map_of m p of None \<Rightarrow> 0 | Some d \<Rightarrow> if cr_loc d = l then cr_size d else 0)
     + (if cr_loc c = l then cr_size c else 0)"
  by (simp add: chunk_bytes_def om_sum_put)

lemma chunk_bytes_del:
  "om_ok m \<Longrightarrow> chunk_bytes (om_del p m) l =
     chunk_bytes m l - (case map_of m p of None \<Rightarrow> 0 | Some d \<Rightarrow> if cr_loc d = l then cr_size d else 0)"
  by (simp add: chunk_bytes_def om_sum_del)

section \<open>Effects of the building blocks\<close>

text \<open>The parts of a handler's state the invariants read.\<close>

abbreviation "chunks h \<equiv> t_chunks (h_tenant h)"
abbreviation "moving h \<equiv> t_moving (h_tenant h)"
abbreviation "hello h \<equiv> t_hello (h_tenant h)"
abbreviation "used h l \<equiv> used_bytes (h_tenant h) l"
abbreviation "all_used h l \<equiv> all_used_bytes (h_global h) l"
abbreviation "ctx h \<equiv> g_ctx_overhead (h_global h)"

lemma say_effects [simp]:
  "h_tenant (say x h) = h_tenant h" "h_global (say x h) = h_global h" "h_sent (say x h) = h_sent h"
  "h_debug (say x h) = h_debug h"
  by (simp_all add: say_def)

lemma dlog_effects [simp]:
  "h_tenant (dlog x h) = h_tenant h" "h_global (dlog x h) = h_global h" "h_sent (dlog x h) = h_sent h"
  by (simp_all add: dlog_def)

lemma debug_state_effects [simp]:
  "h_tenant (debug_state h) = h_tenant h" "h_global (debug_state h) = h_global h"
  "h_sent (debug_state h) = h_sent h"
  by (simp_all add: debug_state_def Let_def)

lemma reply_effects [simp]:
  "h_tenant (reply fd ok s l h) = h_tenant h" "h_global (reply fd ok s l h) = h_global h"
  by (simp_all add: reply_def)

lemma check_over_limit_effects [simp]:
  "h_tenant (check_over_limit l h) = h_tenant h" "h_global (check_over_limit l h) = h_global h"
  "h_sent (check_over_limit l h) = h_sent h"
  by (simp_all add: check_over_limit_def Let_def)

lemma put_chunk_effects [simp]:
  "chunks (put_chunk p c h) = om_put p c (chunks h)" "moving (put_chunk p c h) = moving h"
  "hello (put_chunk p c h) = hello h" "h_global (put_chunk p c h) = h_global h"
  "used (put_chunk p c h) l = used h l" "h_sent (put_chunk p c h) = h_sent h"
  "tenant_limit (h_tenant (put_chunk p c h)) l = tenant_limit (h_tenant h) l"
  "t_pid (h_tenant (put_chunk p c h)) = t_pid (h_tenant h)"
  by (simp_all add: put_chunk_def used_bytes_def tenant_limit_def)

lemma erase_chunk_effects [simp]:
  "chunks (erase_chunk p h) = om_del p (chunks h)" "moving (erase_chunk p h) = moving h"
  "hello (erase_chunk p h) = hello h" "h_global (erase_chunk p h) = h_global h"
  "used (erase_chunk p h) l = used h l" "h_sent (erase_chunk p h) = h_sent h"
  "tenant_limit (h_tenant (erase_chunk p h)) l = tenant_limit (h_tenant h) l"
  "t_pid (h_tenant (erase_chunk p h)) = t_pid (h_tenant h)"
  by (simp_all add: erase_chunk_def used_bytes_def tenant_limit_def)

lemma set_moving_effects [simp]:
  "chunks (set_moving m h) = chunks h" "moving (set_moving m h) = m"
  "hello (set_moving m h) = hello h" "h_global (set_moving m h) = h_global h"
  "used (set_moving m h) l = used h l" "h_sent (set_moving m h) = h_sent h"
  "tenant_limit (h_tenant (set_moving m h)) l = tenant_limit (h_tenant h) l"
  "t_pid (h_tenant (set_moving m h)) = t_pid (h_tenant h)"
  by (simp_all add: set_moving_def used_bytes_def tenant_limit_def)

lemma update_count_effects [simp]:
  "chunks (update_count l n a h) = chunks h" "moving (update_count l n a h) = moving h"
  "hello (update_count l n a h) = hello h" "h_sent (update_count l n a h) = h_sent h"
  "ctx (update_count l n a h) = ctx h"
  "tenant_limit (h_tenant (update_count l n a h)) l' = tenant_limit (h_tenant h) l'"
  "global_limit (h_global (update_count l n a h)) l' = global_limit (h_global h) l'"
  "t_pid (h_tenant (update_count l n a h)) = t_pid (h_tenant h)"
  by (simp_all add: update_count_def Let_def tenant_limit_def global_limit_def)

lemma update_count_used [simp]:
  "used (update_count l n a h) l' =
     (if l' = l then (if a then used h l' + n else used h l' - n) else used h l')"
  "all_used (update_count l n a h) l' =
     (if l' = l then (if a then all_used h l' + n else all_used h l' - n) else all_used h l')"
  by (cases l; cases l'; simp add: update_count_def Let_def used_bytes_def all_used_bytes_def)+

lemmas handler_defs = handle_alloc_def handle_alloc_fail_def handle_move_def handle_move_done_def
  release_move_def record_location_def handle_resync_def handle_free_def drop_move_def
  handle_hello_def

section \<open>The contract every handler keeps\<close>

text \<open>
  \<open>accounting\<close> is what the event loop needs of an operation on one tenant: under its guard it keeps
  K1 for that tenant, it changes the tenant's and the global count by the same amount, and it leaves
  the configuration alone.
\<close>

locale accounting =
  fixes act :: "Handler \<Rightarrow> Handler"
    and guard :: "Handler \<Rightarrow> bool"
  assumes keeps_tenant: "guard h \<Longrightarrow> tenant_ok (ctx h) (h_tenant h) \<Longrightarrow> tenant_ok (ctx h) (h_tenant (act h))"
    and same_change: "all_used (act h) l - all_used h l = used (act h) l - used h l"
    and keeps_ctx: "ctx (act h) = ctx h"
    and keeps_limits: "global_limit (h_global (act h)) l = global_limit (h_global h) l"
begin

text \<open>Run on a tenant of the broker, such an operation keeps K1 for all tenants and K2.\<close>

lemma keeps_broker:
  assumes ok: "broker_ok b" and t: "map_of (b_tenants b) fd = Some t"
    and g: "guard (open_handler t b)"
  shows "broker_ok (close_handler fd (act (open_handler t b)) b)"
proof -
  define h where "h = open_handler t b"
  have h [simp]: "h_tenant h = t" "h_global h = b_global b" by (simp_all add: h_def open_handler_def)
  have "tenant_ok (ctx h) (h_tenant (act h))"
    using keeps_tenant [of h] g ok t by (simp add: broker_ok_def flip: h_def)
  moreover have "all_used (act h) l = om_sum (\<lambda>t. used_bytes t l) (om_put fd (h_tenant (act h)) (b_tenants b))" for l
  proof -
    have "om_sum (\<lambda>t. used_bytes t l) (om_put fd (h_tenant (act h)) (b_tenants b))
        = all_used h l - used h l + used (act h) l"
      using ok t by (simp add: broker_ok_def om_sum_put)
    also have "\<dots> = all_used (act h) l" using same_change [of h l] by (simp add: algebra_simps)
    finally show ?thesis by simp
  qed
  ultimately show ?thesis
    using ok by (auto simp: broker_ok_def close_handler_def get_put ok_put keeps_ctx split: if_splits
        simp flip: h_def)
qed

end

section \<open>Every handler keeps the contract\<close>

definition unguarded :: "Handler \<Rightarrow> bool" where
  [simp]: "unguarded h = True"

text \<open>
  A \<open>Resync\<close> that reports another size for the chunk whose move is in flight would strand the
  difference in the reservation; the contract of \<open>handle_resync\<close> excludes it.
\<close>

definition resync_guard :: "u64 \<Rightarrow> u64 \<Rightarrow> Handler \<Rightarrow> bool" where
  "resync_guard ptr sz h \<longleftrightarrow>
     (case (moving h, map_of (chunks h) ptr) of
        (Some (q, to), Some c) \<Rightarrow> q \<noteq> ptr \<or> cr_size c = sz
      | _ \<Rightarrow> True)"

lemmas accounting_simps = tenant_ok_def reserved_def chunk_bytes_put chunk_bytes_del om_simps
  overhead_def

lemma alloc_keeps_tenant:
  assumes "tenant_ok (ctx h) (h_tenant h)"
  shows "tenant_ok (ctx h) (h_tenant (snd (snd (handle_alloc sz p s l h))))"
  using assms
  by (auto simp: handle_alloc_def Let_def accounting_simps split: option.splits prod.splits)

lemma alloc_fail_keeps_tenant:
  assumes "tenant_ok (ctx h) (h_tenant h)"
  shows "tenant_ok (ctx h) (h_tenant (handle_alloc_fail p h))"
  using assms
  by (auto simp: handle_alloc_fail_def Let_def accounting_simps split: option.splits prod.splits if_splits)

lemma move_keeps_tenant:
  assumes "tenant_ok (ctx h) (h_tenant h)"
  shows "tenant_ok (ctx h) (h_tenant (snd (handle_move p to h)))"
  using assms
  by (auto simp: handle_move_def Let_def accounting_simps split: option.splits prod.splits if_splits)

lemma move_done_keeps_tenant:
  assumes "tenant_ok (ctx h) (h_tenant h)"
  shows "tenant_ok (ctx h) (h_tenant (handle_move_done p at h))"
  using assms
  by (auto simp: handle_move_done_def release_move_def record_location_def Let_def accounting_simps
      split: option.splits prod.splits if_splits)

lemma resync_keeps_tenant:
  assumes "tenant_ok (ctx h) (h_tenant h)" "resync_guard p sz h"
  shows "tenant_ok (ctx h) (h_tenant (handle_resync p sz at h))"
  using assms
  by (auto simp: handle_resync_def resync_guard_def Let_def accounting_simps
      split: option.splits prod.splits if_splits)

lemma free_keeps_tenant:
  assumes "tenant_ok (ctx h) (h_tenant h)"
  shows "tenant_ok (ctx h) (h_tenant (handle_free p h))"
  using assms
  by (auto simp: handle_free_def drop_move_def Let_def accounting_simps
      split: option.splits prod.splits if_splits)

lemma hello_keeps_tenant:
  assumes "tenant_ok (ctx h) (h_tenant h)"
  shows "tenant_ok (ctx h) (h_tenant (handle_hello n h))"
proof -
  have l: "used_bytes (t\<lparr>t_hello := True, t_name := nm\<rparr>) l = used_bytes t l" for t nm l
    by (simp add: used_bytes_def)
  show ?thesis using assms
    by (auto simp: handle_hello_def Let_def tenant_ok_def overhead_def l)
qed

interpretation alloc: accounting "\<lambda>h. snd (snd (handle_alloc sz p s l h))" unguarded for sz p s l
  by unfold_locales
    (simp_all add: alloc_keeps_tenant, simp_all add: handle_alloc_def Let_def split: option.splits)

interpretation alloc_fail: accounting "handle_alloc_fail p" unguarded for p
  by unfold_locales
    (simp_all add: alloc_fail_keeps_tenant, simp_all add: handle_alloc_fail_def Let_def split: option.splits)

interpretation move: accounting "\<lambda>h. snd (handle_move p to h)" unguarded for p to
  by unfold_locales
    (simp_all add: move_keeps_tenant, simp_all add: handle_move_def Let_def split: option.splits prod.splits)

lemma move_done_balance:
  "all_used (handle_move_done p at h) l - all_used h l = used (handle_move_done p at h) l - used h l"
  "ctx (handle_move_done p at h) = ctx h"
  "global_limit (h_global (handle_move_done p at h)) l = global_limit (h_global h) l"
  by (auto simp: handle_move_done_def release_move_def record_location_def Let_def
      split: option.splits prod.splits)

interpretation move_done: accounting "handle_move_done p at" unguarded for p at
  by unfold_locales (simp_all add: move_done_keeps_tenant move_done_balance)

interpretation resync: accounting "handle_resync p sz at" "resync_guard p sz" for p sz at
  by unfold_locales
    (simp_all add: resync_keeps_tenant, simp_all add: handle_resync_def Let_def split: option.splits)

lemma free_balance:
  "all_used (handle_free p h) l - all_used h l = used (handle_free p h) l - used h l"
  "ctx (handle_free p h) = ctx h"
  "global_limit (h_global (handle_free p h)) l = global_limit (h_global h) l"
  by (auto simp: handle_free_def drop_move_def Let_def split: option.splits prod.splits)

interpretation free: accounting "handle_free p" unguarded for p
  by unfold_locales (simp_all add: free_keeps_tenant free_balance)

lemma hello_balance:
  "all_used (handle_hello n h) l - all_used h l = used (handle_hello n h) l - used h l"
  "ctx (handle_hello n h) = ctx h"
  "global_limit (h_global (handle_hello n h)) l = global_limit (h_global h) l"
  by (cases l; simp add: handle_hello_def Let_def update_count_def used_bytes_def all_used_bytes_def
      global_limit_def)+

interpretation hello: accounting "handle_hello n" unguarded for n
  by unfold_locales (simp_all add: hello_keeps_tenant hello_balance)

text \<open>One message, whatever its type.\<close>

definition msg_guard :: "Msg \<Rightarrow> Handler \<Rightarrow> bool" where
  "msg_guard m h \<longleftrightarrow> (m_type m = Resync \<longrightarrow> resync_guard (m_ptr m) (m_size m) h)"

text \<open>
  The cases of \<open>handle\<close> with the two reply-carrying calls projected to the state, so that each
  case is one of the interpretations above.
\<close>

lemma handle_state:
  "h_tenant (handle fd ok m h) = h_tenant
     (case m_type m of
        Hello \<Rightarrow> handle_hello (m_name m) h
      | Alloc \<Rightarrow> snd (snd (handle_alloc (m_size m) (m_ptr m) NoMemory Host h))
      | AllocFail \<Rightarrow> handle_alloc_fail (m_ptr m) h
      | Move \<Rightarrow> snd (handle_move (m_ptr m) (m_loc m) h)
      | MoveDone \<Rightarrow> handle_move_done (m_ptr m) (m_loc m) h
      | Resync \<Rightarrow> handle_resync (m_ptr m) (m_size m) (m_loc m) h
      | Free \<Rightarrow> handle_free (m_ptr m) h
      | OtherType w \<Rightarrow> h)"
  "h_global (handle fd ok m h) = h_global
     (case m_type m of
        Hello \<Rightarrow> handle_hello (m_name m) h
      | Alloc \<Rightarrow> snd (snd (handle_alloc (m_size m) (m_ptr m) NoMemory Host h))
      | AllocFail \<Rightarrow> handle_alloc_fail (m_ptr m) h
      | Move \<Rightarrow> snd (handle_move (m_ptr m) (m_loc m) h)
      | MoveDone \<Rightarrow> handle_move_done (m_ptr m) (m_loc m) h
      | Resync \<Rightarrow> handle_resync (m_ptr m) (m_size m) (m_loc m) h
      | Free \<Rightarrow> handle_free (m_ptr m) h
      | OtherType w \<Rightarrow> h)"
  by (simp_all add: handle_def dispatch_def split: MsgType.split prod.split)

interpretation message: accounting "handle fd ok m" "msg_guard m" for fd ok m
proof unfold_locales
  show "tenant_ok (ctx h) (h_tenant (handle fd ok m h))"
    if "msg_guard m h" "tenant_ok (ctx h) (h_tenant h)" for h
    using that by (cases "m_type m")
      (simp_all add: handle_state msg_guard_def alloc_keeps_tenant alloc_fail_keeps_tenant
        move_keeps_tenant move_done_keeps_tenant resync_keeps_tenant free_keeps_tenant hello_keeps_tenant)
  show "all_used (handle fd ok m h) l - all_used h l = used (handle fd ok m h) l - used h l" for h l
    by (cases "m_type m") (simp_all add: handle_state alloc.same_change alloc_fail.same_change
        move.same_change move_done_balance resync.same_change free_balance hello_balance)
  show "ctx (handle fd ok m h) = ctx h" for h
    by (cases "m_type m") (simp_all add: handle_state alloc.keeps_ctx alloc_fail.keeps_ctx
        move.keeps_ctx move_done_balance resync.keeps_ctx free_balance hello_balance)
  show "global_limit (h_global (handle fd ok m h)) l = global_limit (h_global h) l" for h l
    by (cases "m_type m") (simp_all add: handle_state alloc.keeps_limits alloc_fail.keeps_limits
        move.keeps_limits move_done_balance resync.keeps_limits free_balance hello_balance)
qed

end
