(* ===== verification/Broker_Props.thy ===== *)
theory Broker_Props
  imports Broker_Inv
begin

text \<open>
  The broker as a whole: invariants of every reachable state, isolation of tenants, what a
  disconnect restores, which answer a request gets and what it does to the counts.
\<close>

section \<open>Reachable states\<close>

text \<open>The guard of one event: the contract of \<open>handle_resync\<close> on the message it delivers.\<close>

definition event_guard :: "event \<Rightarrow> Broker \<Rightarrow> bool" where
  "event_guard e b \<longleftrightarrow>
     (case e of
        Readable fd (RecvPacket bytes) _ _ \<Rightarrow>
          (case (map_of (b_tenants b) fd, decode_msg (take MSG_SIZE bytes)) of
             (Some t, Some m) \<Rightarrow> msg_guard m (open_handler t b)
           | _ \<Rightarrow> True)
      | _ \<Rightarrow> True)"

text \<open>\<open>reachable g\<close>: what the event loop can reach from the start with the configuration \<open>g\<close>.\<close>

inductive reachable :: "Global \<Rightarrow> Broker \<Rightarrow> bool" for g where
  start: "g_device g = 0 \<Longrightarrow> g_host g = 0 \<Longrightarrow> reachable g (start_broker g dbg)"
| step: "reachable g b \<Longrightarrow> event_guard e b \<Longrightarrow> broker_step e b = Some b' \<Longrightarrow> reachable g b'"

inductive_cases reachableE: "reachable g b"

lemma blog_effects [simp]:
  "b_tenants (blog l b) = b_tenants b" "b_global (blog l b) = b_global b"
  "b_debug (blog l b) = b_debug b" "b_sent (blog l b) = b_sent b"
  by (simp_all add: blog_def)

lemma blog_ok [simp]: "broker_ok (blog l b) = broker_ok b"
  by (simp add: broker_ok_def)

lemma new_tenant_ok: "tenant_ok ov (new_tenant\<lparr>t_pid := p, t_connected := n\<rparr>)"
  by (simp add: tenant_ok_def new_tenant_def used_bytes_def chunk_bytes_def reserved_def overhead_def)

lemma relabel_ok: "tenant_ok ov (t\<lparr>t_pid := p, t_connected := n\<rparr>) = tenant_ok ov t"
  by (simp add: tenant_ok_def used_bytes_def)

lemma relabel_used: "used_bytes (t\<lparr>t_pid := p, t_connected := n\<rparr>) l = used_bytes t l"
  by (simp add: used_bytes_def)

lemma new_tenant_used: "used_bytes new_tenant l = 0"
  by (simp add: used_bytes_def new_tenant_def)

lemma connect_ok:
  assumes "broker_ok b" "on_connect r now b = Some b'"
  shows "broker_ok b'"
proof (cases r)
  case (Accepted fd pid w)
  define t where "t = (case map_of (b_tenants b) fd of None \<Rightarrow> new_tenant | Some t \<Rightarrow> t)"
  have t: "tenant_ok ov (t\<lparr>t_pid := pid, t_connected := now\<rparr>)"
    if "ov = g_ctx_overhead (b_global b)" for ov
    using assms(1) that new_tenant_ok relabel_ok
    by (auto simp: t_def broker_ok_def split: option.split)
  have u: "used_bytes t l = (case map_of (b_tenants b) fd of None \<Rightarrow> 0 | Some t \<Rightarrow> used_bytes t l)" for l
    by (simp add: t_def new_tenant_used split: option.split)
  from assms(2) Accepted show ?thesis
    using assms(1) t
    by (auto simp: on_connect_def broker_ok_def om_simps om_sum_put relabel_used u Let_def
        simp flip: t_def split: if_splits)
qed (use assms in \<open>auto simp: on_connect_def\<close>)

text \<open>What \<open>on_disconnect\<close> does to the state.\<close>

lemma disconnect_effect:
  assumes "on_disconnect fd now b = Some b'"
  obtains t where "map_of (b_tenants b) fd = Some t"
    and "b_tenants b' = om_del fd (b_tenants b)"
    and "\<And>l. all_used_bytes (b_global b') l = all_used_bytes (b_global b) l - used_bytes t l"
    and "g_ctx_overhead (b_global b') = g_ctx_overhead (b_global b)"
    and "\<And>l. global_limit (b_global b') l = global_limit (b_global b) l"
  using assms
  by (auto simp: on_disconnect_def Let_def all_used_bytes_def used_bytes_def global_limit_def
      split: option.splits if_splits)

lemma disconnect_ok:
  assumes "broker_ok b" "on_disconnect fd now b = Some b'"
  shows "broker_ok b'"
  using assms(2)
proof (rule disconnect_effect)
  fix t
  assume "map_of (b_tenants b) fd = Some t" "b_tenants b' = om_del fd (b_tenants b)"
    "\<And>l. all_used_bytes (b_global b') l = all_used_bytes (b_global b) l - used_bytes t l"
    "g_ctx_overhead (b_global b') = g_ctx_overhead (b_global b)"
  then show "broker_ok b'"
    using assms(1) by (auto simp: broker_ok_def om_simps om_sum_del split: if_splits)
qed

lemma logged_disconnect_ok:
  "broker_ok b \<Longrightarrow> on_disconnect fd now (blog l b) = Some b' \<Longrightarrow> broker_ok b'"
  using disconnect_ok [of "blog l b"] by simp

lemma message_ok:
  assumes "broker_ok b" "map_of (b_tenants b) fd = Some t" "msg_guard m (open_handler t b)"
    "on_message fd ok m b = Some b'"
  shows "broker_ok b'"
proof -
  have "broker_ok (close_handler fd (handle fd ok m (open_handler t b)) b)"
    using assms(1-3) by (rule message.keeps_broker)
  then show ?thesis using assms(2,4) by (simp add: on_message_def)
qed

lemma step_ok:
  assumes "broker_ok b" "event_guard e b" "broker_step e b = Some b'"
  shows "broker_ok b'"
proof (cases e)
  case (Listening r now)
  then show ?thesis using assms connect_ok by simp
next
  case (Readable fd r ok now)
  show ?thesis
  proof (cases r)
    case (RecvPacket bytes)
    show ?thesis using assms Readable RecvPacket
      by (auto simp: on_readable_def event_guard_def on_message_def Let_def
          intro: disconnect_ok logged_disconnect_ok message_ok split: if_splits option.splits)
  qed (use assms Readable disconnect_ok in \<open>auto simp: on_readable_def\<close>)
qed

lemma start_ok: "g_device g = 0 \<Longrightarrow> g_host g = 0 \<Longrightarrow> broker_ok (start_broker g dbg)"
  by (simp add: broker_ok_def start_broker_def all_used_bytes_def)

lemma reachable_ok: "reachable g b \<Longrightarrow> broker_ok b"
  by (induction rule: reachable.induct) (auto intro: start_ok step_ok)

text \<open>The configuration never changes after the start.\<close>

lemma message_config:
  assumes "on_message fd ok m b = Some b'"
  shows "g_ctx_overhead (b_global b') = g_ctx_overhead (b_global b)"
    and "global_limit (b_global b') l = global_limit (b_global b) l"
  using assms
  by (auto simp: on_message_def close_handler_def message.keeps_ctx message.keeps_limits
      open_handler_def split: option.splits)

lemma step_config:
  assumes "broker_step e b = Some b'"
  shows "g_ctx_overhead (b_global b') = g_ctx_overhead (b_global b) \<and>
    global_limit (b_global b') l = global_limit (b_global b) l"
proof (cases e)
  case (Listening r now)
  then show ?thesis using assms by (auto simp: on_connect_def Let_def split: accept_result.splits if_splits)
next
  case (Readable fd r ok now)
  have "g_ctx_overhead (b_global c') = g_ctx_overhead (b_global c) \<and>
      global_limit (b_global c') l = global_limit (b_global c) l"
    if "on_disconnect fd now c = Some c'" for c c'
    using disconnect_effect [OF that] by metis
  then show ?thesis
    using assms Readable message_config
    by (fastforce simp: on_readable_def Let_def split: recv_result.splits if_splits option.splits)
qed

lemma reachable_config:
  "reachable g b \<Longrightarrow> g_ctx_overhead (b_global b) = g_ctx_overhead g \<and>
     global_limit (b_global b) l = global_limit g l"
  by (induction rule: reachable.induct) (simp_all add: start_broker_def step_config)

text \<open>Running a list of events, each under its guard.\<close>

fun guarded_run :: "event list \<Rightarrow> Broker \<Rightarrow> Broker option" where
  "guarded_run [] b = Some b"
| "guarded_run (e # es) b =
     (if event_guard e b then (case broker_step e b of None \<Rightarrow> None | Some b' \<Rightarrow> guarded_run es b')
      else None)"

lemma guarded_run_reachable:
  "guarded_run es b = Some b' \<Longrightarrow> reachable g b \<Longrightarrow> reachable g b'"
  by (induction es b rule: guarded_run.induct)
    (auto split: if_splits option.splits intro: reachable.step)

text \<open>A packet that carries the message \<open>m\<close>, with a reply that gets through.\<close>

definition deliver :: "fd \<Rightarrow> Msg \<Rightarrow> event" where
  "deliver fd m = Readable fd (RecvPacket (encode_msg m)) True 0"

lemma deliver_step:
  assumes "msg_wf m"
  shows "broker_step (deliver fd m) b = on_message fd True m b"
    and "event_guard (deliver fd m) b =
      (case map_of (b_tenants b) fd of None \<Rightarrow> True | Some t \<Rightarrow> msg_guard m (open_handler t b))"
proof -
  have r: "length (encode_msg m) = MSG_SIZE" "decode_msg (encode_msg m) = Some m"
    using length_encode_msg [OF assms] msg_decode [OF assms] by simp_all
  then show "broker_step (deliver fd m) b = on_message fd True m b"
    by (simp add: deliver_def on_readable_def MSG_SIZE_def)
  show "event_guard (deliver fd m) b =
      (case map_of (b_tenants b) fd of None \<Rightarrow> True | Some t \<Rightarrow> msg_guard m (open_handler t b))"
    using r by (simp add: deliver_def event_guard_def split: option.split)
qed

lemma event_guard_listening [simp]: "event_guard (Listening r now) b = True"
  by (simp add: event_guard_def)

lemma msg_wf_msg [simp]: "(\<forall>w. t = OtherType w \<longrightarrow> 6 < unat w) \<Longrightarrow> msg_wf (msg t l p n)"
  by (simp add: msg_wf_def msg_def)

text \<open>
  C1. Accounting (K1 and K2). In every state the broker can reach, at each location a tenant's count
  is its context overhead (device only, once it said Hello) plus the sizes of its chunks there plus
  the bytes a granted, unfinished move reserves there; and the machine-wide count is the sum of the
  tenants' counts. Whatever the clients send and in whatever order, connects, disconnects and
  malformed packets included, with one exception, the guard of \<open>reachable\<close>: a Resync that changes
  the size of a chunk in mid-move, after which the code breaks K1 (\<open>resync_strands_reservation\<close>). A
  full-size packet whose location field is neither 0 nor 1 has no step in the model.
\<close>

theorem broker_accounting:
  assumes "reachable g b" and "map_of (b_tenants b) fd = Some t"
  shows "used_bytes t l = overhead (g_ctx_overhead g) (t_hello t) l + chunk_bytes (t_chunks t) l +
      reserved (t_moving t) (t_chunks t) l \<and>
    all_used_bytes (b_global b) l = om_sum (\<lambda>t. used_bytes t l) (b_tenants b)"
  using reachable_ok [OF assms(1)] reachable_config [OF assms(1)] assms(2)
  by (auto simp: broker_ok_def tenant_ok_def)

text \<open>Two tenants, one of them with an unfinished eviction of a 4 MiB chunk.\<close>

definition demo_global :: Global where
  "demo_global = new_global\<lparr>g_vram_limit := 0x1000000, g_dram_limit := 0x800000, g_ctx_overhead := 0x400000\<rparr>"

definition demo_events :: "event list" where
  "demo_events =
    [Listening (Accepted 5 100 True) 0, Listening (Accepted 6 101 True) 0,
     deliver 5 (msg Hello Device 0 0), deliver 5 (msg Alloc Device 0x200000 0x400000),
     deliver 6 (msg Alloc Device 0x200000 0x600000), deliver 5 (msg Move Host 0x200000 0)]"

lemmas demo_eval = demo_events_def demo_global_def new_global_def start_broker_def deliver_step
  on_connect_def on_message_def open_handler_def close_handler_def handle_def debug_state_def dlog_def
  dispatch_def handler_defs new_tenant_def blog_def say_def reply_def Let_def fits_limit_def
  used_bytes_def all_used_bytes_def tenant_limit_def global_limit_def update_count_def put_chunk_def
  set_moving_def msg_guard_def UNLIMITED_def

lemma demo_run: "\<exists>b. guarded_run demo_events (start_broker demo_global False) = Some b \<and>
    map_of (b_tenants b) 5 = Some
      \<lparr>t_pid = 100, t_name = [], t_hello = True, t_connected = 0,
       t_chunks = [(0x200000, \<lparr>cr_size = 0x400000, cr_loc = Device\<rparr>)],
       t_moving = Some (0x200000, Host), t_device = 0x800000, t_host = 0x400000,
       t_vram_limit = 0xFFFFFFFFFFFFFFFF, t_dram_limit = 0xFFFFFFFFFFFFFFFF, t_priority = 0\<rparr>"
  by (simp add: demo_eval)

theorem broker_accounting_witness:
  "\<exists>(b :: Broker) t. map_of (b_tenants b) 5 = Some t \<and> t_moving t = Some (0x200000, Host) \<and>
     used_bytes t Host = overhead (g_ctx_overhead demo_global) (t_hello t) Host +
       chunk_bytes (t_chunks t) Host + reserved (t_moving t) (t_chunks t) Host \<and>
     all_used_bytes (b_global b) Host = om_sum (\<lambda>t. used_bytes t Host) (b_tenants b)"
proof -
  obtain b t where b: "guarded_run demo_events (start_broker demo_global False) = Some b"
    "map_of (b_tenants b) 5 = Some t" "t_moving t = Some (0x200000, Host)"
    using demo_run by force
  have "reachable demo_global b"
    by (rule guarded_run_reachable [OF b(1)], rule reachable.start) (simp_all add: demo_global_def new_global_def)
  from broker_accounting [OF this b(2), of Host] b(2,3) show ?thesis
    by - (rule exI [of _ b], rule exI [of _ t], simp)
qed

section \<open>A tenant leaves no trace\<close>

text \<open>Events on the socket \<open>fd\<close>.\<close>

fun on_socket :: "fd \<Rightarrow> event \<Rightarrow> bool" where
  "on_socket fd (Readable fd' _ _ _) = (fd' = fd)"
| "on_socket fd (Listening _ _) = False"

text \<open>
  \<open>beside fd b0 b\<close>: apart from the tenant on \<open>fd\<close> and its share of the counts, \<open>b\<close> is \<open>b0\<close>.
\<close>

definition beside :: "fd \<Rightarrow> Broker \<Rightarrow> Broker \<Rightarrow> bool" where
  "beside fd b0 b \<longleftrightarrow> om_ok (b_tenants b) \<and>
     om_del fd (b_tenants b) = b_tenants b0 \<and>
     (\<forall>l. all_used_bytes (b_global b) l -
        (case map_of (b_tenants b) fd of None \<Rightarrow> 0 | Some t \<Rightarrow> used_bytes t l)
        = all_used_bytes (b_global b0) l)"

lemma beside_blog [simp]: "beside fd b0 (blog l b) = beside fd b0 b"
  by (simp add: beside_def)

lemma beside_message:
  assumes "beside fd b0 b" "on_message fd ok m b = Some b'"
  shows "beside fd b0 b'"
proof -
  obtain t where t: "map_of (b_tenants b) fd = Some t"
    "b' = close_handler fd (handle fd ok m (open_handler t b)) b"
    using assms(2) by (auto simp: on_message_def split: option.splits)
  have "all_used_bytes (h_global (handle fd ok m (open_handler t b))) l -
      used_bytes (h_tenant (handle fd ok m (open_handler t b))) l =
      all_used_bytes (b_global b) l - used_bytes t l" for l
    using message.same_change [of fd ok m "open_handler t b" l]
    by (simp add: open_handler_def algebra_simps)
  then show ?thesis
    using assms(1) t by (auto simp: beside_def close_handler_def om_simps om_del_put)
qed

lemma beside_disconnect:
  assumes "beside fd b0 b" "on_disconnect fd now b = Some b'"
  shows "beside fd b0 b'"
  using assms(2)
proof (rule disconnect_effect)
  fix t
  assume t: "map_of (b_tenants b) fd = Some t" and b': "b_tenants b' = om_del fd (b_tenants b)"
    and u: "\<And>l. all_used_bytes (b_global b') l = all_used_bytes (b_global b) l - used_bytes t l"
  have ok: "om_ok (b_tenants b)" using assms(1) by (simp add: beside_def)
  have "om_ok (b_tenants b')" "map_of (b_tenants b') fd = None"
    using ok_del [OF ok] get_del [OF ok] b' by simp_all
  then show "beside fd b0 b'"
    using assms(1) om_del_absent [of "b_tenants b'" fd] t u b' by (simp add: beside_def)
qed

lemma beside_logged_disconnect:
  "beside fd b0 b \<Longrightarrow> on_disconnect fd now (blog l b) = Some b' \<Longrightarrow> beside fd b0 b'"
  using beside_disconnect [of fd b0 "blog l b"] by simp

lemma beside_readable:
  assumes "beside fd b0 b" "on_readable fd r ok now b = Some b'"
  shows "beside fd b0 b'"
proof (cases r)
  case (RecvPacket bytes)
  then show ?thesis
    using assms(2) beside_disconnect [OF assms(1)] beside_logged_disconnect [OF assms(1)]
      beside_message [OF assms(1)]
    by (simp add: on_readable_def Let_def split: if_splits option.splits)
qed (use assms beside_disconnect [OF assms(1)] in \<open>simp_all add: on_readable_def\<close>)

lemma beside_step:
  assumes "beside fd b0 b" "on_socket fd e" "broker_step e b = Some b'"
  shows "beside fd b0 b'"
  using assms beside_readable by (cases e) auto

lemma beside_run:
  "beside fd b0 b \<Longrightarrow> \<forall>e \<in> set es. on_socket fd e \<Longrightarrow> broker_run es b = Some b' \<Longrightarrow> beside fd b0 b'"
  by (induction es arbitrary: b) (auto split: option.splits intro: beside_step)

text \<open>
  C10. Crash safety. A tenant connects on a new descriptor, sends any packets, also malformed or
  nonsensical ones, and its socket closes at any point. Then the broker is exactly where it was
  before: the same tenants with the same tables and counts, and the same machine-wide counts. Not
  covered, by the hypothesis that the run has a result, are full-size packets whose location field is
  neither 0 nor 1: \<open>on_readable\<close> takes these unchecked, and they have no step in the model.
\<close>

theorem tenant_leaves_no_trace:
  assumes "om_ok (b_tenants b)" and "map_of (b_tenants b) fd = None"
    and "broker_step (Listening (Accepted fd pid True) now) b = Some b1"
    and "\<forall>e \<in> set es. on_socket fd e" and "broker_run es b1 = Some b2"
    and "map_of (b_tenants b2) fd = None"
  shows "b_tenants b2 = b_tenants b \<and> all_used_bytes (b_global b2) l = all_used_bytes (b_global b) l"
proof -
  have "beside fd b b1"
    using assms(1-3)
    by (auto simp: beside_def on_connect_def Let_def om_simps om_del_put om_del_absent relabel_used
        new_tenant_used)
  then have "beside fd b b2" using assms(4,5) by (rule beside_run)
  then show ?thesis using assms(6) by (auto simp: beside_def om_del_absent)
qed

text \<open>A tenant that claims 2 MiB by Resync and by Alloc and is killed in the middle of a message.\<close>

theorem tenant_leaves_no_trace_witness:
  "\<exists>b1 b2. broker_run [deliver 5 (msg Hello Device 0 0), deliver 5 (msg Resync Host 0x200000 0x200000),
      deliver 5 (msg Alloc Device 0x600000 0x200000), Readable 5 (RecvPacket [1, 0, 0]) True 9] b1 = Some b2 \<and>
    b_tenants b2 = [] \<and> all_used_bytes (b_global b2) Host = 0"
proof -
  let ?b = "start_broker demo_global False"
  let ?es = "[deliver 5 (msg Hello Device 0 0), deliver 5 (msg Resync Host 0x200000 0x200000),
      deliver 5 (msg Alloc Device 0x600000 0x200000), Readable 5 (RecvPacket [1, 0, 0]) True 9]"
  obtain b1 where b1: "broker_step (Listening (Accepted 5 100 True) 0) ?b = Some b1"
    by (simp add: on_connect_def Let_def start_broker_def)
  obtain b2 where b2: "broker_run ?es b1 = Some b2" "map_of (b_tenants b2) 5 = None"
  proof -
    have "\<exists>b2. broker_run ?es b1 = Some b2 \<and> map_of (b_tenants b2) 5 = None"
      using b1 by (auto simp: demo_eval on_readable_def MSG_SIZE_def on_disconnect_def check_over_limit_def)
    then show ?thesis using that by blast
  qed
  have "\<forall>e \<in> set ?es. on_socket 5 e" by (simp add: deliver_def)
  from tenant_leaves_no_trace [OF _ _ b1 this b2, of Host] b2(1)
  show ?thesis by (auto simp: start_broker_def all_used_bytes_def demo_global_def new_global_def)
qed

section \<open>Packets of the wrong size\<close>

text \<open>
  Packet sizes. A packet shorter than a message (but not empty) costs the sender its connection:
  its tenant is gone afterwards. A packet longer than a message does not: \<open>recv\<close> hands over its first
  56 bytes and the broker handles these as a message. So of the wrong sizes only the short ones drop
  the tenant.
\<close>

theorem wrong_size_packets:
  assumes "om_ok (b_tenants b)" and "map_of (b_tenants b) fd = Some t"
  shows "(0 < length bytes \<and> length bytes < MSG_SIZE \<longrightarrow>
      (\<exists>b'. on_readable fd (RecvPacket bytes) ok now b = Some b' \<and> map_of (b_tenants b') fd = None \<and>
        b_sent b' = b_sent b \<and> LBadSize (t_pid t) (length bytes) \<in> set (b_log b'))) \<and>
    (MSG_SIZE < length bytes \<longrightarrow> decode_msg (take MSG_SIZE bytes) = Some m \<longrightarrow>
      on_readable fd (RecvPacket bytes) ok now b = on_message fd ok m b)"
  using assms
  by (auto simp: on_readable_def on_disconnect_def Let_def om_simps blog_def MSG_SIZE_def min_def
      split: if_splits)

theorem wrong_size_packets_witness:
  "on_readable 5 (RecvPacket (encode_msg (msg Hello Device 0 0) @ [7])) True 0 (the (on_connect (Accepted 5 100 True) 0 (start_broker demo_global False)))
   = on_message 5 True (msg Hello Device 0 0) (the (on_connect (Accepted 5 100 True) 0 (start_broker demo_global False)))"
proof -
  let ?b = "the (on_connect (Accepted 5 100 True) 0 (start_broker demo_global False))"
  have "om_ok (b_tenants ?b)" "map_of (b_tenants ?b) 5 = Some (new_tenant\<lparr>t_pid := 100, t_connected := 0\<rparr>)"
    by (simp_all add: on_connect_def start_broker_def om_ok_def Let_def)
  from wrong_size_packets [OF this, of "encode_msg (msg Hello Device 0 0) @ [7]"]
  show ?thesis
    using length_encode_msg [of "msg Hello Device 0 0"] msg_decode [of "msg Hello Device 0 0"] by simp
qed

end
