(* ===== verification/Broker_Requests.thy ===== *)
theory Broker_Requests
  imports Broker_Props
begin

text \<open>
  What the broker answers and what each message does: placement and limits (K3), the move
  transaction, round trips, the table a tenant can predict, and rebuilding it by Resync.
\<close>

section \<open>Placement and limits\<close>

text \<open>
  The specification of K3, over the true sizes: \<open>room h l n\<close> says that \<open>n\<close> more bytes fit at \<open>l\<close>
  under the tenant's and the machine's limit.
\<close>

definition room :: "Handler \<Rightarrow> Loc \<Rightarrow> nat \<Rightarrow> bool" where
  "room h l n \<longleftrightarrow>
     unat (used h l) + n \<le> unat (tenant_limit (h_tenant h) l) \<and>
     unat (all_used h l) + n \<le> unat (global_limit (h_global h) l)"

definition no_wrap :: "Handler \<Rightarrow> Loc \<Rightarrow> u64 \<Rightarrow> bool" where
  "no_wrap h l n \<longleftrightarrow> unat (used h l) + unat n < 2 ^ 64 \<and> unat (all_used h l) + unat n < 2 ^ 64"

definition place :: "Handler \<Rightarrow> u64 \<Rightarrow> nat \<Rightarrow> Status \<times> Loc" where
  "place h ptr n =
     (if map_of (chunks h) ptr \<noteq> None then (Unsupported, Host)
      else if room h Device n then (Ok, Device)
      else if room h Host n then (Ok, Host)
      else (NoMemory, Host))"

lemma fits_limit_room: "no_wrap h l n \<Longrightarrow> fits_limit h l n \<longleftrightarrow> room h l (unat n)"
  by (simp add: fits_limit_def room_def no_wrap_def u64_add_le_iff)

text \<open>
  C12. Placement (K3). When adding the size to the tenant's and to the machine's count wraps at no
  location (\<open>no_wrap\<close>; when it does the code grants over every limit, \<open>huge_alloc_is_granted\<close>), the reply
  to an Alloc is the one the specification gives: Unsupported for a pointer the tenant already holds,
  which \<open>protocol.h\<close> and the README do not name, else the device while the device has room under both
  limits, else the host while it has room, else NoMemory. A refusal changes no table and no count; a
  grant adds the chunk at the granted location and its bytes to both counts there, and to nothing else.
\<close>

theorem alloc_placement:
  assumes "no_wrap h Device sz" and "no_wrap h Host sz"
    and "handle_alloc sz ptr NoMemory Host h = (s, l, h')"
  shows "(s, l) = place h ptr (unat sz) \<and>
    (s \<noteq> Ok \<longrightarrow> h_tenant h' = h_tenant h \<and> h_global h' = h_global h) \<and>
    (s = Ok \<longrightarrow> map_of (chunks h') = (map_of (chunks h))(ptr \<mapsto> \<lparr>cr_size = sz, cr_loc = l\<rparr>) \<and>
      (\<forall>l'. used h' l' = (if l' = l then used h l' + sz else used h l') \<and>
            all_used h' l' = (if l' = l then all_used h l' + sz else all_used h l')))"
  using assms
  by (auto simp: handle_alloc_def place_def Let_def fits_limit_room om_simps split: if_splits option.splits)

definition demo_handler :: Handler where
  "demo_handler = open_handler (new_tenant\<lparr>t_hello := True, t_device := 0x400000\<rparr>)
     (start_broker (demo_global\<lparr>g_device := 0x400000\<rparr>) False)"

lemmas demo_handler_eval = demo_handler_def open_handler_def start_broker_def demo_global_def
  new_global_def new_tenant_def UNLIMITED_def used_bytes_def all_used_bytes_def tenant_limit_def
  global_limit_def

theorem alloc_placement_witness:
  "fst (handle_alloc 0x1000000 0x200000 NoMemory Host demo_handler) = NoMemory \<and>
   fst (snd (handle_alloc 0x600000 0x200000 NoMemory Host demo_handler)) = Device"
proof -
  have w: "no_wrap demo_handler l n" if "unat n < 2 ^ 63" for l n
    using that by (cases l) (simp_all add: no_wrap_def demo_handler_eval)
  obtain s l h s' l' h' where
    e: "handle_alloc 0x1000000 0x200000 NoMemory Host demo_handler = (s, l, h)"
       "handle_alloc 0x600000 0x200000 NoMemory Host demo_handler = (s', l', h')"
    by (metis prod_cases3)
  have "(s, l) = place demo_handler 0x200000 0x1000000" "(s', l') = place demo_handler 0x200000 0x600000"
    using alloc_placement [OF w w e(1)] alloc_placement [OF w w e(2)] by simp_all
  then show ?thesis using e by (simp add: place_def room_def demo_handler_eval)
qed

text \<open>
  Limits are kept by grants (K3). If the sums do not wrap, then after any granted Alloc, and
  after any granted Move of a chunk to the other location, the tenant and the machine are within
  their limits at the granted location, and the count there is the old one plus the chunk's size.
\<close>

theorem grants_respect_limits:
  assumes "no_wrap h l sz"
    and "handle_alloc sz ptr NoMemory Host h = (Ok, l, h') \<or>
      handle_move ptr l h = (Ok, h') \<and> map_of (chunks h) ptr = Some \<lparr>cr_size = sz, cr_loc = l0\<rparr> \<and> l0 \<noteq> l"
  shows "unat (used h' l) = unat (used h l) + unat sz \<and>
    unat (used h' l) \<le> unat (tenant_limit (h_tenant h') l) \<and>
    unat (all_used h' l) = unat (all_used h l) + unat sz \<and>
    unat (all_used h' l) \<le> unat (global_limit (h_global h') l)"
proof -
  have eq: "used h' l = used h l + sz" "all_used h' l = all_used h l + sz"
    "tenant_limit (h_tenant h') l = tenant_limit (h_tenant h) l"
    "global_limit (h_global h') l = global_limit (h_global h) l" and fit: "fits_limit h l sz"
    using assms(2)
    by (auto simp: handle_alloc_def handle_move_def Let_def split: if_splits option.splits)
  then show ?thesis
    using assms(1) by (simp add: no_wrap_def fits_limit_room room_def u64_add_no_wrap)
qed

theorem grants_respect_limits_witness:
  "\<exists>h'. handle_alloc 0x600000 0x200000 NoMemory Host demo_handler = (Ok, Device, h') \<and>
     unat (used h' Device) \<le> unat (tenant_limit (h_tenant h') Device)"
proof -
  have w: "no_wrap demo_handler Device 0x600000" by (simp add: no_wrap_def demo_handler_eval)
  obtain h' where e: "handle_alloc 0x600000 0x200000 NoMemory Host demo_handler = (Ok, Device, h')"
    by (simp add: handle_alloc_def Let_def fits_limit_def demo_handler_eval)
  from grants_respect_limits [OF w disjI1 [OF e]] e show ?thesis by blast
qed

text \<open>
  Where the limits fail. The sum in \<open>fits_limit\<close> is not checked for wrap-around: in a state whose
  device counts are within their limits, an Alloc of \<open>2^64 - n\<close> bytes, for any \<open>n\<close> up to the bytes
  in use, is granted on the device, however small the limit, and lowers both counts by \<open>n\<close>.
\<close>

theorem huge_alloc_is_granted:
  assumes "map_of (chunks h) ptr = None" and "0 < n"
    and "n \<le> used h Device" and "n \<le> all_used h Device"
    and "used h Device \<le> tenant_limit (h_tenant h) Device"
    and "all_used h Device \<le> global_limit (h_global h) Device"
  shows "\<exists>h'. handle_alloc (- n) ptr NoMemory Host h = (Ok, Device, h') \<and>
    unat (- n) = 2 ^ 64 - unat n \<and>
    unat (used h' Device) = unat (used h Device) - unat n \<and>
    unat (all_used h' Device) = unat (all_used h Device) - unat n"
proof -
  have sub: "x - n \<le> y" if "n \<le> x" "x \<le> y" for x y :: u64
    using that by (simp add: word_le_nat_alt unat_sub)
  have "fits_limit h Device (- n)"
    using sub assms(3-6) by (simp add: fits_limit_def)
  moreover have "unat (- n) = 2 ^ 64 - unat n"
    using assms(2) by (rule u64_neg)
  ultimately show ?thesis
    using assms(1,3,4) by (simp add: handle_alloc_def Let_def u64_sub_no_wrap)
qed

theorem huge_alloc_is_granted_witness:
  "\<exists>h'. handle_alloc 0xFFFFFFFFFFE00000 0x200000 NoMemory Host demo_handler = (Ok, Device, h') \<and>
     unat (used h' Device) = 0x200000"
proof -
  have "(- 0x200000 :: u64) = 0xFFFFFFFFFFE00000" by simp
  with huge_alloc_is_granted [where h = demo_handler and ptr = "0x200000" and n = "0x200000"]
  show ?thesis by (auto simp: demo_handler_eval)
qed

end
