(* ===== verification/Broker_Sync.thy ===== *)
theory Broker_Sync
  imports Broker_Requests
begin

text \<open>
  Sequences of messages from one tenant: the move transaction, an allocation undone by a free, the
  table a tenant can predict from its own messages and the replies, rebuilding that table by Resync
  after the broker restarted, and what is logged when usage passes a limit (K4).
\<close>

section \<open>Moves and frees undo or complete what was reserved\<close>

lemma update_count_undo [simp]:
  "h_tenant (update_count l n False (update_count l n True h)) = h_tenant h"
  "h_global (update_count l n False (update_count l n True h)) = h_global h"
  by (simp_all add: update_count_def Let_def)

lemma count_setters:
  "h_tenant (update_count l n a h) =
     (let f = (\<lambda>x. if a then x + n else x - n); t = h_tenant h
      in if l = Device then t\<lparr>t_device := f (t_device t)\<rparr> else t\<lparr>t_host := f (t_host t)\<rparr>)"
  "h_global (update_count l n a h) =
     (let f = (\<lambda>x. if a then x + n else x - n); g = h_global h
      in if l = Device then g\<lparr>g_device := f (g_device g)\<rparr> else g\<lparr>g_host := f (g_host g)\<rparr>)"
  by (simp_all add: update_count_def Let_def)

lemma granted_move:
  assumes "handle_move p to h = (Ok, h1)" and "map_of (chunks h) p = Some c" and "cr_loc c \<noteq> to"
  shows "moving h = None" and "fits_limit h to (cr_size c)"
    and "h_tenant h1 = h_tenant (set_moving (Some (p, to)) (update_count to (cr_size c) True h))"
    and "h_global h1 = h_global (update_count to (cr_size c) True h)"
  using assms by (auto simp: handle_move_def Let_def split: option.splits if_splits)

lemma granted_alloc:
  assumes "handle_alloc sz p s0 l0 h = (Ok, l, h1)"
  shows "map_of (chunks h) p = None" and "fits_limit h l sz"
    and "h_tenant h1 = h_tenant (update_count l sz True (put_chunk p \<lparr>cr_size = sz, cr_loc = l\<rparr> h))"
    and "h_global h1 = h_global (update_count l sz True (put_chunk p \<lparr>cr_size = sz, cr_loc = l\<rparr> h))"
  using assms by (auto simp: handle_alloc_def Let_def split: option.splits if_splits)

text \<open>
  C13. The move transaction. Let the broker grant the move of a chunk that is at the other location.
  If the tenant then reports the target, the chunk is at the target in the table, the chunk's bytes
  have gone from the source counts to the target counts (the tenant's and the machine's), and no move
  is in flight. If it reports the source instead (the move failed), the tenant and all counts are
  exactly what they were before the request.
\<close>

theorem move_transaction:
  assumes "handle_move p to h = (Ok, h1)" and "map_of (chunks h) p = Some c" and "cr_loc c \<noteq> to"
  shows "(let h2 = handle_move_done p to h1 in
      map_of (chunks h2) = (map_of (chunks h))(p \<mapsto> c\<lparr>cr_loc := to\<rparr>) \<and> moving h2 = None \<and>
      used h2 to = used h to + cr_size c \<and> used h2 (cr_loc c) = used h (cr_loc c) - cr_size c \<and>
      all_used h2 to = all_used h to + cr_size c \<and>
      all_used h2 (cr_loc c) = all_used h (cr_loc c) - cr_size c) \<and>
    (let h3 = handle_move_done p (cr_loc c) h1 in
      h_tenant h3 = h_tenant h \<and> h_global h3 = h_global h)"
proof -
  note m = granted_move [OF assms]
  have c1: "chunks h1 = chunks h" "moving h1 = Some (p, to)" by (simp_all add: m)
  have u1: "used h1 l = (if l = to then used h l + cr_size c else used h l)"
      "all_used h1 l = (if l = to then all_used h l + cr_size c else all_used h l)" for l
    by (simp_all add: m)
  have done_to: "handle_move_done p to h1 = record_location p to c (release_move p to c h1)"
    and done_from: "handle_move_done p (cr_loc c) h1 = release_move p (cr_loc c) c h1"
    by (simp_all add: handle_move_done_def c1 assms(2) record_location_def)
  have "h_tenant (release_move p (cr_loc c) c h1) = h_tenant h"
    "h_global (release_move p (cr_loc c) c h1) = h_global h"
    using m(1) by (simp_all add: release_move_def c1 m(3,4) set_moving_def count_setters Let_def)
  then show ?thesis
    using assms(3)
    by (simp add: done_to done_from Let_def record_location_def release_move_def c1 u1 om_simps)
qed

theorem move_transaction_witness:
  "\<exists>h1. handle_move 0x200000 Host
      (demo_handler\<lparr>h_tenant := (h_tenant demo_handler)\<lparr>t_chunks := [(0x200000, \<lparr>cr_size = 0x400000, cr_loc = Device\<rparr>)]\<rparr>\<rparr>)
      = (Ok, h1) \<and>
    used (handle_move_done 0x200000 Device h1) Device = 0x400000"
proof -
  let ?h = "demo_handler\<lparr>h_tenant := (h_tenant demo_handler)\<lparr>t_chunks := [(0x200000, \<lparr>cr_size = 0x400000, cr_loc = Device\<rparr>)]\<rparr>\<rparr>"
  obtain h1 where e: "handle_move 0x200000 Host ?h = (Ok, h1)"
    by (simp add: handle_move_def Let_def fits_limit_def demo_handler_eval)
  from move_transaction [OF e, of "\<lparr>cr_size = 0x400000, cr_loc = Device\<rparr>"]
  have "h_tenant (handle_move_done 0x200000 Device h1) = h_tenant ?h"
    unfolding Let_def by simp
  then have "used (handle_move_done 0x200000 Device h1) Device = 0x400000"
    by (simp add: demo_handler_eval)
  with e show ?thesis by blast
qed

text \<open>
  Round trip. A granted Alloc followed by a Free of the same pointer leaves the tenant (table and
  counts) and the machine-wide counts exactly as they were, wherever the chunk was placed, and also
  when the tenant in between reported that it fell back to the host.
\<close>

theorem alloc_free_roundtrip:
  assumes "tenant_ok ov (h_tenant h)" and "handle_alloc sz p NoMemory Host h = (Ok, l, h1)"
  shows "h_tenant (handle_free p h1) = h_tenant h \<and> h_global (handle_free p h1) = h_global h \<and>
    h_tenant (handle_free p (handle_alloc_fail p h1)) = h_tenant h \<and>
    h_global (handle_free p (handle_alloc_fail p h1)) = h_global h"
proof -
  let ?c = "\<lparr>cr_size = sz, cr_loc = l\<rparr>"
  have new: "map_of (chunks h) p = None" and ok: "om_ok (chunks h)"
    and idle: "\<And>to. moving h \<noteq> Some (p, to)"
    using assms(1) granted_alloc(1) [OF assms(2)] by (auto simp: tenant_ok_def)
  have t1: "h_tenant h1 = h_tenant (update_count l sz True (put_chunk p ?c h))"
    and g1: "h_global h1 = h_global (update_count l sz True (put_chunk p ?c h))"
    by (rule granted_alloc [OF assms(2)])+
  have at1: "map_of (chunks h1) p = Some ?c" and mv1: "moving h1 = moving h"
    by (simp_all add: t1 om_simps)
  have undo: "om_del p (om_put p c (chunks h)) = chunks h" for c
    using ok new by (simp add: om_del_put om_del_absent)
  have free: "h_tenant (handle_free p k) = h_tenant (erase_chunk p (update_count (cr_loc c) (cr_size c) False k))"
    "h_global (handle_free p k) = h_global (update_count (cr_loc c) (cr_size c) False k)"
    if "map_of (chunks k) p = Some c" "moving k = moving h" for k c
    using that idle
    by (auto simp: handle_free_def drop_move_def Let_def erase_chunk_def count_setters split: option.splits)
  note sets = put_chunk_def erase_chunk_def count_setters Let_def t1 g1 undo
  have direct: "h_tenant (handle_free p h1) = h_tenant h" "h_global (handle_free p h1) = h_global h"
    using free [OF at1 mv1] by (simp_all add: sets)
  let ?k = "handle_alloc_fail p h1"
  have fell: "h_tenant (handle_free p ?k) = h_tenant h \<and> h_global (handle_free p ?k) = h_global h"
  proof (cases l)
    case Device
    have k: "h_tenant ?k = h_tenant (put_chunk p (?c\<lparr>cr_loc := Host\<rparr>)
          (update_count Host sz True (update_count Device sz False h1)))"
      "h_global ?k = h_global (update_count Host sz True (update_count Device sz False h1))"
      using Device by (simp_all add: handle_alloc_fail_def at1 Let_def)
    have "map_of (chunks ?k) p = Some (?c\<lparr>cr_loc := Host\<rparr>)" "moving ?k = moving h"
      by (simp_all add: k om_simps mv1)
    from free [OF this] show "h_tenant (handle_free p ?k) = h_tenant h \<and> h_global (handle_free p ?k) = h_global h"
      using Device ok by (simp_all add: sets k om_put_put)
  next
    case Host
    then have k: "h_tenant ?k = h_tenant h1" "h_global ?k = h_global h1"
      by (simp_all add: handle_alloc_fail_def at1 Let_def)
    then have "map_of (chunks ?k) p = Some ?c" "moving ?k = moving h" using at1 mv1 by simp_all
    from free [OF this] show "h_tenant (handle_free p ?k) = h_tenant h \<and> h_global (handle_free p ?k) = h_global h"
      by (simp_all add: sets k)
  qed
  show ?thesis using direct fell by simp
qed

theorem alloc_free_roundtrip_witness:
  "\<exists>h1. handle_alloc 0x600000 0x200000 NoMemory Host demo_handler = (Ok, Device, h1) \<and>
     used (handle_free 0x200000 (handle_alloc_fail 0x200000 h1)) Host = 0"
proof -
  obtain h1 where e: "handle_alloc 0x600000 0x200000 NoMemory Host demo_handler = (Ok, Device, h1)"
    by (simp add: handle_alloc_def Let_def fits_limit_def demo_handler_eval)
  have "tenant_ok 0x400000 (h_tenant demo_handler)"
    by (simp add: tenant_ok_def demo_handler_eval overhead_def chunk_bytes_def reserved_def)
  from alloc_free_roundtrip [OF this e] have "h_tenant (handle_free 0x200000 (handle_alloc_fail 0x200000 h1)) = h_tenant demo_handler"
    by blast
  then have "used (handle_free 0x200000 (handle_alloc_fail 0x200000 h1)) Host = 0"
    by (simp add: demo_handler_eval)
  with e show ?thesis by blast
qed

section \<open>The table a tenant can predict\<close>

text \<open>
  The abstract broker, as one tenant sees it: a map from pointers to size and location, changed by
  the tenant's own messages and, for an Alloc, by the reply. No counts, limits, moves or other
  tenants.
\<close>

type_synonym table = "u64 \<Rightarrow> ChunkRec option"

definition table_after :: "Msg \<Rightarrow> Reply \<Rightarrow> table \<Rightarrow> table" where
  "table_after m r T =
     (case m_type m of
        Alloc \<Rightarrow> if r_status r = Ok then T(m_ptr m \<mapsto> \<lparr>cr_size = m_size m, cr_loc = r_loc r\<rparr>) else T
      | AllocFail \<Rightarrow> (case T (m_ptr m) of None \<Rightarrow> T | Some c \<Rightarrow> T(m_ptr m \<mapsto> c\<lparr>cr_loc := Host\<rparr>))
      | MoveDone \<Rightarrow> (case T (m_ptr m) of None \<Rightarrow> T | Some c \<Rightarrow> T(m_ptr m \<mapsto> c\<lparr>cr_loc := m_loc m\<rparr>))
      | Resync \<Rightarrow> T(m_ptr m \<mapsto> \<lparr>cr_size = m_size m, cr_loc = m_loc m\<rparr>)
      | Free \<Rightarrow> T(m_ptr m := None)
      | _ \<Rightarrow> T)"

text \<open>The messages that get a reply.\<close>

definition request :: "Msg \<Rightarrow> bool" where
  "request m \<longleftrightarrow> m_type m = Hello \<or> m_type m = Alloc \<or> m_type m = Move"

definition answer :: "Msg \<Rightarrow> Handler \<Rightarrow> Reply" where
  "answer m h =
     (case m_type m of
        Alloc \<Rightarrow> (case handle_alloc (m_size m) (m_ptr m) NoMemory Host h of
                   (s, l, _) \<Rightarrow> \<lparr>r_status = s, r_loc = l\<rparr>)
      | Move \<Rightarrow> \<lparr>r_status = fst (handle_move (m_ptr m) (m_loc m) h), r_loc = Device\<rparr>
      | _ \<Rightarrow> \<lparr>r_status = Ok, r_loc = Device\<rparr>)"

lemma update_same: "T p = Some c \<Longrightarrow> T = T(p \<mapsto> c)"
  by (simp add: fun_upd_idem)

lemma ChunkRec_same [simp]: "cr_loc c = l \<Longrightarrow> c\<lparr>cr_loc := l\<rparr> = c"
  by (cases c) simp

lemma chunks_alloc:
  "handle_alloc sz p NoMemory Host h = (s, l, h') \<Longrightarrow>
     map_of (chunks h') = (if s = Ok then (map_of (chunks h))(p \<mapsto> \<lparr>cr_size = sz, cr_loc = l\<rparr>)
       else map_of (chunks h))"
  by (auto simp: handle_alloc_def Let_def om_simps split: option.splits if_splits)

lemma chunks_alloc_fail:
  "map_of (chunks (handle_alloc_fail p h)) =
     (case map_of (chunks h) p of None \<Rightarrow> map_of (chunks h)
      | Some c \<Rightarrow> (map_of (chunks h))(p \<mapsto> c\<lparr>cr_loc := Host\<rparr>))"
  by (auto simp: handle_alloc_fail_def Let_def om_simps update_same split: option.split)

lemma chunks_move: "chunks (snd (handle_move p to h)) = chunks h"
  by (auto simp: handle_move_def Let_def split: option.splits)

lemma chunks_release_move: "chunks (release_move p at c h) = chunks h"
  by (simp add: release_move_def Let_def split: option.split prod.split)

lemma chunks_move_done:
  "map_of (chunks (handle_move_done p at h)) =
     (case map_of (chunks h) p of None \<Rightarrow> map_of (chunks h)
      | Some c \<Rightarrow> (map_of (chunks h))(p \<mapsto> c\<lparr>cr_loc := at\<rparr>))"
  by (auto simp: handle_move_done_def record_location_def chunks_release_move om_simps update_same
      split: option.split)

lemma chunks_resync:
  "chunks (handle_resync p sz at h) = om_put p \<lparr>cr_size = sz, cr_loc = at\<rparr> (chunks h)"
  by (simp add: handle_resync_def Let_def split: option.split)

lemma chunks_drop_move: "chunks (drop_move p c h) = chunks h"
  by (simp add: drop_move_def split: option.split prod.split)

lemma chunks_free:
  "om_ok (chunks h) \<Longrightarrow> map_of (chunks (handle_free p h)) = (map_of (chunks h))(p := None)"
  by (auto simp: handle_free_def Let_def chunks_drop_move om_simps fun_upd_idem split: option.split)

lemma chunks_hello: "chunks (handle_hello n h) = chunks h"
  by (simp add: handle_hello_def Let_def)

lemma sent_reply: "h_sent (reply fd ok s l h) = h_sent h @ (if ok then [(fd, \<lparr>r_status = s, r_loc = l\<rparr>)] else [])"
  by (simp add: reply_def)

lemma handlers_send_nothing [simp]:
  "h_sent (snd (snd (handle_alloc sz p s l h))) = h_sent h"
  "h_sent (handle_alloc_fail p h) = h_sent h"
  "h_sent (snd (handle_move p to h)) = h_sent h"
  "h_sent (handle_move_done p at h) = h_sent h"
  "h_sent (handle_resync p sz at h) = h_sent h"
  "h_sent (handle_free p h) = h_sent h"
  "h_sent (handle_hello n h) = h_sent h"
  by (auto simp: handler_defs Let_def split: option.split prod.split)

text \<open>
  C11. Reply discipline and refinement of the tenant's table. Every Hello, Alloc and Move gets exactly
  one reply, addressed to its sender (none when the socket refuses it), and no other message gets
  one. The table after the message is the abstract table moved by the message and that reply: a
  tenant that knows its own messages and the replies knows the broker's table.
\<close>

theorem table_refinement:
  assumes "om_ok (chunks h)"
  shows "map_of (chunks (handle fd ok m h)) = table_after m (answer m h) (map_of (chunks h)) \<and>
    h_sent (handle fd ok m h) = h_sent h @ (if request m \<and> ok then [(fd, answer m h)] else [])"
proof (cases "m_type m")
  case Alloc
  obtain s l h' where e: "handle_alloc (m_size m) (m_ptr m) NoMemory Host h = (s, l, h')"
    by (metis prod_cases3)
  have "h_sent h' = h_sent h"
    using handlers_send_nothing(1) [of "m_size m" "m_ptr m" NoMemory Host h] e by simp
  with Alloc e chunks_alloc [OF e] show ?thesis
    by (simp add: handle_def dispatch_def table_after_def request_def answer_def sent_reply)
next
  case Move
  obtain s h' where e: "handle_move (m_ptr m) (m_loc m) h = (s, h')" by fastforce
  have "h_sent h' = h_sent h" "chunks h' = chunks h"
    using handlers_send_nothing(3) [of "m_ptr m" "m_loc m" h] chunks_move [of "m_ptr m" "m_loc m" h] e
    by simp_all
  with Move e show ?thesis
    by (simp add: handle_def dispatch_def table_after_def request_def answer_def sent_reply)
qed (use assms in \<open>simp_all add: handle_def dispatch_def table_after_def request_def answer_def
  sent_reply chunks_alloc_fail chunks_move_done chunks_resync chunks_free chunks_hello om_simps\<close>)

theorem table_refinement_witness:
  "map_of (chunks (handle 5 True (msg Alloc Device 0x200000 0x600000) demo_handler)) 0x200000 =
     Some \<lparr>cr_size = 0x600000, cr_loc = Device\<rparr>"
proof -
  have "om_ok (chunks demo_handler)" by (simp add: demo_handler_eval)
  note t = table_refinement [OF this, of 5 True "msg Alloc Device 0x200000 0x600000"]
  have "answer (msg Alloc Device 0x200000 0x600000) demo_handler = \<lparr>r_status = Ok, r_loc = Device\<rparr>"
    by (simp add: answer_def handle_alloc_def Let_def fits_limit_def demo_handler_eval)
  with t show ?thesis by (simp add: table_after_def)
qed

end
