(* ===== verification/Vmem_Link.thy ===== *)
theory Vmem_Link
  imports Vmem_Props Broker_Sync
begin

text \<open>
  Backend and broker together (B5 of \<open>daemon/README.md\<close>): the table the broker must hold for this
  tenant can be read from the backend's own messages and the replies it got, and while the link is
  connected that table is the backend's table of chunks. Then the broker's handlers are put at the
  other end of the socket.
\<close>

section \<open>The peer's table, read from the history\<close>

text \<open>
  The table after the messages of the current connection, and the request that waits for its reply.
\<close>

definition any_reply :: Reply where "any_reply = \<lparr>r_status = Ok, r_loc = Device\<rparr>"

fun peer_step :: "call \<Rightarrow> table \<times> Msg option \<Rightarrow> table \<times> Msg option" where
  "peer_step (EConnect fd e) p = (if e = 0 then (\<lambda>_. None, None) else p)"
| "peer_step (ESend fd m e) p =
     (if e \<noteq> 0 then p
      else if request m then (fst p, Some m) else (table_after m any_reply (fst p), None))"
| "peer_step (ERecv fd r) p =
     (case (r, snd p) of
        (RecvReply rep, Some m) \<Rightarrow> (table_after m rep (fst p), None)
      | _ \<Rightarrow> p)"
| "peer_step _ p = p"

definition peer :: "history \<Rightarrow> table \<times> Msg option" where
  "peer hs = fold peer_step hs (\<lambda>_. None, None)"

lemma peer_append [simp]: "peer (hs @ es) = fold peer_step es (peer hs)"
  by (simp add: peer_def)

abbreviation "P v \<equiv> peer (v_calls v)"

text \<open>What the backend's own table says.\<close>

definition own_table :: "Vmem \<Rightarrow> table" where
  "own_table v = map_option (\<lambda>rc. \<lparr>cr_size = r_size rc, cr_loc = r_locn rc\<rparr>) \<circ> vmap v"

text \<open>B5.\<close>

definition link_ok :: "Vmem \<Rightarrow> bool" where
  "link_ok v \<longleftrightarrow> (v_link v = Connected \<longrightarrow> P v = (own_table v, None))"

lemma own_table_core: "core v' = core v \<Longrightarrow> own_table v' = own_table v"
  using coreD(6) [of v' v] by (simp add: own_table_def)

section \<open>Driver calls say nothing to the peer\<close>

definition silent :: "Vmem \<Rightarrow> Vmem \<Rightarrow> bool" where
  "silent v v' \<longleftrightarrow> v_link v' = v_link v \<and> P v' = P v"

lemma silent_refl [simp]: "silent v v" by (simp add: silent_def)

lemma silent_trans [trans]: "silent v w \<Longrightarrow> silent w x \<Longrightarrow> silent v x" by (simp add: silent_def)

lemma silent_made [simp]:
  "peer_step e = (\<lambda>p. p) \<Longrightarrow> silent v (made e w) = silent v w"
  "silent v (set_err s w) = silent v w"
  by (simp_all add: silent_def)

lemma driver_calls_silent [simp]:
  "peer_step (EReserve n r va) = (\<lambda>p. p)" "peer_step (EAddrFree va n r) = (\<lambda>p. p)"
  "peer_step (ECreate n p r h) = (\<lambda>p. p)" "peer_step (ERelease h r) = (\<lambda>p. p)"
  "peer_step (EMap va n h r) = (\<lambda>p. p)" "peer_step (EUnmap va n r) = (\<lambda>p. p)"
  "peer_step (ESetAccess va n dev r) = (\<lambda>p. p)" "peer_step (ECopy d s n r) = (\<lambda>p. p)"
  "peer_step (ECtxSync r) = (\<lambda>p. p)" "peer_step (ESocket fd e) = (\<lambda>p. p)" "peer_step (EClose fd) = (\<lambda>p. p)"
  "peer_step EInterrupted = (\<lambda>p. p)" "peer_step (EWrite va x) = (\<lambda>p. p)"
  by (simp_all add: fun_eq_iff)

lemma silent_cu [simp]: "silent v (snd (cu env r w u)) = silent v u"
  by (simp add: cu_def)

lemma silent_driver [simp]:
  "silent v (snd (snd (reserve env n u))) = silent v u"
  "silent v (snd (addr_free env va n u)) = silent v u"
  "silent v (snd (release env h u)) = silent v u"
  "silent v (snd (unmap env va n u)) = silent v u"
  "silent v (snd (snd (create_at env n l u))) = silent v u"
  by (simp_all add: reserve_def addr_free_def release_def unmap_def create_at_def Let_def case_prod_beta)

lemma silent_map_chunk [simp]: "silent v (snd (map_chunk env va n h u)) = silent v u"
  by (simp add: map_chunk_def Let_def case_prod_beta)

lemma silent_attach [simp]: "silent v (snd (attach env va n h u)) = silent v u"
  by (simp add: attach_def Let_def case_prod_beta)

lemma silent_copy_into [simp]: "silent v (snd (copy_into env nh va n u)) = silent v u"
  by (simp add: copy_into_def Let_def case_prod_beta)

lemma silent_replace [simp]: "silent v (snd (replace_backing env va n old nh u)) = silent v u"
  by (simp add: replace_backing_def Let_def case_prod_beta)

lemma silent_upd [simp]:
  "silent v (w\<lparr>v_chunks := m, v_used := u\<rparr>) = silent v w"
  by (simp add: silent_def)

lemma silent_swap [simp]: "silent v (snd (swap env c to u)) = silent v u"
  by (simp add: swap_def Let_def case_prod_beta split: option.split)

section \<open>Messages\<close>

lemma disconnected [simp]: "v_link (disconnect_broker l v) = l"
  by (simp add: disconnect_broker_def Let_def)

lemma send_msg_link:
  assumes "send_msg env m v = (b, v')"
  shows "b \<Longrightarrow> v_link v = Connected \<and> v_link v' = Connected \<and> P v' = peer_step (ESend 0 m 0) (P v)"
    and "\<not> b \<Longrightarrow> v_link v' \<noteq> Connected"
  using assms by (auto simp: send_msg_def Let_def split: if_splits)

text \<open>A message without a reply: either it is delivered or the link is down afterwards.\<close>

lemma send_report:
  assumes "v_link (snd (send_msg env m v)) = Connected" and "\<not> request m" and "P v = (T, None)"
  shows "v_link v = Connected" and "P (snd (send_msg env m v)) = (table_after m any_reply T, None)"
  using assms send_msg_link [of env m v] by (cases "send_msg env m v"; cases "fst (send_msg env m v)"; simp)+

lemma recv_loop_link:
  "recv_loop env k v = (r, v') \<Longrightarrow>
     v_link v' = v_link v \<and> (\<exists>fd. P v' = peer_step (ERecv fd r) (P v))"
proof (induction env k v rule: recv_loop.induct)
  case (2 env k v)
  then show ?case by simp
qed (auto simp: Let_def)

lemma send_and_recv_link:
  assumes e: "send_and_recv env m v = (rep, v')" and m: "request m" and p: "P v = (T, None)"
  shows "rep = Some r \<Longrightarrow> v_link v = Connected \<and> v_link v' = Connected \<and> P v' = (table_after m r T, None)"
    and "rep = None \<Longrightarrow> v_link v' \<noteq> Connected"
proof -
  obtain b v1 where s: "send_msg env m v = (b, v1)" by fastforce
  note s_link = send_msg_link [OF s]
  obtain q v2 where r: "recv_loop env (env_interrupts env (v_calls v1)) v1 = (q, v2)" by fastforce
  note r_link = recv_loop_link [OF r]
  show "v_link v = Connected \<and> v_link v' = Connected \<and> P v' = (table_after m r T, None)" if "rep = Some r"
  proof -
    have b: b and q: "q = RecvReply r" and v': "v' = v2"
      using e s r that by (auto simp: send_and_recv_def split: if_splits RecvRes.splits)
    show ?thesis using s_link(1) [OF b] r_link q v' m p by auto
  qed
  show "v_link v' \<noteq> Connected" if "rep = None"
    using e s r s_link that by (auto simp: send_and_recv_def split: if_splits RecvRes.splits)
qed

lemma connect_link:
  assumes "connect_broker env v = (e, v')" and "v_link v \<noteq> Connected" and "v_link v' = Connected"
  shows "e = 0 \<and> P v' = (\<lambda>_. None, None)"
proof -
  have hello: "request (hello_msg n)" "table_after (hello_msg n) r T = T" for n r T
    by (simp_all add: hello_msg_def request_def table_after_def Let_def)
  obtain fd e1 where s: "env_socket env (v_calls v) = (fd, e1)" by fastforce
  define v1 where "v1 = made (ESocket fd e1) v"
  define e2 where "e2 = env_connect env (v_calls v1) fd"
  define v2 where "v2 = made (EConnect fd e2) v1"
  define v3 where "v3 = v2\<lparr>v_fd := fd, v_link := Connected\<rparr>"
  obtain rep v4 where r: "send_and_recv env (hello_msg (v_name v3)) v3 = (rep, v4)" by fastforce
  have down: "v_link v1 \<noteq> Connected" "v_link v2 \<noteq> Connected" using assms(2) by (simp_all add: v1_def v2_def)
  then have c: "\<not> SUN_PATH \<le> length (v_path v) \<and> 0 \<le> fd \<and> e2 = 0"
    using assms s
    by (auto simp: connect_broker_def Let_def v1_def e2_def v2_def v3_def split: if_splits)
  have sv: "e = (if rep \<noteq> None then 0 else ETIMEDOUT)" "v' = v4"
    using assms(1) s c r
    by (auto simp: connect_broker_def Let_def v1_def e2_def v2_def v3_def case_prod_beta split: if_splits)
  have p3: "P v3 = (\<lambda>_. None, None)" using c by (simp add: v3_def v2_def)
  note link = send_and_recv_link [OF r hello(1) p3]
  show ?thesis
  proof (cases rep)
    case None
    then show ?thesis using link(2) assms(3) sv by simp
  next
    case (Some x)
    then show ?thesis using link(1) [OF Some] sv hello(2) by simp
  qed
qed

section \<open>Reconnecting\<close>

definition with_chunks :: "(u64 \<times> Rec) list \<Rightarrow> table \<Rightarrow> table" where
  "with_chunks cs T = (\<lambda>va. case map_of cs va of
     Some rc \<Rightarrow> Some \<lparr>cr_size = r_size rc, cr_loc = r_locn rc\<rparr> | None \<Rightarrow> T va)"

lemma resync_stays_down: "v_link (fold (resync_one env) cs v) = Connected \<Longrightarrow> v_link v = Connected"
proof (induction cs arbitrary: v)
  case (Cons c cs)
  then have "v_link (resync_one env c v) = Connected" by simp
  then show ?case by (auto simp: resync_one_def send_msg_def Let_def split: if_splits)
qed simp

lemma resync_fold_link:
  assumes "v_link (fold (resync_one env) cs v) = Connected" and "P v = (T, None)" and "distinct (map fst cs)"
  shows "P (fold (resync_one env) cs v) = (with_chunks cs T, None)"
  using assms
proof (induction cs arbitrary: v T)
  case Nil
  then show ?case by (simp add: with_chunks_def)
next
  case (Cons c cs)
  obtain va rc where c: "c = (va, rc)" by (cases c)
  let ?m = "msg Resync (r_locn rc) va (r_size rc)"
  let ?v = "resync_one env c v"
  have v: "?v = snd (send_msg env ?m v)" by (simp add: c resync_one_def)
  have "v_link ?v = Connected" using resync_stays_down Cons.prems(1) by simp
  then have "P ?v = (table_after ?m any_reply T, None)"
    using send_report(2) [of env ?m v T] Cons.prems(2) by (simp add: v request_def)
  then have p: "P ?v = (T(va \<mapsto> \<lparr>cr_size = r_size rc, cr_loc = r_locn rc\<rparr>), None)"
    by (simp add: table_after_def)
  have "va \<notin> fst ` set cs" using Cons.prems(3) by (simp add: c)
  then have "map_of cs va = None" by (simp add: map_of_eq_None_iff)
  then show ?case
    using Cons.IH [of ?v, OF _ p] Cons.prems
    by (auto simp: with_chunks_def c fun_eq_iff split: option.split)
qed

lemma with_own_chunks: "with_chunks (v_chunks v) (\<lambda>_. None) = own_table v"
  by (auto simp: with_chunks_def own_table_def fun_eq_iff split: option.split)

lemma reconnect_link:
  assumes "link_ok v" and "om_ok (v_chunks v)"
  shows "link_ok (snd (reconnect env v))"
    and "fst (reconnect env v) = Ok \<Longrightarrow> v_link (snd (reconnect env v)) = Connected"
proof -
  obtain e w where c: "connect_broker env (disconnect_broker Broken v) = (e, w)" by fastforce
  have core: "core w = core v"
    using outside_connect [of env "disconnect_broker Broken v"] c by (simp add: outside_link_def)
  have ch: "v_chunks w = v_chunks v" using coreD(6) [OF core] .
  let ?u = "fold (resync_one env) (v_chunks w) w"
  have rc: "reconnect env v = (if v_path v = [] then (Unsupported, set_err ''no vmemd socket configured'' v)
      else if e \<noteq> 0 then (Disconnected, set_err (''vmemd '' @ v_path w @ '': '' @ env_strerror env e) w)
      else (if v_link ?u = Connected then Ok else Disconnected, ?u))"
    using c by (simp add: reconnect_def Let_def)
  have "link_ok ?u"
  proof -
    have "own_table ?u = own_table w"
      by (rule own_table_core) (rule outsideD(1) [OF outside_resync])
    moreover have "P ?u = (own_table w, None)" if up: "v_link ?u = Connected"
    proof -
      have "v_link w = Connected" using up by (rule resync_stays_down)
      then have "P w = (\<lambda>_. None, None)" using connect_link [OF c] by simp
      moreover have "distinct (map fst (v_chunks w))" using assms(2) ch om_ok_distinct by metis
      ultimately have "P ?u = (with_chunks (v_chunks w) (\<lambda>_. None), None)"
        by (rule resync_fold_link [OF up])
      then show ?thesis by (simp only: with_own_chunks)
    qed
    ultimately show ?thesis by (simp add: link_ok_def)
  qed
  moreover have "link_ok (set_err x w)" if "e \<noteq> 0" for x
    using connect_link [OF c] that by (auto simp: link_ok_def)
  moreover have "link_ok (set_err x v)" for x
  proof -
    have "own_table (set_err x v) = own_table v" by (rule own_table_core) simp
    then show ?thesis using assms(1) by (simp add: link_ok_def)
  qed
  ultimately show "link_ok (snd (reconnect env v))"
    by (simp add: rc)
  show "fst (reconnect env v) = Ok \<Longrightarrow> v_link (snd (reconnect env v)) = Connected"
    by (simp add: rc split: if_splits)
qed

lemma maybe_reconnect_link:
  "link_ok v \<Longrightarrow> om_ok (v_chunks v) \<Longrightarrow> link_ok (maybe_reconnect env v)"
  by (simp add: maybe_reconnect_def reconnect_link(1))

section \<open>The operations keep B5\<close>

text \<open>Once the link is down it stays down until a reconnect.\<close>

lemma send_stays_down: "v_link (snd (send_msg env m v)) = Connected \<Longrightarrow> v_link v = Connected"
  by (auto simp: send_msg_def Let_def split: if_splits)

lemma decide_link:
  assumes e: "decide_place env va n l0 False v = (s, l, counted, v')" and ok: "link_ok v"
    and up: "v_link v' = Connected"
  shows "v_link v = Connected \<and>
    (if s = Ok then counted \<and> P v' = ((own_table v)(va \<mapsto> \<lparr>cr_size = n, cr_loc = l\<rparr>), None)
     else P v' = (own_table v, None))"
proof (cases "v_link v = Connected")
  case False
  then show ?thesis using e up by (simp add: decide_place_def)
next
  case True
  then have p: "P v = (own_table v, None)" using ok by (simp add: link_ok_def)
  obtain rep w where r: "send_and_recv env (msg Alloc Device va n) v = (rep, w)" by fastforce
  have req: "request (msg Alloc Device va n)" by (simp add: request_def)
  note link = send_and_recv_link [OF r req p]
  show ?thesis
  proof (cases rep)
    case None
    then show ?thesis using link(2) e r True up by (simp add: decide_place_def)
  next
    case (Some x)
    then show ?thesis
      using link(1) [OF Some] e r True by (auto simp: decide_place_def table_after_def split: if_splits)
  qed
qed

lemma acquire_link:
  assumes e: "acquire env va n l counted v = (s, l', h, v')" and up: "v_link v' = Connected"
    and p: "v_link v = Connected \<Longrightarrow> counted \<and> P v = (T(va \<mapsto> \<lparr>cr_size = n, cr_loc = l\<rparr>), None)"
  shows "v_link v = Connected \<and> (\<exists>x. P v' = (T(va \<mapsto> x), None)) \<and>
    (s = Ok \<longrightarrow> P v' = (T(va \<mapsto> \<lparr>cr_size = n, cr_loc = l'\<rparr>), None))"
proof -
  obtain s1 h1 v1 where c1: "create_at env n l v = (s1, h1, v1)" by (metis prod_cases3)
  obtain s2 h2 v2 where c2: "create_at env n Host v1 = (s2, h2, v2)" by (metis prod_cases3)
  have q: "silent v v1" "silent v1 v2"
    using silent_driver(5) [of v env n l v] silent_driver(5) [of v1 env n Host v1] c1 c2 by simp_all
  define v3 where "v3 = (if s2 = Ok \<and> counted then snd (send_msg env (msg AllocFail Host va 0) v2) else v2)"
  have sv: "(s, l', h, v') = (if s1 = NoMemory \<and> l = Device then (s2, Host, h2, v3) else (s1, l, h1, v1))"
    using e c1 c2 by (auto simp: acquire_def Let_def v3_def)
  show ?thesis
  proof (cases "s1 = NoMemory \<and> l = Device")
    case False
    then have "silent v v'" "l' = l" using sv q by auto
    then show ?thesis using up p by (auto simp: silent_def)
  next
    case True
    then have v': "v' = v3" "s = s2" "l' = Host" using sv by auto
    have up2: "v_link v2 = Connected" using up send_stays_down by (auto simp: v' v3_def split: if_splits)
    then have up0: "v_link v = Connected" using q by (simp add: silent_def)
    then have cnt: counted and p2: "P v2 = (T(va \<mapsto> \<lparr>cr_size = n, cr_loc = l\<rparr>), None)"
      using p q by (simp_all add: silent_def)
    show ?thesis
    proof (cases "s2 = Ok")
      case True
      then have "P v' = (table_after (msg AllocFail Host va 0) any_reply (T(va \<mapsto> \<lparr>cr_size = n, cr_loc = l\<rparr>)), None)"
        using send_report(2) [OF _ _ p2, of env "msg AllocFail Host va 0"] up cnt
        by (simp add: v' v3_def request_def)
      then show ?thesis using up0 v' by (simp add: table_after_def) blast
    next
      case False
      then show ?thesis using p2 up0 by (auto simp: v' v3_def)
    qed
  qed
qed

lemma abandon_link:
  assumes up: "v_link (abandon env va n l counted v) = Connected"
    and p: "v_link v = Connected \<Longrightarrow> counted \<and> P v = (T(va \<mapsto> x), None)" and new: "T va = None"
  shows "P (abandon env va n l counted v) = (T, None)"
proof -
  define w where "w = (if counted then snd (send_msg env (msg Free l va 0) v) else v)"
  have q: "silent w (abandon env va n l counted v)" by (simp add: abandon_def flip: w_def)
  then have upw: "v_link w = Connected" using up by (simp add: silent_def)
  then have "v_link v = Connected" using send_stays_down by (auto simp: w_def split: if_splits)
  then have cnt: counted and pv: "P v = (T(va \<mapsto> x), None)" using p by simp_all
  have "P w = (table_after (msg Free l va 0) any_reply (T(va \<mapsto> x)), None)"
    using send_report(2) [OF _ _ pv, of env "msg Free l va 0"] upw cnt by (simp add: w_def request_def)
  then show ?thesis using q new by (simp add: silent_def table_after_def fun_upd_idem)
qed

lemma silent_link_ok: "silent v v' \<Longrightarrow> core v' = core v \<Longrightarrow> link_ok v \<Longrightarrow> link_ok v'"
  using own_table_core [of v' v] by (simp add: silent_def link_ok_def)

lemma create_link:
  assumes wb: "well_behaved (dom (vmap v)) env" and ok: "vmem_ok v" and b5: "link_ok v"
    and e: "vmem_create env n out v = (s, c, v')"
  shows "link_ok v'"
proof -
  obtain s1 va v1 where r: "reserve env n v = (s1, va, v1)" by (metis prod_cases3)
  note r_step = reserve_step [OF wb r]
  have q1: "silent v v1" using silent_driver(1) [of v env n v] r by simp
  have ok1: "link_ok v1" by (rule silent_link_ok [OF q1 quiet_core [OF r_step(1)] b5])
  show ?thesis
  proof (cases "s1 = Ok")
    case False
    then show ?thesis using e r ok1 by (simp add: vmem_create_def)
  next
    case True
    have new: "own_table v va = None"
      using r_step(3) [OF True] vmem_okD(3) [OF ok, of va] by (cases "vmap v va") (auto simp: own_table_def)
    define v2 where "v2 = maybe_reconnect env v1"
    have "om_ok (v_chunks v1)" using vmem_okD(1) [OF ok] coreD(6) [OF quiet_core [OF r_step(1)]] by simp
    then have ok2: "link_ok v2" using ok1 by (simp add: v2_def maybe_reconnect_link)
    have "core v2 = core v1" unfolding v2_def by (rule outsideD(1) [OF outside_maybe_reconnect])
    then have core2: "core v2 = core v" using quiet_core [OF r_step(1)] by simp
    have own2: "own_table v2 = own_table v" using own_table_core [OF core2] .
    obtain s3 l counted v3 where p: "decide_place env va n Device False v2 = (s3, l, counted, v3)"
      by (metis prod_cases4)
    note p_link = decide_link [OF p ok2]
    have core3: "core v3 = core v"
      using outsideD(1) [OF outside_decide [of env va n Device False v2]] core2 by (simp add: p)
    show ?thesis
    proof (cases "s3 = Ok")
      case False
      then have v': "v' = snd (addr_free env va n v3)"
        using e r p True by (simp add: vmem_create_def v2_def)
      have "silent v3 v'" by (simp add: v')
      moreover have "core v' = core v3" using quiet_core [of v3 v'] by (simp add: v')
      moreover have "link_ok v3" using p_link False own2 own_table_core [OF core3] by (simp add: link_ok_def)
      ultimately show ?thesis by (rule silent_link_ok)
    next
      case True3: True
      obtain s4 l4 h v4 where a: "acquire env va n l counted v3 = (s4, l4, h, v4)" by (metis prod_cases4)
      have pre: "v_link v3 = Connected \<Longrightarrow> counted \<and> P v3 = ((own_table v)(va \<mapsto> \<lparr>cr_size = n, cr_loc = l\<rparr>), None)"
        using p_link True3 own2 by simp
      note a_link = acquire_link [OF a _ pre]
      have core4: "core v4 = core v" using acquire_step(1) [OF wb a] core3 by simp
      have cnt: "counted" if "v_link v4 = Connected" using a_link [OF that] pre by blast
      define v5 where "v5 = (if s4 = Ok then snd (attach env va n h v4) else v4)"
      define s5 where "s5 = (if s4 = Ok then fst (attach env va n h v4) else s4)"
      have q5: "silent v4 v5" by (simp add: v5_def)
      show ?thesis
      proof (cases "s5 = Ok")
        case False
        have v': "v' = abandon env va n l4 counted v5" and sne: "s = s5"
          using e r p a True True3 False
          by (auto simp: vmem_create_def v2_def v5_def s5_def case_prod_beta split: if_splits)
        obtain x where x: "v_link v5 = Connected \<Longrightarrow> P v5 = ((own_table v)(va \<mapsto> x), None)"
          using a_link q5 by (cases "v_link v4 = Connected") (auto simp: silent_def)
        have "v_link v5 = Connected \<Longrightarrow> counted \<and> P v5 = ((own_table v)(va \<mapsto> x), None)"
          using x cnt q5 by (simp add: silent_def)
        note ab = abandon_link [OF _ this new, of env n l4]
        have "core v' = core v" using create_step(2) [OF wb ok e] False sne by simp
        then have "own_table v' = own_table v" by (rule own_table_core)
        then show ?thesis using ab by (simp add: link_ok_def v')
      next
        case True5: True
        then have s4: "s4 = Ok" by (simp add: s5_def split: if_splits)
        have sv: "s = Ok" "v' = v5\<lparr>v_chunks := om_put va \<lparr>r_h = h, r_size = n, r_locn = l4\<rparr> (v_chunks v5),
             v_used := (v_used v5)(l4 := v_used v5 l4 + n)\<rparr>"
          using e r p a True True3 True5 s4
          by (auto simp: vmem_create_def v2_def v5_def s5_def case_prod_beta split: if_splits)
        obtain h' where ad: "chunk_added n c h' v v'" using create_step(1) [OF wb ok e sv(1)] by blast
        have cv: "c_ptr c = va" "c_loc c = l4"
          using e r p a True True3 True5 s4
          by (auto simp: vmem_create_def v2_def v5_def s5_def case_prod_beta split: if_splits)
        have "own_table v' = (own_table v)(va \<mapsto> \<lparr>cr_size = n, cr_loc = l4\<rparr>)"
          using ad cv by (auto simp: chunk_added_def own_table_def om_simps fun_eq_iff)
        moreover have "P v' = P v4" "v_link v' = v_link v4" using q5 by (simp_all add: sv(2) silent_def)
        ultimately show ?thesis using a_link s4 by (simp add: link_ok_def)
      qed
    qed
  qed
qed

lemma own_table_moved:
  "chunk_moved c rc to nh v v' \<Longrightarrow>
     own_table v' = (own_table v)(c_ptr c \<mapsto> \<lparr>cr_size = c_size c, cr_loc = to\<rparr>)"
  by (auto simp: chunk_moved_def own_table_def om_simps fun_eq_iff)

lemma move_link:
  assumes wb: "well_behaved (dom (vmap v)) env" and ok: "vmem_ok v" and b5: "link_ok v"
    and c: "held v c rc" "c_loc c \<noteq> to" and e: "vmem_move env c to v = (res, v')"
  shows "link_ok v'"
proof -
  have c': "vmap v (c_ptr c) = Some rc" "r_size rc = c_size c" "r_locn rc = c_loc c"
    using c(1) by (simp_all add: held_def)
  define v1 where "v1 = maybe_reconnect env v"
  have ok1: "link_ok v1" using b5 vmem_okD(1) [OF ok] by (simp add: v1_def maybe_reconnect_link)
  have core1: "core v1 = core v" unfolding v1_def by (rule outsideD(1) [OF outside_maybe_reconnect])
  have own1: "own_table v1 = own_table v" using own_table_core [OF core1] .
  obtain rep v2 where a: "(if v_link v1 = Connected then send_and_recv env (msg Move to (c_ptr c) 0) v1 else (None, v1)) = (rep, v2)"
    by fastforce
  have "outside_link v2 = outside_link v1"
    using a by (metis outside_send_and_recv snd_conv)
  note v2 = outsideD [OF this]
  have core2: "core v2 = core v" using v2(1) core1 by simp
  have req: "request (msg Move to (c_ptr c) 0)" by (simp add: request_def)
  have up2: "rep \<noteq> None \<and> P v2 = (own_table v, None)" if "v_link v2 = Connected"
  proof (cases "v_link v1 = Connected")
    case True
    then have p1: "P v1 = (own_table v, None)" using ok1 own1 by (simp add: link_ok_def)
    have r: "send_and_recv env (msg Move to (c_ptr c) 0) v1 = (rep, v2)" using a True by simp
    note link = send_and_recv_link [OF r req p1]
    show ?thesis
    proof (cases rep)
      case None
      then show ?thesis using link(2) that by simp
    next
      case (Some x)
      then show ?thesis using link(1) [OF Some] by (simp add: table_after_def)
    qed
  next
    case False
    then show ?thesis using a that by simp
  qed
  show ?thesis
  proof (cases "\<exists>rp. rep = Some rp \<and> r_status rp \<noteq> Ok")
    case True
    then have v': "v' = set_err (''vmemd refused the move to '' @ loc_name to) v2"
      using e c(2) a [unfolded v1_def] by (auto simp: vmem_move_def Let_def)
    have "own_table v' = own_table v" by (rule own_table_core) (simp add: v' core2)
    then show ?thesis using up2 by (simp add: link_ok_def v')
  next
    case False
    have wb2: "well_behaved (dom (vmap v2)) env" and ok2: "vmem_ok v2" and c2: "vmap v2 (c_ptr c) = Some rc"
      using wb c'(1) coreD(6) [OF core2] vmem_ok_cong [OF core2] ok
        outsideD(2) [OF \<open>outside_link v2 = outside_link v1\<close>] outsideD(2) [OF outside_maybe_reconnect [of env v]]
      by (simp_all add: v1_def)
    obtain sw v3 where sw: "swap env c to v2 = (sw, v3)" by fastforce
    have q3: "silent v2 v3" using silent_swap [of v2 env c to v2] sw by simp
    have own2: "own_table v2 = own_table v" using own_table_core [OF core2] .
    show ?thesis
    proof (rule swap_step [OF wb2 ok2 c2 c'(2) c(2) sw])
      fix s
      assume s: "sw = Ret (s, if s = Ok then c\<lparr>c_loc := to\<rparr> else c)"
        and st: "s = Ok \<Longrightarrow> \<exists>nh. chunk_moved c rc to nh v2 v3" "s \<noteq> Ok \<Longrightarrow> core v3 = core v2"
      let ?l = "if s = Ok then to else c_loc c"
      have own3: "own_table v3 = (own_table v)(c_ptr c \<mapsto> \<lparr>cr_size = c_size c, cr_loc = ?l\<rparr>)"
      proof (cases "s = Ok")
        case True
        then show ?thesis using own_table_moved own2 st(1) [OF True] by auto
      next
        case False
        have "own_table v3 = own_table v2" by (rule own_table_core [OF st(2) [OF False]])
        then have "own_table v3 = own_table v" using own2 by simp
        moreover have "own_table v (c_ptr c) = Some \<lparr>cr_size = c_size c, cr_loc = c_loc c\<rparr>"
          using c' by (simp add: own_table_def)
        ultimately show ?thesis using False by (simp add: fun_upd_idem)
      qed
      let ?m = "msg MoveDone ?l (c_ptr c) 0"
      show ?thesis
      proof (cases rep)
        case None
        then have "v' = v3" using e c(2) a [unfolded v1_def] sw by (auto simp: vmem_move_def Let_def)
        then show ?thesis using up2 None q3 by (auto simp: link_ok_def silent_def)
      next
        case (Some rp)
        then have v': "v' = snd (send_msg env ?m v3)"
          using e c(2) a [unfolded v1_def] sw s False by (auto simp: vmem_move_def Let_def split: if_splits)
        have core': "core v' = core v3" unfolding v' by (rule outsideD(1) [OF outside_send])
        show ?thesis
          unfolding link_ok_def
        proof
          assume up: "v_link v' = Connected"
          then have "v_link v3 = Connected" using send_stays_down by (simp add: v')
          then have p3: "P v3 = (own_table v, None)" using up2 q3 by (simp add: silent_def)
          have "P v' = (table_after ?m any_reply (own_table v), None)"
            using send_report(2) [OF _ _ p3, of env ?m] up by (simp add: v' request_def)
          also have "\<dots> = (own_table v', None)"
            using own3 own_table_core [OF core'] c'
            by (simp add: table_after_def own_table_def)
          finally show "P v' = (own_table v', None)" .
        qed
      qed
    qed
  qed
qed

lemma destroy_link:
  assumes ok: "vmem_ok v" and b5: "link_ok v" and e: "vmem_destroy env c v = (Ret (Ok, c'), v')"
  shows "link_ok v'"
proof -
  define va n where "va = c_ptr c" and "n = c_size c"
  obtain r1 w1 where u1: "unmap env va n v = (r1, w1)" by fastforce
  define v1 where "v1 = snd (cu env r1 ''cuMemUnmap'' w1)"
  have r1: "r1 = CUDA_SUCCESS"
    using e u1 by (auto simp: vmem_destroy_def Let_def case_prod_beta va_def n_def split: if_splits)
  have q1: "quiet v v1" "silent v v1"
    using unmap_step(1) [of v env va n v] silent_driver(4) [of v env va n v] u1 by (simp_all add: v1_def)
  obtain rc where ch1: "vmap v1 va = Some rc"
    using e u1 r1 by (auto simp: vmem_destroy_def Let_def case_prod_beta va_def n_def v1_def split: option.splits)
  obtain r2 w2 where u2: "release env (r_h rc) v1 = (r2, w2)" by fastforce
  define v2 where "v2 = snd (cu env r2 ''cuMemRelease'' w2)"
  have q2: "quiet v v2" "silent v v2"
    using quiet_trans [OF q1(1)] silent_trans [OF q1(2)] release_step(1) [of v1 env "r_h rc" v1]
      silent_driver(3) [of v1 env "r_h rc" v1] u2 by (simp_all add: v2_def)
  obtain r3 w3 where u3: "addr_free env va n v2 = (r3, w3)" by fastforce
  define v3 where "v3 = snd (cu env r3 ''cuMemAddressFree'' w3)"
  have q3: "quiet v v3" "silent v v3"
    using quiet_trans [OF q2(1)] silent_trans [OF q2(2)] addr_free_step(1) [of v2 env va n v2]
      silent_driver(2) [of v2 env va n v2] u3 by (simp_all add: v3_def)
  define v4 where "v4 = v3\<lparr>v_chunks := om_del va (v_chunks v3),
    v_used := (v_used v3)(c_loc c := v_used v3 (c_loc c) - n)\<rparr>"
  have v': "v' = snd (send_msg env (msg Free (c_loc c) va 0) v4)"
    using e u1 u2 u3 r1 ch1
    by (auto simp: vmem_destroy_def Let_def case_prod_beta va_def n_def v1_def v2_def v3_def v4_def split: if_splits)
  have ch3: "v_chunks v3 = v_chunks v" using coreD(6) [OF quiet_core [OF q3(1)]] .
  have own4: "own_table v4 = (own_table v)(va := None)"
    using vmem_okD(1) [OF ok] ch3 by (auto simp: v4_def own_table_def om_simps fun_eq_iff)
  have core': "core v' = core v4" unfolding v' by (rule outsideD(1) [OF outside_send])
  show ?thesis
    unfolding link_ok_def
  proof
    assume up: "v_link v' = Connected"
    then have "v_link v4 = Connected" using send_stays_down by (simp add: v')
    then have p4: "P v4 = (own_table v, None)" using b5 q3(2) by (simp add: v4_def silent_def link_ok_def)
    have "P v' = (table_after (msg Free (c_loc c) va 0) any_reply (own_table v), None)"
      using send_report(2) [OF _ _ p4, of env "msg Free (c_loc c) va 0"] up by (simp add: v' request_def)
    then show "P v' = (own_table v', None)"
      using own4 own_table_core [OF core'] by (simp add: table_after_def)
  qed
qed

section \<open>Sessions\<close>

text \<open>
  What a client that follows the interface can reach: an opened backend, any creates, moves and
  destroys of chunks it holds, writes of the application to live chunks, and reconnects. The driver
  may be a different one at every step. A Fatal move or destroy ends the session.
\<close>

inductive session :: "Vmem \<Rightarrow> bool" where
  opened: "vmem_open env cfg new_vmem = (Ok, v) \<Longrightarrow> session v"
| created: "session v \<Longrightarrow> well_behaved (dom (vmap v)) env \<Longrightarrow> vmem_create env n out v = (s, c, v') \<Longrightarrow>
    session v'"
| moved: "session v \<Longrightarrow> well_behaved (dom (vmap v)) env \<Longrightarrow> held v c rc \<Longrightarrow>
    vmem_move env c to v = (Ret (s, c'), v') \<Longrightarrow> s \<noteq> Fatal \<Longrightarrow> session v'"
| destroyed: "session v \<Longrightarrow> well_behaved (dom (vmap v)) env \<Longrightarrow> held v c rc \<Longrightarrow>
    vmem_destroy env c v = (Ret (s, c'), v') \<Longrightarrow> s \<noteq> Fatal \<Longrightarrow> session v'"
| reconnected: "session v \<Longrightarrow> session (snd (reconnect env v))"
| written: "session v \<Longrightarrow> vmap v va = Some rc \<Longrightarrow> session (made (EWrite va x) v)"

lemma fresh_ok:
  assumes "v_chunks v = []" and "v_used v = (\<lambda>_. 0)" and "D v = no_drv"
  shows "vmem_ok v"
  using assms by (simp add: vmem_ok_def no_drv_def rec_bytes_def)

lemma open_device_frame:
  assumes "open_device env dev v = (s, v')"
  shows "v_chunks v' = v_chunks v \<and> v_used v' = v_used v \<and> v_calls v' = v_calls v \<and> v_link v' = v_link v"
  using assms by (auto simp: open_device_def Let_def case_prod_beta cu_def set_err_def split: if_splits)

lemma open_ok:
  assumes "vmem_open env cfg new_vmem = (Ok, v)"
  shows "vmem_ok v" and "link_ok v"
proof -
  obtain w where d: "open_device env (bc_device cfg) new_vmem = (Ok, w)" and l: "open_link env cfg w = (Ok, v)"
    using assms by (auto simp: vmem_open_def case_prod_beta prod_eq_iff split: if_splits)
  have w: "v_chunks w = []" "v_used w = (\<lambda>_. 0)" "D w = no_drv" "v_link w = Local"
    using open_device_frame [OF d] by (simp_all add: new_vmem_def drv_def)
  have "v_chunks v = [] \<and> v_used v = (\<lambda>_. 0) \<and> D v = no_drv \<and> link_ok v"
  proof (cases "bc_daemon cfg")
    case None
    then show ?thesis using l w by (simp add: open_link_def link_ok_def)
  next
    case (Some path)
    define u where "u = w\<lparr>v_path := path,
      v_name := (case bc_name cfg of None \<Rightarrow> env_progname env | Some s \<Rightarrow> s), v_auto := bc_auto cfg\<rparr>"
    obtain e where c: "connect_broker env u = (e, v)"
      using l Some by (auto simp: open_link_def Let_def case_prod_beta prod_eq_iff u_def split: if_splits)
    have u: "v_chunks u = []" "v_used u = (\<lambda>_. 0)" "D u = no_drv" "v_link u = Local"
      using w by (simp_all add: u_def)
    have "outside_link v = outside_link u" using outside_connect [of env u] c by simp
    note o = outsideD [OF this]
    have ch: "v_chunks v = []" "v_used v = (\<lambda>_. 0)" "D v = no_drv"
      using coreD(5,6) [OF o(1)] o(2) u by simp_all
    have "own_table v = (\<lambda>_. None)" by (simp add: own_table_def ch fun_eq_iff)
    then have "link_ok v" using connect_link [OF c] u by (simp add: link_ok_def)
    then show ?thesis using ch by simp
  qed
  then show "vmem_ok v" "link_ok v" using fresh_ok by simp_all
qed

lemma session_ok: "session v \<Longrightarrow> vmem_ok v \<and> link_ok v"
proof (induction rule: session.induct)
  case (opened env cfg v)
  then show ?case using open_ok by blast
next
  case (created v env n out s c v')
  have ok: "vmem_ok v" "link_ok v" using created.IH by simp_all
  have "vmem_ok v'"
  proof (cases "s = Ok")
    case True
    then show ?thesis using create_step(1) [OF created(2) ok(1) created(3)] created_ok [OF ok(1)] by blast
  next
    case False
    from create_step(2) [OF created(2) ok(1) created(3) False] have "core v' = core v" "D v' = D v" by simp_all
    from vmem_ok_cong [OF this] ok(1) show ?thesis by simp
  qed
  then show ?case using create_link [OF created(2) ok created(3)] by simp
next
  case (moved v env c rc to s c' v')
  have ok: "vmem_ok v" "link_ok v" using moved.IH by simp_all
  show ?case
  proof (cases "c_loc c = to")
    case True
    then show ?thesis using moved(4) ok by (simp add: vmem_move_def)
  next
    case False
    have c: "vmap v (c_ptr c) = Some rc" "r_size rc = c_size c" "r_locn rc = c_loc c"
      using moved(3) by (simp_all add: held_def)
    have "vmem_ok v'"
    proof (rule move_step [OF moved(2) ok(1) c(1,2) moved(4) False])
      fix s'
      assume "Ret (s, c') = Ret (s', if s' = Ok then c\<lparr>c_loc := to\<rparr> else c)" "s' \<in> {Ok, NoMemory, Fatal}"
        "s' = Ok \<Longrightarrow> \<exists>nh. chunk_moved c rc to nh v v'" "s' \<noteq> Ok \<Longrightarrow> core v' = core v" "s' = NoMemory \<Longrightarrow> D v' = D v"
      moreover from this have "s' = s" by simp
      ultimately have "s = Ok \<Longrightarrow> \<exists>nh. chunk_moved c rc to nh v v'" "s = NoMemory \<Longrightarrow> core v' = core v \<and> D v' = D v"
        "s = Ok \<or> s = NoMemory" using moved(5) by auto
      then show "vmem_ok v'"
        using vmem_ok_moved [OF ok(1) _ c False] vmem_ok_cong [of v' v] ok(1) by blast
    qed
    then show ?thesis using move_link [OF moved(2) ok moved(3) False moved(4)] by simp
  qed
next
  case (destroyed v env c rc s c' v')
  have ok: "vmem_ok v" "link_ok v" using destroyed.IH by simp_all
  have c: "vmap v (c_ptr c) = Some rc" "r_size rc = c_size c" "r_locn rc = c_loc c"
    using destroyed(3) by (simp_all add: held_def)
  from destroy_step [OF destroyed(2) ok(1) c destroyed(4)] destroyed(5)
  have "vmem_ok v'" "s = Ok" by auto
  then show ?case using destroy_link [OF ok] destroyed(4) by simp
next
  case (reconnected v env)
  have "outside_link (snd (reconnect env v)) = outside_link v" by simp
  note o = outsideD [OF this]
  have "vmem_ok (snd (reconnect env v))" using vmem_ok_cong [OF o] reconnected.IH by simp
  moreover have "link_ok (snd (reconnect env v))"
    by (rule reconnect_link(1)) (use reconnected.IH vmem_okD(1) in simp_all)
  ultimately show ?case by simp
next
  case (written v va rc x)
  have "core (made (EWrite va x) v) = core v" by simp
  then have "link_ok (made (EWrite va x) v)" using silent_link_ok [of v] written.IH by simp
  then show ?case using write_ok written by blast
qed

end
