(* ===== verification/Broker_Resync.thy ===== *)
theory Broker_Resync
  imports Broker_Sync
begin

text \<open>
  Facts the tenant reports and the broker cannot refuse: rebuilding a tenant's table by Resync after
  the broker restarted, usage that passes a limit (K4), and the one Resync that breaks the accounts.
\<close>

section \<open>Rebuilding a table\<close>

definition resync_msgs :: "(u64 \<times> ChunkRec) list \<Rightarrow> Msg list" where
  "resync_msgs m = map (\<lambda>(p, c). msg Resync (cr_loc c) p (cr_size c)) m"

definition handle_all :: "fd \<Rightarrow> Msg list \<Rightarrow> Handler \<Rightarrow> Handler" where
  "handle_all fd ms = fold (handle fd True) ms"

lemma handle_all_simps [simp]:
  "handle_all fd [] h = h"
  "handle_all fd (m # ms) h = handle_all fd ms (handle fd True m h)"
  "handle_all fd (ms @ ms') h = handle_all fd ms' (handle_all fd ms h)"
  by (simp_all add: handle_all_def)

lemma resync_new:
  assumes "map_of (chunks h) p = None" and "om_ok (chunks h @ [(p, c)])"
  shows "chunks (handle fd ok (msg Resync (cr_loc c) p (cr_size c)) h) = chunks h @ [(p, c)]"
    and "moving (handle fd ok (msg Resync (cr_loc c) p (cr_size c)) h) = moving h"
    and "used (handle fd ok (msg Resync (cr_loc c) p (cr_size c)) h) l
      = used h l + (if cr_loc c = l then cr_size c else 0)"
    and "all_used (handle fd ok (msg Resync (cr_loc c) p (cr_size c)) h) l
      = all_used h l + (if cr_loc c = l then cr_size c else 0)"
  using assms by (cases c; simp add: handle_state handle_resync_def Let_def om_put_snoc)+

lemma chunk_bytes_snoc: "chunk_bytes (m @ [(p, c)]) l = chunk_bytes m l + (if cr_loc c = l then cr_size c else 0)"
  by (simp add: chunk_bytes_def om_sum_def)

lemma resync_list:
  assumes "chunks h = []" and "om_ok m"
  shows "chunks (handle_all fd (resync_msgs m) h) = m \<and>
    moving (handle_all fd (resync_msgs m) h) = moving h \<and>
    used (handle_all fd (resync_msgs m) h) l = used h l + chunk_bytes m l \<and>
    all_used (handle_all fd (resync_msgs m) h) l = all_used h l + chunk_bytes m l"
  using assms(2)
proof (induction m rule: rev_induct)
  case Nil
  then show ?case using assms(1) by (simp add: resync_msgs_def chunk_bytes_def)
next
  case (snoc e m)
  obtain p c where e: "e = (p, c)" by (cases e)
  let ?k = "handle_all fd (resync_msgs m) h"
  have IH: "chunks ?k = m" "moving ?k = moving h" "used ?k l = used h l + chunk_bytes m l"
    "all_used ?k l = all_used h l + chunk_bytes m l"
    using snoc.IH om_ok_append [OF snoc.prems] by simp_all
  have new: "map_of (chunks ?k) p = None"
    using om_ok_distinct [OF snoc.prems] by (simp add: IH(1) e map_of_eq_None_iff)
  have "resync_msgs (m @ [e]) = resync_msgs m @ [msg Resync (cr_loc c) p (cr_size c)]"
    by (simp add: resync_msgs_def e)
  then show ?case
    using resync_new [OF new] snoc.prems IH by (simp add: e chunk_bytes_snoc)
qed

text \<open>
  C14. Resync rebuilds the accounts. When a tenant whose chunks are \<open>m\<close> says Hello on a fresh
  connection (empty table, no move, not greeted yet) and reports each chunk, the broker's table for
  it is exactly \<open>m\<close> in the same order, no move is in flight, and its counts and the machine's have
  grown by the context overhead and by the chunks' bytes, location by location.
\<close>

theorem resync_rebuilds_table:
  assumes "om_ok m" and "chunks h = []" and "moving h = None" and "\<not> hello h"
    and "h' = handle_all fd (msg Hello Device 0 0 # resync_msgs m) h"
  shows "chunks h' = m \<and> moving h' = None \<and>
    used h' l = used h l + overhead (ctx h) True l + chunk_bytes m l \<and>
    all_used h' l = all_used h l + overhead (ctx h) True l + chunk_bytes m l"
proof -
  let ?k = "handle fd True (msg Hello Device 0 0) h"
  have k: "chunks ?k = []" "moving ?k = None"
    using assms(2,3) by (simp_all add: handle_state chunks_hello handle_hello_def Let_def)
  have "used ?k l = used h l + overhead (ctx h) True l"
    "all_used ?k l = all_used h l + overhead (ctx h) True l"
    using assms(4) by (simp_all add: handle_state handle_hello_def Let_def overhead_def used_bytes_def
        all_used_bytes_def count_setters)
  with resync_list [OF k(1) assms(1), of fd l] k(2) show ?thesis
    by (simp add: assms(5))
qed

theorem resync_rebuilds_table_witness:
  "used (handle_all 5 (msg Hello Device 0 0 # resync_msgs [(0x200000, \<lparr>cr_size = 0x400000, cr_loc = Host\<rparr>)])
     (demo_handler\<lparr>h_tenant := new_tenant\<rparr>)) Host = 0x400000"
proof -
  have "om_ok [(0x200000 :: u64, \<lparr>cr_size = 0x400000, cr_loc = Host\<rparr>)]" by (simp add: om_ok_def)
  from resync_rebuilds_table [OF this _ _ _ refl, of "demo_handler\<lparr>h_tenant := new_tenant\<rparr>" 5 Host]
  show ?thesis by (simp add: new_tenant_def overhead_def chunk_bytes_def used_bytes_def)
qed

definition strand_msgs :: "Msg list" where
  "strand_msgs = [msg Alloc Device 0x200000 0x400000, msg Move Host 0x200000 0,
     msg Resync Host 0x200000 0x800000, msg MoveDone Host 0x200000 0, msg Free Host 0x200000 0]"

text \<open>
  The limit of the accounting. The accounting property's guard is needed: a tenant allocates 4 MiB, gets a move to
  the host granted, reports the same chunk by Resync as 8 MiB on the host, then finishes the move and
  frees the chunk. Its table is empty and no move is in flight, yet its host count and the machine's
  are \<open>2^64 - 4 MiB\<close> instead of 0, so no later request fits on the host.
\<close>

theorem resync_strands_reservation:
  "(let h = handle_all 5 strand_msgs demo_handler in
     chunks h = [] \<and> moving h = None \<and>
     used h Host = 0xFFFFFFFFFFC00000 \<and> all_used h Host = 0xFFFFFFFFFFC00000 \<and>
     \<not> fits_limit h Host 0x200000)"
  by (simp add: strand_msgs_def handle_def dispatch_def handler_defs Let_def reply_def say_def
      debug_state_def dlog_def update_count_def put_chunk_def set_moving_def erase_chunk_def
      check_over_limit_def fits_limit_def demo_handler_eval)

section \<open>Over the limit\<close>

text \<open>The location at which a report puts bytes of a chunk that the broker did not count there before.\<close>

definition gains :: "Msg \<Rightarrow> Handler \<Rightarrow> Loc option" where
  "gains m h =
     (case (m_type m, map_of (chunks h) (m_ptr m)) of
        (AllocFail, Some c) \<Rightarrow> if cr_loc c = Device then Some Host else None
      | (MoveDone, Some c) \<Rightarrow> if cr_loc c \<noteq> m_loc m then Some (m_loc m) else None
      | (Resync, _) \<Rightarrow> Some (m_loc m)
      | _ \<Rightarrow> None)"

definition over_limit :: "Loc \<Rightarrow> Handler \<Rightarrow> bool" where
  "over_limit l h \<longleftrightarrow> tenant_limit (h_tenant h) l < used h l \<or> global_limit (h_global h) l < all_used h l"

text \<open>How often the log has reported usage over the limit at \<open>l\<close>.\<close>

definition is_warning :: "Loc \<Rightarrow> LogLine \<Rightarrow> bool" where
  "is_warning l x = (case x of LOverLimit l' _ _ _ _ \<Rightarrow> l' = l | _ \<Rightarrow> False)"

definition warnings :: "Loc \<Rightarrow> Handler \<Rightarrow> nat" where
  "warnings l h = length (filter (is_warning l) (h_log h))"

lemma is_warning_simps [simp]:
  "is_warning l (LOverLimit l' p a b c) \<longleftrightarrow> l' = l" "\<not> is_warning l (LAllocHeld p q)"
  "\<not> is_warning l (LAllocRefused p q)" "\<not> is_warning l (LAlloc p q k)" "\<not> is_warning l (LAllocFailUnknown p q)"
  "\<not> is_warning l (LAllocFailOnHost p q)" "\<not> is_warning l (LAllocFail p q)" "\<not> is_warning l (LMoveUnknown p q)"
  "\<not> is_warning l (LMoveBusy p q r)" "\<not> is_warning l (LMoveRefused p q k)" "\<not> is_warning l (LMove p q k k')"
  "\<not> is_warning l (LMoveDoneUnknown p q)" "\<not> is_warning l (LMoveDoneUngranted p q k)"
  "\<not> is_warning l (LMoveDoneFailed p q k)" "\<not> is_warning l (LResyncHeld p q)" "\<not> is_warning l (LResync p q k)"
  "\<not> is_warning l (LFreeUnknown p q)" "\<not> is_warning l (LFreeMoving p q)" "\<not> is_warning l (LFree p q k)"
  "\<not> is_warning l (LHello p n)" "\<not> is_warning l (LUnhandled p w)" "\<not> is_warning l (LState p a b c d)"
  "\<not> is_warning l (LReplyFailed f)"
  by (simp_all add: is_warning_def)

lemma warnings_say [simp]: "warnings l (say x h) = warnings l h + (if is_warning l x then 1 else 0)"
  by (simp add: warnings_def say_def)

lemma warnings_frame [simp]:
  "warnings l (update_count l' n a h) = warnings l h" "warnings l (put_chunk p c h) = warnings l h"
  "warnings l (set_moving mv h) = warnings l h" "warnings l (erase_chunk p h) = warnings l h"
  "warnings l (dlog (LState p' a' b' c' d') h) = warnings l h"
  "warnings l (h\<lparr>h_tenant := t\<rparr>) = warnings l h"
  by (simp_all add: warnings_def update_count_def put_chunk_def set_moving_def erase_chunk_def dlog_def
      say_def Let_def)

lemma warnings_reply [simp]: "warnings l (reply fd ok s k h) = warnings l h"
  by (simp add: reply_def) (simp add: warnings_def)

lemma warnings_debug_state [simp]: "warnings l (debug_state h) = warnings l h"
  by (simp add: debug_state_def Let_def)

lemma warnings_check [simp]:
  "warnings l (check_over_limit l' h) = warnings l h + (if l' = l \<and> over_limit l h then 1 else 0)"
  by (auto simp: check_over_limit_def over_limit_def Let_def)

lemma over_limit_frame [simp]:
  "over_limit l (say x h) = over_limit l h" "over_limit l (check_over_limit l' h) = over_limit l h"
  "over_limit l (debug_state h) = over_limit l h"
  by (simp_all add: over_limit_def)

lemma warnings_alloc: "warnings l (snd (snd (handle_alloc sz p s k h))) = warnings l h"
  by (simp add: handle_alloc_def Let_def split: option.split)

lemma warnings_move: "warnings l (snd (handle_move p to h)) = warnings l h"
  by (simp add: handle_move_def Let_def split: option.split prod.split)

lemma warnings_release_move [simp]: "warnings l (release_move p at c h) = warnings l h"
  by (simp add: release_move_def Let_def split: option.split prod.split)

lemma warnings_free: "warnings l (handle_free p h) = warnings l h"
  by (simp add: handle_free_def drop_move_def Let_def split: option.split prod.split)

lemma warnings_hello: "warnings l (handle_hello n h) = warnings l h"
  by (simp add: handle_hello_def Let_def)

text \<open>
  Reports over the limit (K4). AllocFail, MoveDone and Resync are recorded whatever the limits
  say; the broker then logs one warning exactly when the message put a chunk's bytes at a location
  where they were not counted before and the tenant or the machine is now over its limit there. No
  other message logs such a warning.
\<close>

theorem over_limit_is_logged:
  "warnings l (handle fd ok m h) =
     warnings l h + (if gains m h = Some l \<and> over_limit l (handle fd ok m h) then 1 else 0)"
proof (cases "m_type m")
  case Alloc
  then show ?thesis
    using warnings_alloc [of l "m_size m" "m_ptr m" NoMemory Host h]
    by (auto simp: handle_def dispatch_def gains_def split: prod.split)
next
  case AllocFail
  then show ?thesis
    by (auto simp: handle_def dispatch_def gains_def handle_alloc_fail_def Let_def split: option.split)
next
  case Move
  then show ?thesis
    using warnings_move [of l "m_ptr m" "m_loc m" h]
    by (auto simp: handle_def dispatch_def gains_def split: prod.split)
next
  case MoveDone
  then show ?thesis
    by (auto simp: handle_def dispatch_def gains_def handle_move_done_def record_location_def split: option.split)
next
  case Resync
  then show ?thesis
    by (auto simp: handle_def dispatch_def gains_def handle_resync_def Let_def split: option.split)
qed (simp_all add: handle_def dispatch_def gains_def warnings_free warnings_hello)

end
