(* ===== verification/Vmem_Broker.thy ===== *)
theory Vmem_Broker
  imports Vmem_Link Broker_Resync
begin

text \<open>
  One client and the broker: the invariants of a backend session, and the agreement of the two tables
  and of the two sets of counters when the broker's handlers answer the backend's messages.
\<close>

text \<open>
  C9. Backend invariants (B1, B2, B5). In every state of a session, whatever the driver and the broker
  answered: every live chunk is one reserved range, mapped read/write over its whole size to its own
  handle at the recorded place; nothing else is reserved, mapped or alive; \<open>used\<close> is the sum of the
  live chunks per location; and while the link is connected, the table that the backend's messages
  and the replies add up to is exactly its own table.
\<close>

theorem session_invariants:
  assumes "session v"
  shows "(\<forall>va rc. vmap v va = Some rc \<longrightarrow> va \<noteq> 0 \<and> backed v va rc) \<and>
    (\<forall>va. (d_reserved (D v) va \<noteq> None \<or> d_mapped (D v) va \<noteq> None) \<longrightarrow> vmap v va \<noteq> None) \<and>
    (\<forall>h. d_handles (D v) h \<noteq> None \<longrightarrow> (\<exists>!va. \<exists>rc. vmap v va = Some rc \<and> r_h rc = h)) \<and>
    vmem_used_at v l = rec_bytes (v_chunks v) l \<and>
    (v_link v = Connected \<longrightarrow> peer (v_calls v) = (own_table v, None))"
proof -
  have ok: "vmem_ok v" "link_ok v" using session_ok [OF assms] by simp_all
  note k = vmem_okD [OF ok(1)]
  have h: "\<exists>!va. \<exists>rc. vmap v va = Some rc \<and> r_h rc = h" if "d_handles (D v) h \<noteq> None" for h
    using that k(8,9) by (metis option.exhaust)
  show ?thesis
    using ok k(10) h unfolding vmem_ok_def link_ok_def vmem_used_at_def by blast
qed

section \<open>The broker at the other end\<close>

text \<open>
  \<open>broker_follows hs h r\<close>: \<open>h\<close> is what the broker's handlers see of this tenant after it processed
  the messages of the history \<open>hs\<close>; \<open>r\<close> is the reply it has sent and the tenant has not read yet.
  Between any two steps other tenants may change the global counts, the log and the replies sent.
\<close>

inductive broker_follows :: "history \<Rightarrow> Handler \<Rightarrow> Reply option \<Rightarrow> bool" where
  start: "chunks h = [] \<Longrightarrow> broker_follows [] h None"
| others: "broker_follows hs h r \<Longrightarrow>
    broker_follows hs (h\<lparr>h_global := g, h_log := ls, h_sent := ss\<rparr>) r"
| connect: "broker_follows hs h r \<Longrightarrow>
    broker_follows (hs @ [EConnect fd 0])
      (h\<lparr>h_tenant := new_tenant\<lparr>t_pid := pid, t_connected := now\<rparr>\<rparr>) None"
| message: "broker_follows hs h None \<Longrightarrow>
    broker_follows (hs @ [ESend fd m 0]) (handle sock ok m h) (if request m then Some (answer m h) else None)"
| received: "broker_follows hs h (Some rep) \<Longrightarrow> broker_follows (hs @ [ERecv fd (RecvReply rep)]) h None"
| other_call: "broker_follows hs h r \<Longrightarrow> peer_step e = (\<lambda>p. p) \<Longrightarrow> broker_follows (hs @ [e]) h r"

inductive_cases broker_followsE: "broker_follows hs h r"

lemma om_ok_handle: "om_ok (chunks h) \<Longrightarrow> om_ok (chunks (handle fd ok m h))"
  by (cases "m_type m")
    (auto simp: handle_state handle_alloc_def handle_alloc_fail_def chunks_move handle_move_done_def
      record_location_def chunks_release_move chunks_resync handle_free_def chunks_drop_move chunks_hello
      Let_def om_simps split: option.split)

lemma table_step:
  "om_ok (chunks h) \<Longrightarrow> map_of (chunks (handle fd ok m h)) = table_after m (answer m h) (map_of (chunks h))"
proof (cases "m_type m")
  case Alloc
  assume "om_ok (chunks h)"
  obtain s l h' where e: "handle_alloc (m_size m) (m_ptr m) NoMemory Host h = (s, l, h')"
    by (metis prod_cases3)
  with Alloc chunks_alloc [OF e] show ?thesis by (simp add: handle_state table_after_def answer_def)
next
  case Move
  assume "om_ok (chunks h)"
  with Move show ?thesis by (simp add: handle_state table_after_def chunks_move)
qed (simp_all add: handle_state table_after_def chunks_alloc_fail chunks_move_done chunks_resync
  chunks_free chunks_hello om_simps)

lemma report_ignores_reply: "\<not> request m \<Longrightarrow> table_after m r T = table_after m r' T"
  by (cases "m_type m") (simp_all add: table_after_def request_def)

lemma follows_peer:
  "broker_follows hs h r \<Longrightarrow> om_ok (chunks h) \<and>
     (case r of
        None \<Rightarrow> peer hs = (map_of (chunks h), None)
      | Some rep \<Rightarrow> \<exists>m. snd (peer hs) = Some m \<and> map_of (chunks h) = table_after m rep (fst (peer hs)))"
proof (induction rule: broker_follows.induct)
  case (start h)
  then show ?case by (simp add: peer_def)
next
  case (message hs h fd m sock ok)
  then show ?case
    using om_ok_handle [of h sock ok m] table_step [of h sock ok m]
      report_ignores_reply [of m any_reply _ "answer m h"]
    by simp
next
  case (connect hs h r fd pid now)
  then show ?case by (simp add: new_tenant_def)
next
  case (received hs h rep fd)
  then show ?case by (auto split: option.splits)
qed (auto split: option.splits)

text \<open>The same chunks, so the same bytes.\<close>

lemma chunk_bytes_own:
  assumes "om_ok m" and "om_ok m'" and "map_of m = map_option f \<circ> map_of m'"
    and "\<And>rc. cr_size (f rc) = r_size rc" and "\<And>rc. cr_loc (f rc) = r_locn rc"
  shows "chunk_bytes m l = rec_bytes m' l"
proof -
  have d: "dom (map_of m) = dom (map_of m')" by (auto simp: assms(3))
  have "chunk_bytes m l = (\<Sum>k\<in>dom (map_of m). (\<lambda>c. if cr_loc c = l then cr_size c else 0) (the (map_of m k)))"
    unfolding chunk_bytes_def om_sum_def by (rule om.sum_entries [OF assms(1)])
  also have "\<dots> = (\<Sum>k\<in>dom (map_of m'). (\<lambda>rc. if r_locn rc = l then r_size rc else 0) (the (map_of m' k)))"
    unfolding d by (rule sum.cong) (auto simp: assms(3-5))
  also have "\<dots> = rec_bytes m' l"
    unfolding rec_bytes_def om_sum_def by (rule om.sum_entries [OF assms(2), symmetric])
  finally show ?thesis .
qed

text \<open>
  C8. Backend and broker agree (B5 with K1 and B2). Take a session whose messages were handled by the
  broker, with other tenants active in between. While the link is connected, the broker's table for
  this tenant is the backend's table of chunks, no reply is outstanding, and at each location the
  tenant's count is the context overhead plus the backend's \<open>used\<close> plus what an unfinished move
  reserves.
\<close>

theorem backend_and_broker_agree:
  assumes "session v" and "v_link v = Connected" and "broker_follows (v_calls v) h r"
    and "tenant_ok ov (h_tenant h)"
  shows "map_of (chunks h) = own_table v \<and> r = None \<and>
    used h l = overhead ov (hello h) l + vmem_used_at v l + reserved (moving h) (chunks h) l"
proof -
  have ok: "vmem_ok v" "link_ok v" using session_ok [OF assms(1)] by simp_all
  have p: "peer (v_calls v) = (own_table v, None)" using ok(2) assms(2) by (simp add: link_ok_def)
  have f: "om_ok (chunks h)" "r = None" "map_of (chunks h) = own_table v"
    using follows_peer [OF assms(3)] p by (auto split: option.splits)
  have "chunk_bytes (chunks h) l = rec_bytes (v_chunks v) l"
    by (rule chunk_bytes_own [OF f(1) vmem_okD(1) [OF ok(1)] f(3) [unfolded own_table_def]]) simp_all
  then show ?thesis
    using f assms(4) vmem_okD(10) [OF ok(1), of l] by (simp add: tenant_ok_def vmem_used_at_def)
qed

section \<open>A concrete session\<close>

text \<open>Open with a broker, then one chunk of 2 MiB.\<close>

definition demo_config :: BackendConfig where
  "demo_config = \<lparr>bc_device = 0, bc_daemon = Some ''/tmp/vmemd.sock'', bc_name = Some ''app'', bc_auto = False\<rparr>"

definition demo_opened :: Vmem where
  "demo_opened = snd (vmem_open (demo_env False) demo_config new_vmem)"

definition demo_session :: Vmem where
  "demo_session = snd (snd (vmem_create (demo_env False) 0x200000 null_chunk demo_opened))"

lemma demo_session: "session demo_session"
proof -
  have "fst (vmem_open (demo_env False) demo_config new_vmem) = Ok" by code_simp
  then have "session demo_opened"
    unfolding demo_opened_def by (metis prod.collapse session.opened)
  then show ?thesis
    unfolding demo_session_def by (metis demo_env_ok prod.collapse session.created)
qed

lemma demo_link: "v_link demo_session = Connected"
  by code_simp

lemma demo_calls: "v_calls demo_session =
   [ESocket 7 0, EConnect 7 0, ESend 7 (hello_msg ''app'') 0, ERecv 7 (RecvReply any_reply),
    EReserve 0x200000 CUDA_SUCCESS 0x7f0000800000, ESend 7 (msg Alloc Device 0x7f0000800000 0x200000) 0,
    ERecv 7 (RecvReply any_reply), ECreate 0x200000 \<lparr>p_type = LocDevice, p_id = 0\<rparr> CUDA_SUCCESS 7,
    EMap 0x7f0000800000 0x200000 7 CUDA_SUCCESS, ESetAccess 0x7f0000800000 0x200000 0 CUDA_SUCCESS]"
  by code_simp

theorem session_invariants_witness:
  "v_link demo_session = Connected \<and> vmem_used_at demo_session Device = rec_bytes (v_chunks demo_session) Device \<and>
   peer (v_calls demo_session) = (own_table demo_session, None)"
  using session_invariants [OF demo_session] demo_link by simp

lemma demo_follows:
  "\<exists>h. broker_follows (v_calls demo_session) h None \<and> tenant_ok 0x400000 (h_tenant h) \<and> hello h \<and> moving h = None"
proof -
  let ?n = "new_tenant\<lparr>t_pid := 100, t_connected := 0\<rparr>"
  define h0 where "h0 = demo_handler\<lparr>h_tenant := ?n\<rparr>"
  define h1 where "h1 = handle 5 True (hello_msg ''app'') h0"
  let ?a = "msg Alloc Device 0x7f0000800000 0x200000"
  define h2 where "h2 = handle 5 True ?a h1"
  have hello_m: "m_type (hello_msg n) = Hello" "request (hello_msg n)" for n
    by (simp_all add: hello_msg_def request_def Let_def)
  have t1: "h_tenant h1 = h_tenant (handle_hello (m_name (hello_msg ''app'')) h0)"
    "h_global h1 = h_global (handle_hello (m_name (hello_msg ''app'')) h0)"
    by (simp_all add: h1_def handle_state hello_m)
  have f1: "chunks h1 = []" "moving h1 = None" "hello h1"
    by (simp_all add: t1 handle_hello_def Let_def h0_def new_tenant_def)
  have u: "used h1 Device = 0x400000" "all_used h1 Device = 0x800000"
    "tenant_limit (h_tenant h1) Device = UNLIMITED" "global_limit (h_global h1) Device = 0x1000000"
    by (simp_all add: t1 handle_hello_def Let_def h0_def count_setters demo_handler_eval)
  have a1: "answer (hello_msg ''app'') h0 = any_reply" by (simp add: answer_def hello_m any_reply_def)
  have fits: "fits_limit h1 Device 0x200000" by (simp add: fits_limit_def u UNLIMITED_def)
  then have a2: "answer ?a h1 = any_reply"
    by (simp add: answer_def handle_alloc_def Let_def f1 any_reply_def)
  have t2: "h_tenant h2 = h_tenant (snd (snd (handle_alloc 0x200000 0x7f0000800000 NoMemory Host h1)))"
    by (simp add: h2_def handle_state)
  have f2: "moving h2 = None" "hello h2"
    using fits f1 by (simp_all add: t2 handle_alloc_def Let_def)
  have "tenant_ok 0x400000 (h_tenant h0)" using new_tenant_ok by (simp add: h0_def)
  moreover have "ctx h0 = 0x400000" by (simp add: h0_def demo_handler_eval)
  ultimately have "tenant_ok 0x400000 (h_tenant h1)" "ctx h1 = 0x400000"
    using hello_keeps_tenant [of h0] by (simp_all add: h1_def handle_state hello_m hello_balance)
  then have ok: "tenant_ok 0x400000 (h_tenant h2)"
    using alloc_keeps_tenant [of h1] by (simp add: t2)
  have "broker_follows [] demo_handler None" by (rule broker_follows.start) (simp add: demo_handler_eval)
  from other_call [OF this, of "ESocket 7 0"]
  have "broker_follows [ESocket 7 0] demo_handler None" by simp
  from connect [where fd = 7 and pid = 100 and now = 0, OF this]
  have "broker_follows [ESocket 7 0, EConnect 7 0] h0 None" by (simp add: h0_def)
  from message [OF this, of 7 "hello_msg ''app''" 5 True]
  have "broker_follows [ESocket 7 0, EConnect 7 0, ESend 7 (hello_msg ''app'') 0] h1 (Some any_reply)"
    by (simp add: hello_m a1 h1_def)
  from other_call [OF received [OF this, of 7], of "EReserve 0x200000 CUDA_SUCCESS 0x7f0000800000"]
  have "broker_follows [ESocket 7 0, EConnect 7 0, ESend 7 (hello_msg ''app'') 0, ERecv 7 (RecvReply any_reply),
      EReserve 0x200000 CUDA_SUCCESS 0x7f0000800000] h1 None" by simp
  from message [OF this, of 7 ?a 5 True]
  have "broker_follows [ESocket 7 0, EConnect 7 0, ESend 7 (hello_msg ''app'') 0, ERecv 7 (RecvReply any_reply),
      EReserve 0x200000 CUDA_SUCCESS 0x7f0000800000, ESend 7 ?a 0] h2 (Some any_reply)"
    by (simp add: request_def a2 h2_def)
  from other_call [OF other_call [OF other_call [OF received [OF this, of 7]]],
    of "ECreate 0x200000 \<lparr>p_type = LocDevice, p_id = 0\<rparr> CUDA_SUCCESS 7" "EMap 0x7f0000800000 0x200000 7 CUDA_SUCCESS"
      "ESetAccess 0x7f0000800000 0x200000 0 CUDA_SUCCESS"]
  have "broker_follows (v_calls demo_session) h2 None" by (simp add: demo_calls)
  then show ?thesis using ok f2 by blast
qed

theorem backend_and_broker_agree_witness:
  "\<exists>h. broker_follows (v_calls demo_session) h None \<and> map_of (chunks h) = own_table demo_session \<and>
     used h Device = 0x400000 + vmem_used_at demo_session Device"
proof -
  obtain h where h: "broker_follows (v_calls demo_session) h None" "tenant_ok 0x400000 (h_tenant h)" "hello h" "moving h = None"
    using demo_follows by blast
  from backend_and_broker_agree [OF demo_session demo_link h(1,2), of Device] h
  show ?thesis by (intro exI [of _ h]) (simp add: overhead_def reserved_def)
qed

end
