(* ===== verification/Backends.thy ===== *)
theory Backends
  imports Vmem_Props
begin

text \<open>
  The backend interface (\<open>libvmem/src/backend.h\<close>) and its three implementations: the \<open>cuda\<close> and
  \<open>uvm\<close> backends (\<open>backends/cuda.h\<close>, \<open>backends/uvm.h\<close>) are modelled here, the \<open>vmem\<close> backend in
  \<open>Vmem_Backend\<close>. The virtual calls are a record of functions; the locale \<open>backend\<close> states what the
  allocator relies on, and it is interpreted on the dispatch to the three implementations.
\<close>

section \<open>The CUDA runtime\<close>

datatype cudaError = cudaSuccess | cudaErrorMemoryAllocation | cudaErrorOther nat

datatype rtcall =
    RMalloc u64 cudaError u64          \<comment> \<open>cudaMalloc: size, result, pointer\<close>
  | RMallocManaged u64 cudaError u64   \<comment> \<open>cudaMallocManaged\<close>
  | RFree u64 cudaError                \<comment> \<open>cudaFree\<close>
  | RPrefetch u64 u64 Loc int cudaError \<comment> \<open>cudaMemPrefetchAsync: pointer, size, target type and id\<close>
  | RStreamSync cudaError              \<comment> \<open>cudaStreamSynchronize\<close>
  | RGetLastError                      \<comment> \<open>cudaGetLastError\<close>

type_synonym rthistory = "rtcall list"

record RtEnv =
  rt_set_device :: "int \<Rightarrow> cudaError"
  rt_context :: cudaError
  rt_managed :: "int \<Rightarrow> cudaError \<times> int"
  rt_error_string :: "cudaError \<Rightarrow> string"
  rt_malloc :: "rthistory \<Rightarrow> u64 \<Rightarrow> cudaError \<times> u64"
  rt_malloc_managed :: "rthistory \<Rightarrow> u64 \<Rightarrow> cudaError \<times> u64"
  rt_free :: "rthistory \<Rightarrow> u64 \<Rightarrow> cudaError"
  rt_prefetch :: "rthistory \<Rightarrow> u64 \<Rightarrow> u64 \<Rightarrow> Loc \<Rightarrow> int \<Rightarrow> cudaError"
  rt_stream_sync :: "rthistory \<Rightarrow> cudaError"

text \<open>The allocations that are live after a history.\<close>

fun rt_apply :: "rtcall \<Rightarrow> (u64 \<Rightarrow> u64 option) \<Rightarrow> u64 \<Rightarrow> u64 option" where
  "rt_apply (RMalloc n r p) m = (if r = cudaSuccess then m(p \<mapsto> n) else m)"
| "rt_apply (RMallocManaged n r p) m = (if r = cudaSuccess then m(p \<mapsto> n) else m)"
| "rt_apply (RFree p r) m = (if r = cudaSuccess then m(p := None) else m)"
| "rt_apply _ m = m"

definition rt_live :: "rthistory \<Rightarrow> u64 \<Rightarrow> u64 option" where
  "rt_live hs = fold rt_apply hs (\<lambda>_. None)"

lemma rt_live_append [simp]: "rt_live (hs @ es) = fold rt_apply es (rt_live hs)"
  by (simp add: rt_live_def)

text \<open>What the documentation promises: a new allocation of a positive size overlaps no live one.\<close>

definition rt_fresh :: "rthistory \<Rightarrow> u64 \<Rightarrow> u64 \<Rightarrow> bool" where
  "rt_fresh hs n p \<longleftrightarrow> p \<noteq> 0 \<and> rt_live hs p = None \<and> unat p + unat n < 2 ^ 64 \<and>
     (\<forall>a m. rt_live hs a = Some m \<longrightarrow> apart a m p n)"

definition rt_well_behaved :: "RtEnv \<Rightarrow> bool" where
  "rt_well_behaved env \<longleftrightarrow>
     (\<forall>hs n p. n \<noteq> 0 \<longrightarrow>
        (rt_malloc env hs n = (cudaSuccess, p) \<longrightarrow> rt_fresh hs n p) \<and>
        (rt_malloc_managed env hs n = (cudaSuccess, p) \<longrightarrow> rt_fresh hs n p))"

section \<open>The cuda backend\<close>

record Cuda =
  k_used :: u64
  k_err :: string
  k_calls :: rthistory

definition k_made :: "rtcall \<Rightarrow> Cuda \<Rightarrow> Cuda" where
  "k_made e b = b\<lparr>k_calls := k_calls b @ [e]\<rparr>"

definition k_ok :: "RtEnv \<Rightarrow> cudaError \<Rightarrow> string \<Rightarrow> Cuda \<Rightarrow> bool \<times> Cuda" where
  "k_ok env e what b =
     (if e = cudaSuccess then (True, b)
      else (False, b\<lparr>k_err := what @ '': '' @ rt_error_string env e\<rparr>))"

definition cuda_open :: "RtEnv \<Rightarrow> BackendConfig \<Rightarrow> Cuda \<Rightarrow> Status \<times> Cuda" where
  "cuda_open env c b =
     (let (ok, b) = k_ok env (rt_set_device env (bc_device c)) ''cudaSetDevice'' b
      in if \<not> ok then (Fatal, b)
         else (let (ok, b) = k_ok env (rt_context env) ''context init'' b
               in (if ok then Ok else Fatal, b)))"

definition cuda_create :: "RtEnv \<Rightarrow> u64 \<Rightarrow> Chunk \<Rightarrow> Cuda \<Rightarrow> Status \<times> Chunk \<times> Cuda" where
  "cuda_create env n out b =
     (let (e, p) = rt_malloc env (k_calls b) n;
          b = k_made (RMalloc n e p) b
      in if e = cudaErrorMemoryAllocation
         then (NoMemory, out, (k_made RGetLastError b)\<lparr>k_err := ''cudaMalloc: out of memory''\<rparr>)
         else
           (let (ok, b) = k_ok env e ''cudaMalloc'' b
            in if \<not> ok then (Fatal, out, b)
               else (Ok, \<lparr>c_ptr = p, c_size = n, c_loc = Device\<rparr>, b\<lparr>k_used := k_used b + n\<rparr>)))"

definition cuda_destroy :: "RtEnv \<Rightarrow> Chunk \<Rightarrow> Cuda \<Rightarrow> Status \<times> Chunk \<times> Cuda" where
  "cuda_destroy env c b =
     (let e = rt_free env (k_calls b) (c_ptr c);
          (ok, b) = k_ok env e ''cudaFree'' (k_made (RFree (c_ptr c) e) b)
      in if \<not> ok then (Fatal, c, b) else (Ok, null_chunk, b\<lparr>k_used := k_used b - c_size c\<rparr>))"

definition cuda_move :: "Chunk \<Rightarrow> Loc \<Rightarrow> Status" where
  "cuda_move c to = (if c_loc c = to then Ok else Unsupported)"

definition cuda_used_at :: "Loc \<Rightarrow> Cuda \<Rightarrow> u64" where
  "cuda_used_at l b = (if l = Device then k_used b else 0)"

section \<open>The uvm backend\<close>

record Uvm =
  u_dev :: int
  u_used :: u64
  u_err :: string
  u_calls :: rthistory

definition u_made :: "rtcall \<Rightarrow> Uvm \<Rightarrow> Uvm" where
  "u_made e b = b\<lparr>u_calls := u_calls b @ [e]\<rparr>"

definition u_ok :: "RtEnv \<Rightarrow> cudaError \<Rightarrow> string \<Rightarrow> Uvm \<Rightarrow> bool \<times> Uvm" where
  "u_ok env e what b =
     (if e = cudaSuccess then (True, b)
      else (False, b\<lparr>u_err := what @ '': '' @ rt_error_string env e\<rparr>))"

text \<open>Out of memory is not sticky; anything else is fatal.\<close>

definition u_fail :: "RtEnv \<Rightarrow> cudaError \<Rightarrow> string \<Rightarrow> Uvm \<Rightarrow> Status \<times> Uvm" where
  "u_fail env e what b =
     (let (ok, b) = u_ok env e what b
      in if ok then (Ok, b)
         else if e \<noteq> cudaErrorMemoryAllocation then (Fatal, b)
         else (NoMemory, u_made RGetLastError b))"

definition uvm_open :: "RtEnv \<Rightarrow> BackendConfig \<Rightarrow> Uvm \<Rightarrow> Status \<times> Uvm" where
  "uvm_open env c b =
     (let b = b\<lparr>u_dev := bc_device c\<rparr>;
          (ok, b) = u_ok env (rt_set_device env (u_dev b)) ''cudaSetDevice'' b
      in if \<not> ok then (Fatal, b)
         else
           (let (e, managed) = rt_managed env (u_dev b);
                (ok, b) = u_ok env e ''managed memory attribute'' b
            in if \<not> ok then (Fatal, b)
               else if managed = 0
                 then (Unsupported, b\<lparr>u_err := ''device does not support managed memory''\<rparr>)
               else (let (ok, b) = u_ok env (rt_context env) ''context init'' b
                     in (if ok then Ok else Fatal, b))))"

definition uvm_create :: "RtEnv \<Rightarrow> u64 \<Rightarrow> Chunk \<Rightarrow> Uvm \<Rightarrow> Status \<times> Chunk \<times> Uvm" where
  "uvm_create env n out b =
     (let (e, p) = rt_malloc_managed env (u_calls b) n;
          (s, b) = u_fail env e ''cudaMallocManaged'' (u_made (RMallocManaged n e p) b)
      in if s \<noteq> Ok then (s, out, b)
         else (Ok, \<lparr>c_ptr = p, c_size = n, c_loc = Device\<rparr>, b\<lparr>u_used := u_used b + n\<rparr>))"

definition uvm_destroy :: "RtEnv \<Rightarrow> Chunk \<Rightarrow> Uvm \<Rightarrow> Status \<times> Chunk \<times> Uvm" where
  "uvm_destroy env c b =
     (let e = rt_free env (u_calls b) (c_ptr c);
          (ok, b) = u_ok env e ''cudaFree'' (u_made (RFree (c_ptr c) e) b)
      in if \<not> ok then (Fatal, c, b) else (Ok, null_chunk, b\<lparr>u_used := u_used b - c_size c\<rparr>))"

definition uvm_move :: "RtEnv \<Rightarrow> Chunk \<Rightarrow> Loc \<Rightarrow> Uvm \<Rightarrow> Status \<times> Chunk \<times> Uvm" where
  "uvm_move env c to b =
     (if c_loc c = to then (Ok, c, b)
      else
        (let id = (if to = Device then u_dev b else 0);
             e = rt_prefetch env (u_calls b) (c_ptr c) (c_size c) to id;
             (s, b) = u_fail env e ''cudaMemPrefetchAsync'' (u_made (RPrefetch (c_ptr c) (c_size c) to id e) b);
             (s, b) =
               (if s = Ok
                then (let e = rt_stream_sync env (u_calls b)
                      in u_fail env e ''prefetch sync'' (u_made (RStreamSync e) b))
                else (s, b))
         in (s, if s = Ok then c\<lparr>c_loc := to\<rparr> else c, b)))"

section \<open>The interface\<close>

text \<open>What an API call can end in: a value, a thrown \<open>Error\<close>, \<open>std::out_of_range\<close>, undefined behaviour.\<close>

datatype 'a outcome = Return 'a | Throw Status string | ThrowOutOfRange | Undefined

record 'b Backend =
  be_open :: "BackendConfig \<Rightarrow> 'b \<Rightarrow> Status \<times> 'b"
  be_close :: "'b \<Rightarrow> 'b"
  be_name :: "'b \<Rightarrow> string"
  be_granularity :: "'b \<Rightarrow> u64"
  be_can_move :: "'b \<Rightarrow> bool"
  be_create :: "u64 \<Rightarrow> Chunk \<Rightarrow> 'b \<Rightarrow> Status \<times> Chunk \<times> 'b"
  be_destroy :: "Chunk \<Rightarrow> 'b \<Rightarrow> (Status \<times> Chunk) result \<times> 'b"
  be_move :: "Chunk \<Rightarrow> Loc \<Rightarrow> 'b \<Rightarrow> (Status \<times> Chunk) result \<times> 'b"
  be_link :: "'b \<Rightarrow> Link"
  be_reconnect :: "'b \<Rightarrow> Status \<times> 'b"
  be_used :: "'b \<Rightarrow> u64"
  be_used_at :: "Loc \<Rightarrow> 'b \<Rightarrow> u64 outcome"
  be_last_error :: "'b \<Rightarrow> string"

text \<open>An object of one of the three classes, with the outside world it talks to.\<close>

datatype AnyBackend = VmemB Env Vmem | UvmB RtEnv Uvm | CudaB RtEnv Cuda

fun any_open :: "BackendConfig \<Rightarrow> AnyBackend \<Rightarrow> Status \<times> AnyBackend" where
  "any_open c (VmemB env v) = (case vmem_open env c v of (s, v) \<Rightarrow> (s, VmemB env v))"
| "any_open c (UvmB env b) = (case uvm_open env c b of (s, b) \<Rightarrow> (s, UvmB env b))"
| "any_open c (CudaB env b) = (case cuda_open env c b of (s, b) \<Rightarrow> (s, CudaB env b))"

fun any_close :: "AnyBackend \<Rightarrow> AnyBackend" where
  "any_close (VmemB env v) = VmemB env (vmem_close v)"
| "any_close b = b"

fun any_name :: "AnyBackend \<Rightarrow> string" where
  "any_name (VmemB _ _) = ''vmem''"
| "any_name (UvmB _ _) = ''uvm''"
| "any_name (CudaB _ _) = ''cuda''"

text \<open>\<open>2 << 20\<close> for uvm and cuda, the same as VMM.\<close>

fun any_granularity :: "AnyBackend \<Rightarrow> u64" where
  "any_granularity (VmemB _ v) = v_gran v"
| "any_granularity _ = 0x200000"

fun any_can_move :: "AnyBackend \<Rightarrow> bool" where
  "any_can_move (CudaB _ _) = False"
| "any_can_move _ = True"

fun any_create :: "u64 \<Rightarrow> Chunk \<Rightarrow> AnyBackend \<Rightarrow> Status \<times> Chunk \<times> AnyBackend" where
  "any_create n out (VmemB env v) = (case vmem_create env n out v of (s, c, v) \<Rightarrow> (s, c, VmemB env v))"
| "any_create n out (UvmB env b) = (case uvm_create env n out b of (s, c, b) \<Rightarrow> (s, c, UvmB env b))"
| "any_create n out (CudaB env b) = (case cuda_create env n out b of (s, c, b) \<Rightarrow> (s, c, CudaB env b))"

fun any_destroy :: "Chunk \<Rightarrow> AnyBackend \<Rightarrow> (Status \<times> Chunk) result \<times> AnyBackend" where
  "any_destroy c (VmemB env v) = (case vmem_destroy env c v of (r, v) \<Rightarrow> (r, VmemB env v))"
| "any_destroy c (UvmB env b) = (case uvm_destroy env c b of (s, c, b) \<Rightarrow> (Ret (s, c), UvmB env b))"
| "any_destroy c (CudaB env b) = (case cuda_destroy env c b of (s, c, b) \<Rightarrow> (Ret (s, c), CudaB env b))"

fun any_move :: "Chunk \<Rightarrow> Loc \<Rightarrow> AnyBackend \<Rightarrow> (Status \<times> Chunk) result \<times> AnyBackend" where
  "any_move c to (VmemB env v) = (case vmem_move env c to v of (r, v) \<Rightarrow> (r, VmemB env v))"
| "any_move c to (UvmB env b) = (case uvm_move env c to b of (s, c, b) \<Rightarrow> (Ret (s, c), UvmB env b))"
| "any_move c to (CudaB env b) = (Ret (cuda_move c to, c), CudaB env b)"

fun any_link :: "AnyBackend \<Rightarrow> Link" where
  "any_link (VmemB _ v) = v_link v"
| "any_link _ = Local"

fun any_reconnect :: "AnyBackend \<Rightarrow> Status \<times> AnyBackend" where
  "any_reconnect (VmemB env v) = (case reconnect env v of (s, v) \<Rightarrow> (s, VmemB env v))"
| "any_reconnect b = (Unsupported, b)"

fun any_used :: "AnyBackend \<Rightarrow> u64" where
  "any_used (VmemB _ v) = vmem_used v"
| "any_used (UvmB _ b) = u_used b"
| "any_used (CudaB _ b) = k_used b"

fun any_used_at :: "Loc \<Rightarrow> AnyBackend \<Rightarrow> u64 outcome" where
  "any_used_at l (VmemB _ v) = Return (vmem_used_at v l)"
| "any_used_at l (UvmB _ _) = Throw Unsupported ''uvm: the driver decides where pages live''"
| "any_used_at l (CudaB _ b) = Return (cuda_used_at l b)"

fun any_last_error :: "AnyBackend \<Rightarrow> string" where
  "any_last_error (VmemB _ v) = v_err v"
| "any_last_error (UvmB _ b) = u_err b"
| "any_last_error (CudaB _ b) = k_err b"

definition any_backend :: "AnyBackend Backend" where
  "any_backend = \<lparr>be_open = any_open, be_close = any_close, be_name = any_name,
     be_granularity = any_granularity, be_can_move = any_can_move, be_create = any_create,
     be_destroy = any_destroy, be_move = any_move, be_link = any_link, be_reconnect = any_reconnect,
     be_used = any_used, be_used_at = any_used_at, be_last_error = any_last_error\<rparr>"

section \<open>The contract\<close>

text \<open>
  What the allocator relies on, for any implementation: \<open>ok\<close> is the implementation's invariant and
  \<open>owns b c\<close> says that the caller's chunk \<open>c\<close> is live in \<open>b\<close> and described correctly. A new chunk
  has the requested size and overlaps no live one; a failed create loses nothing; destroy of a live
  chunk ends in Ok or Fatal and keeps the others; move keeps address and size, ends at the target on
  Ok, and keeps the caller's view of the chunk valid unless it is Fatal. Nothing throws.
\<close>

locale backend =
  fixes be :: "'b Backend"
    and ok :: "'b \<Rightarrow> bool"
    and owns :: "'b \<Rightarrow> Chunk \<Rightarrow> bool"
  assumes create_ok: "ok b \<Longrightarrow> n \<noteq> 0 \<Longrightarrow> be_create be n out b = (Ok, c, b') \<Longrightarrow>
      ok b' \<and> owns b' c \<and> c_size c = n \<and> c_ptr c \<noteq> 0 \<and> unat (c_ptr c) + unat n < 2 ^ 64 \<and>
      (\<forall>d. owns b d \<longrightarrow> owns b' d \<and> c_ptr d \<noteq> c_ptr c \<and> apart (c_ptr d) (c_size d) (c_ptr c) n)"
    and create_fail: "ok b \<Longrightarrow> be_create be n out b = (s, c, b') \<Longrightarrow> s \<noteq> Ok \<Longrightarrow>
      ok b' \<and> (\<forall>d. owns b d \<longrightarrow> owns b' d)"
    and destroy_live: "ok b \<Longrightarrow> owns b c \<Longrightarrow> be_destroy be c b = (r, b') \<Longrightarrow>
      (\<exists>s c'. r = Ret (s, c') \<and> (s = Ok \<or> s = Fatal)) \<and> ok b' \<and>
      (\<forall>d. owns b d \<longrightarrow> c_ptr d \<noteq> c_ptr c \<longrightarrow> owns b' d)"
    and move_live: "ok b \<Longrightarrow> owns b c \<Longrightarrow> be_move be c to b = (r, b') \<Longrightarrow>
      \<exists>s c'. r = Ret (s, c') \<and> c' = (if s = Ok then c\<lparr>c_loc := to\<rparr> else c) \<and>
        (s \<noteq> Fatal \<longrightarrow> ok b' \<and> owns b' c' \<and> (\<forall>d. owns b d \<longrightarrow> c_ptr d \<noteq> c_ptr c \<longrightarrow> owns b' d))"
    and same_granularity:
      "be_create be n out b = (s, c, b') \<Longrightarrow> be_granularity be b' = be_granularity be b"
      "be_destroy be c b = (r, b') \<Longrightarrow> be_granularity be b' = be_granularity be b"
      "be_move be c to b = (r, b') \<Longrightarrow> be_granularity be b' = be_granularity be b"

section \<open>The implementations keep the contract\<close>

fun any_ok :: "AnyBackend \<Rightarrow> bool" where
  "any_ok (VmemB env v) \<longleftrightarrow> well_behaved {} env \<and> vmem_ok v"
| "any_ok (UvmB env b) \<longleftrightarrow> rt_well_behaved env"
| "any_ok (CudaB env b) \<longleftrightarrow> rt_well_behaved env"

fun any_owns :: "AnyBackend \<Rightarrow> Chunk \<Rightarrow> bool" where
  "any_owns (VmemB env v) c \<longleftrightarrow> (\<exists>rc. held v c rc)"
| "any_owns (UvmB env b) c \<longleftrightarrow> rt_live (u_calls b) (c_ptr c) = Some (c_size c)"
| "any_owns (CudaB env b) c \<longleftrightarrow> rt_live (k_calls b) (c_ptr c) = Some (c_size c) \<and> c_loc c = Device"

lemma any_sel [simp]:
  "be_create any_backend = any_create" "be_destroy any_backend = any_destroy"
  "be_move any_backend = any_move" "be_granularity any_backend = any_granularity"
  by (simp_all add: any_backend_def)

lemma well_behaved_mono: "well_behaved {} env \<Longrightarrow> well_behaved busy env"
  unfolding well_behaved_def by (elim conjE, intro conjI) simp_all

text \<open>No operation of the vmem backend changes the granularity.\<close>

lemma gran_driver [simp]:
  "v_gran (made e v) = v_gran v" "v_gran (set_err x v) = v_gran v" "v_gran (disconnect_broker l v) = v_gran v"
  "v_gran (snd (cu env r w v)) = v_gran v" "v_gran (snd (snd (reserve env n v))) = v_gran v"
  "v_gran (snd (addr_free env va n v)) = v_gran v" "v_gran (snd (release env h v)) = v_gran v"
  "v_gran (snd (unmap env va n v)) = v_gran v" "v_gran (snd (snd (create_at env n k v))) = v_gran v"
  by (simp_all add: made_def set_err_def disconnect_broker_def cu_def reserve_def addr_free_def release_def
      unmap_def create_at_def Let_def case_prod_beta)

lemma gran_map_chunk [simp]: "v_gran (snd (map_chunk env va n h v)) = v_gran v"
  by (simp add: map_chunk_def Let_def case_prod_beta)

lemma gran_link [simp]:
  "v_gran (snd (send_msg env m v)) = v_gran v"
  "v_gran (snd (send_and_recv env m v)) = v_gran v"
  "v_gran (maybe_reconnect env v) = v_gran v"
  "v_gran (snd (snd (snd (decide_place env va n l c v)))) = v_gran v"
  by (rule coreD(3), rule outsideD(1), simp)+

lemma gran_parts [simp]:
  "v_gran (snd (attach env va n h v)) = v_gran v"
  "v_gran (abandon env va n l k v) = v_gran v"
  "v_gran (snd (snd (snd (acquire env va n l k v)))) = v_gran v"
  "v_gran (snd (copy_into env nh va n v)) = v_gran v"
  "v_gran (snd (replace_backing env va n old nh v)) = v_gran v"
  by (simp_all add: attach_def abandon_def acquire_def copy_into_def replace_backing_def Let_def case_prod_beta)

lemma gran_swap [simp]: "v_gran (snd (swap env c to v)) = v_gran v"
  by (simp add: swap_def Let_def case_prod_beta split: option.split)

lemma gran_create [simp]: "v_gran (snd (snd (vmem_create env n out v))) = v_gran v"
  by (simp add: vmem_create_def Let_def case_prod_beta)

lemma gran_destroy [simp]: "v_gran (snd (vmem_destroy env c v)) = v_gran v"
  by (simp add: vmem_destroy_def Let_def case_prod_beta split: option.split)

lemma gran_move [simp]: "v_gran (snd (vmem_move env c to v)) = v_gran v"
proof -
  have s: "v_gran w = v_gran u" if "swap env c to u = (r, w)" for r w u
    using gran_swap [of env c to u] that by simp
  show ?thesis
    by (auto simp: vmem_move_def Let_def case_prod_beta split: option.split result.split prod.split dest!: s)
qed

text \<open>vmem: from the steps of \<open>Vmem_Props\<close>.\<close>

lemma vmem_create_contract:
  assumes wb: "well_behaved {} env" and ok: "vmem_ok v" and e: "vmem_create env n out v = (s, c, v')"
  shows "vmem_ok v' \<and> (\<forall>d rd. held v d rd \<longrightarrow> (\<exists>rd'. held v' d rd')) \<and>
    (s = Ok \<longrightarrow> (\<exists>rc. held v' c rc) \<and> c_size c = n \<and> c_ptr c \<noteq> 0 \<and> unat (c_ptr c) + unat n < 2 ^ 64 \<and>
      (\<forall>d rd. held v d rd \<longrightarrow> c_ptr d \<noteq> c_ptr c \<and> apart (c_ptr d) (c_size d) (c_ptr c) n))"
proof (cases "s = Ok")
  case True
  note st = create_step(1) [OF well_behaved_mono [OF wb] ok e True]
  then obtain h where a: "chunk_added n c h v v'" by blast
  have res: "d_reserved (D v) (c_ptr d) = Some (c_size d)" if "held v d rd" for d rd
    using that vmem_okD(3) [OF ok] by (auto simp: held_def)
  have neq: "c_ptr d \<noteq> c_ptr c" if "held v d rd" for d rd
    using res [OF that] a by (auto simp: chunk_added_def)
  have m: "vmap v' = (vmap v)(c_ptr c \<mapsto> \<lparr>r_h = h, r_size = n, r_locn = c_loc c\<rparr>)"
    using a by (simp add: chunk_added_def om_simps)
  have f: "c_size c = n" "c_ptr c \<noteq> 0" "unat (c_ptr c) + unat n < 2 ^ 64"
    "\<And>x k. d_reserved (D v) x = Some k \<Longrightarrow> apart x k (c_ptr c) n"
    using a by (simp_all add: chunk_added_def free_span_def)
  have "held v' d rd" if "held v d rd" for d rd
    using that neq [OF that] by (simp add: held_def m)
  moreover have "held v' c \<lparr>r_h = h, r_size = n, r_locn = c_loc c\<rparr>" by (simp add: held_def m f)
  moreover have "c_ptr d \<noteq> c_ptr c \<and> apart (c_ptr d) (c_size d) (c_ptr c) n" if "held v d rd" for d rd
    using neq [OF that] f(4) [OF res [OF that]] by simp
  ultimately show ?thesis using True created_ok [OF ok a] f(1-3) by blast
next
  case False
  from create_step(2) [OF well_behaved_mono [OF wb] ok e False]
  have c: "core v' = core v" "D v' = D v" by simp_all
  show ?thesis using False vmem_ok_cong [OF c] ok coreD(6) [OF c(1)] by (auto simp: held_def)
qed

lemma vmem_destroy_contract:
  assumes wb: "well_behaved {} env" and ok: "vmem_ok v" and c: "held v c rc"
    and e: "vmem_destroy env c v = (r, v')"
  shows "(\<exists>s c'. r = Ret (s, c') \<and> (s = Ok \<or> s = Fatal)) \<and> vmem_ok v' \<and>
    (\<forall>d rd. held v d rd \<longrightarrow> c_ptr d \<noteq> c_ptr c \<longrightarrow> held v' d rd)"
proof -
  have c': "vmap v (c_ptr c) = Some rc" "r_size rc = c_size c" "r_locn rc = c_loc c"
    using c by (simp_all add: held_def)
  have "vmap v' va = vmap v va" if "va \<noteq> c_ptr c" for va
    using destroy_step [OF well_behaved_mono [OF wb] ok c' e] vmem_okD(1) [OF ok] that by (auto simp: om_simps)
  then show ?thesis
    using destroy_step [OF well_behaved_mono [OF wb] ok c' e] by (auto simp: held_def)
qed

lemma vmem_move_contract:
  assumes wb: "well_behaved {} env" and ok: "vmem_ok v" and c: "held v c rc"
    and e: "vmem_move env c to v = (r, v')"
  shows "\<exists>s c'. r = Ret (s, c') \<and> c' = (if s = Ok then c\<lparr>c_loc := to\<rparr> else c) \<and>
    (s \<noteq> Fatal \<longrightarrow> vmem_ok v' \<and> (\<exists>rc'. held v' c' rc') \<and>
      (\<forall>d rd. held v d rd \<longrightarrow> c_ptr d \<noteq> c_ptr c \<longrightarrow> held v' d rd))"
proof (cases "c_loc c = to")
  case True
  then have same: "c\<lparr>c_loc := to\<rparr> = c" by (cases c) simp
  have "r = Ret (Ok, c)" "v' = v" using True e by (simp_all add: vmem_move_def)
  moreover have "\<exists>rc'. held v c rc'" using c ..
  ultimately show ?thesis using ok by (intro exI [of _ Ok] exI [of _ c]) (simp add: same)
next
  case False
  have c': "vmap v (c_ptr c) = Some rc" "r_size rc = c_size c" "r_locn rc = c_loc c"
    using c by (simp_all add: held_def)
  show ?thesis
  proof (rule move_step [OF well_behaved_mono [OF wb] ok c'(1,2) e False])
    fix s
    assume s: "s \<in> {Ok, NoMemory, Fatal}" "r = Ret (s, if s = Ok then c\<lparr>c_loc := to\<rparr> else c)"
      and st: "s = Ok \<Longrightarrow> \<exists>nh. chunk_moved c rc to nh v v'" "s \<noteq> Ok \<Longrightarrow> core v' = core v"
        "s = NoMemory \<Longrightarrow> D v' = D v"
    show ?thesis
    proof (cases "s = Ok")
      case True
      then obtain nh where m: "chunk_moved c rc to nh v v'" using st(1) by blast
      have v: "vmap v' = (vmap v)(c_ptr c \<mapsto> \<lparr>r_h = nh, r_size = c_size c, r_locn = to\<rparr>)"
        using m by (simp add: chunk_moved_def om_simps)
      have "held v' (c\<lparr>c_loc := to\<rparr>) \<lparr>r_h = nh, r_size = c_size c, r_locn = to\<rparr>"
        by (simp add: held_def v)
      moreover have "held v' d rd" if "held v d rd" "c_ptr d \<noteq> c_ptr c" for d rd
        using that by (simp add: held_def v)
      ultimately show ?thesis using s True vmem_ok_moved [OF ok m c' False] by auto
    next
      case False
      have "vmap v' = vmap v" using coreD(6) [OF st(2) [OF False]] by simp
      moreover have "vmem_ok v'" if "s = NoMemory"
        using vmem_ok_cong [OF st(2) [OF False] st(3) [OF that]] ok by simp
      ultimately show ?thesis using s False c by (auto simp: held_def)
    qed
  qed
qed

text \<open>uvm and cuda: from the history of the runtime calls.\<close>

lemma uvm_create_contract:
  assumes "rt_well_behaved env" and "uvm_create env n out b = (s, c, b')"
  shows "s = Ok \<Longrightarrow> n \<noteq> 0 \<Longrightarrow> c_size c = n \<and> rt_fresh (u_calls b) n (c_ptr c) \<and>
      rt_live (u_calls b') = (rt_live (u_calls b))(c_ptr c \<mapsto> n)"
    and "s \<noteq> Ok \<Longrightarrow> rt_live (u_calls b') = rt_live (u_calls b)"
  using assms
  by (auto simp: uvm_create_def u_fail_def u_ok_def u_made_def rt_well_behaved_def Let_def
      split: prod.splits if_splits)

lemma cuda_create_contract:
  assumes "rt_well_behaved env" and "cuda_create env n out b = (s, c, b')"
  shows "s = Ok \<Longrightarrow> n \<noteq> 0 \<Longrightarrow> c_size c = n \<and> c_loc c = Device \<and> rt_fresh (k_calls b) n (c_ptr c) \<and>
      rt_live (k_calls b') = (rt_live (k_calls b))(c_ptr c \<mapsto> n)"
    and "s \<noteq> Ok \<Longrightarrow> rt_live (k_calls b') = rt_live (k_calls b)"
  using assms
  by (auto simp: cuda_create_def k_ok_def k_made_def rt_well_behaved_def Let_def split: prod.splits if_splits)

lemma uvm_destroy_contract:
  "uvm_destroy env c b = (s, c', b') \<Longrightarrow> (s = Ok \<or> s = Fatal) \<and>
     (\<forall>p. p \<noteq> c_ptr c \<longrightarrow> rt_live (u_calls b') p = rt_live (u_calls b) p)"
  by (auto simp: uvm_destroy_def u_ok_def u_made_def Let_def split: if_splits)

lemma cuda_destroy_contract:
  "cuda_destroy env c b = (s, c', b') \<Longrightarrow> (s = Ok \<or> s = Fatal) \<and>
     (\<forall>p. p \<noteq> c_ptr c \<longrightarrow> rt_live (k_calls b') p = rt_live (k_calls b) p)"
  by (auto simp: cuda_destroy_def k_ok_def k_made_def Let_def split: if_splits)

lemma uvm_move_contract:
  assumes "uvm_move env c to b = (s, c', b')"
  shows "c' = (if s = Ok then c\<lparr>c_loc := to\<rparr> else c) \<and> rt_live (u_calls b') = rt_live (u_calls b)"
proof (cases "c_loc c = to")
  case True
  then have "c\<lparr>c_loc := to\<rparr> = c" by (cases c) simp
  then show ?thesis using True assms by (auto simp: uvm_move_def)
next
  case False
  then show ?thesis
    using assms by (auto simp: uvm_move_def u_fail_def u_ok_def u_made_def Let_def split: if_splits)
qed

lemma any_create_contract:
  assumes "any_ok b" and "any_create n out b = (s, c, b')"
  shows "any_ok b'"
    and "s \<noteq> Ok \<or> n \<noteq> 0 \<Longrightarrow> any_owns b d \<Longrightarrow> any_owns b' d"
    and "s = Ok \<Longrightarrow> n \<noteq> 0 \<Longrightarrow> any_owns b' c \<and> c_size c = n \<and> c_ptr c \<noteq> 0 \<and> unat (c_ptr c) + unat n < 2 ^ 64"
    and "s = Ok \<Longrightarrow> n \<noteq> 0 \<Longrightarrow> any_owns b d \<Longrightarrow> c_ptr d \<noteq> c_ptr c \<and> apart (c_ptr d) (c_size d) (c_ptr c) n"
proof -
  have "any_ok b' \<and>
    (s \<noteq> Ok \<or> n \<noteq> 0 \<longrightarrow> any_owns b d \<longrightarrow> any_owns b' d) \<and>
    (s = Ok \<longrightarrow> n \<noteq> 0 \<longrightarrow> any_owns b' c \<and> c_size c = n \<and> c_ptr c \<noteq> 0 \<and> unat (c_ptr c) + unat n < 2 ^ 64 \<and>
      (any_owns b d \<longrightarrow> c_ptr d \<noteq> c_ptr c \<and> apart (c_ptr d) (c_size d) (c_ptr c) n))"
  proof (cases b)
    case (VmemB env v)
    obtain v' where e: "vmem_create env n out v = (s, c, v')" "b' = VmemB env v'"
      using assms(2) VmemB by (auto split: prod.splits)
    show ?thesis
      using vmem_create_contract [OF _ _ e(1)] assms(1) VmemB e(2) by auto
  next
    case (UvmB env u)
    obtain u' where e: "uvm_create env n out u = (s, c, u')" "b' = UvmB env u'"
      using assms(2) UvmB by (auto split: prod.splits)
    show ?thesis
      using uvm_create_contract [OF _ e(1)] assms(1) UvmB e(2) by (cases "s = Ok") (auto simp: rt_fresh_def)
  next
    case (CudaB env k)
    obtain k' where e: "cuda_create env n out k = (s, c, k')" "b' = CudaB env k'"
      using assms(2) CudaB by (auto split: prod.splits)
    show ?thesis
      using cuda_create_contract [OF _ e(1)] assms(1) CudaB e(2) by (cases "s = Ok") (auto simp: rt_fresh_def)
  qed
  then show "any_ok b'"
    "s \<noteq> Ok \<or> n \<noteq> 0 \<Longrightarrow> any_owns b d \<Longrightarrow> any_owns b' d"
    "s = Ok \<Longrightarrow> n \<noteq> 0 \<Longrightarrow> any_owns b' c \<and> c_size c = n \<and> c_ptr c \<noteq> 0 \<and> unat (c_ptr c) + unat n < 2 ^ 64"
    "s = Ok \<Longrightarrow> n \<noteq> 0 \<Longrightarrow> any_owns b d \<Longrightarrow> c_ptr d \<noteq> c_ptr c \<and> apart (c_ptr d) (c_size d) (c_ptr c) n"
    by blast+
qed

lemma any_same_granularity:
  "any_granularity (snd (snd (any_create n out b))) = any_granularity b"
  "any_granularity (snd (any_destroy c b)) = any_granularity b"
  "any_granularity (snd (any_move c to b)) = any_granularity b"
  by (cases b; simp add: case_prod_beta)+

lemma any_destroy_contract:
  assumes "any_ok b" and "any_owns b c" and "any_destroy c b = (r, b')"
  shows "(\<exists>s c'. r = Ret (s, c') \<and> (s = Ok \<or> s = Fatal)) \<and> any_ok b' \<and>
    (\<forall>d. any_owns b d \<longrightarrow> c_ptr d \<noteq> c_ptr c \<longrightarrow> any_owns b' d)"
proof (cases b)
  case (VmemB env v)
  obtain v' where e: "vmem_destroy env c v = (r, v')" "b' = VmemB env v'"
    using assms(3) VmemB by (auto split: prod.splits)
  show ?thesis using vmem_destroy_contract [OF _ _ _ e(1)] assms(1,2) VmemB e(2) by auto
next
  case (UvmB env u)
  obtain s c' u' where e: "uvm_destroy env c u = (s, c', u')" "b' = UvmB env u'" "r = Ret (s, c')"
    using assms(3) UvmB by (auto split: prod.splits)
  show ?thesis using uvm_destroy_contract [OF e(1)] assms(1) UvmB e(2,3) by auto
next
  case (CudaB env k)
  obtain s c' k' where e: "cuda_destroy env c k = (s, c', k')" "b' = CudaB env k'" "r = Ret (s, c')"
    using assms(3) CudaB by (auto split: prod.splits)
  show ?thesis using cuda_destroy_contract [OF e(1)] assms(1) CudaB e(2,3) by auto
qed

lemma any_move_contract:
  assumes "any_ok b" and "any_owns b c" and "any_move c to b = (r, b')"
  shows "\<exists>s c'. r = Ret (s, c') \<and> c' = (if s = Ok then c\<lparr>c_loc := to\<rparr> else c) \<and>
    (s \<noteq> Fatal \<longrightarrow> any_ok b' \<and> any_owns b' c' \<and>
      (\<forall>d. any_owns b d \<longrightarrow> c_ptr d \<noteq> c_ptr c \<longrightarrow> any_owns b' d))"
proof (cases b)
  case (VmemB env v)
  obtain v' where e: "vmem_move env c to v = (r, v')" "b' = VmemB env v'"
    using assms(3) VmemB by (auto split: prod.splits)
  have b: "well_behaved {} env" "vmem_ok v" using assms(1) VmemB by simp_all
  obtain rc where c: "held v c rc" using assms(2) VmemB by auto
  from vmem_move_contract [OF b c e(1)] obtain s where
    s: "r = Ret (s, if s = Ok then c\<lparr>c_loc := to\<rparr> else c)"
    and k: "s \<noteq> Fatal \<longrightarrow> vmem_ok v' \<and> (\<exists>rc'. held v' (if s = Ok then c\<lparr>c_loc := to\<rparr> else c) rc') \<and>
      (\<forall>d rd. held v d rd \<longrightarrow> c_ptr d \<noteq> c_ptr c \<longrightarrow> held v' d rd)" by blast
  show ?thesis
    using s k b(1) VmemB e(2)
    by (intro exI [of _ s] exI [of _ "if s = Ok then c\<lparr>c_loc := to\<rparr> else c"]) auto
next
  case (UvmB env u)
  obtain s c' u' where e: "uvm_move env c to u = (s, c', u')" "b' = UvmB env u'" "r = Ret (s, c')"
    using assms(3) UvmB by (auto split: prod.splits)
  show ?thesis
    using uvm_move_contract [OF e(1)] assms(1,2) UvmB e(2,3)
    by (intro exI [of _ s] exI [of _ c']) auto
next
  case (CudaB env k)
  have same: "c\<lparr>c_loc := to\<rparr> = c" if "c_loc c = to" using that by (cases c) simp
  have "r = Ret (cuda_move c to, c)" "b' = b" using assms(3) CudaB by auto
  then show ?thesis
    using assms(1,2) same
    by (intro exI [of _ "cuda_move c to"] exI [of _ c]) (auto simp: cuda_move_def)
qed

interpretation any: backend any_backend any_ok any_owns
proof unfold_locales
  show "any_ok b' \<and> any_owns b' c \<and> c_size c = n \<and> c_ptr c \<noteq> 0 \<and> unat (c_ptr c) + unat n < 2 ^ 64 \<and>
      (\<forall>d. any_owns b d \<longrightarrow> any_owns b' d \<and> c_ptr d \<noteq> c_ptr c \<and> apart (c_ptr d) (c_size d) (c_ptr c) n)"
    if "any_ok b" "n \<noteq> 0" "be_create any_backend n out b = (Ok, c, b')" for b n out c b'
    using any_create_contract [OF that(1), of n out Ok c b'] that(2,3) by simp
  show "any_ok b' \<and> (\<forall>d. any_owns b d \<longrightarrow> any_owns b' d)"
    if "any_ok b" "be_create any_backend n out b = (s, c, b')" "s \<noteq> Ok" for b n out s c b'
    using any_create_contract [OF that(1), of n out s c b'] that(2,3) by simp
  show "be_granularity any_backend b' = be_granularity any_backend b"
    if "be_create any_backend n out b = (s, c, b')" for n out b s c b'
    using any_same_granularity(1) [of n out b] that by simp
  show "be_granularity any_backend b' = be_granularity any_backend b"
    if "be_destroy any_backend c b = (r, b')" for c b r b'
    using any_same_granularity(2) [of c b] that by simp
  show "be_granularity any_backend b' = be_granularity any_backend b"
    if "be_move any_backend c to b = (r, b')" for c to b r b'
    using any_same_granularity(3) [of c to b] that by simp
  show "(\<exists>s c'. r = Ret (s, c') \<and> (s = Ok \<or> s = Fatal)) \<and> any_ok b' \<and>
      (\<forall>d. any_owns b d \<longrightarrow> c_ptr d \<noteq> c_ptr c \<longrightarrow> any_owns b' d)"
    if "any_ok b" "any_owns b c" "be_destroy any_backend c b = (r, b')" for b c r b'
    by (rule any_destroy_contract [OF that(1,2)]) (use that(3) in simp)
  show "\<exists>s c'. r = Ret (s, c') \<and> c' = (if s = Ok then c\<lparr>c_loc := to\<rparr> else c) \<and>
      (s \<noteq> Fatal \<longrightarrow> any_ok b' \<and> any_owns b' c' \<and>
        (\<forall>d. any_owns b d \<longrightarrow> c_ptr d \<noteq> c_ptr c \<longrightarrow> any_owns b' d))"
    if "any_ok b" "any_owns b c" "be_move any_backend c to b = (r, b')" for b c to r b'
    by (rule any_move_contract [OF that(1,2)]) (use that(3) in simp)
qed

end
