(* ===== verification/Allocator.thy ===== *)
theory Allocator
  imports Backends
begin

text \<open>
  The allocator (\<open>libvmem/src/libvmem.cuh\<close>): small objects packed in slots of power-of-two size, one
  chunk per large object, evict and prefetch hints. It is written over the virtual calls of the
  backend. \<open>cuCtxSynchronize\<close> is the only driver call it makes itself; its answer (at most one per
  API call, with the error text) is an argument.
\<close>

section \<open>State\<close>

datatype Kind = KVmem | KUvm | KCuda

record Config =
  cf_backend :: Kind
  cf_device :: int
  cf_small_max :: u64
  cf_small_chunk :: u64
  cf_min_obj :: u64
  cf_daemon :: "string option"
  cf_name :: "string option"
  cf_auto :: bool

definition default_config :: Config where
  "default_config = \<lparr>cf_backend = KVmem, cf_device = 0, cf_small_max = 0x100000, cf_small_chunk = 0x200000,
     cf_min_obj = 512, cf_daemon = Some ''/tmp/vmemd.sock'', cf_name = None, cf_auto = False\<rparr>"

text \<open>\<open>free_slots\<close> is a stack with its top at the end of the list.\<close>

record Region =
  rg_c :: Chunk
  rg_obj :: u64
  rg_free :: "u32 list"
  rg_busy :: "bool list"
  rg_used :: u32

text \<open>\<open>partial_\<close> maps an object size to a \<open>std::set\<close> of chunk addresses, here an ordered map to unit.\<close>

record 'b Allocator =
  a_cfg :: Config
  a_b :: 'b
  a_dead :: bool
  a_regions :: "(u64 \<times> Region) list"
  a_partial :: "(u64 \<times> (u64 \<times> unit) list) list"

record Info =
  in_backend :: string
  in_link :: Link
  in_bytes :: u64
  in_small :: u64
  in_large :: u64

section \<open>Helpers\<close>

fun obind :: "'x outcome \<times> 's \<Rightarrow> ('x \<Rightarrow> 's \<Rightarrow> 'y outcome \<times> 's) \<Rightarrow> 'y outcome \<times> 's" where
  \<comment> \<open>an exception leaves the function\<close>
  "obind (Return x, s) f = f x s"
| "obind (Throw e m, s) f = (Throw e m, s)"
| "obind (ThrowOutOfRange, s) f = (ThrowOutOfRange, s)"
| "obind (Undefined, s) f = (Undefined, s)"

text \<open>
  A division by 0 is a fault in the code, where it is 0 here; no backend that opened has the granule 0
  (2 MiB, or what the driver answers), and the properties say so where it matters.
\<close>

definition round_up :: "u64 \<Rightarrow> u64 \<Rightarrow> u64" where
  \<comment> \<open>the first argument is the backend's granularity\<close>
  "round_up g x = (x + g - 1) div g * g"

text \<open>\<open>std::bit_ceil\<close>: the smallest power of two that is at least \<open>x\<close>; undefined above \<open>2^63\<close>.\<close>

fun pow2_from :: "nat \<Rightarrow> u64 \<Rightarrow> u64 \<Rightarrow> u64" where
  "pow2_from 0 p x = p"
| "pow2_from (Suc k) p x = (if x \<le> p then p else pow2_from k (2 * p) x)"

definition bit_ceil :: "u64 \<Rightarrow> u64 option" where
  "bit_ceil x = (if x \<le> 0x8000000000000000 then Some (pow2_from 63 1 x) else None)"

definition fail :: "'b Backend \<Rightarrow> Status \<Rightarrow> string \<Rightarrow> 'b Allocator \<Rightarrow> 'x outcome \<times> 'b Allocator" where
  "fail be s what a =
     (let a = (if s = Fatal then a\<lparr>a_dead := True\<rparr> else a);
          m = be_name be (a_b a) @ '' '' @ what;
          m = (if s \<noteq> Unsupported then m @ '': '' @ be_last_error be (a_b a) else m)
      in (Throw s m, a))"

definition live :: "'b Allocator \<Rightarrow> unit outcome \<times> 'b Allocator" where
  "live a = (if a_dead a then (Throw Fatal ''allocator is dead after a fatal error; shut down'', a)
             else (Return (), a))"

definition sync :: "CUresult \<times> string \<Rightarrow> 'b Allocator \<Rightarrow> unit outcome \<times> 'b Allocator" where
  "sync sy a =
     (if fst sy \<noteq> CUDA_SUCCESS then (Throw Fatal (''sync: '' @ snd sy), a\<lparr>a_dead := True\<rparr>)
      else (Return (), a))"

text \<open>\<open>upper_bound\<close>, one step back, and the bounds check.\<close>

definition lookup :: "u64 \<Rightarrow> 'b Allocator \<Rightarrow> (u64 \<times> Region) option" where
  "lookup p a =
     (case om_floor (a_regions a) p of
        None \<Rightarrow> None
      | Some (base, r) \<Rightarrow> if p < base + c_size (rg_c r) then Some (base, r) else None)"

definition find :: "'b Backend \<Rightarrow> u64 \<Rightarrow> string \<Rightarrow> 'b Allocator \<Rightarrow> (u64 \<times> Region) outcome \<times> 'b Allocator" where
  "find be p what a =
     (case lookup p a of
        None \<Rightarrow> fail be Unsupported (what @ '': pointer not from libvmem'') a
      | Some br \<Rightarrow> (Return br, a))"

definition put_region :: "u64 \<Rightarrow> Region \<Rightarrow> 'b Allocator \<Rightarrow> 'b Allocator" where
  "put_region base r a = a\<lparr>a_regions := om_put base r (a_regions a)\<rparr>"

text \<open>\<open>partial_[obj]\<close>, which makes an empty entry when there is none.\<close>

definition part_of :: "u64 \<Rightarrow> 'b Allocator \<Rightarrow> (u64 \<times> unit) list" where
  "part_of obj a = (case map_of (a_partial a) obj of None \<Rightarrow> [] | Some s \<Rightarrow> s)"

definition set_part :: "u64 \<Rightarrow> (u64 \<times> unit) list \<Rightarrow> 'b Allocator \<Rightarrow> 'b Allocator" where
  "set_part obj s a = a\<lparr>a_partial := om_put obj s (a_partial a)\<rparr>"

definition part_insert :: "u64 \<Rightarrow> u64 \<Rightarrow> 'b Allocator \<Rightarrow> 'b Allocator" where
  "part_insert obj base a = set_part obj (om_put base () (part_of obj a)) a"

definition part_erase :: "u64 \<Rightarrow> u64 \<Rightarrow> 'b Allocator \<Rightarrow> 'b Allocator" where
  "part_erase obj base a = set_part obj (om_del base (part_of obj a)) a"

section \<open>New chunks\<close>

text \<open>Every slot of a new slab is free and slot 0 is on top of the stack.\<close>

definition new_region :: "Chunk \<Rightarrow> u64 \<Rightarrow> u64 \<Rightarrow> Region" where
  "new_region c sz obj =
     (let n = (if obj = 0 then 0 else ucast (sz div obj) :: u32)
      in \<lparr>rg_c = c, rg_obj = obj, rg_free = map of_nat (rev [0..<unat n]),
          rg_busy = replicate (unat n) False, rg_used = 0\<rparr>)"

text \<open>The base of the new region, or \<open>None\<close> for a null pointer.\<close>

definition add :: "'b Backend \<Rightarrow> u64 \<Rightarrow> u64 \<Rightarrow> 'b Allocator \<Rightarrow> u64 option outcome \<times> 'b Allocator" where
  "add be sz obj a =
     (let (s, c, b) = be_create be sz null_chunk (a_b a);
          a = a\<lparr>a_b := b\<rparr>
      in if s = NoMemory then (Return None, a)
         else if s \<noteq> Ok then fail be s ''create'' a
         else
           (let base = c_ptr c;
                a = (if obj \<noteq> 0 then part_insert obj base a else a)
            in (Return (Some base),
                if map_of (a_regions a) base = None then put_region base (new_region c sz obj) a else a)))"

section \<open>The API\<close>

text \<open>Taking a slot of the chunk at \<open>base\<close>: \<open>back()\<close> of an empty stack and a slot outside \<open>busy\<close> are undefined.\<close>

definition take_slot :: "u64 \<Rightarrow> u64 \<Rightarrow> 'b Allocator \<Rightarrow> u64 outcome \<times> 'b Allocator" where
  "take_slot obj base a =
     (case map_of (a_regions a) base of
        None \<Rightarrow> (ThrowOutOfRange, a)
      | Some r \<Rightarrow>
          if rg_free r = [] then (Undefined, a)
          else
            (let slot = last (rg_free r) in
             if length (rg_busy r) \<le> unat slot then (Undefined, a)
             else
               (let r = r\<lparr>rg_free := butlast (rg_free r), rg_busy := (rg_busy r)[unat slot := True],
                          rg_used := rg_used r + 1\<rparr>;
                    a = put_region base r a;
                    a = (if rg_free r = [] then part_erase obj (c_ptr (rg_c r)) a else a)
                in (Return (c_ptr (rg_c r) + ucast slot * obj), a))))"

definition alloc :: "'b Backend \<Rightarrow> u64 \<Rightarrow> 'b Allocator \<Rightarrow> u64 outcome \<times> 'b Allocator" where
  "alloc be n a = obind (live a) (\<lambda>_ a.
     if n = 0 then (Return 0, a)
     else if n > cf_small_max (a_cfg a)
     then obind (add be (round_up (be_granularity be (a_b a)) n) 0 a) (\<lambda>r a.
       case r of
         None \<Rightarrow> (Return 0, a)
       | Some base \<Rightarrow>
           (case map_of (a_regions a) base of
              None \<Rightarrow> (ThrowOutOfRange, a)
            | Some r \<Rightarrow> (Return (c_ptr (rg_c r)), a)))
     else
       (case bit_ceil (max n (cf_min_obj (a_cfg a))) of
          None \<Rightarrow> (Undefined, a)
        | Some obj \<Rightarrow>
            (let a = set_part obj (part_of obj a) a in
             case part_of obj a of
               (base, _) # _ \<Rightarrow> take_slot obj base a
             | [] \<Rightarrow> obind (add be (cf_small_chunk (a_cfg a)) obj a) (\<lambda>r a.
                 case r of None \<Rightarrow> (Return 0, a) | Some base \<Rightarrow> take_slot obj base a))))"

text \<open>The end of \<open>free\<close>: synchronize, destroy the chunk, forget the region.\<close>

definition drop_region :: "'b Backend \<Rightarrow> CUresult \<times> string \<Rightarrow> u64 \<Rightarrow> Region \<Rightarrow> 'b Allocator \<Rightarrow> unit outcome \<times> 'b Allocator" where
  "drop_region be sy base r a = obind (sync sy a) (\<lambda>_ a.
     case be_destroy be (rg_c r) (a_b a) of
       (OutOfRange, b) \<Rightarrow> (ThrowOutOfRange, a\<lparr>a_b := b\<rparr>)
     | (Ret (s, c), b) \<Rightarrow>
         (let a = a\<lparr>a_b := b, a_regions := om_del base (a_regions a)\<rparr>
          in if s \<noteq> Ok then fail be s ''destroy'' a else (Return (), a)))"

text \<open>The small-pool part of \<open>free\<close>; reading \<open>busy\<close> outside its bounds is undefined.\<close>

definition free_slot :: "'b Backend \<Rightarrow> CUresult \<times> string \<Rightarrow> u64 \<Rightarrow> u64 \<Rightarrow> Region \<Rightarrow> 'b Allocator \<Rightarrow> unit outcome \<times> 'b Allocator" where
  "free_slot be sy p base r a =
     (let off = p - base;
          slot = ucast (off div rg_obj r) :: u32
      in if off mod rg_obj r \<noteq> 0 then fail be Unsupported ''free: not a live object'' a
         else if length (rg_busy r) \<le> unat slot then (Undefined, a)
         else if \<not> rg_busy r ! unat slot then fail be Unsupported ''free: not a live object'' a
         else
           (let r = r\<lparr>rg_busy := (rg_busy r)[unat slot := False], rg_free := rg_free r @ [slot],
                      rg_used := rg_used r - 1\<rparr>;
                a = put_region base r a
            in if rg_used r \<noteq> 0 then (Return (), part_insert (rg_obj r) base a)
               else drop_region be sy base r (part_erase (rg_obj r) base a)))"

definition free :: "'b Backend \<Rightarrow> CUresult \<times> string \<Rightarrow> u64 \<Rightarrow> 'b Allocator \<Rightarrow> unit outcome \<times> 'b Allocator" where
  "free be sy p a =
     (if p = 0 then (Return (), a)
      else obind (live a) (\<lambda>_ a. obind (find be p ''free'' a) (\<lambda>(base, r) a.
        if rg_obj r \<noteq> 0 then free_slot be sy p base r a
        else if p \<noteq> base then fail be Unsupported ''free: not the start of an allocation'' a
        else drop_region be sy base r a)))"

text \<open>\<open>evict\<close> and \<open>prefetch\<close>: a status, never an \<open>Error\<close>.\<close>

definition move_hint :: "'b Backend \<Rightarrow> CUresult \<times> string \<Rightarrow> u64 \<Rightarrow> Loc \<Rightarrow> 'b Allocator \<Rightarrow> Status outcome \<times> 'b Allocator" where
  "move_hint be sy p to a =
     (if a_dead a then (Return Fatal, a)
      else
        (case lookup p a of
           None \<Rightarrow> (Return Unsupported, a)
         | Some (base, r) \<Rightarrow>
             if rg_obj r \<noteq> 0 \<or> \<not> be_can_move be (a_b a) then (Return Unsupported, a)
             else if c_loc (rg_c r) = to then (Return Ok, a)
             else
               (case sync sy a of
                  (Throw s m, a) \<Rightarrow> (Return s, a)
                | (_, a) \<Rightarrow>
                    (case be_move be (rg_c r) to (a_b a) of
                       (OutOfRange, b) \<Rightarrow> (ThrowOutOfRange, a\<lparr>a_b := b\<rparr>)
                     | (Ret (s, c), b) \<Rightarrow>
                         (let a = put_region base (r\<lparr>rg_c := c\<rparr>) (a\<lparr>a_b := b\<rparr>)
                          in (Return s, if s = Fatal then a\<lparr>a_dead := True\<rparr> else a))))))"

definition evict :: "'b Backend \<Rightarrow> CUresult \<times> string \<Rightarrow> u64 \<Rightarrow> 'b Allocator \<Rightarrow> Status outcome \<times> 'b Allocator" where
  "evict be sy p a = move_hint be sy p Host a"

definition prefetch :: "'b Backend \<Rightarrow> CUresult \<times> string \<Rightarrow> u64 \<Rightarrow> 'b Allocator \<Rightarrow> Status outcome \<times> 'b Allocator" where
  "prefetch be sy p a = move_hint be sy p Device a"

definition where_is :: "'b Backend \<Rightarrow> u64 \<Rightarrow> 'b Allocator \<Rightarrow> Loc outcome \<times> 'b Allocator" where
  "where_is be p a = obind (find be p ''where'' a) (\<lambda>(_, r) a. (Return (c_loc (rg_c r)), a))"

definition info :: "'b Backend \<Rightarrow> 'b Allocator \<Rightarrow> Info" where
  "info be a =
     (let small = of_nat (length (filter (\<lambda>e. rg_obj (snd e) \<noteq> 0) (a_regions a)))
      in \<lparr>in_backend = be_name be (a_b a), in_link = be_link be (a_b a), in_bytes = be_used be (a_b a),
          in_small = small, in_large = of_nat (length (a_regions a)) - small\<rparr>)"

definition api_reconnect :: "'b Backend \<Rightarrow> 'b Allocator \<Rightarrow> Status \<times> 'b Allocator" where
  "api_reconnect be a = (let (s, b) = be_reconnect be (a_b a) in (s, a\<lparr>a_b := b\<rparr>))"

section \<open>Construction and destruction\<close>

definition construct :: "'b Backend \<Rightarrow> string option \<Rightarrow> Config \<Rightarrow> 'b \<Rightarrow> 'b Allocator outcome" where
  \<comment> \<open>the second argument is the environment variable VMEM_DAEMON\<close>
  "construct be d cfg b =
     (let (s, b) = be_open be \<lparr>bc_device = cf_device cfg, bc_daemon = (if d \<noteq> None then d else cf_daemon cfg),
            bc_name = cf_name cfg, bc_auto = cf_auto cfg\<rparr> b
      in if s \<noteq> Ok then Throw s (be_name be b @ '' open: '' @ be_last_error be b)
         else
           (let cfg = cfg\<lparr>cf_small_chunk := round_up (be_granularity be b) (cf_small_chunk cfg)\<rparr>
            in case bit_ceil (cf_small_max cfg) of
                 None \<Rightarrow> Undefined
               | Some m \<Rightarrow>
                   if m > cf_small_chunk cfg
                   then Throw Unsupported ''config: small_max does not fit in small_chunk''
                   else Return \<lparr>a_cfg = cfg, a_b = b, a_dead = False, a_regions = [], a_partial = []\<rparr>))"

text \<open>The destructor: best effort; an exception in it would end the process (\<open>None\<close>).\<close>

fun destroy_all :: "'b Backend \<Rightarrow> (u64 \<times> Region) list \<Rightarrow> 'b \<Rightarrow> 'b option" where
  "destroy_all be [] b = Some b"
| "destroy_all be (e # es) b =
     (case be_destroy be (rg_c (snd e)) b of (OutOfRange, _) \<Rightarrow> None | (Ret _, b) \<Rightarrow> destroy_all be es b)"

definition destruct :: "'b Backend \<Rightarrow> CUresult \<Rightarrow> 'b Allocator \<Rightarrow> 'b option" where
  "destruct be r a =
     map_option (be_close be)
       (if \<not> a_dead a \<and> r = CUDA_SUCCESS then destroy_all be (a_regions a) (a_b a) else Some (a_b a))"

definition env_kind :: "string option \<Rightarrow> Kind \<Rightarrow> Kind outcome" where
  "env_kind e k =
     (case e of
        None \<Rightarrow> Return k
      | Some s \<Rightarrow>
          if s = ''vmem'' then Return KVmem
          else if s = ''uvm'' then Return KUvm
          else if s = ''cuda'' then Return KCuda
          else Throw Unsupported (''VMEM_BACKEND='' @ s @ '': expected vmem, uvm or cuda''))"

definition make_backend :: "Env \<Rightarrow> RtEnv \<Rightarrow> Kind \<Rightarrow> AnyBackend" where
  "make_backend env rt k =
     (case k of
        KCuda \<Rightarrow> CudaB rt \<lparr>k_used = 0, k_err = [], k_calls = []\<rparr>
      | KUvm \<Rightarrow> UvmB rt \<lparr>u_dev = 0, u_used = 0, u_err = [], u_calls = []\<rparr>
      | KVmem \<Rightarrow> VmemB env new_vmem)"

definition new_allocator ::
  "Env \<Rightarrow> RtEnv \<Rightarrow> string option \<Rightarrow> string option \<Rightarrow> Config \<Rightarrow> AnyBackend Allocator outcome" where
  \<comment> \<open>the environment variables VMEM_BACKEND and VMEM_DAEMON\<close>
  "new_allocator env rt e d cfg =
     (case env_kind e (cf_backend cfg) of
        Return k \<Rightarrow> construct any_backend d cfg (make_backend env rt k)
      | Throw s m \<Rightarrow> Throw s m
      | ThrowOutOfRange \<Rightarrow> ThrowOutOfRange
      | Undefined \<Rightarrow> Undefined)"

text \<open>The singleton: the API calls before \<open>init\<close> throw.\<close>

definition get :: "'b Allocator option \<Rightarrow> 'b Allocator outcome" where
  "get g = (case g of None \<Rightarrow> Throw Unsupported ''libvmem: call vmem::init() first'' | Some a \<Rightarrow> Return a)"

text \<open>\<open>alloc<T>(n)\<close>.\<close>

definition alloc_array :: "'b Backend \<Rightarrow> u64 \<Rightarrow> u64 \<Rightarrow> 'b Allocator \<Rightarrow> u64 outcome \<times> 'b Allocator" where
  "alloc_array be elem n a = alloc be (n * elem) a"

end
