(* ===== verification/Allocator_Inv.thy ===== *)
theory Allocator_Inv
  imports Allocator
begin

text \<open>
  The invariant of the allocator and the objects it has handed out. The facts about regions, slots
  and the \<open>partial_\<close> index are here; what the API calls do is in \<open>Allocator_Props\<close>.
\<close>

section \<open>Well-formed regions\<close>

text \<open>A region's key is its chunk's address; the chunk is not empty and does not wrap.\<close>

definition span_ok :: "u64 \<Rightarrow> Region \<Rightarrow> bool" where
  "span_ok base r \<longleftrightarrow> c_ptr (rg_c r) = base \<and> base \<noteq> 0 \<and> c_size (rg_c r) \<noteq> 0 \<and>
     unat base + unat (c_size (rg_c r)) < 2 ^ 64"

text \<open>
  A slab has one flag per slot that fits, the stack holds exactly the free slots, each once, and
  \<open>used\<close> is the number of the others.
\<close>

definition slab_ok :: "Region \<Rightarrow> bool" where
  "slab_ok r \<longleftrightarrow>
     length (rg_busy r) = unat (c_size (rg_c r)) div unat (rg_obj r) \<and>
     0 < length (rg_busy r) \<and> length (rg_busy r) < 2 ^ 32 \<and> distinct (rg_free r) \<and>
     (\<forall>s. s \<in> set (rg_free r) \<longleftrightarrow> unat s < length (rg_busy r) \<and> \<not> rg_busy r ! unat s) \<and>
     unat (rg_used r) + length (rg_free r) = length (rg_busy r)"

definition regions_ok :: "(u64 \<times> Region) list \<Rightarrow> bool" where
  "regions_ok m \<longleftrightarrow> om_ok m \<and>
     (\<forall>base r. map_of m base = Some r \<longrightarrow> span_ok base r \<and> (rg_obj r \<noteq> 0 \<longrightarrow> slab_ok r)) \<and>
     (\<forall>b1 r1 b2 r2. map_of m b1 = Some r1 \<longrightarrow> map_of m b2 = Some r2 \<longrightarrow> b1 \<noteq> b2 \<longrightarrow>
        apart b1 (c_size (rg_c r1)) b2 (c_size (rg_c r2)))"

text \<open>\<open>partial_[obj]\<close> holds exactly the slabs of that object size with a free slot.\<close>

definition parts_ok :: "(u64 \<times> Region) list \<Rightarrow> (u64 \<times> (u64 \<times> unit) list) list \<Rightarrow> bool" where
  "parts_ok m ps \<longleftrightarrow>
     (\<forall>obj s. map_of ps obj = Some s \<longrightarrow> om_ok s) \<and>
     (\<forall>obj base. obj \<noteq> 0 \<longrightarrow>
        (\<exists>s. map_of ps obj = Some s \<and> map_of s base \<noteq> None) =
        (\<exists>r. map_of m base = Some r \<and> rg_obj r = obj \<and> rg_free r \<noteq> []))"

definition alloc_ok :: "('b \<Rightarrow> bool) \<Rightarrow> ('b \<Rightarrow> Chunk \<Rightarrow> bool) \<Rightarrow> 'b Allocator \<Rightarrow> bool" where
  "alloc_ok ok owns a \<longleftrightarrow> ok (a_b a) \<and> regions_ok (a_regions a) \<and> parts_ok (a_regions a) (a_partial a) \<and>
     (\<forall>base r. map_of (a_regions a) base = Some r \<longrightarrow> owns (a_b a) (rg_c r))"

section \<open>Live objects\<close>

text \<open>\<open>obj_in r p k\<close>: the region holds a live object of \<open>k\<close> bytes at \<open>p\<close>.\<close>

definition obj_in :: "Region \<Rightarrow> u64 \<Rightarrow> u64 \<Rightarrow> bool" where
  "obj_in r p k \<longleftrightarrow>
     (if rg_obj r = 0 then p = c_ptr (rg_c r) \<and> k = c_size (rg_c r)
      else k = rg_obj r \<and>
        (\<exists>i < length (rg_busy r). rg_busy r ! i \<and> p = c_ptr (rg_c r) + of_nat i * rg_obj r))"

definition live_obj :: "'b Allocator \<Rightarrow> u64 \<Rightarrow> u64 \<Rightarrow> bool" where
  "live_obj a p k \<longleftrightarrow> (\<exists>base r. map_of (a_regions a) base = Some r \<and> obj_in r p k)"

text \<open>The \<open>k\<close> bytes at \<open>p\<close> lie inside the \<open>n\<close> bytes at \<open>base\<close>.\<close>

definition inside :: "u64 \<Rightarrow> u64 \<Rightarrow> u64 \<Rightarrow> u64 \<Rightarrow> bool" where
  "inside p k base n \<longleftrightarrow> unat base \<le> unat p \<and> unat p + unat k \<le> unat base + unat n"

lemma regions_okD:
  assumes "regions_ok m"
  shows "om_ok m" and "map_of m base = Some r \<Longrightarrow> span_ok base r"
    and "map_of m base = Some r \<Longrightarrow> rg_obj r \<noteq> 0 \<Longrightarrow> slab_ok r"
    and "map_of m b1 = Some r1 \<Longrightarrow> map_of m b2 = Some r2 \<Longrightarrow> b1 \<noteq> b2 \<Longrightarrow>
      apart b1 (c_size (rg_c r1)) b2 (c_size (rg_c r2))"
  using assms unfolding regions_ok_def by blast+

text \<open>The address of a slot, in \<open>nat\<close>.\<close>

lemma slot_address:
  assumes "span_ok base r" and "slab_ok r" and "i < length (rg_busy r)"
  shows "unat (base + of_nat i * rg_obj r) = unat base + i * unat (rg_obj r)"
    and "i * unat (rg_obj r) + unat (rg_obj r) \<le> unat (c_size (rg_c r))"
proof -
  have n: "length (rg_busy r) * unat (rg_obj r) \<le> unat (c_size (rg_c r))"
    using assms(2) by (simp add: slab_ok_def div_times_less_eq_dividend)
  have "Suc i * unat (rg_obj r) \<le> length (rg_busy r) * unat (rg_obj r)"
    using assms(3) by (intro mult_le_mono) simp_all
  with n show fit: "i * unat (rg_obj r) + unat (rg_obj r) \<le> unat (c_size (rg_c r))" by simp
  have i: "unat (of_nat i :: u64) = i"
    using assms(2,3) by (simp add: slab_ok_def unsigned_of_nat take_bit_eq_mod)
  have small: "unat base + i * unat (rg_obj r) < 2 ^ 64"
    using assms(1) fit by (simp add: span_ok_def)
  then have "unat (of_nat i * rg_obj r) = i * unat (rg_obj r)"
    using i unat_mult_lem [of "of_nat i :: u64" "rg_obj r"] by simp
  with small show "unat (base + of_nat i * rg_obj r) = unat base + i * unat (rg_obj r)"
    by (simp add: u64_add_no_wrap)
qed

lemma obj_inside:
  assumes "span_ok base r" and "rg_obj r \<noteq> 0 \<Longrightarrow> slab_ok r" and "obj_in r p k"
  shows "inside p k base (c_size (rg_c r))" and "k \<noteq> 0"
proof -
  have b: "c_ptr (rg_c r) = base" using assms(1) by (simp add: span_ok_def)
  show "inside p k base (c_size (rg_c r))"
  proof (cases "rg_obj r = 0")
    case True
    then show ?thesis using assms(3) b by (simp add: obj_in_def inside_def)
  next
    case False
    then obtain i where i: "i < length (rg_busy r)" "p = base + of_nat i * rg_obj r" "k = rg_obj r"
      using assms(3) b by (auto simp: obj_in_def)
    show ?thesis
      using slot_address [OF assms(1) assms(2) [OF False] i(1)] i(2,3) by (simp add: inside_def)
  qed
  show "k \<noteq> 0" using assms(1,3) by (auto simp: obj_in_def span_ok_def split: if_splits)
qed

text \<open>Two objects of one region: the same, or apart.\<close>

lemma slots_apart:
  assumes "span_ok base r" and "rg_obj r \<noteq> 0 \<Longrightarrow> slab_ok r" and "obj_in r p k" and "obj_in r q m" and "p \<noteq> q"
  shows "apart p k q m"
proof (cases "rg_obj r = 0")
  case True
  then show ?thesis using assms(3-5) by (simp add: obj_in_def)
next
  case False
  have b: "c_ptr (rg_c r) = base" using assms(1) by (simp add: span_ok_def)
  obtain i j where i: "i < length (rg_busy r)" "p = base + of_nat i * rg_obj r" "k = rg_obj r"
    and j: "j < length (rg_busy r)" "q = base + of_nat j * rg_obj r" "m = rg_obj r"
    using assms(3,4) b False by (auto simp: obj_in_def)
  have "i < j \<or> j < i" using assms(5) i j by (cases i j rule: linorder_cases) auto
  then have "Suc i * unat (rg_obj r) \<le> j * unat (rg_obj r) \<or> Suc j * unat (rg_obj r) \<le> i * unat (rg_obj r)"
    by (metis Suc_leI mult_le_mono1)
  then show ?thesis
    using slot_address(1) [OF assms(1) assms(2) [OF False] i(1)]
      slot_address(1) [OF assms(1) assms(2) [OF False] j(1)] i j
    by (auto simp: apart_def)
qed

lemma inside_apart:
  "inside p k b n \<Longrightarrow> inside q m c l \<Longrightarrow> apart b n c l \<Longrightarrow> apart p k q m"
  by (auto simp: inside_def apart_def)

lemma live_objs_apart:
  assumes "regions_ok (a_regions a)" and "live_obj a p k" and "live_obj a q m" and "p \<noteq> q"
  shows "apart p k q m"
proof -
  obtain b r where r: "map_of (a_regions a) b = Some r" "obj_in r p k" using assms(2) by (auto simp: live_obj_def)
  obtain c s where s: "map_of (a_regions a) c = Some s" "obj_in s q m" using assms(3) by (auto simp: live_obj_def)
  note k = regions_okD [OF assms(1)]
  show ?thesis
  proof (cases "b = c")
    case True
    then show ?thesis using slots_apart [OF k(2) [OF r(1)] k(3) [OF r(1)] r(2) _ assms(4)] r s by simp
  next
    case False
    show ?thesis
      using inside_apart [OF obj_inside(1) [OF k(2) [OF r(1)] k(3) [OF r(1)] r(2)]
          obj_inside(1) [OF k(2) [OF s(1)] k(3) [OF s(1)] s(2)] k(4) [OF r(1) s(1) False]] .
  qed
qed

lemma live_obj_unique:
  assumes "regions_ok (a_regions a)" and "live_obj a p k" and "live_obj a p m"
  shows "k = m"
proof -
  obtain b r where r: "map_of (a_regions a) b = Some r" "obj_in r p k" using assms(2) by (auto simp: live_obj_def)
  obtain c s where s: "map_of (a_regions a) c = Some s" "obj_in s p m" using assms(3) by (auto simp: live_obj_def)
  note k = regions_okD [OF assms(1)]
  have i: "inside p k b (c_size (rg_c r))" "k \<noteq> 0" "inside p m c (c_size (rg_c s))" "m \<noteq> 0"
    using obj_inside [OF k(2) [OF r(1)] k(3) [OF r(1)] r(2)] obj_inside [OF k(2) [OF s(1)] k(3) [OF s(1)] s(2)]
    by blast+
  have "b = c"
  proof (rule ccontr)
    assume "b \<noteq> c"
    from inside_apart [OF i(1,3) k(4) [OF r(1) s(1) this]] have "apart p k p m" .
    then show False using i(2,4) by (auto simp: apart_def unat_eq_0)
  qed
  then show ?thesis using r s by (auto simp: obj_in_def split: if_splits)
qed

section \<open>Finding a region\<close>

text \<open>\<open>lookup\<close> finds the region whose chunk contains the address, if there is one.\<close>

lemma in_span:
  assumes "span_ok base r"
  shows "p < base + c_size (rg_c r) \<longleftrightarrow> unat p < unat base + unat (c_size (rg_c r))"
  using assms u64_add_no_wrap [of base "c_size (rg_c r)"] by (simp add: span_ok_def word_less_nat_alt)

lemma lookup_iff:
  assumes "regions_ok (a_regions a)"
  shows "lookup p a = Some (base, r) \<longleftrightarrow>
    map_of (a_regions a) base = Some r \<and> unat base \<le> unat p \<and> unat p < unat base + unat (c_size (rg_c r))"
proof -
  note k = regions_okD [OF assms]
  have dir: "map_of (a_regions a) b = Some s \<and> unat b \<le> unat p \<and> unat p < unat b + unat (c_size (rg_c s))"
    if l: "lookup p a = Some (b, s)" for b s
  proof -
    have f: "om_floor (a_regions a) p = Some (b, s)" "p < b + c_size (rg_c s)"
      using l by (auto simp: lookup_def split: option.splits if_splits)
    from floor_Some [OF k(1) f(1)] have m: "map_of (a_regions a) b = Some s" "b \<le> p" by simp_all
    then show ?thesis using in_span [OF k(2) [OF m(1)]] f(2) by (simp add: word_le_nat_alt)
  qed
  moreover have "lookup p a = Some (base, r)"
    if m: "map_of (a_regions a) base = Some r" "unat base \<le> unat p" "unat p < unat base + unat (c_size (rg_c r))"
  proof -
    have "base \<in> fst ` set (a_regions a)" using map_of_SomeD [OF m(1)] by force
    then have "om_floor (a_regions a) p \<noteq> None"
      using floor_None_iff [OF k(1), of p] m(2) by (auto simp: word_less_nat_alt)
    then obtain b s where f: "om_floor (a_regions a) p = Some (b, s)" by auto
    note fl = floor_Some [OF k(1) f]
    have le: "base \<le> b" by (rule fl(3)) (use m in \<open>auto simp: word_le_nat_alt\<close>)
    have "base = b"
    proof (rule ccontr)
      assume "base \<noteq> b"
      have "0 < unat (c_size (rg_c s))" using k(2) [OF fl(1)] by (simp add: span_ok_def unat_gt_0)
      with k(4) [OF m(1) fl(1) \<open>base \<noteq> b\<close>] show False
        using le m(3) fl(2) by (auto simp: apart_def word_le_nat_alt)
    qed
    then show ?thesis using f fl(1) m in_span [OF k(2) [OF m(1)]] by (simp add: lookup_def)
  qed
  ultimately show ?thesis by blast
qed

end
