(* ===== verification/Allocator_Steps.thy ===== *)
theory Allocator_Steps
  imports Allocator_Inv
begin

text \<open>
  What each step of the allocator does to the regions, the \<open>partial_\<close> index and the live objects.
  The steps that call the backend are proved in the locale \<open>backend\<close>, from its laws alone.
\<close>

section \<open>Sizes\<close>

text \<open>\<open>bit_ceil\<close> is the least power of two that is at least its argument.\<close>

lemma pow2_from_spec:
  assumes "j + k = 63" and "x \<le> 0x8000000000000000"
  shows "\<exists>i. j \<le> i \<and> i \<le> 63 \<and> pow2_from k (2 ^ j) x = 2 ^ i \<and> x \<le> 2 ^ i \<and> (\<forall>m. j \<le> m \<longrightarrow> m < i \<longrightarrow> 2 ^ m < x)"
  using assms
proof (induction k arbitrary: j)
  case 0
  then show ?case by (intro exI [of _ 63]) simp
next
  case (Suc k)
  show ?case
  proof (cases "x \<le> 2 ^ j")
    case True
    then show ?thesis using Suc.prems by (intro exI [of _ j]) simp
  next
    case False
    obtain i where i: "Suc j \<le> i" "i \<le> 63" "pow2_from k (2 ^ Suc j) x = 2 ^ i" "x \<le> 2 ^ i"
      "\<forall>m. Suc j \<le> m \<longrightarrow> m < i \<longrightarrow> 2 ^ m < x"
      using Suc.IH [of "Suc j"] Suc.prems by auto
    have "2 ^ m < x" if "j \<le> m" "m < i" for m
      using that i(5) False by (cases "m = j") auto
    then show ?thesis using i False by (intro exI [of _ i]) auto
  qed
qed

lemma bit_ceil_spec:
  assumes "bit_ceil x = Some p"
  shows "x \<le> p" and "\<exists>i\<le>63. p = 2 ^ i" and "x \<le> 2 ^ m \<Longrightarrow> m \<le> 63 \<Longrightarrow> p \<le> 2 ^ m" and "p \<noteq> 0"
proof -
  have "x \<le> 0x8000000000000000" "p = pow2_from 63 (2 ^ 0) x"
    using assms by (auto simp: bit_ceil_def split: if_splits)
  with pow2_from_spec [of 0 63 x] obtain i where
    i: "i \<le> 63" "p = 2 ^ i" "x \<le> 2 ^ i" "\<forall>m. m < i \<longrightarrow> 2 ^ m < x" by auto
  show "x \<le> p" using i by simp
  show "\<exists>i\<le>63. p = 2 ^ i" using i by blast
  have v: "unat (2 ^ k :: u64) = 2 ^ k" if "k \<le> 63" for k
  proof -
    have "(2 :: nat) ^ k < 2 ^ 64" using that by (intro power_strict_increasing) simp_all
    then have "unat (of_nat (2 ^ k) :: u64) = 2 ^ k" by (simp only: unsigned_of_nat take_bit_eq_mod) simp
    then show ?thesis by simp
  qed
  have "unat p \<noteq> 0" using v [OF i(1)] i(2) by simp
  then show "p \<noteq> 0" by auto
  show "p \<le> 2 ^ m" if m: "x \<le> 2 ^ m" "m \<le> 63"
  proof -
    have "\<not> m < i" using i(4) m(1) by (meson leD)
    then show ?thesis using i(1,2) m(2) v by (simp add: word_le_nat_alt power_increasing)
  qed
qed

lemma bit_ceil_mono:
  assumes "bit_ceil y = Some q" and "x \<le> y"
  obtains p where "bit_ceil x = Some p" and "p \<le> q"
proof -
  have "y \<le> 0x8000000000000000" using assms(1) by (auto simp: bit_ceil_def split: if_splits)
  then have "x \<le> 0x8000000000000000" using assms(2) by (rule order_trans [rotated])
  then have p: "bit_ceil x = Some (pow2_from 63 1 x)" by (simp add: bit_ceil_def)
  obtain m where m: "m \<le> 63" "q = 2 ^ m" using bit_ceil_spec(2) [OF assms(1)] by blast
  have "x \<le> 2 ^ m" using bit_ceil_spec(1) [OF assms(1)] assms(2) m(2) by simp
  from bit_ceil_spec(3) [OF p this m(1)] m(2) show ?thesis by (intro that [OF p]) simp
qed

text \<open>\<open>round_up\<close>: when nothing wraps, the least multiple of the granularity that is at least \<open>x\<close>.\<close>

lemma round_up_nat:
  assumes "g \<noteq> 0" and "unat x + unat g \<le> 2 ^ 64"
  shows "unat (round_up g x) = (unat x + (unat g - 1)) div unat g * unat g"
    and "unat x \<le> unat (round_up g x)" and "unat (round_up g x) < unat x + unat g"
proof -
  have g: "1 \<le> unat g" using assms(1) by (simp add: unat_gt_0 Suc_leI)
  have g1: "unat (g - 1) = unat g - 1" using g by (simp add: unat_sub word_le_nat_alt)
  have s: "unat (x + g - 1) = unat x + (unat g - 1)"
    using u64_add_no_wrap [of x "g - 1"] assms(2) g g1 by (simp add: algebra_simps)
  have le: "(unat x + (unat g - 1)) div unat g * unat g \<le> unat x + (unat g - 1)"
    by (rule div_times_less_eq_dividend)
  have "(unat x + (unat g - 1)) div unat g * unat g < 2 ^ 64"
    using le assms(2) g by linarith
  then show e: "unat (round_up g x) = (unat x + (unat g - 1)) div unat g * unat g"
    using s unat_mult_lem [of "(x + g - 1) div g" g] by (simp add: round_up_def unat_div)
  have "unat x + (unat g - 1) < (unat x + (unat g - 1)) div unat g * unat g + unat g"
    using g dividend_less_div_times [of "unat g" "unat x + (unat g - 1)"] by simp
  then show "unat x \<le> unat (round_up g x)" using e by linarith
  show "unat (round_up g x) < unat x + unat g" using e le g by linarith
qed

section \<open>Writing and erasing regions\<close>

lemma regions_put:
  assumes m: "regions_ok m" and r: "span_ok base r" "rg_obj r \<noteq> 0 \<Longrightarrow> slab_ok r"
    and apt: "\<And>b s. map_of m b = Some s \<Longrightarrow> b \<noteq> base \<Longrightarrow> apart b (c_size (rg_c s)) base (c_size (rg_c r))"
  shows "regions_ok (om_put base r m)"
proof -
  note k = regions_okD [OF m]
  have sym: "apart base (c_size (rg_c r)) b (c_size (rg_c s))" if "map_of m b = Some s" "b \<noteq> base" for b s
    using apt [OF that] by (auto simp: apart_def)
  show ?thesis
    unfolding regions_ok_def get_put
  proof (intro conjI allI impI)
    show "om_ok (om_put base r m)" by (rule ok_put [OF k(1)])
  next
    fix b s assume "((map_of m)(base \<mapsto> r)) b = Some s"
    then show "span_ok b s" using r(1) k(2) by (cases "b = base") auto
  next
    fix b s assume "((map_of m)(base \<mapsto> r)) b = Some s" "rg_obj s \<noteq> 0"
    then show "slab_ok s" using r(2) k(3) by (cases "b = base") auto
  next
    fix b1 r1 b2 r2
    assume "((map_of m)(base \<mapsto> r)) b1 = Some r1" "((map_of m)(base \<mapsto> r)) b2 = Some r2" "b1 \<noteq> b2"
    then show "apart b1 (c_size (rg_c r1)) b2 (c_size (rg_c r2))"
      using apt sym k(4) by (cases "b1 = base"; cases "b2 = base") auto
  qed
qed

text \<open>A region that keeps its chunk's address and size.\<close>

lemma regions_replace:
  assumes "regions_ok m" and "map_of m base = Some r" and "rg_obj r' \<noteq> 0 \<Longrightarrow> slab_ok r'"
    and "c_ptr (rg_c r') = c_ptr (rg_c r)" and "c_size (rg_c r') = c_size (rg_c r)"
  shows "regions_ok (om_put base r' m)"
proof (rule regions_put [OF assms(1) _ assms(3)])
  note k = regions_okD [OF assms(1)]
  show "span_ok base r'" using k(2) [OF assms(2)] assms(4,5) by (simp add: span_ok_def)
  show "apart b (c_size (rg_c s)) base (c_size (rg_c r'))" if "map_of m b = Some s" "b \<noteq> base" for b s
    using k(4) [OF that(1) assms(2) that(2)] assms(5) by simp
qed

lemma regions_del:
  assumes "regions_ok m"
  shows "regions_ok (om_del base m)"
proof -
  note k = regions_okD [OF assms]
  have g: "map_of (om_del base m) b = Some s \<Longrightarrow> map_of m b = Some s" for b s
    using get_del [OF k(1), of base] by (auto split: if_splits)
  show ?thesis
    unfolding regions_ok_def using ok_del [OF k(1)] k(2-4) g by blast
qed

section \<open>The index of slabs with a free slot\<close>

definition indexed :: "(u64 \<times> (u64 \<times> unit) list) list \<Rightarrow> u64 \<Rightarrow> u64 \<Rightarrow> bool" where
  "indexed ps obj base \<longleftrightarrow> (\<exists>s. map_of ps obj = Some s \<and> map_of s base \<noteq> None)"

definition open_slab :: "(u64 \<times> Region) list \<Rightarrow> u64 \<Rightarrow> u64 \<Rightarrow> bool" where
  "open_slab m obj base \<longleftrightarrow> (\<exists>r. map_of m base = Some r \<and> rg_obj r = obj \<and> rg_free r \<noteq> [])"

definition sets_ok :: "(u64 \<times> (u64 \<times> unit) list) list \<Rightarrow> bool" where
  "sets_ok ps \<longleftrightarrow> (\<forall>obj s. map_of ps obj = Some s \<longrightarrow> om_ok s)"

lemma parts_ok_iff:
  "parts_ok m ps \<longleftrightarrow> sets_ok ps \<and> (\<forall>obj base. obj \<noteq> 0 \<longrightarrow> indexed ps obj base = open_slab m obj base)"
  by (simp add: parts_ok_def sets_ok_def indexed_def open_slab_def)

lemma part_fields [simp]:
  "a_regions (set_part obj s a) = a_regions a" "a_b (set_part obj s a) = a_b a"
  "a_dead (set_part obj s a) = a_dead a" "a_cfg (set_part obj s a) = a_cfg a"
  "a_regions (part_insert obj base a) = a_regions a" "a_b (part_insert obj base a) = a_b a"
  "a_dead (part_insert obj base a) = a_dead a" "a_cfg (part_insert obj base a) = a_cfg a"
  "a_regions (part_erase obj base a) = a_regions a" "a_b (part_erase obj base a) = a_b a"
  "a_dead (part_erase obj base a) = a_dead a" "a_cfg (part_erase obj base a) = a_cfg a"
  "a_partial (put_region base r a) = a_partial a" "a_b (put_region base r a) = a_b a"
  "a_dead (put_region base r a) = a_dead a" "a_cfg (put_region base r a) = a_cfg a"
  "a_regions (put_region base r a) = om_put base r (a_regions a)"
  by (simp_all add: set_part_def part_insert_def part_erase_def put_region_def)

lemma sets_part_of: "sets_ok (a_partial a) \<Longrightarrow> om_ok (part_of obj a)"
  by (auto simp: sets_ok_def part_of_def split: option.splits)

lemma sets_set_part: "sets_ok (a_partial a) \<Longrightarrow> om_ok s \<Longrightarrow> sets_ok (a_partial (set_part obj s a))"
  by (auto simp: sets_ok_def set_part_def get_put)

lemma indexed_set_part:
  "indexed (a_partial (set_part obj s a)) o1 b \<longleftrightarrow>
     (if o1 = obj then map_of s b \<noteq> None else indexed (a_partial a) o1 b)"
  by (simp add: indexed_def set_part_def get_put)

lemma indexed_part_of: "map_of (part_of obj a) b \<noteq> None \<longleftrightarrow> indexed (a_partial a) obj b"
  by (simp add: indexed_def part_of_def split: option.splits)

lemma indexed_insert:
  assumes "sets_ok (a_partial a)"
  shows "sets_ok (a_partial (part_insert obj base a))"
    and "indexed (a_partial (part_insert obj base a)) o1 b \<longleftrightarrow> indexed (a_partial a) o1 b \<or> o1 = obj \<and> b = base"
  using sets_set_part [OF assms ok_put [OF sets_part_of [OF assms]]] indexed_part_of [of obj a b]
  by (auto simp: part_insert_def indexed_set_part get_put)

lemma indexed_erase:
  assumes "sets_ok (a_partial a)"
  shows "sets_ok (a_partial (part_erase obj base a))"
    and "indexed (a_partial (part_erase obj base a)) o1 b \<longleftrightarrow> indexed (a_partial a) o1 b \<and> \<not> (o1 = obj \<and> b = base)"
  using sets_set_part [OF assms ok_del [OF sets_part_of [OF assms]]] indexed_part_of [of obj a b]
    get_del [OF sets_part_of [OF assms], of base obj]
  by (auto simp: part_erase_def indexed_set_part)

lemma indexed_touch:
  assumes "sets_ok (a_partial a)"
  shows "sets_ok (a_partial (set_part obj (part_of obj a) a))"
    and "indexed (a_partial (set_part obj (part_of obj a) a)) o1 b = indexed (a_partial a) o1 b"
  using sets_set_part [OF assms sets_part_of [OF assms]] indexed_part_of [of obj a b]
  by (auto simp: indexed_set_part)

lemma open_slab_put:
  "open_slab (om_put base r m) obj b \<longleftrightarrow>
     (if b = base then rg_obj r = obj \<and> rg_free r \<noteq> [] else open_slab m obj b)"
  by (simp add: open_slab_def get_put)

lemma open_slab_del:
  "om_ok m \<Longrightarrow> open_slab (om_del base m) obj b \<longleftrightarrow> b \<noteq> base \<and> open_slab m obj b"
  by (simp add: open_slab_def get_del)

section \<open>Live objects under the updates\<close>

lemma live_obj_put:
  "a_regions a' = om_put base r (a_regions a) \<Longrightarrow>
     live_obj a' q k \<longleftrightarrow> obj_in r q k \<or> (\<exists>b s. b \<noteq> base \<and> map_of (a_regions a) b = Some s \<and> obj_in s q k)"
  by (auto simp: live_obj_def get_put split: if_splits)

lemma live_obj_split:
  "map_of (a_regions a) base = Some r \<Longrightarrow>
     live_obj a q k \<longleftrightarrow> obj_in r q k \<or> (\<exists>b s. b \<noteq> base \<and> map_of (a_regions a) b = Some s \<and> obj_in s q k)"
  by (auto simp: live_obj_def) (metis option.inject)

lemma live_obj_absent:
  "map_of (a_regions a) base = None \<Longrightarrow>
     live_obj a q k \<longleftrightarrow> (\<exists>b s. b \<noteq> base \<and> map_of (a_regions a) b = Some s \<and> obj_in s q k)"
  by (auto simp: live_obj_def) (metis option.distinct(1))

lemma live_obj_del:
  "a_regions a' = om_del base (a_regions a) \<Longrightarrow> om_ok (a_regions a) \<Longrightarrow>
     live_obj a' q k \<longleftrightarrow> (\<exists>b s. b \<noteq> base \<and> map_of (a_regions a) b = Some s \<and> obj_in s q k)"
  by (auto simp: live_obj_def get_del split: if_splits)

lemma live_obj_cong: "a_regions a' = a_regions a \<Longrightarrow> live_obj a' q k = live_obj a q k"
  by (simp add: live_obj_def)

text \<open>A live object lies in the region that \<open>lookup\<close> finds for its address.\<close>

lemma live_obj_lookup:
  assumes "regions_ok (a_regions a)"
  shows "live_obj a p k \<longleftrightarrow> (\<exists>base r. lookup p a = Some (base, r) \<and> obj_in r p k)"
proof
  assume "live_obj a p k"
  then obtain b r where r: "map_of (a_regions a) b = Some r" "obj_in r p k" by (auto simp: live_obj_def)
  note k = regions_okD [OF assms]
  have i: "inside p k b (c_size (rg_c r))" "k \<noteq> 0"
    using obj_inside [OF k(2) [OF r(1)] k(3) [OF r(1)] r(2)] by blast+
  then have "unat k \<noteq> 0" by (simp add: unat_eq_0)
  then have "lookup p a = Some (b, r)" using lookup_iff [OF assms] r(1) i(1) by (simp add: inside_def)
  then show "\<exists>base r. lookup p a = Some (base, r) \<and> obj_in r p k" using r(2) by blast
next
  assume "\<exists>base r. lookup p a = Some (base, r) \<and> obj_in r p k"
  then show "live_obj a p k" using lookup_iff [OF assms] by (auto simp: live_obj_def)
qed

section \<open>Slabs\<close>

lemma inj_unat: "inj_on unat (A :: 'n::len word set)"
  by (rule inj_onI) (simp add: word_unat_eq_iff)

lemma used_bound: "slab_ok r \<Longrightarrow> unat (rg_used r) + length (rg_free r) < 2 ^ 32"
  by (simp add: slab_ok_def)

lemma slab_update:
  assumes "slab_ok r" and "rg_c r' = rg_c r" and "rg_obj r' = rg_obj r" and len: "length (rg_busy r') = length (rg_busy r)"
    and "distinct (rg_free r')"
    and "\<And>s. s \<in> set (rg_free r') \<longleftrightarrow> unat s < length (rg_busy r) \<and> \<not> rg_busy r' ! unat s"
    and "unat (rg_used r') + length (rg_free r') = length (rg_busy r)"
  shows "slab_ok r'"
  using assms unfolding slab_ok_def len by metis

text \<open>Taking the slot on top of the stack.\<close>

lemma slab_take:
  assumes ok: "slab_ok r" and ne: "rg_free r \<noteq> []" and slot: "slot = last (rg_free r)"
    and r': "r' = r\<lparr>rg_free := butlast (rg_free r), rg_busy := (rg_busy r)[unat slot := True], rg_used := rg_used r + 1\<rparr>"
  shows "unat slot < length (rg_busy r)" and "\<not> rg_busy r ! unat slot" and "slab_ok r'"
proof -
  have mem: "slot \<in> set (rg_free r)" using ne slot by simp
  then show len: "unat slot < length (rg_busy r)" and "\<not> rg_busy r ! unat slot"
    using ok by (simp_all add: slab_ok_def)
  have fr: "rg_free r = butlast (rg_free r) @ [slot]" using ne slot by simp
  have d: "distinct (rg_free r)" using ok by (simp add: slab_ok_def)
  then have notin: "slot \<notin> set (butlast (rg_free r))" by (subst (asm) fr) simp
  have sets: "set (butlast (rg_free r)) = set (rg_free r) - {slot}"
    using notin by (subst (2) fr) auto
  have "unat (rg_used r) + 1 < 2 ^ 32" using used_bound [OF ok] ne by (cases "rg_free r") simp_all
  then have u: "unat (rg_used r + 1) = unat (rg_used r) + 1"
    using unat_add_lem [of "rg_used r" 1] by simp
  have pos: "0 < length (rg_free r)" using ne by simp
  have iff: "s \<in> set (rg_free r) \<longleftrightarrow> unat s < length (rg_busy r) \<and> \<not> rg_busy r ! unat s" for s
    using ok by (simp add: slab_ok_def)
  have sum: "unat (rg_used r) + length (rg_free r) = length (rg_busy r)" using ok by (simp add: slab_ok_def)
  show "slab_ok r'"
  proof (rule slab_update [OF ok])
    show "s \<in> set (rg_free r') \<longleftrightarrow> unat s < length (rg_busy r) \<and> \<not> rg_busy r' ! unat s" for s
      using iff [of s] sets len by (cases "s = slot") (simp_all add: r' nth_list_update word_unat_eq_iff)
    show "unat (rg_used r') + length (rg_free r') = length (rg_busy r)" using u pos sum by (cases "length (rg_free r)") (simp_all add: r')
    show "distinct (rg_free r')" using d by (simp add: r' distinct_butlast)
  qed (simp_all add: r')
qed

text \<open>Giving a slot back.\<close>

lemma slab_give:
  assumes ok: "slab_ok r" and len: "unat slot < length (rg_busy r)" and busy: "rg_busy r ! unat slot"
    and r': "r' = r\<lparr>rg_busy := (rg_busy r)[unat slot := False], rg_free := rg_free r @ [slot], rg_used := rg_used r - 1\<rparr>"
  shows "slab_ok r'"
proof -
  have iff: "s \<in> set (rg_free r) \<longleftrightarrow> unat s < length (rg_busy r) \<and> \<not> rg_busy r ! unat s" for s
    using ok by (simp add: slab_ok_def)
  have notin: "slot \<notin> set (rg_free r)" using ok busy by (simp add: slab_ok_def)
  have "rg_used r \<noteq> 0"
  proof
    assume "rg_used r = 0"
    then have full: "length (rg_free r) = length (rg_busy r)" using ok by (simp add: slab_ok_def)
    have d: "distinct (map unat (rg_free r))"
      using ok by (simp add: slab_ok_def distinct_map inj_unat)
    have "unat s \<in> {..<length (rg_busy r)} - {unat slot}" if "s \<in> set (rg_free r)" for s
      using iff [of s] that busy by (cases "unat s = unat slot") simp_all
    then have "set (map unat (rg_free r)) \<subseteq> {..<length (rg_busy r)} - {unat slot}" by auto
    then have "card (set (map unat (rg_free r))) \<le> length (rg_busy r) - 1"
      using card_mono [of "{..<length (rg_busy r)} - {unat slot}"] len by fastforce
    then show False using distinct_card [OF d] full len by simp
  qed
  then have u: "unat (rg_used r - 1) = unat (rg_used r) - 1" "0 < unat (rg_used r)"
    by (simp_all add: unat_sub word_le_nat_alt unat_gt_0 Suc_leI)
  have sum: "unat (rg_used r) + length (rg_free r) = length (rg_busy r)" using ok by (simp add: slab_ok_def)
  show ?thesis
  proof (rule slab_update [OF ok])
    show "s \<in> set (rg_free r') \<longleftrightarrow> unat s < length (rg_busy r) \<and> \<not> rg_busy r' ! unat s" for s
      using iff [of s] len by (cases "s = slot") (simp_all add: r' nth_list_update word_unat_eq_iff)
    show "unat (rg_used r') + length (rg_free r') = length (rg_busy r)" using u sum by (simp add: r')
    show "distinct (rg_free r')" using ok notin by (simp add: r' slab_ok_def)
  qed (simp_all add: r')
qed

text \<open>A slab without used slots holds no object.\<close>

lemma slab_unused:
  assumes ok: "slab_ok r" and "rg_used r = 0" and "rg_obj r \<noteq> 0"
  shows "\<not> obj_in r q k"
proof -
  have full: "length (rg_free r) = length (rg_busy r)" using ok assms(2) by (simp add: slab_ok_def)
  have d: "distinct (map unat (rg_free r))" using ok by (simp add: slab_ok_def distinct_map inj_unat)
  have sub: "set (map unat (rg_free r)) \<subseteq> {..<length (rg_busy r)}" using ok by (auto simp: slab_ok_def)
  have "set (map unat (rg_free r)) = {..<length (rg_busy r)}"
    by (rule card_subset_eq [OF _ sub]) (use distinct_card [OF d] full in simp_all)
  then have "\<not> rg_busy r ! i" if "i < length (rg_busy r)" for i
  proof -
    have "i \<in> set (map unat (rg_free r))" using \<open>set (map unat (rg_free r)) = _\<close> that by simp
    then show ?thesis using ok by (auto simp: slab_ok_def)
  qed
  then show ?thesis using assms(3) by (auto simp: obj_in_def)
qed

text \<open>A new slab.\<close>

lemma new_slab:
  assumes c: "c_size c = sz" and obj: "obj \<noteq> 0" "obj \<le> sz" and n: "unat sz div unat obj < 2 ^ 32"
  shows "slab_ok (new_region c sz obj)" and "\<not> obj_in (new_region c sz obj) q k"
    and "rg_free (new_region c sz obj) \<noteq> []"
proof -
  have n': "unat (ucast (sz div obj) :: u32) = unat sz div unat obj"
    using n by (simp add: unsigned_ucast_eq take_bit_eq_mod unat_div)
  have pos: "0 < unat sz div unat obj"
    using obj by (simp add: div_greater_zero_iff word_le_nat_alt unat_gt_0)
  let ?n = "unat sz div unat obj"
  have fields: "rg_c (new_region c sz obj) = c" "rg_obj (new_region c sz obj) = obj"
    "rg_free (new_region c sz obj) = map of_nat (rev [0..<?n])" "rg_busy (new_region c sz obj) = replicate ?n False"
    "rg_used (new_region c sz obj) = 0"
    using obj(1) by (simp_all add: new_region_def Let_def n')
  have small: "unat (of_nat i :: u32) = i" if "i < ?n" for i
    using that n by (simp add: unsigned_of_nat take_bit_eq_mod)
  have mem: "s \<in> of_nat ` {0..<?n} \<longleftrightarrow> unat s < ?n" for s :: u32
  proof
    assume "unat s < ?n"
    then show "s \<in> of_nat ` {0..<?n}" by (intro image_eqI [of _ _ "unat s"]) simp_all
  qed (use small in auto)
  have inj: "inj_on (of_nat :: nat \<Rightarrow> u32) {0..<?n}"
    by (rule inj_on_inverseI [of _ unat]) (use small in simp)
  show "slab_ok (new_region c sz obj)"
    unfolding slab_ok_def fields using n pos inj mem by (auto simp: c distinct_map)
  show "\<not> obj_in (new_region c sz obj) q k" using obj(1) by (auto simp: obj_in_def fields)
  show "rg_free (new_region c sz obj) \<noteq> []" using pos by (simp add: fields)
qed

text \<open>The objects of a slab whose flag for one slot is set or cleared.\<close>

lemma slot_inj:
  assumes "span_ok base r" and "slab_ok r" and "i < length (rg_busy r)" and "j < length (rg_busy r)" and "rg_obj r \<noteq> 0"
    and "base + of_nat i * rg_obj r = base + of_nat j * rg_obj r"
  shows "i = j"
proof -
  have "i * unat (rg_obj r) = j * unat (rg_obj r)"
    using slot_address(1) [OF assms(1,2,3)] slot_address(1) [OF assms(1,2,4)] by (simp only: assms(6))
  then show ?thesis using assms(5) by (simp add: unat_eq_0)
qed

lemma obj_in_flag:
  assumes sp: "span_ok base r" and ok: "slab_ok r" and ob: "rg_obj r \<noteq> 0" and i: "i < length (rg_busy r)"
    and r': "rg_c r' = rg_c r" "rg_obj r' = rg_obj r" "rg_busy r' = (rg_busy r)[i := f]"
    and p: "p = base + of_nat i * rg_obj r"
  shows "obj_in r' q k \<longleftrightarrow> (if q = p then f \<and> k = rg_obj r else obj_in r q k)"
proof -
  have b: "c_ptr (rg_c r) = base" using sp by (simp add: span_ok_def)
  have e: "obj_in r' q k \<longleftrightarrow> k = rg_obj r \<and>
      (\<exists>j < length (rg_busy r). (if j = i then f else rg_busy r ! j) \<and> q = base + of_nat j * rg_obj r)"
    using ob by (auto simp: obj_in_def r' b nth_list_update)
  have o: "obj_in r q k \<longleftrightarrow> k = rg_obj r \<and> (\<exists>j < length (rg_busy r). rg_busy r ! j \<and> q = base + of_nat j * rg_obj r)"
    using ob by (auto simp: obj_in_def b)
  have u: "j = i" if "j < length (rg_busy r)" "p = base + of_nat j * rg_obj r" for j
    using slot_inj [OF sp ok that(1) i ob] that(2) p by simp
  show ?thesis
  proof (cases "q = p")
    case True
    have "(\<exists>j < length (rg_busy r). (if j = i then f else rg_busy r ! j) \<and> q = base + of_nat j * rg_obj r) = f"
      using u i p True by (metis (full_types))
    with True show ?thesis unfolding e by (simp add: conj_commute)
  next
    case False
    have "(\<exists>j < length (rg_busy r). (if j = i then f else rg_busy r ! j) \<and> q = base + of_nat j * rg_obj r) \<longleftrightarrow>
        (\<exists>j < length (rg_busy r). rg_busy r ! j \<and> q = base + of_nat j * rg_obj r)"
      using p False by (metis (full_types))
    with False show ?thesis unfolding e o by simp
  qed
qed

end
