(* ===== verification/Allocator_Calls.thy ===== *)
theory Allocator_Calls
  imports Allocator_Steps
begin

text \<open>
  One lemma per call of the allocator: what it returns, and what it does to the invariant and to the
  set of live objects. The lemmas inside \<open>context backend\<close> hold for any backend that keeps the contract.
\<close>

lemma alloc_okD:
  assumes "alloc_ok ok owns a"
  shows "ok (a_b a)" and "regions_ok (a_regions a)" and "sets_ok (a_partial a)"
    and "obj \<noteq> 0 \<Longrightarrow> indexed (a_partial a) obj base = open_slab (a_regions a) obj base"
    and "map_of (a_regions a) base = Some r \<Longrightarrow> owns (a_b a) (rg_c r)"
    and "map_of (a_regions a) base = Some r \<Longrightarrow> span_ok base r"
    and "map_of (a_regions a) base = Some r \<Longrightarrow> rg_obj r \<noteq> 0 \<Longrightarrow> slab_ok r"
  using assms regions_okD(2,3) by (auto simp: alloc_ok_def parts_ok_iff)

lemma alloc_okI:
  assumes "ok (a_b a)" and "regions_ok (a_regions a)" and "sets_ok (a_partial a)"
    and "\<And>obj base. obj \<noteq> 0 \<Longrightarrow> indexed (a_partial a) obj base = open_slab (a_regions a) obj base"
    and "\<And>base r. map_of (a_regions a) base = Some r \<Longrightarrow> owns (a_b a) (rg_c r)"
  shows "alloc_ok ok owns a"
  using assms by (simp add: alloc_ok_def parts_ok_iff)

lemma alloc_ok_touch:
  assumes "alloc_ok ok owns a"
  shows "alloc_ok ok owns (set_part obj (part_of obj a) a)"
  using alloc_okD [OF assms] indexed_touch [OF alloc_okD(3) [OF assms]]
  by (intro alloc_okI) auto

lemma alloc_ok_cong:
  "a_b a' = a_b a \<Longrightarrow> a_regions a' = a_regions a \<Longrightarrow> a_partial a' = a_partial a \<Longrightarrow>
     alloc_ok ok owns a' = alloc_ok ok owns a"
  by (simp add: alloc_ok_def)

lemma slot_offset: "base + ucast (s :: u32) * obj = base + of_nat (unat s) * (obj :: u64)"
  by simp

lemma take_slot_step:
  assumes ok: "alloc_ok ok owns a" and r: "map_of (a_regions a) base = Some r" and obj: "rg_obj r = obj" "obj \<noteq> 0"
    and fr: "rg_free r \<noteq> []"
  obtains p a' where "take_slot obj base a = (Return p, a')" and "alloc_ok ok owns a'" and "a_b a' = a_b a"
    and "a_dead a' = a_dead a" and "a_cfg a' = a_cfg a" and "p \<noteq> 0" and "\<And>k. \<not> live_obj a p k"
    and "\<And>q k. live_obj a' q k \<longleftrightarrow> live_obj a q k \<or> q = p \<and> k = obj"
proof -
  note K = alloc_okD [OF ok]
  have sp: "span_ok base r" by (rule K(6) [OF r])
  have sl: "slab_ok r" using K(7) [OF r] obj by simp
  have b: "c_ptr (rg_c r) = base" "base \<noteq> 0" using sp by (simp_all add: span_ok_def)
  define slot where "slot = last (rg_free r)"
  define r' where "r' = r\<lparr>rg_free := butlast (rg_free r), rg_busy := (rg_busy r)[unat slot := True], rg_used := rg_used r + 1\<rparr>"
  note T = slab_take [OF sl fr slot_def r'_def]
  define p where "p = base + ucast slot * obj"
  have p: "p = base + of_nat (unat slot) * rg_obj r" using slot_offset [of base slot obj] obj(1) by (simp add: p_def)
  define a' where "a' = (if rg_free r' = [] then part_erase obj base (put_region base r' a) else put_region base r' a)"
  have run: "take_slot obj base a = (Return p, a')"
    using fr T(1) by (simp add: take_slot_def r b slot_def [symmetric] r'_def [symmetric] p_def a'_def Let_def not_le)
      (simp add: r'_def b)
  have reg: "a_regions a' = om_put base r' (a_regions a)" by (simp add: a'_def)
  have f: "a_b a' = a_b a" "a_dead a' = a_dead a" "a_cfg a' = a_cfg a" by (simp_all add: a'_def)
  have c: "rg_c r' = rg_c r" "rg_obj r' = rg_obj r" "rg_busy r' = (rg_busy r)[unat slot := True]" by (simp_all add: r'_def)
  have flag: "obj_in r' q k \<longleftrightarrow> (if q = p then True \<and> k = rg_obj r else obj_in r q k)" for q k
    by (rule obj_in_flag [OF sp sl _ T(1) c p]) (simp add: obj)
  have "rg_busy r = (rg_busy r)[unat slot := False]"
    using T(2) list_update_id [of "rg_busy r" "unat slot"] by simp
  then have none: "\<not> obj_in r p k" for k
    using obj_in_flag [OF sp sl _ T(1) refl refl, of False p p k] obj p by simp
  have ins: "obj_in r' p obj" using flag obj by simp
  have new: "\<not> live_obj a p k" for k
  proof
    assume "live_obj a p k"
    then obtain b' s where s: "map_of (a_regions a) b' = Some s" "obj_in s p k" by (auto simp: live_obj_def)
    have "b' \<noteq> base" using s none r by auto
    have i1: "inside p obj base (c_size (rg_c r))"
      using obj_inside(1) [of base r' p obj] sp T(3) ins c by (simp add: span_ok_def)
    have i2: "inside p k b' (c_size (rg_c s))" "k \<noteq> 0"
      using obj_inside [OF K(6) [OF s(1)] K(7) [OF s(1)] s(2)] by blast+
    from inside_apart [OF i2(1) i1 regions_okD(4) [OF K(2) s(1) r \<open>b' \<noteq> base\<close>]] have "apart p k p obj" .
    then show False using i2(2) obj(2) by (auto simp: apart_def unat_eq_0)
  qed
  have live: "live_obj a' q k \<longleftrightarrow> live_obj a q k \<or> q = p \<and> k = obj" for q k
    using live_obj_put [OF reg, of q k] live_obj_split [of a base r q k] r flag [of q k] obj(1) new by (cases "q = p") auto
  have i1: "inside p obj base (c_size (rg_c r))"
    using obj_inside(1) [of base r' p obj] sp T(3) ins c by (simp add: span_ok_def)
  have p0: "p \<noteq> 0" using i1 b(2) by (auto simp: inside_def unat_eq_0)
  have at_base: "open_slab (a_regions a) o1 base \<longleftrightarrow> o1 = obj" for o1 using r obj fr by (auto simp: open_slab_def)
  have "alloc_ok ok owns a'"
  proof (rule alloc_okI)
    show "ok (a_b a')" using K(1) f by simp
    show "regions_ok (a_regions a')" unfolding reg by (rule regions_replace [OF K(2) r T(3)]) (simp_all add: c)
    show "sets_ok (a_partial a')" using K(3) indexed_erase(1) [of "put_region base r' a"] by (simp add: a'_def)
    show "indexed (a_partial a') o1 x = open_slab (a_regions a') o1 x" if "o1 \<noteq> 0" for o1 x
      using K(4) [OF that, of x] indexed_erase(2) [of "put_region base r' a" obj base o1 x] K(3) at_base [of o1] obj
      by (cases "x = base") (auto simp: reg open_slab_put c a'_def)
    show "owns (a_b a') (rg_c s)" if "map_of (a_regions a') x = Some s" for x s
      using that K(5) r c(1) by (auto simp: reg get_put f split: if_splits)
  qed
  with run f p0 new live show ?thesis by (intro that)
qed

section \<open>alloc\<close>

text \<open>
  Sizes that leave no room for undefined behaviour: an object of every size the small pool serves
  fits in a slab, and the number of slots of a slab fits in 32 bits.
\<close>

definition pool_ok :: "Config \<Rightarrow> bool" where
  "pool_ok cfg \<longleftrightarrow>
     (case bit_ceil (max (cf_small_max cfg) (cf_min_obj cfg)) of
        None \<Rightarrow> False
      | Some m \<Rightarrow> m \<le> cf_small_chunk cfg) \<and>
     cf_small_chunk cfg div max 1 (cf_min_obj cfg) < 0x100000000"

lemma pool_obj:
  assumes "pool_ok cfg" and "n \<le> cf_small_max cfg"
  obtains obj where "bit_ceil (max n (cf_min_obj cfg)) = Some obj" and "n \<le> obj" and "obj \<noteq> 0"
    and "obj \<le> cf_small_chunk cfg" and "unat (cf_small_chunk cfg) div unat obj < 2 ^ 32"
proof -
  obtain m where m: "bit_ceil (max (cf_small_max cfg) (cf_min_obj cfg)) = Some m" "m \<le> cf_small_chunk cfg"
    and b: "cf_small_chunk cfg div max 1 (cf_min_obj cfg) < 0x100000000"
    using assms(1) by (auto simp: pool_ok_def split: option.splits)
  have "max n (cf_min_obj cfg) \<le> max (cf_small_max cfg) (cf_min_obj cfg)"
    using assms(2) by (simp add: max.coboundedI1)
  from bit_ceil_mono [OF m(1) this] obtain obj where
    o: "bit_ceil (max n (cf_min_obj cfg)) = Some obj" "obj \<le> m" by blast
  note c = bit_ceil_spec [OF o(1)]
  let ?low = "max 1 (cf_min_obj cfg)"
  have "cf_min_obj cfg \<le> obj" using c(1) by (metis max.cobounded2 order_trans)
  moreover have "1 \<le> obj" using c(4) by (simp add: word_le_nat_alt unat_gt_0 Suc_leI)
  ultimately have "unat ?low \<le> unat obj" by (simp add: word_le_nat_alt [symmetric])
  moreover have "0 < unat ?low" by (auto simp: unat_gt_0 max_def)
  ultimately have "unat (cf_small_chunk cfg) div unat obj \<le> unat (cf_small_chunk cfg) div unat ?low"
    by (rule div_le_mono2 [rotated])
  also have "\<dots> < 0x100000000" using b by (simp add: word_less_nat_alt unat_div)
  finally have "unat (cf_small_chunk cfg) div unat obj < 0x100000000" .
  then show ?thesis using that [OF o(1)] c(1,4) o(2) m(2) by simp
qed

text \<open>A region of the index can give a slot.\<close>

lemma part_head:
  assumes "alloc_ok ok owns a" and "obj \<noteq> 0" and "part_of obj a = (base, u) # rest"
  obtains r where "map_of (a_regions a) base = Some r" and "rg_obj r = obj" and "rg_free r \<noteq> []"
proof -
  have "indexed (a_partial a) obj base" using indexed_part_of [of obj a base] assms(3) by simp
  then have "open_slab (a_regions a) obj base" using alloc_okD(4) [OF assms(1,2)] by simp
  then show ?thesis using that by (auto simp: open_slab_def)
qed

text \<open>
  The result of \<open>alloc\<close>: an error with nothing changed, a null pointer with nothing changed, or an
  object of at least \<open>n\<close> bytes that was not live before.
\<close>

definition alloc_result :: "u64 \<Rightarrow> 'b Allocator \<Rightarrow> u64 outcome \<Rightarrow> 'b Allocator \<Rightarrow> bool" where
  "alloc_result n a r a' \<longleftrightarrow>
     (\<exists>s m. r = Throw s m \<and> s \<noteq> Ok \<and> a_dead a' = (s = Fatal) \<and> (\<forall>q j. live_obj a' q j = live_obj a q j)) \<or>
     (r = Return 0 \<and> \<not> a_dead a' \<and> (\<forall>q j. live_obj a' q j = live_obj a q j)) \<or>
     (\<exists>p k. r = Return p \<and> \<not> a_dead a' \<and> p \<noteq> 0 \<and> n \<le> k \<and> (\<forall>j. \<not> live_obj a p j) \<and>
        (\<forall>q j. live_obj a' q j \<longleftrightarrow> live_obj a q j \<or> q = p \<and> j = k))"

context backend
begin

text \<open>\<open>add\<close>: a new region, no memory, or the backend's error.\<close>

lemma add_step:
  assumes ok: "alloc_ok ok owns a" and sz: "sz \<noteq> 0"
    and obj: "obj \<noteq> 0 \<Longrightarrow> obj \<le> sz \<and> unat sz div unat obj < 2 ^ 32"
    and e: "add be sz obj a = (res, a')"
  shows "alloc_ok ok owns a'" and "a_cfg a' = a_cfg a"
    and "(res = Return None \<and> a_dead a' = a_dead a \<and> a_regions a' = a_regions a) \<or>
      (\<exists>s m. res = Throw s m \<and> s \<noteq> Ok \<and> a_dead a' = (a_dead a \<or> s = Fatal) \<and> a_regions a' = a_regions a) \<or>
      (\<exists>c. res = Return (Some (c_ptr c)) \<and> a_dead a' = a_dead a \<and> c_size c = sz \<and> c_ptr c \<noteq> 0 \<and>
        map_of (a_regions a) (c_ptr c) = None \<and> map_of (a_regions a') (c_ptr c) = Some (new_region c sz obj) \<and>
        (\<forall>k. \<not> live_obj a (c_ptr c) k) \<and>
        (\<forall>q k. live_obj a' q k \<longleftrightarrow> live_obj a q k \<or> obj = 0 \<and> q = c_ptr c \<and> k = sz))"
    (is "?none \<or> ?thrown \<or> ?new")
proof -
  note K = alloc_okD [OF ok]
  obtain s c b where b: "be_create be sz null_chunk (a_b a) = (s, c, b)" by (cases "be_create be sz null_chunk (a_b a)") auto
  define a1 where "a1 = a\<lparr>a_b := b\<rparr>"
  have e1: "add be sz obj a = (if s = NoMemory then (Return None, a1) else if s \<noteq> Ok then fail be s ''create'' a1
      else (let a2 = (if obj \<noteq> 0 then part_insert obj (c_ptr c) a1 else a1)
            in (Return (Some (c_ptr c)), if map_of (a_regions a2) (c_ptr c) = None
                 then put_region (c_ptr c) (new_region c sz obj) a2 else a2)))"
    by (simp add: add_def b a1_def Let_def)
  have bad: "alloc_ok ok owns a1" if "s \<noteq> Ok"
    using create_fail [OF K(1) b that] ok by (simp add: alloc_ok_def a1_def)
  have "alloc_ok ok owns a' \<and> a_cfg a' = a_cfg a \<and> (?none \<or> ?thrown \<or> ?new)"
  proof (cases "s = Ok")
    case False
    show ?thesis
    proof (cases "s = NoMemory")
      case True
      then show ?thesis using e e1 bad False by (auto simp: a1_def)
    next
      case n: False
      obtain m where "res = Throw s m" "a' = (if s = Fatal then a1\<lparr>a_dead := True\<rparr> else a1)"
        using e e1 n False by (auto simp: fail_def Let_def)
      with False show ?thesis
        using bad [OF False] alloc_ok_cong [of a' a1 ok owns] by (auto simp: a1_def split: if_splits)
    qed
  next
    case True
    from create_ok [OF K(1) sz b [unfolded True]] have
      C: "ok b" "owns b c" "c_size c = sz" "c_ptr c \<noteq> 0" "unat (c_ptr c) + unat sz < 2 ^ 64"
      and D: "\<And>d. owns (a_b a) d \<Longrightarrow> owns b d \<and> c_ptr d \<noteq> c_ptr c \<and> apart (c_ptr d) (c_size d) (c_ptr c) sz" by blast+
    have fresh: "map_of (a_regions a) (c_ptr c) = None"
    proof (cases "map_of (a_regions a) (c_ptr c)")
      case (Some r)
      from D [OF K(5) [OF Some]] K(6) [OF Some] show ?thesis by (simp add: span_ok_def)
    qed
    define r where "r = new_region c sz obj"
    have rc: "rg_c r = c" "rg_obj r = obj" by (simp_all add: r_def new_region_def Let_def)
    have slab: "slab_ok r \<and> (\<forall>q k. \<not> obj_in r q k) \<and> rg_free r \<noteq> []" if "obj \<noteq> 0"
      using new_slab [OF C(3) that] obj [OF that] by (simp add: r_def)
    define a2 where "a2 = (if obj \<noteq> 0 then part_insert obj (c_ptr c) a1 else a1)"
    have a': "res = Return (Some (c_ptr c))" "a' = put_region (c_ptr c) r a2"
      using e e1 True fresh by (auto simp: Let_def a2_def [symmetric] r_def a1_def)
        (simp_all add: a2_def a1_def split: if_splits)
    have f: "a_regions a2 = a_regions a" "a_b a2 = b" "a_dead a2 = a_dead a" "a_cfg a2 = a_cfg a"
      by (simp_all add: a2_def a1_def)
    have sets: "sets_ok (a_partial a1)" using K(3) by (simp add: a1_def)
    have reg: "a_regions a' = om_put (c_ptr c) r (a_regions a)" by (simp add: a' f)
    have at_base: "\<not> open_slab (a_regions a) o1 (c_ptr c)" for o1 using fresh by (simp add: open_slab_def)
    have "alloc_ok ok owns a'"
    proof (rule alloc_okI)
      show "ok (a_b a')" using C(1) f by (simp add: a')
      show "regions_ok (a_regions a')"
        unfolding reg
      proof (rule regions_put [OF K(2)])
        show "span_ok (c_ptr c) r" using C(3-5) sz by (simp add: span_ok_def rc)
        show "slab_ok r" if "rg_obj r \<noteq> 0" using slab that rc by simp
        show "apart x (c_size (rg_c s)) (c_ptr c) (c_size (rg_c r))" if s: "map_of (a_regions a) x = Some s" for x s
          using D [OF K(5) [OF s]] K(6) [OF s] C(3) by (simp add: rc span_ok_def)
      qed
      show "sets_ok (a_partial a')" using sets indexed_insert(1) [OF sets] by (simp add: a' a2_def)
      show "indexed (a_partial a') o1 x = open_slab (a_regions a') o1 x" if o1: "o1 \<noteq> 0" for o1 x
        using K(4) [OF o1, of x] indexed_insert(2) [OF sets, of obj "c_ptr c" o1 x] slab rc fresh o1
        at_base [of o1]
        by (cases "x = c_ptr c") (auto simp: reg open_slab_put a' a2_def, simp_all add: a1_def)
      show "owns (a_b a') (rg_c s)" if "map_of (a_regions a') x = Some s" for x s
      proof (cases "x = c_ptr c")
        case True
        then have "s = r" using that by (simp add: reg get_put)
        then show ?thesis using C(2) rc(1) f by (simp add: a')
      next
        case False
        then have "map_of (a_regions a) x = Some s" using that by (simp add: reg get_put)
        then show ?thesis using D [OF K(5)] f by (simp add: a')
      qed
    qed
    moreover have "obj_in r q k \<longleftrightarrow> obj = 0 \<and> q = c_ptr c \<and> k = sz" for q k
      using slab by (cases "obj = 0") (simp_all add: obj_in_def rc C(3))
    then have "live_obj a' q k \<longleftrightarrow> live_obj a q k \<or> obj = 0 \<and> q = c_ptr c \<and> k = sz" for q k
      unfolding live_obj_put [OF reg] live_obj_absent [OF fresh] by blast
    moreover have "\<not> live_obj a (c_ptr c) k" for k
    proof
      assume "live_obj a (c_ptr c) k"
      then obtain x s where s: "map_of (a_regions a) x = Some s" "obj_in s (c_ptr c) k" by (auto simp: live_obj_def)
      have i: "inside (c_ptr c) k x (c_size (rg_c s))" "k \<noteq> 0"
        using obj_inside [OF K(6) [OF s(1)] K(7) [OF s(1)] s(2)] by blast+
      have "c_ptr (rg_c s) = x" using K(6) [OF s(1)] by (simp add: span_ok_def)
      then have "apart x (c_size (rg_c s)) (c_ptr c) sz" using D [OF K(5) [OF s(1)]] by simp
      then show False using i sz unat_eq_0 [of k] unat_eq_0 [of sz] unfolding inside_def apart_def by linarith
    qed
    ultimately show ?thesis using a'(1) f C fresh by (auto simp: a' get_put r_def)
  qed
  then show "alloc_ok ok owns a'" "a_cfg a' = a_cfg a" "?none \<or> ?thrown \<or> ?new" by blast+
qed

lemma alloc_large:
  assumes ok: "alloc_ok ok owns a" and dead: "\<not> a_dead a" and n: "n \<noteq> 0" "n > cf_small_max (a_cfg a)"
    and gran: "be_granularity be (a_b a) \<noteq> 0" "unat n + unat (be_granularity be (a_b a)) \<le> 2 ^ 64"
    and e: "alloc be n a = (r, a')"
  shows "alloc_ok ok owns a' \<and> a_cfg a' = a_cfg a \<and> alloc_result n a r a'"
proof -
  let ?sz = "round_up (be_granularity be (a_b a)) n"
  obtain res a1 where ad: "add be ?sz 0 a = (res, a1)" by (cases "add be ?sz 0 a") auto
  have e': "obind (res, a1) (\<lambda>r a. case r of None \<Rightarrow> (Return 0, a)
      | Some base \<Rightarrow> (case map_of (a_regions a) base of None \<Rightarrow> (ThrowOutOfRange, a)
        | Some r \<Rightarrow> (Return (c_ptr (rg_c r)), a))) = (r, a')"
    using e n dead ad by (simp add: alloc_def live_def)
  have le: "n \<le> ?sz" using round_up_nat(2) [OF gran] by (simp add: word_le_nat_alt)
  have sz: "?sz \<noteq> 0" using le n(1) by (metis word_le_0_iff)
  note A = add_step [OF ok sz _ ad, simplified]
  have "alloc_result n a r a' \<and> a' = a1"
    using A(3)
  proof (elim disjE exE conjE)
    assume "res = Return None" "a_dead a1 = a_dead a" and g: "a_regions a1 = a_regions a"
    then show ?thesis using e' dead live_obj_cong [OF g] by (simp add: alloc_result_def)
  next
    fix s m assume "res = Throw s m" "s \<noteq> Ok" "a_dead a1 = (a_dead a \<or> s = Fatal)" and g: "a_regions a1 = a_regions a"
    then show ?thesis using e' dead live_obj_cong [OF g] by (auto simp: alloc_result_def)
  next
    fix c assume c: "res = Return (Some (c_ptr c))" "a_dead a1 = a_dead a" "c_ptr c \<noteq> 0"
      "map_of (a_regions a1) (c_ptr c) = Some (new_region c ?sz 0)" "\<forall>k. \<not> live_obj a (c_ptr c) k"
      "\<forall>q k. live_obj a1 q k \<longleftrightarrow> live_obj a q k \<or> q = c_ptr c \<and> k = ?sz"
    then have "r = Return (c_ptr c)" "a' = a1" using e' by (simp_all add: new_region_def)
    then show ?thesis using c(2,3,5,6) dead le unfolding alloc_result_def by blast
  qed
  then show ?thesis using A(1,2) by blast
qed

lemma take_result:
  assumes t: "take_slot obj base b = (r, a')" and b: "alloc_ok ok owns b" "\<not> a_dead b"
    "\<And>q j. live_obj b q j = live_obj a q j"
    and g: "map_of (a_regions b) base = Some rg" "rg_obj rg = obj" "rg_free rg \<noteq> []" and o: "obj \<noteq> 0" "n \<le> obj"
  shows "alloc_ok ok owns a' \<and> a_cfg a' = a_cfg b \<and> alloc_result n a r a'"
proof -
  obtain p a2 where p: "take_slot obj base b = (Return p, a2)" "alloc_ok ok owns a2" "a_dead a2 = a_dead b"
    "a_cfg a2 = a_cfg b" "p \<noteq> 0" "\<And>k. \<not> live_obj b p k"
    "\<And>q k. live_obj a2 q k \<longleftrightarrow> live_obj b q k \<or> q = p \<and> k = obj"
    by (rule take_slot_step [OF b(1) g(1,2) o(1) g(3)]) blast
  then have "r = Return p" "a' = a2" using t by simp_all
  then have "alloc_result n a r a'" using p b o(2) unfolding alloc_result_def by auto
  then show ?thesis using \<open>a' = a2\<close> p(2,4) by simp
qed

text \<open>A slab has to be made for the object.\<close>

lemma alloc_new_slab:
  assumes ok: "alloc_ok ok owns a" and dead: "\<not> a_dead a"
    and o: "n \<le> obj" "obj \<noteq> 0" "obj \<le> sz" "unat sz div unat obj < 2 ^ 32"
    and e: "obind (add be sz obj a) (\<lambda>r a. case r of None \<Rightarrow> (Return 0, a) | Some base \<Rightarrow> take_slot obj base a) = (r, a')"
  shows "alloc_ok ok owns a' \<and> a_cfg a' = a_cfg a \<and> alloc_result n a r a'"
proof -
  obtain res a1 where ad: "add be sz obj a = (res, a1)" by (cases "add be sz obj a") auto
  have sz: "sz \<noteq> 0" using o(2,3) by auto
  note A = add_step [OF ok sz conjI [OF o(3,4)] ad]
  show ?thesis
    using A(3)
  proof (elim disjE exE conjE)
    assume "res = Return None" "a_dead a1 = a_dead a" and g: "a_regions a1 = a_regions a"
    then show ?thesis using e ad dead live_obj_cong [OF g] A(1,2) by (auto simp: alloc_result_def)
  next
    fix s m assume "res = Throw s m" "s \<noteq> Ok" "a_dead a1 = (a_dead a \<or> s = Fatal)" and g: "a_regions a1 = a_regions a"
    then show ?thesis using e ad dead live_obj_cong [OF g] A(1,2) by (auto simp: alloc_result_def)
  next
    fix c assume c: "res = Return (Some (c_ptr c))" "a_dead a1 = a_dead a" "c_size c = sz"
      "map_of (a_regions a1) (c_ptr c) = Some (new_region c sz obj)"
      "\<forall>q k. live_obj a1 q k \<longleftrightarrow> live_obj a q k \<or> obj = 0 \<and> q = c_ptr c \<and> k = sz"
    have t: "take_slot obj (c_ptr c) a1 = (r, a')" using e ad c(1) by simp
    have "alloc_ok ok owns a' \<and> a_cfg a' = a_cfg a1 \<and> alloc_result n a r a'"
    proof (rule take_result [OF t A(1) _ _ c(4)])
      show "rg_free (new_region c sz obj) \<noteq> []" by (rule new_slab(3) [OF c(3) o(2-4)])
      show "live_obj a1 q j = live_obj a q j" for q j using c(5) o(2) by simp
    qed (use dead c(2) o(1,2) in \<open>simp_all add: new_region_def Let_def\<close>)
    then show ?thesis using A(2) by simp
  qed
qed

lemma alloc_small:
  assumes ok: "alloc_ok ok owns a" and dead: "\<not> a_dead a" and pool: "pool_ok (a_cfg a)"
    and n: "n \<noteq> 0" "n \<le> cf_small_max (a_cfg a)"
    and e: "alloc be n a = (r, a')"
  shows "alloc_ok ok owns a' \<and> a_cfg a' = a_cfg a \<and> alloc_result n a r a'"
proof -
  obtain obj where o: "bit_ceil (max n (cf_min_obj (a_cfg a))) = Some obj" "n \<le> obj" "obj \<noteq> 0"
    "obj \<le> cf_small_chunk (a_cfg a)" "unat (cf_small_chunk (a_cfg a)) div unat obj < 2 ^ 32"
    by (rule pool_obj [OF pool n(2)])
  define a0 where "a0 = set_part obj (part_of obj a) a"
  have a0: "alloc_ok ok owns a0" "a_cfg a0 = a_cfg a" "a_dead a0 = a_dead a" "a_regions a0 = a_regions a"
    using alloc_ok_touch [OF ok, of obj] by (simp_all add: a0_def)
  have e': "(case part_of obj a0 of (base, _) # _ \<Rightarrow> take_slot obj base a0
      | [] \<Rightarrow> obind (add be (cf_small_chunk (a_cfg a0)) obj a0)
                (\<lambda>r a. case r of None \<Rightarrow> (Return 0, a) | Some base \<Rightarrow> take_slot obj base a)) = (r, a')"
    using e n(1) leD [OF n(2)] o(1) dead a0(2) by (simp add: alloc_def live_def a0_def [symmetric] Let_def)
  have res: "alloc_result n a0 r a' = alloc_result n a r a'"
    unfolding alloc_result_def live_obj_cong [OF a0(4)] ..
  show ?thesis
  proof (cases "part_of obj a0")
    case (Cons x xs)
    obtain base u where x: "x = (base, u)" by (cases x) simp
    have t: "take_slot obj base a0 = (r, a')" using e' Cons x by simp
    obtain rg where g: "map_of (a_regions a0) base = Some rg" "rg_obj rg = obj" "rg_free rg \<noteq> []"
      by (rule part_head [OF a0(1) o(3) Cons [unfolded x]])
    show ?thesis
      using take_result [OF t a0(1) _ refl g o(3,2)] dead a0(2,3) res by simp
  next
    case Nil
    then show ?thesis
      using alloc_new_slab [OF a0(1) _ o(2,3), of "cf_small_chunk (a_cfg a)" r a'] o(4,5) e' dead a0(2,3) res by simp
  qed
qed

lemma alloc_step:
  assumes ok: "alloc_ok ok owns a" and dead: "\<not> a_dead a" and pool: "pool_ok (a_cfg a)"
    and large: "n > cf_small_max (a_cfg a) \<Longrightarrow>
      be_granularity be (a_b a) \<noteq> 0 \<and> unat n + unat (be_granularity be (a_b a)) \<le> 2 ^ 64"
    and e: "alloc be n a = (r, a')"
  shows "alloc_ok ok owns a' \<and> a_cfg a' = a_cfg a \<and> alloc_result n a r a'"
proof (cases "n = 0")
  case True
  then have "r = Return 0" "a' = a" using e dead by (simp_all add: alloc_def live_def)
  then show ?thesis using ok dead by (simp add: alloc_result_def)
next
  case False
  then show ?thesis
    using alloc_large [OF ok dead False _ _ _ e] alloc_small [OF ok dead pool False _ e] large
    by (cases "n > cf_small_max (a_cfg a)") (simp_all add: not_less)
qed

section \<open>free\<close>

text \<open>\<open>drop_region\<close>, when the index no longer names the region.\<close>

lemma drop_region_step:
  assumes ok: "ok (a_b a)" "regions_ok (a_regions a)" "sets_ok (a_partial a)"
    and ix: "\<And>obj b. obj \<noteq> 0 \<Longrightarrow> indexed (a_partial a) obj b \<longleftrightarrow> b \<noteq> base \<and> open_slab (a_regions a) obj b"
    and ow: "\<And>b s. map_of (a_regions a) b = Some s \<Longrightarrow> owns (a_b a) (rg_c s)"
    and r: "map_of (a_regions a) base = Some r"
    and e: "drop_region be sy base r a = (res, a')"
  shows "(res = Return () \<and> a_dead a' = a_dead a \<and> a_cfg a' = a_cfg a \<and> alloc_ok ok owns a' \<and>
      a_regions a' = om_del base (a_regions a)) \<or>
    (\<exists>m. res = Throw Fatal m \<and> a_dead a' \<and> a_cfg a' = a_cfg a \<and>
      (a_regions a' = a_regions a \<or> a_regions a' = om_del base (a_regions a)))"
proof (cases "fst sy = CUDA_SUCCESS")
  case False
  then show ?thesis using e by (auto simp: drop_region_def sync_def)
next
  case True
  obtain rr b where d: "be_destroy be (rg_c r) (a_b a) = (rr, b)" by (cases "be_destroy be (rg_c r) (a_b a)")
  from destroy_live [OF ok(1) ow [OF r] d] obtain s c where s: "rr = Ret (s, c)" "s = Ok \<or> s = Fatal"
    and b: "ok b" "\<forall>d. owns (a_b a) d \<longrightarrow> c_ptr d \<noteq> c_ptr (rg_c r) \<longrightarrow> owns b d" by blast
  have p: "c_ptr (rg_c r) = base" using regions_okD(2) [OF ok(2) r] by (simp add: span_ok_def)
  let ?a = "a\<lparr>a_b := b, a_regions := om_del base (a_regions a)\<rparr>"
  have e': "(res, a') = (if s \<noteq> Ok then fail be s ''destroy'' ?a else (Return (), ?a))"
    using e True by (auto simp: drop_region_def sync_def d s(1) Let_def)
  have "alloc_ok ok owns ?a"
  proof (rule alloc_okI)
    note om = regions_okD(1) [OF ok(2)]
    show "ok (a_b ?a)" using b by simp
    show "regions_ok (a_regions ?a)" using regions_del [OF ok(2)] by simp
    show "sets_ok (a_partial ?a)" using ok(3) by simp
    show "indexed (a_partial ?a) obj x = open_slab (a_regions ?a) obj x" if "obj \<noteq> 0" for obj x
      using ix [OF that] open_slab_del [OF om] by simp
    show "owns (a_b ?a) (rg_c s)" if "map_of (a_regions ?a) x = Some s" for x s
    proof -
      have "map_of (a_regions a) x = Some s" "x \<noteq> base" using that get_del [OF om, of base] by (auto split: if_splits)
      then show ?thesis using ow b(2) p regions_okD(2) [OF ok(2), of x s] by (simp add: span_ok_def)
    qed
  qed
  then show ?thesis using e' s(2) by (auto simp: fail_def Let_def)
qed

end

text \<open>The slot \<open>free\<close> computes for the address of a slot.\<close>

lemma slot_of_address:
  assumes sp: "span_ok base r" and sl: "slab_ok r" and ob: "rg_obj r \<noteq> 0" and i: "i < length (rg_busy r)"
    and p: "p = base + of_nat i * rg_obj r"
  shows "(p - base) mod rg_obj r = 0" and "unat (ucast ((p - base) div rg_obj r) :: u32) = i"
proof -
  note A = slot_address [OF sp sl i]
  have le: "base \<le> p" using A(1) p by (simp add: word_le_nat_alt)
  have off: "unat (p - base) = i * unat (rg_obj r)" using u64_sub_no_wrap [OF le] A(1) p by simp
  have ob': "unat (rg_obj r) \<noteq> 0" using ob by (simp add: unat_eq_0)
  have "unat ((p - base) mod rg_obj r) = 0" using off by (simp add: unat_mod)
  then show "(p - base) mod rg_obj r = 0" by (simp add: unat_eq_0)
  have "unat ((p - base) div rg_obj r) = i" using off ob' by (simp add: unat_div)
  moreover have "i < 2 ^ 32" using i sl by (simp add: slab_ok_def)
  ultimately show "unat (ucast ((p - base) div rg_obj r) :: u32) = i"
    by (simp add: unsigned_ucast_eq take_bit_eq_mod)
qed

text \<open>What \<open>free\<close> of a live object may do.\<close>

definition free_result :: "u64 \<Rightarrow> 'b Allocator \<Rightarrow> unit outcome \<Rightarrow> 'b Allocator \<Rightarrow> bool" where
  "free_result p a r a' \<longleftrightarrow>
     (r = Return () \<and> \<not> a_dead a' \<and> (\<forall>q j. live_obj a' q j \<longleftrightarrow> live_obj a q j \<and> q \<noteq> p)) \<or>
     (\<exists>m. r = Throw Fatal m \<and> a_dead a' \<and>
        (\<forall>q j. live_obj a' q j \<longrightarrow> live_obj a q j) \<and>
        (\<forall>q j. live_obj a q j \<longrightarrow> q \<noteq> p \<longrightarrow> live_obj a' q j))"

context backend
begin

text \<open>The region at \<open>base\<close> is dropped, and \<open>p\<close> was its only object.\<close>

lemma drop_result:
  assumes m: "regions_ok (a_regions a)" "map_of (a_regions a) base = Some r"
    and m1: "a_regions a1 = om_put base r1 (a_regions a)"
    and obj: "\<And>q j. obj_in r q j \<longleftrightarrow> obj_in r1 q j \<or> q = p \<and> j = k" "\<And>q j. obj_in r1 q j \<Longrightarrow> q = p"
    and others: "\<And>b s j. map_of (a_regions a) b = Some s \<Longrightarrow> b \<noteq> base \<Longrightarrow> \<not> obj_in s p j"
    and d: "(res = Return () \<and> \<not> a_dead a' \<and> a_regions a' = om_del base (a_regions a1)) \<or>
      (\<exists>m. res = Throw Fatal m \<and> a_dead a' \<and>
        (a_regions a' = a_regions a1 \<or> a_regions a' = om_del base (a_regions a1)))"
  shows "free_result p a res a'"
proof -
  have ok: "om_ok (a_regions a1)" unfolding m1 by (rule ok_put [OF regions_okD(1) [OF m(1)]])
  have del: "live_obj a' q j \<longleftrightarrow> live_obj a q j \<and> q \<noteq> p" if "a_regions a' = om_del base (a_regions a1)" for q j
  proof -
    have "live_obj a' q j \<longleftrightarrow> (\<exists>b s. b \<noteq> base \<and> map_of (a_regions a) b = Some s \<and> obj_in s q j)"
      unfolding live_obj_del [OF that ok] m1 get_put by auto
    then show ?thesis using live_obj_split [OF m(2), of q j] others obj by blast
  qed
  have keep: "(live_obj a' q j \<longrightarrow> live_obj a q j) \<and> (live_obj a q j \<longrightarrow> q \<noteq> p \<longrightarrow> live_obj a' q j)"
    if "a_regions a' = a_regions a1" for q j
  proof -
    have "a_regions a' = om_put base r1 (a_regions a)" using that m1 by simp
    from live_obj_put [OF this, of q j] show ?thesis
      using live_obj_split [OF m(2), of q j] obj by blast
  qed
  show ?thesis unfolding free_result_def using d del keep by blast
qed

lemma free_slot_step:
  assumes ok: "alloc_ok ok owns a" and dead: "\<not> a_dead a"
    and r: "map_of (a_regions a) base = Some r" and ob: "rg_obj r \<noteq> 0" and obj: "obj_in r p k"
    and others: "\<And>b s j. map_of (a_regions a) b = Some s \<Longrightarrow> b \<noteq> base \<Longrightarrow> \<not> obj_in s p j"
    and e: "free_slot be sy p base r a = (res, a')"
  shows "a_cfg a' = a_cfg a \<and> (\<not> a_dead a' \<longrightarrow> alloc_ok ok owns a') \<and> regions_ok (a_regions a') \<and> free_result p a res a'"
proof -
  note K = alloc_okD [OF ok]
  have sp: "span_ok base r" and sl: "slab_ok r" using K(6) [OF r] K(7) [OF r ob] .
  obtain i where i: "i < length (rg_busy r)" "rg_busy r ! i" "p = base + of_nat i * rg_obj r" "k = rg_obj r"
    using obj ob sp by (auto simp: obj_in_def span_ok_def)
  define slot where "slot = (ucast ((p - base) div rg_obj r) :: u32)"
  have s: "unat slot = i" and m0: "(p - base) mod rg_obj r = 0"
    using slot_of_address [OF sp sl ob i(1,3)] by (simp_all add: slot_def)
  define r1 where "r1 = r\<lparr>rg_busy := (rg_busy r)[unat slot := False], rg_free := rg_free r @ [slot], rg_used := rg_used r - 1\<rparr>"
  have sl1: "slab_ok r1" by (rule slab_give [OF sl _ _ r1_def]) (simp_all add: s i)
  have c: "rg_c r1 = rg_c r" "rg_obj r1 = rg_obj r" "rg_busy r1 = (rg_busy r)[i := False]" "rg_free r1 \<noteq> []"
    by (simp_all add: r1_def s)
  define a1 where "a1 = put_region base r1 a"
  have reg: "a_regions a1 = om_put base r1 (a_regions a)" by (simp add: a1_def)
  have e1: "(res, a') = (if rg_used r1 \<noteq> 0 then (Return (), part_insert (rg_obj r) base a1)
      else drop_region be sy base r1 (part_erase (rg_obj r) base a1))"
  proof -
    have "free_slot be sy p base r a =
        (let r = r\<lparr>rg_busy := (rg_busy r)[unat slot := False], rg_free := rg_free r @ [slot], rg_used := rg_used r - 1\<rparr>;
             a = put_region base r a
         in if rg_used r \<noteq> 0 then (Return (), part_insert (rg_obj r) base a)
            else drop_region be sy base r (part_erase (rg_obj r) base a))"
      unfolding free_slot_def slot_def [symmetric] Let_def [of "p - base"] Let_def [of slot] m0 using i(1,2) s by simp
    then show ?thesis using e by (simp add: Let_def r1_def a1_def split: if_splits)
  qed
  have flag: "obj_in r1 q j \<longleftrightarrow> (if q = p then False \<and> j = rg_obj r else obj_in r q j)" for q j
    by (rule obj_in_flag [OF sp sl ob i(1) c(1-3) i(3)])
  have rok: "regions_ok (a_regions a1)" unfolding reg by (rule regions_replace [OF K(2) r sl1]) (simp_all add: c)
  have sets: "sets_ok (a_partial a1)" using K(3) by (simp add: a1_def)
  have slabs: "open_slab (a_regions a1) o1 b \<longleftrightarrow> (if b = base then o1 = rg_obj r else open_slab (a_regions a) o1 b)" for o1 b
    unfolding reg open_slab_put using c by auto
  have at_base: "open_slab (a_regions a) o1 base \<Longrightarrow> o1 = rg_obj r" for o1 using r by (auto simp: open_slab_def)
  have ow: "owns (a_b a1) (rg_c s)" if "map_of (a_regions a1) b = Some s" for b s
    using that K(5) r c(1) by (auto simp: reg get_put a1_def split: if_splits)
  have one: "obj_in r q j \<longleftrightarrow> obj_in r1 q j \<or> q = p \<and> j = k" for q j
    using flag [of q j] obj i by (auto simp: obj_in_def ob)
  show ?thesis
  proof (cases "rg_used r1 = 0")
    case False
    then have a': "res = Return ()" "a' = part_insert (rg_obj r) base a1" using e1 by simp_all
    have "alloc_ok ok owns a'"
    proof (rule alloc_okI)
      show "indexed (a_partial a') o1 b = open_slab (a_regions a') o1 b" if "o1 \<noteq> 0" for o1 b
        using indexed_insert(2) [OF sets] K(4) [OF that] slabs at_base
        by (auto simp: a') (auto simp: a1_def)
    qed (use K(1) rok indexed_insert(1) [OF sets] ow in \<open>auto simp: a' a1_def\<close>)
    moreover have "live_obj a' q j \<longleftrightarrow> live_obj a q j \<and> q \<noteq> p" for q j
      using live_obj_put [of a' base r1 a q j] live_obj_split [OF r, of q j] flag [of q j] others
      by (auto simp: a' reg)
    ultimately show ?thesis using a' dead rok by (simp add: free_result_def a1_def)
  next
    case True
    define a2 where "a2 = part_erase (rg_obj r) base a1"
    have f: "a_regions a2 = a_regions a1" "a_b a2 = a_b a1" "a_dead a2 = a_dead a" "a_cfg a2 = a_cfg a"
      by (simp_all add: a2_def a1_def)
    have ix: "indexed (a_partial a2) o1 b \<longleftrightarrow> b \<noteq> base \<and> open_slab (a_regions a2) o1 b" if "o1 \<noteq> 0" for o1 b
      using indexed_erase(2) [OF sets] K(4) [OF that] slabs at_base
      by (auto simp: a2_def) (auto simp: a1_def)
    have mb: "map_of (a_regions a2) base = Some r1" by (simp add: f reg get_put)
    have dr: "drop_region be sy base r1 a2 = (res, a')" using e1 True by (simp add: a2_def)
    have ok2: "ok (a_b a2)" "regions_ok (a_regions a2)" "sets_ok (a_partial a2)"
      using K(1) rok indexed_erase(1) [OF sets] by (simp_all add: f a2_def) (simp add: a1_def)
    have D: "(res = Return () \<and> \<not> a_dead a' \<and> a_cfg a' = a_cfg a \<and> alloc_ok ok owns a' \<and>
        a_regions a' = om_del base (a_regions a1)) \<or>
      (\<exists>m. res = Throw Fatal m \<and> a_dead a' \<and> a_cfg a' = a_cfg a \<and>
        (a_regions a' = a_regions a1 \<or> a_regions a' = om_del base (a_regions a1)))"
      using drop_region_step [OF ok2 ix _ mb dr] ow f dead by simp
    have none: "\<not> obj_in r1 q j" for q j using slab_unused [OF sl1 True] c(2) ob by simp
    have "free_result p a res a'"
      by (rule drop_result [OF K(2) r reg one _ others]) (use none D in auto)
    moreover have "regions_ok (a_regions a')" using D rok regions_del [OF rok] by auto
    ultimately show ?thesis using D by auto
  qed
qed

end

end
