(* ===== verification/Allocator_Free.thy ===== *)
theory Allocator_Free
  imports Allocator_Calls
begin

text \<open>
  \<open>free\<close> and the hints, for any backend that keeps the contract: free takes back exactly one object
  and rejects everything that is not one, hints move nothing but the location.
\<close>

text \<open>No slab ends in a part of a slot.\<close>

definition no_slack :: "'b Allocator \<Rightarrow> bool" where
  "no_slack a \<longleftrightarrow> (\<forall>e \<in> set (a_regions a). rg_obj (snd e) \<noteq> 0 \<longrightarrow> c_size (rg_c (snd e)) mod rg_obj (snd e) = 0)"

definition alloc_inv :: "('b \<Rightarrow> bool) \<Rightarrow> ('b \<Rightarrow> Chunk \<Rightarrow> bool) \<Rightarrow> 'b Allocator \<Rightarrow> bool" where
  "alloc_inv ok owns a \<longleftrightarrow> regions_ok (a_regions a) \<and> (\<not> a_dead a \<longrightarrow> alloc_ok ok owns a)"

lemma find_eq: "lookup p a = Some (base, r) \<Longrightarrow> find be p w a = (Return (base, r), a)"
  by (simp add: find_def)

lemma free_live_eq:
  assumes "\<not> a_dead a" and "p \<noteq> 0"
  shows "free be sy p a =
    (case lookup p a of
       None \<Rightarrow> fail be Unsupported (''free: pointer not from libvmem'') a
     | Some (base, r) \<Rightarrow>
         if rg_obj r \<noteq> 0 then free_slot be sy p base r a
         else if p \<noteq> base then fail be Unsupported ''free: not the start of an allocation'' a
         else drop_region be sy base r a)"
  using assms by (simp add: free_def live_def find_def fail_def Let_def split: option.splits)

text \<open>A pointer to something that is not a live object.\<close>

lemma free_rejects_step:
  assumes ok: "regions_ok (a_regions a)" and dead: "\<not> a_dead a" and p: "p \<noteq> 0" "\<And>k. \<not> live_obj a p k" and slack: "no_slack a"
  shows "\<exists>m. free be sy p a = (Throw Unsupported m, a)"
proof (cases "lookup p a")
  case None
  then show ?thesis using dead p(1) by (simp add: free_live_eq fail_def Let_def)
next
  case (Some br)
  obtain base r where l: "lookup p a = Some (base, r)" using Some by (cases br) simp
  have m: "map_of (a_regions a) base = Some r" "unat base \<le> unat p" "unat p < unat base + unat (c_size (rg_c r))"
    using lookup_iff [OF ok] l by blast+
  note K = regions_okD [OF ok]
  have no: "\<not> obj_in r p k" for k using p(2) live_obj_lookup [OF ok] l by blast
  show ?thesis
  proof (cases "rg_obj r = 0")
    case True
    then have "p \<noteq> base" using no K(2) [OF m(1)] by (auto simp: obj_in_def span_ok_def)
    then show ?thesis using dead p(1) l True by (simp add: free_live_eq fail_def Let_def)
  next
    case False
    have sl: "slab_ok r" and sp: "span_ok base r" using K(3) [OF m(1) False] K(2) [OF m(1)] .
    have off: "unat (p - base) = unat p - unat base" using u64_sub_no_wrap [of base p] m(2) by (simp add: word_le_nat_alt)
    let ?o = "unat (rg_obj r)" and ?i = "unat (p - base) div unat (rg_obj r)"
    have o: "0 < ?o" using False by (simp add: unat_gt_0)
    have "c_size (rg_c r) mod rg_obj r = 0"
      using slack map_of_SomeD [OF m(1)] False unfolding no_slack_def by (metis snd_conv)
    then have "unat (c_size (rg_c r)) mod ?o = 0" by (metis unat_mod unat_0)
    then have "unat (c_size (rg_c r)) = length (rg_busy r) * ?o" using sl by (simp add: slab_ok_def) (metis add.right_neutral div_mult_mod_eq)
    moreover have "unat (p - base) < unat (c_size (rg_c r))" using m(2,3) off by simp
    ultimately have i: "?i < length (rg_busy r)" using o by (simp add: div_less_iff_less_mult)
    then have small: "?i < 2 ^ 32" using sl by (simp add: slab_ok_def)
    then have s: "unat (ucast ((p - base) div rg_obj r) :: u32) = ?i"
      by (simp add: unsigned_ucast_eq take_bit_eq_mod unat_div)
    have "\<not> rg_busy r ! ?i" if z: "(p - base) mod rg_obj r = 0"
    proof
      assume b: "rg_busy r ! ?i"
      have "unat (p - base) mod ?o = 0" using z by (metis unat_mod unat_0)
      then have "unat (p - base) = ?i * ?o" by (metis add.right_neutral div_mult_mod_eq)
      then have "unat p = unat base + ?i * ?o" using off m(2) by simp
      then have "p = base + of_nat ?i * rg_obj r"
        using slot_address(1) [OF sp sl i] by (simp only: word_unat_eq_iff)
      then have "obj_in r p (rg_obj r)" using b i sp False by (auto simp: obj_in_def span_ok_def)
      then show False using no by blast
    qed
    then show ?thesis
      using dead p(1) l False s i by (simp add: free_live_eq free_slot_def fail_def Let_def)
  qed
qed

context backend
begin

lemma free_step:
  assumes ok: "alloc_ok ok owns a" and dead: "\<not> a_dead a" and p: "live_obj a p k" and e: "free be sy p a = (res, a')"
  shows "a_cfg a' = a_cfg a \<and> alloc_inv ok owns a' \<and> free_result p a res a'"
proof -
  note K = alloc_okD [OF ok]
  obtain base r where l: "lookup p a = Some (base, r)" and obj: "obj_in r p k"
    using p live_obj_lookup [OF K(2)] by blast
  have m: "map_of (a_regions a) base = Some r" using lookup_iff [OF K(2)] l by blast
  have p0: "p \<noteq> 0"
    using lookup_iff [OF K(2)] l K(6) [OF m] by (auto simp: span_ok_def unat_eq_0)
  have others: "\<not> obj_in s p j" if "map_of (a_regions a) b = Some s" "b \<noteq> base" for b s j
  proof
    assume o: "obj_in s p j"
    have "live_obj a p j" using that(1) o by (auto simp: live_obj_def)
    have "inside p j b (c_size (rg_c s))" "j \<noteq> 0" using obj_inside [OF K(6) [OF that(1)] K(7) [OF that(1)] o] by blast+
    then have "lookup p a = Some (b, s)"
      using lookup_iff [OF K(2)] that(1) unat_eq_0 [of j] by (auto simp: inside_def)
    then show False using l that(2) by simp
  qed
  show ?thesis
  proof (cases "rg_obj r = 0")
    case False
    then have "free_slot be sy p base r a = (res, a')" using e dead p0 l by (simp add: free_live_eq)
    from free_slot_step [OF ok dead m False obj others this] show ?thesis by (simp add: alloc_inv_def)
  next
    case True
    have b: "p = base" "k = c_size (rg_c r)" using obj True K(6) [OF m] by (simp_all add: obj_in_def span_ok_def)
    have d: "drop_region be sy base r a = (res, a')" using e dead p0 l True b by (simp add: free_live_eq)
    have ix: "indexed (a_partial a) o1 x \<longleftrightarrow> x \<noteq> base \<and> open_slab (a_regions a) o1 x" if "o1 \<noteq> 0" for o1 x
      using K(4) [OF that, of x] m True that by (auto simp: open_slab_def)
    have D: "(res = Return () \<and> \<not> a_dead a' \<and> a_cfg a' = a_cfg a \<and> alloc_ok ok owns a' \<and>
        a_regions a' = om_del base (a_regions a)) \<or>
      (\<exists>m. res = Throw Fatal m \<and> a_dead a' \<and> a_cfg a' = a_cfg a \<and>
        (a_regions a' = a_regions a \<or> a_regions a' = om_del base (a_regions a)))"
      using drop_region_step [OF K(1-3) ix _ m d] K(5) dead by simp
    have o: "obj_in r q j \<longleftrightarrow> q = p \<and> j = k" for q j using True b K(6) [OF m] by (simp add: obj_in_def span_ok_def)
    have del: "live_obj a' q j \<longleftrightarrow> live_obj a q j \<and> q \<noteq> p" if "a_regions a' = om_del base (a_regions a)" for q j
      unfolding live_obj_del [OF that regions_okD(1) [OF K(2)]] live_obj_split [OF m] using o others by blast
    have keep: "live_obj a' q j = live_obj a q j" if "a_regions a' = a_regions a" for q j
      by (rule live_obj_cong [OF that])
    have "free_result p a res a'" unfolding free_result_def using D dead del keep by blast
    moreover have "regions_ok (a_regions a')" using D K(2) regions_del [OF K(2)] by auto
    ultimately show ?thesis using D dead by (auto simp: alloc_inv_def)
  qed
qed

text \<open>
  A hint never throws; it changes at most where the chunk of the object is, and that to the target
  when the answer is Ok.
\<close>

lemma hint_eq:
  assumes "\<not> a_dead a" and "lookup p a = Some (base, r)" and "rg_obj r = 0" and "be_can_move be (a_b a)" and "c_loc (rg_c r) \<noteq> to"
    and "fst sy = CUDA_SUCCESS" and "be_move be (rg_c r) to (a_b a) = (Ret (s, c), b)"
  shows "move_hint be sy p to a =
    (Return s, let a = put_region base (r\<lparr>rg_c := c\<rparr>) (a\<lparr>a_b := b\<rparr>) in if s = Fatal then a\<lparr>a_dead := True\<rparr> else a)"
  using assms by (simp add: move_hint_def sync_def Let_def)

text \<open>The region after a move that the backend has made or refused.\<close>

lemma moved_region:
  assumes ok: "alloc_ok ok owns a" and m: "map_of (a_regions a) base = Some r" and large: "rg_obj r = 0"
    and v: "be_move be (rg_c r) to (a_b a) = (rr, b)"
  obtains s where "rr = Ret (s, if s = Ok then (rg_c r)\<lparr>c_loc := to\<rparr> else rg_c r)"
    and "s \<noteq> Fatal \<Longrightarrow> alloc_ok ok owns (put_region base (r\<lparr>rg_c := if s = Ok then (rg_c r)\<lparr>c_loc := to\<rparr> else rg_c r\<rparr>) (a\<lparr>a_b := b\<rparr>))"
    and "regions_ok (om_put base (r\<lparr>rg_c := if s = Ok then (rg_c r)\<lparr>c_loc := to\<rparr> else rg_c r\<rparr>) (a_regions a))"
    and "\<And>q j. obj_in (r\<lparr>rg_c := if s = Ok then (rg_c r)\<lparr>c_loc := to\<rparr> else rg_c r\<rparr>) q j = obj_in r q j"
proof -
  note K = alloc_okD [OF ok]
  from move_live [OF K(1) K(5) [OF m] v] obtain s where s: "rr = Ret (s, if s = Ok then (rg_c r)\<lparr>c_loc := to\<rparr> else rg_c r)"
    and b: "s \<noteq> Fatal \<Longrightarrow> ok b \<and> owns b (if s = Ok then (rg_c r)\<lparr>c_loc := to\<rparr> else rg_c r) \<and>
      (\<forall>d. owns (a_b a) d \<longrightarrow> c_ptr d \<noteq> c_ptr (rg_c r) \<longrightarrow> owns b d)" by auto
  define c where "c = (if s = Ok then (rg_c r)\<lparr>c_loc := to\<rparr> else rg_c r)"
  define r1 where "r1 = r\<lparr>rg_c := c\<rparr>"
  have c: "c_ptr c = c_ptr (rg_c r)" "c_size c = c_size (rg_c r)" by (simp_all add: c_def)
  have reg: "regions_ok (om_put base r1 (a_regions a))"
    by (rule regions_replace [OF K(2) m]) (simp_all add: r1_def large c)
  have base: "c_ptr (rg_c r) = base" using K(6) [OF m] by (simp add: span_ok_def)
  have "alloc_ok ok owns (put_region base r1 (a\<lparr>a_b := b\<rparr>))" if "s \<noteq> Fatal"
  proof (rule alloc_okI)
    show "indexed (a_partial (put_region base r1 (a\<lparr>a_b := b\<rparr>))) o1 x =
        open_slab (a_regions (put_region base r1 (a\<lparr>a_b := b\<rparr>))) o1 x" if "o1 \<noteq> 0" for o1 x
      using K(4) [OF that, of x] m large by (auto simp: open_slab_put r1_def) (auto simp: open_slab_def)
    show "owns (a_b (put_region base r1 (a\<lparr>a_b := b\<rparr>))) (rg_c s)"
      if "map_of (a_regions (put_region base r1 (a\<lparr>a_b := b\<rparr>))) x = Some s" for x s
    proof (cases "x = base")
      case True
      then show ?thesis using that b \<open>_ \<noteq> Fatal\<close> by (auto simp: get_put r1_def c_def [symmetric])
    next
      case False
      then have "map_of (a_regions a) x = Some s" using that by (simp add: get_put)
      then show ?thesis using b \<open>_ \<noteq> Fatal\<close> K(5,6) base False by (simp add: span_ok_def)
    qed
  qed (use b that K(3) reg in simp_all)
  moreover have "obj_in r1 q j = obj_in r q j" for q j by (simp add: obj_in_def r1_def large c)
  ultimately show ?thesis using s reg unfolding r1_def c_def by (intro that)
qed

lemma hint_step:
  assumes ok: "alloc_ok ok owns a" and dead: "\<not> a_dead a" and e: "move_hint be sy p to a = (res, a')"
  obtains s where "res = Return s" and "a_cfg a' = a_cfg a" and "alloc_inv ok owns a'" and "a_dead a' = (s = Fatal)"
    and "\<And>q j. live_obj a' q j = live_obj a q j"
    and "s = Ok \<Longrightarrow> \<exists>base r. lookup p a' = Some (base, r) \<and> rg_obj r = 0 \<and> c_loc (rg_c r) = to"
proof -
  note K = alloc_okD [OF ok]
  note result = that
  have same: thesis if "res = Return s" "a' = a" "s \<noteq> Fatal"
    "s = Ok \<Longrightarrow> \<exists>base r. lookup p a = Some (base, r) \<and> rg_obj r = 0 \<and> c_loc (rg_c r) = to" for s
    using that ok dead K(2) by (intro result [of s]) (simp_all add: alloc_inv_def)
  show ?thesis
  proof (cases "lookup p a")
    case None
    then show ?thesis using same [of Unsupported] e dead by (simp add: move_hint_def)
  next
    case (Some br)
    obtain base r where l: "lookup p a = Some (base, r)" using Some by (cases br) simp
    have m: "map_of (a_regions a) base = Some r" using lookup_iff [OF K(2)] l by blast
    consider (no) "rg_obj r \<noteq> 0 \<or> \<not> be_can_move be (a_b a)" | (there) "rg_obj r = 0" "be_can_move be (a_b a)" "c_loc (rg_c r) = to"
      | (dead) "rg_obj r = 0" "be_can_move be (a_b a)" "c_loc (rg_c r) \<noteq> to" "fst sy \<noteq> CUDA_SUCCESS"
      | (go) "rg_obj r = 0" "be_can_move be (a_b a)" "c_loc (rg_c r) \<noteq> to" "fst sy = CUDA_SUCCESS" by blast
    then show ?thesis
    proof cases
      case no
      then have "res = Return Unsupported" "a' = a" using e l dead by (auto simp: move_hint_def)
      then show ?thesis using same [of Unsupported] by simp
    next
      case there
      then have "res = Return Ok" "a' = a" using e l dead by (auto simp: move_hint_def)
      then show ?thesis using same [of Ok] l there by simp
    next
      case dead
      then have "res = Return Fatal" "a' = a\<lparr>a_dead := True\<rparr>"
        using e l \<open>\<not> a_dead a\<close> by (simp_all add: move_hint_def sync_def)
      then show ?thesis using K(2) by (intro result [of Fatal]) (simp_all add: alloc_inv_def live_obj_def)
    next
      case go
      obtain rr b where v: "be_move be (rg_c r) to (a_b a) = (rr, b)" by (cases "be_move be (rg_c r) to (a_b a)")
      obtain s where s: "rr = Ret (s, if s = Ok then (rg_c r)\<lparr>c_loc := to\<rparr> else rg_c r)"
        and inv: "s \<noteq> Fatal \<Longrightarrow> alloc_ok ok owns (put_region base (r\<lparr>rg_c := if s = Ok then (rg_c r)\<lparr>c_loc := to\<rparr> else rg_c r\<rparr>) (a\<lparr>a_b := b\<rparr>))"
        and reg: "regions_ok (om_put base (r\<lparr>rg_c := if s = Ok then (rg_c r)\<lparr>c_loc := to\<rparr> else rg_c r\<rparr>) (a_regions a))"
        and obj: "\<And>q j. obj_in (r\<lparr>rg_c := if s = Ok then (rg_c r)\<lparr>c_loc := to\<rparr> else rg_c r\<rparr>) q j = obj_in r q j"
        by (rule moved_region [OF ok m go(1) v]) blast
      define r1 where "r1 = r\<lparr>rg_c := if s = Ok then (rg_c r)\<lparr>c_loc := to\<rparr> else rg_c r\<rparr>"
      define a1 where "a1 = put_region base r1 (a\<lparr>a_b := b\<rparr>)"
      have e': "res = Return s" "a' = (if s = Fatal then a1\<lparr>a_dead := True\<rparr> else a1)"
        using e unfolding hint_eq [OF dead l go v [unfolded s]] Let_def r1_def [symmetric] a1_def [symmetric] by simp_all
      have g: "a_regions a' = om_put base r1 (a_regions a)" by (simp add: e' a1_def)
      have live: "live_obj a' q j = live_obj a q j" for q j
        unfolding live_obj_put [OF g] live_obj_split [OF m] r1_def obj ..
      have reg': "regions_ok (a_regions a')" unfolding g r1_def by (rule reg)
      have "lookup p a' = Some (base, r1)"
        using lookup_iff [OF reg', of p base r1] lookup_iff [OF K(2), of p base r] l
        by (simp add: g get_put r1_def)
      moreover have "alloc_inv ok owns a'"
        using reg' inv [folded r1_def, folded a1_def] by (simp add: alloc_inv_def e')
      ultimately show ?thesis using e' live go(1) dead by (intro result [of s]) (simp_all add: r1_def a1_def)
    qed
  qed
qed

end

end
