(* ===== verification/Allocator_Props.thy ===== *)
theory Allocator_Props
  imports Allocator_Free Vmem_Link
begin

text \<open>
  The properties of the allocator over its three backends (\<open>any_backend\<close>), from the facts of the
  interpretation \<open>any\<close> of the backend contract, and the inputs the code does not guard against.
\<close>

section \<open>Construction\<close>

lemma any_open_ok:
  assumes "well_behaved {} env" and "rt_well_behaved rt" and "any_open c (make_backend env rt k) = (Ok, b)"
  shows "any_ok b"
proof (cases k)
  case KVmem
  then obtain v where "vmem_open env c new_vmem = (Ok, v)" "b = VmemB env v"
    using assms(3) by (auto simp: make_backend_def split: prod.splits)
  then show ?thesis using open_ok(1) assms(1) by simp
qed (use assms in \<open>auto simp: make_backend_def split: prod.splits\<close>)

lemma new_allocator_ok:
  assumes env: "well_behaved {} env" "rt_well_behaved rt" and e: "new_allocator env rt ek d cfg = Return a"
  shows "alloc_ok any_ok any_owns a" and "\<not> a_dead a" and "a_regions a = []"
proof -
  obtain k where "construct any_backend d cfg (make_backend env rt k) = Return a"
    using e by (auto simp: new_allocator_def split: outcome.splits)
  then obtain c b where "any_open c (make_backend env rt k) = (Ok, b)" "a_b a = b" "\<not> a_dead a" "a_regions a = []" "a_partial a = []"
    by (auto simp: construct_def any_backend_def Let_def split: prod.splits if_splits option.splits)
  then show "alloc_ok any_ok any_owns a" "\<not> a_dead a" "a_regions a = []"
    using any_open_ok [OF env] by (auto simp: alloc_ok_def regions_ok_def parts_ok_def)
qed

section \<open>The heap over any sequence of calls\<close>

text \<open>Sizes for which rounding up does not wrap.\<close>

definition size_ok :: "u64 \<Rightarrow> AnyBackend Allocator \<Rightarrow> bool" where
  "size_ok n a \<longleftrightarrow> n \<le> cf_small_max (a_cfg a) \<or>
     any_granularity (a_b a) \<noteq> 0 \<and> unat n + unat (any_granularity (a_b a)) \<le> 2 ^ 64"

text \<open>
  What a program can do with an allocator: calls in any order with any results of the driver. It
  frees live objects, or anything at all where no slab has slack.
\<close>

inductive heap :: "AnyBackend Allocator \<Rightarrow> bool" where
  started: "well_behaved {} env \<Longrightarrow> rt_well_behaved rt \<Longrightarrow> new_allocator env rt ek d cfg = Return a \<Longrightarrow>
    pool_ok (a_cfg a) \<Longrightarrow> heap a"
| alloced: "heap a \<Longrightarrow> size_ok n a \<Longrightarrow> alloc any_backend n a = (r, a') \<Longrightarrow> heap a'"
| freed: "heap a \<Longrightarrow> live_obj a p k \<or> no_slack a \<Longrightarrow> free any_backend sy p a = (ru, a') \<Longrightarrow> heap a'"
| evicted: "heap a \<Longrightarrow> evict any_backend sy p a = (rs, a') \<Longrightarrow> heap a'"
| prefetched: "heap a \<Longrightarrow> prefetch any_backend sy p a = (rs, a') \<Longrightarrow> heap a'"

lemma dead_free: "a_dead a \<Longrightarrow> snd (free be sy p a) = a"
  by (simp add: free_def live_def)

lemma dead_alloc: "a_dead a \<Longrightarrow> snd (alloc be n a) = a"
  by (simp add: alloc_def live_def)

lemma heap_alloc:
  assumes "alloc_inv any_ok any_owns a" and "pool_ok (a_cfg a)" and "size_ok n a" and e: "alloc any_backend n a = (r, a')"
  shows "alloc_inv any_ok any_owns a' \<and> pool_ok (a_cfg a')"
proof (cases "a_dead a")
  case True
  then show ?thesis using dead_alloc [of a any_backend n] e assms(1,2) by simp
next
  case False
  then have "alloc_ok any_ok any_owns a'" "a_cfg a' = a_cfg a"
    using any.alloc_step [of a n r a'] assms by (auto simp: alloc_inv_def size_ok_def)
  then show ?thesis using assms(2) by (simp add: alloc_inv_def alloc_ok_def)
qed

lemma heap_free:
  assumes inv: "alloc_inv any_ok any_owns a" "pool_ok (a_cfg a)" and p: "live_obj a p k \<or> no_slack a"
    and e: "free any_backend sy p a = (r, a')"
  shows "alloc_inv any_ok any_owns a' \<and> pool_ok (a_cfg a')"
proof (cases "a_dead a \<or> p = 0")
  case True
  then have "a' = a" using dead_free [of a any_backend sy p] e by (auto simp: free_def)
  then show ?thesis using inv by simp
next
  case False
  then have ok: "alloc_ok any_ok any_owns a" and reg: "regions_ok (a_regions a)" using inv by (simp_all add: alloc_inv_def)
  show ?thesis
  proof (cases "\<exists>j. live_obj a p j")
    case True
    then show ?thesis using any.free_step [OF ok _ _ e] False inv(2) by auto
  next
    case no: False
    then obtain m where "free any_backend sy p a = (Throw Unsupported m, a)"
      using free_rejects_step [OF reg _ _ _, of p any_backend sy] p False by blast
    then show ?thesis using e inv by simp
  qed
qed

lemma heap_hint:
  assumes inv: "alloc_inv any_ok any_owns a" "pool_ok (a_cfg a)" and e: "move_hint any_backend sy p to a = (r, a')"
  shows "alloc_inv any_ok any_owns a' \<and> pool_ok (a_cfg a')"
proof (cases "a_dead a")
  case True
  then have "a' = a" using e by (simp add: move_hint_def)
  then show ?thesis using inv by simp
next
  case False
  then have ok: "alloc_ok any_ok any_owns a" using inv by (simp add: alloc_inv_def)
  obtain s where "a_cfg a' = a_cfg a" "alloc_inv any_ok any_owns a'" by (rule any.hint_step [OF ok False e]) blast
  then show ?thesis using inv(2) by simp
qed

lemma heap_inv:
  assumes "heap a"
  shows "alloc_inv any_ok any_owns a \<and> pool_ok (a_cfg a)"
  using assms
proof (induction rule: heap.induct)
  case (started env rt ek d cfg a)
  then show ?case using new_allocator_ok [OF started(1-3)] by (simp add: alloc_inv_def alloc_ok_def)
next
  case (alloced a n r a')
  then show ?case using heap_alloc by blast
next
  case (freed a p k sy ru a')
  then show ?case using heap_free by blast
next
  case (evicted a sy p rs a')
  then show ?case using heap_hint unfolding evict_def by blast
next
  case (prefetched a sy p rs a')
  then show ?case using heap_hint unfolding prefetch_def by blast
qed

text \<open>A runtime that hands out one chunk of a given size, for the witnesses.\<close>

definition demo_malloc :: "u64 \<Rightarrow> rthistory \<Rightarrow> u64 \<Rightarrow> cudaError \<times> u64" where
  "demo_malloc sz hs n =
     (if hs = [] \<and> n = sz \<and> sz \<le> 0x10000000 then (cudaSuccess, 0x7f0000000000) else (cudaErrorMemoryAllocation, 0))"

definition demo_rt :: "u64 \<Rightarrow> RtEnv" where
  "demo_rt sz = \<lparr>rt_set_device = (\<lambda>_. cudaSuccess), rt_context = cudaSuccess, rt_managed = (\<lambda>_. (cudaSuccess, 1)),
     rt_error_string = (\<lambda>_. ''?''), rt_malloc = demo_malloc sz, rt_malloc_managed = demo_malloc sz,
     rt_free = (\<lambda>_ _. cudaSuccess), rt_prefetch = (\<lambda>_ _ _ _ _. cudaSuccess), rt_stream_sync = (\<lambda>_. cudaSuccess)\<rparr>"

lemma demo_rt_ok: "rt_well_behaved (demo_rt sz)"
proof -
  have "unat sz \<le> 0x10000000" if "sz \<le> 0x10000000" using that by (simp add: word_le_nat_alt)
  then show ?thesis
    by (fastforce simp: rt_well_behaved_def demo_rt_def demo_malloc_def rt_fresh_def rt_live_def split: if_splits)
qed

definition demo_config :: Config where
  "demo_config = default_config\<lparr>cf_backend := KUvm, cf_small_max := 0x80000, cf_min_obj := 0x40000\<rparr>"

definition demo_start :: "AnyBackend Allocator" where
  "demo_start = (case new_allocator (demo_env False) (demo_rt 0x200000) None None demo_config of Return a \<Rightarrow> a | _ \<Rightarrow> undefined)"

lemma demo_start_eq: "new_allocator (demo_env False) (demo_rt 0x200000) None None demo_config = Return demo_start"
proof -
  have "case new_allocator (demo_env False) (demo_rt 0x200000) None None demo_config of Return _ \<Rightarrow> True | _ \<Rightarrow> False"
    by code_simp
  then show ?thesis by (simp add: demo_start_def split: outcome.splits)
qed

definition demo_two :: "AnyBackend Allocator" where
  "demo_two = snd (alloc any_backend 0x40000 (snd (alloc any_backend 5 demo_start)))"

lemma demo_two_heap: "heap demo_two"
proof -
  have start: "heap demo_start"
    by (rule started [OF demo_env_ok demo_rt_ok demo_start_eq]) code_simp
  have "5 \<le> cf_small_max (a_cfg demo_start)" by code_simp
  then have one: "heap (snd (alloc any_backend 5 demo_start))"
    by (intro alloced [OF start _ surjective_pairing]) (simp add: size_ok_def)
  have "0x40000 \<le> cf_small_max (a_cfg (snd (alloc any_backend 5 demo_start)))" by code_simp
  then show ?thesis
    unfolding demo_two_def by (intro alloced [OF one _ surjective_pairing]) (simp add: size_ok_def)
qed

lemma demo_two_region:
  "map_of (a_regions demo_two) 0x7f0000000000 =
      Some \<lparr>rg_c = \<lparr>c_ptr = 0x7f0000000000, c_size = 0x200000, c_loc = Device\<rparr>, rg_obj = 0x40000,
        rg_free = [7, 6, 5, 4, 3, 2], rg_busy = [True, True, False, False, False, False, False, False], rg_used = 2\<rparr>"
  by code_simp

lemma demo_two_live: "live_obj demo_two 0x7f0000000000 0x40000" "live_obj demo_two 0x7f0000040000 0x40000"
  unfolding live_obj_def
   apply (rule exI [of _ "0x7f0000000000"], rule exI, rule conjI [OF demo_two_region])
   apply (simp add: obj_in_def, rule exI [of _ 0], simp)
  apply (rule exI [of _ "0x7f0000000000"], rule exI, rule conjI [OF demo_two_region])
  apply (simp add: obj_in_def, rule exI [of _ 1], simp)
  done

text \<open>
  C5. Heap safety. After any sequence of calls on any backend over a driver that keeps its
  documentation, with any failures of the driver in between, two live objects at different addresses
  share no byte, one address holds one object, and no object is at the null pointer or empty. The
  conditions are those of \<open>heap\<close>: the pool's configuration is sane (\<open>pool_ok\<close>: the largest slot fits the
  chunk of a slab), a size is small or at least a granule below \<open>2 ^ 64\<close>, with a granule that is not 0
  (\<open>size_ok\<close>; beyond it rounding up wraps to a chunk of 0 bytes), and what is freed is a live object, or
  anything where no slab has slack.
\<close>

theorem heap_objects_apart:
  assumes "heap a" and "live_obj a p k" and "live_obj a q j"
  shows "(if p = q then k = j else apart p k q j) \<and> p \<noteq> 0 \<and> k \<noteq> 0"
proof -
  have reg: "regions_ok (a_regions a)" using heap_inv [OF assms(1)] by (simp add: alloc_inv_def)
  have "if p = q then k = j else apart p k q j"
    using live_objs_apart [OF reg assms(2,3)] live_obj_unique [OF reg assms(2), of j] assms(3) by simp
  obtain b r where r: "map_of (a_regions a) b = Some r" "obj_in r p k" using assms(2) by (auto simp: live_obj_def)
  note K = regions_okD [OF reg]
  from obj_inside [OF K(2) [OF r(1)] K(3) [OF r(1)] r(2)] K(2) [OF r(1)]
  have "p \<noteq> 0" "k \<noteq> 0" by (auto simp: inside_def span_ok_def unat_eq_0)
  with \<open>if p = q then k = j else apart p k q j\<close> show ?thesis by blast
qed

theorem heap_objects_apart_witness: "apart 0x7f0000000000 0x40000 0x7f0000040000 0x40000"
  using heap_objects_apart [OF demo_two_heap demo_two_live] by simp

section \<open>alloc\<close>

text \<open>
  C6. alloc either throws with no object gained or lost (Fatal exactly when the allocator is dead
  afterwards), or returns null with nothing changed, or returns an object of at least the size asked
  for that overlaps no live object; it is then the only new one. The pool's configuration is sane
  (\<open>pool_ok\<close>; otherwise a slab may have no slot), and the size is small or at least a granule below
  \<open>2 ^ 64\<close> (\<open>size_ok\<close>; otherwise rounding up wraps): then it is never undefined.
\<close>

theorem alloc_gives_new_object:
  assumes "alloc_ok any_ok any_owns a" and "\<not> a_dead a" and "pool_ok (a_cfg a)" and "size_ok n a"
    and "alloc any_backend n a = (r, a')"
  shows "alloc_ok any_ok any_owns a' \<and>
    (case r of
        Return p \<Rightarrow> \<not> a_dead a' \<and>
          (if p = 0 then \<forall>q j. live_obj a' q j = live_obj a q j
           else \<exists>k. n \<le> k \<and> (\<forall>q j. live_obj a q j \<longrightarrow> apart q j p k) \<and>
             (\<forall>q j. live_obj a' q j \<longleftrightarrow> live_obj a q j \<or> q = p \<and> j = k))
      | Throw s m \<Rightarrow> a_dead a' = (s = Fatal) \<and> (\<forall>q j. live_obj a' q j = live_obj a q j)
      | _ \<Rightarrow> False)"
proof -
  have S: "alloc_ok any_ok any_owns a' \<and> a_cfg a' = a_cfg a \<and> alloc_result n a r a'"
    using any.alloc_step [OF assms(1-3) _ assms(5)] assms(4) by (auto simp: size_ok_def)
  then have reg: "regions_ok (a_regions a')" by (simp add: alloc_ok_def)
  have apt: "apart q j p k"
    if "\<forall>q j. live_obj a' q j \<longleftrightarrow> live_obj a q j \<or> q = p \<and> j = k" "\<forall>j. \<not> live_obj a p j" "live_obj a q j" for p q j k
    using live_objs_apart [OF reg, of q j p k] that by blast
  from S have "alloc_result n a r a'" by simp
  then have "case r of
        Return p \<Rightarrow> \<not> a_dead a' \<and>
          (if p = 0 then \<forall>q j. live_obj a' q j = live_obj a q j
           else \<exists>k. n \<le> k \<and> (\<forall>q j. live_obj a q j \<longrightarrow> apart q j p k) \<and>
             (\<forall>q j. live_obj a' q j \<longleftrightarrow> live_obj a q j \<or> q = p \<and> j = k))
      | Throw s m \<Rightarrow> a_dead a' = (s = Fatal) \<and> (\<forall>q j. live_obj a' q j = live_obj a q j)
      | _ \<Rightarrow> False"
    unfolding alloc_result_def
  proof (elim disjE exE conjE)
    fix p k assume "r = Return p" "\<not> a_dead a'" "p \<noteq> 0" "n \<le> k" "\<forall>j. \<not> live_obj a p j"
      "\<forall>q j. live_obj a' q j \<longleftrightarrow> live_obj a q j \<or> q = p \<and> j = k"
    then show ?thesis using apt by (auto intro!: exI [of _ k])
  qed simp_all
  with S show ?thesis by blast
qed

lemma demo_start_ok: "alloc_ok any_ok any_owns demo_start" "\<not> a_dead demo_start" "pool_ok (a_cfg demo_start)"
proof -
  show "alloc_ok any_ok any_owns demo_start" "\<not> a_dead demo_start"
    by (rule new_allocator_ok [OF demo_env_ok demo_rt_ok demo_start_eq])+
  show "pool_ok (a_cfg demo_start)" by code_simp
qed

lemma demo_small: "size_ok 5 demo_start"
proof -
  have "5 \<le> cf_small_max (a_cfg demo_start)" by code_simp
  then show ?thesis by (simp add: size_ok_def)
qed

theorem alloc_gives_new_object_witness:
  "\<exists>k. 5 \<le> k \<and> live_obj (snd (alloc any_backend 5 demo_start)) 0x7f0000000000 k"
proof -
  have "fst (alloc any_backend 5 demo_start) = Return 0x7f0000000000" by code_simp
  with alloc_gives_new_object [OF demo_start_ok demo_small surjective_pairing] show ?thesis by auto
qed

section \<open>free\<close>

text \<open>
  C7. free of a live object removes exactly that object; it fails only by a fatal error, after which
  the allocator is dead and every other object is still in its tables.
\<close>

theorem free_removes_one_object:
  assumes "alloc_ok any_ok any_owns a" and "\<not> a_dead a" and "live_obj a p k" and "free any_backend sy p a = (r, a')"
  shows "alloc_inv any_ok any_owns a' \<and>
    ((r = Return () \<and> \<not> a_dead a' \<and> (\<forall>q j. live_obj a' q j \<longleftrightarrow> live_obj a q j \<and> q \<noteq> p)) \<or>
     (\<exists>m. r = Throw Fatal m \<and> a_dead a' \<and> (\<forall>q j. live_obj a q j \<and> q \<noteq> p \<longrightarrow> live_obj a' q j)))"
  using any.free_step [OF assms] unfolding free_result_def by blast

lemma demo_two_ok: "alloc_ok any_ok any_owns demo_two" "\<not> a_dead demo_two"
proof -
  show "\<not> a_dead demo_two" by code_simp
  then show "alloc_ok any_ok any_owns demo_two" using heap_inv [OF demo_two_heap] by (simp add: alloc_inv_def)
qed

theorem free_removes_one_object_witness:
  "\<not> live_obj (snd (free any_backend (CUDA_SUCCESS, []) 0x7f0000040000 demo_two)) 0x7f0000040000 0x40000"
proof -
  have "fst (free any_backend (CUDA_SUCCESS, []) 0x7f0000040000 demo_two) = Return ()" by code_simp
  then have "free any_backend (CUDA_SUCCESS, []) 0x7f0000040000 demo_two =
      (Return (), snd (free any_backend (CUDA_SUCCESS, []) 0x7f0000040000 demo_two))" by (simp add: prod_eq_iff)
  from free_removes_one_object [OF demo_two_ok demo_two_live(2) this] show ?thesis by auto
qed

text \<open>
  free of anything else (a second free, an address inside an object, memory of someone else)
  throws Unsupported and changes nothing, where no slab has slack.
\<close>

theorem free_rejects_other_pointers:
  assumes "regions_ok (a_regions a)" and "\<not> a_dead a" and "p \<noteq> 0" and "\<And>k. \<not> live_obj a p k" and "no_slack a"
  shows "\<exists>m. free any_backend sy p a = (Throw Unsupported m, a)"
  using free_rejects_step [OF assms] .

text \<open>The second of two frees of the same object.\<close>

theorem free_rejects_other_pointers_witness:
  "\<exists>m. free any_backend (CUDA_SUCCESS, []) 0x7f0000040000 (snd (free any_backend (CUDA_SUCCESS, []) 0x7f0000040000 demo_two)) =
    (Throw Unsupported m, snd (free any_backend (CUDA_SUCCESS, []) 0x7f0000040000 demo_two))"
proof -
  let ?a = "snd (free any_backend (CUDA_SUCCESS, []) 0x7f0000040000 demo_two)"
  have d: "\<not> a_dead ?a" and n: "no_slack ?a" by code_simp+
  from any.free_step [OF demo_two_ok demo_two_live(2) surjective_pairing, of "(CUDA_SUCCESS, [])"] d
  have "alloc_ok any_ok any_owns ?a" "\<And>k. \<not> live_obj ?a 0x7f0000040000 k"
    by (auto simp: alloc_inv_def free_result_def)
  then show ?thesis by (intro free_rejects_other_pointers d n) (simp_all add: alloc_ok_def)
qed

section \<open>evict and prefetch\<close>

text \<open>
  C15. evict and prefetch never throw; objects keep their address and size; on Ok the object's chunk
  is at the target, and the allocator dies exactly on Fatal.
\<close>

theorem hints_keep_objects:
  assumes "alloc_ok any_ok any_owns a" and "\<not> a_dead a"
    and "(if evicting then evict any_backend sy p a else prefetch any_backend sy p a) = (r, a')"
  shows "\<exists>s. r = Return s \<and> a_dead a' = (s = Fatal) \<and> (\<forall>q j. live_obj a' q j = live_obj a q j) \<and>
    alloc_inv any_ok any_owns a' \<and>
    (s = Ok \<longrightarrow> (\<exists>base c. lookup p a' = Some (base, c) \<and> c_loc (rg_c c) = (if evicting then Host else Device)))"
proof -
  have e: "move_hint any_backend sy p (if evicting then Host else Device) a = (r, a')"
    using assms(3) by (simp add: evict_def prefetch_def split: if_splits)
  show ?thesis by (rule any.hint_step [OF assms(1,2) e]) blast
qed

text \<open>One large object on the uvm backend.\<close>

definition demo_large :: "AnyBackend Allocator" where
  "demo_large = snd (alloc any_backend 0x200000 demo_start)"

theorem hints_keep_objects_witness:
  "where_is any_backend 0x7f0000000000 (snd (evict any_backend (CUDA_SUCCESS, []) 0x7f0000000000 demo_large)) =
    (Return Host, snd (evict any_backend (CUDA_SUCCESS, []) 0x7f0000000000 demo_large))"
proof -
  let ?a = "snd (evict any_backend (CUDA_SUCCESS, []) 0x7f0000000000 demo_large)"
  have g: "any_granularity (a_b demo_start) = 0x200000" by code_simp
  have "alloc_ok any_ok any_owns demo_large"
    using any.alloc_step [OF demo_start_ok _ prod.collapse [symmetric]] g by (simp add: demo_large_def)
  moreover have "\<not> a_dead demo_large" by code_simp
  moreover have "fst (evict any_backend (CUDA_SUCCESS, []) 0x7f0000000000 demo_large) = Return Ok" by code_simp
  then have "(if True then evict any_backend (CUDA_SUCCESS, []) 0x7f0000000000 demo_large
      else prefetch any_backend (CUDA_SUCCESS, []) 0x7f0000000000 demo_large) = (Return Ok, ?a)" by (simp add: prod_eq_iff)
  ultimately obtain base c where "lookup 0x7f0000000000 ?a = Some (base, c)" "c_loc (rg_c c) = Host"
    using hints_keep_objects by fastforce
  then show ?thesis by (simp add: where_is_def find_def)
qed

end
