(* ===== verification/Allocator_Edges.thy ===== *)
theory Allocator_Edges
  imports Allocator_Props
begin

text \<open>
  The edges of the allocator: rounding sizes up, the dead allocator, the destructor, the
  configurations and pointers for which the code has no defined behaviour, and the library's own
  allocator (\<open>init\<close>, \<open>shutdown\<close> and the calls through it).
\<close>

section \<open>Rounding\<close>

text \<open>
  Rounding a size up gives the least multiple of the granularity that is at least the size; for
  the sizes within one granule of \<open>2^64\<close> it wraps to 0.
\<close>

theorem round_up_spec:
  assumes "g \<noteq> 0"
  shows "if unat x + unat g \<le> 2 ^ 64
    then unat (round_up g x) mod unat g = 0 \<and> x \<le> round_up g x \<and> unat (round_up g x) < unat x + unat g
    else round_up g x = 0"
proof (cases "unat x + unat g \<le> 2 ^ 64")
  case True
  note R = round_up_nat [OF assms True]
  show ?thesis using True R(1) R(2,3) by (simp add: word_le_nat_alt)
next
  case False
  have g: "1 \<le> unat g" using assms by (simp add: unat_gt_0 Suc_leI)
  have g1: "unat (g - 1) = unat g - 1" using g by (simp add: unat_sub word_le_nat_alt)
  have "unat (x + (g - 1)) = unat x + (unat g - 1) - 2 ^ 64"
  proof -
    have "\<not> unat x + unat (g - 1) < 2 ^ LENGTH(64)" using False g by (simp add: g1)
    then show ?thesis using unat_plus_if' [of x "g - 1"] g1 by simp
  qed
  then have "unat (x + g - 1) = unat x + (unat g - 1) - 2 ^ 64" by (simp add: algebra_simps)
  also have "\<dots> < unat g"
  proof -
    have "unat x < 2 ^ 64" by simp
    moreover have "a + (b - 1) - c < b" if "a < c" "1 \<le> b" for a b c :: nat using that by linarith
    ultimately show ?thesis using g by blast
  qed
  finally have "(x + g - 1) div g = 0" by (simp add: div_word_less word_less_nat_alt)
  then show ?thesis using False by (simp add: round_up_def)
qed

theorem round_up_spec_witness: "unat (round_up 0x200000 (5 :: u64)) < 5 + 0x200000"
proof -
  have "unat (5 :: u64) + unat (0x200000 :: u64) \<le> 2 ^ 64" by simp
  then have "unat (round_up 0x200000 (5 :: u64)) < unat (5 :: u64) + unat (0x200000 :: u64)"
    using round_up_spec [of "0x200000" 5] by (simp only: if_True) simp
  then show ?thesis by simp
qed

section \<open>After a fatal error\<close>

text \<open>
  A dead allocator answers every call that touches memory with Fatal and changes nothing.
\<close>

theorem dead_is_final:
  assumes "a_dead a"
  shows "(\<exists>m. alloc be n a = (Throw Fatal m, a)) \<and> (p \<noteq> 0 \<longrightarrow> (\<exists>m. free be sy p a = (Throw Fatal m, a))) \<and>
    evict be sy p a = (Return Fatal, a) \<and> prefetch be sy p a = (Return Fatal, a)"
  using assms by (simp_all add: alloc_def free_def live_def evict_def prefetch_def move_hint_def)

theorem dead_is_final_witness:
  "\<exists>m. free any_backend (CUDA_SUCCESS, []) 5 (demo_two\<lparr>a_dead := True\<rparr>) = (Throw Fatal m, demo_two\<lparr>a_dead := True\<rparr>)"
  using dead_is_final [of "demo_two\<lparr>a_dead := True\<rparr>" any_backend _ 5] by simp

section \<open>The destructor\<close>

context backend
begin

lemma destroy_all_returns:
  assumes "ok b" and "distinct (map fst es)" and "\<And>e. e \<in> set es \<Longrightarrow> owns b (rg_c (snd e)) \<and> c_ptr (rg_c (snd e)) = fst e"
  shows "\<exists>b'. destroy_all be es b = Some b' \<and> ok b'"
  using assms
proof (induction es arbitrary: b)
  case (Cons e es)
  obtain r b1 where d: "be_destroy be (rg_c (snd e)) b = (r, b1)" by (cases "be_destroy be (rg_c (snd e)) b")
  from destroy_live [OF Cons.prems(1) _ d] Cons.prems(3) [of e] obtain s c where r: "r = Ret (s, c)"
    and b1: "ok b1" "\<And>d. owns b d \<Longrightarrow> c_ptr d \<noteq> c_ptr (rg_c (snd e)) \<Longrightarrow> owns b1 d" by auto
  have "owns b1 (rg_c (snd x)) \<and> c_ptr (rg_c (snd x)) = fst x" if "x \<in> set es" for x
  proof -
    have "fst e \<notin> fst ` set es" using Cons.prems(2) by simp
    then have "fst x \<noteq> fst e" using that by (metis imageI)
    then show ?thesis using b1(2) Cons.prems(3) [of x] Cons.prems(3) [of e] that by simp
  qed
  from Cons.IH [OF b1(1) _ this] Cons.prems(2) show ?case using d r by simp
qed simp

end

text \<open>
  The destructor returns whatever the driver answers: no exception leaves it, and the backend's
  invariant still holds for what it could not give back.
\<close>

theorem destructor_never_throws:
  assumes "alloc_inv any_ok any_owns a"
  shows "\<exists>b. destruct any_backend r a = Some (be_close any_backend b) \<and> (\<not> a_dead a \<longrightarrow> any_ok b)"
proof (cases "\<not> a_dead a \<and> r = CUDA_SUCCESS")
  case True
  then have ok: "alloc_ok any_ok any_owns a" using assms by (simp add: alloc_inv_def)
  note K = alloc_okD [OF ok]
  have m: "map_of (a_regions a) (fst e) = Some (snd e)" if "e \<in> set (a_regions a)" for e
    using that om_ok_distinct [OF regions_okD(1) [OF K(2)]] by simp
  obtain b where "destroy_all any_backend (a_regions a) (a_b a) = Some b" "any_ok b"
    using any.destroy_all_returns [OF K(1) om_ok_distinct [OF regions_okD(1) [OF K(2)]]] K(5,6) [OF m]
    by (auto simp: span_ok_def)
  then show ?thesis using True by (intro exI [of _ b]) (simp add: destruct_def)
next
  case False
  then show ?thesis using assms by (auto simp: destruct_def alloc_inv_def alloc_ok_def)
qed

theorem destructor_never_throws_witness: "destruct any_backend CUDA_SUCCESS demo_two \<noteq> None"
proof -
  have "alloc_inv any_ok any_owns demo_two" using heap_inv [OF demo_two_heap] by simp
  from destructor_never_throws [OF this, of CUDA_SUCCESS] show ?thesis by auto
qed

section \<open>Where the code has no defined behaviour\<close>

text \<open>
  A slab whose size is not a multiple of its object size ends in slack, and free of the first
  address of the slack reads the flags outside their bounds instead of rejecting the pointer.
\<close>

theorem free_in_slack_is_undefined:
  assumes "regions_ok (a_regions a)" and "\<not> a_dead a" and "map_of (a_regions a) base = Some r" and "rg_obj r \<noteq> 0"
    and "unat p = unat base + length (rg_busy r) * unat (rg_obj r)" and "unat p < unat base + unat (c_size (rg_c r))"
  shows "free be sy p a = (Undefined, a)"
proof -
  note K = regions_okD [OF assms(1)]
  have sl: "slab_ok r" and sp: "span_ok base r" using K(3) [OF assms(3,4)] K(2) [OF assms(3)] .
  have l: "lookup p a = Some (base, r)" using lookup_iff [OF assms(1)] assms(3,5,6) by simp
  have le: "base \<le> p" using assms(5) by (simp add: word_le_nat_alt)
  have off: "unat (p - base) = length (rg_busy r) * unat (rg_obj r)" using u64_sub_no_wrap [OF le] assms(5) by simp
  have o: "unat (rg_obj r) \<noteq> 0" using assms(4) by (simp add: unat_eq_0)
  have "unat ((p - base) mod rg_obj r) = 0" using off by (simp add: unat_mod)
  then have m: "(p - base) mod rg_obj r = 0" by (simp add: unat_eq_0)
  have "unat ((p - base) div rg_obj r) = length (rg_busy r)" using off o by (simp add: unat_div)
  then have s: "unat (ucast ((p - base) div rg_obj r) :: u32) = length (rg_busy r)"
    using sl by (simp add: slab_ok_def unsigned_ucast_eq take_bit_eq_mod)
  have "p \<noteq> 0" using le sp by (auto simp: span_ok_def)
  then show ?thesis using assms(2,4) l m s by (simp add: free_live_eq free_slot_def Let_def)
qed

text \<open>Objects of 4 MiB in slabs of 6 MiB, a configuration the constructor accepts.\<close>

definition slack_start :: "AnyBackend Allocator" where
  "slack_start = (case new_allocator (demo_env False) (demo_rt 0x600000) None None
     (default_config\<lparr>cf_backend := KCuda, cf_small_max := 0x400000, cf_small_chunk := 0x600000\<rparr>) of Return a \<Rightarrow> a | _ \<Rightarrow> undefined)"

lemma slack_start_eq: "new_allocator (demo_env False) (demo_rt 0x600000) None None
     (default_config\<lparr>cf_backend := KCuda, cf_small_max := 0x400000, cf_small_chunk := 0x600000\<rparr>) = Return slack_start"
proof -
  have "case new_allocator (demo_env False) (demo_rt 0x600000) None None
     (default_config\<lparr>cf_backend := KCuda, cf_small_max := 0x400000, cf_small_chunk := 0x600000\<rparr>) of Return _ \<Rightarrow> True | _ \<Rightarrow> False"
    by code_simp
  then show ?thesis by (simp add: slack_start_def split: outcome.splits)
qed

theorem free_in_slack_is_undefined_witness:
  "fst (free any_backend (CUDA_SUCCESS, []) 0x7f0000400000 (snd (alloc any_backend 0x400000 slack_start))) = Undefined"
proof -
  let ?a = "snd (alloc any_backend 0x400000 slack_start)"
  have p: "pool_ok (a_cfg slack_start)" by code_simp
  have h: "heap slack_start" by (rule started [OF demo_env_ok demo_rt_ok slack_start_eq p])
  have "0x400000 \<le> cf_small_max (a_cfg slack_start)" by code_simp
  then have "heap ?a" by (intro alloced [OF h _ surjective_pairing]) (simp add: size_ok_def)
  then have reg: "regions_ok (a_regions ?a)" using heap_inv by (simp add: alloc_inv_def)
  have d: "\<not> a_dead ?a" by code_simp
  have "map_of (a_regions ?a) 0x7f0000000000 =
      Some \<lparr>rg_c = \<lparr>c_ptr = 0x7f0000000000, c_size = 0x600000, c_loc = Device\<rparr>, rg_obj = 0x400000,
        rg_free = [], rg_busy = [True], rg_used = 1\<rparr>" by code_simp
  from free_in_slack_is_undefined [OF reg d this, of "0x7f0000400000" any_backend "(CUDA_SUCCESS, [])"]
  show ?thesis by simp
qed

text \<open>
  The constructor checks small_max against small_chunk but not min_obj: with a min_obj above
  small_chunk the first small allocation takes the last element of an empty stack.
\<close>

theorem min_obj_above_chunk_is_undefined:
  assumes "\<not> a_dead a" and "n \<noteq> 0" and "n \<le> cf_small_max (a_cfg a)"
    and "bit_ceil (max n (cf_min_obj (a_cfg a))) = Some obj" and "cf_small_chunk (a_cfg a) < obj"
    and "part_of obj a = []" and "any_create (cf_small_chunk (a_cfg a)) null_chunk (a_b a) = (Ok, c, b)"
    and "map_of (a_regions a) (c_ptr c) = None"
  shows "fst (alloc any_backend n a) = Undefined"
proof -
  have o: "obj \<noteq> 0" using assms(5) by auto
  have "cf_small_chunk (a_cfg a) div obj = 0" using assms(5) by (simp add: div_word_less)
  then have "rg_free (new_region c (cf_small_chunk (a_cfg a)) obj) = []" by (simp add: new_region_def Let_def)
  moreover have "part_of obj (set_part obj [] a) = []" by (simp add: part_of_def set_part_def get_put)
  ultimately show ?thesis
    using assms o leD [OF assms(3)]
    by (simp add: alloc_def live_def Let_def add_def any_backend_def take_slot_def get_put part_insert_def put_region_def set_part_def)
qed

definition min_obj_start :: "AnyBackend Allocator" where
  "min_obj_start = (case new_allocator (demo_env False) (demo_rt 0x200000) None None
     (default_config\<lparr>cf_backend := KCuda, cf_min_obj := 0x400000\<rparr>) of Return a \<Rightarrow> a | _ \<Rightarrow> undefined)"

theorem min_obj_above_chunk_is_undefined_witness: "fst (alloc any_backend 5 min_obj_start) = Undefined"
proof (rule min_obj_above_chunk_is_undefined)
  show "any_create (cf_small_chunk (a_cfg min_obj_start)) null_chunk (a_b min_obj_start) =
    (Ok, \<lparr>c_ptr = 0x7f0000000000, c_size = 0x200000, c_loc = Device\<rparr>,
      snd (snd (any_create (cf_small_chunk (a_cfg min_obj_start)) null_chunk (a_b min_obj_start))))"
  proof -
    have "fst (any_create (cf_small_chunk (a_cfg min_obj_start)) null_chunk (a_b min_obj_start)) = Ok" by code_simp
    moreover have "fst (snd (any_create (cf_small_chunk (a_cfg min_obj_start)) null_chunk (a_b min_obj_start))) =
      \<lparr>c_ptr = 0x7f0000000000, c_size = 0x200000, c_loc = Device\<rparr>" by code_simp
    ultimately show ?thesis by (simp add: prod_eq_iff)
  qed
  show "bit_ceil (max 5 (cf_min_obj (a_cfg min_obj_start))) = Some 0x400000" by code_simp
  show "\<not> a_dead min_obj_start" "5 \<le> cf_small_max (a_cfg min_obj_start)" "cf_small_chunk (a_cfg min_obj_start) < 0x400000"
    "part_of 0x400000 min_obj_start = []" by code_simp+
  show "map_of (a_regions min_obj_start) (c_ptr \<lparr>c_ptr = 0x7f0000000000, c_size = 0x200000, c_loc = Device\<rparr>) = None" by code_simp
qed simp

text \<open>The size of an array is computed with wrap-around.\<close>

lemma alloc_array_wraps: "alloc_array be 8 0x2000000000000001 a = alloc be 8 a"
proof -
  have "(0x2000000000000001 * 8 :: u64) = 8" by simp
  then show ?thesis unfolding alloc_array_def by (rule arg_cong)
qed

section \<open>The library's own allocator\<close>

text \<open>
  The one allocator behind the free functions: \<open>init\<close> replaces it, \<open>shutdown\<close> and the end of the process
  destroy it. \<open>app_closed\<close> lists the backends of the allocators destroyed so far.
\<close>

record 'b App =
  app_allocator :: "'b Allocator option"
  app_hooked :: bool
  app_closed :: "'b list"

definition app_start :: "'b App" where
  "app_start = \<lparr>app_allocator = None, app_hooked = False, app_closed = []\<rparr>"

text \<open>\<open>reset\<close> of the pointer; \<open>r\<close> is what the synchronization in the destructor answers. \<open>None\<close> ends the process.\<close>

definition api_reset :: "'b Backend \<Rightarrow> CUresult \<Rightarrow> 'b App \<Rightarrow> 'b App option" where
  "api_reset be r s =
     (case app_allocator s of
        None \<Rightarrow> Some s
      | Some a \<Rightarrow> map_option (\<lambda>b. s\<lparr>app_allocator := None, app_closed := app_closed s @ [b]\<rparr>) (destruct be r a))"

definition api_shutdown :: "'b Backend \<Rightarrow> CUresult \<Rightarrow> 'b App \<Rightarrow> 'b App option" where
  "api_shutdown = api_reset"

text \<open>
  \<open>init\<close>: the new allocator is built first, and an exception leaves everything as it was; the old one goes
  when the new one is assigned. \<open>hook\<close>: whether \<open>atexit\<close> takes the function.
\<close>

definition api_init :: "'b Backend \<Rightarrow> CUresult \<Rightarrow> bool \<Rightarrow> 'b Allocator outcome \<Rightarrow> 'b App \<Rightarrow> unit outcome \<times> 'b App option" where
  "api_init be r hook new s =
     (case new of
        Return a \<Rightarrow> (Return (), map_option (\<lambda>s. s\<lparr>app_allocator := Some a, app_hooked := app_hooked s \<or> hook\<rparr>) (api_reset be r s))
      | Throw e m \<Rightarrow> (Throw e m, Some s)
      | ThrowOutOfRange \<Rightarrow> (ThrowOutOfRange, Some s)
      | Undefined \<Rightarrow> (Undefined, Some s))"

text \<open>A call of a free function.\<close>

definition api_call :: "('b Allocator \<Rightarrow> 'a outcome \<times> 'b Allocator) \<Rightarrow> 'b App \<Rightarrow> 'a outcome \<times> 'b App" where
  "api_call f s =
     (case get (app_allocator s) of
        Return a \<Rightarrow> (let (r, a) = f a in (r, s\<lparr>app_allocator := Some a\<rparr>))
      | Throw e m \<Rightarrow> (Throw e m, s)
      | ThrowOutOfRange \<Rightarrow> (ThrowOutOfRange, s)
      | Undefined \<Rightarrow> (Undefined, s))"

definition api_alloc :: "'b Backend \<Rightarrow> u64 \<Rightarrow> 'b App \<Rightarrow> u64 outcome \<times> 'b App" where
  "api_alloc be n = api_call (alloc be n)"

definition api_free :: "'b Backend \<Rightarrow> CUresult \<times> string \<Rightarrow> u64 \<Rightarrow> 'b App \<Rightarrow> unit outcome \<times> 'b App" where
  "api_free be sy p = api_call (free be sy p)"

definition api_evict :: "'b Backend \<Rightarrow> CUresult \<times> string \<Rightarrow> u64 \<Rightarrow> 'b App \<Rightarrow> Status outcome \<times> 'b App" where
  "api_evict be sy p = api_call (evict be sy p)"

definition api_prefetch :: "'b Backend \<Rightarrow> CUresult \<times> string \<Rightarrow> u64 \<Rightarrow> 'b App \<Rightarrow> Status outcome \<times> 'b App" where
  "api_prefetch be sy p = api_call (prefetch be sy p)"

text \<open>
  The end of the process: the function registered with \<open>atexit\<close>, then the destructor of the static
  pointer, which was constructed before and so goes after it.
\<close>

definition api_exit :: "'b Backend \<Rightarrow> CUresult \<Rightarrow> 'b App \<Rightarrow> 'b App option" where
  "api_exit be r s = Option.bind (if app_hooked s then api_shutdown be r s else Some s) (api_reset be r)"

text \<open>Before \<open>init\<close> and after \<open>shutdown\<close> every call throws and changes nothing.\<close>

lemma api_call_without_init:
  "app_allocator s = None \<Longrightarrow> api_call f s = (Throw Unsupported ''libvmem: call vmem::init() first'', s)"
  by (simp add: api_call_def get_def)

lemma api_shutdown_twice: "api_shutdown be r s = Some t \<Longrightarrow> app_allocator t = None \<and> api_shutdown be q t = Some t"
  by (auto simp: api_shutdown_def api_reset_def split: option.splits)

text \<open>Whatever the program does, an allocator that was built is the current one or has been destroyed, once.\<close>

datatype 'b api_event = Init CUresult bool "'b Allocator outcome" | Shutdown CUresult | Call "'b Allocator \<Rightarrow> unit outcome \<times> 'b Allocator"

fun api_step :: "'b Backend \<Rightarrow> 'b api_event \<Rightarrow> 'b App \<Rightarrow> 'b App option" where
  "api_step be (Init r hook new) s = snd (api_init be r hook new s)"
| "api_step be (Shutdown r) s = api_shutdown be r s"
| "api_step be (Call f) s = Some (snd (api_call f s))"

fun api_events :: "'b Backend \<Rightarrow> 'b api_event list \<Rightarrow> 'b App \<Rightarrow> 'b App option" where
  "api_events be [] s = Some s"
| "api_events be (e # es) s = Option.bind (api_step be e s) (api_events be es)"

fun built :: "'b api_event \<Rightarrow> nat" where
  "built (Init r hook (Return a)) = 1"
| "built _ = 0"

definition live_or_closed :: "'b App \<Rightarrow> nat" where
  "live_or_closed s = length (app_closed s) + (if app_allocator s = None then 0 else 1)"

lemma reset_count: "api_reset be r s = Some t \<Longrightarrow> app_allocator t = None \<and> length (app_closed t) = live_or_closed s"
  by (auto simp: api_reset_def live_or_closed_def split: option.splits)

lemma api_step_count:
  assumes "api_step be e s = Some t"
  shows "live_or_closed t = live_or_closed s + built e"
proof (cases e)
  case (Init r hook new)
  show ?thesis
  proof (cases new)
    case (Return a)
    then show ?thesis using assms Init by (auto simp: api_init_def live_or_closed_def dest!: reset_count)
  qed (use assms Init in \<open>auto simp: api_init_def\<close>)
next
  case (Shutdown r)
  then show ?thesis using assms reset_count [of be r s t] by (simp add: api_shutdown_def live_or_closed_def)
next
  case (Call f)
  then show ?thesis using assms
    by (auto simp: api_call_def get_def live_or_closed_def Let_def split: option.splits prod.splits)
qed

lemma every_allocator_is_destroyed:
  assumes "api_events be es app_start = Some s" and "api_exit be r s = Some t"
  shows "app_allocator t = None \<and> length (app_closed t) = sum_list (map built es)"
proof -
  have "live_or_closed s = live_or_closed q + sum_list (map built es)" if "api_events be es q = Some s" for q
    using that
  proof (induction es arbitrary: q)
    case (Cons e es)
    then obtain q' where "api_step be e q = Some q'" "api_events be es q' = Some s" by (auto simp: bind_eq_Some_conv)
    then show ?case using Cons.IH api_step_count by fastforce
  qed simp
  from this [OF assms(1)] have s: "live_or_closed s = sum_list (map built es)" by (simp add: live_or_closed_def app_start_def)
  show ?thesis
  proof (cases "app_hooked s")
    case True
    then obtain u where u: "api_reset be r s = Some u" "api_reset be r u = Some t"
      using assms(2) by (auto simp: api_exit_def api_shutdown_def bind_eq_Some_conv)
    then show ?thesis using reset_count [OF u(1)] reset_count [OF u(2)] s by (simp add: live_or_closed_def)
  next
    case False
    then show ?thesis using assms(2) reset_count [of be r s t] s by (simp add: api_exit_def)
  qed
qed

end
