(* ===== verification/Text.thy ===== *)
theory Text
  imports Prelude
begin

text \<open>
  Text as the program prints and reads it: \<open>%zu\<close>, \<open>%d\<close> and \<open>%llx\<close> (and their \<open>std::format\<close>
  counterparts), \<open>std::stoull\<close> on digits, character classes of the regular expressions, and \<open>trim\<close>.
  Characters are bytes in the C locale.
\<close>

section \<open>Numbers\<close>

definition digit :: "nat \<Rightarrow> char" where
  "digit d = (if d < 10 then char_of (48 + d) else char_of (87 + d))"

fun dec :: "nat \<Rightarrow> string" where
  "dec n = (if n < 10 then [digit n] else dec (n div 10) @ [digit (n mod 10)])"

fun hex :: "nat \<Rightarrow> string" where
  "hex n = (if n < 16 then [digit n] else hex (n div 16) @ [digit (n mod 16)])"

declare dec.simps [simp del] hex.simps [simp del]

definition dec_int :: "int \<Rightarrow> string" where
  "dec_int i = (if i < 0 then ''-'' @ dec (nat (- i)) else dec (nat i))"

definition dec64 :: "u64 \<Rightarrow> string" where "dec64 x = dec (unat x)"

text \<open>\<open>0x%llx\<close> and \<open>{:#x}\<close>.\<close>

definition hex64 :: "u64 \<Rightarrow> string" where "hex64 x = ''0x'' @ hex (unat x)"

section \<open>Characters\<close>

definition is_digit :: "char \<Rightarrow> bool" where "is_digit c \<longleftrightarrow> 48 \<le> (of_char c :: nat) \<and> (of_char c :: nat) \<le> 57"

definition is_alpha :: "char \<Rightarrow> bool" where
  "is_alpha c \<longleftrightarrow> 65 \<le> (of_char c :: nat) \<and> (of_char c :: nat) \<le> 90 \<or> 97 \<le> (of_char c :: nat) \<and> (of_char c :: nat) \<le> 122"

text \<open>\<open>[A-Za-z_]\<close>, \<open>\w\<close> and \<open>\s\<close>.\<close>

definition is_start :: "char \<Rightarrow> bool" where "is_start c \<longleftrightarrow> is_alpha c \<or> c = CHR ''_''"

definition is_word :: "char \<Rightarrow> bool" where "is_word c \<longleftrightarrow> is_start c \<or> is_digit c"

definition is_space :: "char \<Rightarrow> bool" where
  "is_space c \<longleftrightarrow> c = CHR '' '' \<or> 9 \<le> (of_char c :: nat) \<and> (of_char c :: nat) \<le> 13"

text \<open>What \<open>trim\<close> strips: \<open>" \t\r"\<close>.\<close>

definition is_blank :: "char \<Rightarrow> bool" where
  "is_blank c \<longleftrightarrow> c = CHR '' '' \<or> c = char_of (9 :: nat) \<or> c = char_of (13 :: nat)"

definition trim :: "string \<Rightarrow> string" where
  "trim s = rev (dropWhile is_blank (rev (dropWhile is_blank s)))"

text \<open>\<open>std::stoull\<close> of a string of digits, without its range check (at most 15 digits are read).\<close>

definition digit_value :: "char \<Rightarrow> nat" where "digit_value c = of_char c - 48"

definition number :: "string \<Rightarrow> nat" where
  "number s = foldl (\<lambda>n c. 10 * n + digit_value c) 0 s"

section \<open>Facts\<close>

lemma digit_ok:
  assumes "d < 10"
  shows "is_digit (digit d)" and "digit_value (digit d) = d"
  using assms by (simp_all add: digit_def is_digit_def digit_value_def)

lemma number_snoc: "number (s @ [c]) = 10 * number s + digit_value c"
  by (simp add: number_def)

lemma dec_digits: "list_all is_digit (dec n) \<and> dec n \<noteq> []"
proof (induction n rule: dec.induct)
  case (1 n)
  show ?case
  proof (cases "n < 10")
    case True
    then show ?thesis by (simp add: dec.simps [of n] digit_ok)
  next
    case False
    then show ?thesis using 1 by (simp add: dec.simps [of n] digit_ok)
  qed
qed

lemma number_dec: "number (dec n) = n"
proof (induction n rule: dec.induct)
  case (1 n)
  show ?case
  proof (cases "n < 10")
    case True
    then show ?thesis by (simp add: dec.simps [of n] number_def digit_ok)
  next
    case False
    then show ?thesis using 1 by (simp add: dec.simps [of n] number_snoc digit_ok)
  qed
qed

lemma dec_length: "n < 10 ^ k \<Longrightarrow> 0 < k \<Longrightarrow> length (dec n) \<le> k"
proof (induction n arbitrary: k rule: dec.induct)
  case (1 n)
  show ?case
  proof (cases "n < 10")
    case True
    then show ?thesis using 1 by (simp add: dec.simps [of n])
  next
    case False
    then obtain j where k: "k = Suc j" "0 < j" using 1(2,3) by (cases k; cases "k - 1") auto
    then have "n div 10 < 10 ^ j" using 1(2) by (simp add: div_less_iff_less_mult)
    then show ?thesis using 1(1) [OF False _ k(2)] False by (simp add: dec.simps [of n] k(1))
  qed
qed

lemma digit_word: "is_digit c \<Longrightarrow> \<not> is_start c"
  by (auto simp: is_digit_def is_start_def is_alpha_def)

lemma word_not_space: "is_word c \<Longrightarrow> \<not> is_space c"
  by (auto simp: is_word_def is_start_def is_alpha_def is_digit_def is_space_def)

section \<open>Messages and spans\<close>

text \<open>The pieces of a message; it is left folded in proofs.\<close>

definition cat :: "string list \<Rightarrow> string" where "cat = concat"

abbreviation spaces :: "string \<Rightarrow> bool" where "spaces s \<equiv> list_all is_space s"

lemma span_append:
  assumes "list_all P xs" and "ys = [] \<or> \<not> P (hd ys)"
  shows "takeWhile P (xs @ ys) = xs" "dropWhile P (xs @ ys) = ys"
proof -
  have "takeWhile P ys = []" "dropWhile P ys = ys" using assms(2) by (cases ys; auto)+
  then show "takeWhile P (xs @ ys) = xs" "dropWhile P (xs @ ys) = ys"
    using assms(1) by (simp_all add: list_all_iff takeWhile_append2 dropWhile_append2)
qed

lemma takeWhile_all: "list_all P (takeWhile P xs)"
  by (induction xs) auto

lemma dropWhile_head: "dropWhile P xs = y # ys \<Longrightarrow> \<not> P y"
  by (induction xs) (auto split: if_splits)

lemma hd_not: "ys = [] \<or> \<not> P (hd ys) \<longleftrightarrow> (\<forall>c t. ys = c # t \<longrightarrow> \<not> P c)"
  by (cases ys) auto

lemma char_classes:
  "is_space c \<Longrightarrow> \<not> is_word c" "is_digit c \<Longrightarrow> \<not> is_start c" "is_digit c \<Longrightarrow> \<not> is_space c" "is_alpha c \<Longrightarrow> \<not> is_digit c"
  "is_digit c \<Longrightarrow> is_word c" "is_start c \<Longrightarrow> is_word c" "is_start c \<Longrightarrow> \<not> is_digit c" "is_start c \<Longrightarrow> \<not> is_space c"
  "\<not> is_word CHR ''+''" "\<not> is_space CHR ''+''" "\<not> is_digit CHR ''+''" "\<not> is_word CHR ''=''" "\<not> is_space CHR ''=''"
  "\<not> is_word CHR ''(''" "\<not> is_space CHR ''(''"
  using word_not_space [of c] digit_word [of c]
  by (auto simp: is_space_def is_word_def is_start_def is_alpha_def is_digit_def)

end
