(* ===== verification/Manager.thy ===== *)
theory Manager
  imports Driver Text
begin

text \<open>
  The VMM Manager of the primitives (\<open>primitives/src/vmem.cuh\<close>): reservations, physical chunks named
  by tokens, map, unmap, remap and release over the driver, with its error checks, its log lines and
  its destructor. The driver is a parameter that sees the history of calls.
\<close>

section \<open>The driver calls of the Manager\<close>

datatype vcall =
    VReserve u64 CUresult u64        \<comment> \<open>cuMemAddressReserve: size, result, address\<close>
  | VCreate u64 Prop CUresult u64    \<comment> \<open>cuMemCreate: size, placement, result, handle\<close>
  | VMap u64 u64 u64 CUresult        \<comment> \<open>cuMemMap: address, size, handle\<close>
  | VAccess u64 u64 int CUresult     \<comment> \<open>cuMemSetAccess: address, size, device\<close>
  | VCopy u64 u64 u64 CUresult       \<comment> \<open>cuMemcpyDtoDAsync: destination, source, size\<close>
  | VStreamSync CUresult             \<comment> \<open>cuStreamSynchronize\<close>
  | VUnmap u64 u64 CUresult          \<comment> \<open>cuMemUnmap: address, size\<close>
  | VRelease u64 CUresult            \<comment> \<open>cuMemRelease: handle\<close>
  | VAddrFree u64 u64 CUresult       \<comment> \<open>cuMemAddressFree: address, size\<close>
  | VStreamDestroy CUresult          \<comment> \<open>cuStreamDestroy\<close>
  | VCtxRelease CUresult             \<comment> \<open>cuDevicePrimaryCtxRelease\<close>

type_synonym vhistory = "vcall list"

text \<open>The answers; those of the calls that only the constructor makes see no history.\<close>

record VEnv =
  ve_init :: CUresult
  ve_device_get :: "int \<Rightarrow> CUresult \<times> int"
  ve_retain :: "int \<Rightarrow> CUresult"
  ve_set_current :: CUresult
  ve_name :: "int \<Rightarrow> CUresult \<times> string"
  ve_attr :: "Attr \<Rightarrow> int \<Rightarrow> CUresult \<times> int"
  ve_granularity :: "Prop \<Rightarrow> CUresult \<times> u64"
  ve_stream_create :: CUresult
  ve_mem_info :: "vhistory \<Rightarrow> CUresult \<times> u64 \<times> u64"
  ve_error_name :: "CUresult \<Rightarrow> string"
  ve_reserve :: "vhistory \<Rightarrow> u64 \<Rightarrow> u64 \<Rightarrow> CUresult \<times> u64"
  ve_create :: "vhistory \<Rightarrow> u64 \<Rightarrow> Prop \<Rightarrow> CUresult \<times> u64"
  ve_map :: "vhistory \<Rightarrow> u64 \<Rightarrow> u64 \<Rightarrow> u64 \<Rightarrow> CUresult"
  ve_access :: "vhistory \<Rightarrow> u64 \<Rightarrow> u64 \<Rightarrow> int \<Rightarrow> CUresult"
  ve_copy :: "vhistory \<Rightarrow> u64 \<Rightarrow> u64 \<Rightarrow> u64 \<Rightarrow> CUresult"
  ve_stream_sync :: "vhistory \<Rightarrow> CUresult"
  ve_unmap :: "vhistory \<Rightarrow> u64 \<Rightarrow> u64 \<Rightarrow> CUresult"
  ve_release :: "vhistory \<Rightarrow> u64 \<Rightarrow> CUresult"
  ve_addr_free :: "vhistory \<Rightarrow> u64 \<Rightarrow> u64 \<Rightarrow> CUresult"
  ve_stream_destroy :: "vhistory \<Rightarrow> CUresult"
  ve_ctx_release :: "vhistory \<Rightarrow> CUresult"

section \<open>State\<close>

text \<open>
  An \<open>Error\<close>: a failed driver call (its text is the call, its place in the source and the names of
  the code) or a failed requirement with its text.
\<close>

datatype MError = CuFailed string CUresult | Requirement string

datatype 'x mres = MOk 'x | MErr MError

record ChunkToken =
  tk_owner :: u32
  tk_id :: int

record ChunkInfo =
  ci_id :: int
  ci_size :: u64
  ci_loc :: Loc
  ci_va :: u64

record MOptions =
  op_device :: int
  op_host_numa :: int
  op_verbose :: bool
  op_debug :: bool

definition default_options :: MOptions where
  "default_options = \<lparr>op_device = 0, op_host_numa = -1, op_verbose = True, op_debug = False\<rparr>"

record MChunk =
  mc_id :: int
  mc_size :: u64
  mc_loc :: Loc
  mc_handle :: u64
  mc_va :: u64

text \<open>\<open>m_out\<close> holds the lines given to \<open>say\<close>, \<open>m_calls\<close> the driver calls made.\<close>

record Manager =
  m_opt :: MOptions
  m_serial :: u32
  m_dev :: int
  m_numa :: int
  m_gran :: u64
  m_next_id :: int
  m_chunks :: "(int \<times> MChunk) list"
  m_res :: "(u64 \<times> u64) list"
  m_out :: "string list"
  m_calls :: vhistory

definition mapped :: "MChunk \<Rightarrow> bool" where "mapped c \<longleftrightarrow> mc_va c \<noteq> 0"

fun mbind :: "'x mres \<times> 's \<Rightarrow> ('x \<Rightarrow> 's \<Rightarrow> 'y mres \<times> 's) \<Rightarrow> 'y mres \<times> 's" where
  "mbind (MOk x, s) f = f x s"
| "mbind (MErr e, s) f = (MErr e, s)"

section \<open>Checks and output\<close>

text \<open>\<open>VMEM_CU\<close> and \<open>VMEM_REQUIRE\<close>; the latter's text goes through a buffer of 512 bytes.\<close>

definition vmem_cu :: "string \<Rightarrow> CUresult \<Rightarrow> 's \<Rightarrow> unit mres \<times> 's" where
  "vmem_cu what r s = (if r \<noteq> CUDA_SUCCESS then (MErr (CuFailed what r), s) else (MOk (), s))"

definition vfmt :: "string \<Rightarrow> string" where "vfmt s = take 511 s"

definition vmem_require :: "bool \<Rightarrow> string \<Rightarrow> 's \<Rightarrow> unit mres \<times> 's" where
  "vmem_require b what s = (if \<not> b then (MErr (Requirement (vfmt what)), s) else (MOk (), s))"

definition called :: "vcall \<Rightarrow> Manager \<Rightarrow> Manager" where
  "called e m = m\<lparr>m_calls := m_calls m @ [e]\<rparr>"

definition m_say :: "string \<Rightarrow> Manager \<Rightarrow> Manager" where
  "m_say l m = m\<lparr>m_out := m_out m @ [l]\<rparr>"

definition m_log :: "string \<Rightarrow> Manager \<Rightarrow> Manager" where
  "m_log l m = (if op_verbose (m_opt m) then m_say (cat [''[vmem] '', vfmt l]) m else m)"

definition mib_text :: "u64 \<Rightarrow> string" where "mib_text n = dec64 (drop_bit 20 n)"

definition count_text :: "'x list \<Rightarrow> string" where "count_text xs = dec (length xs)"

definition chunk_text :: "int \<Rightarrow> string" where "chunk_text i = ''chunk#'' @ dec_int i"

definition m_print_state :: "VEnv \<Rightarrow> Manager \<Rightarrow> Manager" where
  "m_print_state env m =
     (let (r, fr, tot) = ve_mem_info env (m_calls m);
          (fr, tot) = (if r = CUDA_SUCCESS then (fr, tot) else (0, 0));
          m = m_say (vfmt (cat [''[vmem] state: VRAM free '', mib_text fr, '' / '', mib_text tot, '' MiB, '',
              count_text (m_res m), '' reservation(s), '', count_text (m_chunks m), '' chunk(s)''])) m;
          m = fold (\<lambda>(va, sz). m_say (vfmt (cat [''[vmem]   reservation '', hex64 va, '' +'', mib_text sz,
              '' MiB'']))) (m_res m) m
      in fold (\<lambda>(i, c). m_say (vfmt (cat [''[vmem]   '', chunk_text i, '' '', mib_text (mc_size c), '' MiB '',
          loc_name (mc_loc c), if mapped c then cat ['', mapped at '', hex64 (mc_va c)] else '', unmapped'']))) (m_chunks m) m)"

definition m_dump :: "VEnv \<Rightarrow> Manager \<Rightarrow> Manager" where
  "m_dump env m = (if op_debug (m_opt m) then m_print_state env m else m)"

definition finish :: "VEnv \<Rightarrow> string \<Rightarrow> Manager \<Rightarrow> Manager" where
  \<comment> \<open>\<open>log(...); dump();\<close>\<close>
  "finish env l m = m_dump env (m_log l m)"

section \<open>Helpers\<close>

definition prop_of :: "Loc \<Rightarrow> Manager \<Rightarrow> Prop" where
  "prop_of l m = \<lparr>p_type = (if l = Device then LocDevice else LocHostNuma),
     p_id = (if l = Device then op_device (m_opt m) else m_numa m)\<rparr>"

definition grant :: "VEnv \<Rightarrow> u64 \<Rightarrow> u64 \<Rightarrow> Manager \<Rightarrow> unit mres \<times> Manager" where
  "grant env va n m =
     (let r = ve_access env (m_calls m) va n (op_device (m_opt m))
      in vmem_cu ''cuMemSetAccess'' r (called (VAccess va n (op_device (m_opt m)) r) m))"

definition m_round_up :: "Manager \<Rightarrow> u64 \<Rightarrow> u64" where
  "m_round_up m x = (x + m_gran m - 1) div m_gran m * m_gran m"

definition inside_reservation :: "u64 \<Rightarrow> u64 \<Rightarrow> Manager \<Rightarrow> bool" where
  "inside_reservation va n m =
     (case om_floor (m_res m) va of
        None \<Rightarrow> False
      | Some (base, sz) \<Rightarrow> va \<ge> base \<and> va + n \<le> base + sz)"

definition token_valid :: "ChunkToken \<Rightarrow> bool" where "token_valid t \<longleftrightarrow> tk_owner t \<noteq> 0"

definition get_chunk :: "ChunkToken \<Rightarrow> string \<Rightarrow> Manager \<Rightarrow> MChunk mres \<times> Manager" where
  "get_chunk t what m =
     mbind (vmem_require (token_valid t) (cat [what, '': invalid chunk token'']) m) (\<lambda>_ m.
     mbind (vmem_require (tk_owner t = m_serial m) (cat [what, '': chunk token belongs to another Manager'']) m) (\<lambda>_ m.
       case map_of (m_chunks m) (tk_id t) of
         None \<Rightarrow> (MErr (Requirement (vfmt (cat [what, '': '', chunk_text (tk_id t), '' was released'']))), m)
       | Some c \<Rightarrow> (MOk c, m)))"

definition put_chunk :: "MChunk \<Rightarrow> Manager \<Rightarrow> Manager" where
  "put_chunk c m = m\<lparr>m_chunks := om_put (mc_id c) c (m_chunks m)\<rparr>"

section \<open>Queries\<close>

definition m_info :: "ChunkToken \<Rightarrow> Manager \<Rightarrow> ChunkInfo mres \<times> Manager" where
  "m_info t m = mbind (get_chunk t ''info'' m) (\<lambda>c m.
     (MOk \<lparr>ci_id = mc_id c, ci_size = mc_size c, ci_loc = mc_loc c, ci_va = mc_va c\<rparr>, m))"

definition m_va :: "ChunkToken \<Rightarrow> Manager \<Rightarrow> u64 mres \<times> Manager" where
  "m_va t m = mbind (get_chunk t ''va'' m) (\<lambda>c m.
     mbind (vmem_require (mapped c) (cat [''va: '', chunk_text (mc_id c),
         '' is not mapped'']) m) (\<lambda>_ m. (MOk (mc_va c), m)))"

definition m_loc :: "ChunkToken \<Rightarrow> Manager \<Rightarrow> Loc mres \<times> Manager" where
  "m_loc t m = mbind (get_chunk t ''loc'' m) (\<lambda>c m. (MOk (mc_loc c), m))"

definition m_on_device :: "ChunkToken \<Rightarrow> Manager \<Rightarrow> bool mres \<times> Manager" where
  "m_on_device t m = mbind (m_loc t m) (\<lambda>l m. (MOk (l = Device), m))"

section \<open>Primitives\<close>

definition m_reserve :: "VEnv \<Rightarrow> u64 \<Rightarrow> Manager \<Rightarrow> u64 mres \<times> Manager" where
  "m_reserve env size0 m =
     (let sz = m_round_up m size0;
          (r, va) = ve_reserve env (m_calls m) sz (m_gran m)
      in mbind (vmem_cu ''cuMemAddressReserve'' r (called (VReserve sz r va) m)) (\<lambda>_ m.
           (MOk va, finish env (cat [''reserve('', dec64 size0, '') -> va '', hex64 va, '', '', mib_text sz, '' MiB''])
                      (m\<lparr>m_res := om_put va sz (m_res m)\<rparr>))))"

definition m_create :: "VEnv \<Rightarrow> u64 \<Rightarrow> Loc \<Rightarrow> Manager \<Rightarrow> ChunkToken mres \<times> Manager" where
  "m_create env size0 l m =
     mbind (vmem_require (size0 > 0) ''create: size must be > 0'' m) (\<lambda>_ m.
       let sz = m_round_up m size0;
           p = prop_of l m;
           (r, h) = ve_create env (m_calls m) sz p
       in mbind (vmem_cu ''cuMemCreate'' r (called (VCreate sz p r h) m)) (\<lambda>_ m.
            let i = m_next_id m;
                m = m\<lparr>m_next_id := i + 1\<rparr>;
                m = put_chunk \<lparr>mc_id = i, mc_size = sz, mc_loc = l, mc_handle = h, mc_va = 0\<rparr> m
            in (MOk \<lparr>tk_owner = m_serial m, tk_id = i\<rparr>,
                finish env (cat [''create('', dec64 size0, '', '', loc_name l, '') -> '', chunk_text i, '', '', mib_text sz,
                    '' MiB'']) m)))"

definition cu_map :: "VEnv \<Rightarrow> u64 \<Rightarrow> u64 \<Rightarrow> u64 \<Rightarrow> Manager \<Rightarrow> unit mres \<times> Manager" where
  "cu_map env va n h m =
     (let r = ve_map env (m_calls m) va n h in vmem_cu ''cuMemMap'' r (called (VMap va n h r) m))"

definition cu_unmap :: "VEnv \<Rightarrow> u64 \<Rightarrow> u64 \<Rightarrow> Manager \<Rightarrow> unit mres \<times> Manager" where
  "cu_unmap env va n m =
     (let r = ve_unmap env (m_calls m) va n in vmem_cu ''cuMemUnmap'' r (called (VUnmap va n r) m))"

definition cu_release :: "VEnv \<Rightarrow> u64 \<Rightarrow> Manager \<Rightarrow> unit mres \<times> Manager" where
  "cu_release env h m =
     (let r = ve_release env (m_calls m) h in vmem_cu ''cuMemRelease'' r (called (VRelease h r) m))"

definition cu_addr_free :: "VEnv \<Rightarrow> u64 \<Rightarrow> u64 \<Rightarrow> Manager \<Rightarrow> unit mres \<times> Manager" where
  "cu_addr_free env va n m =
     (let r = ve_addr_free env (m_calls m) va n in vmem_cu ''cuMemAddressFree'' r (called (VAddrFree va n r) m))"

definition m_map :: "VEnv \<Rightarrow> ChunkToken \<Rightarrow> u64 \<Rightarrow> Manager \<Rightarrow> u64 mres \<times> Manager" where
  "m_map env t va m =
     mbind (get_chunk t ''map'' m) (\<lambda>c m.
     mbind (vmem_require (\<not> mapped c) (cat [''map: '', chunk_text (mc_id c), '' is already mapped at '',
         hex64 (mc_va c)]) m) (\<lambda>_ m.
     mbind (vmem_require (va mod m_gran m = 0) (cat [''map: va '', hex64 va, '' is not '', dec64 (m_gran m),
         ''-aligned'']) m) (\<lambda>_ m.
     mbind (vmem_require (inside_reservation va (mc_size c) m)
              (cat [''map: ['', hex64 va, '', +'', dec64 (mc_size c), '') is not inside one reservation'']) m) (\<lambda>_ m.
     mbind (cu_map env va (mc_size c) (mc_handle c) m) (\<lambda>_ m.
     mbind (grant env va (mc_size c) m) (\<lambda>_ m.
       (MOk va, finish env (cat [''map('', chunk_text (mc_id c), '', '', hex64 va, '') -> ['', hex64 va, '', '',
           hex64 (va + mc_size c), '')''])
                  (put_chunk (c\<lparr>mc_va := va\<rparr>) m))))))))"

definition m_unmap :: "VEnv \<Rightarrow> ChunkToken \<Rightarrow> Manager \<Rightarrow> u64 mres \<times> Manager" where
  "m_unmap env t m =
     mbind (get_chunk t ''unmap'' m) (\<lambda>c m.
     mbind (vmem_require (mapped c) (cat [''unmap: '', chunk_text (mc_id c), '' is not mapped'']) m) (\<lambda>_ m.
     mbind (cu_unmap env (mc_va c) (mc_size c) m) (\<lambda>_ m.
       (MOk (mc_va c), finish env (cat [''unmap('', chunk_text (mc_id c), '') from '', hex64 (mc_va c)])
                         (put_chunk (c\<lparr>mc_va := 0\<rparr>) m)))))"

text \<open>The copy into the new backing \<open>nh\<close> through a scratch range, and the swap of the backing.\<close>

definition remap_copy :: "VEnv \<Rightarrow> MChunk \<Rightarrow> u64 \<Rightarrow> Manager \<Rightarrow> u64 mres \<times> Manager" where
  "remap_copy env c nh m =
     (let (r, scratch) = ve_reserve env (m_calls m) (mc_size c) (m_gran m)
      in mbind (vmem_cu ''cuMemAddressReserve'' r (called (VReserve (mc_size c) r scratch) m)) (\<lambda>_ m.
         mbind (cu_map env scratch (mc_size c) nh m) (\<lambda>_ m.
         mbind (grant env scratch (mc_size c) m) (\<lambda>_ m.
           let r = ve_copy env (m_calls m) scratch (mc_va c) (mc_size c)
           in mbind (vmem_cu ''cuMemcpyDtoDAsync'' r (called (VCopy scratch (mc_va c) (mc_size c) r) m)) (\<lambda>_ m.
              let r = ve_stream_sync env (m_calls m)
              in mbind (vmem_cu ''cuStreamSynchronize'' r (called (VStreamSync r) m)) (\<lambda>_ m. (MOk scratch, m)))))))"

definition remap_swap :: "VEnv \<Rightarrow> MChunk \<Rightarrow> u64 \<Rightarrow> u64 \<Rightarrow> Manager \<Rightarrow> unit mres \<times> Manager" where
  "remap_swap env c nh scratch m =
     mbind (cu_unmap env (mc_va c) (mc_size c) m) (\<lambda>_ m.
     mbind (cu_release env (mc_handle c) m) (\<lambda>_ m.
     mbind (cu_map env (mc_va c) (mc_size c) nh m) (\<lambda>_ m.
     mbind (grant env (mc_va c) (mc_size c) m) (\<lambda>_ m.
     mbind (cu_unmap env scratch (mc_size c) m) (\<lambda>_ m.
       cu_addr_free env scratch (mc_size c) m)))))"

definition m_remap :: "VEnv \<Rightarrow> ChunkToken \<Rightarrow> Loc \<Rightarrow> Manager \<Rightarrow> u64 mres \<times> Manager" where
  "m_remap env t to m =
     mbind (get_chunk t ''remap'' m) (\<lambda>c m.
     mbind (vmem_require (mapped c) (cat [''remap: '', chunk_text (mc_id c), '' is not mapped (map it first)'']) m) (\<lambda>_ m.
       if mc_loc c = to
       then (MOk (mc_va c), m_say (vfmt (cat [''[vmem] remap('', chunk_text (mc_id c), '', '', loc_name to,
           ''): already on '', loc_name to, '', nothing to do''])) m)
       else
         (let p = prop_of to m;
              (r, nh) = ve_create env (m_calls m) (mc_size c) p
          in mbind (vmem_cu ''cuMemCreate'' r (called (VCreate (mc_size c) p r nh) m)) (\<lambda>_ m.
             mbind (remap_copy env c nh m) (\<lambda>scratch m.
             mbind (remap_swap env c nh scratch m) (\<lambda>_ m.
               let m = m_log (cat [''remap('', chunk_text (mc_id c), '') '', loc_name (mc_loc c), '' -> '', loc_name to,
                   '' at '', hex64 (mc_va c)]) m;
                   m = put_chunk (c\<lparr>mc_handle := nh, mc_loc := to\<rparr>) m
               in (MOk (mc_va c), m_dump env m)))))))"

definition m_release :: "VEnv \<Rightarrow> ChunkToken \<Rightarrow> Manager \<Rightarrow> u64 mres \<times> Manager" where
  "m_release env t m =
     mbind (get_chunk t ''release'' m) (\<lambda>c m.
     mbind (vmem_require (\<not> mapped c)
              (cat [''release: '', chunk_text (mc_id c), '' is still mapped at '', hex64 (mc_va c),
                  '' (unmap it first)'']) m) (\<lambda>_ m.
     mbind (cu_release env (mc_handle c) m) (\<lambda>_ m.
       (MOk (mc_size c), finish env (cat [''release('', chunk_text (mc_id c), '') -> '', mib_text (mc_size c), '' MiB''])
                           (m\<lparr>m_chunks := om_del (mc_id c) (m_chunks m)\<rparr>)))))"

text \<open>The first chunk whose mapping starts in the range stops \<open>free\<close>.\<close>

fun none_mapped_in :: "u64 \<Rightarrow> u64 \<Rightarrow> (int \<times> MChunk) list \<Rightarrow> Manager \<Rightarrow> unit mres \<times> Manager" where
  "none_mapped_in va sz [] m = (MOk (), m)"
| "none_mapped_in va sz (e # es) m =
     (let c = snd e
      in mbind (vmem_require (\<not> (mapped c \<and> mc_va c \<ge> va \<and> mc_va c < va + sz))
                  (cat [''free: '', chunk_text (mc_id c), '' is still mapped inside ['', hex64 va, '', +'', dec64 sz, '')'']) m)
           (\<lambda>_ m. none_mapped_in va sz es m))"

definition m_free :: "VEnv \<Rightarrow> u64 \<Rightarrow> Manager \<Rightarrow> u64 mres \<times> Manager" where
  "m_free env va m =
     (case map_of (m_res m) va of
        None \<Rightarrow> (MErr (Requirement (vfmt (cat [''free: '', hex64 va, '' is not the start of a reservation'']))), m)
      | Some sz \<Rightarrow>
          mbind (none_mapped_in va sz (m_chunks m) m) (\<lambda>_ m.
          mbind (cu_addr_free env va sz m) (\<lambda>_ m.
            (MOk sz, finish env (cat [''free('', hex64 va, '') -> '', mib_text sz,
                '' MiB'']) (m\<lparr>m_res := om_del va (m_res m)\<rparr>)))))"

section \<open>Construction and destruction\<close>

definition new_manager :: "VEnv \<Rightarrow> MOptions \<Rightarrow> u32 \<Rightarrow> unit mres \<times> Manager" where
  \<comment> \<open>the argument \<open>n\<close> is the counter of \<open>next_serial\<close>\<close>
  "new_manager env opt n =
     (let m = \<lparr>m_opt = opt, m_serial = n + 1, m_dev = 0, m_numa = 0, m_gran = 0, m_next_id = 0, m_chunks = [], m_res = [],
               m_out = [], m_calls = []\<rparr>
      in mbind (vmem_cu ''cuInit'' (ve_init env) m) (\<lambda>_ m. let (r, dev) = ve_device_get env (op_device opt) in
         mbind (vmem_cu ''cuDeviceGet'' r m) (\<lambda>_ m. let m = m\<lparr>m_dev := dev\<rparr> in
         mbind (vmem_cu ''cuDevicePrimaryCtxRetain'' (ve_retain env dev) m) (\<lambda>_ m.
         mbind (vmem_cu ''cuCtxSetCurrent'' (ve_set_current env) m) (\<lambda>_ m. let (r, name) = ve_name env dev in
         mbind (vmem_cu ''cuDeviceGetName'' r m) (\<lambda>_ m. let (r, vmm) = ve_attr env VmmSupported dev in
         mbind (vmem_cu ''cuDeviceGetAttribute'' r m) (\<lambda>_ m. let (r, host_vmm) = ve_attr env HostVmmSupported dev in
         mbind (vmem_cu ''cuDeviceGetAttribute'' r m) (\<lambda>_ m. let (r, numa) = ve_attr env HostNumaId dev in
         mbind (vmem_cu ''cuDeviceGetAttribute'' r m) (\<lambda>_ m.
         mbind (vmem_require (vmm \<noteq> 0) (cat [''device '', dec_int (op_device opt),
             '' does not support VMM'']) m) (\<lambda>_ m.
         mbind (vmem_require (host_vmm \<noteq> 0) (cat [''device '', dec_int (op_device opt),
             '' does not support HOST_NUMA VMM allocations'']) m) (\<lambda>_ m.
         let m = m\<lparr>m_numa := if op_host_numa opt \<ge> 0 then op_host_numa opt else if numa < 0 then 0 else numa\<rparr>;
             (rd, gd) = ve_granularity env (prop_of Device m) in
         mbind (vmem_cu ''cuMemGetAllocationGranularity'' rd m) (\<lambda>_ m. let (rh, gh) = ve_granularity env (prop_of Host m) in
         mbind (vmem_cu ''cuMemGetAllocationGranularity'' rh m) (\<lambda>_ m. let m = m\<lparr>m_gran := if gd > gh then gd else gh\<rparr> in
         mbind (vmem_cu ''cuStreamCreate'' (ve_stream_create env) m) (\<lambda>_ m. let (r, fr, tot) = ve_mem_info env (m_calls m) in
         mbind (vmem_cu ''cuMemGetInfo'' r m) (\<lambda>_ m.
           (MOk (), finish env (cat [''init: device '', dec_int (op_device opt), '' '', [CHR 0x22], name, [CHR 0x22],
               '', host NUMA node '', dec_int (m_numa m), '', granularity '', dec64 (drop_bit 10 (m_gran m)), '' KiB, VRAM free '', mib_text fr, '' / '', mib_text tot, '' MiB'']) m))))))))))))))))"

text \<open>The destructor. \<open>ok\<close> prints each failed call; the count of failures is printed at the end.\<close>

definition dtor_ok :: "VEnv \<Rightarrow> CUresult \<Rightarrow> string \<Rightarrow> int \<Rightarrow> Manager \<Rightarrow> nat \<times> Manager" where
  "dtor_ok env r what i m =
     (if r = CUDA_SUCCESS then (0, m)
      else (1, m_say (vfmt (cat [''[vmem] shutdown: '', what, '' failed ('', chunk_text i, ''): '', ve_error_name env r])) m))"

fun drop_chunks :: "VEnv \<Rightarrow> (int \<times> MChunk) list \<Rightarrow> nat \<times> Manager \<Rightarrow> nat \<times> Manager" where
  "drop_chunks env [] (bad, m) = (bad, m)"
| "drop_chunks env (e # es) (bad, m) =
     (let c = snd e;
          (b1, m) = (if mapped c
             then (let r = ve_unmap env (m_calls m) (mc_va c) (mc_size c)
                   in dtor_ok env r ''cuMemUnmap'' (fst e) (called (VUnmap (mc_va c) (mc_size c) r) m))
             else (0, m));
          r = ve_release env (m_calls m) (mc_handle c);
          (b2, m) = dtor_ok env r ''cuMemRelease'' (fst e) (called (VRelease (mc_handle c) r) m)
      in drop_chunks env es (bad + b1 + b2, m))"

fun drop_reservations :: "VEnv \<Rightarrow> (u64 \<times> u64) list \<Rightarrow> nat \<times> Manager \<Rightarrow> nat \<times> Manager" where
  "drop_reservations env [] (bad, m) = (bad, m)"
| "drop_reservations env (e # es) (bad, m) =
     (let r = ve_addr_free env (m_calls m) (fst e) (snd e);
          (b, m) = dtor_ok env r ''cuMemAddressFree'' (-1) (called (VAddrFree (fst e) (snd e) r) m)
      in drop_reservations env es (bad + b, m))"

definition drop_manager :: "VEnv \<Rightarrow> Manager \<Rightarrow> Manager" where
  \<comment> \<open>a constructed Manager has its copy stream\<close>
  "drop_manager env m =
     (let (bad, m) = drop_reservations env (m_res m) (drop_chunks env (m_chunks m) (0, m));
          r = ve_stream_destroy env (m_calls m);
          (b, m) = dtor_ok env r ''cuStreamDestroy'' (-1) (called (VStreamDestroy r) m);
          bad = bad + b;
          m = m_log (cat [''shutdown: released '', count_text (m_chunks m), '' chunk(s), freed '', count_text (m_res m),
              '' reservation(s), '', dec bad, '' failure(s)'']) m;
          r = ve_ctx_release env (m_calls m)
      in snd (dtor_ok env r ''cuDevicePrimaryCtxRelease'' (-1) (called (VCtxRelease r) m)))"

end
