(* ===== verification/Manager_Inv.thy ===== *)
theory Manager_Inv
  imports Manager
begin

text \<open>
  The Manager's tables, the state of the driver as its call history determines it, and the agreement
  of the two. \<open>mbind_iff\<close> and the \<open>_done\<close> lemmas turn a call that succeeded into its steps.
\<close>

section \<open>Reading a history\<close>

record VState =
  vs_reserved :: "u64 \<Rightarrow> u64 option"
  vs_handles :: "u64 \<Rightarrow> (u64 \<times> Prop \<times> nat option) option"
  vs_maps :: "u64 \<Rightarrow> (u64 \<times> u64 \<times> int option) option"

definition vs_data :: "VState \<Rightarrow> u64 \<Rightarrow> nat option" where
  \<comment> \<open>the data read at the start of a mapping\<close>
  "vs_data d va =
     (case vs_maps d va of
        Some (_, h, Some _) \<Rightarrow> (case vs_handles d h of Some (_, _, x) \<Rightarrow> x | None \<Rightarrow> None)
      | _ \<Rightarrow> None)"

definition vs_copy :: "u64 \<Rightarrow> u64 \<Rightarrow> VState \<Rightarrow> VState" where
  "vs_copy dst src d =
     (case vs_maps d dst of
        Some (_, h, Some _) \<Rightarrow>
          (case vs_handles d h of
             Some (n, p, _) \<Rightarrow> d\<lparr>vs_handles := (vs_handles d)(h \<mapsto> (n, p, vs_data d src))\<rparr>
           | None \<Rightarrow> d)
      | _ \<Rightarrow> d)"

fun vs_apply :: "vcall \<Rightarrow> VState \<Rightarrow> VState" where
  "vs_apply (VReserve n r va) d = (if r = CUDA_SUCCESS then d\<lparr>vs_reserved := (vs_reserved d)(va \<mapsto> n)\<rparr> else d)"
| "vs_apply (VCreate n p r h) d = (if r = CUDA_SUCCESS then d\<lparr>vs_handles := (vs_handles d)(h \<mapsto> (n, p, None))\<rparr> else d)"
| "vs_apply (VMap va n h r) d = (if r = CUDA_SUCCESS then d\<lparr>vs_maps := (vs_maps d)(va \<mapsto> (n, h, None))\<rparr> else d)"
| "vs_apply (VAccess va n dev r) d =
     (if r = CUDA_SUCCESS
      then (case vs_maps d va of
              Some (k, h, _) \<Rightarrow> d\<lparr>vs_maps := (vs_maps d)(va \<mapsto> (k, h, Some dev))\<rparr>
            | None \<Rightarrow> d)
      else d)"
| "vs_apply (VCopy dst src n r) d = (if r = CUDA_SUCCESS then vs_copy dst src d else d)"
| "vs_apply (VUnmap va n r) d = (if r = CUDA_SUCCESS then d\<lparr>vs_maps := (vs_maps d)(va := None)\<rparr> else d)"
| "vs_apply (VRelease h r) d = (if r = CUDA_SUCCESS then d\<lparr>vs_handles := (vs_handles d)(h := None)\<rparr> else d)"
| "vs_apply (VAddrFree va n r) d = (if r = CUDA_SUCCESS then d\<lparr>vs_reserved := (vs_reserved d)(va := None)\<rparr> else d)"
| "vs_apply _ d = d"

definition vs :: "vhistory \<Rightarrow> VState" where
  "vs hs = fold vs_apply hs \<lparr>vs_reserved = (\<lambda>_. None), vs_handles = (\<lambda>_. None), vs_maps = (\<lambda>_. None)\<rparr>"

lemma vs_snoc [simp]: "vs (hs @ es) = fold vs_apply es (vs hs)"
  by (simp add: vs_def)

text \<open>
  What the documentation promises: a new range is not empty, does not wrap and overlaps no reserved
  one; a new handle is not empty and not in use; a range is mapped only where no mapping lies.
\<close>

definition v_documented :: "VEnv \<Rightarrow> bool" where
  "v_documented env \<longleftrightarrow>
     (\<forall>hs n g va. ve_reserve env hs n g = (CUDA_SUCCESS, va) \<longrightarrow>
        va \<noteq> 0 \<and> n \<noteq> 0 \<and> unat va + unat n < 2 ^ 64 \<and>
        (\<forall>a k. vs_reserved (vs hs) a = Some k \<longrightarrow> apart a k va n)) \<and>
     (\<forall>hs n p h. ve_create env hs n p = (CUDA_SUCCESS, h) \<longrightarrow> n \<noteq> 0 \<and> vs_handles (vs hs) h = None) \<and>
     (\<forall>hs va n h. ve_map env hs va n h = CUDA_SUCCESS \<longrightarrow> unat va + unat n < 2 ^ 64 \<and>
        (\<forall>a k g x. vs_maps (vs hs) a = Some (k, g, x) \<longrightarrow> apart a k va n))"

lemma v_documentedD:
  assumes "v_documented env"
  shows "ve_reserve env hs n g = (CUDA_SUCCESS, va) \<Longrightarrow> va \<noteq> 0 \<and> n \<noteq> 0 \<and> unat va + unat n < 2 ^ 64 \<and>
      (\<forall>a k. vs_reserved (vs hs) a = Some k \<longrightarrow> apart a k va n)"
    and "ve_create env hs n p = (CUDA_SUCCESS, h) \<Longrightarrow> n \<noteq> 0 \<and> vs_handles (vs hs) h = None"
    and "ve_map env hs va n h = CUDA_SUCCESS \<Longrightarrow> unat va + unat n < 2 ^ 64"
    and "ve_map env hs va n h = CUDA_SUCCESS \<Longrightarrow> vs_maps (vs hs) a = Some (k, g', x) \<Longrightarrow> apart a k va n"
  using assms unfolding v_documented_def by metis+

lemma apart_sym: "apart a m b n \<longleftrightarrow> apart b n a m"
  by (auto simp: apart_def)

section \<open>Calls that succeed\<close>

lemma mbind_iff:
  "mbind p f = (MOk y, s') \<longleftrightarrow> (\<exists>x s. p = (MOk x, s) \<and> f x s = (MOk y, s'))"
  by (cases "(p, f)" rule: mbind.cases) auto

lemma mbind_err:
  "mbind p f = (MErr e, s') \<longleftrightarrow> p = (MErr e, s') \<or> (\<exists>x s. p = (MOk x, s) \<and> f x s = (MErr e, s'))"
  by (cases "(p, f)" rule: mbind.cases) auto

lemma check_done [simp]:
  "vmem_cu what r s = (MOk u, s') \<longleftrightarrow> r = CUDA_SUCCESS \<and> s' = s"
  "vmem_require b what s = (MOk u, s') \<longleftrightarrow> b \<and> s' = s"
  by (auto simp: vmem_cu_def vmem_require_def)

lemma called_fields [simp]:
  "m_calls (called e m) = m_calls m @ [e]" "m_chunks (called e m) = m_chunks m" "m_res (called e m) = m_res m"
  "m_gran (called e m) = m_gran m" "m_opt (called e m) = m_opt m" "m_numa (called e m) = m_numa m"
  "m_next_id (called e m) = m_next_id m" "m_serial (called e m) = m_serial m"
  by (simp_all add: called_def)

text \<open>Output changes nothing else.\<close>

definition quiet :: "Manager \<Rightarrow> Manager \<Rightarrow> bool" where
  "quiet m m' \<longleftrightarrow> m'\<lparr>m_out := m_out m\<rparr> = m"

lemma quiet_say: "quiet m (m_say l m)"
  by (simp add: quiet_def m_say_def)

lemma m_quiet_refl: "quiet m m" by (simp add: quiet_def)

lemma m_quiet_trans: "quiet m1 m2 \<Longrightarrow> quiet m2 m3 \<Longrightarrow> quiet m1 m3"
  unfolding quiet_def by (cases m1; cases m2; cases m3) auto

lemma quiet_fold: "(\<And>x m. quiet m (f x m)) \<Longrightarrow> quiet m (fold f xs m)"
  by (induction xs arbitrary: m) (use m_quiet_refl m_quiet_trans in \<open>fastforce+\<close>)

lemma quiet_dump: "quiet m (m_dump env m)"
proof -
  have "quiet m (m_print_state env m)" for m
    unfolding m_print_state_def Let_def case_prod_beta
    by (intro m_quiet_trans [OF m_quiet_trans [OF quiet_say quiet_fold] quiet_fold] quiet_say)
  then show ?thesis by (simp add: m_dump_def m_quiet_refl)
qed

lemma quiet_finish: "quiet m (finish env l m)"
proof -
  have "quiet m (m_log l m)" by (simp add: m_log_def m_quiet_refl quiet_say)
  then show ?thesis unfolding finish_def using quiet_dump m_quiet_trans by blast
qed

lemma quiet_fields:
  assumes "quiet m m'"
  shows "m_calls m' = m_calls m" "m_chunks m' = m_chunks m" "m_res m' = m_res m" "m_gran m' = m_gran m"
    "m_opt m' = m_opt m" "m_numa m' = m_numa m" "m_next_id m' = m_next_id m" "m_serial m' = m_serial m"
  using assms unfolding quiet_def by (cases m; cases m'; simp)+

lemmas finish_fields [simp] = quiet_fields [OF quiet_finish]

section \<open>The tables\<close>

text \<open>
  Keys and ids agree, every id given out is below the next, and a mapped chunk is aligned and lies in
  one reservation.
\<close>

definition aligned :: "u64 \<Rightarrow> u64 \<Rightarrow> bool" where
  "aligned g va \<longleftrightarrow> unat g dvd unat va"

lemma aligned_iff [simp]: "va mod g = 0 \<longleftrightarrow> aligned g va"
  by (metis aligned_def dvd_eq_mod_eq_0 unat_eq_0 unat_mod_distrib)

definition in_reservation :: "(u64 \<times> u64) list \<Rightarrow> u64 \<Rightarrow> u64 \<Rightarrow> bool" where
  "in_reservation rs va n \<longleftrightarrow> (\<exists>base sz. map_of rs base = Some sz \<and> unat base \<le> unat va \<and> unat va + unat n \<le> unat base + unat sz)"

definition held_ranges :: "Manager \<Rightarrow> bool" where
  \<comment> \<open>the driver still reserves every range of the table\<close>
  "held_ranges m \<longleftrightarrow> (\<forall>base sz. map_of (m_res m) base = Some sz \<longrightarrow> vs_reserved (vs (m_calls m)) base = Some sz)"

definition tables_ok :: "Manager \<Rightarrow> bool" where
  "tables_ok m \<longleftrightarrow> om_ok (m_chunks m) \<and> om_ok (m_res m) \<and> 0 \<le> m_next_id m \<and>
     (\<forall>i c. map_of (m_chunks m) i = Some c \<longrightarrow> mc_id c = i \<and> 0 \<le> i \<and> i < m_next_id m \<and> mc_size c \<noteq> 0 \<and>
        (mapped c \<longrightarrow> aligned (m_gran m) (mc_va c) \<and> in_reservation (m_res m) (mc_va c) (mc_size c))) \<and>
     (\<forall>base sz. map_of (m_res m) base = Some sz \<longrightarrow> base \<noteq> 0 \<and> sz \<noteq> 0 \<and> unat base + unat sz < 2 ^ 64) \<and>
     (\<forall>a k b n. map_of (m_res m) a = Some k \<longrightarrow> map_of (m_res m) b = Some n \<longrightarrow> a \<noteq> b \<longrightarrow> apart a k b n) \<and>
     held_ranges m"

text \<open>The driver holds exactly what the tables name.\<close>

definition agrees :: "Manager \<Rightarrow> bool" where
  "agrees m \<longleftrightarrow>
     (let d = vs (m_calls m) in
      (\<forall>va. vs_reserved d va = map_of (m_res m) va) \<and>
      (\<forall>h n p. (\<exists>x. vs_handles d h = Some (n, p, x)) \<longleftrightarrow>
         (\<exists>i c. map_of (m_chunks m) i = Some c \<and> mc_handle c = h \<and> mc_size c = n \<and> prop_of (mc_loc c) m = p)) \<and>
      (\<forall>i c j e. map_of (m_chunks m) i = Some c \<longrightarrow> map_of (m_chunks m) j = Some e \<longrightarrow> mc_handle c = mc_handle e \<longrightarrow> i = j) \<and>
      (\<forall>va n h a. vs_maps d va = Some (n, h, a) \<longleftrightarrow>
         (\<exists>i c. map_of (m_chunks m) i = Some c \<and> mapped c \<and> mc_va c = va \<and> mc_size c = n \<and> mc_handle c = h \<and>
            a = Some (op_device (m_opt m)))) \<and>
      (\<forall>va n h a va' n' h' a'. vs_maps d va = Some (n, h, a) \<longrightarrow> vs_maps d va' = Some (n', h', a') \<longrightarrow> va \<noteq> va' \<longrightarrow> apart va n va' n'))"

lemma agreesD:
  assumes "agrees m"
  shows "vs_reserved (vs (m_calls m)) va = map_of (m_res m) va"
    and "(\<exists>x. vs_handles (vs (m_calls m)) h = Some (n, p, x)) \<longleftrightarrow>
         (\<exists>i c. map_of (m_chunks m) i = Some c \<and> mc_handle c = h \<and> mc_size c = n \<and> prop_of (mc_loc c) m = p)"
    and "map_of (m_chunks m) i = Some c \<Longrightarrow> map_of (m_chunks m) j = Some e \<Longrightarrow> mc_handle c = mc_handle e \<Longrightarrow> i = j"
    and "vs_maps (vs (m_calls m)) va = Some (n, h, a) \<longleftrightarrow>
         (\<exists>i c. map_of (m_chunks m) i = Some c \<and> mapped c \<and> mc_va c = va \<and> mc_size c = n \<and> mc_handle c = h \<and>
            a = Some (op_device (m_opt m)))"
    and "vs_maps (vs (m_calls m)) va = Some (n, h, a) \<Longrightarrow> vs_maps (vs (m_calls m)) va' = Some (n', h', a') \<Longrightarrow>
         va \<noteq> va' \<Longrightarrow> apart va n va' n'"
proof -
  note A = assms [unfolded agrees_def Let_def]
  show "vs_reserved (vs (m_calls m)) va = map_of (m_res m) va" by (rule A [THEN conjunct1, rule_format])
  show "(\<exists>x. vs_handles (vs (m_calls m)) h = Some (n, p, x)) \<longleftrightarrow>
      (\<exists>i c. map_of (m_chunks m) i = Some c \<and> mc_handle c = h \<and> mc_size c = n \<and> prop_of (mc_loc c) m = p)"
    by (rule A [THEN conjunct2, THEN conjunct1, rule_format])
  show "map_of (m_chunks m) i = Some c \<Longrightarrow> map_of (m_chunks m) j = Some e \<Longrightarrow> mc_handle c = mc_handle e \<Longrightarrow> i = j"
    by (rule A [THEN conjunct2, THEN conjunct2, THEN conjunct1, rule_format])
  show "vs_maps (vs (m_calls m)) va = Some (n, h, a) \<longleftrightarrow>
      (\<exists>i c. map_of (m_chunks m) i = Some c \<and> mapped c \<and> mc_va c = va \<and> mc_size c = n \<and> mc_handle c = h \<and>
         a = Some (op_device (m_opt m)))"
    by (rule A [THEN conjunct2, THEN conjunct2, THEN conjunct2, THEN conjunct1, rule_format])
  show "vs_maps (vs (m_calls m)) va = Some (n, h, a) \<Longrightarrow> vs_maps (vs (m_calls m)) va' = Some (n', h', a') \<Longrightarrow>
      va \<noteq> va' \<Longrightarrow> apart va n va' n'"
    by (rule A [THEN conjunct2, THEN conjunct2, THEN conjunct2, THEN conjunct2, rule_format])
qed

lemma agrees_quiet:
  assumes "quiet m m'"
  shows "agrees m' = agrees m"
  using quiet_fields [OF assms] by (simp add: agrees_def prop_of_def)

section \<open>The checks of a token\<close>

definition live_token :: "ChunkToken \<Rightarrow> Manager \<Rightarrow> bool" where
  "live_token t m \<longleftrightarrow> token_valid t \<and> tk_owner t = m_serial m \<and> map_of (m_chunks m) (tk_id t) \<noteq> None"

lemma get_chunk_done [simp]:
  "get_chunk t w m = (MOk c, m') \<longleftrightarrow>
     token_valid t \<and> tk_owner t = m_serial m \<and> map_of (m_chunks m) (tk_id t) = Some c \<and> m' = m"
  by (auto simp: get_chunk_def mbind_iff split: option.splits)

lemma get_chunk_err:
  "get_chunk t w m = (MErr e, m') \<Longrightarrow> m' = m \<and> (\<exists>what. e = Requirement what) \<and> \<not> live_token t m"
  by (auto simp: get_chunk_def mbind_err vmem_require_def live_token_def split: option.splits if_splits)

lemma get_chunk_stale: "\<not> live_token t m \<Longrightarrow> \<exists>what. get_chunk t w m = (MErr (Requirement what), m)"
  by (auto simp: get_chunk_def vmem_require_def live_token_def split: option.splits)

text \<open>The state after a sequence of checked steps, whichever of them failed.\<close>

lemma mbind_snd:
  assumes "P (snd p)" and "\<And>x s. p = (MOk x, s) \<Longrightarrow> P s \<Longrightarrow> P (snd (f x s))"
  shows "P (snd (mbind p f))"
  using assms by (cases "(p, f)" rule: mbind.cases) auto

lemma get_chunk_same [simp]: "snd (get_chunk t w m) = m"
proof (cases "live_token t m")
  case True
  then show ?thesis by (auto simp: get_chunk_def vmem_require_def live_token_def)
next
  case False
  then show ?thesis using get_chunk_stale [OF False, of w] by auto
qed

lemma check_same [simp]: "snd (vmem_cu w r s) = s" "snd (vmem_require b w s) = s"
  by (simp_all add: vmem_cu_def vmem_require_def)

lemma none_mapped_same [simp]: "snd (none_mapped_in va sz es m) = m"
proof (induction es arbitrary: m)
  case (Cons e es)
  show ?case unfolding none_mapped_in.simps Let_def by (rule mbind_snd) (use Cons in auto)
qed simp

lemma none_mapped_done:
  "none_mapped_in va sz es m = (MOk u, m') \<longleftrightarrow>
     m' = m \<and> (\<forall>e \<in> set es. \<not> (mapped (snd e) \<and> va \<le> mc_va (snd e) \<and> mc_va (snd e) < va + sz))"
  by (induction es arbitrary: m) (auto simp: mbind_iff Let_def)

section \<open>The tables under the operations\<close>

lemma tables_okD:
  assumes "tables_ok m"
  shows "om_ok (m_chunks m)" and "om_ok (m_res m)" and "0 \<le> m_next_id m"
    and "map_of (m_chunks m) i = Some c \<Longrightarrow> mc_id c = i \<and> 0 \<le> i \<and> i < m_next_id m \<and> mc_size c \<noteq> 0"
    and "map_of (m_chunks m) i = Some c \<Longrightarrow> mapped c \<Longrightarrow>
      aligned (m_gran m) (mc_va c) \<and> in_reservation (m_res m) (mc_va c) (mc_size c)"
    and "map_of (m_res m) base = Some sz \<Longrightarrow> base \<noteq> 0 \<and> sz \<noteq> 0 \<and> unat base + unat sz < 2 ^ 64"
    and "map_of (m_res m) a = Some k \<Longrightarrow> map_of (m_res m) b = Some n \<Longrightarrow> a \<noteq> b \<Longrightarrow> apart a k b n"
    and "held_ranges m"
  using assms unfolding tables_ok_def by blast+

text \<open>Only the calls have changed, and they left the ranges of the table reserved.\<close>

definition only_calls :: "Manager \<Rightarrow> Manager \<Rightarrow> bool" where
  "only_calls m m' \<longleftrightarrow> m_chunks m' = m_chunks m \<and> m_res m' = m_res m \<and> m_gran m' = m_gran m \<and> m_opt m' = m_opt m \<and>
     m_numa m' = m_numa m \<and> m_next_id m' = m_next_id m \<and> m_serial m' = m_serial m \<and> (held_ranges m \<longrightarrow> held_ranges m')"

lemma only_calls_refl [simp]: "only_calls m m" by (simp add: only_calls_def)

lemma only_calls_trans: "only_calls m1 m2 \<Longrightarrow> only_calls m2 m3 \<Longrightarrow> only_calls m1 m3"
  by (simp add: only_calls_def)

lemma only_calls_tables: "only_calls m m' \<Longrightarrow> tables_ok m \<Longrightarrow> tables_ok m'"
  by (simp add: only_calls_def tables_ok_def)

lemma only_calls_quiet: "quiet m m' \<Longrightarrow> only_calls m m'"
  using quiet_fields [of m m'] by (simp add: only_calls_def held_ranges_def)

text \<open>A call that neither reserves nor frees a range.\<close>

lemma only_calls_called:
  assumes "\<And>d. vs_reserved (vs_apply e d) = vs_reserved d"
  shows "only_calls m (called e m)"
  using assms by (simp add: only_calls_def held_ranges_def)

lemma same_reserved [simp]:
  "vs_reserved (vs_apply (VCreate n p r h) d) = vs_reserved d" "vs_reserved (vs_apply (VMap va n h r) d) = vs_reserved d"
  "vs_reserved (vs_apply (VAccess va n dev r) d) = vs_reserved d" "vs_reserved (vs_apply (VCopy x y n r) d) = vs_reserved d"
  "vs_reserved (vs_apply (VStreamSync r) d) = vs_reserved d" "vs_reserved (vs_apply (VUnmap va n r) d) = vs_reserved d"
  "vs_reserved (vs_apply (VRelease h r) d) = vs_reserved d"
  by (auto simp: vs_copy_def split: option.splits)

lemma only_calls_steps:
  "only_calls m (snd (cu_map env va n h m))" "only_calls m (snd (cu_unmap env va n m))"
  "only_calls m (snd (cu_release env h m))" "only_calls m (snd (grant env va n m))"
  unfolding cu_map_def cu_unmap_def cu_release_def grant_def Let_def check_same
  by (rule only_calls_called, rule same_reserved)+

lemma only_calls_reserve:
  assumes doc: "v_documented env" and ok: "tables_ok m" and r: "ve_reserve env (m_calls m) n g = (r, va)"
  shows "only_calls m (called (VReserve n r va) m)" and "r = CUDA_SUCCESS \<Longrightarrow> map_of (m_res m) va = None"
proof -
  have new: "map_of (m_res m) va = None" if s: "r = CUDA_SUCCESS"
  proof (cases "map_of (m_res m) va")
    case (Some k)
    then have "apart va k va n" "n \<noteq> 0"
      using v_documentedD(1) [OF doc r [unfolded s]] tables_okD(8) [OF ok] by (auto simp: held_ranges_def)
    then show ?thesis using tables_okD(6) [OF ok Some] by (auto simp: apart_def unat_eq_0)
  qed
  then show "r = CUDA_SUCCESS \<Longrightarrow> map_of (m_res m) va = None" .
  show "only_calls m (called (VReserve n r va) m)"
    using new by (auto simp: only_calls_def held_ranges_def)
qed

end
