(* ===== verification/Manager_Steps.thy ===== *)
theory Manager_Steps
  imports Manager_Inv
begin

text \<open>
  What each operation of the Manager did when it returned, and that a failed one has changed nothing
  but the history of calls.
\<close>

section \<open>Operations that returned\<close>

lemma reserve_done:
  assumes "m_reserve env n m = (MOk x, m')"
  obtains l where "ve_reserve env (m_calls m) (m_round_up m n) (m_gran m) = (CUDA_SUCCESS, x)"
    and "m' = finish env l ((called (VReserve (m_round_up m n) CUDA_SUCCESS x) m)\<lparr>m_res := om_put x (m_round_up m n) (m_res m)\<rparr>)"
  using assms by (auto simp: m_reserve_def Let_def mbind_iff split: prod.splits)

lemma create_done:
  assumes "m_create env n l m = (MOk t, m')"
  obtains k h where "n > 0" and "ve_create env (m_calls m) (m_round_up m n) (prop_of l m) = (CUDA_SUCCESS, h)"
    and "t = \<lparr>tk_owner = m_serial m, tk_id = m_next_id m\<rparr>"
    and "m' = finish env k (put_chunk \<lparr>mc_id = m_next_id m, mc_size = m_round_up m n, mc_loc = l, mc_handle = h, mc_va = 0\<rparr>
      ((called (VCreate (m_round_up m n) (prop_of l m) CUDA_SUCCESS h) m)\<lparr>m_next_id := m_next_id m + 1\<rparr>))"
  using assms by (auto simp: m_create_def Let_def mbind_iff put_chunk_def split: prod.splits)

lemma cu_done:
  "cu_map env va n h m = (MOk u, m') \<longleftrightarrow> ve_map env (m_calls m) va n h = CUDA_SUCCESS \<and> m' = called (VMap va n h CUDA_SUCCESS) m"
  "cu_unmap env va n m = (MOk u, m') \<longleftrightarrow> ve_unmap env (m_calls m) va n = CUDA_SUCCESS \<and> m' = called (VUnmap va n CUDA_SUCCESS) m"
  "cu_release env h m = (MOk u, m') \<longleftrightarrow> ve_release env (m_calls m) h = CUDA_SUCCESS \<and> m' = called (VRelease h CUDA_SUCCESS) m"
  "cu_addr_free env va n m = (MOk u, m') \<longleftrightarrow>
     ve_addr_free env (m_calls m) va n = CUDA_SUCCESS \<and> m' = called (VAddrFree va n CUDA_SUCCESS) m"
  "grant env va n m = (MOk u, m') \<longleftrightarrow> ve_access env (m_calls m) va n (op_device (m_opt m)) = CUDA_SUCCESS \<and>
     m' = called (VAccess va n (op_device (m_opt m)) CUDA_SUCCESS) m"
  by (auto simp: cu_map_def cu_unmap_def cu_release_def cu_addr_free_def grant_def Let_def)

lemma map_done:
  assumes "m_map env t va m = (MOk x, m')"
  obtains c l where "live_token t m" and "map_of (m_chunks m) (tk_id t) = Some c" and "\<not> mapped c" and "aligned (m_gran m) va"
    and "inside_reservation va (mc_size c) m" and "x = va"
    and "ve_map env (m_calls m) va (mc_size c) (mc_handle c) = CUDA_SUCCESS"
    and "m' = finish env l (put_chunk (c\<lparr>mc_va := va\<rparr>) (called (VAccess va (mc_size c) (op_device (m_opt m)) CUDA_SUCCESS)
      (called (VMap va (mc_size c) (mc_handle c) CUDA_SUCCESS) m)))"
  using assms by (auto simp: m_map_def mbind_iff cu_done live_token_def)

lemma unmap_done:
  assumes "m_unmap env t m = (MOk x, m')"
  obtains c l where "live_token t m" and "map_of (m_chunks m) (tk_id t) = Some c" and "mapped c" and "x = mc_va c"
    and "m' = finish env l (put_chunk (c\<lparr>mc_va := 0\<rparr>) (called (VUnmap (mc_va c) (mc_size c) CUDA_SUCCESS) m))"
  using assms by (auto simp: m_unmap_def mbind_iff cu_done live_token_def)

lemma release_done:
  assumes "m_release env t m = (MOk x, m')"
  obtains c l where "live_token t m" and "map_of (m_chunks m) (tk_id t) = Some c" and "\<not> mapped c" and "x = mc_size c"
    and "m' = finish env l ((called (VRelease (mc_handle c) CUDA_SUCCESS) m)\<lparr>m_chunks := om_del (mc_id c) (m_chunks m)\<rparr>)"
  using assms by (auto simp: m_release_def mbind_iff cu_done live_token_def)

lemma free_done:
  assumes "m_free env va m = (MOk x, m')"
  obtains l where "map_of (m_res m) va = Some x"
    and "\<forall>e \<in> set (m_chunks m). \<not> (mapped (snd e) \<and> va \<le> mc_va (snd e) \<and> mc_va (snd e) < va + x)"
    and "m' = finish env l ((called (VAddrFree va x CUDA_SUCCESS) m)\<lparr>m_res := om_del va (m_res m)\<rparr>)"
  using assms by (auto simp: m_free_def mbind_iff cu_done none_mapped_done split: option.splits)

text \<open>The twelve calls of a remap that moved the chunk.\<close>

definition remap_calls :: "MChunk \<Rightarrow> Prop \<Rightarrow> int \<Rightarrow> u64 \<Rightarrow> u64 \<Rightarrow> vhistory" where
  "remap_calls c p dev nh scratch =
     [VCreate (mc_size c) p CUDA_SUCCESS nh, VReserve (mc_size c) CUDA_SUCCESS scratch,
      VMap scratch (mc_size c) nh CUDA_SUCCESS, VAccess scratch (mc_size c) dev CUDA_SUCCESS,
      VCopy scratch (mc_va c) (mc_size c) CUDA_SUCCESS, VStreamSync CUDA_SUCCESS,
      VUnmap (mc_va c) (mc_size c) CUDA_SUCCESS, VRelease (mc_handle c) CUDA_SUCCESS,
      VMap (mc_va c) (mc_size c) nh CUDA_SUCCESS, VAccess (mc_va c) (mc_size c) dev CUDA_SUCCESS,
      VUnmap scratch (mc_size c) CUDA_SUCCESS, VAddrFree scratch (mc_size c) CUDA_SUCCESS]"

lemma remap_done:
  assumes "m_remap env t to m = (MOk x, m')"
  obtains (stays) c l where "live_token t m" and "map_of (m_chunks m) (tk_id t) = Some c" and "mapped c" and "x = mc_va c"
      and "mc_loc c = to" and "m' = m_say l m"
    | (moves) c nh scratch m1 where "live_token t m" and "map_of (m_chunks m) (tk_id t) = Some c" and "mapped c" and "x = mc_va c"
      and "mc_loc c \<noteq> to" and "ve_create env (m_calls m) (mc_size c) (prop_of to m) = (CUDA_SUCCESS, nh)"
      and "ve_reserve env (m_calls m @ [VCreate (mc_size c) (prop_of to m) CUDA_SUCCESS nh]) (mc_size c) (m_gran m) = (CUDA_SUCCESS, scratch)"
      and "m1 = m\<lparr>m_calls := m_calls m @ remap_calls c (prop_of to m) (op_device (m_opt m)) nh scratch\<rparr>"
      and "quiet (put_chunk (c\<lparr>mc_handle := nh, mc_loc := to\<rparr>) m1) m'"
proof -
  obtain c where c: "live_token t m" "map_of (m_chunks m) (tk_id t) = Some c" "mapped c"
    using assms by (auto simp: m_remap_def mbind_iff live_token_def)
  show ?thesis
  proof (cases "mc_loc c = to")
    case True
    then show ?thesis using assms c by (intro stays) (auto simp: m_remap_def mbind_iff)
  next
    case False
    obtain r nh where n: "ve_create env (m_calls m) (mc_size c) (prop_of to m) = (r, nh)" by (cases "ve_create env (m_calls m) (mc_size c) (prop_of to m)")
    obtain scratch l where
      s: "r = CUDA_SUCCESS"
        "ve_reserve env (m_calls m @ [VCreate (mc_size c) (prop_of to m) CUDA_SUCCESS nh]) (mc_size c) (m_gran m) = (CUDA_SUCCESS, scratch)"
      and x: "x = mc_va c"
      and m': "m' = m_dump env (put_chunk (c\<lparr>mc_handle := nh, mc_loc := to\<rparr>)
        (m_log l (m\<lparr>m_calls := m_calls m @ remap_calls c (prop_of to m) (op_device (m_opt m)) nh scratch\<rparr>)))"
      using assms c False n
      by (auto simp: m_remap_def mbind_iff remap_copy_def remap_swap_def cu_done Let_def remap_calls_def called_def split: prod.splits)
    let ?m1 = "m\<lparr>m_calls := m_calls m @ remap_calls c (prop_of to m) (op_device (m_opt m)) nh scratch\<rparr>"
    have "quiet (put_chunk d ?m1) (put_chunk d (m_log l ?m1))" for d
      by (simp add: m_log_def quiet_def put_chunk_def m_say_def)
    moreover have "quiet w (m_dump env w)" for w using quiet_dump .
    ultimately have "quiet (put_chunk (c\<lparr>mc_handle := nh, mc_loc := to\<rparr>) ?m1) m'" unfolding m' by (rule m_quiet_trans)
    then show ?thesis using moves [OF c x False _ _ refl] n s by blast
  qed
qed

section \<open>Operations that failed\<close>

definition harmless :: "Manager \<Rightarrow> 'x mres \<times> Manager \<Rightarrow> bool" where
  "harmless m q \<longleftrightarrow> (\<forall>e m'. q = (MErr e, m') \<longrightarrow> only_calls m m')"

lemma harmless_bind:
  assumes "tables_ok m" and "only_calls m (snd p)" and "\<And>x s. p = (MOk x, s) \<Longrightarrow> tables_ok s \<Longrightarrow> harmless s (f x s)"
  shows "harmless m (mbind p f)"
proof (cases "fst p")
  case (MOk x)
  then have p: "p = (MOk x, snd p)" by (cases p) simp
  then have b: "mbind p f = f x (snd p)" by (metis mbind.simps(1))
  show ?thesis
    unfolding harmless_def b using assms(3) [OF p only_calls_tables [OF assms(2,1)]] only_calls_trans [OF assms(2)]
    unfolding harmless_def by blast
next
  case (MErr e)
  then have p: "p = (MErr e, snd p)" by (cases p) simp
  then have b: "mbind p f = (MErr e, snd p)" by (metis mbind.simps(2))
  show ?thesis unfolding harmless_def b using assms(2) by simp
qed

lemma harmless_done [simp]: "harmless m (MOk x, m')" by (simp add: harmless_def)

lemma harmless_same [simp]: "harmless m (MErr e, m)" by (simp add: harmless_def)

lemma harmless_step: "only_calls m (snd q) \<Longrightarrow> harmless m q"
  by (auto simp: harmless_def)

lemma harmless_addr_free: "harmless m (cu_addr_free env va n m)"
  by (auto simp: harmless_def cu_addr_free_def vmem_cu_def Let_def only_calls_def held_ranges_def split: if_splits)

text \<open>A checked call that is neither a reservation nor the end of one.\<close>

lemma only_calls_cu:
  assumes "\<And>d. vs_reserved (vs_apply e d) = vs_reserved d"
  shows "only_calls m (snd (vmem_cu w r (called e m)))"
  using only_calls_called [of e m] assms by simp

lemmas harmless_rules = only_calls_steps only_calls_refl only_calls_cu same_reserved

lemma harmless_reserve:
  assumes doc: "v_documented env" and ok: "tables_ok m"
  shows "harmless m (m_reserve env n m)"
proof -
  obtain r va where r: "ve_reserve env (m_calls m) (m_round_up m n) (m_gran m) = (r, va)" by fastforce
  show ?thesis
    unfolding m_reserve_def r Let_def prod.case
    by (rule harmless_bind [OF ok]) (simp_all add: only_calls_reserve(1) [OF doc ok r])
qed

lemma harmless_create:
  assumes ok: "tables_ok m"
  shows "harmless m (m_create env n l m)"
  unfolding m_create_def Let_def case_prod_beta
  by (rule harmless_bind [OF ok], simp, rule harmless_bind, assumption, rule only_calls_cu, rule same_reserved, rule harmless_done)

lemma harmless_map:
  assumes ok: "tables_ok m"
  shows "harmless m (m_map env t va m)"
  unfolding m_map_def
  by (rule harmless_bind [OF ok], simp, rule harmless_bind, assumption, simp, rule harmless_bind, assumption, simp,
      rule harmless_bind, assumption, simp, rule harmless_bind, assumption, rule only_calls_steps,
      rule harmless_bind, assumption, rule only_calls_steps, rule harmless_done)

lemma harmless_unmap:
  assumes ok: "tables_ok m"
  shows "harmless m (m_unmap env t m)"
  unfolding m_unmap_def
  by (rule harmless_bind [OF ok], simp, rule harmless_bind, assumption, simp,
      rule harmless_bind, assumption, rule only_calls_steps, rule harmless_done)

lemma harmless_release:
  assumes ok: "tables_ok m"
  shows "harmless m (m_release env t m)"
  unfolding m_release_def
  by (rule harmless_bind [OF ok], simp, rule harmless_bind, assumption, simp,
      rule harmless_bind, assumption, rule only_calls_steps, rule harmless_done)

text \<open>A step after which nothing can fail.\<close>

lemma harmless_last: "harmless m p \<Longrightarrow> (\<And>x s. \<exists>y s'. f x s = (MOk y, s')) \<Longrightarrow> harmless m (mbind p f)"
  by (auto simp: harmless_def mbind_err) (metis mres.distinct(1) prod.inject)

lemma harmless_free:
  assumes ok: "tables_ok m"
  shows "harmless m (m_free env va m)"
proof (cases "map_of (m_res m) va")
  case (Some sz)
  show ?thesis
    unfolding m_free_def Some option.case
    by (rule harmless_bind [OF ok], simp, rule harmless_last, rule harmless_addr_free, blast)
qed (simp add: m_free_def)

lemma only_bind:
  assumes "tables_ok m" and "only_calls m (snd p)"
    and "\<And>x s. p = (MOk x, s) \<Longrightarrow> tables_ok s \<Longrightarrow> only_calls s (snd (f x s))"
  shows "only_calls m (snd (mbind p f))"
proof (cases "fst p")
  case (MOk x)
  then have p: "p = (MOk x, snd p)" by (cases p) simp
  then have b: "mbind p f = f x (snd p)" by (metis mbind.simps(1))
  show ?thesis unfolding b using only_calls_trans [OF assms(2) assms(3) [OF p only_calls_tables [OF assms(2,1)]]] .
next
  case (MErr e)
  then have p: "p = (MErr e, snd p)" by (cases p) simp
  then have "snd (mbind p f) = snd p" by (metis mbind.simps(2) snd_conv)
  then show ?thesis using assms(2) by simp
qed

lemma only_calls_remap_copy:
  assumes doc: "v_documented env" and ok: "tables_ok m"
  shows "only_calls m (snd (remap_copy env c nh m))"
proof -
  obtain r va where r: "ve_reserve env (m_calls m) (mc_size c) (m_gran m) = (r, va)" by fastforce
  show ?thesis
    unfolding remap_copy_def r Let_def prod.case
    by (rule only_bind [OF ok], simp add: only_calls_reserve(1) [OF doc ok r],
        rule only_bind, assumption, rule only_calls_steps, rule only_bind, assumption, rule only_calls_steps,
        rule only_bind, assumption, rule only_calls_cu, rule same_reserved,
        rule only_bind, assumption, rule only_calls_cu, rule same_reserved, simp)
qed

lemma harmless_remap_swap: "tables_ok m \<Longrightarrow> harmless m (remap_swap env c nh scratch m)"
  unfolding remap_swap_def
  by (rule harmless_bind, assumption, rule only_calls_steps, rule harmless_bind, assumption, rule only_calls_steps,
      rule harmless_bind, assumption, rule only_calls_steps, rule harmless_bind, assumption, rule only_calls_steps,
      rule harmless_bind, assumption, rule only_calls_steps, rule harmless_addr_free)

lemma harmless_if: "harmless m p \<Longrightarrow> harmless m q \<Longrightarrow> harmless m (if b then p else q)"
  by simp

lemma harmless_remap:
  assumes doc: "v_documented env" and ok: "tables_ok m"
  shows "harmless m (m_remap env t to m)"
  unfolding m_remap_def Let_def case_prod_beta
  by (rule harmless_bind [OF ok], simp, rule harmless_bind, assumption, simp, rule harmless_if, simp,
      rule harmless_bind, assumption, rule only_calls_cu, rule same_reserved,
      rule harmless_bind, assumption, rule only_calls_remap_copy [OF doc], assumption,
      rule harmless_last, rule harmless_remap_swap, assumption, blast)

end
