(* ===== verification/Manager_Props.thy ===== *)
theory Manager_Props
  imports Manager_Steps
begin

text \<open>
  The Manager as a state machine: its tables whatever fails, tokens, the rules that decide each call,
  and the agreement of tables and driver as long as no driver call fails.
\<close>

section \<open>Tables\<close>

inductive m_step :: "VEnv \<Rightarrow> Manager \<Rightarrow> Manager \<Rightarrow> bool" for env where
  reserve: "m_reserve env n m = (ra, m') \<Longrightarrow> m_step env m m'"
| create: "m_create env n l m = (rt, m') \<Longrightarrow> m_step env m m'"
| map_chunk: "m_map env t va m = (ra, m') \<Longrightarrow> m_step env m m'"
| unmap: "m_unmap env t m = (ra, m') \<Longrightarrow> m_step env m m'"
| remap: "m_remap env t l m = (ra, m') \<Longrightarrow> m_step env m m'"
| release: "m_release env t m = (ra, m') \<Longrightarrow> m_step env m m'"
| free: "m_free env va m = (ra, m') \<Longrightarrow> m_step env m m'"

inductive managed :: "VEnv \<Rightarrow> Manager \<Rightarrow> bool" for env where
  built: "new_manager env opt n = (MOk (), m) \<Longrightarrow> managed env m"
| stepped: "managed env m \<Longrightarrow> m_step env m m' \<Longrightarrow> managed env m'"

lemma tables_quiet: "quiet m m' \<Longrightarrow> tables_ok m \<Longrightarrow> tables_ok m'"
  by (rule only_calls_tables [OF only_calls_quiet])

lemma tables_put:
  assumes ok: "tables_ok m" and c: "map_of (m_chunks m) i = Some c" and c': "mc_id c' = mc_id c" "mc_size c' = mc_size c"
    and m: "mapped c' \<Longrightarrow> aligned (m_gran m) (mc_va c') \<and> in_reservation (m_res m) (mc_va c') (mc_size c')"
  shows "tables_ok (put_chunk c' m)"
proof -
  note T = tables_okD [OF ok]
  have i: "mc_id c = i" using T(4) [OF c] by simp
  have e: "e = c' \<or> map_of (m_chunks m) j = Some e \<and> j \<noteq> i" if "((map_of (m_chunks m))(i \<mapsto> c')) j = Some e" for j e
    using that by (auto split: if_splits)
  show ?thesis
    using T(1-3,6-8) unfolding tables_ok_def
    using T(4) [OF c] T(4,5) m c' by (auto simp: put_chunk_def i get_put ok_put held_ranges_def split: if_splits)
qed

lemma in_reservation_put:
  assumes "in_reservation rs va n" and "map_of rs base = None"
  shows "in_reservation (om_put base sz rs) va n"
  using assms by (auto simp: in_reservation_def get_put)

lemma tables_reserve:
  assumes doc: "v_documented env" and ok: "tables_ok m" and e: "m_reserve env n m = (MOk x, m')"
  shows "tables_ok m'"
proof -
  note T = tables_okD [OF ok]
  obtain l where r: "ve_reserve env (m_calls m) (m_round_up m n) (m_gran m) = (CUDA_SUCCESS, x)"
    and m': "m' = finish env l ((called (VReserve (m_round_up m n) CUDA_SUCCESS x) m)\<lparr>m_res := om_put x (m_round_up m n) (m_res m)\<rparr>)"
    by (rule reserve_done [OF e])
  note D = v_documentedD(1) [OF doc r]
  have new: "map_of (m_res m) x = None" by (rule only_calls_reserve(2) [OF doc ok r refl])
  have apt: "apart a k x (m_round_up m n)" if "map_of (m_res m) a = Some k" for a k
    using D T(8) that by (auto simp: held_ranges_def)
  have apt': "apart x (m_round_up m n) a k" if "map_of (m_res m) a = Some k" for a k
    using apt [OF that] by (auto simp: apart_def)
  have "tables_ok ((called (VReserve (m_round_up m n) CUDA_SUCCESS x) m)\<lparr>m_res := om_put x (m_round_up m n) (m_res m)\<rparr>)"
    using T(1-8) D new apt apt' in_reservation_put [OF _ new] unfolding tables_ok_def
    by (simp add: get_put ok_put held_ranges_def)
  then show ?thesis unfolding m' by (rule tables_quiet [OF quiet_finish])
qed

lemma tables_create:
  assumes doc: "v_documented env" and ok: "tables_ok m" and e: "m_create env n l m = (MOk t, m')"
  shows "tables_ok m'"
proof -
  note T = tables_okD [OF ok]
  obtain k h where h: "ve_create env (m_calls m) (m_round_up m n) (prop_of l m) = (CUDA_SUCCESS, h)"
    and m': "m' = finish env k (put_chunk \<lparr>mc_id = m_next_id m, mc_size = m_round_up m n, mc_loc = l, mc_handle = h, mc_va = 0\<rparr>
      ((called (VCreate (m_round_up m n) (prop_of l m) CUDA_SUCCESS h) m)\<lparr>m_next_id := m_next_id m + 1\<rparr>))"
    by (rule create_done [OF e]) blast
  note D = v_documentedD(2) [OF doc h]
  have "tables_ok (put_chunk \<lparr>mc_id = m_next_id m, mc_size = m_round_up m n, mc_loc = l, mc_handle = h, mc_va = 0\<rparr>
      ((called (VCreate (m_round_up m n) (prop_of l m) CUDA_SUCCESS h) m)\<lparr>m_next_id := m_next_id m + 1\<rparr>))"
    using T D unfolding tables_ok_def put_chunk_def
    by (auto simp: get_put ok_put held_ranges_def mapped_def dest: T(4) split: if_splits)
  then show ?thesis unfolding m' by (rule tables_quiet [OF quiet_finish])
qed

text \<open>The check of \<open>map\<close> in \<open>nat\<close>, when the address range does not wrap.\<close>

lemma inside_in_reservation:
  assumes ok: "tables_ok m" and i: "inside_reservation va n m" and w: "unat va + unat n < 2 ^ 64"
  shows "in_reservation (m_res m) va n"
proof -
  note T = tables_okD [OF ok]
  obtain base sz where f: "om_floor (m_res m) va = Some (base, sz)" "base \<le> va" "va + n \<le> base + sz"
    using i by (auto simp: inside_reservation_def split: option.splits)
  have b: "map_of (m_res m) base = Some sz" by (rule floor_Some(1) [OF T(2) f(1)])
  have "unat (base + sz) = unat base + unat sz" by (rule u64_add_no_wrap) (use T(6) [OF b] in simp)
  then have "unat va + unat n \<le> unat base + unat sz"
    using f(3) u64_add_le_iff [OF w] by simp
  then show ?thesis using b f(2) unfolding in_reservation_def by (auto simp: word_le_nat_alt)
qed

lemma tables_map:
  assumes doc: "v_documented env" and ok: "tables_ok m" and e: "m_map env t va m = (MOk x, m')"
  shows "tables_ok m'"
proof -
  obtain c l where c: "map_of (m_chunks m) (tk_id t) = Some c" "aligned (m_gran m) va" "inside_reservation va (mc_size c) m"
    and d: "ve_map env (m_calls m) va (mc_size c) (mc_handle c) = CUDA_SUCCESS"
    and m': "m' = finish env l (put_chunk (c\<lparr>mc_va := va\<rparr>) (called (VAccess va (mc_size c) (op_device (m_opt m)) CUDA_SUCCESS)
      (called (VMap va (mc_size c) (mc_handle c) CUDA_SUCCESS) m)))"
    by (rule map_done [OF e]) blast
  let ?m = "called (VAccess va (mc_size c) (op_device (m_opt m)) CUDA_SUCCESS) (called (VMap va (mc_size c) (mc_handle c) CUDA_SUCCESS) m)"
  have "only_calls m ?m"
    by (rule only_calls_trans [OF only_calls_called only_calls_called]) (rule same_reserved)+
  then have ok': "tables_ok ?m" by (rule only_calls_tables [OF _ ok])
  have "tables_ok (put_chunk (c\<lparr>mc_va := va\<rparr>) ?m)"
    by (rule tables_put [OF ok'])
      (use c inside_in_reservation [OF ok c(3) v_documentedD(3) [OF doc d]] in auto)
  then show ?thesis unfolding m' by (rule tables_quiet [OF quiet_finish])
qed

lemma tables_unmap:
  assumes ok: "tables_ok m" and e: "m_unmap env t m = (MOk x, m')"
  shows "tables_ok m'"
proof -
  obtain c l where c: "map_of (m_chunks m) (tk_id t) = Some c"
    and m': "m' = finish env l (put_chunk (c\<lparr>mc_va := 0\<rparr>) (called (VUnmap (mc_va c) (mc_size c) CUDA_SUCCESS) m))"
    by (rule unmap_done [OF e]) blast
  have ok': "tables_ok (called (VUnmap (mc_va c) (mc_size c) CUDA_SUCCESS) m)"
    by (rule only_calls_tables [OF only_calls_called ok]) (rule same_reserved)
  have "tables_ok (put_chunk (c\<lparr>mc_va := 0\<rparr>) (called (VUnmap (mc_va c) (mc_size c) CUDA_SUCCESS) m))"
    by (rule tables_put [OF ok']) (use c in \<open>auto simp: mapped_def\<close>)
  then show ?thesis unfolding m' by (rule tables_quiet [OF quiet_finish])
qed

lemma tables_remap:
  assumes doc: "v_documented env" and ok: "tables_ok m" and e: "m_remap env t to m = (MOk x, m')"
  shows "tables_ok m'"
  using e
proof (cases rule: remap_done)
  case (stays c l)
  then show ?thesis using tables_quiet [OF quiet_say ok] by simp
next
  case (moves c nh scratch m1)
  note T = tables_okD [OF ok]
  let ?m0 = "called (VCreate (mc_size c) (prop_of to m) CUDA_SUCCESS nh) m"
  have ok0: "tables_ok ?m0" by (rule only_calls_tables [OF only_calls_called ok]) (rule same_reserved)
  have s: "map_of (m_res m) scratch = None"
    using only_calls_reserve(2) [OF doc ok0 _ refl] moves(7) by simp
  have "only_calls m m1"
    using s unfolding moves(8) remap_calls_def
    by (auto simp: only_calls_def held_ranges_def vs_copy_def split: option.splits)
  then have ok1: "tables_ok m1" by (rule only_calls_tables [OF _ ok])
  have "tables_ok (put_chunk (c\<lparr>mc_handle := nh, mc_loc := to\<rparr>) m1)"
    by (rule tables_put [OF ok1]) (use moves(2,8) T(5) [OF moves(2)] in \<open>auto simp: mapped_def\<close>)
  then show ?thesis by (rule tables_quiet [OF moves(9)])
qed

lemma tables_release:
  assumes ok: "tables_ok m" and e: "m_release env t m = (MOk x, m')"
  shows "tables_ok m'"
proof -
  note T = tables_okD [OF ok]
  obtain c l where c: "map_of (m_chunks m) (tk_id t) = Some c"
    and m': "m' = finish env l ((called (VRelease (mc_handle c) CUDA_SUCCESS) m)\<lparr>m_chunks := om_del (mc_id c) (m_chunks m)\<rparr>)"
    by (rule release_done [OF e]) blast
  have "tables_ok ((called (VRelease (mc_handle c) CUDA_SUCCESS) m)\<lparr>m_chunks := om_del (mc_id c) (m_chunks m)\<rparr>)"
    using T(1-8) unfolding tables_ok_def
    by (auto simp: get_del [OF T(1)] ok_del held_ranges_def dest: T(4,5) split: if_splits)
  then show ?thesis unfolding m' by (rule tables_quiet [OF quiet_finish])
qed

text \<open>A mapped chunk lies in no other reservation than the one that is kept.\<close>

lemma in_reservation_del:
  assumes ok: "tables_ok m" and r: "map_of (m_res m) va = Some sz"
    and i: "in_reservation (m_res m) a n" and n: "n \<noteq> 0" and out: "\<not> (va \<le> a \<and> a < va + sz)"
  shows "in_reservation (om_del va (m_res m)) a n"
proof -
  note T = tables_okD [OF ok]
  obtain base k where b: "map_of (m_res m) base = Some k" "unat base \<le> unat a" "unat a + unat n \<le> unat base + unat k"
    using i by (auto simp: in_reservation_def)
  have w: "unat (va + sz) = unat va + unat sz" by (rule u64_add_no_wrap) (use T(6) [OF r] in simp)
  have "base \<noteq> va"
  proof
    assume "base = va"
    then have "unat a < unat va + unat sz" using b r n by (simp add: unat_gt_0)  (metis add_lessD1 less_add_same_cancel1 order_less_le_trans unat_gt_0)
    then show False using out w b(2) \<open>base = va\<close> by (simp add: word_le_nat_alt word_less_nat_alt)
  qed
  then show ?thesis using b get_del [OF T(2), of va] by (auto simp: in_reservation_def)
qed

lemma tables_free:
  assumes ok: "tables_ok m" and e: "m_free env va m = (MOk x, m')"
  shows "tables_ok m'"
proof -
  note T = tables_okD [OF ok]
  obtain l where r: "map_of (m_res m) va = Some x"
    and no: "\<forall>e \<in> set (m_chunks m). \<not> (mapped (snd e) \<and> va \<le> mc_va (snd e) \<and> mc_va (snd e) < va + x)"
    and m': "m' = finish env l ((called (VAddrFree va x CUDA_SUCCESS) m)\<lparr>m_res := om_del va (m_res m)\<rparr>)"
    by (rule free_done [OF e])
  have keep: "in_reservation (om_del va (m_res m)) (mc_va c) (mc_size c)" if "map_of (m_chunks m) i = Some c" "mapped c" for i c
    using in_reservation_del [OF ok r] T(4,5) [OF that(1)] that(2) no map_of_SomeD [OF that(1)] by fastforce
  have "tables_ok ((called (VAddrFree va x CUDA_SUCCESS) m)\<lparr>m_res := om_del va (m_res m)\<rparr>)"
    using T(1-8) keep unfolding tables_ok_def
    by (auto simp: get_del [OF T(2)] ok_del held_ranges_def dest: T(4,5) split: if_splits)
  then show ?thesis unfolding m' by (rule tables_quiet [OF quiet_finish])
qed

section \<open>Every state of a Manager\<close>

lemma new_manager_done:
  assumes "new_manager env opt n = (MOk u, m)"
  shows "m_chunks m = [] \<and> m_res m = [] \<and> m_calls m = [] \<and> m_next_id m = 0 \<and> m_serial m = n + 1 \<and> m_opt m = opt"
  using assms by (auto simp: new_manager_def mbind_iff Let_def case_prod_beta)

lemma tables_step:
  assumes doc: "v_documented env" and ok: "tables_ok m" and st: "m_step env m m'"
  shows "tables_ok m'"
proof -
  have err: "tables_ok m'" if "harmless m q" "q = (MErr e, m')" for q :: "'x mres \<times> Manager" and e
    using that only_calls_tables [OF _ ok] by (auto simp: harmless_def)
  show ?thesis
    using st
  proof (cases rule: m_step.cases)
    case (reserve n ra)
    then show ?thesis using err [OF harmless_reserve [OF doc ok]] tables_reserve [OF doc ok] by (cases ra) auto
  next
    case (create n l rt)
    then show ?thesis using err [OF harmless_create [OF ok]] tables_create [OF doc ok] by (cases rt) auto
  next
    case (map_chunk t va ra)
    then show ?thesis using err [OF harmless_map [OF ok]] tables_map [OF doc ok] by (cases ra) auto
  next
    case (unmap t ra)
    then show ?thesis using err [OF harmless_unmap [OF ok]] tables_unmap [OF ok] by (cases ra) auto
  next
    case (remap t l ra)
    then show ?thesis using err [OF harmless_remap [OF doc ok]] tables_remap [OF doc ok] by (cases ra) auto
  next
    case (release t ra)
    then show ?thesis using err [OF harmless_release [OF ok]] tables_release [OF ok] by (cases ra) auto
  next
    case (free va ra)
    then show ?thesis using err [OF harmless_free [OF ok]] tables_free [OF ok] by (cases ra) auto
  qed
qed

lemma managed_tables:
  assumes doc: "v_documented env" and m: "managed env m"
  shows "tables_ok m"
  using m
proof (induction rule: managed.induct)
  case (built opt n m)
  then show ?case using new_manager_done by (simp add: tables_ok_def held_ranges_def)
next
  case (stepped m m')
  then show ?case using tables_step [OF doc] by blast
qed

text \<open>
  C19. In every state a Manager reaches, whatever driver calls fail, every chunk of its table has a
  size and its own id below the next one, a mapped chunk is aligned and lies inside one reservation,
  and reservations neither overlap nor wrap.
\<close>

theorem manager_tables:
  assumes "v_documented env" and "managed env m"
  shows "(\<forall>i c. map_of (m_chunks m) i = Some c \<longrightarrow> mc_id c = i \<and> i < m_next_id m \<and> mc_size c \<noteq> 0 \<and>
      (mapped c \<longrightarrow> aligned (m_gran m) (mc_va c) \<and> in_reservation (m_res m) (mc_va c) (mc_size c))) \<and>
    (\<forall>a k b n. map_of (m_res m) a = Some k \<longrightarrow> map_of (m_res m) b = Some n \<longrightarrow>
      unat a + unat k < 2 ^ 64 \<and> (a \<noteq> b \<longrightarrow> apart a k b n))"
  using tables_okD [OF managed_tables [OF assms]] by blast

section \<open>Tokens\<close>

text \<open>Ids only grow, and no operation brings back an id.\<close>

definition grows :: "Manager \<Rightarrow> Manager \<Rightarrow> bool" where
  "grows m m' \<longleftrightarrow> m_serial m' = m_serial m \<and> m_next_id m \<le> m_next_id m' \<and>
     (\<forall>i. i < m_next_id m \<longrightarrow> map_of (m_chunks m) i = None \<longrightarrow> map_of (m_chunks m') i = None)"

lemma grows_only: "only_calls m m' \<Longrightarrow> grows m m'"
  by (simp add: grows_def only_calls_def)

lemma grows_put:
  assumes "tables_ok m" and "map_of (m_chunks m) i = Some c" and "mc_id c' = mc_id c"
    and "m_serial m1 = m_serial m" "m_next_id m1 = m_next_id m" "m_chunks m1 = m_chunks m"
  shows "grows m (put_chunk c' m1)"
  using assms tables_okD(4) [OF assms(1,2)] by (auto simp: grows_def put_chunk_def get_put)

lemma grows_step:
  assumes doc: "v_documented env" and ok: "tables_ok m" and st: "m_step env m m'"
  shows "grows m m'"
proof -
  have err: "grows m m'" if "harmless m q" "q = (MErr e, m')" for q :: "'x mres \<times> Manager" and e
    using that grows_only by (auto simp: harmless_def)
  show ?thesis
    using st
  proof (cases rule: m_step.cases)
    case (reserve n ra)
    then show ?thesis using err [OF harmless_reserve [OF doc ok]] by (cases ra) (auto simp: grows_def elim!: reserve_done)
  next
    case (create n l rt)
    then show ?thesis
      using err [OF harmless_create [OF ok]]
      by (cases rt) (auto simp: grows_def put_chunk_def get_put elim!: create_done)
  next
    case (map_chunk t va ra)
    then show ?thesis using err [OF harmless_map [OF ok]] grows_put [OF ok]
      by (cases ra) (auto simp: grows_def elim!: map_done)
  next
    case (unmap t ra)
    then show ?thesis using err [OF harmless_unmap [OF ok]] grows_put [OF ok]
      by (cases ra) (auto simp: grows_def elim!: unmap_done)
  next
    case (remap t l ra)
    show ?thesis
    proof (cases ra)
      case (MErr e)
      then show ?thesis using err [OF harmless_remap [OF doc ok]] remap by blast
    next
      case (MOk x)
      with remap have "m_remap env t l m = (MOk x, m')" by simp
      then show ?thesis
      proof (cases rule: remap_done)
        case (stays c k)
        then show ?thesis by (simp add: grows_def m_say_def)
      next
        case (moves c nh scratch m1)
        have "grows m (put_chunk (c\<lparr>mc_handle := nh, mc_loc := l\<rparr>) m1)"
          by (rule grows_put [OF ok moves(2)]) (simp_all add: moves(8))
        then show ?thesis using quiet_fields [OF moves(9)] by (simp add: grows_def)
      qed
    qed
  next
    case (release t ra)
    then show ?thesis using err [OF harmless_release [OF ok]] get_del [OF tables_okD(1) [OF ok]]
      by (cases ra) (auto simp: grows_def elim!: release_done)
  next
    case (free va ra)
    then show ?thesis using err [OF harmless_free [OF ok]] by (cases ra) (auto simp: grows_def elim!: free_done)
  qed
qed

text \<open>
  A token whose chunk was released stays invalid: whatever the Manager does later, and whatever
  fails, every use of the token is rejected before any driver call.
\<close>

theorem released_token_stays_invalid:
  assumes doc: "v_documented env" and m: "managed env m"
    and t: "tk_id t < m_next_id m" "map_of (m_chunks m) (tk_id t) = None" and later: "(m_step env)\<^sup>*\<^sup>* m m'"
  shows "\<exists>what. get_chunk t w m' = (MErr (Requirement what), m')"
proof -
  from later have "managed env m' \<and> grows m m'"
  proof (induction rule: rtranclp_induct)
    case base
    then show ?case using m by (simp add: grows_def)
  next
    case (step m1 m2)
    then have "grows m1 m2" using grows_step [OF doc managed_tables [OF doc]] by blast
    then show ?case using step managed.stepped by (fastforce simp: grows_def)
  qed
  then have "map_of (m_chunks m') (tk_id t) = None" using t by (simp add: grows_def)
  then show ?thesis using get_chunk_stale [of t m' w] by (simp add: live_token_def)
qed

end
