(* ===== verification/Manager_Agree.thy ===== *)
theory Manager_Agree
  imports Manager_Props
begin

text \<open>
  As long as no driver call fails, the driver holds exactly what the Manager's tables name; what a
  remap does to the data; what a failed one leaves behind; and what the destructor gives back.
\<close>

section \<open>Agreement under the operations\<close>

lemma agreesI:
  assumes "\<And>va. vs_reserved (vs (m_calls m)) va = map_of (m_res m) va"
    and "\<And>h n p. (\<exists>x. vs_handles (vs (m_calls m)) h = Some (n, p, x)) \<longleftrightarrow>
         (\<exists>i c. map_of (m_chunks m) i = Some c \<and> mc_handle c = h \<and> mc_size c = n \<and> prop_of (mc_loc c) m = p)"
    and "\<And>i c j e. map_of (m_chunks m) i = Some c \<Longrightarrow> map_of (m_chunks m) j = Some e \<Longrightarrow> mc_handle c = mc_handle e \<Longrightarrow> i = j"
    and "\<And>va n h a. vs_maps (vs (m_calls m)) va = Some (n, h, a) \<longleftrightarrow>
         (\<exists>i c. map_of (m_chunks m) i = Some c \<and> mapped c \<and> mc_va c = va \<and> mc_size c = n \<and> mc_handle c = h \<and>
            a = Some (op_device (m_opt m)))"
    and "\<And>va n h a va' n' h' a'. vs_maps (vs (m_calls m)) va = Some (n, h, a) \<Longrightarrow>
         vs_maps (vs (m_calls m)) va' = Some (n', h', a') \<Longrightarrow> va \<noteq> va' \<Longrightarrow> apart va n va' n'"
  shows "agrees m"
  unfolding agrees_def Let_def using assms by (intro conjI allI impI) blast+

text \<open>The handle of a chunk of the table, and of no other chunk.\<close>

lemma chunk_handle:
  assumes "agrees m" and "map_of (m_chunks m) i = Some c"
  shows "\<exists>x. vs_handles (vs (m_calls m)) (mc_handle c) = Some (mc_size c, prop_of (mc_loc c) m, x)"
  using agreesD(2) [OF assms(1)] assms(2) by blast

lemma chunk_mapping:
  assumes "agrees m" and "map_of (m_chunks m) i = Some c" and "mapped c"
  shows "vs_maps (vs (m_calls m)) (mc_va c) = Some (mc_size c, mc_handle c, Some (op_device (m_opt m)))"
  using agreesD(4) [OF assms(1)] assms(2,3) by blast

lemma agrees_reserve:
  assumes ag: "agrees m" and e: "m_reserve env n m = (MOk x, m')"
  shows "agrees m'"
proof -
  obtain l where m': "m' = finish env l ((called (VReserve (m_round_up m n) CUDA_SUCCESS x) m)\<lparr>m_res := om_put x (m_round_up m n) (m_res m)\<rparr>)"
    by (rule reserve_done [OF e])
  let ?m = "(called (VReserve (m_round_up m n) CUDA_SUCCESS x) m)\<lparr>m_res := om_put x (m_round_up m n) (m_res m)\<rparr>"
  have "agrees ?m"
    by (rule agreesI) (use agreesD [OF ag] in \<open>simp_all add: get_put prop_of_def\<close>)
  then show ?thesis unfolding m' by (simp only: agrees_quiet [OF quiet_finish])
qed

lemma agrees_create:
  assumes doc: "v_documented env" and ok: "tables_ok m" and ag: "agrees m" and e: "m_create env n l m = (MOk t, m')"
  shows "agrees m'"
proof -
  note T = tables_okD [OF ok] and G = agreesD [OF ag]
  obtain k h where h: "ve_create env (m_calls m) (m_round_up m n) (prop_of l m) = (CUDA_SUCCESS, h)"
    and m': "m' = finish env k (put_chunk \<lparr>mc_id = m_next_id m, mc_size = m_round_up m n, mc_loc = l, mc_handle = h, mc_va = 0\<rparr>
      ((called (VCreate (m_round_up m n) (prop_of l m) CUDA_SUCCESS h) m)\<lparr>m_next_id := m_next_id m + 1\<rparr>))"
    by (rule create_done [OF e]) blast
  define c where "c = \<lparr>mc_id = m_next_id m, mc_size = m_round_up m n, mc_loc = l, mc_handle = h, mc_va = 0\<rparr>"
  define m1 where "m1 = put_chunk c ((called (VCreate (m_round_up m n) (prop_of l m) CUDA_SUCCESS h) m)\<lparr>m_next_id := m_next_id m + 1\<rparr>)"
  have new: "vs_handles (vs (m_calls m)) h = None" using v_documentedD(2) [OF doc h] by blast
  have absent: "map_of (m_chunks m) (m_next_id m) = None"
    using T(4) by (cases "map_of (m_chunks m) (m_next_id m)") force+
  have chunks: "map_of (m_chunks m1) i = Some d \<longleftrightarrow> i = m_next_id m \<and> d = c \<or> map_of (m_chunks m) i = Some d" for i d
    using absent by (auto simp: m1_def c_def put_chunk_def get_put)
  have cf: "mc_handle c = h" "mc_size c = m_round_up m n" "mc_loc c = l" "\<not> mapped c" by (simp_all add: c_def mapped_def)
  have old: "mc_handle d \<noteq> h" if "map_of (m_chunks m) i = Some d" for i d
    using chunk_handle [OF ag that] new by auto
  have p: "prop_of b m1 = prop_of b m" for b by (simp add: prop_of_def m1_def put_chunk_def)
  have d: "vs (m_calls m1) = (vs (m_calls m))\<lparr>vs_handles := (vs_handles (vs (m_calls m)))(h \<mapsto> (m_round_up m n, prop_of l m, None))\<rparr>"
    by (simp add: m1_def put_chunk_def)
  have f: "m_res m1 = m_res m" "m_opt m1 = m_opt m" by (simp_all add: m1_def put_chunk_def)
  have "agrees m1"
  proof (rule agreesI)
    show "vs_reserved (vs (m_calls m1)) va = map_of (m_res m1) va" for va using G(1) by (simp add: d f)
    show "(\<exists>x. vs_handles (vs (m_calls m1)) g = Some (k, q, x)) \<longleftrightarrow>
        (\<exists>i e. map_of (m_chunks m1) i = Some e \<and> mc_handle e = g \<and> mc_size e = k \<and> prop_of (mc_loc e) m1 = q)" for g k q
    proof (cases "g = h")
      case True
      then show ?thesis unfolding d p chunks using cf old by auto
    next
      case False
      then have "vs_handles (vs (m_calls m1)) g = vs_handles (vs (m_calls m)) g" by (simp add: d)
      then show ?thesis unfolding p chunks using G(2) [of g k q] cf False by auto
    qed
    show "i = j" if "map_of (m_chunks m1) i = Some a" "map_of (m_chunks m1) j = Some b" "mc_handle a = mc_handle b" for i a j b
      using that old G(3) cf unfolding chunks by metis
    show "vs_maps (vs (m_calls m1)) va = Some (k, g, a) \<longleftrightarrow>
        (\<exists>i e. map_of (m_chunks m1) i = Some e \<and> mapped e \<and> mc_va e = va \<and> mc_size e = k \<and> mc_handle e = g \<and>
          a = Some (op_device (m_opt m1)))" for va k g a
    proof -
      have "vs_maps (vs (m_calls m1)) va = vs_maps (vs (m_calls m)) va" by (simp add: d)
      then show ?thesis unfolding f chunks using G(4) [of va k g a] cf(4) by auto
    qed
    show "apart va k va' k'" if "vs_maps (vs (m_calls m1)) va = Some (k, g, a)" "vs_maps (vs (m_calls m1)) va' = Some (k', g', a')" "va \<noteq> va'"
      for va k g a va' k' g' a'
      using that G(5) by (simp add: d)
  qed
  then show ?thesis unfolding m' by (simp only: agrees_quiet [OF quiet_finish] m1_def c_def)
qed

text \<open>A chunk of the table is replaced, and the driver with it.\<close>

lemma agrees_replace:
  assumes ok: "tables_ok m" and ag: "agrees m" and c: "map_of (m_chunks m) i = Some c"
    and c': "mc_id c' = mc_id c" "mc_size c' = mc_size c"
    and f: "m_chunks m1 = m_chunks m" "m_res m1 = m_res m" "m_opt m1 = m_opt m" "m_numa m1 = m_numa m"
    and reserved: "vs_reserved (vs (m_calls m1)) = vs_reserved (vs (m_calls m))"
    and handles: "\<And>h n p. (\<exists>x. vs_handles (vs (m_calls m1)) h = Some (n, p, x)) \<longleftrightarrow>
      (if h = mc_handle c' then n = mc_size c' \<and> p = prop_of (mc_loc c') m
       else h \<noteq> mc_handle c \<and> (\<exists>x. vs_handles (vs (m_calls m)) h = Some (n, p, x)))"
    and fresh: "mc_handle c' = mc_handle c \<or> vs_handles (vs (m_calls m)) (mc_handle c') = None"
    and maps: "\<And>va. vs_maps (vs (m_calls m1)) va =
      (if mapped c' \<and> va = mc_va c' then Some (mc_size c', mc_handle c', Some (op_device (m_opt m)))
       else if mapped c \<and> va = mc_va c then None else vs_maps (vs (m_calls m)) va)"
    and apt: "\<And>va n h a. mapped c' \<Longrightarrow> vs_maps (vs (m_calls m)) va = Some (n, h, a) \<Longrightarrow> va \<noteq> mc_va c' \<Longrightarrow>
      \<not> (mapped c \<and> va = mc_va c) \<Longrightarrow> apart va n (mc_va c') (mc_size c')"
    and same: "mapped c' \<Longrightarrow> mapped c \<Longrightarrow> mc_va c' = mc_va c"
    and free: "mapped c' \<Longrightarrow> \<not> mapped c \<Longrightarrow> vs_maps (vs (m_calls m)) (mc_va c') = None"
  shows "agrees (put_chunk c' m1)"
proof -
  note T = tables_okD [OF ok] and G = agreesD [OF ag]
  have i: "mc_id c' = i" using T(4) [OF c] c' by simp
  have chunks: "map_of (m_chunks (put_chunk c' m1)) j = Some d \<longleftrightarrow> j = i \<and> d = c' \<or> j \<noteq> i \<and> map_of (m_chunks m) j = Some d" for j d
    by (auto simp: put_chunk_def get_put f i)
  have fs: "m_res (put_chunk c' m1) = m_res m" "m_opt (put_chunk c' m1) = m_opt m" "m_calls (put_chunk c' m1) = m_calls m1"
    "prop_of l (put_chunk c' m1) = prop_of l m" for l
    by (simp_all add: put_chunk_def f prop_of_def)
  have other: "mc_handle d \<noteq> mc_handle c \<and> mc_handle d \<noteq> mc_handle c'" if "map_of (m_chunks m) j = Some d" "j \<noteq> i" for j d
    using G(3) [OF that(1) c] that(2) chunk_handle [OF ag that(1)] fresh by auto
  have other_va: "mc_va d \<noteq> mc_va c" if "map_of (m_chunks m) j = Some d" "j \<noteq> i" "mapped d" "mapped c" for j d
    using chunk_mapping [OF ag that(1,3)] chunk_mapping [OF ag c that(4)] other [OF that(1,2)] by auto
  have other_va': "mc_va d \<noteq> mc_va c'" if "map_of (m_chunks m) j = Some d" "j \<noteq> i" "mapped d" "mapped c'" for j d
    using chunk_mapping [OF ag that(1,3)] free [OF that(4)] same [OF that(4)] other_va [OF that(1-3)] by (cases "mapped c") auto
  show ?thesis
  proof (rule agreesI)
    show "vs_reserved (vs (m_calls (put_chunk c' m1))) va = map_of (m_res (put_chunk c' m1)) va" for va
      using G(1) reserved by (simp add: fs)
    show "(\<exists>x. vs_handles (vs (m_calls (put_chunk c' m1))) g = Some (k, q, x)) \<longleftrightarrow>
        (\<exists>j d. map_of (m_chunks (put_chunk c' m1)) j = Some d \<and> mc_handle d = g \<and> mc_size d = k \<and> prop_of (mc_loc d) (put_chunk c' m1) = q)"
      for g k q
    proof (cases "g = mc_handle c'")
      case True
      then show ?thesis unfolding fs handles [of g k q] chunks using other by auto
    next
      case g: False
      have prem: "(g \<noteq> mc_handle c \<and> (\<exists>j d. map_of (m_chunks m) j = Some d \<and> mc_handle d = g \<and> mc_size d = k \<and> prop_of (mc_loc d) m = q)) \<longleftrightarrow>
        (\<exists>j d. j \<noteq> i \<and> map_of (m_chunks m) j = Some d \<and> mc_handle d = g \<and> mc_size d = k \<and> prop_of (mc_loc d) m = q)"
        (is "?l \<longleftrightarrow> ?r")
      proof
        assume ?l
        then obtain j d where "map_of (m_chunks m) j = Some d" "mc_handle d = g" "mc_size d = k" "prop_of (mc_loc d) m = q" "g \<noteq> mc_handle c"
          by blast
        moreover then have "j \<noteq> i" using c by auto
        ultimately show ?r by blast
      next
        assume ?r
        then obtain j d where jd: "j \<noteq> i" "map_of (m_chunks m) j = Some d" "mc_handle d = g" "mc_size d = k" "prop_of (mc_loc d) m = q"
          by blast
        then have "g \<noteq> mc_handle c" using other [OF jd(2,1)] by simp
        then show ?l using jd by blast
      qed
      then show ?thesis unfolding fs chunks handles [of g k q] if_not_P [OF g] G(2) [of g k q] prem using g by auto
    qed
    show "j = j'" if "map_of (m_chunks (put_chunk c' m1)) j = Some a" "map_of (m_chunks (put_chunk c' m1)) j' = Some b" "mc_handle a = mc_handle b"
      for j a j' b
      using that other G(3) unfolding chunks by metis
    show "vs_maps (vs (m_calls (put_chunk c' m1))) va = Some (k, g, a) \<longleftrightarrow>
        (\<exists>j d. map_of (m_chunks (put_chunk c' m1)) j = Some d \<and> mapped d \<and> mc_va d = va \<and> mc_size d = k \<and> mc_handle d = g \<and>
          a = Some (op_device (m_opt (put_chunk c' m1))))" for va k g a
    proof -
      consider (new) "mapped c'" "va = mc_va c'" | (old) "\<not> (mapped c' \<and> va = mc_va c')" "mapped c" "va = mc_va c"
        | (other) "\<not> (mapped c' \<and> va = mc_va c')" "\<not> (mapped c \<and> va = mc_va c)" by blast
      then show ?thesis
      proof cases
        case new
        then have "vs_maps (vs (m_calls m1)) va = Some (mc_size c', mc_handle c', Some (op_device (m_opt m)))" by (simp add: maps)
        then show ?thesis unfolding fs chunks using new other_va' by auto
      next
        case old
        then have "vs_maps (vs (m_calls m1)) va = None" by (simp add: maps)
        then show ?thesis unfolding fs chunks using old other_va by auto
      next
        case o: other
        have v: "vs_maps (vs (m_calls m1)) va = vs_maps (vs (m_calls m)) va" unfolding maps if_not_P [OF o(1)] if_not_P [OF o(2)] ..
        have "j \<noteq> i" if "map_of (m_chunks m) j = Some d" "mapped d" "mc_va d = va" for j d
          using that c o(2) by auto
        then show ?thesis unfolding fs chunks v G(4) [of va k g a] using o(1) by blast
      qed
    qed
    show "apart va k va' k'"
      if "vs_maps (vs (m_calls (put_chunk c' m1))) va = Some (k, g, a)" "vs_maps (vs (m_calls (put_chunk c' m1))) va' = Some (k', g', a')" "va \<noteq> va'"
      for va k g a va' k' g' a'
      using that apt G(5) unfolding fs maps by (auto simp: apart_sym split: if_splits)
  qed
qed


lemma same_handles:
  assumes "agrees m" and "map_of (m_chunks m) i = Some c" and "vs_handles d' = vs_handles (vs (m_calls m))"
    and "mc_handle c' = mc_handle c" "mc_size c' = mc_size c" "mc_loc c' = mc_loc c"
  shows "(\<exists>x. vs_handles d' h = Some (n, p, x)) \<longleftrightarrow>
    (if h = mc_handle c' then n = mc_size c' \<and> p = prop_of (mc_loc c') m
     else h \<noteq> mc_handle c \<and> (\<exists>x. vs_handles (vs (m_calls m)) h = Some (n, p, x)))"
  using chunk_handle [OF assms(1,2)] unfolding assms(3-6) by auto

text \<open>A mapping of the driver has a size; ranges that overlap no mapping start at none.\<close>

lemma mapping_size:
  assumes "tables_ok m" and "agrees m" and "vs_maps (vs (m_calls m)) va = Some (n, h, a)"
  shows "n \<noteq> 0" and "in_reservation (m_res m) va n"
proof -
  obtain i c where c: "map_of (m_chunks m) i = Some c" "mapped c" "mc_va c = va" "mc_size c = n"
    using agreesD(4) [OF assms(2)] assms(3) by blast
  then show "n \<noteq> 0" "in_reservation (m_res m) va n" using tables_okD(4,5) [OF assms(1) c(1)] by auto
qed

lemma apart_self: "apart a m a n \<longleftrightarrow> m = 0 \<or> n = 0"
  by (auto simp: apart_def unat_eq_0)

lemma agrees_map:
  assumes doc: "v_documented env" and ok: "tables_ok m" and ag: "agrees m" and e: "m_map env t va m = (MOk x, m')"
  shows "agrees m'"
proof -
  obtain c l where c: "map_of (m_chunks m) (tk_id t) = Some c" "\<not> mapped c" "inside_reservation va (mc_size c) m"
    and d: "ve_map env (m_calls m) va (mc_size c) (mc_handle c) = CUDA_SUCCESS"
    and m': "m' = finish env l (put_chunk (c\<lparr>mc_va := va\<rparr>) (called (VAccess va (mc_size c) (op_device (m_opt m)) CUDA_SUCCESS)
      (called (VMap va (mc_size c) (mc_handle c) CUDA_SUCCESS) m)))"
    by (rule map_done [OF e]) blast
  let ?m1 = "called (VAccess va (mc_size c) (op_device (m_opt m)) CUDA_SUCCESS) (called (VMap va (mc_size c) (mc_handle c) CUDA_SUCCESS) m)"
  note D = v_documentedD(3,4) [OF doc d]
  have n0: "mc_size c \<noteq> 0" using tables_okD(4) [OF ok c(1)] by simp
  obtain base sz where "map_of (m_res m) base = Some sz" "unat base \<le> unat va"
    using inside_in_reservation [OF ok c(3) D(1)] by (auto simp: in_reservation_def)
  then have va0: "va \<noteq> 0" using tables_okD(6) [OF ok] by (auto simp: unat_eq_0)
  have none: "vs_maps (vs (m_calls m)) va = None"
    using D(2) [of va] mapping_size(1) [OF ok ag, of va] n0 by (cases "vs_maps (vs (m_calls m)) va") (auto simp: apart_self)
  have "agrees (put_chunk (c\<lparr>mc_va := va\<rparr>) ?m1)"
  proof (rule agrees_replace [OF ok ag c(1)])
    show "(\<exists>x. vs_handles (vs (m_calls ?m1)) h = Some (n, p, x)) \<longleftrightarrow>
      (if h = mc_handle (c\<lparr>mc_va := va\<rparr>) then n = mc_size (c\<lparr>mc_va := va\<rparr>) \<and> p = prop_of (mc_loc (c\<lparr>mc_va := va\<rparr>)) m
       else h \<noteq> mc_handle c \<and> (\<exists>x. vs_handles (vs (m_calls m)) h = Some (n, p, x)))" for h n p
      by (rule same_handles [OF ag c(1)]) simp_all
    show "vs_maps (vs (m_calls ?m1)) a = (if mapped (c\<lparr>mc_va := va\<rparr>) \<and> a = mc_va (c\<lparr>mc_va := va\<rparr>)
        then Some (mc_size (c\<lparr>mc_va := va\<rparr>), mc_handle (c\<lparr>mc_va := va\<rparr>), Some (op_device (m_opt m)))
        else if mapped c \<and> a = mc_va c then None else vs_maps (vs (m_calls m)) a)" for a
      using va0 c(2) by (simp add: mapped_def)
    show "apart a n (mc_va (c\<lparr>mc_va := va\<rparr>)) (mc_size (c\<lparr>mc_va := va\<rparr>))" if "vs_maps (vs (m_calls m)) a = Some (n, h, b)" for a n h b
      using D(2) [OF that] by simp
  qed (use none c(2) in simp_all)
  then show ?thesis unfolding m' by (simp only: agrees_quiet [OF quiet_finish])
qed

lemma agrees_unmap:
  assumes ok: "tables_ok m" and ag: "agrees m" and e: "m_unmap env t m = (MOk x, m')"
  shows "agrees m'"
proof -
  obtain c l where c: "map_of (m_chunks m) (tk_id t) = Some c" "mapped c"
    and m': "m' = finish env l (put_chunk (c\<lparr>mc_va := 0\<rparr>) (called (VUnmap (mc_va c) (mc_size c) CUDA_SUCCESS) m))"
    by (rule unmap_done [OF e]) blast
  let ?m1 = "called (VUnmap (mc_va c) (mc_size c) CUDA_SUCCESS) m"
  have u: "\<not> mapped (c\<lparr>mc_va := 0\<rparr>)" by (simp add: mapped_def)
  have "agrees (put_chunk (c\<lparr>mc_va := 0\<rparr>) ?m1)"
  proof (rule agrees_replace [OF ok ag c(1)])
    show "(\<exists>x. vs_handles (vs (m_calls ?m1)) h = Some (n, p, x)) \<longleftrightarrow>
      (if h = mc_handle (c\<lparr>mc_va := 0\<rparr>) then n = mc_size (c\<lparr>mc_va := 0\<rparr>) \<and> p = prop_of (mc_loc (c\<lparr>mc_va := 0\<rparr>)) m
       else h \<noteq> mc_handle c \<and> (\<exists>x. vs_handles (vs (m_calls m)) h = Some (n, p, x)))" for h n p
      by (rule same_handles [OF ag c(1)]) simp_all
  qed (use c(2) u in simp_all)
  then show ?thesis unfolding m' by (simp only: agrees_quiet [OF quiet_finish])
qed


text \<open>The driver after the calls of a remap: the data is in the new backing, under the old address.\<close>

lemma vs_remap_calls:
  assumes "vs_maps d (mc_va c) = Some (mc_size c, mc_handle c, Some dev)" and "vs_handles d (mc_handle c) = Some (mc_size c, q, x)"
    and "vs_handles d nh = None" and "vs_maps d scratch = None"
  shows "fold vs_apply (remap_calls c p dev nh scratch) d =
    d\<lparr>vs_reserved := (vs_reserved d)(scratch := None), vs_handles := (vs_handles d)(nh \<mapsto> (mc_size c, p, x), mc_handle c := None),
      vs_maps := (vs_maps d)(mc_va c \<mapsto> (mc_size c, nh, Some dev))\<rparr>"
proof -
  have n: "nh \<noteq> mc_handle c" and s: "scratch \<noteq> mc_va c" using assms by auto
  have m: "(vs_maps d)(scratch := None) = vs_maps d" using assms(4) by auto
  show ?thesis
    using assms n s n [symmetric] s [symmetric]
    by (auto simp: remap_calls_def vs_copy_def vs_data_def fun_upd_twist intro!: VState.equality ext)
qed

text \<open>A range that overlaps no reservation holds no mapping.\<close>

lemma fresh_unmapped:
  assumes ok: "tables_ok m" and ag: "agrees m" and r: "\<And>a k. map_of (m_res m) a = Some k \<Longrightarrow> apart a k va n" and n: "n \<noteq> 0"
  shows "vs_maps (vs (m_calls m)) va = None"
proof (cases "vs_maps (vs (m_calls m)) va")
  case (Some e)
  obtain k h a where e: "e = (k, h, a)" by (cases e)
  obtain base sz where b: "map_of (m_res m) base = Some sz" "unat base \<le> unat va" "unat va + unat k \<le> unat base + unat sz"
    using mapping_size(2) [OF ok ag Some [unfolded e]] by (auto simp: in_reservation_def)
  moreover have "0 < unat k" "0 < unat n" using mapping_size(1) [OF ok ag Some [unfolded e]] n by (auto simp: unat_gt_0)
  ultimately show ?thesis using r [OF b(1)] by (auto simp: apart_def)
qed

lemma agrees_remap:
  assumes doc: "v_documented env" and ok: "tables_ok m" and ag: "agrees m" and e: "m_remap env t to m = (MOk x, m')"
  shows "agrees m'"
  using e
proof (cases rule: remap_done)
  case (stays c l)
  then show ?thesis using ag by (simp add: agrees_quiet [OF quiet_say])
next
  case (moves c nh scratch m1)
  note T = tables_okD [OF ok]
  let ?c' = "c\<lparr>mc_handle := nh, mc_loc := to\<rparr>" and ?d = "vs (m_calls m)"
  have new: "vs_handles ?d nh = None" using v_documentedD(2) [OF doc moves(6)] by simp
  have res: "apart a k scratch (mc_size c)" if "map_of (m_res m) a = Some k" for a k
    using v_documentedD(1) [OF doc moves(7)] that agreesD(1) [OF ag] by simp
  have n0: "mc_size c \<noteq> 0" using T(4) [OF moves(2)] by simp
  have scratch: "vs_maps ?d scratch = None" by (rule fresh_unmapped [OF ok ag res n0])
  have res0: "map_of (m_res m) scratch = None"
    using res [of scratch] n0 T(6) [of scratch] by (cases "map_of (m_res m) scratch") (auto simp: apart_self)
  obtain x where h: "vs_handles ?d (mc_handle c) = Some (mc_size c, prop_of (mc_loc c) m, x)"
    using chunk_handle [OF ag moves(2)] by blast
  have calls: "m_calls m1 = m_calls m @ remap_calls c (prop_of to m) (op_device (m_opt m)) nh scratch" by (simp add: moves(8))
  have d: "vs (m_calls m1) = ?d\<lparr>vs_reserved := (vs_reserved ?d)(scratch := None),
      vs_handles := (vs_handles ?d)(nh \<mapsto> (mc_size c, prop_of to m, x), mc_handle c := None),
      vs_maps := (vs_maps ?d)(mc_va c \<mapsto> (mc_size c, nh, Some (op_device (m_opt m))))\<rparr>"
    unfolding calls vs_snoc by (rule vs_remap_calls [OF chunk_mapping [OF ag moves(2,3)] h new scratch])
  have m: "mapped ?c'" using moves(3) by (simp add: mapped_def)
  have "agrees (put_chunk ?c' m1)"
  proof (rule agrees_replace [OF ok ag moves(2)])
    show "vs_reserved (vs (m_calls m1)) = vs_reserved ?d" using res0 agreesD(1) [OF ag] by (auto simp: d)
    show "(\<exists>x. vs_handles (vs (m_calls m1)) h = Some (n, p, x)) \<longleftrightarrow>
      (if h = mc_handle ?c' then n = mc_size ?c' \<and> p = prop_of (mc_loc ?c') m
       else h \<noteq> mc_handle c \<and> (\<exists>x. vs_handles ?d h = Some (n, p, x)))" for h n p
      using new h by (auto simp: d)
    show "vs_maps (vs (m_calls m1)) a = (if mapped ?c' \<and> a = mc_va ?c' then Some (mc_size ?c', mc_handle ?c', Some (op_device (m_opt m)))
        else if mapped c \<and> a = mc_va c then None else vs_maps ?d a)" for a
      using m by (simp add: d)
    show "apart a n (mc_va ?c') (mc_size ?c')" if "vs_maps ?d a = Some (n, h, b)" "a \<noteq> mc_va ?c'" for a n h b
      using agreesD(5) [OF ag that(1) chunk_mapping [OF ag moves(2,3)]] that(2) by simp
  qed (use moves new in simp_all)
  then show ?thesis by (simp add: agrees_quiet [OF moves(9)])
qed


lemma agrees_release:
  assumes ok: "tables_ok m" and ag: "agrees m" and e: "m_release env t m = (MOk x, m')"
  shows "agrees m'"
proof -
  note T = tables_okD [OF ok] and G = agreesD [OF ag]
  obtain c l where c: "map_of (m_chunks m) (tk_id t) = Some c" "\<not> mapped c"
    and m': "m' = finish env l ((called (VRelease (mc_handle c) CUDA_SUCCESS) m)\<lparr>m_chunks := om_del (mc_id c) (m_chunks m)\<rparr>)"
    by (rule release_done [OF e])
  let ?m1 = "(called (VRelease (mc_handle c) CUDA_SUCCESS) m)\<lparr>m_chunks := om_del (mc_id c) (m_chunks m)\<rparr>"
  have i: "mc_id c = tk_id t" using T(4) [OF c(1)] by simp
  have chunks: "map_of (m_chunks ?m1) j = Some d \<longleftrightarrow> j \<noteq> tk_id t \<and> map_of (m_chunks m) j = Some d" for j d
    by (auto simp: get_del [OF T(1)] i)
  have other: "j \<noteq> tk_id t \<longleftrightarrow> mc_handle d \<noteq> mc_handle c" if "map_of (m_chunks m) j = Some d" for j d
    using G(3) [OF that c(1)] that c(1) by auto
  have p: "prop_of l ?m1 = prop_of l m" for l by (simp add: prop_of_def)
  have d: "vs (m_calls ?m1) = (vs (m_calls m))\<lparr>vs_handles := (vs_handles (vs (m_calls m)))(mc_handle c := None)\<rparr>" by simp
  have "agrees ?m1"
  proof (rule agreesI)
    show "vs_reserved (vs (m_calls ?m1)) va = map_of (m_res ?m1) va" for va using G(1) by simp
    show "(\<exists>x. vs_handles (vs (m_calls ?m1)) h = Some (n, q, x)) \<longleftrightarrow>
        (\<exists>i e. map_of (m_chunks ?m1) i = Some e \<and> mc_handle e = h \<and> mc_size e = n \<and> prop_of (mc_loc e) ?m1 = q)" for h n q
    proof (cases "h = mc_handle c")
      case True
      then show ?thesis unfolding chunks p d using other by auto
    next
      case False
      then have "vs_handles (vs (m_calls ?m1)) h = vs_handles (vs (m_calls m)) h" by simp
      then show ?thesis unfolding chunks p using G(2) [of h n q] other False by metis
    qed
    show "i = j" if "map_of (m_chunks ?m1) i = Some a" "map_of (m_chunks ?m1) j = Some b" "mc_handle a = mc_handle b" for i a j b
      using that G(3) unfolding chunks by blast
    show "vs_maps (vs (m_calls ?m1)) va = Some (n, h, a) \<longleftrightarrow>
        (\<exists>i e. map_of (m_chunks ?m1) i = Some e \<and> mapped e \<and> mc_va e = va \<and> mc_size e = n \<and> mc_handle e = h \<and>
          a = Some (op_device (m_opt ?m1)))" for va n h a
    proof -
      have v: "vs_maps (vs (m_calls ?m1)) va = vs_maps (vs (m_calls m)) va" "m_opt ?m1 = m_opt m" by simp_all
      have "j \<noteq> tk_id t" if "map_of (m_chunks m) j = Some d" "mapped d" for j d using that c by auto
      then show ?thesis unfolding chunks v G(4) [of va n h a] by blast
    qed
    show "apart va k va' k'" if "vs_maps (vs (m_calls ?m1)) va = Some (k, g, a)" "vs_maps (vs (m_calls ?m1)) va' = Some (k', g', a')" "va \<noteq> va'"
      for va k g a va' k' g' a'
      using that G(5) by simp
  qed
  then show ?thesis unfolding m' by (simp only: agrees_quiet [OF quiet_finish])
qed

lemma agrees_free:
  assumes ok: "tables_ok m" and ag: "agrees m" and e: "m_free env va m = (MOk x, m')"
  shows "agrees m'"
proof -
  note T = tables_okD [OF ok] and G = agreesD [OF ag]
  obtain l where m': "m' = finish env l ((called (VAddrFree va x CUDA_SUCCESS) m)\<lparr>m_res := om_del va (m_res m)\<rparr>)"
    by (rule free_done [OF e])
  let ?m1 = "(called (VAddrFree va x CUDA_SUCCESS) m)\<lparr>m_res := om_del va (m_res m)\<rparr>"
  have p: "prop_of l ?m1 = prop_of l m" for l by (simp add: prop_of_def)
  have "agrees ?m1"
    by (rule agreesI) (use G in \<open>simp_all add: get_del [OF T(2)] p\<close>)
  then show ?thesis unfolding m' by (simp only: agrees_quiet [OF quiet_finish])
qed

end
