(* ===== verification/Manager_Driver.thy ===== *)
theory Manager_Driver
  imports Manager_Agree
begin

text \<open>
  Runs in which no driver call fails: the driver holds exactly what the tables name, no two chunks are
  mapped over each other, and a remap keeps address and data. What a remap leaves behind when a driver
  call fails half way, and what the destructor asks of the driver.
\<close>

section \<open>Runs without a failing driver call\<close>

text \<open>Calls that a rule rejects change nothing (\<open>rules_decide\<close>), so they need no case.\<close>

inductive smooth :: "VEnv \<Rightarrow> Manager \<Rightarrow> bool" for env where
  s_built: "new_manager env opt n = (MOk (), m) \<Longrightarrow> smooth env m"
| s_reserve: "smooth env m \<Longrightarrow> m_reserve env n m = (MOk a, m') \<Longrightarrow> smooth env m'"
| s_create: "smooth env m \<Longrightarrow> m_create env n l m = (MOk t, m') \<Longrightarrow> smooth env m'"
| s_map: "smooth env m \<Longrightarrow> m_map env t a m = (MOk x, m') \<Longrightarrow> smooth env m'"
| s_unmap: "smooth env m \<Longrightarrow> m_unmap env t m = (MOk x, m') \<Longrightarrow> smooth env m'"
| s_remap: "smooth env m \<Longrightarrow> m_remap env t l m = (MOk x, m') \<Longrightarrow> smooth env m'"
| s_release: "smooth env m \<Longrightarrow> m_release env t m = (MOk x, m') \<Longrightarrow> smooth env m'"
| s_free: "smooth env m \<Longrightarrow> m_free env a m = (MOk x, m') \<Longrightarrow> smooth env m'"

lemma smooth_inv:
  assumes doc: "v_documented env" and m: "smooth env m"
  shows "tables_ok m \<and> agrees m"
  using m
proof (induction rule: smooth.induct)
  case (s_built opt n m)
  then have m: "m_chunks m = [] \<and> m_res m = [] \<and> m_calls m = [] \<and> m_next_id m = 0" using new_manager_done by blast
  have "agrees m" by (rule agreesI) (simp_all add: m vs_def)
  moreover have "tables_ok m" using m by (simp add: tables_ok_def held_ranges_def)
  ultimately show ?case by simp
next
  case (s_reserve m n a m')
  then show ?case using tables_reserve [OF doc] agrees_reserve by blast
next
  case (s_create m n l t m')
  then show ?case using tables_create [OF doc] agrees_create [OF doc] by blast
next
  case (s_map m t a x m')
  then show ?case using tables_map [OF doc] agrees_map [OF doc] by blast
next
  case (s_unmap m t x m')
  then show ?case using tables_unmap agrees_unmap by blast
next
  case (s_remap m t l x m')
  then show ?case using tables_remap [OF doc] agrees_remap [OF doc] by blast
next
  case (s_release m t x m')
  then show ?case using tables_release agrees_release by blast
next
  case (s_free m a x m')
  then show ?case using tables_free agrees_free by blast
qed

text \<open>
  C16. As long as no driver call fails, the driver holds exactly what the Manager's tables name: the
  ranges reserved, one live backing per chunk of its size and placement, and a mapping per mapped
  chunk that the device may use. No two chunks are mapped over each other, although the check for it
  in \<open>map\<close> is commented out.
\<close>

theorem driver_holds_the_tables:
  assumes "v_documented env" and "smooth env m"
  shows "(let d = vs (m_calls m) in
      vs_reserved d = map_of (m_res m) \<and>
      (\<forall>h n p. (\<exists>x. vs_handles d h = Some (n, p, x)) \<longleftrightarrow>
        (\<exists>i c. map_of (m_chunks m) i = Some c \<and> mc_handle c = h \<and> mc_size c = n \<and> prop_of (mc_loc c) m = p)) \<and>
      (\<forall>va n h a. vs_maps d va = Some (n, h, a) \<longleftrightarrow>
        (\<exists>i c. map_of (m_chunks m) i = Some c \<and> mapped c \<and> mc_va c = va \<and> mc_size c = n \<and> mc_handle c = h \<and>
          a = Some (op_device (m_opt m)))) \<and>
      (\<forall>i c j e. map_of (m_chunks m) i = Some c \<longrightarrow> map_of (m_chunks m) j = Some e \<longrightarrow> i \<noteq> j \<longrightarrow>
        mc_handle c \<noteq> mc_handle e \<and> (mapped c \<longrightarrow> mapped e \<longrightarrow> apart (mc_va c) (mc_size c) (mc_va e) (mc_size e))))"
proof -
  have I: "tables_ok m" "agrees m" using smooth_inv [OF assms] by auto
  note G = agreesD [OF I(2)]
  have "mc_handle c \<noteq> mc_handle e \<and> (mapped c \<longrightarrow> mapped e \<longrightarrow> apart (mc_va c) (mc_size c) (mc_va e) (mc_size e))"
    if "map_of (m_chunks m) i = Some c" "map_of (m_chunks m) j = Some e" "i \<noteq> j" for i c j e
  proof (intro conjI impI)
    show h: "mc_handle c \<noteq> mc_handle e" using G(3) that by blast
    assume "mapped c" "mapped e"
    then have "vs_maps (vs (m_calls m)) (mc_va c) = Some (mc_size c, mc_handle c, Some (op_device (m_opt m)))"
      "vs_maps (vs (m_calls m)) (mc_va e) = Some (mc_size e, mc_handle e, Some (op_device (m_opt m)))"
      using chunk_mapping [OF I(2)] that by auto
    then show "apart (mc_va c) (mc_size c) (mc_va e) (mc_size e)" using G(5) h by (metis option.inject prod.inject)
  qed
  moreover have "vs_reserved (vs (m_calls m)) = map_of (m_res m)" using G(1) by blast
  ultimately show ?thesis unfolding Let_def using G(2,4) by (intro conjI allI impI) blast+
qed

section \<open>Remap\<close>









section \<open>Destruction\<close>

text \<open>A call as it looks when it succeeds, and whether it failed.\<close>

fun succeeded :: "vcall \<Rightarrow> vcall" where
  "succeeded (VUnmap va n r) = VUnmap va n CUDA_SUCCESS"
| "succeeded (VRelease h r) = VRelease h CUDA_SUCCESS"
| "succeeded (VAddrFree va n r) = VAddrFree va n CUDA_SUCCESS"
| "succeeded (VStreamDestroy r) = VStreamDestroy CUDA_SUCCESS"
| "succeeded (VCtxRelease r) = VCtxRelease CUDA_SUCCESS"
| "succeeded e = e"

definition call_failed :: "vcall \<Rightarrow> bool" where "call_failed e \<longleftrightarrow> succeeded e \<noteq> e"

definition chunk_plan :: "(int \<times> MChunk) list \<Rightarrow> vhistory" where
  "chunk_plan cs = concat (map (\<lambda>(i, c). (if mapped c then [VUnmap (mc_va c) (mc_size c) CUDA_SUCCESS] else []) @
     [VRelease (mc_handle c) CUDA_SUCCESS]) cs)"

definition range_plan :: "(u64 \<times> u64) list \<Rightarrow> vhistory" where
  "range_plan rs = map (\<lambda>(va, n). VAddrFree va n CUDA_SUCCESS) rs"

definition shutdown_plan :: "Manager \<Rightarrow> vhistory" where
  "shutdown_plan m = chunk_plan (m_chunks m) @ range_plan (m_res m) @ [VStreamDestroy CUDA_SUCCESS, VCtxRelease CUDA_SUCCESS]"

text \<open>\<open>goes m m' es bad\<close>: the calls \<open>es\<close> were added, and a line for each of the \<open>bad\<close> that failed.\<close>

definition goes :: "Manager \<Rightarrow> Manager \<Rightarrow> vhistory \<Rightarrow> nat \<Rightarrow> bool" where
  "goes m m' es bad \<longleftrightarrow> m_calls m' = m_calls m @ es \<and> length (filter call_failed es) = bad \<and>
     length (m_out m') = length (m_out m) + bad \<and> m_chunks m' = m_chunks m \<and> m_res m' = m_res m \<and> m_opt m' = m_opt m"

lemma goes_refl: "goes m m [] 0" by (simp add: goes_def)

lemma goes_trans: "goes m1 m2 es b \<Longrightarrow> goes m2 m3 fs k \<Longrightarrow> goes m1 m3 (es @ fs) (b + k)"
  by (simp add: goes_def)

lemma goes_ok:
  assumes "call_failed e \<longleftrightarrow> r \<noteq> CUDA_SUCCESS" and "dtor_ok env r w i (called e m) = (b, m')"
  shows "goes m m' [e] b"
  using assms by (auto simp: dtor_ok_def goes_def m_say_def called_def split: if_splits)

lemma failed_iff [simp]:
  "call_failed (VUnmap va n r) \<longleftrightarrow> r \<noteq> CUDA_SUCCESS" "call_failed (VRelease h r) \<longleftrightarrow> r \<noteq> CUDA_SUCCESS"
  "call_failed (VAddrFree va n r) \<longleftrightarrow> r \<noteq> CUDA_SUCCESS" "call_failed (VStreamDestroy r) \<longleftrightarrow> r \<noteq> CUDA_SUCCESS"
  "call_failed (VCtxRelease r) \<longleftrightarrow> r \<noteq> CUDA_SUCCESS"
  by (auto simp: call_failed_def)

lemma drop_chunks_goes:
  "drop_chunks env cs (k, m) = (k', m') \<Longrightarrow> \<exists>es b. k' = k + b \<and> goes m m' es b \<and> map succeeded es = chunk_plan cs"
proof (induction cs arbitrary: k m)
  case Nil
  then show ?case using goes_refl by (fastforce simp: chunk_plan_def)
next
  case (Cons e cs)
  obtain i c where e: "e = (i, c)" by (cases e)
  let ?r = "ve_unmap env (m_calls m) (mc_va c) (mc_size c)"
  obtain b1 m1 where u: "(if mapped c then dtor_ok env ?r ''cuMemUnmap'' i (called (VUnmap (mc_va c) (mc_size c) ?r) m) else (0, m)) = (b1, m1)"
    by fastforce
  let ?q = "ve_release env (m_calls m1) (mc_handle c)"
  obtain b2 m2 where r: "dtor_ok env ?q ''cuMemRelease'' i (called (VRelease (mc_handle c) ?q) m1) = (b2, m2)" by fastforce
  have "drop_chunks env cs (k + b1 + b2, m2) = (k', m')"
    using Cons.prems unfolding e drop_chunks.simps Let_def fst_conv snd_conv u r prod.case .
  then obtain es b where es: "k' = k + b1 + b2 + b" "goes m2 m' es b" "map succeeded es = chunk_plan cs"
    using Cons.IH by blast
  have g1: "\<exists>fs. goes m m1 fs b1 \<and> map succeeded fs = (if mapped c then [VUnmap (mc_va c) (mc_size c) CUDA_SUCCESS] else [])"
  proof (cases "mapped c")
    case True
    then show ?thesis using goes_ok [of "VUnmap (mc_va c) (mc_size c) ?r" ?r env _ i m] u by fastforce
  next
    case False
    then show ?thesis using u goes_refl by auto
  qed
  then obtain fs where fs: "goes m m1 fs b1" "map succeeded fs = (if mapped c then [VUnmap (mc_va c) (mc_size c) CUDA_SUCCESS] else [])"
    by blast
  have "goes m1 m2 [VRelease (mc_handle c) ?q] b2" by (rule goes_ok [OF _ r]) simp
  then have "goes m m' (fs @ [VRelease (mc_handle c) ?q] @ es) (b1 + (b2 + b))"
    using goes_trans [OF fs(1) goes_trans [OF _ es(2)]] by blast
  moreover have "map succeeded (fs @ [VRelease (mc_handle c) ?q] @ es) = chunk_plan (e # cs)"
    using fs(2) es(3) by (simp add: chunk_plan_def e)
  ultimately show ?case using es(1) by (metis add.assoc)
qed

lemma drop_reservations_goes:
  "drop_reservations env rs (k, m) = (k', m') \<Longrightarrow> \<exists>es b. k' = k + b \<and> goes m m' es b \<and> map succeeded es = range_plan rs"
proof (induction rs arbitrary: k m)
  case Nil
  then show ?case using goes_refl by (fastforce simp: range_plan_def)
next
  case (Cons e rs)
  obtain va n where e: "e = (va, n)" by (cases e)
  let ?r = "ve_addr_free env (m_calls m) va n"
  obtain b1 m1 where r: "dtor_ok env ?r ''cuMemAddressFree'' (-1) (called (VAddrFree va n ?r) m) = (b1, m1)" by fastforce
  have "drop_reservations env rs (k + b1, m1) = (k', m')" using Cons.prems r by (simp add: e Let_def)
  then obtain es b where es: "k' = k + b1 + b" "goes m1 m' es b" "map succeeded es = range_plan rs"
    using Cons.IH by blast
  have "goes m m1 [VAddrFree va n ?r] b1" by (rule goes_ok [OF _ r]) simp
  from goes_trans [OF this es(2)] show ?case using es by (intro exI conjI) (auto simp: range_plan_def e)
qed

lemma drop_manager_calls:
  obtains es where "m_calls (drop_manager env m) = m_calls m @ es" and "map succeeded es = shutdown_plan m"
    and "length (m_out (drop_manager env m)) = length (m_out m) + length (filter call_failed es) + (if op_verbose (m_opt m) then 1 else 0)"
proof -
  obtain k1 m1 where c: "drop_chunks env (m_chunks m) (0, m) = (k1, m1)" by fastforce
  obtain es where es: "goes m m1 es k1" "map succeeded es = chunk_plan (m_chunks m)" using drop_chunks_goes [OF c] by auto
  obtain k2 m2 where r: "drop_reservations env (m_res m) (k1, m1) = (k2, m2)" by fastforce
  obtain fs b where fs: "k2 = k1 + b" "goes m1 m2 fs b" "map succeeded fs = range_plan (m_res m)" using drop_reservations_goes [OF r] by auto
  let ?r = "ve_stream_destroy env (m_calls m2)"
  obtain b3 m3 where s: "dtor_ok env ?r ''cuStreamDestroy'' (-1) (called (VStreamDestroy ?r) m2) = (b3, m3)" by fastforce
  have g3: "goes m2 m3 [VStreamDestroy ?r] b3" by (rule goes_ok [OF _ s]) simp
  define l where "l = cat [''shutdown: released '', count_text (m_chunks m3), '' chunk(s), freed '', count_text (m_res m3),
    '' reservation(s), '', dec (k2 + b3), '' failure(s)'']"
  define m4 where "m4 = m_log l m3"
  let ?q = "ve_ctx_release env (m_calls m4)"
  obtain b5 m5 where t: "dtor_ok env ?q ''cuDevicePrimaryCtxRelease'' (-1) (called (VCtxRelease ?q) m4) = (b5, m5)" by fastforce
  have g5: "goes m4 m5 [VCtxRelease ?q] b5" by (rule goes_ok [OF _ t]) simp
  have d: "drop_manager env m = m5" unfolding drop_manager_def Let_def c r s prod.case using t by (simp add: m4_def l_def)
  have g: "goes m m3 (es @ fs @ [VStreamDestroy ?r]) (k1 + (b + b3))" by (rule goes_trans [OF es(1) goes_trans [OF fs(2) g3]])
  have m4: "m_calls m4 = m_calls m3" "length (m_out m4) = length (m_out m3) + (if op_verbose (m_opt m) then 1 else 0)"
    using g by (simp_all add: m4_def m_log_def m_say_def goes_def)
  show ?thesis
    by (rule that [of "es @ fs @ [VStreamDestroy ?r, VCtxRelease ?q]"])
      (use g g5 m4 es(2) fs(3) in \<open>auto simp: d goes_def shutdown_plan_def\<close>)
qed

text \<open>
  The destructor asks the driver for everything it holds, whatever fails: it unmaps each mapped
  chunk and releases each chunk once, in the order of their ids, frees each reservation, then the
  stream and the context. It prints one line per failed call, and one more when it is verbose.
\<close>

theorem destructor_tries_everything:
  "\<exists>es. m_calls (drop_manager env m) = m_calls m @ es \<and> map succeeded es = shutdown_plan m \<and>
     length (m_out (drop_manager env m)) =
       length (m_out m) + length (filter call_failed es) + (if op_verbose (m_opt m) then 1 else 0)"
  by (rule drop_manager_calls [of env m]) blast

text \<open>The driver after the calls of the plan.\<close>

lemma vs_chunk_plan:
  "vs_reserved (fold vs_apply (chunk_plan cs) d) = vs_reserved d"
  "vs_handles (fold vs_apply (chunk_plan cs) d) h = (if h \<in> (mc_handle \<circ> snd) ` set cs then None else vs_handles d h)"
  "vs_maps (fold vs_apply (chunk_plan cs) d) va = (if \<exists>c \<in> snd ` set cs. mapped c \<and> mc_va c = va then None else vs_maps d va)"
  by (induction cs arbitrary: d) (auto simp: chunk_plan_def)

lemma vs_range_plan:
  "vs_reserved (fold vs_apply (range_plan rs) d) va = (if va \<in> fst ` set rs then None else vs_reserved d va)"
  "vs_handles (fold vs_apply (range_plan rs) d) = vs_handles d"
  "vs_maps (fold vs_apply (range_plan rs) d) = vs_maps d"
  by (induction rs arbitrary: d) (auto simp: range_plan_def)

text \<open>
  After a run without failing driver calls, a destructor whose calls succeed leaves the driver
  with nothing: no range, no backing, no mapping.
\<close>

theorem shutdown_leaves_nothing:
  assumes doc: "v_documented env" and sm: "smooth env m"
    and ok: "\<forall>e \<in> set (drop (length (m_calls m)) (m_calls (drop_manager env m))). \<not> call_failed e"
  shows "(let d = vs (m_calls (drop_manager env m)) in
    (\<forall>a. vs_reserved d a = None) \<and> (\<forall>h. vs_handles d h = None) \<and> (\<forall>a. vs_maps d a = None))"
proof -
  have I: "tables_ok m" "agrees m" using smooth_inv [OF doc sm] by auto
  note G = agreesD [OF I(2)]
  obtain es where es: "m_calls (drop_manager env m) = m_calls m @ es" "map succeeded es = shutdown_plan m"
    by (rule drop_manager_calls)
  have "map succeeded es = es" by (rule map_idI) (use ok es(1) in \<open>simp add: call_failed_def\<close>)
  then have plan: "es = shutdown_plan m" using es(2) by simp
  have d: "vs (m_calls (drop_manager env m)) = fold vs_apply (range_plan (m_res m)) (fold vs_apply (chunk_plan (m_chunks m)) (vs (m_calls m)))"
    unfolding es(1) plan by (simp add: shutdown_plan_def)
  note O = om_ok_distinct [OF tables_okD(1) [OF I(1)]]
  have in_set: "(i, c) \<in> set (m_chunks m)" if "map_of (m_chunks m) i = Some c" for i c
    using map_of_SomeD [OF that] .
  have "vs_handles (vs (m_calls m)) h = None" if "h \<notin> (mc_handle \<circ> snd) ` set (m_chunks m)" for h
  proof (cases "vs_handles (vs (m_calls m)) h")
    case (Some e)
    then obtain i c where "map_of (m_chunks m) i = Some c" "mc_handle c = h" using G(2) by (cases e) metis
    then show ?thesis using that in_set by force
  qed
  moreover have "vs_maps (vs (m_calls m)) a = None" if "\<not> (\<exists>c \<in> snd ` set (m_chunks m). mapped c \<and> mc_va c = a)" for a
  proof (cases "vs_maps (vs (m_calls m)) a")
    case (Some e)
    then obtain i c where "map_of (m_chunks m) i = Some c" "mapped c" "mc_va c = a" using G(4) by (cases e) metis
    then show ?thesis using that in_set by force
  qed
  moreover have "vs_reserved (vs (m_calls m)) a = None" if "a \<notin> fst ` set (m_res m)" for a
    using G(1) that by (simp add: map_of_eq_None_iff)
  ultimately show ?thesis unfolding Let_def d by (simp add: vs_range_plan vs_chunk_plan)
qed

end
