(* ===== verification/Manager_Rules.thy ===== *)
theory Manager_Rules
  imports Manager_Driver
begin

text \<open>
  The rules of the Manager as a predicate on its tables, and that the checks of the operations decide
  exactly these rules.
\<close>

section \<open>Calls as values\<close>

datatype MOp =
    OpReserve u64
  | OpCreate u64 Loc
  | OpMap ChunkToken u64
  | OpUnmap ChunkToken
  | OpRemap ChunkToken Loc
  | OpRelease ChunkToken
  | OpFree u64

fun erase :: "'x mres \<times> Manager \<Rightarrow> unit mres \<times> Manager" where
  "erase (MOk x, m) = (MOk (), m)"
| "erase (MErr e, m) = (MErr e, m)"

fun run_op :: "VEnv \<Rightarrow> MOp \<Rightarrow> Manager \<Rightarrow> unit mres \<times> Manager" where
  "run_op env (OpReserve n) m = erase (m_reserve env n m)"
| "run_op env (OpCreate n l) m = erase (m_create env n l m)"
| "run_op env (OpMap t va) m = erase (m_map env t va m)"
| "run_op env (OpUnmap t) m = erase (m_unmap env t m)"
| "run_op env (OpRemap t l) m = erase (m_remap env t l m)"
| "run_op env (OpRelease t) m = erase (m_release env t m)"
| "run_op env (OpFree va) m = erase (m_free env va m)"

definition chunk_of :: "ChunkToken \<Rightarrow> Manager \<Rightarrow> MChunk option" where
  "chunk_of t m = (if token_valid t \<and> tk_owner t = m_serial m then map_of (m_chunks m) (tk_id t) else None)"

text \<open>
  The rules: a token names a live chunk of this Manager; \<open>map\<close> wants an unmapped chunk and an aligned
  place inside one reservation, \<open>unmap\<close> and \<open>remap\<close> a mapped chunk, \<open>release\<close> an unmapped one, and
  \<open>free\<close> a reservation that no mapped chunk overlaps.
\<close>

fun allowed :: "MOp \<Rightarrow> Manager \<Rightarrow> bool" where
  "allowed (OpReserve n) m \<longleftrightarrow> True"
| "allowed (OpCreate n l) m \<longleftrightarrow> n > 0"
| "allowed (OpMap t va) m \<longleftrightarrow>
     (\<exists>c. chunk_of t m = Some c \<and> \<not> mapped c \<and> aligned (m_gran m) va \<and> in_reservation (m_res m) va (mc_size c))"
| "allowed (OpUnmap t) m \<longleftrightarrow> (\<exists>c. chunk_of t m = Some c \<and> mapped c)"
| "allowed (OpRemap t l) m \<longleftrightarrow> (\<exists>c. chunk_of t m = Some c \<and> mapped c)"
| "allowed (OpRelease t) m \<longleftrightarrow> (\<exists>c. chunk_of t m = Some c \<and> \<not> mapped c)"
| "allowed (OpFree va) m \<longleftrightarrow>
     (\<exists>sz. map_of (m_res m) va = Some sz \<and>
        (\<forall>i c. map_of (m_chunks m) i = Some c \<longrightarrow> mapped c \<longrightarrow> apart (mc_va c) (mc_size c) va sz))"

text \<open>The place of a \<open>map\<close> does not run past the end of the address space.\<close>

fun no_wrap :: "MOp \<Rightarrow> Manager \<Rightarrow> bool" where
  "no_wrap (OpMap t va) m \<longleftrightarrow> (\<forall>c. chunk_of t m = Some c \<longrightarrow> unat va + unat (mc_size c) < 2 ^ 64)"
| "no_wrap _ m \<longleftrightarrow> True"

section \<open>The checks decide the rules\<close>

definition ruled_out :: "'x mres \<times> Manager \<Rightarrow> Manager \<Rightarrow> bool" where
  \<comment> \<open>rejected by a requirement, with nothing changed\<close>
  "ruled_out q m \<longleftrightarrow> (\<exists>what. q = (MErr (Requirement what), m))"

lemma ruled_out_erase [simp]: "ruled_out (erase q) m \<longleftrightarrow> ruled_out q m"
  by (cases q rule: erase.cases) (auto simp: ruled_out_def)

definition no_rule :: "'x mres \<times> Manager \<Rightarrow> bool" where
  \<comment> \<open>not rejected by a requirement: done, or a driver call failed\<close>
  "no_rule q \<longleftrightarrow> (\<forall>what. fst q \<noteq> MErr (Requirement what))"

lemma no_rule_erase [simp]: "no_rule (erase q) \<longleftrightarrow> no_rule q"
  by (cases q rule: erase.cases) (auto simp: no_rule_def)

lemma no_rule_bind: "no_rule p \<Longrightarrow> (\<And>x s. no_rule (f x s)) \<Longrightarrow> no_rule (mbind p f)"
  by (cases "(p, f)" rule: mbind.cases) (auto simp: no_rule_def)

lemma no_rule_done: "no_rule (MOk x, s)" by (simp add: no_rule_def)

lemma no_rule_cu: "no_rule (vmem_cu w r s)" by (simp add: no_rule_def vmem_cu_def)

lemma no_rule_calls:
  "no_rule (cu_map env va n h m)" "no_rule (cu_unmap env va n m)" "no_rule (cu_release env h m)"
  "no_rule (cu_addr_free env va n m)" "no_rule (grant env va n m)"
  unfolding cu_map_def cu_unmap_def cu_release_def cu_addr_free_def grant_def Let_def by (rule no_rule_cu)+

lemma no_rule_remap: "no_rule (remap_copy env c nh m)" "no_rule (remap_swap env c nh s m)"
  unfolding remap_copy_def remap_swap_def Let_def case_prod_beta
  by (intro no_rule_bind no_rule_calls no_rule_cu no_rule_done)+

lemmas no_rules = no_rule_bind no_rule_calls no_rule_cu no_rule_done no_rule_remap

text \<open>A check in front of a step.\<close>

lemma require_first:
  "mbind (vmem_require b w m) f = (if b then f () m else (MErr (Requirement (vfmt w)), m))"
  by (simp add: vmem_require_def)

lemma get_first:
  "\<exists>what. mbind (get_chunk t w m) f = (case chunk_of t m of Some c \<Rightarrow> f c m | None \<Rightarrow> (MErr (Requirement what), m))"
  by (auto simp: get_chunk_def require_first chunk_of_def split: option.splits)

text \<open>An operation whose rule is a check of its chunk.\<close>

lemma decided_by_chunk:
  assumes "q = mbind (get_chunk t w m) f" and "\<And>c. chunk_of t m = Some c \<Longrightarrow> P c \<Longrightarrow> no_rule (f c m)"
    and "\<And>c. chunk_of t m = Some c \<Longrightarrow> \<not> P c \<Longrightarrow> ruled_out (f c m) m"
  shows "if \<exists>c. chunk_of t m = Some c \<and> P c then no_rule q else ruled_out q m"
  using get_first [of t w m f] assms by (cases "chunk_of t m") (auto simp: ruled_out_def)

lemma inside_iff:
  assumes ok: "tables_ok m" and w: "unat va + unat n < 2 ^ 64" and n: "n \<noteq> 0"
  shows "inside_reservation va n m \<longleftrightarrow> in_reservation (m_res m) va n"
proof
  assume "in_reservation (m_res m) va n"
  then obtain base sz where b: "map_of (m_res m) base = Some sz" "unat base \<le> unat va" "unat va + unat n \<le> unat base + unat sz"
    by (auto simp: in_reservation_def)
  note T = tables_okD [OF ok]
  obtain e where "om_floor (m_res m) va = Some e"
    using floor_None_iff [OF T(2)] map_of_SomeD [OF b(1)] b(2) by (cases "om_floor (m_res m) va") (force simp: word_less_nat_alt)+
  then obtain a k where f: "om_floor (m_res m) va = Some (a, k)" by (cases e) auto
  note F = floor_Some [OF T(2) f]
  have n0: "0 < unat n" using n by (simp add: unat_gt_0)
  have "unat base \<le> unat a" using F(3) [of base] b by (auto simp: word_le_nat_alt)
  have "a = base"
  proof (rule ccontr)
    assume "a \<noteq> base"
    then have "apart a k base sz" using T(7) [OF F(1) b(1)] by simp
    moreover have "0 < unat k" using T(6) [OF F(1)] by (simp add: unat_gt_0)
    ultimately show False using \<open>unat base \<le> unat a\<close> F(2) b(3) n0 by (simp add: apart_def word_le_nat_alt)
  qed
  then have "k = sz" using F(1) b(1) by simp
  have "unat (base + sz) = unat base + unat sz" by (rule u64_add_no_wrap) (use T(6) [OF b(1)] in simp)
  then show "inside_reservation va n m"
    using f F(2) b(3) u64_add_le_iff [OF w] by (simp add: inside_reservation_def \<open>a = base\<close> \<open>k = sz\<close>)
qed (rule inside_in_reservation [OF ok _ w])

text \<open>The check of \<open>free\<close> looks at the start of each mapping only.\<close>

lemma starts_inside_iff:
  assumes ok: "tables_ok m" and r: "map_of (m_res m) va = Some sz"
  shows "(\<forall>e \<in> set (m_chunks m). \<not> (mapped (snd e) \<and> va \<le> mc_va (snd e) \<and> mc_va (snd e) < va + sz)) \<longleftrightarrow>
    (\<forall>i c. map_of (m_chunks m) i = Some c \<longrightarrow> mapped c \<longrightarrow> apart (mc_va c) (mc_size c) va sz)"
proof -
  note T = tables_okD [OF ok]
  have w: "unat (va + sz) = unat va + unat sz" by (rule u64_add_no_wrap) (use T(6) [OF r] in simp)
  have one: "\<not> (va \<le> mc_va c \<and> mc_va c < va + sz) \<longleftrightarrow> apart (mc_va c) (mc_size c) va sz"
    if c: "map_of (m_chunks m) i = Some c" "mapped c" for i c
  proof -
    obtain base k where b: "map_of (m_res m) base = Some k" "unat base \<le> unat (mc_va c)" "unat (mc_va c) + unat (mc_size c) \<le> unat base + unat k"
      using T(5) [OF c] by (auto simp: in_reservation_def)
    have n: "0 < unat (mc_size c)" using T(4) [OF c(1)] by (simp add: unat_gt_0)
    have "base = va \<and> k = sz \<or> apart base k va sz" using T(7) [OF b(1) r] b(1) r by (cases "base = va") auto
    then show ?thesis using b n w by (auto simp: apart_def word_le_nat_alt word_less_nat_alt)
  qed
  have "set (m_chunks m) = {(i, c). map_of (m_chunks m) i = Some c}"
    using map_of_eq_Some_iff [OF om_ok_distinct [OF T(1)]] by auto
  then show ?thesis using one by auto
qed

text \<open>
  C18. The checks of the operations decide the documented rules: in every state a Manager reaches, a
  call that the rules forbid is rejected with a requirement error before any driver call and changes
  nothing, and a call that they allow is never rejected by a requirement. For \<open>map\<close> the range must not
  run past the end of the address space (\<open>no_wrap\<close>): for one that ends at \<open>2 ^ 64\<close> the check of the code
  wraps and accepts it outside every reservation (\<open>map_check_wraps\<close>).
\<close>

theorem rules_decide:
  assumes doc: "v_documented env" and m: "managed env m" and w: "no_wrap op m"
  shows "if allowed op m then no_rule (run_op env op m) else ruled_out (run_op env op m) m"
proof -
  have ok: "tables_ok m" by (rule managed_tables [OF doc m])
  show ?thesis
  proof (cases op)
    case (OpReserve n)
    have "no_rule (m_reserve env n m)" unfolding m_reserve_def Let_def case_prod_beta by (intro no_rules)
    then show ?thesis by (simp add: OpReserve)
  next
    case (OpCreate n l)
    show ?thesis
      unfolding OpCreate run_op.simps allowed.simps no_rule_erase ruled_out_erase m_create_def require_first Let_def case_prod_beta
      by (auto simp: ruled_out_def intro!: no_rules)
  next
    case (OpMap t va)
    let ?P = "\<lambda>c. \<not> mapped c \<and> aligned (m_gran m) va \<and> in_reservation (m_res m) va (mc_size c)"
    have "inside_reservation va (mc_size c) m \<longleftrightarrow> in_reservation (m_res m) va (mc_size c)" if "chunk_of t m = Some c" for c
      by (rule inside_iff [OF ok]) (use that w OpMap tables_okD(4) [OF ok] in \<open>auto simp: chunk_of_def split: if_splits\<close>)
    then show ?thesis
      unfolding OpMap run_op.simps allowed.simps no_rule_erase ruled_out_erase
      by (intro decided_by_chunk [OF m_map_def, where P = ?P])
        (auto simp: require_first ruled_out_def intro!: no_rules)
  next
    case (OpUnmap t)
    show ?thesis
      unfolding OpUnmap run_op.simps allowed.simps no_rule_erase ruled_out_erase
      by (rule decided_by_chunk [OF m_unmap_def]) (auto simp: require_first ruled_out_def intro!: no_rules)
  next
    case (OpRemap t l)
    show ?thesis
      unfolding OpRemap run_op.simps allowed.simps no_rule_erase ruled_out_erase
      by (rule decided_by_chunk [OF m_remap_def])
        (auto simp: require_first ruled_out_def Let_def case_prod_beta intro!: no_rules)
  next
    case (OpRelease t)
    show ?thesis
      unfolding OpRelease run_op.simps allowed.simps no_rule_erase ruled_out_erase
      by (rule decided_by_chunk [OF m_release_def]) (auto simp: require_first ruled_out_def intro!: no_rules)
  next
    case (OpFree va)
    show ?thesis
    proof (cases "map_of (m_res m) va")
      case None
      then show ?thesis by (simp add: OpFree m_free_def ruled_out_def)
    next
      case (Some sz)
      let ?none = "none_mapped_in va sz (m_chunks m) m"
      have n: "fst ?none = MOk () \<longleftrightarrow> allowed op m"
        using none_mapped_done [of va sz "m_chunks m" m "()" "snd ?none"] starts_inside_iff [OF ok Some] Some
          none_mapped_same [of va sz "m_chunks m" m]
        by (cases ?none) (auto simp: OpFree)
      have e: "\<exists>what. fst q = MErr (Requirement what)" if "fst q \<noteq> MOk ()" "q = none_mapped_in va sz es m" for q es
        using that by (induction es arbitrary: q) (auto simp: Let_def require_first split: if_splits)
      have "?none = (fst ?none, m)" using none_mapped_same [of va sz "m_chunks m" m] by (cases ?none) simp
      then show ?thesis
        using n e [OF _ refl, of "m_chunks m"] unfolding OpFree run_op.simps no_rule_erase ruled_out_erase m_free_def Some option.case
        by (cases "fst ?none") (auto simp: ruled_out_def intro!: no_rules)
    qed
  qed
qed

text \<open>
  The range check of \<open>map\<close> wraps: at an address above a reservation, a chunk that ends exactly at
  the end of the address space passes the check, though no reservation holds it.
\<close>

theorem map_check_wraps:
  assumes doc: "v_documented env" and m: "managed env m" and r: "map_of (m_res m) base = Some sz" and va: "base \<le> va"
  shows "inside_reservation va (- va) m \<and> \<not> in_reservation (m_res m) va (- va)"
proof
  note T = tables_okD [OF managed_tables [OF doc m]]
  have "va > 0" using T(6) [OF r] va by (auto simp: word_gt_0)
  then have w: "unat va + unat (- va) = 2 ^ 64" using u64_neg by (simp add: less_imp_le [OF unat_lt_2p64])
  obtain e where "om_floor (m_res m) va = Some e"
    using floor_None_iff [OF T(2)] map_of_SomeD [OF r] va by (cases "om_floor (m_res m) va") force+
  then show "inside_reservation va (- va) m"
    using floor_Some(2) [OF T(2), of va] by (cases e) (simp add: inside_reservation_def)
  show "\<not> in_reservation (m_res m) va (- va)" using w T(6) by (fastforce simp: in_reservation_def)
qed

end
