(* ===== verification/Runner_Program.thy ===== *)
theory Runner_Program
  imports Manager_Rules
begin

text \<open>
  The runner's data model (\<open>primitives/src/runner/program.cuh\<close>) and its calls (\<open>calls.cuh\<close>): values,
  statements, the parsed program, and what each call does with a Manager.
\<close>

section \<open>Failing computations\<close>

text \<open>A value, an exception with its text, or undefined behaviour (an access outside a vector).\<close>

datatype 'x rres = Got 'x | Failed string | Undefined

fun rbind :: "'x rres \<times> 's \<Rightarrow> ('x \<Rightarrow> 's \<Rightarrow> 'y rres \<times> 's) \<Rightarrow> 'y rres \<times> 's" where
  "rbind (Got x, s) f = f x s"
| "rbind (Failed e, s) f = (Failed e, s)"
| "rbind (Undefined, s) f = (Undefined, s)"

section \<open>Values and programs\<close>

datatype VKind = KNone | KAddr | KChunk | KSize | KLoc | KBool

fun a_kind :: "VKind \<Rightarrow> string" where
  "a_kind KNone = ''nothing''"
| "a_kind KAddr = ''an address''"
| "a_kind KChunk = ''a chunk''"
| "a_kind KSize = ''a size''"
| "a_kind KLoc = ''a location''"
| "a_kind KBool = ''a bool''"

record RValue =
  rv_kind :: VKind
  rv_num :: u64
  rv_tok :: ChunkToken
  rv_text :: string

definition no_value :: RValue where
  "no_value = \<lparr>rv_kind = KNone, rv_num = 0, rv_tok = \<lparr>tk_owner = 0, tk_id = -1\<rparr>, rv_text = []\<rparr>"

definition show_mib :: "u64 \<Rightarrow> string" where
  "show_mib v = (if v mod 2 ^ 20 \<noteq> 0 then dec64 v @ '' B'' else dec64 (drop_bit 20 v) @ '' MiB'')"

definition show_value :: "RValue \<Rightarrow> string" where
  "show_value v =
     (if rv_text v \<noteq> [] then rv_text v
      else case rv_kind v of
          KAddr \<Rightarrow> hex64 (rv_num v)
        | KChunk \<Rightarrow> chunk_text (tk_id (rv_tok v))
        | KSize \<Rightarrow> show_mib (rv_num v)
        | KLoc \<Rightarrow> if rv_num v \<noteq> 0 then ''host'' else ''device''
        | KBool \<Rightarrow> if rv_num v \<noteq> 0 then ''true'' else ''false''
        | KNone \<Rightarrow> [])"

record Operand =
  od_var :: int
  od_lit :: u64

definition no_operand :: Operand where "no_operand = \<lparr>od_var = -1, od_lit = 0\<rparr>"

datatype RCall =
    CReserve | CCreate | CMap | CUnmap | CRemap | CRelease | CFree | CVa | CLoc | COnDevice | CGranularity | CPrintState
  | CFill | CCheck | CSleep | CInfo

record Stmt =
  st_line :: nat
  st_text :: string
  st_call :: RCall
  st_dst :: int
  st_a :: Operand
  st_b :: Operand
  st_loc :: Loc

record Program =
  pg_stmts :: "Stmt list"
  pg_vars :: "string list"
  pg_errors :: "string list"

section \<open>The table of calls\<close>

definition CALLS :: "(string \<times> RCall) list" where
  "CALLS = [(''reserve'', CReserve), (''create'', CCreate), (''map'', CMap), (''unmap'', CUnmap), (''remap'', CRemap),
     (''release'', CRelease), (''free'', CFree), (''va'', CVa), (''loc'', CLoc), (''on_device'', COnDevice),
     (''granularity'', CGranularity), (''print_state'', CPrintState), (''fill'', CFill), (''check'', CCheck),
     (''sleep'', CSleep), (''info'', CInfo)]"

text \<open>One letter per argument: S size, T time, L location, C chunk, A address.\<close>

fun call_args :: "RCall \<Rightarrow> string" where
  "call_args CReserve = ''S''"
| "call_args CCreate = ''SL''"
| "call_args CMap = ''CA''"
| "call_args CUnmap = ''C''"
| "call_args CRemap = ''CL''"
| "call_args CRelease = ''C''"
| "call_args CFree = ''A''"
| "call_args CVa = ''C''"
| "call_args CLoc = ''C''"
| "call_args COnDevice = ''C''"
| "call_args CGranularity = []"
| "call_args CPrintState = []"
| "call_args CFill = ''C''"
| "call_args CCheck = ''C''"
| "call_args CSleep = ''T''"
| "call_args CInfo = ''C''"

fun call_result :: "RCall \<Rightarrow> VKind" where
  "call_result CReserve = KAddr"
| "call_result CCreate = KChunk"
| "call_result CMap = KAddr"
| "call_result CUnmap = KAddr"
| "call_result CRemap = KAddr"
| "call_result CRelease = KSize"
| "call_result CFree = KSize"
| "call_result CVa = KAddr"
| "call_result CLoc = KLoc"
| "call_result COnDevice = KBool"
| "call_result CGranularity = KSize"
| "call_result _ = KNone"

section \<open>Interpreter state\<close>

text \<open>
  What the calls ask of the CUDA runtime: a kernel's error as its name (None is success) and the count
  of \<open>check\<close>, which may depend on all earlier calls and launches. \<open>re_cu_text\<close> is the text of a failed
  driver call, and \<open>re_map_right\<close> the order in which the compiler evaluates the arguments of \<open>map\<close>.
\<close>

datatype Launch = LFill u64 u64 u32 | LCheck u64 u64 u32

record REnv =
  re_drv :: VEnv
  re_cu_text :: "string \<Rightarrow> CUresult \<Rightarrow> string"
  re_fill :: "vhistory \<Rightarrow> Launch list \<Rightarrow> u64 \<Rightarrow> u64 \<Rightarrow> u32 \<Rightarrow> string option"
  re_check :: "vhistory \<Rightarrow> Launch list \<Rightarrow> u64 \<Rightarrow> u64 \<Rightarrow> u32 \<Rightarrow> string option \<times> u64"
  re_map_right :: bool

record Ctx =
  cx_m :: Manager
  cx_vals :: "RValue list"
  cx_launches :: "Launch list"
  cx_slept :: "int list"

fun what_text :: "REnv \<Rightarrow> MError \<Rightarrow> string" where
  "what_text env (Requirement s) = s"
| "what_text env (CuFailed w r) = re_cu_text env w r"

definition mgr :: "REnv \<Rightarrow> (Manager \<Rightarrow> 'x mres \<times> Manager) \<Rightarrow> Ctx \<Rightarrow> 'x rres \<times> Ctx" where
  "mgr env f c =
     (case f (cx_m c) of
        (MOk x, m) \<Rightarrow> (Got x, c\<lparr>cx_m := m\<rparr>)
      | (MErr e, m) \<Rightarrow> (Failed (what_text env e), c\<lparr>cx_m := m\<rparr>))"

definition cx_get :: "Program \<Rightarrow> int \<Rightarrow> VKind \<Rightarrow> Ctx \<Rightarrow> RValue rres \<times> Ctx" where
  "cx_get p v k c =
     (if v < 0 \<or> length (cx_vals c) \<le> nat v then (Undefined, c)
      else let x = cx_vals c ! nat v
           in if rv_kind x \<noteq> k
              then (Failed (cat [[CHR 0x27], pg_vars p ! nat v, [CHR 0x27], '' has no value (the line that set it failed)'']), c)
              else (Got x, c))"

definition cx_size :: "Program \<Rightarrow> Operand \<Rightarrow> Ctx \<Rightarrow> u64 rres \<times> Ctx" where
  "cx_size p x c =
     (if od_var x \<ge> 0 then rbind (cx_get p (od_var x) KSize c) (\<lambda>v c. (Got (rv_num v + od_lit x), c))
      else (Got (0 + od_lit x), c))"

definition cx_addr :: "Program \<Rightarrow> Operand \<Rightarrow> Ctx \<Rightarrow> u64 rres \<times> Ctx" where
  "cx_addr p x c = rbind (cx_get p (od_var x) KAddr c) (\<lambda>v c. (Got (rv_num v + od_lit x), c))"

definition cx_chunk :: "Program \<Rightarrow> Operand \<Rightarrow> Ctx \<Rightarrow> ChunkToken rres \<times> Ctx" where
  "cx_chunk p x c = rbind (cx_get p (od_var x) KChunk c) (\<lambda>v c. (Got (rv_tok v), c))"

section \<open>What the calls do\<close>

definition runtime_ok :: "string option \<Rightarrow> Ctx \<Rightarrow> unit rres \<times> Ctx" where
  "runtime_ok e c = (case e of None \<Rightarrow> (Got (), c) | Some n \<Rightarrow> (Failed (cat [''CUDA error: '', n]), c))"

definition pattern_call :: "REnv \<Rightarrow> Program \<Rightarrow> Stmt \<Rightarrow> bool \<Rightarrow> Ctx \<Rightarrow> RValue rres \<times> Ctx" where
  "pattern_call env p s fil c =
     rbind (cx_chunk p (st_a s) c) (\<lambda>t c.
     rbind (mgr env (m_info t) c) (\<lambda>i c.
     rbind (mgr env (m_va t) c) (\<lambda>va c.
       let n = ci_size i div 4;
           k = (word_of_int (ci_id i) :: u32) + 1;
           hs = m_calls (cx_m c); ls = cx_launches c
       in if fil
          then rbind (runtime_ok (re_fill env hs ls va n k) (c\<lparr>cx_launches := ls @ [LFill va n k]\<rparr>)) (\<lambda>_ c. (Got no_value, c))
          else let (e, bad) = re_check env hs ls va n k
               in rbind (runtime_ok e (c\<lparr>cx_launches := ls @ [LCheck va n k]\<rparr>)) (\<lambda>_ c.
                    if bad \<noteq> 0
                    then (Failed (cat [''check: '', dec64 bad, '' of '', dec64 n, '' words wrong in '', chunk_text (ci_id i)]), c)
                    else (Got (no_value\<lparr>rv_text := ''0 wrong''\<rparr>), c)))))"

definition num_value :: "u64 rres \<times> Ctx \<Rightarrow> RValue rres \<times> Ctx" where
  "num_value q = rbind q (\<lambda>n c. (Got (no_value\<lparr>rv_num := n\<rparr>), c))"

fun call_run :: "REnv \<Rightarrow> Program \<Rightarrow> RCall \<Rightarrow> Stmt \<Rightarrow> Ctx \<Rightarrow> RValue rres \<times> Ctx" where
  "call_run env p CReserve s c = num_value (rbind (cx_size p (st_a s) c) (\<lambda>n. mgr env (m_reserve (re_drv env) n)))"
| "call_run env p CCreate s c =
     rbind (rbind (cx_size p (st_a s) c) (\<lambda>n. mgr env (m_create (re_drv env) n (st_loc s))))
       (\<lambda>t c. (Got (no_value\<lparr>rv_tok := t\<rparr>), c))"
| "call_run env p CMap s c =
     num_value
       (if re_map_right env
        then rbind (cx_addr p (st_b s) c) (\<lambda>a c. rbind (cx_chunk p (st_a s) c) (\<lambda>t. mgr env (m_map (re_drv env) t a)))
        else rbind (cx_chunk p (st_a s) c) (\<lambda>t c. rbind (cx_addr p (st_b s) c) (\<lambda>a. mgr env (m_map (re_drv env) t a))))"
| "call_run env p CUnmap s c = num_value (rbind (cx_chunk p (st_a s) c) (\<lambda>t. mgr env (m_unmap (re_drv env) t)))"
| "call_run env p CRemap s c =
     num_value (rbind (cx_chunk p (st_a s) c) (\<lambda>t. mgr env (m_remap (re_drv env) t (st_loc s))))"
| "call_run env p CRelease s c = num_value (rbind (cx_chunk p (st_a s) c) (\<lambda>t. mgr env (m_release (re_drv env) t)))"
| "call_run env p CFree s c = num_value (rbind (cx_addr p (st_a s) c) (\<lambda>a. mgr env (m_free (re_drv env) a)))"
| "call_run env p CVa s c = num_value (rbind (cx_chunk p (st_a s) c) (\<lambda>t. mgr env (m_va t)))"
| "call_run env p CLoc s c =
     rbind (rbind (cx_chunk p (st_a s) c) (\<lambda>t. mgr env (m_on_device t)))
       (\<lambda>b c. (Got (no_value\<lparr>rv_num := if b then 0 else 1\<rparr>), c))"
| "call_run env p COnDevice s c =
     rbind (rbind (cx_chunk p (st_a s) c) (\<lambda>t. mgr env (m_on_device t)))
       (\<lambda>b c. (Got (no_value\<lparr>rv_num := if b then 1 else 0\<rparr>), c))"
| "call_run env p CGranularity s c = (Got (no_value\<lparr>rv_num := m_gran (cx_m c)\<rparr>), c)"
| "call_run env p CPrintState s c = (Got no_value, c\<lparr>cx_m := m_print_state (re_drv env) (cx_m c)\<rparr>)"
| "call_run env p CFill s c = pattern_call env p s True c"
| "call_run env p CCheck s c = pattern_call env p s False c"
| "call_run env p CSleep s c =
     \<comment> \<open>\<open>microseconds\<close> holds a signed 64-bit count\<close>
     (Got no_value, c\<lparr>cx_slept := cx_slept c @ [sint (od_lit (st_a s))]\<rparr>)"
| "call_run env p CInfo s c =
     rbind (rbind (cx_chunk p (st_a s) c) (\<lambda>t. mgr env (m_info t))) (\<lambda>i c.
       (Got (no_value\<lparr>rv_text := cat [chunk_text (ci_id i), '' '', show_mib (ci_size i), '' '', loc_name (ci_loc i),
          if ci_va i \<noteq> 0 then cat ['' at '', hex64 (ci_va i)] else '' unmapped'']\<rparr>), c))"

section \<open>Executing a statement\<close>

record Outcome =
  oc_ok :: bool
  oc_result :: string

text \<open>\<open>execute\<close>: the value takes the kind of the call; a failed line leaves its variable without one.\<close>

definition set_var :: "int \<Rightarrow> RValue \<Rightarrow> Outcome \<Rightarrow> Ctx \<Rightarrow> Outcome rres \<times> Ctx" where
  "set_var d v r c =
     (if d < 0 then (Got r, c)
      else if length (cx_vals c) \<le> nat d then (Undefined, c)
      else (Got r, c\<lparr>cx_vals := (cx_vals c)[nat d := v]\<rparr>))"

definition execute :: "REnv \<Rightarrow> Program \<Rightarrow> Stmt \<Rightarrow> Ctx \<Rightarrow> Outcome rres \<times> Ctx" where
  "execute env p s c =
     (case call_run env p (st_call s) s c of
        (Got v, c) \<Rightarrow>
          let v = v\<lparr>rv_kind := call_result (st_call s)\<rparr>;
              shown = show_value v
          in set_var (st_dst s) v \<lparr>oc_ok = True, oc_result = if shown = [] then [] else ''-> '' @ shown\<rparr> c
      | (Failed e, c) \<Rightarrow> set_var (st_dst s) no_value \<lparr>oc_ok = False, oc_result = e\<rparr> c
      | (Undefined, c) \<Rightarrow> (Undefined, c))"

end
