(* ===== verification/Runner_Parser.thy ===== *)
theory Runner_Parser
  imports Runner_Program
begin

text \<open>
  The runner's parser (\<open>primitives/src/runner/parser.cuh\<close>): one pass over a file that checks syntax, call
  names, argument shapes, names and kinds. The two regular expressions are matched by hand, group by
  group; \<open>arg_matches\<close> and \<open>call_matches\<close> below say what the expressions accept.
\<close>

section \<open>One argument\<close>

record Arg =
  ag_name :: string
  ag_unit :: string
  ag_plus :: bool
  ag_has_num :: bool
  ag_num :: u64

text \<open>
  \<open>^([A-Za-z_]\w*)?(\s*\+\s*)?(?:(\d+)([A-Za-z]*))?$\<close>: the name if matched, whether the plus is, digits
  and unit if matched.
\<close>

definition name_of :: "string \<Rightarrow> string option \<times> string" where
  "name_of s =
     (case s of
        c # _ \<Rightarrow> if is_start c then (Some (takeWhile is_word s), dropWhile is_word s) else (None, s)
      | [] \<Rightarrow> (None, s))"

definition plus_of :: "string \<Rightarrow> bool \<times> string" where
  "plus_of s =
     (case dropWhile is_space s of
        c # t \<Rightarrow> if c = CHR ''+'' then (True, dropWhile is_space t) else (False, s)
      | [] \<Rightarrow> (False, s))"

definition number_of :: "string \<Rightarrow> (string \<times> string) option option" where
  \<comment> \<open>None: no match\<close>
  "number_of s =
     (if s = [] then Some None
      else let d = takeWhile is_digit s; u = dropWhile is_digit s
           in if d \<noteq> [] \<and> list_all is_alpha u then Some (Some (d, u)) else None)"

definition match_arg :: "string \<Rightarrow> (string option \<times> bool \<times> (string \<times> string) option) option" where
  "match_arg s =
     (let (nm, s1) = name_of s; (pl, s2) = plus_of s1
      in map_option (\<lambda>num. (nm, pl, num)) (number_of s2))"

definition read_arg :: "string \<Rightarrow> string \<Rightarrow> Arg rres" where
  "read_arg wher a =
     (let bad = Failed (cat [wher, '': cannot read '', [CHR 0x27], a, [CHR 0x27]])
      in if a = [] then bad
         else case match_arg a of
             None \<Rightarrow> bad
           | Some (nm, pl, num) \<Rightarrow>
               if pl \<and> \<not> (nm \<noteq> None \<and> num \<noteq> None) then bad
               else (case num of
                       None \<Rightarrow> Got \<lparr>ag_name = case_option [] id nm, ag_unit = [], ag_plus = pl, ag_has_num = False, ag_num = 0\<rparr>
                     | Some (d, u) \<Rightarrow>
                         if length d > 15 then Failed ''number too large''
                         else Got \<lparr>ag_name = case_option [] id nm, ag_unit = u, ag_plus = pl, ag_has_num = True,
                                ag_num = of_nat (number d)\<rparr>))"

fun unit_names :: "(string \<times> u64) list \<Rightarrow> string \<Rightarrow> string" where
  "unit_names [] names = names"
| "unit_names (e # es) names =
     unit_names es (if fst e \<noteq> [] then (if names = [] then names else names @ '', '') @ fst e else names)"

definition scaled :: "Arg \<Rightarrow> (string \<times> u64) list \<Rightarrow> string \<Rightarrow> u64 rres" where
  "scaled r units wher =
     (case map_of units (ag_unit r) of
        None \<Rightarrow> Failed (cat [wher, '': unknown unit '', [CHR 0x27], ag_unit r, [CHR 0x27], '' (use '', unit_names units [], '')''])
      | Some u \<Rightarrow> if ag_num r > - 1 div u then Failed (cat [wher, '': too large'']) else Got (ag_num r * u))"

text \<open>The units, in the order of \<open>std::map\<close>.\<close>

definition sizes :: "(string \<times> u64) list" where
  "sizes = [('''', 1), (''G'', push_bit 30 1), (''K'', push_bit 10 1), (''M'', push_bit 20 1)]"

definition times :: "(string \<times> u64) list" where
  "times = [(''ms'', 1000), (''s'', 1000000), (''us'', 1)]"

section \<open>The parser's state\<close>

record Parser =
  pr_prog :: Program
  pr_kinds :: "string \<Rightarrow> VKind option"

definition pfail :: "string \<Rightarrow> Parser \<Rightarrow> 'x rres \<times> Parser" where "pfail e s = (Failed e, s)"

fun index_of :: "string \<Rightarrow> string list \<Rightarrow> nat option" where
  "index_of x [] = None"
| "index_of x (y # ys) = (if x = y then Some 0 else map_option Suc (index_of x ys))"

definition slot :: "string \<Rightarrow> Parser \<Rightarrow> int \<times> Parser" where
  "slot nm s =
     (let vars = pg_vars (pr_prog s)
      in case index_of nm vars of
           Some i \<Rightarrow> (int i, s)
         | None \<Rightarrow> (int (length (vars @ [nm])) - 1, s\<lparr>pr_prog := (pr_prog s)\<lparr>pg_vars := vars @ [nm]\<rparr>\<rparr>))"

definition use_var :: "string \<Rightarrow> VKind \<Rightarrow> string \<Rightarrow> Parser \<Rightarrow> int rres \<times> Parser" where
  "use_var nm want wher s =
     (case pr_kinds s nm of
        None \<Rightarrow> pfail (cat [[CHR 0x27], nm, [CHR 0x27], '' is not defined'']) s
      | Some k \<Rightarrow>
          if k \<noteq> want
          then pfail (cat [wher, '' must be '', a_kind want, '', '', [CHR 0x27], nm, [CHR 0x27], '' is '', a_kind k]) s
          else let (i, s) = slot nm s in (Got i, s))"

definition quoted :: "string \<Rightarrow> string" where "quoted s = [CHR 0x27] @ s @ [CHR 0x27]"

definition bare_name :: "Arg \<Rightarrow> bool" where "bare_name r \<longleftrightarrow> ag_name r \<noteq> [] \<and> \<not> ag_has_num r"

definition bare_num :: "Arg \<Rightarrow> bool" where "bare_num r \<longleftrightarrow> ag_name r = [] \<and> ag_has_num r"

text \<open>The operand and location after an argument; a letter outside the five leaves them as they are.\<close>

definition convert :: "string \<Rightarrow> char \<Rightarrow> bool \<Rightarrow> Arg \<Rightarrow> Operand \<times> Loc \<Rightarrow> Parser \<Rightarrow> (Operand \<times> Loc) rres \<times> Parser" where
  "convert wher shape offset_ok r ol s =
     (let (x, l) = ol
      in if shape = CHR ''L'' then
           (if \<not> bare_name r \<or> (ag_name r \<noteq> ''device'' \<and> ag_name r \<noteq> ''host'') then pfail (wher @ '' must be device or host'') s
            else (Got (x, if ag_name r = ''host'' then Host else Device), s))
         else if shape = CHR ''T'' then
           (if \<not> bare_num r then pfail (wher @ '' must be a time like 10ms'') s
            else rbind (scaled r times wher, s) (\<lambda>n s. (Got (x\<lparr>od_lit := n\<rparr>, l), s)))
         else if shape = CHR ''S'' then
           (if bare_num r then rbind (scaled r sizes wher, s) (\<lambda>n s. (Got (x\<lparr>od_lit := n\<rparr>, l), s))
            else if bare_name r then rbind (use_var (ag_name r) KSize wher s) (\<lambda>i s. (Got (x\<lparr>od_var := i\<rparr>, l), s))
            else pfail (wher @ '' must be a size like 64M or a size variable'') s)
         else if shape = CHR ''C'' then
           (if \<not> bare_name r then pfail (wher @ '' must be a chunk variable'') s
            else rbind (use_var (ag_name r) KChunk wher s) (\<lambda>i s. (Got (x\<lparr>od_var := i\<rparr>, l), s)))
         else if shape = CHR ''A'' then
           (if ag_name r = [] then pfail (wher @ '' must be an address variable'') s
            else if ag_plus r \<and> \<not> offset_ok then pfail (wher @ '' takes no offset'') s
            else rbind (use_var (ag_name r) KAddr wher s) (\<lambda>i s.
                   if ag_plus r then rbind (scaled r sizes wher, s) (\<lambda>n s. (Got (x\<lparr>od_var := i, od_lit := n\<rparr>, l), s))
                   else (Got (x\<lparr>od_var := i\<rparr>, l), s)))
         else (Got (x, l), s))"

section \<open>Statements\<close>

text \<open>\<open>^(?:([A-Za-z_]\w*)\s*=\s*)?([A-Za-z_]\w*)\s*\((.*)\)$\<close>; the dot matches no line end.\<close>

definition not_eol :: "char \<Rightarrow> bool" where "not_eol c \<longleftrightarrow> c \<noteq> char_of (10 :: nat) \<and> c \<noteq> char_of (13 :: nat)"

definition args_of :: "string \<Rightarrow> string option" where
  \<comment> \<open>\<open>\s*\((.*)\)$\<close>\<close>
  "args_of s =
     (case dropWhile is_space s of
        c # t \<Rightarrow> if c = CHR ''('' \<and> t \<noteq> [] \<and> last t = CHR '')'' \<and> list_all not_eol (butlast t) then Some (butlast t) else None
      | [] \<Rightarrow> None)"

definition match_call :: "string \<Rightarrow> (string \<times> string \<times> string) option" where
  \<comment> \<open>the name assigned (empty if none), the call and its arguments\<close>
  "match_call s =
     (case name_of s of
        (None, _) \<Rightarrow> None
      | (Some n1, s1) \<Rightarrow>
          (case dropWhile is_space s1 of
             [] \<Rightarrow> None
           | c # t \<Rightarrow>
               if c = CHR ''=''
               then (case name_of (dropWhile is_space t) of
                       (None, _) \<Rightarrow> None
                     | (Some n2, s2) \<Rightarrow> map_option (\<lambda>a. (n1, n2, a)) (args_of s2))
               else map_option (\<lambda>a. ([], n1, a)) (args_of s1)))"

fun split_on :: "char \<Rightarrow> string \<Rightarrow> string list" where
  "split_on c [] = [[]]"
| "split_on c (x # xs) =
     (if x = c then [] # split_on c xs
      else case split_on c xs of [] \<Rightarrow> [[x]] | y # ys \<Rightarrow> (x # y) # ys)"

definition arg_list :: "string \<Rightarrow> string list" where
  "arg_list s = (if s = [] then [] else map trim (split_on CHR '','' s))"

text \<open>The arguments from the \<open>i\<close>-th on: the first fills operand \<open>a\<close>, the others \<open>b\<close>.\<close>

fun read_args :: "string \<Rightarrow> nat \<Rightarrow> string \<Rightarrow> string list \<Rightarrow> Stmt \<Rightarrow> Parser \<Rightarrow> Stmt rres \<times> Parser" where
  "read_args nm i (sh # shape) (a # as) st s =
     (let wher = cat [nm, ''() argument '', dec (i + 1)]
      in rbind (read_arg wher a, s) (\<lambda>r s.
         rbind (convert wher sh (nm = ''map'') r (if i \<noteq> 0 then st_b st else st_a st, st_loc st) s) (\<lambda>ol s.
           read_args nm (i + 1) shape as
             ((if i \<noteq> 0 then st\<lparr>st_b := fst ol\<rparr> else st\<lparr>st_a := fst ol\<rparr>)\<lparr>st_loc := snd ol\<rparr>) s)))"
| "read_args nm i _ _ st s = (Got st, s)"

definition stmt :: "nat \<Rightarrow> string \<Rightarrow> Parser \<Rightarrow> unit rres \<times> Parser" where
  "stmt no txt s =
     (case match_call txt of
        None \<Rightarrow> pfail ''expected call(args) or name = call(args)'' s
      | Some (dst, nm, rest) \<Rightarrow>
          (case map_of CALLS nm of
             None \<Rightarrow> pfail (cat [''unknown call '', quoted nm]) s
           | Some c \<Rightarrow>
               let args = arg_list (trim rest); shape = call_args c
               in if length args \<noteq> length shape
                  then pfail (cat [nm, ''() takes '', dec (length shape), '' argument(s), got '', dec (length args)]) s
                  else rbind (read_args nm 0 shape args
                         \<lparr>st_line = no, st_text = txt, st_call = c, st_dst = -1, st_a = no_operand, st_b = no_operand, st_loc = Device\<rparr> s) (\<lambda>st s.
                    rbind
                      (if dst = [] then (Got st, s)
                       else if call_result c = KNone then pfail (cat [nm, ''() returns nothing to assign'']) s
                       else if dst = ''device'' \<or> dst = ''host'' \<or> map_of CALLS dst \<noteq> None
                         then pfail (cat [quoted dst, '' is a reserved word'']) s
                       else let (i, s) = slot dst s
                            in (Got (st\<lparr>st_dst := i\<rparr>), s\<lparr>pr_kinds := (pr_kinds s)(dst \<mapsto> call_result c)\<rparr>))
                      (\<lambda>st s. (Got (), s\<lparr>pr_prog := (pr_prog s)\<lparr>pg_stmts := pg_stmts (pr_prog s) @ [st]\<rparr>\<rparr>)))))"

definition parse_line :: "nat \<Rightarrow> string \<Rightarrow> Parser \<Rightarrow> Parser" where
  "parse_line no raw s =
     (let txt = trim (takeWhile (\<lambda>c. c \<noteq> CHR ''#'') raw)
      in if txt = [] then s
         else case stmt no txt s of
             (Failed e, s) \<Rightarrow>
               s\<lparr>pr_prog := (pr_prog s)\<lparr>pg_errors := pg_errors (pr_prog s) @
                 [cat [''line '', dec no, '': '', e, [char_of (10 :: nat)], ''    '', txt]]\<rparr>\<rparr>
           | (_, s) \<Rightarrow> s)"

text \<open>What \<open>std::getline\<close> reads from a file.\<close>

definition file_lines :: "string \<Rightarrow> string list" where
  "file_lines s =
     (let ls = split_on (char_of (10 :: nat)) s in if last ls = [] then butlast ls else ls)"

fun parse_lines :: "nat \<Rightarrow> string list \<Rightarrow> Parser \<Rightarrow> Parser" where
  "parse_lines no [] s = s"
| "parse_lines no (l # ls) s = parse_lines (no + 1) ls (parse_line (no + 1) l s)"

definition new_parser :: Parser where
  "new_parser = \<lparr>pr_prog = \<lparr>pg_stmts = [], pg_vars = [], pg_errors = []\<rparr>, pr_kinds = (\<lambda>_. None)\<rparr>"

definition parse :: "string \<Rightarrow> Program" where
  "parse s = pr_prog (parse_lines 0 (file_lines s) new_parser)"

end
