(* ===== verification/Runner_Log.thy ===== *)
theory Runner_Log
  imports Runner_Parser
begin

text \<open>
  The runner's log files (\<open>primitives/src/runner/log.cuh\<close>): rewriting for \<open>--stable\<close>, indented output,
  the block of a line and the header's key-value lines.
\<close>

section \<open>Stable rewriting\<close>

fun strip_prefix :: "string \<Rightarrow> string \<Rightarrow> string option" where
  "strip_prefix [] s = Some s"
| "strip_prefix (p # ps) [] = None"
| "strip_prefix (p # ps) (c # s) = (if p = c then strip_prefix ps s else None)"

lemma strip_prefix_iff [simp]: "strip_prefix p s = Some t \<longleftrightarrow> s = p @ t"
  by (induction p s rule: strip_prefix.induct) auto

text \<open>\<open>VRAM free [0-9]+\<close> is replaced by \<open>VRAM free -\<close>, from left to right.\<close>

function replace_vram :: "string \<Rightarrow> string" where
  "replace_vram s =
     (case strip_prefix ''VRAM free '' s of
        Some t \<Rightarrow>
          if takeWhile is_digit t \<noteq> [] then ''VRAM free -'' @ replace_vram (dropWhile is_digit t)
          else hd s # replace_vram (tl s)
      | None \<Rightarrow> (case s of [] \<Rightarrow> [] | c # cs \<Rightarrow> c # replace_vram cs))"
  by pat_completeness auto
termination by (relation "measure length") (auto intro: le_less_trans [OF length_dropWhile_le])

declare replace_vram.simps [simp del]

definition is_hex :: "char \<Rightarrow> bool" where
  "is_hex c \<longleftrightarrow> is_digit c \<or> 97 \<le> (of_char c :: nat) \<and> (of_char c :: nat) \<le> 102"

type_synonym ids = "(string \<times> nat) list"

definition id_of :: "string \<Rightarrow> ids \<Rightarrow> nat \<times> ids" where
  \<comment> \<open>\<open>ids_.emplace(a, ids_.size() + 1)\<close>\<close>
  "id_of a ids =
     (case map_of ids a of
        Some n \<Rightarrow> (n, ids)
      | None \<Rightarrow> (length ids + 1, ids @ [(a, length ids + 1)]))"

text \<open>\<open>0x[0-9a-f]{6,}\<close>: the hexadecimal digits of an address that starts here.\<close>

definition addr_at :: "string \<Rightarrow> (string \<times> string) option" where
  "addr_at s =
     (case strip_prefix ''0x'' s of
        Some t \<Rightarrow> if length (takeWhile is_hex t) \<ge> 6 then Some (''0x'' @ takeWhile is_hex t, dropWhile is_hex t) else None
      | None \<Rightarrow> None)"

lemma addr_at_shorter: "addr_at s = Some (a, t) \<Longrightarrow> length t < length s"
  by (auto simp: addr_at_def split: option.splits if_splits intro: le_less_trans [OF length_dropWhile_le])

function number_addrs :: "string \<Rightarrow> ids \<Rightarrow> string \<times> ids" where
  "number_addrs s ids =
     (case addr_at s of
        Some (a, t) \<Rightarrow>
          let (n, ids) = id_of a ids; (r, ids) = number_addrs t ids in (''va#'' @ dec n @ r, ids)
      | None \<Rightarrow>
          (case s of [] \<Rightarrow> ([], ids) | c # cs \<Rightarrow> let (r, ids) = number_addrs cs ids in (c # r, ids)))"
  by pat_completeness auto
termination by (relation "measure (length \<circ> fst)") (auto dest: addr_at_shorter)

declare number_addrs.simps [simp del]

definition stabilize :: "string \<Rightarrow> ids \<Rightarrow> string \<times> ids" where
  "stabilize s ids = number_addrs (replace_vram s) ids"

section \<open>Log files\<close>

record LogFile =
  lf_stable :: bool
  lf_ids :: ids
  lf_text :: string

definition new_log :: "bool \<Rightarrow> LogFile" where
  "new_log st = \<lparr>lf_stable = st, lf_ids = [], lf_text = []\<rparr>"

definition log_put :: "string \<Rightarrow> LogFile \<Rightarrow> string \<times> LogFile" where
  "log_put s f =
     (let (t, ids) = (if lf_stable f then stabilize s (lf_ids f) else (s, lf_ids f))
      in (t, f\<lparr>lf_ids := ids, lf_text := lf_text f @ t\<rparr>))"

section \<open>Blocks\<close>

definition newline :: string where "newline = [char_of (10 :: nat)]"

definition indent :: "string \<Rightarrow> string" where
  "indent s = concat (map (\<lambda>l. ''       | '' @ l @ newline) (file_lines s))"

text \<open>\<open>{:>n}\<close> and \<open>{:<n}\<close> on ASCII text.\<close>

definition pad_left :: "nat \<Rightarrow> string \<Rightarrow> string" where "pad_left n s = replicate (n - length s) CHR '' '' @ s"

definition pad_right :: "nat \<Rightarrow> string \<Rightarrow> string" where "pad_right n s = s @ replicate (n - length s) CHR '' ''"

definition erase_spaces :: "string \<Rightarrow> string" where
  "erase_spaces s = rev (dropWhile (\<lambda>c. c = CHR '' '') (rev s))"

definition block :: "string \<Rightarrow> string \<Rightarrow> string \<Rightarrow> string \<Rightarrow> string \<Rightarrow> string \<Rightarrow> string" where
  "block tag txt status time res out =
     erase_spaces (cat [''['', pad_left 4 tag, ''] '', pad_right 36 txt, '' '', pad_right 5 status, '' '', pad_left 13 time, ''  '', res])
       @ newline @ indent out"

definition keyvalues :: "(string \<times> string) list \<Rightarrow> string \<Rightarrow> string" where
  "keyvalues kv pre = concat (map (\<lambda>(k, v). cat [pre, pad_right 8 k, '' '', v, newline]) kv)"

end
