(* ===== verification/Runner_Run.thy ===== *)
theory Runner_Run
  imports Runner_Log
begin

text \<open>
  Running a file (\<open>primitives/src/runner/run.cuh\<close>) and the command line (\<open>main.cu\<close>): parse, open the
  logs, build the Manager, run every statement, report, and the exit code.
\<close>

section \<open>Options and surroundings\<close>

record ROptions =
  ro_verbose :: bool
  ro_debug :: bool
  ro_stable :: bool
  ro_pid :: bool
  ro_parse_only :: bool
  ro_logdir :: string
  ro_file :: string

definition default_roptions :: ROptions where
  "default_roptions = \<lparr>ro_verbose = False, ro_debug = False, ro_stable = False, ro_pid = False, ro_parse_only = False,
     ro_logdir = ''logs'', ro_file = []\<rparr>"

text \<open>
  What the operating system answers: the file's content if it opens, whether the logs open, the stem of
  a path, the process id, the clock as formatted text (per block), and \<open>cuCtxSynchronize\<close>.
\<close>

record World =
  wd_env :: REnv
  wd_file :: "string option"
  wd_log_good :: bool
  wd_dbg_good :: bool
  wd_stem :: "string \<Rightarrow> string"
  wd_pid :: nat
  wd_started :: string
  wd_elapsed :: "string \<Rightarrow> string"
  wd_total_ms :: string
  wd_sync :: "vhistory \<Rightarrow> Launch list \<Rightarrow> CUresult"
  wd_serial :: u32

text \<open>The two logs, what went to the terminal, and the counts.\<close>

record RunState =
  rs_log :: LogFile
  rs_dbg :: "LogFile option"
  rs_stdout :: string
  rs_stderr :: string
  rs_errors :: nat
  rs_skipped :: nat
  rs_dead :: bool

definition broken_context :: "World \<Rightarrow> Ctx \<Rightarrow> string" where
  "broken_context w c =
     (let r = wd_sync w (m_calls (cx_m c)) (cx_launches c)
      in if r = CUDA_SUCCESS then [] else ve_error_name (re_drv (wd_env w)) r)"

section \<open>Output\<close>

definition emit :: "ROptions \<Rightarrow> string \<Rightarrow> string \<Rightarrow> RunState \<Rightarrow> RunState" where
  "emit opt txt st s =
     (let (shown, log) = log_put txt (rs_log s)
      in s\<lparr>rs_log := log, rs_dbg := map_option (\<lambda>d. snd (log_put (txt @ indent st) d)) (rs_dbg s),
           rs_stdout := rs_stdout s @ (if ro_verbose opt then shown else [])\<rparr>)"

definition to_terminal :: "ROptions \<Rightarrow> string \<Rightarrow> RunState \<Rightarrow> RunState" where
  "to_terminal opt txt s = (if ro_verbose opt then s else s\<lparr>rs_stderr := rs_stderr s @ txt\<rparr>)"

definition flag_text :: "ROptions \<Rightarrow> string" where
  "flag_text opt =
     fold (\<lambda>(on, flag) opts. if on then opts @ (if opts = [] then flag else '' '' @ flag) else opts)
       [(ro_verbose opt, ''-v''), (ro_debug opt, ''-d''), (ro_stable opt, ''--stable''), (ro_pid opt, ''--pid'')] []"

definition run_header :: "World \<Rightarrow> ROptions \<Rightarrow> Program \<Rightarrow> string \<Rightarrow> (string \<times> string) list" where
  "run_header w opt p base =
     [(''runner'', ro_file opt)] @ (if \<not> ro_stable opt then [(''started'', wd_started w)] else []) @
     [(''options'', if flag_text opt = [] then ''none'' else flag_text opt),
      (''program'', cat [count_text (pg_stmts p), '' statement(s), '', count_text (pg_vars p), '' variable(s)'']),
      (''log'', base @ ''.log'')] @
     (if ro_debug opt then [(''debug'', base @ ''.debug.log'')] else [])"

definition time_text :: "ROptions \<Rightarrow> string \<Rightarrow> string" where
  "time_text opt t = (if ro_stable opt then ''-'' else t)"

text \<open>The lines the Manager printed since it had printed \<open>n\<close>.\<close>

definition printed :: "nat \<Rightarrow> Manager \<Rightarrow> string" where
  "printed n m = concat (map (\<lambda>l. l @ newline) (drop n (m_out m)))"

fun has_sub :: "string \<Rightarrow> string \<Rightarrow> bool" where
  "has_sub p [] \<longleftrightarrow> p = []"
| "has_sub p (c # s) \<longleftrightarrow> strip_prefix p (c # s) \<noteq> None \<or> has_sub p s"

section \<open>The statements\<close>

definition run_debug_state :: "World \<Rightarrow> RunState \<Rightarrow> Ctx \<Rightarrow> string \<times> Ctx" where
  "run_debug_state w s c =
     (if rs_dbg s = None then ([], c)
      else let m = m_print_state (re_drv (wd_env w)) (cx_m c)
           in (printed (length (m_out (cx_m c))) m, c\<lparr>cx_m := m\<rparr>))"

definition run_stmt :: "World \<Rightarrow> ROptions \<Rightarrow> Program \<Rightarrow> Stmt \<Rightarrow> Ctx \<times> RunState \<Rightarrow> unit rres \<times> Ctx \<times> RunState" where
  "run_stmt w opt p st cs =
     (let (c, s) = cs; tag = dec (st_line st)
      in if rs_dead s
         then (Got (), c, emit opt (block tag (st_text st) ''SKIP'' ''-'' [] []) [] (s\<lparr>rs_skipped := rs_skipped s + 1\<rparr>))
         else case execute (wd_env w) p st c of
             (Got r, c1) \<Rightarrow>
               let n = broken_context w c1;
                   broken = (\<not> oc_ok r \<and> n \<noteq> []);
                   res = (if broken then cat [oc_result r, ''; CUDA context is broken ('', n, ''), skipping the rest''] else oc_result r);
                   s1 = (if oc_ok r then s else s\<lparr>rs_errors := rs_errors s + 1, rs_dead := broken\<rparr>);
                   line_out = printed (length (m_out (cx_m c))) (cx_m c1);
                   (state, c2) = run_debug_state w s1 c1
               in (Got (), c2, emit opt (block tag (st_text st) (if oc_ok r then ''ok'' else ''ERROR'')
                     (time_text opt (wd_elapsed w tag)) res line_out) state s1)
           | (Failed e, c1) \<Rightarrow> (Failed e, c1, s)
           | (Undefined, c1) \<Rightarrow> (Undefined, c1, s))"

fun run_stmts :: "World \<Rightarrow> ROptions \<Rightarrow> Program \<Rightarrow> Stmt list \<Rightarrow> Ctx \<times> RunState \<Rightarrow> unit rres \<times> Ctx \<times> RunState" where
  "run_stmts w opt p [] cs = (Got (), cs)"
| "run_stmts w opt p (st # sts) cs = rbind (run_stmt w opt p st cs) (\<lambda>_ cs. run_stmts w opt p sts cs)"

definition summary :: "World \<Rightarrow> ROptions \<Rightarrow> Program \<Rightarrow> RunState \<Rightarrow> string" where
  "summary w opt p s =
     cat [if rs_errors s \<noteq> 0 then ''FAIL'' else ''PASS'', '': '', count_text (pg_stmts p), '' statement(s), '', dec (rs_errors s),
       '' error(s)'', if rs_skipped s \<noteq> 0 then cat ['', '', dec (rs_skipped s), '' skipped''] else [],
       if ro_stable opt then [] else cat ['', '', wd_total_ms w, '' ms in statements'']]"

section \<open>A run\<close>

text \<open>The exit code, and the state if the logs were opened.\<close>

definition start_logs :: "ROptions \<Rightarrow> RunState" where
  "start_logs opt =
     \<lparr>rs_log = new_log (ro_stable opt), rs_dbg = (if ro_debug opt then Some (new_log (ro_stable opt)) else None),
      rs_stdout = [], rs_stderr = [], rs_errors = 0, rs_skipped = 0, rs_dead = False\<rparr>"

definition log_base :: "World \<Rightarrow> ROptions \<Rightarrow> string" where
  "log_base w opt = ro_logdir opt @ ''/'' @ wd_stem w (ro_file opt) @ (if ro_pid opt then ''.'' @ dec (wd_pid w) else [])"

definition run_program :: "World \<Rightarrow> ROptions \<Rightarrow> Program \<Rightarrow> (int \<times> RunState) rres" where
  "run_program w opt p =
     (let head = run_header w opt p (log_base w opt);
          s = to_terminal opt (keyvalues head []) (emit opt (keyvalues head ''# '') [] (start_logs opt));
          (r, m) = new_manager (re_drv (wd_env w)) default_options (wd_serial w);
          err = (case r of MOk _ \<Rightarrow> [] | MErr e \<Rightarrow> what_text (wd_env w) e);
          ok = (case r of MOk _ \<Rightarrow> True | MErr e \<Rightarrow> False);
          s = emit opt (block ''init'' ''Manager()'' (if ok then ''ok'' else ''ERROR'') (time_text opt (wd_elapsed w ''init'')) err
                (printed 0 m)) [] s
      in if \<not> ok then Got (1, to_terminal opt (cat [''result   FAIL: Manager() failed: '', err, newline]) s)
         else case run_stmts w opt p (pg_stmts p)
                     (\<lparr>cx_m = m, cx_vals = replicate (length (pg_vars p)) no_value, cx_launches = [], cx_slept = []\<rparr>, s) of
             (Got _, c, s) \<Rightarrow>
               let m = drop_manager (re_drv (wd_env w)) (cx_m c);
                   out = printed (length (m_out (cx_m c))) m;
                   clean = (\<not> has_sub '' failed ('' out);
                   s = emit opt (block ''end'' ''~Manager()'' (if clean then ''ok'' else ''ERROR'') (time_text opt ''       0.0 us'') [] out) [] s;
                   sum = summary w opt p s;
                   s = to_terminal opt (keyvalues [(''result'', sum)] []) (emit opt (keyvalues [(''result'', sum)] ''# '') [] s)
               in Got (if rs_errors s \<noteq> 0 then 1 else 0, s)
           | (Failed e, _) \<Rightarrow> Failed e
           | (Undefined, _) \<Rightarrow> Undefined)"

text \<open>\<open>run\<close>: the exit code, the terminal's lines before the logs exist, and the state after.\<close>

definition run :: "World \<Rightarrow> ROptions \<Rightarrow> (int \<times> string \<times> RunState option) rres" where
  "run w opt =
     (case wd_file w of
        None \<Rightarrow> Got (2, cat [''runner: cannot open '', ro_file opt, newline], None)
      | Some content \<Rightarrow>
          let p = parse content;
              errs = concat (map (\<lambda>e. cat [ro_file opt, '': '', e, newline]) (pg_errors p))
          in if pg_errors p \<noteq> [] then Got (2, cat [errs, count_text (pg_errors p), '' error(s), nothing run'', newline], None)
             else if ro_parse_only opt then Got (0, cat [ro_file opt, '': '', count_text (pg_stmts p), '' statement(s), ok'', newline], None)
             else if \<not> wd_log_good w \<or> (ro_debug opt \<and> \<not> wd_dbg_good w)
               then Got (2, cat [''runner: cannot write '', log_base w opt, ''.log'', newline], None)
             else case run_program w opt p of
                 Got (r, s) \<Rightarrow> Got (r, [], Some s)
               | Failed e \<Rightarrow> Failed e
               | Undefined \<Rightarrow> Undefined)"

section \<open>The command line\<close>

fun read_options :: "string list \<Rightarrow> ROptions \<Rightarrow> ROptions option" where
  "read_options [] opt = Some opt"
| "read_options (a # as) opt =
     (if a = ''-v'' then read_options as (opt\<lparr>ro_verbose := True\<rparr>)
      else if a = ''-d'' then read_options as (opt\<lparr>ro_debug := True\<rparr>)
      else if a = ''--stable'' then read_options as (opt\<lparr>ro_stable := True\<rparr>)
      else if a = ''--pid'' then read_options as (opt\<lparr>ro_pid := True\<rparr>)
      else if a = ''--parse'' then read_options as (opt\<lparr>ro_parse_only := True\<rparr>)
      else if a = ''-o'' \<and> as \<noteq> [] then read_options (tl as) (opt\<lparr>ro_logdir := hd as\<rparr>)
      else if strip_prefix ''-'' a = None \<and> ro_file opt = [] then read_options as (opt\<lparr>ro_file := a\<rparr>)
      else None)"

definition usage :: "string \<Rightarrow> string" where
  "usage argv0 =
     cat [''usage: '', argv0, '' [-v] [-d] [--stable] [--pid] [--parse] [-o logdir] file.vm'', newline,
       ''  -v        also print the log to stdout'', newline,
       ''  -d        also write <logdir>/<name>.debug.log with the state after every line'', newline,
       ''  --stable  replace addresses and times so two runs can be diffed'', newline,
       ''  --pid     name logs <name>.<pid>.log, for many runners on one file'', newline,
       ''  --parse   only check the file'', newline,
       ''  -o dir    log folder (default logs)'', newline]"

text \<open>\<open>main\<close>: the exit code and what is printed before a run.\<close>

definition runner_main :: "World \<Rightarrow> string \<Rightarrow> string list \<Rightarrow> (int \<times> string \<times> RunState option) rres" where
  "runner_main w argv0 args =
     (case read_options args default_roptions of
        None \<Rightarrow> Got (2, usage argv0, None)
      | Some opt \<Rightarrow> if ro_file opt = [] then Got (2, usage argv0, None) else run w opt)"

end
