(* ===== verification/Runner_Sound.thy ===== *)
theory Runner_Sound
  imports Runner_Run
begin

text \<open>
  The parser's checks are a type system: what they promise (\<open>typed\<close>), that \<open>parse\<close> establishes it, and
  that a typed program never leaves the interpreter's vectors and finds a value of the right kind
  wherever the lines before it succeeded.
\<close>

section \<open>Typed programs\<close>

type_synonym slots = "nat \<Rightarrow> VKind option"

definition has_kind :: "slots \<Rightarrow> VKind \<Rightarrow> Operand \<Rightarrow> bool" where
  "has_kind G k x \<longleftrightarrow> 0 \<le> od_var x \<and> G (nat (od_var x)) = Some k"

definition size_or_literal :: "slots \<Rightarrow> Operand \<Rightarrow> bool" where
  "size_or_literal G x \<longleftrightarrow> od_var x = -1 \<or> has_kind G KSize x"

text \<open>What a call reads, by the letters of its arguments.\<close>

definition reads_ok :: "slots \<Rightarrow> char \<Rightarrow> Operand \<Rightarrow> bool" where
  "reads_ok G sh x \<longleftrightarrow>
     (if sh = CHR ''S'' then size_or_literal G x
      else if sh = CHR ''C'' then has_kind G KChunk x
      else if sh = CHR ''A'' then has_kind G KAddr x
      else True)"

definition typed_stmt :: "slots \<Rightarrow> Stmt \<Rightarrow> bool" where
  "typed_stmt G s \<longleftrightarrow>
     (let shape = call_args (st_call s)
      in (0 < length shape \<longrightarrow> reads_ok G (shape ! 0) (st_a s)) \<and> (1 < length shape \<longrightarrow> reads_ok G (shape ! 1) (st_b s)))"

definition assign :: "Stmt \<Rightarrow> slots \<Rightarrow> slots" where
  "assign s G = (if 0 \<le> st_dst s then G(nat (st_dst s) \<mapsto> call_result (st_call s)) else G)"

text \<open>Every statement reads what the statements before it assigned, and assigns one of the \<open>n\<close> slots.\<close>

fun typed :: "nat \<Rightarrow> slots \<Rightarrow> Stmt list \<Rightarrow> bool" where
  "typed n G [] \<longleftrightarrow> True"
| "typed n G (s # ss) \<longleftrightarrow> typed_stmt G s \<and> st_dst s < int n \<and> typed n (assign s G) ss"

lemma typed_append: "typed n G (ss @ ts) \<longleftrightarrow> typed n G ss \<and> typed n (fold assign ss G) ts"
  by (induction ss arbitrary: G) auto

lemma typed_mono: "typed n G ss \<Longrightarrow> n \<le> k \<Longrightarrow> typed k G ss"
  by (induction ss arbitrary: G) auto

section \<open>The parser types what it accepts\<close>

lemma rbind_got: "rbind p f = (Got y, s') \<longleftrightarrow> (\<exists>x s. p = (Got x, s) \<and> f x s = (Got y, s'))"
  by (cases "(p, f)" rule: rbind.cases) auto

lemma rbind_state:
  assumes "P (snd p)" and "\<And>x s. p = (Got x, s) \<Longrightarrow> P s \<Longrightarrow> P (snd (f x s))"
  shows "P (snd (rbind p f))"
  using assms by (cases "(p, f)" rule: rbind.cases) auto

lemma index_of_Some:
  "index_of x ys = Some i \<Longrightarrow> i < length ys \<and> ys ! i = x"
  by (induction ys arbitrary: i) (auto split: if_splits)

lemma index_of_append: "index_of x (ys @ zs) = (case index_of x ys of Some i \<Rightarrow> Some i | None \<Rightarrow> map_option ((+) (length ys)) (index_of x zs))"
  by (induction ys) (cases "index_of x zs"; auto split: option.splits)+

text \<open>The slot of a name, and the kinds the statements so far gave the slots.\<close>

definition slot_of :: "Parser \<Rightarrow> string \<Rightarrow> nat option" where "slot_of s nm = index_of nm (pg_vars (pr_prog s))"

definition slot_kinds :: "Parser \<Rightarrow> slots" where "slot_kinds s = fold assign (pg_stmts (pr_prog s)) Map.empty"

definition parser_ok :: "Parser \<Rightarrow> bool" where
  "parser_ok s \<longleftrightarrow> typed (length (pg_vars (pr_prog s))) Map.empty (pg_stmts (pr_prog s)) \<and>
     (\<forall>nm k. pr_kinds s nm = Some k \<longrightarrow> (\<exists>i. slot_of s nm = Some i \<and> slot_kinds s i = Some k))"

lemma use_var_ok:
  assumes ok: "parser_ok s"
  shows "snd (use_var nm k wher s) = s"
    and "use_var nm k wher s = (Got i, s') \<Longrightarrow> 0 \<le> i \<and> slot_kinds s (nat i) = Some k"
proof -
  have slot: "slot nm s = (int i, s)" if "slot_of s nm = Some i" for i
    using that by (simp add: slot_def slot_of_def)
  show "snd (use_var nm k wher s) = s"
    using ok slot unfolding parser_ok_def by (fastforce simp: use_var_def pfail_def Let_def split: option.splits)
  show "0 \<le> i \<and> slot_kinds s (nat i) = Some k" if u: "use_var nm k wher s = (Got i, s')"
  proof -
    have "pr_kinds s nm = Some k" using u by (auto simp: use_var_def pfail_def split: option.splits if_splits)
    then obtain j where "slot_of s nm = Some j" "slot_kinds s j = Some k" using ok unfolding parser_ok_def by blast
    then show ?thesis using u slot by (auto simp: use_var_def pfail_def split: option.splits if_splits)
  qed
qed

lemma convert_ok:
  assumes ok: "parser_ok s"
  shows "snd (convert wher sh b r ol s) = s"
    and "convert wher sh b r (no_operand, l) s = (Got ol', s') \<Longrightarrow> reads_ok (slot_kinds s) sh (fst ol')"
proof -
  note U = use_var_ok [OF ok]
  obtain x l0 where ol: "ol = (x, l0)" by (cases ol)
  have sc: "snd (rbind (q, s) f) = s" if "\<And>n s. snd (f n s) = s" for q :: "'a rres" and f :: "'a \<Rightarrow> Parser \<Rightarrow> 'b rres \<times> Parser"
    using that by (cases q) auto
  have uv: "snd (rbind (use_var nm k wher s) f) = s" if "\<And>n. snd (f n s) = s" for nm k and f :: "int \<Rightarrow> Parser \<Rightarrow> 'b rres \<times> Parser"
    using that U(1) [of nm k wher] by (cases "use_var nm k wher s"; cases "fst (use_var nm k wher s)") auto
  show "snd (convert wher sh b r ol s) = s"
    unfolding convert_def ol Let_def by (auto simp: pfail_def sc uv)
  show "reads_ok (slot_kinds s) sh (fst ol')" if c: "convert wher sh b r (no_operand, l) s = (Got ol', s')"
    using c U(2) unfolding convert_def Let_def
    by (auto simp: pfail_def rbind_got reads_ok_def size_or_literal_def has_kind_def no_operand_def split: if_splits)
qed

lemma read_args_state:
  assumes ok: "parser_ok s"
  shows "snd (read_args nm i shape as st s) = s"
proof (induction nm i shape as st s rule: read_args.induct [where P = "\<lambda>nm i shape as st s. parser_ok s \<longrightarrow> snd (read_args nm i shape as st s) = s", THEN mp])
  case (1 nm i sh shape a as st s)
  show ?case
  proof
    assume ok: "parser_ok s"
    show "snd (read_args nm i (sh # shape) (a # as) st s) = s"
      unfolding read_args.simps Let_def
      by (rule rbind_state [where P = "\<lambda>t. t = s"], simp, rule rbind_state [where P = "\<lambda>t. t = s"])
        (use 1 ok convert_ok(1) in \<open>auto simp: Let_def\<close>)
  qed
qed (use ok in auto)

lemma read_args_typed:
  assumes ok: "parser_ok s" and e: "read_args nm 0 (call_args c) as st s = (Got st', s')" and len: "length as = length (call_args c)"
    and st: "st_a st = no_operand" "st_b st = no_operand" "st_call st = c"
  shows "typed_stmt (slot_kinds s) st' \<and> st_call st' = c \<and> st_dst st' = st_dst st"
proof -
  note C = convert_ok [OF ok]
  have conv: "reads_ok (slot_kinds s) sh (fst ol) \<and> s1 = s" if "convert wher sh b r (no_operand, l) s = (Got ol, s1)" for wher sh b r l ol s1
    using C(2) [OF that] C(1) [of wher sh b r "(no_operand, l)"] that by simp
  consider "call_args c = []" | sh where "call_args c = [sh]" | sh1 sh2 where "call_args c = [sh1, sh2]"
    by (cases c) auto
  then show ?thesis
  proof cases
    case 1
    then show ?thesis using e st by (auto simp: typed_stmt_def)
  next
    case 2
    then obtain a where as: "as = [a]" using len by (cases as) auto
    obtain r ol where r: "read_arg (cat [nm, ''() argument '', dec 1]) a = Got r"
      and c1: "convert (cat [nm, ''() argument '', dec 1]) sh (nm = ''map'') r (no_operand, st_loc st) s = (Got ol, s')"
      and st': "st' = st\<lparr>st_a := fst ol\<rparr>\<lparr>st_loc := snd ol\<rparr>"
      using e unfolding 2 as by (auto simp: rbind_got st Let_def)
    show ?thesis using conv [OF c1] 2 st by (simp add: st' typed_stmt_def)
  next
    case 3
    then obtain a b where as: "as = [a, b]" using len by (cases as; cases "tl as") auto
    obtain r ol s1 q pl where
      c1: "convert (cat [nm, ''() argument '', dec 1]) sh1 (nm = ''map'') r (no_operand, st_loc st) s = (Got ol, s1)"
      and c2: "convert (cat [nm, ''() argument '', dec 2]) sh2 (nm = ''map'') q (no_operand, snd ol) s1 = (Got pl, s')"
      and st': "st' = st\<lparr>st_a := fst ol\<rparr>\<lparr>st_loc := snd ol\<rparr>\<lparr>st_b := fst pl\<rparr>\<lparr>st_loc := snd pl\<rparr>"
      using e unfolding 3 as by (auto simp: rbind_got st Let_def numeral_2_eq_2)
    have s1: "s1 = s" using conv [OF c1] by simp
    show ?thesis using conv [OF c1] conv [OF c2 [unfolded s1]] 3 st by (simp add: st' typed_stmt_def)
  qed
qed

text \<open>A statement that is accepted is added with its types; a rejected one leaves the parser as it was.\<close>

lemma typed_stmt_dst [simp]: "typed_stmt G (st\<lparr>st_dst := d\<rparr>) = typed_stmt G st"
  by (simp add: typed_stmt_def)

lemma slot_append:
  assumes "slot nm s = (i, s')"
  shows "0 \<le> i \<and> pg_stmts (pr_prog s') = pg_stmts (pr_prog s) \<and> pr_kinds s' = pr_kinds s \<and> pg_errors (pr_prog s') = pg_errors (pr_prog s) \<and>
    nat i < length (pg_vars (pr_prog s')) \<and> length (pg_vars (pr_prog s)) \<le> length (pg_vars (pr_prog s')) \<and>
    slot_of s' nm = Some (nat i) \<and> (\<forall>x j. slot_of s x = Some j \<longrightarrow> slot_of s' x = Some j) \<and>
    (\<forall>x. slot_of s' x = Some (nat i) \<longrightarrow> x = nm)"
proof (cases "index_of nm (pg_vars (pr_prog s))")
  case (Some j)
  then have i: "i = int j" "s' = s" using assms by (simp_all add: slot_def Let_def)
  have u: "x = nm" if "index_of x (pg_vars (pr_prog s)) = Some (nat i)" for x
    using index_of_Some [OF that] index_of_Some [OF Some] i(1) by (metis nat_int)
  show ?thesis
    using i(1) index_of_Some [OF Some, THEN conjunct1] Some unfolding i(2) slot_of_def
    by (intro conjI allI impI) (erule u | simp)+
next
  case None
  then have i: "i = int (length (pg_vars (pr_prog s)))" "s' = s\<lparr>pr_prog := (pr_prog s)\<lparr>pg_vars := pg_vars (pr_prog s) @ [nm]\<rparr>\<rparr>"
    using assms by (simp_all add: slot_def Let_def)
  have v: "pg_vars (pr_prog s') = pg_vars (pr_prog s) @ [nm]" by (simp add: i(2))
  have u: "x = nm" if "index_of x (pg_vars (pr_prog s) @ [nm]) = Some (nat i)" for x
    using index_of_Some [OF that] i(1) by (metis nat_int nth_append_length)
  show ?thesis
    using i(1) None unfolding v slot_of_def
    by (intro conjI allI impI) (erule u | simp add: i(2) | simp add: index_of_append)+
qed

lemma add_stmt_ok:
  assumes ok: "parser_ok s" and t: "typed_stmt (slot_kinds s) st" and d: "st_dst st = -1"
  shows "parser_ok (s\<lparr>pr_prog := (pr_prog s)\<lparr>pg_stmts := pg_stmts (pr_prog s) @ [st]\<rparr>\<rparr>)"
  using assms by (simp add: parser_ok_def typed_append slot_kinds_def slot_of_def assign_def)

lemma add_assignment_ok:
  assumes ok: "parser_ok s" and t: "typed_stmt (slot_kinds s) st" and i: "slot dst s = (i, s1)" and c: "st_call st = c"
  shows "parser_ok (s1\<lparr>pr_kinds := (pr_kinds s1)(dst \<mapsto> call_result c),
    pr_prog := (pr_prog s1)\<lparr>pg_stmts := pg_stmts (pr_prog s1) @ [st\<lparr>st_dst := i\<rparr>]\<rparr>\<rparr>)" (is "parser_ok ?s")
proof -
  note S = slot_append [OF i]
  have k: "slot_kinds ?s = (slot_kinds s)(nat i \<mapsto> call_result c)" using S by (simp add: slot_kinds_def assign_def c)
  have so: "slot_of ?s x = slot_of s1 x" for x by (simp add: slot_of_def)
  have "typed (length (pg_vars (pr_prog s1))) Map.empty (pg_stmts (pr_prog s))"
    using typed_mono ok S unfolding parser_ok_def by blast
  then have "typed (length (pg_vars (pr_prog ?s))) Map.empty (pg_stmts (pr_prog ?s))"
    using S t nat_less_iff [of i "length (pg_vars (pr_prog s1))"] by (simp add: typed_append slot_kinds_def)
  moreover have "\<exists>j. slot_of ?s nm = Some j \<and> slot_kinds ?s j = Some q" if "pr_kinds ?s nm = Some q" for nm q
  proof (cases "nm = dst")
    case True
    then have "call_result c = q" using that by simp
    then show ?thesis unfolding k so using S True by simp
  next
    case False
    then have "pr_kinds s nm = Some q" using that S by simp
    then obtain j where "slot_of s nm = Some j" "slot_kinds s j = Some q" using ok unfolding parser_ok_def by blast
    moreover then have "slot_of s1 nm = Some j" "j \<noteq> nat i" using S False by blast+
    ultimately show ?thesis unfolding k so by simp
  qed
  ultimately show ?thesis unfolding parser_ok_def by blast
qed

lemma stmt_ok:
  assumes ok: "parser_ok s"
  shows "parser_ok (snd (stmt no txt s))"
proof (cases "match_call txt")
  case None
  then show ?thesis using ok by (simp add: stmt_def pfail_def)
next
  case (Some m)
  obtain dst nm rest where m: "m = (dst, nm, rest)" by (cases m)
  show ?thesis
  proof (cases "map_of CALLS nm")
    case None
    then show ?thesis using ok by (simp add: stmt_def Some m pfail_def)
  next
    case c: (Some c)
    let ?args = "arg_list (trim rest)"
    let ?st = "\<lparr>st_line = no, st_text = txt, st_call = c, st_dst = -1, st_a = no_operand, st_b = no_operand, st_loc = Device\<rparr>"
    show ?thesis
    proof (cases "length ?args = length (call_args c)")
      case False
      then show ?thesis using ok by (simp add: stmt_def Some m c pfail_def Let_def)
    next
      case len: True
      have s: "snd (read_args nm 0 (call_args c) ?args ?st s) = s" by (rule read_args_state [OF ok])
      show ?thesis
      proof (cases "fst (read_args nm 0 (call_args c) ?args ?st s)")
        case (Got st)
        then have r: "read_args nm 0 (call_args c) ?args ?st s = (Got st, s)" using s by (metis prod.collapse)
        have t: "typed_stmt (slot_kinds s) st" "st_call st = c" "st_dst st = -1"
          using read_args_typed [OF ok r len] by auto
        obtain i s1 where sl: "slot dst s = (i, s1)" by fastforce
        show ?thesis
          using add_stmt_ok [OF ok t(1,3)] add_assignment_ok [OF ok t(1) sl t(2)] ok
          by (simp add: stmt_def Some m c len r Let_def pfail_def sl)
      qed (use ok s in \<open>cases "read_args nm 0 (call_args c) ?args ?st s"; simp add: stmt_def Some m c len Let_def\<close>)+
    qed
  qed
qed

lemma parse_line_ok: "parser_ok s \<Longrightarrow> parser_ok (parse_line no raw s)"
proof -
  assume ok: "parser_ok s"
  have e: "parser_ok (t\<lparr>pr_prog := (pr_prog t)\<lparr>pg_errors := es\<rparr>\<rparr>) = parser_ok t" for t es
    by (simp add: parser_ok_def slot_kinds_def slot_of_def)
  show "parser_ok (parse_line no raw s)"
    using stmt_ok [OF ok, of no] ok by (auto simp: parse_line_def Let_def e split: rres.splits prod.splits) (metis snd_conv)+
qed

lemma parse_lines_ok: "parser_ok s \<Longrightarrow> parser_ok (parse_lines no ls s)"
  by (induction no ls s rule: parse_lines.induct) (use parse_line_ok in auto)

lemma parse_typed: "typed (length (pg_vars (parse f))) Map.empty (pg_stmts (parse f))"
proof -
  have "parser_ok new_parser" by (simp add: parser_ok_def new_parser_def)
  from parse_lines_ok [OF this] show ?thesis by (simp add: parse_def parser_ok_def)
qed

end
