(* ===== verification/Runner_Props.thy ===== *)
theory Runner_Props
  imports Runner_Sound
begin

text \<open>
  What the runner does with a file: it is defined on every file, a variable has its value wherever the
  lines before succeeded, a failed line takes its variable's value, a broken context stops everything,
  and the exit code says which of these happened.
\<close>

section \<open>Calls of a typed statement\<close>

definition keeps :: "Ctx \<Rightarrow> 'x rres \<times> Ctx \<Rightarrow> bool" where
  \<comment> \<open>no undefined behaviour, and the variables are as they were\<close>
  "keeps c q \<longleftrightarrow> fst q \<noteq> Undefined \<and> cx_vals (snd q) = cx_vals c"

lemma keeps_bind: "keeps c p \<Longrightarrow> (\<And>x c'. cx_vals c' = cx_vals c \<Longrightarrow> keeps c (f x c')) \<Longrightarrow> keeps c (rbind p f)"
  by (cases "(p, f)" rule: rbind.cases) (auto simp: keeps_def)

lemma keeps_got: "cx_vals c' = cx_vals c \<Longrightarrow> keeps c (Got x, c')"
  by (simp add: keeps_def)

lemma keeps_failed: "cx_vals c' = cx_vals c \<Longrightarrow> keeps c (Failed e, c')"
  by (simp add: keeps_def)

lemma keeps_mgr: "cx_vals c' = cx_vals c \<Longrightarrow> keeps c (mgr env f c')"
  by (simp add: keeps_def mgr_def split: prod.splits mres.splits)

lemma keeps_runtime: "cx_vals c' = cx_vals c \<Longrightarrow> keeps c (runtime_ok e c')"
  by (simp add: keeps_def runtime_ok_def split: option.splits)

definition in_range :: "slots \<Rightarrow> Ctx \<Rightarrow> bool" where
  "in_range G c \<longleftrightarrow> (\<forall>i k. G i = Some k \<longrightarrow> i < length (cx_vals c))"

lemma keeps_get:
  "in_range G c \<Longrightarrow> has_kind G k' x \<Longrightarrow> cx_vals c' = cx_vals c \<Longrightarrow> keeps c (cx_get p (od_var x) k c')"
  by (auto simp: keeps_def cx_get_def has_kind_def in_range_def Let_def)

lemma keeps_operands:
  assumes "in_range G c" and "cx_vals c' = cx_vals c"
  shows "size_or_literal G x \<Longrightarrow> keeps c (cx_size p x c')" "has_kind G KAddr x \<Longrightarrow> keeps c (cx_addr p x c')"
    "has_kind G KChunk x \<Longrightarrow> keeps c (cx_chunk p x c')"
  unfolding cx_size_def cx_addr_def cx_chunk_def
  using assms by (auto simp: size_or_literal_def intro!: keeps_bind keeps_got keeps_get [of G])

lemma keeps_num: "keeps c q \<Longrightarrow> keeps c (num_value q)"
  unfolding num_value_def by (rule keeps_bind) (auto intro: keeps_got)

lemma keeps_pattern:
  assumes "in_range G c" and "has_kind G KChunk (st_a s)"
  shows "keeps c (pattern_call env p s b c)"
  unfolding pattern_call_def Let_def case_prod_beta
  using assms by (auto intro!: keeps_bind keeps_got keeps_failed keeps_mgr keeps_runtime keeps_operands(3) [of G])

lemma keeps_call:
  assumes g: "in_range G c" and t: "typed_stmt G s"
  shows "keeps c (call_run env p (st_call s) s c)"
proof -
  note K = keeps_operands [OF g] and R = keeps_bind keeps_got keeps_mgr keeps_num keeps_pattern [OF g]
  have r: "reads_ok G (CHR ''S'') x \<Longrightarrow> size_or_literal G x" "reads_ok G (CHR ''C'') x \<Longrightarrow> has_kind G KChunk x"
    "reads_ok G (CHR ''A'') x \<Longrightarrow> has_kind G KAddr x" for x
    by (simp_all add: reads_ok_def)
  show ?thesis
    using t by (cases "st_call s") (auto simp: typed_stmt_def dest!: r intro!: R K)
qed

section \<open>Executing a typed statement\<close>

lemma execute_step:
  assumes g: "in_range G c" and t: "typed_stmt G s" and d: "st_dst s < int (length (cx_vals c))"
  obtains r c' where "execute env p s c = (Got r, c')" and "length (cx_vals c') = length (cx_vals c)"
    and "\<And>i. int i \<noteq> st_dst s \<Longrightarrow> cx_vals c' ! i = cx_vals c ! i"
    and "0 \<le> st_dst s \<Longrightarrow> rv_kind (cx_vals c' ! nat (st_dst s)) = (if oc_ok r then call_result (st_call s) else KNone)"
    and "0 \<le> st_dst s \<Longrightarrow> \<not> oc_ok r \<Longrightarrow> cx_vals c' ! nat (st_dst s) = no_value"
proof -
  have k: "keeps c (call_run env p (st_call s) s c)" by (rule keeps_call [OF g t])
  obtain q c1 where q: "call_run env p (st_call s) s c = (q, c1)" by fastforce
  have v: "cx_vals c1 = cx_vals c" "q \<noteq> Undefined" using k by (simp_all add: keeps_def q)
  have n: "0 \<le> st_dst s \<Longrightarrow> nat (st_dst s) < length (cx_vals c)" using d by (simp add: nat_less_iff)
  have o: "int i \<noteq> st_dst s \<Longrightarrow> 0 \<le> st_dst s \<Longrightarrow> i \<noteq> nat (st_dst s)" for i by auto
  show thesis
  proof (cases q)
    case (Got x)
    then show thesis using v n o by (cases "st_dst s < 0") (auto simp: execute_def q set_var_def Let_def intro!: that)
  next
    case (Failed e)
    then show thesis using v n o by (cases "st_dst s < 0") (auto simp: execute_def q set_var_def no_value_def intro!: that)
  qed (use v in simp)
qed

text \<open>
  A statement of a program that parsed always returns. If it succeeds, its variable holds a value
  of the kind of the call; if it fails, its variable holds no value; every other variable keeps its
  value.
\<close>

theorem statement_sets_its_variable:
  assumes g: "in_range G c" and t: "typed_stmt G s" and d: "st_dst s < int (length (cx_vals c))"
  shows "\<exists>r c'. execute env p s c = (Got r, c') \<and> length (cx_vals c') = length (cx_vals c) \<and>
    (\<forall>i. int i \<noteq> st_dst s \<longrightarrow> cx_vals c' ! i = cx_vals c ! i) \<and>
    (0 \<le> st_dst s \<longrightarrow> (if oc_ok r then rv_kind (cx_vals c' ! nat (st_dst s)) = call_result (st_call s)
      else cx_vals c' ! nat (st_dst s) = no_value))"
  by (rule execute_step [OF g t d, of env p]) auto

section \<open>Running the statements\<close>

text \<open>Where the statements before succeeded, every slot they assigned holds a value of its kind.\<close>

definition full :: "slots \<Rightarrow> Ctx \<Rightarrow> bool" where
  "full G c \<longleftrightarrow> (\<forall>i k. G i = Some k \<longrightarrow> i < length (cx_vals c) \<and> rv_kind (cx_vals c ! i) = k)"

lemma emit_fields [simp]:
  "rs_errors (emit opt t st s) = rs_errors s" "rs_skipped (emit opt t st s) = rs_skipped s" "rs_dead (emit opt t st s) = rs_dead s"
  by (simp_all add: emit_def Let_def case_prod_beta)

lemma terminal_fields [simp]:
  "rs_errors (to_terminal opt t s) = rs_errors s" "rs_skipped (to_terminal opt t s) = rs_skipped s" "rs_dead (to_terminal opt t s) = rs_dead s"
  by (simp_all add: to_terminal_def)

lemma debug_vals [simp]: "cx_vals (snd (run_debug_state w s c)) = cx_vals c"
  by (simp add: run_debug_state_def Let_def)

definition counted :: "Stmt list \<Rightarrow> RunState \<Rightarrow> RunState \<Rightarrow> bool" where
  \<comment> \<open>errors and skips only grow, by at most the number of statements, and a dead run skips them all\<close>
  "counted sts s s' \<longleftrightarrow> rs_errors s \<le> rs_errors s' \<and> rs_skipped s \<le> rs_skipped s' \<and>
     rs_errors s' + rs_skipped s' \<le> rs_errors s + rs_skipped s + length sts \<and>
     (rs_errors s' = rs_errors s \<longrightarrow> rs_dead s' = rs_dead s) \<and>
     (rs_skipped s' \<noteq> rs_skipped s \<longrightarrow> rs_dead s') \<and>
     (rs_dead s \<longrightarrow> rs_dead s' \<and> rs_errors s' = rs_errors s \<and> rs_skipped s' = rs_skipped s + length sts)"

lemma run_stmt_step:
  assumes g: "in_range G c" and t: "typed_stmt G st" and d: "st_dst st < int (length (cx_vals c))"
  obtains c' s' where "run_stmt w opt p st (c, s) = (Got (), c', s')" and "length (cx_vals c') = length (cx_vals c)"
    and "rs_dead s \<Longrightarrow> c' = c \<and> rs_errors s' = rs_errors s \<and> rs_skipped s' = rs_skipped s + 1 \<and> rs_dead s'"
    and "\<not> rs_dead s \<Longrightarrow> rs_skipped s' = rs_skipped s \<and> rs_errors s \<le> rs_errors s' \<and> rs_errors s' \<le> rs_errors s + 1"
    and "\<not> rs_dead s \<Longrightarrow> rs_errors s' = rs_errors s \<Longrightarrow> \<not> rs_dead s' \<and> (full G c \<longrightarrow> full (assign st G) c')"
proof (cases "rs_dead s")
  case True
  then show thesis by (intro that) (auto simp: run_stmt_def Let_def)
next
  case False
  obtain r c1 where e: "execute (wd_env w) p st c = (Got r, c1)" "length (cx_vals c1) = length (cx_vals c)"
    "\<And>i. int i \<noteq> st_dst st \<Longrightarrow> cx_vals c1 ! i = cx_vals c ! i"
    "0 \<le> st_dst st \<Longrightarrow> rv_kind (cx_vals c1 ! nat (st_dst st)) = (if oc_ok r then call_result (st_call st) else KNone)"
    by (rule execute_step [OF g t d, of "wd_env w" p]) blast
  have f: "full (assign st G) c2" if "oc_ok r" "full G c" "cx_vals c2 = cx_vals c1" for c2
    using e(2-4) d that unfolding full_def assign_def by (auto simp: nat_less_iff)
  show thesis
  proof (cases "oc_ok r")
    case True
    obtain st' c2 where ds: "run_debug_state w s c1 = (st', c2)" by fastforce
    then have v: "cx_vals c2 = cx_vals c1" using debug_vals [of w s c1] by simp
    have "\<exists>s'. run_stmt w opt p st (c, s) = (Got (), c2, s') \<and> rs_errors s' = rs_errors s \<and> rs_skipped s' = rs_skipped s \<and> rs_dead s' = rs_dead s"
      using False True e(1) ds by (simp add: run_stmt_def Let_def)
    then obtain s' where "run_stmt w opt p st (c, s) = (Got (), c2, s')" "rs_errors s' = rs_errors s" "rs_skipped s' = rs_skipped s"
      "rs_dead s' = rs_dead s" by blast
    then show thesis using False e(2) f [OF True _ v] v by (intro that [of c2 s']) auto
  next
    case no: False
    let ?s = "s\<lparr>rs_errors := rs_errors s + 1, rs_dead := broken_context w c1 \<noteq> []\<rparr>"
    obtain st' c2 where ds: "run_debug_state w ?s c1 = (st', c2)" by fastforce
    then have v: "cx_vals c2 = cx_vals c1" using debug_vals [of w ?s c1] by simp
    have "\<exists>s'. run_stmt w opt p st (c, s) = (Got (), c2, s') \<and> rs_errors s' = rs_errors s + 1 \<and> rs_skipped s' = rs_skipped s"
      using False no e(1) ds by (simp add: run_stmt_def Let_def)
    then obtain s' where "run_stmt w opt p st (c, s) = (Got (), c2, s')" "rs_errors s' = rs_errors s + 1" "rs_skipped s' = rs_skipped s"
      by blast
    then show thesis using False e(2) v by (intro that [of c2 s']) auto
  qed
qed

lemma in_range_assign:
  "in_range G c \<Longrightarrow> st_dst st < int (length (cx_vals c)) \<Longrightarrow> length (cx_vals c') = length (cx_vals c) \<Longrightarrow> in_range (assign st G) c'"
  by (auto simp: in_range_def assign_def nat_less_iff)

lemma run_stmts_step:
  assumes "typed (length (cx_vals c)) G sts" and "in_range G c"
  shows "\<exists>c' s'. run_stmts w opt p sts (c, s) = (Got (), c', s') \<and> length (cx_vals c') = length (cx_vals c) \<and> counted sts s s' \<and>
    in_range (fold assign sts G) c' \<and>
    (\<not> rs_dead s \<longrightarrow> full G c \<longrightarrow> rs_errors s' = rs_errors s \<longrightarrow> full (fold assign sts G) c')"
  using assms
proof (induction sts arbitrary: G c s)
  case Nil
  then show ?case by (simp add: counted_def)
next
  case (Cons st sts)
  then have t: "typed_stmt G st" "st_dst st < int (length (cx_vals c))" by auto
  obtain c1 s1 where r: "run_stmt w opt p st (c, s) = (Got (), c1, s1)" "length (cx_vals c1) = length (cx_vals c)"
    "rs_dead s \<Longrightarrow> c1 = c \<and> rs_errors s1 = rs_errors s \<and> rs_skipped s1 = rs_skipped s + 1 \<and> rs_dead s1"
    "\<not> rs_dead s \<Longrightarrow> rs_skipped s1 = rs_skipped s \<and> rs_errors s \<le> rs_errors s1 \<and> rs_errors s1 \<le> rs_errors s + 1"
    "\<not> rs_dead s \<Longrightarrow> rs_errors s1 = rs_errors s \<Longrightarrow> \<not> rs_dead s1 \<and> (full G c \<longrightarrow> full (assign st G) c1)"
    by (rule run_stmt_step [OF Cons.prems(2) t, of w opt p s]) blast
  have "typed (length (cx_vals c1)) (assign st G) sts" using Cons.prems(1) r(2) by simp
  moreover have "in_range (assign st G) c1" by (rule in_range_assign [OF Cons.prems(2) t(2) r(2)])
  ultimately obtain c2 s2 where i: "run_stmts w opt p sts (c1, s1) = (Got (), c2, s2)" "length (cx_vals c2) = length (cx_vals c1)"
    "counted sts s1 s2" "in_range (fold assign sts (assign st G)) c2"
    "\<not> rs_dead s1 \<longrightarrow> full (assign st G) c1 \<longrightarrow> rs_errors s2 = rs_errors s1 \<longrightarrow> full (fold assign sts (assign st G)) c2"
    using Cons.IH by blast
  have "counted (st # sts) s s2" using i(3) r(3-5) unfolding counted_def by (cases "rs_dead s") auto
  moreover have "full (fold assign sts (assign st G)) c2" if "\<not> rs_dead s" "full G c" "rs_errors s2 = rs_errors s"
  proof -
    have "rs_errors s \<le> rs_errors s1" "rs_errors s1 \<le> rs_errors s2" using r(4) [OF that(1)] i(3) by (simp_all add: counted_def)
    then have e: "rs_errors s1 = rs_errors s" "rs_errors s2 = rs_errors s1" using that(3) by simp_all
    show ?thesis using r(5) [OF that(1) e(1)] i(5) e(2) that(2) by blast
  qed
  moreover have "run_stmts w opt p (st # sts) (c, s) = (Got (), c2, s2)" using r(1) i(1) by simp
  ultimately show ?case using r(2) i(2,4) by (intro exI [of _ c2] exI [of _ s2]) simp
qed

section \<open>Whole files\<close>

definition start_ctx :: "Manager \<Rightarrow> Program \<Rightarrow> Ctx" where
  "start_ctx m p = \<lparr>cx_m = m, cx_vals = replicate (length (pg_vars p)) no_value, cx_launches = [], cx_slept = []\<rparr>"

lemma start_typed:
  "typed (length (cx_vals (start_ctx m (parse f)))) Map.empty (pg_stmts (parse f))" "in_range Map.empty c" "full Map.empty c"
  using parse_typed [of f] by (simp_all add: start_ctx_def in_range_def full_def)

text \<open>What a statement reads is there, of the kind its call expects.\<close>

definition finds :: "Program \<Rightarrow> char \<Rightarrow> Operand \<Rightarrow> Ctx \<Rightarrow> bool" where
  "finds p sh x c \<longleftrightarrow>
     (sh = CHR ''S'' \<longrightarrow> (\<exists>n. cx_size p x c = (Got n, c))) \<and>
     (sh = CHR ''C'' \<longrightarrow> (\<exists>t. cx_chunk p x c = (Got t, c))) \<and>
     (sh = CHR ''A'' \<longrightarrow> (\<exists>a. cx_addr p x c = (Got a, c)))"

lemma full_finds:
  assumes "full G c" and "reads_ok G sh x"
  shows "finds p sh x c"
proof -
  have h: "\<exists>v. cx_get p (od_var x) k c = (Got v, c)" if "has_kind G k x" for k
  proof -
    have "nat (od_var x) < length (cx_vals c)" "rv_kind (cx_vals c ! nat (od_var x)) = k" "0 \<le> od_var x"
      using that assms(1) by (auto simp: full_def has_kind_def)
    then show ?thesis by (simp add: cx_get_def Let_def)
  qed
  show ?thesis
    using assms(2) h by (fastforce simp: finds_def reads_ok_def size_or_literal_def cx_size_def cx_chunk_def cx_addr_def)
qed

text \<open>
  C21. In a file that parsed, a line finds every value it reads, of the kind its call expects, as long as
  the lines before it succeeded: the only way to meet a variable without a value is a line that failed.
\<close>

theorem values_are_there:
  assumes p: "pg_stmts (parse f) = xs @ st # ys"
    and r: "run_stmts w opt (parse f) xs (start_ctx m (parse f), s) = (Got (), c', s')"
    and no: "rs_errors s' = rs_errors s" "\<not> rs_dead s"
  shows "let shape = call_args (st_call st) in
    (0 < length shape \<longrightarrow> finds (parse f) (shape ! 0) (st_a st) c') \<and> (1 < length shape \<longrightarrow> finds (parse f) (shape ! 1) (st_b st) c')"
proof -
  have t: "typed (length (cx_vals (start_ctx m (parse f)))) Map.empty xs" "typed_stmt (fold assign xs Map.empty) st"
    using start_typed(1) [of m f] unfolding p typed_append by auto
  have "full (fold assign xs Map.empty) c'"
    using run_stmts_step [OF t(1) start_typed(2), of w opt "parse f" s] r no start_typed(3) by auto
  then show ?thesis using t(2) full_finds unfolding typed_stmt_def Let_def by blast
qed

text \<open>The run of a program that parsed.\<close>

lemma run_program_result:
  obtains r s where "run_program w opt (parse f) = Got (r, s)"
    and "r = (if \<exists>m. new_manager (re_drv (wd_env w)) default_options (wd_serial w) = (MOk (), m) \<and> rs_errors s = 0 then 0 else 1)"
    and "rs_errors s + rs_skipped s \<le> length (pg_stmts (parse f))" and "rs_skipped s \<noteq> 0 \<longrightarrow> rs_errors s \<noteq> 0"
proof -
  obtain r m where n: "new_manager (re_drv (wd_env w)) default_options (wd_serial w) = (r, m)" by fastforce
  have z: "rs_errors (start_logs opt) = 0" "rs_skipped (start_logs opt) = 0" "\<not> rs_dead (start_logs opt)"
    by (simp_all add: start_logs_def)
  show thesis
  proof (cases r)
    case (MErr e)
    then show thesis using n z by (intro that) (auto simp: run_program_def Let_def)
  next
    case (MOk u)
    let ?p = "parse f" and ?head = "run_header w opt (parse f) (log_base w opt)"
    let ?s0 = "emit opt (block ''init'' ''Manager()'' ''ok'' (time_text opt (wd_elapsed w ''init'')) [] (printed 0 m)) []
      (to_terminal opt (keyvalues ?head []) (emit opt (keyvalues ?head ''# '') [] (start_logs opt)))"
    obtain c' s' where rs: "run_stmts w opt ?p (pg_stmts ?p) (start_ctx m ?p, ?s0) = (Got (), c', s')" "counted (pg_stmts ?p) ?s0 s'"
      using run_stmts_step [OF start_typed(1) [of m f] start_typed(2), of w opt ?p ?s0] by blast
    have run: "\<exists>s. run_program w opt ?p = Got (if rs_errors s' \<noteq> 0 then 1 else 0, s) \<and> rs_errors s = rs_errors s' \<and> rs_skipped s = rs_skipped s'"
      using rs(1) n MOk by (simp add: run_program_def Let_def start_ctx_def)
    then obtain s where "run_program w opt ?p = Got (if rs_errors s' \<noteq> 0 then 1 else 0, s)" "rs_errors s = rs_errors s'" "rs_skipped s = rs_skipped s'"
      by blast
    moreover have "rs_skipped s' \<noteq> 0 \<longrightarrow> rs_errors s' \<noteq> 0" "rs_errors s' + rs_skipped s' \<le> length (pg_stmts ?p)"
      using rs(2) z by (auto simp: counted_def)
    ultimately show thesis using n MOk by (intro that [of _ s]) auto
  qed
qed

text \<open>
  C22. The runner is defined on every file, every command line and every answer of the driver: it never
  reads or writes outside its vectors and no exception escapes. Its exit code is 2 exactly when nothing
  was run because the file, its text or the logs are bad, 1 when the Manager could not be built or a
  line failed, and 0 when all lines succeeded or the file was only checked; lines are skipped only
  after a failed one.
\<close>

theorem runner_exit_code:
  "\<exists>r msg st. run w opt = Got (r, msg, st) \<and>
     (let p = parse (the (wd_file w));
          bad = (wd_file w = None \<or> pg_errors p \<noteq> [] \<or>
            \<not> ro_parse_only opt \<and> (\<not> wd_log_good w \<or> ro_debug opt \<and> \<not> wd_dbg_good w))
      in (r = 2 \<longleftrightarrow> bad) \<and> (st = None \<longleftrightarrow> bad \<or> ro_parse_only opt) \<and>
         (case st of
            None \<Rightarrow> r \<in> {0, 2}
          | Some s \<Rightarrow>
              r = (if (\<exists>m. new_manager (re_drv (wd_env w)) default_options (wd_serial w) = (MOk (), m)) \<and> rs_errors s = 0 then 0 else 1) \<and>
              rs_errors s + rs_skipped s \<le> length (pg_stmts p) \<and> (rs_skipped s \<noteq> 0 \<longrightarrow> rs_errors s \<noteq> 0)))"
proof (cases "wd_file w")
  case None
  then show ?thesis by (simp add: run_def)
next
  case (Some f)
  show ?thesis
  proof (cases "pg_errors (parse f) \<noteq> [] \<or> ro_parse_only opt \<or> \<not> wd_log_good w \<or> ro_debug opt \<and> \<not> wd_dbg_good w")
    case True
    then show ?thesis using Some by (auto simp: run_def Let_def)
  next
    case False
    obtain r s where q: "run_program w opt (parse f) = Got (r, s)"
      "r = (if \<exists>m. new_manager (re_drv (wd_env w)) default_options (wd_serial w) = (MOk (), m) \<and> rs_errors s = 0 then 0 else 1)"
      "rs_errors s + rs_skipped s \<le> length (pg_stmts (parse f))" "rs_skipped s \<noteq> 0 \<longrightarrow> rs_errors s \<noteq> 0"
      by (rule run_program_result)
    have "run w opt = Got (r, [], Some s)" using Some False q(1) by (simp add: run_def Let_def)
    then show ?thesis using Some False q(2-4) by (intro exI [of _ r] exI [of _ "[]"] exI [of _ "Some s"]) (simp add: Let_def)
  qed
qed

text \<open>
  Once a failed line has found the context broken, every later line is skipped: each gets its block,
  the Manager and the variables are not touched, and nothing more is counted as an error.
\<close>

theorem broken_context_skips_the_rest:
  assumes "rs_dead s"
  shows "\<exists>s'. run_stmts w opt p sts (c, s) = (Got (), c, s') \<and> rs_errors s' = rs_errors s \<and>
    rs_skipped s' = rs_skipped s + length sts \<and> rs_dead s' \<and>
    (\<not> ro_stable opt \<longrightarrow> \<not> lf_stable (rs_log s) \<longrightarrow>
      lf_text (rs_log s') = lf_text (rs_log s) @ concat (map (\<lambda>st. block (dec (st_line st)) (st_text st) ''SKIP'' ''-'' [] []) sts))"
  using assms
proof (induction sts arbitrary: s)
  case Nil
  then show ?case by simp
next
  case (Cons st sts)
  let ?b = "block (dec (st_line st)) (st_text st) ''SKIP'' ''-'' [] []"
  let ?s = "emit opt ?b [] (s\<lparr>rs_skipped := rs_skipped s + 1\<rparr>)"
  have "run_stmt w opt p st (c, s) = (Got (), c, ?s)" using Cons.prems by (simp add: run_stmt_def Let_def)
  moreover have "rs_dead ?s" using Cons.prems by simp
  moreover have "\<not> lf_stable (rs_log s) \<Longrightarrow> \<not> lf_stable (rs_log ?s) \<and> lf_text (rs_log ?s) = lf_text (rs_log s) @ ?b"
    by (simp add: emit_def log_put_def)
  ultimately show ?case using Cons.IH [of ?s] by auto
qed

end
