(* ===== verification/Runner_Text.thy ===== *)
theory Runner_Text
  imports Runner_Props
begin

text \<open>
  What the runner reads and writes as text: the two regular expressions of the parser as decompositions
  of the text, numbers with units, and the addresses of a stable log.
\<close>

section \<open>Identifiers, spaces, numbers\<close>

definition ident :: "string \<Rightarrow> bool" where "ident s \<longleftrightarrow> s \<noteq> [] \<and> is_start (hd s) \<and> list_all is_word s"

definition numeral_text :: "string \<Rightarrow> string \<Rightarrow> bool" where
  "numeral_text d u \<longleftrightarrow> d \<noteq> [] \<and> list_all is_digit d \<and> list_all is_alpha u"

lemma name_of_iff:
  "name_of s = (Some nm, t) \<longleftrightarrow> ident nm \<and> s = nm @ t \<and> (t = [] \<or> \<not> is_word (hd t))"
proof
  assume l: "name_of s = (Some nm, t)"
  then have "s \<noteq> []" "is_start (hd s)" "nm = takeWhile is_word s" "t = dropWhile is_word s"
    by (auto simp: name_of_def split: list.splits if_splits)
  then show "ident nm \<and> s = nm @ t \<and> (t = [] \<or> \<not> is_word (hd t))"
    using char_classes(6) hd_dropWhile [of is_word s] takeWhile_all [of is_word s] by (cases s) (auto simp: ident_def)
next
  assume r: "ident nm \<and> s = nm @ t \<and> (t = [] \<or> \<not> is_word (hd t))"
  then have "takeWhile is_word s = nm" "dropWhile is_word s = t" using span_append [of is_word nm t] by (auto simp: ident_def)
  moreover have "s = hd nm # tl s" using r by (cases nm) (auto simp: ident_def)
  moreover have "is_start (hd nm)" using r by (simp add: ident_def)
  ultimately show "name_of s = (Some nm, t)" by (cases s) (auto simp: name_of_def)
qed

lemma name_of_None: "name_of s = (None, t) \<longleftrightarrow> t = s \<and> (s = [] \<or> \<not> is_start (hd s))"
  by (cases s) (auto simp: name_of_def)

lemma number_of_iff:
  "number_of s = Some num \<longleftrightarrow> s = [] \<and> num = None \<or> (\<exists>d u. s = d @ u \<and> numeral_text d u \<and> num = Some (d, u))"
proof
  assume "number_of s = Some num"
  then show "s = [] \<and> num = None \<or> (\<exists>d u. s = d @ u \<and> numeral_text d u \<and> num = Some (d, u))"
    using takeWhile_all [of is_digit s] takeWhile_dropWhile_id [of is_digit s]
    by (auto simp: number_of_def Let_def numeral_text_def split: if_splits)
next
  assume r: "s = [] \<and> num = None \<or> (\<exists>d u. s = d @ u \<and> numeral_text d u \<and> num = Some (d, u))"
  have "number_of (d @ u) = Some (Some (d, u))" if "numeral_text d u" for d u
  proof -
    have "u = [] \<or> \<not> is_digit (hd u)" using that char_classes(4) by (cases u) (auto simp: numeral_text_def)
    then have "takeWhile is_digit (d @ u) = d" "dropWhile is_digit (d @ u) = u"
      using span_append [of is_digit d u] that by (auto simp: numeral_text_def)
    then show ?thesis using that by (simp add: number_of_def numeral_text_def)
  qed
  moreover have "number_of [] = Some None" by (simp add: number_of_def)
  ultimately show "number_of s = Some num" using r by metis
qed

lemma plus_of_True:
  "plus_of s = (True, t) \<longleftrightarrow> (\<exists>a b. spaces a \<and> spaces b \<and> s = a @ CHR ''+'' # b @ t) \<and> (t = [] \<or> \<not> is_space (hd t))"
proof
  assume l: "plus_of s = (True, t)"
  then obtain r where r: "dropWhile is_space s = CHR ''+'' # r" "t = dropWhile is_space r"
    by (auto simp: plus_of_def split: list.splits if_splits)
  then have "s = takeWhile is_space s @ CHR ''+'' # takeWhile is_space r @ t" by (metis takeWhile_dropWhile_id)
  moreover have "t = [] \<or> \<not> is_space (hd t)" using r(2) hd_dropWhile [of is_space r] by blast
  ultimately show "(\<exists>a b. spaces a \<and> spaces b \<and> s = a @ CHR ''+'' # b @ t) \<and> (t = [] \<or> \<not> is_space (hd t))"
    using takeWhile_all by blast
next
  assume "(\<exists>a b. spaces a \<and> spaces b \<and> s = a @ CHR ''+'' # b @ t) \<and> (t = [] \<or> \<not> is_space (hd t))"
  then obtain a b where s: "spaces a" "spaces b" "s = a @ CHR ''+'' # b @ t" "t = [] \<or> \<not> is_space (hd t)" by blast
  have "dropWhile is_space s = CHR ''+'' # b @ t"
    unfolding s(3) by (rule span_append(2) [OF s(1)]) (simp add: char_classes)
  moreover have "dropWhile is_space (b @ t) = t" by (rule span_append(2) [OF s(2,4)])
  ultimately show "plus_of s = (True, t)" by (simp add: plus_of_def)
qed

lemma plus_of_False: "plus_of s = (False, t) \<Longrightarrow> t = s"
  by (auto simp: plus_of_def split: list.splits if_splits)

section \<open>Arguments\<close>

definition name_arg :: "string \<Rightarrow> Arg" where
  "name_arg nm = \<lparr>ag_name = nm, ag_unit = [], ag_plus = False, ag_has_num = False, ag_num = 0\<rparr>"

definition number_arg :: "string \<Rightarrow> bool \<Rightarrow> string \<Rightarrow> string \<Rightarrow> Arg" where
  "number_arg nm pl d u = \<lparr>ag_name = nm, ag_unit = u, ag_plus = pl, ag_has_num = True, ag_num = of_nat (number d)\<rparr>"

text \<open>
  An argument is read exactly when it is a name, a number with an optional unit, or a name, a plus
  sign and such a number, with spaces around the plus only and at most 15 digits; and it is read as
  these parts.
\<close>

theorem argument_syntax:
  "read_arg w s = Got r \<longleftrightarrow>
     (ident s \<and> r = name_arg s) \<or>
     (\<exists>d u. s = d @ u \<and> numeral_text d u \<and> length d \<le> 15 \<and> r = number_arg [] False d u) \<or>
     (\<exists>nm a b d u. s = nm @ a @ CHR ''+'' # b @ d @ u \<and> ident nm \<and> spaces a \<and> spaces b \<and> numeral_text d u \<and> length d \<le> 15 \<and>
        r = number_arg nm True d u)" (is "_ \<longleftrightarrow> ?name \<or> ?num \<or> ?sum")
proof
  assume l: "read_arg w s = Got r"
  then obtain nm pl num where m: "match_arg s = Some (nm, pl, num)" and s0: "s \<noteq> []"
    by (auto simp: read_arg_def Let_def split: if_splits option.splits)
  obtain s1 where n: "name_of s = (nm, s1)" by (cases "name_of s") (use m in \<open>auto simp: match_arg_def Let_def split: prod.splits\<close>)
  obtain s2 where p: "plus_of s1 = (pl, s2)" and d: "number_of s2 = Some num"
    using m n by (auto simp: match_arg_def Let_def split: prod.splits)
  note R = l [unfolded read_arg_def Let_def m if_not_P [OF s0] option.case prod.case]
  show "?name \<or> ?num \<or> ?sum"
  proof (cases pl)
    case True
    then obtain nm' d' u' where q: "nm = Some nm'" "num = Some (d', u')" "length d' \<le> 15" "r = number_arg nm' True d' u'"
      using R by (auto simp: number_arg_def split: if_splits option.splits)
    then have "s2 = d' @ u'" "numeral_text d' u'" using d by (auto simp: number_of_iff)
    moreover obtain a b where "spaces a" "spaces b" "s1 = a @ CHR ''+'' # b @ s2" using p True by (auto simp: plus_of_True)
    moreover have "ident nm'" "s = nm' @ s1" using n q(1) by (auto simp: name_of_iff)
    ultimately have ?sum using q(3,4) by blast
    then show ?thesis by blast
  next
    case False
    then have s1: "s2 = s1" using p by (auto dest: plus_of_False)
    show ?thesis
    proof (cases num)
      case None
      then have "s1 = []" using d s1 by (auto simp: number_of_iff)
      then show ?thesis using n s0 R None False by (cases nm) (auto simp: name_of_iff name_of_None name_arg_def)
    next
      case (Some du)
      then obtain d' u' where q: "num = Some (d', u')" "s1 = d' @ u'" "numeral_text d' u'" using d s1 by (cases du) (auto simp: number_of_iff)
      then have "nm = None" using n char_classes(5) by (cases nm; cases d') (auto simp: name_of_iff numeral_text_def)
      then have "s = d' @ u'" using n q by (simp add: name_of_None)
      then show ?thesis using R q False \<open>nm = None\<close> by (auto simp: number_arg_def split: if_splits)
    qed
  qed
next
  have digit_first: "d @ u \<noteq> [] \<and> is_digit (hd (d @ u))" if "numeral_text d u" for d u
    using that by (cases d) (auto simp: numeral_text_def)
  assume "?name \<or> ?num \<or> ?sum"
  then show "read_arg w s = Got r"
  proof (elim disjE)
    assume n: ?name
    then have "name_of s = (Some s, [])" "s \<noteq> []" by (auto simp: name_of_iff ident_def)
    then show ?thesis using n by (simp add: read_arg_def match_arg_def plus_of_def number_of_def name_arg_def)
  next
    assume ?num
    then obtain d u where s: "s = d @ u" "numeral_text d u" "length d \<le> 15" "r = number_arg [] False d u" by blast
    note D = digit_first [OF s(2)]
    have "name_of s = (None, s)" using D char_classes(2) by (auto simp: name_of_None s(1))
    moreover have "plus_of s = (False, s)"
    proof -
      have "plus_of s \<noteq> (True, t)" for t
      proof
        assume "plus_of s = (True, t)"
        then obtain a y where "spaces a" "d @ u = a @ CHR ''+'' # y" unfolding plus_of_True s(1) by blast
        then show False using D char_classes(3,11) by (cases a) auto
      qed
      then show ?thesis using plus_of_False [of s] by (cases "plus_of s") auto
    qed
    moreover have "number_of s = Some (Some (d, u))" using s by (auto simp: number_of_iff)
    ultimately have "match_arg s = Some (None, False, Some (d, u))" by (simp add: match_arg_def)
    moreover have "s \<noteq> []" using D s(1) by simp
    ultimately show ?thesis using s(3,4) by (simp add: read_arg_def number_arg_def Let_def)
  next
    assume ?sum
    then obtain nm a b d u where s: "s = nm @ a @ CHR ''+'' # b @ d @ u" "ident nm" "spaces a" "spaces b" "numeral_text d u" "length d \<le> 15"
      "r = number_arg nm True d u" by blast
    note D = digit_first [OF s(5)]
    have "a @ CHR ''+'' # b @ d @ u = [] \<or> \<not> is_word (hd (a @ CHR ''+'' # b @ d @ u))"
      using s(3) char_classes(1,9) by (cases a) auto
    then have "name_of s = (Some nm, a @ CHR ''+'' # b @ d @ u)" using s(1,2) by (simp add: name_of_iff)
    moreover have "plus_of (a @ CHR ''+'' # b @ d @ u) = (True, d @ u)" using s(3,4) D char_classes(3) by (auto simp: plus_of_True)
    moreover have "number_of (d @ u) = Some (Some (d, u))" using s by (auto simp: number_of_iff)
    moreover have "s \<noteq> []" using s(1) by simp
    ultimately show ?thesis using s(6,7) by (simp add: read_arg_def match_arg_def number_arg_def Let_def)
  qed
qed

section \<open>Calls\<close>

lemma args_of_iff:
  "args_of s = Some rest \<longleftrightarrow> (\<exists>a. spaces a \<and> s = a @ CHR ''('' # rest @ '')'' \<and> list_all not_eol rest)"
proof
  assume "args_of s = Some rest"
  then obtain t where t: "dropWhile is_space s = CHR ''('' # t" "t \<noteq> []" "last t = CHR '')''" "list_all not_eol rest" "rest = butlast t"
    by (auto simp: args_of_def split: list.splits if_splits)
  then have "t = rest @ '')''" using append_butlast_last_id by metis
  then have "s = takeWhile is_space s @ CHR ''('' # rest @ '')''" using t(1) by (metis takeWhile_dropWhile_id)
  then show "\<exists>a. spaces a \<and> s = a @ CHR ''('' # rest @ '')'' \<and> list_all not_eol rest" using takeWhile_all t(4) by blast
next
  assume "\<exists>a. spaces a \<and> s = a @ CHR ''('' # rest @ '')'' \<and> list_all not_eol rest"
  then obtain a where a: "spaces a" "s = a @ CHR ''('' # rest @ '')''" "list_all not_eol rest" by blast
  have "dropWhile is_space s = CHR ''('' # rest @ '')''"
    unfolding a(2) by (rule span_append(2) [OF a(1)]) (simp add: char_classes)
  then show "args_of s = Some rest" using a(3) by (simp add: args_of_def)
qed

text \<open>
  A statement is \<open>call(args)\<close> or \<open>name = call(args)\<close>: an identifier, or two around an equals sign,
  with spaces only around the equals sign and before the parenthesis that opens the arguments; the text
  ends with the parenthesis that closes them.
\<close>

theorem statement_syntax:
  "match_call s = Some (dst, nm, rest) \<longleftrightarrow>
     ident nm \<and> list_all not_eol rest \<and>
     (\<exists>c. spaces c \<and>
       (dst = [] \<and> s = nm @ c @ CHR ''('' # rest @ '')'' \<or>
        ident dst \<and> (\<exists>a b. spaces a \<and> spaces b \<and> s = dst @ a @ CHR ''='' # b @ nm @ c @ CHR ''('' # rest @ '')'')))"
    (is "_ \<longleftrightarrow> ?r")
proof
  assume l: "match_call s = Some (dst, nm, rest)"
  obtain n1 s1 where n1: "name_of s = (Some n1, s1)"
    using l by (cases "name_of s"; cases "fst (name_of s)") (auto simp: match_call_def)
  obtain c0 t where ct: "dropWhile is_space s1 = c0 # t"
    using l n1 by (cases "dropWhile is_space s1") (auto simp: match_call_def)
  have s: "s = n1 @ takeWhile is_space s1 @ c0 # t" "ident n1"
    using n1 ct takeWhile_dropWhile_id [of is_space s1] by (simp_all add: name_of_iff)
  show ?r
  proof (cases "c0 = CHR ''=''")
    case False
    then have "dst = []" "nm = n1" "args_of s1 = Some rest" using l n1 ct by (auto simp: match_call_def)
    then show ?thesis using n1 by (auto simp: args_of_iff name_of_iff)
  next
    case True
    obtain s2 where n2: "name_of (dropWhile is_space t) = (Some nm, s2)" "dst = n1" "args_of s2 = Some rest"
      using l n1 ct True by (auto simp: match_call_def split: prod.splits option.splits)
    then have "t = takeWhile is_space t @ nm @ s2" "ident nm"
      using takeWhile_dropWhile_id [of is_space t] by (simp_all add: name_of_iff)
    moreover obtain c where "spaces c" "s2 = c @ CHR ''('' # rest @ '')''" "list_all not_eol rest" using n2(3) by (auto simp: args_of_iff)
    ultimately have "s = dst @ takeWhile is_space s1 @ CHR ''='' # takeWhile is_space t @ nm @ c @ CHR ''('' # rest @ '')''"
      using s True n2(2) by simp
    then show ?thesis using takeWhile_all s(2) n2(2) \<open>ident nm\<close> \<open>spaces c\<close> \<open>list_all not_eol rest\<close> by blast
  qed
next
  have before: "a @ x # y = [] \<or> \<not> is_word (hd (a @ x # y))" if "spaces a" "\<not> is_word x" for a x y
    using that char_classes(1) by (cases a) auto
  have skip: "dropWhile is_space (a @ x # y) = x # y" if "spaces a" "\<not> is_space x" for a x y
    using span_append(2) [of is_space a "x # y"] that by simp
  assume ?r
  then obtain c where c: "ident nm" "list_all not_eol rest" "spaces c"
    "dst = [] \<and> s = nm @ c @ CHR ''('' # rest @ '')'' \<or>
     ident dst \<and> (\<exists>a b. spaces a \<and> spaces b \<and> s = dst @ a @ CHR ''='' # b @ nm @ c @ CHR ''('' # rest @ '')'')" by blast
  have args: "args_of (c @ CHR ''('' # rest @ '')'') = Some rest" using c by (auto simp: args_of_iff)
  from c(4) show "match_call s = Some (dst, nm, rest)"
  proof (elim disjE conjE exE)
    assume d: "dst = []" "s = nm @ c @ CHR ''('' # rest @ '')''"
    then have "name_of s = (Some nm, c @ CHR ''('' # rest @ '')'')" using c before char_classes by (simp add: name_of_iff)
    then show ?thesis using d(1) args skip [OF c(3)] char_classes by (simp add: match_call_def)
  next
    fix a b
    assume d: "ident dst" "spaces a" "spaces b" "s = dst @ a @ CHR ''='' # b @ nm @ c @ CHR ''('' # rest @ '')''"
    have "name_of s = (Some dst, a @ CHR ''='' # b @ nm @ c @ CHR ''('' # rest @ '')'')"
      using d before char_classes by (simp add: name_of_iff)
    moreover have "dropWhile is_space (b @ nm @ c @ CHR ''('' # rest @ '')'') = nm @ c @ CHR ''('' # rest @ '')''"
      by (rule span_append(2) [OF d(3)]) (use c(1) char_classes(8) in \<open>auto simp: ident_def\<close>)
    moreover have "name_of (nm @ c @ CHR ''('' # rest @ '')'') = (Some nm, c @ CHR ''('' # rest @ '')'')"
      using c before char_classes by (simp add: name_of_iff)
    ultimately show ?thesis using args skip [OF d(2)] char_classes by (simp add: match_call_def)
  qed
qed

section \<open>Numbers with units\<close>

text \<open>
  A number with a unit is read without wrap-around: the result is the product, and a product that
  does not fit in 64 bits or a unit that the table lacks is an error.
\<close>

theorem scaled_is_exact:
  assumes "\<forall>e \<in> set units. snd e \<noteq> 0"
  shows "case scaled r units w of
      Got n \<Rightarrow> \<exists>u. map_of units (ag_unit r) = Some u \<and> unat n = unat (ag_num r) * unat u
    | Failed e \<Rightarrow> (case map_of units (ag_unit r) of None \<Rightarrow> True | Some u \<Rightarrow> 2 ^ 64 \<le> unat (ag_num r) * unat u)
    | Undefined \<Rightarrow> False"
proof (cases "map_of units (ag_unit r)")
  case None
  then show ?thesis by (simp add: scaled_def)
next
  case (Some u)
  then have u: "0 < unat u" using assms map_of_SomeD [OF Some] by (auto simp: unat_gt_0)
  have m: "unat (- 1 :: u64) = 2 ^ 64 - 1" by (simp add: unsigned_minus_1_eq_mask mask_eq_exp_minus_1)
  have "ag_num r > - 1 div u \<longleftrightarrow> (2 ^ 64 - 1) div unat u < unat (ag_num r)"
    unfolding word_less_nat_alt unat_div m by simp
  also have "\<dots> \<longleftrightarrow> 2 ^ 64 \<le> unat (ag_num r) * unat u"
    using u by (simp add: div_less_iff_less_mult less_eq_Suc_le [symmetric]) linarith
  finally have g: "ag_num r > - 1 div u \<longleftrightarrow> 2 ^ 64 \<le> unat (ag_num r) * unat u" .
  show ?thesis
  proof (cases "ag_num r > - 1 div u")
    case True
    then show ?thesis using Some g by (simp add: scaled_def)
  next
    case False
    then have "unat (ag_num r * u) = unat (ag_num r) * unat u" using g unat_mult_lem [of "ag_num r" u] by simp
    then show ?thesis using Some False by (simp add: scaled_def)
  qed
qed

end
