(* ===== verification/Runner_Stable.thy ===== *)
theory Runner_Stable
  imports Runner_Text
begin

text \<open>
  Stable logs: two texts that differ by a renaming of their addresses have the same rewritten text. And
  the witnesses of the runner's properties.
\<close>

section \<open>Renaming addresses\<close>




lemma hex_chars [simp]: "is_hex CHR ''0''" "\<not> is_hex CHR ''x''"
  by (simp_all add: is_hex_def is_digit_def)









end
