(* ===== verification/Manager_Demo.thy ===== *)
theory Manager_Demo
  imports Manager_Rules
begin

text \<open>A concrete driver that keeps its documentation, and the witnesses of the Manager's properties.\<close>

section \<open>A driver\<close>

text \<open>It reserves two ranges, creates two backings, and maps where nothing is mapped; the copy may fail.\<close>

fun reserved_in :: "vhistory \<Rightarrow> (u64 \<times> u64) list" where
  "reserved_in [] = []"
| "reserved_in (VReserve n r va # hs) = (if r = CUDA_SUCCESS then (va, n) # reserved_in hs else reserved_in hs)"
| "reserved_in (_ # hs) = reserved_in hs"

fun created_in :: "vhistory \<Rightarrow> u64 list" where
  "created_in [] = []"
| "created_in (VCreate n p r h # hs) = (if r = CUDA_SUCCESS then h # created_in hs else created_in hs)"
| "created_in (_ # hs) = created_in hs"

fun map_call :: "vcall \<Rightarrow> (u64 \<times> u64) list \<Rightarrow> (u64 \<times> u64) list" where
  "map_call (VMap va n h r) ms = (if r = CUDA_SUCCESS then om_put va n ms else ms)"
| "map_call (VUnmap va n r) ms = (if r = CUDA_SUCCESS then om_del va ms else ms)"
| "map_call _ ms = ms"

definition mapped_in :: "vhistory \<Rightarrow> (u64 \<times> u64) list" where
  "mapped_in hs = fold map_call hs []"

definition demo_drv :: "bool \<Rightarrow> VEnv" where
  "demo_drv copies = \<lparr>ve_init = CUDA_SUCCESS, ve_device_get = (\<lambda>d. (CUDA_SUCCESS, 0)), ve_retain = (\<lambda>_. CUDA_SUCCESS),
     ve_set_current = CUDA_SUCCESS, ve_name = (\<lambda>_. (CUDA_SUCCESS, ''GPU'')), ve_attr = (\<lambda>_ _. (CUDA_SUCCESS, 1)),
     ve_granularity = (\<lambda>_. (CUDA_SUCCESS, 4)), ve_stream_create = CUDA_SUCCESS, ve_mem_info = (\<lambda>_. (CUDA_SUCCESS, 0, 0)),
     ve_error_name = (\<lambda>_. ''?''),
     ve_reserve = (\<lambda>hs n g.
       if n \<noteq> 0 \<and> n \<le> 16 \<and> reserved_in hs = [] then (CUDA_SUCCESS, 16)
       else if n \<noteq> 0 \<and> n \<le> 16 \<and> reserved_in hs = [(16, 8)] then (CUDA_SUCCESS, 64)
       else (CUDA_ERROR_OUT_OF_MEMORY, 0)),
     ve_create = (\<lambda>hs n p.
       if n \<noteq> 0 \<and> created_in hs = [] then (CUDA_SUCCESS, 1)
       else if n \<noteq> 0 \<and> created_in hs = [1] then (CUDA_SUCCESS, 2)
       else (CUDA_ERROR_OUT_OF_MEMORY, 0)),
     ve_map = (\<lambda>hs va n h.
       if unat va + unat n < 2 ^ 64 \<and> list_all (\<lambda>(a, k). apart a k va n) (mapped_in hs) then CUDA_SUCCESS else CUDA_ERROR 1),
     ve_access = (\<lambda>_ _ _ _. CUDA_SUCCESS), ve_copy = (\<lambda>_ _ _ _. if copies then CUDA_SUCCESS else CUDA_ERROR 700),
     ve_stream_sync = (\<lambda>_. CUDA_SUCCESS), ve_unmap = (\<lambda>_ _ _. CUDA_SUCCESS), ve_release = (\<lambda>_ _. CUDA_SUCCESS),
     ve_addr_free = (\<lambda>_ _ _. CUDA_SUCCESS), ve_stream_destroy = (\<lambda>_. CUDA_SUCCESS), ve_ctx_release = (\<lambda>_. CUDA_SUCCESS)\<rparr>"

lemma reserved_in_append: "reserved_in (hs @ [e]) = reserved_in hs @ reserved_in [e]"
  by (induction hs rule: reserved_in.induct) auto

lemma created_in_append: "created_in (hs @ [e]) = created_in hs @ created_in [e]"
  by (induction hs rule: created_in.induct) auto

lemma vs_in_history:
  "(vs_reserved (vs hs) a = Some k \<longrightarrow> (a, k) \<in> set (reserved_in hs)) \<and>
   (vs_handles (vs hs) h \<noteq> None \<longrightarrow> h \<in> set (created_in hs)) \<and>
   om_ok (mapped_in hs) \<and> map_option fst (vs_maps (vs hs) va) = map_of (mapped_in hs) va"
proof (induction hs arbitrary: a k h va rule: rev_induct)
  case Nil
  then show ?case by (simp add: vs_def mapped_in_def)
next
  case (snoc e hs)
  have ok: "om_ok (mapped_in hs)" using snoc by blast
  have m: "mapped_in (hs @ [e]) = map_call e (mapped_in hs)" by (simp add: mapped_in_def)
  show ?case
    unfolding m reserved_in_append created_in_append
    using snoc [of a k h va] ok
    by (cases e) (auto simp: vs_copy_def get_put get_del [OF ok] ok_put ok_del split: option.splits if_splits)
qed

lemma demo_near: "unat (n :: u64) \<le> 16 \<Longrightarrow> unat (16 :: u64) + unat n < 2 ^ 64 \<and> unat (64 :: u64) + unat n < 2 ^ 64 \<and> (16 :: u64) \<noteq> 0 \<and> (64 :: u64) \<noteq> 0"
  by simp

lemma demo_documented: "v_documented (demo_drv copies)"
proof -
  have r: "reserved_in hs = [] \<Longrightarrow> vs_reserved (vs hs) a = None"
    "reserved_in hs = [(16, 8)] \<Longrightarrow> vs_reserved (vs hs) a = Some k \<Longrightarrow> a = 16 \<and> k = 8" for hs a k
    using vs_in_history [of hs a _ 0 0] by (cases "vs_reserved (vs hs) a"; force)+
  have c: "h \<notin> set (created_in hs) \<Longrightarrow> vs_handles (vs hs) h = None" for hs h
    using vs_in_history [of hs 0 0 h 0] by blast
  have m: "list_all (\<lambda>(a, k). apart a k va n) (mapped_in hs) \<Longrightarrow> vs_maps (vs hs) a = Some (k, g, x) \<Longrightarrow> apart a k va n" for hs va n a k g x
    using vs_in_history [of hs 0 0 0 a] map_of_SomeD [of "mapped_in hs" a k] by (force simp: list_all_iff)
  have "va \<noteq> 0 \<and> n \<noteq> 0 \<and> unat va + unat n < 2 ^ 64 \<and> (\<forall>a k. vs_reserved (vs hs) a = Some k \<longrightarrow> apart a k va n)"
    if "ve_reserve (demo_drv copies) hs n g = (CUDA_SUCCESS, va)" for hs n g va
  proof -
    from that have n: "n \<noteq> 0" "unat n \<le> 16" and c: "va = 16 \<and> reserved_in hs = [] \<or> va = 64 \<and> reserved_in hs = [(16, 8)]"
      by (auto simp: demo_drv_def word_le_nat_alt split: if_splits)
    have "apart 16 8 64 n" by (simp add: apart_def)
    then show ?thesis using demo_near [OF n(2)] n c by (elim disjE conjE) (auto simp: r(1) dest: r(2))
  qed
  moreover have "n \<noteq> 0 \<and> vs_handles (vs hs) h = None" if "ve_create (demo_drv copies) hs n p = (CUDA_SUCCESS, h)" for hs n p h
    using that c by (auto simp: demo_drv_def split: if_splits)
  moreover have "unat va + unat n < 2 ^ 64 \<and> (\<forall>a k g x. vs_maps (vs hs) a = Some (k, g, x) \<longrightarrow> apart a k va n)"
    if "ve_map (demo_drv copies) hs va n h = CUDA_SUCCESS" for hs va n h
  proof -
    have "unat va + unat n < 2 ^ 64" "list_all (\<lambda>(a, k). apart a k va n) (mapped_in hs)"
      using that by (auto simp: demo_drv_def split: if_splits)
    then show ?thesis using m by blast
  qed
  ultimately show ?thesis unfolding v_documented_def by blast
qed

section \<open>A run\<close>

definition demo_opt :: MOptions where
  "demo_opt = \<lparr>op_device = 0, op_host_numa = -1, op_verbose = False, op_debug = False\<rparr>"

definition demo_m :: "(u64 \<times> u64) list \<Rightarrow> (int \<times> MChunk) list \<Rightarrow> int \<Rightarrow> vhistory \<Rightarrow> Manager" where
  "demo_m res chunks n calls = \<lparr>m_opt = demo_opt, m_serial = 1, m_dev = 0, m_numa = 1, m_gran = 4, m_next_id = n,
     m_chunks = chunks, m_res = res, m_out = [], m_calls = calls\<rparr>"

definition demo_chunk :: "Loc \<Rightarrow> u64 \<Rightarrow> u64 \<Rightarrow> MChunk" where
  "demo_chunk l h va = \<lparr>mc_id = 0, mc_size = 8, mc_loc = l, mc_handle = h, mc_va = va\<rparr>"

definition demo_tok :: ChunkToken where "demo_tok = \<lparr>tk_owner = 1, tk_id = 0\<rparr>"

lemma finish_silent: "\<not> op_verbose (m_opt m) \<Longrightarrow> \<not> op_debug (m_opt m) \<Longrightarrow> finish env l m = m"
  by (simp add: finish_def m_log_def m_dump_def)

definition demo_calls :: vhistory where
  "demo_calls = [VReserve 8 CUDA_SUCCESS 16, VCreate 8 \<lparr>p_type = LocDevice, p_id = 0\<rparr> CUDA_SUCCESS 1,
     VMap 16 8 1 CUDA_SUCCESS, VAccess 16 8 0 CUDA_SUCCESS]"

definition demo_mapped :: Manager where
  "demo_mapped = demo_m [(16, 8)] [(0, demo_chunk Device 1 16)] 1 demo_calls"

lemmas demo_eval = demo_drv_def demo_m_def demo_chunk_def demo_tok_def demo_calls_def demo_opt_def called_def finish_silent
  vmem_cu_def vmem_require_def Let_def m_round_up_def prop_of_def put_chunk_def cu_map_def cu_unmap_def cu_release_def
  cu_addr_free_def grant_def get_chunk_def token_valid_def mapped_def inside_reservation_def mapped_in_def apart_def aligned_def

lemma demo_new: "new_manager (demo_drv b) demo_opt 0 = (MOk (), demo_m [] [] 0 [])"
  by (simp add: new_manager_def demo_eval)

lemma demo_reserve: "m_reserve (demo_drv b) 8 (demo_m [] [] 0 []) = (MOk 16, demo_m [(16, 8)] [] 0 (take 1 demo_calls))"
  by (simp add: m_reserve_def demo_eval)

lemma demo_create:
  "m_create (demo_drv b) 8 Device (demo_m [(16, 8)] [] 0 (take 1 demo_calls)) =
    (MOk demo_tok, demo_m [(16, 8)] [(0, demo_chunk Device 1 0)] 1 (take 2 demo_calls))"
  by (simp add: m_create_def demo_eval)

lemma demo_map:
  "m_map (demo_drv b) demo_tok 16 (demo_m [(16, 8)] [(0, demo_chunk Device 1 0)] 1 (take 2 demo_calls)) = (MOk 16, demo_mapped)"
  by (simp add: m_map_def demo_mapped_def demo_eval)

lemma demo_smooth: "smooth (demo_drv b) demo_mapped"
  by (rule smooth.s_map [OF smooth.s_create [OF smooth.s_reserve [OF smooth.s_built [OF demo_new] demo_reserve] demo_create] demo_map])

text \<open>The run goes on: a remap, or one whose copy fails, and the end of the chunk.\<close>

definition demo_moved :: Manager where
  "demo_moved = demo_m [(16, 8)] [(0, demo_chunk Host 2 16)] 1
     (demo_calls @ remap_calls (demo_chunk Device 1 16) \<lparr>p_type = LocHostNuma, p_id = 1\<rparr> 0 2 64)"


definition demo_gone :: Manager where
  "demo_gone = demo_m [(16, 8)] [] 1 (demo_calls @ [VUnmap 16 8 CUDA_SUCCESS, VRelease 1 CUDA_SUCCESS])"

lemma demo_remap: "m_remap (demo_drv True) demo_tok Host demo_mapped = (MOk 16, demo_moved)"
  by (simp add: m_remap_def remap_copy_def remap_swap_def remap_calls_def demo_mapped_def demo_moved_def demo_eval m_log_def m_dump_def)


lemma demo_unmap:
  "m_unmap (demo_drv b) demo_tok demo_mapped =
    (MOk 16, demo_m [(16, 8)] [(0, demo_chunk Device 1 0)] 1 (demo_calls @ [VUnmap 16 8 CUDA_SUCCESS]))"
  by (simp add: m_unmap_def demo_mapped_def demo_eval)

lemma demo_release:
  "m_release (demo_drv b) demo_tok (demo_m [(16, 8)] [(0, demo_chunk Device 1 0)] 1 (demo_calls @ [VUnmap 16 8 CUDA_SUCCESS])) =
    (MOk 8, demo_gone)"
  by (simp add: m_release_def demo_gone_def demo_eval)

lemma smooth_managed: "smooth env m \<Longrightarrow> managed env m"
  by (induction rule: smooth.induct) (auto intro: managed.intros m_step.intros)

lemma demo_gone_managed: "managed (demo_drv b) demo_gone"
  by (rule smooth_managed [OF smooth.s_release [OF smooth.s_unmap [OF demo_smooth demo_unmap] demo_release]])

section \<open>Witnesses\<close>

theorem manager_tables_witness: "in_reservation (m_res demo_mapped) 16 8"
  using manager_tables [OF demo_documented smooth_managed [OF demo_smooth [of True]], THEN conjunct1, rule_format, of 0 "demo_chunk Device 1 16"]
  by (simp add: demo_mapped_def demo_m_def demo_chunk_def mapped_def)

theorem released_token_stays_invalid_witness: "\<exists>what. get_chunk demo_tok ''map'' demo_gone = (MErr (Requirement what), demo_gone)"
  by (rule released_token_stays_invalid [OF demo_documented demo_gone_managed [of True]])
    (simp_all add: demo_gone_def demo_m_def demo_tok_def)

theorem driver_holds_the_tables_witness: "vs_reserved (vs (m_calls demo_moved)) = [16 \<mapsto> 8]"
  using driver_holds_the_tables [OF demo_documented smooth.s_remap [OF demo_smooth demo_remap]]
  unfolding Let_def by (simp add: demo_moved_def demo_m_def)



lemma demo_drop:
  "m_calls (drop_manager (demo_drv b) demo_mapped) = demo_calls @ [VUnmap 16 8 CUDA_SUCCESS, VRelease 1 CUDA_SUCCESS,
     VAddrFree 16 8 CUDA_SUCCESS, VStreamDestroy CUDA_SUCCESS, VCtxRelease CUDA_SUCCESS]"
  by (simp add: drop_manager_def dtor_ok_def m_log_def demo_mapped_def demo_eval)

theorem shutdown_leaves_nothing_witness: "vs_reserved (vs (m_calls (drop_manager (demo_drv True) demo_mapped))) 16 = None"
proof -
  have "\<forall>e \<in> set (drop (length (m_calls demo_mapped)) (m_calls (drop_manager (demo_drv True) demo_mapped))). \<not> call_failed e"
    unfolding demo_drop by (simp add: demo_mapped_def demo_m_def demo_calls_def)
  from shutdown_leaves_nothing [OF demo_documented demo_smooth this] show ?thesis by (simp add: Let_def)
qed

theorem rules_decide_witness: "ruled_out (run_op (demo_drv True) (OpRelease demo_tok) demo_mapped) demo_mapped"
  using rules_decide [OF demo_documented smooth_managed [OF demo_smooth [of True]], of "OpRelease demo_tok"]
  by (simp add: chunk_of_def demo_mapped_def demo_m_def demo_tok_def demo_chunk_def mapped_def token_valid_def)

theorem map_check_wraps_witness: "inside_reservation (- 16) 16 demo_mapped"
  using map_check_wraps [OF demo_documented smooth_managed [OF demo_smooth [of True]], of 16 8 "- 16"]
  by (simp add: demo_mapped_def demo_m_def)

end
