(* ===== verification/Runner_Demo.thy ===== *)
theory Runner_Demo
  imports Runner_Stable Manager_Demo
begin

text \<open>A small file and a world to run it in: the witnesses of the runner's properties.\<close>

definition demo_file :: string where "demo_file = ''r = reserve(8)'' @ newline @ ''free(r)''"

definition demo_renv :: REnv where
  "demo_renv = \<lparr>re_drv = demo_drv True, re_cu_text = (\<lambda>w r. w), re_fill = (\<lambda>_ _ _ _ _. None), re_check = (\<lambda>_ _ _ _ _. (None, 0)),
     re_map_right = False\<rparr>"

definition demo_world :: World where
  "demo_world = \<lparr>wd_env = demo_renv, wd_file = Some demo_file, wd_log_good = True, wd_dbg_good = True, wd_stem = (\<lambda>_. ''demo''),
     wd_pid = 1, wd_started = ''now'', wd_elapsed = (\<lambda>_. ''1''), wd_total_ms = ''0.1'', wd_sync = (\<lambda>_ _. CUDA_SUCCESS), wd_serial = 0\<rparr>"

definition demo_first :: Stmt where "demo_first = hd (pg_stmts (parse demo_file))"

definition demo_second :: Stmt where "demo_second = hd (tl (pg_stmts (parse demo_file)))"

lemma demo_stmts: "pg_stmts (parse demo_file) = [demo_first] @ demo_second # []"
proof -
  have "length (pg_stmts (parse demo_file)) = 2" by code_simp
  then show ?thesis unfolding demo_first_def demo_second_def
    by (cases "pg_stmts (parse demo_file)"; cases "tl (pg_stmts (parse demo_file))") auto
qed

lemma demo_second_args: "call_args (st_call demo_second) = ''A''"
  by code_simp

definition demo_start :: "Ctx \<times> RunState" where
  "demo_start = (start_ctx (demo_m [] [] 0 []) (parse demo_file), start_logs default_roptions)"

lemma demo_first_is:
  "demo_first = \<lparr>st_line = 1, st_text = ''r = reserve(8)'', st_call = CReserve, st_dst = 0, st_a = \<lparr>od_var = -1, od_lit = 8\<rparr>,
     st_b = no_operand, st_loc = Device\<rparr>"
  by code_simp

lemma demo_no_errors: "rs_errors (snd (snd (run_stmts demo_world default_roptions (parse demo_file) [demo_first] demo_start))) = 0"
proof -
  have v: "length (pg_vars (parse demo_file)) = 1" by code_simp
  obtain c0 s0 where d: "demo_start = (c0, s0)" by fastforce
  then have s0: "\<not> rs_dead s0" "rs_errors s0 = 0" "rs_dbg s0 = None"
    by (auto simp: demo_start_def start_logs_def default_roptions_def)
  have "c0 = start_ctx (demo_m [] [] 0 []) (parse demo_file)" using d by (simp add: demo_start_def)
  then obtain r c where "execute (wd_env demo_world) (parse demo_file) demo_first c0 = (Got r, c)" "oc_ok r"
    by (auto simp: execute_def demo_first_is demo_world_def demo_renv_def start_ctx_def cx_size_def mgr_def demo_reserve
        num_value_def set_var_def Let_def v)
  then show ?thesis using s0 by (simp add: d run_stmt_def run_debug_state_def Let_def)
qed

theorem values_are_there_witness: "\<exists>c. finds (parse demo_file) CHR ''A'' (st_a demo_second) c"
proof -
  have t: "typed (length (cx_vals (fst demo_start))) Map.empty [demo_first]"
    using start_typed(1) [of "demo_m [] [] 0 []" demo_file] unfolding demo_stmts by (simp add: demo_start_def)
  obtain c' s' where r: "run_stmts demo_world default_roptions (parse demo_file) [demo_first] demo_start = (Got (), c', s')"
    using run_stmts_step [OF t start_typed(2), of demo_world default_roptions "parse demo_file" "snd demo_start"] by auto
  have "rs_errors s' = rs_errors (start_logs default_roptions)" using demo_no_errors r by (simp add: start_logs_def)
  from values_are_there [OF demo_stmts r [unfolded demo_start_def] this] show ?thesis
    by (auto simp: start_logs_def Let_def demo_second_args)
qed

theorem statement_sets_its_variable_witness:
  "\<exists>r c'. execute demo_renv (parse demo_file) demo_first (fst demo_start) = (Got r, c') \<and> length (cx_vals c') = 1"
proof -
  have l: "length (cx_vals (fst demo_start)) = 1" by code_simp
  have "typed (length (cx_vals (fst demo_start))) Map.empty [demo_first]"
    using start_typed(1) [of "demo_m [] [] 0 []" demo_file] unfolding demo_stmts by (simp add: demo_start_def)
  then have "typed_stmt Map.empty demo_first" "st_dst demo_first < int (length (cx_vals (fst demo_start)))" by auto
  from statement_sets_its_variable [OF start_typed(2) this, of demo_renv "parse demo_file"] show ?thesis by (auto simp: l)
qed

theorem runner_exit_code_witness: "\<exists>r msg st. run (demo_world\<lparr>wd_file := None\<rparr>) default_roptions = Got (r, msg, st) \<and> r = 2"
  using runner_exit_code [of "demo_world\<lparr>wd_file := None\<rparr>" default_roptions] by (auto simp: Let_def)

theorem broken_context_skips_the_rest_witness:
  "\<exists>s'. run_stmts demo_world default_roptions (parse demo_file) [demo_first] (fst demo_start, (snd demo_start)\<lparr>rs_dead := True\<rparr>) =
     (Got (), fst demo_start, s') \<and> rs_skipped s' = 1"
  using broken_context_skips_the_rest [of "(snd demo_start)\<lparr>rs_dead := True\<rparr>" demo_world default_roptions "parse demo_file" "[demo_first]" "fst demo_start"]
  by (auto simp: demo_start_def start_logs_def)

theorem scaled_is_exact_witness: "unat (case scaled (number_arg [] False ''3'' ''K'') sizes [] of Got n \<Rightarrow> n) = 3 * 1024"
  using scaled_is_exact [of sizes "number_arg [] False ''3'' ''K''" "[]"]
  by (simp add: sizes_def scaled_def number_arg_def number_def digit_value_def)



end
