(* ===== verification/Pattern.thy ===== *)
theory Pattern
  imports Prelude "HOL-Library.Multiset"
begin

text \<open>
  The pattern kernels of the primitives (\<open>primitives/src/pattern.cuh\<close>): each thread of the grid walks the
  buffer in strides, and the threads' steps interleave in any order. Device memory is a map from word
  indices; errors of the CUDA runtime are an argument. A buffer of \<open>n\<close> words lies in the 64-bit address
  space, so \<open>n\<close> is below \<open>2 ^ 62\<close> and no index wraps.
\<close>

section \<open>Kernels\<close>

text \<open>The indices a thread visits: \<open>for (i = tid; i < n; i += stride)\<close>.\<close>

function strided :: "nat \<Rightarrow> nat \<Rightarrow> nat \<Rightarrow> nat list" where
  "strided i stride n = (if i < n \<and> 0 < stride then i # strided (i + stride) stride n else [])"
  by pat_completeness auto
termination by (relation "measure (\<lambda>(i, stride, n). n - i)") auto

declare strided.simps [simp del]

definition GRID :: nat where "GRID = 160 * 256"

definition word_value :: "u32 \<Rightarrow> nat \<Rightarrow> u32" where "word_value k i = k * of_nat (i + 1)"

definition fill_step :: "u32 \<Rightarrow> nat \<Rightarrow> (nat \<Rightarrow> u32) \<Rightarrow> nat \<Rightarrow> u32" where
  "fill_step k i mem = mem(i := word_value k i)"

definition check_step :: "u32 \<Rightarrow> (nat \<Rightarrow> u32) \<Rightarrow> nat \<Rightarrow> nat \<Rightarrow> nat" where
  \<comment> \<open>one atomic increment per wrong word\<close>
  "check_step k mem i bad = (if mem i \<noteq> word_value k i then bad + 1 else bad)"

text \<open>An order in which the steps of all threads happen, each thread's steps in its own order.\<close>

definition grid_steps :: "nat \<Rightarrow> nat list list" where
  "grid_steps n = map (\<lambda>t. strided t GRID n) [0..<GRID]"

inductive interleaving :: "nat list list \<Rightarrow> nat list \<Rightarrow> bool" where
  no_thread: "interleaving [] []"
| add_thread: "interleaving threads js \<Longrightarrow> ks \<in> shuffles xs js \<Longrightarrow> interleaving (xs # threads) ks"

text \<open>\<open>fill\<close> and \<open>check\<close>: an error as its name; \<open>e1\<close> is what the launch returns, \<open>e2\<close> the synchronization.\<close>

definition pattern_fill :: "string option \<Rightarrow> string option \<Rightarrow> nat list \<Rightarrow> u32 \<Rightarrow> (nat \<Rightarrow> u32) \<Rightarrow> string option \<times> (nat \<Rightarrow> u32)" where
  "pattern_fill e1 e2 js k mem =
     (let mem' = fold (fill_step k) js mem in if e1 \<noteq> None then (e1, mem') else (e2, mem'))"

definition pattern_check :: "string option \<Rightarrow> string option \<Rightarrow> string option \<Rightarrow> string option \<Rightarrow> nat list \<Rightarrow> u32 \<Rightarrow> (nat \<Rightarrow> u32)
    \<Rightarrow> string option \<times> nat" where
  \<comment> \<open>\<open>e0\<close> and \<open>e3\<close> are the copies of the counter to and from the device\<close>
  "pattern_check e0 e1 e2 e3 js k mem =
     (if e0 \<noteq> None then (e0, 0)
      else let bad = fold (check_step k mem) js 0
           in if e1 \<noteq> None then (e1, 0) else if e2 \<noteq> None then (e2, 0) else if e3 \<noteq> None then (e3, 0) else (None, bad))"

section \<open>Every word is visited once\<close>

lemma strided_mod: "0 < st \<Longrightarrow> set (strided i st n) = {j. i \<le> j \<and> j < n \<and> j mod st = i mod st} \<and> sorted_wrt (<) (strided i st n)"
proof (induction i st n rule: strided.induct)
  case (1 i st n)
  show ?case
  proof (cases "i < n")
    case False
    then show ?thesis by (auto simp: strided.simps [of i])
  next
    case True
    have IH: "set (strided (i + st) st n) = {j. i + st \<le> j \<and> j < n \<and> j mod st = i mod st} \<and> sorted_wrt (<) (strided (i + st) st n)"
      using 1 True by simp
    have step: "i \<le> j \<and> j mod st = i mod st \<longleftrightarrow> j = i \<or> i + st \<le> j \<and> j mod st = i mod st" for j
    proof -
      have "i + st \<le> j" if "i \<le> j" "j \<noteq> i" "j mod st = i mod st"
      proof -
        have "st dvd j - i" using that by (simp add: mod_eq_dvd_iff_nat)
        moreover have "0 < j - i" using that by simp
        ultimately have "st \<le> j - i" by (rule dvd_imp_le)
        then show ?thesis using that(1) by simp
      qed
      then show ?thesis by auto
    qed
    have "strided i st n = i # strided (i + st) st n" using True 1(2) by (simp add: strided.simps [of i])
    then show ?thesis using IH step True 1(2) by auto
  qed
qed

lemma interleaving_mset: "interleaving xss js \<Longrightarrow> mset js = sum_list (map mset xss)"
  by (induction rule: interleaving.induct) (auto simp: mset_shuffles)

lemma count_sum_list: "count (sum_list (map f ts)) j = sum_list (map (\<lambda>t. count (f t) j) ts)"
  by (induction ts) auto

lemma count_strided: "0 < st \<Longrightarrow> count (mset (strided i st n)) j = (if i \<le> j \<and> j < n \<and> j mod st = i mod st then 1 else 0)"
proof -
  assume st: "0 < st"
  note S = strided_mod [OF st, of i n]
  have "distinct (strided i st n)" using S strict_sorted_iff by blast
  then show ?thesis using S by (simp add: distinct_count_atmost_1)
qed

lemma grid_visits_once:
  assumes "interleaving (grid_steps n) js"
  shows "distinct js" and "set js = {..<n}"
proof -
  have g: "0 < GRID" by (simp add: GRID_def)
  have c: "count (mset js) j = (if j < n then 1 else 0)" for j
  proof -
    have "count (mset js) j = sum_list (map (\<lambda>t. count (mset (strided t GRID n)) j) [0..<GRID])"
      unfolding interleaving_mset [OF assms] grid_steps_def by (simp add: comp_def count_sum_list)
    also have "\<dots> = (\<Sum>t = 0..<GRID. if t \<le> j \<and> j < n \<and> j mod GRID = t mod GRID then 1 else 0)"
      by (simp only: count_strided [OF g] interv_sum_list_conv_sum_set_nat set_upt)
    also have "\<dots> = (\<Sum>t = 0..<GRID. if t = j mod GRID then (if j < n then 1 else 0) else 0)"
      by (rule sum.cong) (auto intro: le_trans [OF mod_less_eq_dividend])
    also have "\<dots> = (if j < n then 1 else 0)" using g by simp
    finally show ?thesis .
  qed
  have z: "j \<in> set js \<longleftrightarrow> count (mset js) j \<noteq> 0" for j by simp
  show "set js = {..<n}" using z c by (auto split: if_splits)
  show "distinct js" unfolding distinct_count_atmost_1 using z c by auto
qed

section \<open>What the kernels do\<close>

lemma fold_fill: "distinct js \<Longrightarrow> fold (fill_step k) js mem i = (if i \<in> set js then word_value k i else mem i)"
  by (induction js arbitrary: mem) (auto simp: fill_step_def)

lemma fold_check: "fold (check_step k mem) js bad = bad + length (filter (\<lambda>i. mem i \<noteq> word_value k i) js)"
  by (induction js arbitrary: bad) (auto simp: check_step_def)

text \<open>
  C24. In whatever order the threads of the grid run, \<open>fill\<close> writes every word of the buffer and nothing
  else, and a later \<open>check\<close> with the same key counts exactly the words that were changed in between.
\<close>

theorem check_counts_changed_words:
  assumes "interleaving (grid_steps n) js" and "interleaving (grid_steps n) ks"
  shows "(let (e, mem') = pattern_fill None None js k mem in
      e = None \<and> (\<forall>i. mem' i = (if i < n then k * of_nat (i + 1) else mem i)) \<and>
      (\<forall>mem''. pattern_check None None None None ks k mem'' = (None, card {i. i < n \<and> mem'' i \<noteq> mem' i})))"
proof -
  note J = grid_visits_once [OF assms(1)] and K = grid_visits_once [OF assms(2)]
  have f: "fold (fill_step k) js mem i = (if i < n then k * of_nat (i + 1) else mem i)" for i
    using fold_fill [OF J(1)] J(2) by (simp add: word_value_def)
  have "fold (check_step k mem'') ks 0 = card {i. i < n \<and> mem'' i \<noteq> fold (fill_step k) js mem i}" for mem''
  proof -
    have "length (filter (\<lambda>i. mem'' i \<noteq> word_value k i) ks) = card {i \<in> set ks. mem'' i \<noteq> word_value k i}"
      using distinct_card [OF distinct_filter [OF K(1)], of "\<lambda>i. mem'' i \<noteq> word_value k i"] by simp
    also have "{i \<in> set ks. mem'' i \<noteq> word_value k i} = {i. i < n \<and> mem'' i \<noteq> fold (fill_step k) js mem i}"
      using K(2) f by (auto simp: word_value_def)
    finally show ?thesis by (simp add: fold_check)
  qed
  then show ?thesis using f by (simp add: pattern_fill_def pattern_check_def Let_def)
qed

text \<open>An order exists: one thread after the other.\<close>

lemma one_after_the_other: "interleaving xss (concat xss)"
proof (induction xss)
  case (Cons xs xss)
  have "xs @ ys \<in> shuffles xs ys" for ys :: "nat list"
    by (induction xs) (auto intro: Cons_in_shuffles_leftI)
  then show ?case using add_thread [OF Cons] by simp
qed (simp add: no_thread)

theorem check_counts_changed_words_witness:
  "snd (pattern_check None None None None (concat (grid_steps 3)) 5 ((snd (pattern_fill None None (concat (grid_steps 3)) 5 (\<lambda>_. 0)))(1 := 0))) = 1"
proof -
  obtain e mem where f: "pattern_fill None None (concat (grid_steps 3)) 5 (\<lambda>_. 0) = (e, mem)" by fastforce
  note T = check_counts_changed_words [OF one_after_the_other one_after_the_other, of 3 5 "\<lambda>_. 0", unfolded f Let_def prod.case]
  have "{i. i < 3 \<and> (mem(1 := 0)) i \<noteq> mem i} = {1}" using T by auto
  then show ?thesis using T by (simp add: f)
qed

end
