(* ===== verification/Broker_Config.thy ===== *)
theory Broker_Config
  imports Broker Text
begin

text \<open>
  How the broker starts (\<open>read_config\<close>, \<open>listen_on\<close> and \<open>main\<close> of \<open>libvmem/daemon/vmemd.cpp\<close>): the
  command line, the config file line by line, the listening socket, and the state the event loop begins
  with. What the operating system answers is an argument.
\<close>

section \<open>Scanning a line\<close>

text \<open>\<open>[a-z_]\<close>\<close>

definition is_key :: "char \<Rightarrow> bool" where
  "is_key c \<longleftrightarrow> 97 \<le> (of_char c :: nat) \<and> (of_char c :: nat) \<le> 122 \<or> c = CHR ''_''"

text \<open>\<open>%lld\<close>: white space, a sign, digits; the C library saturates.\<close>

definition saturate :: "int \<Rightarrow> int" where
  "saturate v = (if v > 2 ^ 63 - 1 then 2 ^ 63 - 1 else if v < - (2 ^ 63) then - (2 ^ 63) else v)"

definition scan_int :: "string \<Rightarrow> (int \<times> string) option" where
  "scan_int s =
     (let t = dropWhile is_space s;
          neg = (t \<noteq> [] \<and> hd t = CHR ''-'');
          u = (if t \<noteq> [] \<and> (hd t = CHR ''-'' \<or> hd t = CHR ''+'') then tl t else t);
          d = takeWhile is_digit u
      in if d = [] then None
         else Some (saturate (if neg then - int (number d) else int (number d)), dropWhile is_digit u))"

text \<open>\<open>sscanf(line, " %63[a-z_] = %lld %7s", key, &v, rest)\<close>, when it converts exactly two items.\<close>

definition scan_entry :: "string \<Rightarrow> (string \<times> int) option" where
  "scan_entry line =
     (let s = dropWhile is_space line;
          key = take 63 (takeWhile is_key s);
          t = dropWhile is_space (drop (length key) s)
      in if key = [] \<or> t = [] \<or> hd t \<noteq> CHR ''='' then None
         else case scan_int (tl t) of
             None \<Rightarrow> None
           | Some (v, r) \<Rightarrow> if dropWhile is_space r = [] then Some (key, v) else None)"

section \<open>The config file\<close>

text \<open>Why the broker exits before it serves.\<close>

datatype BootError =
    BUsage
  | BDie string
  | BBadLine nat
  | BUnknownKey nat string
  | BPathTooLong
  | BAlreadyListening

definition limit_bytes :: "int \<Rightarrow> u64" where
  "limit_bytes v = (if v = -1 then UNLIMITED else push_bit 20 (word_of_int v))"

text \<open>One line: the C string in the buffer, cut at a comment.\<close>

definition c_string :: "string \<Rightarrow> string" where
  "c_string = takeWhile (\<lambda>c. c \<noteq> CHR 0x00)"

definition config_line :: "nat \<Rightarrow> string \<Rightarrow> Global \<Rightarrow> BootError + Global" where
  "config_line n raw g =
     (let line = takeWhile (\<lambda>c. c \<noteq> CHR ''#'') (c_string raw)
      in if list_all (\<lambda>c. is_blank c \<or> c = CHR 0x0A) line then Inr g
         else case scan_entry line of
             None \<Rightarrow> Inl (BBadLine n)
           | Some (key, v) \<Rightarrow>
               if v < -1 then Inl (BBadLine n)
               else if key = ''vram_limit_mib'' then Inr (g\<lparr>g_vram_limit := limit_bytes v\<rparr>)
               else if key = ''dram_limit_mib'' then Inr (g\<lparr>g_dram_limit := limit_bytes v\<rparr>)
               else if key = ''ctx_overhead_mib'' then Inr (g\<lparr>g_ctx_overhead := if v = -1 then 0 else limit_bytes v\<rparr>)
               else Inl (BUnknownKey n key))"

fun config_lines :: "nat \<Rightarrow> string list \<Rightarrow> Global \<Rightarrow> BootError + Global" where
  "config_lines n [] g = Inr g"
| "config_lines n (l # ls) g = (case config_line n l g of Inl e \<Rightarrow> Inl e | Inr g \<Rightarrow> config_lines (n + 1) ls g)"

text \<open>\<open>fgets(line, 256, f)\<close>: up to 255 characters, up to and including a line end.\<close>

function fgets_lines :: "string \<Rightarrow> string list" where
  "fgets_lines s =
     (if s = [] then []
      else let l = takeWhile (\<lambda>c. c \<noteq> CHR 0x0A) s;
               n = min 255 (if length l < length s then length l + 1 else length l)
           in take n s # fgets_lines (drop n s))"
  by pat_completeness auto
termination
proof (relation "measure length")
  fix s l :: string and n
  assume s: "s \<noteq> []" and l: "l = takeWhile (\<lambda>c. c \<noteq> CHR 0x0A) s"
    and n: "n = min 255 (if length l < length s then length l + 1 else length l)"
  have "0 < n" using s n by (cases "length l < length s") auto
  then show "(drop n s, s) \<in> measure length" using s by simp
qed simp

declare fgets_lines.simps [simp del]

definition read_config :: "string option \<Rightarrow> string \<Rightarrow> BootError + Global" where
  "read_config content path =
     (case content of None \<Rightarrow> Inl (BDie path) | Some s \<Rightarrow> config_lines 1 (fgets_lines s) new_global)"

definition limit_str :: "u64 \<Rightarrow> string" where
  "limit_str l = (if l = UNLIMITED then ''unlimited'' else dec64 (drop_bit 20 l) @ '' MiB'')"

section \<open>The listening socket\<close>

text \<open>
  What the system calls answer: whether the log opens, the content of the config file, whether a
  broker answers on the path, and whether \<open>socket\<close>, \<open>bind\<close>, \<open>listen\<close>, \<open>epoll_create1\<close> and
  \<open>epoll_ctl\<close> succeed.
\<close>

record BootWorld =
  bw_log :: bool
  bw_config :: "string option"
  bw_answers :: bool
  bw_socket :: bool
  bw_bind :: bool
  bw_listen :: bool
  bw_epoll :: bool
  bw_watch :: bool

text \<open>\<open>sizeof sun_path\<close> is 108.\<close>

definition address_of :: "string \<Rightarrow> BootError + string" where
  "address_of path = (if length path \<ge> 108 then Inl BPathTooLong else Inr path)"

text \<open>
  The calls of start-up that touch a file or the socket's path, in order: opening the log, opening the
  config file, asking who listens on the path, removing the file there, and binding to it.
\<close>

datatype BootCall = CLog string | CConfig string | CProbe string | CUnlink string | CBind string

definition listen_on :: "BootWorld \<Rightarrow> string \<Rightarrow> (BootError + string) \<times> BootCall list" where
  "listen_on w path =
     (case address_of path of
        Inl e \<Rightarrow> (Inl e, [])
      | Inr a \<Rightarrow>
          if bw_answers w then (Inl BAlreadyListening, [CProbe a])
          else if \<not> bw_socket w then (Inl (BDie ''socket''), [CProbe a, CUnlink a])
          else if \<not> bw_bind w then (Inl (BDie ''bind''), [CProbe a, CUnlink a, CBind a])
          else if \<not> bw_listen w then (Inl (BDie ''listen''), [CProbe a, CUnlink a, CBind a])
          else (Inr a, [CProbe a, CUnlink a, CBind a]))"

section \<open>Start-up\<close>

record BootArgs =
  ba_path :: string
  ba_log :: string
  ba_config :: "string option"
  ba_debug :: bool

definition default_args :: BootArgs where
  "default_args = \<lparr>ba_path = ''/tmp/vmemd.sock'', ba_log = ''/tmp/vmemd.log'', ba_config = None, ba_debug = False\<rparr>"

fun boot_args :: "string list \<Rightarrow> BootArgs \<Rightarrow> BootArgs" where
  "boot_args [] b = b"
| "boot_args (a # as) b =
     (if a = ''--socket'' \<and> as \<noteq> [] then boot_args (tl as) (b\<lparr>ba_path := hd as\<rparr>)
      else if a = ''--log'' \<and> as \<noteq> [] then boot_args (tl as) (b\<lparr>ba_log := hd as\<rparr>)
      else if a = ''--config'' \<and> as \<noteq> [] then boot_args (tl as) (b\<lparr>ba_config := Some (hd as)\<rparr>)
      else if a = ''--debug'' then boot_args as (b\<lparr>ba_debug := True\<rparr>)
      else b\<lparr>ba_config := None\<rparr>)"

text \<open>Exit code and reason, or the socket's path, the line logged and the state the loop starts with.\<close>

datatype Boot = Exits int BootError | Serves string string Broker

definition watch :: "BootWorld \<Rightarrow> BootError option" where
  "watch w = (if bw_watch w then None else Some (BDie ''epoll_ctl''))"

definition broker_main :: "BootWorld \<Rightarrow> int \<Rightarrow> string list \<Rightarrow> Boot \<times> BootCall list" where
  "broker_main w pid args =
     (let b = boot_args args default_args
      in case ba_config b of
           None \<Rightarrow> (Exits 2 BUsage, [])
         | Some config \<Rightarrow>
             if \<not> bw_log w then (Exits 1 (BDie (ba_log b)), [CLog (ba_log b)])
             else case read_config (bw_config w) config of
                 Inl e \<Rightarrow> (Exits 1 e, [CLog (ba_log b), CConfig config])
               | Inr g \<Rightarrow>
                   (case listen_on w (ba_path b) of
                      (Inl e, cs) \<Rightarrow> (Exits 1 e, [CLog (ba_log b), CConfig config] @ cs)
                    | (Inr a, cs) \<Rightarrow>
                        if \<not> bw_epoll w then (Exits 1 (BDie ''epoll_create1''), [CLog (ba_log b), CConfig config] @ cs)
                        else case watch w of
                            Some e \<Rightarrow> (Exits 1 e, [CLog (ba_log b), CConfig config] @ cs)
                          | None \<Rightarrow> (Serves a
                             (cat [''listening on '', a, '' (pid '', dec_int pid, ''), VRAM limit '', limit_str (g_vram_limit g),
                                '', DRAM limit '', limit_str (g_dram_limit g), '', context overhead '',
                                dec64 (drop_bit 20 (g_ctx_overhead g)), '' MiB''])
                             (start_broker g (ba_debug b)), [CLog (ba_log b), CConfig config] @ cs)))"

section \<open>What a line of the config means\<close>

lemma key_chars: "is_key c \<Longrightarrow> \<not> is_space c \<and> c \<noteq> CHR ''=''" 
  by (auto simp: is_key_def is_space_def)

text \<open>A number as \<open>%lld\<close> accepts it, and its value.\<close>

definition int_text :: "string \<Rightarrow> int \<Rightarrow> bool" where
  "int_text s v \<longleftrightarrow> (\<exists>sg d. s = sg @ d \<and> sg \<in> {[], ''-'', ''+''} \<and> d \<noteq> [] \<and> list_all is_digit d \<and>
     v = saturate (if sg = ''-'' then - int (number d) else int (number d)))"

lemma scan_int_iff:
  "scan_int s = Some (v, r) \<longleftrightarrow> (\<exists>a t. spaces a \<and> int_text t v \<and> s = a @ t @ r \<and> (r = [] \<or> \<not> is_digit (hd r)))"
proof
  assume l: "scan_int s = Some (v, r)"
  define t where "t = dropWhile is_space s"
  define u where "u = (if t \<noteq> [] \<and> (hd t = CHR ''-'' \<or> hd t = CHR ''+'') then tl t else t)"
  have d: "takeWhile is_digit u \<noteq> []" "r = dropWhile is_digit u"
    "v = saturate (if t \<noteq> [] \<and> hd t = CHR ''-'' then - int (number (takeWhile is_digit u)) else int (number (takeWhile is_digit u)))"
    using l by (auto simp: scan_int_def Let_def t_def u_def split: if_splits)
  obtain sg where sg: "t = sg @ u" "sg \<in> {[], ''-'', ''+''}" "sg = ''-'' \<longleftrightarrow> t \<noteq> [] \<and> hd t = CHR ''-''"
  proof (cases "t \<noteq> [] \<and> (hd t = CHR ''-'' \<or> hd t = CHR ''+'')")
    case True
    then have "t = [hd t] @ u" "[hd t] \<in> {[], ''-'', ''+''}" by (auto simp: u_def)
    then show thesis using that True by blast
  next
    case False
    then have "t = [] @ u" by (simp only: u_def if_False append_Nil simp_thms)
    then show thesis using that False by blast
  qed
  have "int_text (sg @ takeWhile is_digit u) v"
    unfolding int_text_def
    by (rule exI [of _ sg], rule exI [of _ "takeWhile is_digit u"])
      (use d(1,3) sg(2,3) takeWhile_all [of is_digit u] in simp)
  moreover have "s = takeWhile is_space s @ (sg @ takeWhile is_digit u) @ r"
    using sg(1) d(2) takeWhile_dropWhile_id [of is_space s] takeWhile_dropWhile_id [of is_digit u] t_def by simp
  moreover have "r = [] \<or> \<not> is_digit (hd r)" using d(2) hd_dropWhile by blast
  ultimately show "\<exists>a t. spaces a \<and> int_text t v \<and> s = a @ t @ r \<and> (r = [] \<or> \<not> is_digit (hd r))" using takeWhile_all by blast
next
  assume "\<exists>a t. spaces a \<and> int_text t v \<and> s = a @ t @ r \<and> (r = [] \<or> \<not> is_digit (hd r))"
  then obtain a sg d where s: "spaces a" "s = a @ sg @ d @ r" "sg \<in> {[], ''-'', ''+''}" "d \<noteq> []" "list_all is_digit d"
    "v = saturate (if sg = ''-'' then - int (number d) else int (number d))" "r = [] \<or> \<not> is_digit (hd r)"
    unfolding int_text_def by force
  have hd: "is_digit (hd d)" "hd d \<noteq> CHR ''-''" "hd d \<noteq> CHR ''+''"
    using s(4,5) by (cases d; auto simp: is_digit_def)+
  have "\<not> is_space (hd (sg @ d @ r))" using s(3,4) hd(1) char_classes(3) by (cases d) (auto simp: is_space_def)
  then have t: "dropWhile is_space s = sg @ d @ r" unfolding s(2) by (intro span_append(2) [OF s(1)]) auto
  have "takeWhile is_digit (d @ r) = d" "dropWhile is_digit (d @ r) = r" using span_append [OF s(5,7)] by auto
  then show "scan_int s = Some (v, r)"
    using s(3,4,6) hd by (auto simp: scan_int_def t Let_def hd_append)
qed

lemma scan_entry_sound:
  assumes l: "scan_entry line = Some (key, v)"
  shows "\<exists>a b c t d. line = a @ key @ b @ CHR ''='' # c @ t @ d \<and> spaces a \<and> spaces b \<and> spaces c \<and> spaces d \<and>
    key \<noteq> [] \<and> length key \<le> 63 \<and> list_all is_key key \<and> int_text t v"
proof -
  define s where "s = dropWhile is_space line"
  define rest where "rest = dropWhile is_space (drop (length key) s)"
  have key: "key = take 63 (takeWhile is_key s)" "key \<noteq> []"
    using l by (auto simp: scan_entry_def Let_def s_def split: if_splits option.splits)
  have entry: "scan_entry line =
      (if key = [] \<or> rest = [] \<or> hd rest \<noteq> CHR ''='' then None
       else case scan_int (tl rest) of None \<Rightarrow> None
         | Some (v, r) \<Rightarrow> if dropWhile is_space r = [] then Some (key, v) else None)"
    by (simp only: scan_entry_def Let_def s_def [symmetric] key(1) [symmetric] rest_def [symmetric])
  have "rest \<noteq> [] \<and> hd rest = CHR ''='' \<and> (\<exists>r. scan_int (tl rest) = Some (v, r) \<and> dropWhile is_space r = [])"
    using l unfolding entry by (auto split: if_splits option.splits)
  then obtain t r where t: "rest = CHR ''='' # t" "scan_int t = Some (v, r)" "dropWhile is_space r = []"
    by (cases rest) auto
  note t = t(1) [unfolded rest_def] key t(2,3)
  obtain c n where n: "spaces c" "int_text n v" "t = c @ n @ r" using t(4) by (auto simp: scan_int_iff)
  have "s = key @ drop (length key) s"
  proof -
    have "s = key @ drop 63 (takeWhile is_key s) @ dropWhile is_key s"
      unfolding t(2) append_assoc [symmetric] append_take_drop_id takeWhile_dropWhile_id ..
    then show ?thesis by (metis append_eq_conv_conj)
  qed
  moreover have "drop (length key) s = takeWhile is_space (drop (length key) s) @ CHR ''='' # t"
    using t(1) takeWhile_dropWhile_id by metis
  moreover have "line = takeWhile is_space line @ s" by (simp add: s_def)
  ultimately have "line = takeWhile is_space line @ key @ takeWhile is_space (drop (length key) s) @ CHR ''='' # c @ n @ r"
    using n(3) by metis
  moreover have "spaces r" using t(5) by (simp add: dropWhile_eq_Nil_conv list_all_iff)
  moreover have "length key \<le> 63" "list_all is_key key"
    using t(2) takeWhile_all [of is_key s] by (auto simp: list_all_iff dest: in_set_takeD)
  ultimately show ?thesis
    using n t(3) takeWhile_all by blast
qed

lemma scan_entry_complete:
  assumes "\<exists>a b c t d. line = a @ key @ b @ CHR ''='' # c @ t @ d \<and> spaces a \<and> spaces b \<and> spaces c \<and> spaces d \<and>
    key \<noteq> [] \<and> length key \<le> 63 \<and> list_all is_key key \<and> int_text t v"
  shows "scan_entry line = Some (key, v)"
proof -
  obtain a b c t d where l: "line = a @ key @ b @ CHR ''='' # c @ t @ d" "spaces a" "spaces b" "spaces c" "spaces d"
    "key \<noteq> []" "length key \<le> 63" "list_all is_key key" "int_text t v" using assms by blast
  let ?rest = "b @ CHR ''='' # c @ t @ d"
  have "\<not> is_space (hd (key @ ?rest))" using l(6,8) key_chars by (cases key) auto
  then have s: "dropWhile is_space line = key @ ?rest" unfolding l(1) by (intro span_append(2) [OF l(2)]) auto
  have "?rest = [] \<or> \<not> is_key (hd ?rest)" using l(3) key_chars by (cases b) (auto simp: is_key_def)
  then have "takeWhile is_key (key @ ?rest) = key" by (rule span_append(1) [OF l(8)])
  then have key: "take 63 (takeWhile is_key (key @ ?rest)) = key" using l(7) by simp
  have "dropWhile is_space ?rest = CHR ''='' # c @ t @ d" by (rule span_append(2) [OF l(3)]) (simp add: char_classes)
  moreover have "scan_int (c @ t @ d) = Some (v, d)"
    unfolding scan_int_iff using l(4,5,9) char_classes(3) by (cases d) auto
  moreover have "dropWhile is_space d = []" using l(5) by (simp add: dropWhile_eq_Nil_conv list_all_iff)
  moreover have d: "drop (length key) (key @ ?rest) = ?rest" by simp
  ultimately show ?thesis using l(6) by (simp only: scan_entry_def Let_def s key) simp
qed

text \<open>
  A line of the config file is accepted as an entry exactly when it is a key of 1 to 63 letters, an
  equals sign and one decimal number, with white space between them as one likes and nothing else.
\<close>

theorem config_entry_syntax:
  "scan_entry line = Some (key, v) \<longleftrightarrow>
     (\<exists>a b c t d. line = a @ key @ b @ CHR ''='' # c @ t @ d \<and> spaces a \<and> spaces b \<and> spaces c \<and> spaces d \<and>
        key \<noteq> [] \<and> length key \<le> 63 \<and> list_all is_key key \<and> int_text t v)"
  by (rule iffI, erule scan_entry_sound, rule scan_entry_complete)

section \<open>Limits and long lines\<close>

text \<open>A limit below \<open>2 ^ 44\<close> MiB is exact; \<open>2 ^ 44\<close> MiB wraps to 0.\<close>

lemma limit_bytes_exact:
  assumes "0 \<le> v" and "v < 2 ^ 44"
  shows "unat (limit_bytes v) = nat v * 2 ^ 20"
proof -
  have n: "nat v * 2 ^ 20 < 2 ^ 64" using assms by simp
  have "(word_of_int v :: u64) = of_nat (nat v)" using assms(1) by simp
  then have p: "limit_bytes v = of_nat (nat v * 2 ^ 20)"
    using assms(1) by (simp add: limit_bytes_def push_bit_eq_mult mult.commute)
  show ?thesis unfolding p using n by (subst unsigned_of_nat, subst take_bit_nat_eq_self) simp_all
qed

lemma limit_bytes_wraps: "limit_bytes (2 ^ 44) = 0"
  by (simp add: limit_bytes_def push_bit_eq_mult word_of_int_eq_iff)

text \<open>A comment longer than the buffer: its rest is read as a line of its own.\<close>

lemma fgets_lines_Nil [simp]: "fgets_lines [] = []"
  by (simp add: fgets_lines.simps)

lemma fgets_lines_short:
  assumes "s \<noteq> []" and "CHR 0x0A \<notin> set s" and "length s \<le> 255"
  shows "fgets_lines s = [s]"
proof -
  have t: "takeWhile (\<lambda>c. c \<noteq> CHR 0x0A) s = s" using assms(2) by (auto simp: takeWhile_eq_all_conv)
  show ?thesis using assms by (subst fgets_lines.simps) (simp add: Let_def t)
qed

lemma fgets_lines_long:
  assumes "CHR 0x0A \<notin> set s" and "255 < length s"
  shows "fgets_lines s = take 255 s # fgets_lines (drop 255 s)"
proof -
  have t: "takeWhile (\<lambda>c. c \<noteq> CHR 0x0A) s = s" using assms(1) by (auto simp: takeWhile_eq_all_conv)
  show ?thesis using assms by (subst fgets_lines.simps) (auto simp: Let_def t)
qed

text \<open>
  The buffer of 256 characters cuts a long line: a file that is one comment of 256 to 509 letters
  \<open>x\<close> after the \<open>#\<close> is refused, because its tail is read as a second line, which is no entry.
\<close>

theorem long_comment_is_refused:
  assumes "255 \<le> n" and "n \<le> 509"
  shows "read_config (Some (CHR ''#'' # replicate n (CHR ''x''))) path = Inl (BBadLine 2)"
proof -
  let ?x = "replicate (n - 254) (CHR ''x'')"
  have f: "fgets_lines (CHR ''#'' # replicate n (CHR ''x'')) = [CHR ''#'' # replicate 254 (CHR ''x''), ?x]"
  proof -
    have "take 255 (CHR ''#'' # replicate n (CHR ''x'')) = CHR ''#'' # replicate 254 (CHR ''x'')"
      "drop 255 (CHR ''#'' # replicate n (CHR ''x'')) = ?x"
      using assms by (simp_all add: take_Cons' drop_Cons' min_def)
    moreover have "fgets_lines ?x = [?x]" using assms by (intro fgets_lines_short) auto
    ultimately show ?thesis using assms by (subst fgets_lines_long) auto
  qed
  have w: "takeWhile (\<lambda>c. c \<noteq> CHR ''#'') (c_string ?x) = ?x"
    by (simp add: c_string_def takeWhile_eq_all_conv)
  have x: "is_key (CHR ''x'')" "\<not> is_space (CHR ''x'')" "\<not> is_blank (CHR ''x'')"
    using char_of_eq_iff [of "9 :: nat" "CHR ''x''"] char_of_eq_iff [of "13 :: nat" "CHR ''x''"]
    by (auto simp: is_key_def is_space_def is_blank_def)
  have ne: "\<exists>k. ?x = CHR ''x'' # replicate k (CHR ''x'')" using assms by (cases "n - 254") auto
  have "takeWhile is_key ?x = ?x" using x by (simp add: takeWhile_eq_all_conv)
  moreover have "dropWhile is_space ?x = ?x" using ne x by auto
  ultimately have "scan_entry ?x = None"
  proof -
    have "dropWhile is_space (drop k ?x) = drop k ?x" for k using x by (cases "n - 254 - k") auto
    moreover have "drop k ?x = [] \<or> hd (drop k ?x) \<noteq> CHR ''=''" for k by (cases "n - 254 - k") auto
    ultimately show ?thesis
      using \<open>takeWhile is_key ?x = ?x\<close> \<open>dropWhile is_space ?x = ?x\<close> by (simp only: scan_entry_def Let_def) simp
  qed
  moreover have "\<not> list_all (\<lambda>c. is_blank c \<or> c = CHR 0x0A) ?x" using ne x by auto
  ultimately have "config_line 2 ?x g = Inl (BBadLine 2)" for g
    unfolding config_line_def Let_def w by simp
  moreover have "config_line 1 (CHR ''#'' # replicate 254 (CHR ''x'')) g = Inr g" for g
    by (simp add: config_line_def c_string_def)
  ultimately show ?thesis by (simp add: read_config_def f numeral_2_eq_2)
qed

theorem long_comment_is_refused_witness:
  "read_config (Some (CHR ''#'' # replicate 300 (CHR ''x''))) ''c'' = Inl (BBadLine 2)"
  by (rule long_comment_is_refused) simp_all

section \<open>Start-up\<close>

text \<open>How far start-up may go: the calls it may make, and which of them it has made when it serves.\<close>

definition config_accepted :: "BootWorld \<Rightarrow> bool" where
  "config_accepted w \<longleftrightarrow> (\<exists>s g. bw_config w = Some s \<and> config_lines 1 (fgets_lines s) new_global = Inr g)"

definition boot_calls :: "BootWorld \<Rightarrow> BootArgs \<Rightarrow> BootCall list" where
  "boot_calls w b =
     (case ba_config b of
        None \<Rightarrow> []
      | Some config \<Rightarrow>
          CLog (ba_log b) #
          (if \<not> bw_log w then []
           else CConfig config #
             (if \<not> config_accepted w \<or> 108 \<le> length (ba_path b) then []
              else CProbe (ba_path b) #
                (if bw_answers w then []
                 else CUnlink (ba_path b) # (if bw_socket w then [CBind (ba_path b)] else [])))))"

lemma read_config_accepted:
  "config_accepted w \<longleftrightarrow> (\<exists>g. read_config (bw_config w) path = Inr g)"
  by (auto simp: config_accepted_def read_config_def split: option.splits)

text \<open>
  C40. Start-up takes its steps in one order and none before its condition holds: it opens the log, then
  reads the config; only a config read to the end without an error, and a path that fits in a socket
  address, let it ask who listens on the path; only if nobody answers does it remove the file there, and
  then bind. It serves only after all five, with no tenants and the limits of the file, on the path that
  the arguments name. Otherwise it exits, with code 2 for its usage and 1 for all else, having made
  exactly the calls up to the step that failed: with a bad config the path is not even probed.
\<close>

theorem start_up_is_safe:
  "let b0 = boot_args args default_args
   in snd (broker_main w pid args) = boot_calls w b0 \<and>
      (case fst (broker_main w pid args) of
         Serves a l b \<Rightarrow>
           (\<exists>config. a = ba_path b0 \<and> \<not> bw_answers w \<and> length a < 108 \<and> config_accepted w \<and>
              boot_calls w b0 = [CLog (ba_log b0), CConfig config, CProbe a, CUnlink a, CBind a] \<and>
              read_config (bw_config w) config = Inr (b_global b) \<and> b_tenants b = [])
       | Exits code e \<Rightarrow> code = (if ba_config b0 = None then 2 else 1))"
proof -
  define b0 where "b0 = boot_args args default_args"
  have "snd (broker_main w pid args) = boot_calls w b0 \<and>
      (case fst (broker_main w pid args) of
         Serves a l b \<Rightarrow>
           (\<exists>config. a = ba_path b0 \<and> \<not> bw_answers w \<and> length a < 108 \<and> config_accepted w \<and>
              boot_calls w b0 = [CLog (ba_log b0), CConfig config, CProbe a, CUnlink a, CBind a] \<and>
              read_config (bw_config w) config = Inr (b_global b) \<and> b_tenants b = [])
       | Exits code e \<Rightarrow> code = (if ba_config b0 = None then 2 else 1))"
  proof (cases "ba_config b0")
    case None
    then show ?thesis by (simp add: broker_main_def boot_calls_def Let_def b0_def)
  next
    case (Some config)
    note A = read_config_accepted [of w config]
    show ?thesis
    proof (cases "read_config (bw_config w) config")
      case (Inl e)
      then have "\<not> config_accepted w" using A by simp
      then show ?thesis using Some Inl by (simp add: broker_main_def boot_calls_def Let_def b0_def)
    next
      case (Inr g)
      then have "config_accepted w" using A by simp
      then show ?thesis using Some Inr
        by (simp add: broker_main_def boot_calls_def Let_def b0_def listen_on_def address_of_def watch_def start_broker_def)
    qed
  qed
  then show ?thesis by (simp only: Let_def b0_def)
qed

text \<open>A config with a bad value: the path is left alone.\<close>

theorem start_up_is_safe_witness:
  "(let w = \<lparr>bw_log = True, bw_config = Some ''vram_limit_mib = -5'', bw_answers = False, bw_socket = True,
      bw_bind = True, bw_listen = True, bw_epoll = True, bw_watch = True\<rparr>
    in snd (broker_main w 1 [''--config'', ''c'']) = [CLog ''/tmp/vmemd.log'', CConfig ''c''])"
proof -
  define w where "w = \<lparr>bw_log = True, bw_config = Some ''vram_limit_mib = -5'', bw_answers = False, bw_socket = True,
      bw_bind = True, bw_listen = True, bw_epoll = True, bw_watch = True\<rparr>"
  have "config_lines 1 (fgets_lines ''vram_limit_mib = -5'') new_global = Inl (BBadLine 1)" by code_simp
  then have c: "\<not> config_accepted w" by (simp add: config_accepted_def w_def)
  have l: "bw_log w" by (simp add: w_def)
  have b: "boot_args [''--config'', ''c''] default_args = default_args\<lparr>ba_config := Some ''c''\<rparr>" by simp
  show ?thesis unfolding Let_def w_def [symmetric]
    using start_up_is_safe [of "[''--config'', ''c'']" w 1] c l by (simp add: b Let_def boot_calls_def default_args_def)
qed

end
