(* ===== verification/Paged_Memory.thy ===== *)
theory Paged_Memory
  imports Driver
begin

text \<open>
  The virtual memory calls of the CUDA driver as the experiments use them: several backings mapped side
  by side into one reservation, and data read and written byte by byte. As in \<open>Driver\<close>, the driver is a
  parameter that sees the history of requests; \<open>memory\<close> reads a history as the documentation does, byte
  address by byte address, and \<open>legal\<close> says which requests the documentation allows. To whom a
  \<open>cuMemSetAccess\<close> gives access is not part of the request: the remapping vector and the probe give it to
  device 0, the plain vector to the place of its chunks, which with \<open>use_device = false\<close> is the NUMA node
  of the host. Whether the device could then use the memory in a kernel is left open; no kernel runs on
  such a vector, and the copies of the driver are taken to be allowed.
\<close>

section \<open>Requests and answers\<close>

type_synonym bytes = "8 word list"

datatype request =
    QGranularity Prop        \<comment> \<open>cuMemGetAllocationGranularity (MINIMUM): its answer is a size\<close>
  | QReserve u64             \<comment> \<open>cuMemAddressReserve: size; its answer is an address\<close>
  | QAddrFree u64 u64        \<comment> \<open>cuMemAddressFree: address, size\<close>
  | QCreate u64 Prop         \<comment> \<open>cuMemCreate: size, placement; its answer is a handle\<close>
  | QRelease u64             \<comment> \<open>cuMemRelease: handle\<close>
  | QMap u64 u64 u64         \<comment> \<open>cuMemMap: address, size, handle\<close>
  | QUnmap u64 u64           \<comment> \<open>cuMemUnmap: address, size\<close>
  | QAccess u64 u64          \<comment> \<open>cuMemSetAccess: address, size (read and write)\<close>
  | QWrite u64 bytes         \<comment> \<open>cuMemcpyHtoD: address, data\<close>
  | QRead u64 u64            \<comment> \<open>cuMemcpyDtoH: address, size; its data is \<open>pe_bytes\<close>\<close>
  | QCopy u64 u64 u64        \<comment> \<open>cuMemcpyDtoD: destination, source, size\<close>
  | QSync                    \<comment> \<open>cuCtxSynchronize\<close>

text \<open>A request with its result and, where it has one, the value it answers.\<close>

type_synonym requests = "(request \<times> CUresult \<times> u64) list"

record PEnv =
  pe_result :: "requests \<Rightarrow> request \<Rightarrow> CUresult"
  pe_value :: "requests \<Rightarrow> request \<Rightarrow> u64"
  pe_bytes :: "requests \<Rightarrow> u64 \<Rightarrow> u64 \<Rightarrow> bytes"

section \<open>Reading a history\<close>

text \<open>
  Reservations by address; live handles with size and placement; for every byte address what is mapped
  there (handle, offset in it, size of the mapping) and whether it may be accessed; and the bytes of
  every handle, \<open>None\<close> while nothing was written.
\<close>

record Mem =
  mm_reserved :: "u64 \<Rightarrow> u64 option"
  mm_handles :: "u64 \<Rightarrow> (u64 \<times> Prop) option"
  mm_page :: "nat \<Rightarrow> (u64 \<times> nat \<times> u64) option"
  mm_open :: "nat \<Rightarrow> bool"
  mm_data :: "u64 \<Rightarrow> nat \<Rightarrow> 8 word option"

definition no_mem :: Mem where
  "no_mem = \<lparr>mm_reserved = (\<lambda>_. None), mm_handles = (\<lambda>_. None), mm_page = (\<lambda>_. None), mm_open = (\<lambda>_. False),
     mm_data = (\<lambda>_ _. None)\<rparr>"

definition inside :: "u64 \<Rightarrow> u64 \<Rightarrow> nat \<Rightarrow> bool" where
  "inside va n a \<longleftrightarrow> unat va \<le> a \<and> a < unat va + unat n"

definition byte_at :: "Mem \<Rightarrow> nat \<Rightarrow> 8 word option" where
  "byte_at m a = (case mm_page m a of Some (h, off, n) \<Rightarrow> mm_data m h off | None \<Rightarrow> None)"

text \<open>Storing a byte at an address stores it in the backing mapped there.\<close>

definition put_byte :: "nat \<Rightarrow> 8 word option \<Rightarrow> Mem \<Rightarrow> Mem" where
  "put_byte a x m =
     (case mm_page m a of
        Some (h, off, n) \<Rightarrow> m\<lparr>mm_data := (mm_data m)(h := (mm_data m h)(off := x))\<rparr>
      | None \<Rightarrow> m)"

fun put_bytes :: "nat \<Rightarrow> 8 word option list \<Rightarrow> Mem \<Rightarrow> Mem" where
  "put_bytes a [] m = m"
| "put_bytes a (x # xs) m = put_bytes (Suc a) xs (put_byte a x m)"

definition bytes_at :: "Mem \<Rightarrow> nat \<Rightarrow> nat \<Rightarrow> 8 word option list" where
  "bytes_at m a n = map (byte_at m) [a ..< a + n]"

text \<open>The documented effect of a request that succeeded.\<close>

fun effect :: "request \<Rightarrow> u64 \<Rightarrow> Mem \<Rightarrow> Mem" where
  "effect (QReserve n) va m = m\<lparr>mm_reserved := (mm_reserved m)(va \<mapsto> n)\<rparr>"
| "effect (QAddrFree va n) _ m = m\<lparr>mm_reserved := (mm_reserved m)(va := None)\<rparr>"
| "effect (QCreate n p) h m =
     m\<lparr>mm_handles := (mm_handles m)(h \<mapsto> (n, p)), mm_data := (mm_data m)(h := (\<lambda>_. None))\<rparr>"
| "effect (QRelease h) _ m = m\<lparr>mm_handles := (mm_handles m)(h := None)\<rparr>"
| "effect (QMap va n h) _ m =
     m\<lparr>mm_page := (\<lambda>a. if inside va n a then Some (h, a - unat va, n) else mm_page m a),
       mm_open := (\<lambda>a. mm_open m a \<and> \<not> inside va n a)\<rparr>"
| "effect (QUnmap va n) _ m =
     m\<lparr>mm_page := (\<lambda>a. if inside va n a then None else mm_page m a),
       mm_open := (\<lambda>a. mm_open m a \<and> \<not> inside va n a)\<rparr>"
| "effect (QAccess va n) _ m = m\<lparr>mm_open := (\<lambda>a. mm_open m a \<or> inside va n a)\<rparr>"
| "effect (QWrite va bs) _ m = put_bytes (unat va) (map Some bs) m"
| "effect (QCopy dst src n) _ m = put_bytes (unat dst) (bytes_at m (unat src) (unat n)) m"
| "effect (QGranularity _) _ m = m"
| "effect (QRead _ _) _ m = m"
| "effect QSync _ m = m"

fun after :: "request \<times> CUresult \<times> u64 \<Rightarrow> Mem \<Rightarrow> Mem" where
  "after (q, r, x) m = (if r = CUDA_SUCCESS then effect q x m else m)"

definition memory :: "requests \<Rightarrow> Mem" where
  "memory hs = fold after hs no_mem"

lemma memory_append [simp]: "memory (hs @ es) = fold after es (memory hs)"
  by (simp add: memory_def)

lemma memory_Nil [simp]: "memory [] = no_mem"
  by (simp add: memory_def)

section \<open>What the documentation allows\<close>

text \<open>A range of bytes that is reserved, mapped throughout, or accessible throughout.\<close>

definition in_reservation :: "Mem \<Rightarrow> u64 \<Rightarrow> u64 \<Rightarrow> bool" where
  "in_reservation m va n \<longleftrightarrow>
     (\<exists>b k. mm_reserved m b = Some k \<and> unat b \<le> unat va \<and> unat va + unat n \<le> unat b + unat k)"

definition unmapped :: "Mem \<Rightarrow> u64 \<Rightarrow> u64 \<Rightarrow> bool" where
  "unmapped m va n \<longleftrightarrow> (\<forall>a. inside va n a \<longrightarrow> mm_page m a = None)"

definition accessible :: "Mem \<Rightarrow> u64 \<Rightarrow> u64 \<Rightarrow> bool" where
  "accessible m va n \<longleftrightarrow> (\<forall>a. inside va n a \<longrightarrow> mm_page m a \<noteq> None \<and> mm_open m a)"

text \<open>The range holds mappings throughout, each of them whole.\<close>

definition whole_mappings :: "Mem \<Rightarrow> u64 \<Rightarrow> u64 \<Rightarrow> bool" where
  "whole_mappings m va n \<longleftrightarrow>
     (\<forall>a. inside va n a \<longrightarrow> (\<exists>h off k. mm_page m a = Some (h, off, k) \<and>
        unat va + off \<le> a \<and> a - off + unat k \<le> unat va + unat n))"

text \<open>
  \<open>gran\<close>: the granularity of backings at a placement; backings are multiples of it, ranges of the page
  size of the host.
\<close>

type_synonym granularity = "Prop \<Rightarrow> nat"

fun legal :: "granularity \<Rightarrow> Mem \<Rightarrow> request \<Rightarrow> bool" where
  "legal gran m (QGranularity _) \<longleftrightarrow> True"
| "legal gran m (QReserve n) \<longleftrightarrow> n \<noteq> 0 \<and> unat n mod 4096 = 0"
| "legal gran m (QAddrFree va n) \<longleftrightarrow> mm_reserved m va = Some n \<and> unmapped m va n"
| "legal gran m (QCreate n p) \<longleftrightarrow> n \<noteq> 0 \<and> unat n mod gran p = 0"
| "legal gran m (QRelease h) \<longleftrightarrow> mm_handles m h \<noteq> None"
| "legal gran m (QMap va n h) \<longleftrightarrow>
     in_reservation m va n \<and> unmapped m va n \<and> map_option fst (mm_handles m h) = Some n"
| "legal gran m (QUnmap va n) \<longleftrightarrow> n \<noteq> 0 \<and> whole_mappings m va n"
| "legal gran m (QAccess va n) \<longleftrightarrow> n \<noteq> 0 \<and> whole_mappings m va n"
| "legal gran m (QWrite va bs) \<longleftrightarrow> accessible m va (of_nat (length bs))"
| "legal gran m (QRead va n) \<longleftrightarrow> accessible m va n"
| "legal gran m (QCopy dst src n) \<longleftrightarrow> accessible m dst n \<and> accessible m src n"
| "legal gran m QSync \<longleftrightarrow> True"

text \<open>Every request of a history was legal when it was made.\<close>

fun lawful_from :: "granularity \<Rightarrow> Mem \<Rightarrow> requests \<Rightarrow> bool" where
  "lawful_from gran m [] \<longleftrightarrow> True"
| "lawful_from gran m ((q, r, x) # es) \<longleftrightarrow> legal gran m q \<and> lawful_from gran (after (q, r, x) m) es"

definition lawful :: "granularity \<Rightarrow> requests \<Rightarrow> bool" where
  "lawful gran hs \<longleftrightarrow> lawful_from gran no_mem hs"

lemma lawful_Nil [simp]: "lawful gran []"
  by (simp add: lawful_def)

lemma lawful_from_append: "lawful_from gran m (hs @ es) \<longleftrightarrow> lawful_from gran m hs \<and> lawful_from gran (fold after hs m) es"
proof (induction hs arbitrary: m)
  case (Cons e hs)
  obtain q r x where "e = (q, r, x)" by (cases e)
  then show ?case using Cons [of "after e m"] by (simp del: after.simps)
qed simp

lemma lawful_append [simp]: "lawful gran (hs @ es) \<longleftrightarrow> lawful gran hs \<and> lawful_from gran (memory hs) es"
  by (simp add: lawful_def lawful_from_append memory_def)

text \<open>
  The documented answers: granularities are powers of two, of the host's page at least; a new range is below \<open>2 ^ 57\<close>, not at
  0, overlaps no reserved range and holds no mapping; a new handle is not live; data read is what was
  written, where something was.
\<close>

definition documented :: "granularity \<Rightarrow> PEnv \<Rightarrow> bool" where
  "documented gran env \<longleftrightarrow>
     (\<forall>p. \<exists>k\<ge>12. gran p = 2 ^ k) \<and>
     (\<forall>hs p. pe_result env hs (QGranularity p) = CUDA_SUCCESS \<longrightarrow> unat (pe_value env hs (QGranularity p)) = gran p) \<and>
     (\<forall>hs n va. pe_result env hs (QReserve n) = CUDA_SUCCESS \<longrightarrow> pe_value env hs (QReserve n) = va \<longrightarrow>
        va \<noteq> 0 \<and> unat va + unat n \<le> 2 ^ 57 \<and> unmapped (memory hs) va n \<and>
        (\<forall>b k. mm_reserved (memory hs) b = Some k \<longrightarrow> apart b k va n)) \<and>
     (\<forall>hs n p. pe_result env hs (QCreate n p) = CUDA_SUCCESS \<longrightarrow>
        mm_handles (memory hs) (pe_value env hs (QCreate n p)) = None) \<and>
     (\<forall>hs va n xs. bytes_at (memory hs) (unat va) (unat n) = map Some xs \<longrightarrow> pe_bytes env hs va n = xs)"

text \<open>A driver that does what it is legally asked; only new memory and new ranges may be refused.\<close>

fun may_refuse :: "request \<Rightarrow> bool" where
  "may_refuse (QGranularity _) = True"
| "may_refuse (QReserve _) = True"
| "may_refuse (QCreate _ _) = True"
| "may_refuse _ = False"

definition obliging :: "granularity \<Rightarrow> PEnv \<Rightarrow> bool" where
  "obliging gran env \<longleftrightarrow>
     (\<forall>hs q. legal gran (memory hs) q \<longrightarrow> \<not> may_refuse q \<longrightarrow> pe_result env hs q = CUDA_SUCCESS)"

lemma documentedD:
  assumes "documented gran env"
  shows "\<exists>k\<ge>12. gran p = 2 ^ k"
    and "pe_result env hs (QGranularity p) = CUDA_SUCCESS \<Longrightarrow> unat (pe_value env hs (QGranularity p)) = gran p"
    and "pe_result env hs (QReserve n) = CUDA_SUCCESS \<Longrightarrow> pe_value env hs (QReserve n) = va \<Longrightarrow>
        va \<noteq> 0 \<and> unat va + unat n \<le> 2 ^ 57 \<and> unmapped (memory hs) va n \<and>
        (\<forall>b k. mm_reserved (memory hs) b = Some k \<longrightarrow> apart b k va n)"
    and "pe_result env hs (QCreate n p) = CUDA_SUCCESS \<Longrightarrow>
        mm_handles (memory hs) (pe_value env hs (QCreate n p)) = None"
    and "bytes_at (memory hs) (unat va) (unat n) = map Some xs \<Longrightarrow> pe_bytes env hs va n = xs"
  using assms unfolding documented_def by meson+

end
