(* ===== verification/Vector.thy ===== *)
theory Vector
  imports Paged_Memory
begin

text \<open>
  The growable vector on virtual memory (\<open>experiments/VMMVector/vmm_vector.cuh\<close>, \<open>common.cuh\<close>): elements
  of \<open>s = sizeof(T)\<close> bytes in chunks mapped one after the other into one reserved range. The fields that
  the vector shares with its remapping variant (\<open>experiments/VMMRemapShared/vmm_remap.cuh\<close>) are the
  record \<open>Vec\<close>; it extends \<open>Proc\<close>, which holds the history of driver requests.
\<close>

section \<open>Outcomes\<close>

text \<open>
  A call returns, throws \<open>std::runtime_error\<close>, ends the process (\<open>CU_CHECK\<close>), or is undefined.
\<close>

datatype 'a ending = Done 'a | Throws string | Quits CUresult | Undef

type_synonym ('v, 'a) act = "'v \<Rightarrow> 'a ending \<times> 'v"

definition vbind :: "('v, 'a) act \<Rightarrow> ('a \<Rightarrow> ('v, 'b) act) \<Rightarrow> ('v, 'b) act" where
  "vbind f g v =
     (case f v of
        (Done x, v) \<Rightarrow> g x v
      | (Throws e, v) \<Rightarrow> (Throws e, v)
      | (Quits r, v) \<Rightarrow> (Quits r, v)
      | (Undef, v) \<Rightarrow> (Undef, v))"

text \<open>A process that talks to the driver, and what a vector adds to it.\<close>

record Proc =
  v_hist :: requests

record Vec = Proc +
  v_dptr :: u64
  v_size :: u64
  v_cap :: u64
  v_max :: u64
  v_chunk :: u64
  v_fits :: u64
  v_props :: Prop
  v_handles :: "u64 list"

record VMMVector = Vec +
  vv_retain :: int

text \<open>\<open>CU_CHECK(call)\<close>, with what the call answers.\<close>

definition CU_CHECK :: "PEnv \<Rightarrow> request \<Rightarrow> ('z Proc_scheme, u64) act" where
  "CU_CHECK env q v =
     (let r = pe_result env (v_hist v) q; x = pe_value env (v_hist v) q
      in (if r = CUDA_SUCCESS then Done x else Quits r, v\<lparr>v_hist := v_hist v @ [(q, r, x)]\<rparr>))"

definition ROUND_UP :: "u64 \<Rightarrow> u64 \<Rightarrow> u64" where
  "ROUND_UP x granularity = (x + granularity - 1) div granularity * granularity"

section \<open>Chunks\<close>

definition push_chunk :: "PEnv \<Rightarrow> ('z Vec_scheme, u64) act" where
  "push_chunk env v =
     vbind (CU_CHECK env (QCreate (v_chunk v) (v_props v)))
       (\<lambda>h v. (Done h, v\<lparr>v_handles := v_handles v @ [h], v_cap := v_cap v + v_fits v\<rparr>)) v"

text \<open>\<open>back\<close> of an empty vector is undefined.\<close>

definition pop_chunk :: "PEnv \<Rightarrow> ('z Vec_scheme, unit) act" where
  "pop_chunk env v =
     (if v_handles v = [] then (Undef, v)
      else vbind (CU_CHECK env (QRelease (last (v_handles v))))
        (\<lambda>_ v. (Done (), v\<lparr>v_handles := butlast (v_handles v), v_cap := v_cap v - v_fits v\<rparr>)) v)"

definition vec_map_chunk :: "PEnv \<Rightarrow> u64 \<Rightarrow> u64 \<Rightarrow> ('z Vec_scheme, u64) act" where
  "vec_map_chunk env ptr h v = CU_CHECK env (QMap ptr (v_chunk v) h) v"

definition vec_unmap_chunk :: "PEnv \<Rightarrow> u64 \<Rightarrow> ('z Vec_scheme, u64) act" where
  "vec_unmap_chunk env ptr v = CU_CHECK env (QUnmap ptr (v_chunk v)) v"

text \<open>
  The descriptor names the location of the chunks, device 0 or, with \<open>use_device = false\<close>, the host's NUMA
  node; the request does not record which.
\<close>

definition vec_set_access :: "PEnv \<Rightarrow> u64 \<Rightarrow> ('z Vec_scheme, u64) act" where
  "vec_set_access env ptr v = CU_CHECK env (QAccess ptr (v_chunk v)) v"

section \<open>Construction and destruction\<close>

text \<open>
  The constructor on a process that has made the requests \<open>hs\<close>. \<open>chunk_fits_\<close> is not initialised before
  the checks and not read by them; 0 stands for it. Dividing by a granularity of 0 is undefined.
\<close>

definition new_vector ::
    "PEnv \<Rightarrow> u64 \<Rightarrow> u64 \<Rightarrow> u64 \<Rightarrow> int \<Rightarrow> bool \<Rightarrow> requests \<Rightarrow> unit ending \<times> VMMVector" where
  "new_vector env s max_capacity chunk_size retain use_device hs =
     (let p = \<lparr>p_type = if use_device then LocDevice else LocHostNuma, p_id = 0\<rparr>
      in vbind (CU_CHECK env (QGranularity p))
           (\<lambda>g v.
              if g = 0 then (Undef, v)
              else let c = ROUND_UP chunk_size g; v = v\<lparr>v_chunk := c\<rparr>
                in if c = 0 then (Throws ''chunk_size must be > 0'', v)
                   else if c < s then (Throws ''chunk_size must be >= sizeof(T)'', v)
                   else if c mod s \<noteq> 0 then (Throws ''chunk_size must be multiple of sizeof(T)'', v)
                   else let f = c div s; v = v\<lparr>v_fits := f, v_max := ROUND_UP max_capacity f\<rparr>
                     in vbind (CU_CHECK env (QReserve (v_max v * s))) (\<lambda>d v. (Done (), v\<lparr>v_dptr := d\<rparr>)) v)
           \<lparr>v_hist = hs, v_dptr = 0, v_size = 0, v_cap = 0, v_max = max_capacity, v_chunk = chunk_size, v_fits = 0, v_props = p,
            v_handles = [], vv_retain = retain\<rparr>)"

fun release_all :: "PEnv \<Rightarrow> u64 list \<Rightarrow> ('z Vec_scheme, unit) act" where
  "release_all env [] v = (Done (), v)"
| "release_all env (h # hs) v = vbind (CU_CHECK env (QRelease h)) (\<lambda>_. release_all env hs) v"

definition drop_vector :: "PEnv \<Rightarrow> u64 \<Rightarrow> ('z Vec_scheme, unit) act" where
  "drop_vector env s v =
     vbind (if v_dptr v \<noteq> 0 \<and> v_cap v \<noteq> 0 then CU_CHECK env (QUnmap (v_dptr v) (v_cap v * s)) else Pair (Done 0))
       (\<lambda>_ v. vbind (release_all env (v_handles v))
         (\<lambda>_ v. vbind (if v_dptr v \<noteq> 0 \<and> v_max v \<noteq> 0 then CU_CHECK env (QAddrFree (v_dptr v) (v_max v * s))
                        else Pair (Done 0))
            (\<lambda>_. Pair (Done ())) v) v) v"

section \<open>Operations\<close>

fun reserve_chunks :: "PEnv \<Rightarrow> nat \<Rightarrow> u64 \<Rightarrow> ('z Vec_scheme, unit) act" where
  "reserve_chunks env 0 ptr v = (Done (), v)"
| "reserve_chunks env (Suc k) ptr v =
     vbind (push_chunk env)
       (\<lambda>h. vbind (vec_map_chunk env ptr h)
         (\<lambda>_. vbind (vec_set_access env ptr)
           (\<lambda>_ v. reserve_chunks env k (ptr + v_chunk v) v))) v"

definition vec_reserve :: "PEnv \<Rightarrow> u64 \<Rightarrow> u64 \<Rightarrow> ('z Vec_scheme, unit) act" where
  "vec_reserve env s n v =
     (if n \<le> v_cap v then (Done (), v)
      else let nc = ROUND_UP n (v_fits v)
        in if v_max v < nc then (Throws ''max_capacity exceeded'', v)
           else reserve_chunks env (unat (nc div v_fits v - v_cap v div v_fits v)) (v_dptr v + v_cap v * s) v)"

definition push_back :: "PEnv \<Rightarrow> u64 \<Rightarrow> bytes \<Rightarrow> ('z Vec_scheme, unit) act" where
  "push_back env s x v =
     vbind (if v_size v = v_cap v then vec_reserve env s (if 1 < v_size v then v_size v * 2 else 2) else Pair (Done ()))
       (\<lambda>_ v. vbind (CU_CHECK env (QWrite (v_dptr v + v_size v * s) x))
         (\<lambda>_ v. (Done (), v\<lparr>v_size := v_size v + 1\<rparr>)) v) v"

text \<open>\<open>retain_last_ + 1\<close> overflows an \<open>int\<close> at its greatest value.\<close>

definition pop_back :: "PEnv \<Rightarrow> u64 \<Rightarrow> (VMMVector, unit) act" where
  "pop_back env s v =
     (if v_size v = 0 then (Done (), v)
      else let v = v\<lparr>v_size := v_size v - 1\<rparr>
        in if vv_retain v = -1 then (Done (), v)
           else if vv_retain v = 2147483647 then (Undef, v)
           else if v_cap v - v_size v \<ge> word_of_int (vv_retain v + 1) * v_fits v
             then vbind (vec_unmap_chunk env (v_dptr v + (v_cap v - v_fits v) * s)) (\<lambda>_. pop_chunk env) v
           else (Done (), v))"

fun pop_times :: "PEnv \<Rightarrow> u64 \<Rightarrow> nat \<Rightarrow> (VMMVector, unit) act" where
  "pop_times env s 0 v = (Done (), v)"
| "pop_times env s (Suc k) v = vbind (pop_back env s) (\<lambda>_. pop_times env s k) v"

fun push_times :: "PEnv \<Rightarrow> u64 \<Rightarrow> bytes \<Rightarrow> nat \<Rightarrow> ('z Vec_scheme, unit) act" where
  "push_times env s x 0 v = (Done (), v)"
| "push_times env s x (Suc k) v = vbind (push_back env s x) (\<lambda>_. push_times env s x k) v"

text \<open>\<open>zero\<close> is \<open>T{}\<close>.\<close>

definition vec_resize :: "PEnv \<Rightarrow> u64 \<Rightarrow> bytes \<Rightarrow> u64 \<Rightarrow> (VMMVector, unit) act" where
  "vec_resize env s zero n v =
     (if n \<le> v_size v then pop_times env s (unat (v_size v - n)) v
      else vbind (if v_cap v < n then vec_reserve env s n else Pair (Done ()))
        (\<lambda>_ v. push_times env s zero (unat (n - v_size v)) v) v)"

definition buf_size :: "u64 \<Rightarrow> 'z Vec_scheme \<Rightarrow> u64" where
  "buf_size s v = v_size v * s"

definition set_retain_last :: "int \<Rightarrow> VMMVector \<Rightarrow> VMMVector" where
  "set_retain_last r v = v\<lparr>vv_retain := r\<rparr>"

text \<open>The number of bytes and the bytes copied.\<close>

definition copy_to_host :: "PEnv \<Rightarrow> u64 \<Rightarrow> ('z Vec_scheme, u64 \<times> bytes) act" where
  "copy_to_host env s v =
     vbind (CU_CHECK env (QRead (v_dptr v) (v_size v * s)))
       (\<lambda>_. Pair (Done (v_size v * s, pe_bytes env (v_hist v) (v_dptr v) (v_size v * s)))) v"

end
