(* ===== verification/Vector_Memory.thy ===== *)
theory Vector_Memory
  imports Vector
begin

text \<open>
  Chunks side by side in one range: what the driver's memory looks like while a vector holds it
  (\<open>layout\<close>), and what growing, shrinking, writing and swapping a backing do to it.
\<close>

section \<open>Bytes\<close>

text \<open>The place in a backing that a byte address stands for.\<close>

definition cell :: "Mem \<Rightarrow> nat \<Rightarrow> (u64 \<times> nat) option" where
  "cell m a = map_option (\<lambda>(h, off, n). (h, off)) (mm_page m a)"

lemma put_byte_frame [simp]:
  "mm_page (put_byte a x m) = mm_page m" "mm_handles (put_byte a x m) = mm_handles m"
  "mm_open (put_byte a x m) = mm_open m" "mm_reserved (put_byte a x m) = mm_reserved m"
  "cell (put_byte a x m) = cell m"
  by (auto simp: put_byte_def cell_def split: option.splits)

lemma put_bytes_frame [simp]:
  "mm_page (put_bytes a xs m) = mm_page m" "mm_handles (put_bytes a xs m) = mm_handles m"
  "mm_open (put_bytes a xs m) = mm_open m" "mm_reserved (put_bytes a xs m) = mm_reserved m"
  "cell (put_bytes a xs m) = cell m"
  by (induction xs arbitrary: a m) simp_all

lemma byte_put_byte:
  "cell m a \<noteq> None \<Longrightarrow> byte_at (put_byte a x m) b = (if cell m b = cell m a then x else byte_at m b)"
  by (auto simp: cell_def byte_at_def put_byte_def split: option.splits)

lemma byte_put_bytes_other:
  assumes "\<And>i. i < length xs \<Longrightarrow> cell m (a + i) \<noteq> None \<and> cell m (a + i) \<noteq> cell m b"
  shows "byte_at (put_bytes a xs m) b = byte_at m b"
  using assms
proof (induction xs arbitrary: a m)
  case (Cons x xs)
  have "cell m a \<noteq> None \<and> cell m a \<noteq> cell m b" using Cons.prems [of 0] by simp
  moreover have "cell m (Suc a + i) \<noteq> None \<and> cell m (Suc a + i) \<noteq> cell m b" if "i < length xs" for i
    using Cons.prems [of "Suc i"] that by simp
  ultimately show ?case using Cons.IH [of "put_byte a x m" "Suc a"] by (auto simp: byte_put_byte)
qed simp

lemma byte_put_bytes:
  assumes "\<And>i. i < length xs \<Longrightarrow> cell m (a + i) \<noteq> None"
    and "\<And>i j. i < length xs \<Longrightarrow> j < length xs \<Longrightarrow> cell m (a + i) = cell m (a + j) \<Longrightarrow> i = j"
    and "i < length xs"
  shows "byte_at (put_bytes a xs m) (a + i) = xs ! i"
  using assms
proof (induction xs arbitrary: a m i)
  case (Cons x xs)
  have c: "cell m a \<noteq> None" using Cons.prems(1) [of 0] by simp
  have c': "cell m (Suc a + j) \<noteq> None" if "j < length xs" for j using Cons.prems(1) [of "Suc j"] that by simp
  show ?case
  proof (cases i)
    case 0
    have "cell m (Suc a + j) \<noteq> cell m a" if "j < length xs" for j
      using Cons.prems(2) [of "Suc j" 0] that by auto
    then have "byte_at (put_bytes (Suc a) xs (put_byte a x m)) a = byte_at (put_byte a x m) a"
      using c' by (intro byte_put_bytes_other) simp
    then show ?thesis using 0 c by (simp add: byte_put_byte)
  next
    case (Suc j)
    have "byte_at (put_bytes (Suc a) xs (put_byte a x m)) (Suc a + j) = xs ! j"
      using Cons.prems(2) [of "Suc _" "Suc _"] Cons.prems(3) c' Suc by (intro Cons.IH) auto
    then show ?thesis using Suc by simp
  qed
qed simp

section \<open>The range of a vector\<close>

text \<open>
  \<open>room\<close> bytes from \<open>base\<close> on; the chunks \<open>hs\<close>, of \<open>c\<close> bytes and placements \<open>ps\<close>, are mapped from its
  start, one after the other, and may be accessed; nothing else is mapped, no other handle is live.
\<close>

definition layout :: "Mem \<Rightarrow> nat \<Rightarrow> u64 \<Rightarrow> nat \<Rightarrow> u64 list \<Rightarrow> Prop list \<Rightarrow> bool" where
  "layout m base c room hs ps \<longleftrightarrow>
     0 < unat c \<and> 0 < base \<and> length hs * unat c \<le> room \<and> base + room \<le> 2 ^ 57 \<and> distinct hs \<and>
     map (mm_handles m) hs = map (\<lambda>p. Some (c, p)) ps \<and>
     (\<forall>i < room. mm_page m (base + i) =
        (if i < length hs * unat c then Some (hs ! (i div unat c), i mod unat c, c) else None)) \<and>
     (\<forall>i < length hs * unat c. mm_open m (base + i)) \<and>
     dom (mm_handles m) = set hs \<and>
     (\<forall>a. a < base \<or> base + room \<le> a \<longrightarrow> mm_page m a = None)"

lemma layoutD:
  assumes "layout m base c room hs ps"
  shows "0 < unat c" and "0 < base" and "length hs * unat c \<le> room" and "base + room \<le> 2 ^ 57" and "distinct hs"
    and "map (mm_handles m) hs = map (\<lambda>p. Some (c, p)) ps"
    and "i < room \<Longrightarrow> mm_page m (base + i) =
        (if i < length hs * unat c then Some (hs ! (i div unat c), i mod unat c, c) else None)"
    and "i < length hs * unat c \<Longrightarrow> mm_open m (base + i)"
    and "dom (mm_handles m) = set hs"
    and "a < base \<or> base + room \<le> a \<Longrightarrow> mm_page m a = None"
  using assms unfolding layout_def by auto

lemma layout_places: "layout m base c room hs ps \<Longrightarrow> length ps = length hs"
  using layoutD(6) map_eq_imp_length_eq by metis

lemma layout_handle:
  assumes "layout m base c room hs ps" and "i < length hs"
  shows "mm_handles m (hs ! i) = Some (c, ps ! i)"
proof -
  have "map (mm_handles m) hs ! i = map (\<lambda>p. Some (c, p)) ps ! i" using layoutD(6) [OF assms(1)] by simp
  then show ?thesis using assms(2) layout_places [OF assms(1)] by simp
qed

lemma layout_cell:
  assumes "layout m base c room hs ps" and "i < length hs * unat c"
  shows "cell m (base + i) = Some (hs ! (i div unat c), i mod unat c)"
  using assms layoutD(7) [OF assms(1), of i] layoutD(3) [OF assms(1)] by (simp add: cell_def)

lemma layout_cell_inj:
  assumes l: "layout m base c room hs ps" and i: "i < length hs * unat c" and j: "j < length hs * unat c"
    and e: "cell m (base + i) = cell m (base + j)"
  shows "i = j"
proof -
  have "hs ! (i div unat c) = hs ! (j div unat c)" and m: "i mod unat c = j mod unat c"
    using e layout_cell [OF l i] layout_cell [OF l j] by auto
  moreover have "i div unat c < length hs" "j div unat c < length hs"
    using i j by (simp_all add: less_mult_imp_div_less)
  ultimately have "i div unat c = j div unat c" using layoutD(5) [OF l] nth_eq_iff_index_eq by blast
  then show ?thesis using m by (metis mult_div_mod_eq)
qed

lemma chunk_index:
  fixes n c i :: nat
  assumes "n * c \<le> i" and "i < n * c + c"
  shows "i div c = n" and "i mod c = i - n * c"
proof -
  show "i div c = n" using assms by (intro div_nat_eqI) (simp_all add: mult.commute)
  then show "i mod c = i - n * c" using div_mult_mod_eq [of i c] by simp
qed

subsection \<open>Writing\<close>

lemma layout_put_bytes: "layout (put_bytes a xs m) base c room hs ps \<longleftrightarrow> layout m base c room hs ps"
  by (simp add: layout_def)

lemma layout_write:
  assumes l: "layout m base c room hs ps" and n: "k + length xs \<le> length hs * unat c"
    and i: "i < length hs * unat c"
  shows "byte_at (put_bytes (base + k) xs m) (base + i) =
    (if k \<le> i \<and> i < k + length xs then xs ! (i - k) else byte_at m (base + i))"
proof (cases "k \<le> i \<and> i < k + length xs")
  case True
  have "cell m (base + k + j) \<noteq> None" if "j < length xs" for j
    using layout_cell [OF l, of "k + j"] that n by (simp add: add.assoc)
  moreover have "j = j'" if "j < length xs" "j' < length xs" "cell m (base + k + j) = cell m (base + k + j')" for j j'
    using layout_cell_inj [OF l, of "k + j" "k + j'"] that n by (simp add: add.assoc)
  ultimately have "byte_at (put_bytes (base + k) xs m) (base + k + (i - k)) = xs ! (i - k)"
    using True by (intro byte_put_bytes) auto
  then show ?thesis using True by simp
next
  case False
  have "byte_at (put_bytes (base + k) xs m) (base + i) = byte_at m (base + i)"
  proof (rule byte_put_bytes_other)
    fix j
    assume j: "j < length xs"
    then have "cell m (base + (k + j)) \<noteq> cell m (base + i)"
      using layout_cell_inj [OF l, of "k + j" i] n i False by auto
    then show "cell m (base + k + j) \<noteq> None \<and> cell m (base + k + j) \<noteq> cell m (base + i)"
      using layout_cell [OF l, of "k + j"] j n by (simp add: add.assoc)
  qed
  then show ?thesis using False by auto
qed

text \<open>The bytes before the written ones stay.\<close>

lemma bytes_at_append: "bytes_at m a (j + k) = bytes_at m a j @ bytes_at m (a + j) k"
  using upt_add_eq_append [of a "a + j" k] by (simp add: bytes_at_def add.assoc)

lemma bytes_at_cong:
  assumes "\<And>i. i < k \<Longrightarrow> byte_at m (a + i) = byte_at m' (a + i)"
  shows "bytes_at m a k = bytes_at m' a k"
proof -
  have "byte_at m x = byte_at m' x" if "a \<le> x" "x < a + k" for x using assms [of "x - a"] that by simp
  then show ?thesis by (simp add: bytes_at_def)
qed

lemma layout_write_bytes:
  assumes l: "layout m base c room hs ps" and n: "k + length xs \<le> length hs * unat c"
  shows "bytes_at (put_bytes (base + k) xs m) base (k + length xs) = bytes_at m base k @ xs"
proof -
  have "bytes_at (put_bytes (base + k) xs m) base k = bytes_at m base k"
    using n by (intro bytes_at_cong) (subst layout_write [OF l n], auto)
  moreover have "bytes_at (put_bytes (base + k) xs m) (base + k) (length xs) = xs"
    unfolding bytes_at_def
  proof (rule nth_equalityI)
    fix i
    assume "i < length (map (byte_at (put_bytes (base + k) xs m)) [base + k..<base + k + length xs])"
    then have i: "i < length xs" by simp
    then have "byte_at (put_bytes (base + k) xs m) (base + (k + i)) = xs ! i"
      using n by (subst layout_write [OF l n]) auto
    then show "map (byte_at (put_bytes (base + k) xs m)) [base + k..<base + k + length xs] ! i = xs ! i"
      using i by (simp add: add.assoc)
  qed simp
  ultimately show ?thesis by (simp add: bytes_at_append)
qed


subsection \<open>Growing by a chunk\<close>

definition grown :: "u64 \<Rightarrow> u64 \<Rightarrow> u64 \<Rightarrow> Prop \<Rightarrow> Mem \<Rightarrow> Mem" where
  "grown ptr c h p m = effect (QAccess ptr c) 0 (effect (QMap ptr c h) 0 (effect (QCreate c p) h m))"

lemma layout_grow:
  assumes l: "layout m base c room hs ps" and new: "mm_handles m h = None"
    and room: "Suc (length hs) * unat c \<le> room" and ptr: "unat ptr = base + length hs * unat c"
  shows "layout (grown ptr c h p m) base c room (hs @ [h]) (ps @ [p])"
    and "i < length hs * unat c \<Longrightarrow> byte_at (grown ptr c h p m) (base + i) = byte_at m (base + i)"
proof -
  let ?m = "grown ptr c h p m" and ?n = "length hs * unat c"
  note L = layoutD [OF l]
  have hs: "h \<notin> set hs"
  proof
    assume "h \<in> set hs"
    then obtain i where "i < length hs" "hs ! i = h" by (auto simp: in_set_conv_nth)
    then show False using layout_handle [OF l] new by force
  qed
  have ins: "inside ptr c (base + i) \<longleftrightarrow> ?n \<le> i \<and> i < ?n + unat c" for i by (auto simp: inside_def ptr)
  have "mm_page ?m (base + i) = (if i < length (hs @ [h]) * unat c
      then Some ((hs @ [h]) ! (i div unat c), i mod unat c, c) else None)" if "i < room" for i
  proof (cases "?n \<le> i \<and> i < ?n + unat c")
    case True
    then have "i div unat c = length hs" "i mod unat c = i - ?n" using chunk_index by blast+
    then show ?thesis using True ins [of i] by (simp add: grown_def ptr)
  next
    case False
    have "i div unat c < length hs" if "i < ?n" using that by (rule less_mult_imp_div_less)
    then show ?thesis using False ins [of i] L(7) [OF that] by (auto simp: grown_def nth_append)
  qed
  moreover have "mm_open ?m (base + i)" if "i < length (hs @ [h]) * unat c" for i
    using that ins [of i] L(8) [of i] by (auto simp: grown_def)
  moreover have "map (mm_handles ?m) (hs @ [h]) = map (\<lambda>p. Some (c, p)) (ps @ [p])"
    using hs L(6) by (auto simp: grown_def)
  moreover have "dom (mm_handles ?m) = set (hs @ [h])" using L(9) by (auto simp: grown_def)
  moreover have "mm_page ?m a = None" if "a < base \<or> base + room \<le> a" for a
    using that L(10) [of a] ptr room by (auto simp: grown_def inside_def)
  ultimately show "layout ?m base c room (hs @ [h]) (ps @ [p])"
    using L(1,2,4,5) hs room unfolding layout_def by simp
  show "byte_at ?m (base + i) = byte_at m (base + i)" if "i < ?n"
  proof -
    have "hs ! (i div unat c) \<noteq> h" using hs that by (metis less_mult_imp_div_less nth_mem)
    then show ?thesis using that ins [of i] L(3) L(7) [of i] by (auto simp: grown_def byte_at_def)
  qed
qed

lemma grow_legal:
  assumes l: "layout m base c room hs ps" and room: "Suc (length hs) * unat c \<le> room"
    and ptr: "unat ptr = base + length hs * unat c"
    and res: "mm_reserved m d = Some k" "unat d = base" "unat k = room" and gran: "unat c mod gran p = 0"
  shows "legal gran m (QCreate c p)"
    and "legal gran (effect (QCreate c p) h m) (QMap ptr c h)"
    and "legal gran (effect (QMap ptr c h) y (effect (QCreate c p) h m)) (QAccess ptr c)"
proof -
  note L = layoutD [OF l]
  have c: "c \<noteq> 0" using L(1) by auto
  show "legal gran m (QCreate c p)" using c gran by simp
  have "mm_page m a = None" if "inside ptr c a" for a
  proof -
    have "a = base + (a - base)" "length hs * unat c \<le> a - base" "a - base < room"
      using that ptr room by (auto simp: inside_def)
    then show ?thesis using L(7) [of "a - base"] by simp
  qed
  then show "legal gran (effect (QCreate c p) h m) (QMap ptr c h)"
    using res ptr room by (fastforce simp: unmapped_def in_reservation_def)
  show "legal gran (effect (QMap ptr c h) y (effect (QCreate c p) h m)) (QAccess ptr c)"
    using c by (auto simp: whole_mappings_def inside_def)
qed

subsection \<open>Giving up the last chunk\<close>

definition shrunk :: "u64 \<Rightarrow> u64 \<Rightarrow> u64 \<Rightarrow> Mem \<Rightarrow> Mem" where
  "shrunk ptr c h m = effect (QRelease h) 0 (effect (QUnmap ptr c) 0 m)"

lemma layout_shrink:
  assumes l: "layout m base c room (hs @ [h]) (ps @ [p])" and ptr: "unat ptr = base + length hs * unat c"
  shows "layout (shrunk ptr c h m) base c room hs ps"
    and "i < length hs * unat c \<Longrightarrow> byte_at (shrunk ptr c h m) (base + i) = byte_at m (base + i)"
proof -
  let ?m = "shrunk ptr c h m" and ?n = "length hs * unat c"
  note L = layoutD [OF l]
  have ins: "inside ptr c (base + i) \<longleftrightarrow> ?n \<le> i \<and> i < ?n + unat c" for i by (auto simp: inside_def ptr)
  have "mm_page ?m (base + i) = (if i < ?n then Some (hs ! (i div unat c), i mod unat c, c) else None)"
    if "i < room" for i
  proof (cases "i < ?n")
    case True
    then have "i div unat c < length hs" by (rule less_mult_imp_div_less)
    then show ?thesis using True ins [of i] L(7) [OF that] by (simp add: shrunk_def nth_append)
  next
    case False
    then show ?thesis using ins [of i] L(7) [OF that] by (auto simp: shrunk_def)
  qed
  moreover have "mm_open ?m (base + i)" if "i < ?n" for i using that ins [of i] L(8) [of i] by (simp add: shrunk_def)
  moreover have "map (mm_handles ?m) hs = map (\<lambda>p. Some (c, p)) ps"
    using L(5,6) by (auto simp: shrunk_def)
  moreover have "dom (mm_handles ?m) = set hs" using L(5,9) by (auto simp: shrunk_def)
  moreover have "mm_page ?m a = None" if "a < base \<or> base + room \<le> a" for a
    using that L(10) [of a] by (simp add: shrunk_def)
  ultimately show "layout ?m base c room hs ps" using L(1-5) unfolding layout_def by simp
  show "byte_at ?m (base + i) = byte_at m (base + i)" if "i < ?n"
    using that ins [of i] by (auto simp: shrunk_def byte_at_def split: option.splits)
qed

lemma shrink_legal:
  assumes l: "layout m base c room (hs @ [h]) (ps @ [p])" and ptr: "unat ptr = base + length hs * unat c"
  shows "legal gran m (QUnmap ptr c)" and "legal gran (effect (QUnmap ptr c) x m) (QRelease h)"
proof -
  note L = layoutD [OF l]
  have "\<exists>g off k. mm_page m a = Some (g, off, k) \<and> unat ptr + off \<le> a \<and> a - off + unat k \<le> unat ptr + unat c"
    if "inside ptr c a" for a
  proof -
    let ?i = "a - base"
    have i: "a = base + ?i" "length hs * unat c \<le> ?i" "?i < length (hs @ [h]) * unat c"
      using that ptr by (auto simp: inside_def)
    then have d: "?i div unat c = length hs" and m: "?i mod unat c = ?i - length hs * unat c"
      using chunk_index [of "length hs" "unat c" ?i] by auto
    have "mm_page m a = Some (h, ?i mod unat c, c)" using L(7) [of ?i] L(3) i d by simp
    then show ?thesis using i m ptr by auto
  qed
  moreover have "c \<noteq> 0" using L(1) by auto
  ultimately show "legal gran m (QUnmap ptr c)" by (simp add: whole_mappings_def)
  have "mm_handles m h = Some (c, p)" using L(6) layout_places [OF l] by simp
  then show "legal gran (effect (QUnmap ptr c) x m) (QRelease h)" by simp
qed

end
