(* ===== verification/Vector_Steps.thy ===== *)
theory Vector_Steps
  imports Vector_Memory
begin

text \<open>
  What each operation of the vector does to its contents, on a driver that does what it is legally asked
  (\<open>obliging\<close>) and answers as documented; only a new chunk may be refused, which ends the process.
\<close>

section \<open>Arithmetic\<close>

lemma u64_mult_no_wrap:
  fixes a b :: u64
  assumes "unat a * unat b < 2 ^ 64"
  shows "unat (a * b) = unat a * unat b"
  using assms unat_mult_lem [of a b] by simp

text \<open>The next multiple of \<open>f\<close>.\<close>

definition round_nat :: "nat \<Rightarrow> nat \<Rightarrow> nat" where
  "round_nat n f = (n + (f - 1)) div f * f"

lemma round_nat_bounds:
  assumes "0 < f"
  shows "n \<le> round_nat n f" and "round_nat n f < n + f"
proof -
  have "n + (f - 1) = round_nat n f + (n + (f - 1)) mod f" by (simp add: round_nat_def)
  moreover have "(n + (f - 1)) mod f < f" using assms by simp
  ultimately show "n \<le> round_nat n f" "round_nat n f < n + f" using assms by linarith+
qed

lemma round_nat_multiple:
  assumes "0 < f"
  shows "round_nat (k * f) f = k * f"
proof -
  have "(k * f + (f - 1)) div f = k" using assms by (intro div_nat_eqI) (simp_all add: mult.commute)
  then show ?thesis by (simp only: round_nat_def)
qed

lemma round_nat_le:
  assumes "0 < f" and "n \<le> k * f"
  shows "round_nat n f \<le> k * f"
proof -
  have "round_nat n f \<le> round_nat (k * f) f"
    unfolding round_nat_def using assms(2) by (intro mult_le_mono1 div_le_mono) simp
  then show ?thesis using round_nat_multiple [OF assms(1)] by simp
qed

lemma round_nat_dvd [simp]: "f dvd round_nat n f"
  by (simp add: round_nat_def)

lemma ROUND_UP_nat:
  assumes f: "0 < unat f" and n: "unat x + unat f \<le> 2 ^ 64"
  shows "unat (ROUND_UP x f) = round_nat (unat x) (unat f)"
proof -
  have f1: "1 \<le> f" using f by (simp add: word_le_nat_alt)
  have e: "x + f - 1 = x + (f - 1)" by simp
  have m1: "unat (f - 1) = unat f - 1" using u64_sub_no_wrap [OF f1] by simp
  have s: "unat (x + (f - 1)) = unat x + (unat f - 1)"
    using n f by (subst u64_add_no_wrap) (simp_all add: m1)
  have "unat ((x + (f - 1)) div f) * unat f \<le> unat (x + (f - 1))" by (simp add: unat_div)
  also have "\<dots> < 2 ^ 64" by simp
  finally show ?thesis unfolding ROUND_UP_def e
    by (subst u64_mult_no_wrap) (simp_all add: s unat_div round_nat_def)
qed

section \<open>The invariant\<close>

text \<open>
  The vector holds the elements \<open>xs\<close> in chunks placed at \<open>ps\<close>; every request so far was legal.
\<close>

definition vec_ok :: "granularity \<Rightarrow> u64 \<Rightarrow> Prop list \<Rightarrow> bytes list \<Rightarrow> 'z Vec_scheme \<Rightarrow> bool" where
  "vec_ok gran s ps xs v \<longleftrightarrow>
     0 < unat s \<and> unat (v_chunk v) = unat (v_fits v) * unat s \<and> unat (v_chunk v) mod gran (v_props v) = 0 \<and>
     unat (v_fits v) dvd unat (v_max v) \<and>
     mm_reserved (memory (v_hist v)) = [v_dptr v \<mapsto> v_max v * s] \<and>
     layout (memory (v_hist v)) (unat (v_dptr v)) (v_chunk v) (unat (v_max v) * unat s) (v_handles v) ps \<and>
     unat (v_cap v) = length (v_handles v) * unat (v_fits v) \<and>
     unat (v_size v) = length xs \<and> length xs \<le> unat (v_cap v) \<and>
     (\<forall>x \<in> set xs. length x = unat s) \<and>
     bytes_at (memory (v_hist v)) (unat (v_dptr v)) (length xs * unat s) = map Some (concat xs) \<and>
     lawful gran (v_hist v) \<and> 0 < unat (v_max v)"

lemma vec_okD:
  assumes "vec_ok gran s ps xs v"
  shows "0 < unat s" and "unat (v_chunk v) = unat (v_fits v) * unat s" and "unat (v_chunk v) mod gran (v_props v) = 0"
    and "unat (v_fits v) dvd unat (v_max v)"
    and "mm_reserved (memory (v_hist v)) = [v_dptr v \<mapsto> v_max v * s]"
    and "layout (memory (v_hist v)) (unat (v_dptr v)) (v_chunk v) (unat (v_max v) * unat s) (v_handles v) ps"
    and "unat (v_cap v) = length (v_handles v) * unat (v_fits v)"
    and "unat (v_size v) = length xs" and "length xs \<le> unat (v_cap v)"
    and "x \<in> set xs \<Longrightarrow> length x = unat s"
    and "bytes_at (memory (v_hist v)) (unat (v_dptr v)) (length xs * unat s) = map Some (concat xs)"
    and "lawful gran (v_hist v)" and "0 < unat (v_max v)"
  using assms unfolding vec_ok_def by auto

lemma vec_ok_bounds:
  assumes "vec_ok gran s ps xs v"
  shows "0 < unat (v_fits v)" and "unat (v_cap v) \<le> unat (v_max v)"
    and "0 < unat (v_dptr v)" and "unat (v_dptr v) + unat (v_max v) * unat s \<le> 2 ^ 57"
    and "unat (v_max v) < 2 ^ 57"
    and "unat (v_max v * s) = unat (v_max v) * unat s"
    and "unat (v_cap v * s) = unat (v_cap v) * unat s"
    and "unat (v_size v * s) = unat (v_size v) * unat s"
    and "unat (v_cap v) * unat s = length (v_handles v) * unat (v_chunk v)"
    and "unat (v_dptr v + v_cap v * s) = unat (v_dptr v) + unat (v_cap v) * unat s"
    and "unat (v_dptr v + v_size v * s) = unat (v_dptr v) + unat (v_size v) * unat s"
proof -
  note V = vec_okD [OF assms]
  note L = layoutD [OF V(6)]
  show f: "0 < unat (v_fits v)" using L(1) V(2) by (cases "unat (v_fits v)") auto
  show p: "0 < unat (v_dptr v)" and r: "unat (v_dptr v) + unat (v_max v) * unat s \<le> 2 ^ 57" using L(2,4) by auto
  show c: "unat (v_cap v) * unat s = length (v_handles v) * unat (v_chunk v)" using V(2,7) by simp
  then show cm: "unat (v_cap v) \<le> unat (v_max v)" using L(3) V(1) by (metis mult_le_cancel2)
  have "unat (v_max v) \<le> unat (v_max v) * unat s" using V(1) by simp
  then show "unat (v_max v) < 2 ^ 57" using p r by linarith
  have m: "unat (v_cap v) * unat s \<le> unat (v_max v) * unat s" "unat (v_size v) * unat s \<le> unat (v_cap v) * unat s"
    using cm V(8,9) by (simp_all add: mult_le_mono1)
  have big: "unat (v_dptr v) + unat (v_max v) * unat s < 2 ^ 64" using r by (rule le_less_trans) simp
  show "unat (v_max v * s) = unat (v_max v) * unat s" using big by (intro u64_mult_no_wrap) linarith
  show cs: "unat (v_cap v * s) = unat (v_cap v) * unat s" using big m by (intro u64_mult_no_wrap) linarith
  show ss: "unat (v_size v * s) = unat (v_size v) * unat s" using big m by (intro u64_mult_no_wrap) linarith
  show "unat (v_dptr v + v_cap v * s) = unat (v_dptr v) + unat (v_cap v) * unat s"
    using u64_add_no_wrap [of "v_dptr v" "v_cap v * s"] big m unfolding cs by linarith
  show "unat (v_dptr v + v_size v * s) = unat (v_dptr v) + unat (v_size v) * unat s"
    using u64_add_no_wrap [of "v_dptr v" "v_size v * s"] big m unfolding ss by linarith
qed

section \<open>Requests\<close>

lemma CU_CHECK_ok:
  assumes "obliging gran env" and "legal gran (memory (v_hist v)) q" and "\<not> may_refuse q"
  shows "CU_CHECK env q v =
    (Done (pe_value env (v_hist v) q), v\<lparr>v_hist := v_hist v @ [(q, CUDA_SUCCESS, pe_value env (v_hist v) q)]\<rparr>)"
  using assms by (simp add: CU_CHECK_def obliging_def Let_def)

text \<open>The process ended because the driver refused a new chunk.\<close>

definition refused :: "granularity \<Rightarrow> 'a ending \<Rightarrow> 'z Proc_scheme \<Rightarrow> bool" where
  "refused gran r v \<longleftrightarrow>
     (\<exists>e n p x hs. r = Quits e \<and> v_hist v = hs @ [(QCreate n p, e, x)] \<and> e \<noteq> CUDA_SUCCESS \<and> lawful gran (v_hist v))"

text \<open>A bind returns what its first part returned, unless that is a value.\<close>

lemma vbind_Done: "f v = (Done x, v') \<Longrightarrow> vbind f g v = g x v'"
  by (simp add: vbind_def)

lemma vbind_Quits: "f v = (Quits r, v') \<Longrightarrow> vbind f g v = (Quits r, v')"
  by (simp add: vbind_def)

lemma vbind_Throws: "f v = (Throws e, v') \<Longrightarrow> vbind f g v = (Throws e, v')"
  by (simp add: vbind_def)

section \<open>Growing\<close>

text \<open>What growing may change.\<close>

definition regrown :: "'z Vec_scheme \<Rightarrow> 'z Vec_scheme \<Rightarrow> bool" where
  "regrown v v' \<longleftrightarrow> (\<exists>hs c ts. v' = v\<lparr>v_handles := hs, v_cap := c, v_hist := ts\<rparr>)"

lemma regrown_refl [simp]: "regrown v v"
  unfolding regrown_def
  by (rule exI [of _ "v_handles v"], rule exI [of _ "v_cap v"], rule exI [of _ "v_hist v"]) simp

lemma regrown_trans: "regrown v v' \<Longrightarrow> regrown v' v'' \<Longrightarrow> regrown v v''"
  unfolding regrown_def by force

lemma regrown_fields:
  assumes "regrown v v'"
  shows "v_dptr v' = v_dptr v" "v_size v' = v_size v" "v_max v' = v_max v" "v_chunk v' = v_chunk v"
    "v_fits v' = v_fits v" "v_props v' = v_props v"
  using assms by (auto simp: regrown_def)

text \<open>A vector with one more chunk.\<close>

definition with_chunk :: "PEnv \<Rightarrow> u64 \<Rightarrow> 'z Vec_scheme \<Rightarrow> 'z Vec_scheme" where
  "with_chunk env ptr v =
     (let q = QCreate (v_chunk v) (v_props v); h = pe_value env (v_hist v) q;
          h1 = v_hist v @ [(q, CUDA_SUCCESS, h)]; q1 = QMap ptr (v_chunk v) h;
          h2 = h1 @ [(q1, CUDA_SUCCESS, pe_value env h1 q1)]; q2 = QAccess ptr (v_chunk v)
      in v\<lparr>v_handles := v_handles v @ [h], v_cap := v_cap v + v_fits v,
           v_hist := h2 @ [(q2, CUDA_SUCCESS, pe_value env h2 q2)]\<rparr>)"

lemma vec_ok_with_chunk:
  fixes env s v
  defines "ptr \<equiv> v_dptr v + v_cap v * s" and "q \<equiv> QCreate (v_chunk v) (v_props v)"
  assumes doc: "documented gran env" and ok: "vec_ok gran s ps xs v"
    and room: "unat (v_cap v) + unat (v_fits v) \<le> unat (v_max v)"
    and made: "pe_result env (v_hist v) q = CUDA_SUCCESS"
  shows "vec_ok gran s (ps @ [v_props v]) xs (with_chunk env ptr v)"
    and "legal gran (memory (v_hist v)) q"
    and "legal gran (effect q (pe_value env (v_hist v) q) (memory (v_hist v)))
           (QMap ptr (v_chunk v) (pe_value env (v_hist v) q))"
    and "legal gran (effect (QMap ptr (v_chunk v) (pe_value env (v_hist v) q)) y
           (effect q (pe_value env (v_hist v) q) (memory (v_hist v)))) (QAccess ptr (v_chunk v))"
proof -
  let ?m = "memory (v_hist v)" and ?h = "pe_value env (v_hist v) q" and ?b = "unat (v_dptr v)"
  note V = vec_okD [OF ok] and B = vec_ok_bounds [OF ok]
  note l = V(6)
  have new: "mm_handles ?m ?h = None" using documentedD(4) [OF doc] made unfolding q_def by blast
  have "Suc (length (v_handles v)) * unat (v_chunk v) = (unat (v_cap v) + unat (v_fits v)) * unat s"
    using V(2,7) by (simp add: algebra_simps)
  then have r: "Suc (length (v_handles v)) * unat (v_chunk v) \<le> unat (v_max v) * unat s"
    using room by (simp only: mult_le_mono1)
  have p: "unat ptr = ?b + length (v_handles v) * unat (v_chunk v)" using B(9,10) by (simp add: ptr_def)
  note G = layout_grow [OF l new r p, where p = "v_props v"]
  have res: "mm_reserved ?m (v_dptr v) = Some (v_max v * s)" using V(5) by simp
  note A = grow_legal [where gran = gran and p = "v_props v", OF l r p res refl B(6) V(3)]
  show "legal gran ?m q" "legal gran (effect q ?h ?m) (QMap ptr (v_chunk v) ?h)"
    "legal gran (effect (QMap ptr (v_chunk v) ?h) y (effect q ?h ?m)) (QAccess ptr (v_chunk v))"
    unfolding q_def by (rule A)+
  have m: "memory (v_hist (with_chunk env ptr v)) = grown ptr (v_chunk v) ?h (v_props v) ?m"
    by (simp add: with_chunk_def Let_def grown_def q_def)
  have law: "lawful gran (v_hist (with_chunk env ptr v))"
    using V(12) A by (simp add: with_chunk_def Let_def q_def)
  have cap: "unat (v_cap v + v_fits v) = Suc (length (v_handles v)) * unat (v_fits v)"
    using room B(5) V(7) by (subst u64_add_no_wrap) simp_all
  have "length xs * unat s \<le> length (v_handles v) * unat (v_chunk v)"
    using V(9) B(9) by (metis mult_le_mono1)
  then have "bytes_at (grown ptr (v_chunk v) ?h (v_props v) ?m) ?b (length xs * unat s) = bytes_at ?m ?b (length xs * unat s)"
    using G(2) by (intro bytes_at_cong) simp
  moreover have "mm_reserved (grown ptr (v_chunk v) ?h (v_props v) ?m) = mm_reserved ?m" by (simp add: grown_def)
  moreover have "length xs \<le> unat (v_cap v + v_fits v)" using V(7,9) cap by simp
  ultimately show "vec_ok gran s (ps @ [v_props v]) xs (with_chunk env ptr v)"
    using V G(1) cap law unfolding vec_ok_def m
    by (simp add: with_chunk_def Let_def q_def)
qed


lemma reserve_chunks_Suc:
  fixes env s v
  defines "ptr \<equiv> v_dptr v + v_cap v * s" and "q \<equiv> QCreate (v_chunk v) (v_props v)"
  assumes doc: "documented gran env" and ob: "obliging gran env" and ok: "vec_ok gran s ps xs v"
    and room: "unat (v_cap v) + unat (v_fits v) \<le> unat (v_max v)"
  shows "pe_result env (v_hist v) q = CUDA_SUCCESS \<Longrightarrow>
      reserve_chunks env (Suc k) ptr v = reserve_chunks env k (ptr + v_chunk v) (with_chunk env ptr v)"
    and "pe_result env (v_hist v) q \<noteq> CUDA_SUCCESS \<Longrightarrow>
      \<exists>r v'. reserve_chunks env (Suc k) ptr v = (r, v') \<and> refused gran r v'"
proof -
  assume made: "pe_result env (v_hist v) q = CUDA_SUCCESS"
  let ?h = "pe_value env (v_hist v) q"
  define v1 where "v1 = v\<lparr>v_handles := v_handles v @ [?h], v_cap := v_cap v + v_fits v, v_hist := v_hist v @ [(q, CUDA_SUCCESS, ?h)]\<rparr>"
  let ?q1 = "QMap ptr (v_chunk v) ?h"
  define v2 where "v2 = v1\<lparr>v_hist := v_hist v1 @ [(?q1, CUDA_SUCCESS, pe_value env (v_hist v1) ?q1)]\<rparr>"
  let ?q2 = "QAccess ptr (v_chunk v)"
  define v3 where "v3 = v2\<lparr>v_hist := v_hist v2 @ [(?q2, CUDA_SUCCESS, pe_value env (v_hist v2) ?q2)]\<rparr>"
  note L = vec_ok_with_chunk(3,4) [OF doc ok room made [unfolded q_def], folded ptr_def q_def]
  have m1: "memory (v_hist v1) = effect q ?h (memory (v_hist v))" by (simp add: v1_def q_def)
  have m2: "memory (v_hist v2) = effect ?q1 0 (effect q ?h (memory (v_hist v)))" by (simp add: v2_def m1)
  have "push_chunk env v = (Done ?h, v1)"
    using made by (simp add: push_chunk_def vbind_def CU_CHECK_def q_def v1_def Let_def)
  moreover have "vec_map_chunk env ptr ?h v1 = (Done (pe_value env (v_hist v1) ?q1), v2)"
    unfolding vec_map_chunk_def using CU_CHECK_ok [OF ob, of v1 ?q1] L(1) by (simp add: m1 v1_def v2_def del: legal.simps)
  moreover have "vec_set_access env ptr v2 = (Done (pe_value env (v_hist v2) ?q2), v3)"
    unfolding vec_set_access_def using CU_CHECK_ok [OF ob, of v2 ?q2] L(2) m2
    by (simp add: v1_def v2_def v3_def del: legal.simps)
  moreover have "v3 = with_chunk env ptr v"
    by (simp add: v1_def v2_def v3_def with_chunk_def q_def Let_def)
  moreover have "v_chunk v3 = v_chunk v" by (simp add: v1_def v2_def v3_def)
  ultimately show "reserve_chunks env (Suc k) ptr v = reserve_chunks env k (ptr + v_chunk v) (with_chunk env ptr v)"
    by (simp add: vbind_def)
next
  assume "pe_result env (v_hist v) q \<noteq> CUDA_SUCCESS"
  moreover have "legal gran (memory (v_hist v)) q" unfolding q_def
    using vec_ok_bounds [OF ok] vec_okD [OF ok] room
    by (metis gr_implies_not0 legal.simps(4) mult_is_0 unat_eq_0)
  ultimately show "\<exists>r v'. reserve_chunks env (Suc k) ptr v = (r, v') \<and> refused gran r v'"
    using vec_okD(12) [OF ok] by (simp add: push_chunk_def vbind_def CU_CHECK_def q_def refused_def Let_def del: legal.simps)
qed

lemma with_chunk_fields:
  fixes env s v
  defines "ptr \<equiv> v_dptr v + v_cap v * s"
  shows "regrown v (with_chunk env ptr v)" and "v_cap (with_chunk env ptr v) = v_cap v + v_fits v"
    and "length (v_handles (with_chunk env ptr v)) = Suc (length (v_handles v))"
  by (force simp: with_chunk_def regrown_def Let_def)+

lemma reserve_chunks_ok:
  assumes doc: "documented gran env" and ob: "obliging gran env"
    and "vec_ok gran s ps xs v" and "unat (v_cap v) + k * unat (v_fits v) \<le> unat (v_max v)"
    and "reserve_chunks env k (v_dptr v + v_cap v * s) v = (r, v')"
  shows "(r = Done () \<and> vec_ok gran s (ps @ replicate k (v_props v)) xs v' \<and> regrown v v' \<and>
      unat (v_cap v') = unat (v_cap v) + k * unat (v_fits v)) \<or> refused gran r v'"
  using assms(3-)
proof (induction k arbitrary: ps v)
  case 0
  then show ?case by simp
next
  case (Suc k)
  let ?ptr = "v_dptr v + v_cap v * s" and ?q = "QCreate (v_chunk v) (v_props v)"
  have room: "unat (v_cap v) + unat (v_fits v) \<le> unat (v_max v)" using Suc.prems(2) by simp
  note R = reserve_chunks_Suc [OF doc ob Suc.prems(1) room]
  show ?case
  proof (cases "pe_result env (v_hist v) ?q = CUDA_SUCCESS")
    case False
    then show ?thesis using R(2) Suc.prems(3) by (metis prod.inject)
  next
    case True
    let ?w = "with_chunk env ?ptr v"
    note W = with_chunk_fields [where env = env and s = s and v = v]
    note F = regrown_fields [OF W(1)]
    have ok: "vec_ok gran s (ps @ [v_props v]) xs ?w" by (rule vec_ok_with_chunk(1) [OF doc Suc.prems(1) room True])
    have "unat (v_fits v * s) = unat (v_chunk v)"
      using unat_lt_2p64 [of "v_chunk v"] unfolding vec_okD(2) [OF Suc.prems(1)] by (intro u64_mult_no_wrap) simp
    then have "v_fits v * s = v_chunk v" by (simp add: word_unat_eq_iff)
    then have ptr: "?ptr + v_chunk v = v_dptr ?w + v_cap ?w * s" unfolding W(2) F(1) by (simp add: algebra_simps)
    have cap: "unat (v_cap ?w) = unat (v_cap v) + unat (v_fits v)"
      using vec_okD(7) [OF ok] vec_okD(7) [OF Suc.prems(1)] W(3) F(5) by simp
    have e: "reserve_chunks env k (v_dptr ?w + v_cap ?w * s) ?w = (r, v')"
      using R(1) [OF True] Suc.prems(3) ptr by simp
    have "unat (v_cap ?w) + k * unat (v_fits ?w) \<le> unat (v_max ?w)" using Suc.prems(2) cap F by simp
    note IH = Suc.IH [OF ok this e]
    then show ?thesis
    proof (elim disjE conjE)
      assume "r = Done ()" "vec_ok gran s ((ps @ [v_props v]) @ replicate k (v_props ?w)) xs v'" "regrown ?w v'"
        "unat (v_cap v') = unat (v_cap ?w) + k * unat (v_fits ?w)"
      then show ?thesis using regrown_trans [OF W(1)] cap F by simp
    qed simp
  qed
qed

text \<open>\<open>reserve\<close>, for a request that does not wrap when it is rounded up.\<close>

lemma vec_reserve_ok:
  assumes doc: "documented gran env" and ob: "obliging gran env" and ok: "vec_ok gran s ps xs v"
    and n: "unat n + unat (v_fits v) \<le> 2 ^ 64" and e: "vec_reserve env s n v = (r, v')"
  defines "want \<equiv> round_nat (unat n) (unat (v_fits v))"
  shows "(r = Done () \<and> (\<exists>k. vec_ok gran s (ps @ replicate k (v_props v)) xs v') \<and> regrown v v' \<and>
        unat (v_cap v') = max (unat (v_cap v)) want \<and> want \<le> max (unat (v_cap v)) (unat (v_max v))) \<or>
      (r = Throws ''max_capacity exceeded'' \<and> v' = v \<and> unat (v_cap v) < unat n \<and> unat (v_max v) < want) \<or>
      (refused gran r v' \<and> unat (v_cap v) < unat n \<and> want \<le> unat (v_max v))"
proof -
  note V = vec_okD [OF ok] and B = vec_ok_bounds [OF ok]
  let ?f = "unat (v_fits v)" and ?len = "length (v_handles v)"
  have nc: "unat (ROUND_UP n (v_fits v)) = want" unfolding want_def by (rule ROUND_UP_nat [OF B(1) n])
  have dvd: "?f dvd want" by (simp add: want_def)
  have up: "unat n \<le> want" "want < unat n + ?f" using round_nat_bounds [OF B(1)] by (simp_all add: want_def)
  show ?thesis
  proof (cases "n \<le> v_cap v")
    case True
    then have "unat n \<le> ?len * ?f" using V(7) by (simp add: word_le_nat_alt)
    then have "want \<le> ?len * ?f" unfolding want_def by (rule round_nat_le [OF B(1)])
    moreover have "vec_ok gran s (ps @ replicate 0 (v_props v)) xs v" using ok by simp
    ultimately show ?thesis using True e V(7) unfolding vec_reserve_def by (auto intro: exI [of _ 0])
  next
    case False
    then have lt: "unat (v_cap v) < unat n" by (simp add: word_le_nat_alt)
    show ?thesis
    proof (cases "v_max v < ROUND_UP n (v_fits v)")
      case True
      then show ?thesis using False e lt nc by (simp add: vec_reserve_def word_less_nat_alt)
    next
      case le: False
      then have le: "want \<le> unat (v_max v)" using nc by (simp add: word_less_nat_alt)
      let ?k = "want div ?f - ?len"
      have w: "want = want div ?f * ?f" using dvd by simp
      have "?len * ?f < want div ?f * ?f" using lt up V(7) w by linarith
      then have k: "?len < want div ?f" by simp
      have "unat (ROUND_UP n (v_fits v) div v_fits v) = want div ?f" "unat (v_cap v div v_fits v) = ?len"
        using nc V(7) B(1) by (simp_all add: unat_div)
      then have "unat (ROUND_UP n (v_fits v) div v_fits v - v_cap v div v_fits v) = ?k"
        using k by (subst u64_sub_no_wrap) (simp_all add: word_le_nat_alt)
      then have "reserve_chunks env ?k (v_dptr v + v_cap v * s) v = (r, v')"
        using e False le nc by (simp add: vec_reserve_def Let_def word_less_nat_alt)
      moreover have cap: "unat (v_cap v) + ?k * ?f = want"
        using k w V(7) by (metis add_mult_distrib le_add_diff_inverse less_imp_le)
      ultimately have "(r = Done () \<and> vec_ok gran s (ps @ replicate ?k (v_props v)) xs v' \<and> regrown v v' \<and>
          unat (v_cap v') = want) \<or> refused gran r v'"
        using reserve_chunks_ok [OF doc ob ok, of ?k r v'] le by simp
      then show ?thesis using lt le up by auto
    qed
  qed
qed

end
