(* ===== verification/Vector_Ops.thy ===== *)
theory Vector_Ops
  imports Vector_Steps
begin

text \<open>
  The vector's operations on its contents: writing at the end, taking the last element away with its
  chunk when too many are kept, resizing, copying out, construction and destruction.
\<close>

text \<open>What an operation may change.\<close>

definition resized :: "'z Vec_scheme \<Rightarrow> 'z Vec_scheme \<Rightarrow> bool" where
  "resized v v' \<longleftrightarrow> (\<exists>n hs c ts. v' = v\<lparr>v_size := n, v_handles := hs, v_cap := c, v_hist := ts\<rparr>)"

lemma resizedI [intro]: "v' = v\<lparr>v_size := n, v_handles := hs, v_cap := c, v_hist := ts\<rparr> \<Longrightarrow> resized v v'"
  unfolding resized_def by blast

lemma resized_refl [simp]: "resized v v"
  by (rule resizedI [where n = "v_size v" and hs = "v_handles v" and c = "v_cap v" and ts = "v_hist v"]) simp

lemma resized_wrote: "resized v (v\<lparr>v_size := n, v_hist := ts\<rparr>)"
  by (rule resizedI [where n = n and hs = "v_handles v" and c = "v_cap v" and ts = ts]) simp

lemma resized_trans: "resized v v' \<Longrightarrow> resized v' v'' \<Longrightarrow> resized v v''"
  unfolding resized_def by force

lemma regrown_resized:
  assumes "regrown v v'"
  shows "resized v v'"
proof -
  obtain hs c ts where "v' = v\<lparr>v_handles := hs, v_cap := c, v_hist := ts\<rparr>" using assms by (auto simp: regrown_def)
  then show ?thesis by (intro resizedI [where n = "v_size v" and hs = hs and c = c and ts = ts]) simp
qed

lemma resized_fields:
  assumes "resized v v'"
  shows "v_dptr v' = v_dptr v" "v_max v' = v_max v" "v_chunk v' = v_chunk v"
    "v_fits v' = v_fits v" "v_props v' = v_props v"
  using assms by (auto simp: resized_def)

section \<open>Appending\<close>

lemma concat_length: "(\<forall>x \<in> set xs. length x = n) \<Longrightarrow> length (concat xs) = length xs * n"
  by (induction xs) auto

text \<open>Writing one more element into a vector that has room.\<close>

lemma vec_write_ok:
  assumes ob: "obliging gran env" and ok: "vec_ok gran s ps xs v" and len: "length x = unat s"
    and room: "length xs < unat (v_cap v)"
    and e: "vbind (CU_CHECK env (QWrite (v_dptr v + v_size v * s) x)) (\<lambda>_ v. (Done (), v\<lparr>v_size := v_size v + 1\<rparr>)) v = (r, v')"
  shows "r = Done () \<and> vec_ok gran s ps (xs @ [x]) v' \<and> resized v v' \<and> v_cap v' = v_cap v"
proof -
  note V = vec_okD [OF ok] and B = vec_ok_bounds [OF ok]
  note l = V(6)
  note L = layoutD [OF l]
  let ?m = "memory (v_hist v)" and ?b = "unat (v_dptr v)" and ?a = "v_dptr v + v_size v * s"
  have a: "unat ?a = ?b + length xs * unat s" using B(11) V(8) by simp
  have "Suc (length xs) * unat s \<le> unat (v_cap v) * unat s" using room by (intro mult_le_mono1) simp
  then have fit: "length xs * unat s + length x \<le> length (v_handles v) * unat (v_chunk v)"
    using B(9) len by simp
  have n: "unat (of_nat (length x) :: u64) = length x" by (simp add: len)
  have "legal gran ?m (QWrite ?a x)"
  proof -
    have "mm_page ?m y \<noteq> None \<and> mm_open ?m y" if "inside ?a (of_nat (length x)) y" for y
    proof -
      have "?b \<le> y" "y - ?b < length (v_handles v) * unat (v_chunk v)"
        using that a n fit by (auto simp: inside_def)
      then show ?thesis using L(3) L(7) [of "y - ?b"] L(8) [of "y - ?b"] by auto
    qed
    then show ?thesis by (simp add: accessible_def)
  qed
  let ?e = "(QWrite ?a x, CUDA_SUCCESS, pe_value env (v_hist v) (QWrite ?a x))"
  have c: "CU_CHECK env (QWrite ?a x) v = (Done (pe_value env (v_hist v) (QWrite ?a x)), v\<lparr>v_hist := v_hist v @ [?e]\<rparr>)"
    by (rule CU_CHECK_ok [OF ob \<open>legal gran ?m (QWrite ?a x)\<close>]) simp
  have r: "r = Done ()" and v': "v' = v\<lparr>v_size := v_size v + 1, v_hist := v_hist v @ [?e]\<rparr>"
    using e c by (auto simp: vbind_def)
  have law: "lawful gran (v_hist v')" using V(12) \<open>legal gran ?m (QWrite ?a x)\<close> by (simp add: v' del: legal.simps)
  have m: "memory (v_hist v') = put_bytes (?b + length xs * unat s) (map Some x) ?m" using a by (simp add: v')
  have "bytes_at (memory (v_hist v')) ?b (length xs * unat s + length (map Some x)) = map Some (concat xs) @ map Some x"
    unfolding m using fit by (subst layout_write_bytes [OF l]) (simp_all add: V(11))
  then have bytes: "bytes_at (memory (v_hist v')) ?b (length (xs @ [x]) * unat s) = map Some (concat (xs @ [x]))"
    using len by (simp add: add.commute)
  have "unat (v_size v + 1) = Suc (length xs)"
    using room V(8) B(2,5) by (subst u64_add_no_wrap) simp_all
  moreover have "layout (memory (v_hist v')) ?b (v_chunk v) (unat (v_max v) * unat s) (v_handles v) ps"
    unfolding m using l by (simp add: layout_put_bytes)
  moreover have "mm_reserved (memory (v_hist v')) = mm_reserved ?m" by (simp add: m)
  ultimately have "vec_ok gran s ps (xs @ [x]) v'"
    using V room len bytes law unfolding vec_ok_def by (simp add: v')
  then show ?thesis using r resized_wrote by (simp add: v')
qed

text \<open>\<open>push_back\<close>: the reservation it asks for when the vector is full.\<close>

definition wanted :: "'z Vec_scheme \<Rightarrow> nat" where
  "wanted v = round_nat (if 1 < unat (v_size v) then 2 * unat (v_size v) else 2) (unat (v_fits v))"

lemma fits_bound:
  assumes "documented gran env" and "vec_ok gran s ps xs v"
  shows "unat (v_fits v) + 4096 \<le> 2 ^ 64"
proof -
  note V = vec_okD [OF assms(2)]
  obtain k where k: "12 \<le> k" "gran (v_props v) = 2 ^ k" using documentedD(1) [OF assms(1)] by blast
  have "(4096 :: nat) = 2 ^ 12" by simp
  then have "(4096 :: nat) dvd gran (v_props v)" using k by (simp only: le_imp_power_dvd)
  then have d: "4096 dvd unat (v_chunk v)" using V(3) by (meson dvd_trans mod_0_imp_dvd)
  then obtain j where "unat (v_chunk v) = 4096 * j" ..
  then have "unat (v_chunk v) + 4096 \<le> 2 ^ 64" using unat_lt_2p64 [of "v_chunk v"] by simp
  moreover have "unat (v_fits v) \<le> unat (v_chunk v)" using V(1,2) by simp
  ultimately show ?thesis by simp
qed

lemma push_back_ok:
  assumes doc: "documented gran env" and ob: "obliging gran env" and ok: "vec_ok gran s ps xs v"
    and len: "length x = unat s" and e: "push_back env s x v = (r, v')"
  shows "(r = Done () \<and> (\<exists>k. vec_ok gran s (ps @ replicate k (v_props v)) (xs @ [x]) v') \<and>
        resized v v' \<and>
        unat (v_cap v') = (if v_size v = v_cap v then wanted v else unat (v_cap v)) \<and>
        (v_size v = v_cap v \<longrightarrow> wanted v \<le> unat (v_max v))) \<or>
      (r = Throws ''max_capacity exceeded'' \<and> v' = v \<and> v_size v = v_cap v \<and> unat (v_max v) < wanted v) \<or>
      (refused gran r v' \<and> v_size v = v_cap v \<and> wanted v \<le> unat (v_max v))"
proof (cases "v_size v = v_cap v")
  case False
  then have "length xs < unat (v_cap v)" using vec_okD(8,9) [OF ok] by (metis le_neq_implies_less word_unat_eq_iff)
  moreover have "vbind (CU_CHECK env (QWrite (v_dptr v + v_size v * s) x)) (\<lambda>_ v. (Done (), v\<lparr>v_size := v_size v + 1\<rparr>)) v = (r, v')"
    using e False by (simp add: push_back_def vbind_def)
  ultimately have "r = Done () \<and> vec_ok gran s ps (xs @ [x]) v' \<and> resized v v' \<and> v_cap v' = v_cap v"
    by (rule vec_write_ok [OF ob ok len])
  moreover from this have "\<exists>k. vec_ok gran s (ps @ replicate k (v_props v)) (xs @ [x]) v'" by (intro exI [of _ 0]) simp
  ultimately show ?thesis using False by auto
next
  case True
  let ?n = "if 1 < v_size v then v_size v * 2 else 2"
  note V = vec_okD [OF ok] and B = vec_ok_bounds [OF ok]
  have size: "unat (v_size v) \<le> unat (v_max v)" using True B(2) by simp
  have n2: "unat (v_size v * 2) = 2 * unat (v_size v)" using size B(5) by (subst u64_mult_no_wrap) simp_all
  have n: "unat ?n = (if 1 < unat (v_size v) then 2 * unat (v_size v) else 2)" using n2 by (simp add: word_less_nat_alt)
  have fit: "unat ?n + unat (v_fits v) \<le> 2 ^ 64"
  proof (cases "1 < unat (v_size v)")
    case l: True
    then have "0 < length (v_handles v)" using True V(7) by (cases "length (v_handles v)") auto
    then have "1 * unat (v_fits v) \<le> unat (v_cap v)" unfolding V(7) by (intro mult_le_mono1) (simp add: Suc_le_eq)
    then have "unat (v_fits v) \<le> unat (v_cap v)" by simp
    then show ?thesis unfolding n using l size B(2,5) by simp
  next
    case False
    then show ?thesis unfolding n using fits_bound [OF doc ok] by simp
  qed
  have w: "round_nat (unat ?n) (unat (v_fits v)) = wanted v" by (simp only: wanted_def n)
  obtain r1 v1 where e1: "vec_reserve env s ?n v = (r1, v1)" by fastforce
  have lt: "unat (v_cap v) < unat ?n" unfolding n using True by auto
  have cap: "unat (v_cap v) \<le> wanted v" using lt round_nat_bounds(1) [OF B(1), of "unat ?n"] unfolding w by simp
  note R = vec_reserve_ok [OF doc ob ok fit e1, unfolded w]
  have p: "push_back env s x v = (case (r1, v1) of
      (Done _, v) \<Rightarrow> vbind (CU_CHECK env (QWrite (v_dptr v + v_size v * s) x)) (\<lambda>_ v. (Done (), v\<lparr>v_size := v_size v + 1\<rparr>)) v
    | (Throws t, v) \<Rightarrow> (Throws t, v) | (Quits q, v) \<Rightarrow> (Quits q, v) | (Undef, v) \<Rightarrow> (Undef, v))"
    using True e1 by (simp add: push_back_def vbind_def split: ending.split)
  from R show ?thesis
  proof (elim disjE conjE exE)
    fix k
    assume r1: "r1 = Done ()" and ok1: "vec_ok gran s (ps @ replicate k (v_props v)) xs v1" and g: "regrown v v1"
      and c: "unat (v_cap v1) = max (unat (v_cap v)) (wanted v)" and m: "wanted v \<le> max (unat (v_cap v)) (unat (v_max v))"
    have "unat ?n \<le> wanted v" using round_nat_bounds(1) [OF B(1), of "unat ?n"] unfolding w .
    then have room: "length xs < unat (v_cap v1)" using c lt True V(8) by simp
    have q: "vbind (CU_CHECK env (QWrite (v_dptr v1 + v_size v1 * s) x)) (\<lambda>_ v. (Done (), v\<lparr>v_size := v_size v + 1\<rparr>)) v1 = (r, v')"
      using e p r1 by simp
    have W: "r = Done () \<and> vec_ok gran s (ps @ replicate k (v_props v)) (xs @ [x]) v' \<and> resized v1 v' \<and> v_cap v' = v_cap v1"
      by (rule vec_write_ok [OF ob ok1 len room q])
    moreover have "resized v v'" using W g resized_trans regrown_resized by blast
    moreover have "unat (v_cap v1) = wanted v" using c cap by simp
    moreover have "wanted v \<le> unat (v_max v)" using m cap B(2) by simp
    ultimately show ?thesis using W True by auto
  next
    assume "r1 = Throws ''max_capacity exceeded''" "v1 = v" "unat (v_max v) < wanted v"
    then show ?thesis using e p True by simp
  next
    assume "refused gran r1 v1" "wanted v \<le> unat (v_max v)"
    then show ?thesis using e p True by (auto simp: refused_def)
  qed
qed

lemma push_times_ok:
  assumes ob: "obliging gran env" and len: "length x = unat s"
    and "vec_ok gran s ps xs v" and "length xs + k \<le> unat (v_cap v)" and "push_times env s x k v = (r, v')"
  shows "r = Done () \<and> vec_ok gran s ps (xs @ replicate k x) v' \<and> resized v v' \<and> v_cap v' = v_cap v"
  using assms(3-)
proof (induction k arbitrary: xs v)
  case 0
  then show ?case by simp
next
  case (Suc k)
  note V = vec_okD [OF Suc.prems(1)]
  have "v_size v \<noteq> v_cap v" using V(8) Suc.prems(2) by auto
  then have p: "push_back env s x v =
      vbind (CU_CHECK env (QWrite (v_dptr v + v_size v * s) x)) (\<lambda>_ v. (Done (), v\<lparr>v_size := v_size v + 1\<rparr>)) v"
    by (simp add: push_back_def vbind_def)
  obtain r1 v1 where e1: "push_back env s x v = (r1, v1)" by fastforce
  have "length xs < unat (v_cap v)" using Suc.prems(2) by simp
  then have W: "r1 = Done () \<and> vec_ok gran s ps (xs @ [x]) v1 \<and> resized v v1 \<and> v_cap v1 = v_cap v"
    using vec_write_ok [OF ob Suc.prems(1) len _ e1 [unfolded p]] by blast
  have e2: "push_times env s x k v1 = (r, v')" using Suc.prems(3) e1 W by (simp add: vbind_def)
  have "length (xs @ [x]) + k \<le> unat (v_cap v1)" using Suc.prems(2) W by simp
  then have "r = Done () \<and> vec_ok gran s ps ((xs @ [x]) @ replicate k x) v' \<and> resized v1 v' \<and> v_cap v' = v_cap v1"
    using Suc.IH [of "xs @ [x]" v1] W e2 by blast
  then show ?case using W resized_trans by (auto simp: replicate_app_Cons_same)
qed


section \<open>Taking away\<close>

lemma vec_ok_retain [simp]: "vec_ok gran s ps xs (v\<lparr>vv_retain := r\<rparr>) \<longleftrightarrow> vec_ok gran s ps xs v"
  by (simp add: vec_ok_def)

lemma bytes_at_prefix:
  assumes "bytes_at m a n = map Some ys" and "k \<le> n"
  shows "bytes_at m a k = map Some (take k ys)"
proof -
  have "bytes_at m a k = take k (bytes_at m a n)"
    using assms(2) bytes_at_append [of m a k "n - k"] by (simp add: bytes_at_def)
  then show ?thesis using assms(1) by (simp add: take_map)
qed

lemma concat_butlast:
  assumes "\<forall>x \<in> set xs. length x = n" and "xs \<noteq> []"
  shows "concat (butlast xs) = take ((length xs - 1) * n) (concat xs)"
proof -
  have "xs = butlast xs @ [last xs]" using assms(2) by simp
  then have "concat xs = concat (butlast xs) @ last xs" by (metis concat.simps append_Nil2 concat_append)
  moreover have "length (concat (butlast xs)) = (length xs - 1) * n"
    using assms(1) concat_length [of "butlast xs" n] by (auto dest: in_set_butlastD)
  ultimately show ?thesis by simp
qed

text \<open>Forgetting the last element.\<close>

lemma vec_ok_drop_last:
  assumes ok: "vec_ok gran s ps xs v" and ne: "xs \<noteq> []"
  shows "vec_ok gran s ps (butlast xs) (v\<lparr>v_size := v_size v - 1\<rparr>)"
proof -
  note V = vec_okD [OF ok]
  have "1 \<le> v_size v" using V(8) ne by (simp add: word_le_nat_alt Suc_le_eq)
  then have "unat (v_size v - 1) = length (butlast xs)" using V(8) by (simp add: u64_sub_no_wrap)
  moreover have "bytes_at (memory (v_hist v)) (unat (v_dptr v)) (length (butlast xs) * unat s) = map Some (concat (butlast xs))"
    using bytes_at_prefix [OF V(11), of "(length xs - 1) * unat s"] concat_butlast [of xs "unat s"] V(10) ne by auto
  ultimately show ?thesis using V(1-7,9,10,12,13) unfolding vec_ok_def by (auto dest: in_set_butlastD)
qed

text \<open>Giving back the last chunk, which holds no element any more.\<close>

lemma vec_ok_drop_chunk:
  assumes ob: "obliging gran env" and ok: "vec_ok gran s ps xs v" and ne: "v_handles v \<noteq> []"
    and room: "length xs + unat (v_fits v) \<le> unat (v_cap v)"
    and e: "vbind (vec_unmap_chunk env (v_dptr v + (v_cap v - v_fits v) * s)) (\<lambda>_. pop_chunk env) v = (r, v')"
  shows "r = Done () \<and> vec_ok gran s (butlast ps) xs v' \<and> regrown v v' \<and> v_cap v' = v_cap v - v_fits v"
proof -
  note V = vec_okD [OF ok] and B = vec_ok_bounds [OF ok]
  let ?ptr = "v_dptr v + (v_cap v - v_fits v) * s" and ?h = "last (v_handles v)" and ?hs = "butlast (v_handles v)"
  let ?m = "memory (v_hist v)" and ?c = "v_chunk v" and ?b = "unat (v_dptr v)"
  have pn: "ps \<noteq> []" using layout_places [OF V(6)] ne by auto
  have l: "layout ?m ?b ?c (unat (v_max v) * unat s) (?hs @ [?h]) (butlast ps @ [last ps])" using V(6) ne pn by simp
  have le: "v_fits v \<le> v_cap v" using room by (simp add: word_le_nat_alt)
  have cap: "unat (v_cap v - v_fits v) = length ?hs * unat (v_fits v)"
    using u64_sub_no_wrap [OF le] V(7) by (simp add: diff_mult_distrib)
  have m: "unat (v_cap v - v_fits v) * unat s = length ?hs * unat ?c" using cap V(2) by simp
  have "length ?hs * unat ?c \<le> length (v_handles v) * unat ?c" by simp
  then have le2: "length ?hs * unat ?c \<le> unat (v_max v) * unat s" using layoutD(3) [OF V(6)] by linarith
  have big: "?b + unat (v_max v) * unat s < 2 ^ 64" using B(4) by (rule le_less_trans) simp
  have ms: "unat ((v_cap v - v_fits v) * s) = length ?hs * unat ?c"
    unfolding m [symmetric] using m le2 big by (intro u64_mult_no_wrap) linarith
  have ptr: "unat ?ptr = ?b + length ?hs * unat ?c"
    using u64_add_no_wrap [of "v_dptr v" "(v_cap v - v_fits v) * s"] le2 big unfolding ms by linarith
  note S = layout_shrink [OF l ptr] and A = shrink_legal [OF l ptr]
  let ?q = "QUnmap ?ptr ?c"
  define v1 where "v1 = v\<lparr>v_hist := v_hist v @ [(?q, CUDA_SUCCESS, pe_value env (v_hist v) ?q)]\<rparr>"
  have e1: "vec_unmap_chunk env ?ptr v = (Done (pe_value env (v_hist v) ?q), v1)"
    unfolding vec_unmap_chunk_def v1_def by (rule CU_CHECK_ok [OF ob A(1)]) simp
  have m1: "memory (v_hist v1) = effect ?q 0 ?m" by (simp add: v1_def)
  have h1: "v_handles v1 = v_handles v" by (simp add: v1_def)
  let ?p = "QRelease ?h"
  have "CU_CHECK env ?p v1 = (Done (pe_value env (v_hist v1) ?p),
      v1\<lparr>v_hist := v_hist v1 @ [(?p, CUDA_SUCCESS, pe_value env (v_hist v1) ?p)]\<rparr>)"
    by (rule CU_CHECK_ok [OF ob]) (use A(2) [where x = 0] m1 in simp_all)
  then have e2: "pop_chunk env v1 = (Done (), v\<lparr>v_handles := ?hs, v_cap := v_cap v - v_fits v,
      v_hist := v_hist v1 @ [(?p, CUDA_SUCCESS, pe_value env (v_hist v1) ?p)]\<rparr>)"
    using ne h1 by (simp add: pop_chunk_def vbind_def v1_def)
  have r: "r = Done ()" and v': "v' = v\<lparr>v_handles := ?hs, v_cap := v_cap v - v_fits v,
      v_hist := v_hist v1 @ [(?p, CUDA_SUCCESS, pe_value env (v_hist v1) ?p)]\<rparr>"
    using e e1 e2 by (auto simp: vbind_def)
  have m': "memory (v_hist v') = shrunk ?ptr ?c ?h ?m" by (simp add: v' m1 shrunk_def)
  have law: "lawful gran (v_hist v')"
    using V(12) A(1) A(2) [where x = 0] m1 by (simp add: v' v1_def del: legal.simps)
  have fit: "length xs \<le> length ?hs * unat (v_fits v)" using room u64_sub_no_wrap [OF le] cap by simp
  have "length xs * unat s \<le> length ?hs * unat (v_fits v) * unat s" using fit by (intro mult_le_mono1)
  also have "\<dots> = length ?hs * unat ?c" using V(2) by simp
  finally have "bytes_at (shrunk ?ptr ?c ?h ?m) ?b (length xs * unat s) = bytes_at ?m ?b (length xs * unat s)"
    using S(2) by (intro bytes_at_cong) simp
  moreover have "mm_reserved (shrunk ?ptr ?c ?h ?m) = mm_reserved ?m" by (simp add: shrunk_def)
  ultimately have "vec_ok gran s (butlast ps) xs v'"
    using V S(1) cap fit law unfolding vec_ok_def m' by (simp add: v')
  then show ?thesis using r by (auto simp: v' regrown_def)
qed

end
