(* ===== verification/Vector_Life.thy ===== *)
theory Vector_Life
  imports Vector_Ops
begin

text \<open>
  \<open>pop_back\<close>, \<open>resize\<close>, copying out, construction and destruction, on the vector's contents.
\<close>

section \<open>pop_back\<close>

text \<open>
  The chunks to keep, when \<open>retain_last\<close> is -1 (all) or not negative and the count of elements it stands
  for fits in 64 bits.
\<close>

definition retain_ok :: "VMMVector \<Rightarrow> bool" where
  "retain_ok v \<longleftrightarrow> -1 \<le> vv_retain v \<and> vv_retain v < 2147483647 \<and>
     nat (vv_retain v + 1) * unat (v_fits v) < 2 ^ 64"

text \<open>Whether taking the last element away also gives back the last chunk.\<close>

definition gives_back :: "VMMVector \<Rightarrow> bool" where
  "gives_back v \<longleftrightarrow> vv_retain v \<noteq> -1 \<and>
     nat (vv_retain v + 1) * unat (v_fits v) \<le> unat (v_cap v) - (unat (v_size v) - 1)"

lemma pop_back_empty: "v_size v = 0 \<Longrightarrow> pop_back env s v = (Done (), v)"
  by (simp add: pop_back_def)

lemma pop_back_ok:
  assumes ob: "obliging gran env" and ok: "vec_ok gran s ps xs v" and ne: "xs \<noteq> []" and rt: "retain_ok v"
    and e: "pop_back env s v = (r, v')"
  shows "r = Done () \<and> (\<exists>ps. vec_ok gran s ps (butlast xs) v') \<and> resized v v' \<and>
    unat (v_cap v') = unat (v_cap v) - (if gives_back v then unat (v_fits v) else 0)"
proof -
  note V = vec_okD [OF ok] and B = vec_ok_bounds [OF ok]
  let ?v = "v\<lparr>v_size := v_size v - 1\<rparr>"
  have ok1: "vec_ok gran s ps (butlast xs) ?v" by (rule vec_ok_drop_last [OF ok ne])
  have n0: "v_size v \<noteq> 0" using V(8) ne by auto
  have r1: "resized v ?v" by (rule resizedI [where n = "v_size v - 1" and hs = "v_handles v" and c = "v_cap v" and ts = "v_hist v"]) simp
  show ?thesis
  proof (cases "vv_retain v = -1")
    case True
    then have "r = Done ()" "v' = ?v" using e n0 by (simp_all add: pop_back_def)
    then show ?thesis using ok1 True r1 by (auto simp: gives_back_def)
  next
    case False
    then have keep: "0 \<le> vv_retain v" "vv_retain v \<noteq> 2147483647" using rt by (auto simp: retain_ok_def)
    have w: "(word_of_int (vv_retain v + 1) :: u64) = of_nat (nat (vv_retain v + 1))" using keep by simp
    have small: "nat (vv_retain v + 1) < 2 ^ 64" using rt by (auto simp: retain_ok_def)
    have u: "unat (word_of_int (vv_retain v + 1) :: u64) = nat (vv_retain v + 1)"
      unfolding w using small by (subst unsigned_of_nat, subst take_bit_nat_eq_self) simp_all
    have p: "unat (word_of_int (vv_retain v + 1) * v_fits v) = nat (vv_retain v + 1) * unat (v_fits v)"
      using rt u by (subst u64_mult_no_wrap) (simp_all add: retain_ok_def)
    have one: "1 \<le> v_size v" using n0 by (simp add: word_le_nat_alt Suc_le_eq unat_gt_0)
    have le: "v_size v - 1 \<le> v_cap v" using V(8,9) u64_sub_no_wrap [OF one] by (simp add: word_le_nat_alt)
    have slack: "unat (v_cap v - (v_size v - 1)) = unat (v_cap v) - (unat (v_size v) - 1)"
      using u64_sub_no_wrap [OF le] u64_sub_no_wrap [OF one] by simp
    have g: "gives_back v \<longleftrightarrow> word_of_int (vv_retain v + 1) * v_fits v \<le> v_cap v - (v_size v - 1)"
      using False by (simp only: gives_back_def word_le_nat_alt p slack) simp
    show ?thesis
    proof (cases "gives_back v")
      case no: False
      then have "r = Done ()" "v' = ?v" using e n0 False keep g by (simp_all add: pop_back_def)
      then show ?thesis using ok1 no r1 by auto
    next
      case yes: True
      have "1 * unat (v_fits v) \<le> nat (vv_retain v + 1) * unat (v_fits v)" using keep by (intro mult_le_mono1) simp
      also have "\<dots> \<le> unat (v_cap v) - (unat (v_size v) - 1)" using yes by (simp only: gives_back_def)
      finally have "unat (v_fits v) \<le> unat (v_cap v) - (unat (v_size v) - 1)" by simp
      then have room: "length (butlast xs) + unat (v_fits ?v) \<le> unat (v_cap ?v)"
        using V(8) B(1) by simp
      have hs: "v_handles ?v \<noteq> []" using V(7,9) ne by auto
      have e1: "vbind (vec_unmap_chunk env (v_dptr ?v + (v_cap ?v - v_fits ?v) * s)) (\<lambda>_. pop_chunk env) ?v = (r, v')"
        using e n0 False keep yes g by (simp add: pop_back_def)
      have "r = Done () \<and> vec_ok gran s (butlast ps) (butlast xs) v' \<and> regrown ?v v' \<and> v_cap v' = v_cap ?v - v_fits ?v"
        by (rule vec_ok_drop_chunk [OF ob ok1 hs room e1])
      moreover have "v_fits v \<le> v_cap v" using room by (simp add: word_le_nat_alt)
      moreover from calculation have "resized v v'" using resized_trans [OF r1] regrown_resized by blast
      ultimately show ?thesis using yes u64_sub_no_wrap [of "v_fits v" "v_cap v"] by auto
    qed
  qed
qed

lemma resized_retain: "resized v v' \<Longrightarrow> vv_retain v' = vv_retain v"
  by (auto simp: resized_def)

lemma resized_retain_ok: "resized v v' \<Longrightarrow> retain_ok v \<Longrightarrow> retain_ok v'"
  using resized_retain resized_fields(4) by (metis retain_ok_def)

lemma pop_times_ok:
  assumes ob: "obliging gran env"
    and "vec_ok gran s ps xs v" and "retain_ok v" and "k \<le> length xs" and "pop_times env s k v = (r, v')"
  shows "r = Done () \<and> (\<exists>ps. vec_ok gran s ps (take (length xs - k) xs) v') \<and> resized v v' \<and>
    unat (v_cap v') \<le> unat (v_cap v)"
  using assms(2-)
proof (induction k arbitrary: ps xs v)
  case 0
  then show ?case by auto
next
  case (Suc k)
  then have ne: "xs \<noteq> []" by auto
  obtain r1 v1 where e1: "pop_back env s v = (r1, v1)" by fastforce
  note P = pop_back_ok [OF ob Suc.prems(1) ne Suc.prems(2) e1]
  then obtain qs where ok1: "vec_ok gran s qs (butlast xs) v1" and r1: "r1 = Done ()" and z: "resized v v1"
    and c: "unat (v_cap v1) \<le> unat (v_cap v)" by auto
  have e2: "pop_times env s k v1 = (r, v')" using Suc.prems(4) e1 r1 by (simp add: vbind_def)
  have "r = Done () \<and> (\<exists>ps. vec_ok gran s ps (take (length (butlast xs) - k) (butlast xs)) v') \<and> resized v1 v' \<and>
      unat (v_cap v') \<le> unat (v_cap v1)"
    using Suc.prems(3) by (intro Suc.IH [OF ok1 resized_retain_ok [OF z Suc.prems(2)] _ e2]) simp
  moreover have "take (length (butlast xs) - k) (butlast xs) = take (length xs - Suc k) xs"
    by (simp add: take_butlast butlast_conv_take min_def)
  ultimately show ?case using z c resized_trans by auto
qed

section \<open>resize and copy_to_host\<close>

text \<open>What \<open>resize\<close> makes of the contents.\<close>

definition resized_list :: "nat \<Rightarrow> 'a \<Rightarrow> 'a list \<Rightarrow> 'a list" where
  "resized_list n z xs = take n xs @ replicate (n - length xs) z"

lemma vec_resize_ok:
  assumes doc: "documented gran env" and ob: "obliging gran env" and ok: "vec_ok gran s ps xs v" and rt: "retain_ok v"
    and len: "length z = unat s" and n: "unat n + unat (v_fits v) \<le> 2 ^ 64" and e: "vec_resize env s z n v = (r, v')"
  defines "want \<equiv> round_nat (unat n) (unat (v_fits v))"
  shows "(r = Done () \<and> (\<exists>ps. vec_ok gran s ps (resized_list (unat n) z xs) v') \<and> resized v v' \<and>
        want \<le> max (unat (v_cap v)) (unat (v_max v))) \<or>
      (r = Throws ''max_capacity exceeded'' \<and> v' = v \<and> unat (v_max v) < want) \<or>
      (refused gran r v' \<and> unat (v_cap v) < unat n \<and> want \<le> unat (v_max v))"
proof -
  note V = vec_okD [OF ok] and B = vec_ok_bounds [OF ok]
  show ?thesis
  proof (cases "n \<le> v_size v")
    case True
    then have k: "unat (v_size v - n) = length xs - unat n" "unat n \<le> length xs"
      using V(8) u64_sub_no_wrap by (auto simp: word_le_nat_alt)
    have "pop_times env s (length xs - unat n) v = (r, v')" using e True k by (simp add: vec_resize_def)
    then have "r = Done () \<and> (\<exists>ps. vec_ok gran s ps (take (length xs - (length xs - unat n)) xs) v') \<and> resized v v'"
      using pop_times_ok [OF ob ok rt] by (meson diff_le_self)
    moreover have "want \<le> unat (v_cap v)"
      unfolding want_def V(7) using k(2) V(7,9) by (intro round_nat_le [OF B(1)]) simp
    ultimately show ?thesis using k(2) by (auto simp: resized_list_def)
  next
    case False
    then have lt: "length xs < unat n" using V(8) by (simp add: word_less_nat_alt not_le)
    have finish: "r = Done () \<and> vec_ok gran s qs (resized_list (unat n) z xs) v' \<and> resized v1 v'"
      if ok1: "vec_ok gran s qs xs v1" and room: "unat n \<le> unat (v_cap v1)" and z: "resized v v1"
        and size: "v_size v1 = v_size v" and e1: "push_times env s z (unat (n - v_size v1)) v1 = (r, v')" for qs v1
    proof -
      have "v_size v1 \<le> n" using False size by simp
      then have k: "unat (n - v_size v1) = unat n - length xs" using V(8) size by (simp add: u64_sub_no_wrap)
      show ?thesis
        using push_times_ok [OF ob len ok1 _ e1] k room lt by (simp add: resized_list_def)
    qed
    show ?thesis
    proof (cases "v_cap v < n")
      case le: False
      then have c: "unat n \<le> unat (v_cap v)" by (simp add: word_less_nat_alt)
      have "push_times env s z (unat (n - v_size v)) v = (r, v')"
        using e False le by (simp add: vec_resize_def vbind_def)
      then have "r = Done () \<and> vec_ok gran s ps (resized_list (unat n) z xs) v' \<and> resized v v'"
        using finish [OF ok c] by simp
      moreover have "want \<le> unat (v_cap v)"
        unfolding want_def V(7) using c V(7) by (intro round_nat_le [OF B(1)]) simp
      ultimately show ?thesis by auto
    next
      case gt: True
      then have g: "unat (v_cap v) < unat n" by (simp add: word_less_nat_alt)
      obtain r1 v1 where e1: "vec_reserve env s n v = (r1, v1)" by fastforce
      note R = vec_reserve_ok [OF doc ob ok n e1, folded want_def]
      have p: "vec_resize env s z n v = (case (r1, v1) of
          (Done _, v) \<Rightarrow> push_times env s z (unat (n - v_size v)) v
        | (Throws t, v) \<Rightarrow> (Throws t, v) | (Quits q, v) \<Rightarrow> (Quits q, v) | (Undef, v) \<Rightarrow> (Undef, v))"
        using False gt e1 by (simp add: vec_resize_def vbind_def)
      from R show ?thesis
      proof (elim disjE conjE exE)
        fix k
        assume r1: "r1 = Done ()" and ok1: "vec_ok gran s (ps @ replicate k (v_props v)) xs v1" and gr: "regrown v v1"
          and c: "unat (v_cap v1) = max (unat (v_cap v)) want" and m: "want \<le> max (unat (v_cap v)) (unat (v_max v))"
        have "unat n \<le> want" using round_nat_bounds(1) [OF B(1)] by (simp add: want_def)
        then have "unat n \<le> unat (v_cap v1)" using c by simp
        then have "r = Done () \<and> vec_ok gran s (ps @ replicate k (v_props v)) (resized_list (unat n) z xs) v' \<and> resized v1 v'"
          using finish [OF ok1] regrown_resized [OF gr] regrown_fields(2) [OF gr] e p r1 by simp
        then show ?thesis using regrown_resized [OF gr] resized_trans m by blast
      next
        assume "r1 = Throws ''max_capacity exceeded''" "v1 = v" "unat (v_max v) < want"
        then show ?thesis using e p by simp
      next
        assume "refused gran r1 v1" "want \<le> unat (v_max v)"
        then show ?thesis using e p g by (auto simp: refused_def)
      qed
    qed
  qed
qed

text \<open>Copying out gives the elements in order.\<close>

lemma copy_to_host_ok:
  assumes doc: "documented gran env" and ob: "obliging gran env" and ok: "vec_ok gran s ps xs v"
  obtains v' where "copy_to_host env s v = (Done (v_size v * s, concat xs), v')" and "vec_ok gran s ps xs v'"
    and "unat (v_size v * s) = length xs * unat s"
proof -
  note V = vec_okD [OF ok] and B = vec_ok_bounds [OF ok]
  note L = layoutD [OF V(6)]
  let ?m = "memory (v_hist v)" and ?q = "QRead (v_dptr v) (v_size v * s)" and ?b = "unat (v_dptr v)"
  have n: "unat (v_size v * s) = length xs * unat s" using B(8) V(8) by simp
  have "length xs * unat s \<le> unat (v_cap v) * unat s" using V(9) by (intro mult_le_mono1)
  then have fit: "length xs * unat s \<le> length (v_handles v) * unat (v_chunk v)" using B(9) by simp
  have "mm_page ?m y \<noteq> None \<and> mm_open ?m y" if "inside (v_dptr v) (v_size v * s) y" for y
  proof -
    have "?b \<le> y" "y - ?b < length (v_handles v) * unat (v_chunk v)" using that n fit by (auto simp: inside_def)
    then show ?thesis using L(3) L(7) [of "y - ?b"] L(8) [of "y - ?b"] by auto
  qed
  then have legal: "legal gran ?m ?q" by (simp add: accessible_def)
  define v' where "v' = v\<lparr>v_hist := v_hist v @ [(?q, CUDA_SUCCESS, pe_value env (v_hist v) ?q)]\<rparr>"
  have c: "CU_CHECK env ?q v = (Done (pe_value env (v_hist v) ?q), v')"
    unfolding v'_def by (rule CU_CHECK_ok [OF ob legal]) simp
  have "pe_bytes env (v_hist v) (v_dptr v) (v_size v * s) = concat xs"
    using documentedD(5) [OF doc] V(11) n by simp
  then have "copy_to_host env s v = (Done (v_size v * s, concat xs), v')" using c by (simp add: copy_to_host_def vbind_def)
  moreover have "vec_ok gran s ps xs v'"
    using V legal unfolding vec_ok_def by (simp add: v'_def del: legal.simps)
  ultimately show thesis using that n by blast
qed


section \<open>Destruction\<close>

lemma release_all_ok:
  assumes ob: "obliging gran env" and "\<forall>h \<in> set hs. mm_handles (memory (v_hist v)) h \<noteq> None" and "distinct hs"
    and "lawful gran (v_hist v)" and "release_all env hs v = (r, v')"
  shows "r = Done () \<and> lawful gran (v_hist v') \<and> (\<exists>ts. v' = v\<lparr>v_hist := ts\<rparr>) \<and>
    mm_reserved (memory (v_hist v')) = mm_reserved (memory (v_hist v)) \<and>
    mm_page (memory (v_hist v')) = mm_page (memory (v_hist v)) \<and>
    dom (mm_handles (memory (v_hist v'))) = dom (mm_handles (memory (v_hist v))) - set hs"
  using assms(2-)
proof (induction hs arbitrary: v)
  case Nil
  then have e: "r = Done ()" "v' = v" by simp_all
  have ex: "\<exists>ts. v' = v\<lparr>v_hist := ts\<rparr>" unfolding e(2) by (rule exI [of _ "v_hist v"]) simp
  show ?case by (intro conjI ex) (use Nil.prems(3) in \<open>simp_all add: e\<close>)
next
  case (Cons h hs)
  let ?q = "QRelease h"
  define w where "w = v\<lparr>v_hist := v_hist v @ [(?q, CUDA_SUCCESS, pe_value env (v_hist v) ?q)]\<rparr>"
  have l: "legal gran (memory (v_hist v)) ?q" using Cons.prems(1) by simp
  have "CU_CHECK env ?q v = (Done (pe_value env (v_hist v) ?q), w)"
    unfolding w_def by (rule CU_CHECK_ok [OF ob l]) simp
  then have e: "release_all env hs w = (r, v')" using Cons.prems(4) by (simp add: vbind_def)
  have m: "memory (v_hist w) = effect ?q 0 (memory (v_hist v))" by (simp add: w_def)
  have "\<forall>h \<in> set hs. mm_handles (memory (v_hist w)) h \<noteq> None" using Cons.prems(1,2) by (auto simp: m)
  moreover have "lawful gran (v_hist w)" using Cons.prems(3) l by (simp add: w_def)
  moreover have "distinct hs" using Cons.prems(2) by simp
  ultimately have IH: "r = Done () \<and> lawful gran (v_hist v') \<and> (\<exists>ts. v' = w\<lparr>v_hist := ts\<rparr>) \<and>
      mm_reserved (memory (v_hist v')) = mm_reserved (memory (v_hist w)) \<and>
      mm_page (memory (v_hist v')) = mm_page (memory (v_hist w)) \<and>
      dom (mm_handles (memory (v_hist v'))) = dom (mm_handles (memory (v_hist w))) - set hs"
    using Cons.IH [of w] e by blast
  have "dom (mm_handles (memory (v_hist w))) = dom (mm_handles (memory (v_hist v))) - {h}"
    by (auto simp: m split: if_splits)
  then have "dom (mm_handles (memory (v_hist v'))) = dom (mm_handles (memory (v_hist v))) - set (h # hs)"
    using IH by (auto simp only: list.set)
  moreover have "mm_reserved (memory (v_hist w)) = mm_reserved (memory (v_hist v))"
    "mm_page (memory (v_hist w)) = mm_page (memory (v_hist v))" by (simp_all add: m)
  moreover have "\<exists>ts. v' = v\<lparr>v_hist := ts\<rparr>" using IH by (auto simp: w_def)
  ultimately show ?case using IH by (simp only:)
qed

lemma layout_whole:
  assumes l: "layout m base c room hs ps" and d: "unat d = base" and n: "unat n = length hs * unat c" and ne: "hs \<noteq> []"
  shows "legal gran m (QUnmap d n)"
proof -
  note L = layoutD [OF l]
  have "\<exists>h off k. mm_page m a = Some (h, off, k) \<and> unat d + off \<le> a \<and> a - off + unat k \<le> unat d + unat n"
    if a: "inside d n a" for a
  proof -
    let ?i = "a - base"
    have i: "a = base + ?i" "?i < length hs * unat c" using a d n by (auto simp: inside_def)
    have "?i div unat c < length hs" using i(2) by (rule less_mult_imp_div_less)
    then have "Suc (?i div unat c) * unat c \<le> length hs * unat c" by (intro mult_le_mono1) simp
    moreover have "?i - ?i mod unat c = ?i div unat c * unat c" by (simp add: minus_mod_eq_div_mult)
    ultimately have up: "?i - ?i mod unat c + unat c \<le> length hs * unat c" by simp
    have "?i mod unat c \<le> ?i" by simp
    moreover have "mm_page m a = Some (hs ! (?i div unat c), ?i mod unat c, c)" using L(3) L(7) [of ?i] i by simp
    moreover have "unat d + ?i mod unat c \<le> a" "a - ?i mod unat c + unat c \<le> unat d + unat n"
      using \<open>?i mod unat c \<le> ?i\<close> i(1) up d n by linarith+
    ultimately show ?thesis by blast
  qed
  moreover have "n \<noteq> 0" using n ne L(1) by auto
  ultimately show ?thesis by (simp add: whole_mappings_def)
qed

text \<open>Nothing reserved, mapped or live is left.\<close>

definition nothing_held :: "Mem \<Rightarrow> bool" where
  "nothing_held m \<longleftrightarrow> mm_reserved m = (\<lambda>_. None) \<and> mm_handles m = (\<lambda>_. None) \<and> mm_page m = (\<lambda>_. None)"

lemma drop_vector_ok:
  assumes ob: "obliging gran env" and ok: "vec_ok gran s ps xs v" and e: "drop_vector env s v = (r, v')"
  shows "r = Done () \<and> lawful gran (v_hist v') \<and> nothing_held (memory (v_hist v'))"
proof -
  note V = vec_okD [OF ok] and B = vec_ok_bounds [OF ok]
  note L = layoutD [OF V(6)]
  let ?m = "memory (v_hist v)" and ?hs = "v_handles v"
  have d0: "v_dptr v \<noteq> 0" and m0: "v_max v \<noteq> 0" using B(3) V(13) by auto
  have n: "unat (v_cap v * s) = length ?hs * unat (v_chunk v)" using B(7,9) by simp
  have c0: "v_cap v = 0 \<longleftrightarrow> ?hs = []" using V(7) B(1) by (metis length_0_conv mult_is_0 not_less_zero unat_eq_0)
  have live: "\<forall>h \<in> set ?hs. mm_handles ?m h \<noteq> None" using L(9) by (metis domIff)
  obtain x v1 where e1: "(if v_dptr v \<noteq> 0 \<and> v_cap v \<noteq> 0 then CU_CHECK env (QUnmap (v_dptr v) (v_cap v * s)) else Pair (Done 0)) v = (Done x, v1)"
    and v1: "\<exists>ts. v1 = v\<lparr>v_hist := ts\<rparr>" "lawful gran (v_hist v1)" "mm_reserved (memory (v_hist v1)) = mm_reserved ?m"
      "mm_handles (memory (v_hist v1)) = mm_handles ?m" "mm_page (memory (v_hist v1)) = (\<lambda>_. None)"
  proof (cases "?hs = []")
    case True
    have p: "mm_page ?m a = None" for a
      using L(7) [of "a - unat (v_dptr v)"] L(10) [of a] True
      by (cases "a < unat (v_dptr v) \<or> unat (v_dptr v) + unat (v_max v) * unat s \<le> a") (auto simp: not_le)
    have "\<exists>ts. v = v\<lparr>v_hist := ts\<rparr>" by (rule exI [of _ "v_hist v"]) simp
    then show ?thesis using that [of 0 v] True c0 V(12) p by auto
  next
    case False
    let ?q = "QUnmap (v_dptr v) (v_cap v * s)"
    have l: "legal gran ?m ?q" by (rule layout_whole [OF V(6) refl n False])
    define w where "w = v\<lparr>v_hist := v_hist v @ [(?q, CUDA_SUCCESS, pe_value env (v_hist v) ?q)]\<rparr>"
    have "CU_CHECK env ?q v = (Done (pe_value env (v_hist v) ?q), w)"
      unfolding w_def by (rule CU_CHECK_ok [OF ob l]) simp
    then have "(if v_dptr v \<noteq> 0 \<and> v_cap v \<noteq> 0 then CU_CHECK env ?q else Pair (Done 0)) v = (Done (pe_value env (v_hist v) ?q), w)"
      using False c0 d0 by simp
    moreover have m: "memory (v_hist w) = effect ?q 0 ?m" by (simp add: w_def)
    have out: "mm_page ?m a = None" if "\<not> inside (v_dptr v) (v_cap v * s) a" for a
    proof (cases "a < unat (v_dptr v) \<or> unat (v_dptr v) + unat (v_max v) * unat s \<le> a")
      case False
      then show ?thesis using that L(7) [of "a - unat (v_dptr v)"] n by (auto simp: inside_def)
    qed (use L(10) in auto)
    have "mm_page (memory (v_hist w)) = (\<lambda>_. None)" using out by (auto simp: m)
    moreover have "lawful gran (v_hist w)" using V(12) l by (simp add: w_def del: legal.simps)
    moreover have "\<exists>ts. w = v\<lparr>v_hist := ts\<rparr>" by (auto simp: w_def)
    moreover have "mm_reserved (memory (v_hist w)) = mm_reserved ?m" "mm_handles (memory (v_hist w)) = mm_handles ?m"
      by (simp_all add: m)
    ultimately show ?thesis by (intro that)
  qed
  obtain ts where ts: "v1 = v\<lparr>v_hist := ts\<rparr>" using v1(1) by blast
  obtain r2 v2 where e2: "release_all env ?hs v1 = (r2, v2)" by fastforce
  have R: "r2 = Done () \<and> lawful gran (v_hist v2) \<and> (\<exists>ts. v2 = v1\<lparr>v_hist := ts\<rparr>) \<and>
      mm_reserved (memory (v_hist v2)) = mm_reserved ?m \<and> mm_page (memory (v_hist v2)) = (\<lambda>_. None) \<and>
      dom (mm_handles (memory (v_hist v2))) = {}"
    using release_all_ok [OF ob _ L(5) v1(2) e2] live L(9) v1(3-5) by auto
  then obtain ts2 where ts2: "v2 = v\<lparr>v_hist := ts2\<rparr>" using ts by auto
  let ?q = "QAddrFree (v_dptr v) (v_max v * s)"
  have l: "legal gran (memory (v_hist v2)) ?q" using R V(5) by (simp add: unmapped_def)
  have e3: "CU_CHECK env ?q v2 = (Done (pe_value env (v_hist v2) ?q),
      v2\<lparr>v_hist := v_hist v2 @ [(?q, CUDA_SUCCESS, pe_value env (v_hist v2) ?q)]\<rparr>)"
    by (rule CU_CHECK_ok [OF ob l]) simp
  have "r = Done () \<and> v' = v2\<lparr>v_hist := v_hist v2 @ [(?q, CUDA_SUCCESS, pe_value env (v_hist v2) ?q)]\<rparr>"
    using e e1 e2 e3 R d0 m0 by (auto simp: drop_vector_def vbind_def ts ts2)
  moreover have "mm_handles (memory (v_hist v2)) = (\<lambda>_. None)" using R by auto
  ultimately show ?thesis using R l V(5) by (auto simp: nothing_held_def simp del: legal.simps)
qed

section \<open>Construction\<close>

text \<open>The sizes are not so large that rounding up or multiplying by the element's size wraps.\<close>

definition sane_sizes :: "granularity \<Rightarrow> Prop \<Rightarrow> u64 \<Rightarrow> u64 \<Rightarrow> u64 \<Rightarrow> bool" where
  "sane_sizes gran p s mx ck \<longleftrightarrow>
     0 < unat s \<and> 0 < unat mx \<and> unat ck + gran p \<le> 2 ^ 64 \<and>
     unat mx * unat s + (unat ck + gran p) \<le> 2 ^ 64"

lemma page_dvd_gran:
  assumes "documented gran env"
  shows "4096 dvd gran p" and "0 < gran p"
proof -
  obtain k where k: "12 \<le> k" "gran p = 2 ^ k" using documentedD(1) [OF assms] by blast
  have "(4096 :: nat) = 2 ^ 12" by simp
  then show "4096 dvd gran p" using k by (simp only: le_imp_power_dvd)
  show "0 < gran p" using k by simp
qed

text \<open>What both constructors end with: the range is reserved for chunks of a rounded size.\<close>

lemma fresh_vec_ok:
  fixes v :: "'z Vec_scheme"
  assumes doc: "documented gran env" and sane: "sane_sizes gran p s mx ck" and g: "unat g = gran p"
    and hs: "memory hs = no_mem" "lawful gran hs"
    and D: "s \<le> ROUND_UP ck g" "ROUND_UP ck g mod s = 0"
    and F: "v_chunk v = ROUND_UP ck g" "v_fits v = v_chunk v div s" "v_max v = ROUND_UP mx (v_fits v)"
      "v_size v = 0" "v_cap v = 0" "v_handles v = []"
    and q: "pe_result env hs (QReserve (v_max v * s)) = CUDA_SUCCESS" "v_dptr v = pe_value env hs (QReserve (v_max v * s))"
      "v_hist v = hs @ [(QReserve (v_max v * s), CUDA_SUCCESS, v_dptr v)]"
    and pr: "gran (v_props v) dvd gran p"
  shows "vec_ok gran s [] [] v \<and> unat (v_chunk v) = round_nat (unat ck) (gran p) \<and>
    unat (v_max v) = round_nat (unat mx) (unat (v_fits v))"
proof -
  let ?c = "v_chunk v" let ?f = "v_fits v" let ?mx = "v_max v" let ?d = "v_dptr v"
  note S = sane [unfolded sane_sizes_def]
  note gp = page_dvd_gran [OF doc, of p]
  have c: "unat ?c = round_nat (unat ck) (gran p)" unfolding F(1) using S gp by (subst ROUND_UP_nat) (simp_all add: g)
  then have cg: "gran p dvd unat ?c" by simp
  have "unat ?c mod unat s = 0" using D(2) F(1) by (metis unat_0 unat_mod_distrib)
  then have fs: "unat ?c = unat ?f * unat s" unfolding F(2) by (metis unat_div mod_0_imp_dvd dvd_div_mult_self)
  have c0: "0 < unat ?c" using D(1) S F(1) by (simp add: word_le_nat_alt)
  then have f0: "0 < unat ?f" using fs by (cases "unat ?f") auto
  have "unat ?c < unat ck + gran p" unfolding c by (rule round_nat_bounds [OF gp(2)])
  then have "unat mx * unat s + unat ?f * unat s < 2 ^ 64" using S fs by linarith
  then have small: "(unat mx + unat ?f) * unat s < 2 ^ 64" by (simp add: add_mult_distrib)
  moreover have "unat mx + unat ?f \<le> (unat mx + unat ?f) * unat s" using S by simp
  ultimately have mf: "unat mx + unat ?f \<le> 2 ^ 64" by linarith
  have mx: "unat ?mx = round_nat (unat mx) (unat ?f)" unfolding F(3) by (rule ROUND_UP_nat [OF f0 mf])
  have B: "unat mx \<le> unat ?mx" "unat ?mx < unat mx + unat ?f" unfolding mx by (rule round_nat_bounds [OF f0])+
  have "unat ?mx * unat s \<le> (unat mx + unat ?f) * unat s" using B(2) by (intro mult_le_mono1) simp
  then have ms: "unat (?mx * s) = unat ?mx * unat s" using small by (intro u64_mult_no_wrap) linarith
  have R: "?d \<noteq> 0 \<and> unat ?d + unat (?mx * s) \<le> 2 ^ 57 \<and> unmapped (memory hs) ?d (?mx * s)"
    using documentedD(3) [OF doc q(1)] q(2) by simp
  have dv: "unat ?f dvd unat ?mx" unfolding mx by (rule round_nat_dvd)
  then have "unat ?c dvd unat ?mx * unat s" using fs by simp
  then have "4096 dvd unat ?mx * unat s" using cg gp(1) dvd_trans by blast
  moreover have m0: "0 < unat ?mx" using S B by linarith
  then have "?mx * s \<noteq> 0" using ms S by (metis mult_pos_pos not_less_zero unat_0)
  ultimately have lr: "legal gran (memory hs) (QReserve (?mx * s))" using ms by simp
  have m: "memory (v_hist v) = no_mem\<lparr>mm_reserved := [?d \<mapsto> ?mx * s]\<rparr>" by (simp add: q(3) hs(1)) (simp add: no_mem_def)
  have "layout (memory (v_hist v)) (unat ?d) ?c (unat ?mx * unat s) [] []"
    using c0 R ms unfolding layout_def m by (simp add: no_mem_def unat_gt_0)
  moreover have "lawful gran (v_hist v)" using hs(2) lr by (simp add: q(3) del: legal.simps)
  moreover have "unat ?c mod gran (v_props v) = 0" using pr cg by (meson dvd_imp_mod_0 dvd_trans)
  ultimately have "vec_ok gran s [] [] v"
    using S fs dv m0 unfolding vec_ok_def m by (simp add: bytes_at_def F(4-6))
  then show ?thesis using c mx by blast
qed

lemma new_vector_ok:
  fixes dev
  defines "p \<equiv> \<lparr>p_type = if dev then LocDevice else LocHostNuma, p_id = 0\<rparr>"
  assumes doc: "documented gran env" and sane: "sane_sizes gran p s mx ck"
    and e: "new_vector env s mx ck rt dev [] = (Done (), v)"
  shows "vec_ok gran s [] [] v \<and> v_props v = p \<and> vv_retain v = rt \<and>
    unat (v_chunk v) = round_nat (unat ck) (gran p) \<and> unat (v_max v) = round_nat (unat mx) (unat (v_fits v))"
proof -
  let ?g = "pe_value env [] (QGranularity p)"
  let ?c = "ROUND_UP ck ?g" let ?f = "?c div s" let ?mx = "ROUND_UP mx ?f" let ?qr = "QReserve (?mx * s)"
  let ?h = "[(QGranularity p, CUDA_SUCCESS, ?g)]" let ?d = "pe_value env ?h ?qr"
  note E = e [unfolded new_vector_def p_def [symmetric] Let_def vbind_def CU_CHECK_def]
  have ok1: "pe_result env [] (QGranularity p) = CUDA_SUCCESS" using E by (auto split: if_splits)
  then have ug: "unat ?g = gran p" using documentedD(2) [OF doc] by blast
  have D: "s \<le> ?c" "?c mod s = 0" "pe_result env ?h ?qr = CUDA_SUCCESS"
    using E ok1 by (auto split: if_splits)
  have v: "v = \<lparr>v_hist = ?h @ [(?qr, CUDA_SUCCESS, ?d)], v_dptr = ?d, v_size = 0, v_cap = 0, v_max = ?mx, v_chunk = ?c, v_fits = ?f, v_props = p,
      v_handles = [], vv_retain = rt\<rparr>"
    using E ok1 D by (auto simp: not_less [symmetric] split: if_splits)
  have h: "memory ?h = no_mem" "lawful gran ?h" by (simp_all add: memory_def lawful_def)
  have "vec_ok gran s [] [] v \<and> unat (v_chunk v) = round_nat (unat ck) (gran p) \<and>
      unat (v_max v) = round_nat (unat mx) (unat (v_fits v))"
    by (rule fresh_vec_ok [OF doc sane ug h D(1,2)]) (simp_all add: v D(3) [simplified])
  then show ?thesis by (simp add: v)
qed

end
