(* ===== verification/Remap_Vector.thy ===== *)
theory Remap_Vector
  imports Vector_Life
begin

text \<open>
  Moving the backing of a mapped range between device and host without changing its address
  (\<open>experiments/VMMRemapShared/remap.cuh\<close>), and the growable vector that can move its chunks
  (\<open>vmm_remap.cuh\<close>).
\<close>

section \<open>remap_backing\<close>

text \<open>
  \<open>remap.cuh\<close> gives every backing id 0: NUMA node 0 and device 0. The result is the new handle. The steps
  are those of \<open>experiments/lookups/2A\<close> too, there with other placements.
\<close>

definition remap_prop :: "bool \<Rightarrow> Prop" where
  "remap_prop to_host = \<lparr>p_type = if to_host then LocHostNuma else LocDevice, p_id = 0\<rparr>"

definition move_backing :: "PEnv \<Rightarrow> u64 \<Rightarrow> u64 \<Rightarrow> u64 \<Rightarrow> Prop \<Rightarrow> ('z Proc_scheme, u64) act" where
  "move_backing env va n h p =
     vbind (CU_CHECK env (QCreate n p))
     (\<lambda>nh. vbind (CU_CHECK env (QReserve n))
     (\<lambda>scratch. vbind (CU_CHECK env (QMap scratch n nh))
     (\<lambda>_. vbind (CU_CHECK env (QAccess scratch n))
     (\<lambda>_. vbind (CU_CHECK env (QCopy scratch va n))
     (\<lambda>_. vbind (CU_CHECK env QSync)
     (\<lambda>_. vbind (CU_CHECK env (QUnmap va n))
     (\<lambda>_. vbind (CU_CHECK env (QRelease h))
     (\<lambda>_. vbind (CU_CHECK env (QMap va n nh))
     (\<lambda>_. vbind (CU_CHECK env (QAccess va n))
     (\<lambda>_. vbind (CU_CHECK env (QUnmap scratch n))
     (\<lambda>_. vbind (CU_CHECK env (QAddrFree scratch n))
     (\<lambda>_. Pair (Done nh)))))))))))))"

definition remap_backing :: "PEnv \<Rightarrow> u64 \<Rightarrow> u64 \<Rightarrow> u64 \<Rightarrow> bool \<Rightarrow> ('z Proc_scheme, u64) act" where
  "remap_backing env va n h to_host = move_backing env va n h (remap_prop to_host)"

definition remap_granularity :: "PEnv \<Rightarrow> ('z Proc_scheme, u64) act" where
  "remap_granularity env =
     vbind (CU_CHECK env (QGranularity (remap_prop False)))
     (\<lambda>g. vbind (CU_CHECK env (QGranularity (remap_prop True)))
     (\<lambda>gh. Pair (Done (if g > gh then g else gh))))"

section \<open>The vector\<close>

record VMMRemapVector = Vec +
  vr_on_host :: "bool list"

definition create_chunk :: "PEnv \<Rightarrow> (VMMRemapVector, u64) act" where
  "create_chunk env v = CU_CHECK env (QCreate (v_chunk v) (v_props v)) v"

definition new_remap_vector :: "PEnv \<Rightarrow> u64 \<Rightarrow> u64 \<Rightarrow> u64 \<Rightarrow> requests \<Rightarrow> unit ending \<times> VMMRemapVector" where
  "new_remap_vector env s max_capacity chunk_size hs =
     vbind (remap_granularity env)
       (\<lambda>g v.
          if g = 0 then (Undef, v)
          else let c = ROUND_UP chunk_size g; v = v\<lparr>v_chunk := c\<rparr>
            in if c < s \<or> c mod s \<noteq> 0 then (Throws ''bad chunk_size'', v)
               else let f = c div s; v = v\<lparr>v_fits := f, v_max := ROUND_UP max_capacity f\<rparr>
                 in vbind (CU_CHECK env (QReserve (v_max v * s))) (\<lambda>d v. (Done (), v\<lparr>v_dptr := d\<rparr>)) v)
       \<lparr>v_hist = hs, v_dptr = 0, v_size = 0, v_cap = 0, v_max = max_capacity, v_chunk = 0, v_fits = 0,
        v_props = remap_prop False, v_handles = [], vr_on_host = []\<rparr>"

definition drop_remap_vector :: "PEnv \<Rightarrow> u64 \<Rightarrow> (VMMRemapVector, unit) act" where
  "drop_remap_vector env s v =
     vbind (if v_dptr v \<noteq> 0 \<and> v_cap v \<noteq> 0 then CU_CHECK env (QUnmap (v_dptr v) (v_cap v * s)) else Pair (Done 0))
       (\<lambda>_ v. vbind (release_all env (v_handles v))
         (\<lambda>_ v. vbind (if v_dptr v \<noteq> 0 \<and> v_max v \<noteq> 0 then CU_CHECK env (QAddrFree (v_dptr v) (v_max v * s))
                        else Pair (Done 0))
            (\<lambda>_. Pair (Done ())) v) v) v"

fun remap_reserve_chunks :: "PEnv \<Rightarrow> nat \<Rightarrow> u64 \<Rightarrow> (VMMRemapVector, unit) act" where
  "remap_reserve_chunks env 0 ptr v = (Done (), v)"
| "remap_reserve_chunks env (Suc k) ptr v =
     vbind (create_chunk env)
       (\<lambda>h v. vbind (CU_CHECK env (QMap ptr (v_chunk v) h))
         (\<lambda>_ v. vbind (CU_CHECK env (QAccess ptr (v_chunk v)))
           (\<lambda>_ v. remap_reserve_chunks env k (ptr + v_chunk v)
              (v\<lparr>v_handles := v_handles v @ [h], vr_on_host := vr_on_host v @ [False], v_cap := v_cap v + v_fits v\<rparr>)) v) v) v"

definition remap_vec_reserve :: "PEnv \<Rightarrow> u64 \<Rightarrow> u64 \<Rightarrow> (VMMRemapVector, unit) act" where
  "remap_vec_reserve env s n v =
     (if n \<le> v_cap v then (Done (), v)
      else let nc = ROUND_UP n (v_fits v)
        in if v_max v < nc then (Throws ''max_capacity exceeded'', v)
           else remap_reserve_chunks env (unat (nc div v_fits v - v_cap v div v_fits v)) (v_dptr v + v_cap v * s) v)"

definition remap_push_back :: "PEnv \<Rightarrow> u64 \<Rightarrow> bytes \<Rightarrow> (VMMRemapVector, unit) act" where
  "remap_push_back env s x v =
     vbind (if v_size v = v_cap v then remap_vec_reserve env s (if 1 < v_size v then v_size v * 2 else 2) else Pair (Done ()))
       (\<lambda>_ v. vbind (CU_CHECK env (QWrite (v_dptr v + v_size v * s) x))
         (\<lambda>_ v. (Done (), v\<lparr>v_size := v_size v + 1\<rparr>)) v) v"

text \<open>\<open>remap\<close>; an index out of range fails the \<open>assert\<close>.\<close>

definition remap_chunk :: "PEnv \<Rightarrow> nat \<Rightarrow> bool \<Rightarrow> (VMMRemapVector, unit) act" where
  "remap_chunk env i to_host v =
     (if length (v_handles v) \<le> i then (Undef, v)
      else if vr_on_host v ! i = to_host then (Done (), v)
      else vbind (remap_backing env (v_dptr v + of_nat i * v_chunk v) (v_chunk v) (v_handles v ! i) to_host)
        (\<lambda>nh v. (Done (), v\<lparr>v_handles := (v_handles v)[i := nh], vr_on_host := (vr_on_host v)[i := to_host]\<rparr>)) v)"

definition remap_copy_to_host :: "PEnv \<Rightarrow> u64 \<Rightarrow> (VMMRemapVector, u64 \<times> bytes) act" where
  "remap_copy_to_host env s v =
     vbind (CU_CHECK env (QRead (v_dptr v) (v_size v * s)))
       (\<lambda>_. Pair (Done (v_size v * s, pe_bytes env (v_hist v) (v_dptr v) (v_size v * s)))) v"

end
