(* ===== verification/Remap_Props.thy ===== *)
theory Remap_Props
  imports Remap_Vector
begin

text \<open>
  Swapping the backing under a mapped chunk: what the twelve requests of \<open>remap_backing\<close> do to the
  driver's memory, and that each of them is legal.
\<close>

section \<open>The requests\<close>

lemma data_put_bytes:
  assumes "\<And>j. j < length xs \<Longrightarrow> map_option fst (cell m (a + j)) = Some h" and "g \<noteq> h"
  shows "mm_data (put_bytes a xs m) g = mm_data m g"
  using assms
proof (induction xs arbitrary: a m)
  case (Cons x xs)
  have "map_option fst (cell m a) = Some h" using Cons.prems(1) [of 0] by simp
  then have "mm_data (put_byte a x m) g = mm_data m g"
    using Cons.prems(2) by (auto simp: cell_def put_byte_def split: option.splits)
  moreover have "map_option fst (cell (put_byte a x m) (Suc a + j)) = Some h" if "j < length xs" for j
    using Cons.prems(1) [of "Suc j"] that by simp
  ultimately show ?case using Cons.IH [of "put_byte a x m" "Suc a"] Cons.prems(2) by simp
qed simp

text \<open>The memory with the contents copied to the new backing at the scratch range, and at the end.\<close>

definition staged :: "u64 \<Rightarrow> u64 \<Rightarrow> u64 \<Rightarrow> u64 \<Rightarrow> Prop \<Rightarrow> Mem \<Rightarrow> Mem" where
  "staged va c nh sc p m =
     effect (QAccess sc c) 0 (effect (QMap sc c nh) 0 (effect (QReserve c) sc (effect (QCreate c p) nh m)))"

definition swapped :: "u64 \<Rightarrow> u64 \<Rightarrow> u64 \<Rightarrow> u64 \<Rightarrow> u64 \<Rightarrow> Mem \<Rightarrow> Mem" where
  "swapped va c h nh sc m =
     effect (QAddrFree sc c) 0 (effect (QUnmap sc c) 0 (effect (QAccess va c) 0 (effect (QMap va c nh) 0
       (effect (QRelease h) 0 (effect (QUnmap va c) 0 m)))))"

lemma staged_fields:
  "mm_page (staged va c nh sc p m) a = (if inside sc c a then Some (nh, a - unat sc, c) else mm_page m a)"
  "mm_open (staged va c nh sc p m) a \<longleftrightarrow> mm_open m a \<or> inside sc c a"
  "mm_handles (staged va c nh sc p m) = (mm_handles m)(nh \<mapsto> (c, p))"
  "mm_reserved (staged va c nh sc p m) = (mm_reserved m)(sc \<mapsto> c)"
  "mm_data (staged va c nh sc p m) = (mm_data m)(nh := (\<lambda>_. None))"
  by (auto simp: staged_def)

lemma swapped_fields:
  "mm_page (swapped va c h nh sc m) a =
     (if inside sc c a then None else if inside va c a then Some (nh, a - unat va, c) else mm_page m a)"
  "mm_open (swapped va c h nh sc m) a \<longleftrightarrow> (mm_open m a \<or> inside va c a) \<and> \<not> inside sc c a"
  "mm_handles (swapped va c h nh sc m) = (mm_handles m)(h := None)"
  "mm_reserved (swapped va c h nh sc m) = (mm_reserved m)(sc := None)"
  "mm_data (swapped va c h nh sc m) = mm_data m"
  by (auto simp: swapped_def)

section \<open>The memory afterwards\<close>

lemma swap_memory:
  fixes m base c room hs ps i nh sc va p
  defines "m1 \<equiv> staged va c nh sc p m"
  defines "m2 \<equiv> put_bytes (unat sc) (bytes_at m1 (unat va) (unat c)) m1"
  defines "m3 \<equiv> swapped va c (hs ! i) nh sc m2"
  assumes l: "layout m base c room hs ps" and i: "i < length hs" and new: "mm_handles m nh = None"
    and apart: "unat sc + unat c \<le> base \<or> base + room \<le> unat sc" and va: "unat va = base + i * unat c"
  shows "layout m3 base c room (hs[i := nh]) (ps[i := p])"
    and "j < length hs * unat c \<Longrightarrow> byte_at m3 (base + j) = byte_at m (base + j)"
proof -
  note L = layoutD [OF l]
  let ?c = "unat c"
  have c0: "0 < ?c" by (rule L(1))
  have nh: "nh \<notin> set hs" using L(9) new by auto
  have ic: "Suc i * ?c \<le> length hs * ?c" using i by (intro mult_le_mono1) simp
  have sc: "\<not> inside sc c (base + j)" if "j < room" for j using apart that by (auto simp: inside_def)
  have ins: "inside va c (base + j) \<longleftrightarrow> i * ?c \<le> j \<and> j < i * ?c + ?c" for j by (auto simp: inside_def va)
  have old: "byte_at m1 (base + j) = byte_at m (base + j)" if j: "j < length hs * ?c" for j
  proof -
    have "hs ! (j div ?c) \<noteq> nh" using nh j by (metis less_mult_imp_div_less nth_mem)
    then show ?thesis
      using sc [of j] L(3) L(7) [of j] j by (simp add: byte_at_def m1_def staged_fields)
  qed
  have cell: "cell m1 (unat sc + j) = Some (nh, j)" if "j < ?c" for j
    using that by (simp add: cell_def m1_def staged_fields inside_def)
  have len: "length (bytes_at m1 (unat va) ?c) = ?c" by (simp add: bytes_at_def)
  have new_data: "mm_data m2 nh j = byte_at m (base + (i * ?c + j))" if j: "j < ?c" for j
  proof -
    have "byte_at m2 (unat sc + j) = bytes_at m1 (unat va) ?c ! j"
      unfolding m2_def using j by (intro byte_put_bytes) (simp_all add: len cell)
    also have "\<dots> = byte_at m1 (base + (i * ?c + j))" using j va by (simp add: bytes_at_def add.assoc)
    also have "\<dots> = byte_at m (base + (i * ?c + j))" using j ic by (intro old) simp
    finally show ?thesis using cell [OF j] by (simp add: byte_at_def cell_def m2_def split: option.splits prod.splits)
  qed
  have other: "mm_data m2 g = mm_data m g" if "g \<noteq> nh" for g
  proof -
    have "mm_data m2 g = mm_data m1 g" unfolding m2_def
      by (rule data_put_bytes [where h = nh]) (simp_all add: len cell that)
    then show ?thesis using that by (simp add: m1_def staged_fields)
  qed
  have page: "mm_page m3 (base + j) =
      (if j < length hs * ?c then Some (hs[i := nh] ! (j div ?c), j mod ?c, c) else None)" if j: "j < room" for j
  proof (cases "i * ?c \<le> j \<and> j < i * ?c + ?c")
    case True
    then have "j div ?c = i" "j mod ?c = j - i * ?c" using chunk_index by blast+
    then show ?thesis using True i ic sc [OF j] ins [of j] by (simp add: m3_def swapped_fields va)
  next
    case False
    have "j div ?c \<noteq> i" if "j < length hs * ?c"
    proof
      assume e: "j div ?c = i"
      have "j = i * ?c + j mod ?c" using div_mult_mod_eq [of j ?c] unfolding e by simp
      then show False using False mod_less_divisor [OF c0, of j] by linarith
    qed
    then show ?thesis
      using False sc [OF j] ins [of j] L(7) [OF j] by (auto simp: m3_def m2_def m1_def swapped_fields staged_fields)
  qed
  have "mm_open m3 (base + j)" if "j < length hs * ?c" for j
    using that sc [of j] L(3) L(8) [of j] by (simp add: m3_def m2_def m1_def swapped_fields staged_fields)
  moreover have "mm_page m3 a = None" if "a < base \<or> base + room \<le> a" for a
    using that L(3) L(10) [of a] ic va by (auto simp: m3_def m2_def m1_def swapped_fields staged_fields inside_def)
  moreover have hs: "mm_handles m3 = (mm_handles m)(nh \<mapsto> (c, p), hs ! i := None)"
    by (simp add: m3_def m2_def m1_def swapped_fields staged_fields)
  moreover have "map (mm_handles m3) (hs[i := nh]) = map (\<lambda>p. Some (c, p)) (ps[i := p])"
  proof (rule nth_equalityI)
    fix j
    assume "j < length (map (mm_handles m3) (hs[i := nh]))"
    then have j: "j < length hs" by simp
    have "nh \<noteq> hs ! i" "j \<noteq> i \<Longrightarrow> hs ! j \<noteq> hs ! i" "hs ! j \<noteq> nh"
      using nh i j L(5) by (auto simp: nth_eq_iff_index_eq)
    then show "map (mm_handles m3) (hs[i := nh]) ! j = map (\<lambda>p. Some (c, p)) (ps[i := p]) ! j"
      using i j layout_places [OF l] layout_handle [OF l j] by (cases "j = i") (simp_all add: hs)
  qed (simp add: layout_places [OF l])
  moreover have "dom (mm_handles m3) = set (hs[i := nh])"
  proof -
    have "set (hs[i := nh]) = insert nh (set hs - {hs ! i})" using set_update_distinct [OF L(5) i] .
    then show ?thesis using L(9) nh i by (auto simp: hs split: if_splits)
  qed
  moreover have "distinct (hs[i := nh])" using L(5) nh by (intro distinct_list_update) auto
  ultimately show "layout m3 base c room (hs[i := nh]) (ps[i := p])"
    using page L(1-4) unfolding layout_def by simp
  show "byte_at m3 (base + j) = byte_at m (base + j)" if j: "j < length hs * ?c"
  proof (cases "i * ?c \<le> j \<and> j < i * ?c + ?c")
    case True
    then have d: "j div ?c = i" "j mod ?c = j - i * ?c" using chunk_index by blast+
    have "byte_at m3 (base + j) = mm_data m2 nh (j - i * ?c)"
      using page [of j] L(3) j d i by (simp add: byte_at_def m3_def swapped_fields)
    also have "\<dots> = byte_at m (base + j)" using True by (subst new_data) auto
    finally show ?thesis .
  next
    case False
    have jr: "j < room" using L(3) j by linarith
    have "mm_page m3 (base + j) = mm_page m (base + j)"
      using False sc [OF jr] ins [of j] by (auto simp: m3_def m2_def m1_def swapped_fields staged_fields)
    moreover have "hs ! (j div ?c) \<noteq> nh" using nh j by (metis less_mult_imp_div_less nth_mem)
    ultimately show ?thesis using L(7) [OF jr] j other by (simp add: byte_at_def m3_def swapped_fields)
  qed
qed


section \<open>One request after the other\<close>

definition request1 :: "PEnv \<Rightarrow> request \<Rightarrow> 'z Proc_scheme \<Rightarrow> 'z Proc_scheme" where
  "request1 env q v = v\<lparr>v_hist := v_hist v @ [(q, CUDA_SUCCESS, pe_value env (v_hist v) q)]\<rparr>"

lemma request1_memory: "memory (v_hist (request1 env q v)) = effect q (pe_value env (v_hist v) q) (memory (v_hist v))"
  by (simp add: request1_def)

lemma request1_lawful: "lawful gran (v_hist (request1 env q v)) \<longleftrightarrow> lawful gran (v_hist v) \<and> legal gran (memory (v_hist v)) q"
  by (simp add: request1_def del: legal.simps)

lemma request1_hist: "\<exists>ts. request1 env q v = v\<lparr>v_hist := ts\<rparr>"
  by (auto simp: request1_def)

lemma CU_CHECK_request1:
  assumes "pe_result env (v_hist v) q = CUDA_SUCCESS"
  shows "CU_CHECK env q v = (Done (pe_value env (v_hist v) q), request1 env q v)"
  using assms by (simp add: CU_CHECK_def request1_def Let_def)

lemma vbind_request1:
  assumes "obliging gran env" and "legal gran (memory (v_hist v)) q" and "\<not> may_refuse q"
  shows "vbind (CU_CHECK env q) g v = g (pe_value env (v_hist v) q) (request1 env q v)"
  using assms CU_CHECK_request1 [of env v q] by (simp add: vbind_def obliging_def)

text \<open>The process ended because the driver refused new memory or a new range.\<close>

definition out_of_memory :: "granularity \<Rightarrow> 'a ending \<Rightarrow> 'z Proc_scheme \<Rightarrow> bool" where
  "out_of_memory gran r v \<longleftrightarrow>
     (\<exists>e q x hs. r = Quits e \<and> v_hist v = hs @ [(q, e, x)] \<and> may_refuse q \<and> e \<noteq> CUDA_SUCCESS \<and> lawful gran (v_hist v))"

lemma refused_out_of_memory: "refused gran r v \<Longrightarrow> out_of_memory gran r v"
  by (force simp: refused_def out_of_memory_def)

lemma vbind_refusal:
  assumes "legal gran (memory (v_hist v)) q" and "may_refuse q" and "lawful gran (v_hist v)"
    and "pe_result env (v_hist v) q \<noteq> CUDA_SUCCESS" and "vbind (CU_CHECK env q) g v = (r, v')"
  shows "out_of_memory gran r v'"
  using assms by (auto simp: vbind_def CU_CHECK_def out_of_memory_def Let_def simp del: legal.simps)

section \<open>remap_backing\<close>

lemma remap_legal:
  fixes m base c room hs ps i nh sc va p
  defines "m1 \<equiv> staged va c nh sc p m"
  defines "m2 \<equiv> put_bytes (unat sc) (bytes_at m1 (unat va) (unat c)) m1"
  assumes l: "layout m base c room hs ps" and i: "i < length hs" and new: "mm_handles m nh = None"
    and apart: "unat sc + unat c \<le> base \<or> base + room \<le> unat sc" and va: "unat va = base + i * unat c"
    and res: "mm_reserved m = [d \<mapsto> k]" "unat d = base" "unat k = room" and um: "unmapped m sc c"
  shows "legal gran (effect (QReserve c) sc (effect (QCreate c p) nh m)) (QMap sc c nh)"
    and "legal gran (effect (QMap sc c nh) x1 (effect (QReserve c) sc (effect (QCreate c p) nh m))) (QAccess sc c)"
    and "legal gran m1 (QCopy sc va c)"
    and "legal gran m2 (QUnmap va c)"
    and "legal gran (effect (QUnmap va c) x2 m2) (QRelease (hs ! i))"
    and "legal gran (effect (QRelease (hs ! i)) x3 (effect (QUnmap va c) x2 m2)) (QMap va c nh)"
    and "legal gran (effect (QMap va c nh) x4 (effect (QRelease (hs ! i)) x3 (effect (QUnmap va c) x2 m2))) (QAccess va c)"
    and "legal gran (effect (QAccess va c) x5 (effect (QMap va c nh) x4 (effect (QRelease (hs ! i)) x3 (effect (QUnmap va c) x2 m2))))
      (QUnmap sc c)"
    and "legal gran (effect (QUnmap sc c) x6 (effect (QAccess va c) x5 (effect (QMap va c nh) x4
      (effect (QRelease (hs ! i)) x3 (effect (QUnmap va c) x2 m2))))) (QAddrFree sc c)"
proof -
  note L = layoutD [OF l]
  let ?c = "unat c"
  have c0: "c \<noteq> 0" using L(1) by auto
  have ic: "Suc i * ?c \<le> length hs * ?c" using i by (intro mult_le_mono1) simp
  have room: "i * ?c + ?c \<le> room" using ic L(3) by simp
  have dis: "\<not> inside va c a" if "inside sc c a" for a using that apart va room by (auto simp: inside_def)
  have at: "mm_page m a = Some (hs ! i, a - unat va, c) \<and> mm_open m a" if "inside va c a" for a
  proof -
    have j: "i * ?c \<le> a - base" "a - base < i * ?c + ?c" "a = base + (a - base)" using that va by (auto simp: inside_def)
    then have "(a - base) div ?c = i" "(a - base) mod ?c = a - base - i * ?c" using chunk_index by blast+
    then show ?thesis using L(7) [of "a - base"] L(8) [of "a - base"] j room ic va by auto
  qed
  have nh: "nh \<noteq> hs ! i" using new layout_handle [OF l i] by auto
  have whole: "whole_mappings M v c" if "\<And>a. inside v c a \<Longrightarrow> mm_page M a = Some (g, a - unat v, c)" for M v g
    using that by (fastforce simp: whole_mappings_def inside_def)
  show "legal gran (effect (QReserve c) sc (effect (QCreate c p) nh m)) (QMap sc c nh)"
    using um by (auto simp: in_reservation_def unmapped_def)
  show "legal gran (effect (QMap sc c nh) x1 (effect (QReserve c) sc (effect (QCreate c p) nh m))) (QAccess sc c)"
    unfolding legal.simps using c0 by (intro conjI whole [where g = nh]) simp_all
  show "legal gran m1 (QCopy sc va c)"
    using at dis by (auto simp: accessible_def m1_def staged_fields)
  have p2: "mm_page m2 a = Some (hs ! i, a - unat va, c)" if "inside va c a" for a
    using at [OF that] dis [of a] that by (auto simp: m2_def m1_def staged_fields)
  show "legal gran m2 (QUnmap va c)"
    unfolding legal.simps using c0 p2 by (intro conjI whole [where g = "hs ! i"]) simp_all
  have h2: "mm_handles m2 = (mm_handles m)(nh \<mapsto> (c, p))" by (simp add: m2_def m1_def staged_fields)
  show "legal gran (effect (QUnmap va c) x2 m2) (QRelease (hs ! i))"
    using layout_handle [OF l i] nh by (simp add: h2)
  have r2: "mm_reserved m2 d = Some k \<or> d = sc" using res by (simp add: m2_def m1_def staged_fields)
  have "d \<noteq> sc" using apart res(2) L(1) room by auto
  then have "in_reservation (effect (QRelease (hs ! i)) x3 (effect (QUnmap va c) x2 m2)) va c"
    unfolding in_reservation_def using r2 res(2,3) va room
    by (intro exI [where x = d] exI [where x = k]) auto
  then show "legal gran (effect (QRelease (hs ! i)) x3 (effect (QUnmap va c) x2 m2)) (QMap va c nh)"
    using nh by (auto simp: unmapped_def h2)
  show "legal gran (effect (QMap va c nh) x4 (effect (QRelease (hs ! i)) x3 (effect (QUnmap va c) x2 m2))) (QAccess va c)"
    unfolding legal.simps using c0 by (intro conjI whole [where g = nh]) simp_all
  have s2: "mm_page m2 a = Some (nh, a - unat sc, c)" if "inside sc c a" for a
    using that by (simp add: m2_def m1_def staged_fields)
  show "legal gran (effect (QAccess va c) x5 (effect (QMap va c nh) x4 (effect (QRelease (hs ! i)) x3 (effect (QUnmap va c) x2 m2))))
      (QUnmap sc c)"
    unfolding legal.simps using c0 s2 dis by (intro conjI whole [where g = nh]) simp_all
  show "legal gran (effect (QUnmap sc c) x6 (effect (QAccess va c) x5 (effect (QMap va c nh) x4
      (effect (QRelease (hs ! i)) x3 (effect (QUnmap va c) x2 m2))))) (QAddrFree sc c)"
    by (simp add: m2_def m1_def staged_fields unmapped_def)
qed


section \<open>remap_backing on a chunk\<close>

lemma move_backing_ok:
  fixes v :: "'z Proc_scheme"
  defines "m \<equiv> memory (v_hist v)"
  assumes doc: "documented gran env" and ob: "obliging gran env"
    and l: "layout m base c room hs ps" and i: "i < length hs" and va: "unat va = base + i * unat c"
    and res: "mm_reserved m = [d \<mapsto> k]" "unat d = base" "unat k = room" and law: "lawful gran (v_hist v)"
    and g: "unat c mod gran p = 0"
    and e: "move_backing env va c (hs ! i) p v = (r, v')"
  shows "out_of_memory gran r v' \<or>
    (\<exists>nh ts. r = Done nh \<and> v' = v\<lparr>v_hist := ts\<rparr> \<and> lawful gran ts \<and> mm_reserved (memory ts) = [d \<mapsto> k] \<and>
       layout (memory ts) base c room (hs[i := nh]) (ps[i := p]) \<and>
       (\<forall>j < length hs * unat c. byte_at (memory ts) (base + j) = byte_at m (base + j)))"
proof -
  let ?p = p
  note L = layoutD [OF l]
  have c0: "c \<noteq> 0" using L(1) by auto
  obtain n where n: "12 \<le> n" "gran ?p = 2 ^ n" using documentedD(1) [OF doc] by blast
  have "(4096 :: nat) = 2 ^ 12" by simp
  then have "(4096 :: nat) dvd gran ?p" using n by (simp only: le_imp_power_dvd)
  then have c4: "unat c mod 4096 = 0" using g by (meson dvd_trans mod_0_imp_dvd dvd_imp_mod_0)
  let ?q1 = "QCreate c ?p" and ?q2 = "QReserve c"
  have lg1: "legal gran (memory (v_hist v)) ?q1" using c0 g by simp
  show ?thesis
  proof (cases "pe_result env (v_hist v) ?q1 = CUDA_SUCCESS")
    case False
    then show ?thesis using vbind_refusal [OF lg1 _ law] e unfolding move_backing_def by auto
  next
    case ok1: True
    define nh where "nh = pe_value env (v_hist v) ?q1"
    have new: "mm_handles m nh = None" using documentedD(4) [OF doc] ok1 by (simp add: nh_def m_def)
    define v1 where "v1 = request1 env ?q1 v"
    have m1: "memory (v_hist v1) = effect ?q1 nh m" unfolding v1_def request1_memory m_def nh_def ..
    have law1: "lawful gran (v_hist v1)" unfolding v1_def request1_lawful using law lg1 by blast
    have lg2: "legal gran (memory (v_hist v1)) ?q2" using c0 c4 by simp
    note e = e [unfolded move_backing_def vbind_Done [where f = "CU_CHECK env ?q1", OF CU_CHECK_request1 [OF ok1]], folded nh_def v1_def]
    show ?thesis
    proof (cases "pe_result env (v_hist v1) ?q2 = CUDA_SUCCESS")
      case False
      then show ?thesis using vbind_refusal [OF lg2 _ law1] e by auto
    next
      case ok2: True
      define sc where "sc = pe_value env (v_hist v1) ?q2"
      have S: "unmapped (memory (v_hist v1)) sc c" "\<And>b k. mm_reserved (memory (v_hist v1)) b = Some k \<Longrightarrow> apart b k sc c"
        using documentedD(3) [OF doc ok2, of sc] by (simp_all add: sc_def)
      have um: "unmapped m sc c" using S(1) by (simp add: m1 unmapped_def)
      have "apart d k sc c" by (rule S(2)) (simp add: m1 res(1))
      then have ap: "unat sc + unat c \<le> base \<or> base + room \<le> unat sc" using res by (auto simp: apart_def)
      define v2 where "v2 = request1 env ?q2 v1"
      have m2: "memory (v_hist v2) = effect ?q2 sc (effect ?q1 nh m)" unfolding v2_def request1_memory m1 sc_def ..
      have law2: "lawful gran (v_hist v2)" unfolding v2_def request1_lawful using law1 lg2 by blast
      note e = e [unfolded vbind_Done [where f = "CU_CHECK env ?q2", OF CU_CHECK_request1 [OF ok2]], folded sc_def v2_def]
      note G = remap_legal [where gran = gran and p = ?p, OF l i new ap va res um]
      define v3 where "v3 = request1 env (QMap sc c nh) v2"
      define v4 where "v4 = request1 env (QAccess sc c) v3"
      define v5 where "v5 = request1 env (QCopy sc va c) v4"
      define v6 where "v6 = request1 env QSync v5"
      define v7 where "v7 = request1 env (QUnmap va c) v6"
      define v8 where "v8 = request1 env (QRelease (hs ! i)) v7"
      define v9 where "v9 = request1 env (QMap va c nh) v8"
      define v10 where "v10 = request1 env (QAccess va c) v9"
      define v11 where "v11 = request1 env (QUnmap sc c) v10"
      define v12 where "v12 = request1 env (QAddrFree sc c) v11"
      let ?s = "staged va c nh sc ?p m"
      let ?t = "put_bytes (unat sc) (bytes_at ?s (unat va) (unat c)) ?s"
      have m3: "memory (v_hist v3) = effect (QMap sc c nh) 0 (effect ?q2 sc (effect ?q1 nh m))"
        unfolding v3_def request1_memory m2 by simp
      have m4: "memory (v_hist v4) = ?s" unfolding v4_def request1_memory m3 staged_def by simp
      have m5: "memory (v_hist v5) = ?t" unfolding v5_def request1_memory m4 by simp
      have m6: "memory (v_hist v6) = ?t" unfolding v6_def request1_memory m5 by simp
      have m7: "memory (v_hist v7) = effect (QUnmap va c) 0 ?t" unfolding v7_def request1_memory m6 by simp
      have m8: "memory (v_hist v8) = effect (QRelease (hs ! i)) 0 (effect (QUnmap va c) 0 ?t)"
        unfolding v8_def request1_memory m7 by simp
      have m9: "memory (v_hist v9) = effect (QMap va c nh) 0 (effect (QRelease (hs ! i)) 0 (effect (QUnmap va c) 0 ?t))"
        unfolding v9_def request1_memory m8 by simp
      have m10: "memory (v_hist v10) = effect (QAccess va c) 0 (effect (QMap va c nh) 0 (effect (QRelease (hs ! i)) 0 (effect (QUnmap va c) 0 ?t)))"
        unfolding v10_def request1_memory m9 by simp
      have m11: "memory (v_hist v11) = effect (QUnmap sc c) 0 (effect (QAccess va c) 0 (effect (QMap va c nh) 0 (effect (QRelease (hs ! i)) 0 (effect (QUnmap va c) 0 ?t))))"
        unfolding v11_def request1_memory m10 by simp
      have m12: "memory (v_hist v12) = swapped va c (hs ! i) nh sc ?t" unfolding v12_def request1_memory m11 swapped_def by simp
      have g3: "legal gran (memory (v_hist v2)) (QMap sc c nh)" unfolding m2 by (rule G(1))
      have g4: "legal gran (memory (v_hist v3)) (QAccess sc c)" unfolding m3 by (rule G(2))
      have g5: "legal gran (memory (v_hist v4)) (QCopy sc va c)" unfolding m4 by (rule G(3))
      have g7: "legal gran (memory (v_hist v6)) (QUnmap va c)" unfolding m6 by (rule G(4))
      have g8: "legal gran (memory (v_hist v7)) (QRelease (hs ! i))" unfolding m7 by (rule G(5))
      have g9: "legal gran (memory (v_hist v8)) (QMap va c nh)" unfolding m8 by (rule G(6))
      have g10: "legal gran (memory (v_hist v9)) (QAccess va c)" unfolding m9 by (rule G(7))
      have g11: "legal gran (memory (v_hist v10)) (QUnmap sc c)" unfolding m10 by (rule G(8))
      have g12: "legal gran (memory (v_hist v11)) (QAddrFree sc c)" unfolding m11 by (rule G(9))
      have g6: "legal gran (memory (v_hist v5)) QSync" by simp
      note st = vbind_request1 [OF ob]
      have fin: "(r, v') = (Done nh, v12)"
        using e by (simp add: st [OF g3, folded v3_def] st [OF g4, folded v4_def] st [OF g5, folded v5_def]
          st [OF g6, folded v6_def] st [OF g7, folded v7_def] st [OF g8, folded v8_def] st [OF g9, folded v9_def]
          st [OF g10, folded v10_def] st [OF g11, folded v11_def] st [OF g12, folded v12_def])
      have law12: "lawful gran (v_hist v12)"
        unfolding v12_def v11_def v10_def v9_def v8_def v7_def v6_def v5_def v4_def v3_def request1_lawful
        unfolding v3_def [symmetric] v4_def [symmetric] v5_def [symmetric] v6_def [symmetric] v7_def [symmetric]
          v8_def [symmetric] v9_def [symmetric] v10_def [symmetric] v11_def [symmetric]
        using law2 g3 g4 g5 g6 g7 g8 g9 g10 g11 g12 by blast
      have "v' = v\<lparr>v_hist := v_hist v12\<rparr>"
        using fin unfolding v12_def v11_def v10_def v9_def v8_def v7_def v6_def v5_def v4_def v3_def v2_def v1_def
        by (simp add: request1_def)
      moreover have "mm_reserved (memory (v_hist v12)) = [d \<mapsto> k]"
      proof -
        have "d \<noteq> sc" using ap res(2) L(1,3) i by auto
        then show ?thesis by (simp add: m12 swapped_fields staged_fields res(1) fun_upd_twist)
      qed
      ultimately show ?thesis
        using fin law12 swap_memory [where p = ?p, OF l i new ap va] unfolding m12 [symmetric] by blast
    qed
  qed
qed
lemma remap_backing_ok:
  fixes v :: "'z Proc_scheme"
  defines "m \<equiv> memory (v_hist v)"
  assumes doc: "documented gran env" and ob: "obliging gran env"
    and l: "layout m base c room hs ps" and i: "i < length hs" and va: "unat va = base + i * unat c"
    and res: "mm_reserved m = [d \<mapsto> k]" "unat d = base" "unat k = room" and law: "lawful gran (v_hist v)"
    and g: "unat c mod gran (remap_prop to_host) = 0"
    and e: "remap_backing env va c (hs ! i) to_host v = (r, v')"
  shows "out_of_memory gran r v' \<or>
    (\<exists>nh ts. r = Done nh \<and> v' = v\<lparr>v_hist := ts\<rparr> \<and> lawful gran ts \<and> mm_reserved (memory ts) = [d \<mapsto> k] \<and>
       layout (memory ts) base c room (hs[i := nh]) (ps[i := remap_prop to_host]) \<and>
       (\<forall>j < length hs * unat c. byte_at (memory ts) (base + j) = byte_at m (base + j)))"
  using move_backing_ok [OF doc ob l [unfolded m_def] i va res(1) [unfolded m_def] res(2,3) law g e [unfolded remap_backing_def]] unfolding m_def .

end
