(* ===== verification/Vector_Props.thy ===== *)
theory Vector_Props
  imports Vector_Life
begin

text \<open>
  What a client of the vector sees: any sequence of operations is the same sequence on a list, every
  driver request is legal, destruction gives everything back; which sizes \<open>push_back\<close> can reach.
\<close>

section \<open>Sequences of operations\<close>

datatype vop = Push bytes | Pop | Resize u64 | Reserve u64 | Retain int

text \<open>\<open>z\<close> is \<open>T{}\<close>.\<close>

fun vec_op :: "PEnv \<Rightarrow> u64 \<Rightarrow> bytes \<Rightarrow> vop \<Rightarrow> (VMMVector, unit) act" where
  "vec_op env s z (Push x) v = push_back env s x v"
| "vec_op env s z Pop v = pop_back env s v"
| "vec_op env s z (Resize n) v = vec_resize env s z n v"
| "vec_op env s z (Reserve n) v = vec_reserve env s n v"
| "vec_op env s z (Retain r) v = (Done (), set_retain_last r v)"

fun vec_ops :: "PEnv \<Rightarrow> u64 \<Rightarrow> bytes \<Rightarrow> vop list \<Rightarrow> (VMMVector, unit) act" where
  "vec_ops env s z [] v = (Done (), v)"
| "vec_ops env s z (p # ps) v = vbind (vec_op env s z p) (\<lambda>_. vec_ops env s z ps) v"

text \<open>The same on a list.\<close>

fun list_op :: "bytes \<Rightarrow> vop \<Rightarrow> bytes list \<Rightarrow> bytes list" where
  "list_op z (Push x) xs = xs @ [x]"
| "list_op z Pop xs = butlast xs"
| "list_op z (Resize n) xs = resized_list (unat n) z xs"
| "list_op z (Reserve n) xs = xs"
| "list_op z (Retain r) xs = xs"

text \<open>
  Elements of the right size, sizes below \<open>2 ^ 57\<close>, and a number of chunks to keep that is -1, or not
  negative and small enough (\<open>f\<close> elements fit in a chunk).
\<close>

fun op_ok :: "u64 \<Rightarrow> u64 \<Rightarrow> vop \<Rightarrow> bool" where
  "op_ok s f (Push x) \<longleftrightarrow> length x = unat s"
| "op_ok s f Pop \<longleftrightarrow> True"
| "op_ok s f (Resize n) \<longleftrightarrow> unat n \<le> 2 ^ 57"
| "op_ok s f (Reserve n) \<longleftrightarrow> unat n \<le> 2 ^ 57"
| "op_ok s f (Retain r) \<longleftrightarrow> -1 \<le> r \<and> r < 2147483647 \<and> nat (r + 1) * unat f < 2 ^ 64"

text \<open>A call that threw left a vector that is as it was, or has grown.\<close>

definition threw :: "unit ending \<Rightarrow> bool" where
  "threw r \<longleftrightarrow> r = Throws ''max_capacity exceeded''"

lemma fits_le_max:
  assumes "vec_ok gran s ps xs v"
  shows "unat (v_fits v) \<le> unat (v_max v)" and "unat (v_fits v) \<le> 2 ^ 57"
  using vec_okD(4,13) [OF assms] vec_ok_bounds(5) [OF assms] by (auto dest: dvd_imp_le)

lemma vec_op_ok:
  assumes doc: "documented gran env" and ob: "obliging gran env" and ok: "vec_ok gran s ps xs v" and rt: "retain_ok v"
    and p: "op_ok s (v_fits v) p" and z: "length z = unat s" and e: "vec_op env s z p v = (r, v')"
  shows "(r = Done () \<and> (\<exists>ps. vec_ok gran s ps (list_op z p xs) v') \<or> threw r \<and> v' = v \<or> refused gran r v') \<and>
    (\<not> refused gran r v' \<longrightarrow> retain_ok v' \<and> v_fits v' = v_fits v \<and> v_max v' = v_max v \<and> v_dptr v' = v_dptr v)"
proof (cases p)
  case (Push x)
  then show ?thesis
    using push_back_ok [OF doc ob ok, of x r v'] p e rt resized_retain_ok [of v v'] resized_fields [of v v']
    by (auto simp: threw_def)
next
  case Pop
  show ?thesis
  proof (cases "xs = []")
    case True
    then have "v_size v = 0" using vec_okD(8) [OF ok] by (simp add: unat_eq_0)
    then show ?thesis using Pop True e ok rt pop_back_empty [of v env s] by auto
  next
    case False
    then show ?thesis
      using pop_back_ok [OF ob ok False rt, of r v'] Pop e rt resized_retain_ok [of v v'] resized_fields [of v v'] by auto
  qed
next
  case (Resize n)
  have "unat n + unat (v_fits v) \<le> 2 ^ 64" using p Resize fits_le_max(2) [OF ok] by simp
  then show ?thesis
    using vec_resize_ok [OF doc ob ok rt z, of n r v'] Resize e rt resized_retain_ok [of v v'] resized_fields [of v v']
    by (auto simp: threw_def)
next
  case (Reserve n)
  have "unat n + unat (v_fits v) \<le> 2 ^ 64" using p Reserve fits_le_max(2) [OF ok] by simp
  then show ?thesis
    using vec_reserve_ok [OF doc ob ok, of n r v'] Reserve e rt regrown_resized [of v v']
      resized_retain_ok [of v v'] resized_fields [of v v']
    by (auto simp: threw_def)
next
  case (Retain k)
  then show ?thesis using p e ok rt by (auto simp: set_retain_last_def retain_ok_def)
qed

lemma vec_ops_ok:
  assumes doc: "documented gran env" and ob: "obliging gran env" and z: "length z = unat s"
    and "vec_ok gran s ps xs v" and "retain_ok v" and "\<forall>p \<in> set ops. op_ok s (v_fits v) p"
    and "vec_ops env s z ops v = (r, v')"
  shows "r = Done () \<and> (\<exists>ps. vec_ok gran s ps (fold (list_op z) ops xs) v') \<and> v_dptr v' = v_dptr v \<and> v_max v' = v_max v \<or>
    threw r \<and> (\<exists>ps ys. vec_ok gran s ps ys v') \<or> refused gran r v'"
  using assms(4-)
proof (induction ops arbitrary: ps xs v)
  case Nil
  then show ?case by auto
next
  case (Cons p ops)
  obtain r1 v1 where e1: "vec_op env s z p v = (r1, v1)" by fastforce
  have p: "op_ok s (v_fits v) p" using Cons.prems(3) by simp
  note P = vec_op_ok [OF doc ob Cons.prems(1,2) p z e1]
  from P have "r1 = Done () \<and> (\<exists>ps. vec_ok gran s ps (list_op z p xs) v1) \<or> threw r1 \<and> v1 = v \<or> refused gran r1 v1" by blast
  then show ?case
  proof (elim disjE conjE exE)
    fix qs
    assume r1: "r1 = Done ()" and ok1: "vec_ok gran s qs (list_op z p xs) v1"
    then have "\<not> refused gran r1 v1" by (simp add: refused_def)
    then have "retain_ok v1" "v_fits v1 = v_fits v" "v_max v1 = v_max v" "v_dptr v1 = v_dptr v" using P by auto
    then show ?thesis using Cons.IH [OF ok1] Cons.prems(3,4) e1 r1 by (simp add: vbind_def)
  next
    assume "threw r1" "v1 = v"
    then show ?thesis using Cons.prems(1,4) e1 by (auto simp: threw_def vbind_def)
  next
    assume "refused gran r1 v1"
    then show ?thesis using Cons.prems(4) e1 by (auto simp: refused_def vbind_def)
  qed
qed

text \<open>A vector as its client builds it.\<close>

definition built :: "granularity \<Rightarrow> PEnv \<Rightarrow> u64 \<Rightarrow> u64 \<Rightarrow> VMMVector \<Rightarrow> bool" where
  "built gran env s mx v \<longleftrightarrow>
     (\<exists>ck rt dev. new_vector env s mx ck rt dev [] = (Done (), v) \<and>
        sane_sizes gran \<lparr>p_type = if dev then LocDevice else LocHostNuma, p_id = 0\<rparr> s mx ck) \<and> retain_ok v"

lemma built_ok:
  assumes "documented gran env" and "built gran env s mx v"
  shows "vec_ok gran s [] [] v" and "retain_ok v" and "unat (v_max v) = round_nat (unat mx) (unat (v_fits v))"
  using assms new_vector_ok [OF assms(1)] unfolding built_def by blast+


text \<open>
  C26. Every request the vector makes is one the driver's documentation allows at that moment: chunks are
  mapped inside the reservation over nothing else, whole mappings are unmapped, only accessible bytes
  are copied, only live handles are released. Unless the driver refused a chunk, the destructor then
  returns, its requests are allowed too, and nothing is left reserved, mapped or live. As above, the
  driver keeps its documentation, the constructor's sizes do not wrap (\<open>sane_sizes\<close>), and the operations
  are within \<open>op_ok\<close>.
\<close>

theorem vector_gives_everything_back:
  assumes "documented gran env" and "obliging gran env" and "built gran env s mx v0" and "length z = unat s"
    and "\<forall>p \<in> set ops. op_ok s (v_fits v0) p" and "vec_ops env s z ops v0 = (r, v)"
  shows "lawful gran (v_hist v) \<and>
    ((\<exists>e. r = Quits e) \<or>
     (case drop_vector env s v of
        (Done _, w) \<Rightarrow> lawful gran (v_hist w) \<and> nothing_held (memory (v_hist w))
      | _ \<Rightarrow> False))"
proof -
  note B = built_ok [OF assms(1,3)]
  have "lawful gran (v_hist v) \<and> (\<exists>w. drop_vector env s v = (Done (), w) \<and> lawful gran (v_hist w) \<and> nothing_held (memory (v_hist w)))"
    if ok: "vec_ok gran s ps ys v" for ps ys
  proof -
    obtain q w where e: "drop_vector env s v = (q, w)" by fastforce
    show ?thesis using drop_vector_ok [OF assms(2) ok e] vec_okD(12) [OF ok] e by auto
  qed
  then show ?thesis using vec_ops_ok [OF assms(1,2,4) B(1,2) assms(5,6)] by (fastforce simp: refused_def)
qed

section \<open>How far push_back gets\<close>

text \<open>Pushing one element after the other doubles the capacity, from one chunk on.\<close>

definition doubling :: "'z Vec_scheme \<Rightarrow> bool" where
  "doubling v \<longleftrightarrow> (\<exists>j. unat (v_cap v) = unat (v_fits v) * 2 ^ j)"

lemma wanted_doubling:
  assumes ok: "vec_ok gran s ps xs v" and f: "2 \<le> unat (v_fits v)" and full: "v_size v = v_cap v"
    and d: "v_cap v = 0 \<or> unat (v_cap v) = unat (v_fits v) * 2 ^ j"
  shows "wanted v = unat (v_fits v) * (if v_cap v = 0 then 1 else 2 ^ Suc j)"
proof (cases "v_cap v = 0")
  case True
  have "(2 + (unat (v_fits v) - 1)) div unat (v_fits v) = 1" using f by (intro div_nat_eqI) simp_all
  then show ?thesis using True full by (simp add: wanted_def round_nat_def)
next
  case False
  then have c: "unat (v_size v) = unat (v_fits v) * 2 ^ j" using d full by simp
  have "2 * 1 \<le> unat (v_fits v) * 2 ^ j" using f by (intro mult_le_mono) simp_all
  then have "1 < unat (v_size v)" unfolding c by simp
  then have "wanted v = round_nat (2 ^ Suc j * unat (v_fits v)) (unat (v_fits v))"
    by (simp add: wanted_def c mult.commute mult.left_commute)
  also have "\<dots> = 2 ^ Suc j * unat (v_fits v)" using f by (intro round_nat_multiple) simp
  finally show ?thesis using False by simp
qed

lemma pushes_ok:
  assumes doc: "documented gran env" and ob: "obliging gran env"
    and "vec_ok gran s ps ys v" and "2 \<le> unat (v_fits v)" and "v_cap v = 0 \<or> doubling v"
    and "\<forall>x \<in> set xs. length x = unat s" and "vec_ops env s z (map Push xs) v = (r, v')" and "unat (v_max v) = k * unat (v_fits v)"
  shows "(r = Done () \<longrightarrow> ys @ xs \<noteq> [] \<longrightarrow> (\<exists>j. 2 ^ j \<le> k \<and> length (ys @ xs) \<le> 2 ^ j * unat (v_fits v))) \<and>
    (threw r \<longrightarrow> 0 < k \<longrightarrow> (\<exists>j. 2 ^ j \<le> k \<and> k < 2 ^ Suc j \<and> 2 ^ j * unat (v_fits v) < length (ys @ xs)))"
  using assms(3-)
proof (induction xs arbitrary: ps ys v)
  case Nil
  note V = vec_okD [OF Nil.prems(1)] and B = vec_ok_bounds [OF Nil.prems(1)]
  have "\<exists>j. 2 ^ j \<le> k \<and> length ys \<le> 2 ^ j * unat (v_fits v)" if ne: "ys \<noteq> []"
  proof -
    have "v_cap v \<noteq> 0" using V(9) ne by auto
    then obtain j where j: "unat (v_cap v) = 2 ^ j * unat (v_fits v)"
      using Nil.prems(3) by (auto simp: doubling_def mult.commute)
    have "2 ^ j * unat (v_fits v) \<le> k * unat (v_fits v)" using B(2) j Nil.prems(6) by simp
    then have "2 ^ j \<le> k" using B(1) by simp
    then show ?thesis using V(9) j by auto
  qed
  then show ?case using Nil.prems(5) by (auto simp: threw_def)
next
  case (Cons x xs)
  note V = vec_okD [OF Cons.prems(1)] and B = vec_ok_bounds [OF Cons.prems(1)]
  let ?f = "unat (v_fits v)"
  have f: "0 < ?f" using Cons.prems(2) by simp
  obtain r1 v1 where e1: "push_back env s x v = (r1, v1)" by fastforce
  have lx: "length x = unat s" using Cons.prems(4) by simp
  from push_back_ok [OF doc ob Cons.prems(1) lx e1] show ?case
  proof (elim disjE conjE exE)
    fix i
    assume r1: "r1 = Done ()" and ok1: "vec_ok gran s (ps @ replicate i (v_props v)) (ys @ [x]) v1" and z1: "resized v v1"
      and c1: "unat (v_cap v1) = (if v_size v = v_cap v then wanted v else unat (v_cap v))"
    note F = resized_fields [OF z1]
    have "doubling v1"
    proof (cases "v_size v = v_cap v")
      case True
      show ?thesis
      proof (cases "v_cap v = 0")
        case c0: True
        then have "unat (v_cap v1) = unat (v_fits v1) * 2 ^ 0"
          using wanted_doubling [OF Cons.prems(1,2) True, of 0] c1 F(4) True by simp
        then show ?thesis unfolding doubling_def by blast
      next
        case False
        then obtain j where j: "unat (v_cap v) = ?f * 2 ^ j" using Cons.prems(3) by (auto simp: doubling_def)
        then have "unat (v_cap v1) = unat (v_fits v1) * 2 ^ Suc j"
          using wanted_doubling [OF Cons.prems(1,2) True, of j] c1 F(4) True False by simp
        then show ?thesis unfolding doubling_def by blast
      qed
    next
      case False
      then have "v_cap v \<noteq> 0" using V(8,9) by (metis le_0_eq unat_eq_0 word_unat_eq_iff)
      then show ?thesis using Cons.prems(3) c1 False F(4) by (simp add: doubling_def)
    qed
    moreover have "vec_ops env s z (map Push xs) v1 = (r, v')" using Cons.prems(5) e1 r1 by (simp add: vbind_def)
    ultimately show ?thesis using Cons.IH [OF ok1] Cons.prems(2,4,6) F by simp
  next
    assume t: "r1 = Throws ''max_capacity exceeded''" and full: "v_size v = v_cap v" and m: "unat (v_max v) < wanted v"
    have r: "r = Throws ''max_capacity exceeded''" using Cons.prems(5) e1 t by (simp add: vbind_def)
    have "\<exists>j. 2 ^ j \<le> k \<and> k < 2 ^ Suc j \<and> 2 ^ j * ?f < length (ys @ x # xs)" if k: "0 < k"
    proof -
      have "v_cap v \<noteq> 0"
      proof
        assume c: "v_cap v = 0"
        then have "wanted v = ?f" using wanted_doubling [OF Cons.prems(1,2) full, of 0] by simp
        then show False using m k Cons.prems(6) by simp
      qed
      then obtain j where j: "unat (v_cap v) = ?f * 2 ^ j" using Cons.prems(3) by (auto simp: doubling_def)
      then have w: "wanted v = 2 ^ Suc j * ?f"
        using wanted_doubling [OF Cons.prems(1,2) full, of j] \<open>v_cap v \<noteq> 0\<close> by (simp add: mult.commute)
      have "k * ?f < 2 ^ Suc j * ?f" using m w Cons.prems(6) by simp
      then have "k < 2 ^ Suc j" using f by (simp only: mult_less_cancel2)
      moreover have "2 ^ j * ?f \<le> k * ?f" using B(2) j Cons.prems(6) by (simp add: mult.commute)
      then have "2 ^ j \<le> k" using f by (simp only: mult_le_cancel2)
      moreover have "2 ^ j * ?f < length (ys @ x # xs)" using j full V(8) by (simp add: mult.commute)
      ultimately show ?thesis by blast
    qed
    then show ?thesis using r by simp
  next
    assume "refused gran r1 v1"
    then show ?thesis using Cons.prems(5) e1 by (auto simp: refused_def vbind_def threw_def)
  qed
qed

text \<open>
  A new vector made for \<open>mx\<close> elements can be filled with them by \<open>push_back\<close> exactly when the number of
  its chunks is a power of two: otherwise doubling the capacity asks for more than the maximum while
  chunks are still free, and \<open>push_back\<close> throws before \<open>mx\<close> elements are in.
\<close>

theorem filling_needs_power_of_two:
  assumes "documented gran env" and "obliging gran env" and "built gran env s mx v0" and "2 \<le> unat (v_fits v0)"
    and "\<forall>x \<in> set xs. length x = unat s" and "length xs = unat mx" and "vec_ops env s z (map Push xs) v0 = (r, v)"
  defines "chunks \<equiv> unat (v_max v0) div unat (v_fits v0)"
  shows "((\<exists>j. chunks = 2 ^ j) \<longrightarrow> r \<noteq> Throws ''max_capacity exceeded'') \<and>
    ((\<nexists>j. chunks = 2 ^ j) \<longrightarrow> r \<noteq> Done ())"
proof -
  note B = built_ok [OF assms(1,3)]
  let ?f = "unat (v_fits v0)"
  have f: "0 < ?f" using assms(4) by simp
  have k: "unat (v_max v0) = chunks * ?f" using vec_okD(4) [OF B(1)] by (simp add: chunks_def)
  have k0: "0 < chunks" using k vec_okD(13) [OF B(1)] by (cases chunks) auto
  have c0: "v_cap v0 = 0" using vec_okD(7) [OF B(1)] layout_places [OF vec_okD(6) [OF B(1)]] by (simp add: unat_eq_0)
  have N: "length xs \<le> chunks * ?f" "chunks * ?f < length xs + ?f"
    using round_nat_bounds [OF f, of "unat mx"] B(3) k assms(6) by simp_all
  note P = pushes_ok [OF assms(1,2) B(1) assms(4) _ assms(5,7) k]
  have "r \<noteq> Throws ''max_capacity exceeded''" if c: "chunks = 2 ^ i" for i
  proof
    assume "r = Throws ''max_capacity exceeded''"
    then obtain j where j: "2 ^ j \<le> chunks" "chunks < 2 ^ Suc j" "2 ^ j * ?f < length xs"
      using P c0 k0 by (auto simp: threw_def)
    have "(2 :: nat) ^ i < 2 ^ Suc j" using j(2) c by simp
    then have "i < Suc j" by (rule power_less_imp_less_exp [rotated]) simp
    moreover have "j \<le> i" using j(1) c by simp
    ultimately have "2 ^ j = chunks" using c by (simp add: le_antisym less_Suc_eq_le)
    then show False using j(3) N(1) by simp
  qed
  moreover have "r \<noteq> Done ()" if c: "\<nexists>j. chunks = 2 ^ j"
  proof
    assume "r = Done ()"
    moreover have "xs \<noteq> []" using N(2) k0 by (cases chunks) auto
    ultimately obtain j where j: "2 ^ j \<le> chunks" "length xs \<le> 2 ^ j * ?f" using P c0 by auto
    then have "Suc (2 ^ j) \<le> chunks" using c by (metis Suc_leI le_neq_implies_less)
    then have "Suc (2 ^ j) * ?f \<le> chunks * ?f" by (intro mult_le_mono1)
    then show False using j(2) N(2) by simp
  qed
  ultimately show ?thesis by blast
qed

end
