(* ===== verification/Vector_Demo.thy ===== *)
theory Vector_Demo
  imports Vector_Props
begin

text \<open>
  A driver that is documented and obliging, the vector's properties at concrete sizes, and what the
  constructor and \<open>reserve\<close> do with sizes that wrap.
\<close>

section \<open>A driver\<close>

definition demo_gran :: granularity where
  "demo_gran p = 2 ^ 21"

text \<open>It refuses what is not legal, and new ranges and handles that are not free.\<close>

definition demo_driver :: PEnv where
  "demo_driver =
     \<lparr>pe_result = (\<lambda>hs q.
        case q of
          QGranularity _ \<Rightarrow> CUDA_SUCCESS
        | QReserve n \<Rightarrow>
            (let va = 0x10000000000 * of_nat (Suc (length hs))
             in if va \<noteq> 0 \<and> unat va + unat n \<le> 2 ^ 57 \<and> unmapped (memory hs) va n \<and>
                  (\<forall>b k. mm_reserved (memory hs) b = Some k \<longrightarrow> apart b k va n)
                then CUDA_SUCCESS else CUDA_ERROR_OUT_OF_MEMORY)
        | QCreate _ _ \<Rightarrow>
            if mm_handles (memory hs) (of_nat (length hs)) = None then CUDA_SUCCESS else CUDA_ERROR_OUT_OF_MEMORY
        | _ \<Rightarrow> if legal demo_gran (memory hs) q then CUDA_SUCCESS else CUDA_ERROR 1),
      pe_value = (\<lambda>hs q.
        case q of
          QGranularity _ \<Rightarrow> 0x200000
        | QReserve n \<Rightarrow> 0x10000000000 * of_nat (Suc (length hs))
        | QCreate _ _ \<Rightarrow> of_nat (length hs)
        | _ \<Rightarrow> 0),
      pe_bytes = (\<lambda>hs va n. map (\<lambda>x. case x of Some b \<Rightarrow> b | None \<Rightarrow> 0) (bytes_at (memory hs) (unat va) (unat n)))\<rparr>"

lemma pages_documented: "documented demo_gran demo_driver"
  unfolding documented_def
proof (intro conjI allI impI)
  show "\<exists>k\<ge>12. demo_gran p = 2 ^ k" for p by (rule exI [of _ 21]) (simp add: demo_gran_def)
  show "unat (pe_value demo_driver hs (QGranularity p)) = demo_gran p" for hs p by (simp add: demo_driver_def demo_gran_def)
  show "mm_handles (memory hs) (pe_value demo_driver hs (QCreate n p)) = None"
    if "pe_result demo_driver hs (QCreate n p) = CUDA_SUCCESS" for hs n p
    using that by (simp add: demo_driver_def split: if_splits)
  show "pe_bytes demo_driver hs va n = xs" if "bytes_at (memory hs) (unat va) (unat n) = map Some xs" for hs va n xs
    using that by (simp add: demo_driver_def comp_def)
  fix hs n va
  assume r: "pe_result demo_driver hs (QReserve n) = CUDA_SUCCESS" and v: "pe_value demo_driver hs (QReserve n) = va"
  have va: "0x10000000000 * of_nat (Suc (length hs)) = va" using v by (simp add: demo_driver_def)
  have "pe_result demo_driver hs (QReserve n) =
      (if va \<noteq> 0 \<and> unat va + unat n \<le> 2 ^ 57 \<and> unmapped (memory hs) va n \<and>
         (\<forall>b k. mm_reserved (memory hs) b = Some k \<longrightarrow> apart b k va n)
       then CUDA_SUCCESS else CUDA_ERROR_OUT_OF_MEMORY)"
    by (simp only: demo_driver_def PEnv.simps request.case Let_def va)
  then have "va \<noteq> 0 \<and> unat va + unat n \<le> 2 ^ 57 \<and> unmapped (memory hs) va n \<and>
      (\<forall>b k. mm_reserved (memory hs) b = Some k \<longrightarrow> apart b k va n)"
    using r by (metis CUresult.distinct(1))
  then show "va \<noteq> 0" "unat va + unat n \<le> 2 ^ 57" "unmapped (memory hs) va n"
    "\<And>b k. mm_reserved (memory hs) b = Some k \<Longrightarrow> apart b k va n" by blast+
qed

lemma demo_obliging: "obliging demo_gran demo_driver"
  unfolding obliging_def
proof (intro allI impI)
  fix hs q
  assume "legal demo_gran (memory hs) q" "\<not> may_refuse q"
  then show "pe_result demo_driver hs q = CUDA_SUCCESS" by (cases q) (simp_all add: demo_driver_def)
qed

text \<open>Vectors of \<open>float\<close> with room for 100 elements (one chunk) and for three chunks.\<close>

definition demo_vector :: "u64 \<Rightarrow> VMMVector" where
  "demo_vector mx = snd (new_vector demo_driver 4 mx 1 0 True [])"

lemma demo_vector:
  assumes "mx = 100 \<or> mx = 0x180000"
  shows "built demo_gran demo_driver 4 mx (demo_vector mx)" and "v_fits (demo_vector mx) = 0x80000"
    and "v_max (demo_vector mx) = (if mx = 100 then 0x80000 else 0x180000)"
    and "new_vector demo_driver 4 mx 1 0 True [] = (Done (), demo_vector mx)"
    and "sane_sizes demo_gran \<lparr>p_type = LocDevice, p_id = 0\<rparr> 4 mx 1"
proof -
  let ?p = "\<lparr>p_type = LocDevice, p_id = 0\<rparr>"
  have r: "pe_result demo_driver [(QGranularity p, CUDA_SUCCESS, x)] (QReserve n) = CUDA_SUCCESS"
    if "unat n \<le> 2 ^ 56" for p x n
    using that by (simp add: demo_driver_def memory_def no_mem_def unmapped_def)
  have R: "ROUND_UP 1 0x200000 = 0x200000" "ROUND_UP 100 0x80000 = 0x80000" "ROUND_UP 0x180000 0x80000 = 0x180000"
    by (simp_all add: ROUND_UP_def)
  have g: "pe_result demo_driver [] (QGranularity p) = CUDA_SUCCESS" "pe_value demo_driver hs (QGranularity p) = 0x200000" for p hs
    by (simp_all add: demo_driver_def)
  have "new_vector demo_driver 4 mx 1 0 True [] = (Done (), demo_vector mx) \<and> v_fits (demo_vector mx) = 0x80000 \<and>
      v_max (demo_vector mx) = (if mx = 100 then 0x80000 else 0x180000) \<and> vv_retain (demo_vector mx) = 0"
    using assms by (auto simp: demo_vector_def new_vector_def vbind_def CU_CHECK_def g R r Let_def)
  moreover have "sane_sizes demo_gran ?p 4 mx 1" using assms by (auto simp: sane_sizes_def demo_gran_def)
  ultimately have N: "new_vector demo_driver 4 mx 1 0 True [] = (Done (), demo_vector mx)" "v_fits (demo_vector mx) = 0x80000"
    "v_max (demo_vector mx) = (if mx = 100 then 0x80000 else 0x180000)" "vv_retain (demo_vector mx) = 0"
    and S: "sane_sizes demo_gran ?p 4 mx 1" by blast+
  show "v_fits (demo_vector mx) = 0x80000" "v_max (demo_vector mx) = (if mx = 100 then 0x80000 else 0x180000)"
    by (rule N)+
  show "new_vector demo_driver 4 mx 1 0 True [] = (Done (), demo_vector mx)" "sane_sizes demo_gran ?p 4 mx 1" by (rule N S)+
  have "retain_ok (demo_vector mx)" using N by (simp add: retain_ok_def)
  then show "built demo_gran demo_driver 4 mx (demo_vector mx)"
    unfolding built_def using N(1) S
    by (intro conjI exI [where x = 1] exI [where x = 0] exI [where x = True]) simp_all
qed

definition demo_ops :: "vop list" where
  "demo_ops = [Push [1, 2, 3, 4], Push [5, 6, 7, 8], Resize 5, Pop, Retain 2, Reserve 7]"

lemma demo_ops_ok: "\<forall>p \<in> set demo_ops. op_ok 4 0x80000 p"
  by (simp add: demo_ops_def)


theorem vector_gives_everything_back_witness:
  "case vec_ops demo_driver 4 [0, 0, 0, 0] demo_ops (demo_vector 100) of (r, v) \<Rightarrow>
     lawful demo_gran (v_hist v) \<and>
     ((\<exists>e. r = Quits e) \<or> (\<exists>w. drop_vector demo_driver 4 v = (Done (), w) \<and> nothing_held (memory (v_hist w))))"
proof -
  obtain r v where e: "vec_ops demo_driver 4 [0, 0, 0, 0] demo_ops (demo_vector 100) = (r, v)" by fastforce
  have "\<forall>p \<in> set demo_ops. op_ok 4 (v_fits (demo_vector 100)) p" using demo_vector(2) [of 100] demo_ops_ok by simp
  note P = vector_gives_everything_back [OF pages_documented demo_obliging demo_vector(1) _ this e]
  obtain q w where d: "drop_vector demo_driver 4 v = (q, w)" by fastforce
  show ?thesis using P by (cases q) (auto simp: e d)
qed

text \<open>Three chunks: \<open>push_back\<close> cannot fill them.\<close>

theorem filling_needs_power_of_two_witness:
  "fst (vec_ops demo_driver 4 [0, 0, 0, 0] (map Push (replicate 0x180000 [0, 0, 0, 0])) (demo_vector 0x180000)) \<noteq> Done ()"
proof -
  obtain r v where e: "vec_ops demo_driver 4 [0, 0, 0, 0] (map Push (replicate 0x180000 [0, 0, 0, 0])) (demo_vector 0x180000) = (r, v)"
    by fastforce
  have c: "unat (v_max (demo_vector 0x180000)) div unat (v_fits (demo_vector 0x180000)) = 3"
    using demo_vector(2,3) [of "0x180000"] by simp
  have n: "\<nexists>j. (3 :: nat) = 2 ^ j"
  proof
    assume "\<exists>j. (3 :: nat) = 2 ^ j"
    then obtain j where "(3 :: nat) = 2 ^ j" ..
    then show False by (cases j) (auto, presburger)
  qed
  have "r \<noteq> Done ()"
    using filling_needs_power_of_two [OF pages_documented demo_obliging demo_vector(1) _ _ _ e] demo_vector(2) [of "0x180000"] c n
    by simp
  then show ?thesis unfolding e by simp
qed

section \<open>Sizes that wrap\<close>

text \<open>
  The constructor multiplies the capacity by the element's size without a check: a vector of \<open>float\<close> for
  \<open>2 ^ 62 + 1\<close> elements reports a capacity of \<open>2 ^ 62 + 2 ^ 19\<close> elements over a range of 2 MiB.
\<close>

theorem constructor_wraps:
  assumes "documented demo_gran env" and "new_vector env 4 0x4000000000000001 1 0 True [] = (Done (), v)"
  shows "v_max v = 0x4000000000080000 \<and>
    (\<exists>va hs. v_hist v = hs @ [(QReserve 0x200000, CUDA_SUCCESS, va)] \<and> v_dptr v = va)"
proof -
  let ?q = "QGranularity \<lparr>p_type = LocDevice, p_id = 0\<rparr>"
  note E = assms(2) [unfolded new_vector_def vbind_def CU_CHECK_def Let_def, simplified]
  have ok: "pe_result env [] ?q = CUDA_SUCCESS" using E by (auto split: if_splits)
  then have "unat (pe_value env [] ?q) = unat (0x200000 :: u64)" using documentedD(2) [OF assms(1)] by (simp add: demo_gran_def)
  then have g: "pe_value env [] ?q = 0x200000" by (simp only: word_unat_eq_iff)
  have R: "ROUND_UP 1 0x200000 = 0x200000" "ROUND_UP 0x4000000000000001 0x80000 = 0x4000000000080000"
    by (simp_all add: ROUND_UP_def)
  show ?thesis using E ok by (auto simp: g R split: if_splits)
qed

theorem constructor_wraps_witness:
  "v_max (snd (new_vector demo_driver 4 0x4000000000000001 1 0 True [])) = 0x4000000000080000"
proof -
  have R: "ROUND_UP 1 0x200000 = 0x200000" "ROUND_UP 0x4000000000000001 0x80000 = 0x4000000000080000"
    by (simp_all add: ROUND_UP_def)
  have w: "(18446744073711648768 :: u64) = 0x200000" by simp
  have r: "pe_result demo_driver [(QGranularity p, CUDA_SUCCESS, x)] (QReserve 0x200000) = CUDA_SUCCESS" for p x
    by (simp add: demo_driver_def memory_def no_mem_def unmapped_def)
  have g: "pe_result demo_driver [] (QGranularity p) = CUDA_SUCCESS" "pe_value demo_driver hs (QGranularity p) = 0x200000" for p hs
    by (simp_all add: demo_driver_def)
  have "fst (new_vector demo_driver 4 0x4000000000000001 1 0 True []) = Done ()"
    by (simp add: new_vector_def vbind_def CU_CHECK_def g R r w Let_def)
  then have "new_vector demo_driver 4 0x4000000000000001 1 0 True [] = (Done (), snd (new_vector demo_driver 4 0x4000000000000001 1 0 True []))"
    by (metis prod.collapse)
  then show ?thesis using constructor_wraps [OF pages_documented] by blast
qed

text \<open>\<open>reserve\<close> of a size within a chunk of \<open>2 ^ 64\<close> rounds up to 0 and returns without having reserved.\<close>

lemma reserve_wraps:
  assumes "v_cap v = 0" and "0 < unat (v_fits v)" and "2 ^ 64 < unat n + unat (v_fits v)"
  shows "vec_reserve env s n v = (Done (), v)"
proof -
  have f1: "1 \<le> v_fits v" using assms(2) by (simp add: word_le_nat_alt)
  have e: "n + v_fits v - 1 = n + (v_fits v - 1)" by simp
  have "2 ^ 64 \<le> unat n + unat (v_fits v - 1)" using assms(2,3) u64_sub_no_wrap [OF f1] by simp
  then have "unat (n + (v_fits v - 1)) = unat n + unat (v_fits v - 1) - 18446744073709551616"
    by (simp add: unat_plus_if_size word_size)
  moreover have "unat n < 18446744073709551616" "unat (v_fits v - 1) = unat (v_fits v) - 1"
    using u64_sub_no_wrap [OF f1] by simp_all
  ultimately have "unat (n + (v_fits v - 1)) < unat (v_fits v)" using assms(2) by linarith
  then have "unat ((n + (v_fits v - 1)) div v_fits v) = 0" by (simp add: unat_div)
  then have "ROUND_UP n (v_fits v) = 0" unfolding ROUND_UP_def e by (simp add: unat_eq_0)
  then show ?thesis using assms(1) by (simp add: vec_reserve_def Let_def)
qed

end
