(* ===== verification/Remap_Client.thy ===== *)
theory Remap_Client
  imports Remap_Props Vector_Demo
begin

text \<open>
  The remapping vector as its client sees it: it grows exactly as the plain vector, whose operations
  its code repeats, and moving a chunk changes nothing but where the chunk's memory is.
\<close>

section \<open>Growing as the plain vector does\<close>

text \<open>
  On the fields they share the two copies of \<open>reserve\<close> and \<open>push_back\<close> do the same; the new chunks are on
  the device.
\<close>

lemma remap_reserve_chunks_sim:
  assumes "reserve_chunks env k ptr (v\<lparr>vr_on_host := x\<rparr>) = (r0, v0)" and "remap_reserve_chunks env k ptr v = (r1, v1)"
  shows "r1 = r0 \<and> v_hist v1 = v_hist v0 \<and>
    (r0 = Done () \<longrightarrow> v1 = v0\<lparr>vr_on_host := vr_on_host v @ replicate k False\<rparr> \<and>
       length (v_handles v0) = length (v_handles v) + k)"
  using assms
proof (induction k arbitrary: v ptr)
  case 0
  then show ?case by auto
next
  case (Suc k)
  let ?q1 = "QCreate (v_chunk v) (v_props v)"
  let ?h = "pe_value env (v_hist v) ?q1" and ?h1 = "v_hist v @ [(?q1, CUDA_SUCCESS, pe_value env (v_hist v) ?q1)]"
  let ?q2 = "QMap ptr (v_chunk v) ?h"
  let ?h2 = "?h1 @ [(?q2, CUDA_SUCCESS, pe_value env ?h1 ?q2)]"
  let ?q3 = "QAccess ptr (v_chunk v)"
  let ?h3 = "?h2 @ [(?q3, CUDA_SUCCESS, pe_value env ?h2 ?q3)]"
  show ?case
  proof (cases "pe_result env (v_hist v) ?q1 = CUDA_SUCCESS \<and> pe_result env ?h1 ?q2 = CUDA_SUCCESS \<and> pe_result env ?h2 ?q3 = CUDA_SUCCESS")
    case False
    then show ?thesis
      using Suc.prems
      by (auto simp: vbind_def CU_CHECK_def push_chunk_def create_chunk_def vec_map_chunk_def vec_set_access_def Let_def
          split: if_splits)
  next
    case True
    define w where "w = v\<lparr>v_hist := ?h3, v_handles := v_handles v @ [?h], vr_on_host := vr_on_host v @ [False], v_cap := v_cap v + v_fits v\<rparr>"
    define u where "u = v\<lparr>vr_on_host := x, v_handles := v_handles v @ [?h], v_cap := v_cap v + v_fits v, v_hist := ?h3\<rparr>"
    have "reserve_chunks env k (ptr + v_chunk v) u = (r0, v0)"
      using Suc.prems(1) True
      by (simp add: vbind_def CU_CHECK_def push_chunk_def vec_map_chunk_def vec_set_access_def Let_def u_def)
    moreover have "u = w\<lparr>vr_on_host := x\<rparr>" by (simp add: u_def w_def)
    ultimately have a: "reserve_chunks env k (ptr + v_chunk v) (w\<lparr>vr_on_host := x\<rparr>) = (r0, v0)" by simp
    have b: "remap_reserve_chunks env k (ptr + v_chunk v) w = (r1, v1)"
      using Suc.prems(2) True by (simp add: vbind_def CU_CHECK_def create_chunk_def Let_def w_def)
    show ?thesis using Suc.IH [OF a b] by (simp add: w_def)
  qed
qed

text \<open>What growing makes of the record of locations.\<close>

definition on_device_from :: "VMMRemapVector \<Rightarrow> VMMRemapVector \<Rightarrow> VMMRemapVector" where
  "on_device_from v w = w\<lparr>vr_on_host := vr_on_host v @ replicate (length (v_handles w) - length (v_handles v)) False\<rparr>"

lemma on_device_refl [simp]: "on_device_from v v = v"
  by (simp add: on_device_from_def)

lemma remap_reserve_sim:
  assumes "vec_reserve env s n v = (r0, v0)" and "remap_vec_reserve env s n v = (r1, v1)"
  shows "r1 = r0 \<and> v_hist v1 = v_hist v0 \<and> ((\<forall>q. r0 \<noteq> Quits q) \<longrightarrow> v1 = on_device_from v v0)"
proof (cases "n \<le> v_cap v \<or> v_max v < ROUND_UP n (v_fits v)")
  case True
  then show ?thesis using assms by (auto simp: vec_reserve_def remap_vec_reserve_def Let_def split: if_splits)
next
  case False
  let ?k = "unat (ROUND_UP n (v_fits v) div v_fits v - v_cap v div v_fits v)" and ?p = "v_dptr v + v_cap v * s"
  have a: "reserve_chunks env ?k ?p (v\<lparr>vr_on_host := vr_on_host v\<rparr>) = (r0, v0)"
    using assms(1) False by (simp add: vec_reserve_def Let_def)
  have b: "remap_reserve_chunks env ?k ?p v = (r1, v1)" using assms(2) False by (simp add: remap_vec_reserve_def Let_def)
  have "(\<exists>q. r0 = Quits q) \<or> r0 = Done ()" using a
  proof -
    have "(\<exists>q. fst (reserve_chunks env k p w) = Quits q) \<or> fst (reserve_chunks env k p w) = Done ()" for k p and w :: VMMRemapVector
    proof (induction k arbitrary: p w)
      case (Suc k)
      then show ?case
        by (simp add: vbind_def CU_CHECK_def push_chunk_def vec_map_chunk_def vec_set_access_def Let_def)
    qed simp
    then show ?thesis using a by (metis fst_conv)
  qed
  then show ?thesis using remap_reserve_chunks_sim [OF a b] by (auto simp: on_device_from_def)
qed

lemma remap_push_back_sim:
  assumes "push_back env s x v = (r0, v0)" and "remap_push_back env s x v = (r1, v1)"
  shows "r1 = r0 \<and> v_hist v1 = v_hist v0 \<and> ((\<forall>q. r0 \<noteq> Quits q) \<longrightarrow> v1 = on_device_from v v0)"
proof (cases "v_size v = v_cap v")
  case False
  then show ?thesis using assms by (auto simp: push_back_def remap_push_back_def vbind_def CU_CHECK_def Let_def on_device_from_def split: if_splits)
next
  case True
  let ?n = "if 1 < v_size v then v_size v * 2 else 2"
  obtain ra va where a: "vec_reserve env s ?n v = (ra, va)" by fastforce
  obtain rb vb where b: "remap_vec_reserve env s ?n v = (rb, vb)" by fastforce
  note S = remap_reserve_sim [OF a b]
  show ?thesis
  proof (cases ra)
    case (Done u)
    then have "rb = Done u" "vb = on_device_from v va" using S by auto
    then show ?thesis
      using assms True a b Done
      by (auto simp: push_back_def remap_push_back_def vbind_def CU_CHECK_def Let_def on_device_from_def split: if_splits)
  next
    case (Throws t)
    then show ?thesis using assms True a b S by (auto simp: push_back_def remap_push_back_def vbind_def)
  next
    case (Quits q)
    then show ?thesis using assms True a b S by (auto simp: push_back_def remap_push_back_def vbind_def)
  next
    case Undef
    then show ?thesis using assms True a b S by (auto simp: push_back_def remap_push_back_def vbind_def)
  qed
qed


section \<open>The invariant\<close>

definition rvec_ok :: "granularity \<Rightarrow> u64 \<Rightarrow> bytes list \<Rightarrow> VMMRemapVector \<Rightarrow> bool" where
  "rvec_ok gran s xs v \<longleftrightarrow>
     vec_ok gran s (map remap_prop (vr_on_host v)) xs v \<and> v_props v = remap_prop False \<and>
     (\<forall>b. unat (v_chunk v) mod gran (remap_prop b) = 0)"

lemma rvec_length: "rvec_ok gran s xs v \<Longrightarrow> length (vr_on_host v) = length (v_handles v)"
  unfolding rvec_ok_def using layout_places vec_okD(6) by fastforce

lemma vec_ok_on_host [simp]: "vec_ok gran s ps xs (v\<lparr>vr_on_host := b\<rparr>) \<longleftrightarrow> vec_ok gran s ps xs v"
  by (simp add: vec_ok_def)

lemma vec_ok_grown_on_host:
  assumes ok: "rvec_ok gran s xs v" and ok': "vec_ok gran s (map remap_prop (vr_on_host v) @ replicate k (v_props v)) ys w"
    and z: "resized v w"
  shows "rvec_ok gran s ys (on_device_from v w)" and "v_dptr (on_device_from v w) = v_dptr v"
    and "v_chunk (on_device_from v w) = v_chunk v"
proof -
  note F = resized_fields [OF z]
  have "length (v_handles w) = length (v_handles v) + k"
    using layout_places [OF vec_okD(6) [OF ok']] rvec_length [OF ok] by simp
  moreover have "v_props v = remap_prop False" using ok by (simp add: rvec_ok_def)
  ultimately show "rvec_ok gran s ys (on_device_from v w)"
    using ok ok' F by (simp add: rvec_ok_def on_device_from_def)
  show "v_dptr (on_device_from v w) = v_dptr v" "v_chunk (on_device_from v w) = v_chunk v"
    using F by (simp_all add: on_device_from_def)
qed

lemma remap_push_back_ok:
  assumes doc: "documented gran env" and ob: "obliging gran env" and ok: "rvec_ok gran s xs v"
    and len: "length x = unat s" and e: "remap_push_back env s x v = (r, v')"
  shows "(r = Done () \<and> rvec_ok gran s (xs @ [x]) v' \<and> v_dptr v' = v_dptr v \<and> v_chunk v' = v_chunk v) \<or>
    (r = Throws ''max_capacity exceeded'' \<and> v' = v) \<or> out_of_memory gran r v'"
proof -
  obtain r0 v0 where e0: "push_back env s x v = (r0, v0)" by fastforce
  note S = remap_push_back_sim [OF e0 e]
  have vok: "vec_ok gran s (map remap_prop (vr_on_host v)) xs v" using ok by (simp add: rvec_ok_def)
  from push_back_ok [OF doc ob vok len e0] show ?thesis
  proof (elim disjE conjE exE)
    fix k
    assume "r0 = Done ()" "vec_ok gran s (map remap_prop (vr_on_host v) @ replicate k (v_props v)) (xs @ [x]) v0" "resized v v0"
    then show ?thesis using S vec_ok_grown_on_host [OF ok] by auto
  next
    assume "refused gran r0 v0"
    then have "refused gran r v'" using S by (auto simp: refused_def)
    then show ?thesis using refused_out_of_memory by blast
  qed (use S in auto)
qed

lemma remap_reserve_ok:
  assumes doc: "documented gran env" and ob: "obliging gran env" and ok: "rvec_ok gran s xs v"
    and n: "unat n \<le> 2 ^ 57" and e: "remap_vec_reserve env s n v = (r, v')"
  shows "(r = Done () \<and> rvec_ok gran s xs v' \<and> v_dptr v' = v_dptr v \<and> v_chunk v' = v_chunk v) \<or>
    (r = Throws ''max_capacity exceeded'' \<and> v' = v) \<or> out_of_memory gran r v'"
proof -
  obtain r0 v0 where e0: "vec_reserve env s n v = (r0, v0)" by fastforce
  note S = remap_reserve_sim [OF e0 e]
  have vok: "vec_ok gran s (map remap_prop (vr_on_host v)) xs v" using ok by (simp add: rvec_ok_def)
  have n': "unat n + unat (v_fits v) \<le> 2 ^ 64" using n fits_le_max(2) [OF vok] by simp
  from vec_reserve_ok [OF doc ob vok n' e0] show ?thesis
  proof (elim disjE conjE exE)
    fix k
    assume "r0 = Done ()" "vec_ok gran s (map remap_prop (vr_on_host v) @ replicate k (v_props v)) xs v0" "regrown v v0"
    then show ?thesis using S vec_ok_grown_on_host [OF ok _ regrown_resized] by auto
  next
    assume "refused gran r0 v0"
    then have "refused gran r v'" using S by (auto simp: refused_def)
    then show ?thesis using refused_out_of_memory by blast
  qed (use S in auto)
qed

text \<open>Moving chunk \<open>i\<close>.\<close>

lemma remap_chunk_ok:
  assumes doc: "documented gran env" and ob: "obliging gran env" and ok: "rvec_ok gran s xs v"
    and i: "i < length (v_handles v)" and e: "remap_chunk env i to_host v = (r, v')"
  shows "(r = Done () \<and> rvec_ok gran s xs v' \<and> vr_on_host v' = (vr_on_host v)[i := to_host] \<and>
      v_dptr v' = v_dptr v \<and> v_chunk v' = v_chunk v \<and> v_cap v' = v_cap v) \<or> out_of_memory gran r v'"
proof (cases "vr_on_host v ! i = to_host")
  case True
  then have "r = Done ()" "v' = v" using e i by (simp_all add: remap_chunk_def)
  then show ?thesis using ok True list_update_id [of "vr_on_host v" i] by simp
next
  case False
  have vok: "vec_ok gran s (map remap_prop (vr_on_host v)) xs v" using ok by (simp add: rvec_ok_def)
  note V = vec_okD [OF vok] and B = vec_ok_bounds [OF vok]
  note l = V(6)
  note L = layoutD [OF l]
  let ?c = "v_chunk v" and ?b = "unat (v_dptr v)" and ?va = "v_dptr v + of_nat i * v_chunk v" and ?hs = "v_handles v"
  have ic: "Suc i * unat ?c \<le> length ?hs * unat ?c" using i by (intro mult_le_mono1) simp
  have big: "?b + unat (v_max v) * unat s < 2 ^ 64" using B(4) by (rule le_less_trans) simp
  have "i * unat ?c < 2 ^ 64" using ic big L(3) by simp
  moreover have "i \<le> i * unat ?c" using L(1) by simp
  ultimately have "i < 2 ^ 64" by (rule le_less_trans [rotated])
  then have ui: "unat (of_nat i :: u64) = i" by (subst unsigned_of_nat, subst take_bit_nat_eq_self) simp_all
  have m: "unat (of_nat i * ?c) = i * unat ?c" using ic big L(3) ui by (subst u64_mult_no_wrap) simp_all
  have va: "unat ?va = ?b + i * unat ?c" using m ic big L(3) by (subst u64_add_no_wrap) simp_all
  obtain r1 v1 where e1: "remap_backing env ?va ?c (?hs ! i) to_host v = (r1, v1)" by fastforce
  have g: "unat ?c mod gran (remap_prop to_host) = 0" using ok by (simp add: rvec_ok_def)
  from remap_backing_ok [OF doc ob l i va V(5) refl B(6) V(12) g e1] show ?thesis
  proof (elim disjE exE conjE)
    assume "out_of_memory gran r1 v1"
    moreover from this obtain q where q: "r1 = Quits q" by (auto simp: out_of_memory_def)
    ultimately show ?thesis using e i False e1 by (auto simp: remap_chunk_def vbind_def out_of_memory_def)
  next
    fix nh ts
    assume r1: "r1 = Done nh" and v1: "v1 = v\<lparr>v_hist := ts\<rparr>" and law: "lawful gran ts"
      and res: "mm_reserved (memory ts) = [v_dptr v \<mapsto> v_max v * s]"
      and lay: "layout (memory ts) ?b ?c (unat (v_max v) * unat s) (?hs[i := nh]) ((map remap_prop (vr_on_host v))[i := remap_prop to_host])"
      and bytes: "\<forall>j < length ?hs * unat ?c. byte_at (memory ts) (?b + j) = byte_at (memory (v_hist v)) (?b + j)"
    have r: "r = Done ()" and v': "v' = v\<lparr>v_hist := ts, v_handles := ?hs[i := nh], vr_on_host := (vr_on_host v)[i := to_host]\<rparr>"
      using e i False e1 r1 v1 by (simp_all add: remap_chunk_def vbind_def)
    have "length xs * unat s \<le> unat (v_cap v) * unat s" using V(9) by (intro mult_le_mono1)
    then have "length xs * unat s \<le> length ?hs * unat ?c" using B(9) by simp
    then have "bytes_at (memory ts) ?b (length xs * unat s) = bytes_at (memory (v_hist v)) ?b (length xs * unat s)"
      using bytes by (intro bytes_at_cong) simp
    then have "vec_ok gran s ((map remap_prop (vr_on_host v))[i := remap_prop to_host]) xs v'"
      using V lay law res unfolding vec_ok_def by (simp add: v')
    then have "rvec_ok gran s xs v'" using ok by (simp add: rvec_ok_def v' map_update)
    then show ?thesis using r by (simp add: v')
  qed
qed

section \<open>Construction\<close>

lemma new_remap_vector_ok:
  assumes doc: "documented gran env" and sane: "\<And>b. sane_sizes gran (remap_prop b) s mx ck"
    and e: "new_remap_vector env s mx ck [] = (Done (), v)"
  shows "rvec_ok gran s [] v"
proof -
  let ?q0 = "QGranularity (remap_prop False)" and ?q1 = "QGranularity (remap_prop True)"
  let ?a = "pe_value env [] ?q0" let ?h1 = "[(?q0, CUDA_SUCCESS, ?a)]" let ?b = "pe_value env ?h1 ?q1"
  let ?g = "if ?a > ?b then ?a else ?b" let ?h = "?h1 @ [(?q1, CUDA_SUCCESS, ?b)]"
  let ?c = "ROUND_UP ck ?g" let ?f = "?c div s" let ?mx = "ROUND_UP mx ?f" let ?qr = "QReserve (?mx * s)"
  note E = e [unfolded new_remap_vector_def remap_granularity_def Let_def vbind_def CU_CHECK_def]
  have ok0: "pe_result env [] ?q0 = CUDA_SUCCESS" using E by (auto split: if_splits)
  have ok1: "pe_result env ?h1 ?q1 = CUDA_SUCCESS" using E ok0 by (auto split: if_splits)
  have ua: "unat ?a = gran (remap_prop False)" and ub: "unat ?b = gran (remap_prop True)"
    using documentedD(2) [OF doc] ok0 ok1 by blast+
  obtain i j where ij: "12 \<le> i" "gran (remap_prop False) = 2 ^ i" "12 \<le> j" "gran (remap_prop True) = 2 ^ j"
    using documentedD(1) [OF doc] by metis
  have ug: "\<exists>b. unat ?g = gran (remap_prop b) \<and> (\<forall>b'. gran (remap_prop b') dvd gran (remap_prop b))"
  proof (cases "?a > ?b")
    case True
    then have "j \<le> i" using ua ub ij by (simp add: word_less_nat_alt)
    then have "gran (remap_prop b') dvd gran (remap_prop False)" for b' using ij by (cases b') (simp_all add: le_imp_power_dvd)
    then show ?thesis using True ua by (intro exI [of _ False]) simp
  next
    case False
    then have "i \<le> j" using ua ub ij by (simp add: word_less_nat_alt)
    then have "gran (remap_prop b') dvd gran (remap_prop True)" for b' using ij by (cases b') (simp_all add: le_imp_power_dvd)
    then show ?thesis using False ub by (intro exI [of _ True]) simp
  qed
  then obtain b where b: "unat ?g = gran (remap_prop b)" "\<And>b'. gran (remap_prop b') dvd gran (remap_prop b)" by blast
  have D: "s \<le> ?c" "?c mod s = 0" "pe_result env ?h ?qr = CUDA_SUCCESS"
    using E ok0 ok1 by (auto simp: not_less [symmetric] split: if_splits)
  let ?d = "pe_value env ?h ?qr"
  have v: "v = \<lparr>v_hist = ?h @ [(?qr, CUDA_SUCCESS, ?d)], v_dptr = ?d, v_size = 0, v_cap = 0, v_max = ?mx, v_chunk = ?c,
      v_fits = ?f, v_props = remap_prop False, v_handles = [], vr_on_host = []\<rparr>"
    using E ok0 ok1 D by (auto simp: not_less [symmetric] split: if_splits)
  have h: "memory ?h = no_mem" "lawful gran ?h" by (simp_all add: memory_def lawful_def)
  have N: "vec_ok gran s [] [] v \<and> unat (v_chunk v) = round_nat (unat ck) (gran (remap_prop b)) \<and>
      unat (v_max v) = round_nat (unat mx) (unat (v_fits v))"
    by (rule fresh_vec_ok [OF doc sane b(1) h D(1,2)]) (use b(2) D(3) in \<open>simp_all add: v\<close>)
  then have "unat (v_chunk v) mod gran (remap_prop b') = 0" for b'
    using b(2) [of b'] round_nat_dvd by (metis dvd_imp_mod_0 dvd_trans)
  then show ?thesis using N by (simp add: rvec_ok_def v)
qed


section \<open>Sequences of operations\<close>

datatype rop = RPush bytes | RReserve u64 | RRemap nat bool

fun remap_op :: "PEnv \<Rightarrow> u64 \<Rightarrow> rop \<Rightarrow> (VMMRemapVector, unit) act" where
  "remap_op env s (RPush x) v = remap_push_back env s x v"
| "remap_op env s (RReserve n) v = remap_vec_reserve env s n v"
| "remap_op env s (RRemap i b) v = remap_chunk env i b v"

fun remap_ops :: "PEnv \<Rightarrow> u64 \<Rightarrow> rop list \<Rightarrow> (VMMRemapVector, unit) act" where
  "remap_ops env s [] v = (Done (), v)"
| "remap_ops env s (p # ps) v = vbind (remap_op env s p) (\<lambda>_. remap_ops env s ps) v"

fun rop_ok :: "u64 \<Rightarrow> rop \<Rightarrow> bool" where
  "rop_ok s (RPush x) \<longleftrightarrow> length x = unat s"
| "rop_ok s (RReserve n) \<longleftrightarrow> unat n \<le> 2 ^ 57"
| "rop_ok s (RRemap i b) \<longleftrightarrow> True"

text \<open>The elements pushed.\<close>

fun pushed :: "rop list \<Rightarrow> bytes list" where
  "pushed [] = []"
| "pushed (RPush x # ps) = x # pushed ps"
| "pushed (_ # ps) = pushed ps"

lemma remap_op_ok:
  assumes doc: "documented gran env" and ob: "obliging gran env" and ok: "rvec_ok gran s xs v" and p: "rop_ok s p"
    and e: "remap_op env s p v = (r, v')"
  shows "(r = Done () \<and> rvec_ok gran s (xs @ pushed [p]) v' \<and> v_dptr v' = v_dptr v) \<or>
    (r = Throws ''max_capacity exceeded'' \<and> v' = v) \<or>
    (r = Undef \<and> v' = v \<and> (\<exists>i b. p = RRemap i b)) \<or> out_of_memory gran r v'"
proof (cases p)
  case (RPush x)
  then show ?thesis using remap_push_back_ok [OF doc ob ok, of x r v'] p e by auto
next
  case (RReserve n)
  then show ?thesis using remap_reserve_ok [OF doc ob ok, of n r v'] p e by auto
next
  case (RRemap i b)
  show ?thesis
  proof (cases "i < length (v_handles v)")
    case True
    then show ?thesis using remap_chunk_ok [OF doc ob ok True, of b r v'] RRemap e by auto
  next
    case False
    then show ?thesis using RRemap e by (simp add: remap_chunk_def)
  qed
qed

lemma remap_ops_ok:
  assumes doc: "documented gran env" and ob: "obliging gran env"
    and "rvec_ok gran s xs v" and "\<forall>p \<in> set ops. rop_ok s p" and "remap_ops env s ops v = (r, v')"
  shows "(r = Done () \<and> rvec_ok gran s (xs @ pushed ops) v' \<and> v_dptr v' = v_dptr v) \<or>
    ((r = Throws ''max_capacity exceeded'' \<or> r = Undef \<and> (\<exists>i b. RRemap i b \<in> set ops)) \<and> (\<exists>ys. rvec_ok gran s ys v')) \<or>
    out_of_memory gran r v'"
  using assms(3-)
proof (induction ops arbitrary: xs v)
  case Nil
  then show ?case by auto
next
  case (Cons p ops)
  obtain r1 v1 where e1: "remap_op env s p v = (r1, v1)" by fastforce
  have p: "rop_ok s p" using Cons.prems(2) by simp
  from remap_op_ok [OF doc ob Cons.prems(1) p e1] show ?case
  proof (elim disjE conjE exE)
    assume r1: "r1 = Done ()" and ok1: "rvec_ok gran s (xs @ pushed [p]) v1" and d: "v_dptr v1 = v_dptr v"
    have "remap_ops env s ops v1 = (r, v')" using Cons.prems(3) e1 r1 by (simp add: vbind_def)
    moreover have "pushed [p] @ pushed ops = pushed (p # ops)" by (cases p) simp_all
    ultimately show ?thesis using Cons.IH [OF ok1] Cons.prems(2) d by auto
  next
    assume "r1 = Throws ''max_capacity exceeded''" "v1 = v"
    then show ?thesis using Cons.prems(1,3) e1 by (auto simp: vbind_def)
  next
    fix i b
    assume "r1 = Undef" "v1 = v" "p = RRemap i b"
    then show ?thesis using Cons.prems(1,3) e1 by (auto simp: vbind_def)
  next
    assume "out_of_memory gran r1 v1"
    moreover from this obtain q where "r1 = Quits q" by (auto simp: out_of_memory_def)
    ultimately show ?thesis using Cons.prems(3) e1 by (auto simp: out_of_memory_def vbind_def)
  qed
qed

text \<open>
  C28. Moving chunks between device and host is invisible to the vector's user: after any sequence of
  \<open>push_back\<close>, \<open>reserve\<close> and \<open>remap\<close> that returns, the vector is at the address it was built at,
  \<open>copy_to_host\<close> gives the elements pushed, and every chunk's backing is where \<open>chunk_on_host\<close> says.
  Every request to the driver is legal. The operations fail only by throwing when the maximum is
  exceeded, at the assertion on a chunk's index, or because the driver refuses memory or a range.
\<close>

theorem remap_is_invisible:
  assumes "documented gran env" and "obliging gran env" and "new_remap_vector env s mx ck [] = (Done (), v0)"
    and "\<And>b. sane_sizes gran (remap_prop b) s mx ck" and "\<forall>p \<in> set ops. rop_ok s p"
    and "remap_ops env s ops v0 = (r, v)"
  shows "lawful gran (v_hist v) \<and>
    (case r of
       Done _ \<Rightarrow> v_dptr v = v_dptr v0 \<and>
         (\<exists>w. remap_copy_to_host env s v = (Done (v_size v * s, concat (pushed ops)), w)) \<and>
         length (vr_on_host v) = length (v_handles v) \<and>
         (\<forall>i < length (v_handles v).
            mm_handles (memory (v_hist v)) (v_handles v ! i) = Some (v_chunk v, remap_prop (vr_on_host v ! i)))
     | Throws m \<Rightarrow> m = ''max_capacity exceeded''
     | Quits e \<Rightarrow> (\<exists>hs q x. v_hist v = hs @ [(q, e, x)] \<and> may_refuse q)
     | Undef \<Rightarrow> (\<exists>i b. RRemap i b \<in> set ops))"
proof -
  have ok0: "rvec_ok gran s [] v0" using assms(1,3,4) new_remap_vector_ok by blast
  from remap_ops_ok [OF assms(1,2) ok0 assms(5,6)] show ?thesis
  proof (elim disjE conjE exE)
    assume r: "r = Done ()" and ok: "rvec_ok gran s ([] @ pushed ops) v" and d: "v_dptr v = v_dptr v0"
    then have vok: "vec_ok gran s (map remap_prop (vr_on_host v)) (pushed ops) v" by (simp add: rvec_ok_def)
    obtain w where "copy_to_host env s v = (Done (v_size v * s, concat (pushed ops)), w)"
      using copy_to_host_ok [OF assms(1,2) vok] by blast
    then have "remap_copy_to_host env s v = (Done (v_size v * s, concat (pushed ops)), w)"
      by (simp add: remap_copy_to_host_def copy_to_host_def)
    moreover have "mm_handles (memory (v_hist v)) (v_handles v ! i) = Some (v_chunk v, remap_prop (vr_on_host v ! i))"
      if "i < length (v_handles v)" for i
      using layout_handle [OF vec_okD(6) [OF vok] that] that rvec_length [OF ok] by simp
    ultimately show ?thesis using r d vec_okD(12) [OF vok] rvec_length [OF ok] by simp
  qed (auto simp: rvec_ok_def out_of_memory_def dest: vec_okD(12))
qed

lemma remap_drop_gives_everything_back:
  assumes "obliging gran env" and "rvec_ok gran s xs v" and "drop_remap_vector env s v = (r, w)"
  shows "r = Done () \<and> lawful gran (v_hist w) \<and> nothing_held (memory (v_hist w))"
proof -
  have "drop_vector env s v = (r, w)" using assms(3) by (simp add: drop_remap_vector_def drop_vector_def)
  then show ?thesis using drop_vector_ok [OF assms(1)] assms(2) unfolding rvec_ok_def by blast
qed

definition demo_remap :: VMMRemapVector where
  "demo_remap = snd (new_remap_vector demo_driver 4 100 1 [])"

lemma demo_remap_built: "new_remap_vector demo_driver 4 100 1 [] = (Done (), demo_remap)"
proof -
  have r: "pe_result demo_driver [(QGranularity p, CUDA_SUCCESS, x), (QGranularity q, CUDA_SUCCESS, y)] (QReserve n) = CUDA_SUCCESS"
    if "unat n \<le> 2 ^ 56" for p q x y n
    using that by (simp add: demo_driver_def memory_def no_mem_def unmapped_def)
  have R: "ROUND_UP 1 0x200000 = 0x200000" "ROUND_UP 100 0x80000 = 0x80000" by (simp_all add: ROUND_UP_def)
  have g: "pe_result demo_driver hs (QGranularity p) = CUDA_SUCCESS" "pe_value demo_driver hs (QGranularity p) = 0x200000" for p hs
    by (simp_all add: demo_driver_def)
  show ?thesis
    by (simp add: demo_remap_def new_remap_vector_def remap_granularity_def vbind_def CU_CHECK_def g R r Let_def)
qed

theorem remap_is_invisible_witness:
  "case remap_ops demo_driver 4 [RPush [1, 2, 3, 4], RRemap 0 True, RPush [5, 6, 7, 8], RRemap 0 False] demo_remap of
     (Done _, v) \<Rightarrow> \<exists>w. remap_copy_to_host demo_driver 4 v = (Done (v_size v * 4, [1, 2, 3, 4, 5, 6, 7, 8]), w)
   | (r, v) \<Rightarrow> lawful demo_gran (v_hist v)"
proof -
  let ?ops = "[RPush [1, 2, 3, 4], RRemap 0 True, RPush [5, 6, 7, 8], RRemap 0 False]"
  have s: "sane_sizes demo_gran (remap_prop c) 4 100 1" for c by (simp add: sane_sizes_def demo_gran_def)
  obtain q v where e: "remap_ops demo_driver 4 ?ops demo_remap = (q, v)" by fastforce
  have "\<forall>p \<in> set ?ops. rop_ok 4 p" by simp
  from remap_is_invisible [OF pages_documented demo_obliging demo_remap_built s this e]
  show ?thesis unfolding e by (cases q) auto
qed

end
