(* ===== verification/Transpose.thy ===== *)
theory Transpose
  imports Prelude "HOL-Library.Multiset"
begin

text \<open>
  The matrix transposition kernels (\<open>experiments/warmups/transpose/transpose.cu\<close>): blocks of 32 by 32
  threads, in any order, with the tile of a block in shared memory and a barrier between its two halves.
  A matrix is a map from word indices; indices of \<open>m * m\<close> and more lie behind its buffer. The program
  takes \<open>m\<close> as an \<open>int\<close>, so no index of a kernel, computed in 64 bits, wraps. The reference loop of \<open>main\<close>
  computes its indices in \<open>int\<close>: when one of them overflows, the behaviour of the program is undefined,
  which is \<open>None\<close>. The times it measures are left out.
\<close>

section \<open>Kernels\<close>

definition TPB :: nat where "TPB = 32"

definition INDX :: "nat \<Rightarrow> nat \<Rightarrow> nat \<Rightarrow> nat" where
  "INDX row col ld = row * ld + col"

text \<open>A block (x, y) of the grid and a thread (x, y) of a block.\<close>

type_synonym blk = "nat \<times> nat"
type_synonym thr = "nat \<times> nat"

text \<open>\<open>grid((m + block.x - 1) / block.x, \<dots>)\<close>\<close>

definition grid_dim :: "nat \<Rightarrow> nat" where
  "grid_dim m = (m + TPB - 1) div TPB"

definition grid_blocks :: "nat \<Rightarrow> blk list" where
  "grid_blocks m = List.product [0..<grid_dim m] [0..<grid_dim m]"

definition block_threads :: "thr list" where
  "block_threads = List.product [0..<TPB] [0..<TPB]"

definition my_col :: "blk \<Rightarrow> thr \<Rightarrow> nat" where "my_col b t = fst t + fst b * TPB"
definition my_row :: "blk \<Rightarrow> thr \<Rightarrow> nat" where "my_row b t = snd t + snd b * TPB"

definition in_matrix :: "nat \<Rightarrow> blk \<Rightarrow> thr \<Rightarrow> bool" where
  "in_matrix m b t \<longleftrightarrow> my_row b t < m \<and> my_col b t < m"

definition simple_transpose :: "nat \<Rightarrow> (nat \<Rightarrow> 'a) \<Rightarrow> blk \<times> thr \<Rightarrow> (nat \<Rightarrow> 'a) \<Rightarrow> nat \<Rightarrow> 'a" where
  "simple_transpose m a = (\<lambda>(b, t) c.
     if in_matrix m b t then c(INDX (my_col b t) (my_row b t) m := a (INDX (my_row b t) (my_col b t) m)) else c)"

text \<open>
  The two halves of \<open>smem_transpose\<close> (\<open>w = 32\<close>) and \<open>smem_transpose_banked\<close> (\<open>w = 33\<close>), where \<open>w\<close> is the
  length of a row of the tile in shared memory.
\<close>

definition smem_load :: "nat \<Rightarrow> nat \<Rightarrow> (nat \<Rightarrow> 'a) \<Rightarrow> blk \<Rightarrow> thr \<Rightarrow> (nat \<Rightarrow> 'a) \<Rightarrow> nat \<Rightarrow> 'a" where
  "smem_load w m a b t smem =
     (if in_matrix m b t then smem(fst t * w + snd t := a (INDX (my_row b t) (my_col b t) m)) else smem)"

definition store_index :: "nat \<Rightarrow> blk \<Rightarrow> thr \<Rightarrow> nat" where
  "store_index m b t = INDX (fst b * TPB + snd t) (snd b * TPB + fst t) m"

definition smem_store :: "nat \<Rightarrow> nat \<Rightarrow> (nat \<Rightarrow> 'a) \<Rightarrow> blk \<Rightarrow> thr \<Rightarrow> (nat \<Rightarrow> 'a) \<Rightarrow> nat \<Rightarrow> 'a" where
  "smem_store w m smem b t c = (if in_matrix m b t then c(store_index m b t := smem (snd t * w + fst t)) else c)"

text \<open>
  A schedule: in which order each block's threads load, and in which order all threads of all blocks
  store, each after the loads of its own block (the barrier). \<open>g b\<close> is what the shared memory of a block
  holds at first.
\<close>

definition smem_schedule :: "nat \<Rightarrow> (blk \<Rightarrow> thr list) \<Rightarrow> (blk \<times> thr) list \<Rightarrow> bool" where
  "smem_schedule m loads stores \<longleftrightarrow>
     (\<forall>b. mset (loads b) = mset block_threads) \<and>
     mset stores = mset (List.product (grid_blocks m) block_threads)"

definition smem_kernel ::
    "nat \<Rightarrow> nat \<Rightarrow> (nat \<Rightarrow> 'a) \<Rightarrow> (blk \<Rightarrow> nat \<Rightarrow> 'a) \<Rightarrow> (blk \<Rightarrow> thr list) \<Rightarrow> (blk \<times> thr) list \<Rightarrow> (nat \<Rightarrow> 'a) \<Rightarrow> nat \<Rightarrow> 'a" where
  "smem_kernel w m a g loads stores c =
     fold (\<lambda>(b, t). smem_store w m (fold (smem_load w m a b) (loads b) (g b)) b t) stores c"

definition smem_transpose where "smem_transpose = smem_kernel TPB"
definition smem_transpose_banked where "smem_transpose_banked = smem_kernel (TPB + 1)"

text \<open>
  The reference of \<open>main\<close>: its indices are \<open>int\<close>s, and one that does not fit in 31 bits (or the product
  in it) overflows. Then the comparison.
\<close>

definition int_index :: "nat \<Rightarrow> nat \<Rightarrow> nat \<Rightarrow> nat option" where
  "int_index row col ld = (if row * ld < 2 ^ 31 \<and> INDX row col ld < 2 ^ 31 then Some (INDX row col ld) else None)"

fun host_loop :: "nat \<Rightarrow> (nat \<Rightarrow> 'a) \<Rightarrow> (nat \<times> nat) list \<Rightarrow> (nat \<Rightarrow> 'a) \<Rightarrow> (nat \<Rightarrow> 'a) option" where
  "host_loop m a [] ref = Some ref"
| "host_loop m a ((r, c) # ps) ref =
     (case (int_index c r m, int_index r c m) of
        (Some i, Some j) \<Rightarrow> host_loop m a ps (ref(i := a j))
      | _ \<Rightarrow> None)"

definition host_ref :: "nat \<Rightarrow> (nat \<Rightarrow> 'a) \<Rightarrow> (nat \<Rightarrow> 'a) \<Rightarrow> (nat \<Rightarrow> 'a) option" where
  "host_ref m a = host_loop m a (List.product [0..<m] [0..<m])"

definition run_correct :: "nat \<Rightarrow> (nat \<Rightarrow> 'a) \<Rightarrow> (nat \<Rightarrow> 'a) \<Rightarrow> bool" where
  "run_correct m ref c \<longleftrightarrow> list_all (\<lambda>i. c i = ref i) [0..<m * m]"

text \<open>
  \<open>main\<close>: the input, the buffer cleared before each run, and five runs of each kernel. What the order of
  the threads is in a run is an argument.
\<close>

definition input :: "nat \<Rightarrow> nat" where "input i = i mod 1000"

definition clear_matrix :: "nat \<Rightarrow> (nat \<Rightarrow> nat) \<Rightarrow> nat \<Rightarrow> nat" where
  "clear_matrix m c = (\<lambda>k. if k < m * m then 0 else c k)"

fun timed_runs ::
    "nat \<Rightarrow> (nat \<Rightarrow> nat) \<Rightarrow> (nat \<Rightarrow> (nat \<Rightarrow> nat) \<Rightarrow> nat \<Rightarrow> nat) \<Rightarrow> nat list \<Rightarrow> (nat \<Rightarrow> nat) \<Rightarrow> bool list \<times> (nat \<Rightarrow> nat)" where
  "timed_runs m ref krn [] c = ([], c)"
| "timed_runs m ref krn (r # rs) c =
     (let c1 = krn r (clear_matrix m c);
          (vs, c2) = timed_runs m ref krn rs c1
      in (run_correct m ref c1 # vs, c2))"

record Orders =
  naive_order :: "nat \<Rightarrow> (blk \<times> thr) list"
  load_order :: "nat \<Rightarrow> blk \<Rightarrow> thr list"
  store_order :: "nat \<Rightarrow> (blk \<times> thr) list"

definition transpose_main :: "nat \<Rightarrow> Orders \<Rightarrow> (nat \<Rightarrow> nat) \<Rightarrow> (blk \<Rightarrow> nat \<Rightarrow> nat) \<Rightarrow> (nat \<Rightarrow> nat) \<Rightarrow> bool list list option" where
  "transpose_main m os ref g d_c =
     (case host_ref m input ref of None \<Rightarrow> None | Some ref \<Rightarrow>
     (let c0 = fold (simple_transpose m input) (naive_order os 0) d_c;
          (v1, c1) = timed_runs m ref (\<lambda>r. fold (simple_transpose m input) (naive_order os r)) [1..<6] c0;
          (v2, c2) = timed_runs m ref (\<lambda>r. smem_transpose m input g (load_order os r) (store_order os r)) [1..<6] c1;
          (v3, c3) = timed_runs m ref (\<lambda>r. smem_transpose_banked m input g (load_order os r) (store_order os r)) [6..<11] c2
      in Some [v1, v2, v3]))"

section \<open>Writing each index once\<close>

text \<open>Writing values to indices in any order.\<close>

lemma fold_writes_other:
  assumes "\<forall>p \<in> set ps. P p \<longrightarrow> ix p \<noteq> k"
  shows "fold (\<lambda>p c. if P p then c(ix p := val p) else c) ps c k = c k"
  using assms by (induction ps arbitrary: c) auto

lemma fold_writes:
  assumes "p \<in> set ps" and "P p" and "\<forall>q \<in> set ps. P q \<longrightarrow> ix q = ix p \<longrightarrow> val q = val p"
  shows "fold (\<lambda>p c. if P p then c(ix p := val p) else c) ps c (ix p) = val p"
  using assms
proof (induction ps rule: rev_induct)
  case (snoc q qs)
  show ?case
  proof (cases "P q \<and> ix q = ix p")
    case True
    then have "val q = val p" using snoc.prems(3) by (metis in_set_conv_decomp)
    then show ?thesis using True by simp
  next
    case False
    then have "p \<in> set qs" using snoc.prems(1,2) by auto
    then have "fold (\<lambda>p c. if P p then c(ix p := val p) else c) qs c (ix p) = val p"
      by (rule snoc.IH) (use snoc.prems(2,3) in auto)
    then show ?thesis using False by (auto simp del: fold_simps)
  qed
qed simp

text \<open>A row-major index has one row and one column.\<close>

lemma INDX_eq_iff:
  assumes "c < m" and "c' < m"
  shows "INDX r c m = INDX r' c' m \<longleftrightarrow> r = r' \<and> c = c'"
proof
  assume "INDX r c m = INDX r' c' m"
  then have e: "r * m + c = r' * m + c'" by (simp add: INDX_def)
  have "(r * m + c) div m = r" "(r' * m + c') div m = r'" using assms by auto
  then have "r = r'" using e by metis
  then show "r = r' \<and> c = c'" using e by simp
qed simp

lemma INDX_bound:
  assumes "r < m" and "c < m"
  shows "INDX r c m < m * m"
proof -
  have "r * m + c < r * m + m" using assms(2) by simp
  also have "\<dots> = (r + 1) * m" by simp
  also have "\<dots> \<le> m * m" using assms(1) by (intro mult_right_mono) simp_all
  finally show ?thesis by (simp add: INDX_def)
qed

lemma INDX_div_mod:
  assumes "i < m * m"
  obtains r c where "r < m" "c < m" "i = INDX r c m"
proof
  show "i div m < m" using assms by (simp add: less_mult_imp_div_less)
  have "0 < m" using assms by (cases m) simp_all
  then show "i mod m < m" by simp
  show "i = INDX (i div m) (i mod m) m" by (simp add: INDX_def)
qed

section \<open>What the result must be\<close>

text \<open>The transposed matrix, by rows and columns.\<close>

definition transposed :: "nat \<Rightarrow> (nat \<Rightarrow> 'a) \<Rightarrow> (nat \<Rightarrow> 'a) \<Rightarrow> bool" where
  "transposed m a c \<longleftrightarrow> (\<forall>row < m. \<forall>col < m. c (INDX col row m) = a (INDX row col m))"

text \<open>What the reference loop computes as long as no index overflows.\<close>

definition wide_ref :: "nat \<Rightarrow> (nat \<Rightarrow> 'a) \<Rightarrow> (nat \<Rightarrow> 'a) \<Rightarrow> nat \<Rightarrow> 'a" where
  "wide_ref m a = fold (\<lambda>(r, c) ref. ref(INDX c r m := a (INDX r c m))) (List.product [0..<m] [0..<m])"

lemma int_index_fits:
  assumes "m * m \<le> 2 ^ 31" and "row < m" and "col < m"
  shows "int_index row col m = Some (INDX row col m)"
proof -
  have "INDX row col m < m * m" by (rule INDX_bound [OF assms(2,3)])
  then show ?thesis using assms(1) by (simp add: int_index_def INDX_def)
qed

lemma host_loop_fits:
  assumes "m * m \<le> 2 ^ 31" and "\<forall>(r, c) \<in> set ps. r < m \<and> c < m"
  shows "host_loop m a ps ref = Some (fold (\<lambda>(r, c) ref. ref(INDX c r m := a (INDX r c m))) ps ref)"
  using assms(2)
proof (induction ps arbitrary: ref)
  case (Cons p ps)
  obtain r c where p: "p = (r, c)" by (cases p)
  have "int_index c r m = Some (INDX c r m)" "int_index r c m = Some (INDX r c m)"
    using Cons.prems p int_index_fits [OF assms(1)] by simp_all
  then have "host_loop m a (p # ps) ref = host_loop m a ps (ref(INDX c r m := a (INDX r c m)))" using p by simp
  also have "\<dots> = Some (fold (\<lambda>(r, c) ref. ref(INDX c r m := a (INDX r c m))) ps (ref(INDX c r m := a (INDX r c m))))"
    by (rule Cons.IH) (use Cons.prems in simp)
  finally show ?case using p by (simp only: fold_simps comp_apply prod.case)
qed simp

lemma host_ref_fits:
  assumes "m * m \<le> 2 ^ 31"
  shows "host_ref m a ref = Some (wide_ref m a ref)"
  by (auto simp: host_ref_def wide_ref_def intro!: host_loop_fits [OF assms])

text \<open>For a side above 46340 the loop overflows, at the last element if not before.\<close>

lemma host_loop_stops: "(r, c) \<in> set ps \<Longrightarrow> int_index r c m = None \<Longrightarrow> host_loop m a ps ref = None"
  by (induction m a ps ref rule: host_loop.induct) (auto split: option.split)

lemma host_ref_overflows:
  assumes "2 ^ 31 < m * m"
  shows "host_ref m a ref = None"
proof -
  have m: "0 < m" using assms by (auto intro: gr0I)
  have "INDX (m - 1) (m - 1) m + 1 = m * m" using m by (simp add: INDX_def algebra_simps)
  then have "int_index (m - 1) (m - 1) m = None" using assms by (simp add: int_index_def)
  moreover have "(m - 1, m - 1) \<in> set (List.product [0..<m] [0..<m])" using m by simp
  ultimately show ?thesis unfolding host_ref_def by (rule host_loop_stops [rotated])
qed

lemma wide_ref_transposed: "transposed m a (wide_ref m a ref)"
  unfolding transposed_def
proof (intro allI impI)
  fix row col assume "row < m" "col < m"
  then have "fold (\<lambda>p ref. if True then ref(INDX (snd p) (fst p) m := a (INDX (fst p) (snd p) m)) else ref)
      (List.product [0..<m] [0..<m]) ref (INDX (snd (row, col)) (fst (row, col)) m) = a (INDX (fst (row, col)) (snd (row, col)) m)"
    by (intro fold_writes [of "(row, col)"]) (auto simp: INDX_eq_iff)
  then show "wide_ref m a ref (INDX col row m) = a (INDX row col m)"
    by (simp add: wide_ref_def case_prod_beta')
qed

lemma run_correct_transposed: "run_correct m (wide_ref m a ref) c \<longleftrightarrow> transposed m a c"
proof -
  have "(\<forall>i < m * m. c i = wide_ref m a ref i) \<longleftrightarrow> transposed m a c"
  proof
    assume *: "\<forall>i < m * m. c i = wide_ref m a ref i"
    show "transposed m a c"
      using wide_ref_transposed [of m a ref] * INDX_bound [of _ m] by (simp add: transposed_def)
  next
    assume *: "transposed m a c"
    show "\<forall>i < m * m. c i = wide_ref m a ref i"
    proof (intro allI impI)
      fix i assume "i < m * m"
      then obtain r k where "r < m" "k < m" "i = INDX r k m" by (rule INDX_div_mod)
      then show "c i = wide_ref m a ref i"
        using * wide_ref_transposed [of m a ref] by (simp add: transposed_def)
    qed
  qed
  then show ?thesis by (auto simp: run_correct_def list_all_iff)
qed

section \<open>Threads\<close>

lemma my_col_lt_TPB: "fst t < TPB \<Longrightarrow> my_col b t div TPB = fst b \<and> my_col b t mod TPB = fst t"
  by (simp add: my_col_def TPB_def)

lemma my_row_lt_TPB: "snd t < TPB \<Longrightarrow> my_row b t div TPB = snd b \<and> my_row b t mod TPB = snd t"
  by (simp add: my_row_def TPB_def)

lemma grid_covers:
  assumes "row < m" and "col < m"
  shows "(col div TPB, row div TPB) \<in> set (grid_blocks m)"
proof -
  have "x div TPB < grid_dim m" if "x < m" for x
    unfolding grid_dim_def TPB_def using that by linarith
  then show ?thesis using assms by (simp add: grid_blocks_def)
qed

lemma block_threads_iff [simp]: "t \<in> set block_threads \<longleftrightarrow> fst t < TPB \<and> snd t < TPB"
  by (cases t) (auto simp: block_threads_def)

text \<open>The thread that handles an element.\<close>

lemma element_thread:
  assumes "row < m" and "col < m"
  obtains b t where "b \<in> set (grid_blocks m)" "t \<in> set block_threads" "my_row b t = row" "my_col b t = col"
proof
  show "(col div TPB, row div TPB) \<in> set (grid_blocks m)" using assms by (rule grid_covers)
  show "(col mod TPB, row mod TPB) \<in> set block_threads" by (simp add: TPB_def)
qed (simp_all add: my_row_def my_col_def)

section \<open>The naive kernel\<close>

lemma simple_transpose_fold:
  "fold (simple_transpose m a) ps =
   fold (\<lambda>p c. if in_matrix m (fst p) (snd p)
     then c(INDX (my_col (fst p) (snd p)) (my_row (fst p) (snd p)) m := a (INDX (my_row (fst p) (snd p)) (my_col (fst p) (snd p)) m))
     else c) ps"
  by (simp add: simple_transpose_def case_prod_beta')

lemma all_threads:
  assumes "mset ps = mset (List.product (grid_blocks m) block_threads)"
  shows "set ps = set (grid_blocks m) \<times> set block_threads"
  using arg_cong [OF assms, of set_mset] by simp

lemma simple_transposed:
  assumes "mset ps = mset (List.product (grid_blocks m) block_threads)"
  shows "transposed m a (fold (simple_transpose m a) ps c)"
  unfolding transposed_def
proof (intro allI impI)
  fix row col assume rc: "row < m" "col < m"
  obtain b t where bt: "b \<in> set (grid_blocks m)" "t \<in> set block_threads" "my_row b t = row" "my_col b t = col"
    using rc by (rule element_thread)
  have p: "(b, t) \<in> set ps" using bt by (simp add: all_threads [OF assms])
  have "fold (simple_transpose m a) ps c (INDX (my_col (fst (b, t)) (snd (b, t))) (my_row (fst (b, t)) (snd (b, t))) m)
      = a (INDX (my_row (fst (b, t)) (snd (b, t))) (my_col (fst (b, t)) (snd (b, t))) m)"
    unfolding simple_transpose_fold
    by (rule fold_writes [OF p]) (use bt rc in \<open>auto simp: in_matrix_def INDX_eq_iff\<close>)
  then show "fold (simple_transpose m a) ps c (INDX col row m) = a (INDX row col m)" using bt by simp
qed

lemma simple_in_bounds:
  assumes "m * m \<le> k"
  shows "fold (simple_transpose m a) ps c k = c k"
proof -
  have "\<forall>p \<in> set ps. in_matrix m (fst p) (snd p) \<longrightarrow> INDX (my_col (fst p) (snd p)) (my_row (fst p) (snd p)) m \<noteq> k"
    using assms INDX_bound by (auto simp: in_matrix_def dest: leD)
  then show ?thesis unfolding simple_transpose_fold by (rule fold_writes_other)
qed

section \<open>The tiled kernels\<close>

text \<open>The matrix consists of whole tiles, or fits in one.\<close>

definition whole_tiles :: "nat \<Rightarrow> bool" where
  "whole_tiles m \<longleftrightarrow> TPB dvd m \<or> m < TPB"

lemma whole_tiles_swap:
  assumes "whole_tiles m" and "b \<in> set (grid_blocks m)" and "t \<in> set block_threads"
  shows "in_matrix m b (prod.swap t) = in_matrix m b t"
proof (cases "m < TPB")
  case True
  then have "grid_dim m \<le> 1" by (simp add: grid_dim_def TPB_def)
  then have "b = (0, 0)" using assms(2) by (auto simp: grid_blocks_def)
  then show ?thesis by (auto simp: in_matrix_def my_row_def my_col_def)
next
  case False
  then obtain k where k: "m = TPB * k" using assms(1) by (auto simp: whole_tiles_def)
  have *: "x + y * TPB < m \<longleftrightarrow> y < k" if "x < TPB" for x y
  proof -
    have "x + y * TPB < TPB * k \<longleftrightarrow> (x + y * TPB) div TPB < k"
      using div_less_iff_less_mult [of TPB "x + y * TPB" k] by (simp add: TPB_def mult.commute)
    then show ?thesis using that by (simp add: k TPB_def)
  qed
  show ?thesis using assms(3) by (auto simp: in_matrix_def my_row_def my_col_def *)
qed

text \<open>After the barrier the tile holds what its threads loaded.\<close>

lemma tile_loaded:
  assumes "mset ts = mset block_threads" and "TPB \<le> w" and "t \<in> set block_threads" and "in_matrix m b t"
  shows "fold (smem_load w m a b) ts g (fst t * w + snd t) = a (INDX (my_row b t) (my_col b t) m)"
proof -
  have ts: "set ts = set block_threads" using arg_cong [OF assms(1), of set_mset] by simp
  have inj: "q = t" if "q \<in> set ts" "fst q * w + snd q = fst t * w + snd t" for q
  proof -
    have "snd q < w" "snd t < w" using that(1) assms(2,3) ts by auto
    then show ?thesis
      using INDX_eq_iff [of "snd q" w "snd t" "fst q" "fst t"] that(2) by (simp add: INDX_def prod_eq_iff)
  qed
  have "t \<in> set ts" using assms(3) ts by simp
  then have "fold (\<lambda>t smem. if in_matrix m b t then smem(fst t * w + snd t := a (INDX (my_row b t) (my_col b t) m)) else smem) ts g
      (fst t * w + snd t) = a (INDX (my_row b t) (my_col b t) m)"
    by (rule fold_writes) (use assms(4) inj in auto)
  then show ?thesis by (simp add: smem_load_def [abs_def])
qed

lemma store_index_swap: "store_index m b t = INDX (my_col b (prod.swap t)) (my_row b (prod.swap t)) m"
  by (simp add: store_index_def my_col_def my_row_def add.commute)

lemma smem_kernel_fold:
  "smem_kernel w m a g loads stores c =
   fold (\<lambda>p c. if in_matrix m (fst p) (snd p)
     then c(store_index m (fst p) (snd p) := fold (smem_load w m a (fst p)) (loads (fst p)) (g (fst p)) (snd (snd p) * w + fst (snd p)))
     else c) stores c"
  by (simp add: smem_kernel_def smem_store_def [abs_def] case_prod_beta')

lemma stored_value:
  assumes "whole_tiles m" and "smem_schedule m loads stores" and "TPB \<le> w"
    and "(b, t) \<in> set stores" and "in_matrix m b t"
  shows "fold (smem_load w m a b) (loads b) g (snd t * w + fst t) =
      a (INDX (my_row b (prod.swap t)) (my_col b (prod.swap t)) m)"
    and "in_matrix m b (prod.swap t)"
proof -
  have bt: "b \<in> set (grid_blocks m)" "t \<in> set block_threads"
    using assms(2,4) all_threads [of stores m] by (auto simp: smem_schedule_def)
  then show sw: "in_matrix m b (prod.swap t)" using whole_tiles_swap [OF assms(1)] assms(5) by blast
  have loads: "mset (loads b) = mset block_threads" using assms(2) unfolding smem_schedule_def by blast
  have "fold (smem_load w m a b) (loads b) g (fst (prod.swap t) * w + snd (prod.swap t)) =
      a (INDX (my_row b (prod.swap t)) (my_col b (prod.swap t)) m)"
    by (rule tile_loaded [OF loads]) (use assms(3) bt sw in simp_all)
  then show "fold (smem_load w m a b) (loads b) g (snd t * w + fst t) =
      a (INDX (my_row b (prod.swap t)) (my_col b (prod.swap t)) m)" by simp
qed

lemma tiles_transposed:
  assumes "whole_tiles m" and "smem_schedule m loads stores" and "TPB \<le> w"
  shows "transposed m a (smem_kernel w m a g loads stores c)"
  unfolding transposed_def
proof (intro allI impI)
  fix row col assume rc: "row < m" "col < m"
  obtain b u where bu: "b \<in> set (grid_blocks m)" "u \<in> set block_threads" "my_row b u = row" "my_col b u = col"
    using rc by (rule element_thread)
  let ?t = "prod.swap u"
  have p: "(b, ?t) \<in> set stores"
    using bu assms(2) all_threads [of stores m] by (simp add: smem_schedule_def)
  have u: "in_matrix m b u" using bu rc by (simp add: in_matrix_def)
  then have t: "in_matrix m b ?t" using whole_tiles_swap [OF assms(1) bu(1,2)] by simp
  note v = stored_value [OF assms]
  have "smem_kernel w m a g loads stores c (store_index m (fst (b, ?t)) (snd (b, ?t))) =
      fold (smem_load w m a (fst (b, ?t))) (loads (fst (b, ?t))) (g (fst (b, ?t))) (snd (snd (b, ?t)) * w + fst (snd (b, ?t)))"
    unfolding smem_kernel_fold
  proof (rule fold_writes [OF p]; (intro ballI impI)?)
    show "in_matrix m (fst (b, ?t)) (snd (b, ?t))" using t by simp
    fix q assume q: "q \<in> set stores" "in_matrix m (fst q) (snd q)"
      "store_index m (fst q) (snd q) = store_index m (fst (b, ?t)) (snd (b, ?t))"
    obtain b' t' where qb: "q = (b', t')" by (cases q)
    have in': "in_matrix m b' (prod.swap t')" using v(2) q(1,2) qb by simp
    have "my_row b' (prod.swap t') = my_row b u \<and> my_col b' (prod.swap t') = my_col b u"
      using q(3) u in' by (simp add: qb store_index_swap INDX_eq_iff in_matrix_def)
    then show "fold (smem_load w m a (fst q)) (loads (fst q)) (g (fst q)) (snd (snd q) * w + fst (snd q)) =
        fold (smem_load w m a (fst (b, ?t))) (loads (fst (b, ?t))) (g (fst (b, ?t))) (snd (snd (b, ?t)) * w + fst (snd (b, ?t)))"
      using q(1,2) by (simp add: qb v(1) [of b' t'] v(1) [OF p t, simplified])
  qed
  then show "smem_kernel w m a g loads stores c (INDX col row m) = a (INDX row col m)"
    using v(1) [OF p t] bu by (simp add: store_index_swap)
qed

lemma tiles_in_bounds:
  assumes "whole_tiles m" and "smem_schedule m loads stores" and "TPB \<le> w" and "m * m \<le> k"
  shows "smem_kernel w m a g loads stores c k = c k"
proof -
  have "\<forall>p \<in> set stores. in_matrix m (fst p) (snd p) \<longrightarrow> store_index m (fst p) (snd p) \<noteq> k"
  proof (intro ballI impI)
    fix p assume "p \<in> set stores" "in_matrix m (fst p) (snd p)"
    then have "in_matrix m (fst p) (prod.swap (snd p))"
      using stored_value(2) [OF assms(1-3), of "fst p" "snd p"] by simp
    then show "store_index m (fst p) (snd p) \<noteq> k"
      using INDX_bound [of _ m] assms(4) by (auto simp: in_matrix_def store_index_swap dest: leD)
  qed
  then show ?thesis unfolding smem_kernel_fold by (rule fold_writes_other)
qed

section \<open>A last row and column of partial tiles\<close>

text \<open>
  With \<open>m = 32 * q + r\<close> and \<open>0 < r < 32\<close>, the thread of the lower left element of the last tile column
  stores past the end, and nobody stores the element in row \<open>r\<close> and column \<open>32 * q\<close>.
\<close>

lemma partial_tile_overflow:
  assumes "TPB < m" and "\<not> TPB dvd m"
  shows "((m div TPB, 0), (0, TPB - 1)) \<in> set (grid_blocks m) \<times> set block_threads"
    and "in_matrix m (m div TPB, 0) (0, TPB - 1)"
    and "m * m \<le> store_index m (m div TPB, 0) (0, TPB - 1)"
proof -
  have r: "0 < m mod TPB" "m mod TPB < TPB" using assms(2) by (auto simp: dvd_eq_mod_eq_0 TPB_def)
  then have q: "m div TPB * TPB < m" "m < m div TPB * TPB + TPB"
    using div_mult_mod_eq [of m TPB] by linarith+
  then show "in_matrix m (m div TPB, 0) (0, TPB - 1)"
    using assms(1) by (simp add: in_matrix_def my_row_def my_col_def TPB_def)
  have "m \<le> m div TPB * TPB + (TPB - 1)" using q by (simp add: TPB_def)
  then have "m * m \<le> (m div TPB * TPB + (TPB - 1)) * m" by (rule mult_right_mono) simp
  then show "m * m \<le> store_index m (m div TPB, 0) (0, TPB - 1)" by (simp add: store_index_def INDX_def)
  have "m div TPB < grid_dim m" "0 < grid_dim m"
    using q assms(1) by (simp_all add: grid_dim_def TPB_def)
  then show "((m div TPB, 0), (0, TPB - 1)) \<in> set (grid_blocks m) \<times> set block_threads"
    by (simp add: grid_blocks_def) (simp add: TPB_def)
qed

lemma partial_tile_gap:
  assumes "TPB < m" and "\<not> TPB dvd m" and "b \<in> set (grid_blocks m)" and "t \<in> set block_threads" and "in_matrix m b t"
  shows "store_index m b t \<noteq> INDX (m mod TPB) (m div TPB * TPB) m"
proof
  assume eq: "store_index m b t = INDX (m mod TPB) (m div TPB * TPB) m"
  define q r where "q = m div TPB" and "r = m mod TPB"
  have m: "m = q * TPB + r" by (simp add: q_def r_def)
  have r: "0 < r" "r < TPB" using assms(2) by (auto simp: dvd_eq_mod_eq_0 TPB_def r_def)
  have q: "0 < q" using assms(1) m r by (cases q) simp_all
  obtain x y where t: "t = (x, y)" by (cases t)
  obtain u v where b: "b = (u, v)" by (cases b)
  have xy: "x < TPB" "y < TPB" using assms(4) t by simp_all
  have inm: "y + v * TPB < m" "x + u * TPB < m"
    using assms(5) by (simp_all add: t b in_matrix_def my_row_def my_col_def)
  let ?X = "u * TPB + y" and ?Y = "v * TPB + x"
  have e: "INDX ?X ?Y m = INDX r (q * TPB) m" using eq by (simp add: store_index_def t b q_def r_def)
  have qm: "q * TPB < m" using m r by simp
  show False
  proof (cases "?Y < m")
    case True
    then have XY: "?X = r" "?Y = q * TPB" using e qm by (auto simp: INDX_eq_iff)
    have "u * TPB + y = r" by (rule XY(1))
    then have "u = 0" using r(2) by (cases u) (simp_all add: TPB_def)
    then have "y = r" using XY(1) by simp
    moreover have "v = q"
    proof -
      have "(v * TPB + x) div TPB = v" using xy by (simp add: TPB_def)
      then show ?thesis using XY(2) by (simp add: TPB_def)
    qed
    ultimately show False using inm(1) m by simp
  next
    case False
    have "?Y - m < TPB" using inm(1) xy by (simp add: TPB_def)
    moreover have "TPB \<le> q * TPB" using q by (simp add: TPB_def)
    ultimately have lt: "?Y - m < q * TPB" by (rule less_le_trans)
    have "INDX (?X + 1) (?Y - m) m = INDX r (q * TPB) m" using e False by (simp add: INDX_def)
    then show False using INDX_eq_iff [of "?Y - m" m "q * TPB"] lt qm by simp
  qed
qed

lemma partial_tile_kept:
  assumes "TPB < m" and "\<not> TPB dvd m" and "smem_schedule m loads stores"
  shows "smem_kernel w m a g loads stores c (INDX (m mod TPB) (m div TPB * TPB) m) = c (INDX (m mod TPB) (m div TPB * TPB) m)"
proof -
  have "\<forall>p \<in> set stores. in_matrix m (fst p) (snd p) \<longrightarrow> store_index m (fst p) (snd p) \<noteq> INDX (m mod TPB) (m div TPB * TPB) m"
    using partial_tile_gap [OF assms(1,2)] all_threads [of stores m] assms(3) by (auto simp: smem_schedule_def)
  then show ?thesis unfolding smem_kernel_fold by (rule fold_writes_other)
qed

section \<open>The three kernels\<close>

text \<open>
  C36. Transposition, whole tiles: whatever order the threads run in and whatever the shared memory holds
  at first, each of the three kernels computes what \<open>main\<close> compares with, and writes nothing outside the
  matrix; the tiled ones for a side that is a multiple of 32 or below 32, the naive one for any side. The
  side is at most 46340, so that the reference, whose indices are 32-bit integers, is defined: above it
  its loop overflows.
\<close>

theorem kernels_transpose:
  assumes "m \<le> 46340" and "mset ps = mset (List.product (grid_blocks m) block_threads)" and "smem_schedule m loads stores"
  shows "(\<exists>h. host_ref m a ref = Some h \<and> run_correct m h (fold (simple_transpose m a) ps c) \<and>
      (TPB dvd m \<or> m < TPB \<longrightarrow>
        run_correct m h (smem_transpose m a g loads stores c) \<and> run_correct m h (smem_transpose_banked m a g loads stores c))) \<and>
    (\<forall>k. m * m \<le> k \<longrightarrow> fold (simple_transpose m a) ps c k = c k) \<and>
    (TPB dvd m \<or> m < TPB \<longrightarrow>
      (\<forall>k. m * m \<le> k \<longrightarrow> smem_transpose m a g loads stores c k = c k \<and> smem_transpose_banked m a g loads stores c k = c k))"
proof (intro conjI impI)
  have whole: "whole_tiles m" if "TPB dvd m \<or> m < TPB" using that by (simp add: whole_tiles_def)
  have "m * m \<le> 46340 * 46340" using assms(1) by (intro mult_le_mono)
  then have ref: "host_ref m a ref = Some (wide_ref m a ref)" by (intro host_ref_fits) simp
  show "\<exists>h. host_ref m a ref = Some h \<and> run_correct m h (fold (simple_transpose m a) ps c) \<and>
      (TPB dvd m \<or> m < TPB \<longrightarrow>
        run_correct m h (smem_transpose m a g loads stores c) \<and> run_correct m h (smem_transpose_banked m a g loads stores c))"
  proof (intro exI conjI impI)
    show "host_ref m a ref = Some (wide_ref m a ref)" by (rule ref)
    show "run_correct m (wide_ref m a ref) (fold (simple_transpose m a) ps c)"
      unfolding run_correct_transposed by (rule simple_transposed [OF assms(2)])
    assume "TPB dvd m \<or> m < TPB"
    note w = whole [OF this]
    show "run_correct m (wide_ref m a ref) (smem_transpose m a g loads stores c)"
      unfolding run_correct_transposed smem_transpose_def by (rule tiles_transposed [OF w assms(3)]) simp
    show "run_correct m (wide_ref m a ref) (smem_transpose_banked m a g loads stores c)"
      unfolding run_correct_transposed smem_transpose_banked_def by (rule tiles_transposed [OF w assms(3)]) simp
  qed
  show "\<forall>k. m * m \<le> k \<longrightarrow> fold (simple_transpose m a) ps c k = c k" by (simp add: simple_in_bounds)
  assume "TPB dvd m \<or> m < TPB"
  then show "\<forall>k. m * m \<le> k \<longrightarrow> smem_transpose m a g loads stores c k = c k \<and> smem_transpose_banked m a g loads stores c k = c k"
    by (simp add: smem_transpose_def smem_transpose_banked_def tiles_in_bounds [OF whole assms(3)])
qed

text \<open>The order in which the program's loops would list the threads is one of the schedules.\<close>

lemma grid_order: "smem_schedule m (\<lambda>b. block_threads) (List.product (grid_blocks m) block_threads)"
  by (simp add: smem_schedule_def)

theorem kernels_transpose_witness:
  "(\<exists>h. host_ref 2 (\<lambda>i. i) (\<lambda>_. 0) = Some h \<and>
     run_correct 2 h (smem_transpose_banked 2 (\<lambda>i. i) (\<lambda>_ _. 0) (\<lambda>b. block_threads) (List.product (grid_blocks 2) block_threads) (\<lambda>_. 0))) \<and>
   (\<exists>h. host_ref 64 (\<lambda>i. i) (\<lambda>_. 0) = Some h \<and>
     run_correct 64 h (smem_transpose 64 (\<lambda>i. i) (\<lambda>_ _. 0) (\<lambda>b. block_threads) (List.product (grid_blocks 64) block_threads) (\<lambda>_. 0)))"
  using kernels_transpose [OF _ refl grid_order, of 2 "\<lambda>i. i" "\<lambda>_. 0" "\<lambda>_. 0" "\<lambda>_ _. 0"]
    kernels_transpose [OF _ refl grid_order, of 64 "\<lambda>i. i" "\<lambda>_. 0" "\<lambda>_. 0" "\<lambda>_ _. 0"] by (auto simp: TPB_def)

text \<open>Then every run of \<open>main\<close> is reported correct.\<close>

lemma timed_runs_correct:
  assumes "\<And>r c. r \<in> set rs \<Longrightarrow> run_correct m ref (krn r c)"
  shows "fst (timed_runs m ref krn rs c) = map (\<lambda>_. True) rs"
  using assms by (induction rs arbitrary: c) (simp_all add: Let_def case_prod_beta)

lemma main_reports_correct:
  assumes "whole_tiles m" and "m \<le> 46340"
    and "\<And>r. mset (naive_order os r) = mset (List.product (grid_blocks m) block_threads)"
    and "\<And>r. smem_schedule m (load_order os r) (store_order os r)"
  shows "transpose_main m os ref g d_c = Some (replicate 3 (replicate 5 True))"
proof -
  have "m * m \<le> 46340 * 46340" using assms(2) by (intro mult_le_mono)
  then have ref: "host_ref m input ref = Some (wide_ref m input ref)" by (intro host_ref_fits) simp
  have *: "fst (timed_runs m (wide_ref m input ref) krn rs c) = map (\<lambda>_. True) rs"
    if "\<And>r c. transposed m input (krn r c)" for krn rs c
    by (rule timed_runs_correct) (simp add: run_correct_transposed that)
  note simps = simple_transposed [OF assms(3)] tiles_transposed [OF assms(1,4)]
  have "fst (timed_runs m (wide_ref m input ref) (\<lambda>r. fold (simple_transpose m input) (naive_order os r)) rs c) = map (\<lambda>_. True) rs" for rs c
    by (rule *) (rule simps)
  moreover have "fst (timed_runs m (wide_ref m input ref) (\<lambda>r. smem_transpose m input g (load_order os r) (store_order os r)) rs c) = map (\<lambda>_. True) rs" for rs c
    by (rule *) (simp add: smem_transpose_def simps)
  moreover have "fst (timed_runs m (wide_ref m input ref) (\<lambda>r. smem_transpose_banked m input g (load_order os r) (store_order os r)) rs c) = map (\<lambda>_. True) rs" for rs c
    by (rule *) (simp add: smem_transpose_banked_def simps)
  ultimately show ?thesis
    by (simp add: transpose_main_def ref Let_def case_prod_beta eval_nat_numeral map_replicate_const del: timed_runs.simps)
qed

text \<open>
  Transposition, partial tiles: when the side is above 32 and not a multiple of 32, a guarded thread
  of the tiled kernels stores past the end of the matrix, and the element in row \<open>m mod 32\<close> and column
  \<open>m - m mod 32\<close> keeps what the buffer held, so that the run is wrong unless that happens to be right.
\<close>

theorem partial_tiles_are_wrong:
  assumes "TPB < m" and "\<not> TPB dvd m" and "smem_schedule m loads stores" and "host_ref m a ref = Some h"
  shows "(\<exists>(b, t) \<in> set stores. in_matrix m b t \<and> m * m \<le> store_index m b t) \<and>
    (let k = INDX (m mod TPB) (m div TPB * TPB) m; k' = INDX (m div TPB * TPB) (m mod TPB) m in
      smem_transpose m a g loads stores c k = c k \<and> smem_transpose_banked m a g loads stores c k = c k \<and>
      (c k \<noteq> a k' \<longrightarrow>
        \<not> run_correct m h (smem_transpose m a g loads stores c) \<and>
        \<not> run_correct m h (smem_transpose_banked m a g loads stores c)))"
proof -
  have "set stores = set (grid_blocks m) \<times> set block_threads"
    using all_threads [of stores m] assms(3) by (simp add: smem_schedule_def)
  then have "\<exists>(b, t) \<in> set stores. in_matrix m b t \<and> m * m \<le> store_index m b t"
    using partial_tile_overflow [OF assms(1,2)] by blast
  moreover have "m mod TPB < m" "m div TPB * TPB < m"
  proof -
    have "0 < m mod TPB" using assms(2) by (simp add: dvd_eq_mod_eq_0)
    then show "m div TPB * TPB < m" using div_mult_mod_eq [of m TPB] by linarith
    show "m mod TPB < m" using assms(1) mod_less_divisor [of TPB m] by (simp add: TPB_def)
  qed
  moreover from this have "c (INDX (m mod TPB) (m div TPB * TPB) m) \<noteq> a (INDX (m div TPB * TPB) (m mod TPB) m) \<Longrightarrow>
      \<not> transposed m a (smem_kernel w m a g loads stores c)" for w
    unfolding transposed_def by (metis partial_tile_kept [OF assms(1-3)])
  moreover have "h = wide_ref m a ref"
    using assms(4) host_ref_fits [of m a ref] host_ref_overflows [of m a ref] by (cases "m * m \<le> 2 ^ 31") auto
  ultimately show ?thesis
    unfolding Let_def
    by (simp add: run_correct_transposed smem_transpose_def smem_transpose_banked_def partial_tile_kept [OF assms(1-3)])
qed

theorem partial_tiles_are_wrong_witness:
  "\<not> run_correct 40 (the (host_ref 40 (\<lambda>i. i) (\<lambda>_. 0))) (smem_transpose 40 (\<lambda>i. i) (\<lambda>_ _. 0) (\<lambda>b. block_threads)
      (List.product (grid_blocks 40) block_threads) (\<lambda>_. 0))"
  using partial_tiles_are_wrong [OF _ _ grid_order, of 40 "\<lambda>i. i" "\<lambda>_. 0" _ "\<lambda>_ _. 0" "\<lambda>_. 0"]
  by (simp add: TPB_def INDX_def Let_def host_ref_fits)

end
