(* ===== verification/Shim.thy ===== *)
theory Shim
  imports Backends Text
begin

text \<open>
  What the two probes \<open>experiments/lookups/2B/argshim.cpp\<close> and \<open>cupti_shim.cpp\<close> have in common: a table of
  the allocations a process made, and a scan of each kernel launch that finds the allocations its
  arguments point into. The counters, C \<open>long\<close>s and \<open>int\<close>s, are unbounded; the measured times are left out.
\<close>

section \<open>State\<close>

record TrackedAlloc =
  al_base :: u64
  al_size :: u64
  al_id :: int
  al_uses :: int
  al_last :: int

record Layout =
  ly_params :: "(u64 \<times> u64) list"
  ly_name :: string

record Shim =
  sh_allocs :: "(u64 \<times> TrackedAlloc) list"
  sh_next :: int
  sh_launches :: int
  sh_with_hits :: int
  sh_ptr_hits :: int
  sh_layouts :: "(u64 \<times> Layout) list"
  sh_logging :: bool
  sh_err :: "string list"

section \<open>The table\<close>

definition shim_lookup :: "'z Shim_scheme \<Rightarrow> u64 \<Rightarrow> (u64 \<times> TrackedAlloc) option" where
  "shim_lookup s p =
     (case om_floor (sh_allocs s) p of
        None \<Rightarrow> None
      | Some (b, a) \<Rightarrow> if p < al_base a + al_size a then Some (b, a) else None)"

definition add_alloc :: "u64 \<Rightarrow> u64 \<Rightarrow> 'z Shim_scheme \<Rightarrow> 'z Shim_scheme" where
  "add_alloc b sz s = s\<lparr>sh_allocs := om_put b \<lparr>al_base = b, al_size = sz, al_id = sh_next s, al_uses = 0, al_last = -1\<rparr> (sh_allocs s),
     sh_next := sh_next s + 1\<rparr>"

definition erase_alloc :: "u64 \<Rightarrow> 'z Shim_scheme \<Rightarrow> 'z Shim_scheme" where
  "erase_alloc b s = s\<lparr>sh_allocs := om_del b (sh_allocs s)\<rparr>"

section \<open>Parameter layouts\<close>

text \<open>
  Asking for parameter 0, 1, 2 and so on until the driver has no more. A driver that always has one more
  keeps the loop going for ever, which is \<open>None\<close>.
\<close>

partial_function (option) param_list :: "(nat \<Rightarrow> (u64 \<times> u64) option) \<Rightarrow> nat \<Rightarrow> (u64 \<times> u64) list option" where
  "param_list q i =
     (case q i of None \<Rightarrow> Some [] | Some p \<Rightarrow> Option.bind (param_list q (i + 1)) (\<lambda>ps. Some (p # ps)))"

text \<open>What the driver says of a launched function.\<close>

record Kernels =
  kn_symbol :: "u64 \<Rightarrow> u64 option"                \<comment> \<open>cudaGetFuncBySymbol\<close>
  kn_func_name :: "u64 \<Rightarrow> string option"          \<comment> \<open>cuFuncGetName, when it succeeds with a name\<close>
  kn_func_param :: "u64 \<Rightarrow> nat \<Rightarrow> (u64 \<times> u64) option"   \<comment> \<open>cuFuncGetParamInfo: offset and size\<close>
  kn_kernel_name :: "u64 \<Rightarrow> string option"
  kn_kernel_param :: "u64 \<Rightarrow> nat \<Rightarrow> (u64 \<times> u64) option"

definition cached_layout :: "u64 \<Rightarrow> Layout option \<Rightarrow> 'z Shim_scheme \<Rightarrow> (Layout \<times> 'z Shim_scheme) option" where
  "cached_layout key found s =
     (case map_of (sh_layouts s) key of
        Some l \<Rightarrow> Some (l, s)
      | None \<Rightarrow> map_option (\<lambda>l. (l, s\<lparr>sh_layouts := (key, l) # sh_layouts s\<rparr>)) found)"

section \<open>Scanning a launch\<close>

text \<open>The 8-byte words of an argument of \<open>sz\<close> bytes, little endian: \<open>for (o = 0; o + 8 <= sz; o += 8)\<close>.\<close>

definition words_of :: "byte list \<Rightarrow> u64 \<Rightarrow> u64 list" where
  "words_of arg sz = map (\<lambda>k. of_nat (le_val (take 8 (drop (8 * k) arg)))) [0..<unat sz div 8]"

definition touch_word :: "u64 \<Rightarrow> int set \<times> 'z Shim_scheme \<Rightarrow> int set \<times> 'z Shim_scheme" where
  "touch_word v = (\<lambda>(hit, s).
     case shim_lookup s v of
       None \<Rightarrow> (hit, s)
     | Some (b, a) \<Rightarrow> (insert (al_id a) hit,
         s\<lparr>sh_allocs := om_put b (a\<lparr>al_uses := al_uses a + 1, al_last := sh_launches s\<rparr>) (sh_allocs s),
           sh_ptr_hits := sh_ptr_hits s + 1\<rparr>))"

definition touch :: "byte list \<Rightarrow> u64 \<Rightarrow> int set \<times> 'z Shim_scheme \<Rightarrow> int set \<times> 'z Shim_scheme" where
  "touch arg sz = fold touch_word (words_of arg sz)"

text \<open>All parameters of a layout; \<open>args i\<close> is what the launch's \<open>i\<close>-th argument points to.\<close>

definition touch_params :: "(u64 \<times> u64) list \<Rightarrow> (nat \<Rightarrow> byte list) \<Rightarrow> int set \<times> 'z Shim_scheme \<Rightarrow> int set \<times> 'z Shim_scheme" where
  "touch_params ps args = fold (\<lambda>i. touch (args i) (snd (ps ! i))) [0..<length ps]"

text \<open>The end of a scan: \<open>g_launches_with_hits\<close>, the log line and \<open>g_launches\<close>.\<close>

definition hit_list :: "int set \<Rightarrow> string" where
  "hit_list hit = cat (map (\<lambda>i. '' '' @ dec_int i) (sorted_list_of_set hit))"

definition finish_scan :: "string \<Rightarrow> string \<Rightarrow> int set \<times> 'z Shim_scheme \<Rightarrow> 'z Shim_scheme" where
  "finish_scan head_text name_text = (\<lambda>(hit, s).
     (let s = (if hit \<noteq> {} then s\<lparr>sh_with_hits := sh_with_hits s + 1\<rparr> else s);
          s = (if sh_logging s
               then s\<lparr>sh_err := sh_err s @ [cat [head_text, '' launch '', dec_int (sh_launches s), '' '', name_text,
                 '' allocs={'', hit_list hit, '' }'']]\<rparr>
               else s)
      in s\<lparr>sh_launches := sh_launches s + 1\<rparr>))"

section \<open>Runs of hooks\<close>

text \<open>One step per event; a step that does not return ends the run.\<close>

fun run_steps :: "('e \<Rightarrow> 's \<Rightarrow> 's option) \<Rightarrow> 'e list \<Rightarrow> 's \<Rightarrow> 's option" where
  "run_steps step [] s = Some s"
| "run_steps step (e # es) s = Option.bind (step e s) (run_steps step es)"

lemma run_steps_append: "run_steps step (es @ es') s = Option.bind (run_steps step es s) (run_steps step es')"
  by (induction es arbitrary: s) (simp_all split: bind_split)

text \<open>An invariant that every step keeps, and steps that always return where it holds.\<close>

locale stepping =
  fixes step :: "'e \<Rightarrow> 's \<Rightarrow> 's option"
    and fine :: "'e \<Rightarrow> bool"
    and inv :: "'s \<Rightarrow> bool"
  assumes step_returns: "inv s \<Longrightarrow> fine e \<Longrightarrow> \<exists>s'. step e s = Some s'"
    and step_keeps: "inv s \<Longrightarrow> fine e \<Longrightarrow> step e s = Some s' \<Longrightarrow> inv s'"
begin

lemma run_keeps:
  assumes "inv s" and "list_all fine es"
  shows "\<exists>s'. run_steps step es s = Some s' \<and> inv s'"
  using assms
proof (induction es arbitrary: s)
  case (Cons e es)
  then obtain t where t: "step e s = Some t" using step_returns by fastforce
  then have "inv t" using step_keeps Cons.prems by auto
  then show ?case using Cons.IH [of t] Cons.prems t by simp
qed simp

end

section \<open>Lookup is containment\<close>

definition covers :: "u64 \<Rightarrow> TrackedAlloc \<Rightarrow> u64 \<Rightarrow> bool" where
  "covers b a v \<longleftrightarrow> b \<le> v \<and> unat v < unat b + unat (al_size a)"

text \<open>The entries lie apart, end inside the address space and are filed under their base.\<close>

definition table_ok :: "(u64 \<times> TrackedAlloc) list \<Rightarrow> bool" where
  "table_ok m \<longleftrightarrow> om_ok m \<and>
     (\<forall>b a. map_of m b = Some a \<longrightarrow> al_base a = b \<and> unat b + unat (al_size a) < 2 ^ 64) \<and>
     (\<forall>b a b' a'. map_of m b = Some a \<longrightarrow> map_of m b' = Some a' \<longrightarrow> b < b' \<longrightarrow> unat b + unat (al_size a) \<le> unat b')"

lemma table_okD:
  assumes "table_ok m"
  shows "om_ok m" and "map_of m b = Some a \<Longrightarrow> al_base a = b"
    and "map_of m b = Some a \<Longrightarrow> unat b + unat (al_size a) < 2 ^ 64"
    and "map_of m b = Some a \<Longrightarrow> map_of m b' = Some a' \<Longrightarrow> b < b' \<Longrightarrow> unat b + unat (al_size a) \<le> unat b'"
  using assms unfolding table_ok_def by blast+

lemma covers_unique:
  assumes "table_ok m" and "map_of m b = Some a" and "map_of m b' = Some a'" and "covers b a v" and "covers b' a' v"
  shows "b = b'"
proof -
  have v: "unat b \<le> unat v" "unat v < unat b + unat (al_size a)" "unat b' \<le> unat v" "unat v < unat b' + unat (al_size a')"
    using assms(4,5) by (simp_all add: covers_def word_le_nat_alt)
  have "\<not> b < b'" using table_okD(4) [OF assms(1,2,3)] v by linarith
  moreover have "\<not> b' < b" using table_okD(4) [OF assms(1,3,2)] v by linarith
  ultimately show ?thesis by simp
qed

lemma shim_lookup_iff:
  assumes "table_ok (sh_allocs s)"
  shows "shim_lookup s v = Some (b, a) \<longleftrightarrow> map_of (sh_allocs s) b = Some a \<and> covers b a v"
proof
  assume "shim_lookup s v = Some (b, a)"
  then have f: "om_floor (sh_allocs s) v = Some (b, a)" and lt: "v < al_base a + al_size a"
    by (auto simp: shim_lookup_def split: option.splits if_splits)
  note fl = floor_Some [OF table_okD(1) [OF assms] f]
  have "unat (b + al_size a) = unat b + unat (al_size a)"
    using table_okD(3) [OF assms fl(1)] by (rule u64_add_no_wrap)
  then show "map_of (sh_allocs s) b = Some a \<and> covers b a v"
    using fl(1,2) lt table_okD(2) [OF assms fl(1)] by (simp add: covers_def word_less_nat_alt)
next
  assume *: "map_of (sh_allocs s) b = Some a \<and> covers b a v"
  then have "b \<in> fst ` set (sh_allocs s)" "\<not> v < b"
    by (auto simp: covers_def dom_map_of_conv_image_fst [symmetric])
  then have "om_floor (sh_allocs s) v \<noteq> None"
    unfolding floor_None_iff [OF table_okD(1) [OF assms]] by blast
  then obtain b' a' where f: "om_floor (sh_allocs s) v = Some (b', a')" by auto
  note fl = floor_Some [OF table_okD(1) [OF assms] f]
  have "b \<le> b'" using fl(3) [of b] * by (auto simp: covers_def)
  moreover have "\<not> b < b'"
    using table_okD(4) [OF assms _ fl(1), of b a] * fl(2) by (auto simp: covers_def word_le_nat_alt)
  ultimately have "b' = b" by simp
  then have "a' = a" using fl(1) * by simp
  moreover have "unat (b + al_size a) = unat b + unat (al_size a)"
    using table_okD(3) [OF assms] * by (intro u64_add_no_wrap) simp
  ultimately show "shim_lookup s v = Some (b, a)"
    using f * table_okD(2) [OF assms] \<open>b' = b\<close> by (auto simp: shim_lookup_def covers_def word_less_nat_alt)
qed

section \<open>What a scan does\<close>

text \<open>What \<open>n\<close> pointers found in launch \<open>now\<close> do to an allocation.\<close>

definition marked :: "int \<Rightarrow> nat \<Rightarrow> TrackedAlloc \<Rightarrow> TrackedAlloc" where
  "marked now n a = (if n = 0 then a else a\<lparr>al_uses := al_uses a + int n, al_last := now\<rparr>)"

lemma marked_simps [simp]:
  "marked now 0 a = a" "al_base (marked now n a) = al_base a" "al_size (marked now n a) = al_size a" "al_id (marked now n a) = al_id a"
  "marked now m (marked now n a) = marked now (n + m) a"
  by (auto simp: marked_def)

lemma covers_marked [simp]: "covers b (marked now n a) v = covers b a v"
  by (simp add: covers_def)

text \<open>How many of the words \<open>vs\<close> lie in the allocation at \<open>b\<close>.\<close>

definition pointers :: "u64 \<Rightarrow> TrackedAlloc \<Rightarrow> u64 list \<Rightarrow> nat" where
  "pointers b a vs = length (filter (covers b a) vs)"

lemma pointers_simps [simp]:
  "pointers b a [] = 0" "pointers b a (v # vs) = (if covers b a v then 1 else 0) + pointers b a vs"
  by (simp_all add: pointers_def)

lemma pointers_append: "pointers b a (vs @ ws) = pointers b a vs + pointers b a ws"
  by (simp add: pointers_def)

lemma pointers_marked [simp]: "pointers b (marked now n a) vs = pointers b a vs"
  by (induction vs) simp_all

lemma table_okI:
  assumes "om_ok m"
    and "\<And>b a. map_of m b = Some a \<Longrightarrow> al_base a = b \<and> unat b + unat (al_size a) < 2 ^ 64"
    and "\<And>b a b' a'. map_of m b = Some a \<Longrightarrow> map_of m b' = Some a' \<Longrightarrow> b < b' \<Longrightarrow> unat b + unat (al_size a) \<le> unat b'"
  shows "table_ok m"
  using assms unfolding table_ok_def by blast

lemma table_ok_marked:
  assumes "table_ok m" and "map_of m b = Some a"
  shows "table_ok (om_put b (marked now n a) m)"
proof (rule table_okI)
  have *: "\<exists>a'. map_of m c = Some a' \<and> al_base e = al_base a' \<and> al_size e = al_size a'"
    if "map_of (om_put b (marked now n a) m) c = Some e" for c e
    using that assms(2) by (auto simp: om_simps split: if_splits)
  show "om_ok (om_put b (marked now n a) m)" using table_okD(1) [OF assms(1)] by (rule ok_put)
  fix c e assume c: "map_of (om_put b (marked now n a) m) c = Some e"
  obtain a' where a': "map_of m c = Some a'" "al_base e = al_base a'" "al_size e = al_size a'" using * [OF c] by blast
  show "al_base e = c \<and> unat c + unat (al_size e) < 2 ^ 64"
    unfolding a'(2,3) using table_okD(2,3) [OF assms(1) a'(1)] by (rule conjI)
  fix d x assume d: "map_of (om_put b (marked now n a) m) d = Some x" "c < d"
  obtain x' where "map_of m d = Some x'" using * [OF d(1)] by blast
  then show "unat c + unat (al_size e) \<le> unat d"
    unfolding a'(3) using table_okD(4) [OF assms(1) a'(1) _ d(2)] by blast
qed

text \<open>What a scan leaves alone.\<close>

definition same_but_hits :: "'z Shim_scheme \<Rightarrow> 'z Shim_scheme \<Rightarrow> bool" where
  "same_but_hits s s' \<longleftrightarrow> (\<exists>m n. s' = s\<lparr>sh_allocs := m, sh_ptr_hits := n\<rparr>)"

lemma touch_word_same: "same_but_hits s (snd (touch_word v (hit, s)))"
proof (cases "shim_lookup s v")
  case None
  then have "snd (touch_word v (hit, s)) = s\<lparr>sh_allocs := sh_allocs s, sh_ptr_hits := sh_ptr_hits s\<rparr>" by (simp add: touch_word_def)
  then show ?thesis unfolding same_but_hits_def by blast
next
  case (Some x)
  then show ?thesis unfolding same_but_hits_def by (cases x) (auto simp: touch_word_def)
qed

lemma same_but_hits_trans: "same_but_hits s s' \<Longrightarrow> same_but_hits s' s'' \<Longrightarrow> same_but_hits s s''"
  unfolding same_but_hits_def by clarsimp (rule exI, rule exI, rule refl)

lemma touch_words_same: "same_but_hits s (snd (fold touch_word vs (hit, s)))"
proof (induction vs arbitrary: hit s)
  case Nil
  have "s = s\<lparr>sh_allocs := sh_allocs s, sh_ptr_hits := sh_ptr_hits s\<rparr>" by simp
  then show ?case unfolding same_but_hits_def by (metis fold_simps(1) snd_conv)
next
  case (Cons v vs)
  obtain hit' s' where t: "touch_word v (hit, s) = (hit', s')" by fastforce
  then have "same_but_hits s s'" using touch_word_same [of s v hit] by simp
  then show ?case using Cons [of s' hit'] same_but_hits_trans t by simp blast
qed

lemma same_but_hits_fields:
  assumes "same_but_hits s s'"
  shows "sh_next s' = sh_next s" "sh_launches s' = sh_launches s" "sh_with_hits s' = sh_with_hits s"
    "sh_layouts s' = sh_layouts s" "sh_logging s' = sh_logging s" "sh_err s' = sh_err s"
  using assms by (auto simp: same_but_hits_def)

text \<open>
  What the words \<open>vs\<close> do: each allocation counts the words that lie in it, the total counts all that lie
  in one, and the launch has hit these allocations.
\<close>

definition tracked :: "'z Shim_scheme \<Rightarrow> u64 \<Rightarrow> bool" where
  "tracked s v \<longleftrightarrow> (\<exists>b a. map_of (sh_allocs s) b = Some a \<and> covers b a v)"

definition holders :: "'z Shim_scheme \<Rightarrow> u64 \<Rightarrow> int set" where
  "holders s v = {al_id a | b a. map_of (sh_allocs s) b = Some a \<and> covers b a v}"

definition scanned :: "u64 list \<Rightarrow> int set \<times> 'z Shim_scheme \<Rightarrow> int set \<times> 'z Shim_scheme \<Rightarrow> bool" where
  "scanned vs x y \<longleftrightarrow>
     table_ok (sh_allocs (snd y)) \<and>
     (\<forall>b. map_of (sh_allocs (snd y)) b =
        map_option (\<lambda>a. marked (sh_launches (snd x)) (pointers b a vs) a) (map_of (sh_allocs (snd x)) b)) \<and>
     sh_ptr_hits (snd y) = sh_ptr_hits (snd x) + int (length (filter (tracked (snd x)) vs)) \<and>
     fst y = fst x \<union> (\<Union>v \<in> set vs. holders (snd x) v) \<and>
     same_but_hits (snd x) (snd y)"

lemma same_but_hits_refl: "same_but_hits s s"
proof -
  have "s = s\<lparr>sh_allocs := sh_allocs s, sh_ptr_hits := sh_ptr_hits s\<rparr>" by simp
  then show ?thesis unfolding same_but_hits_def by blast
qed

lemma scanned_Nil: "table_ok (sh_allocs (snd x)) \<Longrightarrow> scanned [] x x"
  by (simp add: scanned_def same_but_hits_refl option.map_ident)

lemma scanned_same:
  assumes "scanned vs x y"
  shows "tracked (snd y) = tracked (snd x)" and "holders (snd y) = holders (snd x)"
    and "sh_launches (snd y) = sh_launches (snd x)"
proof -
  have m: "map_of (sh_allocs (snd y)) b =
      map_option (\<lambda>a. marked (sh_launches (snd x)) (pointers b a vs) a) (map_of (sh_allocs (snd x)) b)" for b
    using assms unfolding scanned_def by blast
  have iff: "(\<exists>a. map_of (sh_allocs (snd y)) b = Some a \<and> covers b a v \<and> P (al_id a)) \<longleftrightarrow>
      (\<exists>a. map_of (sh_allocs (snd x)) b = Some a \<and> covers b a v \<and> P (al_id a))" for b v P
    unfolding m by (cases "map_of (sh_allocs (snd x)) b") simp_all
  show "tracked (snd y) = tracked (snd x)"
    using iff [of _ _ "\<lambda>_. True"] by (simp add: tracked_def fun_eq_iff)
  show "holders (snd y) = holders (snd x)"
  proof
    fix v
    have h: "holders s v = {i. \<exists>b. \<exists>a. map_of (sh_allocs s) b = Some a \<and> covers b a v \<and> i = al_id a}" for s :: "'a Shim_scheme"
      unfolding holders_def by blast
    show "holders (snd y) v = holders (snd x) v" unfolding h iff ..
  qed
  show "sh_launches (snd y) = sh_launches (snd x)"
    using assms same_but_hits_fields(2) unfolding scanned_def by blast
qed

lemma scanned_trans:
  assumes "scanned vs x y" and "scanned ws y z"
  shows "scanned (vs @ ws) x z"
proof -
  note same = scanned_same [OF assms(1)]
  have "map_of (sh_allocs (snd z)) b =
      map_option (\<lambda>a. marked (sh_launches (snd x)) (pointers b a (vs @ ws)) a) (map_of (sh_allocs (snd x)) b)" for b
  proof -
    have z: "map_of (sh_allocs (snd z)) b = map_option (\<lambda>a. marked (sh_launches (snd x)) (pointers b a ws) a) (map_of (sh_allocs (snd y)) b)"
      using assms(2) unfolding scanned_def same by blast
    have y: "map_of (sh_allocs (snd y)) b = map_option (\<lambda>a. marked (sh_launches (snd x)) (pointers b a vs) a) (map_of (sh_allocs (snd x)) b)"
      using assms(1) unfolding scanned_def by blast
    show ?thesis unfolding z y by (cases "map_of (sh_allocs (snd x)) b") (simp_all add: pointers_append)
  qed
  moreover have "same_but_hits (snd x) (snd z)"
    by (rule same_but_hits_trans [of _ "snd y"]) (use assms in \<open>simp_all only: scanned_def\<close>)
  moreover have "sh_ptr_hits (snd z) = sh_ptr_hits (snd x) + int (length (filter (tracked (snd x)) (vs @ ws)))"
    using assms unfolding scanned_def same by simp
  moreover have "fst z = fst x \<union> (\<Union>v \<in> set (vs @ ws). holders (snd x) v)"
    using assms unfolding scanned_def same by auto
  moreover have "table_ok (sh_allocs (snd z))" using assms(2) unfolding scanned_def by blast
  ultimately show ?thesis unfolding scanned_def by blast
qed

lemma touch_word_scanned:
  assumes "table_ok (sh_allocs (snd x))"
  shows "scanned [v] x (touch_word v x)"
proof (cases "shim_lookup (snd x) v")
  case None
  then have "\<not> covers b a v" if "map_of (sh_allocs (snd x)) b = Some a" for b a
    using shim_lookup_iff [OF assms, of v b a] that by simp
  then have t: "\<not> tracked (snd x) v" "holders (snd x) v = {}" "pointers b a [v] = 0" if "map_of (sh_allocs (snd x)) b = Some a" for b a
    using that by (auto simp: tracked_def holders_def)
  have n: "\<not> tracked (snd x) v" "holders (snd x) v = {}"
    using \<open>\<And>b a. map_of (sh_allocs (snd x)) b = Some a \<Longrightarrow> \<not> covers b a v\<close> by (auto simp: tracked_def holders_def)
  have "touch_word v x = x" using None by (simp add: touch_word_def case_prod_beta)
  moreover have "map_option (\<lambda>a. marked l (pointers b a [v]) a) (map_of (sh_allocs (snd x)) b) = map_of (sh_allocs (snd x)) b" for l b
    using t(3) [of b] by (cases "map_of (sh_allocs (snd x)) b") simp_all
  ultimately show ?thesis using assms n by (simp add: scanned_def same_but_hits_refl)
next
  case (Some ce)
  obtain c e where ce: "ce = (c, e)" by (cases ce)
  have c: "map_of (sh_allocs (snd x)) c = Some e" "covers c e v"
    using shim_lookup_iff [OF assms, of v c e] Some ce by simp_all
  have only: "b = c" if "map_of (sh_allocs (snd x)) b = Some a" "covers b a v" for b a
    using covers_unique [OF assms that(1) c(1) that(2) c(2)] .
  have t: "touch_word v x = (insert (al_id e) (fst x), (snd x)\<lparr>
      sh_allocs := om_put c (marked (sh_launches (snd x)) 1 e) (sh_allocs (snd x)), sh_ptr_hits := sh_ptr_hits (snd x) + 1\<rparr>)"
    using Some ce by (simp add: touch_word_def case_prod_beta marked_def)
  have "holders (snd x) v = {al_id e}" using c only by (fastforce simp: holders_def)
  moreover have "tracked (snd x) v" using c unfolding tracked_def by blast
  moreover have "map_of (om_put c (marked (sh_launches (snd x)) 1 e) (sh_allocs (snd x))) b =
      map_option (\<lambda>a. marked (sh_launches (snd x)) (pointers b a [v]) a) (map_of (sh_allocs (snd x)) b)" for b
    using c only [of b] by (cases "map_of (sh_allocs (snd x)) b") (auto simp: om_simps)
  moreover have "same_but_hits (snd x) (snd (touch_word v x))" unfolding t same_but_hits_def by auto
  ultimately show ?thesis
    using table_ok_marked [OF assms c(1)] by (simp add: scanned_def t)
qed

lemma touch_words_scanned:
  assumes "table_ok (sh_allocs (snd x))"
  shows "scanned vs x (fold touch_word vs x)"
  using assms
proof (induction vs arbitrary: x)
  case (Cons v vs)
  have v: "scanned [v] x (touch_word v x)" using Cons.prems by (rule touch_word_scanned)
  then have "table_ok (sh_allocs (snd (touch_word v x)))" by (simp add: scanned_def)
  then show ?case using scanned_trans [OF v Cons.IH] by simp
qed (simp add: scanned_Nil)

text \<open>All the words of a launch's arguments.\<close>

definition launch_words :: "(u64 \<times> u64) list \<Rightarrow> (nat \<Rightarrow> byte list) \<Rightarrow> u64 list" where
  "launch_words ps args = concat (map (\<lambda>i. words_of (args i) (snd (ps ! i))) [0..<length ps])"

lemma touch_params_words: "touch_params ps args = fold touch_word (launch_words ps args)"
proof -
  have "fold (\<lambda>i. fold touch_word (w i)) is = fold touch_word (concat (map w is))" for w and "is" :: "nat list"
    by (induction "is") simp_all
  then show ?thesis unfolding touch_params_def touch_def launch_words_def .
qed

text \<open>The end of a scan touches no entry.\<close>

lemma finish_scan_fields:
  "sh_allocs (finish_scan h n x) = sh_allocs (snd x)" "sh_next (finish_scan h n x) = sh_next (snd x)"
  "sh_ptr_hits (finish_scan h n x) = sh_ptr_hits (snd x)" "sh_launches (finish_scan h n x) = sh_launches (snd x) + 1"
  "sh_with_hits (finish_scan h n x) = sh_with_hits (snd x) + (if fst x = {} then 0 else 1)"
  by (simp_all add: finish_scan_def case_prod_beta Let_def)

section \<open>The loop over parameters ends\<close>

lemma param_list_Some:
  assumes "q n = None" and "i \<le> n"
  shows "\<exists>ps. param_list q i = Some ps"
  using assms(2)
proof (induction i rule: inc_induct)
  case base
  then show ?case using assms(1) by (simp add: param_list.simps)
next
  case (step i)
  then show ?case by (subst param_list.simps) (auto split: option.split)
qed

text \<open>A driver in which every function has finitely many parameters.\<close>

definition finite_kernels :: "Kernels \<Rightarrow> bool" where
  "finite_kernels d \<longleftrightarrow> (\<forall>f. (\<exists>n. kn_func_param d f n = None) \<and> (\<exists>n. kn_kernel_param d f n = None))"

lemma finite_kernelsD:
  assumes "finite_kernels d"
  shows "\<exists>ps. param_list (kn_func_param d f) 0 = Some ps" and "\<exists>ps. param_list (kn_kernel_param d f) 0 = Some ps"
  using assms param_list_Some [OF _ le0] unfolding finite_kernels_def by blast+

lemma cached_layout_some:
  assumes "\<exists>l. found = Some l"
  shows "\<exists>l ls. cached_layout key found s = Some (l, s\<lparr>sh_layouts := ls\<rparr>)"
proof (cases "map_of (sh_layouts s) key")
  case None
  then show ?thesis using assms by (auto simp: cached_layout_def)
next
  case (Some l)
  then have "cached_layout key found s = Some (l, s\<lparr>sh_layouts := sh_layouts s\<rparr>)" by (simp add: cached_layout_def)
  then show ?thesis by blast
qed

section \<open>The counters agree\<close>

text \<open>
  What the summary may be trusted for: ids are never given twice, an entry has uses exactly when a launch
  used it, launches with a hit are launches and have a pointer of their own, and the uses of the held
  entries are among the pointers counted. \<open>k\<close> bounds the launches so far.
\<close>

definition entries_ok :: "int \<Rightarrow> 'z Shim_scheme \<Rightarrow> bool" where
  "entries_ok k s \<longleftrightarrow> om_ok (sh_allocs s) \<and>
     (\<forall>b a. map_of (sh_allocs s) b = Some a \<longrightarrow>
        al_id a < sh_next s \<and> 0 \<le> al_uses a \<and> al_last a < k \<and> -1 \<le> al_last a \<and> (al_uses a = 0 \<longleftrightarrow> al_last a = -1)) \<and>
     (\<forall>b a b' a'. map_of (sh_allocs s) b = Some a \<longrightarrow> map_of (sh_allocs s) b' = Some a' \<longrightarrow> al_id a = al_id a' \<longrightarrow> b = b') \<and>
     om_sum al_uses (sh_allocs s) \<le> sh_ptr_hits s"

definition tallied :: "'z Shim_scheme \<Rightarrow> bool" where
  "tallied s \<longleftrightarrow> entries_ok (sh_launches s) s \<and> 0 \<le> sh_with_hits s \<and> sh_with_hits s \<le> sh_launches s \<and>
     sh_with_hits s \<le> sh_ptr_hits s"

lemma entries_okI:
  assumes "om_ok (sh_allocs s)"
    and "\<And>b a. map_of (sh_allocs s) b = Some a \<Longrightarrow>
        al_id a < sh_next s \<and> 0 \<le> al_uses a \<and> al_last a < k \<and> -1 \<le> al_last a \<and> (al_uses a = 0 \<longleftrightarrow> al_last a = -1)"
    and "\<And>b a b' a'. map_of (sh_allocs s) b = Some a \<Longrightarrow> map_of (sh_allocs s) b' = Some a' \<Longrightarrow> al_id a = al_id a' \<Longrightarrow> b = b'"
    and "om_sum al_uses (sh_allocs s) \<le> sh_ptr_hits s"
  shows "entries_ok k s"
  using assms unfolding entries_ok_def by blast

lemma entries_okD:
  assumes "entries_ok k s"
  shows "om_ok (sh_allocs s)"
    and "map_of (sh_allocs s) b = Some a \<Longrightarrow>
        al_id a < sh_next s \<and> 0 \<le> al_uses a \<and> al_last a < k \<and> -1 \<le> al_last a \<and> (al_uses a = 0 \<longleftrightarrow> al_last a = -1)"
    and "map_of (sh_allocs s) b = Some a \<Longrightarrow> map_of (sh_allocs s) b' = Some a' \<Longrightarrow> al_id a = al_id a' \<Longrightarrow> b = b'"
    and "om_sum al_uses (sh_allocs s) \<le> sh_ptr_hits s"
  using assms unfolding entries_ok_def by blast+

text \<open>Adding, erasing and using an entry.\<close>

lemma entries_ok_add:
  assumes "entries_ok k s" and "0 \<le> k"
  shows "entries_ok k (add_alloc b n s)"
proof (rule entries_okI)
  show "om_ok (sh_allocs (add_alloc b n s))" using entries_okD(1) [OF assms(1)] by (simp add: add_alloc_def ok_put)
  note old = entries_okD(2) [OF assms(1)]
  show "al_id a < sh_next (add_alloc b n s) \<and> 0 \<le> al_uses a \<and> al_last a < k \<and> -1 \<le> al_last a \<and> (al_uses a = 0 \<longleftrightarrow> al_last a = -1)"
    if "map_of (sh_allocs (add_alloc b n s)) c = Some a" for c a
    using that old [of c a] assms(2) by (auto simp: add_alloc_def om_simps split: if_splits)
  show "c = c'" if "map_of (sh_allocs (add_alloc b n s)) c = Some a" "map_of (sh_allocs (add_alloc b n s)) c' = Some a'"
    "al_id a = al_id a'" for c a c' a'
  proof -
    have fresh: "al_id a = sh_next s \<or> map_of (sh_allocs s) c = Some a \<and> al_id a < sh_next s" "c = b \<longleftrightarrow> al_id a = sh_next s"
      if "map_of (sh_allocs (add_alloc b n s)) c = Some a" for c a
      using that old [of c a] by (auto simp: add_alloc_def om_simps split: if_splits)
    show ?thesis
      using fresh [OF that(1)] fresh [OF that(2)] that(3) entries_okD(3) [OF assms(1), of c a c' a'] by auto
  qed
  have "0 \<le> (case map_of (sh_allocs s) b of None \<Rightarrow> 0 | Some a \<Rightarrow> al_uses a)"
    using old [of b] by (auto split: option.split)
  then show "om_sum al_uses (sh_allocs (add_alloc b n s)) \<le> sh_ptr_hits (add_alloc b n s)"
    using entries_okD(4) [OF assms(1)] by (simp add: add_alloc_def om_sum_put [OF entries_okD(1) [OF assms(1)]])
qed

lemma entries_ok_erase:
  assumes "entries_ok k s"
  shows "entries_ok k (erase_alloc b s)"
proof (rule entries_okI)
  note om = entries_okD(1) [OF assms]
  note old = entries_okD(2) [OF assms]
  show "om_ok (sh_allocs (erase_alloc b s))" using om by (simp add: erase_alloc_def ok_del)
  show "al_id a < sh_next (erase_alloc b s) \<and> 0 \<le> al_uses a \<and> al_last a < k \<and> -1 \<le> al_last a \<and> (al_uses a = 0 \<longleftrightarrow> al_last a = -1)"
    if "map_of (sh_allocs (erase_alloc b s)) c = Some a" for c a
    using that old [of c a] by (auto simp: erase_alloc_def get_del [OF om] split: if_splits)
  show "c = c'" if "map_of (sh_allocs (erase_alloc b s)) c = Some a" "map_of (sh_allocs (erase_alloc b s)) c' = Some a'"
    "al_id a = al_id a'" for c a c' a'
    using that entries_okD(3) [OF assms, of c a c' a'] by (auto simp: erase_alloc_def get_del [OF om] split: if_splits)
  have "0 \<le> (case map_of (sh_allocs s) b of None \<Rightarrow> 0 | Some a \<Rightarrow> al_uses a)"
    using old [of b] by (auto split: option.split)
  then show "om_sum al_uses (sh_allocs (erase_alloc b s)) \<le> sh_ptr_hits (erase_alloc b s)"
    using entries_okD(4) [OF assms] by (simp add: erase_alloc_def om_sum_del [OF om])
qed

lemma entries_ok_touch:
  assumes "entries_ok k (snd x)" and "sh_launches (snd x) < k" and "0 \<le> sh_launches (snd x)"
  shows "entries_ok k (snd (touch_word v x))"
proof (cases "shim_lookup (snd x) v")
  case None
  then show ?thesis using assms(1) by (simp add: touch_word_def case_prod_beta)
next
  case (Some ce)
  obtain c e where ce: "ce = (c, e)" by (cases ce)
  note om = entries_okD(1) [OF assms(1)]
  note old = entries_okD(2) [OF assms(1)]
  have c: "map_of (sh_allocs (snd x)) c = Some e"
    using Some floor_Some(1) [OF om] ce by (auto simp: shim_lookup_def split: option.splits if_splits)
  define s' where "s' = snd (touch_word v x)"
  have m: "sh_allocs s' = om_put c (e\<lparr>al_uses := al_uses e + 1, al_last := sh_launches (snd x)\<rparr>) (sh_allocs (snd x))"
    and n: "sh_next s' = sh_next (snd x)" "sh_ptr_hits s' = sh_ptr_hits (snd x) + 1"
    using Some ce by (simp_all add: s'_def touch_word_def case_prod_beta)
  have "entries_ok k s'"
  proof (rule entries_okI)
    show "om_ok (sh_allocs s')" using om by (simp add: m ok_put)
    show "al_id a < sh_next s' \<and> 0 \<le> al_uses a \<and> al_last a < k \<and> -1 \<le> al_last a \<and> (al_uses a = 0 \<longleftrightarrow> al_last a = -1)"
      if "map_of (sh_allocs s') b = Some a" for b a
      using that old [of b a] old [OF c] assms(2,3) by (auto simp: m n om_simps split: if_splits)
    have before: "\<exists>a0. map_of (sh_allocs (snd x)) b = Some a0 \<and> al_id a0 = al_id a" if "map_of (sh_allocs s') b = Some a" for b a
      using that c by (auto simp: m om_simps split: if_splits)
    show "b = b'" if "map_of (sh_allocs s') b = Some a" "map_of (sh_allocs s') b' = Some a'" "al_id a = al_id a'" for b a b' a'
      using before [OF that(1)] before [OF that(2)] that(3) entries_okD(3) [OF assms(1)] by metis
    show "om_sum al_uses (sh_allocs s') \<le> sh_ptr_hits s'"
      using entries_okD(4) [OF assms(1)] c by (simp add: m n om_sum_put [OF om])
  qed
  then show ?thesis by (simp add: s'_def)
qed

lemma touch_hits:
  "fst (touch_word v x) = fst x \<and> sh_ptr_hits (snd (touch_word v x)) = sh_ptr_hits (snd x) \<or>
   fst (touch_word v x) \<noteq> {} \<and> sh_ptr_hits (snd (touch_word v x)) = sh_ptr_hits (snd x) + 1"
  by (auto simp: touch_word_def case_prod_beta split: option.split)

definition scanning :: "int set \<times> 'z Shim_scheme \<Rightarrow> bool" where
  "scanning x \<longleftrightarrow> entries_ok (sh_launches (snd x) + 1) (snd x) \<and> 0 \<le> sh_with_hits (snd x) \<and>
     sh_with_hits (snd x) \<le> sh_launches (snd x) \<and>
     sh_with_hits (snd x) + (if fst x = {} then 0 else 1) \<le> sh_ptr_hits (snd x)"

lemma scanning_touch:
  assumes "scanning x"
  shows "scanning (touch_word v x)"
proof -
  have f: "sh_launches (snd (touch_word v x)) = sh_launches (snd x)" "sh_with_hits (snd (touch_word v x)) = sh_with_hits (snd x)"
    using same_but_hits_fields(2,3) [OF touch_word_same [of "snd x" v "fst x"]] by simp_all
  have "entries_ok (sh_launches (snd x) + 1) (snd (touch_word v x))"
    using assms by (intro entries_ok_touch) (auto simp: scanning_def)
  then show ?thesis using assms touch_hits [of v x] unfolding scanning_def f by (auto split: if_splits)
qed

lemma scanning_words: "scanning x \<Longrightarrow> scanning (fold touch_word vs x)"
  by (induction vs arbitrary: x) (simp_all add: scanning_touch)

lemma entries_ok_mono: "entries_ok k s \<Longrightarrow> k \<le> k' \<Longrightarrow> entries_ok k' s"
  unfolding entries_ok_def by (meson less_le_trans)

lemma entries_ok_cong:
  assumes "entries_ok k s" and "sh_allocs s' = sh_allocs s" and "sh_next s' = sh_next s" and "sh_ptr_hits s' = sh_ptr_hits s"
  shows "entries_ok k s'"
  using assms unfolding entries_ok_def by simp

lemma scanning_start:
  assumes "tallied s" and "sh_allocs s' = sh_allocs s" and "sh_next s' = sh_next s" and "sh_ptr_hits s' = sh_ptr_hits s"
    and "sh_launches s' = sh_launches s" and "sh_with_hits s' = sh_with_hits s"
  shows "scanning ({}, s')"
proof -
  have "entries_ok (sh_launches s) s'" using entries_ok_cong [of "sh_launches s" s s'] assms unfolding tallied_def by blast
  then have "entries_ok (sh_launches s' + 1) s'" using entries_ok_mono assms(5) by (metis zless_add1_eq less_imp_le)
  then show ?thesis using assms unfolding tallied_def scanning_def by simp
qed

lemma scanning_finish:
  assumes "scanning x"
  shows "tallied (finish_scan h n x)"
proof -
  have "entries_ok (sh_launches (snd x) + 1) (finish_scan h n x)"
    by (rule entries_ok_cong [of _ "snd x"]) (use assms in \<open>simp_all add: scanning_def finish_scan_fields\<close>)
  then show ?thesis using assms unfolding tallied_def scanning_def finish_scan_fields by auto
qed

lemma tallied_add: "tallied s \<Longrightarrow> tallied (add_alloc b n s)"
  using entries_ok_add [of "sh_launches s" s] unfolding tallied_def by (simp add: add_alloc_def)

lemma tallied_erase: "tallied s \<Longrightarrow> tallied (erase_alloc b s)"
  using entries_ok_erase [of "sh_launches s" s] unfolding tallied_def by (simp add: erase_alloc_def)

section \<open>The table and the driver\<close>

text \<open>
  The allocations a process holds, by base and size; where a new one may lie; and the table that names
  exactly these.
\<close>

type_synonym held = "u64 \<rightharpoonup> u64"

definition may_get :: "held \<Rightarrow> u64 \<Rightarrow> u64 \<Rightarrow> bool" where
  "may_get l b n \<longleftrightarrow> unat b + unat n < 2 ^ 64 \<and>
     (\<forall>c m. l c = Some m \<longrightarrow> (c < b \<longrightarrow> unat c + unat m \<le> unat b) \<and> (b < c \<longrightarrow> unat b + unat n \<le> unat c))"

definition names_live :: "'z Shim_scheme \<Rightarrow> held \<Rightarrow> bool" where
  "names_live s l \<longleftrightarrow> table_ok (sh_allocs s) \<and> (\<forall>b. map_option al_size (map_of (sh_allocs s) b) = l b)"

lemma names_live_add:
  assumes "names_live s l" and "may_get l b n"
  shows "names_live (add_alloc b n s) (l(b \<mapsto> n))"
proof -
  have t: "table_ok (sh_allocs s)" and l: "\<And>b. map_option al_size (map_of (sh_allocs s) b) = l b"
    using assms(1) unfolding names_live_def by blast+
  have m: "map_of (sh_allocs (add_alloc b n s)) = (map_of (sh_allocs s))(b \<mapsto>
      \<lparr>al_base = b, al_size = n, al_id = sh_next s, al_uses = 0, al_last = -1\<rparr>)"
    by (simp add: add_alloc_def om_simps)
  have sz: "(l(b \<mapsto> n)) c = Some (al_size a)" if "map_of (sh_allocs (add_alloc b n s)) c = Some a" for c a
    using that l [of c] by (auto simp: m split: if_splits)
  have ok: "al_base a = c" if "map_of (sh_allocs (add_alloc b n s)) c = Some a" for c a
    using that table_okD(2) [OF t, of c a] by (auto simp: m split: if_splits)
  have bound: "unat c + unat k < 2 ^ 64" if "(l(b \<mapsto> n)) c = Some k" for c k
    using that assms(2) table_okD(3) [OF t, of c] l [of c] by (auto simp: may_get_def split: if_splits)
  have apart: "unat c + unat k \<le> unat d" if "(l(b \<mapsto> n)) c = Some k" "(l(b \<mapsto> n)) d = Some k'" "c < d" for c k d k'
    using that assms(2) table_okD(4) [OF t, of c _ d] l [of c] l [of d] by (auto simp: may_get_def split: if_splits)
  have "table_ok (sh_allocs (add_alloc b n s))"
  proof (rule table_okI)
    show "om_ok (sh_allocs (add_alloc b n s))" using table_okD(1) [OF t] by (simp add: add_alloc_def ok_put)
    show "al_base a = c \<and> unat c + unat (al_size a) < 2 ^ 64" if "map_of (sh_allocs (add_alloc b n s)) c = Some a" for c a
      using ok [OF that] bound [OF sz [OF that]] by (rule conjI)
    show "unat c + unat (al_size a) \<le> unat d" if "map_of (sh_allocs (add_alloc b n s)) c = Some a"
      "map_of (sh_allocs (add_alloc b n s)) d = Some e" "c < d" for c a d e
      using apart [OF sz [OF that(1)] sz [OF that(2)] that(3)] .
  qed
  moreover have "map_option al_size (map_of (sh_allocs (add_alloc b n s)) c) = (l(b \<mapsto> n)) c" for c
    using l [of c] by (simp add: m)
  ultimately show ?thesis unfolding names_live_def by blast
qed

lemma names_live_erase:
  assumes "names_live s l"
  shows "names_live (erase_alloc b s) (l(b := None))"
proof -
  have t: "table_ok (sh_allocs s)" and l: "\<And>b. map_option al_size (map_of (sh_allocs s) b) = l b"
    using assms unfolding names_live_def by blast+
  have m: "map_of (sh_allocs (erase_alloc b s)) = (map_of (sh_allocs s))(b := None)"
    using table_okD(1) [OF t] by (simp add: erase_alloc_def get_del)
  have "table_ok (sh_allocs (erase_alloc b s))"
  proof (rule table_okI)
    show "om_ok (sh_allocs (erase_alloc b s))" using table_okD(1) [OF t] by (simp add: erase_alloc_def ok_del)
    have keep: "map_of (sh_allocs s) c = Some a" if "map_of (sh_allocs (erase_alloc b s)) c = Some a" for c a
      using that by (simp add: m split: if_splits)
    show "al_base a = c \<and> unat c + unat (al_size a) < 2 ^ 64" if "map_of (sh_allocs (erase_alloc b s)) c = Some a" for c a
      using table_okD(2,3) [OF t keep [OF that]] by (rule conjI)
    show "unat c + unat (al_size a) \<le> unat d" if "map_of (sh_allocs (erase_alloc b s)) c = Some a"
      "map_of (sh_allocs (erase_alloc b s)) d = Some e" "c < d" for c a d e
      using table_okD(4) [OF t keep [OF that(1)] keep [OF that(2)] that(3)] .
  qed
  moreover have "map_option al_size (map_of (sh_allocs (erase_alloc b s)) c) = (l(b := None)) c" for c
    using l [of c] by (simp add: m)
  ultimately show ?thesis unfolding names_live_def by blast
qed

text \<open>
  What a launch with the argument words \<open>vs\<close> must do to the table: each held allocation counts the words
  that point into it, and remembers the launch if there are any.
\<close>

definition counted :: "u64 list \<Rightarrow> 'z Shim_scheme \<Rightarrow> 'z Shim_scheme \<Rightarrow> bool" where
  "counted vs s s' \<longleftrightarrow>
     (\<forall>b. map_of (sh_allocs s') b = map_option (\<lambda>a. marked (sh_launches s) (pointers b a vs) a) (map_of (sh_allocs s) b)) \<and>
     sh_ptr_hits s' = sh_ptr_hits s + int (length (filter (tracked s) vs)) \<and>
     sh_with_hits s' = sh_with_hits s + (if list_ex (tracked s) vs then 1 else 0) \<and>
     sh_launches s' = sh_launches s + 1 \<and> sh_next s' = sh_next s"

lemma scan_counts:
  assumes "names_live s l" and "sh_allocs s0 = sh_allocs s" and "sh_next s0 = sh_next s" and "sh_ptr_hits s0 = sh_ptr_hits s"
    and "sh_launches s0 = sh_launches s" and "sh_with_hits s0 = sh_with_hits s"
  shows "counted vs s (finish_scan h n (fold touch_word vs ({}, s0)))"
    and "names_live (finish_scan h n (fold touch_word vs ({}, s0))) l"
proof -
  let ?y = "fold touch_word vs ({}, s0)"
  have t: "table_ok (sh_allocs (snd ({}, s0)))" using assms(1,2) by (simp add: names_live_def)
  have sc: "scanned vs ({}, s0) ?y" using t by (rule touch_words_scanned)
  have tr: "tracked s0 = tracked s" by (simp add: tracked_def fun_eq_iff assms(2))
  have m: "map_of (sh_allocs (snd ?y)) b =
      map_option (\<lambda>a. marked (sh_launches s) (pointers b a vs) a) (map_of (sh_allocs s) b)" for b
    using sc assms(2,5) by (simp add: scanned_def)
  have hit: "fst ?y = {} \<longleftrightarrow> \<not> list_ex (tracked s) vs"
  proof -
    have "fst ?y = (\<Union>v \<in> set vs. holders s0 v)" using sc by (simp add: scanned_def)
    moreover have "holders s0 v = {} \<longleftrightarrow> \<not> tracked s v" for v
      unfolding tr [symmetric] by (auto simp: holders_def tracked_def)
    ultimately show ?thesis by (simp add: list_ex_iff)
  qed
  show "counted vs s (finish_scan h n ?y)"
    using sc same_but_hits_fields(1-3) [of s0 "snd ?y"] hit
    unfolding counted_def finish_scan_fields m by (simp add: scanned_def tr assms)
  have "table_ok (sh_allocs (snd ?y))" using sc by (simp add: scanned_def)
  moreover have "map_option al_size (map_of (sh_allocs (snd ?y)) b) = l b" for b
    using assms(1) unfolding m names_live_def by (simp add: option.map_comp comp_def)
  ultimately show "names_live (finish_scan h n ?y) l" unfolding names_live_def finish_scan_fields by blast
qed

end
