(* ===== verification/Argshim.thy ===== *)
theory Argshim
  imports Shim
begin

text \<open>
  The runtime probe (\<open>experiments/lookups/2B/argshim.cpp\<close>): hooks for \<open>cudaMalloc\<close>, \<open>cudaFree\<close> and the
  launch functions, which call the real function and keep the table. What the real function returns is
  an argument.
\<close>

record Argshim = Shim +
  ar_cu_launches :: int

definition new_argshim :: "bool \<Rightarrow> Argshim" where
  "new_argshim logging = \<lparr>sh_allocs = [], sh_next = 0, sh_launches = 0, sh_with_hits = 0, sh_ptr_hits = 0, sh_layouts = [],
     sh_logging = logging, sh_err = [], ar_cu_launches = 0\<rparr>"

definition layout_for_kernel :: "Kernels \<Rightarrow> u64 \<Rightarrow> Argshim \<Rightarrow> (Layout \<times> Argshim) option" where
  "layout_for_kernel d k =
     cached_layout k (map_option (\<lambda>ps. \<lparr>ly_params = ps, ly_name = (case kn_kernel_name d k of None \<Rightarrow> '''' | Some n \<Rightarrow> n)\<rparr>)
       (param_list (kn_kernel_param d k) 0))"

definition layout_for :: "Kernels \<Rightarrow> u64 \<Rightarrow> Argshim \<Rightarrow> (Layout \<times> Argshim) option" where
  "layout_for d func =
     cached_layout func
       (case kn_symbol d func of
          None \<Rightarrow> Some \<lparr>ly_params = [], ly_name = ''''\<rparr>
        | Some f \<Rightarrow> map_option (\<lambda>ps. \<lparr>ly_params = ps, ly_name = (case kn_func_name d f of None \<Rightarrow> '''' | Some n \<Rightarrow> n)\<rparr>)
            (param_list (kn_func_param d f) 0))"

definition argshim_scan :: "Kernels \<Rightarrow> u64 \<Rightarrow> bool \<Rightarrow> (nat \<Rightarrow> byte list) \<Rightarrow> Argshim \<Rightarrow> Argshim option" where
  "argshim_scan d key is_kernel args s =
     map_option (\<lambda>(l, s). finish_scan ''[argshim]''
         (cat [ly_name l, '' params='', dec (length (ly_params l))])
         (touch_params (ly_params l) args ({}, s)))
       (if is_kernel then layout_for_kernel d key s else layout_for d key s)"

text \<open>The hooks.\<close>

definition hook_malloc :: "cudaError \<Rightarrow> u64 \<Rightarrow> u64 \<Rightarrow> Argshim \<Rightarrow> Argshim" where
  "hook_malloc e p sz s = (if e = cudaSuccess then add_alloc p sz s else s)"

definition hook_free :: "u64 \<Rightarrow> Argshim \<Rightarrow> Argshim" where
  "hook_free p = erase_alloc p"

datatype LaunchHook = LaunchKernel | UnderLaunchKernel | UnderLaunchKernel_ptsz

definition hook_launch :: "Kernels \<Rightarrow> LaunchHook \<Rightarrow> u64 \<Rightarrow> (nat \<Rightarrow> byte list) \<Rightarrow> Argshim \<Rightarrow> Argshim option" where
  "hook_launch d h func args = argshim_scan d func (h \<noteq> LaunchKernel) args"

definition hook_cu_launch :: "Argshim \<Rightarrow> Argshim" where
  "hook_cu_launch s = s\<lparr>ar_cu_launches := ar_cu_launches s + 1\<rparr>"

text \<open>The summary at exit; the average cost is measured.\<close>

definition argshim_report :: "string \<Rightarrow> Argshim \<Rightarrow> string list" where
  "argshim_report cost s =
     cat [''[argshim] runtime launches='', dec_int (sh_launches s), '' with>=1 alloc hit='', dec_int (sh_with_hits s),
       '' ptr hits='', dec_int (sh_ptr_hits s), ''; avg hook cost='', cost, '' ns/launch; driver cuLaunchKernel calls seen='',
       dec_int (ar_cu_launches s)]
     # map (\<lambda>(b, a). cat [''[argshim]   alloc#'', dec_int (al_id a), '' size='', dec64 (drop_bit 20 (al_size a)), '' MiB uses='',
         dec_int (al_uses a), '' last_launch='', dec_int (al_last a)]) (sh_allocs s)"

section \<open>Runs\<close>

text \<open>
  The calls the probe sees. What \<open>cudaFree\<close> returned is recorded for the properties only: the hook
  forgets the allocation before it calls the real function.
\<close>

datatype ArgHook =
    HMalloc cudaError u64 u64
  | HFree cudaError u64
  | HLaunch Kernels LaunchHook u64 "nat \<Rightarrow> byte list"
  | HCuLaunch

fun argshim_step :: "ArgHook \<Rightarrow> Argshim \<Rightarrow> Argshim option" where
  "argshim_step (HMalloc e p sz) s = Some (hook_malloc e p sz s)"
| "argshim_step (HFree e p) s = Some (hook_free p s)"
| "argshim_step (HLaunch d h f args) s = hook_launch d h f args s"
| "argshim_step HCuLaunch s = Some (hook_cu_launch s)"

definition launch_layout :: "Kernels \<Rightarrow> LaunchHook \<Rightarrow> u64 \<Rightarrow> Argshim \<Rightarrow> (Layout \<times> Argshim) option" where
  "launch_layout d h f s = (if h \<noteq> LaunchKernel then layout_for_kernel d f s else layout_for d f s)"

lemma launch_scan:
  assumes "finite_kernels d"
  shows "\<exists>l ls h' n. launch_layout d h f s = Some (l, s\<lparr>sh_layouts := ls\<rparr>) \<and>
    hook_launch d h f args s = Some (finish_scan h' n (fold touch_word (launch_words (ly_params l) args) ({}, s\<lparr>sh_layouts := ls\<rparr>)))"
proof -
  have "\<exists>l ls. launch_layout d h f s = Some (l, s\<lparr>sh_layouts := ls\<rparr>)"
  proof (cases "h = LaunchKernel")
    case True
    have "\<exists>l. (case kn_symbol d f of
          None \<Rightarrow> Some \<lparr>ly_params = [], ly_name = ''''\<rparr>
        | Some f \<Rightarrow> map_option (\<lambda>ps. \<lparr>ly_params = ps, ly_name = (case kn_func_name d f of None \<Rightarrow> '''' | Some n \<Rightarrow> n)\<rparr>)
            (param_list (kn_func_param d f) 0)) = Some l"
      using finite_kernelsD(1) [OF assms] by (auto split: option.split)
    then show ?thesis using True by (simp add: launch_layout_def layout_for_def cached_layout_some)
  next
    case False
    have "\<exists>l. map_option (\<lambda>ps. \<lparr>ly_params = ps, ly_name = (case kn_kernel_name d f of None \<Rightarrow> '''' | Some n \<Rightarrow> n)\<rparr>)
       (param_list (kn_kernel_param d f) 0) = Some l"
      using finite_kernelsD(2) [OF assms, of f] by auto
    then show ?thesis using False by (simp add: launch_layout_def layout_for_kernel_def cached_layout_some)
  qed
  then obtain l ls where l: "launch_layout d h f s = Some (l, s\<lparr>sh_layouts := ls\<rparr>)" by blast
  then have "hook_launch d h f args s = Some (finish_scan ''[argshim]'' (cat [ly_name l, '' params='', dec (length (ly_params l))])
      (fold touch_word (launch_words (ly_params l) args) ({}, s\<lparr>sh_layouts := ls\<rparr>)))"
    by (simp add: hook_launch_def argshim_scan_def launch_layout_def touch_params_words split: if_splits)
  then show ?thesis using l by blast
qed

text \<open>Whatever the runtime does, the counters agree.\<close>

definition arg_fine :: "ArgHook \<Rightarrow> bool" where
  "arg_fine e \<longleftrightarrow> (case e of HLaunch d h f args \<Rightarrow> finite_kernels d | _ \<Rightarrow> True)"

lemma argshim_tallied:
  assumes "tallied s" and "arg_fine e"
  shows "\<exists>s'. argshim_step e s = Some s' \<and> tallied s'"
proof (cases e)
  case (HMalloc x p sz)
  then show ?thesis using assms(1) tallied_add [OF assms(1)] by (simp add: hook_malloc_def)
next
  case (HFree x p)
  then show ?thesis using assms(1) tallied_erase by (simp add: hook_free_def)
next
  case (HLaunch d h f args)
  then have "finite_kernels d" using assms(2) by (simp add: arg_fine_def)
  note ls = launch_scan [OF this, of h f s args]
  from ls obtain l ls h' n where "launch_layout d h f s = Some (l, s\<lparr>sh_layouts := ls\<rparr>)" and l: "hook_launch d h f args s =
      Some (finish_scan h' n (fold touch_word (launch_words (ly_params l) args) ({}, s\<lparr>sh_layouts := ls\<rparr>)))"
    by blast
  have "scanning ({}, s\<lparr>sh_layouts := ls\<rparr>)" using assms(1) by (rule scanning_start) simp_all
  then show ?thesis unfolding HLaunch argshim_step.simps l using scanning_finish scanning_words by blast
next
  case HCuLaunch
  have "entries_ok (sh_launches s) (hook_cu_launch s)"
    by (rule entries_ok_cong [of _ s]) (use assms(1) in \<open>simp_all add: tallied_def hook_cu_launch_def\<close>)
  then show ?thesis using assms(1) HCuLaunch by (simp add: tallied_def hook_cu_launch_def)
qed

interpretation arg: stepping argshim_step arg_fine tallied
  by unfold_locales (use argshim_tallied in force)+

lemma new_argshim_tallied: "tallied (new_argshim logging)"
  by (simp add: tallied_def entries_ok_def new_argshim_def)

text \<open>The allocations the process holds, as the runtime's answers tell them.\<close>

fun arg_live_step :: "ArgHook \<Rightarrow> held \<Rightarrow> held" where
  "arg_live_step (HMalloc e p sz) l = (if e = cudaSuccess then l(p \<mapsto> sz) else l)"
| "arg_live_step (HFree e p) l = (if e = cudaSuccess then l(p := None) else l)"
| "arg_live_step _ l = l"

definition arg_live :: "ArgHook list \<Rightarrow> held" where
  "arg_live hs = fold arg_live_step hs Map.empty"

text \<open>
  What the runtime documents: a new allocation lies apart from those held, freeing one that is held
  succeeds, and kernels have finitely many parameters.
\<close>

fun arg_documented :: "ArgHook list \<Rightarrow> held \<Rightarrow> bool" where
  "arg_documented [] l = True"
| "arg_documented (e # hs) l =
     ((case e of
         HMalloc x p sz \<Rightarrow> x = cudaSuccess \<longrightarrow> may_get l p sz
       | HFree x p \<Rightarrow> l p \<noteq> None \<longrightarrow> x = cudaSuccess
       | HLaunch d h f args \<Rightarrow> finite_kernels d
       | HCuLaunch \<Rightarrow> True) \<and> arg_documented hs (arg_live_step e l))"

lemma argshim_live_step:
  assumes "names_live s l" and "arg_documented (e # hs) l"
  shows "\<exists>s'. argshim_step e s = Some s' \<and> names_live s' (arg_live_step e l)"
proof (cases e)
  case (HMalloc x p sz)
  then show ?thesis using assms names_live_add by (auto simp: hook_malloc_def)
next
  case (HFree x p)
  have "names_live (hook_free p s) (l(p := None))" unfolding hook_free_def using assms(1) by (rule names_live_erase)
  moreover have "l(p := None) = l" if "x \<noteq> cudaSuccess" using that assms(2) HFree by auto
  ultimately show ?thesis using HFree by auto
next
  case (HLaunch d h f args)
  then have "finite_kernels d" using assms(2) by simp
  note ls = launch_scan [OF this, of h f s args]
  from ls obtain ly ls h' n where "launch_layout d h f s = Some (ly, s\<lparr>sh_layouts := ls\<rparr>)" and l: "hook_launch d h f args s =
      Some (finish_scan h' n (fold touch_word (launch_words (ly_params ly) args) ({}, s\<lparr>sh_layouts := ls\<rparr>)))"
    by blast
  have "names_live (finish_scan h' n (fold touch_word (launch_words (ly_params ly) args) ({}, s\<lparr>sh_layouts := ls\<rparr>))) l"
    using assms(1) by (rule scan_counts(2)) simp_all
  then show ?thesis unfolding HLaunch argshim_step.simps l by simp
next
  case HCuLaunch
  then show ?thesis using assms(1) by (simp add: names_live_def hook_cu_launch_def)
qed

lemma argshim_live:
  assumes "names_live s l" and "arg_documented hs l"
  shows "\<exists>s'. run_steps argshim_step hs s = Some s' \<and> names_live s' (fold arg_live_step hs l)"
  using assms
proof (induction hs arbitrary: s l)
  case (Cons e hs)
  obtain t where t: "argshim_step e s = Some t" "names_live t (arg_live_step e l)"
    using argshim_live_step [OF Cons.prems] by blast
  have "arg_documented hs (arg_live_step e l)" using Cons.prems(2) by simp
  then show ?case using Cons.IH [OF t(2)] t(1) by simp
qed simp

section \<open>What the probe reports\<close>

text \<open>
  C38. The runtime probe counts the working set: after any calls of a process on a runtime that keeps its
  documentation its table names exactly the allocations the process holds, and the next launch, whatever
  function and arguments, counts for each of them the 8-byte words of the arguments that point into it,
  and for the launch whether there was any.
\<close>

theorem argshim_counts_working_set:
  assumes "arg_documented hs Map.empty" and "finite_kernels d"
  shows "\<exists>s l s0 s'. run_steps argshim_step hs (new_argshim logging) = Some s \<and>
    (\<forall>b. map_option al_size (map_of (sh_allocs s) b) = arg_live hs b) \<and>
    launch_layout d h f s = Some (l, s0) \<and> hook_launch d h f args s = Some s' \<and>
    counted (launch_words (ly_params l) args) s s'"
proof -
  have "names_live (new_argshim logging) Map.empty" by (simp add: names_live_def table_ok_def new_argshim_def)
  then obtain s where s: "run_steps argshim_step hs (new_argshim logging) = Some s" "names_live s (arg_live hs)"
    using argshim_live assms(1) unfolding arg_live_def by blast
  obtain l ls h' n where l: "launch_layout d h f s = Some (l, s\<lparr>sh_layouts := ls\<rparr>)" "hook_launch d h f args s =
      Some (finish_scan h' n (fold touch_word (launch_words (ly_params l) args) ({}, s\<lparr>sh_layouts := ls\<rparr>)))"
    using launch_scan [OF assms(2), of h f s args] by blast
  have "counted (launch_words (ly_params l) args) s
      (finish_scan h' n (fold touch_word (launch_words (ly_params l) args) ({}, s\<lparr>sh_layouts := ls\<rparr>)))"
    using s(2) by (rule scan_counts(1)) simp_all
  then show ?thesis using s l unfolding names_live_def by blast
qed

text \<open>A runtime whose functions have one pointer parameter.\<close>

definition demo_kernels :: Kernels where
  "demo_kernels = \<lparr>kn_symbol = (\<lambda>f. Some f), kn_func_name = (\<lambda>_. Some ''k''), kn_func_param = (\<lambda>_ i. if i = 0 then Some (0, 8) else None),
     kn_kernel_name = (\<lambda>_. None), kn_kernel_param = (\<lambda>_ _. None)\<rparr>"

lemma demo_kernels_finite: "finite_kernels demo_kernels"
  unfolding finite_kernels_def demo_kernels_def by (auto intro: exI [of _ 1])

theorem argshim_counts_working_set_witness:
  "\<exists>s l s0 s'. run_steps argshim_step [HMalloc cudaSuccess 4096 256, HMalloc cudaSuccess 8192 16, HFree cudaSuccess 8192]
      (new_argshim False) = Some s \<and>
    (\<forall>b. map_option al_size (map_of (sh_allocs s) b) =
      arg_live [HMalloc cudaSuccess 4096 256, HMalloc cudaSuccess 8192 16, HFree cudaSuccess 8192] b) \<and>
    launch_layout demo_kernels LaunchKernel 7 s = Some (l, s0) \<and>
    hook_launch demo_kernels LaunchKernel 7 (\<lambda>_. le_bytes 8 4100) s = Some s' \<and>
    counted (launch_words (ly_params l) (\<lambda>_. le_bytes 8 4100)) s s'"
proof (rule argshim_counts_working_set)
  show "arg_documented [HMalloc cudaSuccess 4096 256, HMalloc cudaSuccess 8192 16, HFree cudaSuccess 8192] Map.empty"
    by (simp add: may_get_def)
qed (rule demo_kernels_finite)

end
