(* ===== verification/Cupti_Shim.thy ===== *)
theory Cupti_Shim
  imports Argshim "HOL-Library.List_Lexorder" "HOL-Library.Char_ord"
begin

text \<open>
  The driver probe (\<open>experiments/lookups/2B/cupti_shim.cpp\<close>): CUPTI calls back before and after each
  subscribed driver function, with the function's arguments.
\<close>

record CuptiShim = Shim +
  cp_extra :: int
  cp_noscan :: bool
  cp_names :: "(string \<times> int) list"

definition new_cupti :: "bool \<Rightarrow> bool \<Rightarrow> CuptiShim" where
  "new_cupti logging noscan = \<lparr>sh_allocs = [], sh_next = 0, sh_launches = 0, sh_with_hits = 0, sh_ptr_hits = 0, sh_layouts = [],
     sh_logging = logging, sh_err = [], cp_extra = 0, cp_noscan = noscan, cp_names = []\<rparr>"

definition layout_at :: "Kernels \<Rightarrow> u64 \<Rightarrow> CuptiShim \<Rightarrow> (Layout \<times> CuptiShim) option" where
  "layout_at d f =
     cached_layout f
       (Option.bind (param_list (kn_func_param d f) 0) (\<lambda>ps.
        Option.bind (if ps = [] then param_list (kn_kernel_param d f) 0 else Some ps) (\<lambda>ps.
          Some \<lparr>ly_params = ps, ly_name =
            (case kn_func_name d f of Some n \<Rightarrow> n
             | None \<Rightarrow> (case kn_kernel_name d f of Some n \<Rightarrow> n | None \<Rightarrow> ''?''))\<rparr>)))"

text \<open>The packed form of the arguments: pairs of a key and a value up to \<open>CU_LAUNCH_PARAM_END\<close>.\<close>

datatype Extra = ExtraPointer "byte list option" | ExtraSize u64 | ExtraOther

definition touch_extra :: "Extra list \<Rightarrow> int set \<times> CuptiShim \<Rightarrow> int set \<times> CuptiShim" where
  "touch_extra es =
     (let (buf, sz) = fold (\<lambda>e (buf, sz). case e of ExtraPointer b \<Rightarrow> (b, sz) | ExtraSize n \<Rightarrow> (buf, n) | ExtraOther \<Rightarrow> (buf, sz))
            es (None, 0)
      in case buf of None \<Rightarrow> id | Some b \<Rightarrow> touch b sz)"

text \<open>\<open>kp\<close> and \<open>extra\<close> of a launch; at most one of them is given.\<close>

record KernelLaunch =
  la_func :: u64
  la_params :: "(nat \<Rightarrow> byte list) option"
  la_extra :: "Extra list option"

definition scan_launch :: "Kernels \<Rightarrow> KernelLaunch \<Rightarrow> CuptiShim \<Rightarrow> CuptiShim option" where
  "scan_launch d la s =
     (if cp_noscan s then Some (s\<lparr>sh_launches := sh_launches s + 1\<rparr>)
      else map_option (\<lambda>(l, s).
        let (hit, s) =
          (case la_params la of
             Some args \<Rightarrow> touch_params (ly_params l) args ({}, s)
           | None \<Rightarrow> (case la_extra la of
               Some es \<Rightarrow> touch_extra es ({}, s\<lparr>cp_extra := cp_extra s + 1\<rparr>)
             | None \<Rightarrow> ({}, s)));
            n = (case map_of (cp_names s) (ly_name l) of None \<Rightarrow> 0 | Some n \<Rightarrow> n);
            s = s\<lparr>cp_names := om_put (ly_name l) (n + 1) (cp_names s)\<rparr>
        in finish_scan ''[cupti]'' (take 60 (ly_name l)) (hit, s))
       (layout_at d (la_func la) s))"

section \<open>The callback\<close>

datatype Cbid =
    CB_cuLaunchKernel | CB_cuLaunchKernel_ptsz | CB_cuLaunchKernelEx | CB_cuLaunchKernelEx_ptsz
  | CB_cuMemAlloc_v2 | CB_cuMemAllocAsync | CB_cuMemAllocAsync_ptsz | CB_cuMemMap
  | CB_cuMemFree_v2 | CB_cuMemUnmap | CB_cuMemFreeAsync | CB_other

text \<open>
  What the callback is told: the site, the function, its arguments (of a launch, or an address and a
  size), and what it returned, which is known at the exit only.
\<close>

record CbData =
  cb_enter :: bool
  cb_launch :: KernelLaunch
  cb_ptr :: u64
  cb_bytes :: u64
  cb_result :: CUresult

definition cupti_cb :: "Kernels \<Rightarrow> bool \<Rightarrow> Cbid \<Rightarrow> CbData \<Rightarrow> CuptiShim \<Rightarrow> CuptiShim option" where
  "cupti_cb d driver_domain cb x s =
     (if \<not> driver_domain then Some s
      else if cb_enter x then
        (case cb of
           CB_cuLaunchKernel \<Rightarrow> scan_launch d (cb_launch x) s
         | CB_cuLaunchKernel_ptsz \<Rightarrow> scan_launch d (cb_launch x) s
         | CB_cuLaunchKernelEx \<Rightarrow> scan_launch d (cb_launch x) s
         | CB_cuLaunchKernelEx_ptsz \<Rightarrow> scan_launch d (cb_launch x) s
         | CB_cuMemFree_v2 \<Rightarrow> Some (erase_alloc (cb_ptr x) s)
         | CB_cuMemUnmap \<Rightarrow> Some (erase_alloc (cb_ptr x) s)
         | _ \<Rightarrow> Some s)
      else
        (case cb of
           CB_cuMemAlloc_v2 \<Rightarrow> Some (add_alloc (cb_ptr x) (cb_bytes x) s)
         | CB_cuMemAllocAsync \<Rightarrow> Some (add_alloc (cb_ptr x) (cb_bytes x) s)
         | CB_cuMemAllocAsync_ptsz \<Rightarrow> Some (add_alloc (cb_ptr x) (cb_bytes x) s)
         | CB_cuMemMap \<Rightarrow> Some (add_alloc (cb_ptr x) (cb_bytes x) s)
         | _ \<Rightarrow> Some s))"

text \<open>\<open>InitializeInjection\<close>: 1 and the functions subscribed to, or 0.\<close>

definition initialize_injection :: "bool \<Rightarrow> int \<times> Cbid list" where
  "initialize_injection subscribed =
     (if \<not> subscribed then (0, [])
      else (1, [CB_cuLaunchKernel, CB_cuLaunchKernel_ptsz, CB_cuLaunchKernelEx, CB_cuLaunchKernelEx_ptsz, CB_cuMemAlloc_v2,
                CB_cuMemAllocAsync, CB_cuMemAllocAsync_ptsz, CB_cuMemMap, CB_cuMemFree_v2, CB_cuMemUnmap]))"

text \<open>The summary at exit; a kernel's name is padded or cut to 70 characters.\<close>

definition pad70 :: "string \<Rightarrow> string" where
  "pad70 n = take 70 n @ replicate (70 - length n) CHR '' ''"

definition cupti_report :: "string \<Rightarrow> CuptiShim \<Rightarrow> string list" where
  "cupti_report cost s =
     cat [''[cupti] driver launches='', dec_int (sh_launches s), '' with>=1 alloc hit='', dec_int (sh_with_hits s),
       '' ptr hits='', dec_int (sh_ptr_hits s), '' via-extra='', dec_int (cp_extra s), ''; avg scan cost='', cost, '' ns/launch'']
     # map (\<lambda>(n, c). cat [''[cupti]   kernel '', pad70 n, '' x'', dec_int c]) (cp_names s)
     @ map (\<lambda>(b, a). cat [''[cupti]   alloc#'', dec_int (al_id a), '' size='', dec64 (drop_bit 10 (al_size a)), '' KiB uses='',
         dec_int (al_uses a), '' last_launch='', dec_int (al_last a)]) (sh_allocs s)"

section \<open>What the probe reports\<close>

text \<open>One callback, with what the driver says of the function when it is a launch.\<close>

type_synonym CuptiHook = "Kernels \<times> bool \<times> Cbid \<times> CbData"

definition cupti_step :: "CuptiHook \<Rightarrow> CuptiShim \<Rightarrow> CuptiShim option" where
  "cupti_step = (\<lambda>(d, driver_domain, cb, x). cupti_cb d driver_domain cb x)"

definition extra_words :: "Extra list \<Rightarrow> u64 list" where
  "extra_words es =
     (let (buf, sz) = fold (\<lambda>e (buf, sz). case e of ExtraPointer b \<Rightarrow> (b, sz) | ExtraSize n \<Rightarrow> (buf, n) | ExtraOther \<Rightarrow> (buf, sz))
            es (None, 0)
      in case buf of None \<Rightarrow> [] | Some b \<Rightarrow> words_of b sz)"

lemma touch_extra_words: "touch_extra es = fold touch_word (extra_words es)"
  by (auto simp: touch_extra_def extra_words_def touch_def Let_def split: prod.split option.split)

text \<open>A scan as the shared part sees it: other fields may change, the counters do not.\<close>

definition same_counts :: "CuptiShim \<Rightarrow> CuptiShim \<Rightarrow> bool" where
  "same_counts s s' \<longleftrightarrow> sh_allocs s' = sh_allocs s \<and> sh_next s' = sh_next s \<and> sh_ptr_hits s' = sh_ptr_hits s \<and>
     sh_launches s' = sh_launches s \<and> sh_with_hits s' = sh_with_hits s"

lemma layout_at_some:
  assumes "finite_kernels d"
  shows "\<exists>l ls. layout_at d f s = Some (l, s\<lparr>sh_layouts := ls\<rparr>)"
proof -
  obtain ps where "param_list (kn_func_param d f) 0 = Some ps" using finite_kernelsD(1) [OF assms] by blast
  moreover obtain qs where "param_list (kn_kernel_param d f) 0 = Some qs" using finite_kernelsD(2) [OF assms] by blast
  ultimately show ?thesis unfolding layout_at_def by (intro cached_layout_some) simp
qed

text \<open>The words of a launch's arguments in either form.\<close>

definition cupti_words :: "Layout \<Rightarrow> KernelLaunch \<Rightarrow> u64 list" where
  "cupti_words l la =
     (case la_params la of Some args \<Rightarrow> launch_words (ly_params l) args
      | None \<Rightarrow> (case la_extra la of Some es \<Rightarrow> extra_words es | None \<Rightarrow> []))"

text \<open>Putting the kernel's name into the table of names before or after the end of the scan is the same.\<close>

lemma touch_word_names:
  "touch_word v (hit, s\<lparr>cp_names := m\<rparr>) = map_prod id (\<lambda>s. s\<lparr>cp_names := m\<rparr>) (touch_word v (hit, s))"
  by (simp add: touch_word_def shim_lookup_def split: option.split)

lemma touch_words_names:
  "fold touch_word vs (hit, s\<lparr>cp_names := m\<rparr>) = map_prod id (\<lambda>s. s\<lparr>cp_names := m\<rparr>) (fold touch_word vs (hit, s))"
proof (induction vs arbitrary: hit s)
  case (Cons v vs)
  obtain h t where "touch_word v (hit, s) = (h, t)" by fastforce
  then show ?case using Cons [of h t] touch_word_names [of v hit m s] by simp
qed simp

lemma scan_launch_some:
  assumes "finite_kernels d" and "\<not> cp_noscan s"
  shows "\<exists>l ls s0 h n. layout_at d (la_func la) s = Some (l, s\<lparr>sh_layouts := ls\<rparr>) \<and> same_counts s s0 \<and>
    scan_launch d la s = Some (finish_scan h n (fold touch_word (cupti_words l la) ({}, s0)))"
proof -
  obtain l ls where l: "layout_at d (la_func la) s = Some (l, s\<lparr>sh_layouts := ls\<rparr>)" using layout_at_some [OF assms(1)] by blast
  define s1 where "s1 = (if la_params la = None \<and> la_extra la \<noteq> None then s\<lparr>sh_layouts := ls, cp_extra := cp_extra s + 1\<rparr> else s\<lparr>sh_layouts := ls\<rparr>)"
  define y where "y = fold touch_word (cupti_words l la) ({}, s1)"
  define m where "m = om_put (ly_name l) ((case map_of (cp_names (snd y)) (ly_name l) of None \<Rightarrow> 0 | Some n \<Rightarrow> n) + 1) (cp_names (snd y))"
  have "scan_launch d la s = Some (finish_scan ''[cupti]'' (take 60 (ly_name l)) (fst y, (snd y)\<lparr>cp_names := m\<rparr>))"
    using assms(2) l
    by (simp add: scan_launch_def touch_params_words touch_extra_words y_def s1_def m_def cupti_words_def Let_def case_prod_beta
        split: option.split)
  moreover have "(fst y, (snd y)\<lparr>cp_names := m\<rparr>) = fold touch_word (cupti_words l la) ({}, s1\<lparr>cp_names := m\<rparr>)"
    unfolding touch_words_names y_def by (simp add: map_prod_def case_prod_beta)
  moreover have "same_counts s (s1\<lparr>cp_names := m\<rparr>)" by (simp add: same_counts_def s1_def)
  ultimately show ?thesis using l by metis
qed

lemma tallied_noscan: "tallied s \<Longrightarrow> tallied (s\<lparr>sh_launches := sh_launches s + 1\<rparr>)"
  using entries_ok_mono [of "sh_launches s" s "sh_launches s + 1"]
    entries_ok_cong [of "sh_launches s + 1" s "s\<lparr>sh_launches := sh_launches s + 1\<rparr>"]
  unfolding tallied_def by simp

lemma scan_launch_tallied:
  assumes "tallied s" and "finite_kernels d"
  shows "\<exists>s'. scan_launch d la s = Some s' \<and> tallied s'"
proof (cases "cp_noscan s")
  case True
  then show ?thesis using tallied_noscan [OF assms(1)] by (simp add: scan_launch_def)
next
  case False
  obtain l s0 h n where "same_counts s s0"
    and l: "scan_launch d la s = Some (finish_scan h n (fold touch_word (cupti_words l la) ({}, s0)))"
    using scan_launch_some [OF assms(2) False] by blast
  then have "scanning ({}, s0)" using scanning_start [OF assms(1)] unfolding same_counts_def by blast
  then show ?thesis unfolding l using scanning_words scanning_finish by blast
qed

definition cupti_fine :: "CuptiHook \<Rightarrow> bool" where
  "cupti_fine = (\<lambda>(d, driver_domain, cb, x). finite_kernels d)"

lemma cupti_tallied:
  assumes "tallied s" and "cupti_fine e"
  shows "\<exists>s'. cupti_step e s = Some s' \<and> tallied s'"
proof -
  obtain d dom cb x where e: "e = (d, dom, cb, x)" by (cases e)
  have "finite_kernels d" using assms(2) e by (simp add: cupti_fine_def)
  note sc = scan_launch_tallied [OF assms(1) this]
  show ?thesis
    using sc [of "cb_launch x"] tallied_add [OF assms(1)] tallied_erase [OF assms(1)] assms(1)
    by (cases cb) (simp_all add: e cupti_step_def cupti_cb_def)
qed

interpretation cupti: stepping cupti_step cupti_fine tallied
  by unfold_locales (use cupti_tallied in force)+

lemma new_cupti_tallied: "tallied (new_cupti logging noscan)"
  by (simp add: tallied_def entries_ok_def new_cupti_def)

text \<open>The allocations the process holds: allocated or mapped with success, and not freed since.\<close>

definition allocates :: "Cbid \<Rightarrow> bool" where
  "allocates cb \<longleftrightarrow> cb \<in> {CB_cuMemAlloc_v2, CB_cuMemAllocAsync, CB_cuMemAllocAsync_ptsz, CB_cuMemMap}"

definition releases :: "Cbid \<Rightarrow> bool" where
  "releases cb \<longleftrightarrow> cb \<in> {CB_cuMemFree_v2, CB_cuMemUnmap, CB_cuMemFreeAsync}"

definition cupti_live_step :: "CuptiHook \<Rightarrow> held \<Rightarrow> held" where
  "cupti_live_step = (\<lambda>(d, driver_domain, cb, x) l.
     if \<not> driver_domain then l
     else if cb_enter x then (if releases cb then l(cb_ptr x := None) else l)
     else if allocates cb \<and> cb_result x = CUDA_SUCCESS then l(cb_ptr x \<mapsto> cb_bytes x) else l)"

text \<open>
  What the driver documents, and what the probe needs besides: that every allocation succeeds, and that
  nothing is freed by \<open>cuMemFreeAsync\<close>, which it does not subscribe to.
\<close>

definition cupti_documented :: "CuptiHook \<Rightarrow> held \<Rightarrow> bool" where
  "cupti_documented = (\<lambda>(d, driver_domain, cb, x) l. finite_kernels d \<and>
     (driver_domain \<and> \<not> cb_enter x \<and> allocates cb \<and> cb_result x = CUDA_SUCCESS \<longrightarrow> may_get l (cb_ptr x) (cb_bytes x)))"

definition cupti_benign :: "CuptiHook \<Rightarrow> bool" where
  "cupti_benign = (\<lambda>(d, driver_domain, cb, x).
     (cb_enter x \<or> \<not> allocates cb \<or> cb_result x = CUDA_SUCCESS) \<and> cb \<noteq> CB_cuMemFreeAsync)"

lemma names_live_cong: "names_live s l \<Longrightarrow> sh_allocs s' = sh_allocs s \<Longrightarrow> names_live s' l"
  by (simp add: names_live_def)

lemma scan_launch_live:
  assumes "names_live s l" and "finite_kernels d"
  shows "\<exists>s'. scan_launch d la s = Some s' \<and> names_live s' l"
proof (cases "cp_noscan s")
  case True
  then show ?thesis
    using names_live_cong [OF assms(1), of "s\<lparr>sh_launches := sh_launches s + 1\<rparr>"] by (simp add: scan_launch_def)
next
  case False
  obtain ly s0 h n where "same_counts s s0"
    and e: "scan_launch d la s = Some (finish_scan h n (fold touch_word (cupti_words ly la) ({}, s0)))"
    using scan_launch_some [OF assms(2) False] by blast
  then have "names_live (finish_scan h n (fold touch_word (cupti_words ly la) ({}, s0))) l"
    by (intro scan_counts(2) [OF assms(1)]) (simp_all add: same_counts_def)
  then show ?thesis unfolding e by blast
qed

lemma cupti_names_live:
  assumes "names_live s l" and "cupti_documented e l" and "cupti_benign e"
  shows "\<exists>s'. cupti_step e s = Some s' \<and> names_live s' (cupti_live_step e l)"
proof -
  obtain d dom cb x where e: "e = (d, dom, cb, x)" by (cases e)
  have "finite_kernels d" using assms(2) e by (simp add: cupti_documented_def)
  note sc = scan_launch_live [OF assms(1) this, of "cb_launch x"]
  have add: "may_get l (cb_ptr x) (cb_bytes x) \<Longrightarrow> names_live (add_alloc (cb_ptr x) (cb_bytes x) s) (l(cb_ptr x \<mapsto> cb_bytes x))"
    by (rule names_live_add [OF assms(1)])
  show ?thesis
    using sc add names_live_erase [OF assms(1), of "cb_ptr x"] assms
    by (cases cb) (auto simp: e cupti_step_def cupti_cb_def cupti_live_step_def cupti_documented_def cupti_benign_def
        allocates_def releases_def)
qed

text \<open>
  At the exit of an allocation the probe does not ask whether it succeeded, and it never hears of
  \<open>cuMemFreeAsync\<close>: either way its table names memory the process does not hold.
\<close>

lemma cupti_tracks_failed_alloc:
  assumes "cb_result x \<noteq> CUDA_SUCCESS" and "allocates cb" and "\<not> cb_enter x" and "l (cb_ptr x) = None"
  shows "\<exists>s'. cupti_step (d, True, cb, x) s = Some s' \<and> \<not> names_live s' (cupti_live_step (d, True, cb, x) l)"
proof -
  have "cupti_step (d, True, cb, x) s = Some (add_alloc (cb_ptr x) (cb_bytes x) s)"
    using assms(2,3) by (auto simp: cupti_step_def cupti_cb_def allocates_def)
  moreover have "cupti_live_step (d, True, cb, x) l = l" using assms(1,3) by (simp add: cupti_live_step_def)
  moreover have "map_option al_size (map_of (sh_allocs (add_alloc (cb_ptr x) (cb_bytes x) s)) (cb_ptr x)) \<noteq> l (cb_ptr x)"
    using assms(4) by (simp add: add_alloc_def om_simps)
  ultimately show ?thesis unfolding names_live_def by metis
qed

lemma cupti_misses_async_free:
  assumes "names_live s l" and "l (cb_ptr x) = Some n" and "cb_enter x"
  shows "CB_cuMemFreeAsync \<notin> set (snd (initialize_injection True)) \<and>
    cupti_step (d, True, CB_cuMemFreeAsync, x) s = Some s \<and> \<not> names_live s (cupti_live_step (d, True, CB_cuMemFreeAsync, x) l)"
proof -
  have "cupti_live_step (d, True, CB_cuMemFreeAsync, x) l = l(cb_ptr x := None)"
    using assms(3) by (simp add: cupti_live_step_def releases_def)
  moreover have "map_option al_size (map_of (sh_allocs s) (cb_ptr x)) = Some n" using assms(1,2) by (simp add: names_live_def)
  ultimately have "\<not> names_live s (cupti_live_step (d, True, CB_cuMemFreeAsync, x) l)"
    unfolding names_live_def by (metis fun_upd_same option.distinct(1))
  then show ?thesis using assms(3) by (simp add: initialize_injection_def cupti_step_def cupti_cb_def)
qed

text \<open>
  C39. The summaries add up: whatever a process allocates, frees and launches, and whatever the driver
  answers, both probes run to the end, give no id twice, never count more launches with a hit than
  launches or pointers, record uses of an allocation exactly with the last launch that made them, and the
  uses of the allocations they list are among the pointers counted.
\<close>

theorem probes_tally:
  assumes "list_all arg_fine hs" and "list_all cupti_fine cs"
  shows "(\<exists>s. run_steps argshim_step hs (new_argshim logging) = Some s \<and> tallied s) \<and>
    (\<exists>s. run_steps cupti_step cs (new_cupti logging noscan) = Some s \<and> tallied s)"
  using arg.run_keeps [OF new_argshim_tallied assms(1)] cupti.run_keeps [OF new_cupti_tallied assms(2)] by blast

text \<open>A process that allocates, launches and frees.\<close>

definition demo_hooks :: "ArgHook list" where
  "demo_hooks = [HMalloc cudaSuccess 4096 256, HLaunch demo_kernels LaunchKernel 7 (\<lambda>_. le_bytes 8 4100), HFree cudaSuccess 4096]"

definition demo_data :: "bool \<Rightarrow> CbData" where
  "demo_data enter = \<lparr>cb_enter = enter,
     cb_launch = \<lparr>la_func = 7, la_params = None, la_extra = Some [ExtraSize 8, ExtraPointer (Some (le_bytes 8 4100))]\<rparr>,
     cb_ptr = 4096, cb_bytes = 256, cb_result = CUDA_SUCCESS\<rparr>"

definition demo_callbacks :: "CuptiHook list" where
  "demo_callbacks = [(demo_kernels, True, CB_cuMemAlloc_v2, demo_data False), (demo_kernels, True, CB_cuLaunchKernel, demo_data True),
     (demo_kernels, True, CB_cuMemFree_v2, demo_data True)]"

theorem probes_tally_witness:
  "(\<exists>s. run_steps argshim_step demo_hooks (new_argshim True) = Some s \<and> tallied s) \<and>
    (\<exists>s. run_steps cupti_step demo_callbacks (new_cupti True False) = Some s \<and> tallied s)"
  by (rule probes_tally)
    (simp_all add: demo_hooks_def demo_callbacks_def arg_fine_def cupti_fine_def demo_kernels_finite)

end
