(* ===== verification/Share.thy ===== *)
theory Share
  imports Prelude
begin

text \<open>
  The shared segment of \<open>experiments/VMMRemapShared\<close>: an owner process (\<open>owner.cu\<close>), its subscribers
  (\<open>subscriber.cu\<close>) and what they share (\<open>ipc_common.h\<close>). Each process is a sequence of steps between its
  points of communication, and the processes' steps interleave in any order. The messages and
  acknowledgements on the sockets, the mutex and the physical memory behind the processes' mappings are
  as the operating system and the driver document them: a stream keeps the order, the mutex makes its
  section one step, and processes that map one backing see the same words. Any process may die between
  two of its steps, which also stands for every call that fails. It may not die inside a section under the
  mutex (\<open>alloc_and_tag\<close>, the owner's updates, the final verifications): the mutex is
  not robust, so such a death leaves it locked for ever and perhaps an entry counted that is not written,
  and the README declares lock and segment undefined then. The subscribers are numbered in the order in which
  the owner accepts them. Byte counts and offsets are natural numbers: the
  reserved range of 256 chunks ends below \<open>2 ^ 57\<close>, so none wraps.
\<close>

unbundle bit_operations_syntax

section \<open>Shared state and messages\<close>

definition MAX_CHUNKS :: nat where "MAX_CHUNKS = 256"
definition MAX_ALLOCS :: nat where "MAX_ALLOCS = 64"

text \<open>An entry of \<open>allocs\<close>; \<open>n_allocs\<close> is the length of the list.\<close>

record SharedAlloc =
  sa_off :: nat
  sa_len :: nat
  sa_pid :: nat
  sa_tag :: u32

record SharedState =
  st_chunk_size :: nat
  st_chunk_count :: nat
  st_total_bytes :: nat
  st_bump :: nat
  st_allocs :: "SharedAlloc list"
  st_on_host :: "nat \<Rightarrow> bool"

text \<open>A physical backing, and the file descriptor or handle that names it.\<close>

type_synonym backing = nat
type_synonym slots = "nat \<Rightarrow> backing option"
type_synonym contents = "backing \<Rightarrow> nat \<Rightarrow> u32"

datatype ShareMsgType = MSG_HEADER | MSG_ADD_CHUNK | MSG_REVOKE | MSG_REMAP | MSG_GO

record ShareMsg =
  sm_type :: ShareMsgType
  sm_chunk_size :: nat
  sm_chunk_count :: nat
  sm_chunk_idx :: nat
  sm_n_fds :: nat
  sm_fds :: "backing list"

definition share_msg :: "ShareMsgType \<Rightarrow> nat \<Rightarrow> nat \<Rightarrow> nat \<Rightarrow> nat \<Rightarrow> ShareMsg" where
  "share_msg t sz count idx n =
     \<lparr>sm_type = t, sm_chunk_size = sz, sm_chunk_count = count, sm_chunk_idx = idx, sm_n_fds = n, sm_fds = []\<rparr>"

text \<open>
  \<open>send_fds\<close> builds the control message in a buffer for 64 descriptors; with more it writes past it.
  \<open>recv_fds\<close> takes what its own buffer holds, and at most as many as its caller has room for.
\<close>

definition FDS_ROOM :: nat where "FDS_ROOM = 64"

definition send_fds :: "ShareMsg \<Rightarrow> backing list \<Rightarrow> ShareMsg option" where
  "send_fds m fds = (if length fds \<le> FDS_ROOM then Some (m\<lparr>sm_fds := fds\<rparr>) else None)"

definition recv_fds :: "ShareMsg \<Rightarrow> backing list" where
  "recv_fds m = take MAX_CHUNKS (take FDS_ROOM (sm_fds m))"

section \<open>Memory through a process's mappings\<close>

definition read_word :: "slots \<Rightarrow> contents \<Rightarrow> nat \<Rightarrow> nat \<Rightarrow> u32 option" where
  "read_word sl ph chunk off = map_option (\<lambda>b. ph b (off mod chunk div 4)) (sl (off div chunk))"

text \<open>\<open>cuMemsetD32(g_base + off, tag, len / 4)\<close>: fails when a word is not mapped.\<close>

definition set_words :: "slots \<Rightarrow> contents \<Rightarrow> nat \<Rightarrow> nat \<Rightarrow> nat \<Rightarrow> u32 \<Rightarrow> contents option" where
  "set_words sl ph chunk off len tag =
     (if list_all (\<lambda>w. sl ((off + 4 * w) div chunk) \<noteq> None) [0..<len div 4]
      then Some (fold (\<lambda>w ph. case sl ((off + 4 * w) div chunk) of
             None \<Rightarrow> ph
           | Some b \<Rightarrow> ph(b := (ph b)((off + 4 * w) mod chunk div 4 := tag))) [0..<len div 4] ph)
      else None)"

text \<open>First and last word of a region against its tag.\<close>

definition check_region :: "slots \<Rightarrow> contents \<Rightarrow> nat \<Rightarrow> SharedAlloc \<Rightarrow> bool option" where
  "check_region sl ph chunk a =
     (case read_word sl ph chunk (sa_off a) of
        None \<Rightarrow> None
      | Some first \<Rightarrow> (case read_word sl ph chunk (sa_off a + sa_len a - 4) of
          None \<Rightarrow> None
        | Some last' \<Rightarrow> Some (first = sa_tag a \<and> last' = sa_tag a)))"

section \<open>The owner\<close>

text \<open>
  \<open>main\<close> and \<open>remap_phase\<close> as a list of phases: something done once, or something done for each subscriber
  in turn (the loop of \<open>accept\<close>s, \<open>barrier\<close>, \<open>broadcast\<close>). \<open>gfd\<close> and \<open>fd\<close> are one variable here.
\<close>

datatype OwnerDo =
    DoAddChunk nat | DoPushFd | DoListen | DoPublish nat
  | DoCopy nat | DoSwitch nat | DoMark nat bool | DoExport nat | DoVerify | DoCleanup

datatype OwnerAct = ActAccept | ActRead | ActSend ShareMsg bool

datatype OwnerPhase = Once OwnerDo | Each OwnerAct

definition barrier :: "OwnerPhase list" where "barrier = [Each ActRead]"

definition broadcast :: "ShareMsg \<Rightarrow> bool \<Rightarrow> OwnerPhase list" where
  "broadcast m with_fd = [Each (ActSend m with_fd)]"

definition remap_phase :: "nat \<Rightarrow> nat \<Rightarrow> bool \<Rightarrow> OwnerPhase list" where
  "remap_phase chunk idx to_host =
     broadcast (share_msg MSG_REVOKE chunk 0 idx 0) False @ barrier @
     [Once (DoCopy idx), Once (DoSwitch idx), Once (DoMark idx to_host), Once (DoExport idx)] @
     broadcast (share_msg MSG_REMAP chunk 0 idx 1) True @ barrier"

definition owner_main :: "nat \<Rightarrow> nat \<Rightarrow> OwnerPhase list" where
  "owner_main chunk nchk =
     concat (map (\<lambda>i. [Once (DoAddChunk i), Once DoPushFd]) [0..<nchk]) @
     [Once DoListen, Each ActAccept] @ barrier @
     [Once (DoAddChunk nchk), Once (DoPublish nchk)] @
     broadcast (share_msg MSG_ADD_CHUNK chunk (nchk + 1) 0 1) True @ barrier @
     remap_phase chunk 0 True @ remap_phase chunk 0 False @
     broadcast (share_msg MSG_GO 0 0 0 0) False @
     [Once DoVerify, Once DoCleanup]"

datatype ShareEnd = ShareExit int | ShareUndefined

record ShareOwner =
  ow_todo :: "OwnerPhase list"
  ow_next :: nat           \<comment> \<open>the subscriber whose turn it is in an \<open>Each\<close>\<close>
  ow_slots :: slots
  ow_handles :: "backing list"
  ow_fds :: "backing list"
  ow_fd :: backing
  ow_new :: backing        \<comment> \<open>\<open>nh\<close> of \<open>remap_backing\<close>\<close>
  ow_end :: "ShareEnd option"

section \<open>A subscriber\<close>

datatype SubPc =
    SubStart | SubHeader | SubAlloc nat | SubTag nat SharedAlloc | SubAck nat | SubAdd
  | SubServe | SubServeAck | SubVerify | SubEnd ShareEnd

record ShareSub =
  sb_pc :: SubPc
  sb_slots :: slots
  sb_chunk :: nat
  sb_down :: "ShareMsg list"   \<comment> \<open>sent by the owner, not yet received\<close>
  sb_up :: nat                 \<comment> \<open>acknowledgements not yet read by the owner\<close>
  sb_dead :: bool

section \<open>All processes\<close>

record ShareParams =
  sp_nsub :: nat
  sp_nchk :: nat
  sp_chunk :: nat
  sp_pid :: "nat \<Rightarrow> nat"

record Share =
  ws_owner :: ShareOwner
  ws_sub :: "nat \<Rightarrow> ShareSub"
  ws_st :: SharedState
  ws_phys :: contents
  ws_fresh :: backing
  ws_listening :: bool

definition start_share :: "ShareParams \<Rightarrow> Share" where
  "start_share p =
     \<lparr>ws_owner = \<lparr>ow_todo = owner_main (sp_chunk p) (sp_nchk p), ow_next = 0, ow_slots = (\<lambda>_. None), ow_handles = [], ow_fds = [],
        ow_fd = 0, ow_new = 0, ow_end = None\<rparr>,
      ws_sub = (\<lambda>_. \<lparr>sb_pc = SubStart, sb_slots = (\<lambda>_. None), sb_chunk = 0, sb_down = [], sb_up = 0, sb_dead = False\<rparr>),
      ws_st = \<lparr>st_chunk_size = sp_chunk p, st_chunk_count = sp_nchk p, st_total_bytes = sp_chunk p * sp_nchk p, st_bump = 0,
        st_allocs = [], st_on_host = (\<lambda>_. False)\<rparr>,
      ws_phys = (\<lambda>_ _. 0), ws_fresh = 0, ws_listening = False\<rparr>"

definition put_sub :: "nat \<Rightarrow> ShareSub \<Rightarrow> Share \<Rightarrow> Share" where
  "put_sub i s w = w\<lparr>ws_sub := (ws_sub w)(i := s)\<rparr>"

definition owner_ends :: "ShareEnd \<Rightarrow> Share \<Rightarrow> Share" where
  "owner_ends e w = w\<lparr>ws_owner := (ws_owner w)\<lparr>ow_end := Some e, ow_slots := (\<lambda>_. None)\<rparr>\<rparr>"

text \<open>Whether the process can no longer take part: its end of the socket is closed.\<close>

definition sub_gone :: "ShareSub \<Rightarrow> bool" where
  "sub_gone s \<longleftrightarrow> sb_dead s \<or> (case sb_pc s of SubEnd _ \<Rightarrow> True | _ \<Rightarrow> False)"

section \<open>Steps of the owner\<close>

fun owner_verify :: "slots \<Rightarrow> contents \<Rightarrow> nat \<Rightarrow> SharedAlloc list \<Rightarrow> ShareEnd option" where
  "owner_verify sl ph chunk [] = None"
| "owner_verify sl ph chunk (a # as) =
     (case check_region sl ph chunk a of
        None \<Rightarrow> Some (ShareExit 1)
      | Some ok \<Rightarrow> if ok then owner_verify sl ph chunk as else Some (ShareExit 2))"

text \<open>\<open>add_chunk(idx)\<close>: a new backing mapped in slot \<open>idx\<close>; mapping over a mapped slot, or outside the reserved range, fails.\<close>

definition owner_add_chunk :: "nat \<Rightarrow> Share \<Rightarrow> Share" where
  "owner_add_chunk idx w =
     (let q = ws_owner w
      in if MAX_CHUNKS \<le> idx \<or> ow_slots q idx \<noteq> None then owner_ends (ShareExit 1) w
         else w\<lparr>ws_owner := q\<lparr>ow_slots := (ow_slots q)(idx := Some (ws_fresh w)), ow_handles := ow_handles q @ [ws_fresh w],
                 ow_fd := ws_fresh w\<rparr>, ws_fresh := ws_fresh w + 1\<rparr>)"

definition owner_publish :: "ShareParams \<Rightarrow> nat \<Rightarrow> Share \<Rightarrow> Share" where
  "owner_publish p nchk w =
     w\<lparr>ws_st := (ws_st w)\<lparr>st_chunk_count := nchk + 1, st_total_bytes := sp_chunk p * (nchk + 1), st_bump := sp_chunk p * nchk\<rparr>\<rparr>"

text \<open>\<open>remap_backing\<close>: the new backing with the live bytes, then the exchange under the owner's address.\<close>

definition owner_copy :: "nat \<Rightarrow> Share \<Rightarrow> Share" where
  "owner_copy idx w =
     (case ow_slots (ws_owner w) idx of
        None \<Rightarrow> owner_ends (ShareExit 1) w
      | Some b \<Rightarrow> w\<lparr>ws_owner := (ws_owner w)\<lparr>ow_new := ws_fresh w\<rparr>, ws_phys := (ws_phys w)(ws_fresh w := ws_phys w b),
          ws_fresh := ws_fresh w + 1\<rparr>)"

definition owner_switch :: "nat \<Rightarrow> Share \<Rightarrow> Share" where
  "owner_switch idx w =
     (let q = ws_owner w
      in if length (ow_handles q) \<le> idx then owner_ends ShareUndefined w
         else w\<lparr>ws_owner := q\<lparr>ow_slots := (ow_slots q)(idx := Some (ow_new q)), ow_handles := (ow_handles q)[idx := ow_new q]\<rparr>\<rparr>)"

definition owner_mark :: "nat \<Rightarrow> bool \<Rightarrow> Share \<Rightarrow> Share" where
  "owner_mark idx to_host w = w\<lparr>ws_st := (ws_st w)\<lparr>st_on_host := (st_on_host (ws_st w))(idx := to_host)\<rparr>\<rparr>"

definition owner_export :: "nat \<Rightarrow> Share \<Rightarrow> Share" where
  "owner_export idx w =
     (let q = ws_owner w
      in if length (ow_handles q) \<le> idx then owner_ends ShareUndefined w
         else w\<lparr>ws_owner := q\<lparr>ow_fd := ow_handles q ! idx\<rparr>\<rparr>)"

definition owner_do :: "ShareParams \<Rightarrow> OwnerDo \<Rightarrow> Share \<Rightarrow> Share" where
  "owner_do p d w =
     (let q = ws_owner w
      in case d of
           DoAddChunk idx \<Rightarrow> owner_add_chunk idx w
         | DoPushFd \<Rightarrow> w\<lparr>ws_owner := q\<lparr>ow_fds := ow_fds q @ [ow_fd q]\<rparr>\<rparr>
         | DoListen \<Rightarrow> w\<lparr>ws_listening := True\<rparr>
         | DoPublish nchk \<Rightarrow> owner_publish p nchk w
         | DoCopy idx \<Rightarrow> owner_copy idx w
         | DoSwitch idx \<Rightarrow> owner_switch idx w
         | DoMark idx to_host \<Rightarrow> owner_mark idx to_host w
         | DoExport idx \<Rightarrow> owner_export idx w
         | DoVerify \<Rightarrow>
             (case owner_verify (ow_slots q) (ws_phys w) (sp_chunk p) (st_allocs (ws_st w)) of
                None \<Rightarrow> w
              | Some e \<Rightarrow> owner_ends e w)
         | DoCleanup \<Rightarrow> owner_ends (ShareExit 0) w)"

lemmas owner_do_defs = owner_do_def owner_add_chunk_def owner_publish_def owner_copy_def owner_switch_def owner_mark_def owner_export_def

text \<open>Sending to subscriber \<open>i\<close>.\<close>

definition owner_send :: "nat \<Rightarrow> ShareMsg \<Rightarrow> backing list \<Rightarrow> Share \<Rightarrow> Share" where
  "owner_send i m fds w =
     (case send_fds m fds of
        None \<Rightarrow> owner_ends ShareUndefined w
      | Some m \<Rightarrow>
          if sub_gone (ws_sub w i) then owner_ends (ShareExit 1) w
          else put_sub i ((ws_sub w i)\<lparr>sb_down := sb_down (ws_sub w i) @ [m]\<rparr>) w)"

text \<open>What the owner does with one subscriber; \<open>None\<close> while it has to wait.\<close>

definition owner_act :: "ShareParams \<Rightarrow> OwnerAct \<Rightarrow> nat \<Rightarrow> Share \<Rightarrow> Share option" where
  "owner_act p a i w =
     (case a of
        ActAccept \<Rightarrow>
          if sb_pc (ws_sub w i) = SubStart then None
          else Some (owner_send i (share_msg MSG_HEADER (sp_chunk p) (sp_nchk p) 0 (sp_nchk p)) (ow_fds (ws_owner w)) w)
      | ActRead \<Rightarrow>
          if 0 < sb_up (ws_sub w i) then Some (put_sub i ((ws_sub w i)\<lparr>sb_up := sb_up (ws_sub w i) - 1\<rparr>) w)
          else if sub_gone (ws_sub w i) then Some (owner_ends (ShareExit 1) w)
          else None
      | ActSend m with_fd \<Rightarrow> Some (owner_send i m (if with_fd then [ow_fd (ws_owner w)] else []) w))"

text \<open>The program counter moves on unless the process ended.\<close>

definition owner_goes_on :: "(ShareOwner \<Rightarrow> ShareOwner) \<Rightarrow> Share \<Rightarrow> Share" where
  "owner_goes_on f w = (if ow_end (ws_owner w) = None then w\<lparr>ws_owner := f (ws_owner w)\<rparr> else w)"

definition owner_step :: "ShareParams \<Rightarrow> Share \<Rightarrow> Share option" where
  "owner_step p w =
     (if ow_end (ws_owner w) \<noteq> None then None
      else case ow_todo (ws_owner w) of
          [] \<Rightarrow> None
        | Once d # ps \<Rightarrow> Some (owner_goes_on (ow_todo_update (\<lambda>_. ps)) (owner_do p d w))
        | Each a # ps \<Rightarrow>
            if sp_nsub p \<le> ow_next (ws_owner w)
            then Some (owner_goes_on (\<lambda>q. q\<lparr>ow_todo := ps, ow_next := 0\<rparr>) w)
            else map_option (owner_goes_on (\<lambda>q. q\<lparr>ow_next := ow_next q + 1\<rparr>)) (owner_act p a (ow_next (ws_owner w)) w))"

section \<open>Steps of a subscriber\<close>

definition sub_dies :: "ShareSub \<Rightarrow> ShareSub" where
  "sub_dies s = s\<lparr>sb_dead := True, sb_slots := (\<lambda>_. None)\<rparr>"

text \<open>\<open>map_chunk(idx, fd)\<close>: mapping over a mapped slot, or outside the reserved range, fails.\<close>

definition sub_map_chunk :: "nat \<Rightarrow> backing \<Rightarrow> ShareSub \<Rightarrow> ShareSub" where
  "sub_map_chunk idx fd s =
     (if sb_dead s then s
      else if MAX_CHUNKS \<le> idx \<or> sb_slots s idx \<noteq> None then sub_dies s
      else s\<lparr>sb_slots := (sb_slots s)(idx := Some fd)\<rparr>)"

definition sub_unmap_chunk :: "nat \<Rightarrow> ShareSub \<Rightarrow> ShareSub" where
  "sub_unmap_chunk idx s =
     (if sb_slots s idx = None then sub_dies s else s\<lparr>sb_slots := (sb_slots s)(idx := None)\<rparr>)"

text \<open>\<open>64u << 10\<close>, and the tags of the two passes.\<close>

definition REGION :: nat where "REGION = 65536"

definition pass_tag :: "nat \<Rightarrow> nat \<Rightarrow> u32" where
  "pass_tag pass pid = (if pass = 1 then 0xA5000000 else 0x5A000000) OR (of_nat pid AND 0xFFFF)"

text \<open>
  The locked part of \<open>alloc_and_tag\<close>: the entry, and the state after it; \<open>Inl\<close> is "segment OOM", or an
  entry behind the end of the table.
\<close>

definition shared_alloc :: "nat \<Rightarrow> u32 \<Rightarrow> nat \<Rightarrow> SharedState \<Rightarrow> ShareEnd + (SharedAlloc \<times> SharedState)" where
  "shared_alloc len tag pid st =
     (let off = st_bump st
      in if off + len > st_total_bytes st then Inl (ShareExit 1)
         else if MAX_ALLOCS \<le> length (st_allocs st) then Inl ShareUndefined
         else let a = \<lparr>sa_off = off, sa_len = len, sa_pid = pid, sa_tag = tag\<rparr>
              in Inr (a, st\<lparr>st_bump := off + len, st_allocs := st_allocs st @ [a]\<rparr>))"

fun sub_verify :: "slots \<Rightarrow> contents \<Rightarrow> nat \<Rightarrow> SharedAlloc list \<Rightarrow> nat option" where
  "sub_verify sl ph chunk [] = Some 0"
| "sub_verify sl ph chunk (a # as) =
     (case check_region sl ph chunk a of
        None \<Rightarrow> None
      | Some good \<Rightarrow> map_option (\<lambda>ok. ok + (if good then 1 else 0)) (sub_verify sl ph chunk as))"

text \<open>Receiving: the next message, death when the owner is gone, or waiting.\<close>

definition sub_recv :: "nat \<Rightarrow> (ShareMsg \<Rightarrow> ShareSub \<Rightarrow> ShareSub) \<Rightarrow> Share \<Rightarrow> Share option" where
  "sub_recv i f w =
     (let s = ws_sub w i
      in case sb_down s of
           [] \<Rightarrow> if ow_end (ws_owner w) \<noteq> None then Some (put_sub i (sub_dies s) w) else None
         | m # ms \<Rightarrow> Some (put_sub i (f m (s\<lparr>sb_down := ms\<rparr>)) w))"

text \<open>Writing the acknowledgement.\<close>

definition sub_ack :: "nat \<Rightarrow> SubPc \<Rightarrow> Share \<Rightarrow> Share" where
  "sub_ack i pc w =
     (let s = ws_sub w i
      in put_sub i (if ow_end (ws_owner w) \<noteq> None then sub_dies s else s\<lparr>sb_up := sb_up s + 1, sb_pc := pc\<rparr>) w)"

definition map_all :: "backing list \<Rightarrow> ShareSub \<Rightarrow> ShareSub" where
  "map_all fds = fold (\<lambda>i. sub_map_chunk i (fds ! i)) [0..<length fds]"

definition on_header :: "ShareMsg \<Rightarrow> ShareSub \<Rightarrow> ShareSub" where
  "on_header m s = map_all (recv_fds m) (s\<lparr>sb_chunk := sm_chunk_size m, sb_pc := SubAlloc 1\<rparr>)"

definition on_add_chunk :: "ShareMsg \<Rightarrow> ShareSub \<Rightarrow> ShareSub" where
  "on_add_chunk m s =
     (if sm_type m \<noteq> MSG_ADD_CHUNK \<or> length (recv_fds m) \<noteq> 1 then sub_dies s
      else sub_map_chunk (sm_chunk_count m - 1) (recv_fds m ! 0) (s\<lparr>sb_pc := SubAlloc 2\<rparr>))"

text \<open>The handshake loop; a \<open>MSG_REMAP\<close> without a descriptor would map a stale one, which is not modelled.\<close>

definition on_control :: "ShareMsg \<Rightarrow> ShareSub \<Rightarrow> ShareSub" where
  "on_control m s =
     (case sm_type m of
        MSG_GO \<Rightarrow> s\<lparr>sb_pc := SubVerify\<rparr>
      | MSG_REVOKE \<Rightarrow> sub_unmap_chunk (sm_chunk_idx m) (s\<lparr>sb_pc := SubServeAck\<rparr>)
      | MSG_REMAP \<Rightarrow> (case recv_fds m of [] \<Rightarrow> sub_dies s | fd # _ \<Rightarrow> sub_map_chunk (sm_chunk_idx m) fd (s\<lparr>sb_pc := SubServeAck\<rparr>))
      | _ \<Rightarrow> sub_dies s)"

definition sub_step :: "ShareParams \<Rightarrow> nat \<Rightarrow> Share \<Rightarrow> Share option" where
  "sub_step p i w =
     (let s = ws_sub w i; chunk = sb_chunk s
      in if sub_gone s then None
         else case sb_pc s of
             SubStart \<Rightarrow> if ws_listening w then Some (put_sub i (s\<lparr>sb_pc := SubHeader\<rparr>) w) else None
           | SubHeader \<Rightarrow> sub_recv i on_header w
           | SubAlloc pass \<Rightarrow>
               (case shared_alloc REGION (pass_tag pass (sp_pid p i)) (sp_pid p i) (ws_st w) of
                  Inl ShareUndefined \<Rightarrow> Some (put_sub i (s\<lparr>sb_pc := SubEnd ShareUndefined\<rparr>) w)
                | Inl _ \<Rightarrow> Some (put_sub i (sub_dies s) w)
                | Inr (a, st) \<Rightarrow> Some (put_sub i (s\<lparr>sb_pc := SubTag pass a\<rparr>) (w\<lparr>ws_st := st\<rparr>)))
           | SubTag pass a \<Rightarrow>
               (case set_words (sb_slots s) (ws_phys w) chunk (sa_off a) (sa_len a) (sa_tag a) of
                  None \<Rightarrow> Some (put_sub i (sub_dies s) w)
                | Some ph \<Rightarrow> Some (put_sub i (s\<lparr>sb_pc := SubAck pass\<rparr>) (w\<lparr>ws_phys := ph\<rparr>)))
           | SubAck pass \<Rightarrow> Some (sub_ack i (if pass = 1 then SubAdd else SubServe) w)
           | SubAdd \<Rightarrow> sub_recv i on_add_chunk w
           | SubServe \<Rightarrow> sub_recv i on_control w
           | SubServeAck \<Rightarrow> Some (sub_ack i SubServe w)
           | SubVerify \<Rightarrow>
               (case sub_verify (sb_slots s) (ws_phys w) chunk (st_allocs (ws_st w)) of
                  None \<Rightarrow> Some (put_sub i (sub_dies s) w)
                | Some ok \<Rightarrow>
                    let n = length (st_allocs (ws_st w)); pass = (ok = n \<and> 4 \<le> n)
                    in Some (put_sub i (s\<lparr>sb_pc := SubEnd (ShareExit (if pass then 0 else 1)), sb_slots := (\<lambda>_. None)\<rparr>) w))
           | SubEnd _ \<Rightarrow> None)"

section \<open>Interleaving\<close>

text \<open>One step of a live process, or the death of one.\<close>

inductive share_step :: "ShareParams \<Rightarrow> Share \<Rightarrow> Share \<Rightarrow> bool" for p where
  owner: "owner_step p w = Some w' \<Longrightarrow> share_step p w w'"
| sub: "i < sp_nsub p \<Longrightarrow> sub_step p i w = Some w' \<Longrightarrow> share_step p w w'"

inductive share_death :: "ShareParams \<Rightarrow> Share \<Rightarrow> Share \<Rightarrow> bool" for p where
  owner_dies: "ow_end (ws_owner w) = None \<Longrightarrow> share_death p w (owner_ends (ShareExit 1) w)"
| sub_dies: "i < sp_nsub p \<Longrightarrow> \<not> sub_gone (ws_sub w i) \<Longrightarrow> share_death p w (put_sub i (sub_dies (ws_sub w i)) w)"

inductive shared :: "ShareParams \<Rightarrow> Share \<Rightarrow> bool" for p where
  start: "shared p (start_share p)"
| step: "shared p w \<Longrightarrow> share_step p w w' \<Longrightarrow> shared p w'"
| death: "shared p w \<Longrightarrow> share_death p w w' \<Longrightarrow> shared p w'"

end
