(* ===== verification/Share_Inv.thy ===== *)
theory Share_Inv
  imports Share
begin

text \<open>
  The invariant of the shared segment. The owner's program fixes where each subscriber may be: the stage
  of a subscriber is the number of exchanges the owner has had with it, and \<open>sub_at\<close> lists what a
  subscriber can look like at each stage.
\<close>

section \<open>Parameters that fit\<close>

text \<open>
  At most 64 chunks at first, so that their descriptors fit one message; at most 32 subscribers, so that
  their regions fit the table; and room for a region of each in the first and in the grown chunk.
\<close>

definition share_fits :: "ShareParams \<Rightarrow> bool" where
  "share_fits p \<longleftrightarrow> 1 \<le> sp_nchk p \<and> sp_nchk p \<le> FDS_ROOM \<and> 2 * sp_nsub p \<le> MAX_ALLOCS \<and> 0 < sp_chunk p \<and>
     4 dvd sp_chunk p \<and> sp_nsub p * REGION \<le> sp_chunk p"

lemma share_fitsD:
  assumes "share_fits p"
  shows "1 \<le> sp_nchk p" and "sp_nchk p \<le> 64" and "2 * sp_nsub p \<le> 64" and "0 < sp_chunk p" and "4 dvd sp_chunk p"
    and "sp_nsub p * REGION \<le> sp_chunk p"
  using assms by (simp_all add: share_fits_def FDS_ROOM_def MAX_ALLOCS_def)

section \<open>The owner's program\<close>

definition share_tail :: "nat \<Rightarrow> nat \<Rightarrow> OwnerPhase list" where
  "share_tail chunk nchk =
     [Once DoListen, Each ActAccept, Each ActRead,
      Once (DoAddChunk nchk), Once (DoPublish nchk),
      Each (ActSend (share_msg MSG_ADD_CHUNK chunk (nchk + 1) 0 1) True), Each ActRead,
      Each (ActSend (share_msg MSG_REVOKE chunk 0 0 0) False), Each ActRead,
      Once (DoCopy 0), Once (DoSwitch 0), Once (DoMark 0 True), Once (DoExport 0),
      Each (ActSend (share_msg MSG_REMAP chunk 0 0 1) True), Each ActRead,
      Each (ActSend (share_msg MSG_REVOKE chunk 0 0 0) False), Each ActRead,
      Once (DoCopy 0), Once (DoSwitch 0), Once (DoMark 0 False), Once (DoExport 0),
      Each (ActSend (share_msg MSG_REMAP chunk 0 0 1) True), Each ActRead,
      Each (ActSend (share_msg MSG_GO 0 0 0 0) False),
      Once DoVerify, Once DoCleanup]"

lemma owner_main_tail:
  "owner_main chunk nchk = concat (map (\<lambda>i. [Once (DoAddChunk i), Once DoPushFd]) [0..<nchk]) @ share_tail chunk nchk"
  by (simp add: owner_main_def share_tail_def remap_phase_def broadcast_def barrier_def)

text \<open>Position \<open>t\<close> in the tail, and how many exchanges lie before it.\<close>

definition is_each :: "nat \<Rightarrow> bool" where
  "is_each t \<longleftrightarrow> t \<in> {1, 2, 5, 6, 7, 8, 13, 14, 15, 16, 21, 22, 23}"

definition exchanges :: "nat \<Rightarrow> nat" where
  "exchanges t = card {u. u < t \<and> is_each u}"

definition stage :: "nat \<Rightarrow> nat \<Rightarrow> nat \<Rightarrow> nat" where
  "stage t k i = exchanges t + (if is_each t \<and> i < k then 1 else 0)"

lemma exchanges_Suc: "exchanges (Suc t) = exchanges t + (if is_each t then 1 else 0)"
proof -
  have "{u. u < Suc t \<and> is_each u} = (if is_each t then insert t {u. u < t \<and> is_each u} else {u. u < t \<and> is_each u})"
    by (auto simp: less_Suc_eq)
  then show ?thesis by (simp add: exchanges_def)
qed

lemma exchanges_0 [simp]: "exchanges 0 = 0"
  by (simp add: exchanges_def)

lemma exchanges_filter: "exchanges t = length (filter is_each [0..<t])"
  by (induction t) (simp_all add: exchanges_Suc)

lemma exchanges_at [simp]:
  "exchanges 1 = 0" "exchanges 2 = 1" "exchanges 3 = 2" "exchanges 4 = 2" "exchanges 5 = 2" "exchanges 6 = 3"
  "exchanges 7 = 4" "exchanges 8 = 5" "exchanges 9 = 6" "exchanges 10 = 6" "exchanges 11 = 6" "exchanges 12 = 6"
  "exchanges 13 = 6" "exchanges 14 = 7" "exchanges 15 = 8" "exchanges 16 = 9" "exchanges 17 = 10" "exchanges 18 = 10"
  "exchanges 19 = 10" "exchanges 20 = 10" "exchanges 21 = 10" "exchanges 22 = 11" "exchanges 23 = 12" "exchanges 24 = 13"
  "exchanges 25 = 13" "exchanges 26 = 13"
  by (simp_all add: exchanges_filter is_each_def upt_rec)

lemma stage_le: "stage t k i \<le> exchanges (Suc t)" and stage_ge: "exchanges t \<le> stage t k i"
  by (simp_all add: stage_def exchanges_Suc)

lemma stage_Once: "\<not> is_each t \<Longrightarrow> stage t k i = exchanges t"
  by (simp add: stage_def)

lemma once_cases:
  assumes "t \<le> 25" and "\<not> is_each t"
  shows "t = 0 \<or> t = 3 \<or> t = 4 \<or> t \<in> {9, 17} \<or> t \<in> {10, 18} \<or> t \<in> {11, 19} \<or> t \<in> {12, 20} \<or> t = 24 \<or> t = 25"
  using assms by (auto simp: is_each_def eval_nat_numeral le_Suc_eq)

declare One_nat_def [simp del]

section \<open>What a subscriber looks like\<close>

definition no_slots :: slots where "no_slots = (\<lambda>_. None)"
definition slots_from :: "nat \<Rightarrow> nat \<Rightarrow> backing list \<Rightarrow> slots" where
  "slots_from a b H = (\<lambda>j. if a \<le> j \<and> j < b then Some (H ! j) else None)"

definition looks :: "SubPc \<Rightarrow> ShareMsg list \<Rightarrow> nat \<Rightarrow> slots \<Rightarrow> ShareSub \<Rightarrow> bool" where
  "looks pc down up sl s \<longleftrightarrow> sb_pc s = pc \<and> sb_down s = down \<and> sb_up s = up \<and>
     sb_slots s = (if sb_dead s then no_slots else sl)"

definition working :: "nat \<Rightarrow> SubPc \<Rightarrow> bool" where
  "working pass pc \<longleftrightarrow> pc = SubAlloc pass \<or> (\<exists>a. pc = SubTag pass a) \<or> pc = SubAck pass"

definition header_msg :: "ShareParams \<Rightarrow> backing list \<Rightarrow> ShareMsg" where
  "header_msg p H = (share_msg MSG_HEADER (sp_chunk p) (sp_nchk p) 0 (sp_nchk p))\<lparr>sm_fds := take (sp_nchk p) H\<rparr>"

definition add_msg :: "ShareParams \<Rightarrow> backing list \<Rightarrow> ShareMsg" where
  "add_msg p H = (share_msg MSG_ADD_CHUNK (sp_chunk p) (sp_nchk p + 1) 0 1)\<lparr>sm_fds := [H ! sp_nchk p]\<rparr>"

definition revoke_msg :: "ShareParams \<Rightarrow> ShareMsg" where
  "revoke_msg p = share_msg MSG_REVOKE (sp_chunk p) 0 0 0"

definition remap_msg :: "ShareParams \<Rightarrow> backing list \<Rightarrow> ShareMsg" where
  "remap_msg p H = (share_msg MSG_REMAP (sp_chunk p) 0 0 1)\<lparr>sm_fds := [H ! 0]\<rparr>"

definition go_msg :: ShareMsg where "go_msg = share_msg MSG_GO 0 0 0 0"

text \<open>
  Stage by stage: before the header; the first pass; before and in the second pass; then waiting, revoked
  or mapped again, twice; and verification. \<open>e\<close> is how a verification ends.
\<close>

inductive sub_at :: "ShareParams \<Rightarrow> backing list \<Rightarrow> nat \<Rightarrow> ShareSub \<Rightarrow> bool" for p H where
  start: "looks SubStart [] 0 no_slots s \<Longrightarrow> sub_at p H 0 s"
| connected: "looks SubHeader [] 0 no_slots s \<Longrightarrow> sub_at p H 0 s"
| header: "looks SubHeader [header_msg p H] 0 no_slots s \<Longrightarrow> sub_at p H 1 s"
| pass1: "working 1 pc \<Longrightarrow> looks pc [] 0 (slots_from 0 (sp_nchk p) H) s \<Longrightarrow> sb_chunk s = sp_chunk p \<Longrightarrow> sub_at p H 1 s"
| acked1: "looks SubAdd [] 1 (slots_from 0 (sp_nchk p) H) s \<Longrightarrow> sb_chunk s = sp_chunk p \<Longrightarrow> sub_at p H 1 s"
| read1: "looks SubAdd [] 0 (slots_from 0 (sp_nchk p) H) s \<Longrightarrow> sb_chunk s = sp_chunk p \<Longrightarrow> sub_at p H 2 s"
| adding: "looks SubAdd [add_msg p H] 0 (slots_from 0 (sp_nchk p) H) s \<Longrightarrow> sb_chunk s = sp_chunk p \<Longrightarrow> sub_at p H 3 s"
| pass2: "working 2 pc \<Longrightarrow> looks pc [] 0 (slots_from 0 (sp_nchk p + 1) H) s \<Longrightarrow> sb_chunk s = sp_chunk p \<Longrightarrow> sub_at p H 3 s"
| acked2: "looks SubServe [] 1 (slots_from 0 (sp_nchk p + 1) H) s \<Longrightarrow> sb_chunk s = sp_chunk p \<Longrightarrow> sub_at p H 3 s"
| serving: "n \<in> {4, 8, 12} \<Longrightarrow> looks SubServe [] 0 (slots_from 0 (sp_nchk p + 1) H) s \<Longrightarrow> sb_chunk s = sp_chunk p \<Longrightarrow> sub_at p H n s"
| revoke: "n \<in> {5, 9} \<Longrightarrow> looks SubServe [revoke_msg p] 0 (slots_from 0 (sp_nchk p + 1) H) s \<Longrightarrow> sb_chunk s = sp_chunk p \<Longrightarrow> sub_at p H n s"
| revoking: "n \<in> {5, 9} \<Longrightarrow> looks SubServeAck [] 0 (slots_from 1 (sp_nchk p + 1) H) s \<Longrightarrow> sb_chunk s = sp_chunk p \<Longrightarrow> sub_at p H n s"
| revoked: "n \<in> {5, 9} \<Longrightarrow> looks SubServe [] 1 (slots_from 1 (sp_nchk p + 1) H) s \<Longrightarrow> sb_chunk s = sp_chunk p \<Longrightarrow> sub_at p H n s"
| without: "n \<in> {6, 10} \<Longrightarrow> looks SubServe [] 0 (slots_from 1 (sp_nchk p + 1) H) s \<Longrightarrow> sb_chunk s = sp_chunk p \<Longrightarrow> sub_at p H n s"
| remap: "n \<in> {7, 11} \<Longrightarrow> looks SubServe [remap_msg p H] 0 (slots_from 1 (sp_nchk p + 1) H) s \<Longrightarrow> sb_chunk s = sp_chunk p \<Longrightarrow> sub_at p H n s"
| remapping: "n \<in> {7, 11} \<Longrightarrow> looks SubServeAck [] 0 (slots_from 0 (sp_nchk p + 1) H) s \<Longrightarrow> sb_chunk s = sp_chunk p \<Longrightarrow> sub_at p H n s"
| remapped: "n \<in> {7, 11} \<Longrightarrow> looks SubServe [] 1 (slots_from 0 (sp_nchk p + 1) H) s \<Longrightarrow> sb_chunk s = sp_chunk p \<Longrightarrow> sub_at p H n s"
| going: "looks SubServe [go_msg] 0 (slots_from 0 (sp_nchk p + 1) H) s \<Longrightarrow> sb_chunk s = sp_chunk p \<Longrightarrow> sub_at p H 13 s"
| verifying: "looks SubVerify [] 0 (slots_from 0 (sp_nchk p + 1) H) s \<Longrightarrow> sb_chunk s = sp_chunk p \<Longrightarrow> sub_at p H 13 s"
| finished: "looks (SubEnd (ShareExit (if 2 \<le> sp_nsub p then 0 else 1))) [] 0 no_slots s \<Longrightarrow> sub_at p H 13 s"

text \<open>How many regions a subscriber has taken.\<close>

fun taken :: "SubPc \<Rightarrow> nat" where
  "taken SubStart = 0"
| "taken SubHeader = 0"
| "taken (SubAlloc k) = k - 1"
| "taken (SubTag k a) = k"
| "taken (SubAck k) = k"
| "taken SubAdd = 1"
| "taken _ = 2"

lemma sub_at_taken:
  assumes "sub_at p H n s"
  shows "taken (sb_pc s) \<le> 2" and "n \<le> 2 \<Longrightarrow> taken (sb_pc s) \<le> 1" and "2 \<le> n \<Longrightarrow> 1 \<le> taken (sb_pc s)"
    and "4 \<le> n \<Longrightarrow> taken (sb_pc s) = 2"
  using assms by (cases; auto simp: looks_def working_def)+

lemma sub_at_tag:
  assumes "sub_at p H n s" and "sb_pc s = SubTag k a"
  shows "n = 1 \<and> k = 1 \<or> n = 3 \<and> k = 2"
  using assms by cases (auto simp: looks_def working_def)

end
