(* ===== verification/Share_Memory.thy ===== *)
theory Share_Memory
  imports Share_Inv
begin

text \<open>
  The words of the segment: reading and tagging through the slots of a process amounts to one array of
  words behind the owner's backings, and a region is changed by nobody but the subscriber that tags it.
\<close>

section \<open>The segment as one array of words\<close>

definition cell :: "backing list \<Rightarrow> nat \<Rightarrow> contents \<Rightarrow> nat \<Rightarrow> u32" where
  "cell H chunk ph adr = ph (H ! (adr div chunk)) (adr mod chunk div 4)"

lemma cell_same:
  assumes "distinct H" and "4 dvd chunk" and "a div chunk < length H" and "b div chunk < length H" and "4 dvd a" and "4 dvd b"
    and "H ! (a div chunk) = H ! (b div chunk)" and "a mod chunk div 4 = b mod chunk div 4"
  shows "a = b"
proof -
  have "a div chunk = b div chunk" using assms(1,3,4,7) by (simp add: nth_eq_iff_index_eq)
  moreover have "4 dvd a mod chunk" and "4 dvd b mod chunk" using assms(2,5,6) by (simp_all add: dvd_mod)
  then have "a mod chunk = b mod chunk" using assms(8) by (metis dvd_mult_div_cancel)
  ultimately show ?thesis by (metis mult_div_mod_eq)
qed

lemma cell_write:
  assumes "distinct H" and "4 dvd chunk" and "a div chunk < length H" and "b div chunk < length H" and "4 dvd a" and "4 dvd b"
  shows "cell H chunk (ph(H ! (a div chunk) := (ph (H ! (a div chunk)))(a mod chunk div 4 := v))) b = (if a = b then v else cell H chunk ph b)"
  using cell_same [OF assms] by (auto simp: cell_def)

lemma read_word_cell:
  assumes "sl (off div chunk) = Some (H ! (off div chunk))"
  shows "read_word sl ph chunk off = Some (cell H chunk ph off)"
  using assms by (simp add: read_word_def cell_def)

section \<open>Tagging\<close>

definition tagged :: "backing list \<Rightarrow> nat \<Rightarrow> contents \<Rightarrow> SharedAlloc \<Rightarrow> bool" where
  "tagged H chunk ph a \<longleftrightarrow> (\<forall>adr. 4 dvd adr \<longrightarrow> sa_off a \<le> adr \<longrightarrow> adr < sa_off a + sa_len a \<longrightarrow> cell H chunk ph adr = sa_tag a)"

lemma fold_tags:
  fixes ph :: contents
  assumes "distinct H" and "4 dvd chunk" and "4 dvd off" and "4 dvd b" and "b div chunk < length H"
    and "\<forall>w<n. (off + 4 * w) div chunk < length H \<and> sl ((off + 4 * w) div chunk) = Some (H ! ((off + 4 * w) div chunk))"
  shows "cell H chunk (fold (\<lambda>w ph. case sl ((off + 4 * w) div chunk) of None \<Rightarrow> ph
             | Some b \<Rightarrow> ph(b := (ph b)((off + 4 * w) mod chunk div 4 := tag))) [0..<n] ph) b =
         (if off \<le> b \<and> b < off + 4 * n then tag else cell H chunk ph b)"
  using assms(6)
proof (induction n)
  case (Suc n)
  have near: "off + 4 * n = b \<longleftrightarrow> off + 4 * n \<le> b \<and> b < off + 4 * Suc n"
    using assms(3,4) by presburger
  define F where "F = fold (\<lambda>w ph. case sl ((off + 4 * w) div chunk) of None \<Rightarrow> ph
      | Some b \<Rightarrow> ph(b := (ph b)((off + 4 * w) mod chunk div 4 := tag))) [0..<n] ph"
  have here: "(off + 4 * n) div chunk < length H" "sl ((off + 4 * n) div chunk) = Some (H ! ((off + 4 * n) div chunk))" "4 dvd off + 4 * n"
    using Suc.prems assms(3) by simp_all
  have IH: "cell H chunk F b = (if off \<le> b \<and> b < off + 4 * n then tag else cell H chunk ph b)"
    unfolding F_def using Suc.prems by (intro Suc.IH) simp
  show ?case
    unfolding upt_Suc_append [OF le0] fold_append fold.simps comp_apply id_apply F_def [symmetric] here(2) option.case
    unfolding cell_write [OF assms(1,2) here(1) assms(5) here(3) assms(4)] IH
    using near by auto
qed auto

lemma set_words_tags:
  assumes "distinct H" and "4 dvd chunk" and "0 < chunk" and "4 dvd off" and "4 dvd len" and "off + len \<le> chunk * n" and "n \<le> length H"
    and "sl = slots_from 0 n H"
  shows "\<exists>ph'. set_words sl ph chunk off len tag = Some ph' \<and> (\<forall>adr. 4 dvd adr \<longrightarrow> adr < chunk * length H \<longrightarrow>
      cell H chunk ph' adr = (if off \<le> adr \<and> adr < off + len then tag else cell H chunk ph adr))"
proof -
  have inside: "(off + 4 * w) div chunk < n" if "w < len div 4" for w
  proof -
    have "off + 4 * w < chunk * n" using that assms(5,6) by auto
    then show ?thesis using assms(3) by (simp add: div_less_iff_less_mult mult.commute)
  qed
  then have at: "\<forall>w<len div 4. (off + 4 * w) div chunk < length H \<and> sl ((off + 4 * w) div chunk) = Some (H ! ((off + 4 * w) div chunk))"
    using assms(7,8) by (fastforce simp: slots_from_def)
  then have all: "list_all (\<lambda>w. sl ((off + 4 * w) div chunk) \<noteq> None) [0..<len div 4]"
    by (simp add: list_all_iff)
  have len: "4 * (len div 4) = len" using assms(5) by simp
  show ?thesis
  proof (intro exI conjI allI impI)
    show "set_words sl ph chunk off len tag = Some (fold (\<lambda>w ph. case sl ((off + 4 * w) div chunk) of None \<Rightarrow> ph
             | Some b \<Rightarrow> ph(b := (ph b)((off + 4 * w) mod chunk div 4 := tag))) [0..<len div 4] ph)"
      using all by (simp add: set_words_def)
    fix adr assume "4 dvd adr" and "adr < chunk * length H"
    then show "cell H chunk (fold (\<lambda>w ph. case sl ((off + 4 * w) div chunk) of None \<Rightarrow> ph
             | Some b \<Rightarrow> ph(b := (ph b)((off + 4 * w) mod chunk div 4 := tag))) [0..<len div 4] ph) adr =
        (if off \<le> adr \<and> adr < off + len then tag else cell H chunk ph adr)"
      using fold_tags [OF assms(1,2,4) \<open>4 dvd adr\<close> _ at, of tag ph] assms(3) len
      by (simp add: div_less_iff_less_mult mult.commute)
  qed
qed

section \<open>Verification\<close>

lemma check_region_tagged:
  assumes "tagged H chunk ph a" and "4 dvd sa_off a" and "4 dvd sa_len a" and "0 < sa_len a"
    and "sa_off a + sa_len a \<le> chunk * n" and "sl = slots_from 0 n H"
  shows "check_region sl ph chunk a = Some True"
proof -
  have pos: "0 < chunk" using assms(4,5) by (cases chunk) auto
  have four: "4 \<le> sa_len a" using assms(3,4) by (auto elim: dvdE)
  have at: "sl (adr div chunk) = Some (H ! (adr div chunk))" if "adr < chunk * n" for adr
    using that pos assms(6) by (simp add: slots_from_def div_less_iff_less_mult mult.commute)
  have "4 dvd sa_off a + sa_len a - 4" using assms(2,3) four by (simp add: dvd_diff_nat)
  then have "cell H chunk ph (sa_off a + sa_len a - 4) = sa_tag a" and "cell H chunk ph (sa_off a) = sa_tag a"
    using assms(1,2) four by (simp_all add: tagged_def)
  then show ?thesis
    using four assms(5) by (simp add: check_region_def read_word_cell [of sl "sa_off a", OF at] read_word_cell [of sl "sa_off a + sa_len a - 4", OF at])
qed

lemma owner_verify_ok: "\<forall>a\<in>set as. check_region sl ph chunk a = Some True \<Longrightarrow> owner_verify sl ph chunk as = None"
  by (induction as) auto

lemma sub_verify_ok: "\<forall>a\<in>set as. check_region sl ph chunk a = Some True \<Longrightarrow> sub_verify sl ph chunk as = Some (length as)"
  by (induction as) auto

section \<open>The regions\<close>

text \<open>Region \<open>m\<close> of the table: one for each subscriber in the first chunk, then one for each in the grown chunk.\<close>

definition region_off :: "ShareParams \<Rightarrow> nat \<Rightarrow> nat" where
  "region_off p m = (if m < sp_nsub p then REGION * m else sp_chunk p * sp_nchk p + REGION * (m - sp_nsub p))"

lemma region_off_aligned:
  assumes "share_fits p"
  shows "4 dvd region_off p m"
  using share_fitsD(5) [OF assms] by (simp add: region_off_def REGION_def dvd_mult2)

lemma region_off_first:
  assumes "share_fits p" and "m < sp_nsub p"
  shows "region_off p m + REGION \<le> sp_chunk p * sp_nchk p"
proof -
  have "region_off p m + REGION = REGION * Suc m" using assms(2) by (simp add: region_off_def)
  also have "\<dots> \<le> REGION * sp_nsub p" using assms(2) by (intro mult_le_mono2) simp
  also have "\<dots> \<le> sp_chunk p * 1" using share_fitsD(6) [OF assms(1)] by (simp add: mult.commute)
  also have "\<dots> \<le> sp_chunk p * sp_nchk p" using share_fitsD(1) [OF assms(1)] by (intro mult_le_mono2) simp
  finally show ?thesis .
qed

lemma region_off_bound:
  assumes "share_fits p" and "m < 2 * sp_nsub p"
  shows "region_off p m + REGION \<le> sp_chunk p * (sp_nchk p + 1)"
proof (cases "m < sp_nsub p")
  case True
  then show ?thesis using region_off_first [OF assms(1)] by (simp add: distrib_left trans_le_add1)
next
  case False
  have "REGION * (m - sp_nsub p) + REGION = REGION * Suc (m - sp_nsub p)" by simp
  also have "\<dots> \<le> REGION * sp_nsub p" using assms(2) False by (intro mult_le_mono2) simp
  also have "\<dots> \<le> sp_chunk p" using share_fitsD(6) [OF assms(1)] by (simp add: mult.commute)
  finally show ?thesis using False by (simp add: region_off_def distrib_left)
qed

lemma region_off_apart:
  assumes "share_fits p" and "m < m'"
  shows "region_off p m + REGION \<le> region_off p m'"
proof (cases "m < sp_nsub p \<and> \<not> m' < sp_nsub p")
  case True
  then show ?thesis using region_off_first [OF assms(1), of m] by (simp add: region_off_def)
next
  case False
  have le: "REGION * Suc a \<le> REGION * b" if "a < b" for a b using that by (intro mult_le_mono2) simp
  show ?thesis using False assms(2) le [of m m'] le [of "m - sp_nsub p" "m' - sp_nsub p"]
    by (auto simp: region_off_def diff_less_mono)
qed

end
