(* ===== verification/Share_State.thy ===== *)
theory Share_State
  imports Share_Memory
begin

text \<open>
  The invariant of all processes while the owner is past its first chunks: one predicate for each part of
  the state, and what a change of one subscriber preserves.
\<close>

section \<open>The invariant\<close>

definition owner_at :: "ShareParams \<Rightarrow> nat \<Rightarrow> Share \<Rightarrow> bool" where
  "owner_at p t w \<longleftrightarrow> t \<le> 25 \<and> ow_todo (ws_owner w) = drop t (share_tail (sp_chunk p) (sp_nchk p)) \<and>
     ow_next (ws_owner w) \<le> sp_nsub p \<and> (ow_next (ws_owner w) \<noteq> 0 \<longrightarrow> is_each t)"

definition handles :: "Share \<Rightarrow> backing list" where
  "handles w = ow_handles (ws_owner w)"

text \<open>The owner's backings, the descriptor it is about to send, and the copy before it is switched in.\<close>

definition backings_at :: "ShareParams \<Rightarrow> nat \<Rightarrow> Share \<Rightarrow> bool" where
  "backings_at p t w \<longleftrightarrow>
     length (handles w) = (if t \<le> 3 then sp_nchk p else sp_nchk p + 1) \<and> distinct (handles w) \<and> (\<forall>b\<in>set (handles w). b < ws_fresh w) \<and>
     (t \<le> 1 \<longrightarrow> ow_fds (ws_owner w) = handles w) \<and>
     (t \<in> {4, 5} \<longrightarrow> ow_fd (ws_owner w) = handles w ! sp_nchk p) \<and>
     (t \<in> {13, 21} \<longrightarrow> ow_fd (ws_owner w) = handles w ! 0) \<and>
     (t \<in> {10, 18} \<longrightarrow> ow_new (ws_owner w) < ws_fresh w \<and> ow_new (ws_owner w) \<notin> set (handles w) \<and>
        ws_phys w (ow_new (ws_owner w)) = ws_phys w (handles w ! 0))"

definition ends_at :: "nat \<Rightarrow> Share \<Rightarrow> bool" where
  "ends_at t w \<longleftrightarrow>
     (ow_end (ws_owner w) = None \<longrightarrow> ow_slots (ws_owner w) = slots_from 0 (length (handles w)) (handles w)) \<and>
     (\<forall>e. ow_end (ws_owner w) = Some e \<longrightarrow> ow_slots (ws_owner w) = no_slots \<and> (e = ShareExit 1 \<or> e = ShareExit 0 \<and> t = 25))"

definition subs_at :: "ShareParams \<Rightarrow> nat \<Rightarrow> Share \<Rightarrow> bool" where
  "subs_at p t w \<longleftrightarrow> (\<forall>i < sp_nsub p. sub_at p (handles w) (stage t (ow_next (ws_owner w)) i) (ws_sub w i))"

definition regions :: "ShareParams \<Rightarrow> Share \<Rightarrow> nat" where
  "regions p w = (\<Sum>i < sp_nsub p. taken (sb_pc (ws_sub w i)))"

definition table_at :: "ShareParams \<Rightarrow> nat \<Rightarrow> nat \<Rightarrow> SharedState \<Rightarrow> bool" where
  "table_at p t n st \<longleftrightarrow>
     st_total_bytes st = sp_chunk p * (if t \<le> 4 then sp_nchk p else sp_nchk p + 1) \<and> length (st_allocs st) = n \<and>
     (\<forall>m<n. sa_off (st_allocs st ! m) = region_off p m \<and> sa_len (st_allocs st ! m) = REGION) \<and>
     st_bump st = (if t \<le> 4 then REGION * n else sp_chunk p * sp_nchk p + REGION * (n - sp_nsub p))"

text \<open>Every region is tagged, or its subscriber is about to tag it.\<close>

definition tags_at :: "ShareParams \<Rightarrow> Share \<Rightarrow> bool" where
  "tags_at p w \<longleftrightarrow>
     (\<forall>a\<in>set (st_allocs (ws_st w)). tagged (handles w) (sp_chunk p) (ws_phys w) a \<or> (\<exists>i < sp_nsub p. \<exists>k. sb_pc (ws_sub w i) = SubTag k a)) \<and>
     (\<forall>i < sp_nsub p. \<forall>k a. sb_pc (ws_sub w i) = SubTag k a \<longrightarrow> a \<in> set (st_allocs (ws_st w)))"

definition main_inv :: "ShareParams \<Rightarrow> nat \<Rightarrow> Share \<Rightarrow> bool" where
  "main_inv p t w \<longleftrightarrow> owner_at p t w \<and> backings_at p t w \<and> ends_at t w \<and> subs_at p t w \<and> (ws_listening w \<longleftrightarrow> 1 \<le> t) \<and>
     table_at p t (regions p w) (ws_st w) \<and> tags_at p w"

text \<open>No process died.\<close>

definition healthy :: "ShareParams \<Rightarrow> Share \<Rightarrow> bool" where
  "healthy p w \<longleftrightarrow> (\<forall>i < sp_nsub p. \<not> sb_dead (ws_sub w i)) \<and> ow_end (ws_owner w) \<noteq> Some (ShareExit 1)"

lemma main_invD:
  assumes "main_inv p t w"
  shows "owner_at p t w" and "backings_at p t w" and "ends_at t w" and "subs_at p t w" and "ws_listening w \<longleftrightarrow> 1 \<le> t"
    and "table_at p t (regions p w) (ws_st w)" and "tags_at p w"
  using assms by (simp_all add: main_inv_def)

lemma subs_atD: "main_inv p t w \<Longrightarrow> i < sp_nsub p \<Longrightarrow> sub_at p (handles w) (stage t (ow_next (ws_owner w)) i) (ws_sub w i)"
  by (simp add: main_inv_def subs_at_def)

section \<open>Number of regions\<close>

lemma regions_bounds:
  assumes "main_inv p t w"
  shows "regions p w \<le> 2 * sp_nsub p"
    and "\<forall>i < sp_nsub p. stage t (ow_next (ws_owner w)) i \<le> 2 \<Longrightarrow> regions p w \<le> sp_nsub p"
    and "\<forall>i < sp_nsub p. 2 \<le> stage t (ow_next (ws_owner w)) i \<Longrightarrow> sp_nsub p \<le> regions p w"
    and "\<forall>i < sp_nsub p. 4 \<le> stage t (ow_next (ws_owner w)) i \<Longrightarrow> regions p w = 2 * sp_nsub p"
proof -
  note at = subs_atD [OF assms]
  show "regions p w \<le> 2 * sp_nsub p"
    using sum_bounded_above [of "{..<sp_nsub p}" "\<lambda>i. taken (sb_pc (ws_sub w i))" 2] sub_at_taken(1) [OF at]
    by (simp add: regions_def)
  show "regions p w \<le> sp_nsub p" if "\<forall>i < sp_nsub p. stage t (ow_next (ws_owner w)) i \<le> 2"
    using sum_bounded_above [of "{..<sp_nsub p}" "\<lambda>i. taken (sb_pc (ws_sub w i))" 1] sub_at_taken(2) [OF at] that
    by (simp add: regions_def)
  show "sp_nsub p \<le> regions p w" if "\<forall>i < sp_nsub p. 2 \<le> stage t (ow_next (ws_owner w)) i"
    using sum_bounded_below [of "{..<sp_nsub p}" 1 "\<lambda>i. taken (sb_pc (ws_sub w i))"] sub_at_taken(3) [OF at] that
    by (simp add: regions_def)
  show "regions p w = 2 * sp_nsub p" if "\<forall>i < sp_nsub p. 4 \<le> stage t (ow_next (ws_owner w)) i"
  proof -
    have "regions p w = (\<Sum>i < sp_nsub p. 2)"
      unfolding regions_def using sub_at_taken(4) [OF at] that by (intro sum.cong) auto
    then show ?thesis by simp
  qed
qed

section \<open>Changing one subscriber\<close>

lemma put_sub_simps [simp]:
  "ws_owner (put_sub i s w) = ws_owner w" "ws_st (put_sub i s w) = ws_st w" "ws_phys (put_sub i s w) = ws_phys w"
  "ws_fresh (put_sub i s w) = ws_fresh w" "ws_listening (put_sub i s w) = ws_listening w" "handles (put_sub i s w) = handles w"
  "ws_sub (put_sub i s w) j = (if j = i then s else ws_sub w j)"
  by (simp_all add: put_sub_def handles_def)

lemma regions_put_sub:
  assumes "i < sp_nsub p"
  shows "regions p (put_sub i s w) + taken (sb_pc (ws_sub w i)) = regions p w + taken (sb_pc s)"
proof -
  have "regions p v = (\<Sum>j\<in>{..<sp_nsub p} - {i}. taken (sb_pc (ws_sub v j))) + taken (sb_pc (ws_sub v i))" for v
    using assms unfolding regions_def by (subst sum.remove [of _ i]) auto
  moreover have "(\<Sum>j\<in>{..<sp_nsub p} - {i}. taken (sb_pc (ws_sub (put_sub i s w) j))) =
      (\<Sum>j\<in>{..<sp_nsub p} - {i}. taken (sb_pc (ws_sub w j)))"
    by (intro sum.cong) auto
  ultimately show ?thesis by simp
qed

definition same_work :: "SubPc \<Rightarrow> SubPc \<Rightarrow> bool" where
  "same_work pc pc' \<longleftrightarrow> taken pc' = taken pc \<and> (\<forall>k a. pc' = SubTag k a \<longleftrightarrow> pc = SubTag k a)"

lemma same_work_refl [simp]: "same_work pc pc"
  by (simp add: same_work_def)

lemma tags_put_sub:
  assumes "tags_at p w" and "same_work (sb_pc (ws_sub w i)) (sb_pc s)"
  shows "tags_at p (put_sub i s w)"
proof -
  have "sb_pc (ws_sub (put_sub i s w) j) = SubTag k a \<longleftrightarrow> sb_pc (ws_sub w j) = SubTag k a" for j k a
    using assms(2) by (simp add: same_work_def)
  then show ?thesis using assms(1) by (simp only: tags_at_def put_sub_simps(2,3,6))
qed

lemma regions_same:
  assumes "i < sp_nsub p" and "same_work (sb_pc (ws_sub w i)) (sb_pc s)"
  shows "regions p (put_sub i s w) = regions p w"
  using regions_put_sub [OF assms(1), of s w] assms(2) by (simp add: same_work_def)

lemma main_put_sub:
  assumes "main_inv p t w" and "i < sp_nsub p" and "same_work (sb_pc (ws_sub w i)) (sb_pc s)"
    and "sub_at p (handles w) (stage t (ow_next (ws_owner w)) i) s"
  shows "main_inv p t (put_sub i s w)"
  using main_invD [OF assms(1)] assms(4) regions_same [OF assms(2,3)] tags_put_sub [OF _ assms(3)]
  by (simp add: main_inv_def owner_at_def backings_at_def ends_at_def subs_at_def)

lemma healthy_put_sub: "healthy p w \<Longrightarrow> \<not> sb_dead s \<Longrightarrow> healthy p (put_sub i s w)"
  by (simp add: healthy_def)

section \<open>The owner moves on\<close>

definition goes_to :: "OwnerPhase list \<Rightarrow> nat \<Rightarrow> Share \<Rightarrow> Share" where
  "goes_to ps k w = w\<lparr>ws_owner := (ws_owner w)\<lparr>ow_todo := ps, ow_next := k\<rparr>\<rparr>"

lemma goes_to_simps [simp]:
  "ow_todo (ws_owner (goes_to ps k w)) = ps" "ow_next (ws_owner (goes_to ps k w)) = k"
  "ow_fds (ws_owner (goes_to ps k w)) = ow_fds (ws_owner w)" "ow_fd (ws_owner (goes_to ps k w)) = ow_fd (ws_owner w)"
  "ow_new (ws_owner (goes_to ps k w)) = ow_new (ws_owner w)" "ow_end (ws_owner (goes_to ps k w)) = ow_end (ws_owner w)"
  "ow_slots (ws_owner (goes_to ps k w)) = ow_slots (ws_owner w)" "handles (goes_to ps k w) = handles w"
  "ws_sub (goes_to ps k w) = ws_sub w" "ws_st (goes_to ps k w) = ws_st w" "ws_phys (goes_to ps k w) = ws_phys w"
  "ws_fresh (goes_to ps k w) = ws_fresh w" "ws_listening (goes_to ps k w) = ws_listening w"
  "regions p (goes_to ps k w) = regions p w" "tags_at p (goes_to ps k w) = tags_at p w" "healthy p (goes_to ps k w) = healthy p w"
  by (simp_all add: goes_to_def handles_def regions_def tags_at_def healthy_def)

lemma goes_on_to:
  assumes "ow_end (ws_owner w) = None"
  shows "owner_goes_on (ow_todo_update (\<lambda>_. ps)) w = goes_to ps (ow_next (ws_owner w)) w"
    and "owner_goes_on (\<lambda>q. q\<lparr>ow_todo := ps, ow_next := 0\<rparr>) w = goes_to ps 0 w"
    and "owner_goes_on (\<lambda>q. q\<lparr>ow_next := ow_next q + 1\<rparr>) w = goes_to (ow_todo (ws_owner w)) (ow_next (ws_owner w) + 1) w"
  using assms by (simp_all add: owner_goes_on_def goes_to_def)

lemma goes_on_ended: "ow_end (ws_owner w) = Some e \<Longrightarrow> owner_goes_on f w = w"
  by (simp add: owner_goes_on_def)

lemma owner_ends_simps [simp]:
  "ow_end (ws_owner (owner_ends e w)) = Some e" "ow_slots (ws_owner (owner_ends e w)) = no_slots"
  "ow_todo (ws_owner (owner_ends e w)) = ow_todo (ws_owner w)" "ow_next (ws_owner (owner_ends e w)) = ow_next (ws_owner w)"
  "ow_fds (ws_owner (owner_ends e w)) = ow_fds (ws_owner w)" "ow_fd (ws_owner (owner_ends e w)) = ow_fd (ws_owner w)"
  "ow_new (ws_owner (owner_ends e w)) = ow_new (ws_owner w)" "handles (owner_ends e w) = handles w"
  "ws_sub (owner_ends e w) = ws_sub w" "ws_st (owner_ends e w) = ws_st w" "ws_phys (owner_ends e w) = ws_phys w"
  "ws_fresh (owner_ends e w) = ws_fresh w" "ws_listening (owner_ends e w) = ws_listening w"
  "regions p (owner_ends e w) = regions p w" "tags_at p (owner_ends e w) = tags_at p w"
  by (simp_all add: owner_ends_def handles_def regions_def tags_at_def no_slots_def)

lemma main_owner_ends:
  assumes "main_inv p t w" and "e = ShareExit 1 \<or> e = ShareExit 0 \<and> t = 25"
  shows "main_inv p t (owner_ends e w)"
  using assms by (simp add: main_inv_def owner_at_def backings_at_def ends_at_def subs_at_def)

text \<open>The next subscriber of an \<open>Each\<close>, and the phase after it.\<close>

lemma main_next_sub:
  assumes "main_inv p t w" and "is_each t" and "ow_next (ws_owner w) = i" and "i < sp_nsub p"
    and "same_work (sb_pc (ws_sub w i)) (sb_pc s)" and "sub_at p (handles w) (exchanges t + 1) s"
  shows "main_inv p t (goes_to (ow_todo (ws_owner w)) (i + 1) (put_sub i s w))"
proof -
  have "stage t (i + 1) j = (if j = i then exchanges t + 1 else stage t i j)" for j
    using assms(2) by (auto simp: stage_def)
  then show ?thesis
    using main_invD [OF assms(1)] assms regions_same [OF assms(4,5)] tags_put_sub [OF _ assms(5)]
    by (simp add: main_inv_def owner_at_def backings_at_def ends_at_def subs_at_def)
qed

lemma main_next_phase:
  assumes "main_inv p t w" and "is_each t" and "sp_nsub p \<le> ow_next (ws_owner w)"
  shows "main_inv p (Suc t) (goes_to (drop (Suc t) (share_tail (sp_chunk p) (sp_nchk p))) 0 w)"
proof -
  have next': "ow_next (ws_owner w) = sp_nsub p" using main_invD(1) [OF assms(1)] assms(3) by (simp add: owner_at_def)
  have "stage (Suc t) 0 j = stage t (sp_nsub p) j" if "j < sp_nsub p" for j
    using assms(2) that by (simp add: stage_def exchanges_Suc)
  then have "subs_at p (Suc t) (goes_to (drop (Suc t) (share_tail (sp_chunk p) (sp_nchk p))) 0 w)"
    using main_invD(4) [OF assms(1)] next' by (simp add: subs_at_def)
  moreover have "t \<in> {1, 2, 5, 6, 7, 8, 13, 14, 15, 16, 21, 22, 23}" using assms(2) by (simp add: is_each_def)
  then have "Suc t \<le> 25" "Suc t \<notin> {4, 5, 10, 13, 18, 21}" "Suc t \<le> 1 \<longleftrightarrow> False" "(Suc t \<le> 3) = (t \<le> 3)" "(Suc t \<le> 4) = (t \<le> 4)" "t \<noteq> 25" "1 \<le> t"
    by auto
  ultimately show ?thesis
    using main_invD [OF assms(1)]
    by (auto simp: main_inv_def owner_at_def backings_at_def ends_at_def table_at_def split: option.splits)
qed

end
