(* ===== verification/Share_Subscriber.thy ===== *)
theory Share_Subscriber
  imports Share_State
begin

text \<open>
  Every step of a subscriber, and its death, keeps the invariant; while all processes live, no step of a
  subscriber is its death.
\<close>

section \<open>Stages and phases\<close>

lemma exchanges_mono: "t \<le> u \<Longrightarrow> exchanges t \<le> exchanges u"
  unfolding exchanges_def by (rule card_mono) auto

lemma stage_25 [simp]: "stage 25 k i = 13"
  by (simp add: stage_def is_each_def)

lemma stage_pass1: "stage t k i = 1 \<Longrightarrow> 1 \<le> t \<and> t \<le> 2"
proof -
  assume 1: "stage t k i = 1"
  have "\<not> 3 \<le> t" using exchanges_mono [of 3 t] stage_ge [of t k i] 1 by auto
  moreover have "t \<noteq> 0" using 1 by (cases "t = 0") (simp_all add: stage_def is_each_def)
  ultimately show ?thesis by simp
qed

lemma stage_pass2: "stage t k i = 3 \<Longrightarrow> 5 \<le> t \<and> t \<le> 6"
proof -
  assume 3: "stage t k i = 3"
  have "\<not> 7 \<le> t" using exchanges_mono [of 7 t] stage_ge [of t k i] 3 by auto
  moreover have "\<not> Suc t \<le> 5" using exchanges_mono [of "Suc t" 5] stage_le [of t k i] 3 by fastforce
  ultimately show ?thesis by simp
qed

section \<open>Death\<close>

lemma sub_dies_simps [simp]:
  "sb_pc (sub_dies s) = sb_pc s" "sb_down (sub_dies s) = sb_down s" "sb_up (sub_dies s) = sb_up s" "sb_chunk (sub_dies s) = sb_chunk s"
  "sb_dead (sub_dies s)" "sb_slots (sub_dies s) = no_slots"
  by (simp_all add: sub_dies_def no_slots_def)

lemma looks_dies: "looks pc down up sl s \<Longrightarrow> looks pc down up sl (sub_dies s)"
  by (simp add: looks_def)

lemma sub_at_dies:
  assumes "sub_at p H n s"
  shows "sub_at p H n (sub_dies s)"
  using assms by cases (simp_all add: sub_at.intros looks_dies)

lemma main_sub_dies: "main_inv p t w \<Longrightarrow> i < sp_nsub p \<Longrightarrow> main_inv p t (put_sub i (sub_dies (ws_sub w i)) w)"
  by (rule main_put_sub) (simp_all add: subs_atD sub_at_dies)

section \<open>Mapping a whole list\<close>

lemma slots_from_upd: "(slots_from 0 n H)(n \<mapsto> H ! n) = slots_from 0 (Suc n) H"
  by (auto simp: slots_from_def)

lemma slots_from_first: "0 < n \<Longrightarrow> (slots_from 1 n H)(0 \<mapsto> H ! 0) = slots_from 0 n H"
  by (auto simp: slots_from_def)

lemma slots_from_drop: "(slots_from 0 n H)(0 := None) = slots_from 1 n H"
  by (auto simp: slots_from_def)

lemma slots_from_empty: "slots_from 0 0 H = no_slots"
  by (auto simp: slots_from_def no_slots_def)

lemma slots_from_outside [simp]: "b \<le> j \<Longrightarrow> slots_from a b H j = None" "j < a \<Longrightarrow> slots_from a b H j = None"
  by (simp_all add: slots_from_def)

lemma slots_from_inside [simp]: "a \<le> j \<Longrightarrow> j < b \<Longrightarrow> slots_from a b H j = Some (H ! j)"
  by (simp add: slots_from_def)

lemma map_all_fresh:
  assumes "\<not> sb_dead s" and "sb_slots s = no_slots" and "n \<le> length fds" and "length fds \<le> MAX_CHUNKS"
  shows "fold (\<lambda>i. sub_map_chunk i (fds ! i)) [0..<n] s = s\<lparr>sb_slots := slots_from 0 n fds\<rparr>"
  using assms(3)
proof (induction n)
  case 0
  then show ?case using assms(2) by (cases s) (simp add: slots_from_empty)
next
  case (Suc n)
  then show ?case using assms(1,4) slots_from_upd [of n fds] by (simp add: sub_map_chunk_def)
qed

lemma map_all_slots:
  assumes "\<not> sb_dead s" and "sb_slots s = no_slots" and "length fds \<le> MAX_CHUNKS"
  shows "map_all fds s = s\<lparr>sb_slots := slots_from 0 (length fds) fds\<rparr>"
  using map_all_fresh [OF assms(1,2) order_refl assms(3)] by (simp add: map_all_def)

lemma slots_from_take: "n \<le> length H \<Longrightarrow> slots_from 0 n (take n H) = slots_from 0 n H"
  by (auto simp: slots_from_def)

section \<open>Messages\<close>

text \<open>What a live subscriber does with the next message: it stays at its stage, alive, and takes no region.\<close>

definition handled :: "ShareParams \<Rightarrow> backing list \<Rightarrow> nat \<Rightarrow> SubPc \<Rightarrow> ShareSub \<Rightarrow> bool" where
  "handled p H n pc s \<longleftrightarrow> sub_at p H n s \<and> same_work pc (sb_pc s) \<and> \<not> sb_dead s"

lemma handledD: "handled p H n pc s \<Longrightarrow> sub_at p H n s" "handled p H n pc s \<Longrightarrow> same_work pc (sb_pc s)" "handled p H n pc s \<Longrightarrow> \<not> sb_dead s"
  by (simp_all add: handled_def)

lemma header_handled:
  assumes "sub_at p H n s" and "sb_pc s = SubHeader" and "sb_down s = m # ms" and "\<not> sb_dead s"
    and "share_fits p" and "sp_nchk p \<le> length H"
  shows "handled p H n SubHeader (on_header m (s\<lparr>sb_down := ms\<rparr>))"
proof -
  have s: "n = 1" "m = header_msg p H" "ms = []" "sb_up s = 0" "sb_slots s = no_slots"
    using assms(1-4) by (cases; auto simp: looks_def working_def)+
  have fds: "recv_fds m = take (sp_nchk p) H"
    using share_fitsD(2) [OF assms(5)] by (simp add: s recv_fds_def header_msg_def MAX_CHUNKS_def FDS_ROOM_def)
  have size': "sm_chunk_size m = sp_chunk p" by (simp add: s header_msg_def share_msg_def)
  have "on_header m (s\<lparr>sb_down := ms\<rparr>) =
      s\<lparr>sb_down := [], sb_chunk := sp_chunk p, sb_pc := SubAlloc 1, sb_slots := slots_from 0 (sp_nchk p) H\<rparr>"
    using assms(4,6) s fds size' share_fitsD(2) [OF assms(5)]
    by (simp add: on_header_def map_all_slots slots_from_take MAX_CHUNKS_def)
  then show ?thesis
    using assms(4) s by (auto simp: handled_def looks_def working_def same_work_def intro!: sub_at.pass1)
qed

lemma add_chunk_handled:
  assumes "sub_at p H n s" and "sb_pc s = SubAdd" and "sb_down s = m # ms" and "\<not> sb_dead s" and "share_fits p"
  shows "handled p H n SubAdd (on_add_chunk m (s\<lparr>sb_down := ms\<rparr>))"
proof -
  have s: "n = 3" "m = add_msg p H" "ms = []" "sb_up s = 0" "sb_slots s = slots_from 0 (sp_nchk p) H" "sb_chunk s = sp_chunk p"
    using assms(1-4) by (cases; auto simp: looks_def working_def)+
  have m: "sm_type m = MSG_ADD_CHUNK" "recv_fds m = [H ! sp_nchk p]" "sm_chunk_count m = sp_nchk p + 1"
    by (simp_all add: s add_msg_def share_msg_def recv_fds_def MAX_CHUNKS_def FDS_ROOM_def)
  have "on_add_chunk m (s\<lparr>sb_down := ms\<rparr>) = s\<lparr>sb_down := [], sb_pc := SubAlloc 2, sb_slots := slots_from 0 (sp_nchk p + 1) H\<rparr>"
    using assms(4) s m share_fitsD(2) [OF assms(5)] by (simp add: on_add_chunk_def sub_map_chunk_def MAX_CHUNKS_def slots_from_upd [unfolded Suc_eq_plus1])
  then show ?thesis
    using assms(4) s by (auto simp: handled_def looks_def working_def same_work_def intro!: sub_at.pass2)
qed

lemma control_message:
  assumes "sub_at p H n s" and "sb_pc s = SubServe" and "sb_down s = m # ms" and "\<not> sb_dead s"
  shows "ms = [] \<and> sb_up s = 0 \<and> sb_chunk s = sp_chunk p \<and>
    (n \<in> {5, 9} \<and> m = revoke_msg p \<and> sb_slots s = slots_from 0 (sp_nchk p + 1) H \<or>
     n \<in> {7, 11} \<and> m = remap_msg p H \<and> sb_slots s = slots_from 1 (sp_nchk p + 1) H \<or>
     n = 13 \<and> m = go_msg \<and> sb_slots s = slots_from 0 (sp_nchk p + 1) H)"
  using assms by cases (auto simp: looks_def working_def)

lemma control_handled:
  assumes "sub_at p H n s" and "sb_pc s = SubServe" and "sb_down s = m # ms" and "\<not> sb_dead s"
  shows "handled p H n SubServe (on_control m (s\<lparr>sb_down := ms\<rparr>))"
proof -
  note c = control_message [OF assms]
  then consider (revoke) "n \<in> {5, 9}" "m = revoke_msg p" "sb_slots s = slots_from 0 (sp_nchk p + 1) H"
    | (remap) "n \<in> {7, 11}" "m = remap_msg p H" "sb_slots s = slots_from 1 (sp_nchk p + 1) H"
    | (go) "n = 13" "m = go_msg" "sb_slots s = slots_from 0 (sp_nchk p + 1) H"
    by blast
  then show ?thesis
  proof cases
    case revoke
    then have "on_control m (s\<lparr>sb_down := ms\<rparr>) = s\<lparr>sb_down := [], sb_pc := SubServeAck, sb_slots := slots_from 1 (sp_nchk p + 1) H\<rparr>"
      using c by (simp add: on_control_def revoke_msg_def share_msg_def sub_unmap_chunk_def slots_from_drop)
    then show ?thesis using assms(4) c revoke by (simp add: handled_def sub_at.revoking looks_def same_work_def)
  next
    case remap
    then have "on_control m (s\<lparr>sb_down := ms\<rparr>) = s\<lparr>sb_down := [], sb_pc := SubServeAck, sb_slots := slots_from 0 (sp_nchk p + 1) H\<rparr>"
      using c assms(4)
      by (simp add: on_control_def remap_msg_def share_msg_def recv_fds_def MAX_CHUNKS_def FDS_ROOM_def sub_map_chunk_def slots_from_first)
    then show ?thesis using assms(4) c remap by (simp add: handled_def sub_at.remapping looks_def same_work_def)
  next
    case go
    then have "on_control m (s\<lparr>sb_down := ms\<rparr>) = s\<lparr>sb_down := [], sb_pc := SubVerify\<rparr>"
      using c by (simp add: on_control_def go_msg_def share_msg_def)
    then show ?thesis using assms(4) c go by (simp add: handled_def sub_at.verifying looks_def same_work_def)
  qed
qed

section \<open>Acknowledging\<close>

lemma acking:
  assumes "sub_at p H n s" and "\<not> sb_dead s" and "sb_pc s = SubAck pass \<or> sb_pc s = SubServeAck"
  shows "sb_down s = [] \<and> sb_up s = 0 \<and> sb_chunk s = sp_chunk p \<and>
    (sb_pc s = SubAck 1 \<and> n = 1 \<and> sb_slots s = slots_from 0 (sp_nchk p) H \<or>
     sb_pc s = SubAck 2 \<and> n = 3 \<and> sb_slots s = slots_from 0 (sp_nchk p + 1) H \<or>
     sb_pc s = SubServeAck \<and> n \<in> {5, 9} \<and> sb_slots s = slots_from 1 (sp_nchk p + 1) H \<or>
     sb_pc s = SubServeAck \<and> n \<in> {7, 11} \<and> sb_slots s = slots_from 0 (sp_nchk p + 1) H)"
  using assms by cases (auto simp: looks_def working_def)

lemma acked_at:
  assumes "sub_at p H n s" and "\<not> sb_dead s"
    and "sb_pc s = SubAck pass \<and> pc = (if pass = 1 then SubAdd else SubServe) \<or> sb_pc s = SubServeAck \<and> pc = SubServe"
  shows "handled p H n (sb_pc s) (s\<lparr>sb_up := sb_up s + 1, sb_pc := pc\<rparr>) \<and> n \<noteq> 13"
proof -
  have "sb_pc s = SubAck pass \<or> sb_pc s = SubServeAck" using assms(3) by auto
  note a = acking [OF assms(1,2) this]
  then consider (p1) "sb_pc s = SubAck 1" "n = 1" "sb_slots s = slots_from 0 (sp_nchk p) H"
    | (p2) "sb_pc s = SubAck 2" "n = 3" "sb_slots s = slots_from 0 (sp_nchk p + 1) H"
    | (rv) "sb_pc s = SubServeAck" "n \<in> {5, 9}" "sb_slots s = slots_from 1 (sp_nchk p + 1) H"
    | (rm) "sb_pc s = SubServeAck" "n \<in> {7, 11}" "sb_slots s = slots_from 0 (sp_nchk p + 1) H"
    by blast
  then show ?thesis
  proof cases
    case p1
    then show ?thesis using a assms(2,3) by (simp add: handled_def looks_def same_work_def sub_at.acked1)
  next
    case p2
    then show ?thesis using a assms(2,3) by (simp add: handled_def looks_def same_work_def sub_at.acked2)
  next
    case rv
    then show ?thesis using a assms(2,3) by (auto simp: handled_def looks_def same_work_def sub_at.revoked)
  next
    case rm
    then show ?thesis using a assms(2,3) by (auto simp: handled_def looks_def same_work_def sub_at.remapped)
  qed
qed

section \<open>Waiting for an owner that ended\<close>

lemma ended_stage:
  assumes "main_inv p t w" and "healthy p w" and "ow_end (ws_owner w) \<noteq> None"
  shows "t = 25"
  using main_invD(3) [OF assms(1)] assms(2,3) by (auto simp: ends_at_def healthy_def)

lemma waits_not_13:
  assumes "sub_at p H 13 s" and "sb_pc s \<in> {SubHeader, SubAdd, SubServe}"
  shows "sb_down s \<noteq> []"
  using assms by cases (auto simp: looks_def working_def)

definition kept :: "ShareParams \<Rightarrow> nat \<Rightarrow> Share \<Rightarrow> Share \<Rightarrow> bool" where
  "kept p t w w' \<longleftrightarrow> main_inv p t w' \<and> (healthy p w \<longrightarrow> healthy p w')"

lemma kept_handled:
  assumes "main_inv p t w" and "i < sp_nsub p"
    and "handled p (handles w) (stage t (ow_next (ws_owner w)) i) (sb_pc (ws_sub w i)) s"
  shows "kept p t w (put_sub i s w)"
  using main_put_sub [OF assms(1,2)] healthy_put_sub handledD [OF assms(3)] by (simp add: kept_def)

lemma kept_recv:
  assumes "main_inv p t w" and "i < sp_nsub p" and "sb_pc (ws_sub w i) \<in> {SubHeader, SubAdd, SubServe}"
    and "sub_recv i f w = Some w'"
    and "\<And>m ms. sb_down (ws_sub w i) = m # ms \<Longrightarrow>
      handled p (handles w) (stage t (ow_next (ws_owner w)) i) (sb_pc (ws_sub w i)) (f m ((ws_sub w i)\<lparr>sb_down := ms\<rparr>))"
  shows "kept p t w w'"
proof (cases "sb_down (ws_sub w i)")
  case Nil
  then have w': "w' = put_sub i (sub_dies (ws_sub w i)) w" and "ow_end (ws_owner w) \<noteq> None"
    using assms(4) by (auto simp: sub_recv_def split: if_splits)
  moreover have "\<not> healthy p w"
    using ended_stage [OF assms(1)] waits_not_13 [OF _ assms(3)] subs_atD [OF assms(1,2)] Nil \<open>ow_end (ws_owner w) \<noteq> None\<close> by auto
  ultimately show ?thesis using main_sub_dies [OF assms(1,2)] by (simp add: kept_def)
next
  case (Cons m ms)
  then show ?thesis using assms(4) kept_handled [OF assms(1,2) assms(5) [OF Cons]] by (simp add: sub_recv_def Let_def)
qed

lemma kept_ack:
  assumes "main_inv p t w" and "i < sp_nsub p" and "\<not> sb_dead (ws_sub w i)"
    and "sb_pc (ws_sub w i) = SubAck pass \<and> pc = (if pass = 1 then SubAdd else SubServe) \<or> sb_pc (ws_sub w i) = SubServeAck \<and> pc = SubServe"
  shows "kept p t w (sub_ack i pc w)"
proof -
  note a = acked_at [OF subs_atD [OF assms(1,2)] assms(3,4)]
  show ?thesis
  proof (cases "ow_end (ws_owner w) = None")
    case True
    then show ?thesis using kept_handled [OF assms(1,2)] a by (simp add: sub_ack_def Let_def)
  next
    case False
    then have "\<not> healthy p w" using ended_stage [OF assms(1)] a by auto
    then show ?thesis using main_sub_dies [OF assms(1,2)] False by (simp add: kept_def sub_ack_def Let_def)
  qed
qed

end
