(* ===== verification/Share_Regions.thy ===== *)
theory Share_Regions
  imports Share_Subscriber
begin

text \<open>
  The steps of a subscriber that touch what the processes share: taking a region, tagging it and checking
  all of them. Together with the messages they give the lemma for every step of a subscriber.
\<close>

section \<open>Taking a region\<close>

lemma regions_less:
  assumes "i < sp_nsub p" and "\<forall>j < sp_nsub p. taken (sb_pc (ws_sub w j)) \<le> c" and "taken (sb_pc (ws_sub w i)) < c"
  shows "regions p w < c * sp_nsub p"
proof -
  have "regions p w < (\<Sum>j < sp_nsub p. c)"
    unfolding regions_def using assms by (intro sum_strict_mono_ex1) auto
  then show ?thesis by (simp add: mult.commute)
qed

lemma allocating:
  assumes "sub_at p H n s" and "sb_pc s = SubAlloc pass"
  shows "n = 1 \<and> pass = 1 \<or> n = 3 \<and> pass = 2"
  using assms by cases (auto simp: looks_def working_def)

lemma sub_at_works:
  assumes "sub_at p H n s" and "working pass (sb_pc s)" and "working pass pc"
  shows "sub_at p H n (s\<lparr>sb_pc := pc\<rparr>)"
  using assms(1)
proof cases
  case (pass1 q)
  moreover have "working 1 pc" using pass1 assms(2,3) by (auto simp: looks_def working_def)
  ultimately show ?thesis using sub_at.pass1 [of pc p H "s\<lparr>sb_pc := pc\<rparr>"] by (simp add: looks_def)
next
  case (pass2 q)
  moreover have "working 2 pc" using pass2 assms(2,3) by (auto simp: looks_def working_def)
  ultimately show ?thesis using sub_at.pass2 [of pc p H "s\<lparr>sb_pc := pc\<rparr>"] by (simp add: looks_def)
qed (use assms(2) in \<open>auto simp: looks_def working_def\<close>)

lemma pass_phase:
  assumes "main_inv p t w" and "i < sp_nsub p" and "sb_pc (ws_sub w i) = SubAlloc pass \<or> sb_pc (ws_sub w i) = SubTag pass a"
  shows "pass = 1 \<and> t \<in> {1, 2} \<and> regions p w \<le> sp_nsub p \<or> pass = 2 \<and> t \<in> {5, 6} \<and> sp_nsub p \<le> regions p w"
proof -
  have "stage t (ow_next (ws_owner w)) i = 1 \<and> pass = 1 \<or> stage t (ow_next (ws_owner w)) i = 3 \<and> pass = 2"
    using allocating sub_at_tag subs_atD [OF assms(1,2)] assms(3) by blast
  then show ?thesis
  proof (elim disjE conjE)
    assume 1: "stage t (ow_next (ws_owner w)) i = 1" "pass = 1"
    then have t: "1 \<le> t" "t \<le> 2" using stage_pass1 by blast+
    then have "\<forall>j. stage t (ow_next (ws_owner w)) j \<le> 2"
      using exchanges_mono [of "Suc t" 3] stage_le [of t "ow_next (ws_owner w)"] by (auto intro: order_trans)
    then show ?thesis using regions_bounds(2) [OF assms(1)] t 1(2) by auto
  next
    assume 3: "stage t (ow_next (ws_owner w)) i = 3" "pass = 2"
    then have t: "5 \<le> t" "t \<le> 6" using stage_pass2 by blast+
    then have "\<forall>j. 2 \<le> stage t (ow_next (ws_owner w)) j"
      using exchanges_mono [of 5 t] stage_ge [of t "ow_next (ws_owner w)"] by (auto intro: order_trans)
    then show ?thesis using regions_bounds(3) [OF assms(1)] t 3(2) by auto
  qed
qed

lemma next_region:
  assumes "main_inv p t w" and "i < sp_nsub p" and "sb_pc (ws_sub w i) = SubAlloc pass"
  shows "regions p w < 2 * sp_nsub p" and "pass = 1 \<Longrightarrow> regions p w < sp_nsub p"
proof -
  note at = subs_atD [OF assms(1)]
  have pass: "stage t (ow_next (ws_owner w)) i = 1 \<and> pass = 1 \<or> stage t (ow_next (ws_owner w)) i = 3 \<and> pass = 2"
    using allocating [OF at [OF assms(2)] assms(3)] .
  then show "regions p w < 2 * sp_nsub p"
    using regions_less [OF assms(2), of w 2] sub_at_taken(1) [OF at] assms(3) by auto
  assume "pass = 1"
  then have 1: "stage t (ow_next (ws_owner w)) i = 1" using pass by auto
  then have "t \<le> 2" using stage_pass1 by blast
  then have "stage t (ow_next (ws_owner w)) j \<le> 2" for j
    using exchanges_mono [of "Suc t" 3] stage_le [of t "ow_next (ws_owner w)" j] by simp
  then show "regions p w < sp_nsub p"
    using regions_less [OF assms(2), of w 1] sub_at_taken(2) [OF at] assms(3) \<open>pass = 1\<close> by simp
qed

lemma bump_is_next_region:
  assumes "main_inv p t w" and "i < sp_nsub p" and "sb_pc (ws_sub w i) = SubAlloc pass" and "share_fits p"
  shows "st_bump (ws_st w) = region_off p (regions p w) \<and> st_bump (ws_st w) + REGION \<le> st_total_bytes (ws_st w) \<and>
    length (st_allocs (ws_st w)) < MAX_ALLOCS"
proof -
  note tab = main_invD(6) [OF assms(1)]
  have n: "length (st_allocs (ws_st w)) = regions p w" using tab by (simp add: table_at_def)
  have len: "regions p w < MAX_ALLOCS"
    using next_region(1) [OF assms(1-3)] share_fitsD(3) [OF assms(4)] by (simp add: MAX_ALLOCS_def)
  have "pass = 1 \<and> t \<in> {1, 2} \<and> regions p w \<le> sp_nsub p \<or> pass = 2 \<and> t \<in> {5, 6} \<and> sp_nsub p \<le> regions p w"
    using pass_phase [OF assms(1,2)] assms(3) by blast
  then show ?thesis
  proof (elim disjE conjE)
    assume 1: "pass = 1" "t \<in> {1, 2}"
    have "regions p w < sp_nsub p" by (rule next_region(2) [OF assms(1-3) 1(1)])
    then have "REGION * regions p w = region_off p (regions p w)" "region_off p (regions p w) + REGION \<le> sp_chunk p * sp_nchk p"
      using region_off_first [OF assms(4)] by (simp_all add: region_off_def)
    then show ?thesis using tab 1(2) n len by (auto simp: table_at_def)
  next
    assume 2: "t \<in> {5, 6}" "sp_nsub p \<le> regions p w"
    have "region_off p (regions p w) + REGION \<le> sp_chunk p * (sp_nchk p + 1)"
      by (rule region_off_bound [OF assms(4) next_region(1) [OF assms(1-3)]])
    moreover have "sp_chunk p * sp_nchk p + REGION * (regions p w - sp_nsub p) = region_off p (regions p w)"
      using 2(2) by (simp add: region_off_def)
    ultimately show ?thesis using tab 2(1) n len by (auto simp: table_at_def)
  qed
qed

lemma table_grows:
  assumes "table_at p t n st" and "st_bump st = region_off p n" and "n < sp_nsub p \<and> t \<le> 4 \<or> sp_nsub p \<le> n \<and> 5 \<le> t"
    and "sa_off a = region_off p n" and "sa_len a = REGION"
  shows "table_at p t (n + 1) (st\<lparr>st_bump := region_off p n + REGION, st_allocs := st_allocs st @ [a]\<rparr>)"
proof -
  have "REGION * (n + 1 - sp_nsub p) = REGION * (n - sp_nsub p) + REGION" if "sp_nsub p \<le> n"
    using that by (auto dest!: le_Suc_ex simp: distrib_left)
  then have "region_off p n + REGION = (if t \<le> 4 then REGION * (n + 1) else sp_chunk p * sp_nchk p + REGION * (n + 1 - sp_nsub p))"
    using assms(3) by (auto simp: region_off_def distrib_left)
  moreover have "\<forall>m<n + 1. sa_off ((st_allocs st @ [a]) ! m) = region_off p m \<and> sa_len ((st_allocs st @ [a]) ! m) = REGION"
    using assms(1,4,5) by (auto simp: table_at_def nth_append less_Suc_eq [unfolded Suc_eq_plus1])
  ultimately show ?thesis using assms(1) by (simp add: table_at_def)
qed

definition take_region :: "nat \<Rightarrow> ShareSub \<Rightarrow> SharedState \<Rightarrow> Share \<Rightarrow> Share" where
  "take_region i s st w = put_sub i s (w\<lparr>ws_st := st\<rparr>)"

lemma take_region_simps [simp]:
  "ws_owner (take_region i s st w) = ws_owner w" "ws_st (take_region i s st w) = st" "ws_phys (take_region i s st w) = ws_phys w"
  "ws_fresh (take_region i s st w) = ws_fresh w" "ws_listening (take_region i s st w) = ws_listening w"
  "handles (take_region i s st w) = handles w" "ws_sub (take_region i s st w) j = (if j = i then s else ws_sub w j)"
  "regions p (take_region i s st w) = regions p (put_sub i s w)"
  by (simp_all add: take_region_def put_sub_def handles_def regions_def)

lemma alloc_kept:
  assumes "main_inv p t w" and "i < sp_nsub p" and "sb_pc (ws_sub w i) = SubAlloc pass" and "\<not> sb_dead (ws_sub w i)" and "share_fits p"
    and "sub_step p i w = Some w'"
  shows "kept p t w w'"
proof -
  let ?s = "ws_sub w i" and ?st = "ws_st w" and ?n = "regions p w"
  note b = bump_is_next_region [OF assms(1-3,5)] and at = subs_atD [OF assms(1,2)] and tab = main_invD(6) [OF assms(1)]
  define a where "a = \<lparr>sa_off = st_bump ?st, sa_len = REGION, sa_pid = sp_pid p i, sa_tag = pass_tag pass (sp_pid p i)\<rparr>"
  define st where "st = ?st\<lparr>st_bump := region_off p ?n + REGION, st_allocs := st_allocs ?st @ [a]\<rparr>"
  define s where "s = ?s\<lparr>sb_pc := SubTag pass a\<rparr>"
  have w': "w' = take_region i s st w"
    using assms(3,4,6) b
    by (simp add: sub_step_def Let_def sub_gone_def shared_alloc_def a_def st_def s_def take_region_def split: option.splits)
  have pass: "stage t (ow_next (ws_owner w)) i = 1 \<and> pass = 1 \<or> stage t (ow_next (ws_owner w)) i = 3 \<and> pass = 2"
    using allocating [OF at assms(3)] .
  have sub: "sub_at p (handles w) (stage t (ow_next (ws_owner w)) i) s"
    using sub_at_works [OF at, of pass] assms(3) by (simp add: s_def working_def)
  have phase: "?n < sp_nsub p \<and> t \<le> 4 \<or> sp_nsub p \<le> ?n \<and> 5 \<le> t"
    using pass_phase [OF assms(1,2), of pass] next_region(2) [OF assms(1-3)] assms(3) by auto
  have "regions p w' = ?n + 1"
    using regions_put_sub [OF assms(2), of s w] assms(3) pass by (auto simp: w' s_def)
  then have table: "table_at p t (regions p w') (ws_st w')"
    using table_grows [OF tab _ phase, of a] b by (simp add: w' st_def a_def)
  have tags: "tags_at p w'"
  proof -
    have "tagged (handles w) (sp_chunk p) (ws_phys w) b \<or> (\<exists>j < sp_nsub p. \<exists>k. sb_pc (ws_sub w' j) = SubTag k b)"
      if "b = a \<or> b \<in> set (st_allocs ?st)" for b
    proof (cases "b = a")
      case True
      then have "sb_pc (ws_sub w' i) = SubTag pass b" by (simp add: w' s_def)
      then show ?thesis using assms(2) by blast
    next
      case False
      then have "tagged (handles w) (sp_chunk p) (ws_phys w) b \<or> (\<exists>j < sp_nsub p. \<exists>k. sb_pc (ws_sub w j) = SubTag k b)"
        using main_invD(7) [OF assms(1)] that by (simp add: tags_at_def)
      moreover have "sb_pc (ws_sub w j) = SubTag k b \<Longrightarrow> sb_pc (ws_sub w' j) = SubTag k b" for j k
        using assms(3) by (auto simp: w')
      ultimately show ?thesis by blast
    qed
    moreover have "sb_pc (ws_sub w' j) = SubTag k b \<Longrightarrow> b = a \<or> sb_pc (ws_sub w j) = SubTag k b" for j k b
      by (simp add: w' s_def split: if_splits)
    then have "\<forall>j < sp_nsub p. \<forall>k b. sb_pc (ws_sub w' j) = SubTag k b \<longrightarrow> b = a \<or> b \<in> set (st_allocs ?st)"
      using main_invD(7) [OF assms(1)] unfolding tags_at_def by blast
    moreover have "handles w' = handles w" "ws_phys w' = ws_phys w" "set (st_allocs (ws_st w')) = insert a (set (st_allocs ?st))"
      by (simp_all add: w' st_def)
    ultimately show ?thesis unfolding tags_at_def by simp
  qed
  have "main_inv p t w'"
    using main_invD [OF assms(1)] sub table tags
    by (simp add: main_inv_def owner_at_def backings_at_def ends_at_def subs_at_def w')
  moreover have "healthy p w \<longrightarrow> healthy p w'" using assms(4) by (simp add: healthy_def w' s_def)
  ultimately show ?thesis by (simp add: kept_def)
qed

section \<open>Tagging it\<close>

lemma table_region:
  assumes "table_at p t n st" and "a \<in> set (st_allocs st)"
  obtains m where "m < n" and "a = st_allocs st ! m" and "sa_off a = region_off p m" and "sa_len a = REGION"
  using assms by (auto simp: table_at_def in_set_conv_nth)

lemma regions_apart:
  assumes "table_at p t n st" and "a \<in> set (st_allocs st)" and "b \<in> set (st_allocs st)" and "a \<noteq> b" and "share_fits p"
  shows "sa_off a + sa_len a \<le> sa_off b \<or> sa_off b + sa_len b \<le> sa_off a"
proof -
  obtain m where m: "a = st_allocs st ! m" "sa_off a = region_off p m" "sa_len a = REGION" by (rule table_region [OF assms(1,2)])
  obtain m' where m': "b = st_allocs st ! m'" "sa_off b = region_off p m'" "sa_len b = REGION" by (rule table_region [OF assms(1,3)])
  have "m \<noteq> m'" using assms(4) m(1) m'(1) by auto
  then show ?thesis using region_off_apart [OF assms(5), of m m'] region_off_apart [OF assms(5), of m' m] m m' by (auto simp: neq_iff)
qed

lemma REGION_dvd [simp]: "4 dvd REGION" and REGION_pos [simp]: "0 < REGION"
  by (simp_all add: REGION_def)

lemma region_inside:
  assumes "main_inv p t w" and "share_fits p" and "a \<in> set (st_allocs (ws_st w))"
  shows "4 dvd sa_off a" and "sa_len a = REGION" and "sa_off a + sa_len a \<le> sp_chunk p * length (handles w)"
    and "t \<le> 2 \<Longrightarrow> sa_off a + sa_len a \<le> sp_chunk p * sp_nchk p"
proof -
  obtain m where m: "m < regions p w" "sa_off a = region_off p m" "sa_len a = REGION"
    by (rule table_region [OF main_invD(6) [OF assms(1)] assms(3)])
  show "4 dvd sa_off a" and "sa_len a = REGION" using m region_off_aligned [OF assms(2)] by simp_all
  have first: "sa_off a + sa_len a \<le> sp_chunk p * sp_nchk p" if "t \<le> 3"
  proof -
    have "stage t (ow_next (ws_owner w)) j \<le> 2" for j
    proof (cases "t = 3")
      case False
      then show ?thesis using that exchanges_mono [of "Suc t" 3] stage_le [of t "ow_next (ws_owner w)" j] by simp
    qed (simp add: stage_def is_each_def)
    then have "m < sp_nsub p" using regions_bounds(2) [OF assms(1)] m(1) by (simp add: order.strict_trans2)
    then show ?thesis using region_off_first [OF assms(2)] m by simp
  qed
  then show "t \<le> 2 \<Longrightarrow> sa_off a + sa_len a \<le> sp_chunk p * sp_nchk p" by simp
  have "m < 2 * sp_nsub p" using regions_bounds(1) [OF assms(1)] m(1) by simp
  then show "sa_off a + sa_len a \<le> sp_chunk p * length (handles w)"
    using region_off_bound [OF assms(2)] main_invD(2) [OF assms(1)] first m by (auto simp: backings_at_def)
qed

lemma tag_slots:
  assumes "main_inv p t w" and "i < sp_nsub p" and "sb_pc (ws_sub w i) = SubTag pass a" and "\<not> sb_dead (ws_sub w i)" and "share_fits p"
  obtains n where "sb_slots (ws_sub w i) = slots_from 0 n (handles w)" and "n \<le> length (handles w)"
    and "sa_off a + sa_len a \<le> sp_chunk p * n" and "sb_chunk (ws_sub w i) = sp_chunk p"
proof -
  have a: "a \<in> set (st_allocs (ws_st w))" using main_invD(7) [OF assms(1)] assms(2,3) by (auto simp: tags_at_def)
  note len = main_invD(2) [OF assms(1), unfolded backings_at_def] and in' = region_inside [OF assms(1,5) a]
  have "stage t (ow_next (ws_owner w)) i = 1 \<and> pass = 1 \<or> stage t (ow_next (ws_owner w)) i = 3 \<and> pass = 2"
    using sub_at_tag [OF subs_atD [OF assms(1,2)] assms(3)] .
  then show thesis
  proof (elim disjE conjE)
    assume 1: "stage t (ow_next (ws_owner w)) i = 1"
    then have "t \<le> 2" using stage_pass1 by blast
    moreover have "sb_slots (ws_sub w i) = slots_from 0 (sp_nchk p) (handles w) \<and> sb_chunk (ws_sub w i) = sp_chunk p"
      using subs_atD [OF assms(1,2)] 1 assms(3,4) by cases (auto simp: looks_def working_def)
    ultimately show thesis using that [of "sp_nchk p"] len in'(4) by simp
  next
    assume 3: "stage t (ow_next (ws_owner w)) i = 3"
    then have "length (handles w) = sp_nchk p + 1" using stage_pass2 len by fastforce
    moreover have "sb_slots (ws_sub w i) = slots_from 0 (sp_nchk p + 1) (handles w) \<and> sb_chunk (ws_sub w i) = sp_chunk p"
      using subs_atD [OF assms(1,2)] 3 assms(3,4) by cases (auto simp: looks_def working_def)
    ultimately show thesis using that [of "sp_nchk p + 1"] in'(3) by simp
  qed
qed

definition tag_region :: "nat \<Rightarrow> ShareSub \<Rightarrow> contents \<Rightarrow> Share \<Rightarrow> Share" where
  "tag_region i s ph w = put_sub i s (w\<lparr>ws_phys := ph\<rparr>)"

lemma tag_region_simps [simp]:
  "ws_owner (tag_region i s ph w) = ws_owner w" "ws_st (tag_region i s ph w) = ws_st w" "ws_phys (tag_region i s ph w) = ph"
  "ws_fresh (tag_region i s ph w) = ws_fresh w" "ws_listening (tag_region i s ph w) = ws_listening w"
  "handles (tag_region i s ph w) = handles w" "ws_sub (tag_region i s ph w) j = (if j = i then s else ws_sub w j)"
  "regions p (tag_region i s ph w) = regions p (put_sub i s w)"
  by (simp_all add: tag_region_def put_sub_def handles_def regions_def)

lemma tagged_put:
  assumes "main_inv p t w" and "share_fits p" and "a \<in> set (st_allocs (ws_st w))" and "b \<in> set (st_allocs (ws_st w))"
    and "\<And>adr. 4 dvd adr \<Longrightarrow> adr < sp_chunk p * length (handles w) \<Longrightarrow> cell (handles w) (sp_chunk p) ph' adr =
      (if sa_off a \<le> adr \<and> adr < sa_off a + sa_len a then sa_tag a else cell (handles w) (sp_chunk p) ph adr)"
    and "b = a \<or> tagged (handles w) (sp_chunk p) ph b"
  shows "tagged (handles w) (sp_chunk p) ph' b"
  unfolding tagged_def
proof (intro allI impI)
  fix adr assume adr: "4 dvd adr" "sa_off b \<le> adr" "adr < sa_off b + sa_len b"
  then have "adr < sp_chunk p * length (handles w)" using region_inside(3) [OF assms(1,2,4)] by simp
  note cell = assms(5) [OF adr(1) this]
  show "cell (handles w) (sp_chunk p) ph' adr = sa_tag b"
  proof (cases "b = a")
    case False
    then have "cell (handles w) (sp_chunk p) ph adr = sa_tag b" using assms(6) adr by (simp add: tagged_def)
    then show ?thesis using cell adr regions_apart [OF main_invD(6) [OF assms(1)] assms(3,4) _ assms(2)] False by auto
  qed (use cell adr in simp)
qed

lemma tag_kept:
  assumes "main_inv p t w" and "i < sp_nsub p" and "sb_pc (ws_sub w i) = SubTag pass a" and "\<not> sb_dead (ws_sub w i)" and "share_fits p"
    and "sub_step p i w = Some w'"
  shows "kept p t w w'"
proof -
  note at = subs_atD [OF assms(1,2)] and hs = main_invD(2) [OF assms(1), unfolded backings_at_def]
  have a: "a \<in> set (st_allocs (ws_st w))" using main_invD(7) [OF assms(1)] assms(2,3) by (auto simp: tags_at_def)
  note in' = region_inside [OF assms(1,5) a]
  obtain n where n: "sb_slots (ws_sub w i) = slots_from 0 n (handles w)" "n \<le> length (handles w)"
    "sa_off a + sa_len a \<le> sp_chunk p * n" "sb_chunk (ws_sub w i) = sp_chunk p"
    by (rule tag_slots [OF assms(1-5)])
  have dist: "distinct (handles w)" and len: "4 dvd sa_len a" using hs in'(2) by simp_all
  obtain ph' where ph': "set_words (sb_slots (ws_sub w i)) (ws_phys w) (sp_chunk p) (sa_off a) (sa_len a) (sa_tag a) = Some ph'"
    "\<forall>adr. 4 dvd adr \<longrightarrow> adr < sp_chunk p * length (handles w) \<longrightarrow> cell (handles w) (sp_chunk p) ph' adr =
      (if sa_off a \<le> adr \<and> adr < sa_off a + sa_len a then sa_tag a else cell (handles w) (sp_chunk p) (ws_phys w) adr)"
    using set_words_tags [OF dist share_fitsD(5) [OF assms(5)] share_fitsD(4) [OF assms(5)] in'(1) len n(3,2,1), of "ws_phys w" "sa_tag a"]
    by blast
  define s where "s = (ws_sub w i)\<lparr>sb_pc := SubAck pass\<rparr>"
  have w': "w' = tag_region i s ph' w"
    using assms(3,4,6) ph'(1) n(4) by (simp add: sub_step_def Let_def sub_gone_def tag_region_def s_def)
  have sub: "sub_at p (handles w) (stage t (ow_next (ws_owner w)) i) s"
    using sub_at_works [OF at, of pass] assms(3) by (simp add: s_def working_def)
  have "regions p w' = regions p w" using regions_put_sub [OF assms(2), of s w] assms(3) by (simp add: w' s_def)
  moreover have "tags_at p w'"
  proof -
    have "tagged (handles w) (sp_chunk p) ph' b \<or> (\<exists>j < sp_nsub p. \<exists>k. sb_pc (ws_sub w' j) = SubTag k b)"
      if b: "b \<in> set (st_allocs (ws_st w))" for b
    proof (cases "b = a \<or> tagged (handles w) (sp_chunk p) (ws_phys w) b")
      case True
      then show ?thesis using tagged_put [OF assms(1,5) a b ph'(2) [rule_format]] by simp
    next
      case False
      then obtain j k where "j < sp_nsub p" "sb_pc (ws_sub w j) = SubTag k b" "b \<noteq> a"
        using main_invD(7) [OF assms(1)] b by (auto simp: tags_at_def)
      then show ?thesis using assms(3) by (auto simp: w')
    qed
    moreover have "sb_pc (ws_sub w' j) = SubTag k b \<Longrightarrow> sb_pc (ws_sub w j) = SubTag k b" for j k b
      by (simp add: w' s_def split: if_splits)
    then have "\<forall>j < sp_nsub p. \<forall>k b. sb_pc (ws_sub w' j) = SubTag k b \<longrightarrow> b \<in> set (st_allocs (ws_st w))"
      using main_invD(7) [OF assms(1)] unfolding tags_at_def by blast
    moreover have "handles w' = handles w" "ws_phys w' = ph'" "ws_st w' = ws_st w"
      by (simp_all add: w')
    ultimately show ?thesis unfolding tags_at_def by simp
  qed
  moreover have "t \<notin> {10, 18}" using pass_phase [OF assms(1,2), of pass a] assms(3) by auto
  ultimately have "main_inv p t w'"
    using main_invD [OF assms(1)] sub by (simp add: main_inv_def owner_at_def backings_at_def ends_at_def subs_at_def w')
  moreover have "healthy p w \<longrightarrow> healthy p w'" using assms(4) by (simp add: healthy_def w' s_def)
  ultimately show ?thesis by (simp add: kept_def)
qed

section \<open>Verification\<close>

lemma all_tagged:
  assumes "main_inv p t w" and "share_fits p" and "\<forall>i < sp_nsub p. 4 \<le> stage t (ow_next (ws_owner w)) i"
    and "a \<in> set (st_allocs (ws_st w))" and "length (handles w) = sp_nchk p + 1"
  shows "check_region (slots_from 0 (sp_nchk p + 1) (handles w)) (ws_phys w) (sp_chunk p) a = Some True"
proof -
  have "sb_pc (ws_sub w i) \<noteq> SubTag k a" if "i < sp_nsub p" for i k
    using sub_at_tag [OF subs_atD [OF assms(1) that]] assms(3) that by fastforce
  then have "tagged (handles w) (sp_chunk p) (ws_phys w) a"
    using main_invD(7) [OF assms(1)] assms(4) by (auto simp: tags_at_def)
  then show ?thesis
    using region_inside [OF assms(1,2,4)] assms(5) by (intro check_region_tagged) simp_all
qed

lemma stage_13_phase: "stage t k i = 13 \<Longrightarrow> 23 \<le> t"
proof (rule ccontr)
  assume "stage t k i = 13" and "\<not> 23 \<le> t"
  then show False using exchanges_mono [of "Suc t" 23] stage_le [of t k i] by simp
qed

lemma late_phase:
  assumes "main_inv p t w" and "7 \<le> t"
  shows "length (handles w) = sp_nchk p + 1" and "4 \<le> stage t (ow_next (ws_owner w)) i"
    and "length (st_allocs (ws_st w)) = 2 * sp_nsub p"
proof -
  show "length (handles w) = sp_nchk p + 1" using main_invD(2) [OF assms(1)] assms(2) by (simp add: backings_at_def)
  have 4: "4 \<le> stage t (ow_next (ws_owner w)) j" for j
    using exchanges_mono [OF assms(2)] stage_ge [of t "ow_next (ws_owner w)" j] by simp
  then show "4 \<le> stage t (ow_next (ws_owner w)) i" .
  show "length (st_allocs (ws_st w)) = 2 * sp_nsub p"
    using regions_bounds(4) [OF assms(1)] 4 main_invD(6) [OF assms(1)] by (simp add: table_at_def)
qed

lemma verify_kept:
  assumes "main_inv p t w" and "i < sp_nsub p" and "sb_pc (ws_sub w i) = SubVerify" and "\<not> sb_dead (ws_sub w i)" and "share_fits p"
    and "sub_step p i w = Some w'"
  shows "kept p t w w'"
proof -
  note at = subs_atD [OF assms(1,2)]
  have s: "stage t (ow_next (ws_owner w)) i = 13 \<and> sb_down (ws_sub w i) = [] \<and> sb_up (ws_sub w i) = 0 \<and>
      sb_slots (ws_sub w i) = slots_from 0 (sp_nchk p + 1) (handles w) \<and> sb_chunk (ws_sub w i) = sp_chunk p"
    using at assms(3,4) by cases (auto simp: looks_def working_def)
  then have "7 \<le> t" using stage_13_phase by fastforce
  note late = late_phase [OF assms(1) this]
  have "sub_verify (sb_slots (ws_sub w i)) (ws_phys w) (sb_chunk (ws_sub w i)) (st_allocs (ws_st w)) = Some (2 * sp_nsub p)"
    using sub_verify_ok [of "st_allocs (ws_st w)"] all_tagged [OF assms(1,5) _ _ late(1)] late(2,3) s by simp
  then have "w' = put_sub i ((ws_sub w i)\<lparr>sb_pc := SubEnd (ShareExit (if 2 \<le> sp_nsub p then 0 else 1)), sb_slots := (\<lambda>_. None)\<rparr>) w"
    using assms(3,4,6) late(3) by (simp add: sub_step_def Let_def sub_gone_def)
  moreover have "handled p (handles w) (stage t (ow_next (ws_owner w)) i) (sb_pc (ws_sub w i))
      ((ws_sub w i)\<lparr>sb_pc := SubEnd (ShareExit (if 2 \<le> sp_nsub p then 0 else 1)), sb_slots := (\<lambda>_. None)\<rparr>)"
    using s assms(3,4) by (auto simp: handled_def same_work_def looks_def no_slots_def intro!: sub_at.finished)
  ultimately show ?thesis using kept_handled [OF assms(1,2)] by simp
qed

section \<open>Every step of a subscriber\<close>

lemma connect_kept:
  assumes "main_inv p t w" and "i < sp_nsub p" and "sb_pc (ws_sub w i) = SubStart" and "\<not> sb_dead (ws_sub w i)"
  shows "kept p t w (put_sub i ((ws_sub w i)\<lparr>sb_pc := SubHeader\<rparr>) w)"
proof -
  have "handled p (handles w) (stage t (ow_next (ws_owner w)) i) (sb_pc (ws_sub w i)) ((ws_sub w i)\<lparr>sb_pc := SubHeader\<rparr>)"
    using subs_atD [OF assms(1,2)] assms(3,4)
    by cases (auto simp: handled_def same_work_def looks_def working_def intro!: sub_at.connected)
  then show ?thesis by (rule kept_handled [OF assms(1,2)])
qed

lemma sub_step_kept:
  assumes "main_inv p t w" and "share_fits p" and "i < sp_nsub p" and "sub_step p i w = Some w'"
  shows "kept p t w w'"
proof -
  let ?s = "ws_sub w i"
  have alive: "\<not> sb_dead ?s" and goes: "\<not> sub_gone ?s" using assms(4) by (auto simp: sub_step_def Let_def sub_gone_def split: if_splits)
  have H: "sp_nchk p \<le> length (handles w)" using main_invD(2) [OF assms(1)] by (auto simp: backings_at_def split: if_splits)
  note at = subs_atD [OF assms(1,3)]
  show ?thesis
  proof (cases "sb_pc ?s")
    case SubStart
    then show ?thesis using assms(4) goes connect_kept [OF assms(1,3) _ alive] by (auto simp: sub_step_def Let_def split: if_splits)
  next
    case SubHeader
    then have "sub_recv i on_header w = Some w'" using assms(4) goes by (simp add: sub_step_def Let_def)
    then show ?thesis using header_handled [OF at _ _ alive assms(2) H] SubHeader by (intro kept_recv [OF assms(1,3)]) auto
  next
    case (SubAlloc pass)
    then show ?thesis using alloc_kept [OF assms(1,3) _ alive assms(2,4)] by simp
  next
    case (SubTag pass a)
    then show ?thesis using tag_kept [OF assms(1,3) _ alive assms(2,4)] by simp
  next
    case (SubAck pass)
    then have "w' = sub_ack i (if pass = 1 then SubAdd else SubServe) w" using assms(4) goes by (simp add: sub_step_def Let_def)
    then show ?thesis using kept_ack [OF assms(1,3) alive] SubAck by simp
  next
    case SubAdd
    then have "sub_recv i on_add_chunk w = Some w'" using assms(4) goes by (simp add: sub_step_def Let_def)
    then show ?thesis using add_chunk_handled [OF at _ _ alive assms(2)] SubAdd by (intro kept_recv [OF assms(1,3)]) auto
  next
    case SubServe
    then have "sub_recv i on_control w = Some w'" using assms(4) goes by (simp add: sub_step_def Let_def)
    then show ?thesis using control_handled [OF at _ _ alive] SubServe by (intro kept_recv [OF assms(1,3)]) auto
  next
    case SubServeAck
    then have "w' = sub_ack i SubServe w" using assms(4) goes by (simp add: sub_step_def Let_def)
    then show ?thesis using kept_ack [OF assms(1,3) alive] SubServeAck by simp
  next
    case SubVerify
    then show ?thesis using verify_kept [OF assms(1,3) _ alive assms(2,4)] by simp
  next
    case (SubEnd e)
    then show ?thesis using goes by (simp add: sub_gone_def)
  qed
qed

end
