(* ===== verification/Share_Owner.thy ===== *)
theory Share_Owner
  imports Share_Regions
begin

text \<open>Every step of the owner, and the death of any process, keeps the invariant.\<close>

section \<open>The phases of the tail\<close>

lemma tail_next: "t \<le> 25 \<Longrightarrow> drop t (share_tail c n) = share_tail c n ! t # drop (Suc t) (share_tail c n)"
  by (rule Cons_nth_drop_Suc [symmetric]) (simp add: share_tail_def)

lemma tail_each:
  "share_tail c n ! 1 = Each ActAccept"
  "t \<in> {2, 6, 8, 14, 16, 22} \<Longrightarrow> share_tail c n ! t = Each ActRead"
  "share_tail c n ! 5 = Each (ActSend (share_msg MSG_ADD_CHUNK c (n + 1) 0 1) True)"
  "t \<in> {7, 15} \<Longrightarrow> share_tail c n ! t = Each (ActSend (share_msg MSG_REVOKE c 0 0 0) False)"
  "t \<in> {13, 21} \<Longrightarrow> share_tail c n ! t = Each (ActSend (share_msg MSG_REMAP c 0 0 1) True)"
  "share_tail c n ! 23 = Each (ActSend (share_msg MSG_GO 0 0 0 0) False)"
  by (auto simp: share_tail_def nth_Cons')

lemma tail_once:
  "share_tail c n ! 0 = Once DoListen"
  "share_tail c n ! 3 = Once (DoAddChunk n)" "share_tail c n ! 4 = Once (DoPublish n)"
  "t \<in> {9, 17} \<Longrightarrow> share_tail c n ! t = Once (DoCopy 0)" "t \<in> {10, 18} \<Longrightarrow> share_tail c n ! t = Once (DoSwitch 0)"
  "t \<in> {11, 19} \<Longrightarrow> share_tail c n ! t = Once (DoMark 0 (t = 11))" "t \<in> {12, 20} \<Longrightarrow> share_tail c n ! t = Once (DoExport 0)"
  "share_tail c n ! 24 = Once DoVerify" "share_tail c n ! 25 = Once DoCleanup"
  by (auto simp: share_tail_def nth_Cons')

lemma each_iff: "is_each t \<longleftrightarrow> t = 1 \<or> t \<in> {2, 6, 8, 14, 16, 22} \<or> t = 5 \<or> t \<in> {7, 15} \<or> t \<in> {13, 21} \<or> t = 23"
  by (auto simp: is_each_def)

section \<open>Reading and sending\<close>

lemma sub_at_read:
  assumes "sub_at p H n s" and "0 < sb_up s"
  shows "sub_at p H (n + 1) (s\<lparr>sb_up := sb_up s - 1\<rparr>)"
  using assms(1)
proof cases
  case acked1
  then show ?thesis using sub_at.read1 [of p H "s\<lparr>sb_up := sb_up s - 1\<rparr>"] by (simp add: looks_def)
next
  case acked2
  then show ?thesis using sub_at.serving [of 4 p H "s\<lparr>sb_up := sb_up s - 1\<rparr>"] by (simp add: looks_def)
next
  case revoked
  then show ?thesis using sub_at.without [of "n + 1" p H "s\<lparr>sb_up := sb_up s - 1\<rparr>"] by (auto simp: looks_def)
next
  case remapped
  then show ?thesis using sub_at.serving [of "n + 1" p H "s\<lparr>sb_up := sb_up s - 1\<rparr>"] by (auto simp: looks_def)
qed (use assms(2) in \<open>simp_all add: looks_def\<close>)

lemma sub_at_end: "sub_at p H n s \<Longrightarrow> sb_pc s = SubEnd e \<Longrightarrow> n = 13"
  by (erule sub_at.cases) (auto simp: looks_def working_def)

lemma gone_is_dead: "sub_at p H n s \<Longrightarrow> n \<noteq> 13 \<Longrightarrow> sub_gone s \<longleftrightarrow> sb_dead s"
  using sub_at_end by (auto simp: sub_gone_def split: SubPc.splits)

lemma turn:
  assumes "main_inv p t w" and "ow_next (ws_owner w) < sp_nsub p"
  shows "sub_at p (handles w) (exchanges t) (ws_sub w (ow_next (ws_owner w)))"
  using subs_atD [OF assms] by (simp add: stage_def)

lemma exchanges_each: "is_each t \<Longrightarrow> exchanges t < 13"
  by (auto simp: is_each_def)

lemma kept_owner_ends: "main_inv p t w \<Longrightarrow> \<not> healthy p w \<Longrightarrow> kept p t w (owner_ends (ShareExit 1) w)"
  using main_owner_ends by (simp add: kept_def)

lemma kept_next_sub:
  assumes "main_inv p t w" and "is_each t" and "ow_next (ws_owner w) < sp_nsub p" and "ow_end (ws_owner w) = None"
    and "sb_pc s = sb_pc (ws_sub w (ow_next (ws_owner w)))" and "sb_dead s = sb_dead (ws_sub w (ow_next (ws_owner w)))"
    and "sub_at p (handles w) (exchanges t + 1) s"
  shows "kept p t w (owner_goes_on (\<lambda>q. q\<lparr>ow_next := ow_next q + 1\<rparr>) (put_sub (ow_next (ws_owner w)) s w))"
  using main_next_sub [OF assms(1,2) refl assms(3) _ assms(7)] assms(3-6) healthy_put_sub [of p w s]
  by (auto simp: kept_def goes_on_to healthy_def)

lemma kept_read:
  assumes "main_inv p t w" and "is_each t" and "ow_next (ws_owner w) < sp_nsub p" and "ow_end (ws_owner w) = None"
    and "owner_act p ActRead (ow_next (ws_owner w)) w = Some w'"
  shows "kept p t w (owner_goes_on (\<lambda>q. q\<lparr>ow_next := ow_next q + 1\<rparr>) w')"
proof (cases "0 < sb_up (ws_sub w (ow_next (ws_owner w)))")
  case True
  then show ?thesis
    using assms(5) kept_next_sub [OF assms(1-4) _ _ sub_at_read [OF turn [OF assms(1,3)] True]] by (simp add: owner_act_def)
next
  case False
  then have "w' = owner_ends (ShareExit 1) w" and "sub_gone (ws_sub w (ow_next (ws_owner w)))"
    using assms(5) by (auto simp: owner_act_def split: if_splits)
  moreover have "\<not> healthy p w"
    using gone_is_dead [OF turn [OF assms(1,3)]] exchanges_each [OF assms(2)] assms(3) calculation(2) by (auto simp: healthy_def)
  ultimately show ?thesis using kept_owner_ends [OF assms(1)] by (simp add: goes_on_ended)
qed

lemma kept_send:
  assumes "main_inv p t w" and "is_each t" and "ow_next (ws_owner w) < sp_nsub p" and "ow_end (ws_owner w) = None"
    and "send_fds m fds = Some m'"
    and "sub_at p (handles w) (exchanges t + 1)
      ((ws_sub w (ow_next (ws_owner w)))\<lparr>sb_down := sb_down (ws_sub w (ow_next (ws_owner w))) @ [m']\<rparr>)"
  shows "kept p t w (owner_goes_on (\<lambda>q. q\<lparr>ow_next := ow_next q + 1\<rparr>) (owner_send (ow_next (ws_owner w)) m fds w))"
proof (cases "sub_gone (ws_sub w (ow_next (ws_owner w)))")
  case True
  then have "\<not> healthy p w"
    using gone_is_dead [OF turn [OF assms(1,3)]] exchanges_each [OF assms(2)] assms(3) by (auto simp: healthy_def)
  then show ?thesis using kept_owner_ends [OF assms(1)] True assms(5) by (simp add: owner_send_def goes_on_ended)
next
  case False
  then show ?thesis using kept_next_sub [OF assms(1-4) _ _ assms(6)] assms(5) by (simp add: owner_send_def)
qed

text \<open>Which message a subscriber's stage lets the owner send next.\<close>

lemma sub_at_header: "sub_at p H 0 s \<Longrightarrow> sb_pc s \<noteq> SubStart \<Longrightarrow> sub_at p H 1 (s\<lparr>sb_down := sb_down s @ [header_msg p H]\<rparr>)"
  by (erule sub_at.cases) (auto simp: looks_def intro!: sub_at.header)

lemma sub_at_add: "sub_at p H 2 s \<Longrightarrow> sub_at p H 3 (s\<lparr>sb_down := sb_down s @ [add_msg p H]\<rparr>)"
  by (erule sub_at.cases) (auto simp: looks_def intro!: sub_at.adding)

lemma sub_at_revoke: "sub_at p H n s \<Longrightarrow> n \<in> {4, 8} \<Longrightarrow> sub_at p H (n + 1) (s\<lparr>sb_down := sb_down s @ [revoke_msg p]\<rparr>)"
  by (erule sub_at.cases) (auto simp: looks_def intro!: sub_at.revoke)

lemma sub_at_remap: "sub_at p H n s \<Longrightarrow> n \<in> {6, 10} \<Longrightarrow> sub_at p H (n + 1) (s\<lparr>sb_down := sb_down s @ [remap_msg p H]\<rparr>)"
  by (erule sub_at.cases) (auto simp: looks_def intro!: sub_at.remap)

lemma sub_at_go: "sub_at p H 12 s \<Longrightarrow> sub_at p H 13 (s\<lparr>sb_down := sb_down s @ [go_msg]\<rparr>)"
  by (erule sub_at.cases) (auto simp: looks_def intro!: sub_at.going)

lemma each_kept:
  assumes "main_inv p t w" and "is_each t" and "ow_next (ws_owner w) < sp_nsub p" and "ow_end (ws_owner w) = None" and "share_fits p"
    and "share_tail (sp_chunk p) (sp_nchk p) ! t = Each a" and "owner_act p a (ow_next (ws_owner w)) w = Some w'"
  shows "kept p t w (owner_goes_on (\<lambda>q. q\<lparr>ow_next := ow_next q + 1\<rparr>) w')"
proof -
  note at = turn [OF assms(1,3)] and hs = main_invD(2) [OF assms(1), unfolded backings_at_def] and send = kept_send [OF assms(1-4)]
  from assms(2) consider (accept) "t = 1" | (read) "t \<in> {2, 6, 8, 14, 16, 22}" | (add) "t = 5" | (revoke) "t \<in> {7, 15}"
    | (remap) "t \<in> {13, 21}" | (go) "t = 23"
    unfolding each_iff by blast
  then show ?thesis
  proof cases
    case accept
    then have "a = ActAccept" using assms(6) by (simp add: tail_each)
    then have started: "sb_pc (ws_sub w (ow_next (ws_owner w))) \<noteq> SubStart"
      and w': "w' = owner_send (ow_next (ws_owner w)) (share_msg MSG_HEADER (sp_chunk p) (sp_nchk p) 0 (sp_nchk p)) (ow_fds (ws_owner w)) w"
      using assms(7) by (auto simp: owner_act_def split: if_splits)
    have "send_fds (share_msg MSG_HEADER (sp_chunk p) (sp_nchk p) 0 (sp_nchk p)) (ow_fds (ws_owner w)) = Some (header_msg p (handles w))"
      using hs accept share_fitsD(2) [OF assms(5)] by (simp add: send_fds_def header_msg_def FDS_ROOM_def)
    then show ?thesis unfolding w' using sub_at_header [of p "handles w", OF _ started] at accept by (intro send) simp_all
  next
    case read
    then have "a = ActRead" using assms(6) by (simp add: tail_each)
    then show ?thesis using kept_read [OF assms(1-4)] assms(7) by simp
  next
    case add
    then have "a = ActSend (share_msg MSG_ADD_CHUNK (sp_chunk p) (sp_nchk p + 1) 0 1) True" using assms(6) by (simp add: tail_each)
    then have w': "w' = owner_send (ow_next (ws_owner w)) (share_msg MSG_ADD_CHUNK (sp_chunk p) (sp_nchk p + 1) 0 1) [ow_fd (ws_owner w)] w"
      using assms(7) by (simp add: owner_act_def)
    have "send_fds (share_msg MSG_ADD_CHUNK (sp_chunk p) (sp_nchk p + 1) 0 1) [ow_fd (ws_owner w)] = Some (add_msg p (handles w))"
      using hs add by (simp add: send_fds_def add_msg_def FDS_ROOM_def)
    then show ?thesis unfolding w' using at add sub_at_add by (intro send) simp_all
  next
    case revoke
    then have "a = ActSend (share_msg MSG_REVOKE (sp_chunk p) 0 0 0) False" using assms(6) by (simp add: tail_each)
    then have w': "w' = owner_send (ow_next (ws_owner w)) (revoke_msg p) [] w"
      using assms(7) by (simp add: owner_act_def revoke_msg_def)
    have "send_fds (revoke_msg p) [] = Some (revoke_msg p)" by (simp add: send_fds_def revoke_msg_def share_msg_def)
    then show ?thesis unfolding w' using sub_at_revoke [OF at] revoke by (intro send) auto
  next
    case remap
    then have "a = ActSend (share_msg MSG_REMAP (sp_chunk p) 0 0 1) True" using assms(6) by (simp add: tail_each)
    then have w': "w' = owner_send (ow_next (ws_owner w)) (share_msg MSG_REMAP (sp_chunk p) 0 0 1) [ow_fd (ws_owner w)] w"
      using assms(7) by (simp add: owner_act_def)
    have "send_fds (share_msg MSG_REMAP (sp_chunk p) 0 0 1) [ow_fd (ws_owner w)] = Some (remap_msg p (handles w))"
      using hs remap by (auto simp: send_fds_def remap_msg_def FDS_ROOM_def)
    then show ?thesis unfolding w' using sub_at_remap [OF at] remap by (intro send) auto
  next
    case go
    then have "a = ActSend go_msg False" using assms(6) by (simp add: tail_each go_msg_def)
    then have w': "w' = owner_send (ow_next (ws_owner w)) go_msg [] w" using assms(7) by (simp add: owner_act_def)
    have "send_fds go_msg [] = Some go_msg" by (simp add: send_fds_def go_msg_def share_msg_def)
    then show ?thesis unfolding w' using at go sub_at_go by (intro send) simp_all
  qed
qed

section \<open>Things done once\<close>

lemma exchanges_once: "\<not> is_each t \<Longrightarrow> exchanges (Suc t) = exchanges t"
  by (simp add: exchanges_Suc)

lemma once_at:
  assumes "main_inv p t w" and "\<not> is_each t"
  shows "ow_next (ws_owner w) = 0" and "i < sp_nsub p \<Longrightarrow> sub_at p (handles w) (exchanges t) (ws_sub w i)"
  using main_invD(1) [OF assms(1)] subs_atD [OF assms(1)] assms(2) by (auto simp: owner_at_def stage_def)

text \<open>What is left to show for a phase that is done once: its own effect.\<close>

lemma once_next:
  assumes "main_inv p t w" and "\<not> is_each t" and "t < 25" and "ow_next (ws_owner v) = 0" and "ow_end (ws_owner v) = None"
    and "backings_at p (Suc t) v" and "ow_slots (ws_owner v) = slots_from 0 (length (handles v)) (handles v)"
    and "\<forall>i < sp_nsub p. sub_at p (handles v) (exchanges t) (ws_sub v i)" and "ws_listening v"
    and "table_at p (Suc t) (regions p v) (ws_st v)" and "tags_at p v" and "healthy p w \<longrightarrow> healthy p v"
    and "ps = drop (Suc t) (share_tail (sp_chunk p) (sp_nchk p))"
  shows "kept p (Suc t) w (owner_goes_on (ow_todo_update (\<lambda>_. ps)) v)"
proof -
  have "stage (Suc t) 0 i = exchanges t" for i using assms(2) by (simp add: stage_def exchanges_once)
  then show ?thesis
    using assms(3-13)
    by (simp add: kept_def goes_on_to main_inv_def owner_at_def backings_at_def ends_at_def subs_at_def)
qed

lemma sub_at_grown:
  assumes "sub_at p H 2 s" and "length H = sp_nchk p"
  shows "sub_at p (H @ [b]) 2 s"
proof -
  have same: "slots_from 0 (sp_nchk p) (H @ [b]) = slots_from 0 (sp_nchk p) H"
    using assms(2) by (auto simp: slots_from_def nth_append)
  show ?thesis using assms(1) by cases (simp_all add: sub_at.read1 same)
qed

lemma sub_at_switched:
  assumes "sub_at p H n s" and "n \<in> {6, 10}"
  shows "sub_at p (H[0 := b]) n s"
proof -
  have same: "slots_from 1 (sp_nchk p + 1) (H[0 := b]) = slots_from 1 (sp_nchk p + 1) H"
    by (auto simp: slots_from_def)
  show ?thesis using assms by cases (auto simp: same intro!: sub_at.without)
qed

lemma cell_grown:
  assumes "adr < chunk * length H"
  shows "cell (H @ [b]) chunk ph adr = cell H chunk ph adr"
proof -
  have "0 < chunk" using assms by (cases chunk) auto
  then have "adr div chunk < length H" using assms by (simp add: div_less_iff_less_mult mult.commute)
  then show ?thesis by (simp add: cell_def nth_append)
qed

lemma tagged_grown: "sa_off a + sa_len a \<le> chunk * length H \<Longrightarrow> tagged (H @ [b]) chunk ph a \<longleftrightarrow> tagged H chunk ph a"
  by (auto simp: tagged_def cell_grown)

lemma cell_switched:
  assumes "H \<noteq> []" and "ph b = ph (H ! 0)"
  shows "cell (H[0 := b]) chunk ph adr = cell H chunk ph adr"
  using assms by (cases "adr div chunk = 0") (simp_all add: cell_def)

lemma tagged_switched: "H \<noteq> [] \<Longrightarrow> ph b = ph (H ! 0) \<Longrightarrow> tagged (H[0 := b]) chunk ph a \<longleftrightarrow> tagged H chunk ph a"
  by (simp add: tagged_def cell_switched)

lemma tagged_copied:
  assumes "\<forall>b\<in>set H. b < new" and "sa_off a + sa_len a \<le> chunk * length H"
  shows "tagged H chunk (ph(new := v)) a \<longleftrightarrow> tagged H chunk ph a"
proof -
  have "cell H chunk (ph(new := v)) adr = cell H chunk ph adr" if "adr < chunk * length H" for adr
  proof -
    have "0 < chunk" using that by (cases chunk) auto
    then have "adr div chunk < length H" using that by (simp add: div_less_iff_less_mult mult.commute)
    then show ?thesis using assms(1) nth_mem by (fastforce simp: cell_def)
  qed
  then show ?thesis using assms(2) by (auto simp: tagged_def)
qed

lemma tags_change:
  assumes "tags_at p w" and "ws_sub v = ws_sub w" and "st_allocs (ws_st v) = st_allocs (ws_st w)"
    and "\<And>a. a \<in> set (st_allocs (ws_st w)) \<Longrightarrow> tagged (handles w) (sp_chunk p) (ws_phys w) a \<Longrightarrow> tagged (handles v) (sp_chunk p) (ws_phys v) a"
  shows "tags_at p v"
  using assms unfolding tags_at_def by auto

lemma owner_not_listening:
  assumes "main_inv p 0 w" and "ow_end (ws_owner w) = None" and "ps = drop 1 (share_tail (sp_chunk p) (sp_nchk p))"
  shows "kept p 1 w (owner_goes_on (ow_todo_update (\<lambda>_. ps)) (owner_do p DoListen w))"
proof -
  let ?v = "w\<lparr>ws_listening := True\<rparr>"
  have v: "owner_do p DoListen w = ?v" by (simp add: owner_do_defs Let_def)
  have [simp]: "handles ?v = handles w" "regions p ?v = regions p w" by (simp_all add: handles_def regions_def)
  have "kept p (Suc 0) w (owner_goes_on (ow_todo_update (\<lambda>_. ps)) ?v)"
    using main_invD [OF assms(1)] assms(2,3) once_at [OF assms(1)] tags_change [of p w ?v]
    by (intro once_next [OF assms(1)]) (simp_all add: is_each_def backings_at_def ends_at_def table_at_def healthy_def One_nat_def)
  then show ?thesis unfolding v by (simp add: One_nat_def)
qed

end
