(* ===== verification/Share_Phases.thy ===== *)
theory Share_Phases
  imports Share_Owner
begin

text \<open>The owner's single phases, then its whole step, and the steps and deaths of all processes.\<close>

section \<open>Growing the segment\<close>

lemma other_fields [simp]:
  "handles (w\<lparr>ws_st := st\<rparr>) = handles w" "regions p (w\<lparr>ws_st := st\<rparr>) = regions p w"
  by (simp_all add: handles_def regions_def)

lemma inside_handles:
  assumes "main_inv p t w" and "share_fits p" and "a \<in> set (st_allocs (ws_st w))"
  shows "sa_off a + sa_len a \<le> sp_chunk p * length (handles w)"
  by (rule region_inside(3) [OF assms])

lemma owner_grows:
  assumes "main_inv p 3 w" and "share_fits p" and "ow_end (ws_owner w) = None" and "ps = drop 4 (share_tail (sp_chunk p) (sp_nchk p))"
  shows "kept p 4 w (owner_goes_on (ow_todo_update (\<lambda>_. ps)) (owner_do p (DoAddChunk (sp_nchk p)) w))"
proof -
  note inv = main_invD [OF assms(1)]
  define v where "v = owner_do p (DoAddChunk (sp_nchk p)) w"
  have len: "length (handles w) = sp_nchk p" and fresh: "\<forall>b\<in>set (handles w). b < ws_fresh w" and dist: "distinct (handles w)"
    using inv(2) by (simp_all add: backings_at_def)
  have slots: "ow_slots (ws_owner w) = slots_from 0 (sp_nchk p) (handles w)"
    using inv(3) assms(3) len by (simp add: ends_at_def)
  have v: "v = w\<lparr>ws_owner := (ws_owner w)\<lparr>ow_slots := (ow_slots (ws_owner w))(sp_nchk p := Some (ws_fresh w)),
      ow_handles := handles w @ [ws_fresh w], ow_fd := ws_fresh w\<rparr>, ws_fresh := ws_fresh w + 1\<rparr>"
    using share_fitsD(2) [OF assms(2)] by (simp add: v_def owner_do_defs Let_def slots handles_def MAX_CHUNKS_def)
  have H: "handles v = handles w @ [ws_fresh w]" and same: "ws_sub v = ws_sub w" "ws_st v = ws_st w" "ws_phys v = ws_phys w"
    "regions p v = regions p w"
    by (simp_all add: v handles_def regions_def)
  have "ws_fresh w \<notin> set (handles w)" using fresh by auto
  then have "backings_at p 4 v" using dist fresh len by (auto simp: backings_at_def H) (auto simp: v less_Suc_eq nth_append)
  moreover have "ow_slots (ws_owner v) = slots_from 0 (length (handles v)) (handles v)"
    using len by (simp add: H) (auto simp: v slots slots_from_def nth_append)
  moreover have "\<forall>i < sp_nsub p. sub_at p (handles v) (exchanges 3) (ws_sub v i)"
    using once_at(2) [OF assms(1)] sub_at_grown len by (simp add: H same is_each_def)
  moreover have "tags_at p v"
    using tags_change [OF inv(7) same(1)] inside_handles [OF assms(1,2)] by (simp add: same H tagged_grown)
  moreover have "table_at p 4 (regions p v) (ws_st v)" using inv(6) by (simp add: same table_at_def)
  moreover have "healthy p w \<longrightarrow> healthy p v" by (simp add: healthy_def v)
  ultimately have "kept p (Suc 3) w (owner_goes_on (ow_todo_update (\<lambda>_. ps)) v)"
    using assms(3,4) once_at(1) [OF assms(1)] inv(5) by (intro once_next [OF assms(1)]) (simp_all add: is_each_def v)
  then show ?thesis by (simp add: v_def)
qed

lemma owner_publishes:
  assumes "main_inv p 4 w" and "ow_end (ws_owner w) = None" and "ps = drop 5 (share_tail (sp_chunk p) (sp_nchk p))"
  shows "kept p 5 w (owner_goes_on (ow_todo_update (\<lambda>_. ps)) (owner_do p (DoPublish (sp_nchk p)) w))"
proof -
  note inv = main_invD [OF assms(1)]
  define v where "v = owner_do p (DoPublish (sp_nchk p)) w"
  have v: "v = w\<lparr>ws_st := (ws_st w)\<lparr>st_chunk_count := sp_nchk p + 1, st_total_bytes := sp_chunk p * (sp_nchk p + 1),
      st_bump := sp_chunk p * sp_nchk p\<rparr>\<rparr>"
    by (simp add: v_def owner_do_defs Let_def)
  have 2: "stage 4 k i = 2" for k i by (simp add: stage_def is_each_def)
  then have "regions p w = sp_nsub p" using regions_bounds(2,3) [OF assms(1)] by simp
  then have "table_at p 5 (regions p v) (ws_st v)" using inv(6) by (simp add: v table_at_def)
  moreover have "tags_at p v" using tags_change [OF inv(7), of v] by (simp add: v)
  ultimately have "kept p (Suc 4) w (owner_goes_on (ow_todo_update (\<lambda>_. ps)) v)"
    using assms(2,3) once_at [OF assms(1)] inv(2,3,5)
    by (intro once_next [OF assms(1)]) (simp_all add: is_each_def v backings_at_def ends_at_def healthy_def)
  then show ?thesis by (simp add: v_def)
qed

section \<open>Exchanging the first chunk\<close>

lemma remap_phases:
  assumes "main_inv p t w" and "9 \<le> t"
  shows "length (handles w) = sp_nchk p + 1" and "distinct (handles w)" and "\<forall>b\<in>set (handles w). b < ws_fresh w"
    and "handles w \<noteq> []" and "n = regions p w \<Longrightarrow> table_at p (Suc t) n (ws_st w)" and "ws_listening w"
  using main_invD(2,5,6) [OF assms(1)] assms(2) by (auto simp: backings_at_def table_at_def)

lemma owner_copies:
  assumes "main_inv p t w" and "t \<in> {9, 17}" and "share_fits p" and "ow_end (ws_owner w) = None"
    and "ps = drop (Suc t) (share_tail (sp_chunk p) (sp_nchk p))"
  shows "kept p (Suc t) w (owner_goes_on (ow_todo_update (\<lambda>_. ps)) (owner_do p (DoCopy 0) w))"
proof -
  note inv = main_invD [OF assms(1)]
  have t: "9 \<le> t" "\<not> is_each t" "t < 25" using assms(2) by (auto simp: is_each_def)
  note r = remap_phases [OF assms(1) t(1)]
  define v where "v = owner_do p (DoCopy 0) w"
  have "ow_slots (ws_owner w) = slots_from 0 (sp_nchk p + 1) (handles w)" using inv(3) assms(4) r(1) by (simp add: ends_at_def)
  then have v: "v = w\<lparr>ws_owner := (ws_owner w)\<lparr>ow_new := ws_fresh w\<rparr>,
      ws_phys := (ws_phys w)(ws_fresh w := ws_phys w (handles w ! 0)), ws_fresh := ws_fresh w + 1\<rparr>"
    by (simp add: v_def owner_do_defs Let_def)
  have same: "handles v = handles w" "ws_sub v = ws_sub w" "ws_st v = ws_st w" "regions p v = regions p w"
    by (simp_all add: v handles_def regions_def)
  have "handles w ! 0 \<in> set (handles w)" using r(4) by simp
  then have "handles w ! 0 \<noteq> ws_fresh w" "ws_fresh w \<notin> set (handles w)" using r(3) by auto
  then have "backings_at p (Suc t) v"
    using r(1-3) assms(2) by (auto simp: backings_at_def same) (auto simp: v less_Suc_eq)
  moreover have "tags_at p v"
    using tagged_copied [OF r(3)] inside_handles [OF assms(1,3)] by (intro tags_change [OF inv(7) same(2)]) (simp_all add: same, simp add: v)
  moreover have "ow_slots (ws_owner v) = slots_from 0 (length (handles v)) (handles v)"
    using inv(3) assms(4) by (simp add: ends_at_def same) (simp add: v)
  moreover have "healthy p w \<longrightarrow> healthy p v" by (simp add: healthy_def v)
  ultimately show ?thesis
    unfolding v_def [symmetric] using assms(4,5) t(2,3) once_at [OF assms(1)] r(5,6)
    by (intro once_next [OF assms(1)]) (simp_all add: same, simp_all add: v)
qed

lemma owner_switches:
  assumes "main_inv p t w" and "t \<in> {10, 18}" and "share_fits p" and "ow_end (ws_owner w) = None"
    and "ps = drop (Suc t) (share_tail (sp_chunk p) (sp_nchk p))"
  shows "kept p (Suc t) w (owner_goes_on (ow_todo_update (\<lambda>_. ps)) (owner_do p (DoSwitch 0) w))"
proof -
  note inv = main_invD [OF assms(1)]
  have t: "9 \<le> t" "\<not> is_each t" "t < 25" using assms(2) by (auto simp: is_each_def)
  note r = remap_phases [OF assms(1) t(1)]
  let ?new = "ow_new (ws_owner w)"
  have new: "?new < ws_fresh w" "?new \<notin> set (handles w)" "ws_phys w ?new = ws_phys w (handles w ! 0)"
    using inv(2) assms(2) by (auto simp: backings_at_def)
  have slots: "ow_slots (ws_owner w) = slots_from 0 (sp_nchk p + 1) (handles w)" using inv(3) assms(4) r(1) by (simp add: ends_at_def)
  define v where "v = owner_do p (DoSwitch 0) w"
  have "length (ow_handles (ws_owner w)) \<noteq> 0" using r(4) by (simp add: handles_def)
  then have v: "v = w\<lparr>ws_owner := (ws_owner w)\<lparr>ow_slots := (ow_slots (ws_owner w))(0 := Some ?new), ow_handles := (handles w)[0 := ?new]\<rparr>\<rparr>"
    by (simp add: v_def owner_do_defs Let_def handles_def)
  have same: "handles v = (handles w)[0 := ?new]" "ws_sub v = ws_sub w" "ws_st v = ws_st w" "ws_phys v = ws_phys w" "regions p v = regions p w"
    by (simp_all add: v handles_def regions_def)
  have "distinct ((handles w)[0 := ?new])" using r(2) new(2) by (intro distinct_list_update) auto
  moreover have "\<forall>b\<in>set ((handles w)[0 := ?new]). b < ws_fresh w" using r(3) new(1) by (auto dest: set_update_subset_insert [THEN subsetD])
  ultimately have "backings_at p (Suc t) v"
    using r(1) assms(2) by (auto simp: backings_at_def same) (auto simp: v)
  moreover have "tags_at p v"
    using tags_change [OF inv(7) same(2)] tagged_switched [OF r(4), of "ws_phys w" ?new] new(3) by (simp add: same)
  moreover have "ow_slots (ws_owner v) = slots_from 0 (length (handles v)) (handles v)"
    using r(1) by (auto simp: same) (auto simp: v slots slots_from_def)
  moreover have "\<forall>i < sp_nsub p. sub_at p (handles v) (exchanges t) (ws_sub v i)"
    using once_at(2) [OF assms(1) t(2)] sub_at_switched assms(2) by (auto simp: same)
  moreover have "healthy p w \<longrightarrow> healthy p v" by (simp add: healthy_def v)
  ultimately show ?thesis
    unfolding v_def [symmetric] using assms(4,5) t(2,3) once_at(1) [OF assms(1)] r(5,6)
    by (intro once_next [OF assms(1)]) (simp_all add: same, simp_all add: v)
qed

lemma owner_marks:
  assumes "main_inv p t w" and "t \<in> {11, 19}" and "ow_end (ws_owner w) = None"
    and "ps = drop (Suc t) (share_tail (sp_chunk p) (sp_nchk p))"
  shows "kept p (Suc t) w (owner_goes_on (ow_todo_update (\<lambda>_. ps)) (owner_do p (DoMark 0 b) w))"
proof -
  note inv = main_invD [OF assms(1)]
  have t: "9 \<le> t" "\<not> is_each t" "t < 25" using assms(2) by (auto simp: is_each_def)
  note r = remap_phases [OF assms(1) t(1)]
  define v where "v = owner_do p (DoMark 0 b) w"
  have v: "v = w\<lparr>ws_st := (ws_st w)\<lparr>st_on_host := (st_on_host (ws_st w))(0 := b)\<rparr>\<rparr>"
    by (simp add: v_def owner_do_defs Let_def)
  have "table_at p (Suc t) (regions p v) (ws_st v)" using r(5) [OF refl] by (simp add: v table_at_def)
  moreover have "tags_at p v" using tags_change [OF inv(7), of v] by (simp add: v)
  moreover have "backings_at p (Suc t) v" using r(1-3) assms(2) by (auto simp: v backings_at_def)
  ultimately show ?thesis
    unfolding v_def [symmetric] using assms(3,4) t(2,3) once_at [OF assms(1)] inv(3) r(6)
    by (intro once_next [OF assms(1)]) (simp_all add: v ends_at_def healthy_def)
qed

lemma owner_exports:
  assumes "main_inv p t w" and "t \<in> {12, 20}" and "ow_end (ws_owner w) = None"
    and "ps = drop (Suc t) (share_tail (sp_chunk p) (sp_nchk p))"
  shows "kept p (Suc t) w (owner_goes_on (ow_todo_update (\<lambda>_. ps)) (owner_do p (DoExport 0) w))"
proof -
  note inv = main_invD [OF assms(1)]
  have t: "9 \<le> t" "\<not> is_each t" "t < 25" using assms(2) by (auto simp: is_each_def)
  note r = remap_phases [OF assms(1) t(1)]
  define v where "v = owner_do p (DoExport 0) w"
  have "length (ow_handles (ws_owner w)) \<noteq> 0" using r(4) by (simp add: handles_def)
  then have v: "v = w\<lparr>ws_owner := (ws_owner w)\<lparr>ow_fd := handles w ! 0\<rparr>\<rparr>"
    by (simp add: v_def owner_do_defs Let_def handles_def)
  have same: "handles v = handles w" "ws_sub v = ws_sub w" "ws_st v = ws_st w" "ws_phys v = ws_phys w" "regions p v = regions p w"
    by (simp_all add: v handles_def regions_def)
  have "backings_at p (Suc t) v" using r(1-3) assms(2) by (auto simp: backings_at_def same) (auto simp: v)
  moreover have "tags_at p v" using tags_change [OF inv(7) same(2)] by (simp add: same)
  moreover have "ow_slots (ws_owner v) = slots_from 0 (length (handles v)) (handles v)"
    using inv(3) assms(3) by (simp add: ends_at_def same) (simp add: v)
  moreover have "healthy p w \<longrightarrow> healthy p v" by (simp add: healthy_def v)
  ultimately show ?thesis
    unfolding v_def [symmetric] using assms(3,4) t(2,3) once_at [OF assms(1)] r(5,6)
    by (intro once_next [OF assms(1)]) (simp_all add: same, simp_all add: v)
qed

section \<open>Verification and the end\<close>

lemma owner_verifies:
  assumes "main_inv p 24 w" and "share_fits p" and "ow_end (ws_owner w) = None"
    and "ps = drop 25 (share_tail (sp_chunk p) (sp_nchk p))"
  shows "kept p 25 w (owner_goes_on (ow_todo_update (\<lambda>_. ps)) (owner_do p DoVerify w))"
proof -
  note inv = main_invD [OF assms(1)]
  have le: "7 \<le> (24::nat)" by simp
  note late = late_phase [OF assms(1) le]
  have "ow_slots (ws_owner w) = slots_from 0 (sp_nchk p + 1) (handles w)" using inv(3) assms(3) late(1) by (simp add: ends_at_def)
  then have "owner_do p DoVerify w = w"
    using owner_verify_ok [of "st_allocs (ws_st w)"] all_tagged [OF assms(1,2) _ _ late(1)] late(2) by (simp add: owner_do_defs Let_def)
  moreover have "kept p (Suc 24) w (owner_goes_on (ow_todo_update (\<lambda>_. ps)) w)"
    using assms(3,4) once_at [OF assms(1)] inv
    by (intro once_next [OF assms(1)]) (simp_all add: is_each_def backings_at_def ends_at_def table_at_def)
  ultimately show ?thesis by simp
qed

lemma owner_cleans_up:
  assumes "main_inv p 25 w"
  shows "kept p 25 w (owner_goes_on f (owner_do p DoCleanup w))"
  using main_owner_ends [OF assms] by (simp add: owner_do_defs kept_def goes_on_ended healthy_def)

section \<open>Every step\<close>

lemma tail_is_each:
  assumes "is_each t"
  obtains a where "share_tail c n ! t = Each a"
  using assms unfolding each_iff by (elim disjE) (simp_all add: tail_each)

lemma tail_is_once:
  assumes "t \<le> 25" and "\<not> is_each t"
  obtains d where "share_tail c n ! t = Once d"
  using once_cases [OF assms] by (elim disjE) (simp_all add: tail_once)

lemma owner_step_kept:
  assumes "main_inv p t w" and "share_fits p" and "owner_step p w = Some w'"
  shows "kept p t w w' \<or> kept p (Suc t) w w'"
proof -
  let ?tail = "share_tail (sp_chunk p) (sp_nchk p)"
  have live: "ow_end (ws_owner w) = None" using assms(3) by (simp add: owner_step_def split: if_splits)
  have t: "t \<le> 25" and todo: "ow_todo (ws_owner w) = ?tail ! t # drop (Suc t) ?tail"
    using main_invD(1) [OF assms(1)] tail_next by (auto simp: owner_at_def)
  note step = assms(3) [unfolded owner_step_def, simplified live todo, simplified]
  show ?thesis
  proof (cases "is_each t")
    case True
    then obtain a where a: "?tail ! t = Each a" by (rule tail_is_each)
    show ?thesis
    proof (cases "sp_nsub p \<le> ow_next (ws_owner w)")
      case over: True
      then have "w' = goes_to (drop (Suc t) ?tail) 0 w" using step a by (simp add: goes_on_to live)
      then show ?thesis using main_next_phase [OF assms(1) True over] by (simp add: kept_def)
    next
      case False
      then show ?thesis using step a each_kept [OF assms(1) True _ live assms(2) a] by auto
    qed
  next
    case False
    then obtain d where d: "?tail ! t = Once d" by (rule tail_is_once [OF t])
    then have w': "w' = owner_goes_on (ow_todo_update (\<lambda>_. drop (Suc t) ?tail)) (owner_do p d w)" using step by simp
    from once_cases [OF t False] show ?thesis
    proof (elim disjE)
      assume "t = 0"
      then show ?thesis using d assms(1) live owner_not_listening [of p w] by (simp add: w' tail_once One_nat_def)
    next
      assume "t = 3"
      then show ?thesis using d assms(1,2) live owner_grows [of p w] by (simp add: w' tail_once)
    next
      assume "t = 4"
      then show ?thesis using d assms(1) live owner_publishes [of p w] by (simp add: w' tail_once)
    next
      assume "t \<in> {9, 17}"
      then show ?thesis using d owner_copies [OF assms(1) _ assms(2) live] by (simp add: w' tail_once)
    next
      assume "t \<in> {10, 18}"
      then show ?thesis using d owner_switches [OF assms(1) _ assms(2) live] by (simp add: w' tail_once)
    next
      assume "t \<in> {11, 19}"
      then show ?thesis using d owner_marks [OF assms(1) _ live refl] by (auto simp: w' tail_once)
    next
      assume "t \<in> {12, 20}"
      then show ?thesis using d owner_exports [OF assms(1) _ live] by (simp add: w' tail_once)
    next
      assume "t = 24"
      then show ?thesis using d assms(1,2) live owner_verifies [of p w] by (simp add: w' tail_once)
    next
      assume "t = 25"
      then show ?thesis using d assms(1) owner_cleans_up [of p w] by (simp add: w' tail_once)
    qed
  qed
qed

lemma share_step_kept:
  assumes "main_inv p t w" and "share_fits p" and "share_step p w w'"
  obtains u where "kept p u w w'"
  using assms(3)
proof cases
  case owner
  then show thesis using owner_step_kept [OF assms(1,2)] that by blast
next
  case (sub i)
  then show thesis using sub_step_kept [OF assms(1,2)] that by blast
qed

lemma death_keeps:
  assumes "main_inv p t w" and "share_death p w w'"
  shows "main_inv p t w'"
  using assms(2)
proof cases
  case owner_dies
  then show ?thesis using main_owner_ends [OF assms(1)] by simp
next
  case (sub_dies i)
  then show ?thesis using main_sub_dies [OF assms(1)] by simp
qed

end
