(* ===== verification/Share_Reach.thy ===== *)
theory Share_Reach
  imports Share_Phases
begin

text \<open>
  The owner's first chunks, before anybody can connect; then what every reachable state satisfies, with
  deaths and without, the length of a run, and that processes that live are never stuck.
\<close>

section \<open>The first chunks\<close>

definition adding :: "nat \<Rightarrow> nat \<Rightarrow> OwnerPhase list" where
  "adding j n = concat (map (\<lambda>i. [Once (DoAddChunk i), Once DoPushFd]) [j..<n])"

lemma adding_done [simp]: "adding n n = []"
  by (simp add: adding_def)

lemma adding_next: "j < n \<Longrightarrow> adding j n = Once (DoAddChunk j) # Once DoPushFd # adding (j + 1) n"
  by (simp add: adding_def upt_conv_Cons Suc_eq_plus1)

lemma upt_next: "[0..<j + 1] = [0..<j] @ [j]"
  by (simp flip: Suc_eq_plus1)

lemma length_adding: "j \<le> n \<Longrightarrow> length (adding j n) = 2 * (n - j)"
  by (induction "n - j" arbitrary: j) (simp_all add: adding_next)

text \<open>\<open>b\<close>: between \<open>add_chunk\<close> and \<open>push_back\<close>.\<close>

definition boot_inv :: "ShareParams \<Rightarrow> nat \<Rightarrow> bool \<Rightarrow> Share \<Rightarrow> bool" where
  "boot_inv p j b w \<longleftrightarrow>
     j \<le> sp_nchk p \<and> (b \<longrightarrow> j < sp_nchk p) \<and>
     ow_todo (ws_owner w) = (if b then Once DoPushFd # adding (j + 1) (sp_nchk p) else adding j (sp_nchk p)) @ share_tail (sp_chunk p) (sp_nchk p) \<and>
     ow_next (ws_owner w) = 0 \<and> handles w = [0..<ws_fresh w] \<and> ws_fresh w = (if b then j + 1 else j) \<and>
     ow_fds (ws_owner w) = [0..<j] \<and> (b \<longrightarrow> ow_fd (ws_owner w) = j) \<and>
     (ow_end (ws_owner w) = None \<longrightarrow> ow_slots (ws_owner w) = slots_from 0 (ws_fresh w) (handles w)) \<and>
     (\<forall>e. ow_end (ws_owner w) = Some e \<longrightarrow> ow_slots (ws_owner w) = no_slots \<and> e = ShareExit 1) \<and>
     (\<forall>i < sp_nsub p. looks SubStart [] 0 no_slots (ws_sub w i)) \<and> \<not> ws_listening w \<and>
     st_total_bytes (ws_st w) = sp_chunk p * sp_nchk p \<and> st_bump (ws_st w) = 0 \<and> st_allocs (ws_st w) = []"

lemma boot_start: "boot_inv p 0 False (start_share p)"
  by (simp add: boot_inv_def start_share_def handles_def owner_main_tail adding_def looks_def no_slots_def slots_from_def)

lemma boot_main:
  assumes "boot_inv p (sp_nchk p) b w"
  shows "main_inv p 0 w"
proof -
  have subs: "looks SubStart [] 0 no_slots (ws_sub w i)" if "i < sp_nsub p" for i using assms that by (simp add: boot_inv_def)
  have "stage 0 0 i = 0" for i by (simp add: stage_def is_each_def)
  then have "subs_at p 0 w" using assms subs by (simp add: subs_at_def boot_inv_def sub_at.start)
  moreover have "regions p w = 0" using subs by (simp add: regions_def looks_def)
  moreover have "tags_at p w" using assms subs by (auto simp: tags_at_def boot_inv_def looks_def)
  ultimately show ?thesis
    using assms by (simp add: main_inv_def boot_inv_def owner_at_def backings_at_def ends_at_def table_at_def)
qed

lemma boot_owner:
  assumes "boot_inv p j b w" and "j < sp_nchk p" and "owner_step p w = Some w'" and "sp_nchk p \<le> MAX_CHUNKS"
  shows "boot_inv p (if b then j + 1 else j) (\<not> b) w' \<and> (healthy p w \<longrightarrow> healthy p w')"
proof -
  have live: "ow_end (ws_owner w) = None" using assms(3) by (simp add: owner_step_def split: if_splits)
  show ?thesis
  proof (cases b)
    case True
    then have "w' = w\<lparr>ws_owner := (ws_owner w)\<lparr>ow_fds := ow_fds (ws_owner w) @ [ow_fd (ws_owner w)],
        ow_todo := adding (j + 1) (sp_nchk p) @ share_tail (sp_chunk p) (sp_nchk p)\<rparr>\<rparr>"
      using assms live by (simp add: boot_inv_def owner_step_def owner_do_defs Let_def owner_goes_on_def)
    then show ?thesis using assms live True by (simp add: boot_inv_def handles_def healthy_def upt_next)
  next
    case False
    have "ow_slots (ws_owner w) j = None" using assms(1) live False by (simp add: boot_inv_def slots_from_def)
    then have w': "w' = w\<lparr>ws_fresh := ws_fresh w + 1, ws_owner := (ws_owner w)\<lparr>ow_slots := (ow_slots (ws_owner w))(j := Some (ws_fresh w)),
        ow_handles := ow_handles (ws_owner w) @ [ws_fresh w], ow_fd := ws_fresh w,
        ow_todo := Once DoPushFd # adding (j + 1) (sp_nchk p) @ share_tail (sp_chunk p) (sp_nchk p)\<rparr>\<rparr>"
      using assms live False
      by (simp add: boot_inv_def owner_step_def adding_next [OF assms(2)] owner_do_defs Let_def owner_goes_on_def)
    have "(slots_from 0 j [0..<j])(j := Some j) = slots_from 0 (j + 1) [0..<j + 1]"
      by (auto simp: slots_from_def upt_next nth_append)
    then show ?thesis using assms live False by (simp add: boot_inv_def handles_def healthy_def w' upt_next)
  qed
qed

lemma boot_waits:
  assumes "boot_inv p j b w" and "i < sp_nsub p"
  shows "sub_step p i w = None"
  using assms by (auto simp: boot_inv_def looks_def sub_step_def Let_def)

lemma boot_dies:
  assumes "boot_inv p j b w" and "share_death p w w'"
  shows "boot_inv p j b w'"
  using assms(2)
proof cases
  case owner_dies
  then show ?thesis using assms(1) by (simp add: boot_inv_def)
next
  case (sub_dies i)
  then show ?thesis using assms(1) by (simp add: boot_inv_def looks_dies)
qed

section \<open>All reachable states\<close>

definition share_inv :: "ShareParams \<Rightarrow> Share \<Rightarrow> bool" where
  "share_inv p w \<longleftrightarrow> (\<exists>j b. j < sp_nchk p \<and> boot_inv p j b w) \<or> (\<exists>t. main_inv p t w)"

lemma share_inv_start: "share_fits p \<Longrightarrow> share_inv p (start_share p)"
  using boot_start share_fitsD(1) unfolding share_inv_def by fastforce

lemma boot_share_inv:
  assumes "boot_inv p j b w"
  shows "share_inv p w"
proof (cases "j = sp_nchk p")
  case True
  then show ?thesis unfolding share_inv_def using boot_main assms by blast
next
  case False
  then have "j < sp_nchk p" using assms by (auto simp: boot_inv_def)
  then show ?thesis using assms by (auto simp: share_inv_def)
qed

lemma share_inv_step:
  assumes "share_inv p w" and "share_fits p" and "share_step p w w'"
  shows "share_inv p w' \<and> (healthy p w \<longrightarrow> healthy p w')"
  using assms(1) unfolding share_inv_def [of p w]
proof (elim disjE exE conjE)
  fix j b assume j: "j < sp_nchk p" and boot: "boot_inv p j b w"
  have fits: "sp_nchk p \<le> MAX_CHUNKS" using share_fitsD(2) [OF assms(2)] by (simp add: MAX_CHUNKS_def)
  have "owner_step p w = Some w'" using assms(3) boot_waits [OF boot] by cases auto
  then show ?thesis using boot_owner [OF boot j _ fits] boot_share_inv by blast
next
  fix t assume "main_inv p t w"
  then obtain u where "kept p u w w'" using share_step_kept [OF _ assms(2,3)] by blast
  then show ?thesis by (auto simp: kept_def share_inv_def)
qed

lemma share_inv_death:
  assumes "share_inv p w" and "share_death p w w'"
  shows "share_inv p w'"
  using assms boot_dies death_keeps unfolding share_inv_def by blast

lemma shared_inv: "shared p w \<Longrightarrow> share_fits p \<Longrightarrow> share_inv p w"
  by (induction rule: shared.induct) (use share_inv_start share_inv_step share_inv_death in blast)+

text \<open>Runs without deaths.\<close>

inductive lived :: "ShareParams \<Rightarrow> Share \<Rightarrow> bool" for p where
  start: "lived p (start_share p)"
| step: "lived p w \<Longrightarrow> share_step p w w' \<Longrightarrow> lived p w'"

lemma healthy_start: "healthy p (start_share p)"
  by (simp add: healthy_def start_share_def)

lemma lived_inv: "lived p w \<Longrightarrow> share_fits p \<Longrightarrow> share_inv p w \<and> healthy p w"
  by (induction rule: lived.induct) (use share_inv_start healthy_start share_inv_step in blast)+

section \<open>The length of a run\<close>

fun pc_left :: "SubPc \<Rightarrow> nat" where
  "pc_left (SubAlloc k) = 3"
| "pc_left (SubTag k a) = 2"
| "pc_left (SubEnd e) = 0"
| "pc_left pc = (if pc \<in> {SubHeader, SubAdd, SubServe} then 0 else 1)"

definition sub_left :: "ShareSub \<Rightarrow> nat" where
  "sub_left s = (if sub_gone s then 0 else 1 + pc_left (sb_pc s) + 5 * length (sb_down s))"

definition owner_left :: "ShareParams \<Rightarrow> ShareOwner \<Rightarrow> nat" where
  "owner_left p q = (if ow_end q = None then 1 + 6 * (length (ow_todo q) * (sp_nsub p + 1) - ow_next q) else 0)"

definition share_left :: "ShareParams \<Rightarrow> Share \<Rightarrow> nat" where
  "share_left p w = owner_left p (ws_owner w) + (\<Sum>i < sp_nsub p. sub_left (ws_sub w i))"

lemma sum_put_sub:
  fixes f :: "ShareSub \<Rightarrow> nat"
  assumes "i < n"
  shows "(\<Sum>j<n. f (ws_sub (put_sub i s w) j)) + f (ws_sub w i) = (\<Sum>j<n. f (ws_sub w j)) + f s"
proof -
  have split: "(\<Sum>j<n. f (ws_sub v j)) = (\<Sum>j\<in>{..<n} - {i}. f (ws_sub v j)) + f (ws_sub v i)" for v
    using assms by (subst sum.remove [of _ i]) auto
  have "(\<Sum>j\<in>{..<n} - {i}. f (ws_sub (put_sub i s w) j)) = (\<Sum>j\<in>{..<n} - {i}. f (ws_sub w j))"
    by (intro sum.cong) auto
  then show ?thesis unfolding split [of "put_sub i s w"] split [of w] by simp
qed

lemma left_put_sub:
  assumes "i < sp_nsub p"
  shows "share_left p (put_sub i s w) + sub_left (ws_sub w i) = share_left p w + sub_left s"
  using sum_put_sub [OF assms, of sub_left s w] by (simp add: share_left_def)

lemma left_put_sub_less:
  assumes "i < sp_nsub p" and "sub_left s < sub_left (ws_sub w i)"
  shows "share_left p (put_sub i s w) < share_left p w"
  using left_put_sub [OF assms(1), of s w] assms(2) by simp

lemma left_owner_ends: "ow_end (ws_owner w) = None \<Longrightarrow> share_left p (owner_ends e w) < share_left p w"
  by (simp add: share_left_def owner_left_def)

lemma dead_left [simp]: "sub_left (sub_dies s) = 0"
  by (simp add: sub_left_def sub_gone_def)

lemma alive_left: "\<not> sub_gone s \<Longrightarrow> sub_left s = 1 + pc_left (sb_pc s) + 5 * length (sb_down s)"
  by (simp add: sub_left_def)

lemma sub_map_chunk_frame [simp]: "sb_pc (sub_map_chunk i fd s) = sb_pc s" "sb_down (sub_map_chunk i fd s) = sb_down s"
  by (simp_all add: sub_map_chunk_def)

lemma map_fold_frame: "sb_pc (fold (\<lambda>i. sub_map_chunk i (f i)) is s) = sb_pc s \<and> sb_down (fold (\<lambda>i. sub_map_chunk i (f i)) is s) = sb_down s"
  by (induction "is" arbitrary: s) simp_all

lemma sub_left_le: "sb_pc s = pc \<Longrightarrow> sb_down s = ms \<Longrightarrow> sub_left s \<le> 1 + pc_left pc + 5 * length ms"
  by (auto simp: sub_left_def)

lemma message_left:
  assumes "\<not> sub_gone s" and "sb_down s = m # ms"
  shows "sub_left (on_header m (s\<lparr>sb_down := ms\<rparr>)) < sub_left s" and "sub_left (on_add_chunk m (s\<lparr>sb_down := ms\<rparr>)) < sub_left s"
    and "sub_left (on_control m (s\<lparr>sb_down := ms\<rparr>)) < sub_left s"
proof -
  have less: "sub_left t < sub_left s" if "sb_down t = ms" "pc_left (sb_pc t) \<le> 3" for t
    using sub_left_le [OF refl that(1)] that(2) assms(2) by (simp add: alive_left [OF assms(1)])
  have dead: "0 < sub_left s" by (simp add: alive_left [OF assms(1)])
  show "sub_left (on_header m (s\<lparr>sb_down := ms\<rparr>)) < sub_left s"
    by (rule less) (simp_all add: on_header_def map_all_def map_fold_frame)
  show "sub_left (on_add_chunk m (s\<lparr>sb_down := ms\<rparr>)) < sub_left s"
    using dead by (auto simp: on_add_chunk_def intro!: less)
  show "sub_left (on_control m (s\<lparr>sb_down := ms\<rparr>)) < sub_left s"
    using dead by (auto simp: on_control_def sub_unmap_chunk_def intro!: less split: ShareMsgType.splits list.splits)
qed

lemma recv_left:
  assumes "i < sp_nsub p" and "\<not> sub_gone (ws_sub w i)" and "sub_recv i f w = Some w'"
    and "\<And>m ms. sb_down (ws_sub w i) = m # ms \<Longrightarrow> sub_left (f m ((ws_sub w i)\<lparr>sb_down := ms\<rparr>)) < sub_left (ws_sub w i)"
  shows "share_left p w' < share_left p w"
  using assms left_put_sub_less [OF assms(1)]
  by (auto simp: sub_recv_def Let_def alive_left split: list.splits if_splits)

lemma left_take: "share_left p (put_sub i s (w\<lparr>ws_st := st\<rparr>)) = share_left p (put_sub i s w)"
  and left_tag: "share_left p (put_sub i s (w\<lparr>ws_phys := ph\<rparr>)) = share_left p (put_sub i s w)"
  by (simp_all add: share_left_def cong: if_cong)

lemma move_left:
  assumes "\<not> sub_gone s" and "sb_down t = sb_down s" and "pc_left (sb_pc t) < pc_left (sb_pc s)"
  shows "sub_left t < sub_left s"
  using sub_left_le [of t, OF refl assms(2)] assms(3) by (simp add: alive_left [OF assms(1)])

lemma sub_step_left:
  assumes "i < sp_nsub p" and "sub_step p i w = Some w'"
  shows "share_left p w' < share_left p w"
proof -
  let ?s = "ws_sub w i"
  have goes: "\<not> sub_gone ?s" using assms(2) by (auto simp: sub_step_def Let_def split: if_splits)
  have dead: "share_left p (put_sub i (sub_dies ?s) w) < share_left p w"
    by (rule left_put_sub_less [OF assms(1)]) (simp add: alive_left [OF goes])
  have move: "share_left p (put_sub i t w) < share_left p w" if "sb_down t = sb_down ?s" "pc_left (sb_pc t) < pc_left (sb_pc ?s)" for t
    by (rule left_put_sub_less [OF assms(1) move_left [OF goes that]])
  note step = assms(2) [unfolded sub_step_def Let_def, simplified goes, simplified]
  show ?thesis
  proof (cases "sb_pc ?s")
    case SubStart
    then show ?thesis using step move by (auto split: if_splits)
  next
    case SubHeader
    then show ?thesis using step recv_left [OF assms(1) goes] message_left [OF goes] by auto
  next
    case (SubAlloc pass)
    then show ?thesis using step dead move by (auto simp: left_take split: sum.splits ShareEnd.splits prod.splits)
  next
    case (SubTag pass a)
    then show ?thesis using step dead move by (auto simp: left_tag split: option.splits)
  next
    case (SubAck pass)
    then show ?thesis using step dead move by (auto simp: sub_ack_def Let_def)
  next
    case SubAdd
    then show ?thesis using step recv_left [OF assms(1) goes] message_left [OF goes] by auto
  next
    case SubServe
    then show ?thesis using step recv_left [OF assms(1) goes] message_left [OF goes] by auto
  next
    case SubServeAck
    then show ?thesis using step dead move by (auto simp: sub_ack_def Let_def)
  next
    case SubVerify
    then show ?thesis using step dead move by (auto simp: Let_def split: option.splits)
  next
    case (SubEnd e)
    then show ?thesis using goes by (simp add: sub_gone_def)
  qed
qed

lemma owner_do_frame: "ow_todo (ws_owner (owner_do p d w)) = ow_todo (ws_owner w) \<and> ow_next (ws_owner (owner_do p d w)) = ow_next (ws_owner w) \<and>
    ws_sub (owner_do p d w) = ws_sub w"
  by (cases d) (simp_all add: owner_do_defs Let_def split: option.splits)

text \<open>The turns of a phase never pass the number of subscribers.\<close>

lemma turns_left:
  assumes "k < (n::nat)"
  shows "Suc r * (n + 1) - (k + 1) < Suc r * (n + 1) - k" and "r * (n + 1) - 0 < Suc r * (n + 1) - n" and "r * (n + 1) - k < Suc r * (n + 1) - k"
  using assms by (simp_all add: less_diff_conv trans_less_add1)

lemma owner_send_left:
  "(\<exists>e. owner_send k m fds w = owner_ends e w) \<or> (\<exists>s. owner_send k m fds w = put_sub k s w \<and> sub_left s \<le> sub_left (ws_sub w k) + 5)"
proof (cases "send_fds m fds")
  case (Some m')
  have "sub_left ((ws_sub w k)\<lparr>sb_down := sb_down (ws_sub w k) @ [m']\<rparr>) \<le> sub_left (ws_sub w k) + 5"
    by (simp add: sub_left_def sub_gone_def)
  then show ?thesis using Some by (auto simp: owner_send_def)
qed (auto simp: owner_send_def)

lemma owner_act_left:
  assumes "owner_act p a k w = Some v"
  shows "(\<exists>e. ow_end (ws_owner v) = Some e \<and> ws_sub v = ws_sub w \<and> ow_next (ws_owner v) = ow_next (ws_owner w)) \<or>
    (\<exists>s. v = put_sub k s w \<and> sub_left s \<le> sub_left (ws_sub w k) + 5)"
proof -
  have sent: ?thesis if "v = owner_send k m fds w" for m fds
    using owner_send_left [of k m fds w] that by fastforce
  have less: "sub_left ((ws_sub w k)\<lparr>sb_up := u\<rparr>) \<le> sub_left (ws_sub w k) + 5" for u
    by (simp add: sub_left_def sub_gone_def)
  show ?thesis
  proof (cases a)
    case ActRead
    then have "v = put_sub k ((ws_sub w k)\<lparr>sb_up := sb_up (ws_sub w k) - 1\<rparr>) w \<or> v = owner_ends (ShareExit 1) w"
      using assms by (auto simp: owner_act_def split: if_splits)
    then show ?thesis using less by auto
  qed (use assms sent in \<open>auto simp: owner_act_def split: if_splits\<close>)
qed

lemma owner_step_left:
  assumes "owner_step p w = Some w'" and "ow_next (ws_owner w) \<le> sp_nsub p"
  shows "share_left p w' < share_left p w \<and> ow_next (ws_owner w') \<le> sp_nsub p"
proof -
  have live: "ow_end (ws_owner w) = None" using assms(1) by (simp add: owner_step_def split: if_splits)
  have ended: "share_left p v < share_left p w" if "ow_end (ws_owner v) = Some e" "ws_sub v = ws_sub w" for v e
    using that live by (simp add: share_left_def owner_left_def)
  obtain ph ps where todo: "ow_todo (ws_owner w) = ph # ps" using assms(1) live by (auto simp: owner_step_def split: list.splits)
  show ?thesis
  proof (cases ph)
    case (Once d)
    let ?v = "owner_do p d w"
    have w': "w' = owner_goes_on (ow_todo_update (\<lambda>_. ps)) ?v" using assms(1) live todo Once by (simp add: owner_step_def)
    show ?thesis
    proof (cases "ow_end (ws_owner ?v)")
      case None
      then show ?thesis
        using live todo assms(2) owner_do_frame [of p d w]
        by (simp add: w' goes_on_to share_left_def owner_left_def)
    next
      case (Some e)
      then show ?thesis using ended [OF Some] assms(2) owner_do_frame [of p d w] by (simp add: w' goes_on_ended)
    qed
  next
    case (Each a)
    show ?thesis
    proof (cases "sp_nsub p \<le> ow_next (ws_owner w)")
      case True
      then show ?thesis
        using assms live todo Each by (auto simp: owner_step_def goes_on_to share_left_def owner_left_def)
    next
      case False
      let ?k = "ow_next (ws_owner w)"
      obtain v where v: "owner_act p a ?k w = Some v" and w': "w' = owner_goes_on (\<lambda>q. q\<lparr>ow_next := ow_next q + 1\<rparr>) v"
        using assms(1) live todo Each False by (auto simp: owner_step_def)
      have "(\<exists>e. ow_end (ws_owner v) = Some e \<and> ws_sub v = ws_sub w \<and> ow_next (ws_owner v) = ?k) \<or>
          (\<exists>s. v = put_sub ?k s w \<and> sub_left s \<le> sub_left (ws_sub w ?k) + 5)"
        by (rule owner_act_left [OF v])
      then show ?thesis
      proof (elim disjE exE conjE)
        fix e assume "ow_end (ws_owner v) = Some e" and "ws_sub v = ws_sub w" and "ow_next (ws_owner v) = ?k"
        then show ?thesis using ended False by (simp add: w' goes_on_ended)
      next
        fix s assume s: "v = put_sub ?k s w" "sub_left s \<le> sub_left (ws_sub w ?k) + 5"
        have "owner_left p (ws_owner w') + 6 = owner_left p (ws_owner w)"
          using s(1) live False todo by (simp add: w' goes_on_to owner_left_def)
        moreover have "(\<Sum>i < sp_nsub p. sub_left (ws_sub w' i)) + sub_left (ws_sub w ?k) = (\<Sum>i < sp_nsub p. sub_left (ws_sub w i)) + sub_left s"
          using sum_put_sub [of ?k "sp_nsub p" sub_left s w] False live s(1) by (simp only: w' goes_on_to goes_to_simps not_le put_sub_simps(1))
        ultimately show ?thesis using s False live by (simp add: share_left_def w' goes_on_to)
      qed
    qed
  qed
qed

end
