(* ===== verification/Share_Progress.thy ===== *)
theory Share_Progress
  imports Share_Reach
begin

text \<open>Processes that live are never stuck, and what a state in which all have finished looks like.\<close>

section \<open>A run has an end\<close>

text \<open>Runs with the number of their steps and deaths.\<close>

inductive share_run :: "ShareParams \<Rightarrow> nat \<Rightarrow> Share \<Rightarrow> bool" for p where
  start: "share_run p 0 (start_share p)"
| step: "share_run p n w \<Longrightarrow> share_step p w w' \<Longrightarrow> share_run p (n + 1) w'"
| death: "share_run p n w \<Longrightarrow> share_death p w w' \<Longrightarrow> share_run p (n + 1) w'"

definition share_bound :: "ShareParams \<Rightarrow> nat" where
  "share_bound p = 1 + 6 * ((2 * sp_nchk p + 26) * (sp_nsub p + 1)) + 2 * sp_nsub p"

lemma length_owner_main: "length (owner_main c n) = 2 * n + 26"
  using length_adding [of 0 n] by (simp add: owner_main_tail adding_def share_tail_def)

lemma share_left_start: "share_left p (start_share p) = share_bound p"
  by (simp add: share_left_def owner_left_def sub_left_def sub_gone_def start_share_def length_owner_main share_bound_def)

lemma sub_step_owner: "sub_step p i w = Some w' \<Longrightarrow> ws_owner w' = ws_owner w"
  by (auto simp: sub_step_def Let_def sub_recv_def sub_ack_def put_sub_def split: if_splits SubPc.splits sum.splits ShareEnd.splits option.splits list.splits)

lemma share_step_left:
  assumes "share_step p w w'" and "ow_next (ws_owner w) \<le> sp_nsub p"
  shows "share_left p w' < share_left p w \<and> ow_next (ws_owner w') \<le> sp_nsub p"
  using assms(1)
proof cases
  case owner
  then show ?thesis by (rule owner_step_left [OF _ assms(2)])
next
  case (sub i)
  then show ?thesis using sub_step_left [OF sub] sub_step_owner [OF sub(2)] assms(2) by simp
qed

lemma share_death_left:
  assumes "share_death p w w'" and "ow_next (ws_owner w) \<le> sp_nsub p"
  shows "share_left p w' < share_left p w \<and> ow_next (ws_owner w') \<le> sp_nsub p"
  using assms(1)
proof cases
  case owner_dies
  then show ?thesis using left_owner_ends assms(2) by simp
next
  case (sub_dies i)
  then show ?thesis using left_put_sub_less [OF sub_dies(2), of "sub_dies (ws_sub w i)" w] assms(2) by (simp add: alive_left)
qed

lemma share_run_left: "share_run p n w \<Longrightarrow> n + share_left p w \<le> share_bound p \<and> ow_next (ws_owner w) \<le> sp_nsub p"
proof (induction rule: share_run.induct)
  case start
  then show ?case by (simp add: share_left_start) (simp add: start_share_def)
next
  case (step n w w')
  then show ?case using share_step_left [OF step(2)] by fastforce
next
  case (death n w w')
  then show ?case using share_death_left [OF death(2)] by fastforce
qed

section \<open>Nobody waits for ever\<close>

lemma sub_blocked:
  assumes "sub_step p i w = None" and "\<not> sub_gone (ws_sub w i)"
  shows "sb_pc (ws_sub w i) = SubStart \<and> \<not> ws_listening w \<or> sb_pc (ws_sub w i) \<in> {SubHeader, SubAdd, SubServe} \<and> sb_down (ws_sub w i) = []"
  using assms
  by (cases "sb_pc (ws_sub w i)")
    (auto simp: sub_step_def Let_def sub_recv_def sub_gone_def split: if_splits sum.splits ShareEnd.splits option.splits list.splits)

lemma sub_at_waits:
  assumes "sub_at p H n s" and "sb_pc s \<in> {SubHeader, SubAdd, SubServe}" and "sb_down s = []" and "sb_up s = 0"
  shows "n \<in> {0, 2, 4, 6, 8, 10, 12}"
  using assms by cases (auto simp: looks_def working_def)

lemma sub_at_started: "sub_at p H n s \<Longrightarrow> sb_pc s = SubStart \<Longrightarrow> n = 0"
  by (erule sub_at.cases) (auto simp: looks_def working_def)

lemma sub_at_verdict: "sub_at p H n s \<Longrightarrow> sb_pc s = SubEnd e \<Longrightarrow> e = ShareExit (if 2 \<le> sp_nsub p then 0 else 1)"
  by (erule sub_at.cases) (auto simp: looks_def working_def)

definition share_finished :: "ShareParams \<Rightarrow> Share \<Rightarrow> bool" where
  "share_finished p w \<longleftrightarrow> ow_end (ws_owner w) = Some (ShareExit 0) \<and>
     (\<forall>i < sp_nsub p. sb_pc (ws_sub w i) = SubEnd (ShareExit (if 2 \<le> sp_nsub p then 0 else 1)))"

lemma once_goes: "ow_end (ws_owner w) = None \<Longrightarrow> ow_todo (ws_owner w) = Once d # ps \<Longrightarrow> owner_step p w \<noteq> None"
  by (simp add: owner_step_def)

text \<open>A live owner steps, or the subscriber it waits for does.\<close>

lemma owner_or_sub:
  assumes "main_inv p t w" and "healthy p w" and "ow_end (ws_owner w) = None"
  shows "owner_step p w \<noteq> None \<or> (\<exists>i < sp_nsub p. sub_step p i w \<noteq> None)"
proof (rule ccontr)
  assume "\<not> ?thesis"
  then have stuck: "owner_step p w = None" and subs: "\<And>i. i < sp_nsub p \<Longrightarrow> sub_step p i w = None" by auto
  let ?tail = "share_tail (sp_chunk p) (sp_nchk p)" and ?k = "ow_next (ws_owner w)"
  have t: "t \<le> 25" and todo: "ow_todo (ws_owner w) = ?tail ! t # drop (Suc t) ?tail"
    using main_invD(1) [OF assms(1)] tail_next by (auto simp: owner_at_def)
  have each: "is_each t"
  proof (rule ccontr)
    assume "\<not> is_each t"
    then obtain d where "?tail ! t = Once d" by (rule tail_is_once [OF t])
    then have "ow_todo (ws_owner w) = Once d # drop (Suc t) ?tail" using todo by simp
    from once_goes [OF assms(3) this] show False using stuck by blast
  qed
  obtain a where a: "?tail ! t = Each a" by (rule tail_is_each [OF each])
  have k: "?k < sp_nsub p" and act: "owner_act p a ?k w = None"
    using stuck assms(3) todo a by (auto simp: owner_step_def split: if_splits)
  note at = turn [OF assms(1) k] and blocked = sub_blocked [OF subs [OF k]]
  have alive: "\<not> sub_gone (ws_sub w ?k)"
    using gone_is_dead [OF at] exchanges_each [OF each] assms(2) k by (auto simp: healthy_def)
  have listening: "ws_listening w" using main_invD(5) [OF assms(1)] each by (auto simp: is_each_def)
  have "t = 1 \<or> t \<in> {2, 6, 8, 14, 16, 22}"
    using each a act unfolding each_iff by (elim disjE) (auto simp: tail_each owner_act_def)
  then show False
  proof
    assume "t = 1"
    then have "sb_pc (ws_sub w ?k) = SubStart" using a act by (auto simp: tail_each owner_act_def split: if_splits)
    then show False using blocked [OF alive] listening by simp
  next
    assume t: "t \<in> {2, 6, 8, 14, 16, 22}"
    then have "a = ActRead" using a by (simp add: tail_each)
    then have "sb_up (ws_sub w ?k) = 0" using act by (auto simp: owner_act_def split: if_splits)
    then have "exchanges t \<in> {0, 2, 4, 6, 8, 10, 12}"
      using sub_at_waits [OF at] blocked [OF alive] listening by simp
    then show False using t by auto
  qed
qed

lemma never_stuck:
  assumes "share_inv p w" and "healthy p w"
  shows "(\<exists>w'. share_step p w w') \<or> share_finished p w"
proof -
  have steps: "\<exists>w'. share_step p w w'" if "owner_step p w \<noteq> None \<or> (\<exists>i < sp_nsub p. sub_step p i w \<noteq> None)"
    using that share_step.intros by (auto intro: share_step.intros)
  from assms(1) show ?thesis unfolding share_inv_def
  proof (elim disjE exE conjE)
    fix j b assume j: "j < sp_nchk p" and boot: "boot_inv p j b w"
    have "ow_end (ws_owner w) = None"
      using boot assms(2) by (cases "ow_end (ws_owner w)") (auto simp: boot_inv_def healthy_def)
    then have "owner_step p w \<noteq> None"
      using boot adding_next [OF j] by (cases b) (auto simp: boot_inv_def owner_step_def)
    then show ?thesis using steps by simp
  next
    fix t assume inv: "main_inv p t w"
    show ?thesis
    proof (cases "ow_end (ws_owner w) = None")
      case True
      then show ?thesis using owner_or_sub [OF inv assms(2)] steps by simp
    next
      case False
      then have t: "t = 25" by (rule ended_stage [OF inv assms(2)])
      have ended: "ow_end (ws_owner w) = Some (ShareExit 0)"
        using main_invD(3) [OF inv] False assms(2) by (auto simp: ends_at_def healthy_def)
      show ?thesis
      proof (cases "\<exists>i < sp_nsub p. sub_step p i w \<noteq> None")
        case True
        then show ?thesis using steps by simp
      next
        case stuck: False
        have "sb_pc (ws_sub w i) = SubEnd (ShareExit (if 2 \<le> sp_nsub p then 0 else 1))" if i: "i < sp_nsub p" for i
        proof -
          have at: "sub_at p (handles w) 13 (ws_sub w i)" using subs_atD [OF inv i] t by simp
          have "sub_gone (ws_sub w i)"
          proof (rule ccontr)
            assume "\<not> sub_gone (ws_sub w i)"
            from sub_blocked [OF _ this] show False
              using stuck i sub_at_started [OF at] waits_not_13 [OF at] by auto
          qed
          then obtain e where "sb_pc (ws_sub w i) = SubEnd e"
            using assms(2) i by (auto simp: sub_gone_def healthy_def split: SubPc.splits)
          then show ?thesis using sub_at_verdict [OF at] by simp
        qed
        then show ?thesis using ended by (simp add: share_finished_def)
      qed
    qed
  qed
qed

lemma lived_completes:
  assumes "share_fits p" and "lived p w"
  shows "\<exists>w'. lived p w' \<and> (share_step p)\<^sup>*\<^sup>* w w' \<and> share_finished p w'"
  using assms(2)
proof (induction "share_left p w" arbitrary: w rule: less_induct)
  case less
  have inv: "share_inv p w" "healthy p w" using lived_inv [OF less.prems assms(1)] by auto
  show ?case
  proof (cases "share_finished p w")
    case True
    then show ?thesis using less.prems by blast
  next
    case False
    then obtain v where v: "share_step p w v" using never_stuck [OF inv] by auto
    have "ow_next (ws_owner w) \<le> sp_nsub p"
      using inv(1) by (auto simp: share_inv_def boot_inv_def main_inv_def owner_at_def)
    then have "share_left p v < share_left p w" using share_step_left [OF v] by simp
    then obtain w' where "lived p w'" "(share_step p)\<^sup>*\<^sup>* v w'" "share_finished p w'"
      using less.hyps lived.step [OF less.prems v] by blast
    then show ?thesis using v converse_rtranclp_into_rtranclp by metis
  qed
qed

lemma finished_regions:
  assumes "share_fits p" and "lived p w" and "share_finished p w"
  shows "length (st_allocs (ws_st w)) = 2 * sp_nsub p"
proof -
  have inv: "share_inv p w" "healthy p w" using lived_inv [OF assms(2,1)] by auto
  have ended: "ow_end (ws_owner w) = Some (ShareExit 0)" using assms(3) by (simp add: share_finished_def)
  then obtain t where t: "main_inv p t w" using inv(1) by (auto simp: share_inv_def boot_inv_def)
  then have "t = 25" using ended_stage [OF t inv(2)] ended by simp
  then show ?thesis using late_phase(3) [OF t] by simp
qed

lemma lived_shared: "lived p w \<Longrightarrow> shared p w"
  by (induction rule: lived.induct) (auto intro: shared.intros)

end
