(* ===== verification/Share_Props.thy ===== *)
theory Share_Props
  imports Share_Progress
begin

text \<open>What the processes of the shared segment guarantee, in every interleaving.\<close>

text \<open>Two subscribers, four chunks of 2 MiB: the run the README describes.\<close>

definition demo_share :: ShareParams where
  "demo_share = \<lparr>sp_nsub = 2, sp_nchk = 4, sp_chunk = 2097152, sp_pid = (\<lambda>i. 1000 + i)\<rparr>"

lemma demo_share_fits: "share_fits demo_share"
  by (simp add: share_fits_def demo_share_def FDS_ROOM_def MAX_ALLOCS_def REGION_def)

lemma demo_share_finishes:
  obtains w where "lived demo_share w" and "share_finished demo_share w" and "length (st_allocs (ws_st w)) = 4"
proof -
  obtain w where w: "lived demo_share w" "share_finished demo_share w"
    using lived_completes [OF demo_share_fits lived.start] by blast
  moreover have "length (st_allocs (ws_st w)) = 4"
    using finished_regions [OF demo_share_fits w] by (simp add: demo_share_def)
  ultimately show thesis by (rule that)
qed

text \<open>The first chunk of that run.\<close>

lemma demo_first_chunk: "\<exists>w. share_step demo_share (start_share demo_share) w \<and> ow_slots (ws_owner w) 0 = Some 0 \<and> handles w = [0]"
proof -
  have "owner_main (sp_chunk demo_share) (sp_nchk demo_share) = Once (DoAddChunk 0) # Once DoPushFd #
      adding (0 + 1) (sp_nchk demo_share) @ share_tail (sp_chunk demo_share) (sp_nchk demo_share)"
    using adding_next [of 0 "sp_nchk demo_share"] by (simp add: owner_main_tail adding_def demo_share_def)
  then have "\<exists>w. owner_step demo_share (start_share demo_share) = Some w \<and> ow_slots (ws_owner w) 0 = Some 0 \<and> handles w = [0]"
    by (simp add: owner_step_def start_share_def owner_do_defs Let_def owner_goes_on_def handles_def MAX_CHUNKS_def)
  then show ?thesis using share_step.owner by blast
qed

section \<open>Regions\<close>

lemma regions_of:
  assumes "share_inv p w" and "share_fits p" and "m < length (st_allocs (ws_st w))"
  shows "sa_off (st_allocs (ws_st w) ! m) = region_off p m" and "sa_len (st_allocs (ws_st w) ! m) = REGION"
    and "region_off p m + REGION \<le> st_total_bytes (ws_st w)"
proof -
  obtain t where t: "main_inv p t w" using assms(1,3) by (auto simp: share_inv_def boot_inv_def)
  note tab = main_invD(6) [OF t, unfolded table_at_def] and hs = main_invD(2) [OF t, unfolded backings_at_def]
  have m: "m < regions p w" using tab assms(3) by simp
  then show "sa_off (st_allocs (ws_st w) ! m) = region_off p m" and "sa_len (st_allocs (ws_st w) ! m) = REGION" using tab by simp_all
  have a: "st_allocs (ws_st w) ! m \<in> set (st_allocs (ws_st w))" using assms(3) by simp
  have "sa_off (st_allocs (ws_st w) ! m) + sa_len (st_allocs (ws_st w) ! m) \<le> sp_chunk p * sp_nchk p" if "t \<le> 4"
  proof (cases "t \<le> 2")
    case True
    then show ?thesis using region_inside(4) [OF t assms(2) a] by simp
  next
    case False
    then have "stage t (ow_next (ws_owner w)) i = 2" for i
      using that exchanges_mono [of 3 t] exchanges_mono [of "Suc t" 5] stage_ge [of t "ow_next (ws_owner w)" i]
        stage_le [of t "ow_next (ws_owner w)" i] by simp
    then have "m < sp_nsub p" using regions_bounds(2) [OF t] m by simp
    then show ?thesis using region_off_first [OF assms(2)] tab m by simp
  qed
  moreover have "m < 2 * sp_nsub p" using regions_bounds(1) [OF t] m by simp
  then have "region_off p m + REGION \<le> sp_chunk p * (sp_nchk p + 1)" by (rule region_off_bound [OF assms(2)])
  ultimately show "region_off p m + REGION \<le> st_total_bytes (ws_st w)" using tab m by auto
qed

text \<open>
  C35. In every interleaving: the regions that \<open>alloc_and_tag\<close> handed out follow each other without
  overlap, are 4-aligned and lie inside the segment's current size, across the growth of the segment;
  the table never has more than two entries for each subscriber, of which there are at most 32
  (\<open>share_fits\<close>; with more the code overruns the table). Processes may die at any point outside their
  sections under the mutex: a section is one step of the model, and after a crash inside one, where the
  README leaves lock and segment undefined, an entry may be counted and not written.
\<close>

theorem shared_regions_apart:
  assumes "share_fits p" and "shared p w"
  shows "(\<forall>m m'. m < m' \<longrightarrow> m' < length (st_allocs (ws_st w)) \<longrightarrow>
      sa_off (st_allocs (ws_st w) ! m) + sa_len (st_allocs (ws_st w) ! m) \<le> sa_off (st_allocs (ws_st w) ! m')) \<and>
    (\<forall>a\<in>set (st_allocs (ws_st w)). sa_len a = REGION \<and> 4 dvd sa_off a \<and> sa_off a + sa_len a \<le> st_total_bytes (ws_st w)) \<and>
    length (st_allocs (ws_st w)) \<le> 2 * sp_nsub p"
proof (intro conjI allI impI)
  note inv = shared_inv [OF assms(2,1)] and region = regions_of [OF shared_inv [OF assms(2,1)] assms(1)]
  fix m m' assume "m < m'" and "m' < length (st_allocs (ws_st w))"
  then show "sa_off (st_allocs (ws_st w) ! m) + sa_len (st_allocs (ws_st w) ! m) \<le> sa_off (st_allocs (ws_st w) ! m')"
    using region region_off_apart [OF assms(1)] by simp
next
  show "\<forall>a\<in>set (st_allocs (ws_st w)). sa_len a = REGION \<and> 4 dvd sa_off a \<and> sa_off a + sa_len a \<le> st_total_bytes (ws_st w)"
    using regions_of [OF shared_inv [OF assms(2,1)] assms(1)] region_off_aligned [OF assms(1)] by (auto simp: in_set_conv_nth)
next
  show "length (st_allocs (ws_st w)) \<le> 2 * sp_nsub p"
    using shared_inv [OF assms(2,1)] regions_bounds(1) by (fastforce simp: share_inv_def boot_inv_def main_inv_def table_at_def)
qed

theorem shared_regions_apart_witness:
  "\<exists>w. shared demo_share w \<and> length (st_allocs (ws_st w)) = 4 \<and>
     sa_off (st_allocs (ws_st w) ! 1) + REGION \<le> sa_off (st_allocs (ws_st w) ! 2)"
proof -
  obtain w where w: "lived demo_share w" "length (st_allocs (ws_st w)) = 4" by (rule demo_share_finishes)
  note apart = shared_regions_apart [OF demo_share_fits lived_shared [OF w(1)]]
  have "st_allocs (ws_st w) ! 1 \<in> set (st_allocs (ws_st w))" using w(2) by simp
  then have "sa_len (st_allocs (ws_st w) ! 1) = REGION" using apart by blast
  moreover have "sa_off (st_allocs (ws_st w) ! 1) + sa_len (st_allocs (ws_st w) ! 1) \<le> sa_off (st_allocs (ws_st w) ! 2)"
    using apart [THEN conjunct1, rule_format, of 1 2] w(2) by simp
  ultimately show ?thesis using w lived_shared by auto
qed

section \<open>Mappings\<close>

lemma sub_at_slots:
  assumes "sub_at p H n s" and "sb_slots s j = Some b"
  shows "b = H ! j \<and> (j < sp_nchk p \<or> j < sp_nchk p + 1 \<and> 3 \<le> n)" and "n \<in> {6, 10} \<Longrightarrow> j \<noteq> 0"
  using assms by (cases; auto simp: looks_def no_slots_def slots_from_def split: if_splits)+

lemma main_slots:
  assumes "main_inv p t w" and "i < sp_nsub p" and "sb_slots (ws_sub w i) j = Some b"
  shows "j < length (handles w) \<and> b = handles w ! j"
proof -
  note s = sub_at_slots(1) [OF subs_atD [OF assms(1,2)] assms(3)]
  have "4 \<le> t" if "3 \<le> stage t (ow_next (ws_owner w)) i"
  proof (rule ccontr)
    assume "\<not> 4 \<le> t"
    then show False using that exchanges_mono [of "Suc t" 4] stage_le [of t "ow_next (ws_owner w)" i] by simp
  qed
  then show ?thesis using s main_invD(2) [OF assms(1)] by (auto simp: backings_at_def split: if_splits)
qed

lemma exchanging:
  assumes "main_inv p t w" and "ow_todo (ws_owner w) = Once d # ps" and "d \<in> {DoCopy 0, DoSwitch 0}"
  shows "t \<in> {9, 17} \<or> t \<in> {10, 18}"
proof -
  let ?tail = "share_tail (sp_chunk p) (sp_nchk p)"
  have t: "t \<le> 25" and todo: "?tail ! t = Once d"
    using main_invD(1) [OF assms(1)] tail_next [of t] assms(2) by (auto simp: owner_at_def)
  have "\<not> is_each t" using todo tail_is_each by (metis OwnerPhase.distinct(1))
  from once_cases [OF t this] show ?thesis
    using todo assms(3) by (elim disjE) (auto simp: tail_once)
qed

text \<open>
  C31. In every interleaving, with processes dying at any point outside their sections under the mutex:
  whatever a process maps in a slot is the owner's current backing of that chunk, the backings are
  different, and while the owner copies and exchanges chunk 0 no subscriber maps it, so no write can be
  lost with the old backing.
\<close>

theorem shared_mappings_current:
  assumes "share_fits p" and "shared p w"
  shows "distinct (handles w) \<and>
    (\<forall>j b. ow_slots (ws_owner w) j = Some b \<longrightarrow> j < length (handles w) \<and> b = handles w ! j) \<and>
    (\<forall>i < sp_nsub p. \<forall>j b. sb_slots (ws_sub w i) j = Some b \<longrightarrow> j < length (handles w) \<and> b = handles w ! j) \<and>
    (\<forall>d ps. ow_todo (ws_owner w) = Once d # ps \<longrightarrow> d \<in> {DoCopy 0, DoSwitch 0} \<longrightarrow> (\<forall>i < sp_nsub p. sb_slots (ws_sub w i) 0 = None))"
  using shared_inv [OF assms(2,1)] unfolding share_inv_def
proof (elim disjE exE conjE)
  fix j b assume j: "j < sp_nchk p" and boot: "boot_inv p j b w"
  have owner: "ow_slots (ws_owner w) = slots_from 0 (length (handles w)) (handles w) \<or> ow_slots (ws_owner w) = no_slots"
    using boot by (cases "ow_end (ws_owner w)") (auto simp: boot_inv_def)
  have subs: "sb_slots (ws_sub w i) = no_slots" if "i < sp_nsub p" for i using boot that by (auto simp: boot_inv_def looks_def)
  show ?thesis
    using owner subs boot by (auto simp: slots_from_def no_slots_def split: if_splits) (auto simp: boot_inv_def)
next
  fix t assume inv: "main_inv p t w"
  have owner: "ow_slots (ws_owner w) = slots_from 0 (length (handles w)) (handles w) \<or> ow_slots (ws_owner w) = no_slots"
    using main_invD(3) [OF inv] by (cases "ow_end (ws_owner w)") (auto simp: ends_at_def)
  have "sb_slots (ws_sub w i) 0 = None" if "ow_todo (ws_owner w) = Once d # ps" "d \<in> {DoCopy 0, DoSwitch 0}" "i < sp_nsub p" for d ps i
  proof -
    have "stage t (ow_next (ws_owner w)) i \<in> {6, 10}"
      using exchanging [OF inv that(1,2)] by (auto simp: stage_def is_each_def)
    then show ?thesis using sub_at_slots(2) [OF subs_atD [OF inv that(3)]] by (cases "sb_slots (ws_sub w i) 0") auto
  qed
  then show ?thesis
    using owner main_slots [OF inv] main_invD(2) [OF inv] by (auto simp: slots_from_def no_slots_def backings_at_def split: if_splits)
qed

theorem shared_mappings_current_witness:
  "\<exists>w b. shared demo_share w \<and> ow_slots (ws_owner w) 0 = Some b \<and> handles w = [0] \<and> b = handles w ! 0"
proof -
  obtain w where w: "share_step demo_share (start_share demo_share) w" "ow_slots (ws_owner w) 0 = Some 0" "handles w = [0]"
    using demo_first_chunk by auto
  have sh: "shared demo_share w" using w(1) shared.start shared.step by blast
  have "(0::nat) = handles w ! 0"
    using shared_mappings_current [OF demo_share_fits sh, THEN conjunct2, THEN conjunct1, rule_format, OF w(2)] by simp
  then show ?thesis using sh w(2,3) by auto
qed

section \<open>Verdicts\<close>

text \<open>
  C32. In every interleaving, with processes dying at any point outside their sections under the mutex:
  the owner never reports a mismatch, although the segment has grown and its first chunk has moved to the
  host and back, and it never leaves a buffer or its list of handles; a subscriber that finishes found
  every region intact and says PASS when there are at least two subscribers, and FAIL when it is the only
  one.
\<close>

theorem shared_verdicts:
  assumes "share_fits p" and "shared p w"
  shows "ow_end (ws_owner w) \<in> {None, Some (ShareExit 0), Some (ShareExit 1)} \<and>
    (\<forall>i < sp_nsub p. \<forall>e. sb_pc (ws_sub w i) = SubEnd e \<longrightarrow> e = ShareExit (if 2 \<le> sp_nsub p then 0 else 1))"
  using shared_inv [OF assms(2,1)] unfolding share_inv_def
proof (elim disjE exE conjE)
  fix j b assume "boot_inv p j b w"
  then show ?thesis by (cases "ow_end (ws_owner w)") (auto simp: boot_inv_def looks_def)
next
  fix t assume inv: "main_inv p t w"
  have "ow_end (ws_owner w) \<in> {None, Some (ShareExit 0), Some (ShareExit 1)}"
    using main_invD(3) [OF inv] by (cases "ow_end (ws_owner w)") (auto simp: ends_at_def)
  then show ?thesis using sub_at_verdict subs_atD [OF inv] by blast
qed

theorem shared_verdicts_witness:
  "\<exists>w. shared demo_share w \<and> ow_end (ws_owner w) = Some (ShareExit 0) \<and> sb_pc (ws_sub w 1) = SubEnd (ShareExit 0)"
proof -
  obtain w where w: "lived demo_share w" "share_finished demo_share w" by (rule demo_share_finishes)
  have one: "1 < sp_nsub demo_share" by (simp add: demo_share_def)
  obtain e where e: "sb_pc (ws_sub w 1) = SubEnd e" using w(2) one by (auto simp: share_finished_def)
  have "e = ShareExit 0"
    using shared_verdicts [OF demo_share_fits lived_shared [OF w(1)], THEN conjunct2, rule_format, OF one e]
    by (simp add: demo_share_def)
  then show ?thesis using w e lived_shared by (auto simp: share_finished_def)
qed

section \<open>Termination and progress\<close>

text \<open>
  C34. However the processes interleave and whoever dies, outside the sections under the mutex, a run of
  the owner and its subscribers is finite: it has at most \<open>share_bound\<close> steps.
\<close>

theorem share_run_ends:
  assumes "share_run p n w"
  shows "n \<le> share_bound p"
  using share_run_left [OF assms] by simp

theorem share_run_ends_witness:
  "\<exists>w. share_run demo_share 1 w \<and> 1 \<le> share_bound demo_share \<and> share_bound demo_share = 617"
proof -
  obtain w where "share_step demo_share (start_share demo_share) w" using demo_first_chunk by auto
  then have "share_run demo_share (0 + 1) w" by (rule share_run.step [OF share_run.start])
  then show ?thesis using share_run_ends [of demo_share 1 w] by (auto simp: share_bound_def demo_share_def)
qed

text \<open>
  C33. Without a death, the processes are never deadlocked: in every reachable state some process can step
  or all have finished, the owner with exit code 0 and every subscriber with its verdict; and the end is
  reached from every reachable state.
\<close>

theorem handshake_completes:
  assumes "share_fits p" and "lived p w"
  shows "((\<exists>w'. share_step p w w') \<or> share_finished p w) \<and> (\<exists>w'. (share_step p)\<^sup>*\<^sup>* w w' \<and> share_finished p w')"
  using never_stuck lived_inv [OF assms(2,1)] lived_completes [OF assms] by blast

theorem handshake_completes_witness:
  "\<exists>w. (share_step demo_share)\<^sup>*\<^sup>* (start_share demo_share) w \<and> ow_end (ws_owner w) = Some (ShareExit 0) \<and>
     sb_pc (ws_sub w 0) = SubEnd (ShareExit 0) \<and> sb_pc (ws_sub w 1) = SubEnd (ShareExit 0)"
proof -
  obtain w where "(share_step demo_share)\<^sup>*\<^sup>* (start_share demo_share) w" "share_finished demo_share w"
    using handshake_completes [OF demo_share_fits lived.start] by blast
  then show ?thesis by (auto simp: share_finished_def demo_share_def)
qed

section \<open>Too many chunks\<close>

lemma boot_reaches: "sp_nchk p \<le> MAX_CHUNKS \<Longrightarrow> j \<le> sp_nchk p \<Longrightarrow> \<exists>w. lived p w \<and> boot_inv p j False w \<and> healthy p w"
proof (induction j)
  case 0
  then show ?case using lived.start boot_start healthy_start by blast
next
  case (Suc j)
  then obtain w where w: "lived p w" "boot_inv p j False w" "healthy p w" by auto
  have lt: "j < sp_nchk p" using Suc.prems by simp
  have go: "\<exists>v'. lived p v' \<and> boot_inv p (if b then j + 1 else j) (\<not> b) v' \<and> healthy p v'"
    if v: "lived p v" "boot_inv p j b v" "healthy p v" for v b
  proof -
    have "ow_end (ws_owner v) = None"
      using v(2,3) by (cases "ow_end (ws_owner v)") (auto simp: boot_inv_def healthy_def)
    then obtain v' where "owner_step p v = Some v'"
      using v(2) adding_next [OF lt] by (cases b) (auto simp: boot_inv_def owner_step_def)
    then show ?thesis using boot_owner [OF v(2) lt _ Suc.prems(1)] v(1,3) lived.step share_step.owner by blast
  qed
  obtain v where "lived p v" "boot_inv p j True v" "healthy p v" using go [OF w] by auto
  from go [OF this] show ?case by (simp add: Suc_eq_plus1)
qed

text \<open>
  \<open>owner\<close> accepts up to 255 chunks, but the header message has room for 64 descriptors: with more, a run
  without any failure reaches the point where \<open>send_fds\<close> writes behind its buffer.
\<close>

theorem too_many_chunks_overflow:
  assumes "FDS_ROOM < sp_nchk p" and "sp_nchk p \<le> MAX_CHUNKS" and "0 < sp_nsub p"
  shows "\<exists>w. lived p w \<and> ow_end (ws_owner w) = Some ShareUndefined"
proof -
  obtain w0 where w0: "lived p w0" "boot_inv p (sp_nchk p) False w0" "healthy p w0" using boot_reaches [OF assms(2) order_refl] by auto
  have live0: "ow_end (ws_owner w0) = None"
    using w0(2,3) by (cases "ow_end (ws_owner w0)") (auto simp: boot_inv_def healthy_def)
  have sub0: "looks SubStart [] 0 no_slots (ws_sub w0 0)" "\<not> sb_dead (ws_sub w0 0)"
    using w0(2,3) assms(3) by (auto simp: boot_inv_def healthy_def)
  define w1 where "w1 = w0\<lparr>ws_listening := True, ws_owner := (ws_owner w0)\<lparr>ow_todo := drop 1 (share_tail (sp_chunk p) (sp_nchk p))\<rparr>\<rparr>"
  have "ow_todo (ws_owner w0) = Once DoListen # drop 1 (share_tail (sp_chunk p) (sp_nchk p))"
    using w0(2) tail_next [of 0 "sp_chunk p" "sp_nchk p"] by (simp add: boot_inv_def tail_once Suc_eq_plus1)
  then have "owner_step p w0 = Some w1"
    using live0 by (simp add: owner_step_def owner_do_defs Let_def owner_goes_on_def w1_def)
  then have l1: "lived p w1" using lived.step [OF w0(1)] share_step.owner by blast
  define w2 where "w2 = put_sub 0 ((ws_sub w1 0)\<lparr>sb_pc := SubHeader\<rparr>) w1"
  have "sub_step p 0 w1 = Some w2"
    using sub0 by (simp add: sub_step_def Let_def sub_gone_def looks_def w1_def w2_def)
  then have l2: "lived p w2" using lived.step [OF l1] share_step.sub [OF assms(3)] by blast
  have "ow_todo (ws_owner w2) = Each ActAccept # drop 2 (share_tail (sp_chunk p) (sp_nchk p))"
    using tail_next [of 1 "sp_chunk p" "sp_nchk p"] by (simp add: w2_def w1_def tail_each Suc_eq_plus1)
  moreover have "ow_end (ws_owner w2) = None" "ow_next (ws_owner w2) = 0" "length (ow_fds (ws_owner w2)) = sp_nchk p"
    using w0(2) live0 by (simp_all add: w2_def w1_def boot_inv_def)
  moreover have "sb_pc (ws_sub w2 0) \<noteq> SubStart" by (simp add: w2_def)
  ultimately obtain w3 where "owner_step p w2 = Some w3" "ow_end (ws_owner w3) = Some ShareUndefined"
    using assms by (auto simp: owner_step_def owner_act_def owner_send_def send_fds_def goes_on_ended)
  then show ?thesis using lived.step [OF l2] share_step.owner by blast
qed

theorem too_many_chunks_overflow_witness:
  "\<exists>w. lived \<lparr>sp_nsub = 1, sp_nchk = 65, sp_chunk = 2097152, sp_pid = (\<lambda>i. i)\<rparr> w \<and> ow_end (ws_owner w) = Some ShareUndefined"
  by (rule too_many_chunks_overflow) (simp_all add: FDS_ROOM_def MAX_CHUNKS_def)

end
