(* ===== verification/Grid.thy ===== *)
theory Grid
  imports Main
begin

text \<open>
  The threads of a one-dimensional grid of blocks of 256 threads, in any order; the kernels whose threads
  each work on one element share it.
\<close>

text \<open>An order of the threads (block, thread in it) for every number of blocks.\<close>

definition any_order :: "(nat \<Rightarrow> (nat \<times> nat) list) \<Rightarrow> bool" where
  "any_order order \<longleftrightarrow> (\<forall>n. distinct (order n) \<and> set (order n) = {0..<n} \<times> {0..<256})"

definition flat :: "nat \<times> nat \<Rightarrow> nat" where
  "flat t = fst t * 256 + snd t"

lemma flat_less:
  assumes "any_order order" and "t \<in> set (order n)"
  shows "flat t < n * 256"
proof -
  have "fst t + 1 \<le> n" "snd t < 256" using assms by (auto simp: any_order_def)
  then have "(fst t + 1) * 256 \<le> n * 256" by (intro mult_le_mono1)
  then show ?thesis using \<open>snd t < 256\<close> by (simp add: flat_def)
qed

lemma flat_inj:
  assumes "any_order order" and "t \<in> set (order n)" and "u \<in> set (order n)" and "flat t = flat u"
  shows "t = u"
proof -
  have "snd t < 256" "snd u < 256" using assms(1-3) by (auto simp: any_order_def)
  then have "fst t = flat t div 256" "fst u = flat u div 256" by (simp_all add: flat_def)
  then have "fst t = fst u" using assms(4) by simp
  then show ?thesis using assms(4) by (simp add: flat_def prod_eq_iff)
qed

text \<open>Every element of the grid has one thread.\<close>

lemma grid_covers_once:
  assumes "any_order order"
  shows "distinct (map flat (order n))" and "flat ` set (order n) = {..<n * 256}"
proof -
  show "distinct (map flat (order n))"
    using assms flat_inj [OF assms] by (simp add: distinct_map any_order_def inj_on_def)
  have "i \<in> flat ` set (order n)" if "i < n * 256" for i
  proof -
    have "(i div 256, i mod 256) \<in> set (order n)" using that assms by (simp add: any_order_def less_mult_imp_div_less)
    then have "flat (i div 256, i mod 256) \<in> flat ` set (order n)" by (rule imageI)
    then show ?thesis by (simp add: flat_def)
  qed
  then show "flat ` set (order n) = {..<n * 256}" using flat_less [OF assms] by blast
qed

text \<open>An order exists: by blocks, then by threads.\<close>

definition row_order :: "nat \<Rightarrow> (nat \<times> nat) list" where
  "row_order n = List.product [0..<n] [0..<256]"

lemma row_order_any: "any_order row_order"
  by (simp add: any_order_def row_order_def distinct_product)

end
