(* ===== verification/Vector_Scenario.thy ===== *)
theory Vector_Scenario
  imports Vector_Demo Grid
begin

text \<open>
  The test program of the vector (\<open>experiments/VMMVector/main.cu\<close>): six tests on one vector of floats,
  with a kernel that doubles the elements in place. Floats are bytes; what the program needs of their
  arithmetic is a parameter. An assertion that fails ends the process, like an exception that nobody
  catches. The initialisation of the driver, the properties that are read only to be printed, the
  printing and the clocks are left out.
\<close>

section \<open>Floats\<close>

record Floats =
  fl_of :: "nat \<Rightarrow> bytes"                  \<comment> \<open>\<open>(float)i\<close>\<close>
  fl_mul :: "bytes \<Rightarrow> bytes \<Rightarrow> bytes"
  fl_two :: bytes
  fl_zero :: bytes                          \<comment> \<open>\<open>0.0f\<close> and \<open>float{}\<close>\<close>
  fl_equal :: "bytes \<Rightarrow> bytes \<Rightarrow> bool"       \<comment> \<open>\<open>is_equal\<close>\<close>

text \<open>Four bytes each; \<open>is_equal\<close> holds of equal finite numbers; a number that is not negative times zero is zero.\<close>

definition floats_ok :: "Floats \<Rightarrow> bool" where
  "floats_ok fl \<longleftrightarrow>
     (\<forall>i. length (fl_of fl i) = 4) \<and> (\<forall>x y. length (fl_mul fl x y) = 4) \<and> length (fl_zero fl) = 4 \<and>
     (\<forall>i. fl_equal fl (fl_mul fl (fl_of fl i) (fl_two fl)) (fl_mul fl (fl_of fl i) (fl_two fl))) \<and>
     (\<forall>i. fl_mul fl (fl_of fl i) (fl_zero fl) = fl_zero fl) \<and> fl_equal fl (fl_zero fl) (fl_zero fl)"

section \<open>Helpers of the program\<close>

text \<open>\<open>assert\<close>, with the text it ends the process with: the line and the expression that failed.\<close>

definition vassert :: "string \<Rightarrow> bool \<Rightarrow> ('v, unit) act" where
  "vassert label c v = (if c then Done () else Throws label, v)"

text \<open>
  The index of a thread of \<open>kernel\<close>, computed in 32 bits, and what the thread does with it. Its store is a
  write to the mapped memory.
\<close>

definition kernel_index :: "nat \<times> nat \<Rightarrow> u64" where
  "kernel_index t = ucast (of_nat (fst t) * 256 + of_nat (snd t) :: 32 word)"

definition kernel_thread :: "PEnv \<Rightarrow> Floats \<Rightarrow> u64 \<Rightarrow> ('z Vec_scheme, unit) act" where
  "kernel_thread env fl i v =
     (if i < v_size v
      then let a = v_dptr v + i * 4
        in vbind (CU_CHECK env (QWrite a (fl_mul fl (pe_bytes env (v_hist v) a 4) (fl_two fl)))) (\<lambda>_. Pair (Done ())) v
      else (Done (), v))"

fun run_threads :: "PEnv \<Rightarrow> Floats \<Rightarrow> u64 list \<Rightarrow> ('z Vec_scheme, unit) act" where
  "run_threads env fl [] v = (Done (), v)"
| "run_threads env fl (i # is) v = vbind (kernel_thread env fl i) (\<lambda>_. run_threads env fl is) v"

text \<open>The launch; \<open>order\<close> lists the threads of a grid of so many blocks. A grid of no blocks is an error.\<close>

definition launch_kernel :: "PEnv \<Rightarrow> Floats \<Rightarrow> (nat \<Rightarrow> (nat \<times> nat) list) \<Rightarrow> (VMMVector, unit) act" where
  "launch_kernel env fl order v =
     (let blocks = unat (ROUND_UP (v_size v) 256 div 256)
      in if blocks = 0 then (Quits (CUDA_ERROR 9), v) else run_threads env fl (map kernel_index (order blocks)) v)"

definition float_at :: "bytes \<Rightarrow> nat \<Rightarrow> bytes" where
  "float_at buf i = take 4 (drop (4 * i) buf)"

definition check_values :: "PEnv \<Rightarrow> Floats \<Rightarrow> nat \<Rightarrow> bytes \<Rightarrow> (VMMVector, unit) act" where
  "check_values env fl n multiplier =
     vbind (copy_to_host env 4)
       (\<lambda>(copied, buf) v. vbind (vassert ''48: copied_size == vec.size() * sizeof(float)'' (copied = v_size v * 4))
         (\<lambda>_. vassert ''53: false'' (list_all (\<lambda>i. fl_equal fl (float_at buf i) (fl_mul fl (fl_of fl i) multiplier)) [0..<n])) v)"

section \<open>The tests\<close>

fun push_all :: "PEnv \<Rightarrow> bytes list \<Rightarrow> (VMMVector, unit) act" where
  "push_all env [] v = (Done (), v)"
| "push_all env (x # xs) v = vbind (push_back env 4 x) (\<lambda>_. push_all env xs) v"

definition test_push :: "PEnv \<Rightarrow> Floats \<Rightarrow> (nat \<Rightarrow> (nat \<times> nat) list) \<Rightarrow> u64 \<Rightarrow> (VMMVector, unit) act" where
  "test_push env fl order n =
     vbind (push_all env (map (fl_of fl) [0..<unat n]))
       (\<lambda>_. vbind (launch_kernel env fl order) (\<lambda>_. check_values env fl (unat n) (fl_two fl)))"

definition test_shrink :: "PEnv \<Rightarrow> Floats \<Rightarrow> u64 \<Rightarrow> (VMMVector, unit) act" where
  "test_shrink env fl n v =
     (let v = set_retain_last 0 v; old_capacity = v_cap v; new_size = n div 2
      in vbind (vec_resize env 4 (fl_zero fl) new_size)
           (\<lambda>_ v. vbind (vassert ''125: vec.size() == new_size'' (v_size v = new_size))
             (\<lambda>_. vbind (vassert ''126: vec.capacity() <= old_capacity'' (v_cap v \<le> old_capacity)) (\<lambda>_. check_values env fl (unat new_size) (fl_two fl))) v) v)"

definition test_regrow :: "PEnv \<Rightarrow> Floats \<Rightarrow> u64 \<Rightarrow> (VMMVector, unit) act" where
  "test_regrow env fl n =
     vbind (vec_resize env 4 (fl_zero fl) n)
       (\<lambda>_ v. vbind (vassert ''148: vec.size() == regrow_size'' (v_size v = n))
         (\<lambda>_. vbind (vassert ''149: vec.capacity() >= regrow_size'' (n \<le> v_cap v))
           (\<lambda>_. vbind (copy_to_host env 4)
             (\<lambda>(copied, buf) v. vbind (vassert ''153: copied_size == vec.size() * sizeof(float)'' (copied = v_size v * 4))
               (\<lambda>_. vbind (vassert ''156: is_equal(buf[i], (float)i * 2.0f)'' (list_all (\<lambda>i. fl_equal fl (float_at buf i) (fl_mul fl (fl_of fl i) (fl_two fl))) [0..<unat (n div 2)]))
                 (\<lambda>_. vassert ''159: is_equal(buf[i], 0.0f)'' (list_all (\<lambda>i. fl_equal fl (float_at buf i) (fl_zero fl)) [unat (n div 2)..<unat n]))) v))) v)"

definition test_keep_two :: "PEnv \<Rightarrow> Floats \<Rightarrow> u64 \<Rightarrow> (VMMVector, unit) act" where
  "test_keep_two env fl n v =
     (let v = set_retain_last 2 v; chunk_fits = v_fits v; new_size = n div 2
      in vbind (vec_resize env 4 (fl_zero fl) chunk_fits)
           (\<lambda>_ v. vbind (vassert ''182: vec.size() == chunk_fits'' (v_size v = chunk_fits)) (\<lambda>_. check_values env fl (unat (min chunk_fits new_size)) (fl_two fl)) v) v)"

definition test_keep_all :: "PEnv \<Rightarrow> Floats \<Rightarrow> u64 \<Rightarrow> (VMMVector, unit) act" where
  "test_keep_all env fl capacity_before v =
     vbind (vec_resize env 4 (fl_zero fl) 0)
       (\<lambda>_ v. vbind (vassert ''205: vec.size() == 0'' (v_size v = 0)) (\<lambda>_. vassert ''206: vec.capacity() == capacity_before'' (v_cap v = capacity_before)) v) (set_retain_last (-1) v)"

definition test_refill :: "PEnv \<Rightarrow> Floats \<Rightarrow> u64 \<Rightarrow> u64 \<Rightarrow> (VMMVector, unit) act" where
  "test_refill env fl n capacity_before =
     vbind (vec_resize env 4 (fl_zero fl) (n div 2))
       (\<lambda>_ v. vbind (vassert ''224: vec.size() == N / 2'' (v_size v = n div 2))
         (\<lambda>_. vbind (vassert ''225: vec.capacity() == capacity_before'' (v_cap v = capacity_before)) (\<lambda>_. check_values env fl (unat (n div 2)) (fl_zero fl))) v)"

text \<open>\<open>main\<close>: \<open>count\<close> limits the number of tests; it is counted down before each test, and wraps from 0.\<close>

definition unless_done :: "bool \<Rightarrow> ('v, unit) act \<Rightarrow> ('v, unit) act" where
  "unless_done c f v = (if c then (Done (), v) else f v)"

definition six_tests :: "PEnv \<Rightarrow> Floats \<Rightarrow> (nat \<Rightarrow> (nat \<times> nat) list) \<Rightarrow> u64 \<Rightarrow> u64 \<Rightarrow> (VMMVector, unit) act" where
  "six_tests env fl order n count =
     vbind (test_push env fl order n) (\<lambda>_. unless_done (count - 1 = 0)
       (vbind (test_shrink env fl n) (\<lambda>_. unless_done (count - 2 = 0)
         (vbind (test_regrow env fl n) (\<lambda>_. unless_done (count - 3 = 0)
           (vbind (test_keep_two env fl n) (\<lambda>_. unless_done (count - 4 = 0)
             (\<lambda>v. let capacity_before = v_cap v
               in vbind (test_keep_all env fl capacity_before) (\<lambda>_. unless_done (count - 5 = 0)
                    (test_refill env fl n capacity_before)) v))))))))"

definition vector_main :: "PEnv \<Rightarrow> Floats \<Rightarrow> (nat \<Rightarrow> (nat \<times> nat) list) \<Rightarrow> u64 \<Rightarrow> u64 \<Rightarrow> u64 \<Rightarrow> unit ending \<times> VMMVector" where
  "vector_main env fl order n chunk_size count =
     (case new_vector env 4 n chunk_size 0 True [] of
        (Done _, v) \<Rightarrow> vbind (six_tests env fl order n count) (\<lambda>_. drop_vector env 4) v
      | (r, v) \<Rightarrow> (r, v))"

text \<open>An arithmetic for the witnesses: numbers of four bytes, of which the first counts.\<close>

definition demo_floats :: Floats where
  "demo_floats =
     \<lparr>fl_of = (\<lambda>i. [of_nat i, 0, 0, 0]), fl_mul = (\<lambda>x y. [hd x * hd y, 0, 0, 0]), fl_two = [2, 0, 0, 0],
      fl_zero = [0, 0, 0, 0], fl_equal = (=)\<rparr>"

lemma demo_floats_ok: "floats_ok demo_floats"
  by (simp add: floats_ok_def demo_floats_def)

end
