(* ===== verification/Vector_Kernel.thy ===== *)
theory Vector_Kernel
  imports Vector_Scenario
begin

text \<open>
  The steps of the test program on the vector's contents: the kernel doubles every element whatever the
  order of its threads, the checks read the contents, and the capacities that \<open>resize\<close> leaves behind.
\<close>

section \<open>One element in place\<close>

lemma vec_element:
  assumes ok: "vec_ok gran s ps xs v" and i: "i < length xs"
  shows "bytes_at (memory (v_hist v)) (unat (v_dptr v) + i * unat s) (unat s) = map Some (xs ! i)"
    and "bytes_at (memory (v_hist v)) (unat (v_dptr v)) (i * unat s) = map Some (concat (take i xs))"
    and "bytes_at (memory (v_hist v)) (unat (v_dptr v) + i * unat s + unat s) ((length xs - Suc i) * unat s) = map Some (concat (drop (Suc i) xs))"
proof -
  note V = vec_okD [OF ok]
  let ?m = "memory (v_hist v)" and ?b = "unat (v_dptr v)" and ?s = "unat s"
  have len: "\<forall>x \<in> set xs. length x = ?s" using V(10) by blast
  have split: "length xs * ?s = i * ?s + (?s + (length xs - Suc i) * ?s)"
    using i by (metis Suc_diff_Suc add_mult_distrib le_add_diff_inverse less_imp_le mult_Suc)
  have "concat xs = concat (take i xs) @ xs ! i @ concat (drop (Suc i) xs)"
    using id_take_nth_drop [OF i] by (metis concat.simps(2) concat_append)
  then have all: "bytes_at ?m ?b (i * ?s) @ bytes_at ?m (?b + i * ?s) ?s @ bytes_at ?m (?b + i * ?s + ?s) ((length xs - Suc i) * ?s) =
      map Some (concat (take i xs)) @ map Some (xs ! i) @ map Some (concat (drop (Suc i) xs))"
    using V(11) by (simp add: split bytes_at_append add.assoc)
  have "length (concat (take i xs)) = i * ?s" using len i by (subst concat_length [of _ ?s]) (auto dest: in_set_takeD)
  moreover have "length (xs ! i) = ?s" using len i by simp
  ultimately show "bytes_at ?m (?b + i * ?s) ?s = map Some (xs ! i)" and "bytes_at ?m ?b (i * ?s) = map Some (concat (take i xs))"
    and "bytes_at ?m (?b + i * ?s + ?s) ((length xs - Suc i) * ?s) = map Some (concat (drop (Suc i) xs))"
    using all by (simp_all add: bytes_at_def append_eq_append_conv)
qed

lemma vec_address:
  assumes ok: "vec_ok gran s ps xs v" and i: "unat i < length xs"
  shows "unat (v_dptr v + i * s) = unat (v_dptr v) + unat i * unat s"
proof -
  note V = vec_okD [OF ok] and B = vec_ok_bounds [OF ok]
  have "unat i * unat s \<le> unat (v_max v) * unat s" using i V(9) B(2) by (intro mult_le_mono1) simp
  then have "unat (v_dptr v) + unat i * unat s \<le> 2 ^ 57" using B(4) by linarith
  then have big: "unat (v_dptr v) + unat i * unat s < 2 ^ 64" by (rule le_less_trans) simp
  then have m: "unat (i * s) = unat i * unat s" by (intro u64_mult_no_wrap) linarith
  then show ?thesis using big by (subst u64_add_no_wrap) (simp_all add: m)
qed

lemma vec_set_ok:
  assumes ob: "obliging gran env" and ok: "vec_ok gran s ps xs v" and len: "length x = unat s" and i: "unat i < length xs"
    and e: "CU_CHECK env (QWrite (v_dptr v + i * s) x) v = (r, v')"
  shows "(\<exists>y. r = Done y) \<and> vec_ok gran s ps (xs[unat i := x]) v' \<and> (\<exists>ts. v' = v\<lparr>v_hist := ts\<rparr>)"
proof -
  note V = vec_okD [OF ok] and B = vec_ok_bounds [OF ok]
  note l = V(6)
  note L = layoutD [OF l]
  let ?m = "memory (v_hist v)" and ?b = "unat (v_dptr v)" and ?a = "v_dptr v + i * s" and ?i = "unat i" and ?s = "unat s"
  have a: "unat ?a = ?b + ?i * ?s" by (rule vec_address [OF ok i])
  have "Suc ?i * ?s \<le> unat (v_cap v) * ?s" using i V(9) by (intro mult_le_mono1) simp
  then have fit: "?i * ?s + length x \<le> length (v_handles v) * unat (v_chunk v)" using B(9) len by simp
  have n: "unat (of_nat (length x) :: u64) = length x" by (simp add: len)
  have "legal gran ?m (QWrite ?a x)"
  proof -
    have "mm_page ?m y \<noteq> None \<and> mm_open ?m y" if "inside ?a (of_nat (length x)) y" for y
    proof -
      have "?b \<le> y" "y - ?b < length (v_handles v) * unat (v_chunk v)" using that a n fit by (auto simp: inside_def)
      then show ?thesis using L(3) L(7) [of "y - ?b"] L(8) [of "y - ?b"] by auto
    qed
    then show ?thesis by (simp add: accessible_def)
  qed
  let ?e = "(QWrite ?a x, CUDA_SUCCESS, pe_value env (v_hist v) (QWrite ?a x))"
  have c: "CU_CHECK env (QWrite ?a x) v = (Done (pe_value env (v_hist v) (QWrite ?a x)), v\<lparr>v_hist := v_hist v @ [?e]\<rparr>)"
    by (rule CU_CHECK_ok [OF ob \<open>legal gran ?m (QWrite ?a x)\<close>]) simp
  have r: "r = Done (pe_value env (v_hist v) (QWrite ?a x))" and v': "v' = v\<lparr>v_hist := v_hist v @ [?e]\<rparr>" using e c by simp_all
  have law: "lawful gran (v_hist v')" using V(12) \<open>legal gran ?m (QWrite ?a x)\<close> by (simp add: v' del: legal.simps)
  have m: "memory (v_hist v') = put_bytes (?b + ?i * ?s) (map Some x) ?m" using a by (simp add: v')
  have all: "length xs * ?s \<le> length (v_handles v) * unat (v_chunk v)" using V(9) B(9) by (metis mult_le_mono1)
  have split: "length xs * ?s = ?i * ?s + (?s + (length xs - Suc ?i) * ?s)"
    using i by (metis Suc_diff_Suc add_mult_distrib le_add_diff_inverse less_imp_le mult_Suc)
  have W: "byte_at (memory (v_hist v')) (?b + j) = (if ?i * ?s \<le> j \<and> j < ?i * ?s + ?s then map Some x ! (j - ?i * ?s) else byte_at ?m (?b + j))"
    if "j < length xs * ?s" for j
    unfolding m using layout_write [OF l, of "?i * ?s" "map Some x" j] fit all that len by simp
  have "bytes_at (memory (v_hist v')) ?b (?i * ?s) = map Some (concat (take ?i xs))"
    unfolding vec_element(2) [OF ok i, symmetric] using W split by (intro bytes_at_cong) simp
  moreover have "bytes_at (memory (v_hist v')) (?b + ?i * ?s) ?s = map Some x"
  proof (rule nth_equalityI)
    fix j assume "j < length (bytes_at (memory (v_hist v')) (?b + ?i * ?s) ?s)"
    then have j: "j < ?s" by (simp add: bytes_at_def)
    then show "bytes_at (memory (v_hist v')) (?b + ?i * ?s) ?s ! j = map Some x ! j"
      using W [of "?i * ?s + j"] split len by (simp add: bytes_at_def add.assoc)
  qed (simp add: bytes_at_def len)
  moreover have "bytes_at (memory (v_hist v')) (?b + ?i * ?s + ?s) ((length xs - Suc ?i) * ?s) = map Some (concat (drop (Suc ?i) xs))"
    unfolding vec_element(3) [OF ok i, symmetric]
  proof (intro bytes_at_cong)
    fix j assume "j < (length xs - Suc ?i) * ?s"
    then show "byte_at (memory (v_hist v')) (?b + ?i * ?s + ?s + j) = byte_at ?m (?b + ?i * ?s + ?s + j)"
      using W [of "?i * ?s + ?s + j"] split by (simp add: add.assoc)
  qed
  moreover have "concat (xs[?i := x]) = concat (take ?i xs) @ x @ concat (drop (Suc ?i) xs)"
    using i by (simp add: upd_conv_take_nth_drop)
  ultimately have "bytes_at (memory (v_hist v')) ?b (length xs * ?s) = map Some (concat (xs[?i := x]))"
    by (simp add: split bytes_at_append add.assoc)
  moreover have "layout (memory (v_hist v')) ?b (v_chunk v) (unat (v_max v) * ?s) (v_handles v) ps"
    unfolding m using l by (simp add: layout_put_bytes)
  moreover have "mm_reserved (memory (v_hist v')) = mm_reserved ?m" by (simp add: m)
  moreover have "\<forall>y \<in> set (xs[?i := x]). length y = ?s" using V(10) len by (auto dest: set_update_subset_insert [THEN subsetD])
  ultimately have "vec_ok gran s ps (xs[?i := x]) v'" using V law unfolding vec_ok_def by (simp add: v')
  then show ?thesis using r v' by blast
qed

section \<open>The kernel\<close>

abbreviation twice :: "Floats \<Rightarrow> bytes \<Rightarrow> bytes" where
  "twice fl x \<equiv> fl_mul fl x (fl_two fl)"

lemma kernel_thread_ok:
  assumes doc: "documented gran env" and ob: "obliging gran env" and ok: "vec_ok gran 4 ps xs v" and fl: "floats_ok fl"
    and e: "kernel_thread env fl ix v = (r, v')"
  defines "i \<equiv> unat (ix)"
  shows "r = Done () \<and> vec_ok gran 4 ps (if i < length xs then xs[i := twice fl (xs ! i)] else xs) v' \<and> (\<exists>ts. v' = v\<lparr>v_hist := ts\<rparr>)"
proof (cases "i < length xs")
  case True
  let ?a = "v_dptr v + ix * 4"
  have lt: "ix < v_size v" using True vec_okD(8) [OF ok] by (simp add: i_def word_less_nat_alt)
  have i: "unat (ix) < length xs" using True by (simp add: i_def)
  have "bytes_at (memory (v_hist v)) (unat ?a) (unat (4 :: u64)) = map Some (xs ! i)"
    using vec_element(1) [OF ok True] vec_address [OF ok i] by (simp add: i_def)
  then have x: "pe_bytes env (v_hist v) ?a 4 = xs ! i" using documentedD(5) [OF doc] by blast
  obtain r1 v1 where e1: "CU_CHECK env (QWrite ?a (twice fl (xs ! i))) v = (r1, v1)" by fastforce
  have "(\<exists>y. r1 = Done y) \<and> vec_ok gran 4 ps (xs[i := twice fl (xs ! i)]) v1 \<and> (\<exists>ts. v1 = v\<lparr>v_hist := ts\<rparr>)"
    unfolding i_def by (rule vec_set_ok [OF ob ok _ i e1 [unfolded i_def]]) (use fl in \<open>simp add: floats_ok_def\<close>)
  then show ?thesis using e e1 lt x True by (auto simp: kernel_thread_def Let_def vbind_def)
next
  case False
  then have "\<not> ix < v_size v" using vec_okD(8) [OF ok] by (simp add: i_def word_less_nat_alt)
  then show ?thesis using e ok False by (auto simp: kernel_thread_def intro: exI [of _ "v_hist v"])
qed

definition mapped_at :: "Floats \<Rightarrow> nat set \<Rightarrow> bytes list \<Rightarrow> bytes list" where
  "mapped_at fl I xs = map (\<lambda>i. if i \<in> I then twice fl (xs ! i) else xs ! i) [0..<length xs]"

lemma mapped_at_length [simp]: "length (mapped_at fl I xs) = length xs"
  by (simp add: mapped_at_def)

lemma mapped_at_nth [simp]: "i < length xs \<Longrightarrow> mapped_at fl I xs ! i = (if i \<in> I then twice fl (xs ! i) else xs ! i)"
  by (simp add: mapped_at_def)

lemma mapped_at_insert:
  assumes "j \<notin> I"
  shows "mapped_at fl I (if j < length xs then xs[j := twice fl (xs ! j)] else xs) = mapped_at fl (insert j I) xs"
  using assms by (auto intro!: nth_equalityI simp: nth_list_update)

lemma run_threads_ok:
  assumes doc: "documented gran env" and ob: "obliging gran env" and fl: "floats_ok fl"
    and "vec_ok gran 4 ps xs v" and "distinct ts" and "run_threads env fl ts v = (r, v')"
  shows "r = Done () \<and> vec_ok gran 4 ps (mapped_at fl (unat ` set ts) xs) v' \<and> (\<exists>ts. v' = v\<lparr>v_hist := ts\<rparr>)"
  using assms(4-)
proof (induction ts arbitrary: xs v)
  case Nil
  have "mapped_at fl {} xs = xs" by (auto intro!: nth_equalityI)
  then show ?case using Nil by (auto intro: exI [of _ "v_hist v"])
next
  case (Cons t ts)
  let ?j = "unat t"
  obtain r1 v1 where e1: "kernel_thread env fl t v = (r1, v1)" by fastforce
  note K = kernel_thread_ok [OF doc ob Cons.prems(1) fl e1]
  then have ok1: "vec_ok gran 4 ps (if ?j < length xs then xs[?j := twice fl (xs ! ?j)] else xs) v1" by blast
  have e2: "run_threads env fl ts v1 = (r, v')" using Cons.prems(3) e1 K by (simp add: vbind_def)
  have j: "?j \<notin> unat ` set ts" using Cons.prems(2) by (auto simp: word_unat_eq_iff [symmetric])
  have "distinct ts" using Cons.prems(2) by simp
  from Cons.IH [OF ok1 this e2] show ?case using K unfolding mapped_at_insert [OF j] by auto
qed

text \<open>The threads of a grid, in any order.\<close>

lemma kernel_index_nat:
  assumes "flat t < 2 ^ 32"
  shows "unat (kernel_index t) = flat t"
proof -
  have u: "unat (ucast (of_nat k :: 32 word) :: u64) = k" if "k < 2 ^ 32" for k
    using that by (simp add: unsigned_ucast_eq unsigned_of_nat take_bit_nat_eq_self)
  have "(of_nat (fst t) * 256 + of_nat (snd t) :: 32 word) = of_nat (flat t)" by (simp add: flat_def)
  then have "kernel_index t = ucast (of_nat (flat t) :: 32 word)" by (simp only: kernel_index_def)
  then show ?thesis using u [OF assms] by simp
qed

text \<open>Indices that stand for the elements they count cover a grid once.\<close>

lemma indices_cover_once:
  assumes "any_order order" and "\<And>t. t \<in> set (order n) \<Longrightarrow> unat (f t) = flat t"
  shows "distinct (map f (order n))" and "unat ` set (map f (order n)) = {..<n * 256}"
proof -
  have "t = u" if "t \<in> set (order n)" "u \<in> set (order n)" "f t = f u" for t u
    using that assms(2) flat_inj [OF assms(1) that(1,2)] by metis
  then show "distinct (map f (order n))"
    using grid_covers_once(1) [OF assms(1), of n] by (auto simp: distinct_map inj_on_def)
  have "unat ` set (map f (order n)) = flat ` set (order n)" by (simp add: image_image assms(2) cong: image_cong)
  then show "unat ` set (map f (order n)) = {..<n * 256}" using grid_covers_once(2) [OF assms(1)] by simp
qed

lemma launch_kernel_ok:
  assumes doc: "documented gran env" and ob: "obliging gran env" and ok: "vec_ok gran 4 ps xs v" and fl: "floats_ok fl"
    and or: "any_order order" and n: "xs \<noteq> []" "length xs < 2 ^ 31" and e: "launch_kernel env fl order v = (r, v')"
  shows "r = Done () \<and> vec_ok gran 4 ps (map (twice fl) xs) v' \<and> (\<exists>ts. v' = v\<lparr>v_hist := ts\<rparr>)"
proof -
  let ?n = "length xs" and ?B = "unat (ROUND_UP (v_size v) 256 div 256)"
  have "unat (ROUND_UP (v_size v) 256) = round_nat ?n 256"
    using ROUND_UP_nat [of 256 "v_size v"] n vec_okD(8) [OF ok] by simp
  then have B: "?B = round_nat ?n 256 div 256" by (simp add: unat_div)
  have r: "?n \<le> round_nat ?n 256" "round_nat ?n 256 < ?n + 256" "256 dvd round_nat ?n 256"
    using round_nat_bounds [of 256 ?n] by simp_all
  then have full: "?n \<le> ?B * 256" unfolding B by simp
  have small: "?B < 2 ^ 24" unfolding B using r n(2) by (simp add: div_less_iff_less_mult)
  have "?B \<noteq> 0" using full n(1) by (cases "?B = 0") auto
  then have e1: "run_threads env fl (map kernel_index (order ?B)) v = (r, v')" using e by (simp add: launch_kernel_def Let_def)
  have idx: "unat (kernel_index t) = flat t" if "t \<in> set (order ?B)" for t
  proof (rule kernel_index_nat)
    show "flat t < 2 ^ 32" using flat_less [OF or that] small by simp
  qed
  note C = indices_cover_once [of order ?B kernel_index, OF or idx]
  have "r = Done () \<and> vec_ok gran 4 ps (mapped_at fl {..<?B * 256} xs) v' \<and> (\<exists>ts. v' = v\<lparr>v_hist := ts\<rparr>)"
    using C(2) run_threads_ok [OF doc ob fl ok C(1) e1] by simp
  moreover have "mapped_at fl {..<?B * 256} xs = map (twice fl) xs" using full by (intro nth_equalityI) auto
  ultimately show ?thesis by simp
qed

section \<open>Checks\<close>

lemma float_at_concat:
  assumes "\<forall>x \<in> set xs. length x = 4" and "i < length xs"
  shows "float_at (concat xs) i = xs ! i"
  using assms
proof (induction xs arbitrary: i)
  case (Cons x xs)
  show ?case
  proof (cases i)
    case 0
    then show ?thesis using Cons.prems(1) by (simp add: float_at_def)
  next
    case (Suc j)
    have "drop (4 * i) (x @ concat xs) = drop (4 * j) (concat xs)" using Cons.prems(1) Suc by simp
    then show ?thesis using Cons.IH [of j] Cons.prems Suc by (simp add: float_at_def)
  qed
qed simp

lemma check_values_ok:
  assumes doc: "documented gran env" and ob: "obliging gran env" and ok: "vec_ok gran 4 ps xs v" and n: "n \<le> length xs"
    and eq: "\<And>i. i < n \<Longrightarrow> fl_equal fl (xs ! i) (fl_mul fl (fl_of fl i) m)"
  obtains v' where "check_values env fl n m v = (Done (), v')" and "vec_ok gran 4 ps xs v'" and "\<exists>ts. v' = v\<lparr>v_hist := ts\<rparr>"
proof -
  obtain v' where c: "copy_to_host env 4 v = (Done (v_size v * 4, concat xs), v')" and ok': "vec_ok gran 4 ps xs v'"
    using copy_to_host_ok [OF doc ob ok] by blast
  have h: "\<exists>ts. v' = v\<lparr>v_hist := ts\<rparr>" using c by (auto simp: copy_to_host_def CU_CHECK_def vbind_def Let_def split: if_splits)
  have len: "\<forall>x \<in> set xs. length x = 4" using vec_okD(10) [OF ok] by simp
  have "fl_equal fl (float_at (concat xs) i) (fl_mul fl (fl_of fl i) m)" if "i < n" for i
    using float_at_concat [OF len, of i] eq [OF that] that n by simp
  then have "check_values env fl n m v = (Done (), v')"
    using c h by (auto simp: check_values_def vbind_def vassert_def list_all_iff)
  then show thesis using that ok' h by blast
qed

end
