(* ===== verification/Vector_Verdict.thy ===== *)
theory Vector_Verdict
  imports Vector_Kernel
begin

text \<open>
  What the test program reports: the capacities after each of its tests, and the one number of chunks
  that decides its outcome.
\<close>

section \<open>Pushing everything\<close>

lemma push_all_ops: "push_all env xs = vec_ops env 4 z (map Push xs)"
proof
  show "push_all env xs v = vec_ops env 4 z (map Push xs) v" for v
    by (induction xs arbitrary: v) (simp_all add: vbind_def split: prod.split ending.split)
qed

lemma push_all_ok:
  assumes doc: "documented gran env" and ob: "obliging gran env"
    and "vec_ok gran 4 ps ys v" and "\<forall>x \<in> set xs. length x = 4" and "push_all env xs v = (r, v')"
  shows "r = Done () \<and> (\<exists>ps. vec_ok gran 4 ps (ys @ xs) v') \<and> resized v v' \<or> threw r \<or> refused gran r v'"
  using assms(3-)
proof (induction xs arbitrary: ps ys v)
  case Nil
  then show ?case by auto
next
  case (Cons x xs)
  obtain r1 v1 where e1: "push_back env 4 x v = (r1, v1)" by fastforce
  have len: "length x = unat (4 :: u64)" using Cons.prems(2) by simp
  from push_back_ok [OF doc ob Cons.prems(1) len e1] show ?case
  proof (elim disjE conjE exE)
    fix k
    assume r1: "r1 = Done ()" and ok1: "vec_ok gran 4 (ps @ replicate k (v_props v)) (ys @ [x]) v1" and z: "resized v v1"
    have e2: "push_all env xs v1 = (r, v')" using Cons.prems(3) e1 r1 by (simp add: vbind_def)
    from Cons.IH [OF ok1 _ e2] show ?thesis using Cons.prems(2) z resized_trans [OF z] by auto
  next
    assume "r1 = Throws ''max_capacity exceeded''"
    then show ?thesis using Cons.prems(3) e1 by (simp add: vbind_def threw_def)
  next
    assume "refused gran r1 v1"
    then show ?thesis using Cons.prems(3) e1 by (auto simp: refused_def vbind_def)
  qed
qed

section \<open>Capacities\<close>

text \<open>Popping with \<open>c\<close> chunks to keep.\<close>

lemma pop_times_cap:
  assumes ob: "obliging gran env"
    and "vec_ok gran s ps xs v" and "retain_ok v" and "vv_retain v = int c" and "k \<le> length xs" and "pop_times env s k v = (r, v')"
    and "unat (v_cap v) < length xs + Suc c * unat (v_fits v)"
  shows "unat (v_cap v') < (length xs - k) + Suc c * unat (v_fits v) \<and>
    (v_cap v' = v_cap v \<or> (length xs - k) + c * unat (v_fits v) \<le> unat (v_cap v'))"
  using assms(2-)
proof (induction k arbitrary: ps xs v)
  case 0
  then show ?case by simp
next
  case (Suc k)
  then have ne: "xs \<noteq> []" by auto
  obtain r1 v1 where e1: "pop_back env s v = (r1, v1)" by fastforce
  note P = pop_back_ok [OF ob Suc.prems(1) ne Suc.prems(2) e1]
  then obtain qs where ok1: "vec_ok gran s qs (butlast xs) v1" and r1: "r1 = Done ()" and z: "resized v v1"
    and c1: "unat (v_cap v1) = unat (v_cap v) - (if gives_back v then unat (v_fits v) else 0)" by blast
  note F = resized_fields [OF z]
  have size: "unat (v_size v) = length xs" "length xs \<le> unat (v_cap v)" using vec_okD(8,9) [OF Suc.prems(1)] by simp_all
  have "gives_back v \<longleftrightarrow> Suc c * unat (v_fits v) \<le> unat (v_cap v) - (length xs - 1)"
    using Suc.prems(3) size(1) by (simp add: gives_back_def nat_add_distrib)
  then have small: "unat (v_cap v1) < length (butlast xs) + Suc c * unat (v_fits v1)"
    and big: "v_cap v1 = v_cap v \<or> length (butlast xs) + c * unat (v_fits v1) \<le> unat (v_cap v1)"
    using c1 Suc.prems(6) size vec_ok_bounds(1) [OF Suc.prems(1)] F ne by (auto simp: word_unat_eq_iff split: if_splits)
  have e2: "pop_times env s k v1 = (r, v')" using Suc.prems(5) e1 r1 by (simp add: vbind_def)
  have rt: "vv_retain v1 = int c" using resized_retain [OF z] Suc.prems(3) by simp
  have "unat (v_cap v') < (length (butlast xs) - k) + Suc c * unat (v_fits v1) \<and>
      (v_cap v' = v_cap v1 \<or> (length (butlast xs) - k) + c * unat (v_fits v1) \<le> unat (v_cap v'))"
    using Suc.prems(4) by (intro Suc.IH [OF ok1 resized_retain_ok [OF z Suc.prems(2)] rt _ e2 small]) simp
  moreover have "length (butlast xs) - k = length xs - Suc k" by simp
  ultimately show ?case using big F by auto
qed

text \<open>Popping with all chunks kept.\<close>

lemma pop_times_keeps:
  assumes "vv_retain v = -1" and "pop_times env s k v = (r, v')"
  shows "v_cap v' = v_cap v"
  using assms
proof (induction k arbitrary: v)
  case (Suc k)
  obtain r1 v1 where e1: "pop_back env s v = (r1, v1)" by fastforce
  then have "r1 = Done ()" "v_cap v1 = v_cap v" "vv_retain v1 = -1" using Suc.prems(1) by (auto simp: pop_back_def Let_def split: if_splits)
  then show ?case using Suc.IH [of v1] Suc.prems(2) e1 by (simp add: vbind_def)
qed simp

lemma resize_down:
  assumes "vec_ok gran s ps xs v" and "unat n \<le> length xs"
  shows "vec_resize env s z n v = pop_times env s (length xs - unat n) v"
proof -
  have "n \<le> v_size v" using vec_okD(8) [OF assms(1)] assms(2) by (simp add: word_le_nat_alt)
  then show ?thesis using vec_okD(8) [OF assms(1)] u64_sub_no_wrap by (simp add: vec_resize_def)
qed

text \<open>Growing within the maximum, with the capacity it leaves.\<close>

lemma resize_up:
  assumes doc: "documented gran env" and ob: "obliging gran env" and ok: "vec_ok gran s ps xs v" and len: "length z = unat s"
    and n: "length xs \<le> unat n" "round_nat (unat n) (unat (v_fits v)) \<le> unat (v_max v)" and e: "vec_resize env s z n v = (r, v')"
  shows "r = Done () \<and> (\<exists>ps. vec_ok gran s ps (xs @ replicate (unat n - length xs) z) v') \<and> resized v v' \<and>
      unat (v_cap v') = (if unat n \<le> unat (v_cap v) then unat (v_cap v) else round_nat (unat n) (unat (v_fits v))) \<or>
    refused gran r v' \<and> unat (v_cap v) < unat n"
proof (cases "unat n = length xs")
  case True
  then have "vec_resize env s z n v = (Done (), v)" using resize_down [OF ok] by simp
  then show ?thesis using e ok True vec_okD(9) [OF ok] by auto
next
  case False
  note V = vec_okD [OF ok] and B = vec_ok_bounds [OF ok]
  have lt: "\<not> n \<le> v_size v" using False n(1) V(8) by (simp add: word_le_nat_alt)
  have "unat n \<le> round_nat (unat n) (unat (v_fits v))" by (rule round_nat_bounds [OF B(1)])
  then have n57: "unat n \<le> 2 ^ 57" using n(2) B(5) by simp
  have "unat (v_fits v) \<le> unat (v_max v)" using V(4,13) by (auto dest: dvd_imp_le)
  then have room: "unat n + unat (v_fits v) \<le> 2 ^ 64" using n57 B(5) by simp
  have finish: "r = Done () \<and> vec_ok gran s qs (xs @ replicate (unat n - length xs) z) v' \<and> resized v1 v' \<and> v_cap v' = v_cap v1"
    if ok1: "vec_ok gran s qs xs v1" and cap: "unat n \<le> unat (v_cap v1)" and size: "v_size v1 = v_size v"
      and e1: "push_times env s z (unat (n - v_size v1)) v1 = (r, v')" for qs v1
  proof -
    have "v_size v1 \<le> n" using lt size by simp
    then have "unat (n - v_size v1) = unat n - length xs" using V(8) size by (simp add: u64_sub_no_wrap)
    then show ?thesis using push_times_ok [OF ob len ok1 _ e1] cap n(1) by simp
  qed
  show ?thesis
  proof (cases "v_cap v < n")
    case le: False
    then have "push_times env s z (unat (n - v_size v)) v = (r, v')" using e lt by (simp add: vec_resize_def vbind_def)
    then show ?thesis using finish [OF ok] le by (auto simp: word_less_nat_alt)
  next
    case True
    then have g: "unat (v_cap v) < unat n" by (simp add: word_less_nat_alt)
    obtain r1 v1 where e1: "vec_reserve env s n v = (r1, v1)" by fastforce
    have p: "vec_resize env s z n v = (case (r1, v1) of
        (Done _, v) \<Rightarrow> push_times env s z (unat (n - v_size v)) v
      | (Throws t, v) \<Rightarrow> (Throws t, v) | (Quits q, v) \<Rightarrow> (Quits q, v) | (Undef, v) \<Rightarrow> (Undef, v))"
      using lt True e1 by (simp add: vec_resize_def vbind_def)
    from vec_reserve_ok [OF doc ob ok room e1] show ?thesis
    proof (elim disjE conjE exE)
      fix k
      assume r1: "r1 = Done ()" and ok1: "vec_ok gran s (ps @ replicate k (v_props v)) xs v1" and gr: "regrown v v1"
        and c: "unat (v_cap v1) = max (unat (v_cap v)) (round_nat (unat n) (unat (v_fits v)))"
      have up: "unat n \<le> round_nat (unat n) (unat (v_fits v))" by (rule round_nat_bounds [OF B(1)])
      then have "unat n \<le> unat (v_cap v1)" using c by simp
      then have "r = Done () \<and> vec_ok gran s (ps @ replicate k (v_props v)) (xs @ replicate (unat n - length xs) z) v' \<and> resized v1 v' \<and> v_cap v' = v_cap v1"
        using finish [OF ok1] regrown_fields(2) [OF gr] e p r1 by simp
      then show ?thesis using resized_trans [OF regrown_resized [OF gr]] c g up by auto
    next
      assume "r1 = Throws ''max_capacity exceeded''" "unat (v_max v) < round_nat (unat n) (unat (v_fits v))"
      then show ?thesis using n(2) by simp
    next
      assume "refused gran r1 v1"
      then show ?thesis using e p g by (auto simp: refused_def)
    qed
  qed
qed

section \<open>The tests\<close>

text \<open>The contents and the capacity, with the sizes of the vector \<open>v0\<close>.\<close>

definition holds :: "granularity \<Rightarrow> VMMVector \<Rightarrow> bytes list \<Rightarrow> nat \<Rightarrow> VMMVector \<Rightarrow> bool" where
  "holds gran v0 xs c v \<longleftrightarrow> (\<exists>ps. vec_ok gran 4 ps xs v) \<and> v_fits v = v_fits v0 \<and> v_max v = v_max v0 \<and> unat (v_cap v) = c"

lemma holds_hist: "holds gran v0 xs c v \<Longrightarrow> vec_ok gran 4 ps ys v' \<Longrightarrow> \<exists>ts. v' = v\<lparr>v_hist := ts\<rparr> \<Longrightarrow> holds gran v0 ys c v'"
  by (auto simp: holds_def)

lemma holds_resized: "holds gran v0 xs c v \<Longrightarrow> vec_ok gran 4 ps ys v' \<Longrightarrow> resized v v' \<Longrightarrow> unat (v_cap v') = c' \<Longrightarrow> holds gran v0 ys c' v'"
  using resized_fields [of v v'] by (auto simp: holds_def)

lemma holds_retain [simp]: "holds gran v0 xs c (set_retain_last r v) \<longleftrightarrow> holds gran v0 xs c v"
  by (simp add: holds_def set_retain_last_def)

lemma holdsD:
  assumes "holds gran v0 xs c v"
  shows "unat (v_size v) = length xs" and "length xs \<le> c" and "c \<le> unat (v_max v0)" and "unat (v_cap v) = c" and "v_fits v = v_fits v0" and "v_max v = v_max v0"
    and "unat (v_fits v0) dvd c"
  using assms vec_okD(7-9) vec_ok_bounds(2) unfolding holds_def by fastforce+

lemma chunks_retained:
  assumes "holds gran v0 xs c v" and "r \<in> {-1, 0, 2}"
  shows "retain_ok (set_retain_last r v)"
proof -
  obtain ps where ok: "vec_ok gran 4 ps xs v" using assms(1) by (auto simp: holds_def)
  have "unat (v_fits v) \<le> 2 ^ 57" by (rule fits_le_max(2) [OF ok])
  then show ?thesis using assms(2) by (auto simp: retain_ok_def set_retain_last_def)
qed

text \<open>\<open>k\<close> chunks of \<open>f\<close> elements for \<open>N\<close> of them.\<close>

definition sized :: "VMMVector \<Rightarrow> nat \<Rightarrow> nat \<Rightarrow> nat \<Rightarrow> bool" where
  "sized v0 k f N \<longleftrightarrow> unat (v_fits v0) = f \<and> unat (v_max v0) = k * f \<and> 2 \<le> f \<and> 0 < N \<and> N < 2 ^ 31 \<and> N \<le> k * f \<and> k * f < N + f"

lemma full_capacity:
  assumes "sized v0 k f N" and "holds gran v0 xs c v" and "N \<le> c"
  shows "c = k * f"
proof -
  note H = holdsD [OF assms(2)]
  obtain h where h: "c = f * h" using H(7) assms(1) by (auto simp: sized_def)
  have "f * h \<le> f * k" and "f * k < f * h + f" using h H(3) assms(1,3) by (auto simp: sized_def mult.commute)
  then have le: "f * h \<le> f * k" and lt: "f * k < f * Suc h" by simp_all
  have "0 < f" using assms(1) by (simp add: sized_def)
  then have "h \<le> k" using le by simp
  moreover have "k < Suc h" using lt by (simp only: mult_less_cancel1)
  ultimately show ?thesis using h by simp
qed

definition doubles :: "Floats \<Rightarrow> nat \<Rightarrow> bytes list" where
  "doubles fl n = map (\<lambda>i. twice fl (fl_of fl i)) [0..<n]"

lemma doubles_simps [simp]: "length (doubles fl n) = n" "i < n \<Longrightarrow> doubles fl n ! i = twice fl (fl_of fl i)"
  "m \<le> n \<Longrightarrow> take m (doubles fl n) = doubles fl m"
  by (simp_all add: doubles_def take_map)

lemma check_holds:
  assumes doc: "documented gran env" and ob: "obliging gran env" and H: "holds gran v0 xs c v" and n: "n \<le> length xs"
    and eq: "\<And>i. i < n \<Longrightarrow> fl_equal fl (xs ! i) (fl_mul fl (fl_of fl i) m)" and e: "check_values env fl n m v = (r, v')"
  shows "r = Done () \<and> holds gran v0 xs c v' \<and> vv_retain v' = vv_retain v"
proof -
  obtain ps where ok: "vec_ok gran 4 ps xs v" using H by (auto simp: holds_def)
  obtain w where "check_values env fl n m v = (Done (), w)" "vec_ok gran 4 ps xs w" "\<exists>ts. w = v\<lparr>v_hist := ts\<rparr>"
    by (rule check_values_ok [OF doc ob ok n eq])
  then show ?thesis using e holds_hist [OF H] by auto
qed

lemma test_push_ok:
  assumes doc: "documented gran env" and ob: "obliging gran env" and fl: "floats_ok fl" and or: "any_order order"
    and new: "vec_ok gran 4 [] [] v0" and sz: "sized v0 k f (unat n)" and e: "test_push env fl order n v0 = (r, v)"
  shows "(r = Done () \<and> holds gran v0 (doubles fl (unat n)) (k * f) v \<and> (\<exists>j. k = 2 ^ j)) \<or> threw r \<and> (\<nexists>j. k = 2 ^ j) \<or> refused gran r v"
proof -
  let ?N = "unat n" and ?xs = "map (fl_of fl) [0..<unat n]"
  have len: "\<forall>x \<in> set ?xs. length x = 4" using fl by (auto simp: floats_ok_def)
  have zero: "v_cap v0 = 0" using vec_okD(7) [OF new] layout_places [OF vec_okD(6) [OF new]] by (simp add: unat_eq_0)
  have f: "2 \<le> unat (v_fits v0)" "0 < k" using sz by (auto simp: sized_def intro: gr0I)
  obtain r1 v1 where e1: "push_all env ?xs v0 = (r1, v1)" by fastforce
  have e1': "vec_ops env 4 (fl_zero fl) (map Push ?xs) v0 = (r1, v1)" using e1 push_all_ops by metis
  have max: "unat (v_max v0) = k * unat (v_fits v0)" using sz by (simp add: sized_def)
  have "\<forall>x \<in> set ?xs. length x = unat (4 :: u64)" using len by simp
  note P = pushes_ok [OF doc ob new f(1) _ this e1' max]
  from push_all_ok [OF doc ob new len e1] show ?thesis
  proof (elim disjE conjE exE)
    fix ps
    assume r1: "r1 = Done ()" and ok0: "vec_ok gran 4 ps ([] @ ?xs) v1" and z: "resized v0 v1"
    have ok1: "vec_ok gran 4 ps ?xs v1" using ok0 by simp
    have ne: "?xs \<noteq> []" "length ?xs < 2 ^ 31" using sz by (auto simp: sized_def)
    have start: "holds gran v0 [] 0 v0" using new zero by (auto simp: holds_def)
    have H1: "holds gran v0 ?xs (unat (v_cap v1)) v1" by (rule holds_resized [OF start ok1 z refl])
    have cap: "unat (v_cap v1) = k * f" by (rule full_capacity [OF sz H1]) (use holdsD(2) [OF H1] in simp)
    have pow: "\<exists>j. k = 2 ^ j"
    proof -
      obtain j where j: "2 ^ j \<le> k" "?N \<le> 2 ^ j * f" using P zero r1 ne sz by (auto simp: sized_def)
      then have "k * f < Suc (2 ^ j) * f" using sz by (simp add: sized_def)
      then have "k < Suc (2 ^ j)" by (simp only: mult_less_cancel2)
      then show ?thesis using j(1) by (auto simp: less_Suc_eq_le)
    qed
    obtain r2 v2 where e2: "launch_kernel env fl order v1 = (r2, v2)" by fastforce
    have K: "r2 = Done () \<and> vec_ok gran 4 ps (map (twice fl) ?xs) v2 \<and> (\<exists>ts. v2 = v1\<lparr>v_hist := ts\<rparr>)"
      by (rule launch_kernel_ok [OF doc ob ok1 fl or ne e2])
    have d: "map (twice fl) ?xs = doubles fl ?N" by (simp add: doubles_def)
    have H2: "holds gran v0 (doubles fl ?N) (k * f) v2" using holds_hist [OF H1 [unfolded cap]] K unfolding d by blast
    have e3: "check_values env fl ?N (fl_two fl) v2 = (r, v)" using e e1 r1 e2 K by (simp add: test_push_def vbind_def)
    have "r = Done () \<and> holds gran v0 (doubles fl ?N) (k * f) v"
      using check_holds [OF doc ob H2 _ _ e3] fl by (simp add: floats_ok_def)
    then show ?thesis using pow by blast
  next
    assume t: "threw r1"
    then have "threw r" using e e1 by (auto simp: test_push_def vbind_def threw_def)
    moreover have "\<nexists>j. k = 2 ^ j"
    proof
      assume "\<exists>j. k = 2 ^ j"
      then obtain i where i: "k = 2 ^ i" ..
      obtain j where j: "2 ^ j \<le> k" "k < 2 ^ Suc j" "2 ^ j * f < ?N" using P zero t f(2) sz by (auto simp: sized_def)
      have "(2 :: nat) ^ i < 2 ^ Suc j" using j(2) i by simp
      then have "i < Suc j" by (rule power_less_imp_less_exp [rotated]) simp
      moreover have "j \<le> i" using j(1) i by simp
      ultimately have "2 ^ j = k" using i by (simp add: le_antisym less_Suc_eq_le)
      then show False using j(3) sz by (simp add: sized_def)
    qed
    ultimately show ?thesis by blast
  next
    assume "refused gran r1 v1"
    then show ?thesis using e e1 by (auto simp: test_push_def vbind_def refused_def)
  qed
qed

lemma half_word: "unat (n div 2 :: u64) = unat n div 2"
  by (simp add: unat_div)

lemma test_shrink_ok:
  assumes doc: "documented gran env" and ob: "obliging gran env" and fl: "floats_ok fl"
    and H: "holds gran v0 (doubles fl (unat n)) c v0'" and e: "test_shrink env fl n v0' = (r, v)"
  shows "\<exists>c' \<le> c. r = Done () \<and> holds gran v0 (doubles fl (unat n div 2)) c' v"
proof -
  let ?w = "set_retain_last 0 v0'"
  have H': "holds gran v0 (doubles fl (unat n)) c ?w" using H by simp
  obtain ps where ok: "vec_ok gran 4 ps (doubles fl (unat n)) ?w" using H' unfolding holds_def by blast
  have rt: "retain_ok ?w" by (rule chunks_retained [OF H]) simp
  obtain r1 v1 where e1: "vec_resize env 4 (fl_zero fl) (n div 2) ?w = (r1, v1)" by fastforce
  then have pops: "pop_times env 4 (unat n - unat n div 2) ?w = (r1, v1)" using resize_down [OF ok] by (simp add: half_word)
  have "unat n - unat n div 2 \<le> length (doubles fl (unat n))" by simp
  from pop_times_ok [OF ob ok rt this pops] obtain qs where r1: "r1 = Done ()" and ok1: "vec_ok gran 4 qs (doubles fl (unat n div 2)) v1"
    and z: "resized ?w v1" and cap: "unat (v_cap v1) \<le> unat (v_cap ?w)" by auto
  have H1: "holds gran v0 (doubles fl (unat n div 2)) (unat (v_cap v1)) v1" by (rule holds_resized [OF H' ok1 z refl])
  have size: "v_size v1 = n div 2" using holdsD(1) [OF H1] by (simp add: word_unat_eq_iff half_word)
  have le: "v_cap v1 \<le> v_cap ?w" using cap by (simp add: word_le_nat_alt)
  have e2: "check_values env fl (unat n div 2) (fl_two fl) v1 = (r, v)"
    using e e1 r1 size le by (simp add: test_shrink_def Let_def vbind_def vassert_def half_word)
  have "r = Done () \<and> holds gran v0 (doubles fl (unat n div 2)) (unat (v_cap v1)) v"
    using check_holds [OF doc ob H1 _ _ e2] fl by (simp add: floats_ok_def)
  moreover have "unat (v_cap v1) \<le> c" using cap holdsD(4) [OF H'] by simp
  ultimately show ?thesis by blast
qed

section \<open>The last four tests\<close>

lemma round_sized:
  assumes "sized v0 k f N" and "unat n = N"
  shows "round_nat (unat n) f = k * f"
proof -
  have f: "0 < f" using assms(1) by (simp add: sized_def)
  note R = round_nat_bounds [OF f, of "unat n"]
  obtain h where h: "round_nat (unat n) f = f * h" using round_nat_dvd [of f "unat n"] by (auto simp del: round_nat_dvd)
  have "f * h < f * Suc k" and "f * k < f * Suc h" using R h assms by (simp_all add: sized_def mult.commute)
  then have "h < Suc k" and "k < Suc h" by (simp_all only: mult_less_cancel1)
  then show ?thesis using h by (simp add: mult.commute)
qed

lemma test_regrow_ok:
  assumes doc: "documented gran env" and ob: "obliging gran env" and fl: "floats_ok fl" and sz: "sized v0 k f (unat n)"
    and H: "holds gran v0 (doubles fl (unat n div 2)) c v0'" and e: "test_regrow env fl n v0' = (r, v)"
  defines "E \<equiv> doubles fl (unat n div 2) @ replicate (unat n - unat n div 2) (fl_zero fl)"
  shows "r = Done () \<and> holds gran v0 E (k * f) v \<or> refused gran r v"
proof -
  obtain ps where ok: "vec_ok gran 4 ps (doubles fl (unat n div 2)) v0'" using H unfolding holds_def by blast
  have fits: "unat (v_fits v0') = f" and max: "unat (v_max v0') = k * f" using holdsD(5,6) [OF H] sz by (simp_all add: sized_def)
  have len: "length (fl_zero fl) = unat (4 :: u64)" using fl by (simp add: floats_ok_def)
  have rnd: "round_nat (unat n) (unat (v_fits v0')) \<le> unat (v_max v0')" using round_sized [OF sz refl] fits max by simp
  obtain r1 v1 where e1: "vec_resize env 4 (fl_zero fl) n v0' = (r1, v1)" by fastforce
  have "length (doubles fl (unat n div 2)) \<le> unat n" by simp
  from resize_up [OF doc ob ok len this rnd e1] show ?thesis
  proof (elim disjE conjE exE)
    fix qs
    assume r1: "r1 = Done ()" and z: "resized v0' v1"
      and ok1: "vec_ok gran 4 qs (doubles fl (unat n div 2) @ replicate (unat n - length (doubles fl (unat n div 2))) (fl_zero fl)) v1"
    have okE: "vec_ok gran 4 qs E v1" using ok1 by (simp add: E_def)
    have lenE: "length E = unat n" by (simp add: E_def)
    have H1: "holds gran v0 E (unat (v_cap v1)) v1" by (rule holds_resized [OF H okE z refl])
    have cap: "unat (v_cap v1) = k * f" by (rule full_capacity [OF sz H1]) (use holdsD(2) [OF H1] lenE in simp)
    have size: "v_size v1 = n" using holdsD(1) [OF H1] lenE by (simp add: word_unat_eq_iff)
    have le: "n \<le> v_cap v1" using cap sz by (simp add: word_le_nat_alt sized_def)
    obtain w where cp: "copy_to_host env 4 v1 = (Done (v_size v1 * 4, concat E), w)" and okw: "vec_ok gran 4 qs E w"
      using copy_to_host_ok [OF doc ob okE] by blast
    have h: "\<exists>ts. w = v1\<lparr>v_hist := ts\<rparr>" using cp by (auto simp: copy_to_host_def CU_CHECK_def vbind_def Let_def split: if_splits)
    have four: "\<forall>x \<in> set E. length x = 4" using vec_okD(10) [OF okE] by simp
    have nth: "E ! i = (if i < unat n div 2 then twice fl (fl_of fl i) else fl_zero fl)" if "i < unat n" for i
      using that by (simp add: E_def nth_append)
    have at: "float_at (concat E) i = E ! i" if "i < unat n" for i using float_at_concat [OF four] that lenE by simp
    have "\<forall>i < unat n div 2. fl_equal fl (float_at (concat E) i) (twice fl (fl_of fl i))"
      using at nth fl by (simp add: floats_ok_def)
    moreover have "\<forall>i. unat n div 2 \<le> i \<and> i < unat n \<longrightarrow> fl_equal fl (float_at (concat E) i) (fl_zero fl)"
      using at nth fl by (simp add: floats_ok_def)
    ultimately have "test_regrow env fl n v0' = (Done (), w)"
      using e1 r1 size le cp h by (auto simp: test_regrow_def vbind_def vassert_def list_all_iff half_word)
    then show ?thesis using e holds_hist [OF H1 okw h] cap by simp
  next
    assume "refused gran r1 v1"
    then show ?thesis using e e1 by (auto simp: test_regrow_def vbind_def refused_def)
  qed
qed

text \<open>The fourth test leaves at most three chunks.\<close>

lemma test_keep_two_ok:
  assumes doc: "documented gran env" and ob: "obliging gran env" and fl: "floats_ok fl" and sz: "sized v0 k f (unat n)"
    and H: "holds gran v0 (doubles fl (unat n div 2) @ replicate (unat n - unat n div 2) (fl_zero fl)) (k * f) v0'"
    and e: "test_keep_two env fl n v0' = (r, v)"
  shows "r = Done () \<and> (\<exists>xs. holds gran v0 xs (min k 3 * f) v)"
proof -
  let ?E = "doubles fl (unat n div 2) @ replicate (unat n - unat n div 2) (fl_zero fl)" and ?w = "set_retain_last 2 v0'"
  have H': "holds gran v0 ?E (k * f) ?w" using H by simp
  obtain ps where ok: "vec_ok gran 4 ps ?E ?w" using H' unfolding holds_def by blast
  have rt: "retain_ok ?w" by (rule chunks_retained [OF H]) simp
  have lenE: "length ?E = unat n" by simp
  have fits: "unat (v_fits ?w) = f" and max: "unat (v_max ?w) = k * f" and cap: "unat (v_cap ?w) = k * f"
    using holdsD(4-6) [OF H'] sz by (simp_all add: sized_def)
  have f2: "2 \<le> f" using sz by (simp add: sized_def)
  obtain r1 v1 where e1: "vec_resize env 4 (fl_zero fl) (v_fits ?w) ?w = (r1, v1)" by fastforce
  have "\<exists>xs. r1 = Done () \<and> holds gran v0 xs (min k 3 * f) v1 \<and> length xs = f \<and>
      (\<forall>i < min f (unat n div 2). xs ! i = twice fl (fl_of fl i))"
  proof (cases "f \<le> unat n")
    case True
    have pops: "pop_times env 4 (length ?E - f) ?w = (r1, v1)" using resize_down [OF ok, of "v_fits ?w"] e1 True fits lenE by simp
    have kl: "length ?E - f \<le> length ?E" by simp
    from pop_times_ok [OF ob ok rt kl pops] obtain qs where r1: "r1 = Done ()"
      and ok0: "vec_ok gran 4 qs (take (length ?E - (length ?E - f)) ?E) v1" and z: "resized ?w v1" by blast
    have ok1: "vec_ok gran 4 qs (take f ?E) v1" using ok0 True by simp
    have two: "vv_retain ?w = int 2" by (simp add: set_retain_last_def)
    have near: "unat (v_cap ?w) < length ?E + Suc 2 * unat (v_fits ?w)" using cap fits lenE sz by (simp add: sized_def)
    have H1: "holds gran v0 (take f ?E) (unat (v_cap v1)) v1" by (rule holds_resized [OF H' ok1 z refl])
    have "unat (v_cap v1) < f + Suc 2 * f \<and> (v_cap v1 = v_cap ?w \<or> f + 2 * f \<le> unat (v_cap v1))"
      using pop_times_cap [OF ob ok rt two kl pops near] True fits lenE by simp
    then have C: "unat (v_cap v1) < 4 * f" "unat (v_cap v1) = k * f \<or> 3 * f \<le> unat (v_cap v1)" using cap by auto
    obtain h where h: "unat (v_cap v1) = h * f" using holdsD(7) [OF H1] sz by (auto simp: sized_def mult.commute)
    have "h < 4" "h = k \<or> 3 \<le> h" using C h f2 by auto
    moreover have "h \<le> k" using holdsD(3) [OF H1] h sz f2 by (simp add: sized_def)
    ultimately have "h = min k 3" by auto
    then show ?thesis using H1 r1 h True lenE by (intro exI [of _ "take f ?E"]) (auto simp: nth_append)
  next
    case False
    then have k1: "k = 1"
    proof -
      have "k * f < unat n + f" using sz by (simp add: sized_def)
      then have "k * f < 2 * f" using False by linarith
      then have "k < 2" by (simp only: mult_less_cancel2)
      moreover have "0 < k" using sz by (auto simp: sized_def intro: gr0I)
      ultimately show ?thesis by simp
    qed
    have len: "length (fl_zero fl) = unat (4 :: u64)" using fl by (simp add: floats_ok_def)
    have le: "length ?E \<le> unat (v_fits ?w)" using False fits lenE by simp
    have rnd: "round_nat (unat (v_fits ?w)) (unat (v_fits ?w)) \<le> unat (v_max ?w)"
      using fits max k1 f2 round_nat_multiple [of f 1] by simp
    from resize_up [OF doc ob ok len le rnd e1] fits cap k1 obtain qs where r1: "r1 = Done ()"
      and ok1: "vec_ok gran 4 qs (?E @ replicate (f - length ?E) (fl_zero fl)) v1" and z: "resized ?w v1" and c: "unat (v_cap v1) = f"
      by auto
    have "holds gran v0 (?E @ replicate (f - length ?E) (fl_zero fl)) (min k 3 * f) v1"
      by (rule holds_resized [OF H' ok1 z]) (simp add: c k1)
    then show ?thesis using r1 False by (intro exI [of _ "?E @ replicate (f - length ?E) (fl_zero fl)"]) (auto simp: nth_append)
  qed
  then obtain xs where r1: "r1 = Done ()" and H1: "holds gran v0 xs (min k 3 * f) v1" and len: "length xs = f"
    and val: "\<forall>i < min f (unat n div 2). xs ! i = twice fl (fl_of fl i)" by blast
  have size: "v_size v1 = v_fits ?w" using holdsD(1) [OF H1] len fits by (simp add: word_unat_eq_iff)
  have m: "unat (min (v_fits ?w) (n div 2)) = min f (unat n div 2)"
    using fits by (simp add: min_def word_le_nat_alt half_word)
  have e2: "check_values env fl (min f (unat n div 2)) (fl_two fl) v1 = (r, v)"
    using e e1 r1 size m by (simp add: test_keep_two_def Let_def vbind_def vassert_def)
  have "r = Done () \<and> holds gran v0 xs (min k 3 * f) v"
    using check_holds [OF doc ob H1 _ _ e2] len val fl by (simp add: floats_ok_def)
  then show ?thesis by blast
qed

lemma test_keep_all_ok:
  assumes ob: "obliging gran env" and H: "holds gran v0 xs c v0'" and e: "test_keep_all env fl (v_cap v0') v0' = (r, v)"
  shows "r = Done () \<and> holds gran v0 [] c v"
proof -
  let ?w = "set_retain_last (-1) v0'"
  have H': "holds gran v0 xs c ?w" using H by simp
  obtain ps where ok: "vec_ok gran 4 ps xs ?w" using H' unfolding holds_def by blast
  have rt: "retain_ok ?w" by (rule chunks_retained [OF H]) simp
  obtain r1 v1 where e1: "vec_resize env 4 (fl_zero fl) 0 ?w = (r1, v1)" by fastforce
  then have pops: "pop_times env 4 (length xs) ?w = (r1, v1)" using resize_down [OF ok, of 0] by simp
  from pop_times_ok [OF ob ok rt order_refl pops] obtain qs where r1: "r1 = Done ()" and ok1: "vec_ok gran 4 qs [] v1" and z: "resized ?w v1"
    by auto
  have cap: "v_cap v1 = v_cap ?w" by (rule pop_times_keeps [OF _ pops]) (simp add: set_retain_last_def)
  have H1: "holds gran v0 [] c v1" by (rule holds_resized [OF H' ok1 z]) (use holdsD(4) [OF H'] cap in simp)
  have "v_size v1 = 0" using holdsD(1) [OF H1] by (simp add: unat_eq_0)
  moreover have "v_cap v1 = v_cap v0'" using cap by (simp add: set_retain_last_def)
  ultimately have "test_keep_all env fl (v_cap v0') v0' = (Done (), v1)" using e1 r1 by (simp add: test_keep_all_def vbind_def vassert_def)
  then show ?thesis using e H1 by simp
qed

text \<open>The last test expects that half of the elements fit into what the fourth one has left.\<close>

lemma test_refill_ok:
  assumes doc: "documented gran env" and ob: "obliging gran env" and fl: "floats_ok fl" and sz: "sized v0 k f (unat n)"
    and H: "holds gran v0 [] (min k 3 * f) v0'" and e: "test_refill env fl n (v_cap v0') v0' = (r, v)"
    and pow: "k = 2 ^ j"
  shows "r = (if k \<le> 4 then Done () else Throws ''225: vec.capacity() == capacity_before'') \<and> (\<exists>xs c. holds gran v0 xs c v) \<or> refused gran r v"
proof -
  obtain ps where ok: "vec_ok gran 4 ps [] v0'" using H unfolding holds_def by blast
  have fits: "unat (v_fits v0') = f" and max: "unat (v_max v0') = k * f" and cap: "unat (v_cap v0') = min k 3 * f"
    using holdsD(4-6) [OF H] sz by (simp_all add: sized_def)
  have f2: "2 \<le> f" using sz by (simp add: sized_def)
  have len: "length (fl_zero fl) = unat (4 :: u64)" using fl by (simp add: floats_ok_def)
  have half: "unat (n div 2) = unat n div 2" by (rule half_word)
  have "unat n div 2 \<le> unat n" and "unat n \<le> k * f" using sz by (simp_all add: sized_def)
  then have "unat (n div 2) \<le> k * f" using half by linarith
  then have rnd: "round_nat (unat (n div 2)) (unat (v_fits v0')) \<le> unat (v_max v0')"
    unfolding fits max using f2 by (intro round_nat_le) simp_all
  have fit: "unat n div 2 \<le> min k 3 * f \<longleftrightarrow> k \<le> 4"
  proof (cases "k \<le> 4")
    case True
    have "unat n \<le> 2 * (min k 3 * f)"
    proof -
      have "k \<le> 2 * min k 3" using True by simp
      then have "k * f \<le> 2 * min k 3 * f" by (rule mult_le_mono1)
      moreover have "unat n \<le> k * f" using sz by (simp add: sized_def)
      ultimately have "unat n \<le> 2 * min k 3 * f" by linarith
      then show ?thesis by (simp only: mult.assoc)
    qed
    then show ?thesis using True by simp
  next
    case big: False
    have "2 < j"
    proof (rule ccontr)
      assume "\<not> 2 < j"
      then have "k \<le> 2 ^ 2" unfolding pow by (intro power_increasing) simp_all
      then show False using big by simp
    qed
    then have "2 ^ 3 \<le> k" unfolding pow by (intro power_increasing) simp_all
    then have k: "8 \<le> k" by simp
    then have "8 * f \<le> k * f" by (rule mult_le_mono1)
    moreover have "k * f < unat n + f" using sz by (simp add: sized_def)
    ultimately have "7 * f < unat n" by linarith
    then have "3 * f < unat n div 2" using f2 by linarith
    then show ?thesis using k by simp
  qed
  obtain r1 v1 where e1: "vec_resize env 4 (fl_zero fl) (n div 2) v0' = (r1, v1)" by fastforce
  have "length ([] :: bytes list) \<le> unat (n div 2)" by simp
  from resize_up [OF doc ob ok len this rnd e1] show ?thesis
  proof (elim disjE conjE exE)
    fix qs
    assume r1: "r1 = Done ()" and z: "resized v0' v1" and ok0: "vec_ok gran 4 qs ([] @ replicate (unat (n div 2) - length ([] :: bytes list)) (fl_zero fl)) v1"
      and c: "unat (v_cap v1) = (if unat (n div 2) \<le> unat (v_cap v0') then unat (v_cap v0') else round_nat (unat (n div 2)) (unat (v_fits v0')))"
    let ?Z = "replicate (unat n div 2) (fl_zero fl)"
    have ok1: "vec_ok gran 4 qs ?Z v1" using ok0 half by simp
    have H1: "holds gran v0 ?Z (unat (v_cap v1)) v1" by (rule holds_resized [OF H ok1 z refl])
    have size: "v_size v1 = n div 2" using holdsD(1) [OF H1] half by (simp add: word_unat_eq_iff)
    show ?thesis
    proof (cases "k \<le> 4")
      case True
      then have "v_cap v1 = v_cap v0'" using c fit cap half by (simp add: word_unat_eq_iff)
      then have e2: "check_values env fl (unat n div 2) (fl_zero fl) v1 = (r, v)"
        using e e1 r1 size half by (simp add: test_refill_def vbind_def vassert_def)
      have "r = Done () \<and> holds gran v0 ?Z (unat (v_cap v1)) v"
        using check_holds [OF doc ob H1 _ _ e2] fl by (simp add: floats_ok_def)
      then show ?thesis using True by auto
    next
      case no: False
      then have "\<not> unat (n div 2) \<le> unat (v_cap v0')" using fit cap half by simp
      then have "unat (v_cap v0') < unat (v_cap v1)"
        using c round_nat_bounds(1) [of "unat (v_fits v0')" "unat (n div 2)"] fits f2 by simp
      then have "v_cap v1 \<noteq> v_cap v0'" by auto
      then have "r = Throws ''225: vec.capacity() == capacity_before'' \<and> v = v1"
        using e e1 r1 size by (simp add: test_refill_def vbind_def vassert_def)
      then show ?thesis using no H1 by auto
    qed
  next
    assume "refused gran r1 v1"
    then show ?thesis using e e1 by (auto simp: test_refill_def vbind_def refused_def)
  qed
qed

section \<open>The outcome\<close>

lemma vbind_cases:
  assumes "vbind f g v = (r, v')"
  obtains x w where "f v = (Done x, w)" and "g x w = (r, v')"
  | e where "f v = (Throws e, v')" and "r = Throws e"
  | q where "f v = (Quits q, v')" and "r = Quits q"
  | "f v = (Undef, v')" and "r = Undef"
  using assms by (auto simp: vbind_def split: prod.splits ending.splits)

lemma vbind_value: "f v = (Done x, w) \<Longrightarrow> vbind f g v = (r, v') \<Longrightarrow> g x w = (r, v')"
  by (simp add: vbind_def)

lemma vbind_refused:
  assumes "f v = (r1, w)" and "refused gran r1 w" and "vbind f g v = (r, v')"
  shows "refused gran r v'"
  using assms by (auto simp: vbind_def refused_def)

text \<open>
  Each of the six tests, from what the one before has left. \<open>reports gran v0 k b r v\<close>: what a run may
  come to, \<open>b\<close> telling whether it includes the last test.
\<close>

definition reports :: "granularity \<Rightarrow> VMMVector \<Rightarrow> nat \<Rightarrow> bool \<Rightarrow> unit ending \<Rightarrow> VMMVector \<Rightarrow> bool" where
  "reports gran v0 k b r v \<longleftrightarrow>
     r = Done () \<and> (\<exists>j. k = 2 ^ j) \<and> (k \<le> 4 \<or> \<not> b) \<and> (\<exists>xs c. holds gran v0 xs c v) \<or>
     r = Throws ''225: vec.capacity() == capacity_before'' \<and> (\<exists>j. k = 2 ^ j) \<and> 4 < k \<and> b \<or>
     threw r \<and> (\<nexists>j. k = 2 ^ j) \<or> refused gran r v"

lemma reports_refused:
  assumes "f v = (r1, w)" and "refused gran r1 w" and "vbind f g v = (r, v')"
  shows "reports gran v0 k b r v'"
  using vbind_refused [OF assms] by (simp add: reports_def)

lemma stop_or_go:
  fixes count :: u64
  assumes "unless_done (count - i = 0) f v = (r, v')" and "holds gran v0 xs n v" and "k = 2 ^ j" and "i \<in> {1, 2, 3, 4, 5}"
    and "f v = (r, v') \<Longrightarrow> count \<noteq> i \<Longrightarrow> reports gran v0 k (count \<notin> {1, 2, 3, 4, 5}) r v'"
  shows "reports gran v0 k (count \<notin> {1, 2, 3, 4, 5}) r v'"
proof (cases "count = i")
  case True
  then show ?thesis using assms(1-4) by (auto simp: unless_done_def reports_def)
next
  case False
  then show ?thesis using assms(1,5) by (simp add: unless_done_def)
qed

text \<open>The last three tests.\<close>

lemma last_three:
  fixes count :: u64
  assumes doc: "documented gran env" and ob: "obliging gran env" and fl: "floats_ok fl" and sz: "sized v0 k f (unat n)"
    and H3: "holds gran v0 (doubles fl (unat n div 2) @ replicate (unat n - unat n div 2) (fl_zero fl)) (k * f) v3"
    and pow: "k = 2 ^ j"
    and E3: "unless_done (count - 3 = 0) (vbind (test_keep_two env fl n) (\<lambda>_. unless_done (count - 4 = 0)
             (\<lambda>v. let capacity_before = v_cap v
               in vbind (test_keep_all env fl capacity_before) (\<lambda>_. unless_done (count - 5 = 0)
                    (test_refill env fl n capacity_before)) v))) v3 = (r, v)"
    and c12: "count \<noteq> 1" "count \<noteq> 2"
  shows "reports gran v0 k (count \<notin> {1, 2, 3, 4, 5}) r v"
proof -
  let ?R = "reports gran v0 k (count \<notin> {1, 2, 3, 4, 5}) r v"
  show ?thesis
  proof (rule stop_or_go [OF E3 H3 pow], simp)
    assume c3: "count \<noteq> 3" and E4: "vbind (test_keep_two env fl n) (\<lambda>_. unless_done (count - 4 = 0)
             (\<lambda>v. let capacity_before = v_cap v
               in vbind (test_keep_all env fl capacity_before) (\<lambda>_. unless_done (count - 5 = 0)
                    (test_refill env fl n capacity_before)) v)) v3 = (r, v)"
    obtain r4 v4 where e4: "test_keep_two env fl n v3 = (r4, v4)" by fastforce
    obtain xs where r4: "r4 = Done ()" and H4: "holds gran v0 xs (min k 3 * f) v4"
      using test_keep_two_ok [OF doc ob fl sz H3 e4] by blast
    show ?R
    proof (rule stop_or_go [OF vbind_value [OF e4 [unfolded r4] E4] H4 pow], simp)
      assume c4: "count \<noteq> 4" and "(let capacity_before = v_cap v4
               in vbind (test_keep_all env fl capacity_before) (\<lambda>_. unless_done (count - 5 = 0)
                    (test_refill env fl n capacity_before)) v4) = (r, v)"
      note E5 = this(2) [unfolded Let_def]
      obtain r5 v5 where e5: "test_keep_all env fl (v_cap v4) v4 = (r5, v5)" by fastforce
      have r5: "r5 = Done ()" and H5: "holds gran v0 [] (min k 3 * f) v5" using test_keep_all_ok [OF ob H4 e5] by simp_all
      have c: "v_cap v5 = v_cap v4" using holdsD(4) [OF H4] holdsD(4) [OF H5] by (simp add: word_unat_eq_iff)
      show ?R
      proof (rule stop_or_go [OF vbind_value [OF e5 [unfolded r5] E5] H5 pow], simp)
        assume "test_refill env fl n (v_cap v4) v5 = (r, v)" and c5: "count \<noteq> 5"
        then have e6: "test_refill env fl n (v_cap v5) v5 = (r, v)" using c by simp
        from test_refill_ok [OF doc ob fl sz H5 e6 pow] show ?R
          using pow c12 c3 c4 c5 by (auto simp: reports_def split: if_splits)
      qed
    qed
  qed
qed

text \<open>The tests, one after the other; \<open>count\<close> may stop the program after each of the first five.\<close>

lemma six_tests_ok:
  assumes doc: "documented gran env" and ob: "obliging gran env" and fl: "floats_ok fl" and or: "any_order order"
    and new: "vec_ok gran 4 [] [] v0" and sz: "sized v0 k f (unat n)" and e: "six_tests env fl order n count v0 = (r, v)"
  shows "reports gran v0 k (count \<notin> {1, 2, 3, 4, 5}) r v"
proof -
  let ?R = "reports gran v0 k (count \<notin> {1, 2, 3, 4, 5}) r v"
  note E = e [unfolded six_tests_def]
  obtain r1 v1 where e1: "test_push env fl order n v0 = (r1, v1)" by fastforce
  from test_push_ok [OF doc ob fl or new sz e1] show ?thesis
  proof (elim disjE conjE)
    assume r1: "r1 = Done ()" and H1: "holds gran v0 (doubles fl (unat n)) (k * f) v1" and "\<exists>j. k = 2 ^ j"
    then obtain j where pow: "k = 2 ^ j" by blast
    show ?R
    proof (rule stop_or_go [OF vbind_value [OF e1 [unfolded r1] E] H1 pow], simp)
      assume c1: "count \<noteq> 1" and E1: "vbind (test_shrink env fl n) (\<lambda>_. unless_done (count - 2 = 0)
         (vbind (test_regrow env fl n) (\<lambda>_. unless_done (count - 3 = 0)
           (vbind (test_keep_two env fl n) (\<lambda>_. unless_done (count - 4 = 0)
             (\<lambda>v. let capacity_before = v_cap v
               in vbind (test_keep_all env fl capacity_before) (\<lambda>_. unless_done (count - 5 = 0)
                    (test_refill env fl n capacity_before)) v)))))) v1 = (r, v)"
      obtain r2 v2 where e2: "test_shrink env fl n v1 = (r2, v2)" by fastforce
      obtain c where r2: "r2 = Done ()" and H2: "holds gran v0 (doubles fl (unat n div 2)) c v2"
        using test_shrink_ok [OF doc ob fl H1 e2] by blast
      show ?R
      proof (rule stop_or_go [OF vbind_value [OF e2 [unfolded r2] E1] H2 pow], simp)
        assume c2: "count \<noteq> 2" and E2: "vbind (test_regrow env fl n) (\<lambda>_. unless_done (count - 3 = 0)
           (vbind (test_keep_two env fl n) (\<lambda>_. unless_done (count - 4 = 0)
             (\<lambda>v. let capacity_before = v_cap v
               in vbind (test_keep_all env fl capacity_before) (\<lambda>_. unless_done (count - 5 = 0)
                    (test_refill env fl n capacity_before)) v)))) v2 = (r, v)"
        obtain r3 v3 where e3: "test_regrow env fl n v2 = (r3, v3)" by fastforce
        from test_regrow_ok [OF doc ob fl sz H2 e3] show ?R
        proof (elim disjE conjE)
          assume r3: "r3 = Done ()"
            and H3: "holds gran v0 (doubles fl (unat n div 2) @ replicate (unat n - unat n div 2) (fl_zero fl)) (k * f) v3"
          show ?R by (rule last_three [OF doc ob fl sz H3 pow vbind_value [OF e3 [unfolded r3] E2] c1 c2])
        qed (rule reports_refused [OF e3 _ E2])
      qed
    qed
  next
    assume "threw r1" and "\<nexists>j. k = 2 ^ j"
    then show ?thesis using E e1 by (simp add: vbind_def threw_def reports_def)
  qed (rule reports_refused [OF e1 _ E])
qed

lemma new_vector_sized:
  assumes doc: "documented gran env" and n: "0 < unat n" "unat n < 2 ^ 31"
    and new: "new_vector env 4 n ck 0 True [] = (Done (), v0)" and sane: "sane_sizes gran \<lparr>p_type = LocDevice, p_id = 0\<rparr> 4 n ck"
  shows "vec_ok gran 4 [] [] v0" and "sized v0 (unat (v_max v0) div unat (v_fits v0)) (unat (v_fits v0)) (unat n)"
proof -
  let ?p = "\<lparr>p_type = LocDevice, p_id = 0\<rparr>" and ?f = "unat (v_fits v0)"
  have N: "vec_ok gran 4 [] [] v0 \<and> v_props v0 = ?p \<and> unat (v_max v0) = round_nat (unat n) ?f"
    using new_vector_ok [OF doc, where dev = True and s = 4 and mx = n and ck = ck and rt = 0 and v = v0] new sane by simp
  then show ok: "vec_ok gran 4 [] [] v0" by blast
  have f: "0 < ?f" by (rule vec_ok_bounds(1) [OF ok])
  have "4096 dvd ?f * 4"
  proof (rule dvd_trans [OF page_dvd_gran(1) [OF doc]])
    show "gran ?p dvd ?f * 4" using vec_okD(2,3) [OF ok] N by (simp add: mod_eq_0_iff_dvd)
  qed
  then have "4096 \<le> ?f * 4" using f by (intro dvd_imp_le) simp_all
  moreover have "unat (v_max v0) = unat (v_max v0) div ?f * ?f" using vec_okD(4) [OF ok] by simp
  moreover have "unat n \<le> unat (v_max v0)" "unat (v_max v0) < unat n + ?f" using N round_nat_bounds [OF f] by simp_all
  ultimately show "sized v0 (unat (v_max v0) div ?f) ?f (unat n)" using n by (simp add: sized_def)
qed

text \<open>
  C27. The test program of the vector, run in full or stopped by its limit after the first \<open>count\<close> of the
  six tests. What it reports is decided by the number \<open>k\<close> of chunks that its \<open>N\<close> elements take. If \<open>k\<close> is
  no power of two, every run ends in the vector's own exception, also the run of the first test alone. If
  it is one, two or four, every assertion holds, whatever the order of the kernel's threads. For eight and
  more the runs of up to five tests pass as well, and a run of all six fails in the last one, by the
  assertion of line 225 on the capacity, since the fourth test leaves three chunks. A run that passes
  gives everything back. The other way for a run to end is that the driver refuses to create a chunk. The
  driver keeps its documentation, and the constructor's sizes do not wrap.
\<close>

theorem vector_main_verdict:
  assumes "documented gran env" and "obliging gran env" and "floats_ok fl" and "any_order order"
    and "0 < unat n" and "unat n < 2 ^ 31" and "new_vector env 4 n ck 0 True [] = (Done (), v0)"
    and "sane_sizes gran \<lparr>p_type = LocDevice, p_id = 0\<rparr> 4 n ck" and "vector_main env fl order n ck count = (r, v)"
  shows "let k = unat (v_max v0) div unat (v_fits v0)
    in r = (if \<nexists>j. k = 2 ^ j then Throws ''max_capacity exceeded''
            else if k \<le> 4 \<or> count \<in> {1, 2, 3, 4, 5} then Done ()
            else Throws ''225: vec.capacity() == capacity_before'') \<and>
         (r = Done () \<longrightarrow> lawful gran (v_hist v) \<and> nothing_held (memory (v_hist v))) \<or>
       refused gran r v"
proof -
  note N = new_vector_sized [OF assms(1,5-8)]
  let ?k = "unat (v_max v0) div unat (v_fits v0)"
  obtain r1 v1 where e1: "six_tests env fl order n count v0 = (r1, v1)" by fastforce
  have e: "vbind (six_tests env fl order n count) (\<lambda>_. drop_vector env 4) v0 = (r, v)"
    using assms(9) by (simp add: vector_main_def assms(7))
  have passed: ?thesis
    if r1: "r1 = Done ()" and k: "?k = 2 ^ j" "?k \<le> 4 \<or> count \<in> {1, 2, 3, 4, 5}" and H: "holds gran v0 xs c v1" for j xs c
  proof -
    obtain ps where ok: "vec_ok gran 4 ps xs v1" using H unfolding holds_def by blast
    have "r = Done () \<and> lawful gran (v_hist v) \<and> nothing_held (memory (v_hist v))"
      by (rule drop_vector_ok [OF assms(2) ok vbind_value [OF e1 [unfolded r1] e]])
    then show ?thesis using k by (auto simp: Let_def)
  qed
  from six_tests_ok [OF assms(1-4) N e1] show ?thesis
    unfolding reports_def
  proof (elim disjE conjE exE)
    fix j xs c
    assume "r1 = Done ()" "?k = 2 ^ j" "?k \<le> 4" "holds gran v0 xs c v1"
    then show ?thesis by (intro passed) simp_all
  next
    fix j xs c
    assume "r1 = Done ()" "?k = 2 ^ j" "\<not> count \<notin> {1, 2, 3, 4, 5}" "holds gran v0 xs c v1"
    then show ?thesis by (intro passed) simp_all
  next
    fix j
    assume "r1 = Throws ''225: vec.capacity() == capacity_before''" "?k = 2 ^ j" "4 < ?k" "count \<notin> {1, 2, 3, 4, 5}"
    then show ?thesis using e e1 by (auto simp: Let_def vbind_def)
  next
    assume "threw r1" "\<nexists>j. ?k = 2 ^ j"
    then show ?thesis using e e1 by (auto simp: Let_def vbind_def threw_def)
  next
    assume "refused gran r1 v1"
    then show ?thesis using vbind_refused [OF e1 _ e] by (simp add: Let_def)
  qed
qed

text \<open>Three chunks, of the first test alone; one chunk, in full.\<close>

theorem vector_main_verdict_witness:
  "fst (vector_main demo_driver demo_floats row_order 0x180000 1 1) \<noteq> Done () \<and>
   fst (vector_main demo_driver demo_floats row_order 100 1 0) \<noteq> Throws ''225: vec.capacity() == capacity_before''"
proof -
  have not3: "\<nexists>j. (3 :: nat) = 2 ^ j"
  proof
    assume "\<exists>j. (3 :: nat) = 2 ^ j"
    then obtain j where "(3 :: nat) = 2 ^ j" ..
    then show False by (cases j) (auto, presburger)
  qed
  have one: "\<exists>j. (1 :: nat) = 2 ^ j" by (rule exI [of _ 0]) simp
  obtain r v where e: "vector_main demo_driver demo_floats row_order 0x180000 1 1 = (r, v)" by fastforce
  obtain q w where e': "vector_main demo_driver demo_floats row_order 100 1 0 = (q, w)" by fastforce
  note P = vector_main_verdict [OF pages_documented demo_obliging demo_floats_ok row_order_any]
  have "r \<noteq> Done ()"
    using P [OF _ _ demo_vector(4,5) e, simplified] not3 by (auto simp: demo_vector(2,3) refused_def)
  moreover have "q \<noteq> Throws ''225: vec.capacity() == capacity_before''"
    using P [OF _ _ demo_vector(4,5) e', simplified] one by (auto simp: demo_vector(2,3) refused_def)
  ultimately show ?thesis unfolding e e' by simp
qed

end
