(* ===== verification/Spatial.thy ===== *)
theory Spatial
  imports Remap_Props Pattern
begin

text \<open>
  The probe of virtual memory calls (\<open>experiments/lookups/2A/spatial.cu\<close>): its kernels on mapped memory,
  and the modes \<open>vmm\<close> and \<open>remapbusy\<close>, which move the backing of a buffer that kernels fill and check.
  The other modes, the clocks and the printing are left out.
\<close>

section \<open>The world\<close>

text \<open>
  \<open>sp_rt\<close>: whether the runtime grants an allocation or a stream; \<open>sp_order\<close> and \<open>sp_walks\<close>: in which order
  the threads of a launch visit the words of a buffer; \<open>sp_numa\<close>: the NUMA node next to the GPU.
\<close>

record SpEnv =
  sp_pe :: PEnv
  sp_rt :: "requests \<Rightarrow> bool"
  sp_order :: "requests \<Rightarrow> nat \<Rightarrow> nat list"
  sp_walks :: "requests \<Rightarrow> nat \<Rightarrow> nat \<Rightarrow> nat list"
  sp_numa :: int

definition rt_alloc :: "SpEnv \<Rightarrow> (Proc, unit) act" where
  "rt_alloc E v = (if sp_rt E (v_hist v) then Done () else Quits CUDA_ERROR_OUT_OF_MEMORY, v)"

definition synchronize :: "SpEnv \<Rightarrow> (Proc, u64) act" where
  "synchronize E = CU_CHECK (sp_pe E) QSync"

section \<open>Kernels\<close>

text \<open>A word as its four bytes, and what \<open>fill\<close> stores at an index.\<close>

definition word_bytes :: "u32 \<Rightarrow> bytes" where
  "word_bytes w = map (\<lambda>k. ucast (drop_bit (8 * k) w)) [0, 1, 2, 3]"

definition sp_word :: "u32 \<Rightarrow> nat \<Rightarrow> bytes" where
  "sp_word seed i = word_bytes (of_nat i * 2654435761 + seed)"

text \<open>The steps of all threads of \<open>fill\<close>, and of \<open>check\<close> with its counter, in the order they happen.\<close>

fun sp_fill :: "PEnv \<Rightarrow> u64 \<Rightarrow> u32 \<Rightarrow> nat list \<Rightarrow> (Proc, unit) act" where
  "sp_fill env va seed [] v = (Done (), v)"
| "sp_fill env va seed (i # js) v =
     vbind (CU_CHECK env (QWrite (va + of_nat i * 4) (sp_word seed i))) (\<lambda>_. sp_fill env va seed js) v"

fun sp_check :: "PEnv \<Rightarrow> u64 \<Rightarrow> u32 \<Rightarrow> nat list \<Rightarrow> u64 \<Rightarrow> (Proc, u64) act" where
  "sp_check env va seed [] bad v = (Done bad, v)"
| "sp_check env va seed (i # js) bad v =
     (let x = pe_bytes env (v_hist v) (va + of_nat i * 4) 4
      in vbind (CU_CHECK env (QRead (va + of_nat i * 4) 4))
           (\<lambda>_. sp_check env va seed js (if x \<noteq> sp_word seed i then bad + 1 else bad)) v)"

text \<open>Kernels that only read, \<open>k\<close> bytes at a time.\<close>

fun sp_reads :: "PEnv \<Rightarrow> u64 \<Rightarrow> u64 \<Rightarrow> nat list \<Rightarrow> (Proc, unit) act" where
  "sp_reads env va k [] v = (Done (), v)"
| "sp_reads env va k (i # js) v = vbind (CU_CHECK env (QRead (va + of_nat i * k) k)) (\<lambda>_. sp_reads env va k js) v"

text \<open>The words a thread of \<open>readrand\<close> reads.\<close>

fun rand_walk :: "nat \<Rightarrow> u32 \<Rightarrow> nat \<Rightarrow> nat list" where
  "rand_walk n x 0 = []"
| "rand_walk n x (Suc s) = (let x' = x * 1664525 + 1013904223 in unat x' mod n # rand_walk n x' s)"

definition grid_walks :: "nat \<Rightarrow> nat \<Rightarrow> nat list list" where
  "grid_walks n steps = map (\<lambda>t. rand_walk n (of_nat t + 1) steps) [0..<GRID]"

definition launch_fill :: "SpEnv \<Rightarrow> u64 \<Rightarrow> nat \<Rightarrow> u32 \<Rightarrow> (Proc, unit) act" where
  "launch_fill E va n seed v = sp_fill (sp_pe E) va seed (sp_order E (v_hist v) n) v"

definition launch_check :: "SpEnv \<Rightarrow> u64 \<Rightarrow> nat \<Rightarrow> u32 \<Rightarrow> (Proc, u64) act" where
  "launch_check E va n seed v = sp_check (sp_pe E) va seed (sp_order E (v_hist v) n) 0 v"

definition readbw :: "SpEnv \<Rightarrow> u64 \<Rightarrow> nat \<Rightarrow> (Proc, unit) act" where
  "readbw E va n v = sp_reads (sp_pe E) va 16 (sp_order E (v_hist v) n) v"

definition readrand :: "SpEnv \<Rightarrow> u64 \<Rightarrow> nat \<Rightarrow> nat \<Rightarrow> (Proc, unit) act" where
  "readrand E va n steps v = sp_reads (sp_pe E) va 4 (sp_walks E (v_hist v) n steps) v"

section \<open>Host functions\<close>

definition sp_prop :: "SpEnv \<Rightarrow> bool \<Rightarrow> Prop" where
  "sp_prop E host =
     (if host then \<lparr>p_type = LocHostNuma, p_id = (if sp_numa E < 0 then 0 else sp_numa E)\<rparr>
      else \<lparr>p_type = LocDevice, p_id = 0\<rparr>)"

definition verify :: "SpEnv \<Rightarrow> u64 \<Rightarrow> nat \<Rightarrow> u32 \<Rightarrow> (Proc, u64) act" where
  "verify E va n seed =
     vbind (rt_alloc E) (\<lambda>_. vbind (launch_check E va n seed) (\<lambda>bad. vbind (synchronize E) (\<lambda>_. Pair (Done bad))))"

fun launches :: "nat \<Rightarrow> (Proc, unit) act \<Rightarrow> (Proc, unit) act" where
  "launches 0 f = Pair (Done ())"
| "launches (Suc k) f = vbind f (\<lambda>_. launches k f)"

definition bw_seq :: "SpEnv \<Rightarrow> u64 \<Rightarrow> nat \<Rightarrow> (Proc, unit) act" where
  "bw_seq E va n =
     vbind (rt_alloc E) (\<lambda>_. vbind (readbw E va (n div 16)) (\<lambda>_. vbind (synchronize E)
       (\<lambda>_. vbind (launches 5 (readbw E va (n div 16))) (\<lambda>_. vbind (synchronize E) (\<lambda>_. Pair (Done ()))))))"

definition rand_rate :: "SpEnv \<Rightarrow> u64 \<Rightarrow> nat \<Rightarrow> (Proc, unit) act" where
  "rand_rate E va n =
     vbind (rt_alloc E) (\<lambda>_. vbind (readrand E va (n div 4) 4) (\<lambda>_. vbind (synchronize E)
       (\<lambda>_. vbind (readrand E va (n div 4) 64) (\<lambda>_. vbind (synchronize E) (\<lambda>_. Pair (Done ()))))))"

text \<open>A new backing mapped at the start of a reserved range.\<close>

definition back_range :: "SpEnv \<Rightarrow> u64 \<Rightarrow> u64 \<Rightarrow> Prop \<Rightarrow> (Proc, u64) act" where
  "back_range E va n p =
     vbind (CU_CHECK (sp_pe E) (QCreate n p)) (\<lambda>h. vbind (CU_CHECK (sp_pe E) (QMap va n h))
       (\<lambda>_. vbind (CU_CHECK (sp_pe E) (QAccess va n)) (\<lambda>_. Pair (Done h))))"

section \<open>Modes\<close>

text \<open>
  \<open>mode_vmm\<close>: 256 MiB that move from the device to the host under their address. The result is the three
  numbers of wrong words it prints. In one \<open>printf\<close> the arguments are taken from left to right.
\<close>

definition measured :: "SpEnv \<Rightarrow> u64 \<Rightarrow> nat \<Rightarrow> u32 \<Rightarrow> (Proc, u64) act" where
  "measured E va bytes seed =
     vbind (verify E va (bytes div 4) seed) (\<lambda>bad. vbind (bw_seq E va bytes)
       (\<lambda>_. vbind (rand_rate E va bytes) (\<lambda>_. Pair (Done bad))))"

definition mode_vmm :: "SpEnv \<Rightarrow> (Proc, u64 list) act" where
  "mode_vmm E =
     (let c = 0x10000000; n = 0x4000000
      in vbind (CU_CHECK (sp_pe E) (QGranularity (sp_prop E False)))
      (\<lambda>_. vbind (CU_CHECK (sp_pe E) (QGranularity (sp_prop E True)))
      (\<lambda>_. vbind (CU_CHECK (sp_pe E) (QReserve c))
      (\<lambda>va. vbind (back_range E va c (sp_prop E False))
      (\<lambda>hdl. vbind (launch_fill E va n 7)
      (\<lambda>_. vbind (synchronize E)
      (\<lambda>_. vbind (measured E va (unat c) 7)
      (\<lambda>b1. vbind (move_backing (sp_pe E) va c hdl (sp_prop E True))
      (\<lambda>hh. vbind (measured E va (unat c) 7)
      (\<lambda>b2. vbind (launch_fill E va n 9)
      (\<lambda>_. vbind (synchronize E)
      (\<lambda>_. vbind (verify E va n 9)
      (\<lambda>b3. vbind (CU_CHECK (sp_pe E) (QUnmap va c))
      (\<lambda>_. vbind (CU_CHECK (sp_pe E) (QRelease hh))
      (\<lambda>_. vbind (CU_CHECK (sp_pe E) (QAddrFree va c))
      (\<lambda>_. Pair (Done [b1, b2, b3])))))))))))))))))"

text \<open>
  \<open>mode_remapbusy\<close>: the same move to the host and back, twice, the second time while a kernel runs that
  works on a buffer of its own, and so does not appear here.
\<close>

definition busy_round :: "SpEnv \<Rightarrow> u64 \<Rightarrow> u64 \<Rightarrow> u64 \<Rightarrow> (Proc, u64 \<times> u64) act" where
  "busy_round E va c hdl =
     vbind (move_backing (sp_pe E) va c hdl (sp_prop E True))
     (\<lambda>hh. vbind (verify E va (unat c div 4) 21)
     (\<lambda>bad. vbind (move_backing (sp_pe E) va c hh (sp_prop E False))
     (\<lambda>hdl. Pair (Done (bad, hdl)))))"

definition mode_remapbusy :: "SpEnv \<Rightarrow> (Proc, u64 list) act" where
  "mode_remapbusy E =
     (let c = 0x4000000
      in vbind (rt_alloc E)
      (\<lambda>_. vbind (rt_alloc E)
      (\<lambda>_. vbind (rt_alloc E)
      (\<lambda>_. vbind (CU_CHECK (sp_pe E) (QReserve c))
      (\<lambda>va. vbind (back_range E va c (sp_prop E False))
      (\<lambda>hdl. vbind (launch_fill E va (unat c div 4) 21)
      (\<lambda>_. vbind (synchronize E)
      (\<lambda>_. vbind (busy_round E va c hdl)
      (\<lambda>(b1, h1). vbind (busy_round E va c h1)
      (\<lambda>(b2, h2). Pair (Done [b1, b2])))))))))))"

end
