(* ===== verification/Runs.thy ===== *)
theory Runs
  imports Vector
begin

text \<open>
  A calculus for sequences of calls that return or end in one of a few ways: \<open>runs B f v P\<close> says that \<open>f\<close>
  from \<open>v\<close> returns a value and state with \<open>P\<close>, or ends otherwise as \<open>B\<close> allows.
\<close>

definition runs :: "(unit ending \<Rightarrow> 'v \<Rightarrow> bool) \<Rightarrow> ('v, 'a) act \<Rightarrow> 'v \<Rightarrow> ('a \<Rightarrow> 'v \<Rightarrow> bool) \<Rightarrow> bool" where
  "runs B f v P \<longleftrightarrow>
     (case f v of
        (Done x, w) \<Rightarrow> P x w
      | (Throws e, w) \<Rightarrow> B (Throws e) w
      | (Quits q, w) \<Rightarrow> B (Quits q) w
      | (Undef, w) \<Rightarrow> B Undef w)"

lemma runs_bind:
  assumes "runs B f v P" and "\<And>x w. P x w \<Longrightarrow> runs B (g x) w Q"
  shows "runs B (vbind f g) v Q"
proof -
  obtain r w where e: "f v = (r, w)" by fastforce
  show ?thesis
  proof (cases r)
    case (Done x)
    then have "runs B (g x) w Q" using assms(1) e by (intro assms(2)) (simp add: runs_def)
    then show ?thesis using e Done by (simp add: runs_def vbind_def)
  qed (use assms(1) e in \<open>simp_all add: runs_def vbind_def\<close>)
qed

lemma runs_Done: "P x v \<Longrightarrow> runs B (Pair (Done x)) v P"
  by (simp add: runs_def)

lemma runs_returns: "P x w \<Longrightarrow> f v = (Done x, w) \<Longrightarrow> runs B f v P"
  by (simp add: runs_def)

lemma runs_mono: "runs B f v P \<Longrightarrow> (\<And>x w. P x w \<Longrightarrow> Q x w) \<Longrightarrow> runs B f v Q"
  by (auto simp: runs_def split: prod.splits ending.splits)

text \<open>Where the call is known to end in one of the ways.\<close>

lemma runs_cases:
  assumes "f v = (r, w)" and "(\<exists>x. r = Done x \<and> P x w) \<or> (\<exists>e. r = Throws e \<and> B (Throws e) w) \<or> (\<exists>q. r = Quits q \<and> B (Quits q) w)"
  shows "runs B f v P"
  using assms by (auto simp: runs_def)

end
