(* ===== verification/Spatial_Props.thy ===== *)
theory Spatial_Props
  imports Spatial Runs Vector_Demo
begin

text \<open>
  What the probe's modes report: a small calculus of runs that return or give up for want of memory, the
  buffer with its contents, and each step on it.
\<close>

section \<open>Runs\<close>

text \<open>A run that did not end normally was refused a backing or a range by the driver, or memory by the runtime.\<close>

definition gave_up :: "granularity \<Rightarrow> SpEnv \<Rightarrow> 'a ending \<Rightarrow> Proc \<Rightarrow> bool" where
  "gave_up gran E r v \<longleftrightarrow>
     out_of_memory gran r v \<or> r = Quits CUDA_ERROR_OUT_OF_MEMORY \<and> lawful gran (v_hist v) \<and> \<not> sp_rt E (v_hist v)"

abbreviation goes :: "granularity \<Rightarrow> SpEnv \<Rightarrow> (Proc, 'a) act \<Rightarrow> Proc \<Rightarrow> ('a \<Rightarrow> Proc \<Rightarrow> bool) \<Rightarrow> bool" where
  "goes gran E \<equiv> runs (gave_up gran E)"

lemma goes_result:
  assumes "goes gran E f v P" and "f v = (r, w)"
  shows "(\<exists>x. r = Done x \<and> P x w) \<or> gave_up gran E r w"
  using assms by (cases r) (simp_all add: runs_def gave_up_def out_of_memory_def)

lemma runs_request:
  assumes "obliging gran (sp_pe E)" and "legal gran (memory (v_hist v)) q" and "\<not> may_refuse q"
    and "P (pe_value (sp_pe E) (v_hist v) q) (request1 (sp_pe E) q v)"
  shows "goes gran E (CU_CHECK (sp_pe E) q) v P"
  using assms CU_CHECK_request1 [of "sp_pe E" v q] by (simp add: runs_def obliging_def)

lemma runs_refusable:
  assumes "legal gran (memory (v_hist v)) q" and "may_refuse q" and "lawful gran (v_hist v)"
    and "pe_result (sp_pe E) (v_hist v) q = CUDA_SUCCESS \<Longrightarrow> P (pe_value (sp_pe E) (v_hist v) q) (request1 (sp_pe E) q v)"
  shows "goes gran E (CU_CHECK (sp_pe E) q) v P"
proof (cases "pe_result (sp_pe E) (v_hist v) q = CUDA_SUCCESS")
  case True
  then show ?thesis using assms(4) CU_CHECK_request1 [of "sp_pe E" v q] by (simp add: runs_def)
next
  case False
  then show ?thesis using assms(1-3)
    by (auto simp: runs_def CU_CHECK_def Let_def gave_up_def out_of_memory_def simp del: legal.simps)
qed

section \<open>The world and the buffer\<close>

definition world :: "granularity \<Rightarrow> SpEnv \<Rightarrow> bool" where
  "world gran E \<longleftrightarrow> documented gran (sp_pe E) \<and> obliging gran (sp_pe E) \<and>
     (\<forall>hs n. interleaving (grid_steps n) (sp_order E hs n)) \<and>
     (\<forall>hs n s. interleaving (grid_walks n s) (sp_walks E hs n s)) \<and> (\<forall>p. gran p dvd 2 ^ 26)"

lemma worldD:
  assumes "world gran E"
  shows "documented gran (sp_pe E)" and "obliging gran (sp_pe E)" and "set (sp_order E hs n) = {..<n}"
    and "interleaving (grid_walks n s) (sp_walks E hs n s)" and "gran p dvd 2 ^ 26"
  using assms grid_visits_once(2) unfolding world_def by blast+

text \<open>The reserved range \<open>va\<close> of \<open>c\<close> bytes, not mapped.\<close>

definition range_at :: "granularity \<Rightarrow> u64 \<Rightarrow> u64 \<Rightarrow> Proc \<Rightarrow> bool" where
  "range_at gran va c v \<longleftrightarrow>
     lawful gran (v_hist v) \<and> layout (memory (v_hist v)) (unat va) c (unat c) [] [] \<and> mm_reserved (memory (v_hist v)) = [va \<mapsto> c]"

text \<open>The range backed by \<open>h\<close>, placed at \<open>p\<close>; \<open>f\<close> gives the four bytes at each index, where they are known.\<close>

definition held :: "granularity \<Rightarrow> u64 \<Rightarrow> u64 \<Rightarrow> u64 \<Rightarrow> Prop \<Rightarrow> (nat \<Rightarrow> bytes option) \<Rightarrow> Proc \<Rightarrow> bool" where
  "held gran va c h p f v \<longleftrightarrow>
     lawful gran (v_hist v) \<and> layout (memory (v_hist v)) (unat va) c (unat c) [h] [p] \<and> mm_reserved (memory (v_hist v)) = [va \<mapsto> c] \<and>
     (\<forall>i x. 4 * i + 4 \<le> unat c \<longrightarrow> f i = Some x \<longrightarrow> bytes_at (memory (v_hist v)) (unat va + 4 * i) 4 = map Some x)"

lemma heldD:
  assumes "held gran va c h p f v"
  shows "lawful gran (v_hist v)" and "layout (memory (v_hist v)) (unat va) c (unat c) [h] [p]"
    and "mm_reserved (memory (v_hist v)) = [va \<mapsto> c]"
    and "4 * i + 4 \<le> unat c \<Longrightarrow> f i = Some x \<Longrightarrow> bytes_at (memory (v_hist v)) (unat va + 4 * i) 4 = map Some x"
  using assms unfolding held_def by blast+

text \<open>An element of \<open>k\<close> bytes.\<close>

lemma held_element:
  assumes H: "held gran va c h p f v" and i: "i * unat k + unat k \<le> unat c"
  shows "unat (va + of_nat i * k) = unat va + i * unat k" and "accessible (memory (v_hist v)) (va + of_nat i * k) k"
proof -
  note L = layoutD [OF heldD(2) [OF H]]
  have big: "unat va + unat c < 2 ^ 64" using L(4) by (rule le_less_trans) simp
  have m: "unat (of_nat i * k) = i * unat k"
  proof (cases "k = 0")
    case False
    then have "0 < unat k" by (simp add: unat_gt_0)
    then have "i \<le> i * unat k" by simp
    then have "i < 2 ^ 64" using i big by linarith
    then have "unat (of_nat i :: u64) = i" by (simp add: unat_of_nat take_bit_nat_eq_self)
    then show ?thesis using i big by (subst u64_mult_no_wrap) simp_all
  qed simp
  then show a: "unat (va + of_nat i * k) = unat va + i * unat k" using i big by (subst u64_add_no_wrap) simp_all
  show "accessible (memory (v_hist v)) (va + of_nat i * k) k"
    unfolding accessible_def
  proof (intro allI impI)
    fix y assume "inside (va + of_nat i * k) k y"
    then have "unat va \<le> y" "y - unat va < unat c" using a i by (auto simp: inside_def)
    then show "mm_page (memory (v_hist v)) y \<noteq> None \<and> mm_open (memory (v_hist v)) y"
      using L(7) [of "y - unat va"] L(8) [of "y - unat va"] by auto
  qed
qed

lemma held_quiet:
  assumes "held gran va c h p f v" and "memory (v_hist w) = memory (v_hist v)" and "lawful gran (v_hist w)"
  shows "held gran va c h p f w"
  using assms unfolding held_def by simp

section \<open>Steps\<close>

lemma runs_alloc: "lawful gran (v_hist v) \<Longrightarrow> goes gran E (rt_alloc E) v (\<lambda>_ w. w = v)"
  by (simp add: runs_def rt_alloc_def gave_up_def)

lemma runs_sync:
  assumes W: "world gran E" and H: "held gran va c h p f v"
  shows "goes gran E (synchronize E) v (\<lambda>_. held gran va c h p f)"
  unfolding synchronize_def
proof (rule runs_request [OF worldD(2) [OF W]])
  show "held gran va c h p f (request1 (sp_pe E) QSync v)"
    by (rule held_quiet [OF H]) (simp_all add: request1_memory request1_lawful heldD(1) [OF H])
qed simp_all

lemma runs_read:
  assumes W: "world gran E" and H: "held gran va c h p f v" and i: "i * unat k + unat k \<le> unat c"
  shows "goes gran E (CU_CHECK (sp_pe E) (QRead (va + of_nat i * k) k)) v (\<lambda>_. held gran va c h p f)"
proof (rule runs_request [OF worldD(2) [OF W]])
  let ?q = "QRead (va + of_nat i * k) k"
  show l: "legal gran (memory (v_hist v)) ?q" using held_element(2) [OF H i] by simp
  show "held gran va c h p f (request1 (sp_pe E) ?q v)"
    by (rule held_quiet [OF H]) (use l in \<open>simp_all add: request1_memory request1_lawful heldD(1) [OF H]\<close>)
qed simp

lemma runs_reads:
  assumes "world gran E" and "held gran va c h p f v" and "\<forall>i \<in> set js. i * unat k + unat k \<le> unat c"
  shows "goes gran E (sp_reads (sp_pe E) va k js) v (\<lambda>_. held gran va c h p f)"
  using assms(2,3)
proof (induction js arbitrary: v)
  case Nil
  then show ?case by (simp add: runs_def)
next
  case (Cons i js)
  have "goes gran E (vbind (CU_CHECK (sp_pe E) (QRead (va + of_nat i * k) k)) (\<lambda>_. sp_reads (sp_pe E) va k js)) v
      (\<lambda>_. held gran va c h p f)"
    by (rule runs_bind [OF runs_read [OF assms(1) Cons.prems(1)]]) (use Cons in simp_all)
  then show ?case by (simp add: runs_def)
qed

lemma word_length [simp]: "length (sp_word seed i) = 4"
  by (simp add: sp_word_def word_bytes_def)

lemma runs_write:
  assumes W: "world gran E" and H: "held gran va c h p f v" and i: "i * 4 + 4 \<le> unat c" and len: "length x = 4"
  shows "goes gran E (CU_CHECK (sp_pe E) (QWrite (va + of_nat i * 4) x)) v (\<lambda>_. held gran va c h p (f(i \<mapsto> x)))"
proof (rule runs_request [OF worldD(2) [OF W]])
  let ?q = "QWrite (va + of_nat i * 4) x" and ?m = "memory (v_hist v)" and ?b = "unat va"
  note l = heldD(2) [OF H]
  have i': "i * unat (4 :: u64) + unat (4 :: u64) \<le> unat c" using i by simp
  note A = held_element [OF H i']
  show lg: "legal gran ?m ?q" using A(2) len by simp
  let ?w = "request1 (sp_pe E) ?q v"
  have m: "memory (v_hist ?w) = put_bytes (?b + 4 * i) (map Some x) ?m" using A(1) by (simp add: request1_memory mult.commute)
  have B: "byte_at (memory (v_hist ?w)) (?b + j) = (if 4 * i \<le> j \<and> j < 4 * i + 4 then map Some x ! (j - 4 * i) else byte_at ?m (?b + j))"
    if "j < unat c" for j
    unfolding m using layout_write [OF l, of "4 * i" "map Some x" j] that i len by simp
  have "bytes_at (memory (v_hist ?w)) (?b + 4 * j) 4 = (if j = i then map Some x else bytes_at ?m (?b + 4 * j) 4)"
    if j: "4 * j + 4 \<le> unat c" for j
  proof (cases "j = i")
    case True
    have "bytes_at (memory (v_hist ?w)) (?b + 4 * j) 4 = map Some x"
    proof (rule nth_equalityI)
      fix y assume "y < length (bytes_at (memory (v_hist ?w)) (?b + 4 * j) 4)"
      then have y: "y < 4" by (simp add: bytes_at_def)
      then show "bytes_at (memory (v_hist ?w)) (?b + 4 * j) 4 ! y = map Some x ! y"
        using B [of "4 * i + y"] j True by (simp add: bytes_at_def add.assoc)
    qed (simp add: bytes_at_def len)
    then show ?thesis using True by simp
  next
    case False
    have "bytes_at (memory (v_hist ?w)) (?b + 4 * j) 4 = bytes_at ?m (?b + 4 * j) 4"
    proof (rule bytes_at_cong)
      fix y :: nat assume "y < 4"
      then show "byte_at (memory (v_hist ?w)) (?b + 4 * j + y) = byte_at ?m (?b + 4 * j + y)"
        using B [of "4 * j + y"] j False by (auto simp: add.assoc)
    qed
    then show ?thesis using False by simp
  qed
  then show "held gran va c h p (f(i \<mapsto> x)) ?w"
    unfolding held_def using H lg
    by (auto simp: request1_lawful m layout_put_bytes heldD(1-4) simp del: legal.simps)
qed simp

lemma runs_fill:
  assumes "world gran E" and "held gran va c h p f v" and "\<forall>i \<in> set js. i * 4 + 4 \<le> unat c"
  shows "goes gran E (sp_fill (sp_pe E) va seed js) v (\<lambda>_. held gran va c h p (\<lambda>i. if i \<in> set js then Some (sp_word seed i) else f i))"
  using assms(2,3)
proof (induction js arbitrary: v f)
  case Nil
  then show ?case by (simp add: runs_def)
next
  case (Cons i js)
  have i: "i * 4 + 4 \<le> unat c" using Cons.prems(2) by simp
  have f: "(\<lambda>j. if j \<in> set js then Some (sp_word seed j) else (f(i \<mapsto> sp_word seed i)) j) =
      (\<lambda>j. if j \<in> set (i # js) then Some (sp_word seed j) else f j)" by auto
  have "goes gran E (vbind (CU_CHECK (sp_pe E) (QWrite (va + of_nat i * 4) (sp_word seed i))) (\<lambda>_. sp_fill (sp_pe E) va seed js)) v
      (\<lambda>_. held gran va c h p (\<lambda>j. if j \<in> set (i # js) then Some (sp_word seed j) else f j))"
  proof (rule runs_bind [OF runs_write [OF assms(1) Cons.prems(1) i word_length]])
    fix x w assume "held gran va c h p (f(i \<mapsto> sp_word seed i)) w"
    from Cons.IH [OF this, unfolded f] show "goes gran E (sp_fill (sp_pe E) va seed js) w
      (\<lambda>_. held gran va c h p (\<lambda>j. if j \<in> set (i # js) then Some (sp_word seed j) else f j))" using Cons.prems(2) by simp
  qed
  then show ?case by (simp add: runs_def)
qed

lemma runs_check:
  assumes W: "world gran E" and "held gran va c h p f v" and "\<forall>i \<in> set js. i * 4 + 4 \<le> unat c \<and> f i = Some (sp_word seed i)"
  shows "goes gran E (sp_check (sp_pe E) va seed js bad) v (\<lambda>b w. b = bad \<and> held gran va c h p f w)"
  using assms(2,3)
proof (induction js arbitrary: v)
  case Nil
  then show ?case by (simp add: runs_def)
next
  case (Cons i js)
  have i: "i * unat (4 :: u64) + unat (4 :: u64) \<le> unat c" "f i = Some (sp_word seed i)" using Cons.prems(2) by simp_all
  have "bytes_at (memory (v_hist v)) (unat (va + of_nat i * 4)) (unat (4 :: u64)) = map Some (sp_word seed i)"
    using held_element(1) [OF Cons.prems(1) i(1)] heldD(4) [OF Cons.prems(1) _ i(2)] i(1) by (simp add: mult.commute)
  then have x: "pe_bytes (sp_pe E) (v_hist v) (va + of_nat i * 4) 4 = sp_word seed i" by (rule documentedD(5) [OF worldD(1) [OF W]])
  have "goes gran E (vbind (CU_CHECK (sp_pe E) (QRead (va + of_nat i * 4) 4)) (\<lambda>_. sp_check (sp_pe E) va seed js bad)) v
      (\<lambda>b w. b = bad \<and> held gran va c h p f w)"
    by (rule runs_bind [OF runs_read [OF W Cons.prems(1) i(1)]]) (use Cons in simp_all)
  then show ?case by (simp add: runs_def x)
qed

section \<open>Launches and host functions\<close>

text \<open>The first \<open>n\<close> words hold what \<open>fill\<close> stores.\<close>

definition filled :: "nat \<Rightarrow> u32 \<Rightarrow> nat \<Rightarrow> bytes option" where
  "filled n seed i = (if i < n then Some (sp_word seed i) else None)"

lemma runs_launch_fill:
  assumes W: "world gran E" and H: "held gran va c h p (filled n s0) v \<or> held gran va c h p (\<lambda>_. None) v" and n: "n * 4 = unat c"
  shows "goes gran E (launch_fill E va n seed) v (\<lambda>_. held gran va c h p (filled n seed))"
proof -
  let ?js = "sp_order E (v_hist v) n"
  obtain f where Hf: "held gran va c h p f v" and f: "f = filled n s0 \<or> f = (\<lambda>_. None)" using H by blast
  have js: "\<forall>i \<in> set ?js. i * 4 + 4 \<le> unat c" using n by (auto simp: worldD(3) [OF W])
  have "(\<lambda>i. if i \<in> set ?js then Some (sp_word seed i) else f i) = filled n seed"
    using f by (auto simp: worldD(3) [OF W] filled_def)
  then have "goes gran E (sp_fill (sp_pe E) va seed ?js) v (\<lambda>_. held gran va c h p (filled n seed))"
    using runs_fill [OF W Hf js, of seed] by simp
  then show ?thesis by (simp add: runs_def launch_fill_def)
qed

lemma runs_verify:
  assumes W: "world gran E" and H: "held gran va c h p (filled n seed) v" and n: "n * 4 = unat c"
  shows "goes gran E (verify E va n seed) v (\<lambda>b w. b = 0 \<and> held gran va c h p (filled n seed) w)"
  unfolding verify_def
proof (rule runs_bind [OF runs_alloc [OF heldD(1) [OF H]]])
  fix w assume w: "w = v"
  have "\<forall>i \<in> set (sp_order E (v_hist v) n). i * 4 + 4 \<le> unat c \<and> filled n seed i = Some (sp_word seed i)"
    using n by (auto simp: worldD(3) [OF W] filled_def)
  from runs_check [OF W H this, of 0]
  have check: "goes gran E (launch_check E va n seed) w (\<lambda>b w. b = 0 \<and> held gran va c h p (filled n seed) w)"
    by (simp add: runs_def launch_check_def w)
  show "goes gran E (vbind (launch_check E va n seed) (\<lambda>bad. vbind (synchronize E) (\<lambda>_. Pair (Done bad)))) w
      (\<lambda>b w. b = 0 \<and> held gran va c h p (filled n seed) w)"
  proof (rule runs_bind [OF check])
    fix b w assume "b = 0 \<and> held gran va c h p (filled n seed) w"
    then show "goes gran E (vbind (synchronize E) (\<lambda>_. Pair (Done b))) w (\<lambda>b w. b = 0 \<and> held gran va c h p (filled n seed) w)"
      by (intro runs_bind [OF runs_sync [OF W]] runs_Done) blast+
  qed
qed

lemma runs_launches:
  assumes "\<And>v. I v \<Longrightarrow> goes gran E f v (\<lambda>_. I)" and "I v"
  shows "goes gran E (launches k f) v (\<lambda>_. I)"
  using assms(2)
proof (induction k arbitrary: v)
  case 0
  then show ?case by (simp add: runs_Done)
next
  case (Suc k)
  have "goes gran E (vbind f (\<lambda>_. launches k f)) v (\<lambda>_. I)" by (rule runs_bind [OF assms(1) [OF Suc.prems] Suc.IH])
  then show ?case by simp
qed

lemma runs_readbw:
  assumes W: "world gran E" and H: "held gran va c h p f v" and n: "n * 16 \<le> unat c"
  shows "goes gran E (readbw E va n) v (\<lambda>_. held gran va c h p f)"
proof -
  have "\<forall>i \<in> set (sp_order E (v_hist v) n). i * unat (16 :: u64) + unat (16 :: u64) \<le> unat c"
    using n by (auto simp: worldD(3) [OF W])
  from runs_reads [OF W H this] show ?thesis by (simp add: runs_def readbw_def)
qed

lemma walk_inside: "0 < n \<Longrightarrow> set (rand_walk n x s) \<subseteq> {..<n}"
  by (induction n x s rule: rand_walk.induct) (auto simp: Let_def)

lemma interleaving_set: "interleaving xss js \<Longrightarrow> set js = (\<Union>xs \<in> set xss. set xs)"
  by (induction rule: interleaving.induct) (auto simp: set_shuffles)

lemma runs_readrand:
  assumes W: "world gran E" and H: "held gran va c h p f v" and n: "0 < n" "n * 4 \<le> unat c"
  shows "goes gran E (readrand E va n s) v (\<lambda>_. held gran va c h p f)"
proof -
  let ?js = "sp_walks E (v_hist v) n s"
  have "set ?js \<subseteq> {..<n}"
    unfolding interleaving_set [OF worldD(4) [OF W]] using walk_inside [OF n(1)] by (auto simp: grid_walks_def)
  then have "\<forall>i \<in> set ?js. i * unat (4 :: u64) + unat (4 :: u64) \<le> unat c" using n(2) by fastforce
  from runs_reads [OF W H this] show ?thesis by (simp add: runs_def readrand_def)
qed

lemma runs_bw_seq:
  assumes W: "world gran E" and H: "held gran va c h p f v"
  shows "goes gran E (bw_seq E va (unat c)) v (\<lambda>_. held gran va c h p f)"
  unfolding bw_seq_def
proof (rule runs_bind [OF runs_alloc [OF heldD(1) [OF H]]])
  have n: "unat c div 16 * 16 \<le> unat c" by simp
  note read = runs_readbw [OF W _ n] and sync = runs_sync [OF W]
  fix w assume "w = v"
  then have Hw: "held gran va c h p f w" using H by simp
  have five: "goes gran E (launches 5 (readbw E va (unat c div 16))) x (\<lambda>_. held gran va c h p f)" if "held gran va c h p f x" for x
    by (rule runs_launches [OF read that])
  show "goes gran E (vbind (readbw E va (unat c div 16)) (\<lambda>_. vbind (synchronize E)
      (\<lambda>_. vbind (launches 5 (readbw E va (unat c div 16))) (\<lambda>_. vbind (synchronize E) (\<lambda>_. Pair (Done ())))))) w (\<lambda>_. held gran va c h p f)"
    by (rule runs_bind [OF read [OF Hw]], rule runs_bind [OF sync], assumption, rule runs_bind [OF five], assumption,
        rule runs_bind [OF sync], assumption, rule runs_Done)
qed

lemma runs_rand_rate:
  assumes W: "world gran E" and H: "held gran va c h p f v" and c: "4 \<le> unat c"
  shows "goes gran E (rand_rate E va (unat c)) v (\<lambda>_. held gran va c h p f)"
  unfolding rand_rate_def
proof (rule runs_bind [OF runs_alloc [OF heldD(1) [OF H]]])
  have n: "0 < unat c div 4" "unat c div 4 * 4 \<le> unat c" using c by (simp_all add: div_greater_zero_iff)
  note read = runs_readrand [OF W _ n] and sync = runs_sync [OF W]
  fix w assume "w = v"
  then have Hw: "held gran va c h p f w" using H by simp
  show "goes gran E (vbind (readrand E va (unat c div 4) 4) (\<lambda>_. vbind (synchronize E)
      (\<lambda>_. vbind (readrand E va (unat c div 4) 64) (\<lambda>_. vbind (synchronize E) (\<lambda>_. Pair (Done ())))))) w (\<lambda>_. held gran va c h p f)"
    by (rule runs_bind [OF read [OF Hw]], rule runs_bind [OF sync], assumption, rule runs_bind [OF read], assumption,
        rule runs_bind [OF sync], assumption, rule runs_Done)
qed

lemma runs_measured:
  assumes W: "world gran E" and H: "held gran va c h p (filled (unat c div 4) seed) v" and c: "unat c div 4 * 4 = unat c" "0 < unat c"
  shows "goes gran E (measured E va (unat c) seed) v (\<lambda>b w. b = 0 \<and> held gran va c h p (filled (unat c div 4) seed) w)"
  unfolding measured_def
proof (rule runs_bind [OF runs_verify [OF W H c(1)]])
  have c4: "4 \<le> unat c" using c by (cases "unat c div 4") auto
  fix b w assume b: "b = 0 \<and> held gran va c h p (filled (unat c div 4) seed) w"
  show "goes gran E (vbind (bw_seq E va (unat c)) (\<lambda>_. vbind (rand_rate E va (unat c)) (\<lambda>_. Pair (Done b)))) w
      (\<lambda>b w. b = 0 \<and> held gran va c h p (filled (unat c div 4) seed) w)"
    by (rule runs_bind [OF runs_bw_seq [OF W conjunct2 [OF b]]], rule runs_bind [OF runs_rand_rate [OF W _ c4]], assumption,
        rule runs_Done) (use b in simp)
qed

section \<open>Backings\<close>

lemma runs_reserve:
  assumes W: "world gran E" and c: "c \<noteq> 0" "unat c mod 4096 = 0" and start: "memory (v_hist v) = no_mem" "lawful gran (v_hist v)"
  shows "goes gran E (CU_CHECK (sp_pe E) (QReserve c)) v (\<lambda>va. range_at gran va c)"
proof (rule runs_refusable)
  show lg: "legal gran (memory (v_hist v)) (QReserve c)" using c by simp
  assume "pe_result (sp_pe E) (v_hist v) (QReserve c) = CUDA_SUCCESS"
  from documentedD(3) [OF worldD(1) [OF W] this refl] c(1) show "range_at gran (pe_value (sp_pe E) (v_hist v) (QReserve c)) c (request1 (sp_pe E) (QReserve c) v)"
    using lg start(2) by (auto simp: range_at_def request1_memory request1_lawful start(1) layout_def no_mem_def unat_gt_0 simp del: legal.simps)
qed (use start in simp_all)

lemma runs_back_range:
  assumes W: "world gran E" and R: "range_at gran va c v" and g: "unat c mod gran p = 0"
  shows "goes gran E (back_range E va c p) v (\<lambda>h. held gran va c h p (\<lambda>_. None))"
  unfolding back_range_def
proof (rule runs_bind)
  let ?m = "memory (v_hist v)" and ?q = "QCreate c p"
  have law: "lawful gran (v_hist v)" and l: "layout ?m (unat va) c (unat c) [] []" and res: "mm_reserved ?m = [va \<mapsto> c]"
    using R by (simp_all add: range_at_def)
  have room: "Suc (length ([] :: u64 list)) * unat c \<le> unat c" and ptr: "unat va = unat va + length ([] :: u64 list) * unat c" by simp_all
  show "goes gran E (CU_CHECK (sp_pe E) ?q) v
      (\<lambda>h w. lawful gran (v_hist w) \<and> memory (v_hist w) = effect ?q h ?m \<and> mm_handles ?m h = None)"
  proof (rule runs_refusable)
    show lg: "legal gran ?m ?q" using grow_legal(1) [OF l room ptr, where d = va and k = c] res g by simp
    assume "pe_result (sp_pe E) (v_hist v) ?q = CUDA_SUCCESS"
    then show "lawful gran (v_hist (request1 (sp_pe E) ?q v)) \<and>
        memory (v_hist (request1 (sp_pe E) ?q v)) = effect ?q (pe_value (sp_pe E) (v_hist v) ?q) ?m \<and>
        mm_handles ?m (pe_value (sp_pe E) (v_hist v) ?q) = None"
      using documentedD(4) [OF worldD(1) [OF W]] lg law by (simp add: request1_memory request1_lawful del: legal.simps)
  qed (use law in simp_all)
  fix h and w :: Proc
  assume w: "lawful gran (v_hist w) \<and> memory (v_hist w) = effect ?q h ?m \<and> mm_handles ?m h = None"
  have lm: "legal gran (memory (v_hist w)) (QMap va c h)"
    using grow_legal(2) [OF l room ptr, where d = va and k = c] res g w by simp
  show "goes gran E (vbind (CU_CHECK (sp_pe E) (QMap va c h)) (\<lambda>_. vbind (CU_CHECK (sp_pe E) (QAccess va c)) (\<lambda>_. Pair (Done h)))) w
      (\<lambda>h. held gran va c h p (\<lambda>_. None))"
  proof (rule runs_bind [OF runs_request [OF worldD(2) [OF W] lm]])
    show "lawful gran (v_hist (request1 (sp_pe E) (QMap va c h) w)) \<and>
        memory (v_hist (request1 (sp_pe E) (QMap va c h) w)) = effect (QMap va c h) 0 (effect ?q h ?m)"
      using w lm by (simp add: request1_memory request1_lawful del: legal.simps)
    fix x and u :: Proc
    assume u: "lawful gran (v_hist u) \<and> memory (v_hist u) = effect (QMap va c h) 0 (effect ?q h ?m)"
    have la: "legal gran (memory (v_hist u)) (QAccess va c)"
      using grow_legal(3) [OF l room ptr, where d = va and k = c and h = h and y = 0] res g u by simp
    show "goes gran E (vbind (CU_CHECK (sp_pe E) (QAccess va c)) (\<lambda>_. Pair (Done h))) u (\<lambda>h. held gran va c h p (\<lambda>_. None))"
    proof (rule runs_bind [OF runs_request [OF worldD(2) [OF W] la]])
      let ?z = "request1 (sp_pe E) (QAccess va c) u"
      have m: "memory (v_hist ?z) = grown va c h p ?m" using u by (simp add: request1_memory grown_def)
      show "held gran va c h p (\<lambda>_. None) ?z"
        using layout_grow(1) [OF l _ room ptr, of h p] w u la res
        by (simp add: held_def request1_lawful m grown_def del: legal.simps)
    qed (auto intro: runs_Done)
  qed simp
qed

lemma runs_move:
  assumes W: "world gran E" and H: "held gran va c h p f v" and g: "unat c mod gran p' = 0"
  shows "goes gran E (move_backing (sp_pe E) va c h p') v (\<lambda>nh. held gran va c nh p' f)"
proof -
  let ?b = "unat va" and ?m = "memory (v_hist v)"
  obtain r w where e: "move_backing (sp_pe E) va c h p' v = (r, w)" by fastforce
  have i: "0 < length [h]" and va: "unat va = ?b + 0 * unat c" and e': "move_backing (sp_pe E) va c ([h] ! 0) p' v = (r, w)"
    using e by simp_all
  from move_backing_ok [OF worldD(1,2) [OF W] heldD(2) [OF H] i va heldD(3) [OF H] refl refl heldD(1) [OF H] g e'] show ?thesis
  proof (elim disjE exE conjE)
    assume "out_of_memory gran r w"
    then show ?thesis using e by (auto simp: runs_def gave_up_def out_of_memory_def)
  next
    fix nh ts
    assume N: "r = Done nh" "w = v\<lparr>v_hist := ts\<rparr>" "lawful gran ts" "mm_reserved (memory ts) = [va \<mapsto> c]"
      "layout (memory ts) ?b c (unat c) ([h][0 := nh]) ([p][0 := p'])"
      and B: "\<forall>j < length [h] * unat c. byte_at (memory ts) (?b + j) = byte_at ?m (?b + j)"
    have "bytes_at (memory ts) (?b + 4 * i) 4 = bytes_at ?m (?b + 4 * i) 4" if "4 * i + 4 \<le> unat c" for i
      using B that by (intro bytes_at_cong) (simp add: add.assoc)
    then have "held gran va c nh p' f w" using N H by (simp add: held_def)
    then show ?thesis using e N(1) by (simp add: runs_def)
  qed
qed

lemma runs_free:
  assumes W: "world gran E" and H: "held gran va c h p f v"
  shows "goes gran E (vbind (CU_CHECK (sp_pe E) (QUnmap va c)) (\<lambda>_. vbind (CU_CHECK (sp_pe E) (QRelease h))
      (\<lambda>_. vbind (CU_CHECK (sp_pe E) (QAddrFree va c)) (\<lambda>_. Pair (Done x))))) v
    (\<lambda>y w. y = x \<and> lawful gran (v_hist w) \<and> nothing_held (memory (v_hist w)))"
proof -
  let ?m = "memory (v_hist v)" and ?env = "sp_pe E"
  note ob = worldD(2) [OF W]
  have l: "layout ?m (unat va) c (unat c) ([] @ [h]) ([] @ [p])" and ptr: "unat va = unat va + length ([] :: u64 list) * unat c"
    using heldD(2) [OF H] by simp_all
  note S = layout_shrink(1) [OF l ptr] and A = shrink_legal [OF l ptr]
  define w1 where "w1 = request1 ?env (QUnmap va c) v"
  define w2 where "w2 = request1 ?env (QRelease h) w1"
  define w3 where "w3 = request1 ?env (QAddrFree va c) w2"
  have m1: "memory (v_hist w1) = effect (QUnmap va c) 0 ?m" by (simp add: w1_def request1_memory)
  have m2: "memory (v_hist w2) = shrunk va c h ?m" by (simp add: w2_def request1_memory m1 shrunk_def)
  have l2: "legal gran (memory (v_hist w1)) (QRelease h)" unfolding m1 by (rule A(2))
  have p: "mm_page (memory (v_hist w2)) y = None" for y
    using layoutD(7) [OF S, of "y - unat va"] layoutD(10) [OF S, of y]
    by (cases "y < unat va \<or> unat va + unat c \<le> y") (auto simp: m2 not_le)
  have l3: "legal gran (memory (v_hist w2)) (QAddrFree va c)"
    using p heldD(3) [OF H] by (simp add: unmapped_def m2 shrunk_def)
  have "lawful gran (v_hist w3)"
    unfolding w3_def request1_lawful
  proof
    show "lawful gran (v_hist w2)" unfolding w2_def request1_lawful using heldD(1) [OF H] A(1) l2
      by (simp add: w1_def request1_lawful del: legal.simps)
  qed (rule l3)
  moreover have "dom (mm_handles (memory (v_hist w2))) = {}" using layoutD(9) [OF S] by (simp add: m2)
  then have "mm_handles (memory (v_hist w2)) = (\<lambda>_. None)" by simp
  then have "nothing_held (memory (v_hist w3))"
    using p heldD(3) [OF H] by (simp add: nothing_held_def w3_def request1_memory fun_eq_iff) (simp add: m2 shrunk_def)
  ultimately show ?thesis
    by (simp add: runs_def vbind_request1 [OF ob A(1)] vbind_request1 [OF ob l2, folded w2_def] vbind_request1 [OF ob l3, folded w3_def]
        w1_def [symmetric] del: legal.simps)
qed

section \<open>The modes\<close>

lemma gran_fits: "world gran E \<Longrightarrow> 2 ^ 26 dvd unat c \<Longrightarrow> unat c mod gran p = 0"
  by (meson worldD(5) dvd_trans dvd_imp_mod_0)

text \<open>
  C30. The mode \<open>vmm\<close> of the probe, on a driver that keeps its documentation and in any order of the
  threads of its kernels: every word it checks is right, in the device's memory, after the move to the
  host, and after a kernel wrote to the host's memory; every access of its kernels is to mapped memory,
  and the driver holds nothing of it at the end. Otherwise new memory was refused.
\<close>

theorem mode_vmm_finds_no_bad_word:
  assumes "world gran E" and "mode_vmm E \<lparr>v_hist = []\<rparr> = (r, v)"
  shows "r = Done [0, 0, 0] \<and> lawful gran (v_hist v) \<and> nothing_held (memory (v_hist v)) \<or> gave_up gran E r v"
proof -
  let ?c = "0x10000000 :: u64" and ?n = "0x4000000 :: nat" and ?v = "\<lparr>v_hist = []\<rparr> :: Proc"
  note W = assms(1)
  have n: "?n * 4 = unat ?c" and n': "unat ?c div 4 = ?n" and c4: "unat ?c div 4 * 4 = unat ?c" "0 < unat ?c" by simp_all
  have g: "unat ?c mod gran p = 0" for p by (rule gran_fits [OF W]) simp
  have query: "goes gran E (CU_CHECK (sp_pe E) (QGranularity p)) x (\<lambda>_ w. memory (v_hist w) = no_mem \<and> lawful gran (v_hist w))"
    if "memory (v_hist x) = no_mem \<and> lawful gran (v_hist x)" for p x
    by (rule runs_refusable) (use that in \<open>simp_all add: request1_memory request1_lawful\<close>)
  have start: "memory (v_hist ?v) = no_mem \<and> lawful gran (v_hist ?v)" by simp
  have reserve: "goes gran E (CU_CHECK (sp_pe E) (QReserve ?c)) x (\<lambda>va. range_at gran va ?c)"
    if "memory (v_hist x) = no_mem \<and> lawful gran (v_hist x)" for x
    by (rule runs_reserve [OF W]) (use that in simp_all)
  note measure = runs_measured [OF W _ c4, unfolded n'] and move = runs_move [OF W _ g] and fill = runs_launch_fill [OF W _ n]
    and backed = runs_back_range [OF W _ g] and sync = runs_sync [OF W] and verify = runs_verify [OF W _ n]
  have "goes gran E (mode_vmm E) ?v (\<lambda>bs w. bs = [0, 0, 0] \<and> lawful gran (v_hist w) \<and> nothing_held (memory (v_hist w)))"
    unfolding mode_vmm_def Let_def
  proof (rule runs_bind [OF query [OF start]], rule runs_bind [OF query], assumption, rule runs_bind [OF reserve], assumption,
      rule runs_bind [OF backed], assumption, rule runs_bind [OF fill], erule disjI2, rule runs_bind [OF sync], assumption,
      rule runs_bind [OF measure], assumption, elim conjE, rule runs_bind [OF move], assumption,
      rule runs_bind [OF measure], assumption, elim conjE, rule runs_bind [OF fill], erule disjI1,
      rule runs_bind [OF sync], assumption, rule runs_bind [OF verify], assumption, elim conjE)
    fix va hh b1 b2 b3 :: u64 and w :: Proc
    assume b: "b1 = 0" "b2 = 0" "b3 = 0" and "held gran va ?c hh (sp_prop E True) (filled ?n 9) w"
    from runs_free [OF W this(4), of "[b1, b2, b3]"] b
    show "goes gran E (vbind (CU_CHECK (sp_pe E) (QUnmap va ?c)) (\<lambda>_. vbind (CU_CHECK (sp_pe E) (QRelease hh))
        (\<lambda>_. vbind (CU_CHECK (sp_pe E) (QAddrFree va ?c)) (\<lambda>_. Pair (Done [b1, b2, b3]))))) w
      (\<lambda>bs w. bs = [0, 0, 0] \<and> lawful gran (v_hist w) \<and> nothing_held (memory (v_hist w)))" by simp
  qed
  from goes_result [OF this assms(2)] show ?thesis by auto
qed

definition demo_probe :: SpEnv where
  "demo_probe =
     \<lparr>sp_pe = demo_driver, sp_rt = (\<lambda>_. True), sp_order = (\<lambda>_ n. concat (grid_steps n)),
      sp_walks = (\<lambda>_ n s. concat (grid_walks n s)), sp_numa = -1\<rparr>"

lemma demo_world: "world demo_gran demo_probe"
proof -
  have "(2 :: nat) ^ 21 dvd 2 ^ 26" by (rule le_imp_power_dvd) simp
  then show ?thesis
    by (simp add: world_def demo_probe_def pages_documented demo_obliging one_after_the_other demo_gran_def)
qed

theorem mode_vmm_finds_no_bad_word_witness:
  "case mode_vmm demo_probe \<lparr>v_hist = []\<rparr> of (r, v) \<Rightarrow> (\<exists>e. r = Quits e) \<or> r = Done [0, 0, 0] \<and> nothing_held (memory (v_hist v))"
proof -
  obtain r v where e: "mode_vmm demo_probe \<lparr>v_hist = []\<rparr> = (r, v)" by fastforce
  show ?thesis using mode_vmm_finds_no_bad_word [OF demo_world e] unfolding e by (auto simp: gave_up_def out_of_memory_def)
qed

lemma runs_busy_round:
  assumes W: "world gran E" and H: "held gran va c h (sp_prop E False) (filled (unat c div 4) 21) v" and c: "2 ^ 26 dvd unat c" "0 < unat c"
  shows "goes gran E (busy_round E va c h) v
    (\<lambda>(b, h) w. b = 0 \<and> held gran va c h (sp_prop E False) (filled (unat c div 4) 21) w)"
  unfolding busy_round_def
proof -
  have g: "unat c mod gran p = 0" for p by (rule gran_fits [OF W c(1)])
  have "(4 :: nat) dvd 2 ^ 26" by simp
  then have n: "unat c div 4 * 4 = unat c" using c(1) by (intro dvd_div_mult_self) (rule dvd_trans)
  note move = runs_move [OF W _ g]
  show "goes gran E (vbind (move_backing (sp_pe E) va c h (sp_prop E True)) (\<lambda>hh. vbind (verify E va (unat c div 4) 21)
      (\<lambda>bad. vbind (move_backing (sp_pe E) va c hh (sp_prop E False)) (\<lambda>hdl. Pair (Done (bad, hdl)))))) v
    (\<lambda>(b, h) w. b = 0 \<and> held gran va c h (sp_prop E False) (filled (unat c div 4) 21) w)"
    by (rule runs_bind [OF move [OF H]], rule runs_bind [OF runs_verify [OF W _ n]], assumption, elim conjE,
        rule runs_bind [OF move], assumption, rule runs_Done) simp
qed

text \<open>The mode \<open>remapbusy\<close>: the four moves keep the buffer, which is then on the device again.\<close>

lemma mode_remapbusy_finds_no_bad_word:
  assumes "world gran E" and "mode_remapbusy E \<lparr>v_hist = []\<rparr> = (r, v)"
  shows "(\<exists>va h. r = Done [0, 0] \<and> held gran va 0x4000000 h (sp_prop E False) (filled 0x1000000 21) v) \<or> gave_up gran E r v"
proof -
  let ?c = "0x4000000 :: u64" and ?v = "\<lparr>v_hist = []\<rparr> :: Proc"
  note W = assms(1)
  have n: "unat ?c div 4 * 4 = unat ?c" and n': "unat ?c div 4 = 0x1000000" and d: "2 ^ 26 dvd unat ?c" and c0: "0 < unat ?c" by simp_all
  have g: "unat ?c mod gran p = 0" for p by (rule gran_fits [OF W d])
  have law: "lawful gran (v_hist ?v)" by simp
  have reserve: "goes gran E (CU_CHECK (sp_pe E) (QReserve ?c)) ?v (\<lambda>va. range_at gran va ?c)"
    by (rule runs_reserve [OF W]) simp_all
  note backed = runs_back_range [OF W _ g] and fill = runs_launch_fill [OF W _ n] and sync = runs_sync [OF W]
    and busy = runs_busy_round [OF W _ d c0]
  have "goes gran E (mode_remapbusy E) ?v (\<lambda>bs w. \<exists>va h. bs = [0, 0] \<and> held gran va ?c h (sp_prop E False) (filled (unat ?c div 4) 21) w)"
    unfolding mode_remapbusy_def Let_def
  proof (rule runs_bind [OF runs_alloc [OF law]], hypsubst, rule runs_bind [OF runs_alloc [OF law]], hypsubst,
      rule runs_bind [OF runs_alloc [OF law]], hypsubst, rule runs_bind [OF reserve],
      rule runs_bind [OF backed], assumption, rule runs_bind [OF fill], erule disjI2, rule runs_bind [OF sync], assumption,
      rule runs_bind [OF busy], assumption, clarify, rule runs_bind [OF busy], assumption, clarify)
  qed (auto intro!: runs_Done)
  from goes_result [OF this assms(2)] show ?thesis unfolding n' by auto
qed

end
