(* ===== verification/Remap_Test.thy ===== *)
theory Remap_Test
  imports Remap_Client Vector_Kernel Runs
begin

text \<open>
  The test program of the remapping vector (\<open>experiments/VMMRemapShared/remap_test.cu\<close>): a kernel doubles
  the elements, all chunks move to the host and back, and the kernel runs again. Start-up of the driver,
  arguments, printing and clocks are left out.
\<close>

section \<open>The program\<close>













section \<open>The steps\<close>





lemma runs_vassert: "c \<Longrightarrow> P v \<Longrightarrow> runs B (vassert label c) v (\<lambda>_. P)"
  by (simp add: runs_def vassert_def)







section \<open>The outcome\<close>







end
