(* ===== verification/Vec_Add.thy ===== *)
theory Vec_Add
  imports Grid Prelude
begin

text \<open>
  The two vector additions (\<open>experiments/warmups/vecAdd/manual.cu\<close> and \<open>uvm.cu\<close>): the kernel in any order
  of its threads, and the host code around it, which checks none of its calls. Arrays are functions of
  the index; a pointer that an allocation left null is \<open>None\<close>, and following it on the host ends the
  program (\<open>None\<close> as a result).
\<close>

section \<open>The world\<close>

text \<open>
  \<open>va_ok\<close>: whether the allocation, copy or launch of that number succeeds; \<open>va_fresh\<close>: what its memory
  holds; \<open>va_time\<close>: the second in which an array is filled; \<open>va_rand\<close>: the numbers of \<open>rand\<close> after \<open>srand\<close>;
  \<open>va_near\<close>: that the absolute difference is not above the tolerance.
\<close>

type_synonym 'a buf = "int \<Rightarrow> 'a"

record 'a VaWorld =
  va_ok :: "nat \<Rightarrow> bool"
  va_fresh :: "nat \<Rightarrow> 'a buf"
  va_time :: "nat \<Rightarrow> nat"
  va_rand :: "nat \<Rightarrow> 'a buf"
  va_add :: "'a \<Rightarrow> 'a \<Rightarrow> 'a"
  va_zero :: 'a
  va_near :: "'a \<Rightarrow> 'a \<Rightarrow> bool"
  va_order :: "nat \<Rightarrow> (nat \<times> nat) list"

section \<open>The kernel\<close>

definition work_index :: "nat \<times> nat \<Rightarrow> int" where
  "work_index t = sint (of_nat (snd t) + of_nat (fst t) * 256 :: 32 word)"

definition vec_add_thread :: "'a VaWorld \<Rightarrow> int \<Rightarrow> 'a buf \<Rightarrow> 'a buf \<Rightarrow> nat \<times> nat \<Rightarrow> 'a buf \<Rightarrow> 'a buf" where
  "vec_add_thread w n a b t c = (let i = work_index t in if i < n then c(i := va_add w (a i) (b i)) else c)"

definition vec_add :: "'a VaWorld \<Rightarrow> int \<Rightarrow> nat \<Rightarrow> 'a buf \<Rightarrow> 'a buf \<Rightarrow> 'a buf \<Rightarrow> 'a buf" where
  "vec_add w n blocks a b c = fold (vec_add_thread w n a b) (va_order w blocks) c"

text \<open>
  The launch is call \<open>k\<close>; a grid without blocks is an error. A kernel that follows a null pointer leaves
  the device unusable, which is the second result.
\<close>

definition launch_add :: "'a VaWorld \<Rightarrow> nat \<Rightarrow> int \<Rightarrow> 'a buf option \<Rightarrow> 'a buf option \<Rightarrow> 'a buf option \<Rightarrow> 'a buf option \<times> bool" where
  "launch_add w k n a b c =
     (let blocks = nat ((n + 255) div 256)
      in if va_ok w k \<and> blocks \<noteq> 0
         then (case (a, b, c) of (Some a, Some b, Some c) \<Rightarrow> (Some (vec_add w n blocks a b c), False) | _ \<Rightarrow> (c, True))
         else (c, False))"

section \<open>The host\<close>

text \<open>Writing \<open>n\<close> elements from index 0, where the pointer is not null.\<close>

definition store_all :: "int \<Rightarrow> 'a buf \<Rightarrow> 'a buf option \<Rightarrow> 'a buf option option" where
  "store_all n f p =
     (case p of Some a \<Rightarrow> Some (Some (\<lambda>i. if 0 \<le> i \<and> i < n then f i else a i)) | None \<Rightarrow> if 0 < n then None else Some None)"

definition init_array :: "'a VaWorld \<Rightarrow> nat \<Rightarrow> int \<Rightarrow> 'a buf option \<Rightarrow> 'a buf option option" where
  "init_array w k n = store_all n (va_rand w (va_time w k))"

definition serial_add :: "'a VaWorld \<Rightarrow> int \<Rightarrow> 'a buf option \<Rightarrow> 'a buf option \<Rightarrow> 'a buf option \<Rightarrow> 'a buf option option" where
  "serial_add w n a b p =
     (case (a, b) of (Some a, Some b) \<Rightarrow> store_all n (\<lambda>i. va_add w (a i) (b i)) p | _ \<Rightarrow> if 0 < n then None else Some p)"

definition approximately_equal :: "'a VaWorld \<Rightarrow> int \<Rightarrow> 'a buf option \<Rightarrow> 'a buf option \<Rightarrow> bool option" where
  "approximately_equal w n p q =
     (case (p, q) of
        (Some a, Some b) \<Rightarrow> Some (list_all (\<lambda>i. va_near w (a i) (b i)) [0..n - 1])
      | _ \<Rightarrow> if 0 < n then None else Some True)"

text \<open>Calls of the runtime: an allocation, a copy of \<open>n\<close> elements, and \<open>cudaMemset\<close> with 0.\<close>

definition va_alloc :: "'a VaWorld \<Rightarrow> nat \<Rightarrow> 'a buf option" where
  "va_alloc w k = (if va_ok w k then Some (va_fresh w k) else None)"

definition va_copy :: "bool \<Rightarrow> int \<Rightarrow> 'a buf option \<Rightarrow> 'a buf option \<Rightarrow> 'a buf option" where
  "va_copy ok n dst src =
     (case (dst, src) of
        (Some d, Some s) \<Rightarrow> Some (\<lambda>i. if ok \<and> 0 \<le> i \<and> i < n then s i else d i)
      | _ \<Rightarrow> dst)"

definition va_clear :: "'a VaWorld \<Rightarrow> nat \<Rightarrow> int \<Rightarrow> 'a buf option \<Rightarrow> 'a buf option" where
  "va_clear w k n p = map_option (\<lambda>d i. if va_ok w k \<and> 0 \<le> i \<and> i < n then va_zero w else d i) p"

text \<open>\<open>explicitMemExample\<close>, with the verdict it prints. Call 0 is the \<open>malloc\<close> of the reference result.\<close>

definition explicit_mem :: "'a VaWorld \<Rightarrow> int \<Rightarrow> bool option" where
  "explicit_mem w n =
     Option.bind (init_array w 0 n (va_alloc w 1)) (\<lambda>a.
     Option.bind (init_array w 1 n (va_alloc w 2)) (\<lambda>b.
       let dev_a = va_copy (va_ok w 7) n (va_alloc w 4) a;
           dev_b = va_copy (va_ok w 8) n (va_alloc w 5) b;
           dev_c = va_clear w 9 n (va_alloc w 6);
           (dev_c, dead) = launch_add w 10 n dev_a dev_b dev_c;
           c = va_copy (va_ok w 12 \<and> \<not> dead) n (va_alloc w 3) dev_c
       in Option.bind (serial_add w n a b (va_alloc w 0)) (\<lambda>r. approximately_equal w n c r)))"

text \<open>\<open>unifiedMemExample\<close>, with the three arrays at its end; prefetching changes no contents.\<close>

definition unified_mem :: "'a VaWorld \<Rightarrow> int \<Rightarrow> ('a buf option \<times> 'a buf option \<times> 'a buf option) option" where
  "unified_mem w n =
     Option.bind (init_array w 0 n (va_alloc w 1)) (\<lambda>a.
     Option.bind (init_array w 1 n (va_alloc w 2)) (\<lambda>b.
       Some (a, b, fst (launch_add w 4 n a b (va_alloc w 3)))))"

section \<open>The kernel adds\<close>

lemma work_index_flat:
  assumes "flat t < 2 ^ 31"
  shows "work_index t = int (flat t)"
proof -
  have "(of_nat (snd t) + of_nat (fst t) * 256 :: 32 word) = of_nat (flat t)" by (simp add: flat_def)
  then have "work_index t = sint (of_nat (flat t) :: 32 word)" by (simp only: work_index_def)
  also have "\<dots> = int (flat t)" using assms by (simp add: signed_of_nat signed_take_bit_int_eq_self)
  finally show ?thesis .
qed

lemma fold_add:
  assumes "\<forall>t \<in> set ts. 0 \<le> work_index t"
  shows "fold (vec_add_thread w n a b) ts c i = (if i < n \<and> i \<in> work_index ` set ts then va_add w (a i) (b i) else c i)"
  using assms
proof (induction ts arbitrary: c)
  case (Cons t ts)
  then show ?case by (auto simp: vec_add_thread_def Let_def)
qed simp

text \<open>All elements below \<open>n\<close> are added, and nothing else is written.\<close>

lemma vec_add_all:
  assumes or: "any_order (va_order w)" and n: "0 \<le> n" "n < 2 ^ 31"
  shows "vec_add w n (nat ((n + 255) div 256)) a b c i = (if 0 \<le> i \<and> i < n then va_add w (a i) (b i) else c i)"
proof -
  let ?k = "nat ((n + 255) div 256)"
  have "0 \<le> (n + 255) div 256" using n(1) by simp
  then have "int ?k * 256 = n + 255 - (n + 255) mod 256" by (simp add: minus_mod_eq_div_mult)
  moreover have "0 \<le> (n + 255) mod 256" "(n + 255) mod 256 < 256" by simp_all
  ultimately have k: "int ?k * 256 \<le> n + 255" "n \<le> int ?k * 256" by linarith+
  have "int ?k * 256 < int (2 ^ 23 + 1) * 256" using k(1) n(2) by simp
  then have "int ?k < int (2 ^ 23 + 1)" by (simp only: mult_less_cancel_right_pos)
  then have "?k < 2 ^ 23 + 1" by (simp only: of_nat_less_iff)
  then have small: "?k * 256 \<le> 2 ^ 31" by simp
  have idx: "work_index t = int (flat t)" if "t \<in> set (va_order w ?k)" for t
  proof (rule work_index_flat)
    show "flat t < 2 ^ 31" using flat_less [OF or that] small by (rule less_le_trans)
  qed
  have "work_index ` set (va_order w ?k) = int ` {..<?k * 256}"
    unfolding grid_covers_once(2) [OF or, symmetric] image_image using idx by (rule image_cong [OF refl])
  moreover have "i \<in> int ` {..<?k * 256} \<longleftrightarrow> 0 \<le> i" if "i < n"
  proof
    assume "0 \<le> i"
    then have "i = int (nat i)" "nat i < ?k * 256" using that k(2) by linarith+
    then show "i \<in> int ` {..<?k * 256}" by blast
  qed auto
  ultimately show ?thesis unfolding vec_add_def using idx by (subst fold_add) auto
qed

text \<open>
  If every call succeeds, \<open>manual.cu\<close> prints that the answers match and \<open>uvm.cu\<close> leaves the sums in
  its third array, in whatever order the threads run and whatever the arrays hold; with a length of 0
  \<open>manual.cu\<close> prints so even if every call fails.
\<close>

theorem vec_add_matches:
  assumes "any_order (va_order w)" and "0 \<le> n" and "n < 2 ^ 31" and "\<forall>x y. va_near w (va_add w x y) (va_add w x y)"
  shows "((\<forall>k. va_ok w k) \<or> n = 0 \<longrightarrow> explicit_mem w n = Some True) \<and>
    ((\<forall>k. va_ok w k) \<longrightarrow>
       (\<exists>a b c. unified_mem w n = Some (Some a, Some b, Some c) \<and>
          (\<forall>i. 0 \<le> i \<and> i < n \<longrightarrow> a i = va_rand w (va_time w 0) i \<and> b i = va_rand w (va_time w 1) i \<and> c i = va_add w (a i) (b i)) \<and>
          (\<forall>i. \<not> (0 \<le> i \<and> i < n) \<longrightarrow> c i = va_fresh w 3 i)))"
proof -
  note V = vec_add_all [OF assms(1-3)]
  have L: "launch_add w k n (Some a) (Some b) (Some c) = (Some (\<lambda>i. if 0 \<le> i \<and> i < n then va_add w (a i) (b i) else c i), False)"
    if "va_ok w k" for k a b c
  proof (cases "nat ((n + 255) div 256) = 0")
    case True
    then have "n \<le> 0" using assms(2) by linarith
    then have "(\<lambda>i. if 0 \<le> i \<and> i < n then va_add w (a i) (b i) else c i) = c" by (intro ext) (meson linorder_not_less order_trans)
    then show ?thesis using True by (simp add: launch_add_def)
  next
    case False
    have "vec_add w n (nat ((n + 255) div 256)) a b c = (\<lambda>i. if 0 \<le> i \<and> i < n then va_add w (a i) (b i) else c i)"
      using V by (rule ext)
    then show ?thesis using False that by (simp add: launch_add_def)
  qed
  have "explicit_mem w n = Some True" if "\<forall>k. va_ok w k"
    using that assms(4)
    by (simp add: explicit_mem_def init_array_def store_all_def va_alloc_def va_copy_def va_clear_def serial_add_def
        approximately_equal_def L list_all_iff)
  moreover have "explicit_mem w n = Some True" if "n = 0"
    using that
    by (auto simp: explicit_mem_def init_array_def store_all_def serial_add_def approximately_equal_def launch_add_def split: option.splits)
  moreover
  define a where "a = (\<lambda>i. if 0 \<le> i \<and> i < n then va_rand w (va_time w 0) i else va_fresh w 1 i)"
  define b where "b = (\<lambda>i. if 0 \<le> i \<and> i < n then va_rand w (va_time w 1) i else va_fresh w 2 i)"
  have "unified_mem w n = Some (Some a, Some b, Some (\<lambda>i. if 0 \<le> i \<and> i < n then va_add w (a i) (b i) else va_fresh w 3 i))"
    if "\<forall>k. va_ok w k"
    using that by (simp add: unified_mem_def init_array_def store_all_def va_alloc_def a_def [symmetric] b_def [symmetric] L del: One_nat_def)
  moreover have "a i = va_rand w (va_time w 0) i \<and> b i = va_rand w (va_time w 1) i" if "0 \<le> i" "i < n" for i
    using that by (simp add: a_def b_def)
  ultimately show ?thesis by auto
qed

text \<open>
  Both programs call \<open>srand\<close> with the time in seconds for each array: filled in the same second, the two
  hold the same numbers, and the comparison would not notice a kernel that adds an element to itself.
\<close>

lemma same_second_same_numbers:
  assumes "va_time w 0 = va_time w 1" and "\<forall>k. va_ok w k" and "unified_mem w n = Some (Some a, Some b, c)" and "0 \<le> i" and "i < n"
  shows "a i = b i"
  using assms by (auto simp: unified_mem_def init_array_def store_all_def va_alloc_def)

definition demo_add :: "nat VaWorld" where
  "demo_add =
     \<lparr>va_ok = (\<lambda>_. True), va_fresh = (\<lambda>_ _. 7), va_time = (\<lambda>k. k), va_rand = (\<lambda>s i. s + nat i), va_add = (+), va_zero = 0,
      va_near = (=), va_order = row_order\<rparr>"

theorem vec_add_matches_witness: "explicit_mem demo_add 1024 = Some True"
  using vec_add_matches [of demo_add 1024] by (simp add: demo_add_def row_order_any)

end
