(* ===== verification/Signals.thy ===== *)
theory Signals
  imports Pattern
begin

unbundle bit_operations_syntax

text \<open>
  Finding changed blocks of memory by their hashes (\<open>experiments/lookups/2B/signals.cu\<close>, mode \<open>hash\<close>): the
  kernel that hashes each block with one block of 512 threads, and the probe that compares the hashes
  before and after two writes. The mode that only times kernels, the clocks and the printing are left out.
\<close>

section \<open>The kernel\<close>

text \<open>What word \<open>i\<close> of a block contributes.\<close>

definition mixed :: "nat \<Rightarrow> u64 \<Rightarrow> u64" where
  "mixed i w =
     (let v = (w XOR (of_nat i * 0x9E3779B97F4A7C15)) * 0xff51afd7ed558ccd in v XOR drop_bit 33 v)"

text \<open>The sum of a thread, over the words it strides through.\<close>

definition thread_hash :: "nat \<Rightarrow> (nat \<Rightarrow> u64) \<Rightarrow> nat \<Rightarrow> u64" where
  "thread_hash n b t = fold (\<lambda>i h. h + mixed i (b i)) (strided t 512 n) 0"

text \<open>
  \<open>__shfl_down_sync\<close> gives every lane the value of the lane \<open>d\<close> above, or its own where there is none. All
  lanes of a warp add what they get, with 16, 8, 4, 2 and 1.
\<close>

definition shfl_down :: "nat \<Rightarrow> (nat \<Rightarrow> u64) \<Rightarrow> nat \<Rightarrow> u64" where
  "shfl_down d h l = (if l + d < 32 then h (l + d) else h l)"

definition warp_step :: "nat \<Rightarrow> (nat \<Rightarrow> u64) \<Rightarrow> nat \<Rightarrow> u64" where
  "warp_step d h l = h l + shfl_down d h l"

definition warp_sum :: "(nat \<Rightarrow> u64) \<Rightarrow> u64" where
  "warp_sum h = fold warp_step [16, 8, 4, 2, 1] h 0"

text \<open>Thread 0 adds what the first lanes of the 16 warps have stored in shared memory.\<close>

definition hash_block :: "nat \<Rightarrow> (nat \<Rightarrow> u64) \<Rightarrow> u64" where
  "hash_block n b =
     (let s = (\<lambda>w. warp_sum (\<lambda>l. thread_hash n b (32 * w + l)))
      in fold (\<lambda>w t. t + s w) [0..<512 div 32] 0)"

definition hash_blocks :: "nat \<Rightarrow> nat \<Rightarrow> (nat \<Rightarrow> u64) \<Rightarrow> u64 list" where
  "hash_blocks blocks n p = map (\<lambda>k. hash_block n (\<lambda>i. p (k * n + i))) [0..<blocks]"

section \<open>The probe\<close>

text \<open>Memory by bytes, and a word of it.\<close>

definition load_bytes :: "8 word list \<Rightarrow> nat" where
  "load_bytes bs = foldr (\<lambda>b a. unat b + 256 * a) bs 0"

definition load_word :: "(nat \<Rightarrow> 8 word) \<Rightarrow> nat \<Rightarrow> u64" where
  "load_word m i = of_nat (load_bytes (map m [8 * i..<8 * i + 8]))"

text \<open>The blocks whose hashes differ.\<close>

definition changed_blocks :: "u64 list \<Rightarrow> u64 list \<Rightarrow> nat list" where
  "changed_blocks as bs = filter (\<lambda>k. as ! k \<noteq> bs ! k) [0..<length as]"

text \<open>512 blocks of 2 MiB; a byte is written in block 137, and the last byte of block 400.\<close>

definition mode_hash :: "(nat \<Rightarrow> 8 word) \<Rightarrow> nat list" where
  "mode_hash fresh =
     (let size = 2 ^ 21; blocks = 512; n = size div 8;
          m = (\<lambda>a. if a < size * blocks then 0x5a else fresh a);
          h0 = hash_blocks blocks n (load_word m);
          m' = m(137 * size + 12345 := 0x5b, 400 * size + size - 1 := 0x5b);
          h1 = hash_blocks blocks n (load_word m')
      in changed_blocks h0 h1)"

section \<open>The reduction\<close>

lemma warp_step_sum:
  assumes "2 * d \<le> 32"
  shows "(\<Sum>l<d. warp_step d h l) = (\<Sum>l<2 * d. h l)"
proof -
  have "(\<Sum>l<d. warp_step d h l) = (\<Sum>l<d. h l) + (\<Sum>l<d. h (l + d))"
    using assms by (simp add: warp_step_def shfl_down_def sum.distrib)
  also have "(\<Sum>l<d. h (l + d)) = (\<Sum>l\<in>{d..<d + d}. h l)"
    using sum.shift_bounds_nat_ivl [of h 0 d d] by (simp add: lessThan_atLeast0)
  also have "(\<Sum>l<d. h l) + \<dots> = (\<Sum>l<2 * d. h l)"
    by (simp add: lessThan_atLeast0 sum.atLeastLessThan_concat mult_2)
  finally show ?thesis .
qed

lemma warp_sum_all: "warp_sum h = (\<Sum>l<32. h l)"
proof -
  have "warp_sum h = (\<Sum>l<1. warp_step 1 (warp_step 2 (warp_step 4 (warp_step 8 (warp_step 16 h)))) l)"
    by (simp add: warp_sum_def)
  also have "\<dots> = (\<Sum>l<2 * 1. warp_step 2 (warp_step 4 (warp_step 8 (warp_step 16 h))) l)" by (rule warp_step_sum) simp
  also have "(2 * 1 :: nat) = 2" by simp
  also have "(\<Sum>l<2. warp_step 2 (warp_step 4 (warp_step 8 (warp_step 16 h))) l) =
      (\<Sum>l<2 * 2. warp_step 4 (warp_step 8 (warp_step 16 h)) l)" by (rule warp_step_sum) simp
  also have "(2 * 2 :: nat) = 4" by simp
  also have "(\<Sum>l<4. warp_step 4 (warp_step 8 (warp_step 16 h)) l) = (\<Sum>l<2 * 4. warp_step 8 (warp_step 16 h) l)"
    by (rule warp_step_sum) simp
  also have "(2 * 4 :: nat) = 8" by simp
  also have "(\<Sum>l<8. warp_step 8 (warp_step 16 h) l) = (\<Sum>l<2 * 8. warp_step 16 h l)" by (rule warp_step_sum) simp
  also have "(2 * 8 :: nat) = 16" by simp
  also have "(\<Sum>l<16. warp_step 16 h l) = (\<Sum>l<2 * 16. h l)" by (rule warp_step_sum) simp
  finally show ?thesis by simp
qed

lemma fold_plus: "fold (\<lambda>x h. h + f x) xs (a :: u64) = a + sum_list (map f xs)"
  by (induction xs arbitrary: a) (simp_all add: add.assoc)

lemma thread_hash_sum: "thread_hash n b t = (\<Sum>i | t \<le> i \<and> i < n \<and> i mod 512 = t mod 512. mixed i (b i))"
proof -
  have S: "set (strided t 512 n) = {j. t \<le> j \<and> j < n \<and> j mod 512 = t mod 512}" and "sorted_wrt (<) (strided t 512 n)"
    using strided_mod [of 512 t n] by simp_all
  then have "distinct (strided t 512 n)" using strict_sorted_iff by blast
  then show ?thesis by (simp add: thread_hash_def fold_plus sum_list_distinct_conv_sum_set S)
qed

text \<open>The hash of a block is the sum over its words.\<close>

lemma hash_block_sum: "hash_block n b = (\<Sum>i<n. mixed i (b i))"
proof -
  let ?f = "\<lambda>i. mixed i (b i)"
  have "hash_block n b = (\<Sum>w<16. \<Sum>l<32. thread_hash n b (32 * w + l))"
    by (simp add: hash_block_def fold_plus warp_sum_all interv_sum_list_conv_sum_set_nat lessThan_atLeast0)
  also have "\<dots> = (\<Sum>t<512. thread_hash n b t)"
  proof -
    have "(\<Sum>t<16 * 32. thread_hash n b t) = (\<Sum>w<16. \<Sum>l<32. thread_hash n b (32 * w + l))"
    proof -
      have "(\<Sum>t\<in>{w * 32..<w * 32 + 32}. thread_hash n b t) = (\<Sum>l<32. thread_hash n b (32 * w + l))" for w
        using sum.shift_bounds_nat_ivl [of "thread_hash n b" 0 "w * 32" 32]
        by (simp add: lessThan_atLeast0 mult.commute add.commute)
      then show ?thesis by (simp only: sum.nat_group [symmetric])
    qed
    then show ?thesis by simp
  qed
  also have "\<dots> = (\<Sum>t<512. \<Sum>i | i \<in> {..<n} \<and> i mod 512 = t. ?f i)"
  proof (rule sum.cong [OF refl])
    fix t :: nat assume "t \<in> {..<512}"
    then have "{i. t \<le> i \<and> i < n \<and> i mod 512 = t mod 512} = {i \<in> {..<n}. i mod 512 = t}"
      by (auto intro: mod_less_eq_dividend)
    then show "thread_hash n b t = (\<Sum>i | i \<in> {..<n} \<and> i mod 512 = t. ?f i)" by (simp add: thread_hash_sum)
  qed
  also have "\<dots> = (\<Sum>i<n. ?f i)" by (rule sum.group) auto
  finally show ?thesis .
qed

section \<open>Changes\<close>

lemma mixed_inj: "mixed i x = mixed i y \<longleftrightarrow> x = y"
proof
  assume e: "mixed i x = mixed i y"
  define c where "c = (of_nat i * 0x9E3779B97F4A7C15 :: u64)"
  let ?m = "\<lambda>w. (w XOR c) * (0xff51afd7ed558ccd :: u64)"
  define f where "f = (\<lambda>v :: u64. v XOR drop_bit 33 v)"
  have twice: "f (f v) = v" for v
  proof -
    have "drop_bit 66 v = 0" by (rule bit_eqI) (auto simp: bit_drop_bit_eq dest: bit_imp_le_length)
    then show ?thesis by (simp add: f_def xor.assoc)
  qed
  have "f (?m x) = f (?m y)" using e by (simp add: mixed_def c_def f_def Let_def)
  then have "?m x = ?m y" using twice by metis
  then have "?m x * 0x4f74430c22a54005 = ?m y * 0x4f74430c22a54005" by simp
  moreover have "(0xff51afd7ed558ccd * 0x4f74430c22a54005 :: u64) = 1" by simp
  ultimately have "x XOR c = y XOR c" by (simp only: mult.assoc mult_1_right)
  then have "(x XOR c) XOR c = (y XOR c) XOR c" by simp
  then show "x = y" by (simp add: xor.assoc)
qed simp

text \<open>Two versions of a block that differ in one word at most have the same hash only if they are equal.\<close>

lemma one_word_changes_hash:
  assumes one: "\<And>i j. i < n \<Longrightarrow> j < n \<Longrightarrow> b i \<noteq> c i \<Longrightarrow> b j \<noteq> c j \<Longrightarrow> i = j"
  shows "hash_block n b \<noteq> hash_block n c \<longleftrightarrow> (\<exists>i < n. b i \<noteq> c i)"
proof (cases "\<exists>i < n. b i \<noteq> c i")
  case True
  then obtain i where i: "i < n" "b i \<noteq> c i" by blast
  have "(\<Sum>j\<in>{..<n} - {i}. mixed j (b j)) = (\<Sum>j\<in>{..<n} - {i}. mixed j (c j))"
  proof (rule sum.cong [OF refl])
    fix j assume "j \<in> {..<n} - {i}"
    then have "b j = c j" using one [OF i(1) _ i(2)] by blast
    then show "mixed j (b j) = mixed j (c j)" by simp
  qed
  then have "hash_block n b = hash_block n c \<longleftrightarrow> mixed i (b i) = mixed i (c i)"
    using i(1) sum.remove [of "{..<n}" i "\<lambda>j. mixed j (b j)"] sum.remove [of "{..<n}" i "\<lambda>j. mixed j (c j)"]
    by (simp add: hash_block_sum)
  then show ?thesis using i mixed_inj by auto
next
  case False
  then have "hash_block n b = hash_block n c" by (simp add: hash_block_sum)
  then show ?thesis using False by blast
qed

text \<open>
  With two changed words a change can go unnoticed: whatever is written to one word, there is a value for
  another that restores the hash.
\<close>

lemma two_words_can_hide:
  assumes "i < n" and "j < n" and "i \<noteq> j"
  shows "\<exists>y. hash_block n (b(i := x, j := y)) = hash_block n b"
proof -
  have "inj (mixed j)" using mixed_inj by (intro injI) blast
  then have "surj (mixed j)" by (rule finite_UNIV_inj_surj [OF finite])
  then obtain y where y: "mixed j y = mixed i (b i) + mixed j (b j) - mixed i x" by (metis surjD)
  let ?c = "b(i := x, j := y)" and ?r = "{..<n} - {i} - {j}"
  have two: "(\<Sum>k<n. mixed k (f k)) = mixed i (f i) + (mixed j (f j) + (\<Sum>k\<in>?r. mixed k (f k)))" for f
    using assms sum.remove [of "{..<n}" i "\<lambda>k. mixed k (f k)"] sum.remove [of "{..<n} - {i}" j "\<lambda>k. mixed k (f k)"] by simp
  have "(\<Sum>k\<in>?r. mixed k (?c k)) = (\<Sum>k\<in>?r. mixed k (b k))" by (intro sum.cong) auto
  then have "hash_block n ?c = hash_block n b" using assms(3) y by (simp add: hash_block_sum two)
  then show ?thesis ..
qed

text \<open>
  C37. If no block has more than one changed word, the blocks whose hashes differ are exactly the changed
  ones: the kernel's reductions add up every word of a block once, and a single changed word always
  changes the sum.
\<close>

theorem hashes_find_changed_blocks:
  assumes "\<And>k i j. k < blocks \<Longrightarrow> i < n \<Longrightarrow> j < n \<Longrightarrow> p (k * n + i) \<noteq> q (k * n + i) \<Longrightarrow> p (k * n + j) \<noteq> q (k * n + j) \<Longrightarrow> i = j"
  shows "changed_blocks (hash_blocks blocks n p) (hash_blocks blocks n q) =
    filter (\<lambda>k. \<exists>i < n. p (k * n + i) \<noteq> q (k * n + i)) [0..<blocks]"
proof -
  have "hash_block n (\<lambda>i. p (k * n + i)) \<noteq> hash_block n (\<lambda>i. q (k * n + i)) \<longleftrightarrow> (\<exists>i < n. p (k * n + i) \<noteq> q (k * n + i))"
    if "k < blocks" for k
    using assms [OF that] by (intro one_word_changes_hash) blast
  then show ?thesis unfolding changed_blocks_def by (intro filter_cong) (simp_all add: hash_blocks_def)
qed

lemma load_bytes_bound: "load_bytes bs < 256 ^ length bs"
proof (induction bs)
  case (Cons b bs)
  have "unat b < 256" using unsigned_less [of b, where ?'a = nat] by simp
  then show ?case using Cons by (simp add: load_bytes_def)
qed (simp add: load_bytes_def)

lemma digit: "x < 256 \<Longrightarrow> y < 256 \<Longrightarrow> x + 256 * p = y + 256 * q \<longleftrightarrow> x = y \<and> p = q" for p q x y :: nat
proof -
  assume x: "x < 256" and y: "y < 256"
  have "x = y \<and> p = q" if e: "x + 256 * p = y + 256 * q"
  proof -
    have "(x + 256 * p) mod 256 = x" "(y + 256 * q) mod 256 = y" using x y by simp_all
    then show ?thesis using e by simp
  qed
  then show ?thesis by blast
qed

lemma load_bytes_inj: "length as = length bs \<Longrightarrow> load_bytes as = load_bytes bs \<longleftrightarrow> as = bs"
proof (induction as bs rule: list_induct2)
  case (Cons a as b bs)
  have "unat a < 256" "unat b < 256" using unsigned_less [of a, where ?'a = nat] unsigned_less [of b, where ?'a = nat] by simp_all
  then have "unat a + 256 * load_bytes as = unat b + 256 * load_bytes bs \<longleftrightarrow> unat a = unat b \<and> load_bytes as = load_bytes bs"
    by (rule digit)
  then show ?case using Cons.IH by (simp add: load_bytes_def word_unat_eq_iff)
qed simp

lemma load_word_eq: "load_word m i = load_word m' i \<longleftrightarrow> (\<forall>a. a div 8 = i \<longrightarrow> m a = m' a)"
proof -
  let ?bs = "\<lambda>m. map m [8 * i..<8 * i + 8]"
  have "load_bytes (?bs f) < 2 ^ 64" for f using load_bytes_bound [of "?bs f"] by simp
  then have "load_word m i = load_word m' i \<longleftrightarrow> load_bytes (?bs m) = load_bytes (?bs m')"
  proof -
    have "unat (load_word f i) = load_bytes (?bs f)" for f
      using \<open>load_bytes (?bs f) < 2 ^ 64\<close> by (simp add: load_word_def unat_of_nat take_bit_nat_eq_self)
    then show ?thesis by (simp add: word_unat_eq_iff)
  qed
  also have "\<dots> \<longleftrightarrow> ?bs m = ?bs m'" by (rule load_bytes_inj) simp
  also have "\<dots> \<longleftrightarrow> (\<forall>a. a div 8 = i \<longrightarrow> m a = m' a)"
  proof -
    have "a \<in> {8 * i..<8 * i + 8} \<longleftrightarrow> a div 8 = i" for a by auto
    then show ?thesis unfolding map_eq_conv set_upt by blast
  qed
  finally show ?thesis .
qed

text \<open>The probe prints the two blocks it expects.\<close>

theorem hashes_find_changed_blocks_witness: "\<forall>fresh. mode_hash fresh = [137, 400]"
proof
  fix fresh :: "nat \<Rightarrow> 8 word"
  define n :: nat where "n = 262144"
  define m where "m = (\<lambda>a. if a < 2 ^ 21 * 512 then 0x5a else fresh a)"
  define m' where "m' = m(137 * 2 ^ 21 + 12345 := 0x5b, 400 * 2 ^ 21 + 2 ^ 21 - 1 := 0x5b)"
  have "m a \<noteq> m' a \<longleftrightarrow> a = 137 * 2 ^ 21 + 12345 \<or> a = 400 * 2 ^ 21 + 2 ^ 21 - 1" for a
    by (simp add: m_def m'_def)
  then have diff: "load_word m i \<noteq> load_word m' i \<longleftrightarrow> i = 137 * n + 1543 \<or> i = 400 * n + 262143" for i
  proof -
    have "load_word m i \<noteq> load_word m' i \<longleftrightarrow> (\<exists>a. a div 8 = i \<and> m a \<noteq> m' a)" unfolding load_word_eq by blast
    also have "\<dots> \<longleftrightarrow> (137 * 2 ^ 21 + 12345) div 8 = i \<or> (400 * 2 ^ 21 + 2 ^ 21 - 1) div 8 = i"
      unfolding \<open>\<And>a. m a \<noteq> m' a \<longleftrightarrow> a = 137 * 2 ^ 21 + 12345 \<or> a = 400 * 2 ^ 21 + 2 ^ 21 - 1\<close> by blast
    finally show ?thesis by (auto simp: n_def)
  qed
  have block: "k = 137 \<and> i = 1543 \<or> k = 400 \<and> i = 262143" if "k * n + i = 137 * n + 1543 \<or> k * n + i = 400 * n + 262143" "i < n" for k i
  proof -
    have small: "0 < n" "1543 < n" "262143 < n" by (simp_all add: n_def)
    have eq: "k = c \<and> i = d" if "k * n + i = c * n + d" "d < n" for c d
      using arg_cong [OF that(1), of "\<lambda>x. x div n"] arg_cong [OF that(1), of "\<lambda>x. x mod n"] that(2) \<open>i < n\<close> small(1) by simp
    show ?thesis using that(1)
    proof
      assume "k * n + i = 137 * n + 1543"
      then show ?thesis using eq [of 137 1543] small(2) by blast
    next
      assume "k * n + i = 400 * n + 262143"
      then show ?thesis using eq [of 400 262143] small(3) by blast
    qed
  qed
  have "changed_blocks (hash_blocks 512 n (load_word m)) (hash_blocks 512 n (load_word m')) =
      filter (\<lambda>k. \<exists>i < n. load_word m (k * n + i) \<noteq> load_word m' (k * n + i)) [0..<512]"
  proof (rule hashes_find_changed_blocks)
    fix k i j
    assume i: "i < n" "load_word m (k * n + i) \<noteq> load_word m' (k * n + i)" and j: "j < n" "load_word m (k * n + j) \<noteq> load_word m' (k * n + j)"
    have "k = 137 \<and> i = 1543 \<or> k = 400 \<and> i = 262143" using block [OF i(2) [unfolded diff] i(1)] .
    moreover have "k = 137 \<and> j = 1543 \<or> k = 400 \<and> j = 262143" using block [OF j(2) [unfolded diff] j(1)] .
    ultimately show "i = j" by auto
  qed
  also have "\<dots> = filter (\<lambda>k. k = 137 \<or> k = 400) [0..<512]"
  proof (rule filter_cong [OF refl])
    fix k
    show "(\<exists>i < n. load_word m (k * n + i) \<noteq> load_word m' (k * n + i)) \<longleftrightarrow> k = 137 \<or> k = 400"
    proof
      assume "\<exists>i < n. load_word m (k * n + i) \<noteq> load_word m' (k * n + i)"
      then obtain i where "i < n" "load_word m (k * n + i) \<noteq> load_word m' (k * n + i)" by blast
      then show "k = 137 \<or> k = 400" using block [of k i] unfolding diff by blast
    next
      have "1543 < n" "262143 < n" by (simp_all add: n_def)
      moreover assume "k = 137 \<or> k = 400"
      ultimately show "\<exists>i < n. load_word m (k * n + i) \<noteq> load_word m' (k * n + i)" unfolding diff by blast
    qed
  qed
  also have "\<dots> = [137, 400]" by (rule sorted_distinct_set_unique) (auto intro: sorted_wrt_filter)
  finally show "mode_hash fresh = [137, 400]" by (simp add: mode_hash_def Let_def m_def m'_def n_def)
qed

end
