(* ===== verification/Spec2Isabelle.thy ===== *)
theory Spec2Isabelle
  imports Vmem_Broker Allocator_Edges Runner_Demo Pattern Broker_Config Remap_Client Transpose Cupti_Shim Share_Props Vector_Verdict Spatial_Props Remap_Test Vec_Add Signals
begin

text \<open>
  libvmem and its companions: a library that gives CUDA programs device memory which can move to the
  host behind their pointers, the broker that shares one GPU among the processes that use it, and the
  primitives and experiments it grew from.

  Parts, and the theories that model them (sources are under \<open>src/\<close>):

  \<^item> \<open>libvmem/daemon/vmemd.cpp\<close>, the broker. \<open>Broker\<close>: its tables (\<open>Tenant\<close>, \<open>Global\<close>), the handler of
    each message, connects and disconnects, and the loop. \<open>Broker_Config\<close>: the config file, the command
    line, the listening socket, and the order of the calls of start-up. \<open>Broker_Inv\<close>: the accounting invariants K1 and K2 of
    \<open>daemon/README.md\<close>, kept by every handler (locale \<open>accounting\<close>, interpreted on each).
    \<open>Broker_Requests\<close>, \<open>Broker_Sync\<close>, \<open>Broker_Resync\<close>, \<open>Broker_Props\<close>: what each message does and is
    answered, the table a tenant can predict, isolation of tenants.
  \<^item> \<open>libvmem/src/protocol.h\<close> and \<open>backend.h\<close>, the wire format and the shared types: \<open>Wire\<close>.
  \<^item> \<open>libvmem/src/backends/\<close>. \<open>Vmem_Backend\<close>: the \<open>vmem\<close> backend, which asks the broker. \<open>Vmem_Steps\<close>,
    \<open>Vmem_Props\<close>: what its steps do to the driver's state, and B1 to B3 of \<open>daemon/README.md\<close>.
    \<open>Vmem_Link\<close>, \<open>Vmem_Broker\<close>: backend and broker together (B5). \<open>Backends\<close>: the \<open>cuda\<close> and \<open>uvm\<close>
    backends, the virtual calls as a record, and the contract of a backend (locale \<open>backend\<close>, interpreted
    on the dispatch to the three classes).
  \<^item> \<open>libvmem/src/libvmem.cuh\<close>, the allocator over any backend: \<open>Allocator\<close>; its invariant and the lemmas of
    its calls in \<open>Allocator_Inv\<close>, \<open>Allocator_Steps\<close>, \<open>Allocator_Calls\<close> and \<open>Allocator_Free\<close>; what its user
    sees in \<open>Allocator_Props\<close>; rounding, destruction, the library's own
    allocator (\<open>init\<close>, \<open>shutdown\<close>) and undefined corners in \<open>Allocator_Edges\<close>.
  \<^item> \<open>primitives/src/vmem.cuh\<close>, the VMM Manager: \<open>Manager\<close>, with its tables' invariant in \<open>Manager_Inv\<close> and
    \<open>Manager_Props\<close>, the rules it checks in \<open>Manager_Rules\<close>, and its agreement with the driver in
    \<open>Manager_Steps\<close>, \<open>Manager_Agree\<close> and \<open>Manager_Driver\<close>.
  \<^item> \<open>primitives/src/runner/\<close>, the interpreter of action files: \<open>Runner_Program\<close>, \<open>Runner_Parser\<close>,
    \<open>Runner_Run\<close>, \<open>Runner_Log\<close>; the parser as a type system in \<open>Runner_Sound\<close>, its syntax in
    \<open>Runner_Text\<close>, stable logs in \<open>Runner_Stable\<close>, exit codes in \<open>Runner_Props\<close>.
  \<^item> \<open>primitives/src/pattern.cuh\<close>, the kernels that fill and check memory: \<open>Pattern\<close>.
  \<^item> \<open>experiments/VMMVector\<close>, a vector that grows by mapping chunks: \<open>Vector\<close>, with the driver's memory in
    \<open>Paged_Memory\<close> and \<open>Vector_Memory\<close>, its operations on the contents in \<open>Vector_Steps\<close>, \<open>Vector_Ops\<close> and
    \<open>Vector_Life\<close>, and what its user sees in \<open>Vector_Props\<close>. Its test program \<open>main.cu\<close>:
    \<open>Vector_Scenario\<close>; the kernel and the checks on the contents in \<open>Vector_Kernel\<close>, the tests and the
    outcome of the whole program in \<open>Vector_Verdict\<close>; \<open>Grid\<close> has the order of the threads.
  \<^item> \<open>experiments/VMMRemapShared\<close>: the remap primitive and the vector that can move its chunks to the host, in
    \<open>Remap_Vector\<close>, \<open>Remap_Props\<close> and \<open>Remap_Client\<close>; its test program in
    \<open>Remap_Test\<close>. Its processes, \<open>owner.cu\<close> and
    \<open>subscriber.cu\<close> over \<open>ipc_common.h\<close>: \<open>Share\<close> gives each as a program of atomic steps on its own state, the
    shared segment, the sockets and the physical chunks, and one relation that interleaves them and lets any of
    them die between its steps. A section under the mutex is one step, so no process dies inside one: the mutex
    is not robust, and the README leaves lock and segment undefined after such a crash. \<open>Share_Inv\<close>, \<open>Share_Memory\<close> and \<open>Share_State\<close> hold the invariant, \<open>Share_Subscriber\<close>,
    \<open>Share_Regions\<close>, \<open>Share_Owner\<close> and \<open>Share_Phases\<close> show each step keeps it, \<open>Share_Reach\<close> and
    \<open>Share_Progress\<close> follow runs to their end, \<open>Share_Props\<close> has the properties.
  \<^item> \<open>experiments/warmups\<close>: \<open>Transpose\<close>, the transposition kernels under any order of their threads, and
    \<open>Vec_Add\<close>, the two vector additions, whose host code checks no call.
  \<^item> \<open>experiments/lookups/2A\<close>, a probe of the driver: \<open>Spatial\<close> has its kernels on mapped memory and the modes
    that move a buffer between device and host, \<open>Spatial_Props\<close> what they report.
  \<^item> \<open>experiments/lookups/2B\<close>, two probes that tell which allocations a kernel launch uses: \<open>Shim\<close>, what they
    share, \<open>Argshim\<close>, the hooks of the runtime, and \<open>Cupti_Shim\<close>, the callbacks of the driver. The locale
    \<open>stepping\<close> of \<open>Shim\<close> carries an invariant along a run and is interpreted on both. \<open>Signals\<close>: the kernel
    that hashes blocks of memory to find the changed ones.

  Shared: \<open>Prelude\<close> (words), \<open>Runs\<close> (calls one after the other that return or end as allowed),
  \<open>Ord_Map\<close> (\<open>std::map\<close>; locale \<open>ordered_map\<close>), \<open>Text\<close> (printing and reading numbers, character classes). \<open>Manager_Demo\<close>, \<open>Runner_Demo\<close> and \<open>Vector_Demo\<close> hold concrete worlds and the
  witnesses of the properties whose hypotheses need one.

  Conventions. A class or struct is a record, and an operation takes it and returns it updated. \<open>size_t\<close>
  and device addresses are \<open>64 word\<close>, so wrap-around is the code's. \<open>std::map\<close> is a sorted association
  list. A failing operation returns an error value: a \<open>Status\<close>, an \<open>outcome\<close> for the allocator
  (\<open>Return\<close>, \<open>Throw\<close> or undefined behaviour), a sum for the Manager and the runner, an \<open>ending\<close> for the
  vectors. The CUDA driver and runtime, the sockets, the clock and the file system are no part of the
  repository: they are records of answer functions (\<open>Env\<close>, \<open>RtEnv\<close>, \<open>VEnv\<close>, \<open>PEnv\<close>, \<open>World\<close>, \<open>BootWorld\<close>)
  that see the history of calls. \<open>Driver\<close>, \<open>Manager_Driver\<close> and \<open>Paged_Memory\<close> read a history as the
  documentation of the virtual memory calls does, and a property that needs the driver to keep its
  documentation says so in a hypothesis (\<open>lawful\<close>, \<open>documented\<close>, \<open>obliging\<close>), which the witnesses meet with
  a concrete driver.

  Bounds. Addresses of device memory lie below \<open>2 ^ 57\<close>, as on x86-64. \<open>recv_loop\<close> counts the interruptions
  of a \<open>recv\<close>, which the environment decides; \<open>pow2_from\<close> looks at no more than the 63 powers of two a
  64-bit integer has. Reference counters, message counters, line numbers and the Manager's \<open>next_id_\<close> (an \<open>int\<close> of the code,
  one for each chunk ever created) are unbounded integers. The sides of the matrices in \<open>Transpose\<close> are
  naturals; its reference loop, which computes in \<open>int\<close>, is undefined above 46340.
  A run of the sharing processes has at most \<open>share_bound\<close> steps, which is proved, so its relation needs no fuel;
  \<open>share_fits\<close> keeps it within the 64 chunks and 32 subscribers for which the code has room.
  A message whose location field is neither device nor host is outside the model of the broker, and so are
  sizes within a granule of \<open>2 ^ 64\<close> where a property names that condition (\<open>size_ok\<close>, \<open>no_wrap\<close>,
  \<open>sane_sizes\<close>, \<open>op_ok\<close>); what the code does there is shown by lemmas (\<open>huge_alloc_is_granted\<close>,
  \<open>map_check_wraps\<close>, \<open>reserve_wraps\<close>, \<open>constructor_wraps\<close>).
  Every other loop is structural recursion, or a \<open>function\<close> with its measure.

  Not modelled: the tests, benchmarks, analysis scripts and notes, which are no part of the programs; the
  experiments that only time the driver or print its properties (the other modes of \<open>experiments/lookups/2A\<close>,
  \<open>ctx-overhead\<close>, \<open>vmm-latency\<close>, \<open>props.cu\<close>); start-up of the driver, printing and clocks of the
  experiments; the arithmetic of floats, which is a parameter; the text of a failed driver call beyond its
  name and code; the races of threads inside one process (the library documents itself as not thread
  safe), except in the kernels, where every order of the threads is covered.
\<close>

end
